(* ===== verification/Prelude.thy ===== *)
theory Prelude
  imports Main "HOL-Library.Multiset"
begin

text \<open>
  What every other theory of the development shares: the errors the C++ code can end in, the
  result type that carries them, the sequencing combinators, the fixed-width wrap-around helpers
  and a few generic facts on lists.

  A C++ exception, a failed \<open>assert\<close>, \<open>output->fatal\<close> and undefined behaviour each become a value
  of \<open>sim_error\<close> under \<open>Inl\<close>; a normal return is \<open>Inr\<close>.
\<close>

named_theorems res_simps \<open>rewriting results\<close>

section \<open>Errors and results\<close>

datatype sim_error =
    AssertFail        \<comment> \<open>a failed assert\<close>
  | InvalidArgument   \<comment> \<open>std::invalid_argument\<close>
  | RuntimeError      \<comment> \<open>std::runtime_error\<close>
  | OutOfRange        \<comment> \<open>std::out_of_range of at()\<close>
  | BadOptional       \<comment> \<open>std::bad_optional_access\<close>
  | BadVariant        \<comment> \<open>std::bad_variant_access\<close>
  | FatalExit         \<comment> \<open>SST::Output::fatal\<close>
  | NullDeref         \<comment> \<open>use of a null pointer\<close>
  | Undefined         \<comment> \<open>other undefined behaviour\<close>
  | Diverges          \<comment> \<open>a loop that never ends\<close>

type_synonym 'a res = "sim_error + 'a"

definition bindr :: "'a res \<Rightarrow> ('a \<Rightarrow> 'b res) \<Rightarrow> 'b res" where
  "bindr m f = (case m of Inl e \<Rightarrow> Inl e | Inr x \<Rightarrow> f x)"

definition guardr :: "bool \<Rightarrow> sim_error \<Rightarrow> 'a res \<Rightarrow> 'a res" where
  "guardr b e k = (if b then k else Inl e)"

definition the_res :: "sim_error \<Rightarrow> 'a option \<Rightarrow> 'a res" where
  "the_res e x = (case x of None \<Rightarrow> Inl e | Some y \<Rightarrow> Inr y)"

definition atr :: "'a list \<Rightarrow> nat \<Rightarrow> 'a res" where
  "atr xs i = (if i < length xs then Inr (xs ! i) else Inl OutOfRange)"

text \<open>\<open>&&\<close> evaluates its right operand only when the left one is true.\<close>

definition andr :: "bool res \<Rightarrow> bool res \<Rightarrow> bool res" where
  "andr a b = bindr a (\<lambda>x. if x then b else Inr False)"

text \<open>A loop over a list that threads a state and stops at the first error.\<close>

fun foldr_res :: "('a \<Rightarrow> 's \<Rightarrow> 's res) \<Rightarrow> 'a list \<Rightarrow> 's \<Rightarrow> 's res" where
  "foldr_res f [] s = Inr s"
| "foldr_res f (x # xs) s = bindr (f x s) (foldr_res f xs)"

lemma bindr_simps [simp, res_simps]:
  "bindr (Inl e) f = Inl e" "bindr (Inr x) f = f x"
  by (simp_all add: bindr_def)

lemma bindr_cong [fundef_cong]:
  "m = m' \<Longrightarrow> (\<And>x. m' = Inr x \<Longrightarrow> f x = g x) \<Longrightarrow> bindr m f = bindr m' g"
  by (cases m') (auto simp: bindr_def)

lemma bindr_Inr_iff [res_simps]: "bindr m f = Inr y \<longleftrightarrow> (\<exists>x. m = Inr x \<and> f x = Inr y)"
  by (cases m) auto

lemma bindr_Inl_iff: "bindr m f = Inl e \<longleftrightarrow> m = Inl e \<or> (\<exists>x. m = Inr x \<and> f x = Inl e)"
  by (cases m) auto

lemma bindr_assoc: "bindr (bindr m f) g = bindr m (\<lambda>x. bindr (f x) g)"
  by (cases m) auto

lemma guardr_simps [simp, res_simps]: "guardr True e k = k" "guardr False e k = Inl e"
  by (simp_all add: guardr_def)

lemma guardr_Inr_iff [res_simps]: "guardr b e k = Inr y \<longleftrightarrow> b \<and> k = Inr y"
  by (simp add: guardr_def)

lemma the_res_simps [simp]: "the_res e None = Inl e" "the_res e (Some x) = Inr x"
  by (simp_all add: the_res_def)

lemma the_res_Inr_iff [res_simps]: "the_res e x = Inr y \<longleftrightarrow> x = Some y"
  by (cases x) auto

lemma atr_Inr_iff [res_simps]: "atr xs i = Inr y \<longleftrightarrow> i < length xs \<and> xs ! i = y"
  by (auto simp: atr_def)

lemma atr_in [simp]: "i < length xs \<Longrightarrow> atr xs i = Inr (xs ! i)"
  by (simp add: atr_def)

text \<open>An invariant of the body of a loop is an invariant of the loop.\<close>

lemma foldr_res_inv:
  assumes "foldr_res f xs s = Inr s'" and "I s"
    and "\<And>x s s'. x \<in> set xs \<Longrightarrow> I s \<Longrightarrow> f x s = Inr s' \<Longrightarrow> I s'"
  shows "I s'"
  using assms
proof (induction xs arbitrary: s)
  case Nil
  then show ?case by simp
next
  case (Cons x xs)
  from Cons.prems(1) obtain t where t: "f x s = Inr t" "foldr_res f xs t = Inr s'"
    by (auto simp: bindr_Inr_iff)
  from t(1) Cons.prems(2,3) have "I t" by (meson list.set_intros(1))
  with t(2) show ?case by (rule Cons.IH) (meson Cons.prems(3) list.set_intros(2))
qed

lemma foldr_res_append:
  "foldr_res f (xs @ ys) s = bindr (foldr_res f xs s) (foldr_res f ys)"
proof (induction xs arbitrary: s)
  case (Cons x xs)
  then show ?case by (cases "f x s") simp_all
qed simp

text \<open>A loop whose body never fails under an invariant never fails.\<close>

lemma foldr_res_total:
  assumes "I s"
    and "\<And>x s. x \<in> set xs \<Longrightarrow> I s \<Longrightarrow> \<exists>s'. f x s = Inr s' \<and> I s'"
  shows "\<exists>s'. foldr_res f xs s = Inr s' \<and> I s'"
  using assms
proof (induction xs arbitrary: s)
  case Nil
  then show ?case by simp
next
  case (Cons x xs)
  from Cons.prems obtain t where t: "f x s = Inr t" "I t" by (meson list.set_intros(1))
  then show ?case using Cons.IH [of t] Cons.prems(2) by auto
qed

lemma andr_Inr_True_iff: "andr a b = Inr True \<longleftrightarrow> a = Inr True \<and> b = Inr True"
  by (cases a) (auto simp: andr_def split: if_splits)

section \<open>Fixed-width integers\<close>

text \<open>The value an \<open>std::int16_t\<close> holds after an assignment, and unsigned decrements that wrap.\<close>

definition s16 :: "int \<Rightarrow> int" where
  "s16 x = (x + 32768) mod 65536 - 32768"

definition u16_dec :: "nat \<Rightarrow> nat" where
  "u16_dec n = (if n = 0 then 65535 else n - 1)"

definition u64_dec :: "nat \<Rightarrow> nat" where
  "u64_dec n = (if n = 0 then 2 ^ 64 - 1 else n - 1)"

lemma s16_id: "-32768 \<le> x \<Longrightarrow> x < 32768 \<Longrightarrow> s16 x = x"
  by (simp add: s16_def)

lemma s16_range: "-32768 \<le> s16 x" "s16 x < 32768"
  by (simp_all add: s16_def)

lemma s16_cong: "s16 x = s16 y \<longleftrightarrow> x mod 65536 = y mod 65536"
proof
  assume "s16 x = s16 y"
  then have "(x + 32768) mod 65536 = (y + 32768) mod 65536" by (simp add: s16_def)
  then have "(x + 32768 - 32768) mod 65536 = (y + 32768 - 32768) mod 65536"
    by (rule mod_diff_cong) simp
  then show "x mod 65536 = y mod 65536" by simp
next
  assume "x mod 65536 = y mod 65536"
  then have "(x + 32768) mod 65536 = (y + 32768) mod 65536"
    by (rule mod_add_cong) simp
  then show "s16 x = s16 y" by (simp add: s16_def)
qed

lemma s16_mod: "s16 x mod 65536 = x mod 65536"
proof -
  have "((x + 32768) mod 65536 - 32768) mod 65536 = (x + 32768 - 32768) mod 65536"
    by (rule mod_diff_left_eq)
  then show ?thesis by (simp add: s16_def)
qed

lemma s16_s16_add: "s16 (s16 x + y) = s16 (x + y)"
proof -
  have "(s16 x + y) mod 65536 = (x + y) mod 65536"
    by (rule mod_add_cong) (simp_all add: s16_mod)
  then show ?thesis by (simp add: s16_cong)
qed

lemma s16_s16 [simp]: "s16 (s16 x) = s16 x"
  using s16_s16_add [of x 0] by simp

section \<open>Lists and indices\<close>

text \<open>The first index of a vector that satisfies a predicate, as the search loops return it.\<close>

fun find_index_from :: "nat \<Rightarrow> ('a \<Rightarrow> bool) \<Rightarrow> 'a list \<Rightarrow> nat option" where
  "find_index_from n p [] = None"
| "find_index_from n p (x # xs) = (if p x then Some n else find_index_from (Suc n) p xs)"

abbreviation find_first_index :: "('a \<Rightarrow> bool) \<Rightarrow> 'a list \<Rightarrow> nat option" where
  "find_first_index p xs \<equiv> find_index_from 0 p xs"

lemma find_index_from_Some:
  "find_index_from n p xs = Some k \<Longrightarrow> n \<le> k \<and> k - n < length xs \<and> p (xs ! (k - n))"
proof (induction n p xs rule: find_index_from.induct)
  case (2 n p x xs)
  show ?case
  proof (cases "p x")
    case True
    with 2 show ?thesis by simp
  next
    case False
    with 2 have "Suc n \<le> k" "k - Suc n < length xs" "p (xs ! (k - Suc n))" by auto
    then show ?thesis by (auto simp: nth_Cons')
  qed
qed simp

lemma find_first_index_Some:
  "find_first_index p xs = Some k \<Longrightarrow> k < length xs \<and> p (xs ! k)"
  using find_index_from_Some [of 0 p xs k] by simp

lemma find_index_from_None: "find_index_from n p xs = None \<longleftrightarrow> (\<forall>x \<in> set xs. \<not> p x)"
  by (induction n p xs rule: find_index_from.induct) auto

lemma find_index_from_least:
  "find_index_from n p xs = Some k \<Longrightarrow> i < k - n \<Longrightarrow> \<not> p (xs ! i)"
proof (induction n p xs arbitrary: i rule: find_index_from.induct)
  case (2 n p x xs)
  show ?case
  proof (cases "p x")
    case False
    with 2 show ?thesis by (cases i) auto
  qed (use 2 in auto)
qed simp

lemma list_all_update: "list_all P xs \<Longrightarrow> P y \<Longrightarrow> list_all P (xs[i := y])"
  by (auto simp: list_all_iff dest: set_update_subset_insert [THEN subsetD])

lemma list_all2_nth_update_same:
  "i < length xs \<Longrightarrow> xs[i := xs ! i] = xs"
  by simp

section \<open>Decimal numbers\<close>

text \<open>\<open>operator<<\<close> of an unsigned integer on a string stream, and \<open>std::to_string\<close>.\<close>

definition digit_char :: "nat \<Rightarrow> char" where
  "digit_char d = char_of (48 + d)"

fun show_nat :: "nat \<Rightarrow> string" where
  "show_nat n = (if n < 10 then [digit_char n] else show_nat (n div 10) @ [digit_char (n mod 10)])"

declare show_nat.simps [simp del]

definition show_int :: "int \<Rightarrow> string" where
  "show_int i = (if i < 0 then CHR ''-'' # show_nat (nat (- i)) else show_nat (nat i))"

text \<open>An unsigned integer under \<open>std::hex\<close>.\<close>

definition hex_char :: "nat \<Rightarrow> char" where
  "hex_char d = (if d < 10 then char_of (48 + d) else char_of (87 + d))"

fun show_hex :: "nat \<Rightarrow> string" where
  "show_hex n = (if n < 16 then [hex_char n] else show_hex (n div 16) @ [hex_char (n mod 16)])"

declare show_hex.simps [simp del]

lemma show_nat_nonempty [simp]: "show_nat n \<noteq> []"
  by (subst show_nat.simps) simp

end
