(* ===== verification/Opcode.thy ===== *)
theory Opcode
  imports Prelude
begin

text \<open>
  The simulator's instruction opcodes (\<open>opcode.h\<close>, \<open>opcode.cc\<close>), their printed names and their
  order, and the parsed operands and instructions the trace reader hands to a chip
  (\<open>readers/reader.h\<close>). All paths of this development are under
  \<open>src/CinnamonSimulator/custom-elements/cinnamon/src\<close> unless a longer one is given.
\<close>

section \<open>Opcodes\<close>

datatype opcode =
    LoadV | LoadS | Store | Spill | EvkGen | Dis | Rcv | Joi | Add | Sub | Neg | Mul | Div | Rot
  | Con | Ntt | IntOp | Mov | Pl1 | SuD | Bci | BcW | BcR | Nop | Rsi | Rsv | Mod | NUM_OPCODES

text \<open>\<open>Int\<close> is written \<open>IntOp\<close>: the name is taken in Isabelle. The enumerators in declaration order; an enumerator's value is its position.\<close>

definition opcodes :: "opcode list" where
  "opcodes = [LoadV, LoadS, Store, Spill, EvkGen, Dis, Rcv, Joi, Add, Sub, Neg, Mul, Div, Rot,
     Con, Ntt, IntOp, Mov, Pl1, SuD, Bci, BcW, BcR, Nop, Rsi, Rsv, Mod, NUM_OPCODES]"

fun opcode_value :: "opcode \<Rightarrow> nat" where
  "opcode_value LoadV = 0" | "opcode_value LoadS = 1" | "opcode_value Store = 2"
| "opcode_value Spill = 3" | "opcode_value EvkGen = 4" | "opcode_value Dis = 5"
| "opcode_value Rcv = 6" | "opcode_value Joi = 7" | "opcode_value Add = 8"
| "opcode_value Sub = 9" | "opcode_value Neg = 10" | "opcode_value Mul = 11"
| "opcode_value Div = 12" | "opcode_value Rot = 13" | "opcode_value Con = 14"
| "opcode_value Ntt = 15" | "opcode_value IntOp = 16" | "opcode_value Mov = 17"
| "opcode_value Pl1 = 18" | "opcode_value SuD = 19" | "opcode_value Bci = 20"
| "opcode_value BcW = 21" | "opcode_value BcR = 22" | "opcode_value Nop = 23"
| "opcode_value Rsi = 24" | "opcode_value Rsv = 25" | "opcode_value Mod = 26"
| "opcode_value NUM_OPCODES = 27"

lemma opcode_value_inj: "opcode_value a = opcode_value b \<longleftrightarrow> a = b"
  by (cases a; cases b) simp_all

text \<open>An \<open>enum class\<close> is compared by its values.\<close>

instantiation opcode :: linorder
begin

definition less_eq_opcode :: "opcode \<Rightarrow> opcode \<Rightarrow> bool" where
  "less_eq_opcode a b \<longleftrightarrow> opcode_value a \<le> opcode_value b"

definition less_opcode :: "opcode \<Rightarrow> opcode \<Rightarrow> bool" where
  "less_opcode a b \<longleftrightarrow> opcode_value a < opcode_value b"

instance
  by standard (auto simp: less_eq_opcode_def less_opcode_def opcode_value_inj)

end

text \<open>\<open>getOpCodeString\<close>: the default branch throws \<open>std::invalid_argument\<close>.\<close>

fun getOpCodeString :: "opcode \<Rightarrow> string res" where
  "getOpCodeString LoadV = Inr ''LoadV''"
| "getOpCodeString LoadS = Inr ''LoadS''"
| "getOpCodeString Store = Inr ''Store''"
| "getOpCodeString Spill = Inr ''Spill''"
| "getOpCodeString EvkGen = Inr ''EvkGen''"
| "getOpCodeString Dis = Inr ''Dis''"
| "getOpCodeString Rcv = Inr ''Rcv''"
| "getOpCodeString Joi = Inr ''Joi''"
| "getOpCodeString Add = Inr ''Add''"
| "getOpCodeString Sub = Inr ''Sub''"
| "getOpCodeString Neg = Inr ''Neg''"
| "getOpCodeString Mul = Inr ''Mul''"
| "getOpCodeString Div = Inr ''Div''"
| "getOpCodeString Rot = Inr ''Rot''"
| "getOpCodeString Con = Inr ''Con''"
| "getOpCodeString Ntt = Inr ''Ntt''"
| "getOpCodeString IntOp = Inr ''Int''"
| "getOpCodeString Mov = Inr ''Mov''"
| "getOpCodeString Pl1 = Inr ''Pl1''"
| "getOpCodeString SuD = Inr ''SuD''"
| "getOpCodeString Bci = Inr ''Bci''"
| "getOpCodeString BcW = Inr ''BcW''"
| "getOpCodeString BcR = Inr ''BcR''"
| "getOpCodeString Nop = Inr ''Nop''"
| "getOpCodeString Rsi = Inr ''Rsi''"
| "getOpCodeString Rsv = Inr ''Rsv''"
| "getOpCodeString Mod = Inr ''Mod''"
| "getOpCodeString NUM_OPCODES = Inl InvalidArgument"

section \<open>Parsed operands and instructions\<close>

text \<open>
  \<open>CinnamonParsedValueType\<close> is the variant of the five parsed operand structs. Register and unit
  ids are \<open>uint16_t\<close> and \<open>uint8_t\<close> in the code; here they are naturals that the parser reduces to
  those widths.
\<close>

datatype parsed_value =
    ParsedVec (pv_id: nat) (pv_dead: bool)
  | ParsedScal (pv_id: nat) (pv_dead: bool)
  | ParsedBcu (pb_id: nat) (pb_reg: "nat option")
  | ParsedBcuInit (pb_id: nat) (pb_writes: nat) (pb_reads: nat)
  | ParsedTerm (pt_term: string) (pt_free: bool)

record parsed_instr =
  pi_op :: opcode
  pi_base :: nat
  pi_syncID :: "nat option"
  pi_syncSize :: "nat option"
  pi_rot :: "int option"
  pi_srcs :: "parsed_value list"
  pi_dests :: "parsed_value list"

text \<open>
  The three constructors of \<open>CinnamonParsedInstruction\<close>. The one with the synchronisation fields
  takes them as \<open>std::optional<uint32_t>\<close>, so a 64-bit id is truncated to 32 bits on the way in.
\<close>

definition parsed_rot :: "opcode \<Rightarrow> int option \<Rightarrow> nat \<Rightarrow> parsed_value list \<Rightarrow> parsed_value list
    \<Rightarrow> parsed_instr" where
  "parsed_rot op rot base dests srcs =
     \<lparr>pi_op = op, pi_base = base mod 2 ^ 16, pi_syncID = None, pi_syncSize = None, pi_rot = rot,
      pi_srcs = srcs, pi_dests = dests\<rparr>"

definition parsed_plain :: "opcode \<Rightarrow> nat \<Rightarrow> parsed_value list \<Rightarrow> parsed_value list
    \<Rightarrow> parsed_instr" where
  "parsed_plain op base dests srcs =
     \<lparr>pi_op = op, pi_base = base mod 2 ^ 16, pi_syncID = None, pi_syncSize = None, pi_rot = None,
      pi_srcs = srcs, pi_dests = dests\<rparr>"

definition parsed_sync :: "opcode \<Rightarrow> nat \<Rightarrow> nat \<Rightarrow> nat \<Rightarrow> parsed_value list \<Rightarrow> parsed_value list
    \<Rightarrow> parsed_instr" where
  "parsed_sync op base sid sz dests srcs =
     \<lparr>pi_op = op, pi_base = base mod 2 ^ 16, pi_syncID = Some (sid mod 2 ^ 32),
      pi_syncSize = Some (sz mod 2 ^ 32), pi_rot = None, pi_srcs = srcs, pi_dests = dests\<rparr>"

section \<open>Facts\<close>

lemma getOpCodeString_ok: "op \<noteq> NUM_OPCODES \<Longrightarrow> \<exists>s. getOpCodeString op = Inr s"
  by (cases op) simp_all

lemma getOpCodeString_inj:
  "getOpCodeString a = Inr s \<Longrightarrow> getOpCodeString b = Inr s \<Longrightarrow> a = b"
  by (cases a; cases b) auto

end
