(* ===== verification/Registers.thy ===== *)
theory Registers
  imports Prelude
begin

text \<open>
  Physical registers (\<open>physicalRegister.h\<close>, \<open>physicalRegister.cc\<close>), base conversion registers
  (\<open>baseConversionRegister.h\<close>, \<open>baseConversionRegister.cc\<close>) and the part of \<open>CinnamonChip\<close> they
  reach through their back pointer: the register files and the free lists of \<open>chip.h\<close>.

  The code shares registers through \<open>std::shared_ptr\<close>. Here the objects live in a register file
  and a pointer is an index into it (\<open>RV\<close>, \<open>RS\<close> for the chip's vector and scalar registers,
  \<open>RF\<close> for a forwarding register allocated while an instruction is split), so aliasing is kept.
  A reference count is the \<open>std::int16_t\<close> of the code: every update is reduced by \<open>s16\<close>.
\<close>

section \<open>State\<close>

datatype preg_type = Vector | Scalar | Forwarding

datatype preg = RV nat | RS nat | RF nat

record phys_reg =
  pr_type :: preg_type
  pr_id :: nat
  pr_ready :: bool
  pr_isFree :: bool
  pr_mapped :: "nat option"
  pr_refs :: int

record bc_reg =
  br_virt :: nat
  br_phy :: "nat option"
  br_writes :: int
  br_reads :: int
  br_ready :: bool
  br_refs :: nat

record regfile =
  rf_v :: "phys_reg list"
  rf_s :: "phys_reg list"
  rf_f :: "phys_reg list"
  rf_b :: "bc_reg list"
  rf_freeV :: "nat list"
  rf_freeS :: "nat list"
  rf_freeB :: "nat list"
  rf_vmap :: "nat \<Rightarrow> nat option"
  rf_smap :: "nat \<Rightarrow> nat option"
  rf_bmap :: "nat \<Rightarrow> nat option"
  rf_reads :: nat
  rf_writes :: nat

definition new_phys_reg :: "preg_type \<Rightarrow> nat \<Rightarrow> phys_reg" where
  "new_phys_reg t i = \<lparr>pr_type = t, pr_id = i, pr_ready = False, pr_isFree = True,
     pr_mapped = None, pr_refs = 0\<rparr>"

text \<open>The constructor without a chip, which asserts that the register is a forwarding one.\<close>

definition new_fw_reg :: "preg_type \<Rightarrow> nat \<Rightarrow> phys_reg res" where
  "new_fw_reg t i = guardr (t = Forwarding) AssertFail (Inr (new_phys_reg t i))"

definition new_bc_reg :: "nat \<Rightarrow> bc_reg" where
  "new_bc_reg v = \<lparr>br_virt = v, br_phy = None, br_writes = 0, br_reads = 0, br_ready = False,
     br_refs = 0\<rparr>"

section \<open>Pointers\<close>

fun get_reg :: "regfile \<Rightarrow> preg \<Rightarrow> phys_reg res" where
  "get_reg rf (RV i) = (if i < length (rf_v rf) then Inr (rf_v rf ! i) else Inl Undefined)"
| "get_reg rf (RS i) = (if i < length (rf_s rf) then Inr (rf_s rf ! i) else Inl Undefined)"
| "get_reg rf (RF i) = (if i < length (rf_f rf) then Inr (rf_f rf ! i) else Inl Undefined)"

fun put_reg :: "preg \<Rightarrow> phys_reg \<Rightarrow> regfile \<Rightarrow> regfile" where
  "put_reg (RV i) p rf = rf\<lparr>rf_v := (rf_v rf)[i := p]\<rparr>"
| "put_reg (RS i) p rf = rf\<lparr>rf_s := (rf_s rf)[i := p]\<rparr>"
| "put_reg (RF i) p rf = rf\<lparr>rf_f := (rf_f rf)[i := p]\<rparr>"

text \<open>\<open>std::make_shared<PhysicalRegister>(Forwarding, id)\<close>.\<close>

definition alloc_fw :: "nat \<Rightarrow> regfile \<Rightarrow> (preg \<times> regfile) res" where
  "alloc_fw i rf = bindr (new_fw_reg Forwarding i) (\<lambda>p.
     Inr (RF (length (rf_f rf)), rf\<lparr>rf_f := rf_f rf @ [p]\<rparr>))"

section \<open>Physical register operations\<close>

definition setValueReady :: "preg \<Rightarrow> bool \<Rightarrow> regfile \<Rightarrow> regfile res" where
  "setValueReady r b rf = bindr (get_reg rf r) (\<lambda>p. Inr (put_reg r (p\<lparr>pr_ready := b\<rparr>) rf))"

definition getValueReady :: "regfile \<Rightarrow> preg \<Rightarrow> bool res" where
  "getValueReady rf r = bindr (get_reg rf r) (\<lambda>p. Inr (pr_ready p))"

definition getID :: "regfile \<Rightarrow> preg \<Rightarrow> nat res" where
  "getID rf r = bindr (get_reg rf r) (\<lambda>p. Inr (pr_id p))"

definition numReferences :: "regfile \<Rightarrow> preg \<Rightarrow> int res" where
  "numReferences rf r = bindr (get_reg rf r) (\<lambda>p. Inr (pr_refs p))"

definition incReference :: "preg \<Rightarrow> regfile \<Rightarrow> regfile res" where
  "incReference r rf = bindr (get_reg rf r) (\<lambda>p.
     Inr (put_reg r (p\<lparr>pr_refs := s16 (pr_refs p + 1)\<rparr>) rf))"

definition addToFreeListIfFree :: "phys_reg \<Rightarrow> regfile \<Rightarrow> regfile" where
  "addToFreeListIfFree p rf =
     (if pr_refs p > 0 then rf
      else case pr_type p of
          Vector \<Rightarrow> rf\<lparr>rf_freeV := rf_freeV rf @ [pr_id p]\<rparr>
        | Scalar \<Rightarrow> rf\<lparr>rf_freeS := rf_freeS rf @ [pr_id p]\<rparr>
        | Forwarding \<Rightarrow> rf)"

definition decReference :: "preg \<Rightarrow> regfile \<Rightarrow> regfile res" where
  "decReference r rf = bindr (get_reg rf r) (\<lambda>p.
     let p' = p\<lparr>pr_refs := s16 (pr_refs p - 1)\<rparr> in
     guardr (0 \<le> pr_refs p') AssertFail
       (Inr (addToFreeListIfFree p' (put_reg r p' rf))))"

definition pr_getString :: "phys_reg \<Rightarrow> string" where
  "pr_getString p = (case pr_type p of Vector \<Rightarrow> ''R'' | Scalar \<Rightarrow> ''S'' | Forwarding \<Rightarrow> ''F'')
     @ show_nat (pr_id p)"

section \<open>Base conversion register operations\<close>

definition get_bc :: "regfile \<Rightarrow> nat \<Rightarrow> bc_reg res" where
  "get_bc rf b = (if b < length (rf_b rf) then Inr (rf_b rf ! b) else Inl Undefined)"

definition put_bc :: "nat \<Rightarrow> bc_reg \<Rightarrow> regfile \<Rightarrow> regfile" where
  "put_bc b x rf = rf\<lparr>rf_b := (rf_b rf)[b := x]\<rparr>"

definition upd_bc :: "nat \<Rightarrow> (bc_reg \<Rightarrow> bc_reg) \<Rightarrow> regfile \<Rightarrow> regfile res" where
  "upd_bc b f rf = bindr (get_bc rf b) (\<lambda>x. Inr (put_bc b (f x) rf))"

definition bc_getPhyID :: "regfile \<Rightarrow> nat \<Rightarrow> nat res" where
  "bc_getPhyID rf b = bindr (get_bc rf b) (\<lambda>x. the_res BadOptional (br_phy x))"

definition bc_hasPhysicalID :: "regfile \<Rightarrow> nat \<Rightarrow> bool res" where
  "bc_hasPhysicalID rf b = bindr (get_bc rf b) (\<lambda>x. Inr (br_phy x \<noteq> None))"

definition bc_getValueReady :: "regfile \<Rightarrow> nat \<Rightarrow> bool res" where
  "bc_getValueReady rf b = bindr (get_bc rf b) (\<lambda>x. Inr (br_ready x))"

definition bc_isCompleted :: "regfile \<Rightarrow> nat \<Rightarrow> bool res" where
  "bc_isCompleted rf b = bindr (get_bc rf b) (\<lambda>x. Inr (br_reads x = 0 \<and> br_writes x = 0))"

definition bc_setPhyID :: "nat \<Rightarrow> nat \<Rightarrow> regfile \<Rightarrow> regfile res" where
  "bc_setPhyID b i = upd_bc b (\<lambda>x. x\<lparr>br_phy := Some i\<rparr>)"

definition bc_resetPhyID :: "nat \<Rightarrow> regfile \<Rightarrow> regfile res" where
  "bc_resetPhyID b = upd_bc b (\<lambda>x. x\<lparr>br_phy := None\<rparr>)"

definition bc_setReadsRemaining :: "nat \<Rightarrow> int \<Rightarrow> regfile \<Rightarrow> regfile res" where
  "bc_setReadsRemaining b n = upd_bc b (\<lambda>x. x\<lparr>br_reads := s16 n\<rparr>)"

definition bc_setWritesRemaining :: "nat \<Rightarrow> int \<Rightarrow> regfile \<Rightarrow> regfile res" where
  "bc_setWritesRemaining b n = upd_bc b (\<lambda>x. x\<lparr>br_writes := s16 n\<rparr>)"

definition bc_incReference :: "nat \<Rightarrow> regfile \<Rightarrow> regfile res" where
  "bc_incReference b = upd_bc b (\<lambda>x. x\<lparr>br_refs := (br_refs x + 1) mod 2 ^ 16\<rparr>)"

definition executeWrite :: "nat \<Rightarrow> regfile \<Rightarrow> regfile res" where
  "executeWrite b rf = bindr (get_bc rf b) (\<lambda>x.
     guardr (br_phy x \<noteq> None) AssertFail
       (let n = s16 (br_writes x - 1) in
        guardr (0 \<le> n) AssertFail
          (Inr (put_bc b (x\<lparr>br_writes := n, br_ready := (if n = 0 then True else br_ready x)\<rparr>) rf))))"

definition executeRead :: "nat \<Rightarrow> regfile \<Rightarrow> regfile res" where
  "executeRead b rf = bindr (get_bc rf b) (\<lambda>x.
     guardr (br_phy x \<noteq> None) AssertFail
       (guardr (br_ready x) AssertFail
         (let n = s16 (br_reads x - 1) in
          guardr (0 \<le> n) AssertFail (Inr (put_bc b (x\<lparr>br_reads := n\<rparr>) rf)))))"

text \<open>
  The count is an unsigned 16-bit integer, so \<open>assert(references >= 0)\<close> holds whatever the count
  was, and a decrement of 0 wraps to 65535.
\<close>

definition bc_decReference :: "nat \<Rightarrow> regfile \<Rightarrow> regfile res" where
  "bc_decReference b rf = bindr (get_bc rf b) (\<lambda>x.
     let n = u16_dec (br_refs x); x' = x\<lparr>br_refs := n\<rparr> in
     guardr (0 \<le> n) AssertFail
       (if n = 0 then
          guardr (br_writes x = 0) AssertFail
            (guardr (br_reads x = 0) AssertFail
              (Inr ((put_bc b (x'\<lparr>br_phy := None, br_writes := 0, br_reads := 0, br_ready := False\<rparr>) rf)
                 \<lparr>rf_freeB := rf_freeB rf @ [br_virt x]\<rparr>)))
        else Inr (put_bc b x' rf)))"

definition bc_getString :: "bc_reg \<Rightarrow> string" where
  "bc_getString x = (case br_phy x of
       Some i \<Rightarrow> ''B'' @ show_nat i
     | None \<Rightarrow> ''BV'' @ show_nat (br_virt x))"

section \<open>Observations\<close>

definition refs :: "regfile \<Rightarrow> preg \<Rightarrow> int" where
  "refs rf r = (case get_reg rf r of Inl _ \<Rightarrow> 0 | Inr p \<Rightarrow> pr_refs p)"

definition ready :: "regfile \<Rightarrow> preg \<Rightarrow> bool" where
  "ready rf r = (case get_reg rf r of Inl _ \<Rightarrow> False | Inr p \<Rightarrow> pr_ready p)"

definition brefs :: "regfile \<Rightarrow> nat \<Rightarrow> nat" where
  "brefs rf b = (case get_bc rf b of Inl _ \<Rightarrow> 0 | Inr x \<Rightarrow> br_refs x)"

definition valid_reg :: "regfile \<Rightarrow> preg \<Rightarrow> bool" where
  "valid_reg rf r \<longleftrightarrow> (\<exists>p. get_reg rf r = Inr p)"

text \<open>Every register has the type and the id of its place.\<close>

definition typed_regs :: "regfile \<Rightarrow> bool" where
  "typed_regs rf \<longleftrightarrow>
     (\<forall>i < length (rf_v rf). pr_type (rf_v rf ! i) = Vector \<and> pr_id (rf_v rf ! i) = i) \<and>
     (\<forall>i < length (rf_s rf). pr_type (rf_s rf ! i) = Scalar \<and> pr_id (rf_s rf ! i) = i) \<and>
     (\<forall>i < length (rf_f rf). pr_type (rf_f rf ! i) = Forwarding) \<and>
     (\<forall>i < length (rf_b rf). br_virt (rf_b rf ! i) = i)"

lemma get_put_reg:
  "valid_reg rf r \<Longrightarrow> get_reg (put_reg r p rf) q = (if q = r then Inr p else get_reg rf q)"
  by (cases r; cases q) (auto simp: valid_reg_def split: if_splits)

lemma valid_put_reg [simp]: "valid_reg (put_reg r p rf) q = valid_reg rf q"
  by (cases r; cases q) (auto simp: valid_reg_def)

lemma get_reg_valid: "get_reg rf r = Inr p \<Longrightarrow> valid_reg rf r"
  by (auto simp: valid_reg_def)

text \<open>Fields a register update leaves alone.\<close>

lemma put_reg_frame [simp]:
  "rf_b (put_reg r p rf) = rf_b rf" "rf_freeV (put_reg r p rf) = rf_freeV rf"
  "rf_freeS (put_reg r p rf) = rf_freeS rf" "rf_freeB (put_reg r p rf) = rf_freeB rf"
  "rf_vmap (put_reg r p rf) = rf_vmap rf" "rf_smap (put_reg r p rf) = rf_smap rf"
  "rf_bmap (put_reg r p rf) = rf_bmap rf"
  "length (rf_v (put_reg r p rf)) = length (rf_v rf)"
  "length (rf_s (put_reg r p rf)) = length (rf_s rf)"
  "length (rf_f (put_reg r p rf)) = length (rf_f rf)"
  by (cases r; simp)+

lemma get_reg_free_update [simp]:
  "get_reg (rf\<lparr>rf_freeV := x\<rparr>) r = get_reg rf r" "get_reg (rf\<lparr>rf_freeS := x\<rparr>) r = get_reg rf r"
  "get_reg (rf\<lparr>rf_freeB := x\<rparr>) r = get_reg rf r" "get_reg (rf\<lparr>rf_b := z\<rparr>) r = get_reg rf r"
  "get_reg (rf\<lparr>rf_vmap := y\<rparr>) r = get_reg rf r" "get_reg (rf\<lparr>rf_smap := y\<rparr>) r = get_reg rf r"
  "get_reg (rf\<lparr>rf_bmap := y\<rparr>) r = get_reg rf r" "get_reg (rf\<lparr>rf_reads := n\<rparr>) r = get_reg rf r"
  "get_reg (rf\<lparr>rf_writes := n\<rparr>) r = get_reg rf r"
  by (cases r; simp)+

lemma addToFreeListIfFree_frame [simp]:
  "get_reg (addToFreeListIfFree p rf) r = get_reg rf r"
  "rf_b (addToFreeListIfFree p rf) = rf_b rf"
  "rf_f (addToFreeListIfFree p rf) = rf_f rf"
  "rf_freeB (addToFreeListIfFree p rf) = rf_freeB rf"
  "rf_vmap (addToFreeListIfFree p rf) = rf_vmap rf"
  "rf_smap (addToFreeListIfFree p rf) = rf_smap rf"
  "rf_bmap (addToFreeListIfFree p rf) = rf_bmap rf"
  by (auto simp: addToFreeListIfFree_def split: preg_type.splits)

lemma get_reg_put_bc [simp]: "get_reg (put_bc b x rf) r = get_reg rf r"
  by (simp add: put_bc_def)

lemma put_reg_self: "get_reg rf r = Inr p \<Longrightarrow> put_reg r p rf = rf"
  by (cases r) (auto split: if_splits)

section \<open>What the operations do to counts and values\<close>

text \<open>
  \<open>counts d rf rf'\<close>: the registers are the same objects, and each count moved by \<open>d\<close> (modulo the
  width). The deltas of operations in sequence add up.
\<close>

definition counts :: "(preg \<Rightarrow> int) \<Rightarrow> regfile \<Rightarrow> regfile \<Rightarrow> bool" where
  "counts d rf rf' \<longleftrightarrow>
     (\<forall>r. valid_reg rf' r = valid_reg rf r) \<and>
     (\<forall>r. valid_reg rf r \<longrightarrow> s16 (refs rf' r) = s16 (refs rf r + d r))"

definition delta :: "preg \<Rightarrow> preg \<Rightarrow> int" where
  "delta r q = (if q = r then 1 else 0)"

lemma counts_refl [simp]: "counts (\<lambda>_. 0) rf rf"
  by (simp add: counts_def)

lemma counts_trans:
  assumes "counts d rf rf'" "counts e rf' rf''"
  shows "counts (\<lambda>r. d r + e r) rf rf''"
  unfolding counts_def
proof (intro conjI allI impI)
  fix r
  show "valid_reg rf'' r = valid_reg rf r" using assms by (simp add: counts_def)
  assume v: "valid_reg rf r"
  then have "s16 (refs rf' r) = s16 (refs rf r + d r)"
    and e: "s16 (refs rf'' r) = s16 (refs rf' r + e r)"
    using assms by (auto simp: counts_def)
  then have "s16 (refs rf' r + e r) = s16 (refs rf r + d r + e r)"
    by (metis s16_s16_add)
  with e show "s16 (refs rf'' r) = s16 (refs rf r + (d r + e r))" by (simp add: add.assoc)
qed

lemma counts_eq: "counts d rf rf' \<Longrightarrow> (\<And>r. d r = e r) \<Longrightarrow> counts e rf rf'"
  by (simp add: counts_def)

lemma counts_by_get_reg:
  assumes "\<And>r. get_reg rf' r = get_reg rf r"
  shows "counts (\<lambda>_. 0) rf rf'"
  using assms by (simp add: counts_def valid_reg_def refs_def)

lemma counts_put_reg:
  assumes "get_reg rf r = Inr p" "s16 (pr_refs p') = s16 (pr_refs p + n)"
  shows "counts (\<lambda>q. n * delta r q) rf (put_reg r p' rf)"
  unfolding counts_def
proof (intro conjI allI impI)
  fix q
  show "valid_reg (put_reg r p' rf) q = valid_reg rf q" by simp
  assume "valid_reg rf q"
  then show "s16 (refs (put_reg r p' rf) q) = s16 (refs rf q + n * delta r q)"
    using assms get_put_reg [OF get_reg_valid [OF assms(1)], of p' q]
    by (auto simp: refs_def delta_def)
qed

lemma incReference_counts:
  assumes "incReference r rf = Inr rf'"
  shows "counts (delta r) rf rf'"
proof -
  from assms obtain p where p: "get_reg rf r = Inr p"
    "rf' = put_reg r (p\<lparr>pr_refs := s16 (pr_refs p + 1)\<rparr>) rf"
    by (auto simp: incReference_def bindr_Inr_iff)
  have "counts (\<lambda>q. 1 * delta r q) rf rf'"
    unfolding p(2) by (rule counts_put_reg [OF p(1)]) simp
  then show ?thesis by simp
qed

lemma decReference_counts:
  assumes "decReference r rf = Inr rf'"
  shows "counts (\<lambda>q. - delta r q) rf rf'"
proof -
  from assms obtain p where p: "get_reg rf r = Inr p"
    "rf' = addToFreeListIfFree (p\<lparr>pr_refs := s16 (pr_refs p - 1)\<rparr>)
             (put_reg r (p\<lparr>pr_refs := s16 (pr_refs p - 1)\<rparr>) rf)"
    by (auto simp: decReference_def bindr_Inr_iff guardr_Inr_iff Let_def)
  have "counts (\<lambda>q. -1 * delta r q) rf (put_reg r (p\<lparr>pr_refs := s16 (pr_refs p - 1)\<rparr>) rf)"
    by (rule counts_put_reg [OF p(1)]) simp
  moreover have "counts (\<lambda>_. 0) (put_reg r (p\<lparr>pr_refs := s16 (pr_refs p - 1)\<rparr>) rf) rf'"
    unfolding p(2) by (rule counts_by_get_reg) simp
  ultimately show ?thesis by (auto dest: counts_trans)
qed

lemma setValueReady_counts:
  assumes "setValueReady r b rf = Inr rf'"
  shows "counts (\<lambda>_. 0) rf rf'"
proof -
  from assms obtain p where p: "get_reg rf r = Inr p" "rf' = put_reg r (p\<lparr>pr_ready := b\<rparr>) rf"
    by (auto simp: setValueReady_def bindr_Inr_iff)
  have "counts (\<lambda>q. 0 * delta r q) rf rf'"
    unfolding p(2) by (rule counts_put_reg [OF p(1)]) simp
  then show ?thesis by simp
qed

lemma bc_ops_counts:
  "upd_bc b f rf = Inr rf' \<Longrightarrow> counts (\<lambda>_. 0) rf rf'"
  "executeWrite b rf = Inr rf' \<Longrightarrow> counts (\<lambda>_. 0) rf rf'"
  "executeRead b rf = Inr rf' \<Longrightarrow> counts (\<lambda>_. 0) rf rf'"
  "bc_decReference b rf = Inr rf' \<Longrightarrow> counts (\<lambda>_. 0) rf rf'"
  by (auto simp: upd_bc_def executeWrite_def executeRead_def bc_decReference_def Let_def
      bindr_Inr_iff guardr_Inr_iff intro!: counts_by_get_reg split: if_splits)

lemmas op_counts = incReference_counts decReference_counts setValueReady_counts bc_ops_counts

lemma bc_incReference_counts: "bc_incReference b rf = Inr rf' \<Longrightarrow> counts (\<lambda>_. 0) rf rf'"
  unfolding bc_incReference_def by (rule bc_ops_counts)

text \<open>
  The same for the base conversion registers. \<open>bc_counts d rd wr rf rf'\<close>: the reference counts moved
  by \<open>d\<close>, the reads that remain by \<open>rd\<close> and the writes that remain by \<open>wr\<close>, all modulo the 16 bits
  of the counters.
\<close>

definition bc_counts :: "(nat \<Rightarrow> int) \<Rightarrow> (nat \<Rightarrow> int) \<Rightarrow> (nat \<Rightarrow> int) \<Rightarrow> regfile \<Rightarrow> regfile \<Rightarrow> bool" where
  "bc_counts d rd wr rf rf' \<longleftrightarrow> length (rf_b rf') = length (rf_b rf) \<and>
     (\<forall>b < length (rf_b rf).
        s16 (int (br_refs (rf_b rf' ! b))) = s16 (int (br_refs (rf_b rf ! b)) + d b) \<and>
        s16 (br_reads (rf_b rf' ! b)) = s16 (br_reads (rf_b rf ! b) + rd b) \<and>
        s16 (br_writes (rf_b rf' ! b)) = s16 (br_writes (rf_b rf ! b) + wr b))"

definition bc_delta :: "nat \<Rightarrow> nat \<Rightarrow> int" where
  "bc_delta b c = (if c = b then 1 else 0)"

abbreviation nothing :: "nat \<Rightarrow> int" where
  "nothing \<equiv> (\<lambda>_. 0)"

lemma bc_counts_same: "rf_b rf' = rf_b rf \<Longrightarrow> bc_counts nothing nothing nothing rf rf'"
  by (simp add: bc_counts_def)

lemma s16_step: "s16 y = s16 (x + d) \<Longrightarrow> s16 z = s16 (y + e) \<Longrightarrow> s16 z = s16 (x + (d + e))"
  by (metis s16_s16_add add.assoc)

lemma bc_counts_trans:
  assumes "bc_counts d rd wr rf rf'" "bc_counts e re we rf' rf''"
  shows "bc_counts (\<lambda>b. d b + e b) (\<lambda>b. rd b + re b) (\<lambda>b. wr b + we b) rf rf''"
  unfolding bc_counts_def
proof (intro conjI allI impI)
  show "length (rf_b rf'') = length (rf_b rf)" using assms by (simp add: bc_counts_def)
next
  fix b
  assume "b < length (rf_b rf)"
  then have b: "b < length (rf_b rf)" "b < length (rf_b rf')" using assms by (simp_all add: bc_counts_def)
  note x = assms(1) [unfolded bc_counts_def, THEN conjunct2, rule_format, OF b(1)]
  note y = assms(2) [unfolded bc_counts_def, THEN conjunct2, rule_format, OF b(2)]
  show "s16 (int (br_refs (rf_b rf'' ! b))) = s16 (int (br_refs (rf_b rf ! b)) + (d b + e b))"
    by (rule s16_step [OF x [THEN conjunct1] y [THEN conjunct1]])
  show "s16 (br_reads (rf_b rf'' ! b)) = s16 (br_reads (rf_b rf ! b) + (rd b + re b))"
    by (rule s16_step [OF x [THEN conjunct2, THEN conjunct1] y [THEN conjunct2, THEN conjunct1]])
  show "s16 (br_writes (rf_b rf'' ! b)) = s16 (br_writes (rf_b rf ! b) + (wr b + we b))"
    by (rule s16_step [OF x [THEN conjunct2, THEN conjunct2] y [THEN conjunct2, THEN conjunct2]])
qed

lemma bc_counts_put:
  assumes "b < length (rf_b rf)" "rf_b rf' = (rf_b rf)[b := x]"
    and "s16 (int (br_refs x)) = s16 (int (br_refs (rf_b rf ! b)) + k)"
    and "s16 (br_reads x) = s16 (br_reads (rf_b rf ! b) + m)"
    and "s16 (br_writes x) = s16 (br_writes (rf_b rf ! b) + n)"
  shows "bc_counts (\<lambda>c. k * bc_delta b c) (\<lambda>c. m * bc_delta b c) (\<lambda>c. n * bc_delta b c) rf rf'"
  using assms by (auto simp: bc_counts_def bc_delta_def nth_list_update)

lemma put_bc_b [simp]: "rf_b (put_bc b x rf) = (rf_b rf)[b := x]"
  by (simp add: put_bc_def)

lemma get_bc_Inr: "get_bc rf b = Inr x \<longleftrightarrow> b < length (rf_b rf) \<and> x = rf_b rf ! b"
  by (auto simp: get_bc_def)

lemma executeRead_bc_counts:
  assumes "executeRead b rf = Inr rf'"
  shows "bc_counts nothing (\<lambda>c. - bc_delta b c) nothing rf rf'"
proof -
  let ?x = "rf_b rf ! b"
  have "b < length (rf_b rf)" "rf_b rf' = (rf_b rf)[b := ?x\<lparr>br_reads := s16 (br_reads ?x - 1)\<rparr>]"
    using assms by (auto simp: executeRead_def bindr_Inr_iff guardr_Inr_iff get_bc_Inr Let_def)
  from bc_counts_put [OF this, of 0 "-1" 0] show ?thesis by simp
qed

lemma executeWrite_bc_counts:
  assumes "executeWrite b rf = Inr rf'"
  shows "bc_counts nothing nothing (\<lambda>c. - bc_delta b c) rf rf'"
proof -
  let ?x = "rf_b rf ! b" and ?n = "s16 (br_writes (rf_b rf ! b) - 1)"
  have "b < length (rf_b rf)" "rf_b rf' = (rf_b rf)[b := ?x\<lparr>br_writes := ?n,
      br_ready := (if ?n = 0 then True else br_ready ?x)\<rparr>]"
    using assms by (auto simp: executeWrite_def bindr_Inr_iff guardr_Inr_iff get_bc_Inr Let_def)
  from bc_counts_put [OF this, of 0 0 "-1"] show ?thesis by simp
qed

lemma s16_u16_dec: "s16 (int (u16_dec n)) = s16 (int n - 1)"
  by (auto simp: u16_dec_def s16_def)

lemma bc_decReference_bc_counts:
  assumes "bc_decReference b rf = Inr rf'"
  shows "bc_counts (\<lambda>c. - bc_delta b c) nothing nothing rf rf'"
proof -
  let ?x = "(rf_b rf ! b)\<lparr>br_refs := u16_dec (br_refs (rf_b rf ! b))\<rparr>"
  obtain y where "b < length (rf_b rf)" "rf_b rf' = (rf_b rf)[b := y]" "br_refs y = br_refs ?x"
    "br_reads y = br_reads ?x" "br_writes y = br_writes ?x"
  proof (cases "br_refs ?x = 0")
    case True
    with assms that [of "?x\<lparr>br_phy := None, br_writes := 0, br_reads := 0, br_ready := False\<rparr>"]
    show thesis
      by (simp add: bc_decReference_def bindr_Inr_iff guardr_Inr_iff get_bc_Inr Let_def) auto
  next
    case False
    with assms that [of ?x] show thesis
      by (simp add: bc_decReference_def bindr_Inr_iff guardr_Inr_iff get_bc_Inr Let_def) auto
  qed
  with bc_counts_put [of b rf rf' y "-1" 0 0] s16_u16_dec show ?thesis by simp
qed

lemma bc_resetPhyID_bc_counts:
  assumes "bc_resetPhyID b rf = Inr rf'"
  shows "bc_counts nothing nothing nothing rf rf'" "bc_hasPhysicalID rf' b = Inr False"
proof -
  let ?x = "(rf_b rf ! b)\<lparr>br_phy := None\<rparr>"
  have r: "b < length (rf_b rf)" "rf_b rf' = (rf_b rf)[b := ?x]"
    using assms by (auto simp: bc_resetPhyID_def upd_bc_def bindr_Inr_iff get_bc_Inr)
  show "bc_counts nothing nothing nothing rf rf'" using bc_counts_put [OF r, of 0 0 0] by simp
  show "bc_hasPhysicalID rf' b = Inr False" using r by (simp add: bc_hasPhysicalID_def get_bc_def)
qed

lemma physical_op_bc_counts:
  "incReference r rf = Inr rf' \<Longrightarrow> bc_counts nothing nothing nothing rf rf'"
  "decReference r rf = Inr rf' \<Longrightarrow> bc_counts nothing nothing nothing rf rf'"
  "setValueReady r v rf = Inr rf' \<Longrightarrow> bc_counts nothing nothing nothing rf rf'"
  by (rule bc_counts_same,
      auto simp: incReference_def decReference_def setValueReady_def bindr_Inr_iff guardr_Inr_iff Let_def)+

lemmas op_bc_counts = executeRead_bc_counts executeWrite_bc_counts bc_decReference_bc_counts
  bc_resetPhyID_bc_counts(1) physical_op_bc_counts

text \<open>When the operations succeed.\<close>

lemma incReference_ok: "valid_reg rf r \<Longrightarrow> \<exists>rf'. incReference r rf = Inr rf'"
  by (auto simp: valid_reg_def incReference_def)

lemma decReference_ok:
  "valid_reg rf r \<Longrightarrow> 1 \<le> refs rf r \<Longrightarrow> refs rf r < 32768 \<Longrightarrow> \<exists>rf'. decReference r rf = Inr rf'"
  by (auto simp: valid_reg_def refs_def decReference_def Let_def s16_id)

lemma setValueReady_ok: "valid_reg rf r \<Longrightarrow> \<exists>rf'. setValueReady r b rf = Inr rf'"
  by (auto simp: valid_reg_def setValueReady_def)

lemma decReference_assert:
  "get_reg rf r = Inr p \<Longrightarrow> pr_refs p = 0 \<Longrightarrow> decReference r rf = Inl AssertFail"
  by (simp add: decReference_def s16_def)

end
