(* ===== verification/Instruction.thy ===== *)
theory Instruction
  imports Opcode Registers
begin

text \<open>
  The dispatched instructions of \<open>instruction.h\<close>. The class hierarchy is one datatype with a
  constructor per class; a virtual method is a function with an equation per class. An instruction
  is immutable but for the \<open>quashed\<close> flag of a memory instruction, so its value stands for the
  shared object; the registers it points to live in the register file.
\<close>

section \<open>Classes\<close>

text \<open>\<open>std::variant<shared_ptr<PhysicalRegister>, shared_ptr<BaseConversionRegister>>\<close>.\<close>

datatype vreg_or_bc = VP preg | VB nat

datatype instr =
    MemI opcode preg nat nat bool                 \<comment> \<open>phyReg, addr, size, quashed\<close>
  | BinOp opcode preg preg preg nat               \<comment> \<open>dest, src1, src2, limb\<close>
  | BcReadI opcode preg nat nat                   \<comment> \<open>dest, src1, limb\<close>
  | BcWriteI opcode nat preg nat                  \<comment> \<open>dest, src1, limb\<close>
  | NttI opcode preg "preg option" vreg_or_bc nat \<comment> \<open>dest, dest2, src1, limb\<close>
  | InttI opcode vreg_or_bc preg nat              \<comment> \<open>dest, src1, limb\<close>
  | UnOp opcode "int option" preg preg nat        \<comment> \<open>rotIndex, dest, src1, limb\<close>
  | NoOp
  | EvgI opcode preg nat                          \<comment> \<open>dest, limb\<close>
  | SuDI opcode preg preg vreg_or_bc nat          \<comment> \<open>dest, src1, src2, limb\<close>
  | BciI opcode nat                               \<comment> \<open>dest\<close>
  | BcwI opcode nat preg nat                      \<comment> \<open>dest, src1, limb\<close>
  | Pl1I opcode nat preg nat                      \<comment> \<open>dest, src1, limb\<close>
  | RsvI opcode "preg list" "preg option" nat     \<comment> \<open>dests, src1, limb\<close>
  | ModI opcode preg "preg list" nat              \<comment> \<open>dest, srcs, limb\<close>
  | DisI opcode "preg option" "preg option" nat nat "nat option" \<comment> \<open>dest, src1, syncID, syncSize, limb\<close>

fun getOpCode :: "instr \<Rightarrow> opcode" where
  "getOpCode (MemI op _ _ _ _) = op" | "getOpCode (BinOp op _ _ _ _) = op"
| "getOpCode (BcReadI op _ _ _) = op" | "getOpCode (BcWriteI op _ _ _) = op"
| "getOpCode (NttI op _ _ _ _) = op" | "getOpCode (InttI op _ _ _) = op"
| "getOpCode (UnOp op _ _ _ _) = op" | "getOpCode NoOp = Nop"
| "getOpCode (EvgI op _ _) = op" | "getOpCode (SuDI op _ _ _ _) = op"
| "getOpCode (BciI op _) = op" | "getOpCode (BcwI op _ _ _) = op"
| "getOpCode (Pl1I op _ _ _) = op" | "getOpCode (RsvI op _ _ _) = op"
| "getOpCode (ModI op _ _ _) = op" | "getOpCode (DisI op _ _ _ _ _) = op"

section \<open>Constructors\<close>

text \<open>Each constructor throws \<open>std::invalid_argument\<close> on an opcode that is not of its class.\<close>

definition mk_Mem :: "opcode \<Rightarrow> preg \<Rightarrow> nat \<Rightarrow> nat \<Rightarrow> instr res" where
  "mk_Mem op r a n =
     guardr (op \<in> {LoadV, LoadS, Store, Spill}) InvalidArgument (Inr (MemI op r a n False))"

definition mk_BinOp :: "opcode \<Rightarrow> preg \<Rightarrow> preg \<Rightarrow> preg \<Rightarrow> nat \<Rightarrow> instr res" where
  "mk_BinOp op d s1 s2 l = guardr (op \<in> {Add, Sub, Mul}) InvalidArgument (Inr (BinOp op d s1 s2 l))"

definition mk_BcRead :: "opcode \<Rightarrow> preg \<Rightarrow> nat \<Rightarrow> nat \<Rightarrow> instr res" where
  "mk_BcRead op d b l = guardr (op = BcR) InvalidArgument (Inr (BcReadI op d b l))"

definition mk_BcWrite :: "opcode \<Rightarrow> nat \<Rightarrow> preg \<Rightarrow> nat \<Rightarrow> instr res" where
  "mk_BcWrite op b s l = guardr (op = BcW) InvalidArgument (Inr (BcWriteI op b s l))"

definition mk_Ntt :: "opcode \<Rightarrow> preg \<Rightarrow> preg \<Rightarrow> nat \<Rightarrow> instr res" where
  "mk_Ntt op d s l = guardr (op = Ntt) InvalidArgument (Inr (NttI op d None (VP s) l))"

definition mk_Ntt_bc :: "opcode \<Rightarrow> preg \<Rightarrow> nat \<Rightarrow> nat \<Rightarrow> instr res" where
  "mk_Ntt_bc op d b l = guardr (op = Ntt) InvalidArgument (Inr (NttI op d None (VB b) l))"

definition mk_Ntt_bc2 :: "opcode \<Rightarrow> preg \<Rightarrow> preg \<Rightarrow> nat \<Rightarrow> nat \<Rightarrow> instr res" where
  "mk_Ntt_bc2 op d d2 b l = guardr (op = Ntt) InvalidArgument (Inr (NttI op d (Some d2) (VB b) l))"

definition mk_Intt :: "opcode \<Rightarrow> preg \<Rightarrow> preg \<Rightarrow> nat \<Rightarrow> instr res" where
  "mk_Intt op d s l = guardr (op = IntOp) InvalidArgument (Inr (InttI op (VP d) s l))"

definition mk_Intt_bc :: "opcode \<Rightarrow> nat \<Rightarrow> preg \<Rightarrow> nat \<Rightarrow> instr res" where
  "mk_Intt_bc op b s l = guardr (op = IntOp) InvalidArgument (Inr (InttI op (VB b) s l))"

definition mk_UnOp :: "opcode \<Rightarrow> preg \<Rightarrow> preg \<Rightarrow> nat \<Rightarrow> instr res" where
  "mk_UnOp op d s l =
     guardr (op \<in> {Neg, Ntt, IntOp, Con, Div}) InvalidArgument (Inr (UnOp op None d s l))"

definition mk_UnOp_rot :: "opcode \<Rightarrow> int \<Rightarrow> preg \<Rightarrow> preg \<Rightarrow> nat \<Rightarrow> instr res" where
  "mk_UnOp_rot op k d s l = guardr (op = Rot) InvalidArgument (Inr (UnOp op (Some k) d s l))"

definition mk_NoOp :: instr where
  "mk_NoOp = NoOp"

definition mk_Evg :: "opcode \<Rightarrow> preg \<Rightarrow> nat \<Rightarrow> instr res" where
  "mk_Evg op d l = guardr (op = EvkGen) InvalidArgument (Inr (EvgI op d l))"

definition mk_SuD :: "opcode \<Rightarrow> preg \<Rightarrow> preg \<Rightarrow> preg \<Rightarrow> nat \<Rightarrow> instr res" where
  "mk_SuD op d s1 s2 l = guardr (op = SuD) InvalidArgument (Inr (SuDI op d s1 (VP s2) l))"

definition mk_SuD_bc :: "opcode \<Rightarrow> preg \<Rightarrow> preg \<Rightarrow> nat \<Rightarrow> nat \<Rightarrow> instr res" where
  "mk_SuD_bc op d s1 b l = guardr (op = SuD) InvalidArgument (Inr (SuDI op d s1 (VB b) l))"

definition mk_Bci :: "opcode \<Rightarrow> nat \<Rightarrow> instr res" where
  "mk_Bci op b = guardr (op = Bci) InvalidArgument (Inr (BciI op b))"

definition mk_Bcw :: "opcode \<Rightarrow> nat \<Rightarrow> preg \<Rightarrow> nat \<Rightarrow> instr res" where
  "mk_Bcw op b s l = guardr (op = BcW) InvalidArgument (Inr (BcwI op b s l))"

definition mk_Pl1 :: "opcode \<Rightarrow> nat \<Rightarrow> preg \<Rightarrow> nat \<Rightarrow> instr res" where
  "mk_Pl1 op b s l = guardr (op = Pl1) InvalidArgument (Inr (Pl1I op b s l))"

definition mk_Rsv :: "opcode \<Rightarrow> preg list \<Rightarrow> preg option \<Rightarrow> nat \<Rightarrow> instr res" where
  "mk_Rsv op ds s l = guardr (op \<in> {Rsi, Rsv}) InvalidArgument (Inr (RsvI op ds s l))"

definition mk_Mod :: "opcode \<Rightarrow> preg \<Rightarrow> preg list \<Rightarrow> nat \<Rightarrow> instr res" where
  "mk_Mod op d ss l = guardr (op = Mod) InvalidArgument (Inr (ModI op d ss l))"

definition mk_Dis :: "opcode \<Rightarrow> preg option \<Rightarrow> preg option \<Rightarrow> nat \<Rightarrow> nat \<Rightarrow> instr res" where
  "mk_Dis op d s i n = guardr (op \<in> {Rcv, Dis}) InvalidArgument (Inr (DisI op d s i n None))"

definition mk_Joi :: "opcode \<Rightarrow> preg option \<Rightarrow> preg option \<Rightarrow> nat \<Rightarrow> nat \<Rightarrow> nat \<Rightarrow> instr res" where
  "mk_Joi op d s i n l = guardr (op = Joi) InvalidArgument (Inr (DisI op d s i n (Some l)))"

section \<open>\<open>allOperandsReady\<close>\<close>

fun vb_ready :: "regfile \<Rightarrow> vreg_or_bc \<Rightarrow> bool res" where
  "vb_ready rf (VB b) = bc_getValueReady rf b"
| "vb_ready rf (VP r) = getValueReady rf r"

fun all_ready :: "regfile \<Rightarrow> preg list \<Rightarrow> bool res" where
  "all_ready rf [] = Inr True"
| "all_ready rf (r # rs) =
     bindr (getValueReady rf r) (\<lambda>b. if b = False then Inr False else all_ready rf rs)"

definition ready_Mem :: "regfile \<Rightarrow> opcode \<Rightarrow> preg \<Rightarrow> bool res" where
  [simp]: "ready_Mem rf op r = (if op \<noteq> Store \<or> op \<noteq> Spill then Inr True else getValueReady rf r)"

definition ready_BinOp :: "regfile \<Rightarrow> preg \<Rightarrow> preg \<Rightarrow> bool res" where
  [simp]: "ready_BinOp rf s1 s2 = andr (getValueReady rf s1) (getValueReady rf s2)"

definition ready_BcRead :: "regfile \<Rightarrow> nat \<Rightarrow> bool res" where
  [simp]: "ready_BcRead rf b = bc_getValueReady rf b"

definition ready_BcWrite :: "regfile \<Rightarrow> preg \<Rightarrow> bool res" where
  [simp]: "ready_BcWrite rf s = getValueReady rf s"

definition ready_Ntt :: "regfile \<Rightarrow> vreg_or_bc \<Rightarrow> bool res" where
  [simp]: "ready_Ntt rf s = vb_ready rf s"

fun ready_Intt :: "regfile \<Rightarrow> vreg_or_bc \<Rightarrow> preg \<Rightarrow> bool res" where
  "ready_Intt rf (VB b) s = bindr (bc_hasPhysicalID rf b) (\<lambda>rd. andr (Inr rd) (getValueReady rf s))"
| "ready_Intt rf (VP d) s = andr (Inr True) (getValueReady rf s)"

definition ready_UnOp :: "regfile \<Rightarrow> preg \<Rightarrow> bool res" where
  [simp]: "ready_UnOp rf s = getValueReady rf s"

definition ready_SuD :: "regfile \<Rightarrow> preg \<Rightarrow> vreg_or_bc \<Rightarrow> bool res" where
  [simp]: "ready_SuD rf s1 s2 = bindr (vb_ready rf s2) (\<lambda>rd. andr (Inr rd) (getValueReady rf s1))"

text \<open>\<open>Bcw\<close> and \<open>Pl1\<close> have the same test.\<close>

definition ready_Bcw :: "regfile \<Rightarrow> nat \<Rightarrow> preg \<Rightarrow> bool res" where
  [simp]: "ready_Bcw rf b s = andr (bc_hasPhysicalID rf b) (getValueReady rf s)"

definition ready_Rsv :: "regfile \<Rightarrow> preg option \<Rightarrow> bool res" where
  [simp]: "ready_Rsv rf s = (case s of None \<Rightarrow> Inr True | Some r \<Rightarrow> getValueReady rf r)"

definition ready_Dis :: "regfile \<Rightarrow> opcode \<Rightarrow> preg option \<Rightarrow> bool res" where
  [simp]: "ready_Dis rf op s =
     (if op = Dis then (case s of None \<Rightarrow> Inl NullDeref | Some r \<Rightarrow> getValueReady rf r)
      else if op = Joi then (case s of Some r \<Rightarrow> getValueReady rf r | None \<Rightarrow> Inr True)
      else Inr True)"

fun allOperandsReady :: "regfile \<Rightarrow> instr \<Rightarrow> bool res" where
  "allOperandsReady rf (MemI op r a n q) = ready_Mem rf op r"
| "allOperandsReady rf (BinOp op d s1 s2 l) = ready_BinOp rf s1 s2"
| "allOperandsReady rf (BcReadI op d b l) = ready_BcRead rf b"
| "allOperandsReady rf (BcWriteI op b s l) = ready_BcWrite rf s"
| "allOperandsReady rf (NttI op d d2 s l) = ready_Ntt rf s"
| "allOperandsReady rf (InttI op d s l) = ready_Intt rf d s"
| "allOperandsReady rf (UnOp op k d s l) = ready_UnOp rf s"
| "allOperandsReady rf NoOp = Inr True"
| "allOperandsReady rf (EvgI op d l) = Inr True"
| "allOperandsReady rf (SuDI op d s1 s2 l) = ready_SuD rf s1 s2"
| "allOperandsReady rf (BciI op b) = Inr True"
| "allOperandsReady rf (BcwI op b s l) = ready_Bcw rf b s"
| "allOperandsReady rf (Pl1I op b s l) = ready_Bcw rf b s"
| "allOperandsReady rf (RsvI op ds s l) = ready_Rsv rf s"
| "allOperandsReady rf (ModI op d ss l) = all_ready rf ss"
| "allOperandsReady rf (DisI op d s i n l) = ready_Dis rf op s"

section \<open>\<open>setExecutionComplete\<close>\<close>

definition finish_dest :: "preg \<Rightarrow> regfile \<Rightarrow> regfile res" where
  "finish_dest d rf = bindr (setValueReady d True rf) (decReference d)"

fun set_one_ready :: "preg list \<Rightarrow> regfile \<Rightarrow> regfile res" where
  "set_one_ready [] rf = Inr rf"
| "set_one_ready (d # ds) rf = bindr (getValueReady rf d)
     (\<lambda>b. if b \<noteq> True then setValueReady d True rf else set_one_ready ds rf)"

definition dec_opt :: "preg option \<Rightarrow> regfile \<Rightarrow> regfile res" where
  "dec_opt s rf = (case s of None \<Rightarrow> Inr rf | Some r \<Rightarrow> decReference r rf)"

definition release_src :: "vreg_or_bc \<Rightarrow> regfile \<Rightarrow> regfile res" where
  "release_src s rf = (case s of
       VB b \<Rightarrow> bindr (executeRead b rf) (bc_decReference b)
     | VP r \<Rightarrow> decReference r rf)"

definition write_bc :: "nat \<Rightarrow> regfile \<Rightarrow> regfile res" where
  "write_bc b rf = bindr (executeWrite b rf) (bc_decReference b)"

definition complete_Mem :: "opcode \<Rightarrow> preg \<Rightarrow> regfile \<Rightarrow> regfile res" where
  [simp]: "complete_Mem op r rf =
     bindr (if op \<noteq> Store \<or> op \<noteq> Spill then setValueReady r True rf else Inr rf) (decReference r)"

definition complete_BinOp :: "preg \<Rightarrow> preg \<Rightarrow> preg \<Rightarrow> regfile \<Rightarrow> regfile res" where
  [simp]: "complete_BinOp d s1 s2 rf =
     bindr (decReference s1 rf) (\<lambda>rf. bindr (decReference s2 rf) (finish_dest d))"

definition complete_BcRead :: "preg \<Rightarrow> nat \<Rightarrow> regfile \<Rightarrow> regfile res" where
  [simp]: "complete_BcRead d b rf =
     bindr (executeRead b rf) (\<lambda>rf. bindr (bc_decReference b rf) (finish_dest d))"

text \<open>Also the body of \<open>Bcw\<close> and \<open>Pl1\<close>.\<close>

definition complete_BcWrite :: "nat \<Rightarrow> preg \<Rightarrow> regfile \<Rightarrow> regfile res" where
  [simp]: "complete_BcWrite b s rf = bindr (decReference s rf) (write_bc b)"

definition complete_Ntt :: "preg \<Rightarrow> preg option \<Rightarrow> vreg_or_bc \<Rightarrow> regfile \<Rightarrow> regfile res" where
  [simp]: "complete_Ntt d d2 s rf =
     bindr (release_src s rf) (\<lambda>rf. bindr (finish_dest d rf) (\<lambda>rf.
       case d2 of Some e \<Rightarrow> finish_dest e rf | None \<Rightarrow> Inr rf))"

definition complete_Intt :: "vreg_or_bc \<Rightarrow> preg \<Rightarrow> regfile \<Rightarrow> regfile res" where
  [simp]: "complete_Intt d s rf =
     bindr (case d of VB b \<Rightarrow> write_bc b rf | VP r \<Rightarrow> finish_dest r rf) (decReference s)"

definition complete_UnOp :: "preg \<Rightarrow> preg \<Rightarrow> regfile \<Rightarrow> regfile res" where
  [simp]: "complete_UnOp d s rf = bindr (decReference s rf) (finish_dest d)"

definition complete_SuD :: "preg \<Rightarrow> preg \<Rightarrow> vreg_or_bc \<Rightarrow> regfile \<Rightarrow> regfile res" where
  [simp]: "complete_SuD d s1 s2 rf =
     bindr (decReference s1 rf) (\<lambda>rf. bindr (release_src s2 rf) (finish_dest d))"

definition complete_Bci :: "nat \<Rightarrow> regfile \<Rightarrow> regfile res" where
  [simp]: "complete_Bci b rf = bindr (bc_resetPhyID b rf) (bc_decReference b)"

text \<open>A \<open>Rsv\<close> sets one destination that is not ready yet; its copies set the others.\<close>

definition complete_Rsv :: "opcode \<Rightarrow> preg list \<Rightarrow> preg option \<Rightarrow> regfile \<Rightarrow> regfile res" where
  [simp]: "complete_Rsv op ds s rf =
     bindr (dec_opt s rf) (\<lambda>rf. bindr (foldr_res decReference ds rf) (\<lambda>rf.
       if op = Rsi then Inr rf else set_one_ready ds rf))"

definition complete_Mod :: "preg \<Rightarrow> preg list \<Rightarrow> regfile \<Rightarrow> regfile res" where
  [simp]: "complete_Mod d ss rf = bindr (foldr_res decReference ss rf) (finish_dest d)"

definition complete_Dis :: "preg option \<Rightarrow> preg option \<Rightarrow> regfile \<Rightarrow> regfile res" where
  [simp]: "complete_Dis d s rf =
     bindr (case d of Some r \<Rightarrow> finish_dest r rf | None \<Rightarrow> Inr rf) (dec_opt s)"

fun setExecutionComplete :: "instr \<Rightarrow> regfile \<Rightarrow> regfile res" where
  "setExecutionComplete (MemI op r a n q) rf = complete_Mem op r rf"
| "setExecutionComplete (BinOp op d s1 s2 l) rf = complete_BinOp d s1 s2 rf"
| "setExecutionComplete (BcReadI op d b l) rf = complete_BcRead d b rf"
| "setExecutionComplete (BcWriteI op b s l) rf = complete_BcWrite b s rf"
| "setExecutionComplete (NttI op d d2 s l) rf = complete_Ntt d d2 s rf"
| "setExecutionComplete (InttI op d s l) rf = complete_Intt d s rf"
| "setExecutionComplete (UnOp op k d s l) rf = complete_UnOp d s rf"
| "setExecutionComplete NoOp rf = Inr rf"
| "setExecutionComplete (EvgI op d l) rf = finish_dest d rf"
| "setExecutionComplete (SuDI op d s1 s2 l) rf = complete_SuD d s1 s2 rf"
| "setExecutionComplete (BciI op b) rf = complete_Bci b rf"
| "setExecutionComplete (BcwI op b s l) rf = complete_BcWrite b s rf"
| "setExecutionComplete (Pl1I op b s l) rf = complete_BcWrite b s rf"
| "setExecutionComplete (RsvI op ds s l) rf = complete_Rsv op ds s rf"
| "setExecutionComplete (ModI op d ss l) rf = complete_Mod d ss rf"
| "setExecutionComplete (DisI op d s i n l) rf = complete_Dis d s rf"

lemmas complete_defs = setExecutionComplete.simps complete_Mem_def complete_BinOp_def
  complete_BcRead_def complete_BcWrite_def complete_Ntt_def complete_Intt_def complete_UnOp_def
  complete_SuD_def complete_Bci_def complete_Rsv_def complete_Mod_def complete_Dis_def

section \<open>Other accessors\<close>

fun getPhyReg :: "instr \<Rightarrow> preg res" where
  "getPhyReg (MemI op r a n q) = Inr r"
| "getPhyReg _ = Inl Undefined"

fun getAddr :: "instr \<Rightarrow> nat res" where
  "getAddr (MemI op r a n q) = Inr a"
| "getAddr _ = Inl Undefined"

fun getSize :: "instr \<Rightarrow> nat res" where
  "getSize (MemI op r a n q) = Inr n"
| "getSize _ = Inl Undefined"

fun quash :: "instr \<Rightarrow> regfile \<Rightarrow> (instr \<times> regfile) res" where
  "quash (MemI op r a n q) rf = bindr (decReference r rf) (\<lambda>rf. Inr (MemI op r a n True, rf))"
| "quash _ rf = Inl Undefined"

fun isQuashed :: "instr \<Rightarrow> bool" where
  "isQuashed (MemI op r a n q) = q"
| "isQuashed _ = False"

fun hasBcSrc :: "instr \<Rightarrow> bool" where
  "hasBcSrc (NttI op d d2 (VB b) l) = True"
| "hasBcSrc (SuDI op d s1 (VB b) l) = True"
| "hasBcSrc _ = False"

fun hasBcDest :: "instr \<Rightarrow> bool" where
  "hasBcDest (InttI op (VB b) s l) = True"
| "hasBcDest _ = False"

text \<open>The id is an unsigned 16-bit integer that starts at -1, that is 65535.\<close>

fun getBcSrcPhyID :: "regfile \<Rightarrow> instr \<Rightarrow> nat res" where
  "getBcSrcPhyID rf (NttI op d d2 (VB b) l) = bc_getPhyID rf b"
| "getBcSrcPhyID rf (SuDI op d s1 (VB b) l) = bc_getPhyID rf b"
| "getBcSrcPhyID rf _ = Inr 65535"

fun getBcDestPhyID :: "regfile \<Rightarrow> instr \<Rightarrow> nat res" where
  "getBcDestPhyID rf (InttI op (VB b) s l) = bc_getPhyID rf b"
| "getBcDestPhyID rf (BcwI op b s l) = bc_getPhyID rf b"
| "getBcDestPhyID rf (Pl1I op b s l) = bc_getPhyID rf b"
| "getBcDestPhyID rf _ = Inr 65535"

fun setPhyiscalBaseConversionRegister :: "instr \<Rightarrow> nat \<Rightarrow> regfile \<Rightarrow> regfile res" where
  "setPhyiscalBaseConversionRegister (BciI op b) i rf = bc_setPhyID b i rf"
| "setPhyiscalBaseConversionRegister _ i rf = Inl Undefined"

fun isCompleted :: "regfile \<Rightarrow> instr \<Rightarrow> bool res" where
  "isCompleted rf (BciI op b) = bc_isCompleted rf b"
| "isCompleted rf _ = Inl Undefined"

fun syncID :: "instr \<Rightarrow> nat res" where
  "syncID (DisI op d s i n l) = Inr i"
| "syncID _ = Inl Undefined"

fun syncSize :: "instr \<Rightarrow> nat res" where
  "syncSize (DisI op d s i n l) = Inr n"
| "syncSize _ = Inl Undefined"

fun hasSource :: "instr \<Rightarrow> bool" where
  "hasSource (DisI op d s i n l) = (s \<noteq> None)"
| "hasSource _ = False"

fun hasDest :: "instr \<Rightarrow> bool" where
  "hasDest (DisI op d s i n l) = (d \<noteq> None)"
| "hasDest _ = False"

section \<open>\<open>splitInstruction\<close>\<close>

text \<open>
  A fused instruction is split into the instructions its pipeline stages run, joined by forwarding
  registers. A forwarding register is counted once for the stage that writes it and once for the
  stage that reads it.
\<close>

fun split_ntt :: "instr \<Rightarrow> regfile \<Rightarrow> (instr list \<times> regfile) res" where
  "split_ntt (NttI op d d2 (VB b) l) rf =
     bindr (alloc_fw 5 rf) (\<lambda>(fw1, rf).
     bindr (mk_BcRead BcR fw1 b l) (\<lambda>bcread.
     bindr (incReference fw1 rf) (\<lambda>rf.
     bindr (mk_Ntt Ntt d fw1 l) (\<lambda>ntt.
     bindr (incReference fw1 rf) (\<lambda>rf. Inr ([bcread, ntt], rf))))))"
| "split_ntt (NttI op d d2 (VP r) l) rf =
     bindr (mk_Ntt Ntt d r l) (\<lambda>ntt. Inr ([ntt], rf))"
| "split_ntt _ rf = Inl Undefined"

fun split_intt :: "instr \<Rightarrow> regfile \<Rightarrow> (instr list \<times> regfile) res" where
  "split_intt (InttI op (VB b) s l) rf =
     bindr (alloc_fw 5 rf) (\<lambda>(fw1, rf).
     bindr (mk_Intt IntOp fw1 s l) (\<lambda>intt.
     bindr (incReference fw1 rf) (\<lambda>rf.
     bindr (mk_BcWrite BcW b fw1 l) (\<lambda>bcw.
     bindr (incReference fw1 rf) (\<lambda>rf. Inr ([intt, bcw], rf))))))"
| "split_intt (InttI op (VP d) s l) rf =
     bindr (mk_Intt IntOp d s l) (\<lambda>intt. Inr ([intt], rf))"
| "split_intt _ rf = Inl Undefined"

fun split_sud :: "instr \<Rightarrow> regfile \<Rightarrow> (instr list \<times> regfile) res" where
  "split_sud (SuDI op d s1 s2 l) rf =
     bindr (alloc_fw 5 rf) (\<lambda>(fw1, rf).
     bindr (case s2 of
         VB b \<Rightarrow>
           bindr (alloc_fw 7 rf) (\<lambda>(fw0, rf).
           bindr (mk_BcRead BcR fw0 b l) (\<lambda>bcread.
           bindr (incReference fw0 rf) (\<lambda>rf.
           bindr (mk_Ntt Ntt fw1 fw0 l) (\<lambda>ntt.
           bindr (incReference fw0 rf) (\<lambda>rf.
           bindr (incReference fw1 rf) (\<lambda>rf. Inr ([bcread, ntt], rf)))))))
       | VP r \<Rightarrow>
           bindr (mk_Ntt Ntt fw1 r l) (\<lambda>ntt.
           bindr (incReference fw1 rf) (\<lambda>rf. Inr ([ntt], rf))))
       (\<lambda>(pre, rf).
     bindr (alloc_fw 5 rf) (\<lambda>(fw2, rf).
     bindr (mk_BinOp Sub fw2 s1 fw1 l) (\<lambda>sub.
     bindr (incReference fw1 rf) (\<lambda>rf.
     bindr (incReference fw2 rf) (\<lambda>rf.
     bindr (mk_UnOp Div d fw2 l) (\<lambda>dv.
     bindr (incReference fw2 rf) (\<lambda>rf. Inr (pre @ [sub, dv], rf)))))))))"
| "split_sud _ rf = Inl Undefined"

fun split_pl1 :: "instr \<Rightarrow> regfile \<Rightarrow> (instr list \<times> regfile) res" where
  "split_pl1 (Pl1I op b s l) rf =
     bindr (alloc_fw 1 rf) (\<lambda>(fw1, rf).
     bindr (mk_Intt IntOp fw1 s l) (\<lambda>intt.
     bindr (incReference fw1 rf) (\<lambda>rf.
     bindr (mk_BcWrite BcW b fw1 l) (\<lambda>bcw.
     bindr (incReference fw1 rf) (\<lambda>rf. Inr ([intt, bcw], rf))))))"
| "split_pl1 _ rf = Inl Undefined"

section \<open>The references an instruction holds\<close>

fun vb_regs :: "vreg_or_bc \<Rightarrow> preg list" where
  "vb_regs (VP r) = [r]" | "vb_regs (VB b) = []"

fun opt_regs :: "preg option \<Rightarrow> preg list" where
  "opt_regs (Some r) = [r]" | "opt_regs None = []"

fun held_regs :: "instr \<Rightarrow> preg list" where
  "held_regs (MemI op r a n q) = [r]"
| "held_regs (BinOp op d s1 s2 l) = [d, s1, s2]"
| "held_regs (BcReadI op d b l) = [d]"
| "held_regs (BcWriteI op b s l) = [s]"
| "held_regs (NttI op d d2 s l) = d # opt_regs d2 @ vb_regs s"
| "held_regs (InttI op d s l) = vb_regs d @ [s]"
| "held_regs (UnOp op k d s l) = [d, s]"
| "held_regs NoOp = []"
| "held_regs (EvgI op d l) = [d]"
| "held_regs (SuDI op d s1 s2 l) = [d, s1] @ vb_regs s2"
| "held_regs (BciI op b) = []"
| "held_regs (BcwI op b s l) = [s]"
| "held_regs (Pl1I op b s l) = [s]"
| "held_regs (RsvI op ds s l) = opt_regs s @ ds"
| "held_regs (ModI op d ss l) = d # ss"
| "held_regs (DisI op d s i n l) = opt_regs d @ opt_regs s"

fun vb_bcs :: "vreg_or_bc \<Rightarrow> nat list" where
  "vb_bcs (VB b) = [b]" | "vb_bcs (VP r) = []"

fun held_bcs :: "instr \<Rightarrow> nat list" where
  "held_bcs (BcReadI op d b l) = [b]" | "held_bcs (BcWriteI op b s l) = [b]"
| "held_bcs (NttI op d d2 s l) = vb_bcs s" | "held_bcs (InttI op d s l) = vb_bcs d"
| "held_bcs (SuDI op d s1 s2 l) = vb_bcs s2" | "held_bcs (BciI op b) = [b]"
| "held_bcs (BcwI op b s l) = [b]" | "held_bcs (Pl1I op b s l) = [b]"
| "held_bcs _ = []"

text \<open>The registers it writes; a \<open>Rsv\<close> makes one of its destinations ready, which is not listed.\<close>

fun dest_regs :: "instr \<Rightarrow> preg list" where
  "dest_regs (MemI op r a n q) = [r]" | "dest_regs (BinOp op d s1 s2 l) = [d]"
| "dest_regs (BcReadI op d b l) = [d]" | "dest_regs (NttI op d d2 s l) = d # opt_regs d2"
| "dest_regs (InttI op d s l) = vb_regs d" | "dest_regs (UnOp op k d s l) = [d]"
| "dest_regs (EvgI op d l) = [d]" | "dest_regs (SuDI op d s1 s2 l) = [d]"
| "dest_regs (ModI op d ss l) = [d]" | "dest_regs (DisI op d s i n l) = opt_regs d"
| "dest_regs _ = []"

text \<open>The base conversion registers whose value it reads, and those it writes; a \<open>Bci\<close> does neither.\<close>

fun read_bcs :: "instr \<Rightarrow> nat list" where
  "read_bcs (BcReadI op d b l) = [b]" | "read_bcs (NttI op d d2 s l) = vb_bcs s"
| "read_bcs (SuDI op d s1 s2 l) = vb_bcs s2"
| "read_bcs _ = []"

fun write_bcs :: "instr \<Rightarrow> nat list" where
  "write_bcs (BcWriteI op b s l) = [b]" | "write_bcs (InttI op d s l) = vb_bcs d"
| "write_bcs (BcwI op b s l) = [b]" | "write_bcs (Pl1I op b s l) = [b]"
| "write_bcs _ = []"

definition held :: "instr \<Rightarrow> preg \<Rightarrow> int" where
  "held i r = int (count_list (held_regs i) r)"

definition held_all :: "instr list \<Rightarrow> preg \<Rightarrow> int" where
  "held_all is r = (\<Sum>i \<leftarrow> is. held i r)"

definition bc_held :: "instr \<Rightarrow> nat \<Rightarrow> int" where
  "bc_held i b = int (count_list (held_bcs i) b)"

definition bc_held_all :: "instr list \<Rightarrow> nat \<Rightarrow> int" where
  "bc_held_all is b = (\<Sum>i \<leftarrow> is. bc_held i b)"

section \<open>Completion releases what the instruction holds\<close>

text \<open>The references in a list, as a delta of counts.\<close>

definition deltas :: "preg list \<Rightarrow> preg \<Rightarrow> int" where
  "deltas rs r = int (count_list rs r)"

lemma deltas_simps [simp]:
  "deltas [] r = 0" "deltas (q # rs) r = delta q r + deltas rs r"
  "deltas (rs @ ss) r = deltas rs r + deltas ss r"
  by (auto simp: deltas_def delta_def)

lemma held_deltas: "held i r = deltas (held_regs i) r"
  by (simp add: held_def deltas_def)

lemma counts_bind:
  "bindr m f = Inr rf' \<Longrightarrow> (\<And>x. m = Inr x \<Longrightarrow> counts d rf x) \<Longrightarrow>
   (\<And>x. m = Inr x \<Longrightarrow> f x = Inr rf' \<Longrightarrow> counts e x rf') \<Longrightarrow> counts (\<lambda>r. d r + e r) rf rf'"
  by (auto simp: bindr_Inr_iff intro: counts_trans)

lemma finish_dest_counts: "finish_dest d rf = Inr rf' \<Longrightarrow> counts (\<lambda>r. - delta d r) rf rf'"
  unfolding finish_dest_def
  by (drule counts_bind) (auto intro: op_counts)

lemma write_bc_counts: "write_bc b rf = Inr rf' \<Longrightarrow> counts (\<lambda>_. 0) rf rf'"
  unfolding write_bc_def by (drule counts_bind) (auto intro: op_counts)

lemma release_src_counts: "release_src s rf = Inr rf' \<Longrightarrow> counts (\<lambda>r. - deltas (vb_regs s) r) rf rf'"
proof (cases s)
  case (VB b)
  assume "release_src s rf = Inr rf'"
  then have "bindr (executeRead b rf) (bc_decReference b) = Inr rf'"
    by (simp add: VB release_src_def)
  then have "counts (\<lambda>r. 0 + 0) rf rf'" by (rule counts_bind) (auto intro: op_counts)
  then show ?thesis by (simp add: VB)
qed (auto simp: release_src_def intro: op_counts)

lemma dec_opt_counts: "dec_opt s rf = Inr rf' \<Longrightarrow> counts (\<lambda>r. - deltas (opt_regs s) r) rf rf'"
  by (cases s) (auto simp: dec_opt_def intro: op_counts)

lemma dec_list_counts:
  "foldr_res decReference rs rf = Inr rf' \<Longrightarrow> counts (\<lambda>r. - deltas rs r) rf rf'"
proof (induction rs arbitrary: rf)
  case Nil
  then show ?case by simp
next
  case (Cons a rs)
  have "counts (\<lambda>r. - delta a r + - deltas rs r) rf rf'"
    using Cons.prems by (auto dest!: counts_bind intro: op_counts Cons.IH)
  then show ?case by (rule counts_eq) simp
qed

lemma set_one_ready_counts: "set_one_ready ds rf = Inr rf' \<Longrightarrow> counts (\<lambda>_. 0) rf rf'"
  by (induction ds rf rule: set_one_ready.induct)
    (auto simp: bindr_Inr_iff intro: op_counts split: if_splits)

lemmas part_counts = op_counts finish_dest_counts write_bc_counts release_src_counts
  dec_opt_counts dec_list_counts set_one_ready_counts

lemma complete_counts_aux:
  assumes "setExecutionComplete i rf = Inr rf'"
  shows "\<exists>e. counts e rf rf' \<and> (\<forall>r. e r = - deltas (held_regs i) r)"
proof -
  have c2: "\<exists>e. counts e rf rf' \<and> (\<forall>r. e r = g r)"
    if "bindr m f = Inr rf'" "\<And>x. m = Inr x \<Longrightarrow> counts d rf x"
      "\<And>x. f x = Inr rf' \<Longrightarrow> counts e x rf'" "\<And>r. d r + e r = g r" for m f d e g
    using counts_bind [OF that(1), of d rf e] that by auto
  have c3: "\<exists>e. counts e rf rf' \<and> (\<forall>r. e r = g r)"
    if "bindr m (\<lambda>x. bindr (f x) h) = Inr rf'" "\<And>x. m = Inr x \<Longrightarrow> counts d rf x"
      "\<And>x y. f x = Inr y \<Longrightarrow> counts e x y" "\<And>y. h y = Inr rf' \<Longrightarrow> counts k y rf'"
      "\<And>r. d r + (e r + k r) = g r" for m f h d e k g
    by (rule c2 [OF that(1,2)]) (use that(3-5) in \<open>auto intro: counts_bind\<close>)
  show ?thesis
  proof (cases i)
    case (MemI op r a n q)
    show ?thesis using assms unfolding MemI complete_defs
      by (rule c2) (auto intro: part_counts split: if_splits)
  next
    case (BinOp op d s1 s2 l)
    show ?thesis using assms unfolding BinOp complete_defs
      by (rule c3) (auto intro: part_counts)
  next
    case (BcReadI op d b l)
    show ?thesis using assms unfolding BcReadI complete_defs
      by (rule c3) (auto intro: part_counts)
  next
    case (NttI op d d2 s l)
    have "counts (\<lambda>r. - deltas (opt_regs d2) r) x rf'"
      if "(case d2 of None \<Rightarrow> Inr x | Some e \<Rightarrow> finish_dest e x) = Inr rf'" for x
      using that by (cases d2) (auto intro: part_counts)
    then show ?thesis using assms unfolding NttI complete_defs
      by - (rule c3, auto intro: part_counts)
  next
    case (InttI op d s l)
    have "counts (\<lambda>r. - deltas (vb_regs d) r) rf x"
      if "(case d of VP r \<Rightarrow> finish_dest r rf | VB b \<Rightarrow> write_bc b rf) = Inr x" for x
      using that by (cases d) (auto intro: part_counts)
    then show ?thesis using assms unfolding InttI complete_defs
      by - (rule c2, auto intro: part_counts)
  next
    case (SuDI op d s1 s2 l)
    show ?thesis using assms unfolding SuDI complete_defs
      by (rule c3) (auto intro: part_counts)
  next
    case (RsvI op ds s l)
    have "counts (\<lambda>_. 0) x rf'" if "(if op = Rsi then Inr x else set_one_ready ds x) = Inr rf'" for x
      using that by (auto intro: part_counts split: if_splits)
    then show ?thesis using assms unfolding RsvI complete_defs
      by - (rule c3, auto intro: part_counts)
  next
    case (DisI op d s k n l)
    have "counts (\<lambda>r. - deltas (opt_regs d) r) rf x"
      if "(case d of None \<Rightarrow> Inr rf | Some r \<Rightarrow> finish_dest r rf) = Inr x" for x
      using that by (cases d) (auto intro: part_counts)
    then show ?thesis using assms unfolding DisI complete_defs
      by - (rule c2, auto intro: part_counts)
  next
    case (BcWriteI op b s l)
    show ?thesis using assms unfolding BcWriteI complete_defs
      by (rule c2) (auto intro: part_counts)
  next
    case (UnOp op k d s l)
    show ?thesis using assms unfolding UnOp complete_defs
      by (rule c2) (auto intro: part_counts)
  next
    case (BcwI op b s l)
    show ?thesis using assms unfolding BcwI complete_defs
      by (rule c2) (auto intro: part_counts)
  next
    case (Pl1I op b s l)
    show ?thesis using assms unfolding Pl1I complete_defs
      by (rule c2) (auto intro: part_counts)
  next
    case (ModI op d ss l)
    show ?thesis using assms unfolding ModI complete_defs
      by (rule c2) (auto intro: part_counts)
  next
    case (BciI op b)
    show ?thesis using assms unfolding BciI complete_defs bc_resetPhyID_def
      by (rule c2) (auto intro: part_counts)
  qed (use assms in \<open>auto intro: part_counts exI [of _ "\<lambda>_. 0"]\<close>)
qed

lemma complete_counts:
  "setExecutionComplete i rf = Inr rf' \<Longrightarrow> counts (\<lambda>r. - held i r) rf rf'"
  using complete_counts_aux [of i rf rf'] by (auto simp: held_deltas intro: counts_eq)

text \<open>
  The other effects: of the base conversion registers, the references in \<open>hs\<close> are released and the
  reads of \<open>rs\<close> and the writes of \<open>ws\<close> are done; the physical registers \<open>ds\<close> are ready, and none
  that was ready is not.
\<close>

definition made_ready :: "preg list \<Rightarrow> regfile \<Rightarrow> regfile \<Rightarrow> bool" where
  "made_ready ds rf rf' \<longleftrightarrow> (\<forall>r. ready rf r \<or> r \<in> set ds \<longrightarrow> ready rf' r)"

definition finished :: "preg list \<Rightarrow> nat list \<Rightarrow> nat list \<Rightarrow> nat list \<Rightarrow> regfile \<Rightarrow> regfile \<Rightarrow> bool" where
  "finished ds hs rs ws rf rf' \<longleftrightarrow> made_ready ds rf rf' \<and>
     bc_counts (\<lambda>b. - int (count_list hs b)) (\<lambda>b. - int (count_list rs b))
       (\<lambda>b. - int (count_list ws b)) rf rf'"

lemma finished_bind:
  assumes "bindr m f = Inr rf'" "\<And>x. m = Inr x \<Longrightarrow> finished ds hs rs ws rf x"
    and "\<And>x. m = Inr x \<Longrightarrow> f x = Inr rf' \<Longrightarrow> finished ds' hs' rs' ws' x rf'"
    and "ds @ ds' = d" "hs @ hs' = h" "rs @ rs' = r" "ws @ ws' = w"
  shows "finished d h r w rf rf'"
proof -
  from assms(1) obtain x where x: "m = Inr x" "f x = Inr rf'" by (auto simp: bindr_Inr_iff)
  note a = assms(2) [OF x(1)] and c = assms(3) [OF x]
  have "made_ready (ds @ ds') rf rf'" using a c by (auto simp: finished_def made_ready_def)
  with bc_counts_trans [OF a [unfolded finished_def, THEN conjunct2]
      c [unfolded finished_def, THEN conjunct2]]
  show ?thesis unfolding assms(4-7) [symmetric] finished_def by (simp add: algebra_simps)
qed

text \<open>What the operations do to the ready flags.\<close>

lemma op_made_ready:
  "executeRead b rf = Inr rf' \<Longrightarrow> made_ready [] rf rf'"
  "executeWrite b rf = Inr rf' \<Longrightarrow> made_ready [] rf rf'"
  "bc_decReference b rf = Inr rf' \<Longrightarrow> made_ready [] rf rf'"
  "upd_bc b f rf = Inr rf' \<Longrightarrow> made_ready [] rf rf'"
  "decReference r rf = Inr rf' \<Longrightarrow> made_ready [] rf rf'"
  "setValueReady r True rf = Inr rf' \<Longrightarrow> made_ready [r] rf rf'"
  by (auto simp: made_ready_def ready_def executeRead_def executeWrite_def bc_decReference_def
      upd_bc_def decReference_def setValueReady_def bindr_Inr_iff guardr_Inr_iff Let_def
      get_put_reg [OF get_reg_valid] split: sum.splits if_splits)

lemma op_finished:
  "executeRead b rf = Inr rf' \<Longrightarrow> finished [] [] [b] [] rf rf'"
  "executeWrite b rf = Inr rf' \<Longrightarrow> finished [] [] [] [b] rf rf'"
  "bc_decReference b rf = Inr rf' \<Longrightarrow> finished [] [b] [] [] rf rf'"
  "bc_resetPhyID b rf = Inr rf' \<Longrightarrow> finished [] [] [] [] rf rf'"
  "decReference r rf = Inr rf' \<Longrightarrow> finished [] [] [] [] rf rf'"
  "setValueReady r True rf = Inr rf' \<Longrightarrow> finished [r] [] [] [] rf rf'"
proof -
  have d: "(\<lambda>c. - bc_delta b c) = (\<lambda>c. - int (count_list [b] c))"
    "nothing = (\<lambda>c. - int (count_list [] c))" for b
    by (auto simp: bc_delta_def)
  note ops = op_bc_counts [unfolded d] and mk = op_made_ready
  show "executeRead b rf = Inr rf' \<Longrightarrow> finished [] [] [b] [] rf rf'"
    "executeWrite b rf = Inr rf' \<Longrightarrow> finished [] [] [] [b] rf rf'"
    "bc_decReference b rf = Inr rf' \<Longrightarrow> finished [] [b] [] [] rf rf'"
    "bc_resetPhyID b rf = Inr rf' \<Longrightarrow> finished [] [] [] [] rf rf'"
    "decReference r rf = Inr rf' \<Longrightarrow> finished [] [] [] [] rf rf'"
    "setValueReady r True rf = Inr rf' \<Longrightarrow> finished [r] [] [] [] rf rf'"
    unfolding finished_def bc_resetPhyID_def
    by (rule conjI, erule mk, erule ops [unfolded bc_resetPhyID_def])+
qed

lemma finished_refl: "finished [] [] [] [] rf rf"
  by (simp add: finished_def made_ready_def bc_counts_def)

lemma finished_fewer: "finished ds hs rs ws rf rf' \<Longrightarrow> finished [] hs rs ws rf rf'"
  by (simp add: finished_def made_ready_def)

lemma part_finished:
  "finish_dest r rf = Inr rf' \<Longrightarrow> finished [r] [] [] [] rf rf'"
  "dec_opt s rf = Inr rf' \<Longrightarrow> finished [] [] [] [] rf rf'"
  "write_bc b rf = Inr rf' \<Longrightarrow> finished [] [b] [] [b] rf rf'"
  "release_src v rf = Inr rf' \<Longrightarrow> finished [] (vb_bcs v) (vb_bcs v) [] rf rf'"
proof -
  show "finish_dest r rf = Inr rf' \<Longrightarrow> finished [r] [] [] [] rf rf'"
    unfolding finish_dest_def by (erule finished_bind) (auto intro: op_finished)
  show "dec_opt s rf = Inr rf' \<Longrightarrow> finished [] [] [] [] rf rf'"
    by (cases s) (auto simp: dec_opt_def intro: op_finished finished_refl)
  show "write_bc b rf = Inr rf' \<Longrightarrow> finished [] [b] [] [b] rf rf'"
    unfolding write_bc_def by (erule finished_bind) (auto intro: op_finished)
  show "release_src v rf = Inr rf' \<Longrightarrow> finished [] (vb_bcs v) (vb_bcs v) [] rf rf'"
  proof (cases v)
    case (VB b)
    have "bindr (executeRead b rf) (bc_decReference b) = Inr rf' \<Longrightarrow> finished [] [b] [b] [] rf rf'"
      by (erule finished_bind) (auto intro: op_finished)
    then show "release_src v rf = Inr rf' \<Longrightarrow> finished [] (vb_bcs v) (vb_bcs v) [] rf rf'"
      by (simp add: VB release_src_def)
  qed (auto simp: release_src_def intro: op_finished)
qed

lemma list_finished:
  "foldr_res decReference rs rf = Inr rf' \<Longrightarrow> finished [] [] [] [] rf rf'"
  "set_one_ready ds rf = Inr rf' \<Longrightarrow> finished [] [] [] [] rf rf'"
proof -
  show "foldr_res decReference rs rf = Inr rf' \<Longrightarrow> finished [] [] [] [] rf rf'"
  proof (induction rs arbitrary: rf)
    case (Cons r rs)
    from Cons.prems [simplified] show ?case
      by (rule finished_bind) (auto intro: op_finished Cons.IH)
  qed (simp add: finished_refl)
  show "set_one_ready ds rf = Inr rf' \<Longrightarrow> finished [] [] [] [] rf rf'"
    by (induction ds rf rule: set_one_ready.induct)
      (auto simp: bindr_Inr_iff intro: op_finished finished_refl
        finished_fewer [OF op_finished(6)] split: if_splits)
qed

lemmas finished_parts = op_finished part_finished list_finished finished_refl

lemma complete_finished:
  assumes "setExecutionComplete i rf = Inr rf'"
  shows "finished (dest_regs i) (held_bcs i) (read_bcs i) (write_bcs i) rf rf'"
proof -
  note bind = finished_bind
  show ?thesis
  proof (cases i)
    case (MemI op r a n q)
    show ?thesis using assms unfolding MemI complete_defs
      by (rule bind) (auto intro: finished_parts split: if_splits)
  next
    case (BinOp op d s1 s2 l)
    show ?thesis using assms unfolding BinOp complete_defs
      by (rule bind) (auto intro: finished_parts elim!: bind)
  next
    case (BcReadI op d b l)
    show ?thesis using assms unfolding BcReadI complete_defs
      by (rule bind [where hs = "[]" and rs = "[b]" and ws = "[]"])
        (auto intro: finished_parts elim!: bind [where hs = "[b]" and rs = "[]" and ws = "[]"])
  next
    case (NttI op d d2 s l)
    have "finished (opt_regs d2) [] [] [] x rf'"
      if "(case d2 of None \<Rightarrow> Inr x | Some e \<Rightarrow> finish_dest e x) = Inr rf'" for x
      using that by (cases d2) (auto intro: finished_parts)
    then show ?thesis using assms unfolding NttI complete_defs
      by - (rule bind, auto intro: finished_parts elim!: bind)
  next
    case (InttI op d s l)
    have "finished (vb_regs d) (vb_bcs d) [] (vb_bcs d) rf x"
      if "(case d of VP r \<Rightarrow> finish_dest r rf | VB b \<Rightarrow> write_bc b rf) = Inr x" for x
      using that by (cases d) (auto intro: finished_parts)
    then show ?thesis using assms unfolding InttI complete_defs
      by - (rule bind, auto intro: finished_parts)
  next
    case (SuDI op d s1 s2 l)
    show ?thesis using assms unfolding SuDI complete_defs
      by (rule bind [where hs = "[]" and rs = "[]" and ws = "[]"])
        (auto intro: finished_parts elim!: bind [where hs = "vb_bcs s2" and rs = "vb_bcs s2" and ws = "[]"])
  next
    case (RsvI op ds s l)
    have "finished [] [] [] [] x rf'" if "(if op = Rsi then Inr x else set_one_ready ds x) = Inr rf'" for x
      using that by (auto intro: finished_parts split: if_splits)
    then show ?thesis using assms unfolding RsvI complete_defs
      by - (rule bind, auto intro: finished_parts elim!: bind)
  next
    case (DisI op d s k n l)
    have "finished (opt_regs d) [] [] [] rf x"
      if "(case d of None \<Rightarrow> Inr rf | Some r \<Rightarrow> finish_dest r rf) = Inr x" for x
      using that by (cases d) (auto intro: finished_parts)
    then show ?thesis using assms unfolding DisI complete_defs
      by - (rule bind, auto intro: finished_parts)
  next
    case (BcWriteI op b s l)
    show ?thesis using assms unfolding BcWriteI complete_defs
      by (rule bind) (auto intro: finished_parts)
  next
    case (UnOp op k d s l)
    show ?thesis using assms unfolding UnOp complete_defs
      by (rule bind) (auto intro: finished_parts)
  next
    case (BcwI op b s l)
    show ?thesis using assms unfolding BcwI complete_defs
      by (rule bind) (auto intro: finished_parts)
  next
    case (Pl1I op b s l)
    show ?thesis using assms unfolding Pl1I complete_defs
      by (rule bind) (auto intro: finished_parts)
  next
    case (ModI op d ss l)
    show ?thesis using assms unfolding ModI complete_defs
      by (rule bind) (auto intro: finished_parts)
  next
    case (BciI op b)
    show ?thesis using assms unfolding BciI complete_defs
      by (rule bind) (auto intro: finished_parts)
  qed (use assms in \<open>auto intro: finished_parts\<close>)
qed

text \<open>A completed \<open>Bci\<close> has given back its base conversion unit.\<close>

lemma complete_Bci_resets:
  assumes "setExecutionComplete (BciI op b) rf = Inr rf'"
  shows "bc_hasPhysicalID rf' b = Inr False"
proof -
  from assms obtain x where x: "bc_resetPhyID b rf = Inr x" "bc_decReference b x = Inr rf'"
    by (auto simp: bindr_Inr_iff)
  then show ?thesis using bc_resetPhyID_bc_counts(2) [OF x(1)]
    by (auto simp: bc_decReference_def bindr_Inr_iff guardr_Inr_iff get_bc_Inr Let_def
        bc_hasPhysicalID_def get_bc_def split: if_splits)
qed

section \<open>Splitting conserves references\<close>

text \<open>
  The stages of a split instruction together hold what the instruction held but for the registers
  in \<open>ds\<close>, and every forwarding register the split allocates is counted once per stage that holds
  it. The base conversion registers stay as they are.
\<close>

definition conserves :: "preg list \<Rightarrow> instr \<Rightarrow> regfile \<Rightarrow> instr list \<Rightarrow> regfile \<Rightarrow> bool" where
  "conserves ds i rf parts rf' \<longleftrightarrow>
     (\<forall>r. valid_reg rf r \<longrightarrow> get_reg rf' r = get_reg rf r \<and>
        held_all parts r + int (count_list ds r) = held i r) \<and>
     (\<forall>r. valid_reg rf' r \<longrightarrow> \<not> valid_reg rf r \<longrightarrow> refs rf' r = held_all parts r) \<and>
     rf_b rf' = rf_b rf \<and> (\<forall>b. bc_held_all parts b = bc_held i b)"

definition fw_reg :: "nat \<Rightarrow> int \<Rightarrow> phys_reg" where
  "fw_reg k n = (new_phys_reg Forwarding k)\<lparr>pr_refs := n\<rparr>"

lemma alloc_fw_eq:
  "alloc_fw k rf = Inr (RF (length (rf_f rf)), rf\<lparr>rf_f := rf_f rf @ [fw_reg k 0]\<rparr>)"
  by (simp add: alloc_fw_def new_fw_reg_def fw_reg_def new_phys_reg_def)

text \<open>Counting up a forwarding register on the heap.\<close>

lemma inc_fw_at:
  "k < length fs \<Longrightarrow> fs ! k = fw_reg j n \<Longrightarrow> 0 \<le> n \<Longrightarrow> n < 1000 \<Longrightarrow>
   incReference (RF k) (rf\<lparr>rf_f := fs\<rparr>) = Inr (rf\<lparr>rf_f := fs[k := fw_reg j (n + 1)]\<rparr>)"
  by (simp add: incReference_def fw_reg_def s16_id)

lemmas split_defs = alloc_fw_eq mk_BcRead_def mk_Ntt_def mk_Intt_def mk_BcWrite_def mk_BinOp_def
  mk_UnOp_def inc_fw_at nth_append list_update_append Let_def

lemma regs_appended:
  "valid_reg rf r \<Longrightarrow> get_reg (rf\<lparr>rf_f := rf_f rf @ gs\<rparr>) r = get_reg rf r"
  by (cases r) (auto simp: valid_reg_def nth_append split: if_splits)

lemma new_regs:
  "valid_reg (rf\<lparr>rf_f := rf_f rf @ gs\<rparr>) r \<Longrightarrow> \<not> valid_reg rf r \<Longrightarrow>
   \<exists>k < length gs. r = RF (length (rf_f rf) + k) \<and>
     refs (rf\<lparr>rf_f := rf_f rf @ gs\<rparr>) r = pr_refs (gs ! k)"
proof (cases r)
  case (RF j)
  assume "valid_reg (rf\<lparr>rf_f := rf_f rf @ gs\<rparr>) r" "\<not> valid_reg rf r"
  then have "length (rf_f rf) \<le> j" "j < length (rf_f rf) + length gs"
    by (auto simp: RF valid_reg_def split: if_splits)
  then show ?thesis
    by (intro exI [of _ "j - length (rf_f rf)"]) (auto simp: RF refs_def nth_append)
qed (auto simp: valid_reg_def split: if_splits)

lemma conservesI:
  assumes "rf' = rf\<lparr>rf_f := rf_f rf @ gs\<rparr>" and "\<forall>r \<in> set (held_regs i). valid_reg rf r"
    and "\<And>r. valid_reg rf r \<Longrightarrow> held_all parts r + int (count_list ds r) = held i r"
    and "\<And>k. k < length gs \<Longrightarrow> pr_refs (gs ! k) = held_all parts (RF (length (rf_f rf) + k))"
    and "\<And>b. bc_held_all parts b = bc_held i b"
  shows "conserves ds i rf parts rf'"
  unfolding conserves_def
proof (intro conjI allI impI)
  fix r
  assume "valid_reg rf r"
  then show "get_reg rf' r = get_reg rf r" "held_all parts r + int (count_list ds r) = held i r"
    using assms(1,3) by (simp_all add: regs_appended)
next
  fix r
  assume "valid_reg rf' r" "\<not> valid_reg rf r"
  with assms(1) obtain k where "k < length gs" "r = RF (length (rf_f rf) + k)"
    "refs rf' r = pr_refs (gs ! k)" using new_regs [of rf gs r] by auto
  with assms(4) show "refs rf' r = held_all parts r" by simp
qed (use assms in simp_all)

lemma invalid_fw: "\<not> valid_reg rf (RF (length (rf_f rf) + k))"
  by (simp add: valid_reg_def)

lemma invalid_fw0: "\<not> valid_reg rf (RF (length (rf_f rf)))"
  by (simp add: valid_reg_def)

lemmas invalid_fws = invalid_fw0 invalid_fw [where k = "Suc 0"] invalid_fw [where k = "Suc (Suc 0)"]

text \<open>The method of each class, and the virtual-call view of all of them.\<close>

fun splitInstruction :: "instr \<Rightarrow> regfile \<Rightarrow> (instr list \<times> regfile) res" where
  "splitInstruction (NttI op d d2 s l) rf = split_ntt (NttI op d d2 s l) rf"
| "splitInstruction (InttI op d s l) rf = split_intt (InttI op d s l) rf"
| "splitInstruction (SuDI op d s1 s2 l) rf = split_sud (SuDI op d s1 s2 l) rf"
| "splitInstruction (Pl1I op b s l) rf = split_pl1 (Pl1I op b s l) rf"
| "splitInstruction _ rf = Inl Undefined"

text \<open>
  The classes that have the method, and what no part holds: the transforms a split makes have one
  destination, so the second destination of an \<open>Ntt\<close> is dropped.
\<close>

fun compound :: "instr \<Rightarrow> bool" where
  "compound (NttI op d d2 s l) = True"
| "compound (InttI op d s l) = True"
| "compound (SuDI op d s1 s2 l) = True"
| "compound (Pl1I op b s l) = True"
| "compound _ = False"

fun dropped_regs :: "instr \<Rightarrow> preg list" where
  "dropped_regs (NttI op d d2 s l) = opt_regs d2"
| "dropped_regs _ = []"

lemma split_pl1_eq:
  "split_pl1 (Pl1I op b s l) rf =
     Inr ([InttI IntOp (VP (RF (length (rf_f rf)))) s l, BcWriteI BcW b (RF (length (rf_f rf))) l],
          rf\<lparr>rf_f := rf_f rf @ [fw_reg 1 2]\<rparr>)"
  by (simp add: split_defs)

lemma split_ntt_bc_eq:
  "split_ntt (NttI op d d2 (VB b) l) rf =
     Inr ([BcReadI BcR (RF (length (rf_f rf))) b l, NttI Ntt d None (VP (RF (length (rf_f rf)))) l],
          rf\<lparr>rf_f := rf_f rf @ [fw_reg 5 2]\<rparr>)"
  by (simp add: split_defs)

lemma split_ntt_reg_eq: "split_ntt (NttI op d d2 (VP r) l) rf = Inr ([NttI Ntt d None (VP r) l], rf)"
  by (simp add: split_defs)

lemma split_intt_bc_eq:
  "split_intt (InttI op (VB b) s l) rf =
     Inr ([InttI IntOp (VP (RF (length (rf_f rf)))) s l, BcWriteI BcW b (RF (length (rf_f rf))) l],
          rf\<lparr>rf_f := rf_f rf @ [fw_reg 5 2]\<rparr>)"
  by (simp add: split_defs)

lemma split_intt_reg_eq: "split_intt (InttI op (VP d) s l) rf = Inr ([InttI IntOp (VP d) s l], rf)"
  by (simp add: split_defs)

lemma split_sud_bc_eq:
  "split_sud (SuDI op d s1 (VB b) l) rf =
     (let n = length (rf_f rf) in
     Inr ([BcReadI BcR (RF (Suc n)) b l, NttI Ntt (RF n) None (VP (RF (Suc n))) l,
           BinOp Sub (RF (Suc (Suc n))) s1 (RF n) l, UnOp Div None d (RF (Suc (Suc n))) l],
          rf\<lparr>rf_f := rf_f rf @ [fw_reg 5 2, fw_reg 7 2, fw_reg 5 2]\<rparr>))"
  by (simp add: split_defs)

lemma split_sud_reg_eq:
  "split_sud (SuDI op d s1 (VP r) l) rf =
     (let n = length (rf_f rf) in
     Inr ([NttI Ntt (RF n) None (VP r) l,
           BinOp Sub (RF (Suc n)) s1 (RF n) l, UnOp Div None d (RF (Suc n)) l],
          rf\<lparr>rf_f := rf_f rf @ [fw_reg 5 2, fw_reg 5 2]\<rparr>))"
  by (simp add: split_defs)

lemmas split_eqs = split_pl1_eq split_ntt_bc_eq split_ntt_reg_eq split_intt_bc_eq split_intt_reg_eq
  split_sud_bc_eq split_sud_reg_eq

lemma split_conserves_at:
  assumes "splitInstruction i rf = Inr (parts, rf\<lparr>rf_f := rf_f rf @ gs\<rparr>)"
    and "\<forall>r \<in> set (held_regs i). valid_reg rf r"
    and "\<And>r. valid_reg rf r \<Longrightarrow> held_all parts r + int (count_list ds r) = held i r"
    and "\<And>k. k < length gs \<Longrightarrow> pr_refs (gs ! k) = held_all parts (RF (length (rf_f rf) + k))"
    and "\<And>b. bc_held_all parts b = bc_held i b"
  shows "\<exists>parts rf'. splitInstruction i rf = Inr (parts, rf') \<and> conserves ds i rf parts rf'"
  using assms conservesI [OF refl assms(2-5)] by blast

lemma lt_3: "k < Suc (Suc (Suc 0)) \<longleftrightarrow> k = 0 \<or> k = Suc 0 \<or> k = Suc (Suc 0)"
  by auto

lemma split_conserves:
  assumes "compound i" and ok: "\<forall>r \<in> set (held_regs i). valid_reg rf r"
  shows "\<exists>parts rf'. splitInstruction i rf = Inr (parts, rf') \<and> conserves (dropped_regs i) i rf parts rf'"
proof (cases i)
  case (NttI op d d2 s l)
  show ?thesis
  proof (cases s)
    case (VP r)
    show ?thesis
      by (rule split_conserves_at [where gs = "[]", OF _ ok], cases d2)
        (use assms(1) in \<open>auto simp: NttI VP split_eqs held_all_def held_def bc_held_all_def bc_held_def simp del: split_ntt.simps\<close>)
  next
    case (VB b)
    show ?thesis
      by (rule split_conserves_at [where gs = "[fw_reg 5 2]", OF _ ok])
        (use assms invalid_fws [of rf] in
          \<open>auto simp: NttI VB split_eqs held_all_def held_def bc_held_all_def bc_held_def fw_reg_def simp del: split_ntt.simps\<close>)
  qed
next
  case (InttI op d s l)
  show ?thesis
  proof (cases d)
    case (VP r)
    show ?thesis
      by (rule split_conserves_at [where gs = "[]", OF _ ok])
        (auto simp: InttI VP split_eqs held_all_def held_def bc_held_all_def bc_held_def simp del: split_intt.simps)
  next
    case (VB b)
    show ?thesis
      by (rule split_conserves_at [where gs = "[fw_reg 5 2]", OF _ ok])
        (use assms invalid_fws [of rf] in
          \<open>auto simp: InttI VB split_eqs held_all_def held_def bc_held_all_def bc_held_def fw_reg_def simp del: split_intt.simps\<close>)
  qed
next
  case (SuDI op d s1 s2 l)
  show ?thesis
  proof (cases s2)
    case (VP r)
    show ?thesis
      by (rule split_conserves_at [where gs = "[fw_reg 5 2, fw_reg 5 2]", OF _ ok])
        (use assms invalid_fws [of rf] in
          \<open>auto simp: SuDI VP split_eqs Let_def held_all_def held_def bc_held_all_def bc_held_def fw_reg_def less_Suc_eq
              simp del: split_sud.simps\<close>)
  next
    case (VB b)
    show ?thesis
      by (rule split_conserves_at [where gs = "[fw_reg 5 2, fw_reg 7 2, fw_reg 5 2]", OF _ ok])
        (use assms invalid_fws [of rf] in
          \<open>auto simp: SuDI VB split_eqs Let_def held_all_def held_def bc_held_all_def bc_held_def fw_reg_def lt_3
              simp del: split_sud.simps\<close>)
  qed
next
  case (Pl1I op b s l)
  show ?thesis
    by (rule split_conserves_at [where gs = "[fw_reg 1 2]", OF _ ok])
      (use assms invalid_fws [of rf] in
        \<open>auto simp: Pl1I split_eqs held_all_def held_def bc_held_all_def bc_held_def fw_reg_def simp del: split_pl1.simps\<close>)
qed (use assms(1) in auto)

end
