(* ===== verification/Intervals.thy ===== *)
theory Intervals
  imports Prelude
begin

text \<open>
  The reservation calendar of a functional unit: \<open>Interval<T>\<close> and \<open>DisjointIntervalSet<T>\<close> of
  \<open>utils/utils.h\<close>. A calendar is a \<open>std::set\<close> ordered by \<open>operator<\<close>, which puts one closed interval
  before another when it ends before the other starts; two intervals that overlap are equivalent
  for the set, which is what makes \<open>find\<close> an overlap test. The set is modelled by the list of its
  elements in iteration order, and \<open>find\<close> and \<open>insert\<close> by the lower bound the set descends to.
\<close>

section \<open>Intervals\<close>

text \<open>The value is a shared pointer, null when the two-argument constructor made the interval.\<close>

datatype 'a interval = Interval (istart: nat) (iend: nat) (ival: "'a option")

definition mk_interval :: "nat \<Rightarrow> nat \<Rightarrow> 'a option \<Rightarrow> 'a interval res" where
  "mk_interval s e v = (if s \<ge> e then Inl InvalidArgument else Inr (Interval s e v))"

definition ivl_less :: "'a interval \<Rightarrow> 'a interval \<Rightarrow> bool" where
  "ivl_less a b = (if iend a < istart b then True else False)"

definition ivl_eq :: "'a interval \<Rightarrow> 'a interval \<Rightarrow> bool" where
  "ivl_eq a b =
     (if istart a < istart b then (if istart b \<le> iend a then True else False)
      else if istart b < istart a then (if istart a \<le> iend b then True else False)
      else if istart a = istart b then True else False)"

definition ivl_show :: "'a interval \<Rightarrow> string" where
  "ivl_show a = ''['' @ show_nat (istart a) @ '','' @ show_nat (iend a) @ '']''"

definition ivl_setValue :: "'a \<Rightarrow> 'a interval \<Rightarrow> 'a interval" where
  "ivl_setValue v a = Interval (istart a) (iend a) (Some v)"

section \<open>Disjoint interval sets\<close>

type_synonym 'a calendar = "'a interval list"

definition ivs_empty :: "'a calendar \<Rightarrow> bool" where
  "ivs_empty xs = (xs = [])"

definition ivs_find :: "'a interval \<Rightarrow> 'a calendar \<Rightarrow> 'a interval option" where
  "ivs_find iv xs = (case dropWhile (\<lambda>e. ivl_less e iv) xs of
       [] \<Rightarrow> None
     | e # _ \<Rightarrow> (if ivl_less iv e then None else Some e))"

definition hasOverlap :: "'a calendar \<Rightarrow> 'a interval \<Rightarrow> bool" where
  "hasOverlap xs iv = (if ivs_find iv xs \<noteq> None then True else False)"

definition ivs_insert :: "'a interval \<Rightarrow> 'a calendar \<Rightarrow> 'a calendar" where
  "ivs_insert iv xs = (if ivs_find iv xs \<noteq> None then xs
     else takeWhile (\<lambda>e. ivl_less e iv) xs @ iv # dropWhile (\<lambda>e. ivl_less e iv) xs)"

definition ivs_front :: "'a calendar \<Rightarrow> 'a interval res" where
  "ivs_front xs = (case xs of [] \<Rightarrow> Inl InvalidArgument | x # _ \<Rightarrow> Inr x)"

definition ivs_popFront :: "'a calendar \<Rightarrow> 'a calendar res" where
  "ivs_popFront xs = (case xs of [] \<Rightarrow> Inl InvalidArgument | _ # ys \<Rightarrow> Inr ys)"

fun ivs_show_rest :: "'a calendar \<Rightarrow> string" where
  "ivs_show_rest [] = ''''"
| "ivs_show_rest (x # xs) = '', '' @ ivl_show x @ ivs_show_rest xs"

definition prettyPrint :: "'a calendar \<Rightarrow> string" where
  "prettyPrint xs = (case xs of [] \<Rightarrow> ''{}''
     | x # ys \<Rightarrow> ''{ '' @ ivl_show x @ ivs_show_rest ys @ '' }'')"

section \<open>The invariant\<close>

definition ivl_ok :: "'a interval \<Rightarrow> bool" where
  "ivl_ok a \<longleftrightarrow> istart a < iend a"

definition clash :: "'a interval \<Rightarrow> 'a interval \<Rightarrow> bool" where
  "clash a b \<longleftrightarrow> istart a \<le> iend b \<and> istart b \<le> iend a"

definition ivs_ok :: "'a calendar \<Rightarrow> bool" where
  "ivs_ok xs \<longleftrightarrow> sorted_wrt ivl_less xs \<and> (\<forall>x \<in> set xs. ivl_ok x)"

lemma mk_interval_Inr_iff [res_simps]:
  "mk_interval s e v = Inr iv \<longleftrightarrow> s < e \<and> iv = Interval s e v"
  by (auto simp: mk_interval_def)

lemma mk_interval_ok [simp]: "s < e \<Longrightarrow> mk_interval s e v = Inr (Interval s e v)"
  by (simp add: mk_interval_def)

lemma ivl_less_iff [simp]: "ivl_less a b \<longleftrightarrow> iend a < istart b"
  by (simp add: ivl_less_def)

lemma clash_sym: "clash a b \<longleftrightarrow> clash b a"
  by (auto simp: clash_def)

lemma not_clash_iff: "\<not> clash a b \<longleftrightarrow> ivl_less a b \<or> ivl_less b a"
  by (auto simp: clash_def)

text \<open>\<open>operator==\<close> is the overlap test, and the equivalence \<open>std::set\<close> derives from \<open>operator<\<close>.\<close>

lemma ivl_eq_iff_clash: "ivl_ok a \<Longrightarrow> ivl_ok b \<Longrightarrow> ivl_eq a b \<longleftrightarrow> clash a b"
  by (auto simp: ivl_eq_def clash_def ivl_ok_def)

lemma ivs_ok_Nil [simp]: "ivs_ok []"
  by (simp add: ivs_ok_def)

lemma ivs_ok_Cons:
  "ivs_ok (x # xs) \<longleftrightarrow> ivl_ok x \<and> (\<forall>y \<in> set xs. iend x < istart y) \<and> ivs_ok xs"
  by (auto simp: ivs_ok_def)

lemma ivs_find_Cons:
  "ivs_find iv (x # xs) =
     (if ivl_less x iv then ivs_find iv xs else if ivl_less iv x then None else Some x)"
  by (simp add: ivs_find_def)

lemma ivs_find_Nil [simp]: "ivs_find iv [] = None"
  by (simp add: ivs_find_def)

lemma ivs_find_None_iff:
  "ivs_ok xs \<Longrightarrow> ivl_ok iv \<Longrightarrow> ivs_find iv xs = None \<longleftrightarrow> (\<forall>x \<in> set xs. \<not> clash x iv)"
proof (induction xs)
  case Nil
  then show ?case by simp
next
  case (Cons x xs)
  have ok: "ivl_ok x" "\<forall>y \<in> set xs. iend x < istart y" "ivs_ok xs"
    using Cons.prems(1) by (auto simp: ivs_ok_Cons)
  have later: "\<forall>y \<in> set xs. \<not> clash y iv" if "iend iv < istart x"
    using that ok(1,2) by (fastforce simp: clash_def ivl_ok_def)
  show ?case
    using Cons.IH [OF ok(3) Cons.prems(2)] later
    by (auto simp: ivs_find_Cons clash_def)
qed

lemma hasOverlap_iff:
  "ivs_ok xs \<Longrightarrow> ivl_ok iv \<Longrightarrow> hasOverlap xs iv \<longleftrightarrow> (\<exists>x \<in> set xs. clash x iv)"
  unfolding hasOverlap_def by (auto simp: ivs_find_None_iff)

lemma set_ivs_insert_subset: "set (ivs_insert iv xs) \<subseteq> insert iv (set xs)"
  by (auto simp: ivs_insert_def dest: set_takeWhileD set_dropWhileD)

lemma mset_ivs_insert:
  assumes "\<not> hasOverlap xs iv"
  shows "mset (ivs_insert iv xs) = add_mset iv (mset xs)"
proof -
  have "mset (takeWhile P xs) + mset (dropWhile P xs) = mset xs" for P
    by (metis mset_append takeWhile_dropWhile_id)
  with assms show ?thesis by (simp add: ivs_insert_def hasOverlap_def split: if_splits)
qed

lemma set_ivs_insert: "\<not> hasOverlap xs iv \<Longrightarrow> set (ivs_insert iv xs) = insert iv (set xs)"
  using mset_ivs_insert [of xs iv] by (metis set_mset_add_mset_insert set_mset_mset)

lemma ivs_insert_Cons_less:
  "ivl_less x iv \<Longrightarrow> ivs_insert iv (x # xs) = x # ivs_insert iv xs"
  by (simp add: ivs_insert_def ivs_find_Cons)

lemma ivs_insert_ok:
  "ivs_ok xs \<Longrightarrow> ivl_ok iv \<Longrightarrow> ivs_ok (ivs_insert iv xs)"
proof (induction xs)
  case Nil
  then show ?case by (simp add: ivs_insert_def ivs_ok_Cons)
next
  case (Cons x xs)
  have ok: "ivl_ok x" "\<forall>y \<in> set xs. iend x < istart y" "ivs_ok xs"
    using Cons.prems(1) by (auto simp: ivs_ok_Cons)
  show ?case
  proof (cases "ivl_less x iv")
    case True
    with ok Cons.IH Cons.prems(2) show ?thesis
      by (auto simp: ivs_insert_Cons_less ivs_ok_Cons
          dest: set_ivs_insert_subset [THEN subsetD])
  next
    case False
    with ok Cons.prems show ?thesis
      by (fastforce simp: ivs_insert_def ivs_find_Cons ivs_ok_Cons ivl_ok_def)
  qed
qed

lemma ivs_popFront_ok: "ivs_ok xs \<Longrightarrow> ivs_popFront xs = Inr ys \<Longrightarrow> ivs_ok ys"
  by (auto simp: ivs_popFront_def ivs_ok_Cons split: list.splits)

text \<open>Of two members of a calendar, one ends before the other starts.\<close>

lemma ivs_ok_disjoint:
  "ivs_ok xs \<Longrightarrow> i < j \<Longrightarrow> j < length xs \<Longrightarrow> iend (xs ! i) < istart (xs ! j)"
  by (auto simp: ivs_ok_def sorted_wrt_iff_nth_less)

section \<open>The interface the schedulers rely on\<close>

text \<open>
  What a dispatch queue needs of a calendar: an answer to "can this interval be reserved" and an
  insertion. The laws say that the answer is exact and that reserving keeps the calendar well
  formed and adds the one interval.
\<close>

locale calendar_spec =
  fixes overlaps :: "'c \<Rightarrow> 'i \<Rightarrow> bool"
    and reserve :: "'i \<Rightarrow> 'c \<Rightarrow> 'c"
    and members :: "'c \<Rightarrow> 'i set"
    and conflict :: "'i \<Rightarrow> 'i \<Rightarrow> bool"
    and wf :: "'c \<Rightarrow> bool"
    and wfi :: "'i \<Rightarrow> bool"
  assumes overlaps_iff: "wf c \<Longrightarrow> wfi i \<Longrightarrow> overlaps c i \<longleftrightarrow> (\<exists>x \<in> members c. conflict x i)"
    and wf_reserve: "wf c \<Longrightarrow> wfi i \<Longrightarrow> \<not> overlaps c i \<Longrightarrow> wf (reserve i c)"
    and members_reserve:
      "wf c \<Longrightarrow> wfi i \<Longrightarrow> \<not> overlaps c i \<Longrightarrow> members (reserve i c) = insert i (members c)"
    and conflict_sym: "conflict a b \<longleftrightarrow> conflict b a"
begin

lemma still_free:
  assumes "wf c" "wfi i" "wfi j" "\<not> overlaps c i" "\<not> overlaps c j" "\<not> conflict i j"
  shows "\<not> overlaps (reserve i c) j"
  using assms by (simp add: overlaps_iff wf_reserve members_reserve)

lemma taken_afterwards:
  assumes "wf c" "wfi i" "wfi j" "\<not> overlaps c i" "conflict i j"
  shows "overlaps (reserve i c) j"
  using assms by (simp add: overlaps_iff wf_reserve members_reserve)

end

interpretation cal: calendar_spec hasOverlap ivs_insert set clash ivs_ok ivl_ok
  by unfold_locales (auto simp: hasOverlap_iff ivs_insert_ok set_ivs_insert clash_sym)

end
