(* ===== verification/FunctionalUnit.thy ===== *)
theory FunctionalUnit
  imports Instruction Intervals
begin

text \<open>
  \<open>CinnamonFunctionalUnit\<close> and \<open>CinnamonBaseConversionUnit\<close> of \<open>functionalUnit.h\<close> and
  \<open>functionalUnit.cc\<close>. A functional unit holds a calendar of reserved input intervals, the
  instructions in flight with the cycles left until their result is ready (\<open>busyWith\<close>), and the
  ones still in the pipeline (\<open>inProcess\<close>). Cycles are naturals; the countdowns are the unsigned
  64-bit decrements of the code. \<open>V\<close> stands for the global \<open>VEC_DEPTH\<close>.

  The lemmas show what a cycle does to a unit and, in \<open>fu_inv\<close>, the invariant under which a unit
  can always issue the instruction whose interval starts.
\<close>

section \<open>State\<close>

record fu =
  fu_res :: "instr calendar"
  fu_busy :: "(instr \<times> nat) list"
  fu_inproc :: "(instr \<times> nat) list"
  fu_latency :: nat
  fu_consuming :: nat
  fu_vecDepth :: nat
  fs_busy :: nat
  fs_busyWindow :: nat
  fs_issue :: nat
  fs_issueWindow :: nat
  fs_total :: nat

text \<open>The constructor takes the latency and the depth as \<open>uint16_t\<close>.\<close>

definition mk_fu :: "nat \<Rightarrow> nat \<Rightarrow> fu" where
  "mk_fu lat vd = \<lparr>fu_res = [], fu_busy = [], fu_inproc = [], fu_latency = lat mod 2 ^ 16,
     fu_consuming = 0, fu_vecDepth = vd mod 2 ^ 16, fs_busy = 0, fs_busyWindow = 0, fs_issue = 0,
     fs_issueWindow = 0, fs_total = 0\<rparr>"

section \<open>Reservations\<close>

definition isIntervalReservable :: "fu \<Rightarrow> instr interval \<Rightarrow> bool" where
  "isIntervalReservable u iv = (\<not> hasOverlap (fu_res u) iv)"

definition addReservation :: "instr interval \<Rightarrow> fu \<Rightarrow> fu res" where
  "addReservation iv u =
     (if hasOverlap (fu_res u) iv = False then Inr (u\<lparr>fu_res := ivs_insert iv (fu_res u)\<rparr>)
      else Inl FatalExit)"

section \<open>The two halves of a cycle\<close>

definition reset_windows :: "nat \<Rightarrow> fu \<Rightarrow> fu" where
  "reset_windows now u =
     (if now mod 100000 = 0 then u\<lparr>fs_busyWindow := 0, fs_issueWindow := 0\<rparr> else u)"

definition fu_begin :: "nat \<Rightarrow> nat \<Rightarrow> regfile \<Rightarrow> fu \<Rightarrow> fu res" where
  "fu_begin V now rf u0 =
    (let u1 = reset_windows now u0;
         u = (if fu_consuming u1 \<noteq> 0 then u1\<lparr>fu_consuming := fu_consuming u1 - 1\<rparr> else u1)
     in if ivs_empty (fu_res u) then Inr u
        else bindr (ivs_front (fu_res u)) (\<lambda>iv.
          if istart iv < now then Inr u
          else if now < istart iv then Inr u
          else if iend iv < now then Inl AssertFail
          else bindr (the_res NullDeref (ival iv)) (\<lambda>i.
            bindr (allOperandsReady rf i) (\<lambda>rdy.
              if rdy \<noteq> True then Inl FatalExit
              else if fu_consuming u \<noteq> 0 then Inl FatalExit
              else Inr (u\<lparr>fu_busy := fu_busy u @ [(i, fu_latency u)],
                          fs_issue := fs_issue u + fu_vecDepth u,
                          fs_issueWindow := fs_issueWindow u + fu_vecDepth u,
                          fu_consuming := fu_vecDepth u,
                          fu_inproc := fu_inproc u @ [(i, fu_latency u + V - 1)]\<rparr>)))))"

fun tick_busy :: "(instr \<times> nat) list \<Rightarrow> regfile \<Rightarrow> ((instr \<times> nat) list \<times> regfile) res" where
  "tick_busy [] rf = Inr ([], rf)"
| "tick_busy ((i, c) # xs) rf =
     (let c' = u64_dec c in
      if c' = 0 then bindr (setExecutionComplete i rf) (tick_busy xs)
      else bindr (tick_busy xs rf) (\<lambda>(ys, rf). Inr ((i, c') # ys, rf)))"

fun tick_inproc :: "(instr \<times> nat) list \<Rightarrow> (instr \<times> nat) list" where
  "tick_inproc [] = []"
| "tick_inproc ((i, c) # xs) =
     (let c' = u64_dec c in if c' = 0 then tick_inproc xs else (i, c') # tick_inproc xs)"

text \<open>The last component is what \<open>addBusyCyclesWindow\<close> adds to the chip's statistics.\<close>

definition fu_end :: "nat \<Rightarrow> nat \<Rightarrow> fu \<Rightarrow> regfile \<Rightarrow> (fu \<times> regfile \<times> nat) res" where
  "fu_end V now u0 rf0 =
    (let u1 = u0\<lparr>fs_total := fs_total u0 + 1\<rparr>;
         u2 = (if fu_inproc u1 \<noteq> [] then
                 u1\<lparr>fs_busy := fs_busy u1 + 1, fs_busyWindow := fs_busyWindow u1 + 1\<rparr> else u1)
     in bindr (tick_busy (fu_busy u2) rf0) (\<lambda>(busy, rf).
        let u = u2\<lparr>fu_busy := busy, fu_inproc := tick_inproc (fu_inproc u2)\<rparr> in
        if ivs_empty (fu_res u) then Inr (u, rf, 0)
        else bindr (ivs_front (fu_res u)) (\<lambda>iv.
          if iend iv = now then
            bindr (ivs_popFront (fu_res u)) (\<lambda>rest. Inr (u\<lparr>fu_res := rest\<rparr>, rf, V))
          else Inr (u, rf, 0))))"

definition fu_okayToFinish :: "fu \<Rightarrow> bool" where
  "fu_okayToFinish u = (if fu_res u \<noteq> [] \<or> fu_busy u \<noteq> [] then False else True)"

section \<open>Base conversion units\<close>

record bcu =
  bcu_phy :: nat
  bcu_busy :: "instr option"
  bcu_latency :: nat

definition mk_bcu :: "nat \<Rightarrow> nat \<Rightarrow> bcu" where
  "mk_bcu phy lat = \<lparr>bcu_phy = phy mod 2 ^ 16, bcu_busy = None, bcu_latency = lat mod 2 ^ 16\<rparr>"

definition bcu_begin :: "nat \<Rightarrow> bcu \<Rightarrow> bcu" where
  "bcu_begin now b = b"

definition bcu_end :: "nat \<Rightarrow> bcu \<Rightarrow> regfile \<Rightarrow> (bcu \<times> regfile) res" where
  "bcu_end now b rf = (case bcu_busy b of
       None \<Rightarrow> Inr (b, rf)
     | Some i \<Rightarrow> bindr (isCompleted rf i) (\<lambda>c.
         if c then bindr (setExecutionComplete i rf) (\<lambda>rf. Inr (b\<lparr>bcu_busy := None\<rparr>, rf))
         else Inr (b, rf)))"

definition isBusy :: "bcu \<Rightarrow> bool" where
  "isBusy b = (bcu_busy b \<noteq> None)"

definition initInstruction :: "nat \<Rightarrow> instr \<Rightarrow> bcu \<Rightarrow> regfile \<Rightarrow> (bcu \<times> regfile) res" where
  "initInstruction now i b rf =
     guardr (bcu_busy b = None) AssertFail
       (bindr (setPhyiscalBaseConversionRegister i (bcu_phy b) rf) (\<lambda>rf.
          Inr (b\<lparr>bcu_busy := Some i\<rparr>, rf)))"

definition bcu_okayToFinish :: "bcu \<Rightarrow> bool" where
  "bcu_okayToFinish b = (if bcu_busy b \<noteq> None then False else True)"

section \<open>The countdown\<close>

text \<open>
  A cycle completes exactly the instructions with one cycle left, in the order they were issued,
  and takes one cycle off the others.
\<close>

lemma tick_busy_spec:
  assumes "\<forall>(i, c) \<in> set xs. 1 \<le> c"
  shows "tick_busy xs rf =
     bindr (foldr_res setExecutionComplete (map fst (filter (\<lambda>(i, c). c = 1) xs)) rf) (\<lambda>rf'.
       Inr (map (\<lambda>(i, c). (i, c - 1)) (filter (\<lambda>(i, c). c \<noteq> 1) xs), rf'))"
  using assms
proof (induction xs arbitrary: rf)
  case Nil
  then show ?case by simp
next
  case (Cons x xs)
  obtain i c where x: "x = (i, c)" by force
  have IH: "tick_busy xs rf =
     bindr (foldr_res setExecutionComplete (map fst (filter (\<lambda>(i, c). c = 1) xs)) rf) (\<lambda>rf'.
       Inr (map (\<lambda>(i, c). (i, c - 1)) (filter (\<lambda>(i, c). c \<noteq> 1) xs), rf'))" for rf
    by (rule Cons.IH) (use Cons.prems in auto)
  show ?case using Cons.prems
    by (cases "setExecutionComplete i rf") (auto simp: x IH u64_dec_def bindr_assoc)
qed

lemma tick_busy_ge:
  assumes "tick_busy xs rf = Inr (ys, rf')" "\<forall>(i, c) \<in> set xs. 1 \<le> c"
  shows "\<forall>(i, c) \<in> set ys. 1 \<le> c"
  using assms by (fastforce simp: tick_busy_spec bindr_Inr_iff)

section \<open>The invariant of a unit\<close>

text \<open>
  At the start of cycle \<open>now\<close>: the calendar is disjoint and in order, none of its intervals is
  over, every interval is at least as long as the unit needs to consume a vector and carries an
  instruction, and what is left of the last issue fits into the interval in progress.
\<close>

definition fu_inv :: "nat \<Rightarrow> fu \<Rightarrow> bool" where
  "fu_inv now u \<longleftrightarrow>
     ivs_ok (fu_res u) \<and>
     (\<forall>iv \<in> set (fu_res u). now \<le> iend iv \<and> fu_vecDepth u \<le> iend iv - istart iv + 1 \<and>
        ival iv \<noteq> None) \<and>
     (fu_consuming u \<le> 1 \<or>
      (\<exists>iv \<in> set (fu_res u). istart iv < now \<and> now + fu_consuming u \<le> iend iv + 2))"

lemma fu_inv_mk [simp]: "fu_inv now (mk_fu lat vd)"
  by (simp add: fu_inv_def mk_fu_def)

lemma reservable_iff:
  "ivs_ok (fu_res u) \<Longrightarrow> ivl_ok iv \<Longrightarrow>
   isIntervalReservable u iv \<longleftrightarrow> (\<forall>x \<in> set (fu_res u). \<not> clash x iv)"
  by (simp add: isIntervalReservable_def cal.overlaps_iff)

lemma addReservation_reservable [simp]:
  "isIntervalReservable u iv \<Longrightarrow>
   addReservation iv u = Inr (u\<lparr>fu_res := ivs_insert iv (fu_res u)\<rparr>)"
  by (simp add: isIntervalReservable_def addReservation_def)

lemma addReservation_Inr_iff:
  "addReservation iv u = Inr u' \<longleftrightarrow>
   isIntervalReservable u iv \<and> u' = u\<lparr>fu_res := ivs_insert iv (fu_res u)\<rparr>"
  by (auto simp: isIntervalReservable_def addReservation_def)

lemma fu_inv_reserve:
  assumes "fu_inv now u" "isIntervalReservable u iv" "ivl_ok iv" "now \<le> istart iv"
    "fu_vecDepth u \<le> iend iv - istart iv + 1" "ival iv \<noteq> None"
  shows "fu_inv now (u\<lparr>fu_res := ivs_insert iv (fu_res u)\<rparr>)"
proof -
  have ok: "ivs_ok (fu_res u)" using assms(1) by (simp add: fu_inv_def)
  have no: "\<not> hasOverlap (fu_res u) iv" using assms(2) by (simp add: isIntervalReservable_def)
  show ?thesis
    using assms ivs_insert_ok [OF ok assms(3)] set_ivs_insert [OF no]
    by (auto simp: fu_inv_def ivl_ok_def)
qed

lemma still_reservable:
  assumes "ivs_ok (fu_res u)" "ivl_ok iv" "ivl_ok jv" "isIntervalReservable u iv"
    "isIntervalReservable u jv" "\<not> clash iv jv"
  shows "isIntervalReservable (u\<lparr>fu_res := ivs_insert iv (fu_res u)\<rparr>) jv"
  using assms cal.still_free [of "fu_res u" iv jv] by (simp add: isIntervalReservable_def)

text \<open>What starts now starts with the unit's input free.\<close>

lemma consuming_at_start:
  assumes "fu_inv now u" "iv \<in> set (fu_res u)" "now \<le> istart iv"
  shows "now + fu_consuming u \<le> istart iv + 1"
proof (cases "fu_consuming u \<le> 1")
  case False
  then obtain jv where jv: "jv \<in> set (fu_res u)" "istart jv < now"
    "now + fu_consuming u \<le> iend jv + 2"
    using assms(1) by (auto simp: fu_inv_def)
  obtain i j where ij: "i < length (fu_res u)" "j < length (fu_res u)"
    "fu_res u ! i = iv" "fu_res u ! j = jv" by (meson assms(2) jv(1) in_set_conv_nth)
  have ok: "ivs_ok (fu_res u)" "ivl_ok iv" using assms(1,2) by (auto simp: fu_inv_def ivs_ok_def)
  have "j < i"
  proof (rule ccontr)
    assume "\<not> j < i"
    with ij jv(2) assms(3) have "i < j" by (metis leD linorder_neqE_nat)
    from ivs_ok_disjoint [OF ok(1) this ij(2)] ij jv(2) assms(3) ok(2) show False
      by (simp add: ivl_ok_def)
  qed
  from ivs_ok_disjoint [OF ok(1) this ij(1)] ij jv(3) show ?thesis by simp
qed (use assms(3) in linarith)

lemma reset_windows_fields [simp]:
  "fu_res (reset_windows now u) = fu_res u" "fu_consuming (reset_windows now u) = fu_consuming u"
  "fu_vecDepth (reset_windows now u) = fu_vecDepth u" "fu_busy (reset_windows now u) = fu_busy u"
  "fu_latency (reset_windows now u) = fu_latency u" "fu_inproc (reset_windows now u) = fu_inproc u"
  by (simp_all add: reset_windows_def)

text \<open>
  In a unit whose invariant holds, the only way the start of a cycle can fail is an instruction
  whose operands are not ready when its interval starts.
\<close>

definition starts :: "nat \<Rightarrow> fu \<Rightarrow> instr \<Rightarrow> bool" where
  "starts now u i \<longleftrightarrow> (\<exists>iv rest. fu_res u = iv # rest \<and> istart iv = now \<and> ival iv = Some i)"

lemma fu_begin_fails:
  assumes "fu_inv now u" "fu_begin V now rf u = Inl e"
  shows "\<exists>i. starts now u i \<and> allOperandsReady rf i \<noteq> Inr True"
proof (cases "fu_res u")
  case Nil
  then show ?thesis using assms(2) by (auto simp: fu_begin_def ivs_empty_def Let_def split: if_splits)
next
  case (Cons iv rest)
  have iv: "ivl_ok iv" "now \<le> iend iv" "ival iv \<noteq> None"
    using assms(1) Cons by (auto simp: fu_inv_def ivs_ok_def)
  have free: "now \<le> istart iv \<Longrightarrow> now + fu_consuming u \<le> istart iv + 1"
    using consuming_at_start [OF assms(1), of iv] Cons by simp
  then show ?thesis
    using assms(2) iv
    by (auto simp: fu_begin_def ivs_empty_def Let_def Cons ivs_front_def starts_def bindr_Inl_iff
        split: if_splits)
qed

text \<open>A whole cycle keeps the invariant.\<close>

lemma fu_begin_effect:
  assumes "fu_begin V now rf u = Inr u'"
  shows "fu_res u' = fu_res u \<and> fu_vecDepth u' = fu_vecDepth u \<and>
    (if \<exists>i. starts now u i then fu_consuming u' = fu_vecDepth u
     else fu_consuming u' = fu_consuming u - 1)"
  using assms
  by (cases "fu_res u")
    (auto simp: fu_begin_def ivs_empty_def Let_def ivs_front_def starts_def bindr_Inr_iff
        the_res_Inr_iff split: if_splits)

lemma fu_end_effect:
  assumes "fu_end V now u rf = Inr (u', rf', n)"
  shows "fu_vecDepth u' = fu_vecDepth u \<and> fu_consuming u' = fu_consuming u \<and>
    fu_res u' = (case fu_res u of [] \<Rightarrow> [] | iv # rest \<Rightarrow> if iend iv = now then rest else iv # rest)"
  using assms
  by (cases "fu_res u")
    (auto simp: fu_end_def Let_def ivs_empty_def ivs_front_def ivs_popFront_def bindr_Inr_iff
        split: if_splits dest: arg_cong [where f = fu_res])

lemma fu_inv_cycle:
  assumes inv: "fu_inv now u" and b: "fu_begin V now rf u = Inr u1"
    and e: "fu_end V now u1 rf1 = Inr (u2, rf2, n)"
  shows "fu_inv (Suc now) u2"
proof -
  note eff = fu_begin_effect [OF b] fu_end_effect [OF e]
  show ?thesis
  proof (cases "fu_res u")
    case Nil
    then show ?thesis using eff inv by (auto simp: fu_inv_def starts_def)
  next
    case (Cons iv rest)
    have ok: "ivl_ok iv" "\<forall>y \<in> set rest. iend iv < istart y" "ivs_ok rest"
      "\<forall>y \<in> set rest. ivl_ok y" "now \<le> iend iv" "fu_vecDepth u \<le> iend iv - istart iv + 1"
      using inv Cons by (auto simp: fu_inv_def ivs_ok_Cons ivs_ok_def)
    have later: "\<forall>y \<in> set rest. Suc now \<le> iend y"
      using ok by (fastforce simp: ivl_ok_def)
    have cons: "fu_consuming u1 \<le> 1 \<or>
        (\<exists>y \<in> set (fu_res u2). istart y < Suc now \<and> Suc now + fu_consuming u1 \<le> iend y + 2)"
    proof (cases "\<exists>i. starts now u i")
      case True
      with eff Cons ok(1,6) show ?thesis by (auto simp: starts_def ivl_ok_def)
    next
      case no: False
      show ?thesis
      proof (cases "fu_consuming u \<le> 1")
        case False
        then obtain y where y: "y \<in> set (fu_res u)" "istart y < now"
          "now + fu_consuming u \<le> iend y + 2" using inv by (auto simp: fu_inv_def)
        have "y = iv"
        proof (rule ccontr)
          assume "y \<noteq> iv"
          with y(1) Cons have "y \<in> set rest" by simp
          with ok(2,5) y(2) show False by fastforce
        qed
        with y no eff Cons False show ?thesis by auto
      qed (use no eff in auto)
    qed
    show ?thesis
      using eff Cons inv later ok cons
      by (auto simp: fu_inv_def ivs_ok_Cons)
  qed
qed

section \<open>Reachable states of a unit\<close>

text \<open>
  A unit as the queues and the chip drive it: reservations of free intervals that start now or
  later, and cycles. The register file changes freely between the two halves of a cycle.
\<close>

inductive fu_reach :: "nat \<Rightarrow> nat \<Rightarrow> fu \<Rightarrow> bool" for V where
  fresh: "fu_reach V now (mk_fu lat vd)"
| reserve: "fu_reach V now u \<Longrightarrow> ivl_ok iv \<Longrightarrow> now \<le> istart iv \<Longrightarrow>
    fu_vecDepth u \<le> iend iv - istart iv + 1 \<Longrightarrow> ival iv \<noteq> None \<Longrightarrow>
    isIntervalReservable u iv \<Longrightarrow> addReservation iv u = Inr u' \<Longrightarrow> fu_reach V now u'"
| cycle: "fu_reach V now u \<Longrightarrow> fu_begin V now rf u = Inr u1 \<Longrightarrow>
    fu_end V now u1 rf1 = Inr (u2, rf2, n) \<Longrightarrow> fu_reach V (Suc now) u2"

lemma fu_reach_inv: "fu_reach V now u \<Longrightarrow> fu_inv now u"
proof (induction rule: fu_reach.induct)
  case (fresh now lat vd)
  show ?case by simp
next
  case (reserve now u iv u')
  then have "u' = u\<lparr>fu_res := ivs_insert iv (fu_res u)\<rparr>" by (simp add: addReservation_Inr_iff)
  with fu_inv_reserve [OF reserve.IH reserve.hyps(6,2,3,4,5)] show ?case by simp
next
  case (cycle now u rf u1 rf1 u2 rf2 n)
  then show ?case by (blast intro: fu_inv_cycle)
qed

end
