(* ===== verification/Queues.thy ===== *)
theory Queues
  imports FunctionalUnit "HOL-Library.Sublist"
begin

text \<open>
  The instruction queues of \<open>functionalUnit.cc\<close> that issue to functional units: add, mul, evg, rot,
  ntt, sud, bci, bcw, pl1, rsv and mod. A queue is the list of its instructions, oldest first; the
  units it may use are indices into the chip's list of functional units, as the queues and the chip
  share the unit objects. Every queue scans its instructions in order, skips those whose operands
  are not ready, and stops at the first one that finds no unit (the base conversion queue goes on).

  The lemmas, proved once for any queue in the locale \<open>issue_queue\<close>, say that a scan keeps the
  order and the multiset of instructions, that it keeps the invariant of the units, and when it
  cannot fail.
\<close>

section \<open>State\<close>

record latencies =
  lat_Add :: nat
  lat_Mul :: nat
  lat_Rsv :: nat
  lat_Mod :: nat
  lat_Evg :: nat
  lat_NTT_butterfly :: nat
  lat_NTT_one_stage :: nat
  lat_NTT :: nat
  lat_Transpose :: nat
  lat_Rot_one_stage :: nat
  lat_Rot :: nat
  lat_Bcu_write :: nat
  lat_Bcu_read :: nat

text \<open>What an issue reads and writes: the chip's units, its base conversion units, its registers.\<close>

record sched =
  sc_fus :: "fu list"
  sc_bcus :: "bcu list"
  sc_rf :: regfile

text \<open>The outcome of trying to issue one instruction: leave the loop, go on, or issued.\<close>

datatype 's outcome = Stop | Skip | Issued 's

fun scan :: "(instr \<Rightarrow> sched \<Rightarrow> sched outcome res) \<Rightarrow> instr list \<Rightarrow> sched
    \<Rightarrow> (instr list \<times> sched) res" where
  "scan issue [] s = Inr ([], s)"
| "scan issue (i # q) s = bindr (allOperandsReady (sc_rf s) i) (\<lambda>rdy.
     if rdy then bindr (issue i s) (\<lambda>r. case r of
         Stop \<Rightarrow> Inr (i # q, s)
       | Skip \<Rightarrow> bindr (scan issue q s) (\<lambda>(q, s). Inr (i # q, s))
       | Issued s \<Rightarrow> scan issue q s)
     else bindr (scan issue q s) (\<lambda>(q, s). Inr (i # q, s)))"

section \<open>Finding and reserving units\<close>

definition find_unit :: "sched \<Rightarrow> nat list \<Rightarrow> instr interval \<Rightarrow> nat option" where
  "find_unit s us iv = find_first_index (\<lambda>k. isIntervalReservable (sc_fus s ! k) iv) us"

text \<open>The search of the sud queue for a read unit has no \<open>break\<close>: the last free unit wins.\<close>

fun find_last_from :: "nat \<Rightarrow> ('a \<Rightarrow> bool) \<Rightarrow> 'a list \<Rightarrow> nat option \<Rightarrow> nat option" where
  "find_last_from n p [] acc = acc"
| "find_last_from n p (x # xs) acc = find_last_from (Suc n) p xs (if p x then Some n else acc)"

definition find_unit_last :: "sched \<Rightarrow> nat list \<Rightarrow> instr interval \<Rightarrow> nat option" where
  "find_unit_last s us iv =
     find_last_from 0 (\<lambda>k. isIntervalReservable (sc_fus s ! k) iv) us None"

definition reserve_unit :: "nat \<times> instr interval \<Rightarrow> sched \<Rightarrow> sched res" where
  "reserve_unit = (\<lambda>(k, iv) s. bindr (atr (sc_fus s) k) (\<lambda>u.
     bindr (addReservation iv u) (\<lambda>u. Inr (s\<lparr>sc_fus := (sc_fus s)[k := u]\<rparr>))))"

abbreviation reserve_units :: "(nat \<times> instr interval) list \<Rightarrow> sched \<Rightarrow> sched res" where
  "reserve_units \<equiv> foldr_res reserve_unit"

text \<open>One unit for \<open>V + ex\<close> cycles from now: the loop body of six of the queues.\<close>

definition issue_single :: "nat \<Rightarrow> nat \<Rightarrow> nat \<Rightarrow> nat list \<Rightarrow> instr \<Rightarrow> sched \<Rightarrow> sched outcome res" where
  "issue_single V ex now us i s =
     bindr (mk_interval now (now + V - 1 + ex) (Some i)) (\<lambda>iv.
       case find_unit s us iv of
         None \<Rightarrow> Inr Stop
       | Some n \<Rightarrow> bindr (reserve_unit (us ! n, iv) s) (\<lambda>s. Inr (Issued s)))"

section \<open>Add, mul, evg, rsv, mod and bcw\<close>

definition AddQueue_add :: "instr \<Rightarrow> instr list \<Rightarrow> instr list res" where
  "AddQueue_add i q = (case getOpCode i of
       Add \<Rightarrow> Inr (q @ [i]) | Sub \<Rightarrow> Inr (q @ [i]) | Neg \<Rightarrow> Inr (q @ [i])
     | _ \<Rightarrow> Inl AssertFail)"

definition AddQueue_tick :: "nat \<Rightarrow> nat \<Rightarrow> nat list \<Rightarrow> instr list \<Rightarrow> sched
    \<Rightarrow> (instr list \<times> sched) res" where
  "AddQueue_tick V now addUnits q s =
     (if q = [] then Inr (q, s) else scan (issue_single V 0 now addUnits) q s)"

definition MulQueue_add :: "instr \<Rightarrow> instr list \<Rightarrow> instr list res" where
  "MulQueue_add i q = (case getOpCode i of Mul \<Rightarrow> Inr (q @ [i]) | _ \<Rightarrow> Inl AssertFail)"

definition MulQueue_tick :: "nat \<Rightarrow> latencies \<Rightarrow> nat \<Rightarrow> nat list \<Rightarrow> instr list \<Rightarrow> sched
    \<Rightarrow> (instr list \<times> sched) res" where
  "MulQueue_tick V lat now mulUnits q s =
     (if q = [] then Inr (q, s) else scan (issue_single V (lat_Mul lat) now mulUnits) q s)"

definition EvgQueue_add :: "instr \<Rightarrow> instr list \<Rightarrow> instr list res" where
  "EvgQueue_add i q = (case getOpCode i of EvkGen \<Rightarrow> Inr (q @ [i]) | _ \<Rightarrow> Inl AssertFail)"

definition EvgQueue_tick :: "nat \<Rightarrow> latencies \<Rightarrow> nat \<Rightarrow> nat list \<Rightarrow> instr list \<Rightarrow> sched
    \<Rightarrow> (instr list \<times> sched) res" where
  "EvgQueue_tick V lat now evgUnits q s =
     (if q = [] then Inr (q, s) else scan (issue_single V (lat_Evg lat) now evgUnits) q s)"

definition RsvQueue_add :: "instr \<Rightarrow> instr list \<Rightarrow> instr list res" where
  "RsvQueue_add i q = (case getOpCode i of
       Rsi \<Rightarrow> Inr (q @ [i]) | Rsv \<Rightarrow> Inr (q @ [i]) | _ \<Rightarrow> Inl AssertFail)"

definition RsvQueue_tick :: "nat \<Rightarrow> latencies \<Rightarrow> nat \<Rightarrow> nat list \<Rightarrow> instr list \<Rightarrow> sched
    \<Rightarrow> (instr list \<times> sched) res" where
  "RsvQueue_tick V lat now rsvUnits q s =
     (if q = [] then Inr (q, s) else scan (issue_single V (lat_Rsv lat) now rsvUnits) q s)"

definition ModQueue_add :: "instr \<Rightarrow> instr list \<Rightarrow> instr list res" where
  "ModQueue_add i q = (case getOpCode i of Mod \<Rightarrow> Inr (q @ [i]) | _ \<Rightarrow> Inl AssertFail)"

definition ModQueue_tick :: "nat \<Rightarrow> latencies \<Rightarrow> nat \<Rightarrow> nat list \<Rightarrow> instr list \<Rightarrow> sched
    \<Rightarrow> (instr list \<times> sched) res" where
  "ModQueue_tick V lat now modUnits q s =
     (if q = [] then Inr (q, s) else scan (issue_single V (lat_Mod lat) now modUnits) q s)"

definition BcwQueue_add :: "instr \<Rightarrow> instr list \<Rightarrow> instr list res" where
  "BcwQueue_add i q = (case getOpCode i of BcW \<Rightarrow> Inr (q @ [i]) | _ \<Rightarrow> Inl AssertFail)"

definition BcwQueue_tick :: "nat \<Rightarrow> nat \<Rightarrow> nat list \<Rightarrow> instr list \<Rightarrow> sched
    \<Rightarrow> (instr list \<times> sched) res" where
  "BcwQueue_tick V now bcWriteUnits q s =
     (if q = [] then Inr (q, s) else scan (issue_single V 0 now bcWriteUnits) q s)"

section \<open>Rot\<close>

definition RotQueue_add :: "instr \<Rightarrow> instr list \<Rightarrow> instr list res" where
  "RotQueue_add i q = (case getOpCode i of
       Rot \<Rightarrow> Inr (q @ [i]) | Con \<Rightarrow> Inr (q @ [i]) | _ \<Rightarrow> Inl AssertFail)"

definition issue_rot :: "nat \<Rightarrow> latencies \<Rightarrow> nat \<Rightarrow> nat list \<Rightarrow> nat list \<Rightarrow> instr \<Rightarrow> sched
    \<Rightarrow> sched outcome res" where
  "issue_rot V lat now rotUnits transposeUnits i s =
    (let startRot = now; endRot = startRot + V - 1 in
     bindr (mk_interval startRot endRot (Some i)) (\<lambda>ivRot.
     let startTra1 = now + lat_Rot_one_stage lat; endTra1 = startTra1 + V - 1 in
     bindr (mk_interval startTra1 endTra1 (Some mk_NoOp)) (\<lambda>ivTra1.
     let startTra2 = now + lat_Rot_one_stage lat + lat_Transpose lat + lat_Rot_one_stage lat in
     guardr (startTra2 > endTra1) AssertFail (
     let endTra2 = startTra2 + V - 1 in
     bindr (mk_interval startTra2 endTra2 (Some mk_NoOp)) (\<lambda>ivTra2.
     case find_unit s rotUnits ivRot of None \<Rightarrow> Inr Stop | Some r \<Rightarrow>
     (case find_unit s transposeUnits ivTra1 of None \<Rightarrow> Inr Stop | Some t1 \<Rightarrow>
     (case find_unit s transposeUnits ivTra2 of None \<Rightarrow> Inr Stop | Some t2 \<Rightarrow>
       bindr (reserve_units [(rotUnits ! r, ivRot), (transposeUnits ! t1, ivTra1),
                             (transposeUnits ! t2, ivTra2)] s)
         (\<lambda>s. Inr (Issued s)))))))))"

definition RotQueue_tick :: "nat \<Rightarrow> latencies \<Rightarrow> nat \<Rightarrow> nat list \<Rightarrow> nat list \<Rightarrow> instr list \<Rightarrow> sched
    \<Rightarrow> (instr list \<times> sched) res" where
  "RotQueue_tick V lat now rotUnits transposeUnits q s =
     (if q = [] then Inr (q, s) else scan (issue_rot V lat now rotUnits transposeUnits) q s)"

section \<open>Ntt\<close>

definition NttQueue_add :: "instr \<Rightarrow> instr list \<Rightarrow> instr list res" where
  "NttQueue_add i q = (case getOpCode i of
       Ntt \<Rightarrow> Inr (q @ [i]) | IntOp \<Rightarrow> Inr (q @ [i]) | _ \<Rightarrow> Inl AssertFail)"

text \<open>The dynamic casts to the classes of the hierarchy.\<close>

fun is_NttI :: "instr \<Rightarrow> bool" where
  "is_NttI (NttI _ _ _ _ _) = True" | "is_NttI _ = False"

fun is_InttI :: "instr \<Rightarrow> bool" where
  "is_InttI (InttI _ _ _ _) = True" | "is_InttI _ = False"

fun is_SuDI :: "instr \<Rightarrow> bool" where
  "is_SuDI (SuDI _ _ _ _ _) = True" | "is_SuDI _ = False"

fun is_BciI :: "instr \<Rightarrow> bool" where
  "is_BciI (BciI _ _) = True" | "is_BciI _ = False"

fun is_Pl1I :: "instr \<Rightarrow> bool" where
  "is_Pl1I (Pl1I _ _ _ _) = True" | "is_Pl1I _ = False"

text \<open>
  The read port of a fused instruction: \<open>Inr None\<close> when no port is free, otherwise the port, if
  one is needed, and the cycle the transform starts. The assertion compares the unsigned 16-bit
  port id with -1, which never holds, so it never fails.
\<close>

definition bc_read_port :: "(sched \<Rightarrow> nat list \<Rightarrow> instr interval \<Rightarrow> nat option) \<Rightarrow> latencies \<Rightarrow> nat
    \<Rightarrow> nat list \<Rightarrow> bool \<Rightarrow> instr interval \<Rightarrow> instr \<Rightarrow> sched \<Rightarrow> (nat option \<times> nat) option res" where
  "bc_read_port search lat now bcReadUnits hasSrc ivBcRead i s =
     (if hasSrc then
        bindr (getBcSrcPhyID (sc_rf s) i) (\<lambda>phy.
        guardr (int phy \<noteq> - 1) AssertFail (
        case search s bcReadUnits ivBcRead of
          None \<Rightarrow> Inr None
        | Some n \<Rightarrow> Inr (Some (Some n, now + lat_Bcu_read lat))))
      else Inr (Some (None, now)))"

definition issue_ntt :: "nat \<Rightarrow> latencies \<Rightarrow> nat \<Rightarrow> nat list \<Rightarrow> nat list \<Rightarrow> nat list \<Rightarrow> instr \<Rightarrow> sched
    \<Rightarrow> sched outcome res" where
  "issue_ntt V lat now bcReadUnits nttUnits transposeUnits i s =
    (let startBcRead = now; endBcRead = startBcRead + V - 1 + lat_Bcu_read lat;
         src = is_NttI i \<and> hasBcSrc i in
     bindr (mk_interval startBcRead endBcRead None) (\<lambda>ivBcRead.
     bindr (bc_read_port find_unit lat now bcReadUnits src ivBcRead i s) (\<lambda>port.
     case port of None \<Rightarrow> Inr Stop | Some (bcr, startNtt) \<Rightarrow>
    (let endNtt = startNtt + V - 1 + lat_NTT_butterfly lat in
     bindr (mk_interval startNtt endNtt None) (\<lambda>ivNtt.
     let startTra = startNtt + lat_NTT_one_stage lat + lat_Mul lat; endTra = startTra + V - 1 in
     bindr (mk_interval startTra endTra (Some mk_NoOp)) (\<lambda>ivTra.
     let startBcWrite = startNtt + lat_NTT lat;
         endBcWrite = startBcWrite + V - 1 + lat_Bcu_write lat in
     bindr (mk_interval startBcWrite endBcWrite None) (\<lambda>ivBcWrite :: instr interval.
     guardr (\<not> (is_InttI i \<and> hasBcDest i)) AssertFail (
     case (find_unit s nttUnits ivNtt, find_unit s transposeUnits ivTra) of
       (Some n, Some t) \<Rightarrow>
        (if src then
           bindr (the_res AssertFail bcr) (\<lambda>b.
           bindr (splitInstruction i (sc_rf s)) (\<lambda>(parts, rf).
           guardr (length parts = 2) AssertFail (
           bindr (mk_interval startBcRead endBcRead (Some (parts ! 0))) (\<lambda>ivBcRead.
           bindr (mk_interval startNtt endNtt (Some (parts ! 1))) (\<lambda>ivNtt.
           bindr (reserve_units [(bcReadUnits ! b, ivBcRead), (nttUnits ! n, ivNtt),
                                 (transposeUnits ! t, ivTra)] (s\<lparr>sc_rf := rf\<rparr>))
             (\<lambda>s. Inr (Issued s)))))))
         else
           bindr (mk_interval startNtt endNtt (Some i)) (\<lambda>ivNtt.
           bindr (reserve_units [(nttUnits ! n, ivNtt), (transposeUnits ! t, ivTra)] s)
             (\<lambda>s. Inr (Issued s))))
     | _ \<Rightarrow> Inr Stop))))))))"

definition NttQueue_tick :: "nat \<Rightarrow> latencies \<Rightarrow> nat \<Rightarrow> nat list \<Rightarrow> nat list \<Rightarrow> nat list \<Rightarrow> instr list
    \<Rightarrow> sched \<Rightarrow> (instr list \<times> sched) res" where
  "NttQueue_tick V lat now bcReadUnits nttUnits transposeUnits q s =
     (if q = [] then Inr (q, s)
      else scan (issue_ntt V lat now bcReadUnits nttUnits transposeUnits) q s)"

section \<open>Sud\<close>

definition SuDQueue_add :: "instr \<Rightarrow> instr list \<Rightarrow> instr list res" where
  "SuDQueue_add i q = (case getOpCode i of SuD \<Rightarrow> Inr (q @ [i]) | _ \<Rightarrow> Inl AssertFail)"

definition issue_sud :: "nat \<Rightarrow> latencies \<Rightarrow> nat \<Rightarrow> nat list \<Rightarrow> nat list \<Rightarrow> nat list \<Rightarrow> nat list
    \<Rightarrow> nat list \<Rightarrow> instr \<Rightarrow> sched \<Rightarrow> sched outcome res" where
  "issue_sud V lat now bcReadUnits addUnits mulUnits nttUnits transposeUnits i s =
    (let startBcRead = now; endBcRead = startBcRead + V - 1 + lat_Bcu_read lat in
     bindr (mk_interval startBcRead endBcRead None) (\<lambda>ivBcRead.
     guardr (is_SuDI i) AssertFail (
     bindr (bc_read_port find_unit_last lat now bcReadUnits (hasBcSrc i) ivBcRead i s) (\<lambda>port.
     case port of None \<Rightarrow> Inr Stop | Some (bcr, startNtt) \<Rightarrow>
    (let endNtt = startNtt + V - 1 + lat_NTT_butterfly lat in
     bindr (mk_interval startNtt endNtt None) (\<lambda>ivNtt.
     let startTra = startNtt + lat_NTT_one_stage lat + lat_Mul lat; endTra = startTra + V - 1 in
     bindr (mk_interval startTra endTra (Some mk_NoOp)) (\<lambda>ivTra.
     let startSub = startNtt + lat_NTT lat; endSub = startSub + V - 1 in
     bindr (mk_interval startSub endSub None) (\<lambda>ivSub.
     let startDiv = startSub + lat_Add lat; endDiv = startDiv + V - 1 + lat_Mul lat in
     bindr (mk_interval startDiv endDiv None) (\<lambda>ivDiv.
     case find_unit s nttUnits ivNtt of None \<Rightarrow> Inr Stop | Some n \<Rightarrow>
     (case find_unit s transposeUnits ivTra of None \<Rightarrow> Inr Stop | Some t \<Rightarrow>
     (case find_unit s addUnits ivSub of None \<Rightarrow> Inr Stop | Some a \<Rightarrow>
     (case find_unit s mulUnits ivDiv of None \<Rightarrow> Inr Stop | Some m \<Rightarrow>
       bindr (splitInstruction i (sc_rf s)) (\<lambda>(parts, rf).
       bindr (if hasBcSrc i then
                bindr (the_res AssertFail bcr) (\<lambda>b.
                guardr (length parts = 4) AssertFail (
                bindr (mk_interval startBcRead endBcRead (Some (parts ! 0)))
                  (\<lambda>iv. Inr ([(bcReadUnits ! b, iv)], tl parts))))
              else guardr (length parts = 3) AssertFail (Inr ([], parts)))
         (\<lambda>(reads, stages).
       bindr (mk_interval startNtt endNtt (Some (stages ! 0))) (\<lambda>ivNtt.
       bindr (mk_interval startSub endSub (Some (stages ! 1))) (\<lambda>ivSub.
       bindr (mk_interval startDiv endDiv (Some (stages ! 2))) (\<lambda>ivDiv.
       bindr (reserve_units (reads @ [(nttUnits ! n, ivNtt), (transposeUnits ! t, ivTra),
                 (addUnits ! a, ivSub), (mulUnits ! m, ivDiv)]) (s\<lparr>sc_rf := rf\<rparr>))
         (\<lambda>s. Inr (Issued s)))))))))))))))))))"

definition SuDQueue_tick :: "nat \<Rightarrow> latencies \<Rightarrow> nat \<Rightarrow> nat list \<Rightarrow> nat list \<Rightarrow> nat list \<Rightarrow> nat list
    \<Rightarrow> nat list \<Rightarrow> instr list \<Rightarrow> sched \<Rightarrow> (instr list \<times> sched) res" where
  "SuDQueue_tick V lat now bcReadUnits addUnits mulUnits nttUnits transposeUnits q s =
     (if q = [] then Inr (q, s)
      else scan (issue_sud V lat now bcReadUnits addUnits mulUnits nttUnits transposeUnits) q s)"

section \<open>Pl1\<close>

definition Pl1Queue_add :: "instr \<Rightarrow> instr list \<Rightarrow> instr list res" where
  "Pl1Queue_add i q = (case getOpCode i of Pl1 \<Rightarrow> Inr (q @ [i]) | _ \<Rightarrow> Inl AssertFail)"

definition issue_pl1 :: "nat \<Rightarrow> latencies \<Rightarrow> nat \<Rightarrow> nat list \<Rightarrow> nat list \<Rightarrow> nat list \<Rightarrow> instr \<Rightarrow> sched
    \<Rightarrow> sched outcome res" where
  "issue_pl1 V lat now nttUnits transposeUnits bcWriteUnits i s =
    (let startIntt = now; endIntt = startIntt + V - 1 + lat_NTT_butterfly lat in
     bindr (mk_interval startIntt endIntt None) (\<lambda>ivIntt.
     let startTra = now + lat_NTT_one_stage lat + lat_Mul lat; endTra = startTra + V - 1 in
     bindr (mk_interval startTra endTra (Some mk_NoOp)) (\<lambda>ivTra.
     let startBcWrite = now + lat_NTT lat; endBcWrite = startBcWrite + V - 1 in
     bindr (mk_interval startBcWrite endBcWrite None) (\<lambda>ivBcWrite.
     case find_unit s nttUnits ivIntt of None \<Rightarrow> Inr Stop | Some n \<Rightarrow>
     (case find_unit s transposeUnits ivTra of None \<Rightarrow> Inr Stop | Some t \<Rightarrow>
     (case find_unit s bcWriteUnits ivBcWrite of None \<Rightarrow> Inr Stop | Some w \<Rightarrow>
       guardr (is_Pl1I i) AssertFail (
       bindr (splitInstruction i (sc_rf s)) (\<lambda>(parts, rf).
       guardr (length parts = 2) AssertFail (
       bindr (mk_interval startIntt endIntt (Some (parts ! 0))) (\<lambda>ivIntt.
       bindr (mk_interval startBcWrite endBcWrite (Some (parts ! 1))) (\<lambda>ivBcWrite.
       bindr (reserve_units [(nttUnits ! n, ivIntt), (transposeUnits ! t, ivTra),
                             (bcWriteUnits ! w, ivBcWrite)] (s\<lparr>sc_rf := rf\<rparr>))
         (\<lambda>s. Inr (Issued s)))))))))))))"

definition Pl1Queue_tick :: "nat \<Rightarrow> latencies \<Rightarrow> nat \<Rightarrow> nat list \<Rightarrow> nat list \<Rightarrow> nat list \<Rightarrow> instr list
    \<Rightarrow> sched \<Rightarrow> (instr list \<times> sched) res" where
  "Pl1Queue_tick V lat now nttUnits transposeUnits bcWriteUnits q s =
     (if q = [] then Inr (q, s)
      else scan (issue_pl1 V lat now nttUnits transposeUnits bcWriteUnits) q s)"

section \<open>Bci\<close>

definition BciQueue_add :: "instr \<Rightarrow> instr list \<Rightarrow> instr list res" where
  "BciQueue_add i q =
     guardr (is_BciI i) AssertFail
       (case getOpCode i of Bci \<Rightarrow> Inr (q @ [i]) | _ \<Rightarrow> Inl AssertFail)"

text \<open>The queue holds every base conversion unit of the chip.\<close>

definition issue_bci :: "nat \<Rightarrow> instr \<Rightarrow> sched \<Rightarrow> sched outcome res" where
  "issue_bci now i s =
     (case find_first_index (\<lambda>b. isBusy b = False) (sc_bcus s) of
        None \<Rightarrow> Inr Skip
      | Some n \<Rightarrow> bindr (initInstruction now i (sc_bcus s ! n) (sc_rf s)) (\<lambda>(b, rf).
          Inr (Issued (s\<lparr>sc_bcus := (sc_bcus s)[n := b], sc_rf := rf\<rparr>))))"

definition BciQueue_tick :: "nat \<Rightarrow> instr list \<Rightarrow> sched \<Rightarrow> (instr list \<times> sched) res" where
  "BciQueue_tick now q s = (if q = [] then Inr (q, s) else scan (issue_bci now) q s)"

text \<open>\<open>okayToFinish\<close> is the same for each of these queues.\<close>

definition queue_okayToFinish :: "instr list \<Rightarrow> bool" where
  "queue_okayToFinish q = (q = [])"

section \<open>What a reservation does to the schedule\<close>

definition sched_inv :: "nat \<Rightarrow> sched \<Rightarrow> bool" where
  "sched_inv now s \<longleftrightarrow> (\<forall>u \<in> set (sc_fus s). fu_inv now u)"

text \<open>The units of a vector exist, and consume a vector in at most \<open>d\<close> cycles.\<close>

definition units_ok :: "nat \<Rightarrow> nat list \<Rightarrow> sched \<Rightarrow> bool" where
  "units_ok d us s \<longleftrightarrow>
     (\<forall>k \<in> set us. k < length (sc_fus s) \<and> fu_vecDepth (sc_fus s ! k) \<le> d)"

definition depths :: "sched \<Rightarrow> nat list" where
  "depths s = map fu_vecDepth (sc_fus s)"

definition booked :: "sched \<Rightarrow> instr option multiset" where
  "booked s = (\<Sum>u \<leftarrow> sc_fus s. mset (map ival (fu_res u)))"

definition slot_ok :: "nat \<Rightarrow> sched \<Rightarrow> nat \<times> instr interval \<Rightarrow> bool" where
  "slot_ok now s = (\<lambda>(k, iv). k < length (sc_fus s) \<and> isIntervalReservable (sc_fus s ! k) iv \<and>
     ivl_ok iv \<and> now \<le> istart iv \<and> fu_vecDepth (sc_fus s ! k) \<le> iend iv - istart iv + 1 \<and>
     ival iv \<noteq> None)"

definition compatible :: "nat \<times> instr interval \<Rightarrow> nat \<times> instr interval \<Rightarrow> bool" where
  "compatible a b \<longleftrightarrow> fst a \<noteq> fst b \<or> \<not> clash (snd a) (snd b)"

lemma units_ok_depths: "depths s' = depths s \<Longrightarrow> units_ok d us s' = units_ok d us s"
proof -
  assume "depths s' = depths s"
  then have "length (sc_fus s') = length (sc_fus s)"
    and "\<forall>k < length (sc_fus s). fu_vecDepth (sc_fus s' ! k) = fu_vecDepth (sc_fus s ! k)"
    unfolding depths_def by (auto simp: list_eq_iff_nth_eq)
  then show ?thesis by (auto simp: units_ok_def)
qed

lemma sum_list_replace:
  "k < length us \<Longrightarrow> (\<Sum>u \<leftarrow> us[k := v]. f u) + f (us ! k) = (\<Sum>u \<leftarrow> us. f u) + (f v :: 'b :: comm_monoid_add)"
  by (induction us arbitrary: k) (auto split: nat.splits simp: ac_simps)

lemma booked_update:
  assumes "k < length (sc_fus s)" "mset (map ival (fu_res u)) = add_mset x (mset (map ival (fu_res (sc_fus s ! k))))"
  shows "booked (s\<lparr>sc_fus := (sc_fus s)[k := u]\<rparr>) = add_mset x (booked s)"
proof -
  from sum_list_replace [OF assms(1), of "\<lambda>u. mset (map ival (fu_res u))" u] assms(2)
  show ?thesis by (simp add: booked_def)
qed

lemma reserve_unit_ok:
  assumes inv: "sched_inv now s" and ok: "slot_ok now s (k, iv)"
  shows "\<exists>s'. reserve_unit (k, iv) s = Inr s' \<and> sched_inv now s' \<and> depths s' = depths s \<and>
    sc_rf s' = sc_rf s \<and> sc_bcus s' = sc_bcus s \<and>
    booked s' = add_mset (ival iv) (booked s) \<and>
    (\<forall>b. slot_ok now s b \<longrightarrow> compatible (k, iv) b \<longrightarrow> slot_ok now s' b)"
proof -
  let ?u = "sc_fus s ! k"
  let ?u' = "?u\<lparr>fu_res := ivs_insert iv (fu_res ?u)\<rparr>"
  let ?s = "s\<lparr>sc_fus := (sc_fus s)[k := ?u']\<rparr>"
  have k: "k < length (sc_fus s)" and r: "isIntervalReservable ?u iv" and iv: "ivl_ok iv"
    using ok by (auto simp: slot_ok_def)
  have fu: "fu_inv now ?u" using inv k by (simp add: sched_inv_def)
  have fu': "fu_inv now ?u'" using ok by (intro fu_inv_reserve fu) (auto simp: slot_ok_def)
  have "reserve_unit (k, iv) s = Inr ?s" using k r by (simp add: reserve_unit_def)
  moreover have "sched_inv now ?s"
    using inv fu' by (auto simp: sched_inv_def dest!: set_update_subset_insert [THEN subsetD])
  moreover have "depths ?s = depths s"
    using k by (auto simp: depths_def list_eq_iff_nth_eq nth_list_update)
  moreover have "booked ?s = add_mset (ival iv) (booked s)"
    using r mset_ivs_insert [of "fu_res ?u" iv] k
    by (intro booked_update) (simp_all add: isIntervalReservable_def)
  moreover have "slot_ok now ?s b" if b: "slot_ok now s b" "compatible (k, iv) b" for b
  proof (cases "fst b = k")
    case True
    with b fu iv r have "isIntervalReservable ?u' (snd b)"
      by (intro still_reservable) (auto simp: slot_ok_def compatible_def fu_inv_def)
    with True b k show ?thesis by (auto simp: slot_ok_def)
  qed (use b in \<open>auto simp: slot_ok_def\<close>)
  ultimately show ?thesis by auto
qed

lemma reserve_units_ok:
  assumes "sched_inv now s" "\<forall>b \<in> set rs. slot_ok now s b" "sorted_wrt compatible rs"
  shows "\<exists>s'. reserve_units rs s = Inr s' \<and> sched_inv now s' \<and> depths s' = depths s \<and>
    sc_rf s' = sc_rf s \<and> sc_bcus s' = sc_bcus s \<and>
    booked s' = booked s + mset (map (ival \<circ> snd) rs)"
  using assms
proof (induction rs arbitrary: s)
  case Nil
  then show ?case by simp
next
  case (Cons a rs)
  obtain k iv where a: "a = (k, iv)" by force
  from Cons.prems(1,2) obtain t where t: "reserve_unit (k, iv) s = Inr t" "sched_inv now t"
    "depths t = depths s" "sc_rf t = sc_rf s" "sc_bcus t = sc_bcus s"
    "booked t = add_mset (ival iv) (booked s)"
    "\<forall>b. slot_ok now s b \<longrightarrow> compatible (k, iv) b \<longrightarrow> slot_ok now t b"
    using reserve_unit_ok [of now s k iv] by (auto simp: a)
  have "\<forall>b \<in> set rs. slot_ok now t b" "sorted_wrt compatible rs"
    using Cons.prems(2,3) t(7) by (auto simp: a)
  from Cons.IH [OF t(2) this] t show ?case by (auto simp: a)
qed

text \<open>The unit a search returns is one of the vector's and can be reserved.\<close>

lemma find_unit_Some:
  "find_unit s us iv = Some n \<Longrightarrow> n < length us \<and> isIntervalReservable (sc_fus s ! (us ! n)) iv"
  unfolding find_unit_def by (drule find_first_index_Some) simp

lemma find_last_from_Some:
  "find_last_from n p xs acc = Some k \<Longrightarrow>
   acc = Some k \<or> n \<le> k \<and> k - n < length xs \<and> p (xs ! (k - n))"
proof (induction n p xs acc rule: find_last_from.induct)
  case (2 n p x xs acc)
  then consider "(if p x then Some n else acc) = Some k"
    | "Suc n \<le> k" "k - Suc n < length xs" "p (xs ! (k - Suc n))" by auto
  then show ?case
  proof cases
    case 2
    then have "k - n = Suc (k - Suc n)" by simp
    with 2 show ?thesis by simp
  qed (auto split: if_splits)
qed simp

lemma find_unit_last_Some:
  "find_unit_last s us iv = Some n \<Longrightarrow> n < length us \<and> isIntervalReservable (sc_fus s ! (us ! n)) iv"
  unfolding find_unit_last_def by (drule find_last_from_Some) simp

lemma isIntervalReservable_val: "isIntervalReservable u (Interval a b v) = isIntervalReservable u (Interval a b w)"
proof -
  have "ivs_find (Interval a b v) xs = ivs_find (Interval a b w) xs" for xs :: "instr calendar"
    by (induction xs) (simp_all add: ivs_find_Cons)
  then show ?thesis by (simp add: isIntervalReservable_def hasOverlap_def)
qed

lemma slot_okI:
  assumes "n < length us \<and> isIntervalReservable (sc_fus s ! (us ! n)) (Interval a b v)"
    and "units_ok d us s" "a < b" "now \<le> a" "d \<le> b - a + 1"
  shows "slot_ok now s (us ! n, Interval a b (Some i))"
  using assms isIntervalReservable_val [of "sc_fus s ! (us ! n)" a b v "Some i"]
  by (auto simp: slot_ok_def units_ok_def ivl_ok_def dest: order_trans)

lemma slot_ok_rf [simp]: "slot_ok now (s\<lparr>sc_rf := rf\<rparr>) b = slot_ok now s b"
  by (cases b) (simp add: slot_ok_def)

lemma sched_rf_frame [simp]:
  "sched_inv now (s\<lparr>sc_rf := rf\<rparr>) = sched_inv now s" "depths (s\<lparr>sc_rf := rf\<rparr>) = depths s"
  "booked (s\<lparr>sc_rf := rf\<rparr>) = booked s" "units_ok d us (s\<lparr>sc_rf := rf\<rparr>) = units_ok d us s"
  by (simp_all add: sched_inv_def depths_def booked_def units_ok_def)

section \<open>Registers across an issue\<close>

text \<open>
  The pointers of an instruction are not dangling, a \<open>Dis\<close> has its source, and a base conversion
  register it reads sits in a unit once its value is there.
\<close>

definition ops_valid :: "regfile \<Rightarrow> instr \<Rightarrow> bool" where
  "ops_valid rf i \<longleftrightarrow> (\<forall>r \<in> set (held_regs i). valid_reg rf r) \<and>
     (\<forall>b \<in> set (held_bcs i). b < length (rf_b rf)) \<and>
     (\<forall>b \<in> set (read_bcs i). br_ready (rf_b rf ! b) \<longrightarrow> br_phy (rf_b rf ! b) \<noteq> None) \<and>
     (case i of DisI op d s n m l \<Rightarrow> op = Dis \<longrightarrow> s \<noteq> None | _ \<Rightarrow> True)"

lemma read_bcs_held: "set (read_bcs i) \<subseteq> set (held_bcs i)"
  by (cases i) simp_all

text \<open>Existing registers are as they were; a base conversion register may have got its unit.\<close>

definition rf_kept :: "regfile \<Rightarrow> regfile \<Rightarrow> bool" where
  "rf_kept rf rf' \<longleftrightarrow> (\<forall>r. valid_reg rf r \<longrightarrow> get_reg rf' r = get_reg rf r) \<and>
     length (rf_b rf') = length (rf_b rf) \<and>
     (\<forall>b < length (rf_b rf). br_ready (rf_b rf' ! b) = br_ready (rf_b rf ! b) \<and>
        br_refs (rf_b rf' ! b) = br_refs (rf_b rf ! b) \<and>
        br_reads (rf_b rf' ! b) = br_reads (rf_b rf ! b) \<and>
        br_writes (rf_b rf' ! b) = br_writes (rf_b rf ! b) \<and>
        (br_phy (rf_b rf ! b) \<noteq> None \<longrightarrow> br_phy (rf_b rf' ! b) \<noteq> None))"

lemma rf_kept_refl [simp]: "rf_kept rf rf"
  by (simp add: rf_kept_def)

lemma rf_kept_valid: "rf_kept rf rf' \<Longrightarrow> valid_reg rf r \<Longrightarrow> valid_reg rf' r"
  by (simp add: rf_kept_def valid_reg_def)

lemma rf_kept_trans: "rf_kept rf rf' \<Longrightarrow> rf_kept rf' rf'' \<Longrightarrow> rf_kept rf rf''"
  using rf_kept_valid [of rf rf'] by (simp add: rf_kept_def)

lemma ops_valid_kept: "rf_kept rf rf' \<Longrightarrow> ops_valid rf i \<Longrightarrow> ops_valid rf' i"
  using rf_kept_valid [of rf rf'] read_bcs_held [of i] by (simp add: ops_valid_def rf_kept_def subset_iff)

lemma getValueReady_total: "valid_reg rf r \<Longrightarrow> \<exists>b. getValueReady rf r = Inr b"
  by (auto simp: getValueReady_def valid_reg_def)

lemma all_ready_total: "\<forall>r \<in> set rs. valid_reg rf r \<Longrightarrow> \<exists>b. all_ready rf rs = Inr b"
proof (induction rs)
  case (Cons r rs)
  then obtain b c where "getValueReady rf r = Inr b" "all_ready rf rs = Inr c"
    using getValueReady_total [of rf r] by auto
  then show ?case by (intro exI [of _ "b \<and> c"]) simp
qed auto

lemma andr_total: "\<exists>x. a = Inr x \<Longrightarrow> \<exists>y. b = Inr y \<Longrightarrow> \<exists>z. andr a b = Inr z"
  by (auto simp: andr_def)

lemma allOperandsReady_total:
  assumes "ops_valid rf i"
  shows "\<exists>b. allOperandsReady rf i = Inr b"
proof -
  have v: "valid_reg rf r \<Longrightarrow> \<exists>b. getValueReady rf r = Inr b" for r
    by (rule getValueReady_total)
  have b: "b < length (rf_b rf) \<Longrightarrow> \<exists>x. bc_getValueReady rf b = Inr x"
    "b < length (rf_b rf) \<Longrightarrow> \<exists>x. bc_hasPhysicalID rf b = Inr x" for b
    by (simp_all add: bc_getValueReady_def bc_hasPhysicalID_def get_bc_def)
  have vb: "\<forall>r \<in> set (vb_regs s). valid_reg rf r \<Longrightarrow> \<forall>b \<in> set (vb_bcs s). b < length (rf_b rf) \<Longrightarrow>
    \<exists>x. vb_ready rf s = Inr x" for s
    using v b by (cases s) auto
  show ?thesis
  proof (cases i)
    case (InttI op d s l)
    then show ?thesis using assms v [of s] b
      by (cases d) (auto simp: ops_valid_def intro!: andr_total, metis andr_total bindr_simps(2))
  next
    case (SuDI op d s1 s2 l)
    then show ?thesis using assms v [of s1] vb [of s2]
      by (auto simp: ops_valid_def) (metis andr_total bindr_simps(2))
  next
    case (RsvI op ds s l)
    then show ?thesis using assms v by (cases s) (auto simp: ops_valid_def)
  next
    case (DisI op d s n m l)
    then show ?thesis using assms v by (cases s) (auto simp: ops_valid_def)
  next
    case (ModI op d ss l)
    then show ?thesis using assms all_ready_total by (auto simp: ops_valid_def)
  qed (use assms v b vb in \<open>auto simp: ops_valid_def intro!: andr_total\<close>)
qed

section \<open>The contract of an issue\<close>

definition held_opt :: "instr option \<Rightarrow> preg \<Rightarrow> int" where
  "held_opt x r = (case x of None \<Rightarrow> 0 | Some i \<Rightarrow> held i r)"

definition held_booked :: "sched \<Rightarrow> preg \<Rightarrow> int" where
  "held_booked s r = (\<Sum>x \<in># booked s. held_opt x r)"

text \<open>The references on base conversion registers, the base conversion units' instructions included.\<close>

definition bc_held_opt :: "instr option \<Rightarrow> nat \<Rightarrow> int" where
  "bc_held_opt x b = (case x of None \<Rightarrow> 0 | Some i \<Rightarrow> bc_held i b)"

definition bc_held_booked :: "sched \<Rightarrow> nat \<Rightarrow> int" where
  "bc_held_booked s b = (\<Sum>x \<in># booked s. bc_held_opt x b) +
     (\<Sum>u \<leftarrow> sc_bcus s. bc_held_opt (bcu_busy u) b)"

text \<open>
  The queue splits an \<open>Ntt\<close> that reads a base conversion register, and its second destination is
  then held by no part. What an instruction holds without it is what an issue must keep.
\<close>

fun lost_regs :: "instr \<Rightarrow> preg list" where
  "lost_regs (NttI op d d2 (VB b) l) = opt_regs d2"
| "lost_regs _ = []"

definition kept :: "instr \<Rightarrow> preg \<Rightarrow> int" where
  "kept i r = held i r - int (count_list (lost_regs i) r)"

definition kept_all :: "instr list \<Rightarrow> preg \<Rightarrow> int" where
  "kept_all is r = (\<Sum>i \<leftarrow> is. kept i r)"

text \<open>
  Issuing \<open>i\<close> moves the references it holds into the calendars: on the registers there were, what
  the booked instructions hold grows by what \<open>i\<close> held; a forwarding register made on the way is
  counted exactly as often as the new bookings hold it.
\<close>

definition moved :: "instr \<Rightarrow> sched \<Rightarrow> sched \<Rightarrow> bool" where
  "moved i s s' \<longleftrightarrow> rf_kept (sc_rf s) (sc_rf s') \<and> depths s' = depths s \<and>
     (\<forall>r. valid_reg (sc_rf s) r \<longrightarrow> held_booked s' r = held_booked s r + kept i r) \<and>
     (\<forall>r. valid_reg (sc_rf s') r \<longrightarrow> \<not> valid_reg (sc_rf s) r \<longrightarrow>
        refs (sc_rf s') r = held_booked s' r - held_booked s r) \<and>
     (\<forall>b. bc_held_booked s' b = bc_held_booked s b + bc_held i b)"

text \<open>
  Any queue: what its loop body promises of one ready instruction, and what follows of a whole
  scan. The scan ends, keeps the units' invariant, leaves a subsequence of the queue, and neither
  loses nor invents a reference.
\<close>

locale issue_queue =
  fixes issue :: "instr \<Rightarrow> sched \<Rightarrow> sched outcome res"
    and good :: "sched \<Rightarrow> bool"
    and accepts :: "instr \<Rightarrow> bool"
  assumes issue_one: "good s \<Longrightarrow> accepts i \<Longrightarrow> ops_valid (sc_rf s) i \<Longrightarrow>
    allOperandsReady (sc_rf s) i = Inr True \<Longrightarrow>
    \<exists>x. issue i s = Inr x \<and> (\<forall>s'. x = Issued s' \<longrightarrow> good s' \<and> moved i s s')"
begin

lemma scan_spec:
  assumes "good s" "\<forall>i \<in> set q. accepts i \<and> ops_valid (sc_rf s) i"
  shows "\<exists>q' s'. scan issue q s = Inr (q', s') \<and> good s' \<and> subseq q' q \<and>
    rf_kept (sc_rf s) (sc_rf s') \<and> depths s' = depths s \<and>
    (\<forall>r. valid_reg (sc_rf s) r \<longrightarrow>
       held_booked s' r + kept_all q' r = held_booked s r + kept_all q r) \<and>
    (\<forall>b. bc_held_booked s' b + bc_held_all q' b = bc_held_booked s b + bc_held_all q b)"
  using assms
proof (induction q arbitrary: s)
  case Nil
  then show ?case by simp
next
  case (Cons i q)
  have i: "accepts i" "ops_valid (sc_rf s) i" using Cons.prems by auto
  have skip: ?case if "scan issue (i # q) s = bindr (scan issue q s) (\<lambda>(q, s). Inr (i # q, s))"
    using Cons.IH [of s] Cons.prems that by (fastforce simp: kept_all_def bc_held_all_def)
  obtain rdy where rdy: "allOperandsReady (sc_rf s) i = Inr rdy"
    using allOperandsReady_total [OF i(2)] by blast
  show ?case
  proof (cases rdy)
    case False
    then show ?thesis using rdy by (intro skip) simp
  next
    case True
    with issue_one [OF Cons.prems(1) i] rdy obtain x where x: "issue i s = Inr x"
      "\<forall>s'. x = Issued s' \<longrightarrow> good s' \<and> moved i s s'" by auto
    show ?thesis
    proof (cases x)
      case Stop
      then show ?thesis using Cons.prems(1) rdy True x by simp
    next
      case Skip
      then show ?thesis using rdy True x by (intro skip) simp
    next
      case (Issued t)
      with x have t: "good t" "moved i s t" by auto
      then have k: "rf_kept (sc_rf s) (sc_rf t)" by (simp add: moved_def)
      with Cons.prems(2) have "\<forall>j \<in> set q. accepts j \<and> ops_valid (sc_rf t) j"
        by (auto intro: ops_valid_kept)
      from Cons.IH [OF t(1) this] obtain q' s' where s': "scan issue q t = Inr (q', s')"
        "good s'" "subseq q' q" "rf_kept (sc_rf t) (sc_rf s')" "depths s' = depths t"
        "\<And>r. valid_reg (sc_rf t) r \<Longrightarrow>
          held_booked s' r + kept_all q' r = held_booked t r + kept_all q r"
        "\<And>b. bc_held_booked s' b + bc_held_all q' b = bc_held_booked t b + bc_held_all q b" by blast
      have "scan issue (i # q) s = Inr (q', s')" using rdy True x Issued s'(1) by simp
      moreover have "held_booked s' r + kept_all q' r = held_booked s r + kept_all (i # q) r"
        if "valid_reg (sc_rf s) r" for r
        using s'(6) [OF rf_kept_valid [OF k that]] t(2) that by (simp add: moved_def kept_all_def)
      moreover have "bc_held_booked s' b + bc_held_all q' b =
          bc_held_booked s b + bc_held_all (i # q) b" for b
        using s'(7) [of b] t(2) by (simp add: moved_def bc_held_all_def)
      ultimately show ?thesis
        using s' t(2) rf_kept_trans [OF k s'(4)] by (auto simp: moved_def)
    qed
  qed
qed

end

section \<open>The queues meet the contract\<close>

lemma held_NoOp [simp]: "held NoOp r = 0"
  by (simp add: held_def)

lemma conserves_self: "lost_regs i = [] \<Longrightarrow> conserves (lost_regs i) i rf [i] rf"
  by (simp add: conserves_def held_all_def bc_held_all_def)

lemma sum_mset_replicate_NoOp [simp]:
  "(\<Sum>x \<in># replicate_mset n (Some NoOp). held_opt x r) = 0"
  "(\<Sum>x \<in># replicate_mset n (Some NoOp). bc_held_opt x b) = 0"
  by (induction n) (simp_all add: held_opt_def bc_held_opt_def bc_held_def)

lemma held_booked_parts: "(\<Sum>x \<in># image_mset Some (mset parts). held_opt x r) = held_all parts r"
  "(\<Sum>x \<in># image_mset Some (mset parts). bc_held_opt x b) = bc_held_all parts b"
  by (induction parts) (simp_all add: held_all_def held_opt_def bc_held_all_def bc_held_opt_def)

lemma issue_finish:
  assumes "conserves (lost_regs i) i (sc_rf s) parts rf'" "sched_inv now s"
    and "\<forall>b \<in> set rs. slot_ok now s b" "sorted_wrt compatible rs"
    and "mset (map (ival \<circ> snd) rs) = image_mset Some (mset parts) + replicate_mset n (Some NoOp)"
  shows "\<exists>s'. reserve_units rs (s\<lparr>sc_rf := rf'\<rparr>) = Inr s' \<and> sched_inv now s' \<and> moved i s s'"
proof -
  obtain s' where s': "reserve_units rs (s\<lparr>sc_rf := rf'\<rparr>) = Inr s'" "sched_inv now s'"
    "depths s' = depths s" "sc_rf s' = rf'" "sc_bcus s' = sc_bcus s"
    "booked s' = booked s + mset (map (ival \<circ> snd) rs)"
    using reserve_units_ok [of now "s\<lparr>sc_rf := rf'\<rparr>" rs] assms(2,3,4) by auto
  have "held_booked s' r = held_booked s r + held_all parts r" for r
    unfolding held_booked_def s'(6) assms(5)
    by (simp only: image_mset_union sum_mset.union held_booked_parts sum_mset_replicate_NoOp
        add_0_right)
  moreover have "bc_held_booked s' b = bc_held_booked s b + bc_held_all parts b" for b
    unfolding bc_held_booked_def s'(5,6) assms(5)
    by (simp only: image_mset_union sum_mset.union held_booked_parts sum_mset_replicate_NoOp
        add_0_right ac_simps)
  moreover have "held_all parts r = kept i r" if "valid_reg (sc_rf s) r" for r
    using assms(1) that by (auto simp: conserves_def kept_def)
  ultimately have "moved i s s'"
    using assms(1) s' by (simp add: moved_def conserves_def rf_kept_def)
  with s' show ?thesis by blast
qed

lemma moved_depths: "moved i s s' \<Longrightarrow> units_ok d us s' = units_ok d us s"
  by (rule units_ok_depths) (simp add: moved_def)

lemma moved_kept: "moved i s s' \<Longrightarrow> rf_kept (sc_rf s) (sc_rf s')"
  by (simp add: moved_def)

subsection \<open>One unit\<close>

definition single_good :: "nat \<Rightarrow> nat \<Rightarrow> nat \<Rightarrow> nat list \<Rightarrow> sched \<Rightarrow> bool" where
  "single_good V ex now us s \<longleftrightarrow> 2 \<le> V \<and> sched_inv now s \<and> units_ok (V + ex) us s"

lemma issue_single_ok:
  assumes "single_good V ex now us s" and acc: "lost_regs i = []"
  shows "\<exists>x. issue_single V ex now us i s = Inr x \<and>
    (\<forall>s'. x = Issued s' \<longrightarrow> single_good V ex now us s' \<and> moved i s s')"
proof -
  let ?iv = "Interval now (now + V - 1 + ex) (Some i)"
  have V: "2 \<le> V" "sched_inv now s" "units_ok (V + ex) us s"
    using assms by (simp_all add: single_good_def)
  then have mk: "mk_interval now (now + V - 1 + ex) (Some i) = Inr ?iv" by simp
  show ?thesis
  proof (cases "find_unit s us ?iv")
    case None
    then show ?thesis using mk by (simp add: issue_single_def)
  next
    case (Some n)
    have "slot_ok now s (us ! n, ?iv)"
      by (rule slot_okI [OF find_unit_Some [OF Some] V(3)]) (use V(1) in auto)
    then obtain s' where "reserve_unit (us ! n, ?iv) s = Inr s'" "sched_inv now s'" "moved i s s'"
      using issue_finish [OF conserves_self [OF acc], where s = s and now = now and rs = "[(us ! n, ?iv)]"
          and n = 0] V(2)
      by (auto simp: bindr_Inr_iff)
    then show ?thesis
      using mk Some V(1,3) moved_depths [of i s s'] by (simp add: issue_single_def single_good_def)
  qed
qed

interpretation single: issue_queue "issue_single V ex now us" "single_good V ex now us"
  "\<lambda>i. lost_regs i = []"
  for V ex now us
  by unfold_locales (rule issue_single_ok)

subsection \<open>Rotation\<close>

definition rot_good :: "nat \<Rightarrow> latencies \<Rightarrow> nat \<Rightarrow> nat list \<Rightarrow> nat list \<Rightarrow> sched \<Rightarrow> bool" where
  "rot_good V lat now rots tras s \<longleftrightarrow>
     2 \<le> V \<and> V \<le> lat_Transpose lat + lat_Rot_one_stage lat \<and> set rots \<inter> set tras = {} \<and>
     sched_inv now s \<and> units_ok V rots s \<and> units_ok V tras s"

lemma find_units_differ:
  "find_unit s us iv = Some n \<Longrightarrow> find_unit s vs jv = Some m \<Longrightarrow> set us \<inter> set vs = {} \<Longrightarrow>
   us ! n \<noteq> vs ! m"
  using find_unit_Some [of s us iv n] find_unit_Some [of s vs jv m]
  by (metis disjoint_iff nth_mem)

lemma find_unit_ival: "find_unit s us (Interval a b v) = find_unit s us (Interval a b None)"
  unfolding find_unit_def using isIntervalReservable_val by metis

lemma issue_rot_ok:
  assumes "rot_good V lat now rots tras s" and acc: "lost_regs i = []"
  shows "\<exists>x. issue_rot V lat now rots tras i s = Inr x \<and>
    (\<forall>s'. x = Issued s' \<longrightarrow> rot_good V lat now rots tras s' \<and> moved i s s')"
proof -
  let ?t1 = "now + lat_Rot_one_stage lat"
  let ?t2 = "now + lat_Rot_one_stage lat + lat_Transpose lat + lat_Rot_one_stage lat"
  let ?r = "Interval now (now + V - 1) (Some i)"
  let ?a = "Interval ?t1 (?t1 + V - 1) (Some NoOp)" and ?b = "Interval ?t2 (?t2 + V - 1) (Some NoOp)"
  have V: "2 \<le> V" "sched_inv now s" "units_ok V rots s" "units_ok V tras s"
    "set rots \<inter> set tras = {}" "V \<le> lat_Transpose lat + lat_Rot_one_stage lat"
    using assms by (simp_all add: rot_good_def)
  have late: "now + lat_Rot_one_stage lat + V - Suc 0 < ?t2" using V(1,6) by arith
  note eq = issue_rot_def Let_def mk_NoOp_def
  show ?thesis
  proof (cases "find_unit s rots ?r = None \<or> find_unit s tras ?a = None \<or> find_unit s tras ?b = None")
    case True
    then show ?thesis using V(1) late by (auto simp: eq split: option.split)
  next
    case False
    then obtain r t1 t2 where f: "find_unit s rots ?r = Some r" "find_unit s tras ?a = Some t1"
      "find_unit s tras ?b = Some t2" by (metis not_None_eq)
    let ?rs = "[(rots ! r, ?r), (tras ! t1, ?a), (tras ! t2, ?b)]"
    have "slot_ok now s (rots ! r, ?r)"
      by (rule slot_okI [OF find_unit_Some [OF f(1)] V(3)]) (use V(1) in auto)
    moreover have "slot_ok now s (tras ! t1, ?a)"
      by (rule slot_okI [OF find_unit_Some [OF f(2)] V(4)]) (use V(1) in auto)
    moreover have "slot_ok now s (tras ! t2, ?b)"
      by (rule slot_okI [OF find_unit_Some [OF f(3)] V(4)]) (use V(1) in auto)
    ultimately have "\<forall>b \<in> set ?rs. slot_ok now s b" by simp
    moreover have "sorted_wrt compatible ?rs"
      using find_units_differ [OF f(1) f(2) V(5)] find_units_differ [OF f(1) f(3) V(5)] V(1,6)
      by (auto simp: compatible_def clash_def)
    ultimately obtain s' where "reserve_units ?rs s = Inr s'" "sched_inv now s'" "moved i s s'"
      using issue_finish [OF conserves_self [OF acc], where s = s and now = now and rs = ?rs and n = 2] V(2)
      by (auto simp: numeral_2_eq_2)
    then show ?thesis
      using V f late moved_depths [of i s s'] by (simp add: eq rot_good_def)
  qed
qed

interpretation rot: issue_queue "issue_rot V lat now rots tras" "rot_good V lat now rots tras"
  "\<lambda>i. lost_regs i = []" for V lat now rots tras
  by unfold_locales (rule issue_rot_ok)

subsection \<open>Transforms\<close>

lemma bc_read_port_total:
  assumes "hasSrc \<Longrightarrow> \<exists>p. getBcSrcPhyID (sc_rf s) i = Inr p"
  shows "\<exists>x. bc_read_port search lat now us hasSrc iv i s = Inr x \<and>
    (\<forall>p st. x = Some (p, st) \<longrightarrow>
       (if hasSrc then \<exists>n. p = Some n \<and> search s us iv = Some n \<and> st = now + lat_Bcu_read lat
        else p = None \<and> st = now))"
proof (cases hasSrc)
  case True
  with assms obtain p where "getBcSrcPhyID (sc_rf s) i = Inr p" by blast
  with True show ?thesis by (cases "search s us iv") (auto simp: bc_read_port_def)
qed (simp add: bc_read_port_def)

lemma ready_has_phys:
  "ops_valid rf i \<Longrightarrow> b \<in> set (read_bcs i) \<Longrightarrow> bc_getValueReady rf b = Inr True \<Longrightarrow>
   \<exists>p. bc_getPhyID rf b = Inr p"
  using read_bcs_held [of i]
  by (auto simp: ops_valid_def bc_getValueReady_def bc_getPhyID_def get_bc_def bindr_Inr_iff
      split: if_splits)

definition ntt_good :: "nat \<Rightarrow> latencies \<Rightarrow> nat \<Rightarrow> nat list \<Rightarrow> nat list \<Rightarrow> nat list \<Rightarrow> sched \<Rightarrow> bool"
  where "ntt_good V lat now bcrs ntts tras s \<longleftrightarrow>
     2 \<le> V \<and> sched_inv now s \<and>
     set bcrs \<inter> set ntts = {} \<and> set bcrs \<inter> set tras = {} \<and> set ntts \<inter> set tras = {} \<and>
     units_ok (V + lat_Bcu_read lat) bcrs s \<and> units_ok (V + lat_NTT_butterfly lat) ntts s \<and>
     units_ok V tras s"

definition ntt_accepts :: "instr \<Rightarrow> bool" where
  "ntt_accepts i \<longleftrightarrow> \<not> (is_InttI i \<and> hasBcDest i)"

lemma ntt_good_moved:
  "ntt_good V lat now bcrs ntts tras s \<Longrightarrow> moved i s s' \<Longrightarrow> sched_inv now s' \<Longrightarrow>
   ntt_good V lat now bcrs ntts tras s'"
  using moved_depths [of i s s']
  by (auto simp: ntt_good_def)

lemma hasBcSrc_NttI: "is_NttI i \<Longrightarrow> hasBcSrc i \<Longrightarrow> \<exists>op d d2 b l. i = NttI op d d2 (VB b) l"
  by (cases i rule: hasBcSrc.cases) auto

lemma split_ntt_bc:
  assumes "is_NttI i" "hasBcSrc i" "ops_valid rf i"
  obtains a b rf' where "splitInstruction i rf = Inr ([a, b], rf')"
    "conserves (lost_regs i) i rf [a, b] rf'"
proof -
  from hasBcSrc_NttI [OF assms(1,2)] obtain op d d2 b l where i: "i = NttI op d d2 (VB b) l"
    by blast
  obtain parts rf' where "splitInstruction i rf = Inr (parts, rf')"
    "conserves (dropped_regs i) i rf parts rf'"
    using split_conserves [of i rf] assms(3) unfolding ops_valid_def by (metis i compound.simps(1))
  with that show thesis by (auto simp: i split_ntt_bc_eq simp del: split_ntt.simps)
qed

lemma finish_issued:
  "\<exists>s'. reserve_units rs s = Inr s' \<and> sched_inv now s' \<and> moved i s0 s' \<Longrightarrow>
   \<exists>x. bindr (reserve_units rs s) (\<lambda>s. Inr (Issued s)) = Inr x \<and>
     (\<forall>s'. x = Issued s' \<longrightarrow> sched_inv now s' \<and> moved i s0 s')"
  by auto

lemma issue_ntt_moves:
  assumes good: "ntt_good V lat now bcrs ntts tras s" and acc: "ntt_accepts i"
    and ops: "ops_valid (sc_rf s) i" and rdy: "allOperandsReady (sc_rf s) i = Inr True"
  shows "\<exists>x. issue_ntt V lat now bcrs ntts tras i s = Inr x \<and>
    (\<forall>s'. x = Issued s' \<longrightarrow> sched_inv now s' \<and> moved i s s')"
proof -
  note good' = good [unfolded ntt_good_def]
  let ?src = "is_NttI i \<and> hasBcSrc i"
  let ?bcr = "Interval now (now + V - 1 + lat_Bcu_read lat)"
  have V: "now < now + V - 1 + e" "x < x + V - 1 + e" "x < x + V - 1" for x e :: nat
    using good' by auto
  have phys: "\<exists>p. getBcSrcPhyID (sc_rf s) i = Inr p" if ?src
    using hasBcSrc_NttI [of i] that ready_has_phys [OF ops] rdy by auto
  obtain port where port: "bc_read_port find_unit lat now bcrs ?src (?bcr None) i s = Inr port"
    "\<forall>p st. port = Some (p, st) \<longrightarrow> (if ?src then \<exists>n. p = Some n \<and>
        find_unit s bcrs (?bcr None) = Some n \<and> st = now + lat_Bcu_read lat
        else p = None \<and> st = now)"
    using bc_read_port_total [of ?src s i find_unit lat now bcrs "?bcr None"] phys by blast
  note eq = issue_ntt_def Let_def mk_NoOp_def mk_interval_ok [OF V(1)] mk_interval_ok [OF V(2)]
    mk_interval_ok [OF V(3)] port(1) bindr_simps option.case prod.case
  show ?thesis
  proof (cases port)
    case None
    then show ?thesis unfolding eq by simp
  next
    case (Some a)
    obtain p st where a: "port = Some (p, st)" using Some by (cases a) auto
    let ?ntt = "Interval st (st + V - 1 + lat_NTT_butterfly lat)"
    let ?tra = "Interval (st + lat_NTT_one_stage lat + lat_Mul lat)
      (st + lat_NTT_one_stage lat + lat_Mul lat + V - 1)"
    have guard: "guardr (\<not> (is_InttI i \<and> hasBcDest i)) AssertFail k = k" for k :: "sched outcome res"
      using acc by (auto simp: ntt_accepts_def)
    have st: "now \<le> st" using port(2) a by (auto split: if_splits)
    show ?thesis
    proof (cases "find_unit s ntts (?ntt None) = None \<or>
        find_unit s tras (?tra (Some NoOp)) = None")
      case True
      then show ?thesis
        unfolding eq a guard by (auto split: option.split)
    next
      case False
      then obtain n t where f: "find_unit s ntts (?ntt None) = Some n"
        "find_unit s tras (?tra (Some NoOp)) = Some t" by auto
      have ntt: "slot_ok now s (ntts ! n, ?ntt (Some j))" for j
        by (rule slot_okI [OF find_unit_Some [OF f(1)]]) (use good' st in auto)
      have tra: "slot_ok now s (tras ! t, ?tra (Some NoOp))"
        by (rule slot_okI [OF find_unit_Some [OF f(2)]]) (use good' st in auto)
      have d: "ntts ! n \<noteq> tras ! t" by (rule find_units_differ [OF f]) (use good' in auto)
      show ?thesis
      proof (cases ?src)
        case False
        then have plain: "lost_regs i = []" by (cases i rule: lost_regs.cases) auto
        have "\<exists>s'. reserve_units [(ntts ! n, ?ntt (Some i)), (tras ! t, ?tra (Some NoOp))]
            (s\<lparr>sc_rf := sc_rf s\<rparr>) = Inr s' \<and> sched_inv now s' \<and> moved i s s'"
          using good' ntt tra d
          by (intro issue_finish [OF conserves_self [OF plain], where n = 1]) (auto simp: compatible_def)
        from finish_issued [OF this] show ?thesis
          unfolding eq a guard f if_not_P [OF False] by (simp del: foldr_res.simps)
      next
        case True
        with port(2) a obtain b where b: "p = Some b" "find_unit s bcrs (?bcr None) = Some b"
          "st = now + lat_Bcu_read lat" by auto
        have "is_NttI i" "hasBcSrc i" using True by auto
        from split_ntt_bc [OF this ops] obtain x y rf' where sp: "splitInstruction i (sc_rf s) = Inr ([x, y], rf')"
          "conserves (lost_regs i) i (sc_rf s) [x, y] rf'"
          by blast
        have bcr: "slot_ok now s (bcrs ! b, ?bcr (Some j))" for j
          by (rule slot_okI [OF find_unit_Some [OF b(2)]]) (use good' in auto)
        have e: "bcrs ! b \<noteq> ntts ! n" "bcrs ! b \<noteq> tras ! t"
          using find_units_differ [OF b(2) f(1)] find_units_differ [OF b(2) f(2)] good' by auto
        have "\<exists>s'. reserve_units [(bcrs ! b, ?bcr (Some x)), (ntts ! n, ?ntt (Some y)),
            (tras ! t, ?tra (Some NoOp))] (s\<lparr>sc_rf := rf'\<rparr>) = Inr s' \<and> sched_inv now s' \<and>
            moved i s s'"
          using good' ntt tra bcr d e
          by (intro issue_finish [OF sp(2), where n = 1]) (auto simp: compatible_def)
        from finish_issued [OF this] show ?thesis
          unfolding eq a guard f if_P [OF True] using b(1) by (simp add: sp(1) del: foldr_res.simps)
      qed
    qed
  qed
qed

lemma issue_ntt_ok:
  "ntt_good V lat now bcrs ntts tras s \<Longrightarrow> ntt_accepts i \<Longrightarrow> ops_valid (sc_rf s) i \<Longrightarrow>
   allOperandsReady (sc_rf s) i = Inr True \<Longrightarrow>
   \<exists>x. issue_ntt V lat now bcrs ntts tras i s = Inr x \<and>
    (\<forall>s'. x = Issued s' \<longrightarrow> ntt_good V lat now bcrs ntts tras s' \<and> moved i s s')"
  using issue_ntt_moves [of V lat now bcrs ntts tras s i] ntt_good_moved by blast

interpretation ntt: issue_queue "issue_ntt V lat now bcrs ntts tras"
  "ntt_good V lat now bcrs ntts tras" ntt_accepts for V lat now bcrs ntts tras
  by unfold_locales (rule issue_ntt_ok)

subsection \<open>Subtract and divide\<close>

definition sud_good :: "nat \<Rightarrow> latencies \<Rightarrow> nat \<Rightarrow> nat list \<Rightarrow> nat list \<Rightarrow> nat list \<Rightarrow> nat list
    \<Rightarrow> nat list \<Rightarrow> sched \<Rightarrow> bool" where
  "sud_good V lat now bcrs adds muls ntts tras s \<longleftrightarrow>
     2 \<le> V \<and> sched_inv now s \<and>
     set bcrs \<inter> (set ntts \<union> set tras \<union> set adds \<union> set muls) = {} \<and>
     set ntts \<inter> (set tras \<union> set adds \<union> set muls) = {} \<and>
     set tras \<inter> (set adds \<union> set muls) = {} \<and> set adds \<inter> set muls = {} \<and>
     units_ok (V + lat_Bcu_read lat) bcrs s \<and> units_ok (V + lat_NTT_butterfly lat) ntts s \<and>
     units_ok V tras s \<and> units_ok V adds s \<and> units_ok (V + lat_Mul lat) muls s"

lemma sud_good_moved:
  "sud_good V lat now bcrs adds muls ntts tras s \<Longrightarrow> moved i s s' \<Longrightarrow> sched_inv now s' \<Longrightarrow>
   sud_good V lat now bcrs adds muls ntts tras s'"
  using moved_depths [of i s s']
  by (auto simp: sud_good_def)

text \<open>The stages of a split: a read in front when the source is a base conversion register.\<close>

lemma split_sud_parts:
  assumes "is_SuDI i" "ops_valid rf i"
  obtains a b c rf' where
    "\<not> hasBcSrc i" "splitInstruction i rf = Inr ([a, b, c], rf')"
    "conserves (lost_regs i) i rf [a, b, c] rf'"
  | r a b c rf' where
    "hasBcSrc i" "splitInstruction i rf = Inr ([r, a, b, c], rf')"
    "conserves (lost_regs i) i rf [r, a, b, c] rf'"
proof -
  obtain op d s1 s2 l where i: "i = SuDI op d s1 s2 l" using assms(1) by (cases i) auto
  obtain parts rf' where "splitInstruction i rf = Inr (parts, rf')"
    "conserves (dropped_regs i) i rf parts rf'"
    using split_conserves [of i rf] assms(2) unfolding ops_valid_def by (metis i compound.simps(3))
  with that show thesis
    by (cases s2) (auto simp: i split_sud_bc_eq split_sud_reg_eq Let_def simp del: split_sud.simps)
qed

lemma hasBcSrc_SuDI: "is_SuDI i \<Longrightarrow> hasBcSrc i \<Longrightarrow> \<exists>op d s1 b l. i = SuDI op d s1 (VB b) l"
  by (cases i rule: hasBcSrc.cases) auto

lemma issue_sud_moves:
  assumes good: "sud_good V lat now bcrs adds muls ntts tras s" and acc: "is_SuDI i"
    and ops: "ops_valid (sc_rf s) i" and rdy: "allOperandsReady (sc_rf s) i = Inr True"
  shows "\<exists>x. issue_sud V lat now bcrs adds muls ntts tras i s = Inr x \<and>
    (\<forall>s'. x = Issued s' \<longrightarrow> sched_inv now s' \<and> moved i s s')"
proof -
  note good' = good [unfolded sud_good_def]
  let ?src = "hasBcSrc i"
  let ?bcr = "Interval now (now + V - 1 + lat_Bcu_read lat)"
  have V: "now < now + V - 1 + e" "x < x + V - 1 + e" "x < x + V - 1" for x e :: nat
    using good' by auto
  have phys: "\<exists>p. getBcSrcPhyID (sc_rf s) i = Inr p" if ?src
  proof -
    obtain op d s1 b l where i: "i = SuDI op d s1 (VB b) l"
      using hasBcSrc_SuDI [OF acc \<open>?src\<close>] by blast
    then have "bc_getValueReady (sc_rf s) b = Inr True" using rdy by (auto simp: bindr_Inr_iff andr_def split: if_splits)
    then show ?thesis
      using ready_has_phys [OF ops, of b] by (auto simp: i)
  qed
  obtain port where port: "bc_read_port find_unit_last lat now bcrs ?src (?bcr None) i s = Inr port"
    "\<forall>p st. port = Some (p, st) \<longrightarrow> (if ?src then \<exists>n. p = Some n \<and>
        find_unit_last s bcrs (?bcr None) = Some n \<and> st = now + lat_Bcu_read lat
        else p = None \<and> st = now)"
    using bc_read_port_total [of ?src s i find_unit_last lat now bcrs "?bcr None"] phys by blast
  have sud: "is_SuDI i = True" using acc by simp
  have inv: "sched_inv now s" using good' by blast
  note eq = issue_sud_def Let_def mk_NoOp_def mk_interval_ok [OF V(1)] mk_interval_ok [OF V(2)]
    mk_interval_ok [OF V(3)] port(1) bindr_simps option.case prod.case sud guardr_simps
  show ?thesis
  proof (cases port)
    case None
    then show ?thesis unfolding eq by simp
  next
    case (Some a)
    obtain p st where a: "port = Some (p, st)" using Some by (cases a) auto
    let ?ntt = "Interval st (st + V - 1 + lat_NTT_butterfly lat)"
    let ?t0 = "st + lat_NTT_one_stage lat + lat_Mul lat"
    let ?tra = "Interval ?t0 (?t0 + V - 1)"
    let ?sub = "Interval (st + lat_NTT lat) (st + lat_NTT lat + V - 1)"
    let ?d0 = "st + lat_NTT lat + lat_Add lat"
    let ?div = "Interval ?d0 (?d0 + V - 1 + lat_Mul lat)"
    have st: "now \<le> st" using port(2) a by (auto split: if_splits)
    show ?thesis
    proof (cases "find_unit s ntts (?ntt None) = None \<or>
        find_unit s tras (?tra (Some NoOp)) = None \<or>
        find_unit s adds (?sub None) = None \<or> find_unit s muls (?div None) = None")
      case True
      then show ?thesis unfolding eq a by (auto split: option.split)
    next
      case False
      then obtain n t u m where f: "find_unit s ntts (?ntt None) = Some n"
        "find_unit s tras (?tra (Some NoOp)) = Some t" "find_unit s adds (?sub None) = Some u"
        "find_unit s muls (?div None) = Some m" by (metis not_None_eq)
      note found = f [THEN find_unit_Some]
      have ntt: "slot_ok now s (ntts ! n, ?ntt (Some j))" for j
        by (rule slot_okI [OF found(1)]) (use good' st in auto)
      have tra: "slot_ok now s (tras ! t, ?tra (Some j))" for j
        by (rule slot_okI [OF found(2)]) (use good' st in auto)
      have sub: "slot_ok now s (adds ! u, ?sub (Some j))" for j
        by (rule slot_okI [OF found(3)]) (use good' st in auto)
      have dv: "slot_ok now s (muls ! m, ?div (Some j))" for j
        by (rule slot_okI [OF found(4)]) (use good' st in auto)
      note slots = ntt tra sub dv
      have mem: "ntts ! n \<in> set ntts" "tras ! t \<in> set tras" "adds ! u \<in> set adds"
        "muls ! m \<in> set muls" using found by simp_all
      have d: "ntts ! n \<noteq> tras ! t" "ntts ! n \<noteq> adds ! u" "ntts ! n \<noteq> muls ! m"
        "tras ! t \<noteq> adds ! u" "tras ! t \<noteq> muls ! m" "adds ! u \<noteq> muls ! m"
        using good' mem by (auto simp: disjoint_iff)
      from acc ops show ?thesis
      proof (cases rule: split_sud_parts)
        case (1 x y z rf')
        have "\<exists>s'. reserve_units [(ntts ! n, ?ntt (Some x)), (tras ! t, ?tra (Some NoOp)),
            (adds ! u, ?sub (Some y)), (muls ! m, ?div (Some z))]
            (s\<lparr>sc_rf := rf'\<rparr>) = Inr s' \<and> sched_inv now s' \<and> moved i s s'"
          by (rule issue_finish [OF 1(3) inv, where n = 1])
            (use slots in simp, use d in \<open>simp add: compatible_def\<close>, simp)
        from finish_issued [OF this] show ?thesis
          unfolding eq a f using 1(1,2) by (simp add: numeral_2_eq_2 del: foldr_res.simps)
      next
        case (2 r x y z rf')
        with port(2) a obtain b where b: "p = Some b" "find_unit_last s bcrs (?bcr None) = Some b"
          by auto
        note fb = find_unit_last_Some [OF b(2)]
        have bcr: "slot_ok now s (bcrs ! b, ?bcr (Some r))"
          by (rule slot_okI [OF fb]) (use good' in auto)
        have bm: "bcrs ! b \<in> set bcrs" using fb by simp
        have e: "bcrs ! b \<noteq> ntts ! n" "bcrs ! b \<noteq> tras ! t" "bcrs ! b \<noteq> adds ! u"
          "bcrs ! b \<noteq> muls ! m"
          using good' mem bm by (auto simp: disjoint_iff)
        have "\<exists>s'. reserve_units [(bcrs ! b, ?bcr (Some r)), (ntts ! n, ?ntt (Some x)),
            (tras ! t, ?tra (Some NoOp)), (adds ! u, ?sub (Some y)), (muls ! m, ?div (Some z))]
            (s\<lparr>sc_rf := rf'\<rparr>) = Inr s' \<and> sched_inv now s' \<and> moved i s s'"
          by (rule issue_finish [OF 2(3) inv, where n = 1])
            (use slots bcr in simp, use d e in \<open>simp add: compatible_def\<close>, simp)
        from finish_issued [OF this] show ?thesis
          unfolding eq a f using 2(1,2) b(1) by (simp add: numeral_2_eq_2 del: foldr_res.simps)
      qed
    qed
  qed
qed

lemma issue_sud_ok:
  "sud_good V lat now bcrs adds muls ntts tras s \<Longrightarrow> is_SuDI i \<Longrightarrow> ops_valid (sc_rf s) i \<Longrightarrow>
   allOperandsReady (sc_rf s) i = Inr True \<Longrightarrow>
   \<exists>x. issue_sud V lat now bcrs adds muls ntts tras i s = Inr x \<and>
    (\<forall>s'. x = Issued s' \<longrightarrow> sud_good V lat now bcrs adds muls ntts tras s' \<and> moved i s s')"
  using issue_sud_moves [of V lat now bcrs adds muls ntts tras s i] sud_good_moved by blast

interpretation sud: issue_queue "issue_sud V lat now bcrs adds muls ntts tras"
  "sud_good V lat now bcrs adds muls ntts tras" is_SuDI for V lat now bcrs adds muls ntts tras
  by unfold_locales (rule issue_sud_ok)

subsection \<open>Transform into a base conversion register\<close>

definition pl1_good :: "nat \<Rightarrow> latencies \<Rightarrow> nat \<Rightarrow> nat list \<Rightarrow> nat list \<Rightarrow> nat list \<Rightarrow> sched \<Rightarrow> bool"
  where "pl1_good V lat now ntts tras bcws s \<longleftrightarrow>
     2 \<le> V \<and> sched_inv now s \<and>
     set ntts \<inter> set tras = {} \<and> set ntts \<inter> set bcws = {} \<and> set tras \<inter> set bcws = {} \<and>
     units_ok (V + lat_NTT_butterfly lat) ntts s \<and> units_ok V tras s \<and> units_ok V bcws s"

lemma split_pl1_parts:
  assumes "is_Pl1I i" "ops_valid rf i"
  obtains a b rf' where "splitInstruction i rf = Inr ([a, b], rf')"
    "conserves (lost_regs i) i rf [a, b] rf'"
proof -
  obtain op b s l where i: "i = Pl1I op b s l" using assms(1) by (cases i) auto
  obtain parts rf' where "splitInstruction i rf = Inr (parts, rf')"
    "conserves (dropped_regs i) i rf parts rf'"
    using split_conserves [of i rf] assms(2) unfolding ops_valid_def by (metis i compound.simps(4))
  with that show thesis by (auto simp: i split_pl1_eq simp del: split_pl1.simps)
qed

lemma issue_pl1_ok:
  assumes good: "pl1_good V lat now ntts tras bcws s" and acc: "is_Pl1I i"
    and ops: "ops_valid (sc_rf s) i"
  shows "\<exists>x. issue_pl1 V lat now ntts tras bcws i s = Inr x \<and>
    (\<forall>s'. x = Issued s' \<longrightarrow> pl1_good V lat now ntts tras bcws s' \<and> moved i s s')"
proof -
  note good' = good [unfolded pl1_good_def]
  let ?ntt = "Interval now (now + V - 1 + lat_NTT_butterfly lat)"
  let ?t0 = "now + lat_NTT_one_stage lat + lat_Mul lat" and ?w0 = "now + lat_NTT lat"
  let ?tra = "Interval ?t0 (?t0 + V - 1)" and ?bcw = "Interval ?w0 (?w0 + V - 1)"
  have V: "now < now + V - 1 + e" "x < x + V - 1" for x e :: nat using good' by auto
  have pl1: "is_Pl1I i = True" using acc by simp
  note eq = issue_pl1_def Let_def mk_NoOp_def mk_interval_ok [OF V(1)] mk_interval_ok [OF V(2)]
    bindr_simps option.case prod.case pl1 guardr_simps
  show ?thesis
  proof (cases "find_unit s ntts (?ntt None) = None \<or> find_unit s tras (?tra (Some NoOp)) = None \<or>
      find_unit s bcws (?bcw None) = None")
    case True
    then show ?thesis unfolding eq by (auto split: option.split)
  next
    case False
    then obtain n t w where f: "find_unit s ntts (?ntt None) = Some n"
      "find_unit s tras (?tra (Some NoOp)) = Some t" "find_unit s bcws (?bcw None) = Some w"
      by (metis not_None_eq)
    have ntt: "slot_ok now s (ntts ! n, ?ntt (Some j))" for j
      by (rule slot_okI [OF find_unit_Some [OF f(1)]]) (use good' in auto)
    have tra: "slot_ok now s (tras ! t, ?tra (Some j))" for j
      by (rule slot_okI [OF find_unit_Some [OF f(2)]]) (use good' in auto)
    have bcw: "slot_ok now s (bcws ! w, ?bcw (Some j))" for j
      by (rule slot_okI [OF find_unit_Some [OF f(3)]]) (use good' in auto)
    have d: "ntts ! n \<noteq> tras ! t" "ntts ! n \<noteq> bcws ! w" "tras ! t \<noteq> bcws ! w"
      using find_units_differ [OF f(1,2)] find_units_differ [OF f(1,3)]
        find_units_differ [OF f(2,3)] good' by auto
    from split_pl1_parts [OF acc ops] obtain x y rf' where
      sp: "splitInstruction i (sc_rf s) = Inr ([x, y], rf')" "conserves (lost_regs i) i (sc_rf s) [x, y] rf'" by blast
    have "\<exists>s'. reserve_units [(ntts ! n, ?ntt (Some x)), (tras ! t, ?tra (Some NoOp)),
        (bcws ! w, ?bcw (Some y))] (s\<lparr>sc_rf := rf'\<rparr>) = Inr s' \<and> sched_inv now s' \<and> moved i s s'"
      using good' ntt tra bcw d
      by (intro issue_finish [OF sp(2), where n = 1]) (auto simp: compatible_def)
    from finish_issued [OF this] show ?thesis
      unfolding eq f using good' moved_depths [of i s]
      by (auto simp: sp(1) pl1_good_def simp del: foldr_res.simps)
  qed
qed

interpretation pl1: issue_queue "issue_pl1 V lat now ntts tras bcws"
  "pl1_good V lat now ntts tras bcws" is_Pl1I for V lat now ntts tras bcws
  by unfold_locales (rule issue_pl1_ok)

subsection \<open>Base conversions\<close>

lemma issue_bci_ok:
  assumes good: "sched_inv now s" and acc: "is_BciI i" and ops: "ops_valid (sc_rf s) i"
  shows "\<exists>x. issue_bci now i s = Inr x \<and>
    (\<forall>s'. x = Issued s' \<longrightarrow> sched_inv now s' \<and> moved i s s')"
proof (cases "find_first_index (\<lambda>b. isBusy b = False) (sc_bcus s)")
  case None
  then show ?thesis by (simp add: issue_bci_def)
next
  case (Some n)
  then have n: "\<not> isBusy (sc_bcus s ! n)" by (auto dest: find_first_index_Some)
  obtain op b where i: "i = BciI op b" using acc by (cases i) auto
  let ?x = "(rf_b (sc_rf s) ! b)\<lparr>br_phy := Some (bcu_phy (sc_bcus s ! n))\<rparr>"
  let ?rf = "put_bc b ?x (sc_rf s)"
  have b: "b < length (rf_b (sc_rf s))" using ops by (simp add: ops_valid_def i)
  let ?u = "(sc_bcus s ! n)\<lparr>bcu_busy := Some i\<rparr>"
  have n': "n < length (sc_bcus s)" using Some by (auto dest: find_first_index_Some)
  have ex: "\<exists>s'. issue_bci now i s = Inr (Issued s') \<and> sc_fus s' = sc_fus s \<and> sc_rf s' = ?rf \<and>
      sc_bcus s' = (sc_bcus s)[n := ?u]"
    unfolding issue_bci_def Some option.case using n b
    by (simp add: initInstruction_def isBusy_def i bc_setPhyID_def upd_bc_def get_bc_def)
  have kept: "rf_kept (sc_rf s) ?rf"
    using b by (auto simp: rf_kept_def put_bc_def nth_list_update)
  have "(\<Sum>u \<leftarrow> (sc_bcus s)[n := ?u]. bc_held_opt (bcu_busy u) c) =
      (\<Sum>u \<leftarrow> sc_bcus s. bc_held_opt (bcu_busy u) c) + bc_held i c" for c
    using sum_list_replace [OF n', of "\<lambda>u. bc_held_opt (bcu_busy u) c" ?u] n
    by (simp add: bc_held_opt_def isBusy_def)
  then have "moved i s s'" if "sc_fus s' = sc_fus s" "sc_rf s' = ?rf"
      "sc_bcus s' = (sc_bcus s)[n := ?u]" for s'
    using that kept by (simp add: moved_def depths_def held_booked_def booked_def i held_def
        valid_reg_def kept_def bc_held_booked_def)
  with ex good show ?thesis by (auto simp: sched_inv_def)
qed

interpretation bci: issue_queue "issue_bci now" "sched_inv now" is_BciI for now
  by unfold_locales (rule issue_bci_ok)

end
