(* ===== verification/MemoryUnit.thy ===== *)
theory MemoryUnit
  imports Instruction "HOL-Library.Sublist"
begin

text \<open>
  The memory unit of a chip (\<open>memoryUnit.h\<close>, \<open>memoryUnit.cc\<close>): a load queue, a store queue and two
  request slots. An instruction is issued into a slot as a sequence of memory requests of
  \<open>requestWidth\<close> bytes; it completes at the end of the cycle in which the last response arrived.

  The memory behind the unit is not modelled: \<open>mu_sent\<close> records what is sent to it, and its
  responses are calls of \<open>handleResponse\<close>. A request's id is the number the simulation kernel gives
  it, here a counter of the unit; \<open>mu_out\<close> is \<open>outstandingRequestID\<close>, from ids to slots.

  The lemmas show that the requests cover the instruction's bytes, and, as an invariant of the
  unit, that a slot completes exactly when each of its own requests has been answered.
\<close>

section \<open>State\<close>

record mem_request =
  mq_bytes :: nat
  mq_size :: nat
  mq_issued :: nat
  mq_resp :: bool
  mq_busy :: "instr option"

record mem_packet =
  mp_id :: nat
  mp_write :: bool
  mp_addr :: nat
  mp_width :: nat

record mem_unit =
  mu_load :: "instr list"
  mu_store :: "instr list"
  mu_width :: nat
  mu_reqs :: "mem_request list"
  mu_out :: "nat \<Rightarrow> nat option"
  mu_next :: nat
  mu_sent :: "mem_packet list"
  ms_loads :: nat
  ms_stores :: nat
  ms_total :: nat
  ms_busy :: nat
  ms_window :: nat
  ms_latency :: nat
  ms_maxLatency :: nat

definition new_request :: mem_request where
  "new_request = \<lparr>mq_bytes = 0, mq_size = 0, mq_issued = 0, mq_resp = False, mq_busy = None\<rparr>"

definition mk_mem_unit :: "nat \<Rightarrow> mem_unit" where
  "mk_mem_unit w = \<lparr>mu_load = [], mu_store = [], mu_width = w,
     mu_reqs = [new_request, new_request], mu_out = Map.empty, mu_next = 0, mu_sent = [],
     ms_loads = 0, ms_stores = 0, ms_total = 0, ms_busy = 0, ms_window = 0, ms_latency = 0,
     ms_maxLatency = 0\<rparr>"

section \<open>The queues\<close>

definition addToLoadQueue :: "instr \<Rightarrow> mem_unit \<Rightarrow> mem_unit" where
  "addToLoadQueue i u = u\<lparr>mu_load := mu_load u @ [i]\<rparr>"

definition addToStoreQueue :: "instr \<Rightarrow> mem_unit \<Rightarrow> mem_unit" where
  "addToStoreQueue i u = u\<lparr>mu_store := mu_store u @ [i]\<rparr>"

text \<open>
  The walk from the youngest instruction to the oldest: the queue is given reversed, and what was
  walked past is kept to rebuild it.
\<close>

fun store_alias_walk :: "nat \<Rightarrow> bool \<Rightarrow> instr list \<Rightarrow> instr list \<Rightarrow> regfile
    \<Rightarrow> (preg option \<times> instr list \<times> regfile) res" where
  "store_alias_walk addr qs [] past rf = Inr (None, past, rf)"
| "store_alias_walk addr qs (i # older) past rf =
     bindr (getAddr i) (\<lambda>a.
     if a = addr then
       bindr (getPhyReg i) (\<lambda>r.
       if qs \<or> getOpCode i = Spill then
         bindr (quash i rf) (\<lambda>(_, rf). Inr (Some r, rev older @ past, rf))
       else Inr (Some r, rev older @ i # past, rf))
     else store_alias_walk addr qs older (i # past) rf)"

definition findStoreAlias :: "nat \<Rightarrow> bool \<Rightarrow> mem_unit \<Rightarrow> regfile
    \<Rightarrow> (preg option \<times> mem_unit \<times> regfile) res" where
  "findStoreAlias addr quashAliasingStore u rf =
     bindr (store_alias_walk addr quashAliasingStore (rev (mu_store u)) [] rf) (\<lambda>(r, q, rf).
       Inr (r, u\<lparr>mu_store := q\<rparr>, rf))"

fun load_alias_walk :: "nat \<Rightarrow> instr list \<Rightarrow> preg option res" where
  "load_alias_walk addr [] = Inr None"
| "load_alias_walk addr (i # older) =
     bindr (getAddr i) (\<lambda>a.
     if a = addr then bindr (getPhyReg i) (\<lambda>r. Inr (Some r)) else load_alias_walk addr older)"

definition findLoadAlias :: "nat \<Rightarrow> mem_unit \<Rightarrow> preg option res" where
  "findLoadAlias addr u = load_alias_walk addr (rev (mu_load u))"

section \<open>Issuing\<close>

definition send_packet :: "bool \<Rightarrow> nat \<Rightarrow> nat \<Rightarrow> mem_unit \<Rightarrow> mem_unit" where
  "send_packet wr a slot u =
     u\<lparr>mu_out := (mu_out u)(mu_next u \<mapsto> slot), mu_next := mu_next u + 1,
       mu_sent := mu_sent u @ [\<lparr>mp_id = mu_next u, mp_write = wr, mp_addr = a,
                                mp_width = mu_width u\<rparr>]\<rparr>"

lemma send_packet_width [simp]: "mu_width (send_packet wr a slot u) = mu_width u"
  by (simp add: send_packet_def)

text \<open>\<open>for (i = 0; i < size; i += requestWidth)\<close>; a width of 0 would loop for ever.\<close>

function send_loop :: "bool \<Rightarrow> nat \<Rightarrow> nat \<Rightarrow> nat \<Rightarrow> nat \<Rightarrow> mem_unit \<Rightarrow> mem_unit res" where
  "send_loop wr addr sz slot i u =
     (if i < sz then
        if mu_width u = 0 then Inl Diverges
        else send_loop wr addr sz slot (i + mu_width u) (send_packet wr (addr + i) slot u)
      else Inr u)"
  by pat_completeness auto
termination by (relation "measure (\<lambda>(_, _, sz, _, i, _). sz - i)") auto

declare send_loop.simps [simp del]

definition upd_request :: "nat \<Rightarrow> (mem_request \<Rightarrow> mem_request) \<Rightarrow> mem_unit \<Rightarrow> mem_unit" where
  "upd_request slot f u = u\<lparr>mu_reqs := (mu_reqs u)[slot := f (mu_reqs u ! slot)]\<rparr>"

definition handleVectorLoad :: "nat \<Rightarrow> nat \<Rightarrow> nat \<Rightarrow> mem_unit \<Rightarrow> mem_unit res" where
  "handleVectorLoad slot addr sz u =
     bindr (send_loop False addr sz slot 0 u) (\<lambda>u.
       let u = upd_request slot (\<lambda>m. m\<lparr>mq_size := sz, mq_bytes := 0\<rparr>) u in
       Inr (u\<lparr>ms_loads := ms_loads u + 1\<rparr>))"

definition handleVectorStore :: "nat \<Rightarrow> nat \<Rightarrow> nat \<Rightarrow> mem_unit \<Rightarrow> mem_unit res" where
  "handleVectorStore slot addr sz u =
     bindr (send_loop True addr sz slot 0 u) (\<lambda>u.
       let u = upd_request slot (\<lambda>m. m\<lparr>mq_size := sz, mq_bytes := 0\<rparr>) u in
       Inr (u\<lparr>ms_stores := ms_stores u + 1\<rparr>))"

definition handleScalarLoad :: "nat \<Rightarrow> nat \<Rightarrow> mem_unit \<Rightarrow> mem_unit res" where
  "handleScalarLoad addr sz u = Inl AssertFail"

text \<open>The first ready instruction of a queue, with what is before and after it.\<close>

fun first_ready :: "regfile \<Rightarrow> instr list \<Rightarrow> (instr list \<times> instr \<times> instr list) option res" where
  "first_ready rf [] = Inr None"
| "first_ready rf (i # q) =
     guardr (\<not> isQuashed i) AssertFail
       (bindr (allOperandsReady rf i) (\<lambda>b.
          if b = True then Inr (Some ([], i, q))
          else bindr (first_ready rf q) (\<lambda>x. Inr (map_option (\<lambda>(a, j, c). (i # a, j, c)) x))))"

definition issue_request :: "nat \<Rightarrow> nat \<Rightarrow> instr \<Rightarrow> mem_unit \<Rightarrow> mem_unit res" where
  "issue_request now slot i u =
     bindr (getAddr i) (\<lambda>a. bindr (getSize i) (\<lambda>sz.
     bindr (case getOpCode i of
         LoadV \<Rightarrow> handleVectorLoad slot a sz u
       | LoadS \<Rightarrow> handleScalarLoad a sz u
       | Store \<Rightarrow> handleVectorStore slot a sz u
       | Spill \<Rightarrow> handleVectorStore slot a sz u
       | _ \<Rightarrow> Inl AssertFail)
      (\<lambda>u. Inr (upd_request slot (\<lambda>m. m\<lparr>mq_issued := now, mq_busy := Some i, mq_resp := False\<rparr>) u))))"

text \<open>
  The loop over the slots. It leaves the loop as well when the instruction it issued was the last
  of the queue, since the iterator then is the end of the queue.
\<close>

fun operateQueue :: "nat \<Rightarrow> regfile \<Rightarrow> nat list \<Rightarrow> instr list \<Rightarrow> mem_unit
    \<Rightarrow> (bool \<times> instr list \<times> mem_unit) res" where
  "operateQueue now rf [] q u = Inr (True, q, u)"
| "operateQueue now rf (slot # slots) q u =
     (if mq_busy (mu_reqs u ! slot) = None then
        if q = [] then Inr (False, q, u)
        else bindr (first_ready rf q) (\<lambda>x. case x of
            None \<Rightarrow> Inr (False, q, u)
          | Some (a, i, c) \<Rightarrow> bindr (issue_request now slot i u) (\<lambda>u.
              if c = [] then Inr (False, a @ c, u) else operateQueue now rf slots (a @ c) u))
      else operateQueue now rf slots q u)"

definition mem_stats :: "nat \<Rightarrow> mem_unit \<Rightarrow> mem_unit" where
  "mem_stats now u0 =
    (let u1 = u0\<lparr>ms_total := ms_total u0 + 1\<rparr>;
         busy = (\<exists>m \<in> set (mu_reqs u1). mq_busy m \<noteq> None);
         u2 = (if busy then u1\<lparr>ms_busy := ms_busy u1 + 1, ms_window := ms_window u1 + 1\<rparr> else u1)
     in if now mod 100000 = 0 then u2\<lparr>ms_window := 0\<rparr> else u2)"

definition mem_begin :: "nat \<Rightarrow> regfile \<Rightarrow> mem_unit \<Rightarrow> mem_unit res" where
  "mem_begin now rf u =
     bindr (operateQueue now rf [0, 1] (mu_load u) u) (\<lambda>(_, q, u).
     let u = u\<lparr>mu_load := q\<rparr> in
     bindr (operateQueue now rf [0, 1] (mu_store u) u) (\<lambda>(_, q, u).
     Inr (mem_stats now (u\<lparr>mu_store := q\<rparr>))))"

section \<open>Responses and completion\<close>

text \<open>\<open>t\<close> is the simulation time; the difference to the issue cycle is a 64-bit subtraction.\<close>

definition note_latency :: "nat \<Rightarrow> nat \<Rightarrow> mem_unit \<Rightarrow> mem_unit" where
  "note_latency t slot u0 =
    (let et = nat ((int t - int (mq_issued (mu_reqs u0 ! slot))) mod 2 ^ 64);
         u1 = u0\<lparr>ms_latency := ms_latency u0 + et\<rparr>
     in if et > ms_maxLatency u1 then u1\<lparr>ms_maxLatency := et\<rparr> else u1)"

definition handleResponse :: "nat \<Rightarrow> nat \<Rightarrow> mem_unit \<Rightarrow> mem_unit res" where
  "handleResponse t rid u0 = (case mu_out u0 rid of
       None \<Rightarrow> Inl FatalExit
     | Some slot \<Rightarrow>
        (let u1 = upd_request slot (\<lambda>m. m\<lparr>mq_bytes := mq_bytes m + mu_width u0\<rparr>) u0;
             u2 = u1\<lparr>mu_out := (mu_out u1)(rid := None)\<rparr>;
             m = mu_reqs u2 ! slot
         in if mq_bytes m \<ge> mq_size m then
              Inr (note_latency t slot (upd_request slot (\<lambda>m. m\<lparr>mq_resp := True\<rparr>) u2))
            else Inr u2))"

definition finish_slot :: "nat \<Rightarrow> mem_unit \<times> regfile \<Rightarrow> (mem_unit \<times> regfile) res" where
  "finish_slot slot = (\<lambda>(u, rf).
     let m = mu_reqs u ! slot in
     if mq_resp m then
       bindr (the_res NullDeref (mq_busy m)) (\<lambda>i.
       bindr (setExecutionComplete i rf) (\<lambda>rf.
         Inr (upd_request slot (\<lambda>m. m\<lparr>mq_busy := None, mq_resp := False\<rparr>) u, rf)))
     else Inr (u, rf))"

definition mem_end :: "mem_unit \<Rightarrow> regfile \<Rightarrow> (mem_unit \<times> regfile) res" where
  "mem_end u rf = foldr_res finish_slot [0, 1] (u, rf)"

definition mem_okayToFinish :: "mem_unit \<Rightarrow> bool" where
  "mem_okayToFinish u =
     (if mu_load u \<noteq> [] \<or> mu_store u \<noteq> [] then False
      else (\<forall>m \<in> set (mu_reqs u). mq_busy m = None))"

section \<open>The requests cover the bytes\<close>

definition chunks :: "nat \<Rightarrow> nat \<Rightarrow> nat" where
  "chunks sz w = (sz + w - 1) div w"

definition packets :: "bool \<Rightarrow> nat \<Rightarrow> nat \<Rightarrow> nat \<Rightarrow> nat \<Rightarrow> mem_packet list" where
  "packets wr first a w n =
     map (\<lambda>k. \<lparr>mp_id = first + k, mp_write = wr, mp_addr = a + k * w, mp_width = w\<rparr>) [0..<n]"

lemma chunks_0 [simp]: "0 < w \<Longrightarrow> chunks 0 w = 0"
  by (simp add: chunks_def)

lemma div_step: "0 < w \<Longrightarrow> (x + w) div w = Suc (x div w)" for x w :: nat
  by (simp add: div_add_self2)

lemma chunks_step:
  assumes "0 < w" "0 < sz"
  shows "chunks sz w = Suc (chunks (sz - w) w)"
proof (cases "w \<le> sz")
  case True
  have "chunks sz w = (sz - w + w - 1 + w) div w"
    unfolding chunks_def by (rule arg_cong [where f = "\<lambda>x. x div w"]) (use True assms in simp)
  then show ?thesis unfolding div_step [OF assms(1)] by (simp only: chunks_def)
next
  case False
  have "chunks sz w = (sz - 1 + w) div w"
    unfolding chunks_def by (rule arg_cong [where f = "\<lambda>x. x div w"]) (use assms in simp)
  also have "\<dots> = Suc ((sz - 1) div w)" by (rule div_step [OF assms(1)])
  finally show ?thesis using False assms by simp
qed

lemma chunks_pos: "0 < w \<Longrightarrow> 0 < sz \<Longrightarrow> 0 < chunks sz w"
  using chunks_step [of w sz] by simp

lemma chunks_enough: "0 < w \<Longrightarrow> sz \<le> chunks sz w * w"
proof (induction sz rule: less_induct)
  case (less sz)
  show ?case
  proof (cases "sz = 0")
    case False
    with less.prems have "sz - w \<le> chunks (sz - w) w * w" by (intro less.IH) auto
    moreover have "chunks sz w = Suc (chunks (sz - w) w)" using False less.prems by (intro chunks_step) auto
    ultimately show ?thesis by simp
  qed simp
qed

lemma chunks_needed: "0 < w \<Longrightarrow> k < chunks sz w \<Longrightarrow> k * w < sz"
proof (induction k arbitrary: sz)
  case 0
  then show ?case by (cases sz) auto
next
  case (Suc k)
  then have "0 < sz" by (cases sz) auto
  with Suc.prems have "k < chunks (sz - w) w" using chunks_step [of w sz] by simp
  with Suc.IH [of "sz - w"] Suc.prems(1) show ?case by simp
qed

lemma packets_Suc:
  "packets wr first a w (Suc n) =
   \<lparr>mp_id = first, mp_write = wr, mp_addr = a, mp_width = w\<rparr> # packets wr (Suc first) (a + w) w n"
  by (simp add: packets_def upt_conv_Cons map_Suc_upt [symmetric] del: upt_Suc map_Suc_upt)

text \<open>\<open>n\<close> consecutive requests for the slot, from address \<open>a\<close> on, and nothing else changed.\<close>

definition sent :: "bool \<Rightarrow> nat \<Rightarrow> nat \<Rightarrow> nat \<Rightarrow> mem_unit \<Rightarrow> mem_unit \<Rightarrow> bool" where
  "sent wr a slot n u u' \<longleftrightarrow>
     mu_out u' = (\<lambda>r. if mu_next u \<le> r \<and> r < mu_next u + n then Some slot else mu_out u r) \<and>
     mu_next u' = mu_next u + n \<and>
     mu_sent u' = mu_sent u @ packets wr (mu_next u) a (mu_width u) n \<and>
     mu_load u' = mu_load u \<and> mu_store u' = mu_store u \<and> mu_width u' = mu_width u \<and>
     mu_reqs u' = mu_reqs u"

lemma sent_0: "sent wr a slot 0 u u"
  by (auto simp: sent_def packets_def fun_eq_iff)

lemma sent_step:
  "sent wr (a + mu_width u) slot n (send_packet wr a slot u) u' \<Longrightarrow> sent wr a slot (Suc n) u u'"
  by (auto simp: sent_def packets_Suc send_packet_def fun_eq_iff Suc_le_eq)

lemma send_loop_spec:
  "0 < mu_width u \<Longrightarrow> \<exists>u'. send_loop wr a sz slot i u = Inr u' \<and>
     sent wr (a + i) slot (chunks (sz - i) (mu_width u)) u u'"
proof (induction wr a sz slot i u rule: send_loop.induct)
  case (1 wr a sz slot i u)
  show ?case
  proof (cases "i < sz")
    case False
    then show ?thesis using 1(2) sent_0 by (simp add: send_loop.simps)
  next
    case True
    let ?u = "send_packet wr (a + i) slot u"
    have n: "chunks (sz - i) (mu_width u) = Suc (chunks (sz - (i + mu_width u)) (mu_width u))"
      using chunks_step [of "mu_width u" "sz - i"] True 1(2) by simp
    obtain u' where "send_loop wr a sz slot (i + mu_width u) ?u = Inr u'"
      "sent wr (a + i + mu_width u) slot (chunks (sz - (i + mu_width u)) (mu_width u)) ?u u'"
      using 1(1) [OF True] 1(2) by (auto simp: add.assoc)
    then show ?thesis using True 1(2) n sent_step by (subst send_loop.simps) auto
  qed
qed

section \<open>The invariant\<close>

definition mem_instr :: "instr \<Rightarrow> bool" where
  "mem_instr i \<longleftrightarrow> (\<exists>op r a n. i = MemI op r a n False \<and> op \<in> {LoadV, Store, Spill} \<and> 0 < n)"

definition outstanding :: "mem_unit \<Rightarrow> nat \<Rightarrow> nat set" where
  "outstanding u slot = {r. r < mu_next u \<and> mu_out u r = Some slot}"

definition slot_inv :: "nat \<Rightarrow> mem_request \<Rightarrow> nat \<Rightarrow> bool" where
  "slot_inv w m k \<longleftrightarrow>
     (case mq_busy m of
        None \<Rightarrow> \<not> mq_resp m \<and> k = 0
      | Some i \<Rightarrow> mem_instr i \<and>
          (if mq_resp m then k = 0
           else 1 \<le> k \<and> mq_bytes m + k * w = chunks (mq_size m) w * w))"

definition slots_inv :: "mem_unit \<Rightarrow> bool" where
  "slots_inv u \<longleftrightarrow> 0 < mu_width u \<and> length (mu_reqs u) = 2 \<and>
     (\<forall>r s. mu_out u r = Some s \<longrightarrow> r < mu_next u \<and> s < 2) \<and>
     (\<forall>s < 2. slot_inv (mu_width u) (mu_reqs u ! s) (card (outstanding u s)))"

definition mem_inv :: "mem_unit \<Rightarrow> bool" where
  "mem_inv u \<longleftrightarrow> slots_inv u \<and> (\<forall>i \<in> set (mu_load u) \<union> set (mu_store u). mem_instr i)"

text \<open>What the unit holds: in its queues and in its slots.\<close>

definition in_flight :: "mem_unit \<Rightarrow> instr multiset" where
  "in_flight u = mset (List.map_filter mq_busy (mu_reqs u))"

definition mem_held :: "mem_unit \<Rightarrow> instr multiset" where
  "mem_held u = mset (mu_load u) + mset (mu_store u) + in_flight u"

lemma mem_inv_init: "0 < w \<Longrightarrow> mem_inv (mk_mem_unit w)"
  by (auto simp: mem_inv_def slots_inv_def mk_mem_unit_def new_request_def slot_inv_def
      outstanding_def nth_Cons')

lemma finite_outstanding [simp]: "finite (outstanding u s)"
  by (simp add: outstanding_def)

lemma length_2: "length xs = 2 \<longleftrightarrow> (\<exists>a b. xs = [a, b])"
  by (auto simp: length_Suc_conv numeral_2_eq_2)

lemma lt_2: "(s::nat) < 2 \<longleftrightarrow> s = 0 \<or> s = 1"
  by auto

text \<open>
  The readiness test of a memory instruction holds for every opcode, stores and spills included:
  no opcode is both.
\<close>

lemma mem_always_ready: "allOperandsReady rf (MemI op r a n q) = Inr True"
  by auto

lemma first_ready_head:
  assumes "\<forall>i \<in> set q. mem_instr i"
  shows "first_ready rf q = Inr (case q of [] \<Rightarrow> None | i # c \<Rightarrow> Some ([], i, c))"
proof (cases q)
  case (Cons i c)
  then obtain op r a n where "i = MemI op r a n False" using assms by (auto simp: mem_instr_def)
  then show ?thesis by (simp add: Cons mem_always_ready del: allOperandsReady.simps)
qed simp

lemma issue_request_effect:
  assumes w: "0 < mu_width u" "length (mu_reqs u) = 2" and s: "slot < 2"
    and i: "i = MemI op r a n False" "op \<in> {LoadV, Store, Spill}"
  shows "\<exists>u' v wr. issue_request now slot i u = Inr u' \<and>
    sent wr a slot (chunks n (mu_width u)) u v \<and> mu_out u' = mu_out v \<and> mu_next u' = mu_next v \<and>
    mu_sent u' = mu_sent v \<and> mu_load u' = mu_load u \<and> mu_store u' = mu_store u \<and>
    mu_width u' = mu_width u \<and>
    mu_reqs u' = (mu_reqs u)[slot := (mu_reqs u ! slot)\<lparr>mq_size := n, mq_bytes := 0,
      mq_issued := now, mq_busy := Some i, mq_resp := False\<rparr>]"
proof -
  obtain v where v: "send_loop (op \<noteq> LoadV) a n slot 0 u = Inr v"
    "sent (op \<noteq> LoadV) a slot (chunks n (mu_width u)) u v"
    using send_loop_spec [OF w(1), of "op \<noteq> LoadV" a n slot 0] by auto
  have "\<exists>u'. issue_request now slot i u = Inr u' \<and>
    mu_out u' = mu_out v \<and> mu_next u' = mu_next v \<and>
    mu_sent u' = mu_sent v \<and> mu_load u' = mu_load v \<and> mu_store u' = mu_store v \<and>
    mu_width u' = mu_width v \<and>
    mu_reqs u' = (mu_reqs v)[slot := (mu_reqs v ! slot)\<lparr>mq_size := n, mq_bytes := 0,
      mq_issued := now, mq_busy := Some i, mq_resp := False\<rparr>]"
    using v(1) i(2) w(2) s v(2)
    by (auto simp: issue_request_def i(1) handleVectorLoad_def handleVectorStore_def
        upd_request_def Let_def sent_def)
  with v(2) show ?thesis unfolding sent_def by (metis (no_types, lifting))
qed

lemma issue_request_ok:
  assumes inv: "slots_inv u" and i: "mem_instr i" and s: "slot < 2"
    and free: "mq_busy (mu_reqs u ! slot) = None"
  shows "\<exists>u'. issue_request now slot i u = Inr u' \<and> slots_inv u' \<and>
    mu_load u' = mu_load u \<and> mu_store u' = mu_store u \<and> in_flight u' = add_mset i (in_flight u)"
proof -
  obtain op r a n where mi: "i = MemI op r a n False" "op \<in> {LoadV, Store, Spill}" "0 < n"
    using i by (auto simp: mem_instr_def)
  have w: "0 < mu_width u" "length (mu_reqs u) = 2" using inv by (simp_all add: slots_inv_def)
  let ?n = "chunks n (mu_width u)"
  let ?m = "(mu_reqs u ! slot)\<lparr>mq_size := n, mq_bytes := 0, mq_issued := now,
    mq_busy := Some i, mq_resp := False\<rparr>"
  obtain u' v wr where u': "issue_request now slot i u = Inr u'" "sent wr a slot ?n u v"
    "mu_out u' = mu_out v" "mu_next u' = mu_next v" "mu_load u' = mu_load u"
    "mu_store u' = mu_store u" "mu_width u' = mu_width u" "mu_reqs u' = (mu_reqs u)[slot := ?m]"
    using issue_request_effect [OF w s mi(1,2)] by blast
  have old: "\<forall>r s. mu_out u r = Some s \<longrightarrow> r < mu_next u \<and> s < 2"
    using inv by (simp add: slots_inv_def)
  have zero: "outstanding u slot = {}"
    using inv s free by (fastforce simp: slots_inv_def slot_inv_def)
  have out: "outstanding u' t = (if t = slot then {mu_next u..<mu_next u + ?n} else outstanding u t)"
    for t using old zero u'(2) unfolding outstanding_def u'(3,4) sent_def by auto
  have "slot_inv (mu_width u) (mu_reqs u' ! t) (card (outstanding u' t))" if "t < 2" for t
  proof (cases "t = slot")
    case True
    then show ?thesis using i chunks_pos [OF w(1) mi(3)] w s
      by (simp add: out u'(8) slot_inv_def Suc_le_eq)
  next
    case False
    then show ?thesis using inv that by (simp add: out u'(8) slots_inv_def)
  qed
  moreover have "\<forall>r t. mu_out u' r = Some t \<longrightarrow> r < mu_next u' \<and> t < 2"
    using old s u'(2) unfolding u'(3,4) sent_def by (fastforce split: if_splits)
  ultimately have "slots_inv u'" using w by (simp add: slots_inv_def u'(7,8))
  moreover have "in_flight u' = add_mset i (in_flight u)"
    using w s free by (auto simp: in_flight_def u'(8) length_2 lt_2 List.map_filter_def)
  ultimately show ?thesis using u' by blast
qed

section \<open>Cycles keep the invariant\<close>

lemma operateQueue_ok:
  assumes "slots_inv u" "\<forall>i \<in> set q. mem_instr i" "\<forall>s \<in> set slots. s < 2"
  shows "\<exists>b q' u'. operateQueue now rf slots q u = Inr (b, q', u') \<and> slots_inv u' \<and>
    mu_load u' = mu_load u \<and> mu_store u' = mu_store u \<and> suffix q' q \<and>
    in_flight u' + mset q' = in_flight u + mset q"
  using assms
proof (induction slots arbitrary: q u)
  case Nil
  then show ?case by simp (rule exI, rule TrueI)
next
  case (Cons slot slots)
  show ?case
  proof (cases "mq_busy (mu_reqs u ! slot) = None \<and> q \<noteq> []")
    case False
    then show ?thesis using Cons.IH [OF Cons.prems(1,2)] Cons.prems by auto
  next
    case True
    then obtain i c where q: "q = i # c" by (cases q) auto
    have i: "mem_instr i" and s: "slot < 2" and free: "mq_busy (mu_reqs u ! slot) = None"
      using Cons.prems True by (auto simp: q)
    obtain v where v: "issue_request now slot i u = Inr v" "slots_inv v" "mu_load v = mu_load u"
      "mu_store v = mu_store u" "in_flight v = add_mset i (in_flight u)"
      using issue_request_ok [OF Cons.prems(1) i s free] by blast
    have fr: "first_ready rf (i # c) = Inr (Some ([], i, c))"
      using first_ready_head [of "i # c" rf] Cons.prems(2) by (simp add: q)
    have eq: "operateQueue now rf (slot # slots) q u =
        (if c = [] then Inr (False, [], v) else operateQueue now rf slots c v)"
      using True fr v(1) by (simp add: q del: first_ready.simps)
    show ?thesis
    proof (cases "c = []")
      case True
      then show ?thesis using eq v
        by (intro exI [of _ False] exI [of _ "[]"] exI [of _ v]) (simp add: q del: operateQueue.simps)
    next
      case False
      obtain b q' u' where "operateQueue now rf slots c v = Inr (b, q', u')" "slots_inv u'"
        "mu_load u' = mu_load v" "mu_store u' = mu_store v" "suffix q' c"
        "in_flight u' + mset q' = in_flight v + mset c"
        using Cons.IH [OF v(2), of c] Cons.prems by (auto simp: q)
      then show ?thesis using eq False v by (auto simp: q intro: suffix_ConsI)
    qed
  qed
qed

lemma slots_inv_fields:
  "mu_width u' = mu_width u \<Longrightarrow> mu_reqs u' = mu_reqs u \<Longrightarrow> mu_out u' = mu_out u \<Longrightarrow>
   mu_next u' = mu_next u \<Longrightarrow> slots_inv u' = slots_inv u"
  by (simp add: slots_inv_def outstanding_def)

lemma mem_stats_frame [simp]:
  "mu_load (mem_stats now u) = mu_load u" "mu_store (mem_stats now u) = mu_store u"
  "mu_width (mem_stats now u) = mu_width u" "mu_reqs (mem_stats now u) = mu_reqs u"
  "mu_out (mem_stats now u) = mu_out u" "mu_next (mem_stats now u) = mu_next u"
  by (simp_all add: mem_stats_def Let_def)

lemma note_latency_frame [simp]:
  "mu_load (note_latency t s u) = mu_load u" "mu_store (note_latency t s u) = mu_store u"
  "mu_width (note_latency t s u) = mu_width u" "mu_reqs (note_latency t s u) = mu_reqs u"
  "mu_out (note_latency t s u) = mu_out u" "mu_next (note_latency t s u) = mu_next u"
  by (simp_all add: note_latency_def Let_def)

lemma mem_begin_ok:
  assumes "mem_inv u"
  shows "\<exists>u'. mem_begin now rf u = Inr u' \<and> mem_inv u' \<and> mem_held u' = mem_held u \<and>
    suffix (mu_load u') (mu_load u) \<and> suffix (mu_store u') (mu_store u)"
proof -
  obtain b q v where v: "operateQueue now rf [0, 1] (mu_load u) u = Inr (b, q, v)" "slots_inv v"
    "mu_load v = mu_load u" "mu_store v = mu_store u" "suffix q (mu_load u)"
    "in_flight v + mset q = in_flight u + mset (mu_load u)"
    using operateQueue_ok [of u "mu_load u" "[0, 1]" now rf] assms by (auto simp: mem_inv_def)
  let ?v = "v\<lparr>mu_load := q\<rparr>"
  have sv: "slots_inv ?v" using v(2) slots_inv_fields [of ?v v] by simp
  obtain b' q' t where t: "operateQueue now rf [0, 1] (mu_store v) ?v = Inr (b', q', t)" "slots_inv t"
    "mu_load t = q" "mu_store t = mu_store v" "suffix q' (mu_store v)"
    "in_flight t + mset q' = in_flight v + mset (mu_store v)"
    using operateQueue_ok [OF sv, of "mu_store v" "[0, 1]" now rf] assms
    by (auto simp: mem_inv_def v(4) in_flight_def)
  have "mem_begin now rf u = Inr (mem_stats now (t\<lparr>mu_store := q'\<rparr>))"
    using v(1) t(1) by (simp add: mem_begin_def Let_def del: operateQueue.simps)
  then obtain u' where u': "mem_begin now rf u = Inr u'" "mu_load u' = q" "mu_store u' = q'"
      "mu_width u' = mu_width t" "mu_reqs u' = mu_reqs t" "mu_out u' = mu_out t"
      "mu_next u' = mu_next t" using t(3) by simp
  have "slots_inv u'" using slots_inv_fields [OF u'(4-7)] t(2) by simp
  then have "mem_inv u'"
    using assms u'(2,3) v(4,5) t(5) by (auto simp: mem_inv_def dest: set_mono_suffix)
  moreover have "mem_held u' = mem_held u"
    using v(4,6) t(6) u'(2,3,5) by (simp add: mem_held_def in_flight_def ac_simps)
      (metis add.assoc add.commute)
  ultimately show ?thesis using u' v(4,5) t(5) by auto
qed

lemma handleResponse_ok:
  assumes inv: "mem_inv u" and out: "mu_out u rid = Some slot"
  shows "\<exists>u'. handleResponse t rid u = Inr u' \<and> mem_inv u' \<and> mem_held u' = mem_held u \<and>
    outstanding u' slot = outstanding u slot - {rid} \<and>
    (mq_resp (mu_reqs u' ! slot) \<longleftrightarrow> outstanding u slot = {rid})"
proof -
  let ?w = "mu_width u" and ?m = "mu_reqs u ! slot"
  let ?m' = "?m\<lparr>mq_bytes := mq_bytes ?m + ?w\<rparr>"
  have w: "0 < ?w" "length (mu_reqs u) = 2" and s: "slot < 2" and rid: "rid < mu_next u"
    using inv out by (auto simp: mem_inv_def slots_inv_def)
  have mem: "rid \<in> outstanding u slot" using out rid by (simp add: outstanding_def)
  then have c0: "card (outstanding u slot) \<noteq> 0" by (auto simp: card_gt_0_iff)
  have "slot_inv ?w ?m (card (outstanding u slot))"
    using inv s by (simp add: mem_inv_def slots_inv_def)
  with c0 obtain i where busy: "mq_busy ?m = Some i" "mem_instr i" "\<not> mq_resp ?m"
    "mq_bytes ?m + card (outstanding u slot) * ?w = chunks (mq_size ?m) ?w * ?w"
    by (auto simp: slot_inv_def split: option.splits if_splits)
  obtain k where kd: "card (outstanding u slot - {rid}) = k" by simp
  have k: "card (outstanding u slot) = Suc k"
    using card.remove [OF finite_outstanding mem] kd by simp
  have bytes: "mq_bytes ?m + ?w + k * ?w = chunks (mq_size ?m) ?w * ?w" using busy(4) k by simp
  have done_iff: "mq_size ?m \<le> mq_bytes ?m + ?w \<longleftrightarrow> k = 0"
  proof
    assume "k = 0"
    then show "mq_size ?m \<le> mq_bytes ?m + ?w" using bytes chunks_enough [OF w(1), of "mq_size ?m"] by simp
  next
    assume le: "mq_size ?m \<le> mq_bytes ?m + ?w"
    show "k = 0"
    proof (rule ccontr)
      assume "k \<noteq> 0"
      then obtain j where j: "k = Suc j" by (cases k) auto
      have eq: "mq_bytes ?m + ?w = (chunks (mq_size ?m) ?w - k) * ?w" using bytes
        by (simp add: diff_mult_distrib)
      have "chunks (mq_size ?m) ?w - k < chunks (mq_size ?m) ?w"
        using j bytes w(1) by (cases "chunks (mq_size ?m) ?w") auto
      from chunks_needed [OF w(1) this] eq le show False by simp
    qed
  qed
  let ?b = "mq_size ?m \<le> mq_bytes ?m + ?w"
  let ?r = "?m'\<lparr>mq_resp := ?b\<rparr>"
  have ev: "\<exists>u'. handleResponse t rid u = Inr u' \<and> mu_load u' = mu_load u \<and> mu_store u' = mu_store u \<and>
      mu_width u' = ?w \<and> mu_next u' = mu_next u \<and> mu_out u' = (mu_out u)(rid := None) \<and>
      mu_reqs u' = (mu_reqs u)[slot := ?r]"
  proof (cases ?b)
    case True
    then show ?thesis using w s out by (simp add: handleResponse_def Let_def upd_request_def)
  next
    case False
    then have "?r = ?m'" using busy(3) by simp
    with False show ?thesis using w s out by (simp add: handleResponse_def Let_def upd_request_def)
  qed
  then obtain u' where u': "handleResponse t rid u = Inr u'" "mu_load u' = mu_load u"
    "mu_store u' = mu_store u" "mu_width u' = ?w" "mu_next u' = mu_next u"
    "mu_out u' = (mu_out u)(rid := None)" "mu_reqs u' = (mu_reqs u)[slot := ?r]" by blast
  have o: "outstanding u' s = outstanding u s - {rid}" for s
    by (auto simp: outstanding_def u'(5,6))
  have other: "outstanding u s - {rid} = outstanding u s" if "s \<noteq> slot" for s
    using out that by (auto simp: outstanding_def)
  have "slot_inv ?w (mu_reqs u' ! s) (card (outstanding u' s))" if "s < 2" for s
  proof (cases "s = slot")
    case True
    then show ?thesis using w s busy bytes done_iff
      by (auto simp: o kd u'(7) slot_inv_def)
  next
    case False
    then show ?thesis using inv that by (simp add: o other u'(7) mem_inv_def slots_inv_def)
  qed
  moreover have "\<forall>r s. mu_out u' r = Some s \<longrightarrow> r < mu_next u' \<and> s < 2"
    using inv by (auto simp: u'(5,6) mem_inv_def slots_inv_def)
  ultimately have "mem_inv u'"
    using inv w by (simp add: mem_inv_def slots_inv_def u'(2-4,7))
  moreover have "mem_held u' = mem_held u"
    using w s busy by (auto simp: mem_held_def in_flight_def u'(2,3,7) length_2 lt_2 List.map_filter_def)
  moreover have "mq_resp (mu_reqs u' ! slot) \<longleftrightarrow> outstanding u slot = {rid}"
  proof -
    have "k = 0 \<longleftrightarrow> outstanding u slot - {rid} = {}" using kd card_eq_0_iff by fastforce
    then have "k = 0 \<longleftrightarrow> outstanding u slot = {rid}" using mem by blast
    then show ?thesis using w s done_iff by (simp add: u'(7))
  qed
  ultimately show ?thesis using u' o by blast
qed

lemma finish_slot_ok:
  assumes inv: "mem_inv u" and s: "slot < 2"
  shows "finish_slot slot (u, rf) \<noteq> Inl NullDeref \<or>
    (\<exists>i. mq_busy (mu_reqs u ! slot) = Some i \<and> setExecutionComplete i rf = Inl NullDeref)"
  and "finish_slot slot (u, rf) = Inr (u', rf') \<Longrightarrow> mem_inv u' \<and>
    mem_held u = mem_held u' + (if mq_resp (mu_reqs u ! slot)
      then {# the (mq_busy (mu_reqs u ! slot)) #} else {#}) \<and>
    \<not> mq_resp (mu_reqs u' ! slot) \<and> (\<forall>t. t \<noteq> slot \<longrightarrow> mu_reqs u' ! t = mu_reqs u ! t)"
proof -
  let ?m = "mu_reqs u ! slot"
  have w: "length (mu_reqs u) = 2" using inv by (simp add: mem_inv_def slots_inv_def)
  have si: "slot_inv (mu_width u) ?m (card (outstanding u slot))"
    using inv s by (simp add: mem_inv_def slots_inv_def)
  then have b: "mq_resp ?m \<Longrightarrow> \<exists>i. mq_busy ?m = Some i \<and> outstanding u slot = {}"
    by (auto simp: slot_inv_def split: option.splits)
  then show "finish_slot slot (u, rf) \<noteq> Inl NullDeref \<or>
    (\<exists>i. mq_busy ?m = Some i \<and> setExecutionComplete i rf = Inl NullDeref)"
    by (auto simp: finish_slot_def Let_def bindr_Inl_iff split: if_splits)
  assume f: "finish_slot slot (u, rf) = Inr (u', rf')"
  show "mem_inv u' \<and> mem_held u = mem_held u' + (if mq_resp ?m then {# the (mq_busy ?m) #} else {#}) \<and>
    \<not> mq_resp (mu_reqs u' ! slot) \<and> (\<forall>t. t \<noteq> slot \<longrightarrow> mu_reqs u' ! t = mu_reqs u ! t)"
  proof (cases "mq_resp ?m")
    case False
    then show ?thesis using f inv by (simp add: finish_slot_def)
  next
    case True
    then obtain i where i: "mq_busy ?m = Some i" "outstanding u slot = {}" using b by blast
    let ?r = "?m\<lparr>mq_busy := None, mq_resp := False\<rparr>"
    have u': "u' = u\<lparr>mu_reqs := (mu_reqs u)[slot := ?r]\<rparr>"
      using f True i(1) by (auto simp: finish_slot_def bindr_Inr_iff upd_request_def)
    have "outstanding u' t = outstanding u t" for t by (simp add: u' outstanding_def)
    moreover have "slot_inv (mu_width u) (mu_reqs u' ! t) (card (outstanding u t))" if "t < 2" for t
      using inv i w s that by (cases "t = slot") (simp_all add: slots_inv_def mem_inv_def u' slot_inv_def)
    ultimately have "slots_inv u'" using inv w by (simp add: slots_inv_def mem_inv_def u')
    then have "mem_inv u'" using inv by (simp add: mem_inv_def u')
    moreover have "mem_held u = mem_held u' + {#i#}"
      using w s i(1) by (auto simp: mem_held_def in_flight_def u' length_2 lt_2 List.map_filter_def)
    ultimately show ?thesis using True i(1) w s by (simp add: u')
  qed
qed

lemma mem_end_inv:
  assumes "mem_inv u" "mem_end u rf = Inr (u', rf')"
  shows "mem_inv u'"
proof -
  obtain v rfv where "finish_slot 0 (u, rf) = Inr (v, rfv)" "finish_slot 1 (v, rfv) = Inr (u', rf')"
    using assms(2) by (auto simp: mem_end_def bindr_Inr_iff)
  with assms(1) finish_slot_ok(2) [of u 0 rf v rfv] finish_slot_ok(2) [of v 1 rfv u' rf']
  show ?thesis by simp
qed

section \<open>Aliases\<close>

lemma load_alias_youngest:
  assumes "\<forall>i \<in> set q. \<exists>op r a n x. i = MemI op r a n x"
  shows "load_alias_walk addr q =
     Inr (map_option (\<lambda>i. case i of MemI op r a n x \<Rightarrow> r)
       (List.find (\<lambda>i. case i of MemI op r a n x \<Rightarrow> a = addr) q))"
  using assms
proof (induction q)
  case (Cons i q)
  then obtain op r a n x where "i = MemI op r a n x" by auto
  with Cons show ?case by simp
qed simp

end
