(* ===== verification/Network.thy ===== *)
theory Network
  imports Prelude
begin

text \<open>
  The inter-chip network (\<open>network.h\<close>, \<open>network.cc\<close>): barriers of synchronisation operations, the
  broadcast or aggregation each performs, and the per-port output buffers. The links to the chips
  are the simulation kernel's: what is sent on them is recorded in \<open>nw_sent\<close>, what is sent on the
  self links that time an output in \<open>nw_timing\<close>, and their deliveries are calls of \<open>handleInput\<close> and
  \<open>handleOutput\<close>. The mutex is not modelled: the operations are atomic.

  The lemmas show what a round of registrations leaves behind, that the barrier opens exactly when
  the last chip has registered, and what a broadcast or an aggregation puts on the ports.
\<close>

section \<open>State\<close>

datatype op_type = Brc | Agg

record sync_op =
  so_id :: nat
  so_ready :: nat
  so_size :: nat
  so_op :: op_type
  so_in :: int
  so_out :: int
  so_agg :: int
  so_brc :: "int list"
  so_min :: int
  so_max :: int

record bw_entry =
  be_syncID :: nat
  be_size :: nat
  be_sent :: nat
  be_received :: nat
  be_inFlight :: bool

record network =
  nw_numChips :: nat
  nw_ops :: "(nat \<times> sync_op) list"
  nw_buf :: "bw_entry list list"
  nw_sent :: "(nat \<times> nat \<times> nat) list"
  nw_timing :: "(nat \<times> nat) list"
  ns_total :: nat
  ns_busy :: nat
  ns_window :: nat

definition mk_network :: "nat \<Rightarrow> network" where
  "mk_network n = \<lparr>nw_numChips = n, nw_ops = [], nw_buf = replicate n [], nw_sent = [],
     nw_timing = [], ns_total = 0, ns_busy = 0, ns_window = 0\<rparr>"

definition new_entry :: "nat \<Rightarrow> nat \<Rightarrow> bw_entry" where
  "new_entry sid n = \<lparr>be_syncID = sid, be_size = n, be_sent = 0, be_received = 0,
     be_inFlight = False\<rparr>"

section \<open>Synchronisation operations\<close>

definition new_sync :: "nat \<Rightarrow> nat \<Rightarrow> op_type \<Rightarrow> sync_op" where
  "new_sync sid n op = \<lparr>so_id = sid, so_ready = 0, so_size = n, so_op = op, so_in = 0, so_out = 0,
     so_agg = -1, so_brc = [], so_min = 10000, so_max = -1\<rparr>"

definition addBroadcastDestination :: "nat \<Rightarrow> sync_op \<Rightarrow> sync_op" where
  "addBroadcastDestination dest s = s\<lparr>so_brc := so_brc s @ [int dest]\<rparr>"

definition setAggregationDestination :: "nat \<Rightarrow> sync_op \<Rightarrow> sync_op res" where
  "setAggregationDestination dest s =
     guardr (so_agg s = -1) AssertFail (Inr (s\<lparr>so_agg := int dest\<rparr>))"

text \<open>
  The chip id is a \<open>size_t\<close>, the two bounds are \<open>int\<close>: both comparisons are made after the bound has
  been converted to an unsigned 64-bit integer.
\<close>

definition incrementReadyCount :: "nat \<Rightarrow> sync_op \<Rightarrow> sync_op" where
  "incrementReadyCount chip s0 =
    (let s1 = s0\<lparr>so_ready := so_ready s0 + 1\<rparr>;
         s2 = (if int chip > so_max s1 mod 2 ^ 64 then s1\<lparr>so_max := int chip\<rparr> else s1)
     in if int chip < so_min s2 mod 2 ^ 64 then s2\<lparr>so_min := int chip\<rparr> else s2)"

definition incrementInputsPending :: "sync_op \<Rightarrow> sync_op" where
  "incrementInputsPending s = s\<lparr>so_in := so_in s + 1\<rparr>"

definition incrementOutputsPending :: "sync_op \<Rightarrow> sync_op" where
  "incrementOutputsPending s = s\<lparr>so_out := so_out s + 1\<rparr>"

definition decrementInputsPending :: "sync_op \<Rightarrow> sync_op" where
  "decrementInputsPending s = s\<lparr>so_in := so_in s - 1\<rparr>"

definition decrementOutputsPending :: "sync_op \<Rightarrow> sync_op" where
  "decrementOutputsPending s = s\<lparr>so_out := so_out s - 1\<rparr>"

definition sync_ready :: "sync_op \<Rightarrow> bool" where
  "sync_ready s = (so_ready s = so_size s)"

fun log2_floor :: "nat \<Rightarrow> nat" where
  "log2_floor n = (if n \<le> 1 then 0 else Suc (log2_floor (n div 2)))"

declare log2_floor.simps [simp del]

text \<open>
  \<open>static_cast<size_t>(std::log2(d))\<close>: for \<open>d\<close> of 0 or less the logarithm is minus infinity or not
  a number, and the conversion to an integer is undefined.
\<close>

definition computeHops :: "sync_op \<Rightarrow> nat res" where
  "computeHops s =
     (let d = so_max s - so_min s in
      if d \<le> 0 then Inl Undefined else Inr (log2_floor (nat d)))"

section \<open>The table of operations\<close>

definition ops_find :: "nat \<Rightarrow> network \<Rightarrow> sync_op option" where
  "ops_find sid nw = map_of (nw_ops nw) sid"

definition ops_erase :: "nat \<Rightarrow> network \<Rightarrow> network" where
  "ops_erase sid nw = nw\<lparr>nw_ops := filter (\<lambda>(k, v). k \<noteq> sid) (nw_ops nw)\<rparr>"

definition ops_put :: "nat \<Rightarrow> sync_op \<Rightarrow> network \<Rightarrow> network" where
  "ops_put sid s nw =
     nw\<lparr>nw_ops := (sid, s) # filter (\<lambda>(k, v). k \<noteq> sid) (nw_ops nw)\<rparr>"

section \<open>Operations\<close>

definition register_pending :: "nat \<Rightarrow> op_type \<Rightarrow> bool \<Rightarrow> bool \<Rightarrow> sync_op \<Rightarrow> sync_op res" where
  "register_pending chip op sendReply recvValue s0 =
    (let s1 = incrementReadyCount chip s0;
         s2 = (if recvValue then incrementInputsPending s1 else s1)
     in if sendReply then
          (let s3 = incrementOutputsPending s2 in
           case op of Agg \<Rightarrow> setAggregationDestination chip s3
                    | Brc \<Rightarrow> Inr (addBroadcastDestination chip s3))
        else Inr s2)"

definition tryRegisterSync :: "nat \<Rightarrow> nat \<Rightarrow> nat \<Rightarrow> op_type \<Rightarrow> bool \<Rightarrow> bool \<Rightarrow> network
    \<Rightarrow> (bool \<times> network) res" where
  "tryRegisterSync chip sid n op sendReply recvValue nw = (case ops_find sid nw of
       None \<Rightarrow>
         bindr (register_pending chip op sendReply recvValue (new_sync sid n op)) (\<lambda>s.
           Inr (True, ops_put sid s nw))
     | Some s \<Rightarrow>
         if op \<noteq> so_op s then Inl InvalidArgument
         else if n \<noteq> so_size s then Inl InvalidArgument
         else bindr (register_pending chip op sendReply recvValue s) (\<lambda>s.
           Inr (True, ops_put sid s nw)))"

definition networkReady :: "nat \<Rightarrow> network \<Rightarrow> bool res" where
  "networkReady sid nw = (case ops_find sid nw of
       None \<Rightarrow> Inr False
     | Some s \<Rightarrow>
         guardr (0 \<le> so_in s) AssertFail (guardr (0 \<le> so_out s) AssertFail (
         if sync_ready s then
           (case so_op s of
              Brc \<Rightarrow> guardr (so_in s = 1) AssertFail (Inr True)
            | Agg \<Rightarrow> guardr (so_out s = 1) AssertFail
                      (guardr (so_agg s \<noteq> -1) AssertFail (Inr True)))
         else Inr False)))"

text \<open>\<open>outputBWBuffer[i].push_back\<close>: an index outside the vector is undefined.\<close>

definition push_entry :: "nat \<Rightarrow> int \<Rightarrow> network \<Rightarrow> network res" where
  "push_entry sid i nw =
     (if 0 \<le> i \<and> nat i < length (nw_buf nw) then
        Inr (nw\<lparr>nw_buf := (nw_buf nw)[nat i := nw_buf nw ! nat i @ [new_entry sid (224 * 1024)]]\<rparr>)
      else Inl Undefined)"

definition handleInput :: "nat \<Rightarrow> int \<Rightarrow> network \<Rightarrow> network res" where
  "handleInput sid port nw = (case ops_find sid nw of
       None \<Rightarrow> Inl FatalExit
     | Some s0 \<Rightarrow>
        (let s = decrementInputsPending s0; nw = ops_put sid s nw in
         guardr (0 \<le> so_in s) AssertFail (
         if so_in s = 0 then
           (case so_op s of
              Brc \<Rightarrow> foldr_res (\<lambda>i nw. if i = port then Inr nw else push_entry sid i nw) (so_brc s) nw
            | Agg \<Rightarrow> guardr (so_agg s \<noteq> -1) AssertFail (push_entry sid (so_agg s) nw))
         else Inr nw)))"

definition completeOperation :: "nat \<Rightarrow> network \<Rightarrow> network res" where
  "completeOperation sid nw =
     bindr (the_res OutOfRange (ops_find sid nw)) (\<lambda>s.
     guardr (so_in s = 0) AssertFail (guardr (so_out s = 0) AssertFail (
     Inr (ops_erase sid nw))))"

definition handleOutput :: "nat \<Rightarrow> nat \<Rightarrow> network \<Rightarrow> network res" where
  "handleOutput sid port nw0 = (case ops_find sid nw0 of
       None \<Rightarrow> Inl FatalExit
     | Some s0 \<Rightarrow>
       bindr (computeHops s0) (\<lambda>hops.
       let nw1 = nw0\<lparr>nw_sent := nw_sent nw0 @ [(port, u64_dec hops, sid)]\<rparr>;
           s = decrementOutputsPending s0; nw2 = ops_put sid s nw1 in
       bindr (if so_in s = 0 \<and> so_out s = 0 then completeOperation sid nw2 else Inr nw2) (\<lambda>nw3.
       bindr (if port < length (nw_buf nw3) then Inr (nw_buf nw3 ! port) else Inl Undefined) (\<lambda>q.
       case q of [] \<Rightarrow> Inl AssertFail
       | e # rest \<Rightarrow> guardr (be_inFlight e = True) AssertFail
           (Inr (nw3\<lparr>nw_buf := (nw_buf nw3)[port := rest]\<rparr>))))))"

section \<open>Cycles\<close>

definition bufferTick_port :: "nat \<Rightarrow> network \<Rightarrow> network res" where
  "bufferTick_port i nw = bindr (if i < length (nw_buf nw) then Inr (nw_buf nw ! i) else Inl Undefined)
     (\<lambda>q. case q of [] \<Rightarrow> Inr nw
       | e # rest \<Rightarrow>
          if be_inFlight e then Inr nw
          else Inr (nw\<lparr>nw_timing := nw_timing nw @ [(i, be_syncID e)],
                       nw_buf := (nw_buf nw)[i := e\<lparr>be_inFlight := True\<rparr> # rest]\<rparr>))"

definition bufferTick :: "network \<Rightarrow> network res" where
  "bufferTick nw = foldr_res bufferTick_port [0..<nw_numChips nw] nw"

definition net_tick :: "nat \<Rightarrow> network \<Rightarrow> network res" where
  "net_tick cycle nw0 =
    (let nw1 = (if list_ex (\<lambda>(k, v). sync_ready v) (nw_ops nw0) then
                  nw0\<lparr>ns_busy := ns_busy nw0 + 1, ns_window := ns_window nw0 + 1\<rparr> else nw0);
         nw2 = (if cycle mod 100000 = 0 then nw1\<lparr>ns_window := 0\<rparr> else nw1);
         nw3 = nw2\<lparr>ns_total := ns_total nw2 + 1\<rparr>
     in bufferTick nw3)"

section \<open>What the updates of the table do\<close>

lemma ops_find_put [simp]:
  "ops_find k (ops_put sid s nw) = (if k = sid then Some s else ops_find k nw)"
proof -
  have "map_of (filter (\<lambda>(k, v). k \<noteq> sid) xs) k = (if k = sid then None else map_of xs k)"
    for xs :: "(nat \<times> sync_op) list" by (induction xs) auto
  then show ?thesis by (simp add: ops_find_def ops_put_def)
qed

lemma ops_find_erase [simp]:
  "ops_find k (ops_erase sid nw) = (if k = sid then None else ops_find k nw)"
proof -
  have "map_of (filter (\<lambda>(k, v). k \<noteq> sid) xs) k = (if k = sid then None else map_of xs k)"
    for xs :: "(nat \<times> sync_op) list" by (induction xs) auto
  then show ?thesis by (simp add: ops_find_def ops_erase_def)
qed

lemma ops_put_buf [simp]: "nw_buf (ops_put sid s nw) = nw_buf nw"
  by (simp add: ops_put_def)

lemma ops_find_fields [simp]:
  "ops_find k (nw\<lparr>nw_buf := b\<rparr>) = ops_find k nw" "ops_find k (nw\<lparr>nw_sent := x\<rparr>) = ops_find k nw"
  "ops_find k (nw\<lparr>nw_timing := y\<rparr>) = ops_find k nw"
  by (simp_all add: ops_find_def)

section \<open>A round of registrations\<close>

text \<open>A chip's registration: its id, whether it waits for a value and whether it sends one.\<close>

type_synonym registration = "nat \<times> bool \<times> bool"

definition reg_chip :: "registration \<Rightarrow> nat" where "reg_chip = fst"
definition reg_reply :: "registration \<Rightarrow> bool" where "reg_reply r = fst (snd r)"
definition reg_sends :: "registration \<Rightarrow> bool" where "reg_sends r = snd (snd r)"

lemmas reg_defs = reg_chip_def reg_reply_def reg_sends_def

definition register :: "nat \<Rightarrow> nat \<Rightarrow> op_type \<Rightarrow> registration \<Rightarrow> network \<Rightarrow> network res" where
  "register sid n op r nw =
     bindr (tryRegisterSync (reg_chip r) sid n op (reg_reply r) (reg_sends r) nw) (\<lambda>(_, nw). Inr nw)"

definition register_all :: "nat \<Rightarrow> nat \<Rightarrow> op_type \<Rightarrow> registration list \<Rightarrow> network \<Rightarrow> network res" where
  "register_all sid n op rs nw = foldr_res (register sid n op) rs nw"

text \<open>What an operation remembers of the registrations made so far.\<close>

definition summary :: "op_type \<Rightarrow> registration list \<Rightarrow> sync_op \<Rightarrow> bool" where
  "summary op rs s \<longleftrightarrow> so_op s = op \<and> so_ready s = length rs \<and>
     so_in s = int (length (filter reg_sends rs)) \<and>
     so_out s = int (length (filter reg_reply rs)) \<and>
     (op = Brc \<longrightarrow> so_brc s = map (int \<circ> reg_chip) (filter reg_reply rs)) \<and>
     (op = Agg \<longrightarrow> so_agg s = (case filter reg_reply rs of [] \<Rightarrow> -1 | r # _ \<Rightarrow> int (reg_chip r))) \<and>
     so_max s = -1"

lemma incrementReadyCount_fields [simp]:
  "so_ready (incrementReadyCount c s) = so_ready s + 1" "so_size (incrementReadyCount c s) = so_size s"
  "so_op (incrementReadyCount c s) = so_op s" "so_in (incrementReadyCount c s) = so_in s"
  "so_out (incrementReadyCount c s) = so_out s" "so_agg (incrementReadyCount c s) = so_agg s"
  "so_brc (incrementReadyCount c s) = so_brc s"
  by (simp_all add: incrementReadyCount_def Let_def)

text \<open>A bound of -1 is the largest unsigned number: no chip id is above it.\<close>

lemma max_stays: "c < 2 ^ 64 \<Longrightarrow> so_max s = -1 \<Longrightarrow> so_max (incrementReadyCount c s) = -1"
  by (simp add: incrementReadyCount_def Let_def)

lemma register_pending_summary:
  assumes "summary op rs s" "reg_chip r < 2 ^ 64"
    and "op = Agg \<longrightarrow> length (filter reg_reply (rs @ [r])) \<le> 1"
  shows "\<exists>s'. register_pending (reg_chip r) op (reg_reply r) (reg_sends r) s = Inr s' \<and>
    summary op (rs @ [r]) s' \<and> so_size s' = so_size s"
  using assms max_stays [of "reg_chip r" s]
  by (cases op; cases "filter reg_reply rs")
    (auto simp: register_pending_def Let_def summary_def incrementInputsPending_def
      incrementOutputsPending_def setAggregationDestination_def addBroadcastDestination_def)

lemma summary_new: "summary op [] (new_sync sid n op)"
  by (simp add: summary_def new_sync_def)

lemma register_next:
  assumes "reg_chip r < 2 ^ 64" "op = Agg \<longrightarrow> length (filter reg_reply (rs @ [r])) \<le> 1"
    and "if rs = [] then ops_find sid nw = None
         else \<exists>s. ops_find sid nw = Some s \<and> summary op rs s \<and> so_size s = n"
  shows "\<exists>nw' s. register sid n op r nw = Inr nw' \<and> ops_find sid nw' = Some s \<and>
    summary op (rs @ [r]) s \<and> so_size s = n \<and> nw_buf nw' = nw_buf nw \<and>
    (\<forall>k. k \<noteq> sid \<longrightarrow> ops_find k nw' = ops_find k nw)"
proof (cases "rs = []")
  case True
  with assms obtain s where "register_pending (reg_chip r) op (reg_reply r) (reg_sends r)
      (new_sync sid n op) = Inr s" "summary op [r] s" "so_size s = n"
    using register_pending_summary [OF summary_new, of r op sid n]
    by (auto simp: new_sync_def)
  with True assms(3) show ?thesis
    by (simp add: register_def tryRegisterSync_def)
next
  case False
  with assms(3) obtain s where s: "ops_find sid nw = Some s" "summary op rs s" "so_size s = n" by auto
  from register_pending_summary [OF s(2) assms(1,2)] obtain s' where
    "register_pending (reg_chip r) op (reg_reply r) (reg_sends r) s = Inr s'"
    "summary op (rs @ [r]) s'" "so_size s' = so_size s" by blast
  with s show ?thesis by (simp add: register_def tryRegisterSync_def summary_def)
qed

lemma register_all_spec:
  assumes "ops_find sid nw = None" "rs \<noteq> []" "\<forall>r \<in> set rs. reg_chip r < 2 ^ 64"
    and "op = Agg \<longrightarrow> length (filter reg_reply rs) \<le> 1"
  shows "\<exists>nw' s. register_all sid n op rs nw = Inr nw' \<and> ops_find sid nw' = Some s \<and>
    summary op rs s \<and> so_size s = n \<and> nw_buf nw' = nw_buf nw \<and>
    (\<forall>k. k \<noteq> sid \<longrightarrow> ops_find k nw' = ops_find k nw)"
  using assms
proof (induction rs rule: rev_induct)
  case Nil
  then show ?case by simp
next
  case (snoc r rs)
  show ?case
  proof (cases "rs = []")
    case True
    then show ?thesis
      using register_next [of r op "[]" sid nw n] snoc.prems
      by (auto simp: register_all_def)
  next
    case False
    with snoc obtain nw' s where 1: "register_all sid n op rs nw = Inr nw'"
      "ops_find sid nw' = Some s" "summary op rs s" "so_size s = n" "nw_buf nw' = nw_buf nw"
      "\<forall>k. k \<noteq> sid \<longrightarrow> ops_find k nw' = ops_find k nw" by (auto split: if_splits)
    with False snoc.prems register_next [of r op rs sid nw' n] show ?thesis
      by (auto simp: register_all_def foldr_res_append)
  qed
qed

text \<open>What a broadcast puts on the ports.\<close>

lemma push_entries:
  assumes "\<forall>i \<in> set is. 0 \<le> i \<and> nat i < length (nw_buf nw)"
  shows "\<exists>nw'. foldr_res (\<lambda>i nw. if i = port then Inr nw else push_entry sid i nw) is nw = Inr nw' \<and>
    nw_ops nw' = nw_ops nw \<and> length (nw_buf nw') = length (nw_buf nw) \<and>
    (\<forall>k < length (nw_buf nw). nw_buf nw' ! k = nw_buf nw ! k @
       replicate (count_list (filter (\<lambda>i. i \<noteq> port) is) (int k)) (new_entry sid (224 * 1024)))"
  using assms
proof (induction "is" arbitrary: nw)
  case Nil
  then show ?case by simp
next
  case (Cons i xs)
  show ?case
  proof (cases "i = port")
    case True
    then show ?thesis using Cons by simp
  next
    case False
    let ?nw = "nw\<lparr>nw_buf := (nw_buf nw)[nat i := nw_buf nw ! nat i @ [new_entry sid (224 * 1024)]]\<rparr>"
    have p: "push_entry sid i nw = Inr ?nw" using Cons.prems by (simp add: push_entry_def)
    obtain nw' where nw': "foldr_res (\<lambda>i nw. if i = port then Inr nw else push_entry sid i nw) xs ?nw
        = Inr nw'" "nw_ops nw' = nw_ops ?nw" "length (nw_buf nw') = length (nw_buf ?nw)"
      "\<forall>k < length (nw_buf ?nw). nw_buf nw' ! k = nw_buf ?nw ! k @
        replicate (count_list (filter (\<lambda>i. i \<noteq> port) xs) (int k)) (new_entry sid (224 * 1024))"
      using Cons.IH [of ?nw] Cons.prems by auto
    have "nw_buf nw' ! k = nw_buf nw ! k @
        replicate (count_list (filter (\<lambda>i. i \<noteq> port) (i # xs)) (int k)) (new_entry sid (224 * 1024))"
      if "k < length (nw_buf nw)" for k
      using that nw'(4) Cons.prems False by (cases "int k = i") (auto simp: nth_list_update)
    with nw' p False show ?thesis by simp
  qed
qed

end
