(* ===== verification/DisQueue.thy ===== *)
theory DisQueue
  imports Instruction Network
begin

text \<open>
  The queue of the network instructions (\<open>CinnamonDisQueue\<close> in \<open>functionalUnit.cc\<close>): receive,
  distribute and join, one at a time. The head registers with the network once, waits for the
  barrier, and is then sent or waits for its value. What is sent on the chip's link is recorded in
  \<open>dq_sent\<close>; a delivery is a call of \<open>handle_incoming\<close>.

  The lemmas show that the head waits until the network is ready, and what the queue does when it
  is.
\<close>

section \<open>State and operations\<close>

record dis_queue =
  dq_queue :: "instr list"
  dq_busy :: "instr option"
  dq_registered :: bool
  dq_sent :: "nat list"
  ds_total :: nat
  ds_busy :: nat
  ds_waiting :: nat

definition mk_dis_queue :: dis_queue where
  "mk_dis_queue = \<lparr>dq_queue = [], dq_busy = None, dq_registered = False, dq_sent = [],
     ds_total = 0, ds_busy = 0, ds_waiting = 0\<rparr>"

definition DisQueue_add :: "instr \<Rightarrow> dis_queue \<Rightarrow> dis_queue res" where
  "DisQueue_add i d = (case getOpCode i of
       Rcv \<Rightarrow> Inr (d\<lparr>dq_queue := dq_queue d @ [i]\<rparr>)
     | Dis \<Rightarrow> Inr (d\<lparr>dq_queue := dq_queue d @ [i]\<rparr>)
     | Joi \<Rightarrow> Inr (d\<lparr>dq_queue := dq_queue d @ [i]\<rparr>)
     | _ \<Rightarrow> Inl AssertFail)"

definition handle_dis :: "instr \<Rightarrow> dis_queue \<Rightarrow> regfile \<Rightarrow> (dis_queue \<times> regfile) res" where
  "handle_dis i d rf =
     bindr (syncID i) (\<lambda>sid.
     let d = d\<lparr>dq_sent := dq_sent d @ [sid]\<rparr> in
     bindr (setExecutionComplete i rf) (\<lambda>rf.
       Inr (d\<lparr>dq_busy := None, dq_registered := False\<rparr>, rf)))"

definition handle_joi :: "instr \<Rightarrow> dis_queue \<Rightarrow> regfile \<Rightarrow> (dis_queue \<times> regfile) res" where
  "handle_joi i d rf =
     bindr (syncID i) (\<lambda>sid.
     let d = (if hasSource i = True then d\<lparr>dq_sent := dq_sent d @ [sid]\<rparr> else d) in
     if hasDest i = False then
       bindr (setExecutionComplete i rf) (\<lambda>rf.
         Inr (d\<lparr>dq_busy := None, dq_registered := False\<rparr>, rf))
     else Inr (d, rf))"

definition handle_incoming :: "nat \<Rightarrow> dis_queue \<Rightarrow> regfile \<Rightarrow> (dis_queue \<times> regfile) res" where
  "handle_incoming sid d rf = (case dq_busy d of
       None \<Rightarrow> Inl FatalExit
     | Some i \<Rightarrow> bindr (syncID i) (\<lambda>s.
         if sid \<noteq> s then Inl FatalExit
         else bindr (setExecutionComplete i rf) (\<lambda>rf.
           Inr (d\<lparr>dq_busy := None, dq_registered := False\<rparr>, rf))))"

fun is_DisI :: "instr \<Rightarrow> bool" where
  "is_DisI (DisI _ _ _ _ _ _) = True" | "is_DisI _ = False"

definition net_op :: "opcode \<Rightarrow> op_type res" where
  "net_op op = (case op of Rcv \<Rightarrow> Inr Brc | Dis \<Rightarrow> Inr Brc | Joi \<Rightarrow> Inr Agg | _ \<Rightarrow> Inl RuntimeError)"

text \<open>The registration of the head: only until it has succeeded once.\<close>

definition try_register :: "nat \<Rightarrow> instr \<Rightarrow> dis_queue \<Rightarrow> network \<Rightarrow> (dis_queue \<times> network) res" where
  "try_register chip i d nw =
     (if \<not> dq_registered d then
        bindr (syncID i) (\<lambda>sid. bindr (syncSize i) (\<lambda>sz.
        bindr (net_op (getOpCode i)) (\<lambda>op.
        bindr (tryRegisterSync chip sid sz op (hasDest i) (hasSource i) nw) (\<lambda>(b, nw).
          Inr (d\<lparr>dq_registered := b\<rparr>, nw)))))
      else Inr (d, nw))"

definition DisQueue_tick :: "nat \<Rightarrow> dis_queue \<Rightarrow> regfile \<Rightarrow> network
    \<Rightarrow> (dis_queue \<times> regfile \<times> network) res" where
  "DisQueue_tick chip d0 rf nw =
    (let d = d0\<lparr>ds_total := ds_total d0 + 1\<rparr> in
     case dq_busy d of
       Some _ \<Rightarrow> Inr (d\<lparr>ds_busy := ds_busy d + 1\<rparr>, rf, nw)
     | None \<Rightarrow> (case dq_queue d of
         [] \<Rightarrow> Inr (d, rf, nw)
       | i # rest \<Rightarrow>
          guardr (is_DisI i) AssertFail (
          bindr (allOperandsReady rf i) (\<lambda>rdy.
          if \<not> rdy then Inr (d, rf, nw)
          else bindr (try_register chip i d nw) (\<lambda>(d, nw).
          bindr (syncID i) (\<lambda>sid.
          bindr (networkReady sid nw) (\<lambda>nr.
          if \<not> nr then Inr (d\<lparr>ds_waiting := ds_waiting d + 1\<rparr>, rf, nw)
          else
            (let d = d\<lparr>dq_busy := Some i, dq_queue := rest\<rparr> in
             if getOpCode i = Dis then bindr (handle_dis i d rf) (\<lambda>(d, rf). Inr (d, rf, nw))
             else if getOpCode i = Rcv then Inr (d, rf, nw)
             else if getOpCode i = Joi then bindr (handle_joi i d rf) (\<lambda>(d, rf). Inr (d, rf, nw))
             else Inl RuntimeError))))))))"

text \<open>Only the queue is looked at, not the instruction the unit is busy with.\<close>

definition dis_okayToFinish :: "dis_queue \<Rightarrow> bool" where
  "dis_okayToFinish d = (dq_queue d = [])"

section \<open>The barrier\<close>

text \<open>The number of chips that have registered for a synchronisation.\<close>

definition ready_count :: "nat \<Rightarrow> network \<Rightarrow> nat" where
  "ready_count sid nw = (case ops_find sid nw of None \<Rightarrow> 0 | Some s \<Rightarrow> so_ready s)"

lemma tryRegisterSync_once:
  assumes "tryRegisterSync chip sid n op sendReply recvValue nw = Inr (b, nw')"
  shows "b \<and> ready_count sid nw' = Suc (ready_count sid nw) \<and>
    (\<forall>k. k \<noteq> sid \<longrightarrow> ready_count k nw' = ready_count k nw)"
proof -
  have "so_ready s' = Suc (so_ready s)"
    if "register_pending chip op sendReply recvValue s = Inr s'" for s s'
    using that by (auto simp: register_pending_def Let_def incrementInputsPending_def
        incrementOutputsPending_def setAggregationDestination_def addBroadcastDestination_def
        guardr_Inr_iff split: op_type.splits if_splits)
  with assms show ?thesis
    by (fastforce simp: tryRegisterSync_def ready_count_def bindr_Inr_iff new_sync_def
        split: option.splits if_splits)
qed

text \<open>
  Nothing leaves the queue and nothing is sent before the network is ready. The head is registered
  by the first cycle that finds it ready, which counts this chip once; later cycles leave the
  network as it is.
\<close>

definition head_registration :: "nat \<Rightarrow> instr \<Rightarrow> network \<Rightarrow> (bool \<times> network) res" where
  "head_registration chip i nw = bindr (syncID i) (\<lambda>sid. bindr (syncSize i) (\<lambda>n.
     bindr (net_op (getOpCode i)) (\<lambda>op.
       tryRegisterSync chip sid n op (hasDest i) (hasSource i) nw)))"

lemma try_register_spec:
  assumes "try_register chip i d nw = Inr (d', nw')" "syncID i = Inr sid"
  shows "d' = d\<lparr>dq_registered := True\<rparr>"
    and "if dq_registered d then nw' = nw
      else head_registration chip i nw = Inr (True, nw') \<and>
        ready_count sid nw' = Suc (ready_count sid nw) \<and>
        (\<forall>k. k \<noteq> sid \<longrightarrow> ready_count k nw' = ready_count k nw)"
  using assms tryRegisterSync_once
  by (fastforce simp: try_register_def head_registration_def bindr_Inr_iff split: if_splits)+

lemma tick_waits:
  assumes "DisQueue_tick chip d rf nw = Inr (d', rf', nw')" "dq_busy d = None" "dq_queue d = i # rest"
    and "allOperandsReady rf i = Inr True" "syncID i = Inr sid" "networkReady sid nw' = Inr False"
  shows "dq_queue d' = dq_queue d \<and> dq_busy d' = None \<and> dq_sent d' = dq_sent d \<and> rf' = rf \<and>
    dq_registered d' \<and>
    (if dq_registered d then nw' = nw
     else head_registration chip i nw = Inr (True, nw') \<and>
       ready_count sid nw' = Suc (ready_count sid nw) \<and>
       (\<forall>k. k \<noteq> sid \<longrightarrow> ready_count k nw' = ready_count k nw))"
proof -
  obtain d1 nw1 where reg: "try_register chip i (d\<lparr>ds_total := ds_total d + 1\<rparr>) nw = Inr (d1, nw1)"
    using assms(1-5) by (auto simp: DisQueue_tick_def Let_def bindr_Inr_iff guardr_Inr_iff)
  note spec = try_register_spec [OF reg assms(5)]
  have "nw' = nw1"
    using assms(1-5) reg
    by (auto simp: DisQueue_tick_def Let_def bindr_Inr_iff guardr_Inr_iff split: if_splits)
  then have "(d', rf', nw') = (d1\<lparr>ds_waiting := ds_waiting d1 + 1\<rparr>, rf, nw1)"
    using assms reg
    by (auto simp: DisQueue_tick_def Let_def bindr_Inr_iff guardr_Inr_iff split: if_splits)
  with spec assms(2) show ?thesis by simp
qed

text \<open>A response ends the wait of the instruction it answers, and only that one.\<close>

lemma incoming_completes:
  assumes "dq_busy d = Some i" "syncID i = Inr sid" "setExecutionComplete i rf = Inr rf'"
  shows "handle_incoming sid d rf = Inr (d\<lparr>dq_busy := None, dq_registered := False\<rparr>, rf')"
    and "other \<noteq> sid \<Longrightarrow> handle_incoming other d rf = Inl FatalExit"
  using assms by (simp_all add: handle_incoming_def)

end
