(* ===== verification/Rename.thy ===== *)
theory Rename
  imports Opcode Registers
begin

text \<open>
  Register renaming: the part of \<open>CinnamonChip\<close> (\<open>chip.cc\<close>) that maps the registers a trace names to
  physical registers, reference counted, with free lists.

  The lemmas are an accounting: as long as every use of a register is counted while another count
  keeps it alive, the count of a vector register is the number of names mapped to it plus what the
  instructions in flight hold, and the free list has each register of count 0 exactly once. A use
  marked dead counts the register down first; on the last count that puts it on the free list while
  the instruction still reads it.
\<close>

section \<open>Operations\<close>

fun canMapToPhysicalRegister :: "regfile \<Rightarrow> parsed_value \<Rightarrow> bool" where
  "canMapToPhysicalRegister rf (ParsedVec v dead) = (rf_freeV rf \<noteq> [])"
| "canMapToPhysicalRegister rf (ParsedScal v dead) = (rf_freeS rf \<noteq> [])"
| "canMapToPhysicalRegister rf _ = False"

text \<open>\<open>vectorRegisters.at(i)\<close> and \<open>scalarRegisters.at(i)\<close>.\<close>

definition v_at :: "regfile \<Rightarrow> nat \<Rightarrow> preg res" where
  "v_at rf i = (if i < length (rf_v rf) then Inr (RV i) else Inl OutOfRange)"

definition s_at :: "regfile \<Rightarrow> nat \<Rightarrow> preg res" where
  "s_at rf i = (if i < length (rf_s rf) then Inr (RS i) else Inl OutOfRange)"

text \<open>Giving up the register a name is mapped to, if it is.\<close>

definition dropV :: "nat \<Rightarrow> regfile \<Rightarrow> regfile res" where
  "dropV v rf = (case rf_vmap rf v of
       None \<Rightarrow> Inr rf | Some i \<Rightarrow> bindr (v_at rf i) (\<lambda>r. decReference r rf))"

definition dropS :: "nat \<Rightarrow> regfile \<Rightarrow> regfile res" where
  "dropS v rf = (case rf_smap rf v of
       None \<Rightarrow> Inr rf | Some i \<Rightarrow> bindr (s_at rf i) (\<lambda>r. decReference r rf))"

fun mapToPhysicalRegister :: "parsed_value \<Rightarrow> regfile \<Rightarrow> (preg option \<times> regfile) res" where
  "mapToPhysicalRegister (ParsedVec v dead) rf =
     bindr (dropV v rf) (\<lambda>rf. case rf_freeV rf of
         [] \<Rightarrow> Inl AssertFail
       | f # fs \<Rightarrow>
          (let rf = rf\<lparr>rf_freeV := fs, rf_vmap := (rf_vmap rf)(v \<mapsto> f)\<rparr> in
           bindr (v_at rf f) (\<lambda>r. bindr (incReference r rf) (\<lambda>rf.
             Inr (Some r, rf\<lparr>rf_writes := rf_writes rf + 1\<rparr>)))))"
| "mapToPhysicalRegister (ParsedScal v dead) rf =
     bindr (dropS v rf) (\<lambda>rf. case rf_freeS rf of
         [] \<Rightarrow> Inl AssertFail
       | f # fs \<Rightarrow>
          (let rf = rf\<lparr>rf_freeS := fs, rf_smap := (rf_smap rf)(v \<mapsto> f)\<rparr> in
           bindr (s_at rf f) (\<lambda>r. bindr (incReference r rf) (\<lambda>rf. Inr (Some r, rf)))))"
| "mapToPhysicalRegister _ rf = Inr (None, rf)"

fun getMappedPhysicalRegister :: "parsed_value \<Rightarrow> regfile \<Rightarrow> (preg option \<times> regfile) res" where
  "getMappedPhysicalRegister (ParsedVec v dead) rf =
     bindr (the_res OutOfRange (rf_vmap rf v)) (\<lambda>i. bindr (v_at rf i) (\<lambda>r.
     bindr (if dead then bindr (decReference r rf) (\<lambda>rf. Inr (rf\<lparr>rf_vmap := (rf_vmap rf)(v := None)\<rparr>))
            else Inr rf) (\<lambda>rf. Inr (Some r, rf\<lparr>rf_reads := rf_reads rf + 1\<rparr>))))"
| "getMappedPhysicalRegister (ParsedScal v dead) rf =
     bindr (the_res OutOfRange (rf_smap rf v)) (\<lambda>i. bindr (s_at rf i) (\<lambda>r.
     bindr (if dead then bindr (decReference r rf) (\<lambda>rf. Inr (rf\<lparr>rf_smap := (rf_smap rf)(v := None)\<rparr>))
            else Inr rf) (\<lambda>rf. Inr (Some r, rf))))"
| "getMappedPhysicalRegister _ rf = Inr (None, rf)"

text \<open>\<open>mapSrcToDest\<close>: the destination is unmapped before the source is looked up.\<close>

definition mapSrcToDest :: "nat \<Rightarrow> nat \<Rightarrow> regfile \<Rightarrow> regfile res" where
  "mapSrcToDest dest src rf =
     bindr (case rf_vmap rf dest of
         None \<Rightarrow> Inr rf
       | Some i \<Rightarrow> bindr (v_at rf i) (\<lambda>r. bindr (decReference r rf) (\<lambda>rf.
           Inr (rf\<lparr>rf_vmap := (rf_vmap rf)(dest := None)\<rparr>)))) (\<lambda>rf.
     bindr (the_res OutOfRange (rf_vmap rf src)) (\<lambda>i.
     let rf = rf\<lparr>rf_vmap := (rf_vmap rf)(dest \<mapsto> i)\<rparr> in
     bindr (v_at rf i) (\<lambda>r. incReference r rf)))"

definition mapToBaseConversionVirtualRegister :: "nat \<Rightarrow> regfile \<Rightarrow> (nat \<times> regfile) res" where
  "mapToBaseConversionVirtualRegister b rf =
     bindr (case rf_bmap rf b of
         None \<Rightarrow> Inr rf
       | Some i \<Rightarrow> if i < length (rf_b rf) then bc_decReference i rf else Inl OutOfRange) (\<lambda>rf.
     case rf_freeB rf of [] \<Rightarrow> Inl AssertFail
     | f # fs \<Rightarrow>
        (let rf = rf\<lparr>rf_freeB := fs, rf_bmap := (rf_bmap rf)(b \<mapsto> f)\<rparr> in
         if f < length (rf_b rf) then bindr (bc_incReference f rf) (\<lambda>rf. Inr (f, rf))
         else Inl OutOfRange))"

text \<open>\<open>operator[]\<close> of the map inserts 0 for a name it does not have.\<close>

definition getMappedBaseConversionVirtualRegister :: "nat \<Rightarrow> regfile \<Rightarrow> (nat \<times> regfile) res" where
  "getMappedBaseConversionVirtualRegister b rf =
    (let rf = (if rf_bmap rf b = None then rf\<lparr>rf_bmap := (rf_bmap rf)(b \<mapsto> 0)\<rparr> else rf);
         i = the (rf_bmap rf b)
     in if i < length (rf_b rf) then Inr (i, rf) else Inl Undefined)"

text \<open>\<open>reg->incReference()\<close> through the pointer one of the lookups returned.\<close>

definition inc_ptr :: "preg option \<times> regfile \<Rightarrow> (preg \<times> regfile) res" where
  "inc_ptr = (\<lambda>(p, rf). bindr (the_res NullDeref p) (\<lambda>r.
     bindr (incReference r rf) (\<lambda>rf. Inr (r, rf))))"

text \<open>A destination and a source as every dispatch takes them.\<close>

definition take_dest :: "parsed_value \<Rightarrow> regfile \<Rightarrow> (preg \<times> regfile) res" where
  "take_dest v rf = bindr (mapToPhysicalRegister v rf) inc_ptr"

definition take_src :: "parsed_value \<Rightarrow> regfile \<Rightarrow> (preg \<times> regfile) res" where
  "take_src v rf = bindr (getMappedPhysicalRegister v rf) inc_ptr"

section \<open>Accounting\<close>

text \<open>\<open>c\<close> gives the count of every vector register; the free list has those of count 0, once each.\<close>

definition cnt_ok :: "(nat \<Rightarrow> int) \<Rightarrow> regfile \<Rightarrow> bool" where
  "cnt_ok c rf \<longleftrightarrow>
     (\<forall>i < length (rf_v rf). pr_type (rf_v rf ! i) = Vector \<and> pr_id (rf_v rf ! i) = i \<and>
        pr_refs (rf_v rf ! i) = c i \<and> 0 \<le> c i \<and> c i < 32768) \<and>
     distinct (rf_freeV rf) \<and> set (rf_freeV rf) = {i. i < length (rf_v rf) \<and> c i = 0}"

lemma v_at_in [simp]: "i < length (rf_v rf) \<Longrightarrow> v_at rf i = Inr (RV i)"
  by (simp add: v_at_def)

lemma dec_cnt:
  assumes "cnt_ok c rf" "i < length (rf_v rf)" "1 \<le> c i"
  shows "\<exists>rf'. decReference (RV i) rf = Inr rf' \<and> cnt_ok (c(i := c i - 1)) rf' \<and>
    rf_vmap rf' = rf_vmap rf \<and> length (rf_v rf') = length (rf_v rf) \<and>
    rf_freeV rf' = (if c i = 1 then rf_freeV rf @ [i] else rf_freeV rf)"
proof -
  let ?p = "rf_v rf ! i"
  let ?p' = "?p\<lparr>pr_refs := c i - 1\<rparr>"
  let ?rf = "rf\<lparr>rf_v := (rf_v rf)[i := ?p']\<rparr>"
  have p: "pr_type ?p = Vector" "pr_id ?p = i" "pr_refs ?p = c i" "c i < 32768"
    using assms by (auto simp: cnt_ok_def)
  have s: "s16 (c i - 1) = c i - 1" using p(4) assms(3) by (intro s16_id) auto
  have eq: "decReference (RV i) rf =
      Inr (if c i = 1 then ?rf\<lparr>rf_freeV := rf_freeV rf @ [i]\<rparr> else ?rf)"
    using assms p s by (auto simp: decReference_def Let_def addToFreeListIfFree_def)
  show ?thesis
  proof (cases "c i = 1")
    case True
    then have "i \<notin> set (rf_freeV rf)" using assms by (simp add: cnt_ok_def)
    with True assms have "cnt_ok (c(i := c i - 1)) (?rf\<lparr>rf_freeV := rf_freeV rf @ [i]\<rparr>)"
      by (auto simp: cnt_ok_def nth_list_update)
    with True eq show ?thesis by simp
  next
    case False
    with assms have "cnt_ok (c(i := c i - 1)) ?rf" by (auto simp: cnt_ok_def nth_list_update)
    with False eq show ?thesis by simp
  qed
qed

lemma inc_cnt:
  assumes "cnt_ok c rf" "i < length (rf_v rf)" "1 \<le> c i" "c i < 32767"
  shows "\<exists>rf'. incReference (RV i) rf = Inr rf' \<and> cnt_ok (c(i := c i + 1)) rf' \<and>
    rf_vmap rf' = rf_vmap rf \<and> length (rf_v rf') = length (rf_v rf) \<and> rf_freeV rf' = rf_freeV rf"
proof -
  have s: "s16 (c i + 1) = c i + 1" using assms(3,4) by (intro s16_id) auto
  let ?rf = "rf\<lparr>rf_v := (rf_v rf)[i := (rf_v rf ! i)\<lparr>pr_refs := c i + 1\<rparr>]\<rparr>"
  have "incReference (RV i) rf = Inr ?rf"
    using assms s by (simp add: incReference_def cnt_ok_def)
  moreover have "cnt_ok (c(i := c i + 1)) ?rf"
    using assms by (auto simp: cnt_ok_def nth_list_update)
  ultimately show ?thesis by simp
qed

text \<open>Taking the first free register.\<close>

lemma take_free_cnt:
  assumes "cnt_ok c rf" "rf_freeV rf = f # fs" "rf' = rf\<lparr>rf_freeV := fs, rf_vmap := m\<rparr>"
  shows "f < length (rf_v rf) \<and> c f = 0 \<and> (\<exists>rf''. incReference (RV f) rf' = Inr rf'' \<and>
    cnt_ok (c(f := 1)) rf'' \<and> rf_vmap rf'' = m \<and> length (rf_v rf'') = length (rf_v rf) \<and>
    rf_freeV rf'' = fs)"
proof -
  have f: "f < length (rf_v rf)" "c f = 0" "f \<notin> set fs" "distinct fs"
    "set fs = {i. i < length (rf_v rf) \<and> c i = 0} - {f}"
    using assms(1,2) by (auto simp: cnt_ok_def)
  have s: "s16 1 = 1" by (intro s16_id) auto
  let ?rf = "rf'\<lparr>rf_v := (rf_v rf)[f := (rf_v rf ! f)\<lparr>pr_refs := 1\<rparr>]\<rparr>"
  have "incReference (RV f) rf' = Inr ?rf"
    using assms f s by (simp add: incReference_def cnt_ok_def)
  moreover have "cnt_ok (c(f := 1)) ?rf"
    using assms(1,3) f by (auto simp: cnt_ok_def nth_list_update)
  ultimately show ?thesis using f assms(3) by auto
qed

lemma cnt_ok_fields [simp]:
  "cnt_ok c (rf\<lparr>rf_vmap := m\<rparr>) = cnt_ok c rf" "cnt_ok c (rf\<lparr>rf_reads := n\<rparr>) = cnt_ok c rf"
  "cnt_ok c (rf\<lparr>rf_writes := n\<rparr>) = cnt_ok c rf"
  by (simp_all add: cnt_ok_def)

section \<open>Names and instructions in flight\<close>

definition names :: "regfile \<Rightarrow> nat \<Rightarrow> int" where
  "names rf i = int (card {v. rf_vmap rf v = Some i})"

text \<open>The count of every vector register is its names plus the uses \<open>h\<close> of it in flight.\<close>

definition acct :: "(nat \<Rightarrow> int) \<Rightarrow> regfile \<Rightarrow> bool" where
  "acct h rf \<longleftrightarrow> finite (dom (rf_vmap rf)) \<and> (\<forall>i \<in> ran (rf_vmap rf). i < length (rf_v rf)) \<and>
     (\<forall>i. 0 \<le> h i) \<and> cnt_ok (\<lambda>i. names rf i + h i) rf"

lemma finite_names: "finite (dom m) \<Longrightarrow> finite {v. m v = Some i}"
  by (rule finite_subset [of _ "dom m"]) auto

lemma names_upd:
  assumes "finite (dom m)"
  shows "int (card {x. (m(v \<mapsto> f)) x = Some i}) =
    int (card {x. m x = Some i}) - (if m v = Some i then 1 else 0) + (if i = f then 1 else 0)"
proof -
  have fin: "finite {x. m x = Some i}" by (rule finite_names [OF assms])
  have "{x. (m(v \<mapsto> f)) x = Some i} = (if i = f then insert v else id) ({x. m x = Some i} - {v})"
    by auto
  moreover have "card ({x. m x = Some i} - {v}) =
      (if m v = Some i then card {x. m x = Some i} - 1 else card {x. m x = Some i})"
    using fin by (auto simp: card_Diff_singleton_if)
  moreover have "m v = Some i \<Longrightarrow> 1 \<le> card {x. m x = Some i}"
    using fin by (auto simp: Suc_le_eq card_gt_0_iff)
  moreover have "m v = Some i \<Longrightarrow> insert v {x. m x = Some i} = {x. m x = Some i}" by auto
  ultimately show ?thesis using fin by (auto simp: of_nat_diff)
qed

lemma names_del:
  assumes "finite (dom m)"
  shows "int (card {x. (m(v := None)) x = Some i}) =
    int (card {x. m x = Some i}) - (if m v = Some i then 1 else 0)"
proof -
  have fin: "finite {x. m x = Some i}" by (rule finite_names [OF assms])
  have "{x. (m(v := None)) x = Some i} = {x. m x = Some i} - {v}" by auto
  moreover have "m v = Some i \<Longrightarrow> 1 \<le> card {x. m x = Some i}"
    using fin by (auto simp: Suc_le_eq card_gt_0_iff)
  ultimately show ?thesis using fin by (auto simp: of_nat_diff card_Diff_singleton_if)
qed

lemma named_pos: "acct h rf \<Longrightarrow> rf_vmap rf v = Some i \<Longrightarrow> 1 \<le> names rf i \<and> i < length (rf_v rf)"
proof -
  assume a: "acct h rf" "rf_vmap rf v = Some i"
  then have "finite {v. rf_vmap rf v = Some i}" by (auto simp: acct_def intro: finite_names)
  with a(2) have "card {v. rf_vmap rf v = Some i} \<noteq> 0" by auto
  with a show ?thesis by (auto simp: names_def acct_def ran_def)
qed

definition bump :: "nat \<Rightarrow> int \<Rightarrow> (nat \<Rightarrow> int) \<Rightarrow> nat \<Rightarrow> int" where
  "bump i n h = h(i := h i + n)"

text \<open>A source that is not dead: one more use.\<close>

lemma take_src_acct:
  assumes "acct h rf" "rf_vmap rf v = Some i" "names rf i + h i < 32767"
  shows "\<exists>rf'. take_src (ParsedVec v False) rf = Inr (RV i, rf') \<and> acct (bump i 1 h) rf' \<and>
    rf_vmap rf' = rf_vmap rf"
proof -
  have i: "1 \<le> names rf i" "i < length (rf_v rf)" using named_pos [OF assms(1,2)] by auto
  let ?rf = "rf\<lparr>rf_reads := rf_reads rf + 1\<rparr>"
  have "cnt_ok (\<lambda>i. names rf i + h i) ?rf" "0 \<le> h i" using assms(1) by (simp_all add: acct_def)
  from inc_cnt [OF this(1), of i] this(2) i assms(3) obtain rf' where
    rf': "incReference (RV i) ?rf = Inr rf'" "rf_vmap rf' = rf_vmap rf"
    "length (rf_v rf') = length (rf_v rf)"
    "cnt_ok ((\<lambda>i. names rf i + h i)(i := names rf i + h i + 1)) rf'" by auto
  moreover have "(\<lambda>i. names rf i + h i)(i := names rf i + h i + 1) = (\<lambda>j. names rf' j + bump i 1 h j)"
    using rf'(2) by (auto simp: names_def bump_def fun_eq_iff)
  ultimately have "acct (bump i 1 h) rf'" using assms(1) by (simp add: acct_def bump_def)
  with rf' i assms(2) show ?thesis by (simp add: take_src_def inc_ptr_def)
qed

text \<open>A dead source whose register stays alive by another count: a name less, a use more.\<close>

lemma take_dead_acct:
  assumes "acct h rf" "rf_vmap rf v = Some i" "2 \<le> names rf i + h i"
  shows "\<exists>rf'. take_src (ParsedVec v True) rf = Inr (RV i, rf') \<and> acct (bump i 1 h) rf' \<and>
    rf_vmap rf' = (rf_vmap rf)(v := None)"
proof -
  have i: "1 \<le> names rf i" "i < length (rf_v rf)" using named_pos [OF assms(1,2)] by auto
  have c: "cnt_ok (\<lambda>i. names rf i + h i) rf" "finite (dom (rf_vmap rf))" "0 \<le> h i"
    "names rf i + h i < 32768"
    using assms(1) i by (auto simp: acct_def cnt_ok_def)
  from dec_cnt [OF c(1) i(2)] i c(3) assms(3) obtain rf1 where
    rf1: "decReference (RV i) rf = Inr rf1" "rf_vmap rf1 = rf_vmap rf"
    "length (rf_v rf1) = length (rf_v rf)"
    "cnt_ok ((\<lambda>i. names rf i + h i)(i := names rf i + h i - 1)) rf1" by auto
  let ?rf = "rf1\<lparr>rf_vmap := (rf_vmap rf1)(v := None), rf_reads := rf_reads rf1 + 1\<rparr>"
  have c2: "cnt_ok ((\<lambda>i. names rf i + h i)(i := names rf i + h i - 1)) ?rf" using rf1(4) by simp
  have self: "(\<lambda>i. names rf i + h i)(i := names rf i + h i) = (\<lambda>i. names rf i + h i)"
    by (simp add: fun_eq_iff)
  from inc_cnt [OF c2, of i] i rf1(3) assms(3) c(4) obtain rf' where
    rf': "incReference (RV i) ?rf = Inr rf'" "rf_vmap rf' = (rf_vmap rf)(v := None)"
    "length (rf_v rf') = length (rf_v rf)"
    "cnt_ok (\<lambda>i. names rf i + h i) rf'" by (auto simp: rf1(2) self)
  moreover have "(\<lambda>i. names rf i + h i) = (\<lambda>j. names rf' j + bump i 1 h j)"
    using assms(2) names_del [OF c(2), of v] by (auto simp: names_def bump_def fun_eq_iff rf'(2))
  ultimately have "acct (bump i 1 h) rf'"
    using assms(1) by (auto simp: acct_def bump_def ran_def)
  with rf' rf1 i assms(2) show ?thesis by (simp add: take_src_def inc_ptr_def)
qed

text \<open>A new destination: a free register, one name and one use.\<close>

lemma take_dest_acct:
  assumes "acct h rf" "canMapToPhysicalRegister rf (ParsedVec v dead)"
  shows "\<exists>f rf'. take_dest (ParsedVec v dead) rf = Inr (RV f, rf') \<and> acct (bump f 1 h) rf' \<and>
    rf_vmap rf' = (rf_vmap rf)(v \<mapsto> f) \<and> f < length (rf_v rf)"
proof -
  have c: "cnt_ok (\<lambda>i. names rf i + h i) rf" "finite (dom (rf_vmap rf))" "\<forall>i. 0 \<le> h i"
    using assms(1) by (auto simp: acct_def)
  let ?c = "\<lambda>i. names rf i + h i - (if rf_vmap rf v = Some i then 1 else 0)"
  have "\<exists>rf1. dropV v rf = Inr rf1 \<and> cnt_ok ?c rf1 \<and> rf_vmap rf1 = rf_vmap rf \<and>
      length (rf_v rf1) = length (rf_v rf) \<and> rf_freeV rf1 \<noteq> []"
  proof (cases "rf_vmap rf v")
    case None
    then show ?thesis using c assms(2) by (simp add: dropV_def)
  next
    case (Some i)
    have i: "1 \<le> names rf i" "i < length (rf_v rf)" using named_pos [OF assms(1) Some] by auto
    have eq: "(\<lambda>i. names rf i + h i)(i := names rf i + h i - 1) = ?c"
      using Some by (auto simp: fun_eq_iff)
    have "1 \<le> names rf i + h i" using i(1) c(3) [rule_format, of i] by simp
    from dec_cnt [OF c(1) i(2) this] assms(2) i show ?thesis
      unfolding eq by (auto simp: dropV_def Some)
  qed
  then obtain rf1 where rf1: "dropV v rf = Inr rf1" "cnt_ok ?c rf1" "rf_vmap rf1 = rf_vmap rf"
    "length (rf_v rf1) = length (rf_v rf)" "rf_freeV rf1 \<noteq> []" by blast
  from rf1(5) obtain f fs where f: "rf_freeV rf1 = f # fs" by (cases "rf_freeV rf1") auto
  let ?m = "(rf_vmap rf)(v \<mapsto> f)"
  let ?rf1 = "rf1\<lparr>rf_freeV := fs, rf_vmap := ?m\<rparr>"
  from take_free_cnt [OF rf1(2) f refl, of ?m] obtain rf2 where
    rf2: "f < length (rf_v rf1)" "?c f = 0" "incReference (RV f) ?rf1 = Inr rf2"
    "cnt_ok (?c(f := 1)) rf2" "rf_vmap rf2 = ?m" "length (rf_v rf2) = length (rf_v rf1)" by auto
  let ?rf2 = "rf2\<lparr>rf_writes := rf_writes rf2 + 1\<rparr>"
  have "cnt_ok (?c(f := 1)) ?rf2" using rf2(4) by simp
  from inc_cnt [OF this, of f] rf2 obtain rf3 where
    rf3: "incReference (RV f) ?rf2 = Inr rf3" "cnt_ok (?c(f := 2)) rf3" "rf_vmap rf3 = ?m"
    "length (rf_v rf3) = length (rf_v rf1)" by auto
  have "names rf3 j + bump f 1 h j = (?c(f := 2)) j" for j
    using names_upd [OF c(2), of v f j] rf2(2) by (auto simp: names_def bump_def rf3(3))
  then have "(\<lambda>j. names rf3 j + bump f 1 h j) = ?c(f := 2)" by (simp add: fun_eq_iff)
  then have "acct (bump f 1 h) rf3"
    using assms(1) rf3 rf1(4) rf2(1) by (auto simp: acct_def bump_def ran_def split: if_splits)
  moreover have "take_dest (ParsedVec v dead) rf = Inr (RV f, rf3)"
    using rf1 rf2 rf3 f by (simp add: take_dest_def inc_ptr_def Let_def)
  ultimately show ?thesis using rf3(3) rf2(1) rf1(4) by auto
qed

text \<open>An instruction in flight gives up a use.\<close>

lemma release_acct:
  assumes "acct h rf" "i < length (rf_v rf)" "1 \<le> h i"
  shows "\<exists>rf'. decReference (RV i) rf = Inr rf' \<and> acct (bump i (- 1) h) rf' \<and>
    rf_vmap rf' = rf_vmap rf"
proof -
  have c: "cnt_ok (\<lambda>i. names rf i + h i) rf" "1 \<le> names rf i + h i"
    using assms by (auto simp: acct_def names_def)
  from dec_cnt [OF c(1) assms(2) c(2)] obtain rf' where
    rf': "decReference (RV i) rf = Inr rf'" "rf_vmap rf' = rf_vmap rf"
    "length (rf_v rf') = length (rf_v rf)"
    "cnt_ok ((\<lambda>i. names rf i + h i)(i := names rf i + h i - 1)) rf'" by auto
  moreover have "(\<lambda>i. names rf i + h i)(i := names rf i + h i - 1) =
      (\<lambda>j. names rf' j + bump i (- 1) h j)"
    using rf'(2) by (auto simp: names_def bump_def fun_eq_iff)
  ultimately show ?thesis using assms by (auto simp: acct_def bump_def)
qed

text \<open>
  A dead source that was the last count: the register is on the free list while it is in use. The
  free list is no longer the list of unused registers.
\<close>

lemma take_last_dead:
  assumes "acct h rf" "rf_vmap rf v = Some i" "names rf i + h i = 1"
  shows "\<exists>rf'. take_src (ParsedVec v True) rf = Inr (RV i, rf') \<and> refs rf' (RV i) = 1 \<and>
    i \<in> set (rf_freeV rf') \<and> (\<forall>h'. \<not> acct h' rf')"
proof -
  have i: "i < length (rf_v rf)" using named_pos [OF assms(1,2)] by auto
  have c: "cnt_ok (\<lambda>i. names rf i + h i) rf" using assms(1) by (auto simp: acct_def)
  from dec_cnt [OF c i] assms(3) obtain rf1 where
    rf1: "decReference (RV i) rf = Inr rf1" "rf_vmap rf1 = rf_vmap rf"
    "length (rf_v rf1) = length (rf_v rf)"
    "cnt_ok ((\<lambda>i. names rf i + h i)(i := 0)) rf1" "rf_freeV rf1 = rf_freeV rf @ [i]" by auto
  let ?rf = "rf1\<lparr>rf_vmap := (rf_vmap rf1)(v := None), rf_reads := rf_reads rf1 + 1\<rparr>"
  have z: "pr_refs (rf_v rf1 ! i) = 0" using rf1(3,4) i by (auto simp: cnt_ok_def)
  have s: "s16 1 = 1" by (intro s16_id) auto
  let ?rf' = "?rf\<lparr>rf_v := (rf_v rf1)[i := (rf_v rf1 ! i)\<lparr>pr_refs := 1\<rparr>]\<rparr>"
  have inc: "incReference (RV i) ?rf = Inr ?rf'" using i rf1(3) z s by (simp add: incReference_def)
  have r: "refs ?rf' (RV i) = 1" "i \<in> set (rf_freeV ?rf')" "i < length (rf_v ?rf')"
    using i rf1(3,5) by (simp_all add: refs_def)
  then have "\<not> acct h' ?rf'" for h' by (auto simp: acct_def cnt_ok_def refs_def)
  with r inc rf1(1) i assms(2) show ?thesis by (auto simp: take_src_def inc_ptr_def)
qed

end
