(* ===== verification/Regex.thy ===== *)
theory Regex
  imports Prelude
begin

text \<open>
  What the trace reader uses of the standard library on strings: \<open>find\<close>, \<open>substr\<close>, \<open>erase\<close>,
  \<open>stoi\<close>, \<open>stoull\<close>, and \<open>std::regex_search\<close> with the ECMAScript grammar, as a backtracking matcher
  that lists its successes in the order the engine tries them (greedy repetition first).
\<close>

section \<open>Strings\<close>

definition npos :: nat where
  "npos = 2 ^ 64 - 1"

definition find_char :: "char \<Rightarrow> string \<Rightarrow> nat" where
  "find_char c s = (case find_first_index (\<lambda>x. x = c) s of None \<Rightarrow> npos | Some n \<Rightarrow> n)"

fun find_sub_from :: "nat \<Rightarrow> string \<Rightarrow> string \<Rightarrow> nat option" where
  "find_sub_from n p [] = (if p = [] then Some n else None)"
| "find_sub_from n p (c # s) =
     (if take (length p) (c # s) = p then Some n else find_sub_from (Suc n) p s)"

definition find_sub :: "string \<Rightarrow> string \<Rightarrow> nat" where
  "find_sub p s = (case find_sub_from 0 p s of None \<Rightarrow> npos | Some n \<Rightarrow> n)"

definition substr :: "string \<Rightarrow> nat \<Rightarrow> nat \<Rightarrow> string res" where
  "substr s pos n = (if pos > length s then Inl OutOfRange else Inr (take n (drop pos s)))"

definition erase :: "string \<Rightarrow> nat \<Rightarrow> nat \<Rightarrow> string res" where
  "erase s pos n = (if pos > length s then Inl OutOfRange else Inr (take pos s @ drop n (drop pos s)))"

text \<open>\<open>s[0] = '0'\<close>; on an empty string it would overwrite the terminator.\<close>

definition set_first :: "char \<Rightarrow> string \<Rightarrow> string res" where
  "set_first c s = (case s of [] \<Rightarrow> Inl Undefined | _ # t \<Rightarrow> Inr (c # t))"

definition char_at :: "string \<Rightarrow> nat \<Rightarrow> char res" where
  "char_at s n = atr s n"

section \<open>Numbers\<close>

definition is_digit :: "char \<Rightarrow> bool" where
  "is_digit c = (of_char c \<ge> (48 :: nat) \<and> of_char c \<le> (57 :: nat))"

definition is_space :: "char \<Rightarrow> bool" where
  "is_space c = (of_char c = (32 :: nat) \<or> (of_char c \<ge> (9 :: nat) \<and> of_char c \<le> (13 :: nat)))"

definition digits_value :: "string \<Rightarrow> nat" where
  "digits_value ds = fold (\<lambda>c n. n * 10 + (of_char c - 48)) ds 0"

text \<open>Leading white space, a sign, and the longest run of digits.\<close>

definition parse_signed :: "string \<Rightarrow> int res" where
  "parse_signed s =
    (let t = dropWhile is_space s;
         neg = (case t of c # _ \<Rightarrow> c = CHR ''-'' | [] \<Rightarrow> False);
         u = (case t of c # v \<Rightarrow> if c = CHR ''-'' \<or> c = CHR ''+'' then v else t | [] \<Rightarrow> []);
         ds = takeWhile is_digit u
     in if ds = [] then Inl InvalidArgument
        else Inr (if neg then - int (digits_value ds) else int (digits_value ds)))"

definition stoi :: "string \<Rightarrow> int res" where
  "stoi s = bindr (parse_signed s) (\<lambda>x.
     if - (2 ^ 31) \<le> x \<and> x < 2 ^ 31 then Inr x else Inl OutOfRange)"

definition stoull :: "string \<Rightarrow> nat res" where
  "stoull s = bindr (parse_signed s) (\<lambda>x.
     if \<bar>x\<bar> < 2 ^ 64 then Inr (nat (x mod 2 ^ 64)) else Inl OutOfRange)"

section \<open>Regular expressions\<close>

datatype re =
    Chr char
  | Dot
  | DigitC
  | Seq re re
  | Star re
  | Opt re
  | Grp nat re

fun lit :: "string \<Rightarrow> re \<Rightarrow> re" where
  "lit [] r = r"
| "lit (c # s) r = Seq (Chr c) (lit s r)"

abbreviation Plus :: "re \<Rightarrow> re" where
  "Plus r \<equiv> Seq r (Star r)"

type_synonym caps = "nat \<Rightarrow> string option"

fun star :: "nat \<Rightarrow> (string \<times> caps \<Rightarrow> (string \<times> caps) list) \<Rightarrow> string \<times> caps
    \<Rightarrow> (string \<times> caps) list" where
  "star 0 f x = [x]"
| "star (Suc n) f x = concat (map (\<lambda>y. if length (fst y) < length (fst x) then star n f y else []) (f x)) @ [x]"

fun rmatch :: "re \<Rightarrow> string \<times> caps \<Rightarrow> (string \<times> caps) list" where
  "rmatch (Chr c) (s, m) = (case s of [] \<Rightarrow> [] | d # t \<Rightarrow> if d = c then [(t, m)] else [])"
| "rmatch Dot (s, m) = (case s of [] \<Rightarrow> [] | d # t \<Rightarrow>
     if of_char d = (10 :: nat) \<or> of_char d = (13 :: nat) then [] else [(t, m)])"
| "rmatch DigitC (s, m) = (case s of [] \<Rightarrow> [] | d # t \<Rightarrow> if is_digit d then [(t, m)] else [])"
| "rmatch (Seq a b) x = concat (map (rmatch b) (rmatch a x))"
| "rmatch (Star r) x = star (length (fst x)) (rmatch r) x"
| "rmatch (Opt r) x = rmatch r x @ [x]"
| "rmatch (Grp n r) x =
     map (\<lambda>(t, m). (t, m(n \<mapsto> take (length (fst x) - length t) (fst x)))) (rmatch r x)"

text \<open>The leftmost start that matches, and there the first success.\<close>

fun regex_search :: "re \<Rightarrow> string \<Rightarrow> caps option" where
  "regex_search r [] = (case rmatch r ([], Map.empty) of [] \<Rightarrow> None | x # _ \<Rightarrow> Some (snd x))"
| "regex_search r (c # s) = (case rmatch r (c # s, Map.empty) of
       x # _ \<Rightarrow> Some (snd x)
     | [] \<Rightarrow> regex_search r s)"

text \<open>\<open>match[n]\<close> as a string; a group that took no part is empty.\<close>

definition cap :: "caps \<Rightarrow> nat \<Rightarrow> string" where
  "cap m n = (case m n of None \<Rightarrow> [] | Some s \<Rightarrow> s)"

section \<open>Numbers read back\<close>

lemma digit_char_is_digit: "d < 10 \<Longrightarrow> is_digit (digit_char d) \<and> of_char (digit_char d) = 48 + d"
  by (simp add: is_digit_def digit_char_def)

lemma digits_value_snoc: "digits_value (ds @ [c]) = digits_value ds * 10 + (of_char c - 48)"
  by (simp add: digits_value_def)

lemma show_nat_digits: "(\<forall>c \<in> set (show_nat n). is_digit c) \<and> digits_value (show_nat n) = n"
proof (induction n rule: show_nat.induct)
  case (1 n)
  show ?case
  proof (cases "n < 10")
    case True
    then show ?thesis using digit_char_is_digit [of n]
      by (simp add: show_nat.simps [of n] digits_value_def)
  next
    case False
    with 1 have IH: "\<forall>c \<in> set (show_nat (n div 10)). is_digit c"
      "digits_value (show_nat (n div 10)) = n div 10" by auto
    have d: "is_digit (digit_char (n mod 10))" "of_char (digit_char (n mod 10)) = 48 + n mod 10"
      using digit_char_is_digit [of "n mod 10"] by auto
    have eq: "show_nat n = show_nat (n div 10) @ [digit_char (n mod 10)]"
      using False by (subst show_nat.simps) simp
    show ?thesis unfolding eq digits_value_snoc IH(2) d(2)
      using IH(1) d(1) by auto
  qed
qed

lemma takeWhile_show:
  "(case t of [] \<Rightarrow> True | c # _ \<Rightarrow> \<not> is_digit c) \<Longrightarrow> takeWhile is_digit (show_nat n @ t) = show_nat n"
  using show_nat_digits [of n]
  by (simp add: takeWhile_append2) (cases t; simp)

lemma parse_signed_show:
  assumes "case t of [] \<Rightarrow> True | c # _ \<Rightarrow> \<not> is_digit c"
  shows "parse_signed (show_nat n @ t) = Inr (int n)"
proof -
  obtain c v where c: "show_nat n = c # v" by (cases "show_nat n") auto
  have d: "is_digit c" using show_nat_digits [of n] c by auto
  then have n: "\<not> is_space c" "c \<noteq> CHR ''-''" "c \<noteq> CHR ''+''"
    by (auto simp: is_digit_def is_space_def)
  have "takeWhile is_digit (c # v @ t) = c # v"
    using takeWhile_show [OF assms, of n] c by simp
  then show ?thesis using n c show_nat_digits [of n]
    by (simp add: parse_signed_def Let_def)
qed

lemma stoi_show:
  "n < 2 ^ 31 \<Longrightarrow> (case t of [] \<Rightarrow> True | c # _ \<Rightarrow> \<not> is_digit c) \<Longrightarrow>
   stoi (show_nat n @ t) = Inr (int n)"
  by (simp add: stoi_def parse_signed_show)

end
