(* ===== verification/TextReader.thy ===== *)
theory TextReader
  imports Opcode Regex
begin

text \<open>
  The text trace reader (\<open>readers/textreader.h\<close>, \<open>readers/textreader.cc\<close>): one line of a trace to one
  parsed instruction. The file is the list of its lines; the constructor drops the first one. A
  malformed line ends in \<open>output->fatal\<close>, in a failed assertion or in an exception of the standard
  library, as in the code.

  The lemmas show what operands and instructions of the trace format parse to.
\<close>

section \<open>Operands\<close>

definition u8 :: "int \<Rightarrow> nat" where "u8 x = nat (x mod 2 ^ 8)"
definition u16 :: "int \<Rightarrow> nat" where "u16 x = nat (x mod 2 ^ 16)"

text \<open>A 64-bit \<open>x - 1\<close> on positions is written \<open>(x + npos) mod 2 ^ 64\<close> below.\<close>

text \<open>The shared part of the \<open>r\<close> and \<open>s\<close> branches: cut at the bracket, blank the letter, read.\<close>

definition parse_reg :: "string \<Rightarrow> (int \<times> bool) res" where
  "parse_reg s =
    (let pos = find_char CHR ''['' s; dead = (pos \<noteq> npos) in
     bindr (if dead then substr s 0 pos else Inr s) (\<lambda>s.
     bindr (set_first CHR ''0'' s) (\<lambda>s. bindr (stoi s) (\<lambda>x. Inr (x, dead)))))"

definition parseValue :: "string \<Rightarrow> parsed_value res" where
  "parseValue s = bindr (char_at s 0) (\<lambda>c.
     if c = CHR ''r'' then bindr (parse_reg s) (\<lambda>(x, dead). Inr (ParsedVec (u16 x) dead))
     else if c = CHR ''s'' then bindr (parse_reg s) (\<lambda>(x, dead). Inr (ParsedScal (u16 x) dead))
     else if c = CHR ''B'' then
       bindr (set_first CHR ''0'' s) (\<lambda>s. bindr (stoi s) (\<lambda>x. Inr (ParsedBcu (u8 x) (Some 65535))))
     else if c = CHR ''b'' then
       (let lb = find_char CHR ''{'' s; rb = find_char CHR ''}'' s in
        if lb = npos then
          bindr (set_first CHR ''0'' s) (\<lambda>s. bindr (stoi s) (\<lambda>x. Inr (ParsedBcu (u8 x) (Some 65535))))
        else
          bindr (substr s 1 lb) (\<lambda>a. bindr (stoi a) (\<lambda>x.
          bindr (substr s (lb + 1) ((rb + npos) mod 2 ^ 64)) (\<lambda>b. bindr (stoi b) (\<lambda>y.
            Inr (ParsedBcu (u8 x) (Some (u16 y))))))))
     else Inl InvalidArgument)"

text \<open>A list of operands separated by a comma and one more character.\<close>

function parse_values :: "string \<Rightarrow> parsed_value list res" where
  "parse_values s =
     (case find_first_index (\<lambda>x. x = CHR '','') s of
        None \<Rightarrow> bindr (parseValue s) (\<lambda>v. Inr [v])
      | Some pos \<Rightarrow> bindr (parseValue (take pos s)) (\<lambda>v.
          bindr (parse_values (drop (pos + 2) s)) (\<lambda>vs. Inr (v # vs))))"
  by pat_completeness auto
termination
proof (relation "measure length")
  fix s :: string and pos :: nat and v :: parsed_value
  assume "find_first_index (\<lambda>x. x = CHR '','') s = Some pos"
  then have "pos < length s" using find_first_index_Some by blast
  then show "(drop (pos + 2) s, s) \<in> measure length" by simp
qed simp

declare parse_values.simps [simp del]

section \<open>The regular expressions\<close>

definition vreg_re :: re where
  "vreg_re = Seq (Chr CHR ''r'') (Plus DigitC)"

definition vregX_re :: "nat \<Rightarrow> re" where
  "vregX_re n = Seq vreg_re (Opt (Grp n (lit ''[X'' (Chr CHR '']''))))"

definition digits_re :: re where
  "digits_re = Plus DigitC"

definition rsi_regex :: re where
  "rsi_regex = lit ''{'' (Seq (Star (Grp 1 (Seq vreg_re (lit '','' (Chr CHR '' '')))))
     (Seq (Grp 2 vreg_re) (Chr CHR ''}'')))"

definition rsv_regex :: re where
  "rsv_regex = lit ''{'' (Seq (Grp 1 (Star Dot)) (lit ''}: '' (Seq (Grp 2 (vregX_re 3))
     (lit '': ['' (Seq (Grp 4 (Star Dot)) (lit ''] | '' (Grp 5 digits_re)))))))"

definition mod_regex :: re where
  "mod_regex = Seq (Grp 1 (vregX_re 2)) (lit '': {'' (Seq (Grp 3 (Star Dot))
     (lit ''} | '' (Grp 4 digits_re))))"

definition rcv_regex :: re where
  "rcv_regex = lit ''@ '' (Seq (Grp 1 digits_re) (lit '':'' (Seq (Grp 2 digits_re)
     (lit '' '' (Seq (Grp 3 (vregX_re 4)) (Chr CHR '':''))))))"

definition dis_regex :: re where
  "dis_regex = lit ''@ '' (Seq (Grp 1 digits_re) (lit '':'' (Seq (Grp 2 digits_re)
     (lit '' : '' (Grp 3 (vregX_re 4))))))"

definition joi_regex :: re where
  "joi_regex = lit ''@ '' (Seq (Grp 1 digits_re) (lit '':'' (Seq (Grp 2 digits_re)
     (lit '' '' (Seq (Opt (Grp 3 (vregX_re 4))) (lit '': '' (Seq (Opt (Grp 5 (vregX_re 6)))
     (lit '' | '' (Grp 7 digits_re)))))))))"

section \<open>Instructions with a grammar of their own\<close>

text \<open>\<open>match.size()\<close> is 3: the loop reads the two groups, whatever the number of registers.\<close>

definition handle_rsi :: "string \<Rightarrow> parsed_instr res" where
  "handle_rsi s = (case regex_search rsi_regex s of
       None \<Rightarrow> Inl FatalExit
     | Some m \<Rightarrow> bindr (parseValue (cap m 1)) (\<lambda>a. bindr (parseValue (cap m 2)) (\<lambda>b.
         Inr (parsed_plain Rsi (u16 (- 1)) [a, b] []))))"

definition handle_rsv :: "string \<Rightarrow> parsed_instr res" where
  "handle_rsv s = (case regex_search rsv_regex s of
       None \<Rightarrow> Inl FatalExit
     | Some m \<Rightarrow> bindr (parseValue (cap m 2)) (\<lambda>src. bindr (stoi (cap m 5)) (\<lambda>base.
         bindr (parse_values (cap m 1)) (\<lambda>dests.
         Inr (parsed_plain Rsv (u16 base) dests [src])))))"

definition handle_mod :: "string \<Rightarrow> parsed_instr res" where
  "handle_mod s = (case regex_search mod_regex s of
       None \<Rightarrow> Inl FatalExit
     | Some m \<Rightarrow> bindr (parseValue (cap m 1)) (\<lambda>dest. bindr (stoi (cap m 4)) (\<lambda>base.
         bindr (parse_values (cap m 3)) (\<lambda>srcs.
         Inr (parsed_plain Mod (u16 base) [dest] srcs)))))"

definition handle_rcv :: "string \<Rightarrow> parsed_instr res" where
  "handle_rcv s = (case regex_search rcv_regex s of
       None \<Rightarrow> Inl FatalExit
     | Some m \<Rightarrow> bindr (parseValue (cap m 3)) (\<lambda>dest. bindr (stoull (cap m 1)) (\<lambda>sid.
         bindr (stoull (cap m 2)) (\<lambda>sz.
         Inr (parsed_sync Rcv (u16 (- 1)) sid sz [dest] [])))))"

definition handle_dis :: "string \<Rightarrow> parsed_instr res" where
  "handle_dis s = (case regex_search dis_regex s of
       None \<Rightarrow> Inl FatalExit
     | Some m \<Rightarrow> bindr (parseValue (cap m 3)) (\<lambda>src. bindr (stoull (cap m 1)) (\<lambda>sid.
         bindr (stoull (cap m 2)) (\<lambda>sz.
         Inr (parsed_sync Dis (u16 (- 1)) sid sz [] [src])))))"

definition handle_joi :: "string \<Rightarrow> parsed_instr res" where
  "handle_joi s = (case regex_search joi_regex s of
       None \<Rightarrow> Inl FatalExit
     | Some m \<Rightarrow> bindr (stoull (cap m 1)) (\<lambda>sid. bindr (stoull (cap m 2)) (\<lambda>sz.
         bindr (if cap m 3 \<noteq> [] then bindr (parseValue (cap m 3)) (\<lambda>v. Inr [v]) else Inr [])
           (\<lambda>dests. bindr (stoi (cap m 7)) (\<lambda>base.
         bindr (if cap m 5 \<noteq> [] then bindr (parseValue (cap m 5)) (\<lambda>v. Inr [v]) else Inr [])
           (\<lambda>srcs. Inr (parsed_sync Joi (u16 base) sid sz dests srcs)))))))"

section \<open>The common grammar\<close>

fun comma_count :: "nat \<Rightarrow> string \<Rightarrow> nat" where
  "comma_count 0 s = 0"
| "comma_count (Suc n) s = (case find_first_index (\<lambda>x. x = CHR '','') s of
       None \<Rightarrow> 0 | Some pos \<Rightarrow> Suc (comma_count n (drop (pos + 2) s)))"

text \<open>
  The number of bases in a bracketed list, a \<open>uint8_t\<close>: one more than the separators. Every step
  of the loop removes a character, so the length of the string bounds the steps.
\<close>

definition count_bases :: "string \<Rightarrow> nat" where
  "count_bases s = (comma_count (length s) s + 1) mod 2 ^ 8"

definition parse_bci :: "int option \<Rightarrow> int \<Rightarrow> string \<Rightarrow> string \<Rightarrow> parsed_instr res" where
  "parse_bci rot base dests_str line =
     bindr (set_first CHR ''0'' dests_str) (\<lambda>dests_str.
     let lb = find_char CHR ''['' line; rb = find_char CHR '']'' line in
     bindr (substr line ((lb + 1) mod 2 ^ 64) ((rb + npos) mod 2 ^ 64)) (\<lambda>outs.
     bindr (erase line 0 ((rb + 1) mod 2 ^ 64)) (\<lambda>line.
     let lb = find_char CHR ''['' line; rb = find_char CHR '']'' line in
     bindr (substr line ((lb + 1) mod 2 ^ 64) ((rb + npos) mod 2 ^ 64)) (\<lambda>ins.
     bindr (stoi dests_str) (\<lambda>x.
       Inr (parsed_rot Bci rot (u16 base)
              [ParsedBcuInit (u8 x) (count_bases ins) (count_bases outs)] []))))))"

definition mem_opcode :: "string \<Rightarrow> opcode option" where
  "mem_opcode op = map_of [(''load'', LoadV), (''loas'', LoadS), (''store'', Store),
     (''spill'', Spill), (''evg'', EvkGen)] op"

definition alu_opcode :: "string \<Rightarrow> opcode option" where
  "alu_opcode op = map_of [(''add'', Add), (''ads'', Add), (''sub'', Sub), (''sus'', Sub),
     (''neg'', Neg), (''mul'', Mul), (''mup'', Mul), (''mus'', Mul), (''int'', IntOp), (''ntt'', Ntt),
     (''sud'', SuD), (''bcw'', BcW), (''pl1'', Pl1), (''rot'', Rot), (''mov'', Mov), (''con'', Con)] op"

definition parse_mem :: "opcode \<Rightarrow> int option \<Rightarrow> int \<Rightarrow> string \<Rightarrow> string \<Rightarrow> parsed_instr res" where
  "parse_mem op rot base dests_str srcs_str =
     guardr (find_char CHR '','' dests_str = npos) FatalExit (
     guardr (find_char CHR '','' srcs_str = npos) FatalExit (
     bindr (if op = LoadS then
              bindr (char_at dests_str 0) (\<lambda>c. guardr (c = CHR ''s'') FatalExit (
              bindr (char_at srcs_str 0) (\<lambda>c. guardr (c = CHR ''s'') FatalExit (Inr ()))))
            else bindr (char_at dests_str 0) (\<lambda>c. guardr (c = CHR ''r'') FatalExit (Inr ())))
       (\<lambda>_. bindr (parseValue dests_str) (\<lambda>dest.
     let pos = find_sub ''{F}'' srcs_str; free = (pos \<noteq> npos) in
     bindr (if free then substr srcs_str 0 pos else Inr srcs_str) (\<lambda>term.
       Inr (parsed_rot op rot (u16 base) [dest] [ParsedTerm term free]))))))"

definition parse_alu :: "opcode \<Rightarrow> int option \<Rightarrow> int \<Rightarrow> string \<Rightarrow> string \<Rightarrow> parsed_instr res" where
  "parse_alu op rot base dests_str srcs_str =
     bindr (parse_values dests_str) (\<lambda>dests. bindr (parse_values srcs_str) (\<lambda>srcs.
       Inr (parsed_rot op rot (u16 base) dests srcs)))"

text \<open>What follows the opcode and the rotation index: the base index, the operands.\<close>

definition parse_common :: "string \<Rightarrow> int option \<Rightarrow> string \<Rightarrow> parsed_instr res" where
  "parse_common op rot line =
    (let pos = find_char CHR ''|'' line in
     bindr (if pos \<noteq> npos then
              bindr (substr line (pos + 1) npos) (\<lambda>b. bindr (stoi b) (\<lambda>base.
              bindr (erase line ((pos + npos) mod 2 ^ 64) npos) (\<lambda>line. Inr (base, line))))
            else Inr (- 1, line)) (\<lambda>(base, line).
     let pos = find_char CHR '':'' line in
     guardr (pos \<noteq> npos) AssertFail (
     bindr (substr line 0 pos) (\<lambda>dests_str.
     bindr (erase line 0 (pos + 2)) (\<lambda>line.
     if op = ''bci'' then parse_bci rot base dests_str line
     else case mem_opcode op of
         Some opc \<Rightarrow> parse_mem opc rot base dests_str line
       | None \<Rightarrow> bindr (the_res InvalidArgument (alu_opcode op)) (\<lambda>opc.
           parse_alu opc rot base dests_str line))))))"

definition parse_line :: "string \<Rightarrow> parsed_instr res" where
  "parse_line line =
    (let pos = find_char CHR '' '' line in
     guardr (pos \<noteq> npos) AssertFail (
     bindr (substr line 0 pos) (\<lambda>op.
     bindr (erase line 0 (pos + 1)) (\<lambda>line.
     bindr (if op = ''rot'' then
              (let pos = find_char CHR '' '' line in
               guardr (pos \<noteq> npos) AssertFail (
               bindr (substr line 0 pos) (\<lambda>k. bindr (stoi k) (\<lambda>rot.
               bindr (erase line 0 (pos + 1)) (\<lambda>line. Inr (Some rot, line))))))
            else Inr (None, line)) (\<lambda>(rot, line).
     if op = ''rsi'' then handle_rsi line
     else if op = ''rsv'' then handle_rsv line
     else if op = ''mod'' then handle_mod line
     else if op = ''rcv'' then handle_rcv line
     else if op = ''dis'' then handle_dis line
     else if op = ''joi'' then handle_joi line
     else parse_common op rot line)))))"

text \<open>The reader is the lines not yet read.\<close>

definition open_trace :: "string list \<Rightarrow> string list" where
  "open_trace lines = drop 1 lines"

definition readNextInstruction :: "string list \<Rightarrow> (parsed_instr option \<times> string list) res" where
  "readNextInstruction lines = (case lines of
       [] \<Rightarrow> Inr (None, [])
     | line # rest \<Rightarrow> bindr (parse_line line) (\<lambda>i. Inr (Some i, rest)))"

section \<open>Facts\<close>

lemma find_first_index_append:
  "find_index_from n p (xs @ ys) = (case find_index_from n p xs of
     Some k \<Rightarrow> Some k | None \<Rightarrow> find_index_from (n + length xs) p ys)"
  by (induction n p xs rule: find_index_from.induct) (simp_all split: option.split)

lemma find_char_None: "c \<notin> set s \<Longrightarrow> find_char c s = npos"
proof -
  assume "c \<notin> set s"
  then have "find_first_index (\<lambda>x. x = c) s = None" by (auto simp: find_index_from_None)
  then show ?thesis by (simp add: find_char_def)
qed

lemma find_char_append: "c \<notin> set s \<Longrightarrow> find_char c (s @ c # t) = length s"
proof -
  assume "c \<notin> set s"
  then have "find_first_index (\<lambda>x. x = c) s = None" by (auto simp: find_index_from_None)
  then show ?thesis by (simp add: find_char_def find_first_index_append)
qed

lemma show_nat_chars: "c \<in> set (show_nat n) \<Longrightarrow> is_digit c"
  using show_nat_digits by blast

lemma show_nat_no: "\<not> is_digit c \<Longrightarrow> c \<notin> set (show_nat n)"
  using show_nat_chars by blast

lemma digits_value_zero: "digits_value (CHR ''0'' # ds) = digits_value ds"
  by (simp add: digits_value_def)

lemma stoi_zero_show: "n < 2 ^ 31 \<Longrightarrow> stoi (CHR ''0'' # show_nat n) = Inr (int n)"
proof -
  assume n: "n < 2 ^ 31"
  have "takeWhile is_digit (CHR ''0'' # show_nat n) = CHR ''0'' # show_nat n"
    using show_nat_digits [of n] by (simp add: is_digit_def takeWhile_eq_all_conv)
  then show ?thesis using n show_nat_digits [of n]
    by (simp add: stoi_def parse_signed_def Let_def is_space_def digits_value_zero)
qed

text \<open>
  An operand as the compiler prints it: a vector or a scalar register with its mark, a base
  conversion unit, or a register of one.
\<close>

fun show_value :: "parsed_value \<Rightarrow> string" where
  "show_value (ParsedVec n dead) = CHR ''r'' # show_nat n @ (if dead then ''[X]'' else '''')"
| "show_value (ParsedScal n dead) = CHR ''s'' # show_nat n @ (if dead then ''[X]'' else '''')"
| "show_value (ParsedBcu u r) = (case r of
       None \<Rightarrow> ''''
     | Some b \<Rightarrow> if b = 65535 then CHR ''B'' # show_nat u
         else CHR ''b'' # show_nat u @ CHR ''{'' # show_nat b @ ''}'')"
| "show_value _ = ''''"

fun printable :: "parsed_value \<Rightarrow> bool" where
  "printable (ParsedVec n dead) = (n < 2 ^ 16)"
| "printable (ParsedScal n dead) = (n < 2 ^ 16)"
| "printable (ParsedBcu u r) = (u < 2 ^ 8 \<and> (case r of None \<Rightarrow> False | Some b \<Rightarrow> b < 2 ^ 16))"
| "printable _ = False"

lemma length_show_nat: "length (show_nat n) \<le> n + 1"
proof (induction n rule: show_nat.induct)
  case (1 n)
  show ?case
  proof (cases "n < 10")
    case False
    with 1 have "length (show_nat (n div 10)) \<le> n div 10 + 1" by simp
    moreover have "length (show_nat n) = Suc (length (show_nat (n div 10)))"
      using False by (subst show_nat.simps) simp
    ultimately show ?thesis using False by simp
  qed (simp add: show_nat.simps)
qed

lemma parse_reg_show:
  assumes "n < 2 ^ 16" "c \<noteq> CHR ''[''"
  shows "parse_reg (c # show_nat n @ (if dead then ''[X]'' else '''')) = Inr (int n, dead)"
proof -
  have no: "CHR ''['' \<notin> set (show_nat n)" by (rule show_nat_no) (simp add: is_digit_def)
  have "find_char CHR ''['' ((c # show_nat n) @ CHR ''['' # ''X]'') = length (c # show_nat n)"
    using no assms(2) by (intro find_char_append) auto
  moreover have "find_char CHR ''['' (c # show_nat n) = npos"
    using no assms(2) by (intro find_char_None) auto
  moreover have "length (show_nat n) < 2 ^ 17" using length_show_nat [of n] assms(1) by simp
  ultimately show ?thesis using assms(1) stoi_zero_show [of n]
    by (cases dead) (simp_all add: parse_reg_def Let_def substr_def set_first_def npos_def)
qed

lemma parse_bcu_register:
  assumes "u < 2 ^ 8" "b < 2 ^ 16"
  shows "parseValue (CHR ''b'' # show_nat u @ CHR ''{'' # show_nat b @ ''}'') = Inr (ParsedBcu u (Some b))"
proof -
  let ?s = "CHR ''b'' # show_nat u @ CHR ''{'' # show_nat b @ ''}''"
  have no: "c \<notin> set (show_nat n)" if "c \<in> {CHR ''{'', CHR ''}''}" for c n
    using that by (intro show_nat_no) (auto simp: is_digit_def)
  have lb: "find_char CHR ''{'' ?s = Suc (length (show_nat u))"
    using find_char_append [of "CHR ''{''" "CHR ''b'' # show_nat u" "show_nat b @ ''}''"] no by simp
  have rb: "find_char CHR ''}'' ?s = length (show_nat u) + length (show_nat b) + 2"
    using find_char_append [of "CHR ''}''" "CHR ''b'' # show_nat u @ CHR ''{'' # show_nat b" "''''"] no
    by simp
  have len: "length (show_nat u) < 2 ^ 17" "length (show_nat b) < 2 ^ 17"
    using length_show_nat [of u] length_show_nat [of b] assms by simp_all
  have a: "substr ?s 1 (Suc (length (show_nat u))) = Inr (show_nat u @ ''{'')"
    by (simp add: substr_def)
  have w: "(length (show_nat u) + length (show_nat b) + 2 + npos) mod 2 ^ 64 =
      Suc (length (show_nat u) + length (show_nat b))"
    using len by (simp add: npos_def mod_if)
  have c: "substr ?s (Suc (length (show_nat u)) + 1) (Suc (length (show_nat u) + length (show_nat b))) =
      Inr (show_nat b @ ''}'')"
    by (simp add: substr_def)
  have stop: "stoi (show_nat u @ ''{'') = Inr (int u)" "stoi (show_nat b @ ''}'') = Inr (int b)"
    using assms by (simp_all add: stoi_show is_digit_def)
  have np: "Suc (length (show_nat u)) \<noteq> npos" using len by (simp add: npos_def)
  have u: "u8 (int u) = u" "u16 (int b) = b" using assms by (simp_all add: u8_def u16_def)
  have "parseValue ?s = bindr (substr ?s 1 (Suc (length (show_nat u)))) (\<lambda>a. bindr (stoi a) (\<lambda>x.
      bindr (substr ?s (Suc (length (show_nat u)) + 1) (Suc (length (show_nat u) + length (show_nat b)))) (\<lambda>b.
      bindr (stoi b) (\<lambda>y. Inr (ParsedBcu (u8 x) (Some (u16 y)))))))"
    unfolding parseValue_def Let_def lb rb w using np by (simp add: char_at_def atr_def)
  then show ?thesis unfolding a c by (simp add: stop u)
qed

lemma parseValue_show:
  assumes "printable v"
  shows "parseValue (show_value v) = Inr v"
proof (cases v)
  case (ParsedVec n dead)
  then show ?thesis using assms parse_reg_show [of n "CHR ''r''" dead]
    by (simp add: parseValue_def char_at_def atr_def u16_def)
next
  case (ParsedScal n dead)
  then show ?thesis using assms parse_reg_show [of n "CHR ''s''" dead]
    by (simp add: parseValue_def char_at_def atr_def u16_def)
next
  case (ParsedBcu u r)
  then obtain b where r: "r = Some b" "u < 2 ^ 8" "b < 2 ^ 16" using assms by (cases r) auto
  show ?thesis
  proof (cases "b = 65535")
    case True
    then show ?thesis using r stoi_zero_show [of u]
      by (simp add: ParsedBcu parseValue_def char_at_def atr_def set_first_def u8_def)
  next
    case False
    then show ?thesis using r parse_bcu_register by (simp add: ParsedBcu)
  qed
qed (use assms in simp_all)

text \<open>A list of operands.\<close>

fun show_values :: "parsed_value list \<Rightarrow> string" where
  "show_values [] = ''''"
| "show_values [x] = show_value x"
| "show_values (x # xs) = show_value x @ '', '' @ show_values xs"

definition value_chars :: "char set" where
  "value_chars = {c. is_digit c} \<union> set ''rsBb{}[X]''"

lemma set_show_value: "set (show_value v) \<subseteq> value_chars"
proof -
  have "set (show_nat n) \<subseteq> value_chars" for n using show_nat_chars by (auto simp: value_chars_def)
  moreover have "set ''rsBb{}[X]'' \<subseteq> value_chars" by (auto simp: value_chars_def)
  ultimately show ?thesis by (cases v) (auto split: option.splits)
qed

lemma set_show_values: "set (show_values xs) \<subseteq> value_chars \<union> {CHR '','', CHR '' ''}"
  by (induction xs rule: show_values.induct) (use set_show_value in \<open>fastforce+\<close>)

lemma comma_free: "CHR '','' \<notin> set (show_value v)"
  using set_show_value [of v] by (auto simp: value_chars_def is_digit_def)

lemma first_comma: "find_first_index (\<lambda>x. x = CHR '','') (show_value v @ CHR '','' # t) =
    Some (length (show_value v))"
  and no_comma: "find_first_index (\<lambda>x. x = CHR '','') (show_value v) = None"
proof -
  show no: "find_first_index (\<lambda>x. x = CHR '','') (show_value v) = None"
    using comma_free [of v] by (auto simp: find_index_from_None)
  show "find_first_index (\<lambda>x. x = CHR '','') (show_value v @ CHR '','' # t) =
      Some (length (show_value v))"
    by (simp add: find_first_index_append no)
qed

lemma parse_values_show:
  "xs \<noteq> [] \<Longrightarrow> list_all printable xs \<Longrightarrow> parse_values (show_values xs) = Inr xs"
proof (induction xs rule: show_values.induct)
  case (2 x)
  then show ?case using parseValue_show by (subst parse_values.simps) (simp add: no_comma)
next
  case (3 x y xs)
  then show ?case using parseValue_show
    by (subst parse_values.simps) (simp add: first_comma)
qed simp

section \<open>A whole line\<close>

text \<open>
  The line of an arithmetic instruction: the mnemonic, for a rotation its index, the destinations,
  the sources and the base.
\<close>

definition show_rot :: "int option \<Rightarrow> string" where
  "show_rot rot = (case rot of None \<Rightarrow> '''' | Some k \<Rightarrow> show_int k @ '' '')"

definition show_alu :: "string \<Rightarrow> int option \<Rightarrow> parsed_value list \<Rightarrow> parsed_value list \<Rightarrow> nat \<Rightarrow> string" where
  "show_alu op rot dests srcs base =
     op @ '' '' @ show_rot rot @ show_values dests @ '': '' @ show_values srcs @ '' | '' @ show_nat base"

text \<open>A rotation has an index, a signed 32-bit number; the other instructions have none.\<close>

definition rot_ok :: "string \<Rightarrow> int option \<Rightarrow> bool" where
  "rot_ok op rot \<longleftrightarrow> (case rot of None \<Rightarrow> op \<noteq> ''rot''
     | Some k \<Rightarrow> op = ''rot'' \<and> - (2 ^ 31) \<le> k \<and> k < 2 ^ 31)"

lemma stoi_show_int:
  assumes "- (2 ^ 31) \<le> k" "k < 2 ^ 31"
  shows "stoi (show_int k) = Inr k"
proof (cases "k < 0")
  case True
  let ?n = "nat (- k)"
  have d: "takeWhile is_digit (show_nat ?n) = show_nat ?n" using takeWhile_show [of "''''" ?n] by simp
  show ?thesis using True assms show_nat_digits [of ?n]
    by (simp add: show_int_def stoi_def parse_signed_def Let_def is_space_def d)
next
  case False
  then show ?thesis using assms stoi_show [of "nat k" "''''"] by (simp add: show_int_def)
qed

lemma stoi_space_show: "n < 2 ^ 31 \<Longrightarrow> stoi (CHR '' '' # show_nat n) = Inr (int n)"
  using stoi_show [of n "[]"] by (simp add: stoi_def parse_signed_def is_space_def)

lemma alu_opcode_chars:
  "alu_opcode op = Some opc \<Longrightarrow> CHR '' '' \<notin> set op \<and> length op = 3 \<and>
   op \<notin> set [''rsi'', ''rsv'', ''mod'', ''rcv'', ''dis'', ''joi'', ''bci''] \<and> mem_opcode op = None"
  by (auto simp: alu_opcode_def mem_opcode_def split: if_splits)

lemma substr_prefix: "substr (xs @ ys) 0 (length xs) = Inr xs"
  by (simp add: substr_def)

lemma erase_prefix: "n = length xs \<Longrightarrow> erase (xs @ ys) 0 n = Inr ys"
  by (simp add: erase_def)

lemma substr_suffix: "n = length xs \<Longrightarrow> length ys \<le> m \<Longrightarrow> substr (xs @ ys) n m = Inr ys"
  by (simp add: substr_def)

lemma erase_suffix: "n = length xs \<Longrightarrow> length ys \<le> m \<Longrightarrow> erase (xs @ ys) n m = Inr xs"
  by (simp add: erase_def)

lemma parse_common_alu:
  assumes op: "alu_opcode op = Some opc" and ds: "ds \<noteq> []" "list_all printable ds"
    and ss: "ss \<noteq> []" "list_all printable ss" and b: "base < 2 ^ 16"
    and len: "length (show_values ds @ '': '' @ show_values ss @ '' | '' @ show_nat base) < npos"
  shows "parse_common op rot (show_values ds @ '': '' @ show_values ss @ '' | '' @ show_nat base) =
    Inr (parsed_rot opc rot base ds ss)"
proof -
  let ?d = "show_values ds" and ?s = "show_values ss"
  let ?front = "?d @ '': '' @ ?s @ '' ''"
  have bar: "CHR ''|'' \<notin> set ?front"
    using set_show_values [of ds] set_show_values [of ss] by (auto simp: value_chars_def is_digit_def)
  have colon: "CHR '':'' \<notin> set ?d"
    using set_show_values [of ds] by (auto simp: value_chars_def is_digit_def)
  have eq: "?d @ '': '' @ ?s @ '' | '' @ show_nat base = ?front @ CHR ''|'' # '' '' @ show_nat base"
    by simp
  have p1: "find_char CHR ''|'' (?front @ CHR ''|'' # '' '' @ show_nat base) = length ?front"
    by (rule find_char_append [OF bar])
  have p2: "find_char CHR '':'' (?d @ CHR '':'' # '' '' @ ?s) = length ?d"
    by (rule find_char_append [OF colon])
  have l: "length ?front < npos" "length ?d < npos" "length (show_nat base) < npos" using len by auto
  have wrap: "(length ?front + npos) mod 2 ^ 64 = length (?d @ '': '' @ ?s)"
    using l(1) by (simp add: npos_def mod_if)
  have s1: "substr (?front @ CHR ''|'' # '' '' @ show_nat base) (length ?front + 1) npos =
      Inr ('' '' @ show_nat base)"
    using len substr_suffix [of "length ?front + 1" "?front @ ''|''" "'' '' @ show_nat base" npos]
    by simp
  have s2: "erase (?front @ CHR ''|'' # '' '' @ show_nat base) (length (?d @ '': '' @ ?s)) npos =
      Inr (?d @ '': '' @ ?s)"
    using len erase_suffix [of "length (?d @ '': '' @ ?s)" "?d @ '': '' @ ?s"
        "'' | '' @ show_nat base" npos] by simp
  have st: "stoi ('' '' @ show_nat base) = Inr (int base)" using stoi_space_show b by simp
  have s3: "substr (?d @ '': '' @ ?s) 0 (length ?d) = Inr ?d" by (rule substr_prefix)
  have s4: "erase (?d @ '': '' @ ?s) 0 (length ?d + 2) = Inr ?s"
    using erase_prefix [of "length ?d + 2" "?d @ '': ''" ?s] by simp
  note chars = alu_opcode_chars [OF op]
  have bu: "u16 (int base) = base" using b by (simp add: u16_def)
  show ?thesis
    unfolding parse_common_def Let_def eq p1 wrap s1 s2 bindr_simps st
    using l chars op p2 s3 s4 bu parse_values_show [OF ds] parse_values_show [OF ss]
    by (simp add: parse_alu_def)
qed

lemma parse_line_alu:
  assumes "alu_opcode op = Some opc" "rot_ok op rot" "ds \<noteq> []" "list_all printable ds"
    and "ss \<noteq> []" "list_all printable ss" "base < 2 ^ 16"
    and len: "length (show_alu op rot ds ss base) < npos"
  shows "parse_line (show_alu op rot ds ss base) = Inr (parsed_rot opc rot base ds ss)"
proof -
  let ?rest = "show_values ds @ '': '' @ show_values ss @ '' | '' @ show_nat base"
  let ?all = "show_rot rot @ ?rest"
  note chars = alu_opcode_chars [OF assms(1)]
  have eq: "show_alu op rot ds ss base = op @ CHR '' '' # ?all" by (simp add: show_alu_def)
  have p: "find_char CHR '' '' (op @ CHR '' '' # ?all) = length op"
    using chars by (intro find_char_append) auto
  have e: "erase (op @ CHR '' '' # ?all) 0 (length op + 1) = Inr ?all"
    using erase_prefix [of "length op + 1" "op @ '' ''" ?all] by simp
  have l: "length op \<noteq> npos" using chars by (simp add: npos_def)
  have pc: "parse_common op rot ?rest = Inr (parsed_rot opc rot base ds ss)"
    using assms len by (intro parse_common_alu) (auto simp: show_alu_def)
  show ?thesis
  proof (cases rot)
    case None
    then have n: "op \<noteq> ''rot''" "show_rot rot = ''''" using assms(2) by (simp_all add: rot_ok_def show_rot_def)
    show ?thesis
      unfolding parse_line_def Let_def eq p substr_prefix bindr_simps e
      unfolding n(2) append.simps(1)
      using l chars pc None n(1) by (simp del: append.simps)
  next
    case (Some k)
    then have k: "op = ''rot''" "stoi (show_int k) = Inr k"
      using assms(2) stoi_show_int by (simp_all add: rot_ok_def)
    have all: "?all = show_int k @ CHR '' '' # ?rest" by (simp add: Some show_rot_def)
    have sp: "CHR '' '' \<notin> set (show_int k)"
      using show_nat_no [of "CHR '' ''"] by (simp add: show_int_def is_digit_def)
    have p2: "find_char CHR '' '' (show_int k @ CHR '' '' # ?rest) = length (show_int k)"
      by (rule find_char_append [OF sp])
    have e2: "erase (show_int k @ CHR '' '' # ?rest) 0 (length (show_int k) + 1) = Inr ?rest"
      using erase_prefix [of "length (show_int k) + 1" "show_int k @ '' ''" ?rest] by simp
    have l2: "length (show_int k) \<noteq> npos" using len unfolding eq all by simp
    show ?thesis
      unfolding parse_line_def Let_def eq p substr_prefix bindr_simps e
      unfolding all p2 substr_prefix bindr_simps e2
      using l l2 k chars pc Some by (simp del: append.simps)
  qed
qed

end
