(* ===== verification/Chip.thy ===== *)
theory Chip
  imports Queues MemoryUnit DisQueue Rename TextReader
begin

text \<open>
  A chip (\<open>chip.h\<close>, \<open>chip.cc\<close>): it fetches parsed instructions from its trace reader, renames their
  registers, dispatches them to the queues or to the memory unit, and runs the queues, the
  functional units, the base conversion units and the memory unit once per cycle.

  \<open>V\<close> is the global \<open>VEC_DEPTH\<close> and \<open>lat\<close> the accelerator's latencies. The chip's functional units
  are one list; \<open>unit_table\<close> has the indices each queue may use.
\<close>

section \<open>State\<close>

record unit_table =
  ut_add :: "nat list"
  ut_mul :: "nat list"
  ut_bcw :: "nat list"
  ut_bcr :: "nat list"
  ut_ntt :: "nat list"
  ut_tra :: "nat list"
  ut_rot :: "nat list"
  ut_evg :: "nat list"
  ut_rsv :: "nat list"
  ut_mod :: "nat list"

record queues =
  q_add :: "instr list"
  q_mul :: "instr list"
  q_rot :: "instr list"
  q_evg :: "instr list"
  q_ntt :: "instr list"
  q_sud :: "instr list"
  q_bci :: "instr list"
  q_bcw :: "instr list"
  q_pl1 :: "instr list"
  q_rsv :: "instr list"
  q_mod :: "instr list"

record chip =
  ch_id :: nat
  ch_sched :: sched
  ch_units :: unit_table
  ch_queues :: queues
  ch_mem :: mem_unit
  ch_dis :: dis_queue
  ch_fetched :: "parsed_instr option"
  ch_reader :: "string list"
  ch_terms :: "string \<Rightarrow> nat option"
  ch_numTerms :: nat
  ch_usePRNG :: bool
  ch_numInstructions :: nat
  ch_window :: nat

text \<open>The parameters the constructor reads, with their defaults.\<close>

record chip_params =
  cp_vectorRegs :: nat
  cp_add :: nat
  cp_mul :: nat
  cp_ntt :: nat
  cp_rot :: nat
  cp_tra :: nat
  cp_bcu :: nat
  cp_bcuBuffs :: nat
  cp_evg :: nat
  cp_usePRNG :: bool
  cp_requestWidth :: nat

definition default_params :: chip_params where
  "default_params = \<lparr>cp_vectorRegs = 1024, cp_add = 5, cp_mul = 5, cp_ntt = 2, cp_rot = 1,
     cp_tra = 2, cp_bcu = 2, cp_bcuBuffs = 2, cp_evg = 1, cp_usePRNG = True,
     cp_requestWidth = 1024\<rparr>"

definition numScalarRegs :: nat where "numScalarRegs = 64"
definition numBcuVRegs :: nat where "numBcuVRegs = 64"

section \<open>Construction\<close>

text \<open>The units in the order they are pushed, and the indices that order gives them.\<close>

definition mk_units :: "nat \<Rightarrow> latencies \<Rightarrow> chip_params \<Rightarrow> fu list" where
  "mk_units V lat p =
     replicate (cp_add p) (mk_fu (lat_Add lat) V) @
     replicate (cp_mul p) (mk_fu (lat_Mul lat) V) @
     replicate (cp_bcuBuffs p) (mk_fu (lat_Bcu_write lat) V) @
     replicate (cp_bcu p) (mk_fu (lat_Bcu_read lat) (V * 2)) @
     replicate (cp_ntt p) (mk_fu (lat_NTT lat) V) @
     replicate (cp_tra p) (mk_fu (lat_Transpose lat) V) @
     replicate (cp_rot p) (mk_fu (lat_Rot lat) V) @
     replicate (cp_evg p) (mk_fu (lat_Evg lat) V) @
     replicate 1 (mk_fu (lat_Rsv lat) (V * 16)) @
     replicate 1 (mk_fu (lat_Mod lat) (V * 16))"

definition mk_unit_table :: "chip_params \<Rightarrow> unit_table" where
  "mk_unit_table p =
    (let m = cp_add p; w = m + cp_mul p; r = w + cp_bcuBuffs p; n = r + cp_bcu p;
         t = n + cp_ntt p; o' = t + cp_tra p; e = o' + cp_rot p; s = e + cp_evg p
     in \<lparr>ut_add = [0..<m], ut_mul = [m..<w], ut_bcw = [w..<r], ut_bcr = [r..<n], ut_ntt = [n..<t],
         ut_tra = [t..<o'], ut_rot = [o'..<e], ut_evg = [e..<s], ut_rsv = [s..<s + 1],
         ut_mod = [s + 1..<s + 2]\<rparr>)"

definition mk_regfile :: "chip_params \<Rightarrow> regfile" where
  "mk_regfile p =
     \<lparr>rf_v = map (new_phys_reg Vector) [0..<cp_vectorRegs p],
      rf_s = map (new_phys_reg Scalar) [0..<numScalarRegs], rf_f = [],
      rf_b = map new_bc_reg [0..<numBcuVRegs],
      rf_freeV = [0..<cp_vectorRegs p], rf_freeS = [0..<numScalarRegs],
      rf_freeB = [0..<numBcuVRegs],
      rf_vmap = Map.empty, rf_smap = Map.empty, rf_bmap = Map.empty, rf_reads = 0, rf_writes = 0\<rparr>"

definition mk_chip :: "nat \<Rightarrow> latencies \<Rightarrow> chip_params \<Rightarrow> nat \<Rightarrow> string list \<Rightarrow> chip" where
  "mk_chip V lat p cid trace =
     \<lparr>ch_id = cid,
      ch_sched = \<lparr>sc_fus = mk_units V lat p,
        sc_bcus = map (\<lambda>i. mk_bcu i (lat_Bcu_read lat)) [0..<cp_bcuBuffs p],
        sc_rf = mk_regfile p\<rparr>,
      ch_units = mk_unit_table p,
      ch_queues = \<lparr>q_add = [], q_mul = [], q_rot = [], q_evg = [], q_ntt = [], q_sud = [],
        q_bci = [], q_bcw = [], q_pl1 = [], q_rsv = [], q_mod = []\<rparr>,
      ch_mem = mk_mem_unit (cp_requestWidth p), ch_dis = mk_dis_queue, ch_fetched = None,
      ch_reader = open_trace trace, ch_terms = Map.empty, ch_numTerms = 0,
      ch_usePRNG = cp_usePRNG p, ch_numInstructions = 0, ch_window = 0\<rparr>"

section \<open>Dispatch\<close>

abbreviation ch_rf :: "chip \<Rightarrow> regfile" where
  "ch_rf c \<equiv> sc_rf (ch_sched c)"

definition set_rf :: "regfile \<Rightarrow> chip \<Rightarrow> chip" where
  "set_rf rf c = c\<lparr>ch_sched := (ch_sched c)\<lparr>sc_rf := rf\<rparr>\<rparr>"

definition set_q :: "(queues \<Rightarrow> queues) \<Rightarrow> chip \<Rightarrow> chip" where
  "set_q f c = c\<lparr>ch_queues := f (ch_queues c)\<rparr>"

text \<open>\<open>dispatchBinOpInstruction\<close>: a stall returns false before anything is changed.\<close>

definition dispatchBinOp :: "parsed_instr \<Rightarrow> chip \<Rightarrow> (bool \<times> chip) res" where
  "dispatchBinOp p c =
     guardr (length (pi_dests p) = 1) AssertFail (
     if canMapToPhysicalRegister (ch_rf c) (pi_dests p ! 0) = False then Inr (False, c)
     else guardr (length (pi_srcs p) = 2) AssertFail (
     bindr (take_dest (pi_dests p ! 0) (ch_rf c)) (\<lambda>(d, rf).
     bindr (take_src (pi_srcs p ! 0) rf) (\<lambda>(s1, rf).
     bindr (take_src (pi_srcs p ! 1) rf) (\<lambda>(s2, rf).
     bindr (mk_BinOp (pi_op p) d s1 s2 (pi_base p)) (\<lambda>i.
     let c = set_rf rf c in
     case pi_op p of
       Mul \<Rightarrow> bindr (MulQueue_add i (q_mul (ch_queues c))) (\<lambda>q. Inr (True, set_q (q_mul_update (\<lambda>_. q)) c))
     | Add \<Rightarrow> bindr (AddQueue_add i (q_add (ch_queues c))) (\<lambda>q. Inr (True, set_q (q_add_update (\<lambda>_. q)) c))
     | Sub \<Rightarrow> bindr (AddQueue_add i (q_add (ch_queues c))) (\<lambda>q. Inr (True, set_q (q_add_update (\<lambda>_. q)) c))
     | _ \<Rightarrow> Inr (True, c)))))))"

definition dispatchUnOp :: "parsed_instr \<Rightarrow> chip \<Rightarrow> (bool \<times> chip) res" where
  "dispatchUnOp p c =
     guardr (length (pi_dests p) = 1) AssertFail (
     if canMapToPhysicalRegister (ch_rf c) (pi_dests p ! 0) = False then Inr (False, c)
     else guardr (length (pi_srcs p) = 1) AssertFail (
     bindr (take_dest (pi_dests p ! 0) (ch_rf c)) (\<lambda>(d, rf).
     bindr (take_src (pi_srcs p ! 0) rf) (\<lambda>(s1, rf).
     bindr (if pi_op p = Rot then
              bindr (the_res BadOptional (pi_rot p)) (\<lambda>k. mk_UnOp_rot (pi_op p) k d s1 (pi_base p))
            else mk_UnOp (pi_op p) d s1 (pi_base p)) (\<lambda>i.
     let c = set_rf rf c in
     case pi_op p of
       IntOp \<Rightarrow> bindr (NttQueue_add i (q_ntt (ch_queues c))) (\<lambda>q. Inr (True, set_q (q_ntt_update (\<lambda>_. q)) c))
     | Neg \<Rightarrow> bindr (AddQueue_add i (q_add (ch_queues c))) (\<lambda>q. Inr (True, set_q (q_add_update (\<lambda>_. q)) c))
     | Rot \<Rightarrow> bindr (RotQueue_add i (q_rot (ch_queues c))) (\<lambda>q. Inr (True, set_q (q_rot_update (\<lambda>_. q)) c))
     | Con \<Rightarrow> bindr (RotQueue_add i (q_rot (ch_queues c))) (\<lambda>q. Inr (True, set_q (q_rot_update (\<lambda>_. q)) c))
     | _ \<Rightarrow> Inr (True, c))))))"

definition dispatchEvg :: "parsed_instr \<Rightarrow> chip \<Rightarrow> (bool \<times> chip) res" where
  "dispatchEvg p c =
     guardr (length (pi_dests p) = 1) AssertFail (
     if canMapToPhysicalRegister (ch_rf c) (pi_dests p ! 0) = False then Inr (False, c)
     else
     bindr (take_dest (pi_dests p ! 0) (ch_rf c)) (\<lambda>(d, rf).
     bindr (mk_Evg (pi_op p) d (pi_base p)) (\<lambda>i.
     let c = set_rf rf c in
     bindr (EvgQueue_add i (q_evg (ch_queues c))) (\<lambda>q. Inr (True, set_q (q_evg_update (\<lambda>_. q)) c)))))"

text \<open>A source that is a vector register or a base conversion register.\<close>

definition take_vb :: "parsed_value \<Rightarrow> regfile \<Rightarrow> (vreg_or_bc \<times> regfile) res" where
  "take_vb v rf = (case v of
       ParsedVec n dead \<Rightarrow> bindr (take_src v rf) (\<lambda>(r, rf). Inr (VP r, rf))
     | ParsedBcu b x \<Rightarrow> bindr (getMappedBaseConversionVirtualRegister b rf) (\<lambda>(k, rf).
         bindr (bc_incReference k rf) (\<lambda>rf. Inr (VB k, rf)))
     | _ \<Rightarrow> Inl AssertFail)"

definition dispatchNtt :: "parsed_instr \<Rightarrow> chip \<Rightarrow> (bool \<times> chip) res" where
  "dispatchNtt p c =
     guardr (length (pi_dests p) = 1) AssertFail (
     if canMapToPhysicalRegister (ch_rf c) (pi_dests p ! 0) = False then Inr (False, c)
     else guardr (length (pi_srcs p) = 1) AssertFail (
     bindr (take_dest (pi_dests p ! 0) (ch_rf c)) (\<lambda>(d, rf).
     bindr (take_vb (pi_srcs p ! 0) rf) (\<lambda>(s, rf).
     bindr (case s of VP r \<Rightarrow> mk_Ntt (pi_op p) d r (pi_base p)
                    | VB b \<Rightarrow> mk_Ntt_bc (pi_op p) d b (pi_base p)) (\<lambda>i.
     let c = set_rf rf c in
     bindr (NttQueue_add i (q_ntt (ch_queues c))) (\<lambda>q. Inr (True, set_q (q_ntt_update (\<lambda>_. q)) c)))))))"

definition dispatchSuD :: "parsed_instr \<Rightarrow> chip \<Rightarrow> (bool \<times> chip) res" where
  "dispatchSuD p c =
     guardr (length (pi_dests p) = 1) AssertFail (
     if canMapToPhysicalRegister (ch_rf c) (pi_dests p ! 0) = False then Inr (False, c)
     else guardr (length (pi_srcs p) = 2) AssertFail (
     bindr (take_dest (pi_dests p ! 0) (ch_rf c)) (\<lambda>(d, rf).
     bindr (take_src (pi_srcs p ! 0) rf) (\<lambda>(s1, rf).
     bindr (take_vb (pi_srcs p ! 1) rf) (\<lambda>(s2, rf).
     bindr (case s2 of VP r \<Rightarrow> mk_SuD (pi_op p) d s1 r (pi_base p)
                     | VB b \<Rightarrow> mk_SuD_bc (pi_op p) d s1 b (pi_base p)) (\<lambda>i.
     let c = set_rf rf c in
     bindr (SuDQueue_add i (q_sud (ch_queues c))) (\<lambda>q. Inr (True, set_q (q_sud_update (\<lambda>_. q)) c))))))))"

definition dispatchBci :: "parsed_instr \<Rightarrow> chip \<Rightarrow> (bool \<times> chip) res" where
  "dispatchBci p c =
     guardr (length (pi_dests p) = 1) AssertFail (
     if length (rf_freeB (ch_rf c)) < length (pi_dests p) then Inr (False, c)
     else case pi_dests p ! 0 of
       ParsedBcuInit b writes reads \<Rightarrow>
         bindr (mapToBaseConversionVirtualRegister b (ch_rf c)) (\<lambda>(k, rf).
         bindr (bc_incReference k rf) (\<lambda>rf.
         bindr (bc_setReadsRemaining k (int reads) rf) (\<lambda>rf.
         bindr (bc_setWritesRemaining k (int writes) rf) (\<lambda>rf.
         bindr (mk_Bci (pi_op p) k) (\<lambda>i.
         let c = set_rf rf c in
         bindr (BciQueue_add i (q_bci (ch_queues c))) (\<lambda>q. Inr (True, set_q (q_bci_update (\<lambda>_. q)) c)))))))
     | _ \<Rightarrow> Inl BadVariant)"

definition dispatchPl1 :: "parsed_instr \<Rightarrow> chip \<Rightarrow> (bool \<times> chip) res" where
  "dispatchPl1 p c =
     guardr (length (pi_dests p) = 1) AssertFail (
     if length (rf_freeB (ch_rf c)) < length (pi_dests p) then Inr (False, c)
     else case pi_dests p ! 0 of
       ParsedBcu b x \<Rightarrow>
         bindr (getMappedBaseConversionVirtualRegister b (ch_rf c)) (\<lambda>(k, rf).
         bindr (bc_incReference k rf) (\<lambda>rf.
         guardr (length (pi_srcs p) = 1) AssertFail (
         bindr (take_src (pi_srcs p ! 0) rf) (\<lambda>(s1, rf).
         bindr (mk_Pl1 (pi_op p) k s1 (pi_base p)) (\<lambda>i.
         let c = set_rf rf c in
         bindr (Pl1Queue_add i (q_pl1 (ch_queues c))) (\<lambda>q. Inr (True, set_q (q_pl1_update (\<lambda>_. q)) c)))))))
     | _ \<Rightarrow> Inl BadVariant)"

definition dispatchBcw :: "parsed_instr \<Rightarrow> chip \<Rightarrow> (bool \<times> chip) res" where
  "dispatchBcw p c =
     guardr (length (pi_dests p) = 1) AssertFail (
     if length (rf_freeB (ch_rf c)) < length (pi_dests p) then Inr (False, c)
     else case pi_dests p ! 0 of
       ParsedBcu b x \<Rightarrow>
         bindr (getMappedBaseConversionVirtualRegister b (ch_rf c)) (\<lambda>(k, rf).
         bindr (bc_incReference k rf) (\<lambda>rf.
         guardr (length (pi_srcs p) = 1) AssertFail (
         bindr (take_src (pi_srcs p ! 0) rf) (\<lambda>(s1, rf).
         bindr (mk_Bcw (pi_op p) k s1 (pi_base p)) (\<lambda>i.
         let c = set_rf rf c in
         bindr (BcwQueue_add i (q_bcw (ch_queues c))) (\<lambda>q. Inr (True, set_q (q_bcw_update (\<lambda>_. q)) c)))))))
     | _ \<Rightarrow> Inl BadVariant)"

definition dispatchMov :: "parsed_instr \<Rightarrow> chip \<Rightarrow> (bool \<times> chip) res" where
  "dispatchMov p c =
     guardr (length (pi_dests p) = 1) AssertFail (
     guardr (length (pi_srcs p) = 1) AssertFail (
     case (pi_dests p ! 0, pi_srcs p ! 0) of
       (ParsedVec d x, ParsedVec s y) \<Rightarrow>
         bindr (mapSrcToDest d s (ch_rf c)) (\<lambda>rf. Inr (True, set_rf rf c))
     | _ \<Rightarrow> Inl BadVariant))"

fun take_list :: "(parsed_value \<Rightarrow> regfile \<Rightarrow> (preg \<times> regfile) res) \<Rightarrow> parsed_value list \<Rightarrow> regfile
    \<Rightarrow> (preg list \<times> regfile) res" where
  "take_list f [] rf = Inr ([], rf)"
| "take_list f (v # vs) rf = bindr (f v rf) (\<lambda>(r, rf).
     bindr (take_list f vs rf) (\<lambda>(rs, rf). Inr (r # rs, rf)))"

definition dispatchRsv :: "parsed_instr \<Rightarrow> chip \<Rightarrow> (bool \<times> chip) res" where
  "dispatchRsv p c =
     guardr (length (pi_srcs p) \<le> 1) AssertFail (
     if pi_op p = Rsi \<and> length (rf_freeV (ch_rf c)) < length (pi_dests p) then Inr (False, c)
     else
     bindr (if length (pi_srcs p) = 1 then
              bindr (take_src (pi_srcs p ! 0) (ch_rf c)) (\<lambda>(r, rf). Inr (Some r, rf))
            else Inr (None, ch_rf c)) (\<lambda>(s, rf).
     bindr (take_list (if pi_op p = Rsi then take_dest else take_src) (pi_dests p) rf) (\<lambda>(ds, rf).
     bindr (mk_Rsv (pi_op p) ds s (pi_base p)) (\<lambda>i.
     let c = set_rf rf c in
     bindr (RsvQueue_add i (q_rsv (ch_queues c))) (\<lambda>q. Inr (True, set_q (q_rsv_update (\<lambda>_. q)) c))))))"

definition dispatchMod :: "parsed_instr \<Rightarrow> chip \<Rightarrow> (bool \<times> chip) res" where
  "dispatchMod p c =
     guardr (length (pi_dests p) = 1) AssertFail (
     guardr (length (pi_srcs p) \<ge> 1) AssertFail (
     if canMapToPhysicalRegister (ch_rf c) (pi_dests p ! 0) = False then Inr (False, c)
     else
     bindr (take_dest (pi_dests p ! 0) (ch_rf c)) (\<lambda>(d, rf).
     bindr (take_list take_src (pi_srcs p) rf) (\<lambda>(ss, rf).
     bindr (mk_Mod (pi_op p) d ss (pi_base p)) (\<lambda>i.
     let c = set_rf rf c in
     bindr (ModQueue_add i (q_mod (ch_queues c))) (\<lambda>q. Inr (True, set_q (q_mod_update (\<lambda>_. q)) c)))))))"

definition dispatchDis :: "parsed_instr \<Rightarrow> chip \<Rightarrow> (bool \<times> chip) res" where
  "dispatchDis p c =
     guardr (pi_syncID p \<noteq> None) AssertFail (
     guardr (pi_syncSize p \<noteq> None) AssertFail (
     if pi_op p = Rcv \<and> length (pi_dests p) \<noteq> 1 then Inl AssertFail
     else if pi_op p = Rcv \<and> canMapToPhysicalRegister (ch_rf c) (pi_dests p ! 0) = False
     then Inr (False, c)
     else
     bindr (if pi_op p = Rcv then
              bindr (take_dest (pi_dests p ! 0) (ch_rf c)) (\<lambda>(d, rf). Inr (Some d, None, rf))
            else if pi_op p = Dis then
              guardr (length (pi_srcs p) = 1) AssertFail
                (bindr (take_src (pi_srcs p ! 0) (ch_rf c)) (\<lambda>(s, rf). Inr (None, Some s, rf)))
            else Inr (None, None, ch_rf c)) (\<lambda>(d, s, rf).
     bindr (mk_Dis (pi_op p) d s (the (pi_syncID p)) (the (pi_syncSize p))) (\<lambda>i.
     let c = set_rf rf c in
     bindr (DisQueue_add i (ch_dis c)) (\<lambda>d. Inr (True, c\<lparr>ch_dis := d\<rparr>))))))"

definition dispatchJoi :: "parsed_instr \<Rightarrow> chip \<Rightarrow> (bool \<times> chip) res" where
  "dispatchJoi p c =
     guardr (pi_syncID p \<noteq> None) AssertFail (
     guardr (pi_syncSize p \<noteq> None) AssertFail (
     guardr (length (pi_dests p) \<le> 1) AssertFail (
     if length (pi_dests p) = 1 \<and> canMapToPhysicalRegister (ch_rf c) (pi_dests p ! 0) = False
     then Inr (False, c)
     else
     bindr (if length (pi_dests p) = 1 then
              bindr (take_dest (pi_dests p ! 0) (ch_rf c)) (\<lambda>(d, rf). Inr (Some d, rf))
            else Inr (None, ch_rf c)) (\<lambda>(d, rf).
     bindr (if length (pi_srcs p) = 1 then
              bindr (take_src (pi_srcs p ! 0) rf) (\<lambda>(s, rf). Inr (Some s, rf))
            else Inr (None, rf)) (\<lambda>(s, rf).
     bindr (mk_Joi (pi_op p) d s (the (pi_syncID p)) (the (pi_syncSize p)) (pi_base p)) (\<lambda>i.
     let c = set_rf rf c in
     bindr (DisQueue_add i (ch_dis c)) (\<lambda>d. Inr (True, c\<lparr>ch_dis := d\<rparr>))))))))"

section \<open>Memory instructions\<close>

definition limbSize :: nat where "limbSize = (64 * 1024 * 28) div 8"
definition scalarSize :: nat where "scalarSize = (2048 * 28) div 8"

text \<open>The address of a term: the one it has, or the next limb.\<close>

definition term_address :: "string \<Rightarrow> chip \<Rightarrow> nat \<times> chip" where
  "term_address t c = (case ch_terms c t of
       Some a \<Rightarrow> (a, c)
     | None \<Rightarrow> let a = ch_numTerms c * limbSize in
         (a, c\<lparr>ch_terms := (ch_terms c)(t \<mapsto> a), ch_numTerms := ch_numTerms c + 1\<rparr>))"

definition dispatch_store :: "bool \<Rightarrow> opcode \<Rightarrow> nat \<Rightarrow> parsed_value \<Rightarrow> chip \<Rightarrow> (bool \<times> chip) res" where
  "dispatch_store qs op addr dest c =
     bindr (findStoreAlias addr qs (ch_mem c) (ch_rf c)) (\<lambda>(_, m, rf).
     bindr (take_src dest rf) (\<lambda>(r, rf).
     bindr (mk_Mem op r addr limbSize) (\<lambda>i.
       Inr (True, set_rf rf (c\<lparr>ch_mem := addToStoreQueue i m\<rparr>)))))"

text \<open>A load of a value that is on its way: the name is mapped to the register that has it.\<close>

definition alias_vector :: "parsed_value \<Rightarrow> preg \<Rightarrow> regfile \<Rightarrow> regfile res" where
  "alias_vector dest r rf = (case dest of
       ParsedVec v dead \<Rightarrow> bindr (dropV v rf) (\<lambda>rf. bindr (getID rf r) (\<lambda>k.
         incReference r (rf\<lparr>rf_vmap := (rf_vmap rf)(v \<mapsto> k)\<rparr>)))
     | _ \<Rightarrow> Inl BadVariant)"

definition alias_scalar :: "parsed_value \<Rightarrow> preg \<Rightarrow> regfile \<Rightarrow> regfile res" where
  "alias_scalar dest r rf = (case dest of
       ParsedScal v dead \<Rightarrow> bindr (dropS v rf) (\<lambda>rf. bindr (getID rf r) (\<lambda>k.
         incReference r (rf\<lparr>rf_smap := (rf_smap rf)(v \<mapsto> k)\<rparr>)))
     | _ \<Rightarrow> Inl BadVariant)"

definition dispatch_loadv :: "nat \<Rightarrow> parsed_value \<Rightarrow> chip \<Rightarrow> (bool \<times> chip) res" where
  "dispatch_loadv addr dest c =
     bindr (findStoreAlias addr False (ch_mem c) (ch_rf c)) (\<lambda>(al, m, rf).
     let c = set_rf rf (c\<lparr>ch_mem := m\<rparr>) in
     case al of
       Some r \<Rightarrow> bindr (alias_vector dest r rf) (\<lambda>rf. Inr (True, set_rf rf c))
     | None \<Rightarrow>
       bindr (findLoadAlias addr m) (\<lambda>al. case al of
         Some r \<Rightarrow> bindr (alias_vector dest r rf) (\<lambda>rf. Inr (True, set_rf rf c))
       | None \<Rightarrow>
         if canMapToPhysicalRegister rf dest = False then Inr (False, c)
         else bindr (take_dest dest rf) (\<lambda>(r, rf).
           bindr (mk_Mem LoadV r addr limbSize) (\<lambda>i.
             Inr (True, set_rf rf (c\<lparr>ch_mem := addToLoadQueue i m\<rparr>))))))"

definition dispatch_loads :: "nat \<Rightarrow> parsed_value \<Rightarrow> chip \<Rightarrow> (bool \<times> chip) res" where
  "dispatch_loads addr dest c =
     bindr (findLoadAlias addr (ch_mem c)) (\<lambda>al. case al of
       Some r \<Rightarrow> bindr (alias_scalar dest r (ch_rf c)) (\<lambda>rf. Inr (True, set_rf rf c))
     | None \<Rightarrow>
       if canMapToPhysicalRegister (ch_rf c) dest = False then Inr (False, c)
       else bindr (take_dest dest (ch_rf c)) (\<lambda>(r, rf).
         bindr (mk_Mem LoadS r addr scalarSize) (\<lambda>i.
         bindr (setExecutionComplete i rf) (\<lambda>rf. Inr (True, set_rf rf c)))))"

definition dispatchMemory :: "parsed_instr \<Rightarrow> chip \<Rightarrow> (bool \<times> chip) res" where
  "dispatchMemory p c =
     guardr (length (pi_dests p) = 1) AssertFail (
     guardr (length (pi_srcs p) = 1) AssertFail (
     case pi_srcs p ! 0 of
       ParsedTerm t free \<Rightarrow>
        (let (addr, c) = term_address t c; dest = pi_dests p ! 0 in
         case pi_op p of
           Store \<Rightarrow> dispatch_store True Store addr dest c
         | Spill \<Rightarrow> dispatch_store False Spill addr dest c
         | LoadV \<Rightarrow> dispatch_loadv addr dest c
         | LoadS \<Rightarrow> dispatch_loads addr dest c
         | _ \<Rightarrow> Inr (True, c))
     | _ \<Rightarrow> Inl BadVariant))"

section \<open>The dispatch loop\<close>

text \<open>Returns the instruction as well: without the generator, \<open>EvkGen\<close> is turned into a load.\<close>

definition dispatch_one :: "parsed_instr \<Rightarrow> chip \<Rightarrow> (bool \<times> parsed_instr \<times> chip) res" where
  "dispatch_one p c =
    (let keep = (\<lambda>m. bindr m (\<lambda>(b, c). Inr (b, p, c))) in
     case pi_op p of
       LoadV \<Rightarrow> keep (dispatchMemory p c) | LoadS \<Rightarrow> keep (dispatchMemory p c)
     | Store \<Rightarrow> keep (dispatchMemory p c) | Spill \<Rightarrow> keep (dispatchMemory p c)
     | Add \<Rightarrow> keep (dispatchBinOp p c) | Sub \<Rightarrow> keep (dispatchBinOp p c)
     | Mul \<Rightarrow> keep (dispatchBinOp p c)
     | Ntt \<Rightarrow> keep (dispatchNtt p c)
     | IntOp \<Rightarrow> keep (dispatchUnOp p c) | Neg \<Rightarrow> keep (dispatchUnOp p c)
     | Rot \<Rightarrow> keep (dispatchUnOp p c) | Con \<Rightarrow> keep (dispatchUnOp p c)
     | EvkGen \<Rightarrow>
         if ch_usePRNG c then keep (dispatchEvg p c)
         else (let p = p\<lparr>pi_op := LoadV\<rparr> in bindr (dispatchMemory p c) (\<lambda>(b, c). Inr (b, p, c)))
     | SuD \<Rightarrow> keep (dispatchSuD p c)
     | Bci \<Rightarrow> keep (dispatchBci p c)
     | BcW \<Rightarrow> keep (dispatchBcw p c)
     | Pl1 \<Rightarrow> keep (dispatchPl1 p c)
     | Mov \<Rightarrow> keep (dispatchMov p c)
     | Rsi \<Rightarrow> keep (dispatchRsv p c) | Rsv \<Rightarrow> keep (dispatchRsv p c)
     | Mod \<Rightarrow> keep (dispatchMod p c)
     | Rcv \<Rightarrow> keep (dispatchDis p c) | Dis \<Rightarrow> keep (dispatchDis p c)
     | Joi \<Rightarrow> keep (dispatchJoi p c)
     | _ \<Rightarrow> Inl InvalidArgument)"

text \<open>The lines the reader has left are the recursion's argument; \<open>ch_reader\<close> is set at the end.\<close>

fun dispatch_loop :: "string list \<Rightarrow> parsed_instr \<Rightarrow> chip \<Rightarrow> chip res" where
  "dispatch_loop [] p c = bindr (dispatch_one p c) (\<lambda>(b, p, c).
     if \<not> b then Inr (c\<lparr>ch_fetched := Some p, ch_reader := []\<rparr>)
     else Inr (c\<lparr>ch_fetched := None, ch_reader := [],
                 ch_numInstructions := ch_numInstructions c + 1\<rparr>))"
| "dispatch_loop (l # lines) p c = bindr (dispatch_one p c) (\<lambda>(b, p, c).
     if \<not> b then Inr (c\<lparr>ch_fetched := Some p, ch_reader := l # lines\<rparr>)
     else bindr (readNextInstruction (l # lines)) (\<lambda>(x, _).
       let c = c\<lparr>ch_numInstructions := ch_numInstructions c + 1\<rparr> in
       case x of None \<Rightarrow> Inr (c\<lparr>ch_fetched := None, ch_reader := lines\<rparr>)
       | Some p \<Rightarrow> dispatch_loop lines p c))"

definition fetch :: "chip \<Rightarrow> chip res" where
  "fetch c = (case ch_fetched c of
       Some _ \<Rightarrow> Inr c
     | None \<Rightarrow> bindr (readNextInstruction (ch_reader c)) (\<lambda>(x, lines).
         Inr (c\<lparr>ch_fetched := x, ch_reader := lines,
                ch_numInstructions := ch_numInstructions c + 1\<rparr>)))"

definition dispatch_all :: "chip \<Rightarrow> chip res" where
  "dispatch_all c = bindr (fetch c) (\<lambda>c. case ch_fetched c of
       None \<Rightarrow> Inr c
     | Some p \<Rightarrow> dispatch_loop (ch_reader c) p c)"

section \<open>A cycle\<close>

definition tick_queues :: "nat \<Rightarrow> latencies \<Rightarrow> nat \<Rightarrow> unit_table \<Rightarrow> queues \<Rightarrow> sched
    \<Rightarrow> (queues \<times> sched) res" where
  "tick_queues V lat now u q s =
     bindr (AddQueue_tick V now (ut_add u) (q_add q) s) (\<lambda>(qa, s).
     bindr (MulQueue_tick V lat now (ut_mul u) (q_mul q) s) (\<lambda>(qm, s).
     bindr (RotQueue_tick V lat now (ut_rot u) (ut_tra u) (q_rot q) s) (\<lambda>(qr, s).
     bindr (EvgQueue_tick V lat now (ut_evg u) (q_evg q) s) (\<lambda>(qe, s).
     bindr (NttQueue_tick V lat now (ut_bcr u) (ut_ntt u) (ut_tra u) (q_ntt q) s) (\<lambda>(qn, s).
     bindr (SuDQueue_tick V lat now (ut_bcr u) (ut_add u) (ut_mul u) (ut_ntt u) (ut_tra u)
              (q_sud q) s) (\<lambda>(qs, s).
     bindr (BciQueue_tick now (q_bci q) s) (\<lambda>(qi, s).
     bindr (BcwQueue_tick V now (ut_bcw u) (q_bcw q) s) (\<lambda>(qw, s).
     bindr (Pl1Queue_tick V lat now (ut_ntt u) (ut_tra u) (ut_bcw u) (q_pl1 q) s) (\<lambda>(qp, s).
     bindr (RsvQueue_tick V lat now (ut_rsv u) (q_rsv q) s) (\<lambda>(qv, s).
     bindr (ModQueue_tick V lat now (ut_mod u) (q_mod q) s) (\<lambda>(qo, s).
       Inr (\<lparr>q_add = qa, q_mul = qm, q_rot = qr, q_evg = qe, q_ntt = qn, q_sud = qs, q_bci = qi,
             q_bcw = qw, q_pl1 = qp, q_rsv = qv, q_mod = qo\<rparr>, s))))))))))))"

fun begin_units :: "nat \<Rightarrow> nat \<Rightarrow> regfile \<Rightarrow> fu list \<Rightarrow> fu list res" where
  "begin_units V now rf [] = Inr []"
| "begin_units V now rf (u # us) = bindr (fu_begin V now rf u) (\<lambda>u.
     bindr (begin_units V now rf us) (\<lambda>us. Inr (u # us)))"

fun end_units :: "nat \<Rightarrow> nat \<Rightarrow> fu list \<Rightarrow> regfile \<Rightarrow> nat \<Rightarrow> (fu list \<times> regfile \<times> nat) res" where
  "end_units V now [] rf w = Inr ([], rf, w)"
| "end_units V now (u # us) rf w = bindr (fu_end V now u rf) (\<lambda>(u, rf, n).
     bindr (end_units V now us rf (w + n)) (\<lambda>(us, rf, w). Inr (u # us, rf, w)))"

fun end_bcus :: "nat \<Rightarrow> bcu list \<Rightarrow> regfile \<Rightarrow> (bcu list \<times> regfile) res" where
  "end_bcus now [] rf = Inr ([], rf)"
| "end_bcus now (b # bs) rf = bindr (bcu_end now b rf) (\<lambda>(b, rf).
     bindr (end_bcus now bs rf) (\<lambda>(bs, rf). Inr (b # bs, rf)))"

definition run_units :: "nat \<Rightarrow> nat \<Rightarrow> chip \<Rightarrow> chip res" where
  "run_units V now c =
     bindr (mem_begin now (ch_rf c) (ch_mem c)) (\<lambda>m.
     bindr (begin_units V now (ch_rf c) (sc_fus (ch_sched c))) (\<lambda>fus.
     let bcus = map (bcu_begin now) (sc_bcus (ch_sched c)) in
     bindr (mem_end m (ch_rf c)) (\<lambda>(m, rf).
     bindr (end_units V now fus rf (ch_window c)) (\<lambda>(fus, rf, w).
     bindr (end_bcus now bcus rf) (\<lambda>(bcus, rf).
       Inr (c\<lparr>ch_mem := m, ch_window := w,
              ch_sched := \<lparr>sc_fus = fus, sc_bcus = bcus, sc_rf = rf\<rparr>\<rparr>))))))"

definition chip_okayToFinish :: "chip \<Rightarrow> bool" where
  "chip_okayToFinish c =
    (let q = ch_queues c in
     mem_okayToFinish (ch_mem c) \<and> list_all fu_okayToFinish (sc_fus (ch_sched c)) \<and>
     queue_okayToFinish (q_add q) \<and> queue_okayToFinish (q_mul q) \<and> queue_okayToFinish (q_rot q) \<and>
     queue_okayToFinish (q_evg q) \<and> queue_okayToFinish (q_ntt q) \<and> queue_okayToFinish (q_sud q) \<and>
     queue_okayToFinish (q_bci q) \<and> queue_okayToFinish (q_bcw q) \<and> queue_okayToFinish (q_pl1 q) \<and>
     queue_okayToFinish (q_rsv q) \<and> queue_okayToFinish (q_mod q) \<and> dis_okayToFinish (ch_dis c))"

definition chip_tick :: "nat \<Rightarrow> latencies \<Rightarrow> nat \<Rightarrow> chip \<Rightarrow> network \<Rightarrow> (bool \<times> chip \<times> network) res" where
  "chip_tick V lat now c0 nw =
     bindr (dispatch_all c0) (\<lambda>c.
     let c = (if now mod 100000 = 0 then c\<lparr>ch_window := 0\<rparr> else c);
         traceCompleted = (ch_fetched c = None) in
     bindr (tick_queues V lat now (ch_units c) (ch_queues c) (ch_sched c)) (\<lambda>(q, s).
     let c = c\<lparr>ch_queues := q, ch_sched := s\<rparr> in
     bindr (DisQueue_tick (ch_id c) (ch_dis c) (ch_rf c) nw) (\<lambda>(d, rf, nw).
     let c = set_rf rf (c\<lparr>ch_dis := d\<rparr>) in
     bindr (run_units V now c) (\<lambda>c.
       Inr (traceCompleted \<and> chip_okayToFinish c, c, nw)))))"

text \<open>The deliveries of the memory and of the network.\<close>

definition chip_memResponse :: "nat \<Rightarrow> nat \<Rightarrow> chip \<Rightarrow> chip res" where
  "chip_memResponse t rid c = bindr (handleResponse t rid (ch_mem c)) (\<lambda>m. Inr (c\<lparr>ch_mem := m\<rparr>))"

definition chip_netResponse :: "nat \<Rightarrow> chip \<Rightarrow> chip res" where
  "chip_netResponse sid c = bindr (handle_incoming sid (ch_dis c) (ch_rf c)) (\<lambda>(d, rf).
     Inr (set_rf rf (c\<lparr>ch_dis := d\<rparr>)))"

end
