(* ===== verification/Accelerator.thy ===== *)
theory Accelerator
  imports Chip
begin

text \<open>
  The accelerator (\<open>accelerator.h\<close>, \<open>accelerator.cc\<close>): the latencies as functions of the vector
  depth, the chips, and a cycle of the whole machine.
\<close>

section \<open>Latencies\<close>

text \<open>
  The floating point logarithms of the constructor are of 256, of 13 and of the vector depth; the
  first is exactly 8, the second rounds up to 4, and the third is truncated when it is added to the
  depth. For a depth of 0 the logarithm is minus infinity and its conversion undefined.
\<close>

definition accel_latencies :: "nat \<Rightarrow> latencies res" where
  "accel_latencies V =
     (if V = 0 then Inl Undefined
      else
       (let mul = 5; bfly = 6; rot1 = 8; ntt1 = 8 * bfly; tra = V + log2_floor V in
        Inr \<lparr>lat_Add = 1, lat_Mul = mul, lat_Rsv = 9 + V * (16 - 1), lat_Mod = 6 + V * (16 - 1),
             lat_Evg = 200, lat_NTT_butterfly = bfly, lat_NTT_one_stage = ntt1,
             lat_NTT = ntt1 + mul + tra + ntt1, lat_Transpose = tra, lat_Rot_one_stage = rot1,
             lat_Rot = rot1 + tra + rot1 + tra, lat_Bcu_write = 1,
             lat_Bcu_read = mul * 4 + V * (2 - 1)\<rparr>))"

section \<open>The machine\<close>

record accel =
  ac_V :: nat
  ac_lat :: latencies
  ac_chips :: "chip list"
  ac_net :: network

text \<open>One trace per chip.\<close>

definition mk_accel :: "nat \<Rightarrow> chip_params \<Rightarrow> string list list \<Rightarrow> accel res" where
  "mk_accel V p traces =
     bindr (accel_latencies V) (\<lambda>lat.
       Inr \<lparr>ac_V = V, ac_lat = lat,
            ac_chips = map (\<lambda>k. mk_chip V lat p k (traces ! k)) [0..<length traces],
            ac_net = mk_network (length traces)\<rparr>)"

fun tick_chips :: "nat \<Rightarrow> latencies \<Rightarrow> nat \<Rightarrow> chip list \<Rightarrow> network
    \<Rightarrow> (bool \<times> chip list \<times> network) res" where
  "tick_chips V lat now [] nw = Inr (True, [], nw)"
| "tick_chips V lat now (c # cs) nw = bindr (chip_tick V lat now c nw) (\<lambda>(b, c, nw).
     bindr (tick_chips V lat now cs nw) (\<lambda>(b', cs, nw). Inr (b \<and> b', c # cs, nw)))"

definition accel_tick :: "nat \<Rightarrow> accel \<Rightarrow> (bool \<times> accel) res" where
  "accel_tick now a =
     bindr (tick_chips (ac_V a) (ac_lat a) now (ac_chips a) (ac_net a)) (\<lambda>(b, cs, nw).
     bindr (net_tick now nw) (\<lambda>nw.
       Inr (b, a\<lparr>ac_chips := cs, ac_net := nw\<rparr>)))"

end
