(* ===== verification/ChipInvariant.thy ===== *)
theory ChipInvariant
  imports Chip
begin

text \<open>
  Invariants of a chip across a cycle, whatever its trace is: the calendars of its functional units
  stay disjoint and its memory unit keeps count of its requests. Nothing is assumed of the
  instructions; a cycle that ends in an error is not looked at here, so these are safety properties.
  The last section adds when the queues cannot fail and that they conserve references.
\<close>

section \<open>What any successful issue keeps\<close>

definition booking :: "nat \<Rightarrow> sched \<Rightarrow> nat \<times> instr interval \<Rightarrow> bool" where
  "booking now s = (\<lambda>(k, iv). ivl_ok iv \<and> now \<le> istart iv \<and>
     fu_vecDepth (sc_fus s ! k) \<le> iend iv - istart iv + 1 \<and> ival iv \<noteq> None)"

lemma depths_length: "depths s' = depths s \<Longrightarrow> length (sc_fus s') = length (sc_fus s)"
  unfolding depths_def by (drule arg_cong [where f = length]) simp

lemma depths_nth:
  assumes "depths s' = depths s" "k < length (sc_fus s)"
  shows "fu_vecDepth (sc_fus s' ! k) = fu_vecDepth (sc_fus s ! k)"
proof -
  have "depths s' ! k = depths s ! k" using assms(1) by simp
  then show ?thesis using assms(2) depths_length [OF assms(1)] by (simp add: depths_def)
qed

lemma booking_depths:
  "depths s' = depths s \<Longrightarrow> fst b < length (sc_fus s) \<Longrightarrow> booking now s b \<Longrightarrow> booking now s' b"
  using depths_nth [of s' s "fst b"] by (auto simp: booking_def)

lemma reserve_unit_keeps:
  assumes "reserve_unit b s = Inr s'" "sched_inv now s" "booking now s b"
  shows "sched_inv now s' \<and> depths s' = depths s \<and> fst b < length (sc_fus s)"
proof -
  obtain k iv where b: "b = (k, iv)" by force
  from assms have "slot_ok now s (k, iv)"
    by (auto simp: b reserve_unit_def bindr_Inr_iff atr_Inr_iff addReservation_Inr_iff slot_ok_def
        booking_def)
  from reserve_unit_ok [OF assms(2) this] assms(1) this show ?thesis
    by (auto simp: b slot_ok_def)
qed

lemma reserve_units_keep:
  assumes "reserve_units rs s = Inr s'" "sched_inv now s" "\<forall>b \<in> set rs. booking now s b"
    and "\<forall>b \<in> set rs. fst b < length (sc_fus s)"
  shows "sched_inv now s' \<and> depths s' = depths s"
  using assms
proof (induction rs arbitrary: s)
  case Nil
  then show ?case by simp
next
  case (Cons b rs)
  from Cons.prems(1) obtain t where t: "reserve_unit b s = Inr t" "reserve_units rs t = Inr s'"
    by (auto simp: bindr_Inr_iff)
  have k: "sched_inv now t" "depths t = depths s"
    using reserve_unit_keeps [OF t(1)] Cons.prems(2,3) by auto
  have "\<forall>b \<in> set rs. booking now t b" "\<forall>b \<in> set rs. fst b < length (sc_fus t)"
    using Cons.prems(3,4) booking_depths [OF k(2)] depths_length [OF k(2)] by auto
  from Cons.IH [OF t(2) k(1) this] k(2) show ?case by simp
qed

text \<open>The units of a chip: every calendar in order, every unit of a queue fast enough for it.\<close>

definition units_good :: "nat \<Rightarrow> latencies \<Rightarrow> nat \<Rightarrow> unit_table \<Rightarrow> sched \<Rightarrow> bool" where
  "units_good V lat now u s \<longleftrightarrow> sched_inv now s \<and>
     units_ok V (ut_add u) s \<and> units_ok V (ut_mul u) s \<and> units_ok V (ut_bcw u) s \<and>
     units_ok (V + lat_Bcu_read lat) (ut_bcr u) s \<and> units_ok V (ut_ntt u) s \<and>
     units_ok V (ut_tra u) s \<and> units_ok V (ut_rot u) s \<and> units_ok V (ut_evg u) s \<and>
     units_ok (V + lat_Rsv lat) (ut_rsv u) s \<and> units_ok (V + lat_Mod lat) (ut_mod u) s"

lemma units_good_depths:
  "units_good V lat now u s \<Longrightarrow> sched_inv now' s' \<Longrightarrow> depths s' = depths s \<Longrightarrow>
   units_good V lat now' u s'"
  by (simp add: units_good_def units_ok_depths [of s' s])

text \<open>
  The contract every issue meets without any condition on the instruction: if it issues, the units
  are as good as before. A scan then keeps it as well, and takes instructions out of the queue only.
\<close>

locale safe_queue =
  fixes issue :: "instr \<Rightarrow> sched \<Rightarrow> sched outcome res"
    and inv :: "sched \<Rightarrow> bool"
  assumes issue_keeps: "inv s \<Longrightarrow> issue i s = Inr (Issued s') \<Longrightarrow> inv s'"
begin

lemma scan_keeps: "scan issue q s = Inr (q', s') \<Longrightarrow> inv s \<Longrightarrow> inv s' \<and> subseq q' q"
proof (induction q arbitrary: s q')
  case Nil
  then show ?case by simp
next
  case (Cons i q)
  from Cons.prems(1) obtain rdy where rdy: "allOperandsReady (sc_rf s) i = Inr rdy"
    by (auto simp: bindr_Inr_iff)
  have skip: ?case if "scan issue (i # q) s = bindr (scan issue q s) (\<lambda>(q, s). Inr (i # q, s))"
    using that Cons.prems Cons.IH [of s] by (auto simp: bindr_Inr_iff)
  show ?case
  proof (cases rdy)
    case True
    with Cons.prems(1) rdy obtain x where x: "issue i s = Inr x" by (auto simp: bindr_Inr_iff)
    show ?thesis
    proof (cases x)
      case (Issued t)
      then have "inv t" using issue_keeps [OF Cons.prems(2)] x by simp
      then show ?thesis using Cons.IH [of t q'] Cons.prems(1) rdy x True Issued by auto
    qed (use Cons.prems rdy x True skip in auto)
  qed (use rdy skip in auto)
qed

end

text \<open>
  For the pipelines, rules that walk through an issue: \<open>issues now s m\<close> says that if \<open>m\<close> ends in
  an issue then the units are as good as in \<open>s\<close>.
\<close>

definition issues :: "nat \<Rightarrow> sched \<Rightarrow> sched outcome res \<Rightarrow> bool" where
  "issues now s m \<longleftrightarrow> (\<forall>s'. m = Inr (Issued s') \<longrightarrow> sched_inv now s' \<and> depths s' = depths s)"

lemma issues_mk:
  "(a < b \<Longrightarrow> issues now s (f (Interval a b v))) \<Longrightarrow> issues now s (bindr (mk_interval a b v) f)"
  by (auto simp: issues_def mk_interval_def)

lemma issues_guard: "(b \<Longrightarrow> issues now s m) \<Longrightarrow> issues now s (guardr b e m)"
  by (auto simp: issues_def guardr_def)

lemma issues_option:
  "(x = None \<Longrightarrow> issues now s m) \<Longrightarrow> (\<And>y. x = Some y \<Longrightarrow> issues now s (f y)) \<Longrightarrow>
   issues now s (case x of None \<Rightarrow> m | Some y \<Rightarrow> f y)"
  by (cases x) auto

lemma issues_prod:
  "(\<And>a b. x = (a, b) \<Longrightarrow> issues now s (f a b)) \<Longrightarrow> issues now s (case x of (a, b) \<Rightarrow> f a b)"
  by (cases x) auto

lemma issues_if:
  "(b \<Longrightarrow> issues now s m) \<Longrightarrow> (\<not> b \<Longrightarrow> issues now s n) \<Longrightarrow> issues now s (if b then m else n)"
  by simp

lemma issues_Stop: "issues now s (Inr Stop)"
  by (simp add: issues_def)

lemma issues_bind: "(\<And>x. m = Inr x \<Longrightarrow> issues now s (f x)) \<Longrightarrow> issues now s (bindr m f)"
  by (cases m) (auto simp: issues_def)

lemmas issues_split = issues_bind [where m = "splitInstruction i rf" for i rf]
  issues_bind [where m = "bc_read_port search lat now us h iv i s" for search lat now us h iv i s]
  issues_bind [where m = "the_res e x" for e x]
  issues_bind [where m = "if b then m else n" for b m n]

lemmas issues_rules = issues_mk issues_guard issues_option issues_prod issues_if issues_Stop
  issues_split

text \<open>The slot a search found, as a booking.\<close>

definition fits :: "nat \<Rightarrow> sched \<Rightarrow> nat \<times> instr interval \<Rightarrow> bool" where
  "fits now s b \<longleftrightarrow> booking now s b \<and> fst b < length (sc_fus s)"

definition found :: "sched \<Rightarrow> nat list \<Rightarrow> nat \<Rightarrow> nat \<Rightarrow> nat \<Rightarrow> bool" where
  "found s us a b n \<longleftrightarrow> n < length us \<and> isIntervalReservable (sc_fus s ! (us ! n)) (Interval a b None)"

lemma foundI:
  "find_unit s us (Interval a b v) = Some n \<Longrightarrow> found s us a b n"
  "find_unit_last s us (Interval a b v) = Some n \<Longrightarrow> found s us a b n"
  using find_unit_Some find_unit_last_Some isIntervalReservable_val unfolding found_def by blast+

lemma fitsI:
  assumes "found s us a b n" "units_ok d us s" "a < b" "now \<le> a" "d \<le> b - a + 1"
  shows "fits now s (us ! n, Interval a b (Some i))"
proof -
  have "us ! n \<in> set us" using assms(1) by (simp add: found_def)
  with assms show ?thesis by (fastforce simp: fits_def booking_def units_ok_def ivl_ok_def)
qed

lemma issues_reserve:
  assumes "sched_inv now s" "list_all (fits now s) rs"
  shows "issues now s (bindr (reserve_units rs s) (\<lambda>s. Inr (Issued s)))"
  using reserve_units_keep [of rs s _ now] assms
  by (auto simp: issues_def bindr_Inr_iff fits_def list_all_iff)

lemma issues_reserve_rf:
  assumes "sched_inv now s" "list_all (fits now s) rs"
  shows "issues now s (bindr (reserve_units rs (s\<lparr>sc_rf := rf\<rparr>)) (\<lambda>s. Inr (Issued s)))"
proof -
  have "list_all (fits now (s\<lparr>sc_rf := rf\<rparr>)) rs"
    using assms(2) by (auto simp: fits_def booking_def list_all_iff)
  from issues_reserve [OF _ this] assms(1) show ?thesis by (simp add: issues_def)
qed

lemma read_port_free:
  "bc_read_port search lat now us h iv i s = Inr (Some (Some n, st)) \<Longrightarrow> search s us iv = Some n"
  "bc_read_port search lat now us h iv i s = Inr (Some (p, st)) \<Longrightarrow> now \<le> st"
  by (auto simp: bc_read_port_def res_simps split: if_splits option.splits)

lemma read_port_found:
  "bc_read_port find_unit lat now us h (Interval a b v) i s = Inr (Some (p, st)) \<Longrightarrow>
   the_res e p = Inr n \<Longrightarrow> found s us a b n"
  "bc_read_port find_unit_last lat now us h (Interval a b v) i s = Inr (Some (p, st)) \<Longrightarrow>
   the_res e p = Inr n \<Longrightarrow> found s us a b n"
  by (auto simp: the_res_Inr_iff intro: foundI read_port_free(1))

lemma read_port_last:
  "bc_read_port find_unit_last lat now us h (Interval a b v) i s = Inr (Some (Some n, st)) \<Longrightarrow>
   found s us a b n"
  by (auto intro: foundI read_port_free(1))

lemma read_port_fits:
  assumes "bc_read_port find_unit_last lat now us h (Interval now (now + V + e - Suc 0) v) i s =
      Inr (Some (Some n, st))"
    and "units_ok (V + e) us s" "now < now + V + e - Suc 0"
  shows "fits now s (us ! n, Interval now (now + V + e - Suc 0) (Some j))"
  using assms(3) by (intro fitsI [OF read_port_last [OF assms(1)] assms(2)]) auto

lemma ntt_keeps:
  assumes good: "sched_inv now s" "units_ok (V + lat_Bcu_read lat) bcrs s" "units_ok V ntts s"
    "units_ok V tras s"
  shows "issues now s (issue_ntt V lat now bcrs ntts tras i s)"
  unfolding issue_ntt_def Let_def mk_NoOp_def
  by (intro issues_rules issues_reserve issues_reserve_rf good(1);
      simp only: list.pred_inject simp_thms;
      intro conjI fitsI [OF _ good(2)] fitsI [OF _ good(3)] fitsI [OF _ good(4)];
      auto simp: trans_le_add1 dest: read_port_free(2) intro: foundI read_port_found)

lemma sud_keeps:
  assumes good: "sched_inv now s" "units_ok (V + lat_Bcu_read lat) bcrs s" "units_ok V ntts s"
    "units_ok V tras s" "units_ok V adds s" "units_ok V muls s"
  shows "issues now s (issue_sud V lat now bcrs adds muls ntts tras i s)"
  unfolding issue_sud_def Let_def mk_NoOp_def
  by (intro issues_rules issues_reserve issues_reserve_rf good(1);
      simp only: list.pred_inject simp_thms list_all_append;
      intro conjI fitsI [OF _ good(3)] fitsI [OF _ good(4)] fitsI [OF _ good(5)]
        fitsI [OF _ good(6)];
      auto simp: trans_le_add1 res_simps dest: read_port_free(2)
        intro: foundI read_port_fits [OF _ good(2)] split: if_splits)

lemma pl1_keeps:
  assumes good: "sched_inv now s" "units_ok V ntts s" "units_ok V tras s" "units_ok V bcws s"
  shows "issues now s (issue_pl1 V lat now ntts tras bcws i s)"
  unfolding issue_pl1_def Let_def mk_NoOp_def
  by (intro issues_rules issues_reserve issues_reserve_rf good(1);
      simp only: list.pred_inject simp_thms;
      intro conjI fitsI [OF _ good(2)] fitsI [OF _ good(3)] fitsI [OF _ good(4)];
      auto simp: trans_le_add1 intro: foundI)

lemma single_keeps:
  assumes good: "sched_inv now s" "units_ok (V + ex) us s"
  shows "issues now s (issue_single V ex now us i s)"
proof -
  have one: "bindr (reserve_unit b s) (\<lambda>s. Inr (Issued s)) =
      bindr (reserve_units [b] s) (\<lambda>s. Inr (Issued s))" for b
    by (cases "reserve_unit b s") simp_all
  show ?thesis unfolding issue_single_def one
    by (intro issues_rules issues_reserve good(1);
        simp only: list.pred_inject simp_thms; intro conjI fitsI [OF _ good(2)];
        auto intro: foundI)
qed

lemma rot_keeps:
  assumes good: "sched_inv now s" "units_ok V rots s" "units_ok V tras s"
  shows "issues now s (issue_rot V lat now rots tras i s)"
  unfolding issue_rot_def Let_def mk_NoOp_def
  by (intro issues_rules issues_reserve issues_reserve_rf good(1);
      simp only: list.pred_inject simp_thms;
      intro conjI fitsI [OF _ good(2)] fitsI [OF _ good(3)];
      auto simp: trans_le_add1 intro: foundI)

lemma bci_keeps: "sched_inv now s \<Longrightarrow> issues now s (issue_bci now i s)"
  by (auto simp: issues_def issue_bci_def bindr_Inr_iff sched_inv_def depths_def
      split: option.splits prod.splits)

text \<open>Each queue of the chip, on the units it is wired to.\<close>

lemma issues_good:
  "units_good V lat now u s \<Longrightarrow> issues now s m \<Longrightarrow> m = Inr (Issued s') \<Longrightarrow> units_good V lat now u s'"
  using units_good_depths [of V lat now u s now s'] by (simp add: issues_def)

lemma units_ok_mono: "units_ok d us s \<Longrightarrow> d \<le> e \<Longrightarrow> units_ok e us s"
  by (auto simp: units_ok_def dest: order_trans)

interpretation adds: safe_queue "issue_single V 0 now (ut_add u)" "units_good V lat now u"
  for V lat now u
  by unfold_locales
    (rule issues_good, assumption, rule single_keeps, auto simp: units_good_def)

interpretation muls: safe_queue "issue_single V (lat_Mul lat) now (ut_mul u)" "units_good V lat now u"
  for V lat now u
  by unfold_locales
    (rule issues_good, assumption, rule single_keeps,
      auto simp: units_good_def intro: units_ok_mono)

interpretation evgs: safe_queue "issue_single V (lat_Evg lat) now (ut_evg u)" "units_good V lat now u"
  for V lat now u
  by unfold_locales
    (rule issues_good, assumption, rule single_keeps,
      auto simp: units_good_def intro: units_ok_mono)

interpretation rsvs: safe_queue "issue_single V (lat_Rsv lat) now (ut_rsv u)" "units_good V lat now u"
  for V lat now u
  by unfold_locales
    (rule issues_good, assumption, rule single_keeps, auto simp: units_good_def)

interpretation mods: safe_queue "issue_single V (lat_Mod lat) now (ut_mod u)" "units_good V lat now u"
  for V lat now u
  by unfold_locales
    (rule issues_good, assumption, rule single_keeps, auto simp: units_good_def)

interpretation bcws: safe_queue "issue_single V 0 now (ut_bcw u)" "units_good V lat now u"
  for V lat now u
  by unfold_locales
    (rule issues_good, assumption, rule single_keeps, auto simp: units_good_def)

interpretation rots: safe_queue "issue_rot V lat now (ut_rot u) (ut_tra u)" "units_good V lat now u"
  for V lat now u
  by unfold_locales
    (rule issues_good, assumption, rule rot_keeps, auto simp: units_good_def)

interpretation ntts: safe_queue "issue_ntt V lat now (ut_bcr u) (ut_ntt u) (ut_tra u)"
  "units_good V lat now u" for V lat now u
  by unfold_locales
    (rule issues_good, assumption, rule ntt_keeps, auto simp: units_good_def)

interpretation suds: safe_queue
  "issue_sud V lat now (ut_bcr u) (ut_add u) (ut_mul u) (ut_ntt u) (ut_tra u)"
  "units_good V lat now u" for V lat now u
  by unfold_locales
    (rule issues_good, assumption, rule sud_keeps, auto simp: units_good_def)

interpretation pl1s: safe_queue "issue_pl1 V lat now (ut_ntt u) (ut_tra u) (ut_bcw u)"
  "units_good V lat now u" for V lat now u
  by unfold_locales
    (rule issues_good, assumption, rule pl1_keeps, auto simp: units_good_def)

interpretation bcis: safe_queue "issue_bci now" "units_good V lat now u" for V lat now u
  by unfold_locales
    (rule issues_good, assumption, rule bci_keeps, auto simp: units_good_def)

lemmas ticks = AddQueue_tick_def MulQueue_tick_def EvgQueue_tick_def RsvQueue_tick_def
  ModQueue_tick_def BcwQueue_tick_def RotQueue_tick_def NttQueue_tick_def SuDQueue_tick_def
  Pl1Queue_tick_def BciQueue_tick_def

lemma tick_keeps:
  assumes "(if q = [] then Inr (q, s) else scan issue q s) = Inr (q', s')"
    and "safe_queue issue (units_good V lat now u)" "units_good V lat now u s"
  shows "units_good V lat now u s'"
  using assms safe_queue.scan_keeps [of issue "units_good V lat now u"] by (auto split: if_splits)

lemmas queue_keeps =
  tick_keeps [OF _ adds.safe_queue_axioms, folded AddQueue_tick_def]
  tick_keeps [OF _ muls.safe_queue_axioms, folded MulQueue_tick_def]
  tick_keeps [OF _ evgs.safe_queue_axioms, folded EvgQueue_tick_def]
  tick_keeps [OF _ rsvs.safe_queue_axioms, folded RsvQueue_tick_def]
  tick_keeps [OF _ mods.safe_queue_axioms, folded ModQueue_tick_def]
  tick_keeps [OF _ bcws.safe_queue_axioms, folded BcwQueue_tick_def]
  tick_keeps [OF _ rots.safe_queue_axioms, folded RotQueue_tick_def]
  tick_keeps [OF _ ntts.safe_queue_axioms, folded NttQueue_tick_def]
  tick_keeps [OF _ suds.safe_queue_axioms, folded SuDQueue_tick_def]
  tick_keeps [OF _ pl1s.safe_queue_axioms, folded Pl1Queue_tick_def]
  tick_keeps [OF _ bcis.safe_queue_axioms, folded BciQueue_tick_def]

lemma tick_queues_keep:
  assumes "tick_queues V lat now u q s = Inr (q', s')" "units_good V lat now u s"
  shows "units_good V lat now u s'"
  using assms unfolding tick_queues_def
  by (auto simp: bindr_Inr_iff dest!: queue_keeps)

section \<open>Running the units\<close>

lemma begin_units_all:
  "begin_units V now rf us = Inr us' \<Longrightarrow> list_all2 (\<lambda>u u'. fu_begin V now rf u = Inr u') us us'"
  by (induction us arbitrary: us') (auto simp: bindr_Inr_iff)

lemma end_units_all:
  "end_units V now us rf w = Inr (us', rf', w') \<Longrightarrow>
   list_all2 (\<lambda>u u'. \<exists>r r' n. fu_end V now u r = Inr (u', r', n)) us us'"
proof (induction us arbitrary: us' rf w)
  case (Cons u us)
  then obtain v r n vs r' m where e: "fu_end V now u rf = Inr (v, r, n)"
    "end_units V now us r (w + n) = Inr (vs, r', m)" "us' = v # vs" "r' = rf'" "m = w'"
    by (auto simp: bindr_Inr_iff)
  from e(1,3) Cons.IH [OF e(2) [unfolded e(4,5)]] show ?case by auto
qed simp

lemma run_units_all:
  assumes "begin_units V now rf us = Inr us1" "end_units V now us1 rf1 w = Inr (us2, rf2, w2)"
    and "\<forall>u \<in> set us. fu_inv now u"
  shows "(\<forall>u \<in> set us2. fu_inv (Suc now) u) \<and> map fu_vecDepth us2 = map fu_vecDepth us"
proof -
  have step: "fu_inv (Suc now) u2 \<and> fu_vecDepth u2 = fu_vecDepth u"
    if "fu_inv now u" "fu_begin V now rf u = Inr u1" "fu_end V now u1 r = Inr (u2, r', n)"
    for u u1 u2 r r' n
    using fu_inv_cycle [OF that] fu_begin_effect [OF that(2)] fu_end_effect [OF that(3)] by simp
  have l: "length us1 = length us" "length us2 = length us1"
    using begin_units_all [OF assms(1)] end_units_all [OF assms(2)] by (auto dest: list_all2_lengthD)
  have "fu_inv (Suc now) (us2 ! k) \<and> fu_vecDepth (us2 ! k) = fu_vecDepth (us ! k)"
    if "k < length us" for k
    using step [of "us ! k" "us1 ! k" _ "us2 ! k"] assms(3) that l
      list_all2_nthD [OF begin_units_all [OF assms(1)], of k]
      list_all2_nthD [OF end_units_all [OF assms(2)], of k] by auto
  then show ?thesis using l by (auto simp: list_eq_iff_nth_eq in_set_conv_nth)
qed

text \<open>\<open>w\<close>: the requests of the memory unit are at least a byte wide.\<close>

definition chip_inv :: "bool \<Rightarrow> nat \<Rightarrow> latencies \<Rightarrow> nat \<Rightarrow> chip \<Rightarrow> bool" where
  "chip_inv w V lat now c \<longleftrightarrow> units_good V lat now (ch_units c) (ch_sched c) \<and> (w \<longrightarrow> mem_inv (ch_mem c))"

lemma run_units_inv:
  assumes "run_units V now c = Inr c'" "chip_inv w V lat now c"
  shows "chip_inv w V lat (Suc now) c'"
proof -
  have "\<exists>m m' rf fus fus' rf' n bcus rf''.
    mem_begin now (ch_rf c) (ch_mem c) = Inr m \<and>
    begin_units V now (ch_rf c) (sc_fus (ch_sched c)) = Inr fus \<and>
    mem_end m (ch_rf c) = Inr (m', rf) \<and>
    end_units V now fus rf (ch_window c) = Inr (fus', rf', n) \<and>
    c' = c\<lparr>ch_mem := m', ch_window := n,
       ch_sched := \<lparr>sc_fus = fus', sc_bcus = bcus, sc_rf = rf''\<rparr>\<rparr>"
    using assms(1) unfolding run_units_def Let_def bindr_Inr_iff split_paired_Ex prod.case
    by (elim exE conjE) (drule Inr_inject, drule sym, intro exI conjI; assumption)
  then obtain m m' rf fus fus' rf' n bcus rf'' where r:
    "mem_begin now (ch_rf c) (ch_mem c) = Inr m"
    "begin_units V now (ch_rf c) (sc_fus (ch_sched c)) = Inr fus"
    "mem_end m (ch_rf c) = Inr (m', rf)"
    "end_units V now fus rf (ch_window c) = Inr (fus', rf', n)"
    "c' = c\<lparr>ch_mem := m', ch_window := n,
       ch_sched := \<lparr>sc_fus = fus', sc_bcus = bcus, sc_rf = rf''\<rparr>\<rparr>"
    by (elim exE conjE)
  have m: "w \<longrightarrow> mem_inv (ch_mem c)" "units_good V lat now (ch_units c) (ch_sched c)"
    using assms(2) by (simp_all add: chip_inv_def)
  have "w \<longrightarrow> mem_inv m'"
  proof
    assume w
    with m(1) obtain v where v: "mem_begin now (ch_rf c) (ch_mem c) = Inr v" "mem_inv v"
      using mem_begin_ok by blast
    then have "v = m" using r(1) by simp
    with v(2) have "mem_inv m" by (simp only:)
    then show "mem_inv m'" by (rule mem_end_inv [OF _ r(3)])
  qed
  moreover have "(\<forall>u \<in> set fus'. fu_inv (Suc now) u) \<and>
      map fu_vecDepth fus' = map fu_vecDepth (sc_fus (ch_sched c))"
    using run_units_all [OF r(2,4)] m(2) by (simp add: units_good_def sched_inv_def)
  then have "units_good V lat (Suc now) (ch_units c')  (ch_sched c')"
    by - (rule units_good_depths [of V lat now _ "ch_sched c"],
      use m(2) in \<open>simp_all add: r(5) sched_inv_def depths_def\<close>)
  ultimately show ?thesis by (simp add: chip_inv_def r(5))
qed

section \<open>Dispatch\<close>

text \<open>A dispatch books no unit, and leaves the memory unit in order.\<close>

definition quiet :: "chip \<Rightarrow> chip \<Rightarrow> bool" where
  "quiet c c' \<longleftrightarrow> sc_fus (ch_sched c') = sc_fus (ch_sched c) \<and> ch_units c' = ch_units c \<and>
     (mem_inv (ch_mem c) \<longrightarrow> mem_inv (ch_mem c'))"

definition quiets :: "chip \<Rightarrow> (bool \<times> chip) res \<Rightarrow> bool" where
  "quiets c m \<longleftrightarrow> (\<forall>b c'. m = Inr (b, c') \<longrightarrow> quiet c c')"

lemma quiet_refl [simp]: "quiet c c"
  by (simp add: quiet_def)

lemma quiet_trans: "quiet a b \<Longrightarrow> quiet b c \<Longrightarrow> quiet a c"
  by (simp add: quiet_def)

lemma quiet_frame [simp]:
  "quiet c (set_rf rf d) = quiet c d" "quiet c (set_q f d) = quiet c d"
  "quiet c (d\<lparr>ch_dis := x\<rparr>) = quiet c d" "quiet c (d\<lparr>ch_terms := t, ch_numTerms := n\<rparr>) = quiet c d"
  "quiet c (d\<lparr>ch_fetched := p, ch_reader := l\<rparr>) = quiet c d"
  "quiet c (d\<lparr>ch_numInstructions := k\<rparr>) = quiet c d"
  by (simp_all add: quiet_def set_rf_def set_q_def)

lemma quiets_guard: "(b \<Longrightarrow> quiets c m) \<Longrightarrow> quiets c (guardr b e m)"
  by (auto simp: quiets_def guardr_def)

lemma quiets_if: "(b \<Longrightarrow> quiets c m) \<Longrightarrow> (\<not> b \<Longrightarrow> quiets c n) \<Longrightarrow> quiets c (if b then m else n)"
  by simp

lemma quiets_prod:
  "(\<And>a b. x = (a, b) \<Longrightarrow> quiets c (f a b)) \<Longrightarrow> quiets c (case x of (a, b) \<Rightarrow> f a b)"
  by (cases x) auto

lemma quiets_option:
  "(x = None \<Longrightarrow> quiets c m) \<Longrightarrow> (\<And>y. x = Some y \<Longrightarrow> quiets c (f y)) \<Longrightarrow>
   quiets c (case x of None \<Rightarrow> m | Some y \<Rightarrow> f y)"
  by (cases x) auto

lemma quiets_bind: "(\<And>x. m = Inr x \<Longrightarrow> quiets c (f x)) \<Longrightarrow> quiets c (bindr m f)"
  by (cases m) (auto simp: quiets_def)

lemma quiets_value: "quiet c d \<Longrightarrow> quiets c (Inr (b, d))"
  by (simp add: quiets_def)

lemma quiets_error: "quiets c (Inl e)"
  by (simp add: quiets_def)

lemmas quiets_rules = quiets_guard quiets_if quiets_prod quiets_option quiets_bind quiets_value
  quiets_error

lemma quiet_alu:
  "quiets c (dispatchBinOp p c)" "quiets c (dispatchUnOp p c)" "quiets c (dispatchEvg p c)"
  "quiets c (dispatchNtt p c)" "quiets c (dispatchSuD p c)" "quiets c (dispatchBci p c)"
  "quiets c (dispatchPl1 p c)" "quiets c (dispatchBcw p c)" "quiets c (dispatchMov p c)"
  "quiets c (dispatchRsv p c)" "quiets c (dispatchMod p c)" "quiets c (dispatchDis p c)"
  "quiets c (dispatchJoi p c)"
  unfolding dispatchBinOp_def dispatchUnOp_def dispatchEvg_def dispatchNtt_def dispatchSuD_def
    dispatchBci_def dispatchPl1_def dispatchBcw_def dispatchMov_def dispatchRsv_def
    dispatchMod_def dispatchDis_def dispatchJoi_def Let_def
  by ((intro quiets_rules; (simp split: opcode.split parsed_value.split)?;
       (intro quiets_rules conjI impI allI)?; (simp split: parsed_value.split)?;
       (intro quiets_rules conjI impI allI)?; simp)+)

lemma store_alias_subset:
  "store_alias_walk addr qs older past rf = Inr (r, q, rf') \<Longrightarrow> set q \<subseteq> set older \<union> set past"
proof (induction addr qs older past rf rule: store_alias_walk.induct)
  case (2 addr qs i older past rf)
  then obtain a where a: "getAddr i = Inr a" by (auto simp: bindr_Inr_iff)
  show ?case
  proof (cases "a = addr")
    case True
    then show ?thesis using 2(2) a by (auto simp: bindr_Inr_iff split: if_splits)
  next
    case False
    then show ?thesis using 2(1) [OF a] 2(2) a by auto
  qed
qed simp

lemma mem_inv_queues:
  "mem_inv u \<Longrightarrow> set l \<subseteq> set (mu_load u) \<union> {i. mem_instr i} \<Longrightarrow>
   set st \<subseteq> set (mu_store u) \<union> {i. mem_instr i} \<Longrightarrow> mem_inv (u\<lparr>mu_load := l, mu_store := st\<rparr>)"
  using slots_inv_fields [of "u\<lparr>mu_load := l, mu_store := st\<rparr>" u] by (auto simp: mem_inv_def)

lemma findStoreAlias_inv:
  assumes "findStoreAlias addr qs u rf = Inr (r, u', rf')" "mem_inv u"
  shows "mem_inv u'"
proof -
  obtain q where q: "store_alias_walk addr qs (rev (mu_store u)) [] rf = Inr (r, q, rf')"
    "u' = u\<lparr>mu_store := q\<rparr>"
    using assms(1) by (auto simp: findStoreAlias_def bindr_Inr_iff)
  have "u' = u\<lparr>mu_load := mu_load u, mu_store := q\<rparr>" using q(2) by simp
  moreover have "set q \<subseteq> set (mu_store u) \<union> {i. mem_instr i}"
    using store_alias_subset [OF q(1)] by auto
  ultimately show ?thesis using mem_inv_queues [OF assms(2), of "mu_load u" q] by simp
qed

lemma add_queue_inv:
  "mem_inv u \<Longrightarrow> mem_instr i \<Longrightarrow> mem_inv (addToLoadQueue i u)"
  "mem_inv u \<Longrightarrow> mem_instr i \<Longrightarrow> mem_inv (addToStoreQueue i u)"
  using mem_inv_queues [of u "mu_load u @ [i]" "mu_store u"]
    mem_inv_queues [of u "mu_load u" "mu_store u @ [i]"]
  by (auto simp: addToLoadQueue_def addToStoreQueue_def)

lemma mk_Mem_instr:
  "mk_Mem op r a limbSize = Inr i \<Longrightarrow> op \<in> {LoadV, Store, Spill} \<Longrightarrow> mem_instr i"
  by (auto simp: mk_Mem_def guardr_Inr_iff mem_instr_def limbSize_def)

lemma quiet_mem:
  "(mem_inv (ch_mem c) \<Longrightarrow> mem_inv m) \<Longrightarrow> quiet c (c\<lparr>ch_mem := m\<rparr>)"
  by (simp add: quiet_def)

lemma quiet_store:
  assumes "op \<in> {Store, Spill}"
  shows "quiets c (dispatch_store qs op addr dest c)"
  unfolding dispatch_store_def using assms
  by (intro quiets_rules)
    (auto intro!: quiet_mem add_queue_inv intro: findStoreAlias_inv mk_Mem_instr)

lemma quiet_loadv: "quiets c (dispatch_loadv addr dest c)"
proof -
  have "quiet c (set_rf rf' (set_rf rf (c\<lparr>ch_mem := m\<rparr>)))"
    "quiet c (set_rf rf (c\<lparr>ch_mem := m\<rparr>))"
    "mk_Mem LoadV r addr limbSize = Inr i \<Longrightarrow>
     quiet c (set_rf rf' ((set_rf rf (c\<lparr>ch_mem := m\<rparr>))\<lparr>ch_mem := addToLoadQueue i m\<rparr>))"
    if "findStoreAlias addr False (ch_mem c) (ch_rf c) = Inr (al, m, rf)" for al m rf rf' r i
    using that findStoreAlias_inv [OF that] mk_Mem_instr [of LoadV]
    by (auto simp: quiet_def set_rf_def intro: add_queue_inv)
  then show ?thesis unfolding dispatch_loadv_def Let_def
    by (intro quiets_rules) auto
qed

lemma quiet_loads: "quiets c (dispatch_loads addr dest c)"
  unfolding dispatch_loads_def by (intro quiets_rules) auto

lemma quiets_trans: "quiet c d \<Longrightarrow> quiets d m \<Longrightarrow> quiets c m"
  by (auto simp: quiets_def intro: quiet_trans)

lemma quiet_term: "term_address t c = (a, d) \<Longrightarrow> quiet c d"
  by (auto simp: term_address_def Let_def split: option.splits)

lemma quiet_memory: "quiets c (dispatchMemory p c)"
proof -
  have *: "quiets c (let (addr, c) = term_address t c; dest = pi_dests p ! 0 in
         case pi_op p of
           Store \<Rightarrow> dispatch_store True Store addr dest c
         | Spill \<Rightarrow> dispatch_store False Spill addr dest c
         | LoadV \<Rightarrow> dispatch_loadv addr dest c
         | LoadS \<Rightarrow> dispatch_loads addr dest c
         | _ \<Rightarrow> Inr (True, c))" for t
  proof -
    obtain a d where d: "term_address t c = (a, d)" by force
    show ?thesis unfolding d Let_def prod.case
      by (rule quiets_trans [OF quiet_term [OF d]])
        (auto split: opcode.split intro: quiet_store quiet_loadv quiet_loads quiets_value)
  qed
  show ?thesis unfolding dispatchMemory_def
    by (intro quiets_guard) (simp only: parsed_value.split, intro conjI allI impI * quiets_error)
qed

lemma dispatch_one_quiet:
  assumes "dispatch_one p c = Inr (b, p', c')"
  shows "quiet c c'"
proof -
  have k: "bindr m (\<lambda>(b, c). Inr (b, q, c)) = Inr (b, p', c') \<Longrightarrow> quiets c m \<Longrightarrow> quiet c c'" for m q
    by (auto simp: bindr_Inr_iff quiets_def)
  note q = quiet_alu quiet_memory
  show ?thesis using assms unfolding dispatch_one_def Let_def
    by (cases "pi_op p") (auto split: if_splits intro: k q)
qed

lemma dispatch_loop_quiet: "dispatch_loop lines p c = Inr c' \<Longrightarrow> quiet c c'"
proof (induction lines p c rule: dispatch_loop.induct)
  case (1 p c)
  then show ?case
    by (auto simp: bindr_Inr_iff split: if_splits dest!: dispatch_one_quiet)
next
  case (2 l lines p c)
  then obtain b p' d where d: "dispatch_one p c = Inr (b, p', d)" by (auto simp: bindr_Inr_iff)
  note q = dispatch_one_quiet [OF d]
  show ?case
  proof (cases b)
    case False
    then show ?thesis using 2(2) d q by auto
  next
    case True
    with 2(2) d obtain x r where x: "readNextInstruction (l # lines) = Inr (x, r)"
      by (auto simp: bindr_Inr_iff)
    let ?d = "d\<lparr>ch_numInstructions := ch_numInstructions d + 1\<rparr>"
    show ?thesis
    proof (cases x)
      case None
      then show ?thesis using 2(2) d x q True by auto
    next
      case (Some p'')
      have "dispatch_loop lines p'' ?d = Inr c'" using 2(2) d x True Some by simp
      then have "quiet ?d c'" using 2(1) [OF d refl refl] True x Some by simp
      with q show ?thesis by (simp add: quiet_def)
    qed
  qed
qed

lemma dispatch_all_quiet:
  assumes "dispatch_all c = Inr c'"
  shows "quiet c c'"
proof -
  obtain d where d: "fetch c = Inr d" using assms by (auto simp: dispatch_all_def bindr_Inr_iff)
  then have "quiet c d" by (auto simp: fetch_def bindr_Inr_iff quiet_def split: option.splits)
  moreover have "quiet d c'" using assms d
    by (auto simp: dispatch_all_def split: option.splits intro: dispatch_loop_quiet)
  ultimately show ?thesis by (rule quiet_trans)
qed

section \<open>A cycle\<close>

lemma chip_inv_quiet:
  assumes "quiet c d" "chip_inv w V lat now c"
  shows "chip_inv w V lat now d"
proof -
  have "sc_fus (ch_sched d) = sc_fus (ch_sched c)" using assms(1) by (simp add: quiet_def)
  then have "depths (ch_sched d) = depths (ch_sched c)"
    "sched_inv now (ch_sched d) = sched_inv now (ch_sched c)"
    by (simp_all add: depths_def sched_inv_def)
  with assms units_good_depths [of V lat now "ch_units c" "ch_sched c" now "ch_sched d"]
  show ?thesis by (simp add: chip_inv_def quiet_def units_good_def)
qed

lemma chip_tick_inv:
  assumes "chip_tick V lat now c nw = Inr (b, c', nw')" "chip_inv w V lat now c"
  shows "chip_inv w V lat (Suc now) c'"
proof -
  obtain d where d: "dispatch_all c = Inr d" using assms(1)
    by (auto simp: chip_tick_def bindr_Inr_iff)
  let ?d = "if now mod 100000 = 0 then d\<lparr>ch_window := 0\<rparr> else d"
  have id: "chip_inv w V lat now ?d"
    using chip_inv_quiet [OF dispatch_all_quiet [OF d] assms(2)] by (simp add: chip_inv_def)
  obtain q s where q: "tick_queues V lat now (ch_units ?d) (ch_queues ?d) (ch_sched ?d) = Inr (q, s)"
    using assms(1) d by (auto simp: chip_tick_def bindr_Inr_iff Let_def)
  let ?e = "?d\<lparr>ch_queues := q, ch_sched := s\<rparr>"
  have ie: "chip_inv w V lat now ?e"
    using id tick_queues_keep [OF q] by (auto simp: chip_inv_def)
  obtain x rf n where x: "DisQueue_tick (ch_id ?e) (ch_dis ?e) (ch_rf ?e) nw = Inr (x, rf, n)"
    using assms(1) d q by (auto simp: chip_tick_def bindr_Inr_iff Let_def)
  let ?f = "set_rf rf (?e\<lparr>ch_dis := x\<rparr>)"
  have "run_units V now ?f = Inr c'"
    using assms(1) d q x by (auto simp: chip_tick_def bindr_Inr_iff Let_def)
  moreover have "chip_inv w V lat now ?f"
    by (rule chip_inv_quiet [OF _ ie]) simp
  ultimately show ?thesis by (rule run_units_inv)
qed

end
