(* ===== verification/ChipProgress.thy ===== *)
theory ChipProgress
  imports ChipInvariant
begin

text \<open>
  When the queues of a chip cannot fail, and what a tick of all eleven of them does to the
  references: the instructions that leave the queues are booked in the calendars, and on every
  register there was, what queues and calendars hold together stays the same.

  Also what the constructor of a chip establishes.
\<close>

section \<open>All queues\<close>

definition queued :: "queues \<Rightarrow> instr list" where
  "queued q = q_add q @ q_mul q @ q_rot q @ q_evg q @ q_ntt q @ q_sud q @ q_bci q @ q_bcw q @
     q_pl1 q @ q_rsv q @ q_mod q"

text \<open>
  What the dispatch puts into each queue: instructions of the queue's kind on registers that exist.
  An \<open>IntOp\<close> into a base conversion register fails an assertion of the transform queue.
\<close>

definition queues_valid :: "regfile \<Rightarrow> queues \<Rightarrow> bool" where
  "queues_valid rf q \<longleftrightarrow> (\<forall>i \<in> set (queued q). ops_valid rf i) \<and>
     (\<forall>i \<in> set (q_add q @ q_mul q @ q_rot q @ q_evg q @ q_bcw q @ q_rsv q @ q_mod q). \<not> is_NttI i) \<and>
     (\<forall>i \<in> set (q_ntt q). ntt_accepts i) \<and> (\<forall>i \<in> set (q_sud q). is_SuDI i) \<and>
     (\<forall>i \<in> set (q_bci q). is_BciI i) \<and> (\<forall>i \<in> set (q_pl1 q). is_Pl1I i)"

definition all_units :: "unit_table \<Rightarrow> nat list" where
  "all_units u = ut_add u @ ut_mul u @ ut_bcw u @ ut_bcr u @ ut_ntt u @ ut_tra u @ ut_rot u @
     ut_evg u @ ut_rsv u @ ut_mod u"

definition units_total :: "nat \<Rightarrow> latencies \<Rightarrow> nat \<Rightarrow> unit_table \<Rightarrow> sched \<Rightarrow> bool" where
  "units_total V lat now u s \<longleftrightarrow> 2 \<le> V \<and> V \<le> lat_Transpose lat + lat_Rot_one_stage lat \<and>
     distinct (all_units u) \<and> units_good V lat now u s"

lemma units_total_step:
  "units_total V lat now u s \<Longrightarrow> sched_inv now s' \<Longrightarrow> depths s' = depths s \<Longrightarrow>
   units_total V lat now u s'"
  using units_good_depths by (auto simp: units_total_def)

lemma not_NttI_keeps: "\<not> is_NttI i \<Longrightarrow> lost_regs i = []"
  by (cases i rule: lost_regs.cases) simp_all

text \<open>
  One queue's tick in state \<open>t\<close>, which the ticks before it have reached from \<open>s\<close>: it succeeds, and
  moves what leaves the queue into the calendars.
\<close>

definition ticked :: "nat \<Rightarrow> latencies \<Rightarrow> nat \<Rightarrow> unit_table \<Rightarrow> sched \<Rightarrow> instr list \<Rightarrow> sched
    \<Rightarrow> (instr list \<times> sched) res \<Rightarrow> bool" where
  "ticked V lat now u s q t m \<longleftrightarrow> (\<exists>q' t'. m = Inr (q', t') \<and> units_total V lat now u t' \<and>
     rf_kept (sc_rf s) (sc_rf t') \<and> subseq q' q \<and>
     (\<forall>r. valid_reg (sc_rf s) r \<longrightarrow>
        held_booked t' r + kept_all q' r = held_booked t r + kept_all q r) \<and>
     (\<forall>b. bc_held_booked t' b + bc_held_all q' b = bc_held_booked t b + bc_held_all q b))"

lemma scan_ticked:
  assumes queue: "issue_queue issue good acc" and good: "good t"
    and inv: "\<forall>t. good t \<longrightarrow> sched_inv now t"
    and t: "units_total V lat now u t" "rf_kept (sc_rf s) (sc_rf t)"
    and q: "\<forall>i \<in> set q. acc i \<and> ops_valid (sc_rf s) i"
  shows "ticked V lat now u s q t (if q = [] then Inr (q, t) else scan issue q t)"
proof -
  have "\<forall>i \<in> set q. acc i \<and> ops_valid (sc_rf t) i" using q ops_valid_kept [OF t(2)] by blast
  from issue_queue.scan_spec [OF queue good this] obtain q' t' where t':
    "scan issue q t = Inr (q', t')" "good t'" "subseq q' q" "rf_kept (sc_rf t) (sc_rf t')"
    "depths t' = depths t" "\<forall>r. valid_reg (sc_rf t) r \<longrightarrow>
       held_booked t' r + kept_all q' r = held_booked t r + kept_all q r"
    "\<forall>b. bc_held_booked t' b + bc_held_all q' b = bc_held_booked t b + bc_held_all q b" by blast
  have "(if q = [] then Inr (q, t) else scan issue q t) = scan issue q t" by simp
  moreover have "units_total V lat now u t'"
    by (rule units_total_step [OF t(1) inv [rule_format, OF t'(2)] t'(5)])
  moreover have "rf_kept (sc_rf s) (sc_rf t')" by (rule rf_kept_trans [OF t(2) t'(4)])
  ultimately show ?thesis
    using t' rf_kept_valid [OF t(2)] unfolding ticked_def by metis
qed

text \<open>The conditions of each queue follow from those of the chip.\<close>

lemma goods:
  assumes "units_total V lat now u s"
  shows "single_good V 0 now (ut_add u) s" "single_good V (lat_Mul lat) now (ut_mul u) s"
    "single_good V (lat_Evg lat) now (ut_evg u) s" "single_good V (lat_Rsv lat) now (ut_rsv u) s"
    "single_good V (lat_Mod lat) now (ut_mod u) s" "single_good V 0 now (ut_bcw u) s"
    "rot_good V lat now (ut_rot u) (ut_tra u) s"
    "ntt_good V lat now (ut_bcr u) (ut_ntt u) (ut_tra u) s"
    "sud_good V lat now (ut_bcr u) (ut_add u) (ut_mul u) (ut_ntt u) (ut_tra u) s"
    "pl1_good V lat now (ut_ntt u) (ut_tra u) (ut_bcw u) s" "sched_inv now s"
  using assms
  by (auto simp: units_total_def units_good_def single_good_def rot_good_def ntt_good_def
      sud_good_def pl1_good_def all_units_def intro: units_ok_mono)

lemma good_sched:
  "\<forall>s. single_good V ex now us s \<longrightarrow> sched_inv now s" "\<forall>s. rot_good V lat now a b s \<longrightarrow> sched_inv now s"
  "\<forall>s. ntt_good V lat now a b c s \<longrightarrow> sched_inv now s"
  "\<forall>s. sud_good V lat now a b c d e s \<longrightarrow> sched_inv now s"
  "\<forall>s. pl1_good V lat now a b c s \<longrightarrow> sched_inv now s" "\<forall>s. sched_inv now s \<longrightarrow> sched_inv now s"
  by (simp_all add: single_good_def rot_good_def ntt_good_def sud_good_def pl1_good_def)

text \<open>The eleven queues; the accepted instructions are those \<open>queues_valid\<close> lists.\<close>

lemma queue_ticked:
  assumes t: "units_total V lat now u t" "rf_kept (sc_rf s) (sc_rf t)"
    and v: "queues_valid (sc_rf s) q"
  shows "ticked V lat now u s (q_add q) t (AddQueue_tick V now (ut_add u) (q_add q) t)"
    and "ticked V lat now u s (q_mul q) t (MulQueue_tick V lat now (ut_mul u) (q_mul q) t)"
    and "ticked V lat now u s (q_rot q) t (RotQueue_tick V lat now (ut_rot u) (ut_tra u) (q_rot q) t)"
    and "ticked V lat now u s (q_evg q) t (EvgQueue_tick V lat now (ut_evg u) (q_evg q) t)"
    and "ticked V lat now u s (q_ntt q) t (NttQueue_tick V lat now (ut_bcr u) (ut_ntt u) (ut_tra u) (q_ntt q) t)"
    and "ticked V lat now u s (q_sud q) t (SuDQueue_tick V lat now (ut_bcr u) (ut_add u) (ut_mul u) (ut_ntt u) (ut_tra u) (q_sud q) t)"
    and "ticked V lat now u s (q_bci q) t (BciQueue_tick now (q_bci q) t)"
    and "ticked V lat now u s (q_bcw q) t (BcwQueue_tick V now (ut_bcw u) (q_bcw q) t)"
    and "ticked V lat now u s (q_pl1 q) t (Pl1Queue_tick V lat now (ut_ntt u) (ut_tra u) (ut_bcw u) (q_pl1 q) t)"
    and "ticked V lat now u s (q_rsv q) t (RsvQueue_tick V lat now (ut_rsv u) (q_rsv q) t)"
    and "ticked V lat now u s (q_mod q) t (ModQueue_tick V lat now (ut_mod u) (q_mod q) t)"
proof -
  note valid = v [unfolded queues_valid_def queued_def set_append]
  have q: "\<forall>i \<in> set (q_add q). lost_regs i = [] \<and> ops_valid (sc_rf s) i"
    "\<forall>i \<in> set (q_mul q). lost_regs i = [] \<and> ops_valid (sc_rf s) i"
    "\<forall>i \<in> set (q_rot q). lost_regs i = [] \<and> ops_valid (sc_rf s) i"
    "\<forall>i \<in> set (q_evg q). lost_regs i = [] \<and> ops_valid (sc_rf s) i"
    "\<forall>i \<in> set (q_ntt q). ntt_accepts i \<and> ops_valid (sc_rf s) i"
    "\<forall>i \<in> set (q_sud q). is_SuDI i \<and> ops_valid (sc_rf s) i"
    "\<forall>i \<in> set (q_bci q). is_BciI i \<and> ops_valid (sc_rf s) i"
    "\<forall>i \<in> set (q_bcw q). lost_regs i = [] \<and> ops_valid (sc_rf s) i"
    "\<forall>i \<in> set (q_pl1 q). is_Pl1I i \<and> ops_valid (sc_rf s) i"
    "\<forall>i \<in> set (q_rsv q). lost_regs i = [] \<and> ops_valid (sc_rf s) i"
    "\<forall>i \<in> set (q_mod q). lost_regs i = [] \<and> ops_valid (sc_rf s) i"
    using valid not_NttI_keeps by simp_all
  note F = scan_ticked [OF single.issue_queue_axioms goods(1) [OF t(1)] good_sched(1) t q(1)]
      scan_ticked [OF single.issue_queue_axioms goods(2) [OF t(1)] good_sched(1) t q(2)]
      scan_ticked [OF rot.issue_queue_axioms goods(7) [OF t(1)] good_sched(2) t q(3)]
      scan_ticked [OF single.issue_queue_axioms goods(3) [OF t(1)] good_sched(1) t q(4)]
      scan_ticked [OF ntt.issue_queue_axioms goods(8) [OF t(1)] good_sched(3) t q(5)]
      scan_ticked [OF sud.issue_queue_axioms goods(9) [OF t(1)] good_sched(4) t q(6)]
      scan_ticked [OF bci.issue_queue_axioms goods(11) [OF t(1)] good_sched(6) t q(7)]
      scan_ticked [OF single.issue_queue_axioms goods(6) [OF t(1)] good_sched(1) t q(8)]
      scan_ticked [OF pl1.issue_queue_axioms goods(10) [OF t(1)] good_sched(5) t q(9)]
      scan_ticked [OF single.issue_queue_axioms goods(4) [OF t(1)] good_sched(1) t q(10)]
      scan_ticked [OF single.issue_queue_axioms goods(5) [OF t(1)] good_sched(1) t q(11)]
  show "ticked V lat now u s (q_add q) t (AddQueue_tick V now (ut_add u) (q_add q) t)"
    "ticked V lat now u s (q_mul q) t (MulQueue_tick V lat now (ut_mul u) (q_mul q) t)"
    "ticked V lat now u s (q_rot q) t (RotQueue_tick V lat now (ut_rot u) (ut_tra u) (q_rot q) t)"
    "ticked V lat now u s (q_evg q) t (EvgQueue_tick V lat now (ut_evg u) (q_evg q) t)"
    "ticked V lat now u s (q_ntt q) t (NttQueue_tick V lat now (ut_bcr u) (ut_ntt u) (ut_tra u) (q_ntt q) t)"
    "ticked V lat now u s (q_sud q) t (SuDQueue_tick V lat now (ut_bcr u) (ut_add u) (ut_mul u) (ut_ntt u) (ut_tra u) (q_sud q) t)"
    "ticked V lat now u s (q_bci q) t (BciQueue_tick now (q_bci q) t)"
    "ticked V lat now u s (q_bcw q) t (BcwQueue_tick V now (ut_bcw u) (q_bcw q) t)"
    "ticked V lat now u s (q_pl1 q) t (Pl1Queue_tick V lat now (ut_ntt u) (ut_tra u) (ut_bcw u) (q_pl1 q) t)"
    "ticked V lat now u s (q_rsv q) t (RsvQueue_tick V lat now (ut_rsv u) (q_rsv q) t)"
    "ticked V lat now u s (q_mod q) t (ModQueue_tick V lat now (ut_mod u) (q_mod q) t)"
    unfolding ticks by (rule F)+
qed

lemma ticked_bind:
  assumes "ticked V lat now u s q t m"
    and "\<And>q' t'. m = Inr (q', t') \<Longrightarrow> units_total V lat now u t' \<Longrightarrow>
      rf_kept (sc_rf s) (sc_rf t') \<Longrightarrow> subseq q' q \<Longrightarrow>
      \<forall>r. valid_reg (sc_rf s) r \<longrightarrow>
        held_booked t' r + kept_all q' r = held_booked t r + kept_all q r \<Longrightarrow>
      \<forall>b. bc_held_booked t' b + bc_held_all q' b = bc_held_booked t b + bc_held_all q b \<Longrightarrow> P (f (q', t'))"
  shows "P (bindr m f)"
  using assms by (auto simp: ticked_def)

text \<open>A tick of all the queues.\<close>

theorem tick_queues_total:
  assumes s: "units_total V lat now u s" and v: "queues_valid (sc_rf s) q"
  shows "\<exists>q' s'. tick_queues V lat now u q s = Inr (q', s') \<and> units_total V lat now u s' \<and>
    rf_kept (sc_rf s) (sc_rf s') \<and> subseq (queued q') (queued q) \<and>
    (\<forall>r. valid_reg (sc_rf s) r \<longrightarrow>
       held_booked s' r + kept_all (queued q') r = held_booked s r + kept_all (queued q) r) \<and>
    (\<forall>b. bc_held_booked s' b + bc_held_all (queued q') b =
       bc_held_booked s b + bc_held_all (queued q) b)"
proof -
  have held: "kept_all (xs @ ys) r = kept_all xs r + kept_all ys r" 
    "bc_held_all (xs @ ys) b = bc_held_all xs b + bc_held_all ys b" for xs ys r b
    by (simp_all add: kept_all_def bc_held_all_def)
  note step = queue_ticked [OF _ _ v]
  show ?thesis unfolding tick_queues_def
    apply (rule ticked_bind [OF step(1) [OF s rf_kept_refl]], simp only: prod.case)
    apply (rule ticked_bind [OF step(2)], assumption, assumption, simp only: prod.case)
    apply (rule ticked_bind [OF step(3)], assumption, assumption, simp only: prod.case)
    apply (rule ticked_bind [OF step(4)], assumption, assumption, simp only: prod.case)
    apply (rule ticked_bind [OF step(5)], assumption, assumption, simp only: prod.case)
    apply (rule ticked_bind [OF step(6)], assumption, assumption, simp only: prod.case)
    apply (rule ticked_bind [OF step(7)], assumption, assumption, simp only: prod.case)
    apply (rule ticked_bind [OF step(8)], assumption, assumption, simp only: prod.case)
    apply (rule ticked_bind [OF step(9)], assumption, assumption, simp only: prod.case)
    apply (rule ticked_bind [OF step(10)], assumption, assumption, simp only: prod.case)
    apply (rule ticked_bind [OF step(11)], assumption, assumption, simp only: prod.case)
    apply (intro exI conjI, rule refl, assumption, assumption)
     apply (simp only: queued_def queues.simps, intro list_emb_append_mono, assumption+)
     apply (intro allI impI, simp only: queued_def queues.simps held, (drule spec, drule (1) mp)+, linarith)
    subgoal premises bc
      apply (rule allI)
      subgoal for b
        using bc(6,12,18,24,30,36,42,48,54,60,66) [THEN spec, of b]
        unfolding queued_def queues.simps held by linarith
      done
    done
qed

end
