(* ===== verification/Machine.thy ===== *)
theory Machine
  imports Accelerator ChipProgress
begin

text \<open>
  The reachable states of the accelerator, as the simulation kernel drives it: cycles of the whole
  machine, and between them deliveries of the memory and of the network in any order. What every
  reachable state satisfies, whatever the traces are.
\<close>

section \<open>Construction\<close>

lemma units_ok_segment:
  assumes "sc_fus s = xs @ replicate n (mk_fu l v) @ ys" "v \<le> d" "i = length xs" "j = i + n"
  shows "units_ok d [i..<j] s"
proof -
  have "fu_vecDepth (mk_fu l v) \<le> d"
    using assms(2) mod_less_eq_dividend [of v "2 ^ 16"] by (simp add: mk_fu_def)
  with assms show ?thesis by (auto simp: units_ok_def nth_append)
qed

lemma mk_chip_units:
  assumes lat: "accel_latencies V = Inr lat"
  shows "units_good V lat now (mk_unit_table p) (ch_sched (mk_chip V lat p k tr))"
proof -
  let ?s = "ch_sched (mk_chip V lat p k tr)"
  let ?a = "replicate (cp_add p) (mk_fu (lat_Add lat) V)"
  let ?m = "replicate (cp_mul p) (mk_fu (lat_Mul lat) V)"
  let ?w = "replicate (cp_bcuBuffs p) (mk_fu (lat_Bcu_write lat) V)"
  let ?r = "replicate (cp_bcu p) (mk_fu (lat_Bcu_read lat) (V * 2))"
  let ?n = "replicate (cp_ntt p) (mk_fu (lat_NTT lat) V)"
  let ?t = "replicate (cp_tra p) (mk_fu (lat_Transpose lat) V)"
  let ?o = "replicate (cp_rot p) (mk_fu (lat_Rot lat) V)"
  let ?e = "replicate (cp_evg p) (mk_fu (lat_Evg lat) V)"
  let ?v = "replicate 1 (mk_fu (lat_Rsv lat) (V * 16))"
  let ?d = "replicate 1 (mk_fu (lat_Mod lat) (V * 16))"
  have fus: "sc_fus ?s = ?a @ ?m @ ?w @ ?r @ ?n @ ?t @ ?o @ ?e @ ?v @ ?d"
    by (simp add: mk_chip_def mk_units_def)
  have deep: "V * 2 \<le> V + lat_Bcu_read lat" "V * 16 \<le> V + lat_Rsv lat" "V * 16 \<le> V + lat_Mod lat"
    using lat by (auto simp: accel_latencies_def Let_def split: if_splits)
  have inv: "sched_inv now ?s"
    by (auto simp: sched_inv_def mk_chip_def mk_units_def)
  note seg = units_ok_segment [where s = ?s]
  show ?thesis unfolding units_good_def mk_unit_table_def Let_def unit_table.simps
    apply (intro conjI inv)
             apply (rule seg [of "[]" _ "lat_Add lat" _ "?m @ ?w @ ?r @ ?n @ ?t @ ?o @ ?e @ ?v @ ?d", OF _ order_refl]; simp add: fus)
            apply (rule seg [of "?a" _ "lat_Mul lat" _ "?w @ ?r @ ?n @ ?t @ ?o @ ?e @ ?v @ ?d", OF _ order_refl]; simp add: fus)
           apply (rule seg [of "?a @ ?m" _ "lat_Bcu_write lat" _ "?r @ ?n @ ?t @ ?o @ ?e @ ?v @ ?d", OF _ order_refl]; simp add: fus)
          apply (rule seg [of "?a @ ?m @ ?w" _ "lat_Bcu_read lat" _ "?n @ ?t @ ?o @ ?e @ ?v @ ?d", OF _ deep(1)]; simp add: fus)
         apply (rule seg [of "?a @ ?m @ ?w @ ?r" _ "lat_NTT lat" _ "?t @ ?o @ ?e @ ?v @ ?d", OF _ order_refl]; simp add: fus)
        apply (rule seg [of "?a @ ?m @ ?w @ ?r @ ?n" _ "lat_Transpose lat" _ "?o @ ?e @ ?v @ ?d", OF _ order_refl]; simp add: fus)
       apply (rule seg [of "?a @ ?m @ ?w @ ?r @ ?n @ ?t" _ "lat_Rot lat" _ "?e @ ?v @ ?d", OF _ order_refl]; simp add: fus)
      apply (rule seg [of "?a @ ?m @ ?w @ ?r @ ?n @ ?t @ ?o" _ "lat_Evg lat" _ "?v @ ?d", OF _ order_refl]; simp add: fus)
     apply (rule seg [of "?a @ ?m @ ?w @ ?r @ ?n @ ?t @ ?o @ ?e" _ "lat_Rsv lat" _ "?d", OF _ deep(2)]; simp add: fus)
    apply (rule seg [of "?a @ ?m @ ?w @ ?r @ ?n @ ?t @ ?o @ ?e @ ?v" _ "lat_Mod lat" _ "[]", OF _ deep(3)]; simp add: fus)
    done
qed

lemma mk_chip_inv:
  "accel_latencies V = Inr lat \<Longrightarrow> chip_inv (0 < cp_requestWidth p) V lat now (mk_chip V lat p k tr)"
  using mk_chip_units [of V lat now p k tr]
  by (simp add: chip_inv_def mem_inv_init) (simp add: mk_chip_def mem_inv_init)

text \<open>The unit table of the constructor gives every unit to one queue kind only.\<close>

lemma mk_table_distinct: "distinct (all_units (mk_unit_table p))"
  by (auto simp: all_units_def mk_unit_table_def Let_def)

lemma mk_chip_total:
  assumes lat: "accel_latencies V = Inr lat" and V: "2 \<le> V"
  shows "units_total V lat now (mk_unit_table p) (ch_sched (mk_chip V lat p k tr))"
proof -
  have "V \<le> lat_Transpose lat" using lat by (auto simp: accel_latencies_def Let_def split: if_splits)
  then show ?thesis
    using mk_chip_units [OF lat] mk_table_distinct V by (simp add: units_total_def)
qed

section \<open>Reachable states\<close>

inductive accel_reach :: "nat \<Rightarrow> chip_params \<Rightarrow> string list list \<Rightarrow> nat \<Rightarrow> accel \<Rightarrow> bool"
  for V p traces where
  power_on: "mk_accel V p traces = Inr a \<Longrightarrow> accel_reach V p traces now a"
| cycle: "accel_reach V p traces now a \<Longrightarrow> accel_tick now a = Inr (b, a') \<Longrightarrow>
    accel_reach V p traces (Suc now) a'"
| from_memory: "accel_reach V p traces now a \<Longrightarrow> k < length (ac_chips a) \<Longrightarrow>
    chip_memResponse t rid (ac_chips a ! k) = Inr c \<Longrightarrow>
    accel_reach V p traces now (a\<lparr>ac_chips := (ac_chips a)[k := c]\<rparr>)"
| from_network: "accel_reach V p traces now a \<Longrightarrow> k < length (ac_chips a) \<Longrightarrow>
    chip_netResponse sid (ac_chips a ! k) = Inr c \<Longrightarrow>
    accel_reach V p traces now (a\<lparr>ac_chips := (ac_chips a)[k := c]\<rparr>)"
| to_network: "accel_reach V p traces now a \<Longrightarrow> handleInput sid port (ac_net a) = Inr nw \<Longrightarrow>
    accel_reach V p traces now (a\<lparr>ac_net := nw\<rparr>)"
| network_timer: "accel_reach V p traces now a \<Longrightarrow> handleOutput sid pt (ac_net a) = Inr nw \<Longrightarrow>
    accel_reach V p traces now (a\<lparr>ac_net := nw\<rparr>)"

definition accel_inv :: "nat \<Rightarrow> chip_params \<Rightarrow> nat \<Rightarrow> accel \<Rightarrow> bool" where
  "accel_inv V p now a \<longleftrightarrow> ac_V a = V \<and> accel_latencies V = Inr (ac_lat a) \<and>
     (\<forall>c \<in> set (ac_chips a). chip_inv (0 < cp_requestWidth p) V (ac_lat a) now c)"

lemma tick_chips_inv:
  "tick_chips V lat now cs nw = Inr (b, cs', nw') \<Longrightarrow> \<forall>c \<in> set cs. chip_inv w V lat now c \<Longrightarrow>
   \<forall>c \<in> set cs'. chip_inv w V lat (Suc now) c"
proof (induction cs arbitrary: nw b cs')
  case (Cons c cs)
  obtain x where x: "chip_tick V lat now c nw = Inr x"
    using Cons.prems(1) by (cases "chip_tick V lat now c nw") auto
  obtain b1 c' nw1 where x': "x = (b1, c', nw1)" by (cases x)
  obtain y where y: "tick_chips V lat now cs nw1 = Inr y"
    using Cons.prems(1) x x' by (cases "tick_chips V lat now cs nw1") auto
  obtain b2 cs2 nw2 where y': "y = (b2, cs2, nw2)" by (cases y)
  have e: "cs' = c' # cs2" "nw2 = nw'" using Cons.prems(1) x x' y y' by auto
  have "chip_inv w V lat (Suc now) c'"
    using chip_tick_inv [OF x [unfolded x']] Cons.prems(2) by simp
  moreover have "\<forall>c \<in> set cs2. chip_inv w V lat (Suc now) c"
    using Cons.IH [OF y [unfolded y' e(2)]] Cons.prems(2) by simp
  ultimately show ?case using e(1) by simp
qed simp

lemma memResponse_inv:
  assumes "chip_memResponse t rid c = Inr c'" "chip_inv w V lat now c"
  shows "chip_inv w V lat now c'"
proof -
  obtain m where m: "handleResponse t rid (ch_mem c) = Inr m"
    using assms(1) by (cases "handleResponse t rid (ch_mem c)") (auto simp: chip_memResponse_def)
  then have c': "c' = c\<lparr>ch_mem := m\<rparr>" using assms(1) by (simp add: chip_memResponse_def)
  have "mem_inv m" if "mem_inv (ch_mem c)"
  proof -
    obtain slot where "mu_out (ch_mem c) rid = Some slot"
      using m by (cases "mu_out (ch_mem c) rid") (auto simp: handleResponse_def)
    from handleResponse_ok [OF that this, of t] obtain u where
      "handleResponse t rid (ch_mem c) = Inr u" "mem_inv u" by blast
    with m show ?thesis by simp
  qed
  with assms(2) c' show ?thesis by (simp add: chip_inv_def)
qed

lemma netResponse_inv:
  assumes "chip_netResponse sid c = Inr c'" "chip_inv w V lat now c"
  shows "chip_inv w V lat now c'"
proof -
  have "quiet c c'" using assms(1) by (auto simp: chip_netResponse_def bindr_Inr_iff)
  then show ?thesis by (rule chip_inv_quiet [OF _ assms(2)])
qed

lemma accel_inv_update:
  "accel_inv V p now a \<Longrightarrow> chip_inv (0 < cp_requestWidth p) V (ac_lat a) now c \<Longrightarrow>
   accel_inv V p now (a\<lparr>ac_chips := (ac_chips a)[k := c]\<rparr>)"
  by (auto simp: accel_inv_def dest: set_update_subset_insert [THEN subsetD])

lemma accel_reach_inv: "accel_reach V p traces now a \<Longrightarrow> accel_inv V p now a"
proof (induction rule: accel_reach.induct)
  case (power_on a now)
  then show ?case
    by (auto simp: mk_accel_def bindr_Inr_iff accel_inv_def intro!: mk_chip_inv)
next
  case (cycle now a b a')
  then obtain cs nw nw' where "tick_chips V (ac_lat a) now (ac_chips a) (ac_net a) = Inr (b, cs, nw)"
    "a' = a\<lparr>ac_chips := cs, ac_net := nw'\<rparr>"
    by (auto simp: accel_tick_def bindr_Inr_iff accel_inv_def)
  with cycle.IH tick_chips_inv show ?case by (fastforce simp: accel_inv_def)
next
  case (from_memory now a k t rid c)
  then have "chip_inv (0 < cp_requestWidth p) V (ac_lat a) now (ac_chips a ! k)"
    by (simp add: accel_inv_def)
  with from_memory show ?case by (intro accel_inv_update) (auto intro: memResponse_inv)
next
  case (from_network now a k sid c)
  then have "chip_inv (0 < cp_requestWidth p) V (ac_lat a) now (ac_chips a ! k)"
    by (simp add: accel_inv_def)
  with from_network show ?case by (intro accel_inv_update) (auto intro: netResponse_inv)
qed (simp_all add: accel_inv_def)

text \<open>What this means for the units and for the memory unit of a chip.\<close>

lemma reach_unit_inv:
  "accel_reach V p traces now a \<Longrightarrow> c \<in> set (ac_chips a) \<Longrightarrow> u \<in> set (sc_fus (ch_sched c)) \<Longrightarrow>
   fu_inv now u"
  by (drule accel_reach_inv)
    (auto simp: accel_inv_def chip_inv_def units_good_def sched_inv_def)

lemma reach_mem_inv:
  "accel_reach V p traces now a \<Longrightarrow> 0 < cp_requestWidth p \<Longrightarrow> c \<in> set (ac_chips a) \<Longrightarrow>
   mem_inv (ch_mem c)"
  by (drule accel_reach_inv) (auto simp: accel_inv_def chip_inv_def)

end
