(* ===== verification/Dispatch.thy ===== *)
theory Dispatch
  imports ChipInvariant
begin

text \<open>
  What a dispatch that stalls leaves behind, and the addresses the chip gives to the terms of a
  program.
\<close>

section \<open>Stalls\<close>

text \<open>The chips that differ from \<open>c\<close> in the table of terms only.\<close>

definition but_terms :: "chip \<Rightarrow> chip \<Rightarrow> bool" where
  "but_terms c d \<longleftrightarrow> d = c\<lparr>ch_terms := ch_terms d, ch_numTerms := ch_numTerms d\<rparr>"

definition stalls :: "chip \<Rightarrow> (bool \<times> chip) res \<Rightarrow> bool" where
  "stalls c m \<longleftrightarrow> (\<forall>d. m = Inr (False, d) \<longrightarrow> but_terms c d)"

lemma but_terms_refl [simp]: "but_terms c c"
  by (simp add: but_terms_def)

lemma stalls_guard: "(b \<Longrightarrow> stalls c m) \<Longrightarrow> stalls c (guardr b e m)"
  by (auto simp: stalls_def guardr_def)

lemma stalls_if: "(b \<Longrightarrow> stalls c m) \<Longrightarrow> (\<not> b \<Longrightarrow> stalls c n) \<Longrightarrow> stalls c (if b then m else n)"
  by simp

lemma stalls_prod:
  "(\<And>a b. x = (a, b) \<Longrightarrow> stalls c (f a b)) \<Longrightarrow> stalls c (case x of (a, b) \<Rightarrow> f a b)"
  by (cases x) auto

lemma stalls_option:
  "(x = None \<Longrightarrow> stalls c m) \<Longrightarrow> (\<And>y. x = Some y \<Longrightarrow> stalls c (f y)) \<Longrightarrow>
   stalls c (case x of None \<Rightarrow> m | Some y \<Rightarrow> f y)"
  by (cases x) auto

lemma stalls_bind: "(\<And>x. m = Inr x \<Longrightarrow> stalls c (f x)) \<Longrightarrow> stalls c (bindr m f)"
  by (cases m) (auto simp: stalls_def)

lemma stalls_False: "but_terms c d \<Longrightarrow> stalls c (Inr (False, d))"
  by (simp add: stalls_def)

lemma stalls_True: "stalls c (Inr (True, d))"
  by (simp add: stalls_def)

lemma stalls_error: "stalls c (Inl e)"
  by (simp add: stalls_def)

lemmas stalls_rules = stalls_guard stalls_if stalls_prod stalls_option stalls_bind stalls_False
  stalls_True stalls_error

lemma stall_alu:
  "stalls c (dispatchBinOp p c)" "stalls c (dispatchUnOp p c)" "stalls c (dispatchEvg p c)"
  "stalls c (dispatchNtt p c)" "stalls c (dispatchSuD p c)" "stalls c (dispatchBci p c)"
  "stalls c (dispatchPl1 p c)" "stalls c (dispatchBcw p c)" "stalls c (dispatchMov p c)"
  "stalls c (dispatchRsv p c)" "stalls c (dispatchMod p c)" "stalls c (dispatchDis p c)"
  "stalls c (dispatchJoi p c)"
  unfolding dispatchBinOp_def dispatchUnOp_def dispatchEvg_def dispatchNtt_def dispatchSuD_def
    dispatchBci_def dispatchPl1_def dispatchBcw_def dispatchMov_def dispatchRsv_def
    dispatchMod_def dispatchDis_def dispatchJoi_def Let_def
  by ((intro stalls_rules; (simp split: opcode.split parsed_value.split)?;
       (intro stalls_rules conjI impI allI)?; (simp split: parsed_value.split)?;
       (intro stalls_rules conjI impI allI)?; simp)+)

text \<open>A search that finds no store to forward from has changed nothing.\<close>

lemma no_store_alias:
  "store_alias_walk addr qs older past rf = Inr (None, q, rf') \<Longrightarrow> q = rev older @ past \<and> rf' = rf"
proof (induction addr qs older past rf rule: store_alias_walk.induct)
  case (2 addr qs i older past rf)
  then obtain a where a: "getAddr i = Inr a" by (auto simp: bindr_Inr_iff)
  show ?case
  proof (cases "a = addr")
    case True
    then show ?thesis using 2(2) a by (auto simp: bindr_Inr_iff split: if_splits)
  next
    case False
    then show ?thesis using 2(1) [OF a] 2(2) a by auto
  qed
qed simp

lemma findStoreAlias_None:
  assumes "findStoreAlias addr qs u rf = Inr (None, u', rf')"
  shows "u' = u \<and> rf' = rf"
proof -
  obtain q where "store_alias_walk addr qs (rev (mu_store u)) [] rf = Inr (None, q, rf')"
    "u' = u\<lparr>mu_store := q\<rparr>"
    using assms by (auto simp: findStoreAlias_def bindr_Inr_iff)
  with no_store_alias show ?thesis by fastforce
qed

lemma stall_loadv: "stalls c (dispatch_loadv addr dest c)"
  unfolding dispatch_loadv_def Let_def
  by (intro stalls_rules) (auto dest!: findStoreAlias_None simp: set_rf_def but_terms_def)

lemma stall_loads: "stalls c (dispatch_loads addr dest c)"
  unfolding dispatch_loads_def by (intro stalls_rules) auto

lemma stall_store: "stalls c (dispatch_store qs op addr dest c)"
  unfolding dispatch_store_def by (intro stalls_rules)

lemma but_terms_trans: "but_terms c d \<Longrightarrow> but_terms d e \<Longrightarrow> but_terms c e"
  by (cases c; cases d; cases e) (simp add: but_terms_def)

lemma stalls_from: "but_terms c d \<Longrightarrow> stalls d m \<Longrightarrow> stalls c m"
  by (auto simp: stalls_def intro: but_terms_trans)

lemma term_but_terms: "term_address t c = (a, d) \<Longrightarrow> but_terms c d"
  by (auto simp: term_address_def Let_def but_terms_def split: option.splits)

lemma stall_memory: "stalls c (dispatchMemory p c)"
proof -
  have *: "stalls c (let (addr, c) = term_address t c; dest = pi_dests p ! 0 in
         case pi_op p of
           Store \<Rightarrow> dispatch_store True Store addr dest c
         | Spill \<Rightarrow> dispatch_store False Spill addr dest c
         | LoadV \<Rightarrow> dispatch_loadv addr dest c
         | LoadS \<Rightarrow> dispatch_loads addr dest c
         | _ \<Rightarrow> Inr (True, c))" for t
  proof -
    obtain a d where d: "term_address t c = (a, d)" by force
    show ?thesis unfolding d Let_def prod.case
      by (rule stalls_from [OF term_but_terms [OF d]])
        (auto split: opcode.split intro: stall_store stall_loadv stall_loads stalls_True)
  qed
  show ?thesis unfolding dispatchMemory_def
    by (intro stalls_guard) (simp only: parsed_value.split, intro conjI allI impI * stalls_error)
qed

lemma dispatch_one_stall:
  assumes "dispatch_one p c = Inr (False, p', c')"
  shows "but_terms c c' \<and> (pi_op p \<noteq> EvkGen \<longrightarrow> p' = p)"
proof -
  have k: "bindr m (\<lambda>(b, c). Inr (b, q, c)) = Inr (False, p', c') \<Longrightarrow> stalls c m \<Longrightarrow>
      but_terms c c' \<and> p' = q" for m q
    by (auto simp: bindr_Inr_iff stalls_def)
  note q = stall_alu stall_memory
  show ?thesis using assms unfolding dispatch_one_def Let_def
    by (cases "pi_op p") (auto split: if_splits dest: k [OF _ q(1)] k [OF _ q(2)] k [OF _ q(3)]
      k [OF _ q(4)] k [OF _ q(5)] k [OF _ q(6)] k [OF _ q(7)] k [OF _ q(8)] k [OF _ q(9)]
      k [OF _ q(10)] k [OF _ q(11)] k [OF _ q(12)] k [OF _ q(13)] k [OF _ q(14)])
qed

section \<open>The addresses of terms\<close>

text \<open>Each term has a limb of its own.\<close>

definition terms_ok :: "chip \<Rightarrow> bool" where
  "terms_ok c \<longleftrightarrow>
     (\<forall>t a. ch_terms c t = Some a \<longrightarrow> (\<exists>k < ch_numTerms c. a = k * limbSize)) \<and>
     (\<forall>t t' a. ch_terms c t = Some a \<longrightarrow> ch_terms c t' = Some a \<longrightarrow> t = t')"

lemma terms_ok_fresh: "terms_ok (mk_chip V lat p k tr)"
  by (simp add: terms_ok_def mk_chip_def)

lemma term_address_ok:
  assumes ok: "terms_ok c" and a: "term_address t c = (a, d)"
  shows "terms_ok d \<and> ch_terms d t = Some a \<and> (\<forall>s b. ch_terms c s = Some b \<longrightarrow> ch_terms d s = Some b)"
proof (cases "ch_terms c t")
  case (Some b)
  with assms show ?thesis by (auto simp: term_address_def)
next
  case None
  then have d: "a = ch_numTerms c * limbSize"
    "d = c\<lparr>ch_terms := (ch_terms c)(t \<mapsto> a), ch_numTerms := ch_numTerms c + 1\<rparr>"
    using a by (auto simp: term_address_def Let_def)
  have new: "ch_terms c s \<noteq> Some a" for s
  proof
    assume "ch_terms c s = Some a"
    then obtain k where "k < ch_numTerms c" "a = k * limbSize" using ok by (auto simp: terms_ok_def)
    then show False using d(1) by (simp add: limbSize_def)
  qed
  have old: "\<exists>k < Suc (ch_numTerms c). b = k * limbSize" if "ch_terms c s = Some b" for s b
    using ok that unfolding terms_ok_def by (meson less_SucI)
  have inj: "ch_terms c s = Some b \<Longrightarrow> ch_terms c s' = Some b \<Longrightarrow> s = s'" for s s' b
    using ok by (auto simp: terms_ok_def)
  show ?thesis using None new old inj d(1)
    by (auto simp: d(2) terms_ok_def dest: old)
qed

lemma terms_apart:
  assumes "terms_ok c" "ch_terms c s = Some a" "ch_terms c t = Some b" "s \<noteq> t"
  shows "a + limbSize \<le> b \<or> b + limbSize \<le> a"
proof -
  obtain j k where jk: "a = j * limbSize" "b = k * limbSize"
    using assms(1-3) unfolding terms_ok_def by meson
  have "j \<noteq> k" using assms jk by (auto simp: terms_ok_def)
  then have "Suc j \<le> k \<or> Suc k \<le> j" by auto
  then have "Suc j * limbSize \<le> k * limbSize \<or> Suc k * limbSize \<le> j * limbSize"
    by (meson mult_le_mono1)
  then show ?thesis by (simp add: jk add.commute)
qed

end
