(* ===== verification/HlsArith.thy ===== *)
theory HlsArith
  imports Prelude "HOL-Library.Word" "HOL-Library.Signed_Division"
begin

unbundle bit_operations_syntax

text \<open>
  The modular arithmetic of the FPGA back end: \<open>include/cinnamon_hls/math_utils.hpp\<close>,
  \<open>arithmetic_modular.hpp\<close>, \<open>montgomery.hpp\<close> and \<open>montgomery_kernel.hpp\<close>, and the first part of
  \<open>kernels/kernel_common.hpp\<close> (arithmetic, instruction decoding, the operand and register
  accessors, the trace and the output block of a module).

  Unsigned integers are natural numbers below their width, with the wrap-around of every operation
  that can leave the width written out (\<open>w64\<close>, \<open>w32\<close>); \<open>rotl64\<close> and \<open>hash_mix\<close>, which are bitwise,
  are on \<open>64 word\<close>. Signed 64-bit integers are integers, and an operation that leaves their range is
  undefined behaviour (\<open>s64\<close>). Arrays are lists; an access outside the array is undefined behaviour
  (\<open>rd\<close>, \<open>wr\<close>), so is a division by zero and a shift by 64 or more.
\<close>

section \<open>Widths, arrays\<close>

definition w64 :: "nat \<Rightarrow> nat" where
  "w64 n = n mod 2 ^ 64"

definition w32 :: "nat \<Rightarrow> nat" where
  "w32 n = n mod 2 ^ 32"

text \<open>An unsigned subtraction at width 64 and 32.\<close>

definition sub64 :: "nat \<Rightarrow> nat \<Rightarrow> nat" where
  "sub64 a b = w64 (a + (2 ^ 64 - w64 b))"

definition sub32 :: "nat \<Rightarrow> nat \<Rightarrow> nat" where
  "sub32 a b = w32 (a + (2 ^ 32 - w32 b))"

definition s64 :: "int \<Rightarrow> int res" where
  "s64 x = guardr (- (2 ^ 63) \<le> x \<and> x < 2 ^ 63) Undefined (Inr x)"

definition as_s64 :: "nat \<Rightarrow> int" where
  "as_s64 n = (if n < 2 ^ 63 then int n else int n - 2 ^ 64)"

definition rd :: "'a list \<Rightarrow> nat \<Rightarrow> 'a res" where
  "rd xs i = (if i < length xs then Inr (xs ! i) else Inl Undefined)"

definition wr :: "'a list \<Rightarrow> nat \<Rightarrow> 'a \<Rightarrow> 'a list res" where
  "wr xs i v = (if i < length xs then Inr (xs[i := v]) else Inl Undefined)"

lemma w64_id [simp]: "n < 2 ^ 64 \<Longrightarrow> w64 n = n"
  by (simp add: w64_def)

lemma w32_id [simp]: "n < 2 ^ 32 \<Longrightarrow> w32 n = n"
  by (simp add: w32_def)

lemma w64_less [simp]: "w64 n < 2 ^ 64"
  by (simp add: w64_def)

lemma w32_less [simp]: "w32 n < 2 ^ 32"
  by (simp add: w32_def)

lemma sub64_ge: "b \<le> a \<Longrightarrow> a < 2 ^ 64 \<Longrightarrow> sub64 a b = a - b"
proof -
  assume a: "b \<le> a" "a < 2 ^ 64"
  have "a + (2 ^ 64 - b) = (a - b) + 2 ^ 64" using a by linarith
  then have "(a + (2 ^ 64 - b)) mod 2 ^ 64 = (a - b) mod 2 ^ 64" by (metis mod_add_self2)
  then show ?thesis using a by (simp add: sub64_def w64_def del: diff_add_assoc)
qed

lemma sub32_ge: "b \<le> a \<Longrightarrow> a < 2 ^ 32 \<Longrightarrow> sub32 a b = a - b"
proof -
  assume a: "b \<le> a" "a < 2 ^ 32"
  have "a + (2 ^ 32 - b) = (a - b) + 2 ^ 32" using a by linarith
  then have "(a + (2 ^ 32 - b)) mod 2 ^ 32 = (a - b) mod 2 ^ 32" by (metis mod_add_self2)
  then show ?thesis using a by (simp add: sub32_def w32_def del: diff_add_assoc)
qed

lemma s64_in [simp]: "- (2 ^ 63) \<le> x \<Longrightarrow> x < 2 ^ 63 \<Longrightarrow> s64 x = Inr x"
  by (simp add: s64_def)

lemma s64_Inr_iff [res_simps]: "s64 x = Inr y \<longleftrightarrow> x = y \<and> - (2 ^ 63) \<le> x \<and> x < 2 ^ 63"
  by (auto simp: s64_def guardr_Inr_iff)

lemma rd_in [simp]: "i < length xs \<Longrightarrow> rd xs i = Inr (xs ! i)"
  by (simp add: rd_def)

lemma rd_Inr_iff [res_simps]: "rd xs i = Inr y \<longleftrightarrow> i < length xs \<and> xs ! i = y"
  by (auto simp: rd_def)

lemma wr_in [simp]: "i < length xs \<Longrightarrow> wr xs i v = Inr (xs[i := v])"
  by (simp add: wr_def)

lemma wr_Inr_iff [res_simps]: "wr xs i v = Inr ys \<longleftrightarrow> i < length xs \<and> ys = xs[i := v]"
  by (auto simp: wr_def)

text \<open>A loop that stores a value at every index of a prefix.\<close>

lemma store_loop_from:
  assumes "a \<le> n" "n \<le> length xs"
  shows "foldr_res (\<lambda>i ys. wr ys i (f i)) [a..<n] xs =
    Inr (take a xs @ List.map f [a..<n] @ drop n xs)"
  using assms
proof (induction n rule: dec_induct)
  case base
  then show ?case by simp
next
  case (step n)
  then have "drop n xs = xs ! n # drop (Suc n) xs" by (simp add: Cons_nth_drop_Suc)
  with step show ?case by (simp add: foldr_res_append wr_def list_update_append)
qed

lemma store_loop:
  "n \<le> length xs \<Longrightarrow>
   foldr_res (\<lambda>i ys. wr ys i (f i)) [0..<n] xs = Inr (List.map f [0..<n] @ drop n xs)"
  using store_loop_from [of 0 n xs f] by simp

section \<open>\<open>math_utils.hpp\<close>\<close>

text \<open>The product of two 64-bit numbers fits the \<open>__uint128_t\<close> it is computed in.\<close>

definition mod_mul_u64 :: "nat \<Rightarrow> nat \<Rightarrow> nat \<Rightarrow> nat" where
  "mod_mul_u64 a b m = (if m = 0 then 0 else (a * b) mod m)"

fun pow_loop :: "(nat \<Rightarrow> nat \<Rightarrow> nat \<Rightarrow> nat) \<Rightarrow> nat \<Rightarrow> nat \<Rightarrow> nat \<Rightarrow> nat \<Rightarrow> nat" where
  "pow_loop mul m result base e =
     (if e = 0 then result
      else pow_loop mul m (if e mod 2 = 1 then mul result base m else result)
             (mul base base m) (e div 2))"

declare pow_loop.simps [simp del]

definition mod_pow_u64 :: "nat \<Rightarrow> nat \<Rightarrow> nat \<Rightarrow> nat" where
  "mod_pow_u64 base e m =
     (if m = 0 then 0 else pow_loop mod_mul_u64 m (1 mod m) (base mod m) e)"

text \<open>The extended Euclidean loop on \<open>std::int64_t\<close>; \<open>/\<close> truncates towards zero.\<close>

function inv_loop :: "int \<Rightarrow> int \<Rightarrow> int \<Rightarrow> int \<Rightarrow> (int \<times> int) res" where
  "inv_loop t new_t r new_r =
     (if new_r = 0 then Inr (t, r)
      else bindr (s64 (r sdiv new_r)) (\<lambda>q.
           bindr (s64 (q * new_t)) (\<lambda>p.
           bindr (s64 (t - p)) (\<lambda>next_t.
           bindr (s64 (q * new_r)) (\<lambda>s.
           bindr (s64 (r - s)) (\<lambda>next_r.
           inv_loop new_t next_t new_r next_r))))))"
  by pat_completeness auto

lemma sdiv_rem: "(r::int) - (r sdiv n) * n = r smod n"
  by (rule minus_sdiv_mult_eq_smod)

lemma smod_less: "(n::int) \<noteq> 0 \<Longrightarrow> \<bar>r smod n\<bar> < \<bar>n\<bar>"
  by (simp add: signed_modulo_int_def abs_mult abs_sgn_eq)

termination inv_loop
proof (relation "measure (\<lambda>(t, new_t, r, new_r). nat \<bar>new_r\<bar>)")
  fix t new_t r new_r :: int and q p next_t s next_r
  assume n: "new_r \<noteq> 0" and "s64 (r sdiv new_r) = Inr q" "s64 (q * new_r) = Inr s"
    "s64 (r - s) = Inr next_r"
  then have "next_r = r smod new_r"
    using sdiv_rem [of r new_r] by (simp add: s64_Inr_iff)
  then show "((new_t, next_t, new_r, next_r), t, new_t, r, new_r)
      \<in> measure (\<lambda>(t, new_t, r, new_r). nat \<bar>new_r\<bar>)"
    using smod_less [OF n, of r] by simp
qed simp

declare inv_loop.simps [simp del]

text \<open>The code of \<open>mod_inv_u64\<close> and of \<open>mod_inv\<close> of the kernels, which is the same.\<close>

definition euclid_inverse :: "nat \<Rightarrow> nat \<Rightarrow> nat res" where
  "euclid_inverse a m =
     (if m = 0 then Inr 0
      else bindr (inv_loop 0 1 (as_s64 m) (as_s64 (a mod m))) (\<lambda>(t, r).
        if r \<noteq> 1 then Inr 0
        else let reduced = t smod as_s64 m in
          bindr (if reduced < 0 then s64 (reduced + as_s64 m) else Inr reduced) (\<lambda>x.
          Inr (nat (x mod 2 ^ 64)))))"

definition mod_inv_u64 :: "nat \<Rightarrow> nat \<Rightarrow> nat res" where
  "mod_inv_u64 a m = euclid_inverse a m"

section \<open>\<open>arithmetic_modular.hpp\<close>\<close>

definition modular_add :: "nat \<Rightarrow> nat \<Rightarrow> nat \<Rightarrow> nat" where
  "modular_add a b m = (let sum = w64 (a + b) in if sum \<ge> m then sub64 sum m else sum)"

definition modular_sub :: "nat \<Rightarrow> nat \<Rightarrow> nat \<Rightarrow> nat" where
  "modular_sub a b m = (if a \<ge> b then sub64 a b else w64 (a + sub64 m b))"

definition multiplier_truncated :: "nat \<Rightarrow> nat \<Rightarrow> nat \<Rightarrow> nat" where
  "multiplier_truncated a b width_bits =
     (if width_bits \<ge> 64 then w64 (a * b) else w64 (a * b) AND (2 ^ width_bits - 1))"

definition modular_mul_step :: "nat \<Rightarrow> nat \<Rightarrow> nat \<Rightarrow> nat \<times> nat \<Rightarrow> (nat \<times> nat) res" where
  "modular_mul_step b m i s = (case s of (acc, running) \<Rightarrow>
     guardr (i < 64) Undefined
       (Inr (if drop_bit i b mod 2 = 1 then modular_add acc running m else acc,
             modular_add running running m)))"

definition modular_mul :: "nat \<Rightarrow> nat \<Rightarrow> nat \<Rightarrow> nat \<Rightarrow> nat res" where
  "modular_mul a b m width_bits =
     guardr (m \<noteq> 0) Undefined
       (bindr (foldr_res (modular_mul_step b m) [0..<width_bits] (0, a mod m))
          (\<lambda>(acc, running). Inr acc))"

definition barrett_reduce :: "nat \<Rightarrow> nat \<Rightarrow> nat \<Rightarrow> nat \<Rightarrow> nat res" where
  "barrett_reduce a modl m k =
     guardr (k < 64) Undefined
       (let q = drop_bit k (w64 (a * m));
            r = sub64 a (w64 (q * modl))
        in Inr (if r \<ge> modl then sub64 r modl else r))"

section \<open>\<open>montgomery.hpp\<close> and \<open>montgomery_kernel.hpp\<close>\<close>

definition montgomery_r :: "nat \<Rightarrow> nat \<Rightarrow> nat" where
  "montgomery_r one_iter_log2 num_iterations =
     (let shift = w32 (one_iter_log2 * num_iterations) in if shift \<ge> 63 then 0 else 2 ^ shift)"

definition montgomery_reduce :: "nat \<Rightarrow> nat \<Rightarrow> nat \<Rightarrow> nat \<Rightarrow> nat res" where
  "montgomery_reduce a q w n =
     guardr (q \<noteq> 0) Undefined
       (bindr (mod_inv_u64 (montgomery_r w n mod q) q) (\<lambda>r_inv.
        Inr (mod_mul_u64 (a mod q) r_inv q)))"

definition montgomery_multiply :: "nat \<Rightarrow> nat \<Rightarrow> nat \<Rightarrow> nat \<Rightarrow> nat \<Rightarrow> nat res" where
  "montgomery_multiply a b q w n =
     guardr (q \<noteq> 0) Undefined
       (montgomery_reduce (mod_mul_u64 (a mod q) (b mod q) q) q w n)"

definition convert_to_montgomery :: "nat \<Rightarrow> nat \<Rightarrow> nat \<Rightarrow> nat \<Rightarrow> nat res" where
  "convert_to_montgomery x q w n =
     guardr (q \<noteq> 0) Undefined
       (Inr (mod_mul_u64 (x mod q) (montgomery_r w n mod q) q))"

definition convert_from_montgomery :: "nat \<Rightarrow> nat \<Rightarrow> nat \<Rightarrow> nat \<Rightarrow> nat res" where
  "convert_from_montgomery y q w n = montgomery_reduce y q w n"

text \<open>The opcodes of \<open>MontgomeryKernelOpcode\<close>: reduce 0, multiply 1, to the domain 2, from it 3.\<close>

definition montgomery_kernel_apply ::
  "nat \<Rightarrow> nat \<Rightarrow> nat \<Rightarrow> nat \<Rightarrow> nat \<Rightarrow> nat \<Rightarrow> nat res" where
  "montgomery_kernel_apply opcode a b q w n =
     (if opcode = 0 then montgomery_reduce a q w n
      else if opcode = 1 then montgomery_multiply a b q w n
      else if opcode = 2 then convert_to_montgomery a q w n
      else if opcode = 3 then convert_from_montgomery a q w n
      else Inr 0)"

text \<open>An input array may be the null pointer.\<close>

definition opt_read :: "nat list option \<Rightarrow> nat \<Rightarrow> nat res" where
  "opt_read p i = (case p of None \<Rightarrow> Inr 0 | Some xs \<Rightarrow> rd xs i)"

definition montgomery_core_step ::
  "nat list option \<Rightarrow> nat list option \<Rightarrow> nat \<Rightarrow> nat \<Rightarrow> nat \<Rightarrow> nat \<Rightarrow> nat \<Rightarrow> nat list \<Rightarrow>
   nat list res" where
  "montgomery_core_step a b q opcode w n i out =
     bindr (opt_read a i) (\<lambda>lhs.
     bindr (opt_read b i) (\<lambda>rhs.
     bindr (montgomery_kernel_apply opcode lhs rhs q w n) (\<lambda>v. wr out i v)))"

definition montgomery_core ::
  "nat list option \<Rightarrow> nat list option \<Rightarrow> nat list \<Rightarrow> nat \<Rightarrow> nat \<Rightarrow> nat \<Rightarrow> nat \<Rightarrow> nat \<Rightarrow>
   nat list res" where
  "montgomery_core a b out cnt q opcode w n =
     foldr_res (montgomery_core_step a b q opcode w n) [0..<cnt] out"

section \<open>The arithmetic of \<open>kernel_common.hpp\<close>\<close>

definition kInputMagic :: nat where "kInputMagic = 0x43494E4E414D4F4E"
definition kDefaultModulus :: nat where "kDefaultModulus = 268042241"

definition rotl64 :: "64 word \<Rightarrow> nat \<Rightarrow> 64 word" where
  "rotl64 v shift = (let s = shift mod 64 in
     if s = 0 then v else push_bit s v OR drop_bit (64 - s) v)"

definition hash_mix :: "64 word \<Rightarrow> 64 word" where
  "hash_mix v0 =
     (let v1 = v0 XOR drop_bit 33 v0;
          v2 = v1 * 0xff51afd7ed558ccd;
          v3 = v2 XOR drop_bit 33 v2;
          v4 = v3 * 0xc4ceb9fe1a85ec53
      in v4 XOR drop_bit 33 v4)"

definition mod_add :: "nat \<Rightarrow> nat \<Rightarrow> nat \<Rightarrow> nat" where
  "mod_add a b m =
     (if m = 0 then 0
      else let s = w64 (a mod m + b mod m) in if s \<ge> m then sub64 s m else s)"

definition mod_sub :: "nat \<Rightarrow> nat \<Rightarrow> nat \<Rightarrow> nat" where
  "mod_sub a b m =
     (if m = 0 then 0
      else let aa = a mod m; bb = b mod m
           in if aa \<ge> bb then sub64 aa bb else w64 (aa + sub64 m bb))"

definition mod_mul :: "nat \<Rightarrow> nat \<Rightarrow> nat \<Rightarrow> nat" where
  "mod_mul a b m = (if m = 0 then 0 else ((a mod m) * (b mod m)) mod m)"

definition mod_pow :: "nat \<Rightarrow> nat \<Rightarrow> nat \<Rightarrow> nat" where
  "mod_pow base e m = (if m = 0 then 0 else pow_loop mod_mul m 1 (base mod m) e)"

definition mod_inv :: "nat \<Rightarrow> nat \<Rightarrow> nat res" where
  "mod_inv a m = euclid_inverse a m"

definition kR :: nat where "kR = 2 ^ 34"

definition montgomery_reduce_ntt_friendly :: "nat \<Rightarrow> nat \<Rightarrow> nat res" where
  "montgomery_reduce_ntt_friendly a q =
     (if q = 0 then Inr 0
      else bindr (mod_inv (kR mod q) q) (\<lambda>r_inv.
        if r_inv = 0 then Inr (a mod q) else Inr (mod_mul (a mod q) r_inv q)))"

definition montgomery_mul_ntt_friendly :: "nat \<Rightarrow> nat \<Rightarrow> nat \<Rightarrow> nat res" where
  "montgomery_mul_ntt_friendly a b q = montgomery_reduce_ntt_friendly (mod_mul a b q) q"

definition sign_extend_32 :: "nat \<Rightarrow> int" where
  "sign_extend_32 v = (let lo = v mod 2 ^ 32 in
     if lo < 2 ^ 31 then int lo else int lo - 2 ^ 32)"

definition signed_mod :: "int \<Rightarrow> nat \<Rightarrow> nat res" where
  "signed_mod v m =
     (if m = 0 then Inr 0
      else if v \<ge> 0 then Inr (nat v mod m)
      else bindr (s64 (- v)) (\<lambda>w.
        let mag = nat w mod m in Inr (if mag = 0 then 0 else sub64 m mag)))"

definition abs_mod_u32 :: "int \<Rightarrow> nat \<Rightarrow> nat res" where
  "abs_mod_u32 v m =
     (if m = 0 then Inr 0
      else if v \<ge> 0 then Inr (w32 (nat (v smod int m)))
      else bindr (s64 (- v)) (\<lambda>w. Inr (w32 (nat (w smod int m)))))"

section \<open>Instructions\<close>

record decoded_instruction =
  di_opcode :: nat
  di_dst :: nat
  di_src0 :: nat
  di_src1 :: nat
  di_rns :: nat
  di_flags :: nat
  di_imm0 :: int
  di_imm1 :: int
  di_aux :: nat
  di_line_crc :: nat

definition decode_words :: "nat \<Rightarrow> nat \<Rightarrow> nat \<Rightarrow> nat \<Rightarrow> decoded_instruction" where
  "decode_words w0 w1 w2 w3 =
     \<lparr>di_opcode = w0 AND 0xFF,
      di_dst = drop_bit 8 w0 AND 0xFFF,
      di_src0 = drop_bit 20 w0 AND 0xFFF,
      di_src1 = drop_bit 32 w0 AND 0xFFF,
      di_rns = drop_bit 44 w0 AND 0xFFF,
      di_flags = drop_bit 56 w0 AND 0xFF,
      di_imm0 = sign_extend_32 w1,
      di_imm1 = sign_extend_32 (drop_bit 32 w1),
      di_aux = w2,
      di_line_crc = w3\<rparr>"

definition decode_instruction :: "nat list \<Rightarrow> nat \<Rightarrow> decoded_instruction res" where
  "decode_instruction instructions i =
     (let base = w32 (i * 4) in
      bindr (rd instructions (w32 (base + 0))) (\<lambda>w0.
      bindr (rd instructions (w32 (base + 1))) (\<lambda>w1.
      bindr (rd instructions (w32 (base + 2))) (\<lambda>w2.
      bindr (rd instructions (w32 (base + 3))) (\<lambda>w3.
      Inr (decode_words w0 w1 w2 w3))))))"

section \<open>The stream table, operands and registers\<close>

text \<open>The binary search of \<open>lookup_stream_value\<close>: \<open>Some\<close> the value found.\<close>

function table_search :: "nat list \<Rightarrow> nat \<Rightarrow> nat \<Rightarrow> nat \<Rightarrow> nat \<Rightarrow> nat option res" where
  "table_search inputs table_base token_key lo hi =
     (if lo < hi then
        let mid = lo + (hi - lo) div 2;
            cursor = w32 (table_base + 1 + mid * 2)
        in bindr (rd inputs cursor) (\<lambda>key.
           if key = token_key then
             bindr (rd inputs (w32 (cursor + 1))) (\<lambda>value. Inr (Some value))
           else if key < token_key then table_search inputs table_base token_key (mid + 1) hi
           else table_search inputs table_base token_key lo mid)
      else Inr None)"
  by pat_completeness auto
termination table_search
  by (relation "measure (\<lambda>(inputs, base, key, lo, hi). hi - lo)") auto

declare table_search.simps [simp del]

definition table_entries :: "nat list \<Rightarrow> nat \<Rightarrow> nat \<Rightarrow> nat res" where
  "table_entries inputs input_count table_base =
     bindr (rd inputs table_base) (\<lambda>raw.
       let pairs_avail = (if input_count > w32 (table_base + 1)
                          then sub32 input_count (w32 (table_base + 1)) div 2 else 0)
       in Inr (min (w32 raw) pairs_avail))"

definition lookup_stream_value ::
  "nat list \<Rightarrow> nat \<Rightarrow> nat \<Rightarrow> nat \<Rightarrow> nat \<Rightarrow> nat \<Rightarrow> nat res" where
  "lookup_stream_value inputs input_count state_base register_count token_key m =
     (let table_base = w32 (state_base + register_count) in
      if table_base \<ge> input_count then Inr 0
      else bindr (table_entries inputs input_count table_base) (\<lambda>table_count.
           bindr (table_search inputs table_base token_key 0 table_count) (\<lambda>found.
           case found of None \<Rightarrow> Inr 0 | Some value \<Rightarrow> Inr (if m = 0 then 0 else value mod m))))"

definition kImmOperandId :: nat where "kImmOperandId = 0xFFF"
definition kTokenOperandId :: nat where "kTokenOperandId = 0xFFE"

definition load_operand ::
  "nat list \<Rightarrow> nat \<Rightarrow> decoded_instruction \<Rightarrow> bool \<Rightarrow> nat \<Rightarrow> nat list \<Rightarrow> nat \<Rightarrow> nat \<Rightarrow> nat res" where
  "load_operand state register_count inst use_src1 m inputs input_count state_base =
     (let src = (if use_src1 then di_src1 inst else di_src0 inst);
          is_imm = (drop_bit (if use_src1 then 1 else 0) (di_flags inst) AND 1 \<noteq> 0)
      in if is_imm \<or> src = kImmOperandId then
           signed_mod (if use_src1 then di_imm1 inst else di_imm0 inst) m
         else if src = kTokenOperandId then
           lookup_stream_value inputs input_count state_base register_count (di_aux inst) m
         else if register_count = 0 then Inr 0
         else if m = 0 then Inr 0
         else bindr (rd state (src mod register_count)) (\<lambda>v. Inr (v mod m)))"

definition store_register :: "nat list \<Rightarrow> nat \<Rightarrow> nat \<Rightarrow> nat \<Rightarrow> nat \<Rightarrow> nat list res" where
  "store_register state register_count d value m =
     (if register_count = 0 then Inr state
      else wr state (d mod register_count) (if m = 0 then 0 else value mod m))"

section \<open>The trace, the outputs and the input layout\<close>

definition trace_step :: "nat list \<Rightarrow> nat \<Rightarrow> 64 word \<Rightarrow> 64 word res" where
  "trace_step state i acc =
     bindr (rd state i) (\<lambda>v.
     Inr (rotl64 (acc XOR hash_mix (of_nat v XOR of_nat (w32 (i + 1)))) 7))"

definition trace_seed :: "nat \<Rightarrow> nat \<Rightarrow> 64 word" where
  "trace_seed module_id executed =
     (0x9E3779B97F4A7C15 XOR of_nat module_id) XOR push_bit 16 (of_nat executed)"

definition compute_trace :: "nat list \<Rightarrow> nat \<Rightarrow> nat \<Rightarrow> nat \<Rightarrow> 64 word res" where
  "compute_trace state register_count module_id executed =
     foldr_res (trace_step state) [0..<register_count] (trace_seed module_id executed)"

text \<open>One header word, written when the output block is long enough for it.\<close>

definition header_word :: "nat \<Rightarrow> nat \<Rightarrow> nat res \<Rightarrow> nat list \<Rightarrow> nat list res" where
  "header_word output_count i v outputs =
     (if output_count > i then bindr v (\<lambda>x. wr outputs i x) else Inr outputs)"

text \<open>Everything after the first word.\<close>

definition write_output_tail ::
  "nat \<Rightarrow> nat list \<Rightarrow> nat \<Rightarrow> nat \<Rightarrow> nat \<Rightarrow> nat \<Rightarrow> nat list \<Rightarrow> nat list res" where
  "write_output_tail output_count state register_count module_id partition_id executed o0 =
     bindr (header_word output_count 1 (Inr executed) o0) (\<lambda>o1.
     bindr (header_word output_count 2 (Inr register_count) o1) (\<lambda>o2.
     bindr (header_word output_count 3 (Inr module_id) o2) (\<lambda>o3.
     bindr (header_word output_count 4 (Inr partition_id) o3) (\<lambda>o4.
     bindr (header_word output_count 5
             (bindr (compute_trace state register_count module_id executed)
                (\<lambda>t. Inr (unat t))) o4) (\<lambda>o5.
     let available = (if output_count > 6 then output_count - 6 else 0);
         words_to_copy = min available register_count
     in bindr (foldr_res (\<lambda>i os. bindr (rd state i) (\<lambda>v. wr os (6 + i) v))
                [0..<words_to_copy] o5)
          (foldr_res (\<lambda>i os. wr os (6 + i) 0) [words_to_copy..<available]))))))"

definition write_module_outputs ::
  "nat list \<Rightarrow> nat \<Rightarrow> nat list \<Rightarrow> nat \<Rightarrow> nat \<Rightarrow> nat \<Rightarrow> nat \<Rightarrow> nat list res" where
  "write_module_outputs outputs output_count state register_count module_id partition_id executed =
     (if output_count = 0 then Inr outputs
      else bindr (wr outputs 0 0)
             (write_output_tail output_count state register_count module_id partition_id executed))"

definition has_layout :: "nat list \<Rightarrow> nat \<Rightarrow> bool res" where
  "has_layout inputs input_count =
     andr (Inr (input_count \<ge> 3)) (bindr (rd inputs 0) (\<lambda>v. Inr (v = kInputMagic)))"

text \<open>\<open>register_count\<close>, \<open>mod\<close> and \<open>state_base\<close>, the reference parameters of the function.\<close>

definition init_kernel_layout :: "nat list \<Rightarrow> nat \<Rightarrow> (nat \<times> nat \<times> nat) res" where
  "init_kernel_layout inputs input_count =
     bindr (has_layout inputs input_count) (\<lambda>layout.
       if layout then
         bindr (rd inputs 1) (\<lambda>n.
         bindr (rd inputs 2) (\<lambda>q.
         Inr (w32 n, if q = 0 then kDefaultModulus else q, 3)))
       else Inr (input_count, kDefaultModulus, 0))"

definition init_state_step ::
  "nat list \<Rightarrow> nat \<Rightarrow> nat \<Rightarrow> nat \<Rightarrow> nat \<Rightarrow> nat list \<Rightarrow> nat list res" where
  "init_state_step inputs input_count m state_base i state =
     (let idx = w32 (state_base + i) in
      bindr (if idx < input_count
             then if m = 0 then Inr 0 else bindr (rd inputs idx) (\<lambda>v. Inr (v mod m))
             else Inr 0) (\<lambda>v. wr state i v))"

definition init_state_from_input ::
  "nat list \<Rightarrow> nat \<Rightarrow> nat list \<Rightarrow> nat \<Rightarrow> nat \<Rightarrow> nat \<Rightarrow> nat list res" where
  "init_state_from_input inputs input_count state bounded m state_base =
     foldr_res (init_state_step inputs input_count m state_base) [0..<bounded] state"

section \<open>Correctness of the modular arithmetic\<close>

lemma mod_mul_val [simp]: "0 < m \<Longrightarrow> mod_mul a b m = a * b mod m"
  by (simp add: mod_mul_def mod_mult_eq)

lemma mod_mul_u64_eq [simp]: "0 < m \<Longrightarrow> mod_mul_u64 a b m = a * b mod m"
  by (simp add: mod_mul_u64_def)

lemma add_mod_less: "x < m \<Longrightarrow> y < m \<Longrightarrow> (x + y) mod m = (if m \<le> x + y then x + y - m else (x + y :: nat))"
  by (simp add: le_mod_geq less_diff_conv2)

lemma mod_add_val: "0 < m \<Longrightarrow> m \<le> 2 ^ 63 \<Longrightarrow> mod_add a b m = (a + b) mod m"
proof -
  assume m: "0 < m" "m \<le> 2 ^ 63"
  have l: "a mod m < m" "b mod m < m" using m(1) by simp_all
  moreover have "(2::nat) ^ 64 = 2 ^ 63 + 2 ^ 63" by simp
  ultimately have s: "a mod m + b mod m < 2 ^ 64" using m(2) by linarith
  have "(a + b) mod m = (a mod m + b mod m) mod m" by (rule mod_add_eq [symmetric])
  also have "\<dots> =
      (if a mod m + b mod m \<ge> m then a mod m + b mod m - m else a mod m + b mod m)"
    using l by (rule add_mod_less)
  also have "\<dots> = mod_add a b m"
    using m(1) s by (simp add: mod_add_def Let_def sub64_ge)
  finally show ?thesis by (rule sym)
qed

lemma mod_sub_val:
  assumes "0 < m" "m < 2 ^ 64"
  shows "mod_sub a b m = (a + (m - b mod m)) mod m"
proof -
  have l: "a mod m < m" "b mod m < m" using assms(1) by simp_all
  have "mod_sub a b m = (a mod m + (m - b mod m)) mod m"
  proof (cases "a mod m \<ge> b mod m")
    case True
    then have "a mod m + (m - b mod m) = (a mod m - b mod m) + m" using l by linarith
    then have "(a mod m + (m - b mod m)) mod m = (a mod m - b mod m) mod m"
      by (metis mod_add_self2)
    moreover have "a mod m < 2 ^ 64" using l assms(2) by linarith
    ultimately show ?thesis
      using True l assms(1) by (simp add: mod_sub_def sub64_ge del: mod_mod_trivial)
  next
    case False
    then have n: "a mod m + (m - b mod m) < m" "0 < b mod m" using l by linarith+
    have "m - b mod m < 2 ^ 64" using n l assms(2) by linarith
    moreover have "sub64 m (b mod m) = m - b mod m" using l assms(2) by (simp add: sub64_ge)
    ultimately show ?thesis
      using False n assms by (simp add: mod_sub_def Let_def w64_def)
  qed
  then show ?thesis by (simp add: mod_add_left_eq)
qed

lemma pow_loop_correct:
  assumes "\<And>x y. mul x y m = x * y mod m" and "r < m"
  shows "pow_loop mul m r b e = r * b ^ e mod m"
  using assms
proof (induction mul m r b e rule: pow_loop.induct)
  case (1 mul m r b e)
  show ?case
  proof (cases "e = 0")
    case True
    then show ?thesis using 1(3) by (simp add: pow_loop.simps)
  next
    case False
    let ?r = "if e mod 2 = 1 then mul r b m else r"
    let ?s = "if e mod 2 = 1 then r * b else r"
    have s: "?r = ?s mod m" using 1(2,3) by simp
    then have "?r < m" using 1(3) by simp
    then have "pow_loop mul m r b e = ?r * (b * b mod m) ^ (e div 2) mod m"
      using 1(1) [OF False] 1(2) False by (subst pow_loop.simps) simp
    also have "\<dots> = ?r * ((b * b mod m) ^ (e div 2) mod m) mod m"
      by (rule mod_mult_right_eq [symmetric])
    also have "\<dots> = ?s * (b * b) ^ (e div 2) mod m"
      unfolding s power_mod by (rule mod_mult_eq)
    also have "\<dots> = r * b ^ (2 * (e div 2) + e mod 2) mod m"
      by (cases "e mod 2 = 1") (simp_all add: power_add power_mult power2_eq_square ac_simps)
    finally show ?thesis by simp
  qed
qed

lemma mod_pow_eq: "1 < m \<Longrightarrow> mod_pow b e m = b ^ e mod m"
  using pow_loop_correct [of mod_mul m 1 "b mod m" e]
  by (simp add: mod_pow_def power_mod)

lemma mod_pow_u64_eq: "0 < m \<Longrightarrow> mod_pow_u64 b e m = b ^ e mod m"
  using pow_loop_correct [of mod_mul_u64 m "1 mod m" "b mod m" e]
  by (simp add: mod_pow_u64_def mod_mult_eq power_mod)

lemma div_int_le: "0 < n \<Longrightarrow> 0 \<le> r \<Longrightarrow> r div n \<le> (r::int)"
  using zdiv_mono2 [of r 1 n] by simp

lemma sdiv_pos: "0 \<le> r \<Longrightarrow> 0 < n \<Longrightarrow> (r::int) sdiv n = r div n"
  by (cases "r = 0") (simp_all add: signed_divide_int_def)

lemma abs_opposite: "(t::int) * u \<le> 0 \<Longrightarrow> 1 \<le> q \<Longrightarrow> \<bar>t - q * u\<bar> = \<bar>t\<bar> + q * \<bar>u\<bar>"
proof -
  assume a: "t * u \<le> 0" "1 \<le> q"
  then consider "0 \<le> t" "u \<le> 0" | "t \<le> 0" "0 \<le> u" by (auto simp: mult_le_0_iff)
  then show ?thesis
  proof cases
    case 1
    with a(2) have "q * u \<le> 0" by (simp add: mult_le_0_iff)
    with 1 show ?thesis by simp
  next
    case 2
    with a(2) have "0 \<le> q * u" by simp
    with 2 show ?thesis by simp
  qed
qed

lemma inv_loop_correct:
  fixes M a t nt r nr :: int
  assumes "0 \<le> nr" "nr < r" "\<bar>t\<bar> * nr + \<bar>nt\<bar> * r = M" "t * nt \<le> 0" "M < 2 ^ 63" "r < 2 ^ 63"
    and "M dvd t * a - r" "M dvd nt * a - nr"
  shows "\<exists>t'. inv_loop t nt r nr = Inr (t', gcd r nr) \<and> M dvd t' * a - gcd r nr"
  using assms
proof (induction "nat nr" arbitrary: t nt r nr rule: less_induct)
  case less
  show ?case
  proof (cases "nr = 0")
    case True
    then show ?thesis using less.prems by (simp add: inv_loop.simps)
  next
    case False
    define q where "q = r div nr"
    have nr: "0 < nr" using False less.prems(1) by simp
    have q: "r sdiv nr = q" "1 \<le> q" "q \<le> r"
      using nr less.prems(2) by (simp_all add: q_def sdiv_pos int_one_le_iff_zero_less
          pos_imp_zdiv_pos_iff div_int_le)
    have nextr: "r - q * nr = r mod nr" by (simp add: q_def minus_div_mult_eq_mod)
    have sg: "\<bar>t - q * nt\<bar> = \<bar>t\<bar> + q * \<bar>nt\<bar>"
      using less.prems(4) q(2) by (rule abs_opposite)
    have M: "\<bar>nt\<bar> * (r mod nr) + \<bar>t - q * nt\<bar> * nr = M"
      unfolding sg nextr [symmetric] using less.prems(3) by (simp add: algebra_simps)
    have "\<bar>t - q * nt\<bar> \<le> \<bar>t - q * nt\<bar> * nr"
      using nr mult_left_mono [of 1 nr "\<bar>t - q * nt\<bar>"] by simp
    then have b: "\<bar>t - q * nt\<bar> \<le> M"
      unfolding M [symmetric] using nr by (intro add_increasing) simp_all
    have qn: "\<bar>q * nt\<bar> \<le> M" using b sg q(2) by (simp add: abs_mult)
    have d: "M dvd (t - q * nt) * a - (r - q * nr)"
      using dvd_diff [OF less.prems(7) dvd_mult [OF less.prems(8), of q]]
      by (simp add: algebra_simps)
    have op: "nt * (t - q * nt) \<le> 0"
    proof -
      have "0 \<le> q * (nt * nt)" using q(2) by simp
      moreover have "nt * (t - q * nt) = t * nt - q * (nt * nt)" by (simp add: algebra_simps)
      ultimately show ?thesis using less.prems(4) by linarith
    qed
    have "\<exists>t'. inv_loop nt (t - q * nt) nr (r mod nr) = Inr (t', gcd nr (r mod nr)) \<and>
        M dvd t' * a - gcd nr (r mod nr)"
    proof (rule less.hyps)
      show "nat (r mod nr) < nat nr" using nr by simp
    qed (use nr less.prems M op d nextr in \<open>simp_all\<close>)
    then have ih: "\<exists>t'. inv_loop nt (t - q * nt) nr (r mod nr) = Inr (t', gcd r nr) \<and>
        M dvd t' * a - gcd r nr"
      by (simp add: gcd_red_int [of r nr])
    have m: "0 \<le> r mod nr" "r mod nr \<le> r"
      using nr less.prems(2) by (simp_all add: zmod_le_nonneg_dividend)
    then have "q * nr \<le> r" "0 \<le> q * nr" using nextr by linarith+
    then have s: "s64 q = Inr q" "s64 (q * nt) = Inr (q * nt)" "s64 (q * nr) = Inr (q * nr)"
      "s64 (t - q * nt) = Inr (t - q * nt)" "s64 (r mod nr) = Inr (r mod nr)"
      using m q(2,3) qn b less.prems(5,6) by (intro s64_in; linarith)+
    have "inv_loop t nt r nr = inv_loop nt (t - q * nt) nr (r mod nr)"
      using False q(1) nextr by (subst inv_loop.simps) (simp add: s)
    with ih show ?thesis by simp
  qed
qed

text \<open>
  The inverse of the kernels: for every modulus below \<open>2^63\<close> no step of the loop overflows, the
  result is the inverse when there is one, and 0 otherwise.
\<close>

lemma as_s64_small: "n < 2 ^ 63 \<Longrightarrow> as_s64 n = int n"
  by (simp add: as_s64_def)

lemma smod_range: "0 < (m::int) \<Longrightarrow> \<bar>t smod m\<bar> < m"
  using smod_less [of m t] by simp

lemma smod_cong: "(m::int) dvd t smod m - t"
proof -
  have "t smod m - t = - (t sdiv m) * m" using sdiv_rem [of t m] by simp
  then show ?thesis by simp
qed

lemma euclid_inverse_correct:
  assumes "1 < m" "m < 2 ^ 63"
  shows "\<exists>x. euclid_inverse a m = Inr x \<and> x < m \<and>
    (coprime a m \<longrightarrow> a * x mod m = 1) \<and> (\<not> coprime a m \<longrightarrow> x = 0)"
proof -
  let ?M = "int m" and ?a = "int (a mod m)"
  have M: "?M < 2 ^ 63" using assms(2) by (metis of_nat_less_numeral_power_cancel_iff)
  have am: "a mod m < m" using assms(1) by simp
  have "\<exists>t'. inv_loop 0 1 ?M ?a = Inr (t', gcd ?M ?a) \<and> ?M dvd t' * int a - gcd ?M ?a"
  proof (rule inv_loop_correct)
    show "?M dvd 1 * int a - ?a" by (simp add: of_nat_mod minus_mod_eq_mult_div)
  qed (use M am in simp_all)
  moreover have "gcd ?M ?a = int (gcd a m)"
    by (simp add: gcd_int_int_eq gcd.commute gcd_red_nat [symmetric] flip: gcd_red_nat)
  ultimately obtain t where t: "inv_loop 0 1 ?M ?a = Inr (t, int (gcd a m))"
    "?M dvd t * int a - int (gcd a m)" by auto
  have e: "as_s64 m = ?M" "as_s64 (a mod m) = ?a"
    using assms(2) am by (intro as_s64_small; linarith)+
  show ?thesis
  proof (cases "coprime a m")
    case False
    then have "gcd a m \<noteq> 1" by (simp add: coprime_iff_gcd_eq_1)
    with False t(1) e assms show ?thesis by (simp add: euclid_inverse_def)
  next
    case True
    define s where "s = t smod ?M"
    define x where "x = (if s < 0 then s + ?M else s)"
    have s: "\<bar>s\<bar> < ?M" unfolding s_def using assms(1) by (intro smod_range) simp
    have x: "0 \<le> x" "x < ?M" using s by (auto simp: x_def)
    have r: "euclid_inverse a m = Inr (nat x)"
      using True t(1) e assms(1) s M x
      by (simp add: euclid_inverse_def coprime_iff_gcd_eq_1 Let_def s_def [symmetric] x_def
          split: if_splits)
    have "?M dvd s - t" unfolding s_def by (rule smod_cong)
    then have "?M dvd x - t" by (auto simp: x_def algebra_simps dvd_add_right_iff)
    then have "?M dvd (x - t) * int a + (t * int a - 1)"
      using t(2) True by (intro dvd_add dvd_mult2) (simp_all add: coprime_iff_gcd_eq_1)
    then have "?M dvd int a * x - 1" by (simp add: algebra_simps)
    then have "(int a * x) mod ?M = 1 mod ?M" by (simp add: mod_eq_dvd_iff)
    then have "int (a * nat x mod m) = 1" using x(1) assms(1) by (simp add: of_nat_mod)
    moreover have "nat x < m" using x by simp
    ultimately show ?thesis using r True by simp
  qed
qed

lemma mod_inv_zero_mod [simp]: "euclid_inverse a 0 = Inr 0"
  by (simp add: euclid_inverse_def)

section \<open>The remaining functions of \<open>arithmetic_modular.hpp\<close>\<close>

lemma modular_add_eq:
  assumes "a < m" "b < m" "m \<le> 2 ^ 63"
  shows "modular_add a b m = (a + b) mod m"
proof -
  have "(2::nat) ^ 64 = 2 ^ 63 + 2 ^ 63" by simp
  then have "a + b < 2 ^ 64" using assms by linarith
  then show ?thesis using assms(1,2) by (simp add: modular_add_def add_mod_less sub64_ge Let_def)
qed

lemma modular_sub_eq:
  assumes "a < m" "b < m" "m < 2 ^ 64"
  shows "modular_sub a b m = (a + (m - b)) mod m"
proof (cases "a \<ge> b")
  case True
  then have "a + (m - b) = (a - b) + m" using assms by linarith
  then have "(a + (m - b)) mod m = (a - b) mod m" by (metis mod_add_self2)
  also have "\<dots> = a - b" using assms(1) by simp
  finally have "(a + (m - b)) mod m = a - b" .
  then show ?thesis using True assms(1,3) by (simp only: modular_sub_def if_True) (rule sub64_ge; linarith)
next
  case False
  then have "a + (m - b) < m" using assms by linarith
  moreover from this have "a + (m - b) < 2 ^ 64" using assms by linarith
  moreover have "sub64 m b = m - b" using assms by (intro sub64_ge) linarith+
  ultimately show ?thesis using False by (simp add: modular_sub_def)
qed

text \<open>The loop invariant of \<open>modular_mul\<close>: after \<open>n\<close> bits, the partial product and \<open>a * 2^n\<close>.\<close>

lemma modular_mul_loop:
  assumes "0 < m" "m \<le> 2 ^ 63" "n \<le> 64"
  shows "foldr_res (modular_mul_step b m) [0..<n] (0, a mod m) =
     Inr (a * (b mod 2 ^ n) mod m, a * 2 ^ n mod m)"
  using assms(3)
proof (induction n)
  case (Suc n)
  have add: "modular_add (x mod m) (y mod m) m = (x + y) mod m" for x y
    using assms(1,2) by (simp add: modular_add_eq mod_add_eq)
  have "b mod 2 ^ Suc n = b mod 2 ^ n + 2 ^ n * (b div 2 ^ n mod 2)"
    using mod_mult2_eq [of b "2 ^ n" 2] by (simp add: mult.commute)
  then show ?case
    using Suc
    by (cases "b div 2 ^ n mod 2 = 1")
       (auto simp: foldr_res_append modular_mul_step_def add drop_bit_eq_div algebra_simps
          simp flip: mult_2)
qed simp

lemma modular_mul_correct:
  assumes "0 < m" "m \<le> 2 ^ 63" "n \<le> 64" "b < 2 ^ n"
  shows "modular_mul a b m n = Inr (a * b mod m)"
  using assms by (simp add: modular_mul_def modular_mul_loop)

text \<open>One correction is enough when \<open>m\<close> is the rounded reciprocal and the product fits.\<close>

lemma barrett_reduce_correct:
  assumes "0 < modl" "k < 64" "m = 2 ^ k div modl" "a < 2 ^ k" "a * m < 2 ^ 64"
  shows "barrett_reduce a modl m k = Inr (a mod modl)"
proof -
  define q where "q = a * m div 2 ^ k"
  have mm1: "m * modl \<le> 2 ^ k" by (simp add: assms(3))
  have "2 ^ k < modl + m * modl"
    unfolding assms(3) using assms(1) by (rule dividend_less_div_times)
  then have mm2: "2 ^ k < (m + 1) * modl" by simp
  have "q * 2 ^ k \<le> a * m" by (simp add: q_def)
  then have "q * modl * 2 ^ k \<le> a * (m * modl)" by (metis mult.assoc mult.commute mult_le_mono1)
  also have "\<dots> \<le> a * 2 ^ k" using mm1 by simp
  finally have le: "q * modl \<le> a" by simp
  have "a * m < (q + 1) * 2 ^ k" 
    using dividend_less_div_times [of "2 ^ k" "a * m"] by (simp add: q_def)
  then have "a * m * modl < (q + 1) * modl * 2 ^ k"
    using assms(1) by (metis mult.assoc mult.commute mult_less_cancel1)
  moreover have "a * 2 ^ k \<le> a * m * modl + a * modl"
    using mult_le_mono2 [OF less_imp_le [OF mm2], of a] by (simp add: algebra_simps)
  moreover have "a * modl \<le> modl * 2 ^ k" using assms(4) by (simp add: mult.commute)
  moreover have "(q + 2) * modl * 2 ^ k = (q + 1) * modl * 2 ^ k + modl * 2 ^ k"
    by (simp add: algebra_simps)
  ultimately have "a * 2 ^ k < (q + 2) * modl * 2 ^ k" by linarith
  then have "a < (q + 2) * modl" by simp
  then have lt: "a < q * modl + modl + modl" by simp
  have "a < 2 ^ 64"
    using assms(2,4) by (meson less_le_trans power_increasing one_le_numeral less_imp_le)
  with le have s: "sub64 a (w64 (q * modl)) = a - q * modl" by (simp add: sub64_ge)
  have dv: "drop_bit k (w64 (a * m)) = q" using assms(5) by (simp add: q_def drop_bit_eq_div)
  show ?thesis
  proof (cases "a - q * modl \<ge> modl")
    case True
    then have "a = (a - q * modl - modl) + (q + 1) * modl" using le by (simp add: algebra_simps)
    moreover have "a - q * modl - modl < modl" using lt assms(1) by linarith
    ultimately have "a mod modl = a - q * modl - modl" by (metis mod_less mod_mult_self1)
    then show ?thesis using True assms(2) s dv \<open>a < 2 ^ 64\<close>
      by (simp add: barrett_reduce_def Let_def sub64_ge)
  next
    case False
    have "a = (a - q * modl) + q * modl" using le by simp
    then have "a mod modl = a - q * modl" using False by (metis mod_less mod_mult_self1 not_le)
    then show ?thesis using False assms(2) s dv by (simp add: barrett_reduce_def Let_def)
  qed
qed

section \<open>Montgomery form\<close>

lemma pow2_inverse:
  assumes "1 < q" "q < 2 ^ 63" "odd q"
  obtains x where "euclid_inverse (2 ^ k mod q) q = Inr x" "x < q" "2 ^ k * x mod q = 1"
proof -
  have "coprime (2 ^ k) q" using assms(3) by simp
  then have "coprime (2 ^ k mod q) q" using assms(1) by (simp add: coprime_mod_left_iff del: coprime_power_left_iff)
  moreover obtain x where x: "euclid_inverse (2 ^ k mod q) q = Inr x" "x < q"
    "coprime (2 ^ k mod q) q \<longrightarrow> (2 ^ k mod q) * x mod q = 1"
    using euclid_inverse_correct [OF assms(1,2), of "2 ^ k mod q"] by auto
  ultimately have "2 ^ k * x mod q = 1" by (simp add: mod_mult_left_eq)
  with x that show ?thesis by blast
qed

definition mont_ok :: "nat \<Rightarrow> nat \<Rightarrow> nat \<Rightarrow> bool" where
  "mont_ok q w n \<longleftrightarrow> 1 < q \<and> q < 2 ^ 63 \<and> odd q \<and> w32 (w * n) < 63"

lemma montgomery_reduce_spec:
  assumes "mont_ok q w n"
  shows "\<exists>y. montgomery_reduce a q w n = Inr y \<and> y < q \<and>
    (\<forall>z < q. z * montgomery_r w n mod q = a mod q \<longrightarrow> z = y)"
proof -
  define k where "k = w32 (w * n)"
  have r: "montgomery_r w n = 2 ^ k" using assms by (simp add: montgomery_r_def mont_ok_def k_def)
  have q: "1 < q" "q < 2 ^ 63" "odd q" using assms by (simp_all add: mont_ok_def)
  then obtain x where x: "euclid_inverse (2 ^ k mod q) q = Inr x" "2 ^ k * x mod q = 1"
    by (rule pow2_inverse)
  have "z = a * x mod q" if z: "z < q" "z * 2 ^ k mod q = a mod q" for z
  proof -
    have "a * x mod q = (z * 2 ^ k) * x mod q" by (metis z(2) mod_mult_left_eq)
    also have "\<dots> = z * (2 ^ k * x mod q) mod q" by (simp add: mod_mult_right_eq mult.assoc)
    finally show ?thesis using x(2) z(1) by simp
  qed
  moreover have "montgomery_reduce a q w n = Inr (a * x mod q)"
    using q(1) x(1) by (simp add: montgomery_reduce_def r mod_inv_u64_def mod_mult_left_eq)
  ultimately show ?thesis using q(1) r by auto
qed

lemma montgomery_reduce_is:
  assumes "mont_ok q w n" "z < q" "z * montgomery_r w n mod q = a mod q"
  shows "montgomery_reduce a q w n = Inr z"
  using montgomery_reduce_spec [OF assms(1), of a] assms(2,3) by blast

text \<open>Into the Montgomery domain and back is reduction modulo \<open>q\<close>.\<close>

lemma montgomery_roundtrip:
  assumes "mont_ok q w n"
  shows "bindr (convert_to_montgomery x q w n) (\<lambda>y. convert_from_montgomery y q w n) =
     Inr (x mod q)"
proof -
  have q: "0 < q" using assms by (simp add: mont_ok_def)
  have c: "convert_to_montgomery x q w n = Inr (x * montgomery_r w n mod q)"
    using q by (simp add: convert_to_montgomery_def mod_mult_eq)
  have "(x mod q) * montgomery_r w n mod q = x * montgomery_r w n mod q mod q"
    by (simp add: mod_mult_left_eq)
  then have "montgomery_reduce (x * montgomery_r w n mod q) q w n = Inr (x mod q)"
    using q by (intro montgomery_reduce_is [OF assms]) simp_all
  then show ?thesis by (simp add: c convert_from_montgomery_def)
qed

text \<open>The Montgomery product of two converted values is the converted product.\<close>

lemma montgomery_multiply_homomorphic:
  assumes "mont_ok q w n"
  shows "bindr (convert_to_montgomery x q w n) (\<lambda>a.
         bindr (convert_to_montgomery y q w n) (\<lambda>b. montgomery_multiply a b q w n)) =
     convert_to_montgomery (x * y) q w n"
proof -
  define R where "R = montgomery_r w n"
  have q: "0 < q" using assms by (simp add: mont_ok_def)
  have c: "convert_to_montgomery z q w n = Inr (z * R mod q)" for z
    using q by (simp add: convert_to_montgomery_def mod_mult_eq R_def)
  define p where "p = (x * R mod q) * (y * R mod q) mod q"
  have "(x * y * R mod q) * R mod q = x * y * R * R mod q" by (rule mod_mult_left_eq)
  also have "x * y * R * R = (x * R) * (y * R)" by (simp add: ac_simps)
  also have "\<dots> mod q = p mod q" by (simp add: p_def mod_mult_eq)
  finally have "montgomery_reduce p q w n = Inr (x * y * R mod q)"
    using q unfolding R_def by (intro montgomery_reduce_is [OF assms]) simp
  then show ?thesis using q by (simp add: c montgomery_multiply_def p_def)
qed

text \<open>The kernels' reduction divides by \<open>2^34\<close> for an odd modulus, and leaves an even one alone.\<close>

lemma montgomery_kernel_odd:
  assumes "1 < q" "q < 2 ^ 63" "odd q"
  shows "\<exists>y. montgomery_reduce_ntt_friendly a q = Inr y \<and> y < q \<and> y * 2 ^ 34 mod q = a mod q"
proof -
  obtain x where x: "euclid_inverse (2 ^ 34 mod q) q = Inr x" "2 ^ 34 * x mod q = 1"
    using assms by (rule pow2_inverse)
  then have "x \<noteq> 0" by (cases "x = 0") simp_all
  then have "montgomery_reduce_ntt_friendly a q = Inr (a * x mod q)"
    using assms(1) x(1) by (simp add: montgomery_reduce_ntt_friendly_def mod_inv_def kR_def mod_mult_left_eq)
  moreover have "a * x mod q * 2 ^ 34 mod q = a * (2 ^ 34 * x mod q) mod q"
    by (simp only: mod_mult_left_eq mod_mult_right_eq mult.assoc mult.commute [of x])
  ultimately show ?thesis using assms(1) x(2) by simp
qed

lemma montgomery_kernel_even:
  assumes "1 < q" "q < 2 ^ 63" "even q"
  shows "montgomery_reduce_ntt_friendly a q = Inr (a mod q)"
proof -
  have "even (2 ^ 34 mod q)" using assms(3) by (simp add: dvd_mod_iff)
  then have "\<not> coprime (2 ^ 34 mod q) q" using assms(3) by (meson coprime_common_divisor odd_one)
  then have "euclid_inverse (2 ^ 34 mod q) q = Inr 0"
    using euclid_inverse_correct [OF assms(1,2), of "2 ^ 34 mod q"] by auto
  then show ?thesis using assms(1) by (simp add: montgomery_reduce_ntt_friendly_def mod_inv_def kR_def)
qed

section \<open>The trace hash\<close>

lemma xorshift_inv: "(v XOR drop_bit 33 v) XOR drop_bit 33 (v XOR drop_bit 33 v) = (v :: 64 word)"
  by (rule bit_word_eqI) (auto simp: bit_xor_iff bit_drop_bit_eq dest: bit_imp_le_length)

lemma inj_xorshift: "v XOR drop_bit 33 v = w XOR drop_bit 33 w \<Longrightarrow> v = (w :: 64 word)"
  by (metis xorshift_inv)

lemma inj_mul1: "v * 0xff51afd7ed558ccd = w * 0xff51afd7ed558ccd \<Longrightarrow> v = (w :: 64 word)"
proof -
  assume "v * 0xff51afd7ed558ccd = w * 0xff51afd7ed558ccd"
  then have "v * 0xff51afd7ed558ccd * 0x4f74430c22a54005 = w * 0xff51afd7ed558ccd * 0x4f74430c22a54005" by (rule arg_cong)
  moreover have one: "(0xff51afd7ed558ccd :: 64 word) * 0x4f74430c22a54005 = 1" by simp
  ultimately show "v = w" by (simp only: mult.assoc one mult_1_right)
qed

lemma inj_mul2: "v * 0xc4ceb9fe1a85ec53 = w * 0xc4ceb9fe1a85ec53 \<Longrightarrow> v = (w :: 64 word)"
proof -
  assume "v * 0xc4ceb9fe1a85ec53 = w * 0xc4ceb9fe1a85ec53"
  then have "v * 0xc4ceb9fe1a85ec53 * 0x9cb4b2f8129337db = w * 0xc4ceb9fe1a85ec53 * 0x9cb4b2f8129337db" by (rule arg_cong)
  moreover have one: "(0xc4ceb9fe1a85ec53 :: 64 word) * 0x9cb4b2f8129337db = 1" by simp
  ultimately show "v = w" by (simp only: mult.assoc one mult_1_right)
qed

lemma hash_mix_inj: "hash_mix v = hash_mix w \<longleftrightarrow> v = w"
proof
  assume "hash_mix v = hash_mix w"
  then show "v = w"
    unfolding hash_mix_def Let_def by (blast dest: inj_xorshift inj_mul1 inj_mul2)
qed simp

lemma rotl64_7: "rotl64 (rotl64 v 7) 57 = v"
  by (rule bit_word_eqI)
     (auto simp: rotl64_def bit_or_iff bit_push_bit_iff bit_drop_bit_eq dest: bit_imp_le_length)

lemma rotl64_inj: "rotl64 v 7 = rotl64 w 7 \<longleftrightarrow> v = w"
  by (metis rotl64_7)

lemma xor_cancel: "a XOR c = b XOR c \<longleftrightarrow> a = (b :: 64 word)"
proof
  assume "a XOR c = b XOR c"
  then have "(a XOR c) XOR c = (b XOR c) XOR c" by (rule arg_cong)
  then show "a = b" by (simp add: xor.assoc)
qed simp

lemma xor_cancel_left: "c XOR a = c XOR b \<longleftrightarrow> a = (b :: 64 word)"
  using xor_cancel [of a c b] by (simp only: xor.commute)

lemma trace_step_in:
  "i < length state \<Longrightarrow> trace_step state i a =
     Inr (rotl64 (a XOR hash_mix (of_nat (state ! i) XOR of_nat (w32 (i + 1)))) 7)"
  by (simp add: trace_step_def)

lemma trace_step_inj: "trace_step state i a = Inr t \<Longrightarrow> trace_step state i b = Inr t \<Longrightarrow> a = b"
  by (auto simp: trace_step_def bindr_Inr_iff rd_Inr_iff rotl64_inj xor_cancel)

lemma trace_loop_total:
  "set is \<subseteq> {..<length state} \<Longrightarrow> \<exists>t. foldr_res (trace_step state) is acc = Inr t"
  by (induction "is" arbitrary: acc) (simp_all add: trace_step_in)

lemma trace_loop_inj:
  assumes "foldr_res (trace_step state) is a = Inr t" "foldr_res (trace_step state) is b = Inr t"
  shows "a = b"
  using assms
proof (induction "is" arbitrary: a b)
  case (Cons i "is")
  then obtain x y where "trace_step state i a = Inr x" "trace_step state i b = Inr y"
    "foldr_res (trace_step state) is x = Inr t" "foldr_res (trace_step state) is y = Inr t"
    by (auto simp: bindr_Inr_iff)
  with Cons.IH show ?case by (metis trace_step_inj)
qed simp

lemma trace_loop_cong:
  "k \<notin> set is \<Longrightarrow>
   foldr_res (trace_step (state[k := v])) is a = foldr_res (trace_step state) is a"
proof (induction "is" arbitrary: a)
  case (Cons i "is")
  then have "trace_step (state[k := v]) i a = trace_step state i a"
    by (auto simp: trace_step_def rd_def)
  with Cons show ?case by (cases "trace_step state i a") simp_all
qed simp

text \<open>The trace of a module distinguishes two states that differ in one register.\<close>

lemma trace_detects_change:
  assumes "k < n" "n \<le> length state" "n < 2 ^ 32" "v < 2 ^ 64" "state ! k < 2 ^ 64"
    and "v \<noteq> state ! k"
  shows "\<exists>t t'. compute_trace state n m e = Inr t \<and> compute_trace (state[k := v]) n m e = Inr t' \<and>
    t \<noteq> t'"
proof -
  have ix: "[0..<n] = [0..<k] @ k # [Suc k..<n]"
    using assms(1) by (metis upt_conv_Cons upt_add_eq_append le0 less_imp_le add_0 le_add_diff_inverse)
  let ?s = "state[k := v]"
  obtain a where a: "foldr_res (trace_step state) [0..<k] (trace_seed m e) = Inr a"
    using trace_loop_total [of "[0..<k]" state] assms(1,2) by fastforce
  then have a': "foldr_res (trace_step ?s) [0..<k] (trace_seed m e) = Inr a"
    by (simp add: trace_loop_cong)
  obtain b b' where b: "trace_step state k a = Inr b" "trace_step ?s k a = Inr b'"
    using assms(1,2) by (auto simp: trace_step_in)
  have "of_nat v \<noteq> (of_nat (state ! k) :: 64 word)"
    using assms(4-6) by (simp add: word_of_nat_eq_iff take_bit_nat_eq_self)
  then have ne: "b \<noteq> b'"
    using b assms(1,2) by (auto simp: trace_step_in rotl64_inj hash_mix_inj xor_cancel xor_cancel_left)
  obtain t where t: "foldr_res (trace_step state) [Suc k..<n] b = Inr t"
    using trace_loop_total [of "[Suc k..<n]" state] assms(2) by fastforce
  obtain t' where t': "foldr_res (trace_step ?s) [Suc k..<n] b' = Inr t'"
    using trace_loop_total [of "[Suc k..<n]" ?s] assms(2) by fastforce
  have "t \<noteq> t'"
    using ne t t' trace_loop_inj [of state "[Suc k..<n]"] by (auto simp: trace_loop_cong)
  with a a' b t t' show ?thesis by (simp add: compute_trace_def ix foldr_res_append)
qed

section \<open>Decoding\<close>

lemma and_masks: "n AND 0xFF = n mod 2 ^ 8" "n AND 0xFFF = (n :: nat) mod 2 ^ 12"
proof -
  have "(0xFF :: nat) = mask 8" "(0xFFF :: nat) = mask 12" by (simp_all add: mask_eq_exp_minus_1)
  then show "n AND 0xFF = n mod 2 ^ 8" "n AND 0xFFF = n mod 2 ^ 12"
    by (metis take_bit_eq_mask take_bit_eq_mod)+
qed

text \<open>Nothing of the first word is lost: its fields reassemble it.\<close>

lemma decode_lossless:
  assumes "w0 < 2 ^ 64"
  shows "w0 = di_opcode (decode_words w0 w1 w2 w3)
       + 2 ^ 8 * (di_dst (decode_words w0 w1 w2 w3)
       + 2 ^ 12 * (di_src0 (decode_words w0 w1 w2 w3)
       + 2 ^ 12 * (di_src1 (decode_words w0 w1 w2 w3)
       + 2 ^ 12 * (di_rns (decode_words w0 w1 w2 w3)
       + 2 ^ 12 * di_flags (decode_words w0 w1 w2 w3)))))"
proof -
  have s: "x = x mod a + a * (x div a)" for x a :: nat by simp
  have d: "w0 div 2 ^ 20 = w0 div 2 ^ 8 div 2 ^ 12" "w0 div 2 ^ 32 = w0 div 2 ^ 20 div 2 ^ 12"
    "w0 div 2 ^ 44 = w0 div 2 ^ 32 div 2 ^ 12" "w0 div 2 ^ 56 = w0 div 2 ^ 44 div 2 ^ 12"
    by (simp_all flip: div_mult2_eq)
  have "w0 div 2 ^ 56 < 2 ^ 8" using assms by (simp add: div_less_iff_less_mult)
  then have l: "w0 div 2 ^ 56 mod 2 ^ 8 = w0 div 2 ^ 56" by simp
  show ?thesis
    unfolding decode_words_def decoded_instruction.simps and_masks drop_bit_eq_div l
    using s [of w0 "2 ^ 8"] s [of "w0 div 2 ^ 8" "2 ^ 12"] s [of "w0 div 2 ^ 20" "2 ^ 12"]
      s [of "w0 div 2 ^ 32" "2 ^ 12"] s [of "w0 div 2 ^ 44" "2 ^ 12"]
    by (simp only: d [symmetric])
qed

lemma sign_extend_32_range: "- (2 ^ 31) \<le> sign_extend_32 v \<and> sign_extend_32 v < 2 ^ 31"
proof -
  have "v mod 2 ^ 32 < 2 ^ 32" by simp
  then have "int (v mod 2 ^ 32) < 2 ^ 32" by (simp only: of_nat_less_numeral_power_cancel_iff)
  then show ?thesis by (auto simp: sign_extend_32_def Let_def)
qed

lemma signed_mod_eq:
  assumes "- (2 ^ 63) < v" "v < 2 ^ 63" "0 < m" "m < 2 ^ 64"
  shows "signed_mod v m = Inr (nat (v mod int m))"
proof (cases "v \<ge> 0")
  case True
  then show ?thesis using assms(3) by (simp add: signed_mod_def nat_mod_distrib)
next
  case False
  define u where "u = nat (- v)"
  have v: "v = - int u" "s64 (- v) = Inr (int u)"
    using False assms(1) by (simp_all add: u_def)
  have r: "nat (v mod int m) = (if u mod m = 0 then 0 else m - u mod m)"
    using assms(3) by (auto simp: v zmod_zminus1_eq_if nat_diff_distrib simp flip: of_nat_mod)
  have "u mod m \<noteq> 0 \<Longrightarrow> sub64 m (u mod m) = m - u mod m"
    using assms(3,4) by (intro sub64_ge) simp_all
  with r False v assms(3) show ?thesis by (simp add: signed_mod_def)
qed

section \<open>The stream table\<close>

definition table_key :: "nat list \<Rightarrow> nat \<Rightarrow> nat \<Rightarrow> nat" where
  "table_key inputs base i = inputs ! (base + 1 + 2 * i)"

definition table_value :: "nat list \<Rightarrow> nat \<Rightarrow> nat \<Rightarrow> nat" where
  "table_value inputs base i = inputs ! (base + 2 + 2 * i)"

definition sorted_table :: "nat list \<Rightarrow> nat \<Rightarrow> nat \<Rightarrow> bool" where
  "sorted_table inputs base n \<longleftrightarrow>
     base + 2 * n < length inputs \<and> length inputs < 2 ^ 32 \<and>
     (\<forall>i < n. \<forall>j < i. table_key inputs base j < table_key inputs base i)"

lemma table_search_correct:
  assumes "sorted_table inputs base n" "hi \<le> n"
    and "\<forall>i < n. table_key inputs base i = k \<longrightarrow> lo \<le> i \<and> i < hi"
  shows "\<exists>r. table_search inputs base k lo hi = Inr r \<and>
    (case r of Some v \<Rightarrow> \<exists>i < n. table_key inputs base i = k \<and> v = table_value inputs base i
     | None \<Rightarrow> \<forall>i < n. table_key inputs base i \<noteq> k)"
  using assms
proof (induction inputs base k lo hi rule: table_search.induct)
  case (1 inputs base k lo hi)
  show ?case
  proof (cases "lo < hi")
    case False
    with 1(5) show ?thesis by (subst table_search.simps) fastforce
  next
    case True
    define mid where "mid = lo + (hi - lo) div 2"
    have mid: "lo \<le> mid" "mid < hi" "mid < n" using True 1(4) by (auto simp: mid_def)
    have sz: "base + 2 * n < length inputs" "length inputs < 2 ^ 32"
      and ord: "\<And>i j. i < n \<Longrightarrow> j < i \<Longrightarrow> table_key inputs base j < table_key inputs base i"
      using 1(3) by (auto simp: sorted_table_def)
    have c: "w32 (base + 1 + mid * 2) = base + 1 + 2 * mid" "base + 1 + 2 * mid < length inputs"
      "w32 (base + 1 + 2 * mid + 1) = base + 2 + 2 * mid" "base + 2 + 2 * mid < length inputs"
      using mid(3) sz by simp_all
    have rdk: "rd inputs (base + 1 + 2 * mid) = Inr (table_key inputs base mid)"
      "rd inputs (base + 2 + 2 * mid) = Inr (table_value inputs base mid)"
      using c by (simp_all add: table_key_def table_value_def)
    note IH = 1(1,2) [OF True refl refl, folded mid_def, unfolded c(1), OF rdk(1)]
    have step: "table_search inputs base k lo hi =
        (if table_key inputs base mid = k then Inr (Some (table_value inputs base mid))
         else if table_key inputs base mid < k then table_search inputs base k (mid + 1) hi
         else table_search inputs base k lo mid)"
      using True by (subst table_search.simps)
        (simp only: Let_def mid_def [symmetric] c(1) rdk c(3) if_True bindr_simps)
    consider "table_key inputs base mid = k" | "table_key inputs base mid < k"
      | "k < table_key inputs base mid" by linarith
    then show ?thesis
    proof cases
      case 1
      then show ?thesis using mid(3) by (auto simp: step)
    next
      case 2
      then have "\<forall>i < n. table_key inputs base i = k \<longrightarrow> mid + 1 \<le> i \<and> i < hi"
        using 1(5) ord mid(3) by (metis Suc_eq_plus1 Suc_leI linorder_neqE_nat order_less_asym)
      with 2 show ?thesis using IH(1) 1(3,4) by (simp add: step)
    next
      case 3
      then have "\<forall>i < n. table_key inputs base i = k \<longrightarrow> lo \<le> i \<and> i < mid"
        using 1(5) ord by (metis linorder_neqE_nat order_less_asym)
      with 3 show ?thesis using IH(2) 1(3,4) mid by (simp add: step)
    qed
  qed
qed

lemma foldr_res_cong:
  "(\<And>x s. x \<in> set xs \<Longrightarrow> f x s = g x s) \<Longrightarrow> foldr_res f xs s = foldr_res g xs s"
proof (induction xs arbitrary: s)
  case (Cons x xs)
  then show ?case by (cases "g x s") simp_all
qed simp

definition table_length :: "nat list \<Rightarrow> nat \<Rightarrow> nat" where
  "table_length inputs base = min (w32 (inputs ! base)) ((length inputs - (base + 1)) div 2)"

lemma table_entries_eq:
  assumes "base < length inputs" "length inputs < 2 ^ 32"
  shows "table_entries inputs (length inputs) base = Inr (table_length inputs base)"
proof -
  have "w32 (base + 1) = base + 1" using assms by simp
  moreover have "base + 1 < length inputs \<Longrightarrow> sub32 (length inputs) (base + 1) = length inputs - (base + 1)"
    using assms(2) by (intro sub32_ge) simp_all
  ultimately show ?thesis
    using assms(1) by (simp add: table_entries_def table_length_def Let_def)
qed

lemma lookup_stream_value_correct:
  assumes "base = sb + rc" "base < length inputs" "length inputs < 2 ^ 32"
    and "\<forall>i < table_length inputs base. \<forall>j < i. table_key inputs base j < table_key inputs base i"
  shows "\<exists>r. lookup_stream_value inputs (length inputs) sb rc k m = Inr r \<and>
    ((\<exists>i < table_length inputs base. table_key inputs base i = k \<and>
        r = (if m = 0 then 0 else table_value inputs base i mod m)) \<or>
     (\<forall>i < table_length inputs base. table_key inputs base i \<noteq> k) \<and> r = 0)"
proof -
  have b: "w32 (sb + rc) = base" using assms(1-3) by simp
  have "sorted_table inputs base (table_length inputs base)"
    using assms(2-4) by (auto simp: sorted_table_def table_length_def)
  then obtain r where r: "table_search inputs base k 0 (table_length inputs base) = Inr r"
    "case r of Some v \<Rightarrow> \<exists>i < table_length inputs base. table_key inputs base i = k \<and>
        v = table_value inputs base i
     | None \<Rightarrow> \<forall>i < table_length inputs base. table_key inputs base i \<noteq> k"
    using table_search_correct [of inputs base "table_length inputs base" _ k 0] by blast
  then show ?thesis
    using assms(2,3) b
    by (cases r) (auto simp: lookup_stream_value_def table_entries_eq)
qed

lemma table_search_total:
  assumes "base + 2 * n < length inputs" "length inputs < 2 ^ 32" "hi \<le> n"
  shows "\<exists>r. table_search inputs base k lo hi = Inr r"
  using assms
proof (induction inputs base k lo hi rule: table_search.induct)
  case (1 inputs base k lo hi)
  show ?case
  proof (cases "lo < hi")
    case False
    then show ?thesis by (subst table_search.simps) simp
  next
    case True
    define mid where "mid = lo + (hi - lo) div 2"
    have mid: "mid < n" "mid \<le> n" "mid < hi" using True 1(5) by (auto simp: mid_def)
    then have c: "w32 (base + 1 + mid * 2) = base + 1 + mid * 2" "base + 1 + mid * 2 < length inputs"
      "w32 (base + 1 + mid * 2 + 1) = base + 1 + mid * 2 + 1" "base + 1 + mid * 2 + 1 < length inputs"
      using 1(3,4) by simp_all
    note IH = 1(1,2) [OF True refl refl, folded mid_def, unfolded c(1), OF rd_in [OF c(2)]]
    show ?thesis
      using True c IH 1(3-5) mid
      by (subst table_search.simps) (simp add: Let_def mid_def [symmetric])
  qed
qed

text \<open>What a kernel passes for the inputs: the array and its length, which is a 32-bit number.\<close>

lemma lookup_stream_value_total:
  assumes "length inputs < 2 ^ 32" "0 < m"
  shows "\<exists>r. lookup_stream_value inputs (length inputs) sb rc k m = Inr r \<and> r < m"
proof (cases "w32 (sb + rc) < length inputs")
  case True
  define base where "base = w32 (sb + rc)"
  have b: "base < length inputs" using True by (simp add: base_def)
  then have "base + 2 * table_length inputs base < length inputs" by (auto simp: table_length_def)
  then obtain r where "table_search inputs base k 0 (table_length inputs base) = Inr r"
    using table_search_total [OF _ assms(1) order_refl] by blast
  then show ?thesis
    using b assms by (cases r) (auto simp: lookup_stream_value_def table_entries_eq base_def)
qed (use assms(2) in \<open>simp add: lookup_stream_value_def Let_def\<close>)

lemma signed_mod_total:
  assumes "- (2 ^ 63) < v" "v < 2 ^ 63" "0 < m" "m < 2 ^ 64"
  shows "\<exists>r. signed_mod v m = Inr r \<and> r < m"
proof -
  have "nat (v mod int m) < m" using assms(3) by (simp add: nat_less_iff)
  with signed_mod_eq [OF assms] show ?thesis by simp
qed

definition imm_ok :: "decoded_instruction \<Rightarrow> bool" where
  "imm_ok inst \<longleftrightarrow> - (2 ^ 31) \<le> di_imm0 inst \<and> di_imm0 inst < 2 ^ 31 \<and>
     - (2 ^ 31) \<le> di_imm1 inst \<and> di_imm1 inst < 2 ^ 31"

lemma decode_imm_ok: "imm_ok (decode_words w0 w1 w2 w3)"
  using sign_extend_32_range by (auto simp: imm_ok_def decode_words_def)

lemma decode_instruction_total:
  assumes "4 * i + 3 < length instrs" "length instrs < 2 ^ 32"
  shows "\<exists>inst. decode_instruction instrs i = Inr inst \<and> imm_ok inst \<and>
    inst = decode_words (instrs ! (4 * i)) (instrs ! (4 * i + 1)) (instrs ! (4 * i + 2))
      (instrs ! (4 * i + 3))"
proof -
  have "w32 (4 * i) = 4 * i" "w32 (4 * i + 1) = 4 * i + 1"
    "w32 (4 * i + 2) = 4 * i + 2" "w32 (4 * i + 3) = 4 * i + 3" using assms by simp_all
  then show ?thesis
    using assms by (simp add: decode_instruction_def Let_def decode_imm_ok mult.commute [of i])
qed

text \<open>Every operand read is below the modulus, whatever the instruction names as its source.\<close>

lemma load_operand_total:
  assumes "imm_ok inst" "0 < m" "m < 2 ^ 64" "rc \<le> length state" "length inputs < 2 ^ 32"
  shows "\<exists>r. load_operand state rc inst u m inputs (length inputs) sb = Inr r \<and> r < m"
proof -
  let ?v = "if u then di_imm1 inst else di_imm0 inst"
  have "- (2 ^ 63) < ?v" "?v < 2 ^ 63" using assms(1) by (auto simp: imm_ok_def)
  then have s: "\<exists>r. signed_mod ?v m = Inr r \<and> r < m" using assms(2,3) by (rule signed_mod_total)
  have st: "rc \<noteq> 0 \<Longrightarrow> x mod rc < length state" for x
    using assms(4) by (meson le_trans mod_less_divisor not_gr0 not_le)
  show ?thesis
    unfolding load_operand_def Let_def
    using s lookup_stream_value_total [OF assms(5,2), of sb rc "di_aux inst"] assms(2)
    by (auto simp: st)
qed

definition regs_below :: "nat \<Rightarrow> nat list \<Rightarrow> bool" where
  "regs_below m state \<longleftrightarrow> (\<forall>x \<in> set state. x < m)"

lemma store_register_total:
  assumes "0 < m" "rc \<le> length state" "regs_below m state"
  shows "\<exists>s'. store_register state rc d v m = Inr s' \<and> length s' = length state \<and> regs_below m s' \<and>
    (0 < rc \<longrightarrow> s' = state[d mod rc := v mod m])"
proof (cases "rc = 0")
  case False
  then have "d mod rc < length state" using assms(2) by (meson le_trans mod_less_divisor not_gr0 not_le)
  moreover have "regs_below m (state[d mod rc := v mod m])"
    using assms(1,3) by (auto simp: regs_below_def dest!: set_update_subset_insert [THEN subsetD])
  ultimately show ?thesis using False assms(1) by (simp add: store_register_def)
qed (use assms in \<open>simp add: store_register_def\<close>)

lemma init_state_from_input_eq:
  assumes "n \<le> length state" "length inputs < 2 ^ 32" "sb + n < 2 ^ 32" "0 < m"
  shows "init_state_from_input inputs (length inputs) state n m sb =
    Inr (List.map (\<lambda>i. if sb + i < length inputs then inputs ! (sb + i) mod m else 0) [0..<n]
         @ drop n state)"
proof -
  have "foldr_res (init_state_step inputs (length inputs) m sb) [0..<n] state =
      foldr_res (\<lambda>i ys. wr ys i (if sb + i < length inputs then inputs ! (sb + i) mod m else 0))
        [0..<n] state"
    using assms(3,4) by (intro foldr_res_cong) (auto simp: init_state_step_def Let_def)
  then show ?thesis using store_loop [OF assms(1)] by (simp add: init_state_from_input_def)
qed

definition output_words :: "nat \<Rightarrow> nat list \<Rightarrow> nat \<Rightarrow> nat list \<Rightarrow> nat list" where
  "output_words n header rc state =
     take n (header @ take rc state @ replicate (n - 6 - rc) 0)"

lemma write_output_tail_correct:
  assumes "rc \<le> length state" "6 \<le> length outputs"
    and "compute_trace state rc m e = Inr t"
  shows "bindr (wr outputs 0 x) (write_output_tail (length outputs) state rc m p e) =
    Inr (output_words (length outputs) [x, e, rc, m, p, unat t] rc state)"
proof -
  obtain a b c d f g rest where o: "outputs = a # b # c # d # f # g # rest"
    using assms(2) by (auto simp: numeral_eq_Suc Suc_le_length_iff)
  let ?h = "[x, e, rc, m, p, unat t]"
  define w where "w = min (length rest) rc"
  have shift: "foldr_res (\<lambda>i os. bindr (F i) (\<lambda>v. wr os (6 + i) v)) is (?h @ xs) =
      bindr (foldr_res (\<lambda>i os. bindr (F i) (\<lambda>v. wr os i v)) is xs) (\<lambda>ys. Inr (?h @ ys))"
    for F "is" and xs :: "nat list"
  proof (induction "is" arbitrary: xs)
    case (Cons i "is")
    then show ?case by (cases "F i") (auto simp: wr_def list_update_append split: nat.splits)
  qed simp
  have c1: "foldr_res (\<lambda>i os. bindr (rd state i) (\<lambda>v. wr os i v)) [0..<w] rest =
      foldr_res (\<lambda>i os. wr os i (state ! i)) [0..<w] rest"
    using assms(1) by (intro foldr_res_cong) (simp add: w_def)
  have l: "w \<le> length rest" by (simp add: w_def)
  have tk: "List.map ((!) state) [0..<w] = take w state"
    using assms(1) by (intro nth_equalityI) (auto simp: w_def)
  have cp: "foldr_res (\<lambda>i os. bindr (rd state i) (\<lambda>v. wr os (6 + i) v)) [0..<w] (?h @ rest) =
      Inr (?h @ List.map ((!) state) [0..<w] @ drop w rest)"
    unfolding shift c1 using l by (simp add: store_loop)
  have "foldr_res (\<lambda>i os. wr os (6 + i) 0) [w..<length rest] (?h @ List.map ((!) state) [0..<w] @ drop w rest) =
      Inr (?h @ List.map ((!) state) [0..<w] @ replicate (length rest - w) 0)"
    using shift [of "\<lambda>i. Inr 0" "[w..<length rest]" "List.map ((!) state) [0..<w] @ drop w rest"] l
    by (simp add: store_loop_from map_replicate_const)
  moreover have "min (length rest) rc = w" by (simp add: w_def)
  moreover have "output_words (length outputs) ?h rc state =
      ?h @ List.map ((!) state) [0..<w] @ replicate (length rest - w) 0"
    using assms(1) unfolding tk
    by (cases "length rest \<le> rc") (simp_all add: output_words_def o w_def min_def)
  ultimately show ?thesis
    using cp by (cases "length rest = 0")
      (simp_all add: write_output_tail_def o header_word_def assms(3) Let_def)
qed

lemma write_module_outputs_correct:
  assumes "rc \<le> length state" "6 \<le> length outputs"
    and "compute_trace state rc m e = Inr t"
  shows "write_module_outputs outputs (length outputs) state rc m p e =
    Inr (output_words (length outputs) [0, e, rc, m, p, unat t] rc state)"
proof -
  have "length outputs \<noteq> 0" using assms(2) by linarith
  then show ?thesis
    using write_output_tail_correct [OF assms, of 0] by (simp add: write_module_outputs_def)
qed

end
