(* ===== verification/HlsRoots.thy ===== *)
theory HlsRoots
  imports HlsArith
begin

text \<open>
  \<open>kernels/generated_ntt_tables.hpp\<close>: the table of negacyclic roots, one row
  \<open>(mod, span, psi, psi_inv, omega, omega_inv)\<close> per modulus and transform length, in the order of the
  file, and the check that every row is a valid set of roots. The check multiplies only: each
  product is compared with a stored quotient and remainder (\<open>root_cert_0\<close> to \<open>root_cert_12\<close>).
\<close>

type_synonym root_entry = "nat \<times> nat \<times> nat \<times> nat \<times> nat \<times> nat"

section \<open>The table\<close>

definition root_table_0 :: "root_entry list" where
  "root_table_0 = [
     (786433, 2, 100025, 686408, 786432, 786432),
     (786433, 4, 241748, 388249, 686408, 100025),
     (786433, 8, 74616, 641480, 388249, 241748),
     (786433, 16, 41596, 116823, 74616, 641480),
     (786433, 32, 60605, 353126, 323915, 368963),
     (786433, 64, 44647, 440344, 533387, 704289),
     (786433, 128, 2723, 328956, 336832, 442002),
     (1179649, 2, 490629, 689020, 1179648, 1179648),
     (1179649, 4, 494273, 495809, 490629, 689020),
     (1179649, 8, 202617, 548712, 683840, 685376),
     (1179649, 16, 24372, 1008839, 630937, 977032),
     (1179649, 32, 75225, 734307, 24372, 1008839),
     (1179649, 64, 35337, 797449, 634927, 904330),
     (1179649, 128, 893, 885067, 797449, 35337),
     (2752513, 2, 1331270, 1421243, 2752512, 2752512),
     (2752513, 4, 13629, 686866, 1331270, 1421243),
     (2752513, 8, 79328, 2176216, 686866, 13629),
     (2752513, 16, 36249, 1540083, 1041300, 1432224),
     (2752513, 32, 154885, 700155, 1212430, 2716264),
     (2752513, 64, 73825, 2253761, 154885, 700155),
     (2752513, 128, 16222, 2406540, 1664549, 1536411),
     (5767169, 2, 1838090, 3929079, 5767168, 5767168),
     (5767169, 4, 374466, 3643041, 1838090, 3929079),
     (5767169, 8, 764452, 1328554, 5392703, 2124128),
     (5767169, 16, 11570, 987447, 1220013, 2082148),
     (5767169, 32, 8119, 5556201, 2479302, 2253851),
     (5767169, 64, 48912, 2307127, 4775778, 3296903),
     (5767169, 128, 50302, 4483423, 4271182, 647752),
     (6946817, 2, 320059, 6626758, 6946816, 6946816),
     (6946817, 4, 288400, 4288696, 320059, 6626758),
     (6946817, 8, 1913788, 4548582, 288400, 4288696),
     (6946817, 16, 24196, 6015158, 1913788, 4548582),
     (6946817, 32, 137776, 5980295, 3522132, 5454043),
     (6946817, 64, 108228, 3595171, 966522, 6809041),
     (6946817, 128, 64223, 6827725, 5131248, 4450967),
     (204865537, 2, 51316640, 153548897, 204865536, 204865536),
     (204865537, 4, 60196040, 70148284, 153548897, 51316640),
     (204865537, 8, 44879148, 120016778, 144669497, 134717253),
     (204865537, 16, 15884715, 180609551, 97926416, 135718507),
     (204865537, 32, 15064386, 121963934, 24255986, 188980822)]"

definition root_table_1 :: "root_entry list" where
  "root_table_1 = [
     (204865537, 64, 311981, 49059091, 21014286, 73391139),
     (204865537, 128, 1656385, 38401752, 51996721, 103808943),
     (205651969, 2, 81618170, 124033799, 205651968, 205651968),
     (205651969, 4, 39465778, 155941050, 81618170, 124033799),
     (205651969, 8, 50991633, 56072547, 155941050, 39465778),
     (205651969, 16, 478789, 91963935, 142613055, 93748375),
     (205651969, 32, 5336093, 176589952, 139484785, 123239491),
     (205651969, 64, 5034511, 46079257, 107133809, 162210183),
     (205651969, 128, 3037071, 147308576, 103797422, 115864449),
     (206307329, 2, 49017402, 157289927, 206307328, 206307328),
     (206307329, 4, 25497215, 120448707, 157289927, 49017402),
     (206307329, 8, 24719366, 59949515, 25497215, 120448707),
     (206307329, 16, 6526433, 71347443, 116558149, 53407557),
     (206307329, 32, 15375495, 127944278, 134959886, 199780896),
     (206307329, 64, 3685728, 23344507, 78504650, 39836324),
     (206307329, 128, 3932158, 159826508, 163765059, 73267050),
     (207880193, 2, 83883270, 123996923, 207880192, 207880192),
     (207880193, 4, 42539756, 58945363, 83883270, 123996923),
     (207880193, 8, 6621343, 117642886, 42539756, 58945363),
     (207880193, 16, 4939536, 155591772, 117642886, 6621343),
     (207880193, 32, 2625251, 175068749, 90774472, 125837436),
     (207880193, 64, 1587624, 45834428, 2625251, 175068749),
     (207880193, 128, 580422, 76691059, 123785424, 193265870),
     (209059841, 2, 38056052, 171003789, 209059840, 209059840),
     (209059841, 4, 15088972, 52814566, 38056052, 171003789),
     (209059841, 8, 4333011, 65840125, 156245275, 193970869),
     (209059841, 16, 4701360, 164431762, 143219716, 204726830),
     (209059841, 32, 6569108, 18140552, 92835649, 203625332),
     (209059841, 64, 11620512, 69626723, 157583583, 56103528),
     (209059841, 128, 3632131, 28865449, 72454538, 86930712),
     (210370561, 2, 49471008, 160899553, 210370560, 210370560),
     (210370561, 4, 56754735, 101277965, 160899553, 49471008),
     (210370561, 8, 19012269, 31062978, 101277965, 56754735),
     (210370561, 16, 11397922, 41704911, 179307583, 191358292),
     (210370561, 32, 2990186, 160542222, 42730974, 163550669),
     (210370561, 64, 20897266, 188276175, 100928516, 161474911),
     (210370561, 128, 4208959, 161565265, 30921871, 56988624),
     (211025921, 2, 83036923, 127988998, 211025920, 211025920),
     (211025921, 4, 84356495, 111689006, 83036923, 127988998),
     (211025921, 8, 18683265, 37664639, 84356495, 111689006)]"

definition root_table_2 :: "root_entry list" where
  "root_table_2 = [
     (211025921, 16, 21441, 60686807, 37664639, 18683265),
     (211025921, 32, 3150958, 40352297, 188786556, 1826138),
     (211025921, 64, 455244, 196922575, 19645114, 198349798),
     (211025921, 128, 1132786, 129452627, 166522116, 6708206),
     (211812353, 2, 71703471, 140108882, 211812352, 211812352),
     (211812353, 4, 45330301, 63242604, 71703471, 140108882),
     (211812353, 8, 63657252, 102256182, 63242604, 45330301),
     (211812353, 16, 4812643, 7484709, 63657252, 102256182),
     (211812353, 32, 444173, 157085908, 92353286, 108825684),
     (211812353, 64, 6017445, 36098470, 110770322, 75143127),
     (211812353, 128, 274190, 137971194, 198583138, 173629622),
     (214171649, 2, 104569215, 109602434, 214171648, 214171648),
     (214171649, 4, 10754886, 120308291, 104569215, 109602434),
     (214171649, 8, 2425040, 152154833, 93863358, 203416763),
     (214171649, 16, 9971354, 117145628, 211746609, 62016816),
     (214171649, 32, 11778088, 38973621, 96445464, 104933417),
     (214171649, 64, 2705205, 44678204, 103017344, 34207406),
     (214171649, 128, 211239, 175720133, 74212129, 95842186),
     (215482369, 2, 79732526, 135749843, 215482368, 215482368),
     (215482369, 4, 24180600, 89618756, 135749843, 79732526),
     (215482369, 8, 21695892, 192094182, 191301769, 125863613),
     (215482369, 16, 26401414, 52662613, 51323480, 61539099),
     (215482369, 32, 10591066, 153076838, 38939192, 166005124),
     (215482369, 64, 12331286, 82084891, 93669721, 144620062),
     (215482369, 128, 608197, 207867818, 135845605, 37528188),
     (215744513, 2, 11269569, 204474944, 215744512, 215744512),
     (215744513, 4, 34298270, 145321908, 204474944, 11269569),
     (215744513, 8, 4233800, 208927551, 145321908, 34298270),
     (215744513, 16, 3566612, 147676217, 208927551, 4233800),
     (215744513, 32, 12599822, 101234115, 130285147, 130580209),
     (215744513, 64, 496469, 124618596, 101234115, 12599822),
     (215744513, 128, 93100, 83014132, 37829480, 142600831),
     (216137729, 2, 65995692, 150142037, 216137728, 216137728),
     (216137729, 4, 22558000, 79311480, 150142037, 65995692),
     (216137729, 8, 9142192, 23908818, 79311480, 22558000),
     (216137729, 16, 16985669, 178282999, 206995537, 192228911),
     (216137729, 32, 1750253, 21431095, 65530892, 23324941),
     (216137729, 64, 7247376, 168641519, 180947899, 184364709),
     (216137729, 128, 5105354, 129751585, 158449748, 119778636),
     (216924161, 2, 77026473, 139897688, 216924160, 216924160)]"

definition root_table_3 :: "root_entry list" where
  "root_table_3 = [
     (216924161, 4, 93701812, 115897414, 77026473, 139897688),
     (216924161, 8, 3884363, 8003720, 115897414, 93701812),
     (216924161, 16, 10618759, 10951354, 213039798, 208920441),
     (216924161, 32, 5757853, 141077619, 134719818, 205831008),
     (216924161, 64, 3575306, 94628054, 122958389, 195474378),
     (216924161, 128, 990106, 42518061, 29607677, 75266640),
     (217317377, 2, 79988332, 137329045, 217317376, 217317376),
     (217317377, 4, 33958450, 105201751, 137329045, 79988332),
     (217317377, 8, 8770039, 72723735, 183358927, 112115626),
     (217317377, 16, 5134893, 196430520, 8770039, 72723735),
     (217317377, 32, 14047031, 174468045, 117216009, 65617803),
     (217317377, 64, 257725, 194771516, 140375640, 72194225),
     (217317377, 128, 1596260, 211861775, 217059652, 22545861),
     (218628097, 2, 12121022, 206507075, 218628096, 218628096),
     (218628097, 4, 21359276, 141254127, 206507075, 12121022),
     (218628097, 8, 36341292, 147257567, 21359276, 141254127),
     (218628097, 16, 24469189, 48830064, 182286805, 71370530),
     (218628097, 32, 576344, 171763016, 76326993, 140955531),
     (218628097, 64, 1161677, 192425141, 120837645, 141980443),
     (218628097, 128, 2464383, 163528983, 132292223, 194792178),
     (219676673, 2, 86060645, 133616028, 219676672, 219676672),
     (219676673, 4, 16315687, 38063551, 86060645, 133616028),
     (219676673, 8, 26071008, 93749079, 38063551, 16315687),
     (219676673, 16, 29808355, 137736459, 145659256, 177763777),
     (219676673, 32, 4038804, 187710507, 66073474, 58506444),
     (219676673, 64, 680579, 156269625, 109348557, 25626953),
     (219676673, 128, 3253980, 171517836, 189878473, 200314005),
     (220594177, 2, 61943504, 158650673, 220594176, 220594176),
     (220594177, 4, 62188428, 86250520, 158650673, 61943504),
     (220594177, 8, 10178799, 175536076, 158405749, 134343657),
     (220594177, 16, 4296056, 53851338, 85336431, 37885747),
     (220594177, 32, 10505168, 200964969, 141027018, 134378320),
     (220594177, 64, 234409, 207466316, 19629208, 210089009),
     (220594177, 128, 3701451, 107268594, 76360285, 79690857),
     (221249537, 2, 13667718, 207581819, 221249536, 221249536),
     (221249537, 4, 20373698, 167856945, 207581819, 13667718),
     (221249537, 8, 52284333, 66077215, 167856945, 20373698),
     (221249537, 16, 31024238, 97371692, 155172322, 168965204),
     (221249537, 32, 2720417, 103430503, 92890776, 54082622),
     (221249537, 64, 2907405, 182631537, 165272940, 162387614)]"

definition root_table_4 :: "root_entry list" where
  "root_table_4 = [
     (221249537, 128, 1167356, 201711788, 44132353, 39804605),
     (222035969, 2, 34432664, 187603305, 222035968, 222035968),
     (222035969, 4, 13539636, 143500539, 187603305, 34432664),
     (222035969, 8, 3474791, 18191303, 78535430, 208496333),
     (222035969, 16, 3046671, 137680446, 212534165, 8717884),
     (222035969, 32, 8979188, 162326705, 116076064, 178943736),
     (222035969, 64, 582462, 217395591, 213056781, 59709264),
     (222035969, 128, 156094, 175699648, 163416215, 128980391),
     (222167041, 2, 64717876, 157449165, 222167040, 222167040),
     (222167041, 4, 15467416, 51927675, 157449165, 64717876),
     (222167041, 8, 9532164, 121714189, 51927675, 15467416),
     (222167041, 16, 6251586, 199467152, 34664922, 56732643),
     (222167041, 32, 12675106, 74306077, 215915455, 22699889),
     (222167041, 64, 9518479, 99891853, 167984354, 31513816),
     (222167041, 128, 140916, 62544982, 84452407, 171524196),
     (222953473, 2, 100890695, 122062778, 222953472, 222953472),
     (222953473, 4, 83491471, 131728832, 122062778, 100890695),
     (222953473, 8, 6752305, 147470787, 83491471, 131728832),
     (222953473, 16, 44201128, 67754250, 216201168, 75482686),
     (222953473, 32, 57244, 86320275, 155526914, 86095885),
     (222953473, 64, 380881, 75214990, 150578711, 168058956),
     (222953473, 128, 274219, 90918387, 60739560, 137124291),
     (223215617, 2, 93281231, 129934386, 223215616, 223215616),
     (223215617, 4, 8419385, 64801072, 129934386, 93281231),
     (223215617, 8, 11553214, 64017683, 64801072, 8419385),
     (223215617, 16, 9584315, 187191305, 64017683, 11553214),
     (223215617, 32, 2279385, 47925670, 29276933, 119346345),
     (223215617, 64, 2862087, 191699731, 198498520, 57206650),
     (223215617, 128, 2161896, 88901393, 105726070, 49064306),
     (224002049, 2, 111733606, 112268443, 224002048, 224002048),
     (224002049, 4, 89125467, 131317685, 112268443, 111733606),
     (224002049, 8, 34210501, 44559104, 89125467, 131317685),
     (224002049, 16, 21735213, 163860000, 58822565, 139756469),
     (224002049, 32, 2059113, 164340490, 35563297, 198704667),
     (224002049, 64, 166822, 17309530, 53325608, 64127676),
     (224002049, 128, 123022, 177310526, 126275201, 170183421),
     (224133121, 2, 110842841, 113290280, 224133120, 224133120),
     (224133121, 4, 2033009, 67180436, 110842841, 113290280),
     (224133121, 8, 887219, 38379954, 2033009, 67180436),
     (224133121, 16, 6187755, 119555522, 99145837, 105713614)]"

definition root_table_5 :: "root_entry list" where
  "root_table_5 = [
     (224133121, 32, 13637812, 155698163, 217945366, 104577599),
     (224133121, 64, 2863330, 156896942, 93255841, 128425195),
     (224133121, 128, 2489241, 52957916, 160626036, 105955021),
     (225574913, 2, 44139163, 181435750, 225574912, 225574912),
     (225574913, 4, 17045108, 176659399, 181435750, 44139163),
     (225574913, 8, 44151518, 81999997, 176659399, 17045108),
     (225574913, 16, 29667243, 59875206, 44151518, 81999997),
     (225574913, 32, 14777695, 91618200, 68363160, 91332179),
     (225574913, 64, 17188068, 166272923, 82964262, 40945146),
     (225574913, 128, 133696, 24186336, 54202289, 164295169),
     (228065281, 2, 38221420, 189843861, 228065280, 228065280),
     (228065281, 4, 25203345, 200869925, 38221420, 189843861),
     (228065281, 8, 16091189, 175455699, 200869925, 25203345),
     (228065281, 16, 1775353, 135621889, 16091189, 175455699),
     (228065281, 32, 2669263, 143171069, 205584729, 144498624),
     (228065281, 64, 2236531, 52651197, 143171069, 2669263),
     (228065281, 128, 421459, 84412926, 192900063, 205462365),
     (228458497, 2, 789018, 227669479, 228458496, 228458496),
     (228458497, 4, 25148043, 47248167, 789018, 227669479),
     (228458497, 8, 21604252, 60387198, 25148043, 47248167),
     (228458497, 16, 2662236, 31802431, 32567265, 169867875),
     (228458497, 32, 3108722, 151472122, 129591687, 178009164),
     (228458497, 64, 1366812, 168347596, 69913375, 40756574),
     (228458497, 128, 567158, 202257539, 227091685, 60110901),
     (228720641, 2, 1451936, 227268705, 228720640, 228720640),
     (228720641, 4, 3406015, 146815979, 227268705, 1451936),
     (228720641, 8, 14763477, 175281975, 3406015, 146815979),
     (228720641, 16, 6348602, 220586877, 53438666, 213957164),
     (228720641, 32, 4526435, 155388461, 47509086, 44479751),
     (228720641, 64, 1129181, 14568324, 160877827, 5927769),
     (228720641, 128, 114053, 132508089, 199730913, 189195584),
     (230424577, 2, 17267082, 213157495, 230424576, 230424576),
     (230424577, 4, 50232302, 67183521, 17267082, 213157495),
     (230424577, 8, 1044404, 80300363, 180192275, 163241056),
     (230424577, 16, 5197097, 51180214, 139585200, 20128775),
     (230424577, 32, 11104436, 150089634, 12440624, 86844797),
     (230424577, 64, 690763, 43362037, 174647779, 91497330),
     (230424577, 128, 2487746, 84402822, 136871450, 183836674),
     (230686721, 2, 69125805, 161560916, 230686720, 230686720),
     (230686721, 4, 54745390, 77166672, 69125805, 161560916)]"

definition root_table_6 :: "root_entry list" where
  "root_table_6 = [
     (230686721, 8, 14809707, 215494150, 175941331, 153520049),
     (230686721, 16, 9205885, 84645468, 15192571, 215877014),
     (230686721, 32, 13028119, 167589291, 208028154, 121404732),
     (230686721, 64, 1793411, 187400747, 88750739, 164544432),
     (230686721, 128, 2902370, 149211834, 225999585, 98133213),
     (230817793, 2, 5128067, 225689726, 230817792, 230817792),
     (230817793, 4, 67019438, 91576515, 225689726, 5128067),
     (230817793, 8, 39920228, 91363862, 163798355, 139241278),
     (230817793, 16, 49271989, 112030082, 48220736, 81679182),
     (230817793, 32, 4627751, 61560243, 112030082, 49271989),
     (230817793, 64, 3082675, 136099367, 116617815, 59307752),
     (230817793, 128, 2077327, 202704789, 148824794, 97070646),
     (231473153, 2, 16942334, 214530819, 231473152, 231473152),
     (231473153, 4, 11295229, 122232725, 214530819, 16942334),
     (231473153, 8, 14262226, 210523639, 122232725, 11295229),
     (231473153, 16, 28163458, 192667063, 109112478, 137656372),
     (231473153, 32, 5575278, 48224352, 120953526, 41997898),
     (231473153, 64, 2060670, 89623212, 217330268, 106980681),
     (231473153, 128, 586330, 55645857, 45236695, 127791767),
     (232390657, 2, 36723121, 195667536, 232390656, 232390656),
     (232390657, 4, 55576497, 169355209, 36723121, 195667536),
     (232390657, 8, 28340257, 129303244, 169355209, 55576497),
     (232390657, 16, 6630058, 133705934, 46749186, 133829369),
     (232390657, 32, 3881958, 226410873, 225760599, 98684723),
     (232390657, 64, 1227234, 46679271, 211833396, 49051249),
     (232390657, 128, 2492386, 217377767, 185711386, 231163423),
     (232652801, 2, 64018034, 168634767, 232652800, 232652800),
     (232652801, 4, 57584032, 82543147, 168634767, 64018034),
     (232652801, 8, 17507952, 38171522, 175068769, 150109654),
     (232652801, 16, 1678045, 200909162, 38171522, 17507952),
     (232652801, 32, 16188234, 44077770, 200909162, 1678045),
     (232652801, 64, 4956021, 99591501, 57339667, 63296946),
     (232652801, 128, 199554, 203463067, 38169945, 172986073),
     (234356737, 2, 43410302, 190946435, 234356736, 234356736),
     (234356737, 4, 38812053, 98124655, 190946435, 43410302),
     (234356737, 8, 1042745, 225063782, 136232082, 195544684),
     (234356737, 16, 19541243, 127024713, 13787460, 105964177),
     (234356737, 32, 45027, 134918945, 152576833, 22149440),
     (234356737, 64, 6715913, 201507809, 127247497, 65585766),
     (234356737, 128, 7957, 20027973, 63313849, 101644480)]"

definition root_table_7 :: "root_entry list" where
  "root_table_7 = [
     (235798529, 2, 40554874, 195243655, 235798528, 235798528),
     (235798529, 4, 6624983, 95484270, 40554874, 195243655),
     (235798529, 8, 20726980, 122020265, 229173546, 140314259),
     (235798529, 16, 2127302, 29312790, 204229165, 193043376),
     (235798529, 32, 11956893, 65194055, 48296930, 94894489),
     (235798529, 64, 10553387, 43613308, 201163315, 160646513),
     (235798529, 128, 604996, 180065132, 60843008, 26676498),
     (236584961, 2, 11332619, 225252342, 236584960, 236584960),
     (236584961, 4, 28327545, 65504962, 225252342, 11332619),
     (236584961, 8, 38821224, 139487454, 65504962, 28327545),
     (236584961, 16, 785892, 2556131, 139487454, 38821224),
     (236584961, 32, 1049092, 162635078, 785892, 2556131),
     (236584961, 64, 2613945, 52121198, 134789345, 54133047),
     (236584961, 128, 315253, 189832015, 18770389, 168464752),
     (236716033, 2, 96769241, 139946792, 236716032, 236716032),
     (236716033, 4, 41597804, 59233342, 139946792, 96769241),
     (236716033, 8, 12962112, 49954705, 41597804, 59233342),
     (236716033, 16, 31141702, 149668652, 137118609, 173021880),
     (236716033, 32, 3430186, 74653359, 205574331, 87047381),
     (236716033, 64, 6523381, 167135563, 58418751, 39007410),
     (236716033, 128, 3992249, 62611399, 198292144, 52861540),
     (239337473, 2, 69976901, 169360572, 239337472, 239337472),
     (239337473, 4, 39989558, 120652419, 69976901, 169360572),
     (239337473, 8, 15449808, 15559933, 39989558, 120652419),
     (239337473, 16, 11316471, 63758025, 214215731, 43388713),
     (239337473, 32, 5851223, 90113853, 63758025, 11316471),
     (239337473, 64, 1648095, 97341856, 215485421, 76974715),
     (239337473, 128, 328943, 100917507, 22959453, 20380259),
     (239861761, 2, 40891162, 198970599, 239861760, 239861760),
     (239861761, 4, 32678501, 163077036, 198970599, 40891162),
     (239861761, 8, 6933897, 130130190, 76784725, 207183260),
     (239861761, 16, 8441991, 65033946, 205201044, 61219801),
     (239861761, 32, 1906905, 173510831, 222244026, 123741844),
     (239861761, 64, 529818, 89899832, 68852754, 143145421),
     (239861761, 128, 970663, 1614625, 9662361, 196272077),
     (240648193, 2, 18321872, 222326321, 240648192, 240648192),
     (240648193, 4, 2375242, 179977289, 18321872, 222326321),
     (240648193, 8, 33391735, 138679544, 179977289, 2375242),
     (240648193, 16, 5039777, 172789037, 138679544, 33391735),
     (240648193, 32, 15448665, 116968758, 89411826, 232522608)]"

definition root_table_8 :: "root_entry list" where
  "root_table_8 = [
     (240648193, 64, 4299864, 217993807, 70398499, 189105423),
     (240648193, 128, 199776, 96327457, 203498331, 8787967),
     (241827841, 2, 55891768, 185936073, 241827840, 241827840),
     (241827841, 4, 19454360, 73901427, 185936073, 55891768),
     (241827841, 8, 17424193, 69341339, 222373481, 167926414),
     (241827841, 16, 19509277, 179705284, 17424193, 69341339),
     (241827841, 32, 5111581, 50588504, 213066557, 165622655),
     (241827841, 64, 6296916, 148251277, 90989332, 24311669),
     (241827841, 128, 728124, 95583779, 77931904, 73006749),
     (244842497, 2, 74428594, 170413903, 244842496, 244842496),
     (244842497, 4, 26229474, 112764702, 170413903, 74428594),
     (244842497, 8, 49465640, 134231681, 132077795, 218613023),
     (244842497, 16, 33189458, 114883665, 94235686, 136907489),
     (244842497, 32, 1758033, 167510627, 33189458, 114883665),
     (244842497, 64, 4417376, 184443714, 243084464, 77331870),
     (244842497, 128, 98378, 78200371, 129373501, 171287009),
     (244973569, 2, 97889404, 147084165, 244973568, 244973568),
     (244973569, 4, 65897877, 133037097, 97889404, 147084165),
     (244973569, 8, 33068074, 103871087, 179075692, 111936472),
     (244973569, 16, 31896012, 83399360, 192306233, 35017508),
     (244973569, 32, 6004678, 181301463, 213077557, 161574209),
     (244973569, 64, 6043641, 104201587, 37398981, 130298068),
     (244973569, 128, 926520, 197844210, 51924624, 149733605),
     (245235713, 2, 38959524, 206276189, 245235712, 245235712),
     (245235713, 4, 39103317, 187442472, 206276189, 38959524),
     (245235713, 8, 6741168, 123236260, 187442472, 39103317),
     (245235713, 16, 3287700, 28078098, 207239525, 231388038),
     (245235713, 32, 10604945, 140256200, 5706938, 169889004),
     (245235713, 64, 2293633, 8488609, 201059126, 99382656),
     (245235713, 128, 501893, 29324131, 39506198, 100177728),
     (245760001, 2, 58485713, 187274288, 245760000, 245760000),
     (245760001, 4, 41337586, 79311342, 187274288, 58485713),
     (245760001, 8, 25353885, 45361498, 41337586, 79311342),
     (245760001, 16, 7679021, 23525623, 200398503, 220406116),
     (245760001, 32, 3310617, 70293042, 26156092, 27908329),
     (245760001, 64, 1254649, 194544763, 51306796, 180563628),
     (245760001, 128, 3112153, 172682214, 94655999, 97167377),
     (246415361, 2, 12576549, 233838812, 246415360, 246415360),
     (246415361, 4, 12452154, 215101228, 12576549, 233838812),
     (246415361, 8, 47757873, 163897418, 12452154, 215101228)]"

definition root_table_9 :: "root_entry list" where
  "root_table_9 = [
     (246415361, 16, 21258003, 193781045, 82517943, 198657488),
     (246415361, 32, 3312075, 16781384, 168179988, 39298050),
     (246415361, 64, 4940218, 42429905, 37288001, 10103241),
     (246415361, 128, 920620, 153306050, 118757921, 208388730),
     (249561089, 2, 103488293, 146072796, 249561088, 249561088),
     (249561089, 4, 61471029, 161765912, 103488293, 146072796),
     (249561089, 8, 766912, 92093402, 188090060, 87795177),
     (249561089, 16, 25429234, 193843136, 218164008, 2006920),
     (249561089, 32, 1457552, 117059066, 193843136, 25429234),
     (249561089, 64, 4336654, 46042429, 143370854, 112632515),
     (249561089, 128, 1167587, 124366849, 156734451, 132230483),
     (253100033, 2, 38277870, 214822163, 253100032, 253100032),
     (253100033, 4, 57464657, 138853599, 38277870, 214822163),
     (253100033, 8, 28683468, 109889374, 195635376, 114246434),
     (253100033, 16, 38207261, 185972006, 109889374, 28683468),
     (253100033, 32, 2099570, 156779725, 204010172, 79671187),
     (253100033, 64, 3554172, 208760748, 169058587, 224081448),
     (253100033, 128, 1426468, 184596480, 139789737, 203269654),
     (253493249, 2, 52107512, 201385737, 253493248, 253493248),
     (253493249, 4, 58558488, 160011490, 52107512, 201385737),
     (253493249, 8, 12603475, 85052720, 93481759, 194934761),
     (253493249, 16, 7018185, 161619936, 168440529, 240889774),
     (253493249, 32, 236410, 35492915, 121173320, 146615773),
     (253493249, 64, 300706, 158018317, 180501792, 37246514),
     (253493249, 128, 1604169, 86958303, 148209962, 2610728),
     (254279681, 2, 101857638, 152422043, 254279680, 254279680),
     (254279681, 4, 34496716, 98753814, 101857638, 152422043),
     (254279681, 8, 9778577, 67578678, 219782965, 155525867),
     (254279681, 16, 6133894, 31182134, 162604071, 156839554),
     (254279681, 32, 440881, 210917619, 106379877, 116813835),
     (254279681, 64, 1866353, 70656217, 150450271, 52913179),
     (254279681, 128, 1013774, 100952726, 193532155, 64814738),
     (256376833, 2, 26493217, 229883616, 256376832, 256376832),
     (256376833, 4, 24804513, 94098729, 229883616, 26493217),
     (256376833, 8, 28175602, 121217991, 94098729, 24804513),
     (256376833, 16, 24540105, 191719144, 135158842, 228201231),
     (256376833, 32, 10728410, 38383197, 196590581, 84729476),
     (256376833, 64, 5145027, 34527674, 138446646, 50718453),
     (256376833, 128, 1912194, 214749723, 39501390, 139954388),
     (256770049, 2, 5515485, 251254564, 256770048, 256770048)]"

definition root_table_10 :: "root_entry list" where
  "root_table_10 = [
     (256770049, 4, 58517690, 90912125, 5515485, 251254564),
     (256770049, 8, 43510035, 109859641, 198252359, 165857924),
     (256770049, 16, 11417584, 185692192, 97599952, 116976281),
     (256770049, 32, 3993331, 202826381, 245352465, 71077857),
     (256770049, 64, 1892126, 68120276, 252776718, 53943668),
     (256770049, 128, 651439, 148335935, 188649773, 254877923),
     (257949697, 2, 126403049, 131546648, 257949696, 257949696),
     (257949697, 4, 38834910, 58939115, 126403049, 131546648),
     (257949697, 8, 65335130, 124597044, 199010582, 219114787),
     (257949697, 16, 10109149, 43388597, 124597044, 65335130),
     (257949697, 32, 1632938, 61422003, 60493955, 70780931),
     (257949697, 64, 7239682, 140717491, 196527694, 256316759),
     (257949697, 128, 293752, 148527961, 135038706, 131296227),
     (258605057, 2, 22762264, 235842793, 258605056, 258605056),
     (258605057, 4, 103295509, 118422194, 22762264, 235842793),
     (258605057, 8, 9188807, 40825306, 140182863, 155309548),
     (258605057, 16, 16248245, 21794437, 217779751, 249416250),
     (258605057, 32, 25136814, 37343363, 113915387, 24697497),
     (258605057, 64, 1230657, 174599080, 125437857, 77406805),
     (258605057, 128, 465670, 238439005, 137511134, 12276297),
     (260571137, 2, 1536566, 259034571, 260571136, 260571136),
     (260571137, 4, 28143133, 177118169, 259034571, 1536566),
     (260571137, 8, 15479551, 230616606, 232428004, 83452968),
     (260571137, 16, 580697, 254257179, 29954531, 245091586),
     (260571137, 32, 2975369, 176145787, 176877723, 31955693),
     (260571137, 64, 4815730, 208288795, 163668763, 204218701),
     (260571137, 128, 445229, 71112793, 194798321, 198356089),
     (260702209, 2, 31303435, 229398774, 260702208, 260702208),
     (260702209, 4, 41146001, 88052679, 31303435, 229398774),
     (260702209, 8, 22018643, 148817246, 41146001, 88052679),
     (260702209, 16, 10407642, 41383165, 111884963, 238683566),
     (260702209, 32, 1936768, 184064481, 86902732, 57000032),
     (260702209, 64, 5885353, 113459567, 223744660, 5511558),
     (260702209, 128, 2498603, 158774821, 241854895, 51978717),
     (261488641, 2, 91096743, 170391898, 261488640, 261488640),
     (261488641, 4, 47744675, 107751163, 91096743, 170391898),
     (261488641, 8, 28884174, 163452112, 47744675, 107751163),
     (261488641, 16, 8774498, 118543382, 145650528, 227962373),
     (261488641, 32, 22968751, 196182383, 252714143, 142945259),
     (261488641, 64, 7122931, 25369453, 27994813, 93232602)]"

definition root_table_11 :: "root_entry list" where
  "root_table_11 = [
     (261488641, 128, 2019433, 212205299, 194285094, 97214824),
     (261881857, 2, 114159166, 147722691, 261881856, 261881856),
     (261881857, 4, 10305074, 46203023, 147722691, 114159166),
     (261881857, 8, 5760133, 215360665, 10305074, 46203023),
     (261881857, 16, 42955925, 160638286, 46521192, 256121724),
     (261881857, 32, 5321906, 246743470, 160638286, 42955925),
     (261881857, 64, 636693, 192830992, 246743470, 5321906),
     (261881857, 128, 2406238, 182658459, 35336231, 46673451),
     (263323649, 2, 37127952, 226195697, 263323648, 263323648),
     (263323649, 4, 2740491, 229640115, 37127952, 226195697),
     (263323649, 8, 4830763, 255935671, 2740491, 229640115),
     (263323649, 16, 13277005, 208319451, 4830763, 255935671),
     (263323649, 32, 4003306, 228095769, 55004198, 250046644),
     (263323649, 64, 229428, 206587427, 235801033, 256251029),
     (263323649, 128, 5288268, 152331534, 16945077, 260924905),
     (263454721, 2, 85137565, 178317156, 263454720, 263454720),
     (263454721, 4, 45533496, 160309436, 178317156, 85137565),
     (263454721, 8, 33016374, 49385367, 160309436, 45533496),
     (263454721, 16, 10602683, 184121444, 230438347, 214069354),
     (263454721, 32, 9702835, 171652752, 252852038, 79333277),
     (263454721, 64, 1443782, 93846559, 52710972, 179368837),
     (263454721, 128, 5870767, 225653459, 231657627, 208662888),
     (264634369, 2, 66888654, 197745715, 264634368, 264634368),
     (264634369, 4, 24046562, 28047297, 197745715, 66888654),
     (264634369, 8, 79421619, 133656488, 236587072, 240587807),
     (264634369, 16, 22987012, 227069628, 130977881, 185212750),
     (264634369, 32, 6091265, 56845082, 182960211, 132435125),
     (264634369, 64, 6161255, 184629102, 56845082, 6091265),
     (264634369, 128, 4986032, 183207703, 233212426, 25553012),
     (265420801, 2, 33677896, 231742905, 265420800, 265420800),
     (265420801, 4, 75837622, 75860662, 231742905, 33677896),
     (265420801, 8, 5939467, 83131222, 189583179, 189560139),
     (265420801, 16, 20366938, 78662601, 60915397, 28682414),
     (265420801, 32, 6729713, 249385033, 20366938, 78662601),
     (265420801, 64, 5028985, 183010484, 69106940, 28616168),
     (265420801, 128, 1306720, 30939016, 65145567, 110014622),
     (268042241, 2, 8459903, 259582338, 268042240, 268042240),
     (268042241, 4, 60581481, 69445401, 259582338, 8459903),
     (268042241, 8, 26770074, 86814036, 198596840, 207460760),
     (268042241, 16, 9894272, 164496122, 86814036, 26770074)]"

definition root_table_12 :: "root_entry list" where
  "root_table_12 = [
     (268042241, 32, 7358749, 58490859, 221149217, 123879414),
     (268042241, 64, 2032291, 26549660, 211859353, 94803609),
     (268042241, 128, 2988991, 181475277, 219305551, 55816416)]"

definition kNegacyclicRootTable :: "root_entry list" where
  "kNegacyclicRootTable = root_table_0 @
     root_table_1 @
     root_table_2 @
     root_table_3 @
     root_table_4 @
     root_table_5 @
     root_table_6 @
     root_table_7 @
     root_table_8 @
     root_table_9 @
     root_table_10 @
     root_table_11 @
     root_table_12"

section \<open>When a row is a set of negacyclic roots\<close>

text \<open>
  A row is valid when \<open>psi\<close> squares to \<open>omega\<close>, the inverses are inverses, and \<open>psi\<close> raised to the span
  is \<open>-1\<close>: \<open>psi\<close> is a primitive root of unity of twice the span.
\<close>

definition root_entry_ok :: "root_entry \<Rightarrow> bool" where
  "root_entry_ok e = (case e of (q, n, psi, psi_inv, omega, omega_inv) \<Rightarrow>
     128 < q \<and> q < 2 ^ 28 \<and> odd q \<and> n \<in> {2, 4, 8, 16, 32, 64, 128} \<and>
     psi < q \<and> psi_inv < q \<and> omega < q \<and> omega_inv < q \<and>
     psi * psi mod q = omega \<and> psi * psi_inv mod q = 1 \<and> omega * omega_inv mod q = 1 \<and>
     psi ^ n mod q = q - 1)"

text \<open>A certificate: the quotients of the two inverse products, and of each squaring its remainder too.\<close>

type_synonym root_cert = "nat \<times> nat \<times> nat \<times> nat \<times> (nat \<times> nat) list"

fun squares_ok :: "nat \<Rightarrow> nat \<Rightarrow> (nat \<times> nat) list \<Rightarrow> bool" where
  "squares_ok q x [] = (x + 1 = q)"
| "squares_ok q x ((k, s) # cs) = (x * x = k * q + s \<and> squares_ok q s cs)"

fun span_ok :: "nat \<Rightarrow> nat \<Rightarrow> 'a list \<Rightarrow> bool" where
  "span_ok n m [] = (n = m)"
| "span_ok n m (c # cs) = span_ok n (m + m) cs"

fun short_ok :: "'a list \<Rightarrow> bool" where
  "short_ok (_ # _ # _ # _ # _ # _ # _ # _) = False"
| "short_ok _ = True"

lemma short_ok_length: "short_ok cs \<Longrightarrow> length cs \<le> 6"
  by (induction cs rule: short_ok.induct) simp_all

fun cert_ok :: "root_entry \<Rightarrow> root_cert \<Rightarrow> bool" where
  "cert_ok (q, n, psi, psi_inv, omega, omega_inv) (k0, k1, k2, k3, cs) =
     (128 < q \<and> q < 268435456 \<and> q = 2 * k3 + 1 \<and>
      psi < q \<and> psi_inv < q \<and> omega < q \<and> omega_inv < q \<and>
      psi * psi = k0 * q + omega \<and> psi * psi_inv = k1 * q + 1 \<and>
      omega * omega_inv = k2 * q + 1 \<and> squares_ok q omega cs \<and> span_ok n 2 cs \<and> short_ok cs)"

lemma squares_ok_power: "squares_ok q x cs \<Longrightarrow> x ^ (2 ^ length cs) mod q = (q - 1) mod q"
proof (induction q x cs rule: squares_ok.induct)
  case (2 q x k s cs)
  have "x ^ (2 ^ length ((k, s) # cs)) = (x * x) ^ (2 ^ length cs)"
    by (simp add: power_mult power2_eq_square)
  moreover have "(x * x) ^ (2 ^ length cs) mod q = (x * x mod q) ^ (2 ^ length cs) mod q"
    by (rule power_mod [symmetric])
  moreover have "x * x mod q = s mod q" using 2(2) by simp
  moreover have "(s mod q) ^ (2 ^ length cs) mod q = s ^ (2 ^ length cs) mod q" by (rule power_mod)
  ultimately show ?case using 2 by simp
qed auto

lemma span_ok_power: "span_ok n m cs \<Longrightarrow> n = m * 2 ^ length cs"
  by (induction n m cs rule: span_ok.induct) (simp_all add: algebra_simps)

lemma cert_ok_entry:
  assumes "cert_ok (q, n, psi, psi_inv, omega, omega_inv) (k0, k1, k2, k3, cs)"
  shows "root_entry_ok (q, n, psi, psi_inv, omega, omega_inv)"
proof -
  note a = assms [unfolded cert_ok.simps]
  have q: "128 < q" "q < 2 ^ 28" "odd q" using a by auto
  have e: "psi * psi = k0 * q + omega" "psi * psi_inv = k1 * q + 1" "omega * omega_inv = k2 * q + 1"
    "psi < q" "psi_inv < q" "omega < q" "omega_inv < q"
    using a by blast+
  have one_less: "1 < q" using q(1) by simp
  have sq: "squares_ok q omega cs" and sp: "span_ok n 2 cs" and sh: "short_ok cs"
    using a by blast+
  have n: "n = 2 * 2 ^ length cs" using sp by (rule span_ok_power)
  have "psi ^ n mod q = (psi * psi mod q) ^ (2 ^ length cs) mod q"
    by (simp add: n power_mult power2_eq_square power_mod)
  also have "psi * psi mod q = omega" using e by simp
  also have "omega ^ (2 ^ length cs) mod q = q - 1"
    using squares_ok_power [OF sq] q(1) by simp
  finally have p: "psi ^ n mod q = q - 1" .
  have "length cs \<in> {0, 1, 2, 3, 4, 5, 6}" 
    using short_ok_length [OF sh] by (auto simp: le_Suc_eq numeral_eq_Suc)
  then have "n \<in> {2, 4, 8, 16, 32, 64, 128}" by (auto simp: n)
  moreover have "(k * q + r) mod q = r" if "r < q" for k r using that by simp
  then have "psi * psi mod q = omega" "psi * psi_inv mod q = 1" "omega * omega_inv mod q = 1"
    unfolding e(1-3) using one_less e(6) by blast+
  ultimately show ?thesis using p q e(4-7) unfolding root_entry_ok_def split by blast
qed

section \<open>The certificates\<close>

definition root_cert_0 :: "root_cert list" where
  "root_cert_0 = [
     (12721, 87303, 786431, 393216, []),
     (74312, 119347, 87303, 393216, [(599104, 786432)]),
     (7079, 60863, 119347, 393216, [(191672, 100025), (12721, 786432)]),
     (2200, 6179, 60863, 393216, [(7079, 388249), (191672, 100025), (12721, 786432)]),
     (4670, 27213, 151968, 393216, [(133413, 541396), (372707, 544685), (377249, 686408), (599104, 786432)]),
     (2534, 24999, 477674, 393216, [(361762, 116823), (17353, 641480), (523244, 241748), (74312, 686408), (599104, 786432)]),
     (9, 1139, 189311, 393216, [(144266, 253046), (81421, 116823), (17353, 641480), (523244, 241748), (74312, 686408), (599104, 786432)]),
     (204057, 286571, 1179647, 589824, []),
     (207100, 207744, 286571, 589824, [(204057, 1179648)]),
     (34801, 94247, 397311, 589824, [(396420, 689020), (402448, 1179648)]),
     (503, 20843, 522567, 589824, [(337457, 685376), (398203, 490629), (204057, 1179648)]),
     (4797, 46826, 20843, 589824, [(503, 630937), (337457, 685376), (398203, 490629), (204057, 1179648)]),
     (1058, 23888, 486741, 589824, [(341739, 225718), (43189, 754863), (483040, 495809), (208389, 689020), (402448, 1179648)]),
     (0, 670, 23888, 589824, [(539079, 904330), (693267, 1025617), (891697, 756336), (484927, 494273), (207100, 490629), (204057, 1179648)]),
     (643876, 687393, 2752511, 1376256, []),
     (67, 3401, 687393, 1376256, [(643876, 2752512)]),
     (2286, 62719, 3401, 1376256, [(171401, 1421243), (733849, 2752512)]),
     (477, 20282, 541823, 1376256, [(393932, 2738884), (2725322, 1331270), (643876, 2752512)]),
     (8715, 39398, 1196463, 1376256, [(534052, 1432224), (745233, 2065647), (1550182, 1421243), (733849, 2752512)]),
     (1980, 60448, 39398, 1376256, [(8715, 1212430), (534052, 1432224), (745233, 2065647), (1550182, 1421243), (733849, 2752512)]),
     (95, 14183, 929126, 1376256, [(1006615, 2499906), (2270481, 1540083), (861705, 1432224), (745233, 2065647), (1550182, 1421243), (733849, 2752512)]),
     (585828, 1252261, 5767167, 2883584, []),
     (24314, 236545, 1252261, 2883584, [(585828, 5767168)]),
     (101329, 176103, 1986207, 2883584, [(5042551, 1838090), (585828, 5767168)]),
     (23, 1981, 440467, 2883584, [(258087, 374466), (24314, 1838090), (585828, 5767168)]),
     (11, 7822, 968929, 2883584, [(1065850, 1328554), (306052, 2124128), (782345, 3929079), (2676817, 5767168)]),
     (414, 19567, 2730157, 2883584, [(3954809, 3639563), (2296866, 4438615), (3416113, 2124128), (782345, 3929079), (2676817, 5767168)]),
     (438, 39105, 479727, 2883584, [(3163249, 4105043), (2921949, 4339468), (3265203, 5002717), (4339594, 5392703), (5042551, 1838090), (585828, 5767168)]),
     (14745, 305313, 6946815, 3473408, []),
     (11973, 178047, 305313, 3473408, [(14745, 6946816)]),
     (527232, 1253095, 178047, 3473408, [(11973, 320059), (14745, 6946816)]),
     (84, 20951, 1253095, 3473408, [(527232, 288400), (11973, 320059), (14745, 6946816)]),
     (2732, 118607, 2765275, 3473408, [(1785769, 3378151), (1642752, 6658417), (6381990, 320059), (14745, 6946816)]),
     (1686, 56011, 947353, 3473408, [(134473, 5454043), (4282045, 2045084), (602055, 2658121), (1017099, 6626758), (6321444, 6946816)]),
     (593, 63122, 3287695, 3473408, [(3790182, 5286810), (4023477, 1553391), (347356, 5033029), (3646473, 288400), (11973, 320059), (14745, 6946816)]),
     (12854272, 38462367, 204865535, 102432768, []),
     (17687519, 20611807, 38462367, 102432768, [(115086529, 204865536)]),
     (9831511, 26291639, 95133020, 102432768, [(102160976, 153548897), (115086529, 204865536)]),
     (1231657, 14003972, 64873903, 102432768, [(46809156, 70148284), (24019568, 51316640), (12854272, 204865536)]),
     (1107730, 8968379, 22375243, 102432768, [(2871897, 135718507), (89910257, 60196040), (17687519, 153548897), (115086529, 204865536)])]"

definition root_cert_1 :: "root_cert list" where
  "root_cert_1 = [
     (475, 74710, 7528169, 102432768, [(2155561, 54288539), (14386243, 69147030), (23338780, 60196040), (17687519, 153548897), (115086529, 204865536)]),
     (13392, 310487, 26347646, 102432768, [(13197236, 154696109), (116812649, 73962368), (26702548, 44879148), (9831511, 144669497), (102160976, 153548897), (115086529, 204865536)]),
     (32392228, 49225941, 205651967, 102825984, []),
     (7573706, 29925971, 49225941, 102825984, [(32392228, 205651968)]),
     (12643431, 13903250, 29925971, 102825984, [(118246429, 124033799), (74807857, 205651968)]),
     (1114, 214106, 65011496, 102825984, [(98897586, 166186191), (134294119, 81618170), (32392228, 205651968)]),
     (138456, 4582015, 83587986, 102825984, [(94606462, 56072547), (15288599, 39465778), (7573706, 81618170), (32392228, 205651968)]),
     (123248, 1128054, 84502934, 102825984, [(55811053, 89435124), (38894066, 149579422), (108795474, 39465778), (7573706, 81618170), (32392228, 205651968)]),
     (44851, 2175455, 58479533, 102825984, [(52389018, 108169642), (56895499, 53820633), (14085255, 111903594), (60891293, 49710919), (12016298, 124033799), (74807857, 205651968)]),
     (11646244, 37371157, 206307327, 103153664, []),
     (3151162, 14886076, 37371157, 103153664, [(119918769, 206307328)]),
     (2961829, 7183041, 14886076, 103153664, [(3151162, 157289927), (119918769, 206307328)]),
     (206460, 2257042, 30173848, 103153664, [(65852251, 85858622), (35731658, 49017402), (11646244, 206307328)]),
     (1145891, 9535321, 130690495, 103153664, [(88286591, 53407557), (13825815, 180810114), (158464061, 157289927), (119918769, 206307328)]),
     (65846, 417055, 15158631, 103153664, [(29872812, 18183352), (1602629, 181587963), (159830426, 25497215), (3151162, 157289927), (119918769, 206307328)]),
     (74945, 3046247, 58158781, 103153664, [(129995355, 76816686), (28602004, 198735280), (191441146, 24719366), (2961829, 25497215), (3151162, 157289927), (119918769, 206307328)]),
     (33848356, 50034913, 207880191, 103940096, []),
     (8705162, 12062339, 50034913, 103940096, [(33848356, 207880192)]),
     (210901, 3747129, 12062339, 103940096, [(8705162, 83883270), (33848356, 207880192)]),
     (117370, 3697087, 3747129, 103940096, [(66576081, 58945363), (16714222, 123996923), (73962009, 207880192)]),
     (33153, 2210886, 54949087, 103940096, [(39638238, 201258850), (194848408, 42539756), (8705162, 83883270), (33848356, 207880192)]),
     (12125, 350047, 2210886, 103940096, [(33153, 90774472), (39638238, 201258850), (194848408, 42539756), (8705162, 83883270), (33848356, 207880192)]),
     (1620, 214129, 115083103, 103940096, [(73709914, 46526374), (10413226, 46955258), (10606091, 9791001), (461148, 165340437), (131505843, 83883270), (33848356, 207880192)]),
     (6927504, 31128547, 209059839, 104529920, []),
     (1089052, 3811911, 31128547, 104529920, [(6927504, 209059840)]),
     (89806, 1364614, 144968214, 104529920, [(116773196, 171003789), (139875241, 209059840)]),
     (105724, 3697759, 140251319, 104529920, [(98114907, 193970869), (179970949, 38056052), (6927504, 209059840)]),
     (206415, 570015, 90422387, 104529920, [(41224836, 65840125), (20735316, 193970869), (179970949, 38056052), (6927504, 209059840)]),
     (645921, 3870175, 42289303, 104529920, [(118782189, 85145940), (34678257, 203906463), (198880117, 15088972), (1089052, 38056052), (6927504, 209059840)]),
     (63103, 501498, 30127855, 104529920, [(25110801, 12350803), (729658, 149280431), (106594585, 87984776), (37029210, 52814566), (13342487, 171003789), (139875241, 209059840)]),
     (11633664, 37837343, 210370559, 105185280, []),
     (15311552, 27323234, 37837343, 105185280, [(123062209, 210370560)]),
     (1718236, 2807321, 27323234, 105185280, [(48757897, 49471008), (11633664, 210370560)]),
     (617541, 2259581, 163102635, 105185280, [(152831314, 56754735), (15311552, 160899553), (123062209, 210370560)]),
     (42502, 2281931, 33220805, 105185280, [(8679618, 31062978), (4586709, 56754735), (15311552, 160899553), (123062209, 210370560)]),
     (2075840, 18702509, 77470075, 105185280, [(48422009, 143885207), (98411834, 65813975), (20589759, 153615826), (112172643, 160899553), (123062209, 210370560)]),
     (84210, 3232494, 8376623, 105185280, [(4545132, 137481589), (89847111, 168665650), (135228528, 191358292), (174064259, 101277965), (48757897, 49471008), (11633664, 210370560)]),
     (32674329, 50362593, 211025919, 105512960, []),
     (33721062, 44647089, 50362593, 105512960, [(32674329, 211025920)]),
     (1654130, 3334654, 44647089, 105512960, [(33721062, 83036923), (32674329, 211025920)])]"

definition root_cert_2 :: "root_cert list" where
  "root_cert_2 = [
     (2, 6166, 3334654, 105512960, [(6722515, 111689006), (59113278, 127988998), (77626404, 211025920)]),
     (47048, 602525, 1633687, 105512960, [(168890928, 96596448), (44216718, 126669426), (76033993, 83036923), (32674329, 211025920)]),
     (982, 424819, 18465051, 105512960, [(1828829, 179996487), (153529647, 173361282), (142419158, 111689006), (59113278, 127988998), (77626404, 211025920)]),
     (6080, 694901, 5293495, 105512960, [(131403834, 24336342), (2806563, 21441), (2, 37664639), (6722515, 111689006), (59113278, 127988998), (77626404, 211025920)]),
     (24273313, 47430157, 211812351, 105906176, []),
     (9701210, 13534651, 47430157, 105906176, [(24273313, 211812352)]),
     (19131300, 30731671, 13534651, 105906176, [(18882878, 140108882), (92678724, 211812352)]),
     (109349, 170062, 30731671, 105906176, [(19131300, 63242604), (18882878, 140108882), (92678724, 211812352)]),
     (931, 329411, 47449591, 105906176, [(40267384, 80803244), (30825228, 166482052), (130852961, 71703471), (24273313, 211812352)]),
     (170951, 1025533, 39297181, 105906176, [(57928935, 206849629), (202003180, 148155101), (103629149, 63242604), (18882878, 140108882), (92678724, 211812352)]),
     (354, 178603, 162785195, 105906176, [(186180183, 54726445), (14139797, 108825684), (55912836, 142004748), (95203835, 148569749), (104210023, 140108882), (92678724, 211812352)]),
     (51055873, 53513341, 214171647, 107085824, []),
     (540069, 6041425, 53513341, 107085824, [(51055873, 214171648)]),
     (27458, 1722831, 89149897, 107085824, [(41136770, 109602434), (56089092, 214171648)]),
     (464243, 5454039, 61314607, 107085824, [(209349027, 93863358), (41136770, 109602434), (56089092, 214171648)]),
     (647720, 2143303, 47253463, 107085824, [(43431180, 87559476), (35796810, 10754886), (540069, 104569215), (51055873, 214171648)]),
     (34169, 564331, 16453887, 107085824, [(49551718, 9971354), (464243, 211746609), (209349027, 93863358), (41136770, 109602434), (56089092, 214171648)]),
     (208, 173314, 33210057, 107085824, [(25715075, 73803966), (25432989, 204200295), (194693184, 211746609), (209349027, 93863358), (41136770, 109602434), (56089092, 214171648)]),
     (29502532, 50229993, 215482367, 107741184, []),
     (2713453, 10056671, 50229993, 107741184, [(85519849, 215482368)]),
     (2184455, 19341047, 111739684, 107741184, [(169834622, 135749843), (85519849, 215482368)]),
     (3234764, 6452349, 14657351, 107741184, [(12224200, 24180600), (2713453, 135749843), (85519849, 215482368)]),
     (520556, 7523803, 29998303, 107741184, [(7036588, 21695892), (2184455, 191301769), (169834622, 135749843), (85519849, 215482368)]),
     (705675, 4697425, 62866029, 107741184, [(40718025, 144216616), (96520343, 164158889), (125059609, 24180600), (2713453, 135749843), (85519849, 215482368)]),
     (1716, 586705, 23658731, 107741184, [(85640549, 16835444), (1315338, 26401414), (3234764, 51323480), (12224200, 24180600), (2713453, 135749843), (85519849, 215482368)]),
     (588673, 10680895, 215744511, 107872256, []),
     (5452612, 23102743, 10680895, 107872256, [(193794048, 215744512)]),
     (83084, 4100023, 23102743, 107872256, [(97886415, 11269569), (588673, 215744512)]),
     (58961, 2441331, 4100023, 107872256, [(202325987, 34298270), (5452612, 204474944), (193794048, 215744512)]),
     (735849, 5912233, 78855594, 107872256, [(78677410, 24260279), (2728046, 181446243), (152600585, 204474944), (193794048, 215744512)]),
     (1142, 286771, 5912233, 107872256, [(47502232, 130580209), (79034181, 92284828), (39474883, 70422605), (22987112, 11269569), (588673, 215744512)]),
     (40, 35823, 25004183, 107872256, [(6633167, 173007729), (138736665, 68068296), (21475832, 4233800), (83084, 145321908), (97886415, 11269569), (588673, 215744512)]),
     (20151184, 45844507, 216137727, 108068864, []),
     (2354347, 8277631, 45844507, 108068864, [(104297529, 216137728)]),
     (386696, 1011295, 8277631, 108068864, [(29103252, 65995692), (20151184, 216137728)]),
     (1334856, 14010770, 184098014, 108068864, [(198240041, 79311480), (29103252, 65995692), (20151184, 216137728)]),
     (14173, 173546, 7071899, 108068864, [(19868339, 135853533), (85390840, 193579729), (173376076, 150142037), (104297529, 216137728)]),
     (243013, 5654767, 154347910, 108068864, [(151487397, 192812788), (172005005, 58999299), (16105088, 136826249), (86618021, 65995692), (20151184, 216137728)]),
     (120592, 3064841, 87809263, 108068864, [(116158908, 63023572), (18377035, 16985669), (1334856, 206995537), (198240041, 79311480), (29103252, 65995692), (20151184, 216137728)]),
     (27350929, 49675543, 216924159, 108462080, [])]"

definition root_cert_3 :: "root_cert list" where
  "root_cert_3 = [
     (40475111, 50062647, 49675543, 108462080, [(27350929, 216924160)]),
     (69555, 143319, 50062647, 108462080, [(61921228, 139897688), (90222144, 216924160)]),
     (519803, 536085, 205179397, 108462080, [(209224990, 115897414), (61921228, 139897688), (90222144, 216924160)]),
     (152831, 3744646, 127830463, 108462080, [(83667164, 8003720), (295308, 93701812), (40475111, 77026473), (27350929, 216924160)]),
     (58927, 1559643, 110800081, 108462080, [(69696088, 11093153), (567286, 3884363), (69555, 115897414), (61921228, 139897688), (90222144, 216924160)]),
     (4519, 194065, 10273039, 108462080, [(4041110, 141077619), (91750473, 205831008), (195305141, 3884363), (69555, 115897414), (61921228, 139897688), (90222144, 216924160)]),
     (29441424, 50546907, 217317375, 108658688, []),
     (5306415, 16439037, 50546907, 108658688, [(86782137, 217317376)]),
     (353922, 2934832, 94596213, 108658688, [(154706892, 137329045), (86782137, 217317376)]),
     (121330, 4641367, 2934832, 108658688, [(353922, 183358927), (154706892, 137329045), (86782137, 217317376)]),
     (907976, 11277322, 35392738, 108658688, [(63223626, 199139079), (182481370, 105201751), (50927397, 79988332), (29441424, 217317376)]),
     (305, 230987, 46633687, 108658688, [(90675308, 212182484), (207168921, 8770039), (353922, 183358927), (154706892, 137329045), (86782137, 217317376)]),
     (11724, 1556187, 22519123, 108658688, [(216802232, 140375640), (90675308, 212182484), (207168921, 8770039), (353922, 183358927), (154706892, 137329045), (86782137, 217317376)]),
     (672004, 11449017, 218628095, 109314048, []),
     (2086733, 13800083, 11449017, 109314048, [(195058057, 218628096)]),
     (6040804, 24477779, 13800083, 109314048, [(2086733, 206507075), (195058057, 218628096)]),
     (2738628, 5465135, 59507017, 109314048, [(151986317, 21359276), (2086733, 206507075), (195058057, 218628096)]),
     (1519, 452799, 49210106, 109314048, [(26647123, 68407118), (21404082, 77373970), (27383174, 12121022), (672004, 218628096)]),
     (6172, 1022448, 78473822, 109314048, [(66788014, 45916667), (9643501, 36341292), (6040804, 21359276), (2086733, 206507075), (195058057, 218628096)]),
     (27778, 1843304, 117869069, 109314048, [(80050242, 193432255), (171140113, 48830064), (10906078, 71370530), (23298709, 141254127), (91263331, 12121022), (672004, 218628096)]),
     (33715161, 52345483, 219676671, 109838336, []),
     (1211788, 2827032, 52345483, 109838336, [(33715161, 219676672)]),
     (3094081, 11126047, 2827032, 109838336, [(6595301, 133616028), (81270544, 219676672)]),
     (4044753, 18689728, 117868407, 109838336, [(96581118, 181613122), (150144872, 133616028), (81270544, 219676672)]),
     (74254, 3451099, 17597335, 109838336, [(19873316, 26071008), (3094081, 38063551), (6595301, 133616028), (81270544, 219676672)]),
     (2108, 484138, 12756340, 109838336, [(54430480, 161789209), (119155792, 193605665), (170628738, 38063551), (6595301, 133616028), (81270544, 219676672)]),
     (48199, 2540623, 173142268, 109838336, [(164122271, 50327346), (11529862, 31094590), (4401348, 41912896), (7996710, 203360986), (188257087, 86060645), (33715161, 219676672)]),
     (17393920, 44549583, 220594175, 110297088, []),
     (17531743, 24315167, 44549583, 110297088, [(114101089, 220594176)]),
     (469676, 8099699, 96470396, 110297088, [(113749064, 158650673), (114101089, 220594176)]),
     (83665, 1048751, 14656028, 110297088, [(33012233, 86250520), (33723248, 61943504), (17393920, 220594176)]),
     (500278, 9570383, 85908767, 110297088, [(90159314, 135257746), (82933548, 86250520), (33723248, 61943504), (17393920, 220594176)]),
     (249, 220459, 18694423, 110297088, [(1746672, 134378320), (81858610, 182708430), (151329336, 62188428), (17531743, 158650673), (114101089, 220594176)]),
     (62108, 1799909, 27585572, 110297088, [(26432670, 40718635), (7516097, 4296056), (83665, 85336431), (33012233, 86250520), (33723248, 61943504), (17393920, 220594176)]),
     (844324, 12823393, 221249535, 110624768, []),
     (1876105, 15457057, 12823393, 110624768, [(194758425, 221249536)]),
     (12355512, 15614962, 15457057, 110624768, [(127349211, 13667718), (844324, 221249536)]),
     (4350306, 13653735, 118502951, 110624768, [(108829378, 20373698), (1876105, 207581819), (194758425, 221249536)]),
     (33449, 1271750, 22706383, 110624768, [(38999838, 165307170), (123509684, 53392592), (12884858, 13667718), (844324, 221249536)]),
     (38205, 2399932, 121303207, 110624768, [(123458539, 103797157), (48695468, 52284333), (12355512, 167856945), (127349211, 13667718), (844324, 221249536)])]"

definition root_cert_4 :: "root_cert list" where
  "root_cert_4 = [
     (6159, 1064271, 7939772, 110624768, [(8803022, 39615795), (7093398, 190225299), (163551367, 155172322), (108829378, 20373698), (1876105, 207581819), (194758425, 221249536)]),
     (5339712, 29092951, 222035967, 111017984, []),
     (825639, 8750587, 29092951, 111017984, [(158510353, 222035968)]),
     (54379, 284688, 73746381, 111017984, [(27778444, 34432664), (5339712, 222035968)]),
     (41804, 1889185, 8344811, 111017984, [(203438981, 13539636), (825639, 187603305), (158510353, 222035968)]),
     (363120, 6564531, 93548287, 111017984, [(60682297, 18191303), (1490404, 208496333), (195782336, 187603305), (158510353, 222035968)]),
     (1527, 570289, 57294607, 111017984, [(204440713, 116076064), (60682297, 18191303), (1490404, 208496333), (195782336, 187603305), (158510353, 222035968)]),
     (109, 123519, 94928256, 111017984, [(120272672, 53187057), (12740562, 3046671), (41804, 212534165), (203438981, 13539636), (825639, 187603305), (158510353, 222035968)]),
     (18852496, 45865379, 222167039, 111083520, []),
     (1076851, 3615239, 45865379, 111083520, [(111583785, 222167040)]),
     (408981, 5222195, 3615239, 111083520, [(12137189, 64717876), (18852496, 222167040)]),
     (175914, 5612831, 8852045, 111083520, [(5408798, 170239366), (130448880, 64717876), (18852496, 222167040)]),
     (723141, 4239321, 22061134, 111083520, [(209839783, 34664922), (5408798, 170239366), (130448880, 64717876), (18852496, 222167040)]),
     (407807, 4279746, 23828143, 111083520, [(127015884, 80518072), (29181465, 187502119), (158245995, 170239366), (130448880, 64717876), (18852496, 222167040)]),
     (89, 39671, 65201531, 111083520, [(32102912, 81570257), (29949117, 122593252), (67647772, 100452852), (45419768, 15467416), (1076851, 157449165), (111583785, 222167040)]),
     (45654961, 55235733, 222953471, 111476736, []),
     (31265831, 49329727, 55235733, 111476736, [(66827044, 222953472)]),
     (204498, 4466258, 49329727, 111476736, [(31265831, 122062778), (66827044, 222953472)]),
     (8762992, 13432463, 73196639, 111476736, [(209653361, 83491471), (31265831, 122062778), (66827044, 222953472)]),
     (14, 22163, 60058393, 111476736, [(108491788, 51783672), (12027391, 91224641), (37325882, 100890695), (45654961, 222953472)]),
     (650, 128493, 113503955, 111476736, [(101698116, 46664653), (9767014, 147470787), (97543369, 131728832), (77830073, 100890695), (45654961, 222953472)]),
     (337, 111824, 37356983, 111476736, [(16547372, 92570644), (38435481, 155199223), (108035091, 75482686), (25555268, 131728832), (77830073, 100890695), (45654961, 222953472)]),
     (38981985, 54299245, 223215615, 111607808, []),
     (317567, 2444207, 54299245, 111607808, [(75635140, 223215616)]),
     (597972, 3313433, 2444207, 111607808, [(18812209, 93281231), (38981985, 223215616)]),
     (411526, 8037522, 3313433, 111607808, [(18360112, 8419385), (317567, 129934386), (75635140, 223215616)]),
     (23276, 489397, 15653452, 111607808, [(3839958, 211662403), (200707161, 64801072), (18812209, 93281231), (38981985, 223215616)]),
     (36697, 2457988, 50872047, 111607808, [(176518394, 213631302), (204458513, 64017683), (18360112, 8419385), (317567, 129934386), (75635140, 223215616)]),
     (20938, 861031, 23239307, 111607808, [(50077149, 166008967), (123463481, 36024312), (5813890, 11553214), (597972, 64801072), (18812209, 93281231), (38981985, 223215616)]),
     (55733412, 56000193, 224002047, 112001024, []),
     (35461054, 52248406, 56000193, 112001024, [(56268249, 224002048)]),
     (5224766, 6805247, 52248406, 112001024, [(35461054, 112268443), (56268249, 224002048)]),
     (2108996, 15899551, 36699816, 112001024, [(15446707, 134876582), (81212169, 112268443), (56268249, 224002048)]),
     (18928, 1510681, 31547002, 112001024, [(5646145, 44559104), (8863819, 131317685), (76982931, 111733606), (55733412, 224002048)]),
     (124, 12891, 15266143, 112001024, [(12694618, 25297382), (2856927, 34210501), (5224766, 89125467), (35461054, 112268443), (56268249, 224002048)]),
     (67, 97379, 95936380, 112001024, [(71184288, 18984289), (1608928, 60142049), (16147468, 139756469), (87195053, 92684364), (38349610, 111733606), (55733412, 224002048)]),
     (54816241, 56026599, 224133119, 112066560, []),
     (18440, 609363, 56026599, 112066560, [(54816241, 224133120)]),
     (3512, 151925, 609363, 112066560, [(18440, 110842841), (54816241, 224133120)]),
     (170828, 3300629, 46762677, 112066560, [(43857404, 156952685), (109908545, 113290280), (57263680, 224133120)])]"

definition root_cert_5 :: "root_cert list" where
  "root_cert_5 = [
     (829818, 9473755, 101690473, 112066560, [(211928439, 99145837), (43857404, 156952685), (109908545, 113290280), (57263680, 224133120)]),
     (36579, 2004379, 53434314, 112066560, [(38801279, 119555522), (63772470, 105713614), (49860404, 222100112), (220085543, 110842841), (54816241, 224133120)]),
     (27645, 588155, 75933155, 112066560, [(115113390, 71483106), (22798212, 34627584), (5349809, 185753167), (153945293, 67180436), (20136296, 113290280), (57263680, 224133120)]),
     (8636889, 35502273, 225574911, 112787456, []),
     (1287978, 13348907, 35502273, 112787456, [(145933476, 225574912)]),
     (8641725, 16049765, 13348907, 112787456, [(138351126, 44139163), (8636889, 225574912)]),
     (3901787, 7874689, 16049765, 112787456, [(8641725, 176659399), (138351126, 44139163), (8636889, 225574912)]),
     (968105, 6002023, 27679303, 112787456, [(20718268, 143574916), (91383196, 17045108), (1287978, 181435750), (145933476, 225574912)]),
     (1309674, 12669451, 15059227, 112787456, [(30513449, 165699707), (121717404, 81999997), (29808277, 17045108), (1287978, 181435750), (145933476, 225574912)]),
     (79, 14335, 39477680, 112787456, [(13024002, 14777695), (968105, 68363160), (20718268, 143574916), (91383196, 17045108), (1287978, 181435750), (145933476, 225574912)]),
     (6405520, 31815899, 228065279, 114032640, []),
     (2785205, 22198004, 31815899, 114032640, [(6405520, 228065280)]),
     (1135316, 12379310, 22198004, 114032640, [(176917444, 189843861), (158027961, 228065280)]),
     (13820, 1055736, 12379310, 114032640, [(1135316, 200869925), (176917444, 189843861), (158027961, 228065280)]),
     (31240, 1675666, 130255295, 114032640, [(185320100, 116555341), (59566925, 27195356), (3242875, 189843861), (158027961, 228065280)]),
     (21932, 516326, 1675666, 114032640, [(89877577, 144498624), (91552086, 118167210), (61225844, 202861936), (180443796, 38221420), (6405520, 228065280)]),
     (778, 155993, 173782274, 114032640, [(163156944, 24942705), (2727896, 164938249), (119284381, 111509940), (54521524, 27195356), (3242875, 189843861), (158027961, 228065280)]),
     (2724, 786293, 228458495, 114229248, []),
     (2768223, 5200940, 786293, 114229248, [(2724, 228458496)]),
     (2043013, 5710535, 5200940, 114229248, [(2768223, 789018), (2724, 228458496)]),
     (31023, 370595, 24215042, 114229248, [(4642535, 181210330), (143733693, 227669479), (226883185, 228458496)]),
     (42301, 2061139, 100974611, 114229248, [(73510092, 206854245), (187293006, 25148043), (2768223, 789018), (2724, 228458496)]),
     (8177, 1007183, 12472417, 114229248, [(21395045, 179943260), (141730674, 58590622), (15026190, 203310454), (180930634, 789018), (2724, 228458496)]),
     (1407, 502113, 59751272, 114229248, [(225733050, 69913375), (21395045, 179943260), (141730674, 58590622), (15026190, 203310454), (180930634, 789018), (2724, 228458496)]),
     (9216, 1442719, 228720639, 114360320, []),
     (50720, 2186324, 1442719, 114360320, [(225825985, 228720640)]),
     (952954, 11314114, 2186324, 114360320, [(50720, 227268705), (225825985, 228720640)]),
     (176218, 6122833, 49989303, 114360320, [(12485497, 146815979), (94241305, 1451936), (9216, 228720640)]),
     (89579, 3075174, 9239185, 114360320, [(9868428, 74733048), (24418558, 225314626), (221959331, 227268705), (225825985, 228720640)]),
     (5574, 71923, 4169482, 114360320, [(113158458, 171910351), (129210764, 14763477), (952954, 3406015), (50720, 227268705), (225825985, 228720640)]),
     (56, 66076, 165215551, 114360320, [(174415555, 67842814), (20123445, 171910351), (129210764, 14763477), (952954, 3406015), (50720, 227268705), (225825985, 228720640)]),
     (1293924, 15973157, 230424575, 115212288, []),
     (10950586, 14645933, 15973157, 115212288, [(1293924, 230424576)]),
     (4733, 363963, 127654687, 115212288, [(140910559, 17267082), (1293924, 230424576)]),
     (117217, 1154341, 12193487, 115212288, [(84557074, 50232302), (10950586, 17267082), (1293924, 230424576)]),
     (535136, 7232999, 4688751, 115212288, [(671669, 80300363), (27983769, 163241056), (115645833, 213157495), (197184337, 230424576)]),
     (2070, 129990, 69349397, 115212288, [(132372367, 37169082), (5995630, 150124214), (97807620, 163241056), (115645833, 213157495), (197184337, 230424576)]),
     (26858, 911243, 109198387, 115212288, [(81301196, 127208408), (70226792, 225227480), (220147600, 139585200), (84557074, 50232302), (10950586, 17267082), (1293924, 230424576)]),
     (20713705, 48412099, 230686719, 115343360, []),
     (12991895, 18312799, 48412099, 115343360, [(20713705, 230686720)])]"

definition root_cert_6 :: "root_cert list" where
  "root_cert_6 = [
     (950758, 13834369, 117087458, 115343360, [(134187836, 69125805), (20713705, 230686720)]),
     (367374, 3377899, 14217233, 115343360, [(1000552, 153520049), (102166285, 161560916), (113148816, 230686720)]),
     (735767, 9464668, 109480087, 115343360, [(187595162, 59403914), (15297044, 77166672), (25812908, 161560916), (113148816, 230686720)]),
     (13942, 1456896, 63304207, 115343360, [(34144547, 85585734), (31752663, 153830733), (102580219, 54745390), (12991895, 69125805), (20713705, 230686720)]),
     (36515, 1877299, 96139324, 115343360, [(221407683, 24694782), (2643551, 146041253), (92454595, 215877014), (202018065, 175941331), (134187836, 69125805), (20713705, 230686720)]),
     (113929, 5014137, 230817791, 115408896, []),
     (19459526, 26589833, 5014137, 115408896, [(220675588, 230817792)]),
     (6904253, 15801495, 98811673, 115408896, [(116238443, 225689726), (220675588, 230817792)]),
     (10517945, 23914729, 17063807, 115408896, [(10073917, 91576515), (36332806, 5128067), (113929, 230817792)]),
     (92783, 1234244, 23914729, 115408896, [(54375094, 81679182), (28903702, 67019438), (19459526, 225689726), (220675588, 230817792)]),
     (41170, 1817668, 29964503, 115408896, [(58919698, 118787711), (61132723, 81679182), (28903702, 67019438), (19459526, 225689726), (220675588, 230817792)]),
     (18695, 1824314, 62588411, 115408896, [(95958023, 219639197), (209001984, 179303497), (139286246, 139453931), (84254331, 139241278), (83997569, 5128067), (113929, 230817792)]),
     (1240068, 15702265, 231473151, 115736576, []),
     (551174, 5964608, 15702265, 115736576, [(198828553, 231473152)]),
     (878767, 12971421, 5964608, 115736576, [(64546747, 16942334), (1240068, 231473152)]),
     (3426662, 23441901, 64888855, 115736576, [(51433752, 109240428), (51554450, 16942334), (1240068, 231473152)]),
     (134286, 1161535, 21945499, 115736576, [(63202817, 122360675), (64681949, 109240428), (51554450, 16942334), (1240068, 231473152)]),
     (18344, 797863, 100444219, 115736576, [(204051505, 152206559), (100084335, 14262226), (878767, 122232725), (64546747, 16942334), (1240068, 231473152)]),
     (1485, 140953, 24974288, 115736576, [(8840587, 27262214), (3210861, 192667063), (160366749, 137656372), (81863820, 220177924), (209433869, 214530819), (198828553, 231473152)]),
     (5803105, 30920015, 232390655, 116195328, []),
     (13291184, 40501496, 30920015, 116195328, [(5803105, 232390656)]),
     (3456120, 15768651, 40501496, 116195328, [(123417985, 195667536), (164747520, 232390656)]),
     (189154, 3814603, 26921969, 116195328, [(9404364, 63035448), (17098224, 195667536), (164747520, 232390656)]),
     (64845, 3782069, 95869268, 116195328, [(219319695, 46749186), (9404364, 63035448), (17098224, 195667536), (164747520, 232390656)]),
     (6480, 246509, 44712179, 116195328, [(193094628, 196802220), (166663816, 98561288), (41801712, 176814160), (134528847, 36723121), (5803105, 232390656)]),
     (26730, 2331373, 184730661, 116195328, [(148408371, 49051249), (10353363, 198730510), (169945797, 185641471), (148296649, 63035448), (17098224, 195667536), (164747520, 232390656)]),
     (17615556, 46402477, 232652799, 116326400, []),
     (14252657, 20430303, 46402477, 116326400, [(122232289, 232652800)]),
     (1317535, 2872543, 112955925, 116326400, [(131737394, 168634767), (122232289, 232652800)]),
     (12103, 1449089, 2872543, 116326400, [(6262830, 150109654), (96852082, 64018034), (17615556, 232652800)]),
     (1126394, 3066979, 1449089, 116326400, [(173496692, 17507952), (1317535, 175068769), (131737394, 168634767), (122232289, 232652800)]),
     (105574, 2121520, 15600181, 116326400, [(14131948, 125884541), (68114020, 122410661), (64406574, 82543147), (29285575, 64018034), (17615556, 232652800)]),
     (171, 174517, 28380784, 116326400, [(6262313, 41114312), (7265705, 31743639), (4331169, 17507952), (1317535, 175068769), (131737394, 168634767), (122232289, 232652800)]),
     (8040964, 35369337, 234356735, 117178368, []),
     (6427702, 16250522, 35369337, 117178368, [(155577097, 234356736)]),
     (4639, 1001397, 113670551, 117178368, [(79192006, 43410302), (8040964, 234356736)]),
     (1629397, 10591634, 6233987, 117178368, [(811131, 38812053), (6427702, 190946435), (155577097, 234356736)]),
     (8, 25922, 14420287, 117178368, [(99334417, 128392560), (70339985, 98124655), (41084579, 43410302), (8040964, 234356736)]),
     (192456, 5774568, 35610773, 117178368, [(69090932, 112956125), (54443009, 233313992), (232275886, 136232082), (79192006, 43410302), (8040964, 234356736)]),
     (0, 680, 27460287, 117178368, [(17104878, 80331715), (27535732, 132414741), (74816128, 1042745), (4639, 136232082), (79192006, 43410302), (8040964, 234356736)])]"

definition root_cert_7 :: "root_cert list" where
  "root_cert_7 = [
     (6975012, 33579861, 235798527, 117899264, []),
     (186135, 2682721, 33579861, 117899264, [(6975012, 235798528)]),
     (1821926, 10725731, 136371997, 117899264, [(222734698, 40554874), (6975012, 235798528)]),
     (19191, 264451, 167198191, 117899264, [(176886395, 95484270), (38665405, 195243655), (161663793, 235798528)]),
     (606311, 3305866, 19436561, 117899264, [(9892315, 122020265), (63142654, 140314259), (83495394, 195243655), (161663793, 235798528)]),
     (472326, 1951955, 137049986, 117899264, [(171615486, 149369131), (94619493, 31569364), (4226594, 95484270), (38665405, 195243655), (161663793, 235798528)]),
     (1552, 461999, 6883327, 117899264, [(15699299, 11956893), (606311, 48296930), (9892315, 122020265), (63142654, 140314259), (83495394, 195243655), (161663793, 235798528)]),
     (542841, 10789777, 236584959, 118292480, []),
     (3391803, 7843249, 10789777, 118292480, [(214462564, 236584960)]),
     (6370174, 22888495, 7843249, 118292480, [(18136825, 11332619), (542841, 236584960)]),
     (2610, 8491, 22888495, 118292480, [(82240011, 28327545), (3391803, 225252342), (214462564, 236584960)]),
     (4652, 721175, 8491, 118292480, [(2610, 139487454), (82240011, 28327545), (3391803, 225252342), (214462564, 236584960)]),
     (28880, 575869, 30841174, 118292480, [(76793416, 196112249), (162563224, 197763737), (165312687, 65504962), (18136825, 11332619), (542841, 236584960)]),
     (420, 252954, 13365807, 118292480, [(1489221, 211005940), (188192463, 195934657), (162268935, 155221114), (101839077, 171079999), (123711862, 11332619), (542841, 236584960)]),
     (39559153, 57210087, 236716031, 118358016, []),
     (7309928, 10408999, 57210087, 118358016, [(82736704, 236716032)]),
     (709780, 2735423, 10408999, 118358016, [(7309928, 139946792), (82736704, 236716032)]),
     (4096915, 19689991, 100223543, 118358016, [(79426444, 195118229), (160830353, 139946792), (82736704, 236716032)]),
     (49705, 1081781, 75595670, 118358016, [(178529544, 137118609), (79426444, 195118229), (160830353, 139946792), (82736704, 236716032)]),
     (179770, 4605894, 9626573, 118358016, [(14417065, 34096856), (4911351, 63694153), (17138446, 177482691), (133071280, 96769241), (39559153, 236716032)]),
     (67329, 1055950, 44281023, 118358016, [(166105243, 188655717), (150353058, 117605175), (58428561, 12962112), (709780, 41597804), (7309928, 139946792), (82736704, 236716032)]),
     (20459673, 49517227, 239337471, 119668736, []),
     (6681631, 20159137, 49517227, 119668736, [(20459673, 239337472)]),
     (997322, 1004431, 20159137, 119668736, [(6681631, 69976901), (20459673, 239337472)]),
     (535070, 3014638, 38834474, 119668736, [(191730859, 118685054), (58854728, 169360572), (119843344, 239337472)]),
     (143048, 2203066, 3014638, 119668736, [(16984744, 43388713), (7865798, 199347915), (166039988, 69976901), (20459673, 239337472)]),
     (11348, 670303, 69303518, 119668736, [(194010432, 133028905), (73940320, 223887665), (209435179, 39989558), (6681631, 69976901), (20459673, 239337472)]),
     (452, 138700, 1955062, 119668736, [(2202482, 5851223), (143048, 63758025), (16984744, 43388713), (7865798, 199347915), (166039988, 69976901), (20459673, 239337472)]),
     (6971044, 33920117, 239861759, 119930880, []),
     (4452082, 22217435, 33920117, 119930880, [(165050481, 239861760)]),
     (200444, 3761789, 66323659, 119930880, [(24580383, 40891162), (6971044, 239861760)]),
     (297117, 2288885, 52373363, 119930880, [(175548900, 163077036), (110872694, 40891162), (6971044, 239861760)]),
     (15159, 1379414, 114653063, 119930880, [(205920305, 109731571), (50199821, 207183260), (178956841, 198970599), (165050481, 239861760)]),
     (1170, 198575, 41090153, 119930880, [(19764308, 11558128), (556947, 34660717), (5008573, 163077036), (110872694, 40891162), (6971044, 239861760)]),
     (3928, 6534, 7906436, 119930880, [(389229, 66722052), (18559991, 97686553), (39784009, 178641960), (133047259, 32678501), (4452082, 198970599), (165050481, 239861760)]),
     (1394944, 16926927, 240648191, 120324096, []),
     (23444, 1776409, 16926927, 120324096, [(1394944, 240648192)]),
     (4633352, 19242823, 1776409, 120324096, [(134602400, 222326321), (205399393, 240648192)]),
     (105545, 3618636, 19242823, 120324096, [(79917558, 2375242), (23444, 18321872), (1394944, 240648192)]),
     (991743, 7508933, 86392799, 120324096, [(33220588, 156056792), (101200520, 60670904), (15296015, 222326321), (205399393, 240648192)])]"

definition root_cert_8 :: "root_cert list" where
  "root_cert_8 = [
     (76829, 3895079, 55320332, 120324096, [(20594165, 67859156), (19135257, 33391735), (4633352, 179977289), (134602400, 222326321), (205399393, 240648192)]),
     (165, 79967, 7431332, 120324096, [(172083447, 154024290), (98581591, 172789037), (124065138, 33391735), (4633352, 179977289), (134602400, 222326321), (205399393, 240648192)]),
     (12917824, 42973943, 241827839, 120913920, []),
     (1565047, 5945159, 42973943, 120913920, [(142962129, 241827840)]),
     (1255448, 4996186, 154417213, 120913920, [(204484168, 185936073), (142962129, 241827840)]),
     (1573896, 14497587, 4996186, 120913920, [(1255448, 222373481), (204484168, 185936073), (142962129, 241827840)]),
     (108044, 1069303, 145924674, 120913920, [(187725935, 151077914), (94383409, 73901427), (22583921, 55891768), (12917824, 241827840)]),
     (163964, 3860291, 9147427, 120913920, [(34235340, 179705284), (133541237, 69341339), (19882827, 167926414), (116608908, 55891768), (12917824, 241827840)]),
     (2192, 287795, 23527295, 120913920, [(25114484, 217516172), (195648627, 19509277), (1573896, 17424193), (1255448, 222373481), (204484168, 185936073), (142962129, 241827840)]),
     (22625220, 51803373, 244842495, 122421248, []),
     (2809909, 12080251, 51803373, 122421248, [(118610529, 244842496)]),
     (9993565, 27118887, 117928572, 122421248, [(71248023, 74428594), (22625220, 244842496)]),
     (4498974, 15572977, 52693349, 122421248, [(36269702, 112764702), (51934930, 74428594), (22625220, 244842496)]),
     (12623, 1202770, 15572977, 122421248, [(4498974, 94235686), (36269702, 112764702), (51934930, 74428594), (22625220, 244842496)]),
     (79696, 3327679, 76776607, 122421248, [(241339054, 33189458), (4498974, 94235686), (36269702, 112764702), (51934930, 74428594), (22625220, 244842496)]),
     (39, 31421, 90507164, 122421248, [(68360284, 130807853), (69884495, 149085594), (90778825, 150606811), (92640827, 112764702), (51934930, 74428594), (22625220, 244842496)]),
     (39115792, 58773611, 244973567, 122486784, []),
     (17726525, 35786972, 58773611, 122486784, [(39115792, 244973568)]),
     (4463736, 14021173, 81825567, 122486784, [(130904340, 97889404), (39115792, 244973568)]),
     (4152919, 10858751, 27489027, 122486784, [(150961948, 65897877), (17726525, 97889404), (39115792, 244973568)]),
     (147183, 4443977, 140536948, 122486784, [(185334464, 192306233), (150961948, 65897877), (17726525, 97889404), (39115792, 244973568)]),
     (149100, 2570714, 19892003, 122486784, [(5709529, 83399360), (28392668, 35017508), (5005543, 133037097), (72248076, 147084165), (88310553, 244973568)]),
     (3504, 748271, 31737551, 122486784, [(11005948, 215752964), (190017811, 140547837), (80636023, 141102482), (81273708, 111936472), (51147451, 147084165), (88310553, 244973568)]),
     (6189328, 32770195, 245235711, 122617856, []),
     (6235100, 29888071, 32770195, 122617856, [(173505993, 245235712)]),
     (185304, 3387583, 29888071, 122617856, [(143269020, 38959524), (6189328, 245235712)]),
     (44075, 376423, 195537373, 122617856, [(175130368, 57793241), (13619789, 38959524), (6189328, 245235712)]),
     (458599, 6065223, 3953527, 122617856, [(132807, 121999453), (60692084, 39103317), (6235100, 206276189), (173505993, 245235712)]),
     (21451, 79392, 81479935, 122617856, [(164840477, 239528775), (233954644, 121999453), (60692084, 39103317), (6235100, 206276189), (173505993, 245235712)]),
     (1027, 60014, 16138111, 122617856, [(6364243, 10604945), (458599, 5706938), (132807, 121999453), (60692084, 39103317), (6235100, 206276189), (173505993, 245235712)]),
     (13918369, 44567343, 245759999, 122880000, []),
     (6953108, 13340411, 44567343, 122880000, [(142706944, 245760000)]),
     (2615639, 4679729, 13340411, 122880000, [(6953108, 187274288), (142706944, 245760000)]),
     (239938, 735082, 179724347, 122880000, [(163409667, 79311342), (25595251, 58485713), (13918369, 245760000)]),
     (44597, 946913, 2970267, 122880000, [(2783777, 110408687), (49601554, 204422415), (170037937, 187274288), (142706944, 245760000)]),
     (6405, 993186, 37695887, 122880000, [(10711211, 89714405), (32750140, 25353885), (2615639, 41337586), (6953108, 187274288), (142706944, 245760000)]),
     (39410, 2186741, 37424622, 122880000, [(36457349, 19990652), (1626083, 7679021), (239938, 200398503), (163409667, 79311342), (25595251, 58485713), (13918369, 245760000)]),
     (641881, 11934667, 246415359, 123207680, []),
     (629247, 10869751, 11934667, 123207680, [(641881, 246415360)]),
     (9255975, 31765033, 10869751, 123207680, [(629247, 12576549), (641881, 246415360)])]"

definition root_cert_9 :: "root_cert list" where
  "root_cert_9 = [
     (1833906, 16717294, 66525103, 123207680, [(27633061, 215101228), (187766452, 233838812), (221904144, 246415360)]),
     (44517, 225559, 26821159, 123207680, [(114783868, 93483796), (35465403, 31314133), (3979357, 233838812), (221904144, 246415360)]),
     (99043, 850649, 1528840, 123207680, [(5642485, 40363916), (6611786, 80810310), (26501213, 233963207), (222140300, 12576549), (641881, 246415360)]),
     (3439, 572759, 100431289, 123207680, [(57234434, 84501567), (28977555, 149233134), (90378003, 47757873), (9255975, 12452154), (629247, 12576549), (641881, 246415360)]),
     (42914649, 60573643, 249561087, 124780544, []),
     (15141332, 39845623, 60573643, 124780544, [(42914649, 249561088)]),
     (2356, 283007, 66169771, 124780544, [(141760363, 103488293), (42914649, 249561088)]),
     (2591132, 19751807, 1754431, 124780544, [(190716968, 161765912), (104856932, 146072796), (85499152, 249561088)]),
     (8512, 683679, 19751807, 124780544, [(150564984, 2006920), (16139, 61471029), (15141332, 103488293), (42914649, 249561088)]),
     (75358, 800085, 64706481, 124780544, [(82365411, 111596737), (49902938, 157467687), (99358728, 87795177), (30886197, 146072796), (85499152, 249561088)]),
     (5462, 581858, 83046088, 124780544, [(98435570, 84735671), (28771047, 118830058), (56581668, 766912), (2356, 188090060), (141760363, 103488293), (42914649, 249561088)]),
     (5788996, 32488873, 253100031, 126550016, []),
     (13046963, 31525774, 32488873, 126550016, [(5788996, 253100032)]),
     (3250656, 12453607, 88307551, 126550016, [(151217682, 38277870), (5788996, 253100032)]),
     (5767659, 28073805, 12453607, 126550016, [(47711074, 114246434), (51569521, 214822163), (182333289, 253100032)]),
     (17416, 1300553, 64218611, 126550016, [(164441504, 190499952), (143382959, 57464657), (13046963, 38277870), (5788996, 253100032)]),
     (49909, 2931535, 149675575, 126550016, [(112922963, 176678790), (123332243, 62600081), (15483088, 57464657), (13046963, 38277870), (5788996, 253100032)]),
     (8039, 1040383, 112267909, 126550016, [(77207301, 139588236), (76984879, 214190689), (181262920, 220618361), (192305234, 138853599), (76176686, 214822163), (182333289, 253100032)]),
     (10711104, 41396407, 253493247, 126746624, []),
     (13527368, 36963631, 41396407, 126746624, [(10711104, 253493248)]),
     (626634, 4228751, 71886902, 126746624, [(34473656, 201385737), (159989329, 253493248)]),
     (194304, 4474591, 160065805, 126746624, [(111924920, 194934761), (149903641, 52107512), (10711104, 253493248)]),
     (220, 33101, 70084391, 126746624, [(57922542, 117903442), (54838626, 160011490), (101003387, 201385737), (159989329, 253493248)]),
     (356, 187449, 26521663, 126746624, [(128527671, 7018185), (194304, 168440529), (111924920, 194934761), (149903641, 52107512), (10711104, 253493248)]),
     (10151, 550294, 1526415, 126746624, [(86653955, 244391649), (235616839, 63719290), (16016789, 35946639), (5097417, 58558488), (13527368, 52107512), (10711104, 253493248)]),
     (40801444, 61056193, 254279679, 127139840, []),
     (4679978, 13397383, 61056193, 127139840, [(40801444, 254279680)]),
     (376044, 2598805, 134426534, 127139840, [(189966227, 101857638), (40801444, 254279680)]),
     (147965, 752195, 100294093, 127139840, [(103980325, 34496716), (4679978, 101857638), (40801444, 254279680)]),
     (764, 365698, 48869974, 127139840, [(44504846, 186701003), (137082382, 155525867), (95124766, 152422043), (91365849, 254279680)]),
     (13698, 518600, 31307268, 127139840, [(89017274, 7763847), (237051, 67578678), (17960057, 155525867), (95124766, 152422043), (91365849, 254279680)]),
     (4041, 402483, 49330469, 127139840, [(147297239, 73843266), (21444214, 38331022), (5778154, 91675610), (33051864, 34496716), (4679978, 101857638), (40801444, 254279680)]),
     (2737729, 23755487, 256376831, 128188416, []),
     (2399841, 9104072, 23755487, 128188416, [(206128128, 256376832)]),
     (3096475, 13321757, 9104072, 128188416, [(34537328, 26493217), (2737729, 256376832)]),
     (2348951, 18351143, 120304997, 128188416, [(71254147, 24804513), (2399841, 229883616), (206128128, 256376832)]),
     (448943, 1606193, 64970835, 128188416, [(150746290, 121217991), (57313296, 24804513), (2399841, 229883616), (206128128, 256376832)]),
     (103251, 692909, 27388589, 128188416, [(74762893, 55391447), (11967588, 90665005), (32062737, 162278104), (102716703, 26493217), (2737729, 256376832)]),
     (14262, 1601717, 21563543, 128188416, [(6086196, 156434832), (95452683, 93975285), (34446771, 134774982), (70849988, 231572320), (209167648, 229883616), (206128128, 256376832)]),
     (118473, 5397011, 256770047, 128385024, [])]"

definition root_cert_10 :: "root_cert list" where
  "root_cert_10 = [
     (13336135, 20718801, 5397011, 128385024, [(118473, 256770048)]),
     (7372834, 18615866, 128059035, 128385024, [(153070804, 5515485), (118473, 256770048)]),
     (507696, 8257023, 44463439, 128385024, [(37098371, 90912125), (32188389, 251254564), (245857552, 256770048)]),
     (62104, 3154390, 67917296, 128385024, [(234442577, 97599952), (37098371, 90912125), (32188389, 251254564), (245857552, 256770048)]),
     (13942, 501975, 53104727, 128385024, [(248845491, 245352465), (234442577, 97599952), (37098371, 90912125), (32188389, 251254564), (245857552, 256770048)]),
     (1652, 376336, 187259622, 128385024, [(138601589, 53943668), (11332783, 71077857), (19675432, 116976281), (53290679, 58517690), (13336135, 5515485), (118473, 256770048)]),
     (61941265, 64461783, 257949695, 128974848, []),
     (5846683, 8873417, 64461783, 128974848, [(61941265, 257949696)]),
     (16548494, 31558727, 169049089, 128974848, [(153538508, 131546648), (67084864, 257949696)]),
     (396181, 1700416, 31558727, 128974848, [(60183917, 219114787), (186126560, 126403049), (61941265, 257949696)]),
     (10337, 388829, 16599432, 128974848, [(14186946, 169486663), (111361747, 38834910), (5846683, 126403049), (61941265, 257949696)]),
     (203190, 3949413, 195283585, 128974848, [(149731265, 70780931), (19422159, 164090938), (104384057, 58939115), (13467041, 131546648), (67084864, 257949696)]),
     (334, 169143, 68734613, 128974848, [(70693830, 89884926), (31321222, 197455742), (151148733, 169486663), (111361747, 38834910), (5846683, 126403049), (61941265, 257949696)]),
     (2003520, 20758743, 258605055, 129302528, []),
     (41259681, 47301785, 20758743, 129302528, [(2003520, 258605056)]),
     (326498, 1450613, 84189139, 129302528, [(75989368, 235842793), (215084049, 258605056)]),
     (1020882, 1369352, 210041557, 129302528, [(183399429, 155309548), (93273720, 22762264), (2003520, 258605056)]),
     (2443337, 3629833, 10879234, 129302528, [(50179666, 9188807), (326498, 140182863), (75989368, 235842793), (215084049, 258605056)]),
     (5856, 830887, 37546612, 129302528, [(60844347, 144689670), (80953949, 9188807), (326498, 140182863), (75989368, 235842793), (215084049, 258605056)]),
     (838, 429357, 6527821, 129302528, [(73120426, 40371674), (6302552, 242356812), (227129449, 217779751), (183399429, 155309548), (93273720, 22762264), (2003520, 258605056)]),
     (9060, 1527505, 260571135, 130285568, []),
     (3039614, 19129748, 1527505, 130285568, [(257507065, 260571136)]),
     (919581, 13700065, 74439583, 130285568, [(207324485, 259034571), (257507065, 260571136)]),
     (1294, 566626, 28175045, 130285568, [(3443489, 83452968), (26727434, 1536566), (9060, 260571136)]),
     (33974, 2011346, 21691774, 130285568, [(120065979, 230616606), (204105564, 83452968), (26727434, 1536566), (9060, 260571136)]),
     (89001, 3849477, 128272926, 130285568, [(102802882, 132333335), (67206643, 171759134), (113217451, 177118169), (120392635, 1536566), (9060, 260571136)]),
     (760, 121508, 148287464, 130285568, [(145627740, 73878661), (20946512, 103128777), (40816280, 157805369), (95569044, 28143133), (3039614, 259034571), (257507065, 260571136)]),
     (3758713, 27544721, 260702207, 130351104, []),
     (6493974, 13897142, 27544721, 130351104, [(3758713, 260702208)]),
     (1859672, 12568953, 13897142, 130351104, [(6493974, 31303435), (3758713, 260702208)]),
     (415489, 1652081, 102435273, 130351104, [(48017410, 88052679), (29739963, 229398774), (201854052, 260702208)]),
     (14388, 1367423, 19000447, 130351104, [(28968242, 148817246), (84949693, 88052679), (29739963, 229398774), (201854052, 260702208)]),
     (132861, 2561350, 4730231, 130351104, [(192026270, 103485170), (41078211, 60460801), (14021777, 219556208), (184904181, 31303435), (3758713, 260702208)]),
     (23946, 1521718, 48220946, 130351104, [(224370136, 146630601), (82471618, 157217039), (94810080, 60460801), (14021777, 219556208), (184904181, 31303435), (3758713, 260702208)]),
     (31736049, 59360693, 261488639, 130744320, []),
     (8717602, 19674064, 59360693, 130744320, [(31736049, 261488640)]),
     (3190561, 18055007, 19674064, 130744320, [(8717602, 91096743), (31736049, 261488640)]),
     (294436, 3977835, 126976223, 130744320, [(81128098, 213743966), (174716893, 91096743), (31736049, 261488640)]),
     (2017538, 17232352, 138148596, 130744320, [(244234081, 145650528), (81128098, 213743966), (174716893, 91096743), (31736049, 261488640)]),
     (194028, 691062, 9981425, 130744320, [(2997107, 118543382), (53740511, 227962373), (198734611, 153737478), (90387146, 170391898), (111031204, 261488640)])]"

definition root_cert_11 :: "root_cert list" where
  "root_cert_11 = [
     (15595, 1638826, 72230255, 130744320, [(144353106, 238519890), (217568677, 252714143), (244234081, 145650528), (81128098, 213743966), (174716893, 91096743), (31736049, 261488640)]),
     (49764100, 64395065, 261881855, 130940928, []),
     (405505, 1818093, 64395065, 130940928, [(83327625, 261881856)]),
     (126695, 4736892, 1818093, 130940928, [(405505, 147722691), (83327625, 261881856)]),
     (7045969, 26349157, 45497951, 130940928, [(8264113, 46203023), (8151459, 114159166), (49764100, 261881856)]),
     (108150, 5014267, 26349157, 130940928, [(98535496, 256121724), (250488286, 10305074), (405505, 147722691), (83327625, 261881856)]),
     (1547, 468815, 5014267, 130940928, [(232480175, 42955925), (7045969, 46521192), (8264113, 46203023), (8151459, 114159166), (49764100, 261881856)]),
     (22109, 1678313, 6297740, 130940928, [(4767986, 193455359), (142907860, 169122861), (109219258, 7623215), (221906, 251576783), (241677214, 147722691), (83327625, 261881856)]),
     (5234944, 31893007, 263323647, 131661824, []),
     (28521, 2389936, 31893007, 131661824, [(5234944, 263323648)]),
     (88622, 4695228, 2389936, 131661824, [(28521, 37127952), (5234944, 263323648)]),
     (669438, 10503646, 4695228, 131661824, [(88622, 2740491), (28521, 37127952), (5234944, 263323648)]),
     (60862, 3467737, 52230839, 131661824, [(11489517, 255935671), (248754974, 229640115), (200265272, 226195697), (194302689, 263323648)]),
     (199, 179995, 229467644, 131661824, [(211155083, 203409222), (157127214, 246961398), (231615854, 260583158), (257871188, 37127952), (5234944, 263323648)]),
     (106203, 3059239, 16790716, 131661824, [(1090428, 154604157), (90772118, 22462067), (1916062, 16362251), (1016707, 260583158), (257871188, 37127952), (5234944, 263323648)]),
     (27512905, 57624659, 263454719, 131727360, []),
     (7869660, 27706655, 57624659, 131727360, [(120692496, 263454720)]),
     (4137640, 6189017, 27706655, 131727360, [(97546611, 85137565), (27512905, 263454720)]),
     (426702, 7409931, 187241997, 131727360, [(201559613, 160309436), (97546611, 85137565), (27512905, 263454720)]),
     (357347, 6321839, 76140525, 131727360, [(242676057, 230438347), (201559613, 160309436), (97546611, 85137565), (27512905, 263454720)]),
     (7912, 514297, 35887403, 131727360, [(10546201, 127119863), (61336762, 49385367), (9257433, 45533496), (7869660, 178317156), (120692496, 263454720)]),
     (130822, 5028412, 183478775, 131727360, [(203698214, 9702835), (357347, 252852038), (242676057, 230438347), (201559613, 160309436), (97546611, 85137565), (27512905, 263454720)]),
     (16906692, 49981961, 264634367, 132317184, []),
     (2185041, 2548577, 49981961, 132317184, [(147763753, 264634368)]),
     (23835881, 40112759, 215089087, 132317184, [(211512370, 66888654), (16906692, 264634368)]),
     (1996727, 19724015, 91669021, 132317184, [(64826066, 240587807), (218726286, 197745715), (147763753, 264634368)]),
     (140206, 1308441, 91561646, 132317184, [(126493164, 171211005), (110768712, 28047297), (2972595, 66888654), (16906692, 264634368)]),
     (143447, 4298561, 1308441, 132317184, [(12210671, 132435125), (66276585, 82815760), (25916702, 24046562), (2185041, 197745715), (147763753, 264634368)]),
     (93942, 3451855, 22518919, 132317184, [(205521436, 108971592), (44872508, 22987012), (1996727, 130977881), (64826066, 240587807), (218726286, 197745715), (147763753, 264634368)]),
     (4273216, 29404679, 265420799, 132710400, []),
     (21668779, 21675363, 29404679, 132710400, [(202338225, 265420800)]),
     (132910, 1860273, 135397880, 132710400, [(135414336, 231742905), (202338225, 265420800)]),
     (1562847, 6036137, 6582757, 132710400, [(13980387, 75837622), (21668779, 231742905), (202338225, 265420800)]),
     (170631, 6323128, 6036137, 132710400, [(1562847, 60915397), (13980387, 75837622), (21668779, 231742905), (202338225, 265420800)]),
     (95285, 3467539, 7450719, 132710400, [(17993198, 130452002), (64116017, 236738387), (211155507, 75860662), (21681948, 33677896), (4273216, 265420800)]),
     (6433, 152319, 27002273, 132710400, [(15989496, 63845193), (15357532, 224384117), (189692110, 182289579), (125195502, 189560139), (135381425, 33677896), (4273216, 265420800)]),
     (267009, 8192893, 268042239, 134021120, []),
     (13692303, 15695680, 8192893, 134021120, [(251389444, 268042240)]),
     (2673596, 8670343, 153711039, 134021120, [(147143617, 8459903), (267009, 268042240)]),
     (365228, 6072063, 8670343, 134021120, [(28117496, 207460760), (160571582, 259582338), (251389444, 268042240)])]"

definition root_cert_12 :: "root_cert list" where
  "root_cert_12 = [
     (202024, 1605790, 102207157, 134021120, [(182459958, 144627211), (78036320, 69445401), (17992178, 8459903), (267009, 268042240)]),
     (15408, 201299, 74932336, 134021120, [(167452657, 9894272), (365228, 86814036), (28117496, 207460760), (160571582, 259582338), (251389444, 268042240)]),
     (33330, 2023666, 45667615, 134021120, [(179430393, 56182888), (11776192, 9894272), (365228, 86814036), (28117496, 207460760), (160571582, 259582338), (251389444, 268042240)])]"

lemmas cert_eval = list.rel_inject list.rel_intros(1) cert_ok.simps squares_ok.simps span_ok.simps short_ok.simps

lemma root_cert_0_ok: "list_all2 cert_ok root_table_0 root_cert_0"
  by (simp only: root_table_0_def root_cert_0_def cert_eval arith_simps rel_simps simp_thms numeral_plus_one)

lemma root_cert_1_ok: "list_all2 cert_ok root_table_1 root_cert_1"
  by (simp only: root_table_1_def root_cert_1_def cert_eval arith_simps rel_simps simp_thms numeral_plus_one)

lemma root_cert_2_ok: "list_all2 cert_ok root_table_2 root_cert_2"
  by (simp only: root_table_2_def root_cert_2_def cert_eval arith_simps rel_simps simp_thms numeral_plus_one)

lemma root_cert_3_ok: "list_all2 cert_ok root_table_3 root_cert_3"
  by (simp only: root_table_3_def root_cert_3_def cert_eval arith_simps rel_simps simp_thms numeral_plus_one)

lemma root_cert_4_ok: "list_all2 cert_ok root_table_4 root_cert_4"
  by (simp only: root_table_4_def root_cert_4_def cert_eval arith_simps rel_simps simp_thms numeral_plus_one)

lemma root_cert_5_ok: "list_all2 cert_ok root_table_5 root_cert_5"
  by (simp only: root_table_5_def root_cert_5_def cert_eval arith_simps rel_simps simp_thms numeral_plus_one)

lemma root_cert_6_ok: "list_all2 cert_ok root_table_6 root_cert_6"
  by (simp only: root_table_6_def root_cert_6_def cert_eval arith_simps rel_simps simp_thms numeral_plus_one)

lemma root_cert_7_ok: "list_all2 cert_ok root_table_7 root_cert_7"
  by (simp only: root_table_7_def root_cert_7_def cert_eval arith_simps rel_simps simp_thms numeral_plus_one)

lemma root_cert_8_ok: "list_all2 cert_ok root_table_8 root_cert_8"
  by (simp only: root_table_8_def root_cert_8_def cert_eval arith_simps rel_simps simp_thms numeral_plus_one)

lemma root_cert_9_ok: "list_all2 cert_ok root_table_9 root_cert_9"
  by (simp only: root_table_9_def root_cert_9_def cert_eval arith_simps rel_simps simp_thms numeral_plus_one)

lemma root_cert_10_ok: "list_all2 cert_ok root_table_10 root_cert_10"
  by (simp only: root_table_10_def root_cert_10_def cert_eval arith_simps rel_simps simp_thms numeral_plus_one)

lemma root_cert_11_ok: "list_all2 cert_ok root_table_11 root_cert_11"
  by (simp only: root_table_11_def root_cert_11_def cert_eval arith_simps rel_simps simp_thms numeral_plus_one)

lemma root_cert_12_ok: "list_all2 cert_ok root_table_12 root_cert_12"
  by (simp only: root_table_12_def root_cert_12_def cert_eval arith_simps rel_simps simp_thms numeral_plus_one)

lemma list_all2_cert: "list_all2 cert_ok es cs \<Longrightarrow> list_all root_entry_ok es"
proof (induction rule: list_all2_induct)
  case (Cons e es c cs)
  then show ?case by (cases e; cases c) (auto intro: cert_ok_entry)
qed simp

theorem root_table_ok: "list_all root_entry_ok kNegacyclicRootTable"
  unfolding kNegacyclicRootTable_def list_all_append
  by (intro conjI; rule list_all2_cert)
     (rule root_cert_0_ok
      root_cert_1_ok
      root_cert_2_ok
      root_cert_3_ok
      root_cert_4_ok
      root_cert_5_ok
      root_cert_6_ok
      root_cert_7_ok
      root_cert_8_ok
      root_cert_9_ok
      root_cert_10_ok
      root_cert_11_ok
      root_cert_12_ok)+

end
