(* ===== verification/HlsNtt.thy ===== *)
theory HlsNtt
  imports HlsRoots
begin

unbundle bit_operations_syntax

text \<open>
  The number-theoretic transform of the kernels (\<open>kernels/kernel_common.hpp\<close>): the twiddle and root
  lookup, the direct transform of a lane, the four-step cyclic transform (two passes of direct
  transforms with a twiddle multiplication and a transpose between them), the bit reversal and the
  negacyclic transform in both directions. The arrays are lists; a local array of the C++ code,
  whose elements are all written before they are read, starts as zeros.
\<close>

section \<open>Roots\<close>

definition is_power_of_two :: "nat \<Rightarrow> bool" where
  "is_power_of_two v \<longleftrightarrow> v \<noteq> 0 \<and> v AND (v - 1) = 0"

record twiddle_table =
  tw_mod :: nat
  tw_prime_id :: nat
  tw_inverse :: bool
  tw_size :: nat
  tw_values :: "nat list"

definition select_twiddle :: "twiddle_table \<Rightarrow> nat \<Rightarrow> nat res" where
  "select_twiddle tbl e = rd (tw_values tbl) (if tw_size tbl = 0 then 0 else e mod tw_size tbl)"

definition kTables :: "twiddle_table list" where
  "kTables =
     [\<lparr>tw_mod = 1179649, tw_prime_id = 1, tw_inverse = False, tw_size = 4,
       tw_values = [1, 683840, 689020, 494273, 0, 0, 0, 0]\<rparr>,
      \<lparr>tw_mod = 2752513, tw_prime_id = 9, tw_inverse = True, tw_size = 4,
       tw_values = [1, 13629, 1331270, 2065647, 0, 0, 0, 0]\<rparr>,
      \<lparr>tw_mod = 6946817, tw_prime_id = 2, tw_inverse = True, tw_size = 4,
       tw_values = [1, 4288696, 6626758, 6658417, 0, 0, 0, 0]\<rparr>,
      \<lparr>tw_mod = 5767169, tw_prime_id = 3, tw_inverse = False, tw_size = 4,
       tw_values = [1, 5392703, 1838090, 3643041, 0, 0, 0, 0]\<rparr>,
      \<lparr>tw_mod = 786433, tw_prime_id = 4, tw_inverse = False, tw_size = 4,
       tw_values = [1, 388249, 100025, 544685, 0, 0, 0, 0]\<rparr>,
      \<lparr>tw_mod = 786433, tw_prime_id = 4, tw_inverse = False, tw_size = 8,
       tw_values = [1, 541396, 544685, 711817, 686408, 641480, 388249, 216230]\<rparr>,
      \<lparr>tw_mod = 786433, tw_prime_id = 9, tw_inverse = True, tw_size = 8,
       tw_values = [1, 570203, 398184, 144953, 100025, 74616, 241748, 245037]\<rparr>]"

definition lookup_ntt_twiddle :: "nat \<Rightarrow> nat \<Rightarrow> bool \<Rightarrow> nat \<Rightarrow> nat \<Rightarrow> nat res" where
  "lookup_ntt_twiddle q prime_id invert e span =
     (let want_size = (if span \<ge> 8 then 8 else 4);
          hit = (\<lambda>tbl. tw_mod tbl = q \<and> tw_prime_id tbl = prime_id \<and> tw_inverse tbl = invert)
      in case List.find (\<lambda>tbl. hit tbl \<and> tw_size tbl = want_size) kTables of
           Some tbl \<Rightarrow> bindr (select_twiddle tbl e) (\<lambda>v. Inr (v mod q))
         | None \<Rightarrow>
             (case List.find hit kTables of
                Some tbl \<Rightarrow> bindr (select_twiddle tbl e) (\<lambda>v. Inr (v mod q))
              | None \<Rightarrow>
                  if q \<le> 2 then Inr 1
                  else Inr (w64 (1 + (w64 (prime_id + e * 17)) mod (q - 1)))))"

record negacyclic_roots =
  nr_psi :: nat
  nr_psi_inv :: nat
  nr_omega :: nat
  nr_omega_inv :: nat
  nr_from_table :: bool

definition fallback_roots :: "nat \<Rightarrow> nat \<Rightarrow> nat \<Rightarrow> negacyclic_roots res" where
  "fallback_roots q span prime_id =
     bindr (lookup_ntt_twiddle q prime_id False 1 span) (\<lambda>fallback_omega.
     let w = (if q = 0 then 1 else fallback_omega mod q) in
     bindr (mod_inv w q) (\<lambda>wi.
     Inr \<lparr>nr_psi = 1, nr_psi_inv = 1, nr_omega = w, nr_omega_inv = (if wi = 0 then 1 else wi),
          nr_from_table = False\<rparr>))"

definition resolve_negacyclic_roots :: "nat \<Rightarrow> nat \<Rightarrow> nat \<Rightarrow> negacyclic_roots res" where
  "resolve_negacyclic_roots q span prime_id =
     (case List.find (\<lambda>(m, s, _). m = q \<and> s = span) kNegacyclicRootTable of
        Some (m, s, p, pi, w, wi) \<Rightarrow>
          Inr \<lparr>nr_psi = p mod q, nr_psi_inv = pi mod q, nr_omega = w mod q, nr_omega_inv = wi mod q,
               nr_from_table = True\<rparr>
      | None \<Rightarrow> fallback_roots q span prime_id)"

section \<open>The direct transform of one lane\<close>

definition dft_term ::
  "nat list \<Rightarrow> nat \<Rightarrow> nat \<Rightarrow> nat \<Rightarrow> nat \<times> nat \<Rightarrow> (nat \<times> nat) res" where
  "dft_term input step q n s = (case s of (acc, tw) \<Rightarrow>
     bindr (rd input n) (\<lambda>x. Inr (mod_add acc (mod_mul x tw q) q, mod_mul tw step q)))"

definition dft_output :: "nat list \<Rightarrow> nat \<Rightarrow> nat \<Rightarrow> nat \<Rightarrow> nat \<Rightarrow> nat list \<Rightarrow> nat list res" where
  "dft_output input len root q k out =
     (let step = mod_pow root k q in
      bindr (foldr_res (dft_term input step q) [0..<len] (0, 1)) (\<lambda>(acc, tw). wr out k acc))"

definition small_cyclic_dft :: "nat list \<Rightarrow> nat list \<Rightarrow> nat \<Rightarrow> nat \<Rightarrow> nat \<Rightarrow> nat list res" where
  "small_cyclic_dft input out len root q =
     (if len = 0 then Inr out
      else foldr_res (dft_output input len root q) [0..<len] out)"

section \<open>The four-step transform\<close>

text \<open>\<open>__builtin_ctz\<close>, undefined at 0 where no caller uses it.\<close>

fun ctz :: "nat \<Rightarrow> nat" where
  "ctz n = (if n = 0 \<or> odd n then 0 else Suc (ctz (n div 2)))"

declare ctz.simps [simp del]

definition choose_four_step_shape :: "nat \<Rightarrow> nat \<times> nat" where
  "choose_four_step_shape span =
     (let levels = ctz span; row_levels = levels div 2
      in (2 ^ row_levels, 2 ^ (levels - row_levels)))"

definition kMaxSpan :: nat where "kMaxSpan = 128"
definition kMaxFourStepSide :: nat where "kMaxFourStepSide = 16"

text \<open>Stage 1: one row is gathered with stride \<open>rows\<close>, transformed and stored contiguously.\<close>

definition stage1_row ::
  "nat list \<Rightarrow> nat \<Rightarrow> nat \<Rightarrow> nat \<Rightarrow> nat \<Rightarrow> nat \<Rightarrow> nat list \<Rightarrow> nat list res" where
  "stage1_row vals rows cols row_root q n1 stage1 =
     bindr (foldr_res (\<lambda>n2 lane. bindr (rd vals (n1 + rows * n2)) (\<lambda>v. wr lane n2 (v mod q)))
              [0..<cols] (replicate kMaxFourStepSide 0)) (\<lambda>lane_in.
     bindr (small_cyclic_dft lane_in (replicate kMaxFourStepSide 0) cols row_root q) (\<lambda>lane_out.
     foldr_res (\<lambda>k2 s. bindr (rd lane_out k2) (\<lambda>v. wr s (n1 * cols + k2) v)) [0..<cols] stage1))"

text \<open>Stage 2: the twiddle factors of one row.\<close>

definition stage2_entry ::
  "nat \<Rightarrow> nat \<Rightarrow> nat \<Rightarrow> nat \<Rightarrow> nat \<Rightarrow> nat list \<times> nat \<Rightarrow> (nat list \<times> nat) res" where
  "stage2_entry cols step q n1 k2 s = (case s of (stage1, tw) \<Rightarrow>
     let idx = n1 * cols + k2 in
     bindr (rd stage1 idx) (\<lambda>v.
     bindr (wr stage1 idx (mod_mul v tw q)) (\<lambda>stage1'. Inr (stage1', mod_mul tw step q))))"

definition stage2_row :: "nat \<Rightarrow> nat \<Rightarrow> nat \<Rightarrow> nat \<Rightarrow> nat list \<Rightarrow> nat list res" where
  "stage2_row cols w q n1 stage1 =
     bindr (foldr_res (stage2_entry cols (mod_pow w n1 q) q n1) [0..<cols] (stage1, 1))
       (\<lambda>(stage1', tw). Inr stage1')"

text \<open>Stage 3: one row of the transpose.\<close>

definition stage3_row :: "nat list \<Rightarrow> nat \<Rightarrow> nat \<Rightarrow> nat \<Rightarrow> nat list \<Rightarrow> nat list res" where
  "stage3_row stage1 rows cols n1 stage2 =
     foldr_res (\<lambda>k2 s. bindr (rd stage1 (n1 * cols + k2)) (\<lambda>v. wr s (k2 * rows + n1) v))
       [0..<cols] stage2"

text \<open>Stage 4: one column is transformed and scattered with stride \<open>cols\<close>.\<close>

definition stage4_col ::
  "nat list \<Rightarrow> nat \<Rightarrow> nat \<Rightarrow> nat \<Rightarrow> nat \<Rightarrow> nat \<Rightarrow> nat list \<Rightarrow> nat list res" where
  "stage4_col stage2 rows cols col_root q k2 vals =
     bindr (foldr_res (\<lambda>n1 lane. bindr (rd stage2 (k2 * rows + n1)) (\<lambda>v. wr lane n1 v))
              [0..<rows] (replicate kMaxFourStepSide 0)) (\<lambda>lane_in.
     bindr (small_cyclic_dft lane_in (replicate kMaxFourStepSide 0) rows col_root q) (\<lambda>lane_out.
     foldr_res (\<lambda>k1 s. bindr (rd lane_out k1) (\<lambda>v. wr s (k2 + cols * k1) v)) [0..<rows] vals))"

definition scale_by_inverse :: "nat \<Rightarrow> nat \<Rightarrow> nat list \<Rightarrow> nat list res" where
  "scale_by_inverse span q vals =
     bindr (mod_inv span q) (\<lambda>span_inv.
     if span_inv = 0 then Inr vals
     else foldr_res (\<lambda>i s. bindr (rd s i) (\<lambda>v. wr s i (mod_mul v span_inv q))) [0..<span] vals)"

definition four_step_stages :: "nat list \<Rightarrow> nat \<Rightarrow> nat \<Rightarrow> nat \<Rightarrow> nat \<Rightarrow> nat list res" where
  "four_step_stages vals rows cols w q =
     (let row_root = mod_pow w rows q; col_root = mod_pow w cols q in
      bindr (foldr_res (stage1_row vals rows cols row_root q) [0..<rows] (replicate kMaxSpan 0))
        (\<lambda>stage1.
      bindr (foldr_res (stage2_row cols w q) [0..<rows] stage1) (\<lambda>stage1'.
      bindr (foldr_res (stage3_row stage1' rows cols) [0..<rows] (replicate kMaxSpan 0)) (\<lambda>stage2.
      foldr_res (stage4_col stage2 rows cols col_root q) [0..<cols] vals))))"

definition cyclic_ntt_four_step :: "nat list \<Rightarrow> nat \<Rightarrow> nat \<Rightarrow> nat \<Rightarrow> bool \<Rightarrow> nat list res" where
  "cyclic_ntt_four_step vals span w q inverse_cyclic =
     (if span < 2 \<or> span > kMaxSpan \<or> q = 0 then Inr vals
      else case choose_four_step_shape span of (rows, cols) \<Rightarrow>
        if rows * cols \<noteq> span \<or> rows > kMaxFourStepSide \<or> cols > kMaxFourStepSide then Inr vals
        else bindr (four_step_stages vals rows cols w q) (\<lambda>vals'.
             if inverse_cyclic then scale_by_inverse span q vals' else Inr vals'))"

section \<open>Bit reversal and the negacyclic transform\<close>

function bit_count_loop :: "nat \<Rightarrow> nat \<Rightarrow> nat" where
  "bit_count_loop span bit_count =
     (if 2 ^ bit_count < span then bit_count_loop span (Suc bit_count) else bit_count)"
  by pat_completeness auto
termination bit_count_loop
proof (relation "measure (\<lambda>(span, b). span - b)")
  fix span b :: nat
  assume "2 ^ b < span"
  then have "b < span" using less_exp [of b] by (rule less_trans [rotated])
  then show "((span, Suc b), span, b) \<in> measure (\<lambda>(span, b). span - b)" by simp
qed simp

declare bit_count_loop.simps [simp del]

text \<open>The inner loop: \<open>b\<close> bits move from \<open>x\<close> to \<open>reversed\<close>.\<close>

fun reverse_loop :: "nat \<Rightarrow> nat \<Rightarrow> nat \<Rightarrow> nat" where
  "reverse_loop 0 x reversed = reversed"
| "reverse_loop (Suc b) x reversed = reverse_loop b (x div 2) (w32 (reversed * 2) OR (x AND 1))"

definition bit_reverse_permute :: "nat list \<Rightarrow> nat \<Rightarrow> nat list res" where
  "bit_reverse_permute vals span =
     (if span < 2 \<or> span > kMaxSpan \<or> \<not> is_power_of_two span then Inr vals
      else let bit_count = bit_count_loop span 0 in
        bindr (foldr_res (\<lambda>i scratch. bindr (rd vals i) (\<lambda>v.
                 wr scratch (reverse_loop bit_count i 0) v)) [0..<span] (replicate kMaxSpan 0))
          (\<lambda>scratch. foldr_res (\<lambda>i s. bindr (rd scratch i) (\<lambda>v. wr s i v)) [0..<span] vals))"

definition twist_step :: "nat \<Rightarrow> nat \<Rightarrow> nat \<Rightarrow> nat list \<times> nat \<Rightarrow> (nat list \<times> nat) res" where
  "twist_step root q i s = (case s of (vals, twist) \<Rightarrow>
     bindr (rd vals i) (\<lambda>v.
     bindr (wr vals i (mod_mul (v mod q) twist q)) (\<lambda>vals'. Inr (vals', mod_mul twist root q))))"

definition twist_loop :: "nat \<Rightarrow> nat \<Rightarrow> nat \<Rightarrow> nat list \<Rightarrow> nat list res" where
  "twist_loop root q span vals =
     bindr (foldr_res (twist_step root q) [0..<span] (vals, 1)) (\<lambda>(vals', twist). Inr vals')"

definition ntt_apply_negacyclic_four_step ::
  "nat list \<Rightarrow> nat \<Rightarrow> nat \<Rightarrow> nat \<Rightarrow> bool \<Rightarrow> nat list res" where
  "ntt_apply_negacyclic_four_step vals span q prime_id invert =
     (if span < 2 \<or> q = 0 \<or> \<not> is_power_of_two span then Inr vals
      else bindr (resolve_negacyclic_roots q span prime_id) (\<lambda>roots.
        if \<not> invert then
          bindr (twist_loop (nr_psi roots) q span vals) (\<lambda>v1.
          bindr (cyclic_ntt_four_step v1 span (nr_omega roots) q False) (\<lambda>v2.
          bit_reverse_permute v2 span))
        else
          bindr (bit_reverse_permute vals span) (\<lambda>v1.
          bindr (cyclic_ntt_four_step v1 span (nr_omega_inv roots) q True) (\<lambda>v2.
          twist_loop (nr_psi_inv roots) q span v2))))"

definition ntt_apply_dit :: "nat list \<Rightarrow> nat \<Rightarrow> nat \<Rightarrow> nat \<Rightarrow> bool \<Rightarrow> nat list res" where
  "ntt_apply_dit vals span q prime_id invert =
     ntt_apply_negacyclic_four_step vals span q prime_id invert"

definition ntt_apply_dif :: "nat list \<Rightarrow> nat \<Rightarrow> nat \<Rightarrow> nat \<Rightarrow> bool \<Rightarrow> nat list res" where
  "ntt_apply_dif vals span q prime_id invert =
     ntt_apply_negacyclic_four_step vals span q prime_id invert"

end
