(* ===== verification/HlsDft.thy ===== *)
theory HlsDft
  imports HlsNtt
begin

text \<open>
  The four-step transform computes the discrete Fourier transform: the sums behind the lane
  transform, one lemma per stage, and their composition, for any root whose order divides the span.
\<close>

declare One_nat_def [simp del]

section \<open>Loops over arrays\<close>

lemma bindr_return [simp]: "bindr m Inr = m"
  by (cases m) simp_all

lemma foldr_res_range:
  assumes "I 0 s" "\<And>i s. i < n \<Longrightarrow> I i s \<Longrightarrow> \<exists>s'. f i s = Inr s' \<and> I (Suc i) s'"
  shows "\<exists>s'. foldr_res f [0..<n] s = Inr s' \<and> I n s'"
  using assms(2)
proof (induction n)
  case 0
  then show ?case using assms(1) by simp
next
  case (Suc n)
  then obtain s' where "foldr_res f [0..<n] s = Inr s'" "I n s'" by fastforce
  with Suc.prems [of n s'] show ?case by (auto simp: foldr_res_append)
qed

text \<open>A loop that stores computed values at distinct positions.\<close>

lemma scatter:
  assumes "\<And>k. k < n \<Longrightarrow> f k = Inr (g k)" "\<And>k. k < n \<Longrightarrow> p k < length s" "inj_on p {..<n}"
  shows "\<exists>s'. foldr_res (\<lambda>k s. bindr (f k) (\<lambda>v. wr s (p k) v)) [0..<n] s = Inr s' \<and>
    length s' = length s \<and> (\<forall>k < n. s' ! p k = g k) \<and>
    (\<forall>i. (\<forall>k < n. i \<noteq> p k) \<longrightarrow> s' ! i = s ! i)"
proof (rule foldr_res_range)
  fix m t
  assume m: "m < n" and I: "length t = length s \<and> (\<forall>k < m. t ! p k = g k) \<and>
    (\<forall>i. (\<forall>k < m. i \<noteq> p k) \<longrightarrow> t ! i = s ! i)"
  have "p k \<noteq> p m" "p m \<noteq> p k" if "k < m" for k
    using inj_onD [OF assms(3), of k m] m that by auto
  then show "\<exists>t'. bindr (f m) (\<lambda>v. wr t (p m) v) = Inr t' \<and> length t' = length s \<and>
      (\<forall>k < Suc m. t' ! p k = g k) \<and> (\<forall>i. (\<forall>k < Suc m. i \<noteq> p k) \<longrightarrow> t' ! i = s ! i)"
    using assms(1,2) [OF m] I by (auto simp: nth_list_update less_Suc_eq)
qed simp

lemma row_index_inject:
  fixes C :: nat
  assumes "k < C" "l < C"
  shows "a * C + k = b * C + l \<longleftrightarrow> a = b \<and> k = l"
proof
  assume e: "a * C + k = b * C + l"
  have "(a * C + k) div C = a" "(b * C + l) div C = b" using assms by simp_all
  with e have "a = b" by simp
  with e show "a = b \<and> k = l" by simp
qed simp

lemma row_index_less: "a < R \<Longrightarrow> k < C \<Longrightarrow> a * C + k < R * (C :: nat)"
  using mult_le_mono1 [of "Suc a" R C] by simp

lemma col_index_less: "k < C \<Longrightarrow> a < R \<Longrightarrow> k + C * a < R * (C :: nat)"
  using row_index_less [of a R k C] by (simp add: ac_simps)

section \<open>Sums modulo \<open>q\<close>\<close>

lemma sum_mod_cong:
  "(\<And>i. i \<in> A \<Longrightarrow> f i mod q = g i mod (q :: nat)) \<Longrightarrow> (\<Sum>i\<in>A. f i) mod q = (\<Sum>i\<in>A. g i) mod q"
  by (subst (1 2) mod_sum_eq [symmetric]) (simp cong: sum.cong)

lemma mult_mod_cong: "a mod q = b mod q \<Longrightarrow> c mod q = d mod q \<Longrightarrow> a * c mod q = b * d mod (q :: nat)"
  by (rule mod_mult_cong)

text \<open>The transform of \<open>x\<close> at frequency \<open>k\<close>.\<close>

definition dft :: "nat \<Rightarrow> nat \<Rightarrow> nat \<Rightarrow> (nat \<Rightarrow> nat) \<Rightarrow> nat \<Rightarrow> nat" where
  "dft q w n x k = (\<Sum>j<n. x j * w ^ (k * j)) mod q"

lemma dft_cong_mod:
  assumes "\<And>j. j < n \<Longrightarrow> x j mod q = y j mod q"
  shows "dft q w n x k = dft q w n y k"
  unfolding dft_def by (rule sum_mod_cong) (auto intro!: mod_mult_cong assms)

lemma dft_root_mod: "dft q (w mod q) n x k = dft q w n x k"
  unfolding dft_def by (rule sum_mod_cong) (rule mod_mult_cong, auto simp: power_mod)

section \<open>The lane transform\<close>

lemma dft_terms:
  assumes "1 < q" "q \<le> 2 ^ 63" "m \<le> length input"
  shows "foldr_res (dft_term input step q) [0..<m] (0, 1) =
    Inr ((\<Sum>j<m. input ! j * step ^ j) mod q, step ^ m mod q)"
  using assms(3)
proof (induction m)
  case 0
  then show ?case using assms(1) by simp
next
  case (Suc m)
  have s: "(S mod q + x * (step ^ m mod q) mod q) mod q = (S + x * step ^ m) mod q" for S x
    by (metis mod_add_eq mod_mult_right_eq)
  have t: "step ^ m mod q * step mod q = step ^ Suc m mod q"
    by (simp add: mod_mult_left_eq mod_mult_right_eq mult.commute)
  show ?case
    using Suc assms(1,2)
    by (simp add: foldr_res_append dft_term_def [of _ _ _ m] mod_add_val s t del: power_Suc)
qed

lemma small_cyclic_dft_eq:
  assumes "1 < q" "q \<le> 2 ^ 63" "len \<le> length input" "len \<le> length out"
  shows "small_cyclic_dft input out len root q =
    Inr (List.map (dft q root len ((!) input)) [0..<len] @ drop len out)"
proof (cases "len = 0")
  case False
  have "dft_output input len root q k out = wr out k (dft q root len ((!) input) k)" for k out
  proof -
    have "(\<Sum>j<len. input ! j * (root ^ k mod q) ^ j) mod q = dft q root len ((!) input) k"
      unfolding dft_def
      by (rule sum_mod_cong) (rule mod_mult_cong, simp_all add: power_mod flip: power_mult)
    then show ?thesis
      using assms(1) by (simp add: dft_output_def mod_pow_eq dft_terms [OF assms(1-3)] Let_def)
  qed
  then have "foldr_res (dft_output input len root q) [0..<len] out =
      foldr_res (\<lambda>k ys. wr ys k (dft q root len ((!) input) k)) [0..<len] out"
    by (intro foldr_res_cong) simp
  then show ?thesis using False assms(4) by (simp add: small_cyclic_dft_def store_loop)
qed (simp add: small_cyclic_dft_def)

section \<open>The stages\<close>

lemma stage1_row_ok:
  assumes q: "1 < q" "q \<le> 2 ^ 63" and C: "C \<le> 16" "n1 * C + C \<le> length s"
    and v: "\<And>n2. n2 < C \<Longrightarrow> n1 + R * n2 < length vals"
  shows "\<exists>s'. stage1_row vals R C root q n1 s = Inr s' \<and> length s' = length s \<and>
    (\<forall>k < C. s' ! (n1 * C + k) = dft q root C (\<lambda>n2. vals ! (n1 + R * n2)) k) \<and>
    (\<forall>i. (\<forall>k < C. i \<noteq> n1 * C + k) \<longrightarrow> s' ! i = s ! i)"
proof -
  let ?lane = "List.map (\<lambda>n2. vals ! (n1 + R * n2) mod q) [0..<C] @ drop C (replicate kMaxFourStepSide 0)"
  let ?d = "dft q root C (\<lambda>n2. vals ! (n1 + R * n2))"
  have "foldr_res (\<lambda>n2 lane. bindr (rd vals (n1 + R * n2)) (\<lambda>v. wr lane n2 (v mod q))) [0..<C]
      (replicate kMaxFourStepSide 0) =
    foldr_res (\<lambda>n2 lane. wr lane n2 (vals ! (n1 + R * n2) mod q)) [0..<C] (replicate kMaxFourStepSide 0)"
    using v by (intro foldr_res_cong) simp
  then have lane: "foldr_res (\<lambda>n2 lane. bindr (rd vals (n1 + R * n2)) (\<lambda>v. wr lane n2 (v mod q))) [0..<C]
      (replicate kMaxFourStepSide 0) = Inr ?lane"
    using C(1) by (simp add: store_loop kMaxFourStepSide_def)
  have d: "dft q root C ((!) ?lane) = ?d"
    by (rule ext, rule dft_cong_mod) (simp add: nth_append)
  have "\<exists>s'. foldr_res (\<lambda>k2 s. bindr (rd (List.map ?d [0..<C] @ drop C (replicate kMaxFourStepSide 0)) k2)
        (\<lambda>v. wr s (n1 * C + k2) v)) [0..<C] s = Inr s' \<and> length s' = length s \<and>
      (\<forall>k < C. s' ! (n1 * C + k) = ?d k) \<and> (\<forall>i. (\<forall>k < C. i \<noteq> n1 * C + k) \<longrightarrow> s' ! i = s ! i)"
    using C(2) by (intro scatter) (auto simp: rd_def nth_append inj_on_def)
  moreover have "small_cyclic_dft ?lane (replicate kMaxFourStepSide 0) C root q =
      Inr (List.map ?d [0..<C] @ drop C (replicate kMaxFourStepSide 0))"
    unfolding d [symmetric] using C(1) q
    by (intro small_cyclic_dft_eq) (simp_all add: kMaxFourStepSide_def)
  ultimately show ?thesis unfolding stage1_row_def lane bindr_simps by simp
qed

lemma stage1_ok:
  assumes q: "1 < q" "q \<le> 2 ^ 63" and C: "C \<le> 16" "R * C \<le> length s" "R * C \<le> length vals"
  shows "\<exists>s'. foldr_res (stage1_row vals R C root q) [0..<R] s = Inr s' \<and> length s' = length s \<and>
    (\<forall>a < R. \<forall>k < C. s' ! (a * C + k) = dft q root C (\<lambda>n2. vals ! (a + R * n2)) k)"
proof (rule foldr_res_range [where I = "\<lambda>n t. length t = length s \<and>
    (\<forall>a < n. \<forall>k < C. t ! (a * C + k) = dft q root C (\<lambda>n2. vals ! (a + R * n2)) k)"])
  fix n1 t
  assume n: "n1 < R" and I: "length t = length s \<and>
    (\<forall>a < n1. \<forall>k < C. t ! (a * C + k) = dft q root C (\<lambda>n2. vals ! (a + R * n2)) k)"
  have "n1 * C + C \<le> R * C" using n mult_le_mono1 [of "Suc n1" R C] by simp
  then have l: "n1 * C + C \<le> length t" using I C(2) by simp
  have v: "n1 + R * n2 < length vals" if "n2 < C" for n2
    using col_index_less [OF n that] C(3) by (simp add: mult.commute)
  obtain t' where t': "stage1_row vals R C root q n1 t = Inr t'" "length t' = length t"
    "\<forall>k < C. t' ! (n1 * C + k) = dft q root C (\<lambda>n2. vals ! (n1 + R * n2)) k"
    "\<forall>i. (\<forall>k < C. i \<noteq> n1 * C + k) \<longrightarrow> t' ! i = t ! i"
    using stage1_row_ok [OF q C(1) l v] by blast
  have "t' ! (a * C + k) = t ! (a * C + k)" if "a < n1" "k < C" for a k
    using t'(4) that by (simp add: row_index_inject)
  with t' I show "\<exists>t'. stage1_row vals R C root q n1 t = Inr t' \<and> length t' = length s \<and>
    (\<forall>a < Suc n1. \<forall>k < C. t' ! (a * C + k) = dft q root C (\<lambda>n2. vals ! (a + R * n2)) k)"
    by (auto simp: less_Suc_eq)
qed simp

lemma stage2_row_ok:
  assumes q: "1 < q" and C: "n1 * C + C \<le> length s"
  shows "\<exists>s'. stage2_row C w q n1 s = Inr s' \<and> length s' = length s \<and>
    (\<forall>k < C. s' ! (n1 * C + k) = s ! (n1 * C + k) * w ^ (n1 * k) mod q) \<and>
    (\<forall>i. (\<forall>k < C. i \<noteq> n1 * C + k) \<longrightarrow> s' ! i = s ! i)"
proof -
  define step where "step = w ^ n1 mod q"
  have "\<exists>r. foldr_res (stage2_entry C step q n1) [0..<C] (s, 1) = Inr r \<and>
    (length (fst r) = length s \<and> snd r = w ^ (n1 * C) mod q \<and>
     (\<forall>k < C. fst r ! (n1 * C + k) = s ! (n1 * C + k) * w ^ (n1 * k) mod q) \<and>
     (\<forall>i. (\<forall>k < C. i \<noteq> n1 * C + k) \<longrightarrow> fst r ! i = s ! i))"
  proof (rule foldr_res_range [where I = "\<lambda>n t. length (fst t) = length s \<and>
      snd t = w ^ (n1 * n) mod q \<and>
      (\<forall>k < n. fst t ! (n1 * C + k) = s ! (n1 * C + k) * w ^ (n1 * k) mod q) \<and>
      (\<forall>i. (\<forall>k < n. i \<noteq> n1 * C + k) \<longrightarrow> fst t ! i = s ! i)"])
    fix k t
    assume k: "k < C" and I: "length (fst t) = length s \<and> snd t = w ^ (n1 * k) mod q \<and>
     (\<forall>j < k. fst t ! (n1 * C + j) = s ! (n1 * C + j) * w ^ (n1 * j) mod q) \<and>
     (\<forall>i. (\<forall>j < k. i \<noteq> n1 * C + j) \<longrightarrow> fst t ! i = s ! i)"
    obtain t1 tw where t: "t = (t1, tw)" by (cases t)
    have "w ^ (n1 * k) mod q * step mod q = w ^ (n1 * Suc k) mod q"
      by (simp add: step_def mod_mult_eq power_add mult.commute)
    moreover have "n1 * C + k < length t1" using k C I t by simp
    ultimately show "\<exists>t'. stage2_entry C step q n1 k t = Inr t' \<and> length (fst t') = length s \<and>
        snd t' = w ^ (n1 * Suc k) mod q \<and>
        (\<forall>j < Suc k. fst t' ! (n1 * C + j) = s ! (n1 * C + j) * w ^ (n1 * j) mod q) \<and>
        (\<forall>i. (\<forall>j < Suc k. i \<noteq> n1 * C + j) \<longrightarrow> fst t' ! i = s ! i)"
      using I q by (auto simp: t stage2_entry_def Let_def nth_list_update less_Suc_eq mod_mult_right_eq)
  qed (use q in simp)
  then show ?thesis
    using q by (auto simp: stage2_row_def mod_pow_eq step_def)
qed

lemma stage2_ok:
  assumes q: "1 < q" and C: "R * C \<le> length s"
  shows "\<exists>s'. foldr_res (stage2_row C w q) [0..<R] s = Inr s' \<and> (length s' = length s \<and>
    (\<forall>a < R. \<forall>k < C. s' ! (a * C + k) = s ! (a * C + k) * w ^ (a * k) mod q) \<and>
    (\<forall>a k. R \<le> a \<longrightarrow> k < C \<longrightarrow> s' ! (a * C + k) = s ! (a * C + k)))"
proof (rule foldr_res_range [where I = "\<lambda>n t. length t = length s \<and>
    (\<forall>a < n. \<forall>k < C. t ! (a * C + k) = s ! (a * C + k) * w ^ (a * k) mod q) \<and>
    (\<forall>a k. n \<le> a \<longrightarrow> k < C \<longrightarrow> t ! (a * C + k) = s ! (a * C + k))"])
  fix n1 t
  assume n: "n1 < R" and I: "length t = length s \<and>
    (\<forall>a < n1. \<forall>k < C. t ! (a * C + k) = s ! (a * C + k) * w ^ (a * k) mod q) \<and>
    (\<forall>a k. n1 \<le> a \<longrightarrow> k < C \<longrightarrow> t ! (a * C + k) = s ! (a * C + k))"
  have "n1 * C + C \<le> R * C" using n mult_le_mono1 [of "Suc n1" R C] by simp
  then have l: "n1 * C + C \<le> length t" using I C by simp
  obtain t' where t': "stage2_row C w q n1 t = Inr t'" "length t' = length t"
    "\<forall>k < C. t' ! (n1 * C + k) = t ! (n1 * C + k) * w ^ (n1 * k) mod q"
    "\<forall>i. (\<forall>k < C. i \<noteq> n1 * C + k) \<longrightarrow> t' ! i = t ! i"
    using stage2_row_ok [OF q l] by blast
  have "t' ! (a * C + k) = t ! (a * C + k)" if "a \<noteq> n1" "k < C" for a k
    using t'(4) that by (simp add: row_index_inject)
  with t' I show "\<exists>t'. stage2_row C w q n1 t = Inr t' \<and> length t' = length s \<and>
    (\<forall>a < Suc n1. \<forall>k < C. t' ! (a * C + k) = s ! (a * C + k) * w ^ (a * k) mod q) \<and>
    (\<forall>a k. Suc n1 \<le> a \<longrightarrow> k < C \<longrightarrow> t' ! (a * C + k) = s ! (a * C + k))"
    by (auto simp: less_Suc_eq)
qed simp

lemma stage3_row_ok:
  assumes "n1 < R" "R * C \<le> length s1" "R * C \<le> length s"
  shows "\<exists>s'. stage3_row s1 R C n1 s = Inr s' \<and> length s' = length s \<and>
    (\<forall>k < C. s' ! (k * R + n1) = s1 ! (n1 * C + k)) \<and>
    (\<forall>i. (\<forall>k < C. i \<noteq> k * R + n1) \<longrightarrow> s' ! i = s ! i)"
  unfolding stage3_row_def
proof (rule scatter)
  fix k
  assume k: "k < C"
  then show "rd s1 (n1 * C + k) = Inr (s1 ! (n1 * C + k))"
    using row_index_less [OF assms(1) k] assms(2) by simp
  show "k * R + n1 < length s"
    using row_index_less [OF k assms(1)] assms(3) by (simp add: mult.commute)
qed (use assms(1) in \<open>auto simp: inj_on_def row_index_inject\<close>)

lemma stage3_ok:
  assumes "R * C \<le> length s1" "R * C \<le> length s"
  shows "\<exists>s'. foldr_res (stage3_row s1 R C) [0..<R] s = Inr s' \<and> (length s' = length s \<and>
    (\<forall>a < R. \<forall>k < C. s' ! (k * R + a) = s1 ! (a * C + k)))"
proof (rule foldr_res_range [where I = "\<lambda>n t. length t = length s \<and>
    (\<forall>a < n. \<forall>k < C. t ! (k * R + a) = s1 ! (a * C + k))"])
  fix n1 t
  assume n: "n1 < R" and I: "length t = length s \<and> (\<forall>a < n1. \<forall>k < C. t ! (k * R + a) = s1 ! (a * C + k))"
  have l: "R * C \<le> length t" using I assms(2) by simp
  obtain t' where t': "stage3_row s1 R C n1 t = Inr t'" "length t' = length t"
    "\<forall>k < C. t' ! (k * R + n1) = s1 ! (n1 * C + k)"
    "\<forall>i. (\<forall>k < C. i \<noteq> k * R + n1) \<longrightarrow> t' ! i = t ! i"
    using stage3_row_ok [OF n assms(1) l] by blast
  have "t' ! (k * R + a) = t ! (k * R + a)" if "a < n1" "k < C" for a k
    using t'(4) that n by (simp add: row_index_inject)
  with t' I show "\<exists>t'. stage3_row s1 R C n1 t = Inr t' \<and> length t' = length s \<and>
      (\<forall>a < Suc n1. \<forall>k < C. t' ! (k * R + a) = s1 ! (a * C + k))"
    by (auto simp: less_Suc_eq)
qed simp

lemma stage4_col_ok:
  assumes q: "1 < q" "q \<le> 2 ^ 63" and R: "R \<le> 16" "k2 < C" "R * C \<le> length s2" "R * C \<le> length s"
  shows "\<exists>s'. stage4_col s2 R C root q k2 s = Inr s' \<and> length s' = length s \<and>
    (\<forall>k < R. s' ! (k2 + C * k) = dft q root R (\<lambda>n1. s2 ! (k2 * R + n1)) k) \<and>
    (\<forall>i. (\<forall>k < R. i \<noteq> k2 + C * k) \<longrightarrow> s' ! i = s ! i)"
proof -
  let ?z = "replicate kMaxFourStepSide (0 :: nat)"
  let ?lane = "List.map (\<lambda>n1. s2 ! (k2 * R + n1)) [0..<R] @ drop R ?z"
  let ?d = "dft q root R (\<lambda>n1. s2 ! (k2 * R + n1))"
  have b: "k2 * R + n1 < length s2" if "n1 < R" for n1
    using row_index_less [OF R(2) that] R(3) by (simp add: mult.commute)
  have "foldr_res (\<lambda>n1 lane. bindr (rd s2 (k2 * R + n1)) (\<lambda>v. wr lane n1 v)) [0..<R] ?z =
      foldr_res (\<lambda>n1 lane. wr lane n1 (s2 ! (k2 * R + n1))) [0..<R] ?z"
    using b by (intro foldr_res_cong) simp
  then have lane: "foldr_res (\<lambda>n1 lane. bindr (rd s2 (k2 * R + n1)) (\<lambda>v. wr lane n1 v)) [0..<R] ?z =
      Inr ?lane"
    using R(1) by (simp add: store_loop kMaxFourStepSide_def)
  have d: "dft q root R ((!) ?lane) = ?d"
    by (rule ext, rule dft_cong_mod) (simp add: nth_append)
  have "\<exists>s'. foldr_res (\<lambda>k1 s. bindr (rd (List.map ?d [0..<R] @ drop R ?z) k1)
        (\<lambda>v. wr s (k2 + C * k1) v)) [0..<R] s = Inr s' \<and> length s' = length s \<and>
      (\<forall>k < R. s' ! (k2 + C * k) = ?d k) \<and> (\<forall>i. (\<forall>k < R. i \<noteq> k2 + C * k) \<longrightarrow> s' ! i = s ! i)"
  proof (rule scatter)
    show "inj_on (\<lambda>k. k2 + C * k) {..<R}" using R(2) by (auto simp: inj_on_def)
    show "k2 + C * k < length s" if "k < R" for k
      using col_index_less [OF R(2) that] R(4) by simp
  qed (auto simp: rd_def nth_append)
  moreover have "small_cyclic_dft ?lane ?z R root q = Inr (List.map ?d [0..<R] @ drop R ?z)"
    unfolding d [symmetric] using R(1) q
    by (intro small_cyclic_dft_eq) (simp_all add: kMaxFourStepSide_def)
  ultimately show ?thesis unfolding stage4_col_def lane bindr_simps by simp
qed

lemma stage4_ok:
  assumes q: "1 < q" "q \<le> 2 ^ 63" and R: "R \<le> 16" "R * C \<le> length s2" "R * C \<le> length s"
  shows "\<exists>s'. foldr_res (stage4_col s2 R C root q) [0..<C] s = Inr s' \<and> (length s' = length s \<and>
    (\<forall>a < C. \<forall>k < R. s' ! (a + C * k) = dft q root R (\<lambda>n1. s2 ! (a * R + n1)) k) \<and>
    (\<forall>i \<ge> R * C. s' ! i = s ! i))"
proof (rule foldr_res_range [where I = "\<lambda>n t. length t = length s \<and>
    (\<forall>a < n. \<forall>k < R. t ! (a + C * k) = dft q root R (\<lambda>n1. s2 ! (a * R + n1)) k) \<and>
    (\<forall>i \<ge> R * C. t ! i = s ! i)"])
  fix n t
  assume n: "n < C" and I: "length t = length s \<and>
    (\<forall>a < n. \<forall>k < R. t ! (a + C * k) = dft q root R (\<lambda>n1. s2 ! (a * R + n1)) k) \<and>
    (\<forall>i \<ge> R * C. t ! i = s ! i)"
  have l: "R * C \<le> length t" using I R(3) by simp
  obtain t' where t': "stage4_col s2 R C root q n t = Inr t'" "length t' = length t"
    "\<forall>k < R. t' ! (n + C * k) = dft q root R (\<lambda>n1. s2 ! (n * R + n1)) k"
    "\<forall>i. (\<forall>k < R. i \<noteq> n + C * k) \<longrightarrow> t' ! i = t ! i"
    using stage4_col_ok [OF q R(1) n R(2) l] by blast
  have "t' ! (a + C * k) = t ! (a + C * k)" if "a < n" "k < R" for a k
  proof -
    have "a + C * k \<noteq> n + C * l" for l
      using row_index_inject [of a C n k l] that n by (simp add: add.commute mult.commute)
    then show ?thesis using t'(4) by blast
  qed
  moreover have "t' ! i = t ! i" if "R * C \<le> i" for i
    using t'(4) that col_index_less [OF n] by (metis not_le)
  ultimately show "\<exists>t'. stage4_col s2 R C root q n t = Inr t' \<and> length t' = length s \<and>
    (\<forall>a < Suc n. \<forall>k < R. t' ! (a + C * k) = dft q root R (\<lambda>n1. s2 ! (a * R + n1)) k) \<and>
    (\<forall>i \<ge> R * C. t' ! i = s ! i)"
    using t' I by (auto simp: less_Suc_eq)
qed simp

section \<open>Composition\<close>

lemma sum_grid: "(\<Sum>j<R * C. f j) = (\<Sum>a<R. \<Sum>b<C. f (a + R * b :: nat) :: nat)"
proof -
  have "(\<Sum>j<C * R. f j) = (\<Sum>b<C. \<Sum>j = b * R..<b * R + R. f j)"
    by (rule sum.nat_group [symmetric])
  also have "\<dots> = (\<Sum>b<C. \<Sum>a<R. f (a + R * b))"
    by (rule sum.cong [OF refl])
       (simp add: sum.shift_bounds_nat_ivl [of f 0 _ R, simplified] atLeast0LessThan ac_simps)
  also have "\<dots> = (\<Sum>a<R. \<Sum>b<C. f (a + R * b))" by (rule sum.swap)
  finally show ?thesis by (simp add: mult.commute)
qed

text \<open>The exponents of the two passes and of the middle twiddle add up to the full product.\<close>

lemma four_step_exponent:
  fixes w q :: nat
  assumes "w ^ (R * C) mod q = 1 mod q"
  shows "w ^ ((k2 + C * k1) * (a + R * b)) mod q =
    (w ^ R) ^ (k2 * b) * w ^ (a * k2) * (w ^ C) ^ (k1 * a) mod q"
proof -
  have "(k2 + C * k1) * (a + R * b) = R * (k2 * b) + a * k2 + C * (k1 * a) + R * C * (k1 * b)"
    by (simp add: algebra_simps)
  then have "w ^ ((k2 + C * k1) * (a + R * b)) =
      (w ^ R) ^ (k2 * b) * w ^ (a * k2) * (w ^ C) ^ (k1 * a) * (w ^ (R * C)) ^ (k1 * b)"
    by (simp only: power_add power_mult)
  moreover have "(w ^ (R * C)) ^ (k1 * b) mod q = 1 mod q"
    by (metis assms power_mod power_one)
  ultimately show ?thesis by (metis mod_mult_right_eq mult_1_right)
qed

lemma four_step_dft:
  assumes w: "w ^ (R * C) mod q = 1 mod q"
  shows "dft q (w ^ C) R (\<lambda>a. dft q (w ^ R) C (\<lambda>b. x (a + R * b)) k2 * w ^ (a * k2) mod q) k1 =
    dft q w (R * C) x (k2 + C * k1)"
proof -
  have "dft q (w ^ C) R (\<lambda>a. dft q (w ^ R) C (\<lambda>b. x (a + R * b)) k2 * w ^ (a * k2) mod q) k1 =
      (\<Sum>a<R. \<Sum>b<C. x (a + R * b) * w ^ ((k2 + C * k1) * (a + R * b))) mod q"
    unfolding dft_def [of q "w ^ C"]
  proof (rule sum_mod_cong)
    fix a
    let ?g = "w ^ (a * k2)" and ?h = "(w ^ C) ^ (k1 * a)"
    have "dft q (w ^ R) C (\<lambda>b. x (a + R * b)) k2 * ?g mod q * ?h mod q =
        (\<Sum>b<C. x (a + R * b) * (w ^ R) ^ (k2 * b)) * ?g * ?h mod q"
      by (simp add: dft_def mod_mult_left_eq)
    also have "\<dots> = (\<Sum>b<C. x (a + R * b) * ((w ^ R) ^ (k2 * b) * ?g * ?h)) mod q"
      by (simp add: sum_distrib_right mult.assoc)
    also have "\<dots> = (\<Sum>b<C. x (a + R * b) * w ^ ((k2 + C * k1) * (a + R * b))) mod q"
      by (rule sum_mod_cong, rule mod_mult_cong) (simp_all add: four_step_exponent [OF w])
    finally show "dft q (w ^ R) C (\<lambda>b. x (a + R * b)) k2 * ?g mod q * ?h mod q =
      (\<Sum>b<C. x (a + R * b) * w ^ ((k2 + C * k1) * (a + R * b))) mod q" .
  qed
  then show ?thesis by (simp add: dft_def [of q w] sum_grid)
qed

section \<open>The whole transform\<close>

lemma four_step_stages_ok:
  assumes q: "1 < q" "q \<le> 2 ^ 63" and b: "R \<le> 16" "C \<le> 16" "R * C \<le> 128" "R * C \<le> length vals"
    and w: "w ^ (R * C) mod q = 1"
  shows "\<exists>v. four_step_stages vals R C w q = Inr v \<and> length v = length vals \<and>
    (\<forall>k < R * C. v ! k = dft q w (R * C) ((!) vals) k) \<and> (\<forall>i \<ge> R * C. v ! i = vals ! i)"
proof -
  define z where "z = replicate kMaxSpan (0 :: nat)"
  have z: "R * C \<le> length z" using b(3) by (simp add: z_def kMaxSpan_def)
  have roots: "mod_pow w R q = w ^ R mod q" "mod_pow w C q = w ^ C mod q"
    using q(1) by (simp_all add: mod_pow_eq)
  obtain s1 where s1: "foldr_res (stage1_row vals R C (w ^ R mod q) q) [0..<R] z = Inr s1"
    "length s1 = length z"
    "\<And>a k. a < R \<Longrightarrow> k < C \<Longrightarrow>
      s1 ! (a * C + k) = dft q (w ^ R) C (\<lambda>n2. vals ! (a + R * n2)) k"
    using stage1_ok [OF q b(2) z b(4), of "w ^ R mod q"] by (auto simp: dft_root_mod)
  have l1: "R * C \<le> length s1" using s1(2) z by simp
  obtain s2 where s2: "foldr_res (stage2_row C w q) [0..<R] s1 = Inr s2" "length s2 = length s1"
    "\<And>a k. a < R \<Longrightarrow> k < C \<Longrightarrow> s2 ! (a * C + k) = s1 ! (a * C + k) * w ^ (a * k) mod q"
    using stage2_ok [OF q(1) l1, of w] by blast
  have l2: "R * C \<le> length s2" using s2(2) l1 by simp
  obtain s3 where s3: "foldr_res (stage3_row s2 R C) [0..<R] z = Inr s3" "length s3 = length z"
    "\<And>a k. a < R \<Longrightarrow> k < C \<Longrightarrow> s3 ! (k * R + a) = s2 ! (a * C + k)"
    using stage3_ok [OF l2 z] by blast
  have l3: "R * C \<le> length s3" using s3(2) z by simp
  obtain v where v: "foldr_res (stage4_col s3 R C (w ^ C mod q) q) [0..<C] vals = Inr v"
    "length v = length vals"
    "\<And>a k. a < C \<Longrightarrow> k < R \<Longrightarrow> v ! (a + C * k) = dft q (w ^ C) R (\<lambda>n1. s3 ! (a * R + n1)) k"
    "\<And>i. R * C \<le> i \<Longrightarrow> v ! i = vals ! i"
    using stage4_ok [OF q b(1) l3 b(4), of "w ^ C mod q"] by (auto simp: dft_root_mod)
  have "v ! k = dft q w (R * C) ((!) vals) k" if k: "k < R * C" for k
  proof -
    have C: "0 < C" using k by (cases C) simp_all
    define c k1 where "c = k mod C" and "k1 = k div C"
    have ck: "k = c + C * k1" "c < C" "k1 < R"
      using C k by (simp_all add: c_def k1_def less_mult_imp_div_less)
    have "v ! k = dft q (w ^ C) R (\<lambda>a. dft q (w ^ R) C (\<lambda>b. vals ! (a + R * b)) c * w ^ (a * c) mod q) k1"
      unfolding ck(1) v(3) [OF ck(2,3)]
      by (rule dft_cong_mod) (simp add: s3(3) s2(3) s1(3) ck(2))
    also have "\<dots> = dft q w (R * C) ((!) vals) k"
      unfolding ck(1) using w q(1) by (intro four_step_dft) simp
    finally show ?thesis .
  qed
  then show ?thesis
    using s1(1) s2(1) s3(1) v(1,2,4)
    by (simp add: four_step_stages_def Let_def roots z_def [symmetric])
qed

lemma ctz_power: "ctz (2 ^ L) = L"
proof (induction L)
  case (Suc L)
  then show ?case by (subst ctz.simps) simp
qed (simp add: ctz.simps)

lemma four_step_shape:
  assumes "L \<le> 7"
  shows "choose_four_step_shape (2 ^ L) = (2 ^ (L div 2), 2 ^ (L - L div 2))"
    and "2 ^ (L div 2) * 2 ^ (L - L div 2) = (2 :: nat) ^ L"
    and "(2 :: nat) ^ (L div 2) \<le> 16" "(2 :: nat) ^ (L - L div 2) \<le> 16" "(2 :: nat) ^ L \<le> 128"
proof -
  show "choose_four_step_shape (2 ^ L) = (2 ^ (L div 2), 2 ^ (L - L div 2))"
    by (simp add: choose_four_step_shape_def ctz_power Let_def)
  show "2 ^ (L div 2) * 2 ^ (L - L div 2) = (2 :: nat) ^ L" by (simp flip: power_add)
  have p: "m \<le> 4 \<Longrightarrow> (2 :: nat) ^ m \<le> 16" for m
    using power_increasing [of m 4 "2 :: nat"] by simp
  show "(2 :: nat) ^ (L div 2) \<le> 16" "(2 :: nat) ^ (L - L div 2) \<le> 16"
    using assms by (intro p; simp)+
  show "(2 :: nat) ^ L \<le> 128" using power_increasing [OF assms, of "2 :: nat"] by simp
qed

theorem cyclic_ntt_is_dft:
  assumes "1 < q" "q \<le> 2 ^ 63" "1 \<le> L" "L \<le> 7" "2 ^ L \<le> length vals" "w ^ (2 ^ L) mod q = 1"
  shows "\<exists>v. cyclic_ntt_four_step vals (2 ^ L) w q False = Inr v \<and> length v = length vals \<and>
    (\<forall>k < 2 ^ L. v ! k = dft q w (2 ^ L) ((!) vals) k) \<and> (\<forall>i \<ge> 2 ^ L. v ! i = vals ! i)"
proof -
  note sh = four_step_shape [OF assms(4)]
  have "(2 :: nat) \<le> 2 ^ L" using power_increasing [OF assms(3), of "2 :: nat"] by simp
  then show ?thesis
    using four_step_stages_ok [OF assms(1,2) sh(3,4), unfolded sh(2), OF sh(5) assms(5,6)] sh assms(1)
    by (simp add: cyclic_ntt_four_step_def kMaxSpan_def kMaxFourStepSide_def not_less)
qed

lemma scale_by_inverse_ok:
  assumes "1 < q" "q < 2 ^ 63" "odd q" "2 ^ L < q" "2 ^ L \<le> length vals"
  shows "\<exists>v c. scale_by_inverse (2 ^ L) q vals = Inr v \<and> length v = length vals \<and>
    2 ^ L * c mod q = 1 \<and> (\<forall>k < 2 ^ L. v ! k = vals ! k * c mod q) \<and> (\<forall>i \<ge> 2 ^ L. v ! i = vals ! i)"
proof -
  obtain c where c: "euclid_inverse (2 ^ L mod q) q = Inr c" "c < q" "2 ^ L * c mod q = 1"
    using assms(1-3) by (rule pow2_inverse)
  then have "c \<noteq> 0" by (cases "c = 0") simp_all
  moreover have "mod_inv (2 ^ L) q = Inr c" using c(1) assms(4) by (simp add: mod_inv_def)
  moreover have "\<exists>v. foldr_res (\<lambda>i s. bindr (rd s i) (\<lambda>v. wr s i (mod_mul v c q))) [0..<2 ^ L] vals = Inr v \<and>
      (length v = length vals \<and> (\<forall>k < 2 ^ L. v ! k = vals ! k * c mod q) \<and> (\<forall>i \<ge> 2 ^ L. v ! i = vals ! i))"
  proof (rule foldr_res_range [where I = "\<lambda>n v. length v = length vals \<and>
      (\<forall>k < n. v ! k = vals ! k * c mod q) \<and> (\<forall>i \<ge> n. v ! i = vals ! i)", THEN ex_forward])
    fix n v
    assume "n < 2 ^ L" "length v = length vals \<and> (\<forall>k < n. v ! k = vals ! k * c mod q) \<and> (\<forall>i \<ge> n. v ! i = vals ! i)"
    then show "\<exists>v'. bindr (rd v n) (\<lambda>x. wr v n (mod_mul x c q)) = Inr v' \<and> length v' = length vals \<and>
        (\<forall>k < Suc n. v' ! k = vals ! k * c mod q) \<and> (\<forall>i \<ge> Suc n. v' ! i = vals ! i)"
      using assms(1,5) by (auto simp: less_Suc_eq nth_list_update)
  qed simp_all
  ultimately show ?thesis using c(3) by (auto simp: scale_by_inverse_def)
qed

theorem cyclic_ntt_inverse_scaled:
  assumes "1 < q" "q < 2 ^ 63" "odd q" "2 ^ L < q" "1 \<le> L" "L \<le> 7" "2 ^ L \<le> length vals"
    and "w ^ (2 ^ L) mod q = 1"
  shows "\<exists>v c. cyclic_ntt_four_step vals (2 ^ L) w q True = Inr v \<and> length v = length vals \<and>
    2 ^ L * c mod q = 1 \<and> (\<forall>k < 2 ^ L. v ! k = dft q w (2 ^ L) ((!) vals) k * c mod q) \<and>
    (\<forall>i \<ge> 2 ^ L. v ! i = vals ! i)"
proof -
  have q: "q \<le> 2 ^ 63" using assms(2) by simp
  obtain u where u: "cyclic_ntt_four_step vals (2 ^ L) w q False = Inr u" "length u = length vals"
    "\<forall>k < 2 ^ L. u ! k = dft q w (2 ^ L) ((!) vals) k" "\<forall>i \<ge> 2 ^ L. u ! i = vals ! i"
    using cyclic_ntt_is_dft [OF assms(1) q assms(5-8)] by blast
  have l: "2 ^ L \<le> length u" using u(2) assms(7) by simp
  obtain v c where v: "scale_by_inverse (2 ^ L) q u = Inr v" "length v = length u"
    "2 ^ L * c mod q = 1" "\<forall>k < 2 ^ L. v ! k = u ! k * c mod q" "\<forall>i \<ge> 2 ^ L. v ! i = u ! i"
    using scale_by_inverse_ok [OF assms(1-4) l] by blast
  note sh = four_step_shape [OF assms(6)]
  have "(2 :: nat) \<le> 2 ^ L" using power_increasing [OF assms(5), of "2 :: nat"] by simp
  then have "cyclic_ntt_four_step vals (2 ^ L) w q True =
      bindr (cyclic_ntt_four_step vals (2 ^ L) w q False) (scale_by_inverse (2 ^ L) q)"
    using sh assms(1) by (simp add: cyclic_ntt_four_step_def kMaxSpan_def kMaxFourStepSide_def not_less
        bindr_assoc)
  then show ?thesis using u v by auto
qed

end
