(* ===== verification/HlsNegacyclic.thy ===== *)
theory HlsNegacyclic
  imports HlsDft
begin

unbundle bit_operations_syntax

text \<open>
  The negacyclic transform of the kernels: what its forward direction computes, that the inverse
  direction undoes it, and that the pointwise product of two transforms is the transform of the
  product of the polynomials modulo \<open>X^n + 1\<close>. Only the facts checked of the root table are used:
  no modulus has to be prime.
\<close>

section \<open>Bit reversal\<close>

lemma bit_count_power: "b \<le> L \<Longrightarrow> bit_count_loop (2 ^ L) b = L"
proof (induction "L - b" arbitrary: b)
  case 0
  then show ?case by (subst bit_count_loop.simps) simp
next
  case (Suc d)
  then have "b < L" by simp
  then have "(2 :: nat) ^ b < 2 ^ L" by simp
  then show ?case using Suc by (subst bit_count_loop.simps) simp
qed

lemma bit_reverse_loop:
  assumes "r < 2 ^ (32 - b)" "b \<le> 32"
  shows "bit (reverse_loop b x r) k \<longleftrightarrow> (if k < b then bit x (b - 1 - k) else bit r (k - b))"
  using assms
proof (induction b arbitrary: x r k)
  case (Suc b)
  let ?r = "w32 (r * 2) OR (x AND 1)"
  have "r * 2 < 2 ^ (32 - b)"
  proof -
    have "32 - b = Suc (32 - Suc b)" using Suc.prems(2) by simp
    then show ?thesis using Suc.prems(1) by simp
  qed
  moreover have "(2 :: nat) ^ (32 - b) \<le> 2 ^ 32" by (rule power_increasing) simp_all
  ultimately have "w32 (r * 2) = r * 2" by (intro w32_id) linarith
  moreover have "r * 2 OR (x AND 1) = r * 2 + x mod 2"
    by (cases "even x") (simp_all add: and_one_eq or_one_eq odd_iff_mod_2_eq_one)
  ultimately have r: "?r = r * 2 + x mod 2" by simp
  have even: "even (2 ^ (32 - b) :: nat)" using Suc.prems(2) by simp
  have "?r < 2 ^ (32 - b)" unfolding r using \<open>r * 2 < 2 ^ (32 - b)\<close> even by presburger
  moreover have "bit (r * 2 + x mod 2) m \<longleftrightarrow> (if m = 0 then odd x else bit r (m - 1))" for m
    by (cases m) (simp_all add: bit_0 bit_Suc odd_iff_mod_2_eq_one)
  ultimately have ih: "bit (reverse_loop b (x div 2) ?r) k \<longleftrightarrow>
      (if k < b then bit x (Suc (b - 1 - k)) else if k = b then odd x else bit r (k - b - 1))"
    using Suc.IH [of ?r "x div 2" k] Suc.prems(2) r by (auto simp: bit_Suc)
  have "k < b \<Longrightarrow> Suc (b - 1 - k) = b - k" "k - b - 1 = k - Suc b" by linarith+
  with ih show ?case by (auto simp: bit_0 less_Suc_eq)
qed simp

definition rev_index :: "nat \<Rightarrow> nat \<Rightarrow> nat" where
  "rev_index L i = reverse_loop L i 0"

lemma bit_rev_index: "L \<le> 32 \<Longrightarrow> bit (rev_index L i) k \<longleftrightarrow> k < L \<and> bit i (L - 1 - k)"
  by (simp add: rev_index_def bit_reverse_loop)

lemma rev_index_less: "L \<le> 32 \<Longrightarrow> rev_index L i < 2 ^ L"
proof -
  assume L: "L \<le> 32"
  have "take_bit L (rev_index L i) = rev_index L i"
    by (rule bit_eqI) (auto simp: bit_take_bit_iff bit_rev_index L)
  then show ?thesis by (simp add: take_bit_nat_eq_self_iff)
qed

lemma rev_index_rev_index: "L \<le> 32 \<Longrightarrow> i < 2 ^ L \<Longrightarrow> rev_index L (rev_index L i) = i"
proof -
  assume L: "L \<le> 32" and i: "i < 2 ^ L"
  have "\<not> bit i k" if "L \<le> k" for k
    using i that by (metis bit_take_bit_iff not_le take_bit_nat_eq_self_iff)
  show ?thesis
  proof (rule bit_eqI)
    fix k
    have e: "bit (rev_index L (rev_index L i)) k \<longleftrightarrow>
        k < L \<and> L - 1 - k < L \<and> bit i (L - 1 - (L - 1 - k))"
      by (simp only: bit_rev_index [OF L])
    show "bit (rev_index L (rev_index L i)) k = bit i k"
    proof (cases "k < L")
      case True
      then have "L - 1 - k < L" "L - 1 - (L - 1 - k) = k" by linarith+
      then show ?thesis unfolding e using True by simp
    next
      case False
      then show ?thesis unfolding e using \<open>\<And>k. L \<le> k \<Longrightarrow> \<not> bit i k\<close> by simp
    qed
  qed
qed

lemma power_of_two_ok: "is_power_of_two (2 ^ L)"
proof -
  have "(2 :: nat) ^ L AND mask L = 0"
    by (rule bit_eqI) (auto simp: bit_and_iff bit_exp_iff bit_mask_iff)
  then show ?thesis by (simp add: is_power_of_two_def mask_eq_exp_minus_1)
qed

lemma span_range:
  assumes "1 \<le> L" "L \<le> 7"
  shows "2 \<le> (2 :: nat) ^ L" "(2 :: nat) ^ L \<le> 128"
  using power_increasing [OF assms(1), of "2 :: nat"] power_increasing [OF assms(2), of "2 :: nat"]
  by simp_all

text \<open>The permutation reads every value at its reversed index.\<close>

theorem bit_reverse_permute_ok:
  assumes L: "1 \<le> L" "L \<le> 7" and l: "2 ^ L \<le> length vals"
  shows "bit_reverse_permute vals (2 ^ L) =
    Inr (List.map (\<lambda>k. vals ! rev_index L k) [0..<2 ^ L] @ drop (2 ^ L) vals)"
proof -
  note sp = span_range [OF L]
  have L32: "L \<le> 32" using L(2) by simp
  obtain t where t: "foldr_res (\<lambda>i s. bindr (rd vals i) (\<lambda>v. wr s (rev_index L i) v)) [0..<2 ^ L]
      (replicate kMaxSpan 0) = Inr t" "length t = 128"
    "\<forall>k < 2 ^ L. t ! rev_index L k = vals ! k"
  proof -
    have "\<exists>t. foldr_res (\<lambda>i s. bindr (rd vals i) (\<lambda>v. wr s (rev_index L i) v)) [0..<2 ^ L]
        (replicate kMaxSpan 0) = Inr t \<and> length t = length (replicate kMaxSpan (0 :: nat)) \<and>
        (\<forall>k < 2 ^ L. t ! rev_index L k = vals ! k) \<and>
        (\<forall>i. (\<forall>k < 2 ^ L. i \<noteq> rev_index L k) \<longrightarrow> t ! i = replicate kMaxSpan 0 ! i)"
    proof (rule scatter)
      show "rev_index L k < length (replicate kMaxSpan (0 :: nat))" for k
        using rev_index_less [OF L32, of k] sp(2) by (simp add: kMaxSpan_def)
      show "inj_on (rev_index L) {..<2 ^ L}"
        by (rule inj_on_inverseI [where g = "rev_index L"]) (simp add: rev_index_rev_index L32)
    qed (use l in simp)
    with that show ?thesis by (auto simp: kMaxSpan_def)
  qed
  have tv: "t ! k = vals ! rev_index L k" if "k < 2 ^ L" for k
    using t(3) rev_index_less [OF L32, of k] rev_index_rev_index [OF L32 that] by metis
  have "foldr_res (\<lambda>i s. bindr (rd t i) (\<lambda>v. wr s i v)) [0..<2 ^ L] vals =
      foldr_res (\<lambda>i s. wr s i (vals ! rev_index L i)) [0..<2 ^ L] vals"
    using sp(2) by (intro foldr_res_cong) (simp add: tv t(2))
  then have "foldr_res (\<lambda>i s. bindr (rd t i) (\<lambda>v. wr s i v)) [0..<2 ^ L] vals =
      Inr (List.map (\<lambda>k. vals ! rev_index L k) [0..<2 ^ L] @ drop (2 ^ L) vals)"
    using l by (simp add: store_loop)
  then show ?thesis
    using sp t(1) by (simp add: bit_reverse_permute_def power_of_two_ok kMaxSpan_def not_less
        bit_count_power rev_index_def Let_def)
qed

section \<open>Twisting\<close>

theorem twist_loop_ok:
  assumes "1 < q" "n \<le> length vals"
  shows "twist_loop root q n vals =
    Inr (List.map (\<lambda>i. vals ! i * root ^ i mod q) [0..<n] @ drop n vals)"
proof -
  have "\<exists>r. foldr_res (twist_step root q) [0..<n] (vals, 1) = Inr r \<and>
      (length (fst r) = length vals \<and> snd r = root ^ n mod q \<and>
       (\<forall>i < n. fst r ! i = vals ! i * root ^ i mod q) \<and> (\<forall>i \<ge> n. fst r ! i = vals ! i))"
  proof (rule foldr_res_range [where I = "\<lambda>n r. length (fst r) = length vals \<and> snd r = root ^ n mod q \<and>
       (\<forall>i < n. fst r ! i = vals ! i * root ^ i mod q) \<and> (\<forall>i \<ge> n. fst r ! i = vals ! i)"])
    fix m r
    assume m: "m < n" and I: "length (fst r) = length vals \<and> snd r = root ^ m mod q \<and>
       (\<forall>i < m. fst r ! i = vals ! i * root ^ i mod q) \<and> (\<forall>i \<ge> m. fst r ! i = vals ! i)"
    obtain t tw where r: "r = (t, tw)" by (cases r)
    have "root ^ m mod q * root mod q = root ^ Suc m mod q"
      by (simp add: mod_mult_left_eq mod_mult_right_eq mult.commute)
    then show "\<exists>r'. twist_step root q m r = Inr r' \<and> length (fst r') = length vals \<and>
        snd r' = root ^ Suc m mod q \<and> (\<forall>i < Suc m. fst r' ! i = vals ! i * root ^ i mod q) \<and>
        (\<forall>i \<ge> Suc m. fst r' ! i = vals ! i)"
      using I m assms by (auto simp: r twist_step_def nth_list_update less_Suc_eq mod_mult_eq)
  qed (use assms in simp_all)
  then obtain t tw where t: "foldr_res (twist_step root q) [0..<n] (vals, 1) = Inr (t, tw)"
    "length t = length vals" "\<forall>i < n. t ! i = vals ! i * root ^ i mod q" "\<forall>i \<ge> n. t ! i = vals ! i"
    by (metis prod.collapse)
  then have "t = List.map (\<lambda>i. vals ! i * root ^ i mod q) [0..<n] @ drop n vals"
    using assms(2) by (intro nth_equalityI) (auto simp: nth_append)
  then show ?thesis using t(1) by (simp add: twist_loop_def)
qed

section \<open>Sums of powers of a root\<close>

lemma geometric_power2: "(\<Sum>k<2 ^ L. (z :: nat) ^ k) = (\<Prod>i<L. 1 + z ^ (2 ^ i))"
proof (induction L)
  case (Suc L)
  have "(\<Sum>k<2 ^ L * 2. z ^ k) = (\<Sum>a<2 ^ L. z ^ a * (1 + z ^ 2 ^ L))"
    by (subst sum_grid) (simp add: numeral_2_eq_2 power_add algebra_simps)
  also have "\<dots> = (\<Sum>a<2 ^ L. z ^ a) * (1 + z ^ 2 ^ L)" by (rule sum_distrib_right [symmetric])
  finally show ?case by (simp add: Suc mult.commute)
qed simp

lemma odd_part: "0 < (e :: nat) \<Longrightarrow> \<exists>s c. e = 2 ^ s * c \<and> odd c"
proof (induction e rule: less_induct)
  case (less e)
  show ?case
  proof (cases "even e")
    case True
    then obtain d where d: "e = 2 * d" by blast
    then obtain s c where "d = 2 ^ s * c" "odd c" using less by (metis dvd_def lessI less_add_same_cancel1 mult_2 mult_pos_pos nat_0_less_mult_iff)
    then have "e = 2 ^ Suc s * c" "odd c" by (simp_all add: d)
    then show ?thesis by blast
  next
    case False
    then show ?thesis by (metis mult_1 power_0)
  qed
qed

text \<open>An odd power of \<open>-1\<close> is \<open>-1\<close>.\<close>

lemma minus_one_odd_power: "(q :: nat) dvd h + 1 \<Longrightarrow> odd c \<Longrightarrow> q dvd h ^ c + 1"
proof -
  assume h: "q dvd h + 1" and "odd c"
  then obtain m where c: "c = 2 * m + 1" by (elim oddE)
  show "q dvd h ^ c + 1"
    unfolding c
  proof (induction m)
    case (Suc m)
    define y where "y = h ^ (2 * m + 1)"
    have "h ^ (2 * Suc m + 1) = h ^ (2 + (2 * m + 1))" by simp
    also have "\<dots> = h * h * y" by (simp only: power_add y_def power2_eq_square)
    finally have "h ^ (2 * Suc m + 1) + 1 + y * (h + 1) = (y + 1) + y * h * (h + 1)"
      by (simp add: algebra_simps)
    moreover have "q dvd (y + 1) + y * h * (h + 1)"
      by (rule dvd_add [OF Suc.IH [folded y_def] dvd_mult [OF h]])
    ultimately show ?case using h by (metis dvd_add_left_iff dvd_mult)
  qed (use h in simp)
qed

text \<open>The powers of a root of order \<open>2^L\<close> cancel out over the whole group.\<close>

lemma root_sum:
  assumes "0 < L" "q dvd w ^ (2 ^ (L - 1)) + 1" "w ^ (2 ^ L) mod q = 1 mod q"
  shows "(\<Sum>k<2 ^ L. w ^ (e * k)) mod q = (if 2 ^ L dvd e then 2 ^ L else 0) mod (q :: nat)"
proof (cases "2 ^ L dvd e")
  case True
  then obtain d where d: "e = 2 ^ L * d" by blast
  have "w ^ (e * k) mod q = 1 mod q" for k
    unfolding d mult.assoc power_mult by (metis assms(3) power_mod power_one)
  then have "(\<Sum>k<2 ^ L. w ^ (e * k)) mod q = (\<Sum>k\<in>{..<2 ^ L :: nat}. 1) mod q"
    by (intro sum_mod_cong) simp
  then show ?thesis using True by simp
next
  case False
  then have "0 < e" by (cases e) simp_all
  then obtain s c where e: "e = 2 ^ s * c" "odd c" using odd_part by blast
  have s: "s < L"
  proof (rule ccontr)
    assume "\<not> s < L"
    then have "2 ^ L dvd (2 :: nat) ^ s" by (simp add: le_imp_power_dvd)
    with e(1) False show False by simp
  qed
  have "2 ^ (L - 1) * c = e * 2 ^ (L - 1 - s)"
    using s unfolding e(1) by (simp add: mult.commute mult.left_commute flip: power_add)
  then have "q dvd (w ^ e) ^ (2 ^ (L - 1 - s)) + 1"
    using minus_one_odd_power [OF assms(2) e(2)] by (simp flip: power_mult)
  then have "q dvd 1 + (w ^ e) ^ (2 ^ (L - 1 - s))" by (simp add: add.commute)
  then have "q dvd (\<Prod>i<L. 1 + (w ^ e) ^ (2 ^ i))"
    by (rule dvd_trans [OF _ dvd_prodI [where a = "L - 1 - s"]]) (use s in simp_all)
  then have "q dvd (\<Sum>k<2 ^ L. w ^ (e * k))" by (simp add: power_mult geometric_power2)
  then show ?thesis using False by simp
qed

section \<open>The inverse of a sum of characters\<close>

text \<open>What the checked rows of the table give about their roots.\<close>

definition roots_ok :: "nat \<Rightarrow> nat \<Rightarrow> negacyclic_roots \<Rightarrow> bool" where
  "roots_ok q L r \<longleftrightarrow>
     1 \<le> L \<and> L \<le> 7 \<and> 2 < q \<and> q < 2 ^ 28 \<and> odd q \<and> 2 ^ L < q \<and>
     nr_psi r ^ 2 mod q = nr_omega r \<and> nr_psi r * nr_psi_inv r mod q = 1 \<and>
     nr_omega r * nr_omega_inv r mod q = 1 \<and> nr_psi r ^ (2 ^ L) mod q = q - 1"

lemma minus_one_square: "1 < q \<Longrightarrow> h mod q = q - 1 \<Longrightarrow> h * h mod q = 1" for q h :: nat
proof -
  assume a: "1 < q" "h mod q = q - 1"
  have "(h + 1) mod q = (q - 1 + 1) mod q" using a(2) by (metis mod_add_left_eq)
  then have "q dvd h + 1" using a(1) by (simp add: mod_eq_0_iff_dvd)
  then have z: "(h + 1) mod q = 0" "h * (h + 1) mod q = 0" by (simp_all only: dvd_imp_mod_0 dvd_mult)
  have "(1 + h * (h + 1)) mod q = 1" using a(1) z(2) by (metis add_0_right mod_add_right_eq mod_less)
  moreover have "(h * h + (h + 1)) mod q = h * h mod q" using z(1) by (metis add_0_right mod_add_right_eq)
  moreover have "1 + h * (h + 1) = h * h + (h + 1)" by (simp add: algebra_simps)
  ultimately show ?thesis by simp
qed

lemma inverse_is_power:
  assumes "1 < q" "w * v mod q = 1" "w ^ n mod q = 1" "0 < n"
  shows "v ^ m mod q = w ^ ((n - 1) * m) mod (q :: nat)"
proof -
  have "v mod q = v * (w ^ n) mod q"
    using assms(1,3) by (metis mod_mult_right_eq mult_1_right mod_mod_trivial)
  also have "\<dots> = (w * v) * w ^ (n - 1) mod q"
    using assms(4) by (metis mult.assoc mult.commute power_minus_mult)
  also have "\<dots> = w ^ (n - 1) mod q"
    using assms(2) by (metis mod_mult_left_eq mult_1)
  finally have "v ^ m mod q = (w ^ (n - 1)) ^ m mod q" by (metis power_mod)
  then show ?thesis by (simp add: power_mult)
qed

lemma roots_ok_facts:
  assumes "roots_ok q L r"
  shows "1 < q" "q \<le> 2 ^ 63" "q < 2 ^ 63"
    and "nr_omega r ^ (2 ^ L) mod q = 1" "nr_omega_inv r ^ (2 ^ L) mod q = 1"
    and "q dvd nr_omega r ^ (2 ^ (L - 1)) + 1"
proof -
  have q: "1 < q" using assms by (simp add: roots_ok_def)
  then show "1 < q" .
  have q28: "q < 2 ^ 28" and L: "1 \<le> L" and p: "nr_psi r ^ (2 ^ L) mod q = q - 1"
    and w: "nr_psi r ^ 2 mod q = nr_omega r" and wi: "nr_omega r * nr_omega_inv r mod q = 1"
    using assms by (simp_all add: roots_ok_def)
  show q63: "q < 2 ^ 63" by (rule less_trans [OF q28]) simp
  then show "q \<le> 2 ^ 63" by (rule less_imp_le)
  have "nr_omega r ^ (2 ^ L) mod q = (nr_psi r ^ 2) ^ (2 ^ L) mod q"
    using w by (metis power_mod)
  also have "\<dots> = (nr_psi r ^ 2 ^ L) * (nr_psi r ^ 2 ^ L) mod q"
    by (simp add: power_mult [symmetric] mult.commute power2_eq_square [symmetric])
  also have "\<dots> = 1" by (rule minus_one_square [OF q p])
  finally show wn: "nr_omega r ^ (2 ^ L) mod q = 1" .
  have "nr_omega_inv r ^ (2 ^ L) mod q = (nr_omega r ^ 2 ^ L) ^ (2 ^ L - 1) mod q"
    using inverse_is_power [OF q wi wn] by (simp add: mult.commute power_mult)
  also have "\<dots> = 1" using q wn by (metis power_mod power_one mod_less)
  finally show "nr_omega_inv r ^ (2 ^ L) mod q = 1" .
  have "nr_omega r ^ (2 ^ (L - 1)) mod q = (nr_psi r ^ 2) ^ (2 ^ (L - 1)) mod q"
    using w by (metis power_mod)
  also have "(nr_psi r ^ 2) ^ (2 ^ (L - 1)) = nr_psi r ^ (2 ^ L)"
    using L by (cases L) (simp_all flip: power_mult)
  finally have "(nr_omega r ^ (2 ^ (L - 1)) + 1) mod q = (q - 1 + 1) mod q"
    using p by (metis mod_add_left_eq)
  then show "q dvd nr_omega r ^ (2 ^ (L - 1)) + 1" using q by (simp add: mod_eq_0_iff_dvd)
qed

lemma dvd_shift: "m < n \<Longrightarrow> n dvd e + (n - 1) * m \<longleftrightarrow> e mod n = (m :: nat)"
proof -
  assume m: "m < n"
  have nm: "(n - 1) * m + m = n * m" using m by (cases n) simp_all
  show ?thesis
  proof
    assume d: "n dvd e + (n - 1) * m"
    have "e mod n = (e + n * m) mod n" by simp
    also have "e + n * m = (e + (n - 1) * m) + m" using nm by simp
    also have "\<dots> mod n = m" using d m by (metis add_0 dvd_imp_mod_0 mod_add_left_eq mod_less)
    finally show "e mod n = m" .
  next
    assume e: "e mod n = m"
    have "e + (n - 1) * m = n * (e div n) + (m + (n - 1) * m)" using e by (metis add.assoc mult_div_mod_eq)
    also have "\<dots> = n * (e div n + m)" using nm by (simp add: algebra_simps)
    finally show "n dvd e + (n - 1) * m" by simp
  qed
qed

text \<open>
  The inverse transform of a combination of characters keeps, at index \<open>m\<close>, exactly the terms whose
  exponent is congruent to \<open>m\<close>.
\<close>

lemma inverse_characters:
  assumes r: "roots_ok q L r" and T: "finite T" and m: "m < 2 ^ L" and c: "2 ^ L * c mod q = 1"
    and X: "\<And>k. k < 2 ^ L \<Longrightarrow> X k mod q = (\<Sum>t\<in>T. a t * nr_omega r ^ (e t * k)) mod q"
  shows "dft q (nr_omega_inv r) (2 ^ L) X m * c mod q = (\<Sum>t \<in> {t \<in> T. e t mod 2 ^ L = m}. a t) mod q"
proof -
  let ?w = "nr_omega r" and ?n = "2 ^ L :: nat"
  note f = roots_ok_facts [OF r]
  have L: "0 < L" and wi: "?w * nr_omega_inv r mod q = 1" using r by (simp_all add: roots_ok_def)
  have inv: "nr_omega_inv r ^ k mod q = ?w ^ ((?n - 1) * k) mod q" for k
    by (rule inverse_is_power [OF f(1) wi f(4)]) simp
  have "dft q (nr_omega_inv r) ?n X m = (\<Sum>k<?n. \<Sum>t\<in>T. a t * ?w ^ ((e t + (?n - 1) * m) * k)) mod q"
    unfolding dft_def
  proof (rule sum_mod_cong)
    fix k assume "k \<in> {..<?n}"
    then have "X k * nr_omega_inv r ^ (m * k) mod q =
        (\<Sum>t\<in>T. a t * ?w ^ (e t * k)) * ?w ^ ((?n - 1) * (m * k)) mod q"
      using X inv by (intro mod_mult_cong) simp_all
    also have "(\<Sum>t\<in>T. a t * ?w ^ (e t * k)) * ?w ^ ((?n - 1) * (m * k)) =
        (\<Sum>t\<in>T. a t * ?w ^ ((e t + (?n - 1) * m) * k))"
      by (simp add: sum_distrib_right power_add [symmetric] mult.assoc distrib_right)
    finally show "X k * nr_omega_inv r ^ (m * k) mod q =
        (\<Sum>t\<in>T. a t * ?w ^ ((e t + (?n - 1) * m) * k)) mod q" .
  qed
  also have "(\<Sum>k<?n. \<Sum>t\<in>T. a t * ?w ^ ((e t + (?n - 1) * m) * k)) =
      (\<Sum>t\<in>T. a t * (\<Sum>k<?n. ?w ^ ((e t + (?n - 1) * m) * k)))"
    by (subst sum.swap) (simp add: sum_distrib_left)
  also have "\<dots> mod q = (\<Sum>t\<in>T. a t * (if e t mod ?n = m then ?n else 0)) mod q"
  proof (rule sum_mod_cong, rule mod_mult_cong)
    fix t
    have "?n dvd e t + (?n - 1) * m \<longleftrightarrow> e t mod ?n = m" using m by (rule dvd_shift)
    then show "(\<Sum>k<?n. ?w ^ ((e t + (?n - 1) * m) * k)) mod q = (if e t mod ?n = m then ?n else 0) mod q"
      using root_sum [OF L f(6), of "e t + (?n - 1) * m"] f(1,4) by simp
  qed simp
  also have "(\<Sum>t\<in>T. a t * (if e t mod ?n = m then ?n else 0)) = (\<Sum>t \<in> {t \<in> T. e t mod ?n = m}. a t) * ?n"
    unfolding sum.inter_filter [OF T] sum_distrib_right by (rule sum.cong) simp_all
  finally have d: "dft q (nr_omega_inv r) ?n X m = (\<Sum>t \<in> {t \<in> T. e t mod ?n = m}. a t) * ?n mod q" .
  have "dft q (nr_omega_inv r) ?n X m * c mod q = (\<Sum>t \<in> {t \<in> T. e t mod ?n = m}. a t) * (?n * c mod q) mod q"
    unfolding d by (simp only: mod_mult_left_eq mod_mult_right_eq mult.assoc)
  then show ?thesis using c by simp
qed

section \<open>The two directions\<close>

definition negacyclic_eval :: "nat \<Rightarrow> nat \<Rightarrow> nat \<Rightarrow> (nat \<Rightarrow> nat) \<Rightarrow> nat \<Rightarrow> nat" where
  "negacyclic_eval q p n a k = (\<Sum>j<n. a j * p ^ (j * (2 * k + 1))) mod q"

lemma twisted_dft:
  assumes "p ^ 2 mod q = w"
  shows "dft q w n (\<lambda>j. a j * p ^ j mod q) k = negacyclic_eval q p n a k"
  unfolding dft_def negacyclic_eval_def
proof (rule sum_mod_cong)
  fix j
  have "w ^ (k * j) mod q = (p ^ 2) ^ (k * j) mod q" using assms by (metis power_mod)
  then have "a j * p ^ j mod q * w ^ (k * j) mod q = a j * p ^ j * (p ^ 2) ^ (k * j) mod q"
    by (intro mod_mult_cong) simp_all
  also have "a j * p ^ j * (p ^ 2) ^ (k * j) = a j * p ^ (j * (2 * k + 1))"
    by (simp add: algebra_simps flip: power_mult power_add)
  finally show "a j * p ^ j mod q * w ^ (k * j) mod q = a j * p ^ (j * (2 * k + 1)) mod q" .
qed

text \<open>\<open>forward_spec\<close>: the values of the polynomial at the odd powers of \<open>psi\<close>, in bit-reversed order.\<close>

lemma forward_transform:
  assumes res: "resolve_negacyclic_roots q (2 ^ L) pid = Inr r" and r: "roots_ok q L r"
    and l: "2 ^ L \<le> length vals"
  shows "ntt_apply_negacyclic_four_step vals (2 ^ L) q pid False =
    Inr (List.map (\<lambda>k. negacyclic_eval q (nr_psi r) (2 ^ L) ((!) vals) (rev_index L k)) [0..<2 ^ L]
         @ drop (2 ^ L) vals)"
proof -
  let ?n = "2 ^ L :: nat"
  note f = roots_ok_facts [OF r]
  have L: "1 \<le> L" "L \<le> 7" "nr_psi r ^ 2 mod q = nr_omega r" using r by (simp_all add: roots_ok_def)
  note sp = span_range [OF L(1,2)]
  define t where "t = List.map (\<lambda>i. vals ! i * nr_psi r ^ i mod q) [0..<?n] @ drop ?n vals"
  have t: "twist_loop (nr_psi r) q ?n vals = Inr t" "length t = length vals"
    using twist_loop_ok [OF f(1) l] l by (simp_all add: t_def)
  have lt: "?n \<le> length t" using t(2) l by simp
  obtain v where v: "cyclic_ntt_four_step t ?n (nr_omega r) q False = Inr v" "length v = length t"
    "\<forall>k < ?n. v ! k = dft q (nr_omega r) ?n ((!) t) k" "\<forall>i \<ge> ?n. v ! i = t ! i"
    using cyclic_ntt_is_dft [OF f(1,2) L(1,2) lt f(4)] by blast
  have lv: "?n \<le> length v" using v(2) lt by simp
  have val: "v ! k = negacyclic_eval q (nr_psi r) ?n ((!) vals) k" if "k < ?n" for k
  proof -
    have "v ! k = dft q (nr_omega r) ?n ((!) t) k" using v(3) that by blast
    also have "\<dots> = dft q (nr_omega r) ?n (\<lambda>j. vals ! j * nr_psi r ^ j mod q) k"
      by (rule dft_cong_mod) (simp add: t_def nth_append)
    finally show ?thesis by (simp add: twisted_dft [OF L(3)])
  qed
  have "drop ?n v = drop ?n vals"
    using v(2,4) t(2) l by (intro nth_equalityI) (auto simp: t_def nth_append)
  moreover have "rev_index L k < ?n" for k using L(2) by (intro rev_index_less) simp
  ultimately show ?thesis
    using res sp f(1) t v(1) bit_reverse_permute_ok [OF L(1,2) lv]
    by (simp add: ntt_apply_negacyclic_four_step_def power_of_two_ok val)
qed

lemma inverse_transform:
  assumes res: "resolve_negacyclic_roots q (2 ^ L) pid = Inr r" and r: "roots_ok q L r"
    and l: "2 ^ L \<le> length vals"
  shows "\<exists>c. 2 ^ L * c mod q = 1 \<and> ntt_apply_negacyclic_four_step vals (2 ^ L) q pid True =
    Inr (List.map (\<lambda>m. dft q (nr_omega_inv r) (2 ^ L) (\<lambda>k. vals ! rev_index L k) m * c mod q *
                   nr_psi_inv r ^ m mod q) [0..<2 ^ L] @ drop (2 ^ L) vals)"
proof -
  let ?n = "2 ^ L :: nat"
  note f = roots_ok_facts [OF r]
  have L: "1 \<le> L" "L \<le> 7" and q: "odd q" "2 ^ L < q" using r by (simp_all add: roots_ok_def)
  note sp = span_range [OF L]
  define t where "t = List.map (\<lambda>k. vals ! rev_index L k) [0..<?n] @ drop ?n vals"
  have t: "bit_reverse_permute vals ?n = Inr t" "length t = length vals"
    using bit_reverse_permute_ok [OF L l] l by (simp_all add: t_def)
  have lt: "?n \<le> length t" using t(2) l by simp
  obtain v c where v: "cyclic_ntt_four_step t ?n (nr_omega_inv r) q True = Inr v" "length v = length t"
    "2 ^ L * c mod q = 1" "\<forall>k < ?n. v ! k = dft q (nr_omega_inv r) ?n ((!) t) k * c mod q"
    "\<forall>i \<ge> ?n. v ! i = t ! i"
    using cyclic_ntt_inverse_scaled [OF f(1,3) q L lt f(5)] by blast
  have lv: "?n \<le> length v" using v(2) lt by simp
  have d: "dft q (nr_omega_inv r) ?n ((!) t) = dft q (nr_omega_inv r) ?n (\<lambda>k. vals ! rev_index L k)"
    by (rule ext, rule dft_cong_mod) (simp add: t_def nth_append)
  have "drop ?n v = drop ?n vals"
    using v(2,5) t(2) l by (intro nth_equalityI) (auto simp: t_def nth_append)
  then show ?thesis
    using res sp f(1) t v(1,3,4) twist_loop_ok [OF f(1) lv, of "nr_psi_inv r"]
    by (auto simp: ntt_apply_negacyclic_four_step_def power_of_two_ok d)
qed

section \<open>The table\<close>

definition table_has :: "nat \<Rightarrow> nat \<Rightarrow> bool" where
  "table_has q n \<longleftrightarrow> list_ex (\<lambda>(m, s, _). m = q \<and> s = n) kNegacyclicRootTable"

lemma table_roots:
  assumes "table_has q n"
  obtains L r where "n = 2 ^ L" "\<And>pid. resolve_negacyclic_roots q n pid = Inr r" "roots_ok q L r"
proof -
  from assms obtain e where e: "List.find (\<lambda>(m, s, _). m = q \<and> s = n) kNegacyclicRootTable = Some e"
    by (cases "List.find (\<lambda>(m, s, _). m = q \<and> s = n) kNegacyclicRootTable")
       (auto simp: table_has_def find_None_iff list_ex_iff)
  obtain p pi w wi where p: "e = (q, n, p, pi, w, wi)" "e \<in> set kNegacyclicRootTable"
    using e by (cases e) (auto simp: find_Some_iff, metis nth_mem)
  with root_table_ok have ok: "root_entry_ok (q, n, p, pi, w, wi)" by (auto simp: list_all_iff)
  then have "n \<in> {2, 4, 8, 16, 32, 64, 128}" by (simp add: root_entry_ok_def)
  then have "\<exists>L \<in> {1, 2, 3, 4, 5, 6, 7}. n = 2 ^ L" by auto
  then obtain L where "L \<in> {1, 2, 3, 4, 5, 6, 7}" and n: "n = 2 ^ L" by blast
  then have L: "n = 2 ^ L" "1 \<le> L" "L \<le> 7" by auto
  let ?r = "\<lparr>nr_psi = p mod q, nr_psi_inv = pi mod q, nr_omega = w mod q, nr_omega_inv = wi mod q,
    nr_from_table = True\<rparr>"
  show ?thesis
  proof (rule that [OF L(1)])
    show "resolve_negacyclic_roots q n pid = Inr ?r" for pid
      using e p(1) by (simp add: resolve_negacyclic_roots_def)
    show "roots_ok q L ?r"
      using ok L span_range [OF L(2,3)]
      by (simp add: roots_ok_def root_entry_ok_def power2_eq_square)
  qed
qed

section \<open>Round trip and products\<close>

text \<open>The inverse twist removes the forward one.\<close>

lemma psi_cancel:
  assumes "roots_ok q L r"
  shows "nr_psi r ^ m * nr_psi_inv r ^ m mod q = 1"
proof -
  have "nr_psi r * nr_psi_inv r mod q = 1" using assms by (simp add: roots_ok_def)
  then have "(nr_psi r * nr_psi_inv r) ^ m mod q = 1"
    using roots_ok_facts(1) [OF assms] by (metis mod_less power_mod power_one)
  then show ?thesis by (simp add: power_mult_distrib)
qed

lemma psi_wrap:
  assumes "roots_ok q L r"
  shows "nr_psi r ^ (m + 2 ^ L) * nr_psi_inv r ^ m mod q = q - 1"
proof -
  have "nr_psi r ^ (m + 2 ^ L) * nr_psi_inv r ^ m = (nr_psi r ^ m * nr_psi_inv r ^ m) * nr_psi r ^ 2 ^ L"
    by (simp add: power_add)
  also have "\<dots> mod q = 1 * (q - 1) mod q"
    using psi_cancel [OF assms, of m] assms by (intro mod_mult_cong) (simp_all add: roots_ok_def)
  finally show ?thesis using roots_ok_facts(1) [OF assms] by simp
qed

lemma eval_as_characters:
  assumes "roots_ok q L r"
  shows "negacyclic_eval q (nr_psi r) n a k = (\<Sum>j<n. a j * nr_psi r ^ j * nr_omega r ^ (j * k)) mod q"
  unfolding negacyclic_eval_def
proof (rule sum_mod_cong)
  fix j
  have w: "nr_psi r ^ 2 mod q = nr_omega r" using assms by (simp add: roots_ok_def)
  have "a j * nr_psi r ^ (j * (2 * k + 1)) = a j * nr_psi r ^ j * (nr_psi r ^ 2) ^ (j * k)"
    by (simp add: algebra_simps flip: power_mult power_add)
  also have "\<dots> mod q = a j * nr_psi r ^ j * nr_omega r ^ (j * k) mod q"
    by (rule mod_mult_cong) (simp_all add: w [symmetric] power_mod)
  finally show "a j * nr_psi r ^ (j * (2 * k + 1)) mod q =
      a j * nr_psi r ^ j * nr_omega r ^ (j * k) mod q" .
qed

text \<open>
  C14. For every modulus and length of the root table, the inverse transform of the forward
  transform is the reduction of every value modulo q, whatever follows in the array.
\<close>

theorem ntt_roundtrip:
  assumes "table_has q n" "n \<le> length vals"
  shows "bindr (ntt_apply_dit vals n q pid False) (\<lambda>v. ntt_apply_dif v n q pid' True) =
    Inr (List.map (\<lambda>x. x mod q) (take n vals) @ drop n vals)"
proof -
  obtain L r where n: "n = 2 ^ L" and res: "\<And>pid. resolve_negacyclic_roots q n pid = Inr r"
    and r: "roots_ok q L r" using table_roots [OF assms(1)] by blast
  have L: "L \<le> 32" using r by (simp add: roots_ok_def)
  let ?X = "negacyclic_eval q (nr_psi r) n ((!) vals)"
  define f where "f = List.map (\<lambda>k. ?X (rev_index L k)) [0..<n] @ drop n vals"
  have fwd: "ntt_apply_negacyclic_four_step vals n q pid False = Inr f"
    using forward_transform [OF res [unfolded n] r] assms(2) by (simp add: f_def n)
  have lf: "2 ^ L \<le> length f" using assms(2) by (simp add: f_def n)
  obtain c where c: "2 ^ L * c mod q = 1" and inv: "ntt_apply_negacyclic_four_step f n q pid' True =
      Inr (List.map (\<lambda>m. dft q (nr_omega_inv r) (2 ^ L) (\<lambda>k. f ! rev_index L k) m * c mod q *
                   nr_psi_inv r ^ m mod q) [0..<2 ^ L] @ drop (2 ^ L) f)"
    using inverse_transform [OF res [unfolded n] r lf, of pid'] unfolding n by blast
  have X: "f ! rev_index L k = ?X k" if "k < 2 ^ L" for k
    using rev_index_less [OF L, of k] rev_index_rev_index [OF L that] by (simp add: f_def n nth_append)
  have val: "dft q (nr_omega_inv r) (2 ^ L) (\<lambda>k. f ! rev_index L k) m * c mod q * nr_psi_inv r ^ m mod q =
      vals ! m mod q" if m: "m < 2 ^ L" for m
  proof -
    have "dft q (nr_omega_inv r) (2 ^ L) (\<lambda>k. f ! rev_index L k) m * c mod q =
        (\<Sum>t \<in> {t \<in> {..<2 ^ L}. t mod 2 ^ L = m}. vals ! t * nr_psi r ^ t) mod q"
      using r m c by (intro inverse_characters) (simp_all add: X eval_as_characters [OF r] n)
    also have "{t \<in> {..<2 ^ L}. t mod 2 ^ L = m} = {m}" using m by auto
    finally have "dft q (nr_omega_inv r) (2 ^ L) (\<lambda>k. f ! rev_index L k) m * c mod q * nr_psi_inv r ^ m mod q =
        vals ! m * (nr_psi r ^ m * nr_psi_inv r ^ m mod q) mod q"
      by (simp add: mod_mult_left_eq mod_mult_right_eq mult.assoc)
    then show ?thesis by (simp add: psi_cancel [OF r])
  qed
  have "List.map (\<lambda>x. x mod q) (take n vals) = List.map (\<lambda>m. vals ! m mod q) [0..<n]"
    using assms(2) by (intro nth_equalityI) simp_all
  moreover have "List.map (\<lambda>m. dft q (nr_omega_inv r) (2 ^ L) (\<lambda>k. f ! rev_index L k) m * c mod q *
      nr_psi_inv r ^ m mod q) [0..<2 ^ L] = List.map (\<lambda>m. vals ! m mod q) [0..<n]"
    using val by (simp add: n)
  moreover have "drop (2 ^ L) f = drop n vals" by (simp add: f_def n)
  ultimately show ?thesis
    unfolding ntt_apply_dit_def ntt_apply_dif_def fwd bindr_simps inv by simp
qed

theorem ntt_roundtrip_witness:
  "bindr (ntt_apply_dit [5, 268042242, 7, 11] 4 268042241 0 False) (\<lambda>v. ntt_apply_dif v 4 268042241 9 True) =
   Inr [5, 1, 7, 11]"
proof -
  have "table_has 268042241 4" by (simp add: table_has_def kNegacyclicRootTable_def root_table_11_def)
  from ntt_roundtrip [OF this, of "[5, 268042242, 7, 11]" 0 9] show ?thesis by simp
qed

text \<open>The product of two polynomials modulo \<open>X^n + 1\<close>: a term that leaves the range wraps with a minus.\<close>

definition negacyclic_product :: "nat \<Rightarrow> nat \<Rightarrow> nat list \<Rightarrow> nat list \<Rightarrow> nat \<Rightarrow> nat" where
  "negacyclic_product q n a b m =
     nat ((\<Sum>i<n. \<Sum>j<n. if i + j = m then int (a ! i * b ! j)
                       else if i + j = m + n then - int (a ! i * b ! j) else 0) mod int q)"

lemma sum_mod_cong_int:
  "(\<And>i. f i mod q = g i mod (q :: int)) \<Longrightarrow> (\<Sum>i\<in>A. f i) mod q = (\<Sum>i\<in>A. g i) mod q"
  by (subst (1 2) mod_sum_eq [symmetric]) simp

lemma negacyclic_terms:
  assumes r: "roots_ok q L r" and m: "m < 2 ^ L"
  shows "(\<Sum>t \<in> {t \<in> {..<2 ^ L} \<times> {..<2 ^ L}. (fst t + snd t) mod 2 ^ L = m}.
      a ! fst t * b ! snd t * nr_psi r ^ (fst t + snd t)) * nr_psi_inv r ^ m mod q =
    negacyclic_product q (2 ^ L) a b m"
proof -
  let ?n = "2 ^ L :: nat"
  let ?T = "{..<?n} \<times> {..<?n}"
  define w where "w t = (if fst t + snd t = m then 1 else if fst t + snd t = m + ?n then q - 1 else 0)"
    for t :: "nat \<times> nat"
  have q: "1 < q" using roots_ok_facts(1) [OF r] .
  have wrap: "fst t + snd t = m \<or> fst t + snd t = m + ?n" if "t \<in> ?T" "(fst t + snd t) mod ?n = m" for t
  proof (cases "fst t + snd t < ?n")
    case False
    then have "(fst t + snd t) mod ?n = fst t + snd t - ?n" using that(1) by (auto simp: le_mod_geq)
    then show ?thesis using that(2) False by simp
  qed (use that in simp)
  have "(\<Sum>t \<in> {t \<in> ?T. (fst t + snd t) mod ?n = m}. a ! fst t * b ! snd t * nr_psi r ^ (fst t + snd t)) *
      nr_psi_inv r ^ m mod q =
    (\<Sum>t \<in> {t \<in> ?T. (fst t + snd t) mod ?n = m}. a ! fst t * b ! snd t * w t) mod q"
    unfolding sum_distrib_right
  proof (rule sum_mod_cong)
    fix t assume "t \<in> {t \<in> ?T. (fst t + snd t) mod ?n = m}"
    then have "fst t + snd t = m \<or> fst t + snd t = m + ?n" using wrap by blast
    then have "nr_psi r ^ (fst t + snd t) * nr_psi_inv r ^ m mod q = w t mod q"
      using psi_cancel [OF r] psi_wrap [OF r] q by (auto simp: w_def)
    then show "a ! fst t * b ! snd t * nr_psi r ^ (fst t + snd t) * nr_psi_inv r ^ m mod q =
        a ! fst t * b ! snd t * w t mod q"
      unfolding mult.assoc by (intro mod_mult_cong) simp_all
  qed
  also have "(\<Sum>t \<in> {t \<in> ?T. (fst t + snd t) mod ?n = m}. a ! fst t * b ! snd t * w t) =
      (\<Sum>t \<in> ?T. a ! fst t * b ! snd t * w t)"
    using m by (intro sum.mono_neutral_left) (auto simp: w_def)
  also have "\<dots> = (\<Sum>i<?n. \<Sum>j<?n. a ! i * b ! j * w (i, j))"
    by (simp add: sum.cartesian_product case_prod_beta)
  finally have nat: "(\<Sum>t \<in> {t \<in> ?T. (fst t + snd t) mod ?n = m}. a ! fst t * b ! snd t *
      nr_psi r ^ (fst t + snd t)) * nr_psi_inv r ^ m mod q = (\<Sum>i<?n. \<Sum>j<?n. a ! i * b ! j * w (i, j)) mod q" .
  have "int ((\<Sum>i<?n. \<Sum>j<?n. a ! i * b ! j * w (i, j)) mod q) =
      (\<Sum>i<?n. \<Sum>j<?n. int (a ! i * b ! j) * int (w (i, j))) mod int q"
    by (simp add: of_nat_mod)
  also have "\<dots> = (\<Sum>i<?n. \<Sum>j<?n. if i + j = m then int (a ! i * b ! j)
      else if i + j = m + ?n then - int (a ! i * b ! j) else 0) mod int q"
  proof (intro sum_mod_cong_int)
    fix i j
    have "int (q - 1) mod int q = (- 1) mod int q" using q by (simp add: of_nat_diff mod_diff_eq zmod_zminus1_eq_if)
    then have "int (a ! i * b ! j) * int (q - 1) mod int q = int (a ! i * b ! j) * (- 1) mod int q"
      by (intro mod_mult_cong refl)
    then show "int (a ! i * b ! j) * int (w (i, j)) mod int q = (if i + j = m then int (a ! i * b ! j)
      else if i + j = m + ?n then - int (a ! i * b ! j) else 0) mod int q"
      by (simp add: w_def)
  qed
  finally show ?thesis unfolding nat negacyclic_product_def by (metis nat_int)
qed

lemma transform_product:
  assumes "table_has q n" "length a = n" "length b = n"
  shows "bindr (ntt_apply_dit a n q 0 False) (\<lambda>x. bindr (ntt_apply_dit b n q 0 False) (\<lambda>y.
      ntt_apply_dif (map2 (\<lambda>u v. mod_mul u v q) x y) n q 0 True)) =
    Inr (List.map (negacyclic_product q n a b) [0..<n])"
proof -
  obtain L r where n: "n = 2 ^ L" and res: "\<And>pid. resolve_negacyclic_roots q n pid = Inr r"
    and r: "roots_ok q L r" using table_roots [OF assms(1)] by blast
  have L: "L \<le> 32" and q: "0 < q" using r by (simp_all add: roots_ok_def)
  let ?X = "\<lambda>a. negacyclic_eval q (nr_psi r) n ((!) a)"
  let ?f = "\<lambda>a. List.map (\<lambda>k. ?X a (rev_index L k)) [0..<n]"
  have fwd: "ntt_apply_negacyclic_four_step c n q 0 False = Inr (?f c)" if "length c = n" for c
    using forward_transform [OF res [unfolded n] r, of c] that by (simp add: n)
  define p where "p = map2 (\<lambda>u v. mod_mul u v q) (?f a) (?f b)"
  have lp: "2 ^ L \<le> length p" by (simp add: p_def n)
  obtain c where c: "2 ^ L * c mod q = 1" and inv: "ntt_apply_negacyclic_four_step p n q 0 True =
      Inr (List.map (\<lambda>m. dft q (nr_omega_inv r) (2 ^ L) (\<lambda>k. p ! rev_index L k) m * c mod q *
                   nr_psi_inv r ^ m mod q) [0..<2 ^ L] @ drop (2 ^ L) p)"
    using inverse_transform [OF res [unfolded n] r lp, of 0] unfolding n by blast
  have X: "p ! rev_index L k = ?X a k * ?X b k mod q" if "k < 2 ^ L" for k
    using rev_index_less [OF L, of k] rev_index_rev_index [OF L that] q by (simp add: p_def n)
  have P: "(?X a k * ?X b k mod q) mod q =
      (\<Sum>t \<in> {..<2 ^ L} \<times> {..<2 ^ L}. a ! fst t * b ! snd t * nr_psi r ^ (fst t + snd t) *
        nr_omega r ^ ((fst t + snd t) * k)) mod q" for k
  proof -
    have "?X a k * ?X b k mod q = (\<Sum>i<2 ^ L. a ! i * nr_psi r ^ i * nr_omega r ^ (i * k)) *
        (\<Sum>j<2 ^ L. b ! j * nr_psi r ^ j * nr_omega r ^ (j * k)) mod q"
      unfolding eval_as_characters [OF r] n by (rule mod_mult_eq)
    also have "(\<Sum>i<2 ^ L. a ! i * nr_psi r ^ i * nr_omega r ^ (i * k)) *
        (\<Sum>j<2 ^ L. b ! j * nr_psi r ^ j * nr_omega r ^ (j * k)) =
      (\<Sum>t \<in> {..<2 ^ L} \<times> {..<2 ^ L}. a ! fst t * b ! snd t * nr_psi r ^ (fst t + snd t) *
        nr_omega r ^ ((fst t + snd t) * k))"
      unfolding sum_product sum.cartesian_product
      by (rule sum.cong) (auto simp: power_add distrib_right mult.assoc mult.left_commute)
    finally show ?thesis by simp
  qed
  have "dft q (nr_omega_inv r) (2 ^ L) (\<lambda>k. p ! rev_index L k) m * c mod q * nr_psi_inv r ^ m mod q =
      negacyclic_product q n a b m" if m: "m < 2 ^ L" for m
  proof -
    have "dft q (nr_omega_inv r) (2 ^ L) (\<lambda>k. p ! rev_index L k) m * c mod q =
        (\<Sum>t \<in> {t \<in> {..<2 ^ L} \<times> {..<2 ^ L}. (fst t + snd t) mod 2 ^ L = m}.
          a ! fst t * b ! snd t * nr_psi r ^ (fst t + snd t)) mod q"
      using r m c by (intro inverse_characters) (simp_all add: X P [simplified])
    then show ?thesis
      using negacyclic_terms [OF r m, of a b] by (simp add: mod_mult_left_eq n)
  qed
  moreover have "drop (2 ^ L) p = []" by (simp add: p_def n)
  ultimately have "ntt_apply_negacyclic_four_step p n q 0 True =
      Inr (List.map (negacyclic_product q n a b) [0..<n])"
    unfolding inv by (simp add: n)
  then show ?thesis
    unfolding ntt_apply_dit_def ntt_apply_dif_def fwd [OF assms(2)] fwd [OF assms(3)] bindr_simps
      p_def [symmetric] .
qed

lemma sum_four: "(\<Sum>i<4. f i) = f 0 + f 1 + f 2 + f (3 :: nat)"
  by (simp add: eval_nat_numeral lessThan_Suc One_nat_def add.commute)

text \<open>
  C13. For every modulus and length of the root table, transforming two lists, multiplying
  pointwise and transforming back gives the product of the polynomials modulo X^n + 1 and q.
\<close>

theorem ntt_multiplies_polynomials:
  assumes "table_has q n" "length a = n" "length b = n"
  shows "bindr (ntt_apply_dit a n q 0 False) (\<lambda>x. bindr (ntt_apply_dit b n q 0 False) (\<lambda>y.
      ntt_apply_dif (map2 (\<lambda>u v. mod_mul u v q) x y) n q 0 True)) =
    Inr (List.map (negacyclic_product q n a b) [0..<n])"
  using assms by (rule transform_product)

theorem ntt_multiplies_polynomials_witness:
  "bindr (ntt_apply_dit [1, 2, 0, 1] 4 268042241 0 False) (\<lambda>x.
   bindr (ntt_apply_dit [3, 0, 0, 5] 4 268042241 0 False) (\<lambda>y.
      ntt_apply_dif (map2 (\<lambda>u v. mod_mul u v 268042241) x y) 4 268042241 0 True)) =
   Inr [268042234, 6, 268042236, 8]"
proof -
  have "table_has 268042241 4" by (simp add: table_has_def kNegacyclicRootTable_def root_table_11_def)
  moreover have "List.map (negacyclic_product 268042241 4 [1, 2, 0, 1] [3, 0, 0, 5]) [0..<4] =
      [268042234, 6, 268042236, 8]"
    by (simp add: negacyclic_product_def upt_rec [of _ 4] sum_four)
  ultimately show ?thesis using ntt_multiplies_polynomials [of 268042241 4 "[1, 2, 0, 1]" "[3, 0, 0, 5]"]
    by simp
qed

end
