(* ===== verification/HlsPerm.thy ===== *)
theory HlsPerm
  imports HlsNegacyclic
begin

unbundle bit_operations_syntax

text \<open>
  The data movement of the kernels (\<open>kernels/kernel_common.hpp\<close>): Galois permutations of transformed
  values, the Benes network, square and streamed transposes, and the opcode predicates. Two pointers
  into one buffer are two offsets into one list; separate arrays are separate lists.
\<close>

section \<open>Opcodes\<close>

definition is_memory_opcode :: "nat \<Rightarrow> bool" where
  "is_memory_opcode oc \<longleftrightarrow> oc = 1 \<or> oc = 30 \<or> oc = 2 \<or> oc = 31 \<or> oc = 3 \<or> oc = 19 \<or> oc = 27 \<or> oc = 28"

definition is_arithmetic_opcode :: "nat \<Rightarrow> bool" where
  "is_arithmetic_opcode oc \<longleftrightarrow> oc = 4 \<or> oc = 5 \<or> oc = 9 \<or> oc = 10 \<or> oc = 11 \<or> oc = 15 \<or> oc = 16"

definition is_montgomery_opcode :: "nat \<Rightarrow> bool" where
  "is_montgomery_opcode oc \<longleftrightarrow> oc = 6 \<or> oc = 7 \<or> oc = 8"

definition is_base_conv_opcode :: "nat \<Rightarrow> bool" where
  "is_base_conv_opcode oc \<longleftrightarrow> oc = 17 \<or> oc = 18 \<or> oc = 32 \<or> oc = 33 \<or> oc = 25 \<or> oc = 26"

definition is_general_register_operand :: "nat \<Rightarrow> nat \<Rightarrow> bool" where
  "is_general_register_operand operand register_count \<longleftrightarrow>
     register_count \<noteq> 0 \<and> operand < register_count"

definition decode_bcu_id :: "nat \<Rightarrow> nat" where
  "decode_bcu_id operand = (if operand AND 0xF00 = 0xA00 then operand AND 0xFF else operand)"

section \<open>Logarithms and bit reversal\<close>

definition ilog2_pow2 :: "nat \<Rightarrow> nat" where
  "ilog2_pow2 v = bit_count_loop v 0"

definition reverse_bits_u32 :: "nat \<Rightarrow> nat \<Rightarrow> nat" where
  "reverse_bits_u32 v bit_count =
     fold (\<lambda>i reversed. w32 (reversed * 2) OR (drop_bit i v AND 1)) [0..<bit_count] 0"

section \<open>Galois elements and permutations\<close>

text \<open>The loop that multiplies by the generator 5.\<close>

fun galois_loop :: "nat \<Rightarrow> nat \<Rightarrow> nat \<Rightarrow> nat" where
  "galois_loop 0 m g = g"
| "galois_loop (Suc k) m g = galois_loop k m (w64 (g * 5) AND sub64 m 1)"

definition galois_elt_from_step :: "nat \<Rightarrow> int \<Rightarrow> nat res" where
  "galois_elt_from_step coeff_count step =
     (if \<not> is_power_of_two coeff_count \<or> coeff_count < 2 then Inr 0
      else let n = coeff_count; m = w32 (n * 2) in
        if step = 0 then Inr (w32 (sub64 m 1))
        else guardr (- step < 2 ^ 31) Undefined
          (let sign = step < 0;
               pos_step = nat (if sign then - step else step);
               pos_step' = (if pos_step \<ge> n div 2 then pos_step AND sub32 m 1 else pos_step);
               adjusted_step = (if sign then int (n div 2) - int pos_step' else int pos_step')
           in Inr (w32 (galois_loop (nat adjusted_step) m 1))))"

definition galois_source :: "nat \<Rightarrow> nat \<Rightarrow> nat \<Rightarrow> nat" where
  "galois_source coeff_count galois_elt k =
     (let p = ilog2_pow2 coeff_count;
          reversed = reverse_bits_u32 (w32 (coeff_count + k)) (p + 1);
          index_raw = drop_bit 1 (w64 (galois_elt * reversed)) AND sub32 coeff_count 1
      in reverse_bits_u32 (w32 index_raw) p)"

text \<open>\<open>operand\<close> and \<open>result\<close> are the offsets \<open>src\<close> and \<open>dst\<close> of the buffer.\<close>

definition apply_galois_ntt_permutation ::
  "nat list \<Rightarrow> nat \<Rightarrow> nat \<Rightarrow> nat \<Rightarrow> nat \<Rightarrow> nat list res" where
  "apply_galois_ntt_permutation buf src dst coeff_count galois_elt =
     (if coeff_count = 0 \<or> \<not> is_power_of_two coeff_count \<or> galois_elt AND 1 = 0 then Inr buf
      else foldr_res (\<lambda>k b. bindr (rd b (src + galois_source coeff_count galois_elt k))
                              (\<lambda>v. wr b (dst + k) v)) [0..<coeff_count] buf)"

section \<open>The Benes network\<close>

definition automorphism_perm_info_width :: "nat \<Rightarrow> nat" where
  "automorphism_perm_info_width sz =
     (if sz < 2 \<or> \<not> is_power_of_two sz then 0
      else w32 (2 * ilog2_pow2 sz * (sz div 2)))"

definition automorphism_perm_info_mask :: "nat \<Rightarrow> nat" where
  "automorphism_perm_info_mask sz =
     (let width = automorphism_perm_info_width sz in
      if width = 0 then 0 else if width \<ge> 64 then 2 ^ 64 - 1 else 2 ^ width - 1)"

definition sanitize_perm_info :: "nat \<Rightarrow> nat \<Rightarrow> nat" where
  "sanitize_perm_info perm_info sz = perm_info AND automorphism_perm_info_mask sz"

definition kMaxBenesSize :: nat where "kMaxBenesSize = 16"

text \<open>One two-by-two switch: both outputs come from the copy made before the level.\<close>

definition benes_switch ::
  "nat list \<Rightarrow> nat \<Rightarrow> nat \<Rightarrow> nat \<Rightarrow> nat \<Rightarrow> nat \<Rightarrow> nat list \<Rightarrow> nat list res" where
  "benes_switch scratch layer block_size half_block block_id i vals =
     (let do_swap = (drop_bit (block_id * half_block + i) layer AND 1 \<noteq> 0);
          idx1 = block_id * block_size + i;
          idx2 = idx1 + half_block
      in bindr (rd scratch (if do_swap then idx2 else idx1)) (\<lambda>x.
         bindr (wr vals idx1 x) (\<lambda>vals1.
         bindr (rd scratch (if do_swap then idx1 else idx2)) (\<lambda>y. wr vals1 idx2 y))))"

definition benes_level :: "nat \<Rightarrow> nat \<Rightarrow> nat \<Rightarrow> nat \<Rightarrow> nat list \<Rightarrow> nat list res" where
  "benes_level sz levels perm level vals =
     bindr (foldr_res (\<lambda>i s. bindr (rd vals i) (\<lambda>v. wr s i v)) [0..<sz]
              (replicate kMaxBenesSize 0)) (\<lambda>scratch.
     let half_size = sz div 2;
         layer = drop_bit (level * half_size) perm AND (2 ^ half_size - 1);
         block_size = (if level < levels then 2 ^ (levels - level) else 2 ^ (1 + level - levels));
         half_block = block_size div 2
     in foldr_res (\<lambda>block_id. foldr_res (benes_switch scratch layer block_size half_block block_id)
                                [0..<half_block]) [0..<sz div block_size] vals)"

definition apply_benes_network :: "nat list \<Rightarrow> nat \<Rightarrow> nat \<Rightarrow> nat list res" where
  "apply_benes_network vals sz perm_bits =
     (if sz < 2 \<or> \<not> is_power_of_two sz \<or> sz > kMaxBenesSize then Inr vals
      else let levels = ilog2_pow2 sz; perm = perm_bits AND automorphism_perm_info_mask sz
           in foldr_res (benes_level sz levels perm) [0..<2 * levels] vals)"

definition select_perm_span :: "nat \<Rightarrow> nat \<Rightarrow> nat" where
  "select_perm_span register_count hint =
     (if hint \<ge> 2 \<and> is_power_of_two hint \<and> hint \<le> register_count \<and> hint \<le> 16 then hint
      else if register_count \<ge> 16 then 16
      else if register_count \<ge> 8 then 8
      else if register_count \<ge> 4 then 4
      else if register_count \<ge> 2 then 2 else 1)"

section \<open>Transposes\<close>

definition transpose_square_matrix :: "nat list \<Rightarrow> nat list \<Rightarrow> nat \<Rightarrow> nat list res" where
  "transpose_square_matrix in_matrix out_matrix side =
     foldr_res (\<lambda>r. foldr_res (\<lambda>c s. bindr (rd in_matrix (r * side + c)) (\<lambda>v. wr s (c * side + r) v))
                      [0..<side]) [0..<side] out_matrix"

text \<open>One row through the network: \<open>row_buf\<close> keeps its contents between rows.\<close>

definition permute_row ::
  "nat list \<Rightarrow> nat \<Rightarrow> nat \<Rightarrow> nat \<Rightarrow> nat list \<times> nat list \<Rightarrow> (nat list \<times> nat list) res" where
  "permute_row mat side perm r s = (case s of (row_buf, stage) \<Rightarrow>
     bindr (foldr_res (\<lambda>c b. bindr (rd mat (r * side + c)) (\<lambda>v. wr b c v)) [0..<side] row_buf)
       (\<lambda>row1.
     bindr (apply_benes_network row1 side perm) (\<lambda>row2.
     bindr (foldr_res (\<lambda>c t. bindr (rd row2 c) (\<lambda>v. wr t (r * side + c) v)) [0..<side] stage)
       (\<lambda>stage'. Inr (row2, stage')))))"

definition apply_automorphism_matrix :: "nat list \<Rightarrow> nat \<Rightarrow> nat \<Rightarrow> nat \<Rightarrow> nat list res" where
  "apply_automorphism_matrix matrix_words side col_perm_info row_perm_info =
     (let col_perm = sanitize_perm_info col_perm_info side;
          row_perm = sanitize_perm_info row_perm_info side
      in bindr (foldr_res (permute_row matrix_words side col_perm) [0..<side]
                  (replicate 16 0, replicate 256 0)) (\<lambda>(row_buf, stage1).
         bindr (transpose_square_matrix stage1 (replicate 256 0) side) (\<lambda>stage2.
         bindr (foldr_res (permute_row stage2 side row_perm) [0..<side] (row_buf, stage1))
           (\<lambda>(row_buf', stage1').
         transpose_square_matrix stage1' matrix_words side))))"

text \<open>The doubling loop starts at 1, so the first conjunct holds whenever the code evaluates it.\<close>

function transpose_side_loop :: "nat \<Rightarrow> nat \<Rightarrow> nat" where
  "transpose_side_loop register_count side =
     (if side \<noteq> 0 \<and> w32 ((side * 2) * (side * 2)) \<le> register_count \<and> side * 2 \<le> 32
      then transpose_side_loop register_count (side * 2) else side)"
  by pat_completeness auto
termination transpose_side_loop
  by (relation "measure (\<lambda>(rc, side). 32 - side)") auto

declare transpose_side_loop.simps [simp del]

definition choose_transpose_side :: "nat \<Rightarrow> nat \<Rightarrow> nat" where
  "choose_transpose_side register_count side_hint =
     (if register_count = 0 then 1
      else if side_hint > 1 \<and> is_power_of_two side_hint \<and>
              w32 (side_hint * side_hint) \<le> register_count \<and> side_hint \<le> 32 then side_hint
      else transpose_side_loop register_count 1)"

definition transpose_full_stream :: "nat list \<Rightarrow> nat list \<Rightarrow> nat \<Rightarrow> nat \<Rightarrow> nat list res" where
  "transpose_full_stream in_cols out_cols row_size col_size =
     (if row_size = 0 \<or> col_size = 0 \<or> row_size mod col_size \<noteq> 0 then Inr out_cols
      else let ratio = row_size div col_size in
        foldr_res (\<lambda>i. foldr_res (\<lambda>j. foldr_res (\<lambda>k s.
            bindr (rd in_cols (i * row_size + j * ratio + k)) (\<lambda>v.
            wr s (j * row_size + i * ratio + k) v)) [0..<ratio]) [0..<col_size]) [0..<col_size]
          out_cols)"

definition transpose_network_permutation ::
  "nat list \<Rightarrow> nat list \<Rightarrow> nat \<Rightarrow> nat \<Rightarrow> nat list res" where
  "transpose_network_permutation in_data out_data cluster_num row_size =
     (if cluster_num = 0 \<or> row_size = 0 \<or> row_size mod cluster_num \<noteq> 0 then Inr out_data
      else let col_size = row_size div cluster_num in
        foldr_res (\<lambda>block. foldr_res (\<lambda>src_id. foldr_res (\<lambda>src_elem s.
            bindr (rd in_data (src_id * row_size + block * cluster_num + src_elem)) (\<lambda>v.
            wr s (src_elem * row_size + block * cluster_num + src_id) v)) [0..<cluster_num])
          [0..<cluster_num]) [0..<col_size] out_data)"

section \<open>What the bit reversals compute\<close>

lemma bit_double_or: "bit (r * 2 OR (x AND 1)) k \<longleftrightarrow> (if k = 0 then odd x else bit (r :: nat) (k - 1))"
proof -
  have "r * 2 OR (x AND 1) = r * 2 + x mod 2"
    by (cases "even x") (simp_all add: and_one_eq or_one_eq odd_iff_mod_2_eq_one)
  then show ?thesis by (cases k) (simp_all add: bit_0 bit_Suc odd_iff_mod_2_eq_one)
qed

lemma bit_reverse_bits:
  assumes "b \<le> 32"
  shows "bit (reverse_bits_u32 v b) k \<longleftrightarrow> k < b \<and> bit v (b - 1 - k)"
  using assms
proof (induction b arbitrary: k)
  case 0
  then show ?case by (simp add: reverse_bits_u32_def)
next
  case (Suc b)
  define r where "r = reverse_bits_u32 v b"
  have ih: "bit r k \<longleftrightarrow> k < b \<and> bit v (b - 1 - k)" for k
    using Suc by (simp add: r_def)
  have "take_bit b r = r" by (rule bit_eqI) (auto simp: bit_take_bit_iff ih)
  then have "r < 2 ^ b" by (simp add: take_bit_nat_eq_self_iff)
  then have "r * 2 < 2 ^ Suc b" by simp
  also have "(2 :: nat) ^ Suc b \<le> 2 ^ 32" using Suc.prems by (intro power_increasing) simp_all
  finally have "w32 (r * 2) = r * 2" by (rule w32_id)
  then have "reverse_bits_u32 v (Suc b) = r * 2 OR (drop_bit b v AND 1)"
    by (simp add: reverse_bits_u32_def r_def)
  moreover have "odd (drop_bit b v) = bit v b" by (simp add: bit_iff_odd_drop_bit)
  moreover have "k - 1 < b \<Longrightarrow> 0 < k \<Longrightarrow> b - 1 - (k - 1) = b - k" by linarith
  ultimately show ?case by (auto simp: bit_double_or ih)
qed

lemma reverse_bits_rev_index: "L \<le> 32 \<Longrightarrow> reverse_bits_u32 v L = rev_index L v"
  by (rule bit_eqI) (simp add: bit_reverse_bits bit_rev_index)

lemma reverse_bits_upper:
  assumes "L < 32" "k < 2 ^ L"
  shows "reverse_bits_u32 (2 ^ L + k) (L + 1) = 2 * rev_index L k + 1"
proof (rule bit_eqI)
  fix j
  have nb: "\<not> bit k i" if "L \<le> i" for i
    using assms(2) that by (metis bit_take_bit_iff not_le take_bit_nat_eq_self_iff)
  have "2 ^ L AND k = 0" by (rule bit_eqI) (auto simp: bit_and_iff bit_exp_iff nb)
  then have "2 ^ L + k = 2 ^ L OR k" by (rule disjunctive_add_eq_or)
  then have u: "bit (2 ^ L + k) i \<longleftrightarrow> i = L \<or> bit k i" for i
    by (auto simp: bit_or_iff bit_exp_iff)
  have "bit (2 * rev_index L k + 1) j \<longleftrightarrow> j = 0 \<or> bit (rev_index L k) (j - 1)"
    by (cases j) (simp_all add: bit_0 bit_Suc)
  then show "bit (reverse_bits_u32 (2 ^ L + k) (L + 1)) j = bit (2 * rev_index L k + 1) j"
    using assms(1) nb [of "L - j"] by (cases j) (auto simp: bit_reverse_bits bit_rev_index u plus_1_eq_Suc)
qed

lemma galois_source_eq:
  assumes "1 \<le> L" "L \<le> 30" "k < 2 ^ L" "g < 2 ^ 32"
  shows "galois_source (2 ^ L) g k = rev_index L (g * (2 * rev_index L k + 1) div 2 mod 2 ^ L)"
proof -
  have p: "(2 :: nat) ^ L \<le> 2 ^ 30" using assms(2) by (intro power_increasing) simp_all
  have r: "rev_index L k < 2 ^ L" using assms(2) by (intro rev_index_less) simp
  have "2 * rev_index L k + 1 < 2 ^ 32" using r p by simp
  then have "g * (2 * rev_index L k + 1) < 2 ^ 32 * 2 ^ 32"
    using assms(4) by (intro mult_strict_mono) simp_all
  then have w: "w64 (g * (2 * rev_index L k + 1)) = g * (2 * rev_index L k + 1)" by simp
  have n: "w32 (2 ^ L + k) = 2 ^ L + k" using p assms(3) by simp
  have "sub32 (2 ^ L) 1 = 2 ^ L - 1" using p by (intro sub32_ge) simp_all
  then have m: "x AND sub32 (2 ^ L) 1 = x mod 2 ^ L" for x
    by (simp add: take_bit_eq_mask mask_eq_exp_minus_1 flip: take_bit_eq_mod)
  have "x mod 2 ^ L < 2 ^ 32" for x :: nat
  proof -
    have "x mod 2 ^ L < 2 ^ L" by simp
    moreover have "(2 :: nat) ^ 30 < 2 ^ 32" by simp
    ultimately show ?thesis using p by linarith
  qed
  moreover have "reverse_bits_u32 (2 ^ L + k) (L + 1) = 2 * rev_index L k + 1"
    by (rule reverse_bits_upper) (use assms(2,3) in simp_all)
  ultimately show ?thesis
    using assms(2) by (simp add: galois_source_def ilog2_pow2_def bit_count_power n w m
        drop_bit_eq_div reverse_bits_rev_index Let_def)
qed

section \<open>A rotation is a Galois automorphism\<close>

text \<open>The permutation into a block that does not overlap its source.\<close>

lemma apply_galois_ok:
  assumes L: "1 \<le> L" "L \<le> 30" and g: "odd g" "g < 2 ^ 32"
    and b: "src + 2 ^ L \<le> length buf" "dst + 2 ^ L \<le> length buf"
    and d: "src + 2 ^ L \<le> dst \<or> dst + 2 ^ L \<le> src"
  shows "apply_galois_ntt_permutation buf src dst (2 ^ L) g =
    Inr (take dst buf @
         List.map (\<lambda>k. buf ! (src + rev_index L (g * (2 * rev_index L k + 1) div 2 mod 2 ^ L))) [0..<2 ^ L] @
         drop (dst + 2 ^ L) buf)"
proof -
  let ?n = "2 ^ L :: nat"
  define s where "s k = rev_index L (g * (2 * rev_index L k + 1) div 2 mod 2 ^ L)" for k
  have L32: "L \<le> 32" using L(2) by simp
  have s: "s k < ?n" for k unfolding s_def by (rule rev_index_less [OF L32])
  have "\<exists>b'. foldr_res (\<lambda>k b. bindr (rd b (src + galois_source ?n g k)) (\<lambda>v. wr b (dst + k) v)) [0..<?n] buf = Inr b' \<and>
      (length b' = length buf \<and> (\<forall>k < ?n. b' ! (dst + k) = buf ! (src + s k)) \<and>
       (\<forall>i. i < dst \<or> dst + ?n \<le> i \<longrightarrow> b' ! i = buf ! i))"
  proof (rule foldr_res_range [where I = "\<lambda>n b'. length b' = length buf \<and>
      (\<forall>k < n. b' ! (dst + k) = buf ! (src + s k)) \<and>
      (\<forall>i. i < dst \<or> dst + n \<le> i \<longrightarrow> b' ! i = buf ! i)"])
    fix k b'
    assume k: "k < ?n" and I: "length b' = length buf \<and>
      (\<forall>j < k. b' ! (dst + j) = buf ! (src + s j)) \<and>
      (\<forall>i. i < dst \<or> dst + k \<le> i \<longrightarrow> b' ! i = buf ! i)"
    have sk: "galois_source ?n g k = s k"
      unfolding s_def using L k g(2) by (rule galois_source_eq)
    have "src + s k < dst \<or> dst + k \<le> src + s k" using d s [of k] k by linarith
    then have "b' ! (src + s k) = buf ! (src + s k)" using I by blast
    moreover have "src + s k < length b'" "dst + k < length b'"
      using I b s [of k] k by simp_all
    ultimately show "\<exists>b''. bindr (rd b' (src + galois_source ?n g k)) (\<lambda>v. wr b' (dst + k) v) = Inr b'' \<and>
        length b'' = length buf \<and> (\<forall>j < Suc k. b'' ! (dst + j) = buf ! (src + s j)) \<and>
        (\<forall>i. i < dst \<or> dst + Suc k \<le> i \<longrightarrow> b'' ! i = buf ! i)"
      using I by (auto simp: sk nth_list_update less_Suc_eq)
  qed simp
  then obtain b' where b': "foldr_res (\<lambda>k b. bindr (rd b (src + galois_source ?n g k)) (\<lambda>v. wr b (dst + k) v)) [0..<?n] buf = Inr b'"
    "length b' = length buf" "\<And>k. k < ?n \<Longrightarrow> b' ! (dst + k) = buf ! (src + s k)"
    "\<And>i. i < dst \<or> dst + ?n \<le> i \<Longrightarrow> b' ! i = buf ! i" by blast
  have "b' = take dst buf @ List.map (\<lambda>k. buf ! (src + s k)) [0..<?n] @ drop (dst + ?n) buf"
  proof (rule nth_equalityI)
    fix i assume i: "i < length b'"
    have "dst \<le> i \<Longrightarrow> i < dst + ?n \<Longrightarrow> b' ! i = buf ! (src + s (i - dst))"
      using b'(3) [of "i - dst"] by simp
    with i show "b' ! i = (take dst buf @ List.map (\<lambda>k. buf ! (src + s k)) [0..<?n] @ drop (dst + ?n) buf) ! i"
      using b'(2,4) b by (auto simp: nth_append not_less)
  qed (use b'(2) b in simp)
  moreover have "g AND 1 \<noteq> 0" using g(1) by (simp add: and_one_eq odd_iff_mod_2_eq_one)
  ultimately show ?thesis
    using b'(1) by (simp add: apply_galois_ntt_permutation_def power_of_two_ok s_def)
qed

text \<open>
  The polynomial \<open>a(X^g)\<close> modulo \<open>X^n + 1\<close>: coefficient \<open>j\<close> moves to \<open>g * j\<close> modulo \<open>2 * n\<close>, with a
  minus when it lands in the upper half.
\<close>

definition galois_poly :: "nat \<Rightarrow> nat \<Rightarrow> nat \<Rightarrow> nat list \<Rightarrow> nat \<Rightarrow> nat" where
  "galois_poly q n g a m =
     (\<Sum>j<n. if g * j mod (2 * n) = m then a ! j
            else if g * j mod (2 * n) = m + n then (q - 1) * a ! j else 0) mod q"

lemma power_mod_period:
  assumes "p ^ m mod q = 1" "1 < q"
  shows "p ^ e mod q = p ^ (e mod m) mod (q :: nat)"
proof -
  have "p ^ e = (p ^ m) ^ (e div m) * p ^ (e mod m)"
    by (simp flip: power_mult power_add)
  moreover have "(p ^ m) ^ (e div m) mod q = 1"
    using assms by (metis mod_less power_mod power_one)
  ultimately show ?thesis by (metis mod_mult_left_eq mult_1)
qed

lemma galois_eval:
  assumes q: "1 < q" and p: "p ^ n mod q = q - 1" and n: "0 < n"
  shows "(\<Sum>m<n. galois_poly q n g a m * p ^ m) mod q = (\<Sum>j<n. a ! j * p ^ (g * j)) mod q"
proof -
  let ?c = "\<lambda>j m. if g * j mod (2 * n) = m then a ! j
            else if g * j mod (2 * n) = m + n then (q - 1) * a ! j else 0"
  have p2: "p ^ (2 * n) mod q = 1"
    using minus_one_square [OF q p] by (simp add: mult_2 power_add)
  have "(\<Sum>m<n. galois_poly q n g a m * p ^ m) mod q = (\<Sum>m<n. \<Sum>j<n. ?c j m * p ^ m) mod q"
  proof (rule sum_mod_cong)
    fix m
    have "galois_poly q n g a m * p ^ m mod q = (\<Sum>j<n. ?c j m) * p ^ m mod q"
      unfolding galois_poly_def by (rule mod_mult_left_eq)
    then show "galois_poly q n g a m * p ^ m mod q = (\<Sum>j<n. ?c j m * p ^ m) mod q"
      by (simp only: sum_distrib_right)
  qed
  also have "(\<Sum>m<n. \<Sum>j<n. ?c j m * p ^ m) = (\<Sum>j<n. \<Sum>m<n. ?c j m * p ^ m)" by (rule sum.swap)
  also have "\<dots> mod q = (\<Sum>j<n. a ! j * p ^ (g * j)) mod q"
  proof (rule sum_mod_cong)
    fix j
    define e where "e = g * j mod (2 * n)"
    have e: "e < 2 * n" using n by (simp add: e_def)
    have pe: "p ^ (g * j) mod q = p ^ e mod q"
      unfolding e_def by (rule power_mod_period [OF p2 q])
    show "(\<Sum>m<n. ?c j m * p ^ m) mod q = a ! j * p ^ (g * j) mod q"
    proof (cases "e < n")
      case True
      have "(\<Sum>m<n. ?c j m * p ^ m) = (\<Sum>m<n. if m = e then a ! j * p ^ m else 0)"
        using True by (intro sum.cong) (auto simp: e_def [symmetric])
      also have "\<dots> = a ! j * p ^ e" using True by simp
      finally show ?thesis using pe by (metis mod_mult_right_eq)
    next
      case False
      then have en: "e = e - n + n" "e - n < n" using e by simp_all
      have "(\<Sum>m<n. ?c j m * p ^ m) = (\<Sum>m<n. if m = e - n then (q - 1) * a ! j * p ^ m else 0)"
        using False by (intro sum.cong) (auto simp: e_def [symmetric])
      also have "\<dots> = a ! j * (p ^ (e - n) * (q - 1))" using en(2) by (simp add: ac_simps)
      also have "\<dots> mod q = a ! j * (p ^ (e - n) * p ^ n) mod q"
        by (intro mod_mult_cong refl) (use p q in simp)
      also have "p ^ (e - n) * p ^ n = p ^ e" using en(1) by (simp flip: power_add)
      finally show ?thesis using pe by (metis mod_mult_right_eq)
    qed
  qed
  finally show ?thesis .
qed

text \<open>The index arithmetic of the permutation on the odd exponents.\<close>

lemma galois_exponent:
  assumes "odd g" "0 < n"
  shows "(2 * (g * (2 * r + 1) div 2 mod n) + 1) mod (2 * n) = g * (2 * r + 1) mod (2 * (n :: nat))"
proof -
  let ?x = "g * (2 * r + 1)"
  have "odd ?x" using assms(1) by simp
  then have x: "?x = 2 * (?x div 2) + 1" by (rule odd_two_times_div_two_succ [symmetric])
  have "2 * (?x div 2 mod n) = 2 * (?x div 2) mod (2 * n)" by (rule mult_mod_right)
  then have "(2 * (?x div 2 mod n) + 1) mod (2 * n) = (2 * (?x div 2) mod (2 * n) + 1) mod (2 * n)"
    by (rule arg_cong)
  also have "\<dots> = (2 * (?x div 2) + 1) mod (2 * n)" by (rule mod_add_left_eq)
  also have "\<dots> = ?x mod (2 * n)" by (rule arg_cong [OF x [symmetric]])
  finally show ?thesis .
qed

lemma eval_galois:
  assumes r: "roots_ok q L r" and g: "odd g"
  shows "negacyclic_eval q (nr_psi r) (2 ^ L) (\<lambda>m. galois_poly q (2 ^ L) g a m) k =
    negacyclic_eval q (nr_psi r) (2 ^ L) ((!) a) (g * (2 * k + 1) div 2 mod 2 ^ L)"
proof -
  let ?n = "2 ^ L :: nat" and ?p = "nr_psi r"
  let ?k' = "g * (2 * k + 1) div 2 mod ?n"
  note f = roots_ok_facts [OF r]
  have p: "?p ^ ?n mod q = q - 1" using r by (simp add: roots_ok_def)
  have p2: "?p ^ (2 * ?n) mod q = 1"
    using minus_one_square [OF f(1) p] by (simp add: mult_2 power_add)
  define y where "y = ?p ^ (2 * k + 1)"
  have yn: "y ^ ?n mod q = q - 1"
  proof -
    have "y ^ ?n = (?p ^ ?n) ^ (2 * k + 1)" by (simp add: y_def mult.commute flip: power_mult)
    moreover have "q dvd ?p ^ ?n + 1"
    proof -
      have "(?p ^ ?n + 1) mod q = (q - 1 + 1) mod q" using p by (metis mod_add_left_eq)
      then show ?thesis using f(1) by (simp add: mod_eq_0_iff_dvd)
    qed
    then have "q dvd (?p ^ ?n) ^ (2 * k + 1) + 1" by (rule minus_one_odd_power) simp
    ultimately have d: "(y ^ ?n + 1) mod q = 0" by (simp add: mod_eq_0_iff_dvd)
    have l: "y ^ ?n mod q < q" using f(1) by simp
    have "(y ^ ?n mod q + 1) mod q = 0" using d by (simp add: mod_add_left_eq)
    then have "\<not> y ^ ?n mod q + 1 < q" by (metis add_is_0 mod_less one_neq_zero)
    with l show ?thesis by linarith
  qed
  have "negacyclic_eval q ?p ?n (\<lambda>m. galois_poly q ?n g a m) k = (\<Sum>m<?n. galois_poly q ?n g a m * y ^ m) mod q"
    by (simp add: negacyclic_eval_def y_def mult.commute flip: power_mult)
  also have "\<dots> = (\<Sum>j<?n. a ! j * y ^ (g * j)) mod q"
    by (rule galois_eval [OF f(1) yn]) simp
  also have "\<dots> = (\<Sum>j<?n. a ! j * ?p ^ (j * (2 * ?k' + 1))) mod q"
  proof (rule sum_mod_cong, rule mod_mult_cong [OF refl])
    fix j
    have "(2 * ?k' + 1) * j mod (2 * ?n) = g * (2 * k + 1) * j mod (2 * ?n)"
      using galois_exponent [OF g, of ?n k] by (intro mod_mult_cong) simp_all
    then have "?p ^ ((2 * ?k' + 1) * j) mod q = ?p ^ (g * (2 * k + 1) * j) mod q"
      using power_mod_period [OF p2 f(1)] by metis
    then show "y ^ (g * j) mod q = ?p ^ (j * (2 * ?k' + 1)) mod q"
      by (simp add: y_def ac_simps flip: power_mult)
  qed
  finally show ?thesis by (simp add: negacyclic_eval_def)
qed

lemma permuted_transform:
  assumes "table_has q n" "length a = n" "odd g" "g < 2 ^ 32"
  shows "bindr (ntt_apply_dit a n q pid False) (\<lambda>x.
      apply_galois_ntt_permutation (x @ replicate n 0) 0 n n g) =
    bindr (ntt_apply_dit a n q pid False) (\<lambda>x.
    bindr (ntt_apply_dit (List.map (galois_poly q n g a) [0..<n]) n q pid False) (\<lambda>y. Inr (x @ y)))"
proof -
  obtain L r where n: "n = 2 ^ L" and res: "\<And>pid. resolve_negacyclic_roots q n pid = Inr r"
    and r: "roots_ok q L r" using table_roots [OF assms(1)] by blast
  have L: "1 \<le> L" "L \<le> 7" "L \<le> 30" "L \<le> 32" using r by (simp_all add: roots_ok_def)
  let ?X = "\<lambda>a. negacyclic_eval q (nr_psi r) (2 ^ L) a"
  let ?f = "\<lambda>a. List.map (\<lambda>k. ?X ((!) a) (rev_index L k)) [0..<2 ^ L]"
  have fwd: "ntt_apply_negacyclic_four_step c n q pid False = Inr (?f c)" if "length c = n" for c
    using forward_transform [OF res [unfolded n] r, of c] that by (simp add: n)
  let ?b = "List.map (galois_poly q n g a) [0..<n]"
  have ev: "?X ((!) ?b) k = ?X ((!) a) (g * (2 * k + 1) div 2 mod 2 ^ L)" for k
  proof -
    have "?X ((!) ?b) k = ?X (\<lambda>m. galois_poly q (2 ^ L) g a m) k"
      unfolding negacyclic_eval_def by (rule sum_mod_cong) (simp add: n)
    then show ?thesis using eval_galois [OF r assms(3)] by simp
  qed
  have perm: "apply_galois_ntt_permutation (?f a @ replicate n 0) 0 n n g =
      Inr (?f a @ List.map (\<lambda>k. (?f a @ replicate n 0) !
             rev_index L (g * (2 * rev_index L k + 1) div 2 mod 2 ^ L)) [0..<2 ^ L])"
    using apply_galois_ok [OF L(1,3) assms(3,4), of 0 "?f a @ replicate n 0" n] by (simp add: n)
  have "(?f a @ replicate n 0) ! rev_index L m = ?X ((!) a) m" if "m < 2 ^ L" for m
    using rev_index_less [OF L(4), of m] rev_index_rev_index [OF L(4) that] by (simp add: nth_append)
  then have "List.map (\<lambda>k. (?f a @ replicate n 0) !
             rev_index L (g * (2 * rev_index L k + 1) div 2 mod 2 ^ L)) [0..<2 ^ L] = ?f ?b"
    by (simp add: ev del: map_append)
  then show ?thesis
    using perm fwd [OF assms(2)] fwd [of ?b] by (simp add: ntt_apply_dit_def)
qed

text \<open>The generator loop is a power modulo \<open>2 * n\<close>.\<close>

lemma galois_loop_power:
  assumes "M \<le> 31" "g < 2 ^ M"
  shows "galois_loop k (2 ^ M) g = g * 5 ^ k mod 2 ^ M"
  using assms(2)
proof (induction k arbitrary: g)
  case (Suc k)
  have M: "(2 :: nat) ^ M \<le> 2 ^ 31" using assms(1) by (intro power_increasing) simp_all
  have "g < 2 ^ 31" using Suc.prems M by linarith
  then have "w64 (g * 5) = g * 5" by simp
  moreover have "sub64 (2 ^ M) 1 = 2 ^ M - 1" using M by (intro sub64_ge) simp_all
  ultimately have s: "w64 (g * 5) AND sub64 (2 ^ M) 1 = g * 5 mod 2 ^ M"
    by (simp add: take_bit_eq_mask mask_eq_exp_minus_1 flip: take_bit_eq_mod)
  then have "galois_loop (Suc k) (2 ^ M) g = g * 5 mod 2 ^ M * 5 ^ k mod 2 ^ M"
    using Suc.IH [of "g * 5 mod 2 ^ M"] by simp
  also have "\<dots> = g * 5 * 5 ^ k mod 2 ^ M" by (rule mod_mult_left_eq)
  also have "\<dots> = g * 5 ^ Suc k mod 2 ^ M" by (simp add: ac_simps)
  finally show ?case .
qed simp

lemma galois_elt_power:
  assumes "1 \<le> L" "L \<le> 30" "step \<noteq> 0" "\<bar>step\<bar> < 2 ^ (L - 1)"
  shows "galois_elt_from_step (2 ^ L) step =
    Inr (5 ^ (if 0 < step then nat step else 2 ^ (L - 1) - nat (- step)) mod 2 ^ (L + 1))"
proof -
  have n: "2 \<le> (2 :: nat) ^ L" using power_increasing [OF assms(1), of "2 :: nat"] by simp
  have p: "(2 :: nat) ^ (L + 1) \<le> 2 ^ 31" using assms(2) by (intro power_increasing) simp_all
  have e: "(2 :: nat) ^ L * 2 = 2 ^ (L + 1)" by (simp only: power_add power_one_right)
  then have "(2 :: nat) ^ L * 2 < 2 ^ 32" using p by (simp only: e) simp
  then have w: "w32 (2 ^ L * 2) = 2 ^ (L + 1)" by (metis e w32_id)
  have h: "(2 :: nat) ^ L div 2 = 2 ^ (L - 1)" using assms(1) by (cases L) simp_all
  have hi: "(2 :: int) ^ (L - 1) \<le> 2 ^ 29" using assms(2) by (intro power_increasing) simp_all
  have g: "galois_loop k (2 ^ (L + 1)) 1 = 5 ^ k mod 2 ^ (L + 1)" for k
    using galois_loop_power [of "L + 1" 1 k] assms(1,2) by simp
  have "5 ^ k mod 2 ^ (L + 1) < (2 :: nat) ^ 32" for k
  proof -
    have "5 ^ k mod 2 ^ (L + 1) < (2 :: nat) ^ (L + 1)" by simp
    moreover have "(2 :: nat) ^ 31 < 2 ^ 32" by simp
    ultimately show ?thesis using p by linarith
  qed
  then have w2: "w32 (5 ^ k mod 2 ^ (L + 1)) = 5 ^ k mod 2 ^ (L + 1)" for k by simp
  have "(2 :: int) ^ 29 < 2 ^ 31" by simp
  then have m: "- step < 2 ^ 31" using assms(4) hi by linarith
  show ?thesis
  proof (cases "0 < step")
    case True
    then have "nat step < 2 ^ (L - 1)" using assms(4) by (simp add: nat_less_iff)
    then show ?thesis
      using True n m by (simp add: galois_elt_from_step_def power_of_two_ok Let_def w h g w2)
  next
    case False
    then have lt: "nat (- step) < 2 ^ (L - 1)" using assms(4) by (simp add: nat_less_iff)
    then have "nat (2 ^ (L - 1) - int (nat (- step))) = 2 ^ (L - 1) - nat (- step)"
      by (simp add: nat_diff_distrib nat_power_eq del: int_nat_eq)
    then show ?thesis
      using False lt n m assms(3)
      by (simp add: galois_elt_from_step_def power_of_two_ok Let_def w h g w2 del: int_nat_eq)
  qed
qed

text \<open>Five to the power \<open>n / 2\<close> is 1 modulo \<open>2 * n\<close>, so opposite rotations undo each other.\<close>

lemma five_power: "5 ^ 2 ^ k mod 2 ^ (k + 2) = (1 :: nat)"
proof (induction k)
  case (Suc k)
  define x where "x = (5 :: nat) ^ 2 ^ k"
  have "x mod 2 ^ (k + 2) = 1" using Suc by (simp add: x_def)
  then have "x = 2 ^ (k + 2) * (x div 2 ^ (k + 2)) + 1" by (metis mult_div_mod_eq)
  then obtain y where y: "x = 2 ^ (k + 2) * y + 1" by blast
  have "x * x = 2 ^ (k + 3) * (2 ^ (k + 1) * y * y + y) + 1"
    by (simp add: y power_add algebra_simps)
  moreover have "5 ^ 2 ^ Suc k = x * x" by (simp add: x_def mult_2 power_add)
  moreover have "1 < (2 :: nat) ^ (k + 3)" by (rule one_less_power) simp_all
  ultimately show ?case by (simp add: numeral_3_eq_3)
qed simp

lemma opposite_steps:
  assumes "1 \<le> L" "L \<le> 30" "0 < s" "s < 2 ^ (L - 1)"
  shows "\<exists>g h. galois_elt_from_step (2 ^ L) (int s) = Inr g \<and> galois_elt_from_step (2 ^ L) (- int s) = Inr h \<and>
    g * h mod (2 * 2 ^ L) = 1"
proof -
  have b: "int s < 2 ^ (L - 1)" using assms(4) by (metis of_nat_less_iff of_nat_numeral of_nat_power)
  let ?m = "2 ^ (L + 1) :: nat"
  have e: "2 * 2 ^ L = ?m" by (simp only: power_add power_one_right mult.commute)
  have "5 ^ s mod ?m * (5 ^ (2 ^ (L - 1) - s) mod ?m) mod ?m = 5 ^ s * 5 ^ (2 ^ (L - 1) - s) mod ?m"
    by (rule mod_mult_eq)
  also have "5 ^ s * 5 ^ (2 ^ (L - 1) - s) = (5 :: nat) ^ 2 ^ (L - 1)"
    using assms(4) by (simp flip: power_add)
  also have "\<dots> mod ?m = 1"
  proof -
    have "L - 1 + 2 = L + 1" using assms(1) by simp
    then show ?thesis using five_power [of "L - 1"] by (simp only:)
  qed
  finally show ?thesis
    using galois_elt_power [of L "int s"] galois_elt_power [of L "- int s"] assms b by (simp only: e) simp
qed

section \<open>The Benes network permutes\<close>

text \<open>One switch, on positions that still hold what the copy holds, exchanges two values or none.\<close>

lemma benes_switch_ok:
  assumes "i < half" "b * (2 * half) + 2 * half \<le> length vals"
    and "b * (2 * half) + 2 * half \<le> length scratch"
    and "\<And>j. j \<in> {b * (2 * half) + i, b * (2 * half) + i + half} \<Longrightarrow> vals ! j = scratch ! j"
  shows "\<exists>v. benes_switch scratch layer (2 * half) half b i vals = Inr v \<and> mset v = mset vals \<and>
    (\<forall>j. j \<notin> {b * (2 * half) + i, b * (2 * half) + i + half} \<longrightarrow> v ! j = vals ! j)"
proof -
  let ?x = "b * (2 * half) + i"
  let ?y = "?x + half"
  have l: "?x < length vals" "?y < length vals" "?x < length scratch" "?y < length scratch"
    using assms(1-3) by linarith+
  have e: "scratch ! ?x = vals ! ?x" "scratch ! ?y = vals ! ?y" using assms(4) by simp_all
  show ?thesis
  proof (cases "drop_bit (b * half + i) layer AND 1 = 0")
    case True
    then show ?thesis using l e by (simp add: benes_switch_def Let_def del: of_nat_add)
  next
    case False
    have "mset (vals[?x := vals ! ?y, ?y := vals ! ?x]) = mset vals" using l(1,2) by (intro mset_swap)
    then show ?thesis using False l e by (simp add: benes_switch_def Let_def)
  qed
qed

lemma benes_block_ok:
  assumes "b * (2 * half) + 2 * half \<le> length vals" "b * (2 * half) + 2 * half \<le> length scratch"
    and "\<And>j. b * (2 * half) \<le> j \<Longrightarrow> j < b * (2 * half) + 2 * half \<Longrightarrow> vals ! j = scratch ! j"
  shows "\<exists>v. foldr_res (benes_switch scratch layer (2 * half) half b) [0..<half] vals = Inr v \<and>
    mset v = mset vals \<and> (\<forall>j. b * (2 * half) + 2 * half \<le> j \<longrightarrow> v ! j = vals ! j)"
proof -
  let ?B = "b * (2 * half)"
  have "\<exists>v. foldr_res (benes_switch scratch layer (2 * half) half b) [0..<half] vals = Inr v \<and>
    (mset v = mset vals \<and> (\<forall>j. (?B + half \<le> j \<and> j < ?B + half) \<or> ?B + half + half \<le> j \<longrightarrow> v ! j = vals ! j))"
  proof (rule foldr_res_range [where I = "\<lambda>i v. mset v = mset vals \<and>
      (\<forall>j. (?B + i \<le> j \<and> j < ?B + half) \<or> ?B + half + i \<le> j \<longrightarrow> v ! j = vals ! j)"])
    fix i v
    assume i: "i < half" and I: "mset v = mset vals \<and>
      (\<forall>j. (?B + i \<le> j \<and> j < ?B + half) \<or> ?B + half + i \<le> j \<longrightarrow> v ! j = vals ! j)"
    have l: "length v = length vals" using I by (metis mset_eq_length)
    have "v ! j = scratch ! j" if "j \<in> {?B + i, ?B + i + half}" for j
    proof -
      have "?B \<le> j" "j < ?B + 2 * half" using that i by auto
      moreover have "v ! j = vals ! j" using that i I by auto
      ultimately show ?thesis using assms(3) by simp
    qed
    then obtain w where w: "benes_switch scratch layer (2 * half) half b i v = Inr w" "mset w = mset v"
      "\<forall>j. j \<notin> {?B + i, ?B + i + half} \<longrightarrow> w ! j = v ! j"
      using benes_switch_ok [OF i, of b v scratch layer] assms(1,2) l by auto
    have "w ! j = vals ! j" if "(?B + Suc i \<le> j \<and> j < ?B + half) \<or> ?B + half + Suc i \<le> j" for j
    proof -
      have "j \<notin> {?B + i, ?B + i + half}" "(?B + i \<le> j \<and> j < ?B + half) \<or> ?B + half + i \<le> j"
        using that i by auto
      then show ?thesis using w(3) I by metis
    qed
    then show "\<exists>w. benes_switch scratch layer (2 * half) half b i v = Inr w \<and> mset w = mset vals \<and>
      (\<forall>j. (?B + Suc i \<le> j \<and> j < ?B + half) \<or> ?B + half + Suc i \<le> j \<longrightarrow> w ! j = vals ! j)"
      using w(1,2) I by auto
  qed simp
  then show ?thesis by (auto simp: mult_2 add.assoc)
qed

lemma benes_level_ok:
  assumes "M \<in> {1, 2, 3, 4}" "2 ^ M \<le> length vals" "level < 2 * M"
  shows "\<exists>v. benes_level (2 ^ M) M perm level vals = Inr v \<and> mset v = mset vals"
proof -
  let ?sz = "2 ^ M :: nat"
  define half where "half = (2 :: nat) ^ (if level < M then M - level - 1 else level - M)"
  have bs: "(if level < M then 2 ^ (M - level) else 2 ^ (1 + level - M)) = 2 * half"
  proof (cases "level < M")
    case True
    then have "M - level = Suc (M - level - 1)" by simp
    then have "2 ^ (M - level) = 2 * (2 :: nat) ^ (M - level - 1)" by (metis power_Suc)
    with True show ?thesis by (simp add: half_def)
  next
    case False
    then have "1 + level - M = Suc (level - M)" by simp
    with False show ?thesis by (simp only: half_def if_False power_Suc)
  qed
  have "(if level < M then M - level - 1 else level - M) < M" using assms(1,3) by auto
  then have "(2 :: nat) ^ Suc (if level < M then M - level - 1 else level - M) dvd 2 ^ M"
    by (intro le_imp_power_dvd Suc_leI)
  then have dv: "2 * half dvd ?sz" by (simp only: half_def power_Suc)
  have "(2 :: nat) ^ M \<le> 2 ^ 4" using assms(1) by (intro power_increasing) auto
  then have s16: "?sz \<le> kMaxBenesSize" by (simp add: kMaxBenesSize_def)
  obtain scratch where sc: "foldr_res (\<lambda>i s. bindr (rd vals i) (\<lambda>v. wr s i v)) [0..<?sz]
      (replicate kMaxBenesSize 0) = Inr scratch" "length scratch = kMaxBenesSize"
      "\<forall>k < ?sz. scratch ! k = vals ! k"
    using scatter [of ?sz "rd vals" "(!) vals" "\<lambda>i. i" "replicate kMaxBenesSize 0"] assms(2) s16
    by auto
  define layer where "layer = drop_bit (level * (?sz div 2)) perm AND (2 ^ (?sz div 2) - 1)"
  have n: "?sz div (2 * half) * (2 * half) = ?sz" using dv by (rule dvd_div_mult_self)
  have h0: "half div 1 = half" by simp
  have "\<exists>v. foldr_res (\<lambda>b. foldr_res (benes_switch scratch layer (2 * half) half b) [0..<half])
      [0..<?sz div (2 * half)] vals = Inr v \<and> (mset v = mset vals \<and>
      (\<forall>j. ?sz div (2 * half) * (2 * half) \<le> j \<longrightarrow> v ! j = vals ! j))"
  proof (rule foldr_res_range [where I = "\<lambda>b v. mset v = mset vals \<and>
      (\<forall>j. b * (2 * half) \<le> j \<longrightarrow> v ! j = vals ! j)"])
    fix b v
    assume b: "b < ?sz div (2 * half)" and I: "mset v = mset vals \<and>
      (\<forall>j. b * (2 * half) \<le> j \<longrightarrow> v ! j = vals ! j)"
    have l: "length v = length vals" using I by (metis mset_eq_length)
    have "Suc b * (2 * half) \<le> ?sz div (2 * half) * (2 * half)" using b by (intro mult_le_mono1) simp
    then have le: "b * (2 * half) + 2 * half \<le> ?sz" using n by simp
    have v: "v ! j = scratch ! j" if "b * (2 * half) \<le> j" "j < ?sz" for j
      using that I sc(3) by simp
    have le1: "b * (2 * half) + 2 * half \<le> length v" using le l assms(2) by linarith
    have le2: "b * (2 * half) + 2 * half \<le> length scratch" using le sc(2) s16 by linarith
    have v2: "v ! j = scratch ! j" if "b * (2 * half) \<le> j" "j < b * (2 * half) + 2 * half" for j
      using v that le by simp
    obtain w where w: "foldr_res (benes_switch scratch layer (2 * half) half b) [0..<half] v = Inr w"
      "mset w = mset v" "\<forall>j. b * (2 * half) + 2 * half \<le> j \<longrightarrow> w ! j = v ! j"
      using benes_block_ok [of b half v scratch layer, OF le1 le2 v2] by blast
    then show "\<exists>w. foldr_res (benes_switch scratch layer (2 * half) half b) [0..<half] v = Inr w \<and>
      mset w = mset vals \<and> (\<forall>j. Suc b * (2 * half) \<le> j \<longrightarrow> w ! j = vals ! j)"
      using I by (auto simp: add.commute)
  qed simp
  then show ?thesis
    using h0 by (simp add: benes_level_def sc(1) layer_def [symmetric] bs Let_def) blast
qed

lemma benes_network_permutes:
  assumes "n \<in> {2, 4, 8, 16}" "n \<le> length vals"
  shows "\<exists>v. apply_benes_network vals n bits = Inr v \<and> mset v = mset vals"
proof -
  have "\<exists>M \<in> {1, 2, 3, 4}. n = 2 ^ M" using assms(1) by auto
  then obtain M where M: "M \<in> {1, 2, 3, 4}" "n = 2 ^ M" by blast
  have g: "2 \<le> n" "n \<le> kMaxBenesSize" using assms(1) by (auto simp: kMaxBenesSize_def)
  have "\<exists>v. foldr_res (benes_level n M p) [0..<2 * M] vals = Inr v \<and> mset v = mset vals" for p
  proof (rule foldr_res_range [where I = "\<lambda>_ v. mset v = mset vals"])
    fix k v
    assume "k < 2 * M" "mset v = mset vals"
    then show "\<exists>w. benes_level n M p k v = Inr w \<and> mset w = mset vals"
      using benes_level_ok [OF M(1), of v k p] assms(2) by (metis M(2) mset_eq_length)
  qed simp
  moreover have "ilog2_pow2 n = M" by (simp add: M(2) ilog2_pow2_def bit_count_power)
  ultimately show ?thesis
    using g by (simp add: apply_benes_network_def M(2) power_of_two_ok not_less Let_def)
qed

section \<open>What the transposes compute\<close>

text \<open>Nested loops run over the pairs of their indices.\<close>

lemma foldr_res_nested:
  "foldr_res (\<lambda>x. foldr_res (\<lambda>y. f (x, y)) ys) xs s = foldr_res f (List.product xs ys) s"
proof (induction xs arbitrary: s)
  case (Cons x xs)
  have "foldr_res (\<lambda>y. f (x, y)) ys s = foldr_res f (List.map (Pair x) ys) s" for s
    by (induction ys arbitrary: s) (simp_all add: bindr_def split: sum.split)
  then show ?case
    by (cases "foldr_res f (List.map (Pair x) ys) s") (simp_all add: foldr_res_append Cons)
qed simp

lemma scatter_list:
  assumes "\<And>x. x \<in> set xs \<Longrightarrow> f x = Inr (g x) \<and> p x < length s" "inj_on p (set xs)" "distinct xs"
  shows "\<exists>s'. foldr_res (\<lambda>x s. bindr (f x) (\<lambda>v. wr s (p x) v)) xs s = Inr s' \<and>
    length s' = length s \<and> (\<forall>x \<in> set xs. s' ! p x = g x) \<and>
    (\<forall>i. i \<notin> p ` set xs \<longrightarrow> s' ! i = s ! i)"
  using assms
proof (induction xs arbitrary: s)
  case (Cons x xs)
  have "\<exists>s'. foldr_res (\<lambda>x s. bindr (f x) (\<lambda>v. wr s (p x) v)) xs (s[p x := g x]) = Inr s' \<and>
    length s' = length (s[p x := g x]) \<and> (\<forall>y \<in> set xs. s' ! p y = g y) \<and>
    (\<forall>i. i \<notin> p ` set xs \<longrightarrow> s' ! i = s[p x := g x] ! i)"
    using Cons.prems by (intro Cons.IH) auto
  moreover have "p x \<notin> p ` set xs" using Cons.prems(2,3) by auto
  ultimately show ?case using Cons.prems(1) by auto
qed simp

lemma transpose_full_stream_ok:
  assumes "0 < col" "0 < ratio" "col * (col * ratio) \<le> length xs" "col * (col * ratio) \<le> length out"
  shows "\<exists>ys. transpose_full_stream xs out (col * ratio) col = Inr ys \<and> length ys = length out \<and>
    (\<forall>i < col. \<forall>j < col. \<forall>k < ratio.
      ys ! (j * (col * ratio) + (i * ratio + k)) = xs ! (i * (col * ratio) + (j * ratio + k)))"
proof -
  let ?R = "col * ratio"
  define f where "f = (\<lambda>((i, j), k). rd xs (i * ?R + (j * ratio + k)))"
  define g where "g = (\<lambda>((i, j), k). xs ! (i * ?R + (j * ratio + k)))"
  define p where "p = (\<lambda>((i, j), k). j * ?R + (i * ratio + k))"
  let ?L = "List.product (List.product [0..<col] [0..<col]) [0..<ratio]"
  have b: "i * ?R + (j * ratio + k) < col * ?R" if "i < col" "j < col" "k < ratio" for i j k
    by (intro row_index_less that)
  have inj: "inj_on p (set ?L)"
  proof (rule inj_onI, clarsimp simp: p_def)
    fix i j k i' j' k' :: nat
    assume l: "i < col" "j < col" "k < ratio" "i' < col" "j' < col" "k' < ratio"
      and e: "j * ?R + (i * ratio + k) = j' * ?R + (i' * ratio + k')"
    have "j = j' \<and> i * ratio + k = i' * ratio + k'"
      using e row_index_inject [OF row_index_less [OF l(1,3)] row_index_less [OF l(4,6)]] by blast
    then show "i = i' \<and> j = j' \<and> k = k'" using row_index_inject [OF l(3,6)] by blast
  qed
  have "\<exists>ys. foldr_res (\<lambda>x s. bindr (f x) (\<lambda>v. wr s (p x) v)) ?L out = Inr ys \<and>
    length ys = length out \<and> (\<forall>x \<in> set ?L. ys ! p x = g x) \<and>
    (\<forall>i. i \<notin> p ` set ?L \<longrightarrow> ys ! i = out ! i)"
  proof (rule scatter_list [OF _ inj])
    fix x assume "x \<in> set ?L"
    then obtain i j k where x: "x = ((i, j), k)" "i < col" "j < col" "k < ratio" by auto
    then show "f x = Inr (g x) \<and> p x < length out"
      using b [of i j k] b [of j i k] assms(3,4) by (simp add: f_def g_def p_def)
  qed (simp add: distinct_product)
  moreover have "transpose_full_stream xs out ?R col = foldr_res (\<lambda>x s. bindr (f x) (\<lambda>v. wr s (p x) v)) ?L out"
    using assms(1,2)
    by (simp add: transpose_full_stream_def f_def p_def Let_def add.assoc flip: foldr_res_nested)
  ultimately show ?thesis by (auto simp: g_def p_def)
qed

end
