(* ===== verification/HlsPayload.thy ===== *)
theory HlsPayload
  imports HlsPerm
begin

unbundle bit_operations_syntax

text \<open>
  The control block the payload kernels share (\<open>kernels/kernel_payload_common.hpp\<close>): its layout,
  the directories of tokens, the table of moduli, the metadata of the handles and their
  allocation, and the loop over the instructions of a module, which every kernel has.

  The control words, the payload and the outputs are lists; a reference parameter is a component of
  the result; the status is its number. The register handles of a module are a local array of which
  the first \<open>min register_count 2048\<close> elements are written; the list holds those, so that reading
  another one is undefined.
\<close>

section \<open>Layout\<close>

definition kPayloadControlMagic :: nat where "kPayloadControlMagic = 0x43494E4E5041594C"
definition kPayloadExtraMagic :: nat where "kPayloadExtraMagic = 0x43494E4E58425243"
definition kPayloadFlagIsNtt :: nat where "kPayloadFlagIsNtt = 1"
definition kMaxRegisters :: nat where "kMaxRegisters = 2048"

definition kPayloadStatusOk :: nat where "kPayloadStatusOk = 0"
definition kPayloadStatusBadMagic :: nat where "kPayloadStatusBadMagic = 1"
definition kPayloadStatusBadVersion :: nat where "kPayloadStatusBadVersion = 2"
definition kPayloadStatusLayoutOverflow :: nat where "kPayloadStatusLayoutOverflow = 3"
definition kPayloadStatusHandleOverflow :: nat where "kPayloadStatusHandleOverflow = 4"
definition kPayloadStatusInvalidHandle :: nat where "kPayloadStatusInvalidHandle = 5"
definition kPayloadStatusMissingToken :: nat where "kPayloadStatusMissingToken = 6"
definition kPayloadStatusMissingOutputToken :: nat where "kPayloadStatusMissingOutputToken = 7"
definition kPayloadStatusUnsupportedOpcode :: nat where "kPayloadStatusUnsupportedOpcode = 8"
definition kPayloadStatusUnsupportedImmediate :: nat where "kPayloadStatusUnsupportedImmediate = 9"
definition kPayloadStatusMissingModulus :: nat where "kPayloadStatusMissingModulus = 10"
definition kPayloadStatusBadExtraLayout :: nat where "kPayloadStatusBadExtraLayout = 11"
definition kPayloadStatusMissingBciConfig :: nat where "kPayloadStatusMissingBciConfig = 12"
definition kPayloadStatusMissingBcuValue :: nat where "kPayloadStatusMissingBcuValue = 13"

lemmas status_defs = kPayloadStatusOk_def kPayloadStatusBadMagic_def kPayloadStatusBadVersion_def
  kPayloadStatusLayoutOverflow_def kPayloadStatusHandleOverflow_def kPayloadStatusInvalidHandle_def
  kPayloadStatusMissingToken_def kPayloadStatusMissingOutputToken_def
  kPayloadStatusUnsupportedOpcode_def kPayloadStatusUnsupportedImmediate_def
  kPayloadStatusMissingModulus_def kPayloadStatusBadExtraLayout_def
  kPayloadStatusMissingBciConfig_def kPayloadStatusMissingBcuValue_def

record payload_layout =
  pl_register_count :: nat
  pl_coeff_count :: nat
  pl_rns_table_count :: nat
  pl_handle_count :: nat
  pl_handle_capacity :: nat
  pl_token_count :: nat
  pl_output_token_count :: nat
  pl_rns_table_offset :: nat
  pl_register_handles_offset :: nat
  pl_handle_meta_offset :: nat
  pl_token_directory_offset :: nat
  pl_output_directory_offset :: nat

record payload_extra_layout =
  pe_valid :: bool
  pe_base_offset :: nat
  pe_bcu_unit_count :: nat
  pe_bcu_output_capacity :: nat
  pe_bcu_active_count :: nat
  pe_bci_entry_count :: nat
  pe_bcu_active_offset :: nat
  pe_bcu_table_offset :: nat
  pe_bci_entries_offset :: nat

text \<open>The offsets of the tables, in 32 bits, and the end of the last one.\<close>

definition place_tables :: "nat \<Rightarrow> nat \<Rightarrow> nat \<Rightarrow> nat \<Rightarrow> nat \<Rightarrow> nat \<Rightarrow> nat \<Rightarrow> payload_layout \<times> nat" where
  "place_tables rc cc rns hc cap tok otok =
     (let o0 = 9; o1 = w32 (o0 + rns * 2); o2 = w32 (o1 + rc); o3 = w32 (o2 + cap * 2);
          o4 = w32 (o3 + tok * 2); o5 = w32 (o4 + otok * 2)
      in (\<lparr>pl_register_count = rc, pl_coeff_count = cc, pl_rns_table_count = rns,
           pl_handle_count = hc, pl_handle_capacity = cap, pl_token_count = tok,
           pl_output_token_count = otok, pl_rns_table_offset = o0,
           pl_register_handles_offset = o1, pl_handle_meta_offset = o2,
           pl_token_directory_offset = o3, pl_output_directory_offset = o4\<rparr>, o5))"

definition rd32 :: "nat list \<Rightarrow> nat \<Rightarrow> nat res" where
  "rd32 xs i = bindr (rd xs i) (\<lambda>v. Inr (w32 v))"

text \<open>\<open>Some\<close> the layout where the function returns true; the status is the second component.\<close>

definition parse_payload_layout :: "nat list \<Rightarrow> nat \<Rightarrow> (payload_layout option \<times> nat) res" where
  "parse_payload_layout control control_count =
     (if control_count < 9 then Inr (None, kPayloadStatusLayoutOverflow)
      else bindr (rd control 0) (\<lambda>magic.
        if magic \<noteq> kPayloadControlMagic then Inr (None, kPayloadStatusBadMagic)
        else bindr (rd control 1) (\<lambda>version.
          if version \<noteq> 1 then Inr (None, kPayloadStatusBadVersion)
          else bindr (rd32 control 2) (\<lambda>rc.
               bindr (rd32 control 3) (\<lambda>cc.
               bindr (rd32 control 4) (\<lambda>rns.
               bindr (rd32 control 5) (\<lambda>hc.
               bindr (rd32 control 6) (\<lambda>cap.
               bindr (rd32 control 7) (\<lambda>tok.
               bindr (rd32 control 8) (\<lambda>otok.
               case place_tables rc cc rns hc cap tok otok of (layout, offset) \<Rightarrow>
                 if offset > control_count then Inr (None, kPayloadStatusLayoutOverflow)
                 else Inr (Some layout, kPayloadStatusOk)))))))))))"

definition empty_extra :: "nat \<Rightarrow> payload_extra_layout" where
  "empty_extra base = \<lparr>pe_valid = False, pe_base_offset = base, pe_bcu_unit_count = 0,
     pe_bcu_output_capacity = 0, pe_bcu_active_count = 0, pe_bci_entry_count = 0,
     pe_bcu_active_offset = 0, pe_bcu_table_offset = 0, pe_bci_entries_offset = 0\<rparr>"

text \<open>The function returns the \<open>valid\<close> field; it is false on every early return.\<close>

definition parse_payload_extra_layout ::
  "nat list \<Rightarrow> nat \<Rightarrow> payload_layout \<Rightarrow> (payload_extra_layout \<times> nat) res" where
  "parse_payload_extra_layout control control_count layout =
     (let base = w32 (pl_output_directory_offset layout + pl_output_token_count layout * 2);
          extra = empty_extra base
      in if base \<ge> control_count then Inr (extra, kPayloadStatusOk)
         else bindr (rd control base) (\<lambda>magic.
           if magic \<noteq> kPayloadExtraMagic then Inr (extra, kPayloadStatusOk)
           else if w32 (base + 6) > control_count then Inr (extra, kPayloadStatusBadExtraLayout)
           else bindr (rd control (w32 (base + 1))) (\<lambda>version.
             if version \<noteq> 1 then Inr (extra, kPayloadStatusBadExtraLayout)
             else bindr (rd32 control (w32 (base + 2))) (\<lambda>units.
                  bindr (rd32 control (w32 (base + 3))) (\<lambda>cap.
                  bindr (rd32 control (w32 (base + 4))) (\<lambda>active.
                  bindr (rd32 control (w32 (base + 5))) (\<lambda>entries.
                  let a = w32 (base + 6); t = w32 (a + active); e = w32 (t + units * cap);
                      filled = \<lparr>pe_valid = False, pe_base_offset = base, pe_bcu_unit_count = units,
                        pe_bcu_output_capacity = cap, pe_bcu_active_count = active,
                        pe_bci_entry_count = entries, pe_bcu_active_offset = a,
                        pe_bcu_table_offset = t, pe_bci_entries_offset = e\<rparr>
                  in if e > control_count then Inr (filled, kPayloadStatusBadExtraLayout)
                     else Inr (filled\<lparr>pe_valid := True\<rparr>, kPayloadStatusOk))))))))"

section \<open>The trace and the outputs\<close>

definition payload_trace :: "nat list \<Rightarrow> nat \<Rightarrow> nat \<Rightarrow> nat \<Rightarrow> 64 word res" where
  "payload_trace register_handles register_count module_id executed =
     foldr_res (trace_step register_handles) [0..<register_count] (trace_seed module_id executed)"

definition write_payload_module_outputs ::
  "nat list \<Rightarrow> nat \<Rightarrow> nat \<Rightarrow> nat list \<Rightarrow> nat \<Rightarrow> nat \<Rightarrow> nat \<Rightarrow> nat \<Rightarrow> nat list res" where
  "write_payload_module_outputs outputs output_count status register_handles register_count
       module_id partition_id executed =
     (if output_count = 0 then Inr outputs
      else bindr (wr outputs 0 status)
             (write_output_tail output_count register_handles register_count module_id
                partition_id executed))"

section \<open>Directories\<close>

text \<open>The binary search over pairs of a key and a handle: the cursor of the key, if it is there.\<close>

function pair_search :: "nat list \<Rightarrow> nat \<Rightarrow> nat \<Rightarrow> nat \<Rightarrow> nat \<Rightarrow> nat option res" where
  "pair_search control pair_base token_key lo hi =
     (if lo < hi then
        let mid = lo + (hi - lo) div 2;
            cursor = w32 (pair_base + mid * 2)
        in bindr (rd control cursor) (\<lambda>key.
           if key = token_key then Inr (Some cursor)
           else if key < token_key then pair_search control pair_base token_key (mid + 1) hi
           else pair_search control pair_base token_key lo mid)
      else Inr None)"
  by pat_completeness auto
termination pair_search
  by (relation "measure (\<lambda>(control, base, key, lo, hi). hi - lo)") auto

declare pair_search.simps [simp del]

definition payload_pair_lookup :: "nat list \<Rightarrow> nat \<Rightarrow> nat \<Rightarrow> nat \<Rightarrow> nat res" where
  "payload_pair_lookup control pair_base pair_count token_key =
     bindr (pair_search control pair_base token_key 0 pair_count) (\<lambda>hit.
     case hit of None \<Rightarrow> Inr 0 | Some cursor \<Rightarrow> rd32 control (w32 (cursor + 1)))"

definition payload_pair_update ::
  "nat list \<Rightarrow> nat \<Rightarrow> nat \<Rightarrow> nat \<Rightarrow> nat \<Rightarrow> (nat list \<times> bool) res" where
  "payload_pair_update control pair_base pair_count token_key handle_id =
     bindr (pair_search control pair_base token_key 0 pair_count) (\<lambda>hit.
     case hit of
       None \<Rightarrow> Inr (control, False)
     | Some cursor \<Rightarrow> bindr (wr control (w32 (cursor + 1)) handle_id) (\<lambda>c. Inr (c, True)))"

section \<open>Moduli and handles\<close>

fun modulus_loop :: "nat list \<Rightarrow> payload_layout \<Rightarrow> nat \<Rightarrow> nat list \<Rightarrow> nat res" where
  "modulus_loop control layout rns_base_id [] = Inr 0"
| "modulus_loop control layout rns_base_id (i # is) =
     (let cursor = w32 (pl_rns_table_offset layout + i * 2) in
      bindr (rd32 control cursor) (\<lambda>key.
      if key = rns_base_id then rd control (w32 (cursor + 1))
      else modulus_loop control layout rns_base_id is))"

definition payload_lookup_modulus :: "nat list \<Rightarrow> payload_layout \<Rightarrow> nat \<Rightarrow> nat res" where
  "payload_lookup_modulus control layout rns_base_id =
     modulus_loop control layout rns_base_id [0..<pl_rns_table_count layout]"

definition meta_cursor :: "payload_layout \<Rightarrow> nat \<Rightarrow> nat" where
  "meta_cursor layout handle_id =
     w32 (pl_handle_meta_offset layout + sub32 handle_id 1 * 2)"

definition payload_handle_rns_base_id :: "nat list \<Rightarrow> payload_layout \<Rightarrow> nat \<Rightarrow> nat res" where
  "payload_handle_rns_base_id control layout handle_id =
     bindr (rd32 control 5) (\<lambda>live.
     if handle_id = 0 \<or> handle_id > live \<or> handle_id > pl_handle_capacity layout then Inr 0
     else rd32 control (meta_cursor layout handle_id))"

definition payload_handle_flags :: "nat list \<Rightarrow> payload_layout \<Rightarrow> nat \<Rightarrow> nat res" where
  "payload_handle_flags control layout handle_id =
     bindr (rd32 control 5) (\<lambda>live.
     if handle_id = 0 \<or> handle_id > live \<or> handle_id > pl_handle_capacity layout then Inr 0
     else rd32 control (w32 (meta_cursor layout handle_id + 1)))"

definition payload_handle_coeff_offset :: "payload_layout \<Rightarrow> nat \<Rightarrow> nat" where
  "payload_handle_coeff_offset layout handle_id =
     w32 (sub32 handle_id 1 * pl_coeff_count layout)"

text \<open>The control words, the handle and the status.\<close>

definition payload_allocate_handle ::
  "nat list \<Rightarrow> payload_layout \<Rightarrow> nat \<Rightarrow> bool \<Rightarrow> (nat list \<times> nat \<times> nat) res" where
  "payload_allocate_handle control layout rns_base_id is_ntt_form =
     bindr (rd32 control 5) (\<lambda>handle_count.
     if handle_count \<ge> pl_handle_capacity layout
     then Inr (control, 0, kPayloadStatusHandleOverflow)
     else let handle_id = w32 (handle_count + 1); cursor = meta_cursor layout handle_id in
       bindr (wr control 5 handle_id) (\<lambda>c1.
       bindr (wr c1 cursor rns_base_id) (\<lambda>c2.
       bindr (wr c2 (w32 (cursor + 1)) (if is_ntt_form then kPayloadFlagIsNtt else 0)) (\<lambda>c3.
       Inr (c3, handle_id, kPayloadStatusOk)))))"

section \<open>The loop of a module\<close>

text \<open>The variables the loop over the instructions changes.\<close>

record kernel_state =
  ks_control :: "nat list"
  ks_payload :: "nat list"
  ks_handles :: "nat list"
  ks_status :: nat
  ks_executed :: nat
  ks_lines :: "nat list"

text \<open>An iteration returns the state and whether it ended in \<open>break\<close>.\<close>

type_synonym kernel_step = "decoded_instruction \<Rightarrow> kernel_state \<Rightarrow> (kernel_state \<times> bool) res"

definition break_with :: "nat \<Rightarrow> kernel_state \<Rightarrow> (kernel_state \<times> bool) res" where
  "break_with status s = Inr (s\<lparr>ks_status := status\<rparr>, True)"

definition continue_with :: "kernel_state \<Rightarrow> (kernel_state \<times> bool) res" where
  "continue_with s = Inr (s, False)"

fun run_instructions :: "kernel_step \<Rightarrow> nat list \<Rightarrow> nat list \<Rightarrow> kernel_state \<Rightarrow> kernel_state res" where
  "run_instructions step instructions [] s = Inr s"
| "run_instructions step instructions (i # is) s =
     bindr (decode_instruction instructions i) (\<lambda>inst.
     bindr (step inst s) (\<lambda>(s', stop).
     if stop then Inr s' else run_instructions step instructions is s'))"

fun map_res :: "('a \<Rightarrow> 'b res) \<Rightarrow> 'a list \<Rightarrow> 'b list res" where
  "map_res f [] = Inr []"
| "map_res f (x # xs) = bindr (f x) (\<lambda>y. bindr (map_res f xs) (\<lambda>ys. Inr (y # ys)))"

definition bounded_register_count :: "payload_layout \<Rightarrow> nat" where
  "bounded_register_count layout =
     (if pl_register_count layout > kMaxRegisters then kMaxRegisters else pl_register_count layout)"

text \<open>\<open>register_handles[inst.dst % bounded_register_count] = handle; ++executed\<close>.\<close>

definition set_register ::
  "payload_layout \<Rightarrow> decoded_instruction \<Rightarrow> nat \<Rightarrow> kernel_state \<Rightarrow> (kernel_state \<times> bool) res" where
  "set_register layout inst handle_id s =
     bindr (if bounded_register_count layout = 0 then Inr (ks_handles s)
            else wr (ks_handles s) (di_dst inst mod bounded_register_count layout) handle_id) (\<lambda>hs.
     continue_with (s\<lparr>ks_handles := hs, ks_executed := w32 (ks_executed s + 1)\<rparr>))"

definition load_handles :: "nat list \<Rightarrow> payload_layout \<Rightarrow> nat list res" where
  "load_handles control layout =
     map_res (\<lambda>i. rd32 control (w32 (pl_register_handles_offset layout + i)))
       [0..<bounded_register_count layout]"

definition save_handles :: "nat list \<Rightarrow> payload_layout \<Rightarrow> nat list \<Rightarrow> nat list res" where
  "save_handles handles layout control =
     foldr_res (\<lambda>i c. bindr (rd handles i) (\<lambda>h.
         wr c (w32 (pl_register_handles_offset layout + i)) h))
       [0..<bounded_register_count layout] control"

text \<open>The registers are loaded, the instructions run, and the registers are stored.\<close>

definition kernel_body ::
  "kernel_step \<Rightarrow> payload_layout \<Rightarrow> nat \<Rightarrow> nat list \<Rightarrow> nat list \<Rightarrow> nat \<Rightarrow> nat list \<Rightarrow> nat list \<Rightarrow>
   kernel_state res" where
  "kernel_body step layout status lines instructions instruction_word_count control payload =
     bindr (load_handles control layout) (\<lambda>handles.
     bindr (run_instructions step instructions [0..<instruction_word_count div 4]
              \<lparr>ks_control = control, ks_payload = payload, ks_handles = handles,
               ks_status = status, ks_executed = 0, ks_lines = lines\<rparr>) (\<lambda>s.
     bindr (save_handles (ks_handles s) layout (ks_control s)) (\<lambda>control'.
     Inr (s\<lparr>ks_control := control'\<rparr>))))"

text \<open>The outputs of a module that ran, and of one whose layout does not parse.\<close>

definition finish_kernel ::
  "nat \<Rightarrow> nat \<Rightarrow> nat list \<Rightarrow> nat \<Rightarrow> payload_layout \<Rightarrow> kernel_state \<Rightarrow>
   (nat list \<times> nat list \<times> nat list) res" where
  "finish_kernel module_id partition_id outputs output_count layout s =
     bindr (write_payload_module_outputs outputs output_count (ks_status s) (ks_handles s)
              (bounded_register_count layout) module_id partition_id (ks_executed s)) (\<lambda>os.
     Inr (ks_control s, ks_payload s, os))"

definition reject_kernel ::
  "nat \<Rightarrow> nat \<Rightarrow> nat list \<Rightarrow> nat \<Rightarrow> nat \<Rightarrow> nat list \<Rightarrow> nat list \<Rightarrow>
   (nat list \<times> nat list \<times> nat list) res" where
  "reject_kernel module_id partition_id outputs output_count status control payload =
     bindr (write_payload_module_outputs outputs output_count status [0] 0 module_id partition_id 0)
       (\<lambda>os. Inr (control, payload, os))"

section \<open>Operands\<close>

definition resolve_token :: "nat list \<Rightarrow> payload_layout \<Rightarrow> nat \<Rightarrow> nat \<Rightarrow> (nat \<times> nat) res" where
  "resolve_token control layout key status =
     bindr (payload_pair_lookup control (pl_token_directory_offset layout) (pl_token_count layout) key)
       (\<lambda>h. Inr (h, if h = 0 then kPayloadStatusMissingToken else status))"

definition resolve_register :: "payload_layout \<Rightarrow> nat list \<Rightarrow> nat \<Rightarrow> nat \<Rightarrow> (nat \<times> nat) res" where
  "resolve_register layout handles src status =
     (if pl_register_count layout = 0 then Inr (0, kPayloadStatusInvalidHandle)
      else bindr (rd handles (src mod pl_register_count layout)) (\<lambda>h.
           Inr (h, if h = 0 then kPayloadStatusInvalidHandle else status)))"

definition is_bcu_output_operand :: "nat \<Rightarrow> bool" where
  "is_bcu_output_operand operand \<longleftrightarrow> operand AND 0x800 = 0x800 \<and> operand AND 0xF00 \<noteq> 0xA00"

definition decode_bcu_output_id :: "nat \<Rightarrow> nat" where
  "decode_bcu_output_id operand = drop_bit 7 (operand AND 0x7FF) AND 0x1F"

definition decode_bcu_output_index :: "nat \<Rightarrow> nat" where
  "decode_bcu_output_index operand = operand AND 0x7F"

definition bcu_cursor :: "payload_extra_layout \<Rightarrow> nat \<Rightarrow> nat \<Rightarrow> nat" where
  "bcu_cursor extra bcu_id idx =
     w32 (pe_bcu_table_offset extra + bcu_id * pe_bcu_output_capacity extra + idx)"

definition resolve_bcu_output ::
  "nat list \<Rightarrow> payload_extra_layout \<Rightarrow> nat \<Rightarrow> nat \<Rightarrow> (nat \<times> nat) res" where
  "resolve_bcu_output control extra src status =
     (if \<not> pe_valid extra then Inr (0, kPayloadStatusMissingBcuValue)
      else let bcu_id = decode_bcu_output_id src; output_index = decode_bcu_output_index src in
        if bcu_id \<ge> pe_bcu_unit_count extra \<or> output_index \<ge> pe_bcu_output_capacity extra
        then Inr (0, kPayloadStatusMissingBcuValue)
        else bindr (rd32 control (bcu_cursor extra bcu_id output_index)) (\<lambda>h.
             Inr (h, if h = 0 then kPayloadStatusMissingBcuValue else status)))"

text \<open>A source operand of an instruction and its immediate flag.\<close>

definition source_operand :: "decoded_instruction \<Rightarrow> bool \<Rightarrow> nat" where
  "source_operand inst use_src1 = (if use_src1 then di_src1 inst else di_src0 inst)"

definition is_immediate :: "decoded_instruction \<Rightarrow> bool \<Rightarrow> bool" where
  "is_immediate inst use_src1 \<longleftrightarrow>
     drop_bit (if use_src1 then 1 else 0) (di_flags inst) AND 1 \<noteq> 0 \<or>
     source_operand inst use_src1 = kImmOperandId"

end
