(* ===== verification/HlsKernels.thy ===== *)
theory HlsKernels
  imports HlsPayload
begin

unbundle bit_operations_syntax

text \<open>
  The payload kernels: memory (\<open>kernels/kernel_memory_module.hpp\<close>), arithmetic
  (\<open>kernel_arithmetic_module.hpp\<close>), Montgomery (\<open>kernel_montgomery_module.hpp\<close>), transform
  (\<open>kernel_ntt_module.hpp\<close>), automorphism (\<open>kernel_automorphism_module.hpp\<close>) and base conversion
  (\<open>kernel_base_conv_module.hpp\<close>). Each has a step, the body of its loop over the instructions with
  its \<open>continue\<close> and \<open>break\<close>, and an entry point that parses the control block, runs the loop and
  writes the outputs. Opcodes are their numbers in \<open>kernel_common.hpp\<close>.
\<close>

section \<open>Montgomery\<close>

definition resolve_montgomery_operand_handle ::
  "nat list \<Rightarrow> payload_layout \<Rightarrow> nat list \<Rightarrow> decoded_instruction \<Rightarrow> bool \<Rightarrow> nat \<Rightarrow> (nat \<times> nat) res" where
  "resolve_montgomery_operand_handle control layout handles inst use_src1 status =
     (let src = source_operand inst use_src1 in
      if is_immediate inst use_src1 then Inr (0, kPayloadStatusUnsupportedImmediate)
      else if src = kTokenOperandId then resolve_token control layout (di_aux inst) status
      else resolve_register layout handles src status)"

text \<open>The loop over the coefficients: every iteration reads both operands and writes one result.\<close>

definition coefficient_loop ::
  "(nat \<Rightarrow> nat \<Rightarrow> nat) \<Rightarrow> nat \<Rightarrow> nat \<Rightarrow> nat \<Rightarrow> nat \<Rightarrow> nat \<Rightarrow> nat list \<Rightarrow> nat list res" where
  "coefficient_loop f q n src0 src1 out payload =
     foldr_res (\<lambda>c p. bindr (rd p (w32 (src0 + c))) (\<lambda>a. bindr (rd p (w32 (src1 + c))) (\<lambda>b.
         wr p (w32 (out + c)) (f (a mod q) (b mod q))))) [0..<n] payload"

definition montgomery_step :: "payload_layout \<Rightarrow> kernel_step" where
  "montgomery_step layout inst s =
     (if \<not> is_montgomery_opcode (di_opcode inst) then continue_with s
      else bindr (resolve_montgomery_operand_handle (ks_control s) layout (ks_handles s) inst False
              (ks_status s)) (\<lambda>(h0, st0).
      if st0 \<noteq> kPayloadStatusOk then break_with st0 s
      else bindr (resolve_montgomery_operand_handle (ks_control s) layout (ks_handles s) inst True st0)
              (\<lambda>(h1, st1).
      if st1 \<noteq> kPayloadStatusOk then break_with st1 s
      else bindr (payload_lookup_modulus (ks_control s) layout (di_rns inst)) (\<lambda>q.
      if q = 0 then break_with kPayloadStatusMissingModulus s
      else bindr (payload_handle_flags (ks_control s) layout h0) (\<lambda>flags.
           bindr (payload_allocate_handle (ks_control s) layout (di_rns inst)
              (flags AND kPayloadFlagIsNtt \<noteq> 0)) (\<lambda>(control', out, st).
      if st \<noteq> kPayloadStatusOk then break_with st s
      else bindr (coefficient_loop (\<lambda>a b. mod_mul a b q) q (pl_coeff_count layout)
              (payload_handle_coeff_offset layout h0) (payload_handle_coeff_offset layout h1)
              (payload_handle_coeff_offset layout out) (ks_payload s)) (\<lambda>payload'.
      set_register layout inst out (s\<lparr>ks_control := control', ks_payload := payload', ks_status := st\<rparr>))))))))"

definition execute_montgomery_module ::
  "nat list \<Rightarrow> nat list \<Rightarrow> nat list \<Rightarrow> nat list \<Rightarrow> nat \<Rightarrow> nat \<Rightarrow> nat \<Rightarrow> nat \<Rightarrow>
   (nat list \<times> nat list \<times> nat list) res" where
  "execute_montgomery_module instructions control payload outputs instruction_word_count
       control_count output_count partition_id =
     (if output_count = 0 then Inr (control, payload, outputs)
      else bindr (parse_payload_layout control control_count) (\<lambda>(parsed, status).
        case parsed of
          None \<Rightarrow> reject_kernel 3 partition_id outputs output_count status control payload
        | Some layout \<Rightarrow>
            bindr (kernel_body (montgomery_step layout) layout status [] instructions
                     instruction_word_count control payload)
              (finish_kernel 3 partition_id outputs output_count layout)))"

section \<open>Transform\<close>

definition resolve_ntt_operand_handle ::
  "nat list \<Rightarrow> payload_layout \<Rightarrow> payload_extra_layout \<Rightarrow> nat list \<Rightarrow> decoded_instruction \<Rightarrow> nat \<Rightarrow>
   (nat \<times> nat) res" where
  "resolve_ntt_operand_handle control layout extra handles inst status =
     (let src = di_src0 inst in
      if is_immediate inst False then Inr (0, kPayloadStatusUnsupportedImmediate)
      else if src = kTokenOperandId then resolve_token control layout (di_aux inst) status
      else if is_bcu_output_operand src then resolve_bcu_output control extra src status
      else resolve_register layout handles src status)"

text \<open>The coefficients reduced into the new block.\<close>

definition reduce_loop :: "nat \<Rightarrow> nat \<Rightarrow> nat \<Rightarrow> nat \<Rightarrow> nat list \<Rightarrow> nat list res" where
  "reduce_loop q n src out payload =
     foldr_res (\<lambda>c p. bindr (rd p (w32 (src + c))) (\<lambda>a. wr p (w32 (out + c)) (a mod q)))
       [0..<n] payload"

text \<open>The transform of the block at \<open>&payload[offset]\<close>.\<close>

definition transform_at :: "nat \<Rightarrow> nat \<Rightarrow> nat \<Rightarrow> nat \<Rightarrow> bool \<Rightarrow> nat list \<Rightarrow> nat list res" where
  "transform_at offset n q prime_id invert payload =
     guardr (offset \<le> length payload) Undefined
       (bindr (ntt_apply_negacyclic_four_step (drop offset payload) n q prime_id invert)
          (\<lambda>block. Inr (take offset payload @ block)))"

definition ntt_step :: "payload_layout \<Rightarrow> payload_extra_layout \<Rightarrow> kernel_step" where
  "ntt_step layout extra inst s =
     (if di_opcode inst \<noteq> 12 \<and> di_opcode inst \<noteq> 13 then continue_with s
      else bindr (resolve_ntt_operand_handle (ks_control s) layout extra (ks_handles s) inst
              (ks_status s)) (\<lambda>(h, st0).
      if st0 \<noteq> kPayloadStatusOk then break_with st0 s
      else bindr (payload_lookup_modulus (ks_control s) layout (di_rns inst)) (\<lambda>q.
      if q = 0 then break_with kPayloadStatusMissingModulus s
      else let invert = (di_opcode inst = 13) in
           bindr (payload_allocate_handle (ks_control s) layout (di_rns inst) (\<not> invert))
             (\<lambda>(control', out, st).
      if st \<noteq> kPayloadStatusOk then break_with st s
      else bindr (reduce_loop q (pl_coeff_count layout) (payload_handle_coeff_offset layout h)
              (payload_handle_coeff_offset layout out) (ks_payload s)) (\<lambda>p1.
           bindr (transform_at (payload_handle_coeff_offset layout out) (pl_coeff_count layout) q
              (di_rns inst) invert p1) (\<lambda>payload'.
      set_register layout inst out (s\<lparr>ks_control := control', ks_payload := payload', ks_status := st\<rparr>)))))))"

text \<open>A module with the extra layout rejects only a malformed one.\<close>

definition execute_ntt_module ::
  "nat list \<Rightarrow> nat list \<Rightarrow> nat list \<Rightarrow> nat list \<Rightarrow> nat \<Rightarrow> nat \<Rightarrow> nat \<Rightarrow> nat \<Rightarrow>
   (nat list \<times> nat list \<times> nat list) res" where
  "execute_ntt_module instructions control payload outputs instruction_word_count
       control_count output_count partition_id =
     (if output_count = 0 then Inr (control, payload, outputs)
      else bindr (parse_payload_layout control control_count) (\<lambda>(parsed, status).
        case parsed of
          None \<Rightarrow> reject_kernel 4 partition_id outputs output_count status control payload
        | Some layout \<Rightarrow>
            bindr (parse_payload_extra_layout control control_count layout) (\<lambda>(extra, status').
            if status' \<noteq> kPayloadStatusOk
            then reject_kernel 4 partition_id outputs output_count status' control payload
            else bindr (kernel_body (ntt_step layout extra) layout status' [] instructions
                     instruction_word_count control payload)
              (finish_kernel 4 partition_id outputs output_count layout))))"

section \<open>Automorphism\<close>

definition resolve_automorphism_operand_handle ::
  "nat list \<Rightarrow> payload_layout \<Rightarrow> nat list \<Rightarrow> decoded_instruction \<Rightarrow> nat \<Rightarrow> (nat \<times> nat) res" where
  "resolve_automorphism_operand_handle control layout handles inst status =
     (if is_immediate inst False then Inr (0, kPayloadStatusUnsupportedImmediate)
      else if di_src0 inst = kTokenOperandId then resolve_token control layout (di_aux inst) status
      else resolve_register layout handles (di_src0 inst) status)"

text \<open>An immediate is a signed 32-bit number and an rns id has 12 bits, so neither cast changes it.\<close>

definition rotation_amount :: "decoded_instruction \<Rightarrow> int" where
  "rotation_amount inst = (if di_imm0 inst = 0 then int (di_rns inst) else di_imm0 inst)"

text \<open>\<open>&payload[offset]\<close> of both blocks must be in the array.\<close>

definition permute_blocks :: "nat \<Rightarrow> nat \<Rightarrow> nat \<Rightarrow> nat \<Rightarrow> nat list \<Rightarrow> nat list res" where
  "permute_blocks src out n galois_elt payload =
     guardr (src \<le> length payload \<and> out \<le> length payload) Undefined
       (apply_galois_ntt_permutation payload src out n galois_elt)"

definition automorphism_step :: "payload_layout \<Rightarrow> kernel_step" where
  "automorphism_step layout inst s =
     (if di_opcode inst \<noteq> 14 then continue_with s
      else bindr (resolve_automorphism_operand_handle (ks_control s) layout (ks_handles s) inst
              (ks_status s)) (\<lambda>(h, st0).
      if st0 \<noteq> kPayloadStatusOk then break_with st0 s
      else bindr (payload_handle_flags (ks_control s) layout h) (\<lambda>flags.
           bindr (payload_allocate_handle (ks_control s) layout (di_rns inst)
              (flags AND kPayloadFlagIsNtt \<noteq> 0)) (\<lambda>(control', out, st).
      if st \<noteq> kPayloadStatusOk then break_with st s
      else bindr (galois_elt_from_step (pl_coeff_count layout) (rotation_amount inst)) (\<lambda>g.
      if g = 0 then break_with kPayloadStatusUnsupportedOpcode (s\<lparr>ks_control := control'\<rparr>)
      else bindr (permute_blocks (payload_handle_coeff_offset layout h)
              (payload_handle_coeff_offset layout out) (pl_coeff_count layout) g (ks_payload s)) (\<lambda>payload'.
      set_register layout inst out (s\<lparr>ks_control := control', ks_payload := payload', ks_status := st\<rparr>)))))))"

definition execute_automorphism_module ::
  "nat list \<Rightarrow> nat list \<Rightarrow> nat list \<Rightarrow> nat list \<Rightarrow> nat \<Rightarrow> nat \<Rightarrow> nat \<Rightarrow> nat \<Rightarrow>
   (nat list \<times> nat list \<times> nat list) res" where
  "execute_automorphism_module instructions control payload outputs instruction_word_count
       control_count output_count partition_id =
     (if output_count = 0 then Inr (control, payload, outputs)
      else bindr (parse_payload_layout control control_count) (\<lambda>(parsed, status).
        case parsed of
          None \<Rightarrow> reject_kernel 6 partition_id outputs output_count status control payload
        | Some layout \<Rightarrow>
            bindr (kernel_body (automorphism_step layout) layout status [] instructions
                     instruction_word_count control payload)
              (finish_kernel 6 partition_id outputs output_count layout)))"

section \<open>Memory\<close>

definition load_memory_handle ::
  "nat list \<Rightarrow> payload_layout \<Rightarrow> nat list \<Rightarrow> decoded_instruction \<Rightarrow> nat \<Rightarrow> (nat \<times> nat) res" where
  "load_memory_handle control layout handles inst status =
     (if is_immediate inst False then Inr (0, kPayloadStatusUnsupportedImmediate)
      else if di_src0 inst = kTokenOperandId then resolve_token control layout (di_aux inst) status
      else if pl_register_count layout = 0 then Inr (0, status)
      else bindr (rd handles (di_src0 inst mod pl_register_count layout)) (\<lambda>h. Inr (h, status)))"

definition memory_load :: "payload_layout \<Rightarrow> kernel_step" where
  "memory_load layout inst s =
     bindr (load_memory_handle (ks_control s) layout (ks_handles s) inst (ks_status s)) (\<lambda>(h, st).
     if st \<noteq> kPayloadStatusOk then break_with st s else set_register layout inst h s)"

definition memory_store :: "payload_layout \<Rightarrow> kernel_step" where
  "memory_store layout inst s =
     (if bounded_register_count layout = 0 then break_with kPayloadStatusInvalidHandle s
      else bindr (rd (ks_handles s) (di_src0 inst mod bounded_register_count layout)) (\<lambda>h.
        if h = 0 then break_with kPayloadStatusInvalidHandle s
        else bindr (payload_pair_update (ks_control s) (pl_output_directory_offset layout)
                (pl_output_token_count layout) (di_aux inst) h) (\<lambda>(control', updated).
          if \<not> updated then break_with kPayloadStatusMissingOutputToken s
          else continue_with (s\<lparr>ks_control := control', ks_executed := w32 (ks_executed s + 1)\<rparr>))))"

definition memory_step :: "payload_layout \<Rightarrow> kernel_step" where
  "memory_step layout inst s =
     (let oc = di_opcode inst in
      if \<not> is_memory_opcode oc then continue_with s
      else if oc = 1 \<or> oc = 30 \<or> oc = 19 \<or> oc = 27 then memory_load layout inst s
      else if oc = 3 then memory_load layout inst s
      else if oc = 2 \<or> oc = 31 \<or> oc = 28 then memory_store layout inst s
      else break_with kPayloadStatusUnsupportedOpcode s)"

definition execute_memory_module ::
  "nat list \<Rightarrow> nat list \<Rightarrow> nat list \<Rightarrow> nat list \<Rightarrow> nat \<Rightarrow> nat \<Rightarrow> nat \<Rightarrow> nat \<Rightarrow>
   (nat list \<times> nat list \<times> nat list) res" where
  "execute_memory_module instructions control payload outputs instruction_word_count
       control_count output_count partition_id =
     (if output_count = 0 then Inr (control, payload, outputs)
      else bindr (parse_payload_layout control control_count) (\<lambda>(parsed, status).
        case parsed of
          None \<Rightarrow> reject_kernel 1 partition_id outputs output_count status control payload
        | Some layout \<Rightarrow>
            bindr (kernel_body (memory_step layout) layout status [] instructions
                     instruction_word_count control payload)
              (finish_kernel 1 partition_id outputs output_count layout)))"

section \<open>The entries of the base conversion units\<close>

record bci_entry =
  be_line_crc :: nat
  be_bcu_id :: nat
  be_src_count :: nat
  be_dst_count :: nat
  be_src_base_offset :: nat
  be_dst_base_offset :: nat
  be_factor_offset :: nat
  be_next_cursor :: nat

definition kMaxBcuUnits :: nat where "kMaxBcuUnits = 8"

text \<open>\<open>None\<close> where the function returns false.\<close>

definition payload_decode_bci_entry :: "nat list \<Rightarrow> nat \<Rightarrow> nat \<Rightarrow> bci_entry option res" where
  "payload_decode_bci_entry control control_count cursor =
     (if w32 (cursor + 4) > control_count then Inr None
      else bindr (rd32 control (w32 (cursor + 0))) (\<lambda>line_crc.
           bindr (rd32 control (w32 (cursor + 1))) (\<lambda>bcu_id.
           bindr (rd32 control (w32 (cursor + 2))) (\<lambda>src_count.
           bindr (rd32 control (w32 (cursor + 3))) (\<lambda>dst_count.
           let src_base = w32 (cursor + 4); dst_base = w32 (src_base + src_count);
               factor = w32 (dst_base + dst_count); next = w32 (factor + src_count * dst_count)
           in if next > control_count then Inr None
              else Inr (Some \<lparr>be_line_crc = line_crc, be_bcu_id = bcu_id, be_src_count = src_count,
                be_dst_count = dst_count, be_src_base_offset = src_base,
                be_dst_base_offset = dst_base, be_factor_offset = factor,
                be_next_cursor = next\<rparr>))))))"

text \<open>The walk over at most \<open>n\<close> entries to the first one that matches.\<close>

fun bci_walk :: "nat list \<Rightarrow> nat \<Rightarrow> (bci_entry \<Rightarrow> bool) \<Rightarrow> nat \<Rightarrow> nat \<Rightarrow> bci_entry option res" where
  "bci_walk control control_count matches 0 cursor = Inr None"
| "bci_walk control control_count matches (Suc n) cursor =
     bindr (payload_decode_bci_entry control control_count cursor) (\<lambda>decoded.
     case decoded of
       None \<Rightarrow> Inr None
     | Some e \<Rightarrow> if matches e then Inr (Some e)
                 else bci_walk control control_count matches n (be_next_cursor e))"

definition payload_find_bci_entry ::
  "nat list \<Rightarrow> nat \<Rightarrow> payload_extra_layout \<Rightarrow> nat \<Rightarrow> bci_entry option res" where
  "payload_find_bci_entry control control_count extra target_line_crc =
     bci_walk control control_count (\<lambda>e. be_line_crc e = target_line_crc)
       (pe_bci_entry_count extra) (pe_bci_entries_offset extra)"

definition payload_find_bci_sources_arith ::
  "nat list \<Rightarrow> nat \<Rightarrow> payload_extra_layout \<Rightarrow> nat \<Rightarrow> nat \<Rightarrow> bci_entry option res" where
  "payload_find_bci_sources_arith control control_count extra target_line_crc target_bcu_id =
     bci_walk control control_count
       (\<lambda>e. be_line_crc e = target_line_crc \<and> be_bcu_id e = target_bcu_id)
       (pe_bci_entry_count extra) (pe_bci_entries_offset extra)"

text \<open>The array \<open>active_line_crc\<close> at the start of a module.\<close>

definition load_lines :: "nat list \<Rightarrow> payload_extra_layout \<Rightarrow> nat list res" where
  "load_lines control extra =
     map_res (\<lambda>i. if pe_valid extra \<and> i < pe_bcu_active_count extra
                   then rd32 control (w32 (pe_bcu_active_offset extra + i)) else Inr 0)
       [0..<kMaxBcuUnits]"

section \<open>Arithmetic\<close>

definition resolve_operand_handle ::
  "nat list \<Rightarrow> payload_layout \<Rightarrow> payload_extra_layout \<Rightarrow> nat list \<Rightarrow> decoded_instruction \<Rightarrow> bool \<Rightarrow>
   nat \<Rightarrow> (nat \<times> nat) res" where
  "resolve_operand_handle control layout extra handles inst use_src1 status =
     (let src = source_operand inst use_src1 in
      if is_immediate inst use_src1 then Inr (0, kPayloadStatusUnsupportedImmediate)
      else if src = kTokenOperandId then resolve_token control layout (di_aux inst) status
      else if is_bcu_output_operand src then resolve_bcu_output control extra src status
      else resolve_register layout handles src status)"

definition is_add :: "decoded_instruction \<Rightarrow> bool" where
  "is_add inst \<longleftrightarrow> di_opcode inst = 4 \<or> di_opcode inst = 9"

definition is_sub :: "decoded_instruction \<Rightarrow> bool" where
  "is_sub inst \<longleftrightarrow> di_opcode inst = 5 \<or> di_opcode inst = 10"

definition is_sud :: "decoded_instruction \<Rightarrow> bool" where
  "is_sud inst \<longleftrightarrow> di_opcode inst = 11"

definition is_con :: "decoded_instruction \<Rightarrow> bool" where
  "is_con inst \<longleftrightarrow> di_opcode inst = 15"

definition is_neg :: "decoded_instruction \<Rightarrow> bool" where
  "is_neg inst \<longleftrightarrow> di_opcode inst = 16"

text \<open>
  The product of the source moduli of an entry; the flag is true where a modulus is missing, where
  the loop ends in \<open>break\<close>.
\<close>

fun divisor_loop :: "nat list \<Rightarrow> payload_layout \<Rightarrow> nat \<Rightarrow> nat \<Rightarrow> nat list \<Rightarrow> nat \<Rightarrow> (nat \<times> bool) res" where
  "divisor_loop control layout q base [] d = Inr (d, False)"
| "divisor_loop control layout q base (k # ks) d =
     bindr (rd32 control (w32 (base + k))) (\<lambda>src_base_id.
     bindr (payload_lookup_modulus control layout src_base_id) (\<lambda>m.
     if m = 0 then Inr (d, True)
     else divisor_loop control layout q base ks (mod_mul d (m mod q) q)))"

text \<open>The divisor of a subtract and divide, or the status with which it fails.\<close>

definition sud_bcu_divisor ::
  "nat list \<Rightarrow> nat \<Rightarrow> payload_layout \<Rightarrow> payload_extra_layout \<Rightarrow> nat list \<Rightarrow> decoded_instruction \<Rightarrow> nat \<Rightarrow>
   (nat + nat) res" where
  "sud_bcu_divisor control control_count layout extra lines inst q =
     (if \<not> pe_valid extra then Inr (Inl kPayloadStatusMissingBcuValue)
      else let bcu_id = decode_bcu_output_id (di_src1 inst) in
        if bcu_id \<ge> kMaxBcuUnits \<or> bcu_id \<ge> pe_bcu_unit_count extra
        then Inr (Inl kPayloadStatusMissingBcuValue)
        else bindr (rd lines bcu_id) (\<lambda>line_crc.
          if line_crc = 0 then Inr (Inl kPayloadStatusMissingBciConfig)
          else bindr (payload_find_bci_sources_arith control control_count extra line_crc bcu_id)
            (\<lambda>found. case found of
               None \<Rightarrow> Inr (Inl kPayloadStatusMissingBciConfig)
             | Some e \<Rightarrow>
                 if be_src_count e = 0 then Inr (Inl kPayloadStatusMissingBciConfig)
                 else bindr (divisor_loop control layout q (be_src_base_offset e)
                         [0..<be_src_count e] 1) (\<lambda>(d, missing).
                   if missing then Inr (Inl kPayloadStatusMissingModulus) else Inr (Inr d)))))"

definition sud_divisor ::
  "nat list \<Rightarrow> nat \<Rightarrow> payload_layout \<Rightarrow> payload_extra_layout \<Rightarrow> nat list \<Rightarrow> decoded_instruction \<Rightarrow> nat \<Rightarrow>
   (nat + nat) res" where
  "sud_divisor control control_count layout extra lines inst q =
     (if is_bcu_output_operand (di_src1 inst)
      then sud_bcu_divisor control control_count layout extra lines inst q
      else bindr (payload_lookup_modulus control layout (di_rns inst)) (\<lambda>m.
        if m = 0 then Inr (Inl kPayloadStatusMissingModulus) else Inr (Inr (m mod q))))"

text \<open>The second operand in the transformed domain, in the local array \<open>sud_src1_ntt\<close>.\<close>

definition sud_operand ::
  "payload_layout \<Rightarrow> nat list \<Rightarrow> nat \<Rightarrow> nat \<Rightarrow> nat \<Rightarrow> nat list \<Rightarrow> nat list res" where
  "sud_operand layout control h1 q rns_base_id payload =
     bindr (payload_handle_flags control layout h1) (\<lambda>flags.
     bindr (map_res (\<lambda>c. bindr (rd payload (w32 (payload_handle_coeff_offset layout h1 + c)))
                           (\<lambda>v. Inr (v mod q))) [0..<pl_coeff_count layout]) (\<lambda>vs.
     if flags AND kPayloadFlagIsNtt \<noteq> 0 then Inr vs
     else ntt_apply_negacyclic_four_step vs (pl_coeff_count layout) q rns_base_id False))"

text \<open>One coefficient of the result; \<open>b\<close> reads the second operand where the operation has one.\<close>

definition arithmetic_value ::
  "decoded_instruction \<Rightarrow> nat \<Rightarrow> nat \<Rightarrow> nat \<Rightarrow> nat res \<Rightarrow> nat res \<Rightarrow> nat res" where
  "arithmetic_value inst q divisor_inv a b sud_b =
     (if is_add inst then bindr b (\<lambda>b. Inr (mod_add a (b mod q) q))
      else if is_sub inst then bindr b (\<lambda>b. Inr (mod_sub a (b mod q) q))
      else if is_sud inst then
        bindr sud_b (\<lambda>b. Inr (mod_mul (mod_sub a (b mod q) q) divisor_inv q))
      else if is_con inst then Inr (a mod q)
      else if is_neg inst then Inr (if a = 0 then 0 else sub64 q a)
      else Inr a)"

definition arithmetic_loop ::
  "decoded_instruction \<Rightarrow> nat \<Rightarrow> nat \<Rightarrow> nat list \<Rightarrow> nat \<Rightarrow> nat \<Rightarrow> nat \<Rightarrow> nat \<Rightarrow> nat list \<Rightarrow> nat list res" where
  "arithmetic_loop inst q divisor_inv sud n src0 src1 out payload =
     foldr_res (\<lambda>c p. bindr (rd p (w32 (src0 + c))) (\<lambda>a.
         bindr (arithmetic_value inst q divisor_inv (a mod q) (rd p (w32 (src1 + c))) (rd sud c))
           (\<lambda>v. wr p (w32 (out + c)) v))) [0..<n] payload"

text \<open>The inverse of the divisor and the transformed operand, or the status of the \<open>break\<close>.\<close>

definition sud_prepare ::
  "payload_layout \<Rightarrow> payload_extra_layout \<Rightarrow> nat \<Rightarrow> decoded_instruction \<Rightarrow> nat \<Rightarrow> nat \<Rightarrow> nat list \<Rightarrow>
   kernel_state \<Rightarrow> (nat + nat \<times> nat list) res" where
  "sud_prepare layout extra control_count inst h1 q control s =
     (if \<not> is_sud inst then Inr (Inr (1, []))
      else if pl_coeff_count layout > 2048 then Inr (Inl kPayloadStatusLayoutOverflow)
      else bindr (sud_divisor control control_count layout extra (ks_lines s) inst q) (\<lambda>r.
        case r of
          Inl st \<Rightarrow> Inr (Inl st)
        | Inr divisor \<Rightarrow> bindr (mod_inv divisor q) (\<lambda>divisor_inv.
            if divisor_inv = 0 then Inr (Inl kPayloadStatusMissingModulus)
            else bindr (sud_operand layout control h1 q (di_rns inst) (ks_payload s)) (\<lambda>vs.
                 Inr (Inr (divisor_inv, vs))))))"

text \<open>From the allocation of the result on.\<close>

definition arithmetic_compute ::
  "payload_layout \<Rightarrow> payload_extra_layout \<Rightarrow> nat \<Rightarrow> decoded_instruction \<Rightarrow> nat \<Rightarrow> nat \<Rightarrow> nat \<Rightarrow>
   kernel_state \<Rightarrow> (kernel_state \<times> bool) res" where
  "arithmetic_compute layout extra control_count inst h0 h1 q s =
     bindr (payload_handle_flags (ks_control s) layout h0) (\<lambda>flags.
     bindr (payload_allocate_handle (ks_control s) layout (di_rns inst)
        (flags AND kPayloadFlagIsNtt \<noteq> 0)) (\<lambda>(control', out, st).
     if st \<noteq> kPayloadStatusOk then break_with st s
     else if \<not> is_neg inst \<and> \<not> is_con inst \<and> \<not> is_add inst \<and> \<not> is_sub inst \<and> \<not> is_sud inst
     then break_with kPayloadStatusUnsupportedOpcode (s\<lparr>ks_control := control'\<rparr>)
     else bindr (sud_prepare layout extra control_count inst h1 q control' s) (\<lambda>r.
       case r of
         Inl st' \<Rightarrow> break_with st' (s\<lparr>ks_control := control'\<rparr>)
       | Inr (divisor_inv, sud) \<Rightarrow>
           bindr (arithmetic_loop inst q divisor_inv sud (pl_coeff_count layout)
              (payload_handle_coeff_offset layout h0) (payload_handle_coeff_offset layout h1)
              (payload_handle_coeff_offset layout out) (ks_payload s)) (\<lambda>payload'.
           set_register layout inst out
             (s\<lparr>ks_control := control', ks_payload := payload', ks_status := st\<rparr>)))))"

definition arithmetic_step ::
  "payload_layout \<Rightarrow> payload_extra_layout \<Rightarrow> nat \<Rightarrow> kernel_step" where
  "arithmetic_step layout extra control_count inst s =
     (if \<not> is_arithmetic_opcode (di_opcode inst) then continue_with s
      else bindr (resolve_operand_handle (ks_control s) layout extra (ks_handles s) inst False
              (ks_status s)) (\<lambda>(h0, st0).
      if st0 \<noteq> kPayloadStatusOk then break_with st0 s
      else bindr (payload_lookup_modulus (ks_control s) layout (di_rns inst)) (\<lambda>q.
      if q = 0 then break_with kPayloadStatusMissingModulus s
      else bindr (if is_add inst \<or> is_sub inst \<or> is_sud inst
                  then resolve_operand_handle (ks_control s) layout extra (ks_handles s) inst True st0
                  else Inr (h0, st0)) (\<lambda>(h1, st1).
      if st1 \<noteq> kPayloadStatusOk then break_with st1 s
      else arithmetic_compute layout extra control_count inst h0 h1 q s))))"

definition execute_arithmetic_module ::
  "nat list \<Rightarrow> nat list \<Rightarrow> nat list \<Rightarrow> nat list \<Rightarrow> nat \<Rightarrow> nat \<Rightarrow> nat \<Rightarrow> nat \<Rightarrow>
   (nat list \<times> nat list \<times> nat list) res" where
  "execute_arithmetic_module instructions control payload outputs instruction_word_count
       control_count output_count partition_id =
     (if output_count = 0 then Inr (control, payload, outputs)
      else bindr (parse_payload_layout control control_count) (\<lambda>(parsed, status).
        case parsed of
          None \<Rightarrow> reject_kernel 2 partition_id outputs output_count status control payload
        | Some layout \<Rightarrow>
            bindr (parse_payload_extra_layout control control_count layout) (\<lambda>(extra, status').
            if status' \<noteq> kPayloadStatusOk
            then reject_kernel 2 partition_id outputs output_count status' control payload
            else bindr (load_lines control extra) (\<lambda>lines.
                 bindr (kernel_body (arithmetic_step layout extra control_count) layout status' lines
                     instructions instruction_word_count control payload)
              (finish_kernel 2 partition_id outputs output_count layout)))))"

section \<open>Base conversion\<close>

definition resolve_base_conv_operand_handle ::
  "nat list \<Rightarrow> payload_layout \<Rightarrow> nat list \<Rightarrow> decoded_instruction \<Rightarrow> nat \<Rightarrow> (nat \<times> nat) res" where
  "resolve_base_conv_operand_handle control layout handles inst status =
     (if is_immediate inst False then Inr (0, kPayloadStatusUnsupportedImmediate)
      else if di_src0 inst = kTokenOperandId then resolve_token control layout (di_aux inst) status
      else resolve_register layout handles (di_src0 inst) status)"

text \<open>\<open>bci\<close>: the unit takes the entry of the line and forgets its outputs.\<close>

definition bci_step ::
  "payload_extra_layout \<Rightarrow> nat \<Rightarrow> kernel_step" where
  "bci_step extra control_count inst s =
     (let bcu_id = decode_bcu_id (di_dst inst) in
      bindr (payload_find_bci_entry (ks_control s) control_count extra (w32 (di_line_crc inst)))
        (\<lambda>found. case found of
           None \<Rightarrow> break_with kPayloadStatusMissingBciConfig s
         | Some e \<Rightarrow>
             if be_bcu_id e \<noteq> bcu_id \<or> bcu_id \<ge> pe_bcu_unit_count extra \<or> bcu_id \<ge> kMaxBcuUnits
             then break_with kPayloadStatusMissingBciConfig s
             else bindr (wr (ks_lines s) bcu_id (w32 (di_line_crc inst))) (\<lambda>lines.
                  bindr (foldr_res (\<lambda>d c. wr c (bcu_cursor extra bcu_id d) 0)
                           [0..<pe_bcu_output_capacity extra] (ks_control s)) (\<lambda>control'.
                  continue_with (s\<lparr>ks_lines := lines, ks_control := control',
                    ks_executed := w32 (ks_executed s + 1)\<rparr>)))))"

text \<open>The position of the source base in the entry: the last match, or \<open>src_count\<close>.\<close>

definition source_position :: "nat list \<Rightarrow> bci_entry \<Rightarrow> nat \<Rightarrow> nat res" where
  "source_position control e rns_base_id =
     foldr_res (\<lambda>k pos. bindr (rd32 control (w32 (be_src_base_offset e + k))) (\<lambda>b.
         Inr (if b = rns_base_id then k else pos))) [0..<be_src_count e] (be_src_count e)"

text \<open>
  A \<open>pl1\<close> whose source is in the transformed domain converts it into a new handle first: the
  control words, the payload and the handle, or the status of the \<open>break\<close> with the state it leaves.
\<close>

definition normalize_source ::
  "payload_layout \<Rightarrow> decoded_instruction \<Rightarrow> nat \<Rightarrow> kernel_state \<Rightarrow> (nat + kernel_state \<times> nat) res" where
  "normalize_source layout inst h s =
     bindr (if di_opcode inst = 18 then payload_handle_flags (ks_control s) layout h else Inr 0) (\<lambda>flags.
     if flags AND kPayloadFlagIsNtt = 0 then Inr (Inr (s, h))
     else bindr (payload_lookup_modulus (ks_control s) layout (di_rns inst)) (\<lambda>q.
       if q = 0 then Inr (Inl kPayloadStatusMissingModulus)
       else bindr (payload_allocate_handle (ks_control s) layout (di_rns inst) False)
         (\<lambda>(control', out, st).
         if st \<noteq> kPayloadStatusOk then Inr (Inl st)
         else bindr (reduce_loop q (pl_coeff_count layout) (payload_handle_coeff_offset layout h)
                 (payload_handle_coeff_offset layout out) (ks_payload s)) (\<lambda>p1.
              bindr (transform_at (payload_handle_coeff_offset layout out) (pl_coeff_count layout) q
                 (di_rns inst) True p1) (\<lambda>payload'.
              Inr (Inr (s\<lparr>ks_control := control', ks_payload := payload'\<rparr>, out)))))))"

text \<open>
  The handle of one output of the unit: the one in its table, or a new one with zero coefficients.
  The first component is the status.
\<close>

definition output_handle ::
  "payload_layout \<Rightarrow> nat \<Rightarrow> nat \<Rightarrow> kernel_state \<Rightarrow> (nat \<times> nat \<times> kernel_state) res" where
  "output_handle layout table_cursor dst_base_id s =
     bindr (rd32 (ks_control s) table_cursor) (\<lambda>h.
     if h = 0 then
       bindr (payload_allocate_handle (ks_control s) layout dst_base_id False) (\<lambda>(control', out, st).
       if st \<noteq> kPayloadStatusOk then Inr (st, out, s\<lparr>ks_control := control'\<rparr>)
       else bindr (wr control' table_cursor out) (\<lambda>control''.
            bindr (foldr_res (\<lambda>c p. wr p (w32 (payload_handle_coeff_offset layout out + c)) 0)
                     [0..<pl_coeff_count layout] (ks_payload s)) (\<lambda>payload'.
            Inr (st, out, s\<lparr>ks_control := control'', ks_payload := payload'\<rparr>))))
     else bindr (payload_handle_rns_base_id (ks_control s) layout h) (\<lambda>b.
          Inr (if b \<noteq> dst_base_id then kPayloadStatusInvalidHandle else kPayloadStatusOk, h, s)))"

definition accumulate_loop :: "nat \<Rightarrow> nat \<Rightarrow> nat \<Rightarrow> nat \<Rightarrow> nat \<Rightarrow> nat list \<Rightarrow> nat list res" where
  "accumulate_loop q factor n src out payload =
     foldr_res (\<lambda>c p. bindr (rd p (w32 (src + c))) (\<lambda>a. bindr (rd p (w32 (out + c))) (\<lambda>b.
         wr p (w32 (out + c)) (mod_add (b mod q) (mod_mul (a mod q) factor q) q)))) [0..<n] payload"

definition accumulate_output ::
  "payload_layout \<Rightarrow> payload_extra_layout \<Rightarrow> bci_entry \<Rightarrow> nat \<Rightarrow> nat \<Rightarrow> nat \<Rightarrow> nat \<Rightarrow> kernel_state \<Rightarrow>
   (nat \<times> kernel_state) res" where
  "accumulate_output layout extra e bcu_id src_pos src_offset dst_idx s =
     (if dst_idx \<ge> pe_bcu_output_capacity extra then Inr (kPayloadStatusBadExtraLayout, s)
      else bindr (rd32 (ks_control s) (w32 (be_dst_base_offset e + dst_idx))) (\<lambda>dst_base_id.
           bindr (payload_lookup_modulus (ks_control s) layout dst_base_id) (\<lambda>q.
           if q = 0 then Inr (kPayloadStatusMissingModulus, s)
           else bindr (rd (ks_control s)
                  (w32 (be_factor_offset e + w32 (src_pos * be_dst_count e + dst_idx)))) (\<lambda>f.
                bindr (output_handle layout (bcu_cursor extra bcu_id dst_idx) dst_base_id s)
                  (\<lambda>(st, out, s').
                if st \<noteq> kPayloadStatusOk then Inr (st, s')
                else bindr (accumulate_loop q (f mod q) (pl_coeff_count layout) src_offset
                        (payload_handle_coeff_offset layout out) (ks_payload s')) (\<lambda>payload'.
                     Inr (kPayloadStatusOk, s'\<lparr>ks_payload := payload'\<rparr>)))))))"

fun output_loop ::
  "(nat \<Rightarrow> kernel_state \<Rightarrow> (nat \<times> kernel_state) res) \<Rightarrow> nat list \<Rightarrow> kernel_state \<Rightarrow>
   (nat \<times> kernel_state) res" where
  "output_loop f [] s = Inr (kPayloadStatusOk, s)"
| "output_loop f (d # ds) s =
     bindr (f d s) (\<lambda>(st, s'). if st \<noteq> kPayloadStatusOk then Inr (st, s') else output_loop f ds s')"

text \<open>\<open>pl1\<close> and \<open>bcw\<close>: one source limb is scaled into every output of the active entry.\<close>

definition convert_step ::
  "payload_layout \<Rightarrow> payload_extra_layout \<Rightarrow> bci_entry \<Rightarrow> nat \<Rightarrow> kernel_step" where
  "convert_step layout extra e bcu_id inst s =
     bindr (resolve_base_conv_operand_handle (ks_control s) layout (ks_handles s) inst (ks_status s))
       (\<lambda>(h, st0).
     if st0 \<noteq> kPayloadStatusOk then break_with st0 s
     else bindr (source_position (ks_control s) e (di_rns inst)) (\<lambda>src_pos.
       if src_pos = be_src_count e then break_with kPayloadStatusMissingBciConfig s
       else bindr (normalize_source layout inst h s) (\<lambda>normalized.
         case normalized of
           Inl st \<Rightarrow> break_with st s
         | Inr (s1, h1) \<Rightarrow>
             bindr (output_loop (accumulate_output layout extra e bcu_id src_pos
                      (payload_handle_coeff_offset layout h1)) [0..<be_dst_count e] s1) (\<lambda>(st, s2).
             if st \<noteq> kPayloadStatusOk then break_with st s2
             else continue_with (s2\<lparr>ks_status := st, ks_executed := w32 (ks_executed s2 + 1)\<rparr>)))))"

definition base_conv_step ::
  "payload_layout \<Rightarrow> payload_extra_layout \<Rightarrow> nat \<Rightarrow> kernel_step" where
  "base_conv_step layout extra control_count inst s =
     (if \<not> is_base_conv_opcode (di_opcode inst) then continue_with s
      else if di_opcode inst = 17 then bci_step extra control_count inst s
      else if di_opcode inst \<noteq> 18 \<and> di_opcode inst \<noteq> 32
      then break_with kPayloadStatusUnsupportedOpcode s
      else let bcu_id = decode_bcu_id (di_dst inst) in
        if bcu_id \<ge> pe_bcu_unit_count extra \<or> bcu_id \<ge> kMaxBcuUnits
        then break_with kPayloadStatusMissingBciConfig s
        else bindr (rd (ks_lines s) bcu_id) (\<lambda>line_crc.
          if line_crc = 0 then break_with kPayloadStatusMissingBciConfig s
          else bindr (payload_find_bci_entry (ks_control s) control_count extra line_crc) (\<lambda>found.
            case found of
              None \<Rightarrow> break_with kPayloadStatusMissingBciConfig s
            | Some e \<Rightarrow>
                if be_bcu_id e \<noteq> bcu_id then break_with kPayloadStatusMissingBciConfig s
                else convert_step layout extra e bcu_id inst s)))"

definition save_lines :: "payload_extra_layout \<Rightarrow> nat list \<Rightarrow> nat list \<Rightarrow> nat list res" where
  "save_lines extra lines control =
     foldr_res (\<lambda>i c. bindr (rd lines i) (\<lambda>v. wr c (w32 (pe_bcu_active_offset extra + i)) v))
       [0..<min (pe_bcu_active_count extra) kMaxBcuUnits] control"

text \<open>Without the extra layout there is nothing to convert with, so its absence is rejected too.\<close>

definition execute_base_conv_module ::
  "nat list \<Rightarrow> nat list \<Rightarrow> nat list \<Rightarrow> nat list \<Rightarrow> nat \<Rightarrow> nat \<Rightarrow> nat \<Rightarrow> nat \<Rightarrow>
   (nat list \<times> nat list \<times> nat list) res" where
  "execute_base_conv_module instructions control payload outputs instruction_word_count
       control_count output_count partition_id =
     (if output_count = 0 then Inr (control, payload, outputs)
      else bindr (parse_payload_layout control control_count) (\<lambda>(parsed, status).
        case parsed of
          None \<Rightarrow> reject_kernel 5 partition_id outputs output_count status control payload
        | Some layout \<Rightarrow>
            bindr (parse_payload_extra_layout control control_count layout) (\<lambda>(extra, status').
            if \<not> pe_valid extra
            then reject_kernel 5 partition_id outputs output_count
                   (if status' = kPayloadStatusOk then kPayloadStatusBadExtraLayout else status')
                   control payload
            else bindr (load_lines control extra) (\<lambda>lines.
                 bindr (kernel_body (base_conv_step layout extra control_count) layout status' lines
                     instructions instruction_word_count control payload) (\<lambda>s.
                 bindr (save_lines extra (ks_lines s) (ks_control s)) (\<lambda>control'.
                 finish_kernel 5 partition_id outputs output_count layout
                   (s\<lparr>ks_control := control'\<rparr>)))))))"

end
