(* ===== verification/HlsStore.thy ===== *)
theory HlsStore
  imports HlsKernels
begin

unbundle bit_operations_syntax

text \<open>
  What the control block and the payload promise: the tables of a well-formed block do not overlap,
  lookups and allocations stay inside them, and a handle owns one block of coefficients that no
  later instruction changes. The locale \<open>block_unit\<close> is the contract the kernels share that compute
  one new block per instruction; it is interpreted on the steps of the kernels.
\<close>

section \<open>Blocks\<close>

lemma rd32_in [simp]: "i < length c \<Longrightarrow> rd32 c i = Inr (w32 (c ! i))"
  by (simp add: rd32_def)

text \<open>A loop that writes one block, from left to right, and reads nothing it has written.\<close>

definition splice :: "'a list \<Rightarrow> nat \<Rightarrow> 'a list \<Rightarrow> 'a list" where
  "splice xs k ys = take k xs @ ys @ drop (k + length ys) xs"

lemma length_splice [simp]: "k + length ys \<le> length xs \<Longrightarrow> length (splice xs k ys) = length xs"
  by (simp add: splice_def)

lemma nth_splice:
  "k + length ys \<le> length xs \<Longrightarrow> i < length xs \<Longrightarrow>
   splice xs k ys ! i = (if k \<le> i \<and> i < k + length ys then ys ! (i - k) else xs ! i)"
  by (auto simp: splice_def nth_append)

lemma block_loop:
  assumes l: "out + n \<le> length xs" "length xs < 2 ^ 32"
    and F: "\<And>c p. c < n \<Longrightarrow> length p = length xs \<Longrightarrow>
      (\<forall>i. i < out \<or> out + c \<le> i \<longrightarrow> p ! i = xs ! i) \<Longrightarrow> F c p = Inr (g c)"
  shows "foldr_res (\<lambda>c p. bindr (F c p) (\<lambda>v. wr p (w32 (out + c)) v)) [0..<n] xs =
    Inr (splice xs out (List.map g [0..<n]))"
proof -
  have "\<exists>p. foldr_res (\<lambda>c p. bindr (F c p) (\<lambda>v. wr p (w32 (out + c)) v)) [0..<n] xs = Inr p \<and>
    (length p = length xs \<and> (\<forall>c < n. p ! (out + c) = g c) \<and>
     (\<forall>i. i < out \<or> out + n \<le> i \<longrightarrow> p ! i = xs ! i))"
  proof (rule foldr_res_range [where I = "\<lambda>m p. length p = length xs \<and> (\<forall>c < m. p ! (out + c) = g c) \<and>
     (\<forall>i. i < out \<or> out + m \<le> i \<longrightarrow> p ! i = xs ! i)"])
    fix c p
    assume c: "c < n" and I: "length p = length xs \<and> (\<forall>k < c. p ! (out + k) = g k) \<and>
     (\<forall>i. i < out \<or> out + c \<le> i \<longrightarrow> p ! i = xs ! i)"
    have "F c p = Inr (g c)" using F [OF c, of p] I by blast
    moreover have "out + c < length p" "w32 (out + c) = out + c" using l c I by simp_all
    ultimately show "\<exists>p'. bindr (F c p) (\<lambda>v. wr p (w32 (out + c)) v) = Inr p' \<and>
        length p' = length xs \<and> (\<forall>k < Suc c. p' ! (out + k) = g k) \<and>
        (\<forall>i. i < out \<or> out + Suc c \<le> i \<longrightarrow> p' ! i = xs ! i)"
      using I by (auto simp: nth_list_update less_Suc_eq)
  qed simp
  then obtain p where p: "foldr_res (\<lambda>c p. bindr (F c p) (\<lambda>v. wr p (w32 (out + c)) v)) [0..<n] xs = Inr p"
    "length p = length xs" "\<And>c. c < n \<Longrightarrow> p ! (out + c) = g c"
    "\<And>i. i < out \<or> out + n \<le> i \<Longrightarrow> p ! i = xs ! i" by blast
  have "p = splice xs out (List.map g [0..<n])"
  proof (rule nth_equalityI)
    fix i assume i: "i < length p"
    show "p ! i = splice xs out (List.map g [0..<n]) ! i"
    proof (cases "out \<le> i \<and> i < out + n")
      case True
      then have "i - out < n" "out + (i - out) = i" by linarith+
      then have "p ! i = g (i - out)" using p(3) [of "i - out"] by simp
      with True \<open>i - out < n\<close> show ?thesis using l(1) i p(2) by (simp add: nth_splice)
    next
      case False
      then have "p ! i = xs ! i" using p(4) [of i] by linarith
      with False i show ?thesis using l(1) p(2) by (auto simp: nth_splice)
    qed
  qed (use p(2) l(1) in simp)
  with p(1) show ?thesis by simp
qed

lemma coefficient_loop_ok:
  assumes "out + n \<le> length xs" "length xs < 2 ^ 32" "s0 + n \<le> length xs" "s1 + n \<le> length xs"
    and "s0 + n \<le> out \<or> out + n \<le> s0" "s1 + n \<le> out \<or> out + n \<le> s1"
  shows "coefficient_loop f q n s0 s1 out xs =
    Inr (splice xs out (List.map (\<lambda>c. f (xs ! (s0 + c) mod q) (xs ! (s1 + c) mod q)) [0..<n]))"
proof -
  let ?F = "\<lambda>c p. bindr (rd p (w32 (s0 + c))) (\<lambda>a. bindr (rd p (w32 (s1 + c))) (\<lambda>b.
      Inr (f (a mod q) (b mod q))))"
  have "coefficient_loop f q n s0 s1 out xs =
      foldr_res (\<lambda>c p. bindr (?F c p) (\<lambda>v. wr p (w32 (out + c)) v)) [0..<n] xs"
    by (simp add: coefficient_loop_def bindr_assoc)
  also have "\<dots> = Inr (splice xs out (List.map (\<lambda>c. f (xs ! (s0 + c) mod q) (xs ! (s1 + c) mod q)) [0..<n]))"
  proof (rule block_loop [OF assms(1,2)])
    fix c p
    assume c: "c < n" and p: "length p = length xs" "\<forall>i. i < out \<or> out + c \<le> i \<longrightarrow> p ! i = xs ! i"
    have "w32 (s0 + c) = s0 + c" "w32 (s1 + c) = s1 + c" "s0 + c < length xs" "s1 + c < length xs"
      using assms(2-4) c by simp_all
    moreover have "s0 + c < out \<or> out + c \<le> s0 + c" "s1 + c < out \<or> out + c \<le> s1 + c"
      using assms(5,6) c by linarith+
    then have "p ! (s0 + c) = xs ! (s0 + c)" "p ! (s1 + c) = xs ! (s1 + c)" using p(2) by blast+
    ultimately show "?F c p = Inr (f (xs ! (s0 + c) mod q) (xs ! (s1 + c) mod q))"
      using p by simp
  qed
  finally show ?thesis .
qed

lemma reduce_loop_ok:
  assumes "out + n \<le> length xs" "length xs < 2 ^ 32" "src + n \<le> length xs"
    and "src + n \<le> out \<or> out + n \<le> src"
  shows "reduce_loop q n src out xs = Inr (splice xs out (List.map (\<lambda>c. xs ! (src + c) mod q) [0..<n]))"
proof -
  let ?F = "\<lambda>c p. bindr (rd p (w32 (src + c))) (\<lambda>a. Inr (a mod q))"
  have "reduce_loop q n src out xs =
      foldr_res (\<lambda>c p. bindr (?F c p) (\<lambda>v. wr p (w32 (out + c)) v)) [0..<n] xs"
    by (simp add: reduce_loop_def bindr_assoc)
  also have "\<dots> = Inr (splice xs out (List.map (\<lambda>c. xs ! (src + c) mod q) [0..<n]))"
  proof (rule block_loop [OF assms(1,2)])
    fix c p
    assume c: "c < n" and p: "length p = length xs" "\<forall>i. i < out \<or> out + c \<le> i \<longrightarrow> p ! i = xs ! i"
    have "src + c < out \<or> out + c \<le> src + c" "src + c < length xs" using assms(3,4) c by linarith+
    moreover from this p(2) have "p ! (src + c) = xs ! (src + c)" by blast
    ultimately show "?F c p = Inr (xs ! (src + c) mod q)" using p(1) assms(2) by simp
  qed
  finally show ?thesis .
qed

section \<open>Well-formed control blocks\<close>

text \<open>What the layout of a block without wrap-around is, and what the kernels assume of the memory.\<close>

definition layout_ok :: "payload_layout \<Rightarrow> nat list \<Rightarrow> nat list \<Rightarrow> bool" where
  "layout_ok L control payload \<longleftrightarrow>
     pl_rns_table_offset L = 9 \<and>
     pl_register_handles_offset L = 9 + 2 * pl_rns_table_count L \<and>
     pl_handle_meta_offset L = pl_register_handles_offset L + pl_register_count L \<and>
     pl_token_directory_offset L = pl_handle_meta_offset L + 2 * pl_handle_capacity L \<and>
     pl_output_directory_offset L = pl_token_directory_offset L + 2 * pl_token_count L \<and>
     pl_output_directory_offset L + 2 * pl_output_token_count L \<le> length control \<and>
     length control < 2 ^ 32 \<and> length payload < 2 ^ 32 \<and>
     pl_handle_capacity L * pl_coeff_count L \<le> length payload \<and>
     pl_register_count L \<le> kMaxRegisters \<and> w32 (control ! 5) \<le> pl_handle_capacity L"

definition live :: "nat list \<Rightarrow> nat" where
  "live control = w32 (control ! 5)"

definition block :: "payload_layout \<Rightarrow> nat list \<Rightarrow> nat \<Rightarrow> nat list" where
  "block L payload h = take (pl_coeff_count L) (drop ((h - 1) * pl_coeff_count L) payload)"

text \<open>The control words a new handle may change.\<close>

definition same_tables :: "payload_layout \<Rightarrow> nat list \<Rightarrow> nat list \<Rightarrow> bool" where
  "same_tables L c c' \<longleftrightarrow> length c' = length c \<and>
     (\<forall>i. i \<noteq> 5 \<and> (i < pl_handle_meta_offset L \<or> pl_token_directory_offset L \<le> i) \<longrightarrow> c' ! i = c ! i)"

lemma same_tables_refl [simp]: "same_tables L c c"
  by (simp add: same_tables_def)

lemma same_tables_trans: "same_tables L a b \<Longrightarrow> same_tables L b c \<Longrightarrow> same_tables L a c"
  by (auto simp: same_tables_def)

text \<open>The table of moduli as an association list.\<close>

definition moduli :: "payload_layout \<Rightarrow> nat list \<Rightarrow> (nat \<times> nat) list" where
  "moduli L c = List.map (\<lambda>i. (w32 (c ! (9 + 2 * i)), c ! (10 + 2 * i))) [0..<pl_rns_table_count L]"

lemma moduli_same: "layout_ok L c p \<Longrightarrow> same_tables L c c' \<Longrightarrow> moduli L c' = moduli L c"
  by (auto simp: moduli_def same_tables_def layout_ok_def)

lemma lookup_modulus_is_map:
  assumes "layout_ok L c p"
  shows "payload_lookup_modulus c L b = Inr (case map_of (moduli L c) b of None \<Rightarrow> 0 | Some m \<Rightarrow> m)"
proof -
  have "modulus_loop c L b is = Inr (case map_of (List.map (\<lambda>i. (w32 (c ! (9 + 2 * i)), c ! (10 + 2 * i))) is) b of
      None \<Rightarrow> 0 | Some m \<Rightarrow> m)" if "set is \<subseteq> {..<pl_rns_table_count L}" for "is"
    using that
  proof (induction "is")
    case (Cons i "is")
    then have "9 + i * 2 + 1 < length c" "length c < 2 ^ 32" using assms by (auto simp: layout_ok_def)
    then have e: "w32 (9 + i * 2) = 9 + 2 * i" "9 + 2 * i < length c" "w32 (9 + 2 * i + 1) = 10 + 2 * i"
      "10 + 2 * i < length c" by simp_all
    have off: "pl_rns_table_offset L = 9" using assms by (simp add: layout_ok_def)
    have "modulus_loop c L b (i # is) =
        (if w32 (c ! (9 + 2 * i)) = b then Inr (c ! (10 + 2 * i)) else modulus_loop c L b is)"
      unfolding modulus_loop.simps Let_def off e(1) rd32_in [OF e(2)] bindr_simps e(3) rd_in [OF e(4)] ..
    then show ?case using Cons by simp
  qed simp
  then show ?thesis by (simp add: payload_lookup_modulus_def moduli_def atLeast0LessThan)
qed


section \<open>Handles\<close>

lemma layout_bounds:
  assumes "layout_ok L c p" "1 \<le> h" "h \<le> pl_handle_capacity L"
  shows "sub32 h 1 = h - 1" "meta_cursor L h = pl_handle_meta_offset L + 2 * (h - 1)"
    "pl_handle_meta_offset L + 2 * (h - 1) + 1 < pl_token_directory_offset L"
    "pl_token_directory_offset L \<le> length c" "5 < pl_handle_meta_offset L"
    "(h - 1) * pl_coeff_count L + pl_coeff_count L \<le> length p"
    "payload_handle_coeff_offset L h = (h - 1) * pl_coeff_count L"
proof -
  have cap: "pl_handle_capacity L < 2 ^ 32"
    using assms(1) by (auto simp: layout_ok_def)
  then show s: "sub32 h 1 = h - 1" using assms(2,3) by (intro sub32_ge) simp_all
  show t: "pl_handle_meta_offset L + 2 * (h - 1) + 1 < pl_token_directory_offset L"
    using assms by (auto simp: layout_ok_def)
  show u: "pl_token_directory_offset L \<le> length c" "5 < pl_handle_meta_offset L"
    using assms(1) by (auto simp: layout_ok_def)
  have "length c < 2 ^ 32" using assms(1) by (auto simp: layout_ok_def)
  with t u have "w32 (pl_handle_meta_offset L + (h - 1) * 2) = pl_handle_meta_offset L + (h - 1) * 2" by simp
  then show "meta_cursor L h = pl_handle_meta_offset L + 2 * (h - 1)"
    by (simp add: meta_cursor_def s mult.commute)
  have "(h - 1) * pl_coeff_count L + pl_coeff_count L = h * pl_coeff_count L"
    using assms(2) by (cases h) simp_all
  also have "\<dots> \<le> pl_handle_capacity L * pl_coeff_count L" using assms(3) by (rule mult_le_mono1)
  also have "\<dots> \<le> length p" using assms(1) by (simp add: layout_ok_def)
  finally show v: "(h - 1) * pl_coeff_count L + pl_coeff_count L \<le> length p" .
  have "length p < 2 ^ 32" using assms(1) by (simp add: layout_ok_def)
  with v have "(h - 1) * pl_coeff_count L < 2 ^ 32" by linarith
  then show "payload_handle_coeff_offset L h = (h - 1) * pl_coeff_count L"
    by (simp add: payload_handle_coeff_offset_def s)
qed

lemma rd32_5: "layout_ok L c p \<Longrightarrow> rd32 c 5 = Inr (live c)"
  by (auto simp: rd32_def live_def layout_ok_def)

text \<open>What the metadata say of a handle: its base and whether it is transformed.\<close>

definition handle_flags :: "payload_layout \<Rightarrow> nat list \<Rightarrow> nat \<Rightarrow> nat" where
  "handle_flags L c h = (if h = 0 \<or> h > live c then 0 else w32 (c ! (pl_handle_meta_offset L + 2 * (h - 1) + 1)))"

definition handle_base :: "payload_layout \<Rightarrow> nat list \<Rightarrow> nat \<Rightarrow> nat" where
  "handle_base L c h = (if h = 0 \<or> h > live c then 0 else w32 (c ! (pl_handle_meta_offset L + 2 * (h - 1))))"

lemma flags_ok:
  assumes "layout_ok L c p"
  shows "payload_handle_flags c L h = Inr (handle_flags L c h)"
    "payload_handle_rns_base_id c L h = Inr (handle_base L c h)"
proof -
  have cap: "live c \<le> pl_handle_capacity L" using assms by (simp add: layout_ok_def live_def)
  note b = layout_bounds [OF assms, of h]
  have "length c < 2 ^ 32" using assms by (simp add: layout_ok_def)
  then have "1 \<le> h \<Longrightarrow> h \<le> live c \<Longrightarrow>
      w32 (pl_handle_meta_offset L + 2 * (h - 1) + 1) = pl_handle_meta_offset L + 2 * (h - 1) + 1 \<and>
      pl_handle_meta_offset L + 2 * (h - 1) + 1 < length c"
    using b cap by simp
  then show "payload_handle_flags c L h = Inr (handle_flags L c h)"
    "payload_handle_rns_base_id c L h = Inr (handle_base L c h)"
    using b(2) cap
    by (auto simp: payload_handle_flags_def payload_handle_rns_base_id_def rd32_5 [OF assms]
        handle_flags_def handle_base_def)
qed

text \<open>The control words after an allocation.\<close>

definition with_handle :: "payload_layout \<Rightarrow> nat \<Rightarrow> bool \<Rightarrow> nat list \<Rightarrow> nat list" where
  "with_handle L b f c = c[5 := live c + 1, pl_handle_meta_offset L + 2 * live c := b,
     pl_handle_meta_offset L + 2 * live c + 1 := if f then kPayloadFlagIsNtt else 0]"

lemma allocate_ok:
  assumes "layout_ok L c p"
  shows "payload_allocate_handle c L b f =
    Inr (if live c < pl_handle_capacity L then (with_handle L b f c, live c + 1, kPayloadStatusOk)
         else (c, 0, kPayloadStatusHandleOverflow))"
proof (cases "live c < pl_handle_capacity L")
  case True
  have len: "length c < 2 ^ 32" "pl_handle_capacity L < 2 ^ 32" using assms by (auto simp: layout_ok_def)
  have w: "w32 (live c + 1) = live c + 1" using True len by simp
  have "1 \<le> live c + 1" "live c + 1 \<le> pl_handle_capacity L" using True by simp_all
  note b = layout_bounds [OF assms this]
  have "w32 (pl_handle_meta_offset L + 2 * live c + 1) = pl_handle_meta_offset L + 2 * live c + 1"
    using b(3,4) len by simp
  then show ?thesis
    using True b(2-5) w by (simp add: payload_allocate_handle_def rd32_5 [OF assms] with_handle_def Let_def)
qed (simp add: payload_allocate_handle_def rd32_5 [OF assms])

lemma with_handle_facts:
  assumes "layout_ok L c p" "live c < pl_handle_capacity L"
  shows "same_tables L c (with_handle L b f c)" "live (with_handle L b f c) = live c + 1"
    "layout_ok L (with_handle L b f c) p"
    "handle_flags L (with_handle L b f c) (live c + 1) = (if f then 1 else 0)"
    "b < 2 ^ 32 \<Longrightarrow> handle_base L (with_handle L b f c) (live c + 1) = b"
    "\<And>h. h \<le> live c \<Longrightarrow> handle_flags L (with_handle L b f c) h = handle_flags L c h"
    "\<And>h. h \<le> live c \<Longrightarrow> handle_base L (with_handle L b f c) h = handle_base L c h"
proof -
  have len: "pl_handle_capacity L < 2 ^ 32" using assms(1) by (auto simp: layout_ok_def)
  have "1 \<le> live c + 1" "live c + 1 \<le> pl_handle_capacity L" using assms(2) by simp_all
  note b = layout_bounds [OF assms(1) this]
  have m: "pl_handle_meta_offset L + 2 * live c + 1 < pl_token_directory_offset L" using b(3) by simp
  show s: "same_tables L c (with_handle L b f c)"
    using m by (auto simp: same_tables_def with_handle_def nth_list_update)
  have ne: "5 \<noteq> pl_handle_meta_offset L + 2 * k" "5 \<noteq> pl_handle_meta_offset L + 2 * k + 1" for k
    using b(5) by simp_all
  have l5: "5 < length c" using b(4,5) m by simp
  have w: "w32 (live c + 1) = live c + 1" using assms(2) len by simp
  have "with_handle L b f c ! 5 = live c + 1"
    using ne [of "live c"] l5 unfolding with_handle_def by (simp add: nth_list_update)
  with w show lv: "live (with_handle L b f c) = live c + 1" by (simp add: live_def [of "with_handle L b f c"])
  have "length (with_handle L b f c) = length c" by (simp add: with_handle_def)
  with assms lv show "layout_ok L (with_handle L b f c) p" by (simp add: layout_ok_def live_def)
  have mm: "pl_handle_meta_offset L + 2 * live c < length c" "pl_handle_meta_offset L + 2 * live c + 1 < length c"
    using m b(4) by simp_all
  show "handle_flags L (with_handle L b f c) (live c + 1) = (if f then 1 else 0)"
    using mm unfolding handle_flags_def lv by (simp add: with_handle_def kPayloadFlagIsNtt_def)
  show "b < 2 ^ 32 \<Longrightarrow> handle_base L (with_handle L b f c) (live c + 1) = b"
    using mm unfolding handle_base_def lv by (simp add: with_handle_def nth_list_update)
  have old: "with_handle L b f c ! (pl_handle_meta_offset L + 2 * k) = c ! (pl_handle_meta_offset L + 2 * k)"
    "with_handle L b f c ! (pl_handle_meta_offset L + 2 * k + 1) = c ! (pl_handle_meta_offset L + 2 * k + 1)"
    if "k < live c" for k
  proof -
    have "2 * live c + 1 \<noteq> 2 * k" "2 * live c \<noteq> 2 * k + 1" by presburger+
    then show "with_handle L b f c ! (pl_handle_meta_offset L + 2 * k) = c ! (pl_handle_meta_offset L + 2 * k)"
      "with_handle L b f c ! (pl_handle_meta_offset L + 2 * k + 1) = c ! (pl_handle_meta_offset L + 2 * k + 1)"
      using that ne [of k] by (simp_all add: with_handle_def nth_list_update)
  qed
  show "handle_flags L (with_handle L b f c) h = handle_flags L c h" if "h \<le> live c" for h
    using old(2) [of "h - 1"] that by (auto simp: handle_flags_def lv)
  show "handle_base L (with_handle L b f c) h = handle_base L c h" if "h \<le> live c" for h
    using old(1) [of "h - 1"] that by (auto simp: handle_base_def lv)
qed

text \<open>Blocks: the new one, and the ones that stay.\<close>

lemma block_splice:
  assumes "layout_ok L c p" "1 \<le> h" "h \<le> pl_handle_capacity L" "1 \<le> k" "k \<le> pl_handle_capacity L"
    and "length vs = pl_coeff_count L"
  shows "block L (splice p ((h - 1) * pl_coeff_count L) vs) k = (if k = h then vs else block L p k)"
proof -
  let ?n = "pl_coeff_count L"
  note bh = layout_bounds(6) [OF assms(1-3)] and bk = layout_bounds(6) [OF assms(1,4,5)]
  let ?q = "splice p ((h - 1) * ?n) vs"
  have lq: "length ?q = length p" using bh assms(6) by simp
  show ?thesis
  proof (cases "k = h")
    case True
    then show ?thesis using bh assms(6) by (simp add: block_def splice_def)
  next
    case False
    have d: "(k - 1) * ?n + i < (h - 1) * ?n \<or> (h - 1) * ?n + ?n \<le> (k - 1) * ?n + i" if "i < ?n" for i
    proof (cases "k < h")
      case True
      then have "Suc (k - 1) * ?n \<le> (h - 1) * ?n" using assms(4) by (intro mult_le_mono1) simp
      with that show ?thesis by simp
    next
      case False
      then have "Suc (h - 1) * ?n \<le> (k - 1) * ?n" using \<open>k \<noteq> h\<close> assms(2) by (intro mult_le_mono1) simp
      then show ?thesis by simp
    qed
    have "block L ?q k = block L p k"
    proof (rule nth_equalityI)
      fix i assume "i < length (block L ?q k)"
      then have i: "i < ?n" by (simp add: block_def)
      then have "(k - 1) * ?n + i < length p" using bk by simp
      then show "block L ?q k ! i = block L p k ! i"
        using i d [OF i] bh bk assms(6) lq by (auto simp: block_def nth_splice)
    qed (simp add: block_def lq)
    with False show ?thesis by simp
  qed
qed

lemma nth_block:
  assumes "layout_ok L c p" "1 \<le> h" "h \<le> pl_handle_capacity L"
  shows "length (block L p h) = pl_coeff_count L"
    "i < pl_coeff_count L \<Longrightarrow> block L p h ! i = p ! ((h - 1) * pl_coeff_count L + i)"
  using layout_bounds(6) [OF assms] by (simp_all add: block_def)

section \<open>Instructions that compute a block\<close>

definition kernel_ok :: "payload_layout \<Rightarrow> kernel_state \<Rightarrow> bool" where
  "kernel_ok L s \<longleftrightarrow> layout_ok L (ks_control s) (ks_payload s) \<and>
     length (ks_handles s) = pl_register_count L \<and>
     (\<forall>h \<in> set (ks_handles s). h \<le> live (ks_control s)) \<and> ks_status s = kPayloadStatusOk"

text \<open>The state after an instruction that put the values \<open>vs\<close> under a new handle.\<close>

definition produce ::
  "payload_layout \<Rightarrow> decoded_instruction \<Rightarrow> bool \<Rightarrow> nat list \<Rightarrow> kernel_state \<Rightarrow> kernel_state" where
  "produce L inst f vs s = s\<lparr>
     ks_control := with_handle L (di_rns inst) f (ks_control s),
     ks_payload := splice (ks_payload s) (live (ks_control s) * pl_coeff_count L) vs,
     ks_handles := (ks_handles s)[di_dst inst mod pl_register_count L := live (ks_control s) + 1],
     ks_status := kPayloadStatusOk,
     ks_executed := w32 (ks_executed s + 1)\<rparr>"

definition has_room :: "payload_layout \<Rightarrow> kernel_state \<Rightarrow> bool" where
  "has_room L s \<longleftrightarrow> 0 < pl_register_count L \<and> live (ks_control s) < pl_handle_capacity L"

text \<open>The handle of a register, and the source operands that name a register that holds one.\<close>

definition handle_of :: "payload_layout \<Rightarrow> kernel_state \<Rightarrow> nat \<Rightarrow> nat" where
  "handle_of L s r = ks_handles s ! (r mod pl_register_count L)"

definition reads_register :: "payload_layout \<Rightarrow> decoded_instruction \<Rightarrow> bool \<Rightarrow> kernel_state \<Rightarrow> bool" where
  "reads_register L inst use_src1 s \<longleftrightarrow>
     drop_bit (if use_src1 then 1 else 0) (di_flags inst) AND 1 = 0 \<and>
     source_operand inst use_src1 < 0x800 \<and> handle_of L s (source_operand inst use_src1) \<noteq> 0"

abbreviation source_handle :: "payload_layout \<Rightarrow> decoded_instruction \<Rightarrow> bool \<Rightarrow> kernel_state \<Rightarrow> nat" where
  "source_handle L inst use_src1 s \<equiv> handle_of L s (source_operand inst use_src1)"

abbreviation source_block :: "payload_layout \<Rightarrow> decoded_instruction \<Rightarrow> bool \<Rightarrow> kernel_state \<Rightarrow> nat list" where
  "source_block L inst use_src1 s \<equiv> block L (ks_payload s) (source_handle L inst use_src1 s)"

definition modulus_of :: "payload_layout \<Rightarrow> kernel_state \<Rightarrow> nat \<Rightarrow> nat option" where
  "modulus_of L s b = map_of (moduli L (ks_control s)) b"

lemma produce_facts:
  assumes "kernel_ok L s" "has_room L s" "length vs = pl_coeff_count L"
  shows "kernel_ok L (produce L inst f vs s)"
    "live (ks_control (produce L inst f vs s)) = live (ks_control s) + 1"
    "block L (ks_payload (produce L inst f vs s)) (live (ks_control s) + 1) = vs"
    "\<And>h. 1 \<le> h \<Longrightarrow> h \<le> live (ks_control s) \<Longrightarrow>
      block L (ks_payload (produce L inst f vs s)) h = block L (ks_payload s) h"
    "\<And>h. h \<le> live (ks_control s) \<Longrightarrow>
      handle_flags L (ks_control (produce L inst f vs s)) h = handle_flags L (ks_control s) h"
    "handle_flags L (ks_control (produce L inst f vs s)) (live (ks_control s) + 1) = (if f then 1 else 0)"
    "modulus_of L (produce L inst f vs s) = modulus_of L s"
    "\<And>r. handle_of L (produce L inst f vs s) r =
      (if r mod pl_register_count L = di_dst inst mod pl_register_count L
       then live (ks_control s) + 1 else handle_of L s r)"
    "same_tables L (ks_control s) (ks_control (produce L inst f vs s))"
proof -
  let ?c = "ks_control s" and ?p = "ks_payload s" and ?h = "live (ks_control s) + 1"
  have lo: "layout_ok L ?c ?p" and room: "live ?c < pl_handle_capacity L"
    using assms(1,2) by (auto simp: kernel_ok_def has_room_def)
  note w = with_handle_facts [OF lo room, where b = "di_rns inst" and f = f]
  have b: "1 \<le> ?h" "?h \<le> pl_handle_capacity L" using room by simp_all
  have "(?h - 1) * pl_coeff_count L + length vs \<le> length ?p"
    using layout_bounds(6) [OF lo b] assms(3) by simp
  then have len: "length (splice ?p (live ?c * pl_coeff_count L) vs) = length ?p" by simp
  have lo': "layout_ok L (with_handle L (di_rns inst) f ?c) (splice ?p (live ?c * pl_coeff_count L) vs)"
    using w(3) unfolding layout_ok_def len .
  have hs: "h \<le> live ?c + 1" if "h \<in> set ((ks_handles s)[i := live ?c + 1])" for h i
    using that assms(1) set_update_subset_insert [of "ks_handles s" i "live ?c + 1"]
    by (fastforce simp: kernel_ok_def)
  show "kernel_ok L (produce L inst f vs s)"
    using assms(1) lo' w(2) hs by (simp add: kernel_ok_def produce_def)
  show "live (ks_control (produce L inst f vs s)) = live ?c + 1" by (simp add: produce_def w(2))
  show "block L (ks_payload (produce L inst f vs s)) ?h = vs"
    using block_splice [OF lo b b assms(3)] by (simp add: produce_def)
  show "block L (ks_payload (produce L inst f vs s)) h = block L ?p h" if "1 \<le> h" "h \<le> live ?c" for h
    using block_splice [OF lo b _ _ assms(3), of h] that room by (simp add: produce_def)
  show "handle_flags L (ks_control (produce L inst f vs s)) h = handle_flags L ?c h" if "h \<le> live ?c" for h
    using w(6) that by (simp add: produce_def)
  show "handle_flags L (ks_control (produce L inst f vs s)) ?h = (if f then 1 else 0)"
    using w(4) by (simp add: produce_def)
  show "modulus_of L (produce L inst f vs s) = modulus_of L s"
    using moduli_same [OF lo w(1)] by (simp add: modulus_of_def [abs_def] produce_def)
  show "same_tables L ?c (ks_control (produce L inst f vs s))" using w(1) by (simp add: produce_def)
  have "pl_register_count L = length (ks_handles s)" "0 < pl_register_count L"
    using assms(1,2) by (simp_all add: kernel_ok_def has_room_def)
  then show "handle_of L (produce L inst f vs s) r =
      (if r mod pl_register_count L = di_dst inst mod pl_register_count L
       then live ?c + 1 else handle_of L s r)" for r
    by (auto simp: handle_of_def produce_def)
qed

lemma plain_operand:
  assumes "x < 0x800"
  shows "x \<noteq> kImmOperandId" "x \<noteq> kTokenOperandId" "\<not> is_bcu_output_operand x"
proof -
  show "x \<noteq> kImmOperandId" "x \<noteq> kTokenOperandId"
    using assms by (simp_all add: kImmOperandId_def kTokenOperandId_def)
  have e: "(0x800 :: nat) = 2 ^ 11" by simp
  have b: "bit (0x800 :: nat) i \<longleftrightarrow> i = 11" for i unfolding e bit_exp_iff by simp
  have "take_bit 11 x = x" using assms by (simp add: take_bit_nat_eq_self_iff)
  then have "bit x i \<Longrightarrow> i < 11" for i by (metis bit_take_bit_iff)
  then have "x AND 0x800 = 0" by (intro bit_eqI) (auto simp: bit_and_iff b)
  then show "\<not> is_bcu_output_operand x" by (simp add: is_bcu_output_operand_def)
qed

lemma source_ok:
  assumes "kernel_ok L s" "0 < pl_register_count L" "reads_register L inst u s"
  shows "\<not> is_immediate inst u" "source_operand inst u \<noteq> kTokenOperandId"
    "\<not> is_bcu_output_operand (source_operand inst u)"
    "resolve_register L (ks_handles s) (source_operand inst u) (ks_status s) =
       Inr (source_handle L inst u s, kPayloadStatusOk)"
    "1 \<le> source_handle L inst u s" "source_handle L inst u s \<le> live (ks_control s)"
    "source_handle L inst u s \<le> pl_handle_capacity L"
proof -
  have lt: "source_operand inst u < 0x800" using assms(3) by (simp add: reads_register_def)
  show "\<not> is_immediate inst u"
    using assms(3) plain_operand(1) [OF lt] by (simp add: reads_register_def is_immediate_def)
  show "source_operand inst u \<noteq> kTokenOperandId" "\<not> is_bcu_output_operand (source_operand inst u)"
    using plain_operand [OF lt] by simp_all
  have len: "length (ks_handles s) = pl_register_count L" using assms(1) by (simp add: kernel_ok_def)
  then show "resolve_register L (ks_handles s) (source_operand inst u) (ks_status s) =
       Inr (source_handle L inst u s, kPayloadStatusOk)"
    using assms by (simp add: resolve_register_def handle_of_def reads_register_def kernel_ok_def)
  show "1 \<le> source_handle L inst u s" using assms(3) by (simp add: reads_register_def)
  have "source_handle L inst u s \<in> set (ks_handles s)"
    unfolding handle_of_def using len assms(2) by (intro nth_mem) simp
  then show l: "source_handle L inst u s \<le> live (ks_control s)" using assms(1) by (simp add: kernel_ok_def)
  have "live (ks_control s) \<le> pl_handle_capacity L"
    using assms(1) by (simp add: kernel_ok_def layout_ok_def live_def)
  with l show "source_handle L inst u s \<le> pl_handle_capacity L" by simp
qed

text \<open>What every kernel reads and writes around its computation.\<close>

lemma allocation_ok:
  assumes "kernel_ok L s" "has_room L s"
  shows "payload_allocate_handle (ks_control s) L b f =
      Inr (with_handle L b f (ks_control s), live (ks_control s) + 1, kPayloadStatusOk)"
    "payload_handle_coeff_offset L (live (ks_control s) + 1) = live (ks_control s) * pl_coeff_count L"
    "live (ks_control s) * pl_coeff_count L + pl_coeff_count L \<le> length (ks_payload s)"
    "length (ks_payload s) < 2 ^ 32"
proof -
  have lo: "layout_ok L (ks_control s) (ks_payload s)" and room: "live (ks_control s) < pl_handle_capacity L"
    using assms by (auto simp: kernel_ok_def has_room_def)
  show "payload_allocate_handle (ks_control s) L b f =
      Inr (with_handle L b f (ks_control s), live (ks_control s) + 1, kPayloadStatusOk)"
    using allocate_ok [OF lo] room by simp
  have "1 \<le> live (ks_control s) + 1" "live (ks_control s) + 1 \<le> pl_handle_capacity L" using room by simp_all
  note b = layout_bounds [OF lo this]
  show "payload_handle_coeff_offset L (live (ks_control s) + 1) = live (ks_control s) * pl_coeff_count L"
    "live (ks_control s) * pl_coeff_count L + pl_coeff_count L \<le> length (ks_payload s)"
    using b(6,7) by simp_all
  show "length (ks_payload s) < 2 ^ 32" using lo by (simp add: layout_ok_def)
qed

lemma source_offset:
  assumes "kernel_ok L s" "1 \<le> h" "h \<le> live (ks_control s)"
  shows "payload_handle_coeff_offset L h + pl_coeff_count L \<le> length (ks_payload s)"
    "payload_handle_coeff_offset L h + pl_coeff_count L \<le> live (ks_control s) * pl_coeff_count L"
    "\<And>i. i < pl_coeff_count L \<Longrightarrow> ks_payload s ! (payload_handle_coeff_offset L h + i) = block L (ks_payload s) h ! i"
    "length (block L (ks_payload s) h) = pl_coeff_count L"
proof -
  have lo: "layout_ok L (ks_control s) (ks_payload s)" and cap: "live (ks_control s) \<le> pl_handle_capacity L"
    using assms(1) by (auto simp: kernel_ok_def layout_ok_def live_def)
  have hc: "h \<le> pl_handle_capacity L" using assms(3) cap by simp
  note b = layout_bounds [OF lo assms(2) hc]
  show "payload_handle_coeff_offset L h + pl_coeff_count L \<le> length (ks_payload s)" using b(6,7) by simp
  have "Suc (h - 1) * pl_coeff_count L \<le> live (ks_control s) * pl_coeff_count L"
    using assms(2,3) by (intro mult_le_mono1) simp
  then show "payload_handle_coeff_offset L h + pl_coeff_count L \<le> live (ks_control s) * pl_coeff_count L"
    using b(7) by simp
  show "length (block L (ks_payload s) h) = pl_coeff_count L"
    "\<And>i. i < pl_coeff_count L \<Longrightarrow> ks_payload s ! (payload_handle_coeff_offset L h + i) = block L (ks_payload s) h ! i"
    using nth_block [OF lo assms(2) hc] b(7) by simp_all
qed

lemma set_register_produces:
  assumes "kernel_ok L s" "has_room L s"
  shows "set_register L inst (live (ks_control s) + 1)
      (s\<lparr>ks_control := with_handle L (di_rns inst) f (ks_control s),
         ks_payload := splice (ks_payload s) (live (ks_control s) * pl_coeff_count L) vs,
         ks_status := kPayloadStatusOk\<rparr>) = Inr (produce L inst f vs s, False)"
proof -
  have "length (ks_handles s) = pl_register_count L" "pl_register_count L \<le> kMaxRegisters"
    using assms(1) by (simp_all add: kernel_ok_def layout_ok_def)
  then show ?thesis
    using assms(2) by (simp add: set_register_def continue_with_def produce_def has_room_def
        bounded_register_count_def)
qed

lemma kernel_flags:
  assumes "kernel_ok L s"
  shows "payload_handle_flags (ks_control s) L h = Inr (handle_flags L (ks_control s) h)"
    "payload_handle_rns_base_id (ks_control s) L h = Inr (handle_base L (ks_control s) h)"
  using flags_ok [of L "ks_control s" "ks_payload s" h] assms by (simp_all add: kernel_ok_def)

lemma modulus_ok:
  assumes "kernel_ok L s" "modulus_of L s b = Some q"
  shows "payload_lookup_modulus (ks_control s) L b = Inr q"
  using lookup_modulus_is_map [of L "ks_control s" "ks_payload s" b] assms
  by (simp add: kernel_ok_def modulus_of_def)

definition full :: "payload_layout \<Rightarrow> kernel_state \<Rightarrow> bool" where
  "full L s \<longleftrightarrow> kernel_ok L s \<and> 0 \<notin> set (ks_handles s)"

section \<open>The contract of a unit\<close>

locale block_unit =
  fixes L :: payload_layout
    and step :: kernel_step
    and ready :: "decoded_instruction \<Rightarrow> kernel_state \<Rightarrow> bool"
    and form :: "decoded_instruction \<Rightarrow> kernel_state \<Rightarrow> bool"
    and result :: "decoded_instruction \<Rightarrow> kernel_state \<Rightarrow> nat list"
  assumes step_produces: "kernel_ok L s \<Longrightarrow> has_room L s \<Longrightarrow> ready inst s \<Longrightarrow>
      step inst s = Inr (produce L inst (form inst s) (result inst s) s, False)"
    and result_length: "kernel_ok L s \<Longrightarrow> has_room L s \<Longrightarrow> ready inst s \<Longrightarrow>
      length (result inst s) = pl_coeff_count L"
begin

lemma step_effect:
  assumes "kernel_ok L s" "has_room L s" "ready inst s"
  shows "\<exists>s'. step inst s = Inr (s', False) \<and> kernel_ok L s' \<and>
    live (ks_control s') = live (ks_control s) + 1 \<and>
    handle_of L s' (di_dst inst) = live (ks_control s) + 1 \<and>
    block L (ks_payload s') (live (ks_control s) + 1) = result inst s \<and>
    (\<forall>h. 1 \<le> h \<and> h \<le> live (ks_control s) \<longrightarrow> block L (ks_payload s') h = block L (ks_payload s) h)"
  using step_produces [OF assms] produce_facts [OF assms(1,2) result_length [OF assms], where inst = inst and f = "form inst s"]
  by simp

text \<open>
  A run of instructions that are ready whenever every register holds a handle keeps every block
  that was live at its start.
\<close>

lemma run_effect:
  assumes "\<forall>i \<in> set is. \<exists>inst. decode_instruction prog i = Inr inst \<and>
      (\<forall>t. full L t \<longrightarrow> modulus_of L t = modulus_of L s \<longrightarrow> ready inst t)"
    and "full L s" "0 < pl_register_count L"
    and "live (ks_control s) + length is \<le> pl_handle_capacity L"
  shows "\<exists>s'. run_instructions step prog is s = Inr s' \<and> full L s' \<and>
    live (ks_control s') = live (ks_control s) + length is \<and>
    (\<forall>h. 1 \<le> h \<and> h \<le> live (ks_control s) \<longrightarrow> block L (ks_payload s') h = block L (ks_payload s) h)"
  using assms
proof (induction "is" arbitrary: s)
  case (Cons i "is")
  then obtain inst where i: "decode_instruction prog i = Inr inst" "ready inst s" by auto
  have ok: "kernel_ok L s" "has_room L s" using Cons.prems by (simp_all add: has_room_def full_def)
  let ?t = "produce L inst (form inst s) (result inst s) s"
  have t: "step inst s = Inr (?t, False)" using step_produces [OF ok i(2)] .
  note f = produce_facts [OF ok result_length [OF ok i(2)], where inst = inst and f = "form inst s"]
  have "0 \<notin> set (ks_handles ?t)"
    using Cons.prems(2) set_update_subset_insert [of "ks_handles s"]
    by (fastforce simp: produce_def full_def)
  then have "full L ?t" using f(1) by (simp add: full_def)
  then have "\<exists>s'. run_instructions step prog is ?t = Inr s' \<and> full L s' \<and>
      live (ks_control s') = live (ks_control ?t) + length is \<and>
      (\<forall>h. 1 \<le> h \<and> h \<le> live (ks_control ?t) \<longrightarrow> block L (ks_payload s') h = block L (ks_payload ?t) h)"
    using Cons.prems(1,3,4) f(2,7) by (intro Cons.IH) simp_all
  then show ?case using t i(1) f(2,4) by auto
qed simp

end

section \<open>Montgomery products\<close>

definition multiplies :: "payload_layout \<Rightarrow> decoded_instruction \<Rightarrow> kernel_state \<Rightarrow> bool" where
  "multiplies L inst s \<longleftrightarrow> is_montgomery_opcode (di_opcode inst) \<and> reads_register L inst False s \<and>
     reads_register L inst True s \<and> (\<exists>q. modulus_of L s (di_rns inst) = Some q \<and> q \<noteq> 0)"

definition keeps_form :: "payload_layout \<Rightarrow> decoded_instruction \<Rightarrow> kernel_state \<Rightarrow> bool" where
  "keeps_form L inst s \<longleftrightarrow>
     handle_flags L (ks_control s) (source_handle L inst False s) AND kPayloadFlagIsNtt \<noteq> 0"

abbreviation target_modulus :: "payload_layout \<Rightarrow> decoded_instruction \<Rightarrow> kernel_state \<Rightarrow> nat" where
  "target_modulus L inst s \<equiv> the (modulus_of L s (di_rns inst))"

definition product_block :: "payload_layout \<Rightarrow> decoded_instruction \<Rightarrow> kernel_state \<Rightarrow> nat list" where
  "product_block L inst s =
     map2 (\<lambda>a b. mod_mul a b (target_modulus L inst s)) (source_block L inst False s)
       (source_block L inst True s)"

lemma mod_mul_mod: "mod_mul (a mod q) (b mod q) q = mod_mul a b q"
  by (simp add: mod_mul_def)

lemma montgomery_step_produces:
  assumes "kernel_ok L s" "has_room L s" "multiplies L inst s"
  shows "montgomery_step L inst s = Inr (produce L inst (keeps_form L inst s) (product_block L inst s) s, False)"
    and "length (product_block L inst s) = pl_coeff_count L"
proof -
  have rc: "0 < pl_register_count L" using assms(2) by (simp add: has_room_def)
  have r: "reads_register L inst False s" "reads_register L inst True s"
    using assms(3) by (simp_all add: multiplies_def)
  note s0 = source_ok [OF assms(1) rc r(1)] and s1 = source_ok [OF assms(1) rc r(2)]
  obtain q where q: "modulus_of L s (di_rns inst) = Some q" "q \<noteq> 0" using assms(3) by (auto simp: multiplies_def)
  note al = allocation_ok [OF assms(1,2)]
  note o0 = source_offset [OF assms(1) s0(5,6)] and o1 = source_offset [OF assms(1) s1(5,6)]
  have fl: "payload_handle_flags (ks_control s) L h = Inr (handle_flags L (ks_control s) h)" for h
    by (rule kernel_flags [OF assms(1)])
  have res: "resolve_montgomery_operand_handle (ks_control s) L (ks_handles s) inst False (ks_status s) =
      Inr (source_handle L inst False s, kPayloadStatusOk)"
    "resolve_montgomery_operand_handle (ks_control s) L (ks_handles s) inst True kPayloadStatusOk =
      Inr (source_handle L inst True s, kPayloadStatusOk)"
    using s0(1,2,4) s1(1,2,4) assms(1)
    by (simp_all add: resolve_montgomery_operand_handle_def kernel_ok_def)
  let ?f = "\<lambda>a b. mod_mul a b q"
  have vs: "List.map (\<lambda>c. ?f (ks_payload s ! (payload_handle_coeff_offset L (source_handle L inst False s) + c) mod q)
      (ks_payload s ! (payload_handle_coeff_offset L (source_handle L inst True s) + c) mod q))
      [0..<pl_coeff_count L] = product_block L inst s"
    using o0(4) o1(4) by (intro nth_equalityI) (simp_all add: product_block_def q(1) mod_mul_mod o0(3) o1(3))
  show "length (product_block L inst s) = pl_coeff_count L" using o0(4) o1(4) by (simp add: product_block_def)
  have "coefficient_loop (\<lambda>a b. mod_mul a b q) q (pl_coeff_count L)
      (payload_handle_coeff_offset L (source_handle L inst False s))
      (payload_handle_coeff_offset L (source_handle L inst True s))
      (live (ks_control s) * pl_coeff_count L) (ks_payload s) =
      Inr (splice (ks_payload s) (live (ks_control s) * pl_coeff_count L) (product_block L inst s))"
    unfolding vs [symmetric] using al(3,4) o0(1,2) o1(1,2) by (intro coefficient_loop_ok) simp_all
  then show "montgomery_step L inst s = Inr (produce L inst (keeps_form L inst s) (product_block L inst s) s, False)"
    using assms(3) res q(2) modulus_ok [OF assms(1) q(1)] al(1,2) fl
      set_register_produces [OF assms(1,2), where inst = inst and f = "keeps_form L inst s" and vs = "product_block L inst s"]
    by (simp add: montgomery_step_def multiplies_def keeps_form_def)
qed

interpretation montgomery: block_unit L "montgomery_step L" "multiplies L" "keeps_form L" "product_block L" for L
  by unfold_locales (use montgomery_step_produces in blast)+

section \<open>Transforms\<close>

definition transforms :: "payload_layout \<Rightarrow> decoded_instruction \<Rightarrow> kernel_state \<Rightarrow> bool" where
  "transforms L inst s \<longleftrightarrow> (di_opcode inst = 12 \<or> di_opcode inst = 13) \<and> reads_register L inst False s \<and>
     (\<exists>q. modulus_of L s (di_rns inst) = Some q \<and> table_has q (pl_coeff_count L))"

definition goes_forward :: "decoded_instruction \<Rightarrow> kernel_state \<Rightarrow> bool" where
  "goes_forward inst s \<longleftrightarrow> di_opcode inst = 12"

text \<open>The transform of a list of residues, which does not fail for a modulus of the table.\<close>

definition transformed :: "nat \<Rightarrow> nat \<Rightarrow> bool \<Rightarrow> nat list \<Rightarrow> nat list" where
  "transformed q prime_id invert vs =
     (case ntt_apply_negacyclic_four_step vs (length vs) q prime_id invert of Inl e \<Rightarrow> [] | Inr ws \<Rightarrow> ws)"

lemma transform_ok:
  assumes "table_has q n" "n \<le> length vs"
  shows "\<exists>ws. ntt_apply_negacyclic_four_step (take n vs) n q prime_id invert = Inr ws \<and> length ws = n \<and>
    ntt_apply_negacyclic_four_step vs n q prime_id invert = Inr (ws @ drop n vs)"
proof -
  obtain L r where n: "n = 2 ^ L" and res: "\<And>pid. resolve_negacyclic_roots q n pid = Inr r"
    and r: "roots_ok q L r" using table_roots [OF assms(1)] by blast
  have L32: "L \<le> 32" using r by (simp add: roots_ok_def)
  have rl: "rev_index L k < 2 ^ L" for k using rev_index_less [OF L32] by simp
  have tk: "take n vs ! rev_index L k = vs ! rev_index L k" for k using rl [of k] by (simp add: n)
  show ?thesis
  proof (cases invert)
    case False
    have "negacyclic_eval q (nr_psi r) (2 ^ L) ((!) (take n vs)) k = negacyclic_eval q (nr_psi r) (2 ^ L) ((!) vs) k" for k
      unfolding negacyclic_eval_def by (rule sum_mod_cong) (simp add: n)
    with False show ?thesis
      using forward_transform [OF res [unfolded n] r, of "take n vs"]
        forward_transform [OF res [unfolded n] r, of vs] assms(2) by (simp add: n)
  next
    case True
    obtain c where c: "2 ^ L * c mod q = 1" "ntt_apply_negacyclic_four_step vs (2 ^ L) q prime_id True =
      Inr (List.map (\<lambda>m. dft q (nr_omega_inv r) (2 ^ L) (\<lambda>k. vs ! rev_index L k) m * c mod q *
                   nr_psi_inv r ^ m mod q) [0..<2 ^ L] @ drop (2 ^ L) vs)"
      using inverse_transform [OF res [unfolded n] r, of vs prime_id] assms(2) n by blast
    obtain d where d: "2 ^ L * d mod q = 1" "ntt_apply_negacyclic_four_step (take n vs) (2 ^ L) q prime_id True =
      Inr (List.map (\<lambda>m. dft q (nr_omega_inv r) (2 ^ L) (\<lambda>k. take n vs ! rev_index L k) m * d mod q *
                   nr_psi_inv r ^ m mod q) [0..<2 ^ L] @ drop (2 ^ L) (take n vs))"
      using inverse_transform [OF res [unfolded n] r, of "take n vs" prime_id] assms(2) n by auto
    have "c mod q = d mod q"
    proof -
      have "d * (2 ^ L * c) mod q = d mod q" using c(1) by (metis mod_mult_right_eq mult_1_right)
      moreover have "c * (2 ^ L * d) mod q = c mod q" using d(1) by (metis mod_mult_right_eq mult_1_right)
      ultimately show ?thesis by (simp add: ac_simps)
    qed
    then have "x * c mod q = x * d mod q" for x by (rule mod_mult_cong [OF refl])
    with True c(2) d(2) show ?thesis by (simp add: n tk [unfolded n])
  qed
qed

definition transform_block :: "payload_layout \<Rightarrow> decoded_instruction \<Rightarrow> kernel_state \<Rightarrow> nat list" where
  "transform_block L inst s = transformed (target_modulus L inst s) (di_rns inst) (di_opcode inst = 13)
     (List.map (\<lambda>x. x mod target_modulus L inst s) (source_block L inst False s))"

lemma transform_at_ok:
  assumes "table_has q n" "off + n \<le> length xs" "length ys = n"
  shows "transform_at off n q prime_id invert (splice xs off ys) =
    Inr (splice xs off (transformed q prime_id invert ys))" "length (transformed q prime_id invert ys) = n"
proof -
  have d: "drop off (splice xs off ys) = ys @ drop (off + n) xs" and t: "take off (splice xs off ys) = take off xs"
    using assms(2,3) by (simp_all add: splice_def)
  obtain ws where w: "ntt_apply_negacyclic_four_step (take n (ys @ drop (off + n) xs)) n q prime_id invert = Inr ws"
    "length ws = n" "ntt_apply_negacyclic_four_step (ys @ drop (off + n) xs) n q prime_id invert =
      Inr (ws @ drop n (ys @ drop (off + n) xs))"
    using transform_ok [OF assms(1), of "ys @ drop (off + n) xs" prime_id invert] assms(3) by auto
  have tr: "transformed q prime_id invert ys = ws" using w(1) assms(3) by (simp add: transformed_def)
  with w(2) show "length (transformed q prime_id invert ys) = n" by simp
  show "transform_at off n q prime_id invert (splice xs off ys) =
    Inr (splice xs off (transformed q prime_id invert ys))"
    using assms(2,3) w(2,3) by (simp add: transform_at_def d t tr) (simp add: splice_def)
qed

lemma ntt_step_produces:
  assumes "kernel_ok L s" "has_room L s" "transforms L inst s"
  shows "ntt_step L extra inst s = Inr (produce L inst (goes_forward inst s) (transform_block L inst s) s, False)"
    and "length (transform_block L inst s) = pl_coeff_count L"
proof -
  have rc: "0 < pl_register_count L" using assms(2) by (simp add: has_room_def)
  have r: "reads_register L inst False s" using assms(3) by (simp add: transforms_def)
  note s0 = source_ok [OF assms(1) rc r]
  obtain q where q: "modulus_of L s (di_rns inst) = Some q" "table_has q (pl_coeff_count L)"
    using assms(3) by (auto simp: transforms_def)
  have q0: "q \<noteq> 0" using table_roots [OF q(2)] by (metis not_less_zero roots_ok_def)
  note al = allocation_ok [OF assms(1,2)] and o0 = source_offset [OF assms(1) s0(5,6)]
  have res: "resolve_ntt_operand_handle (ks_control s) L extra (ks_handles s) inst (ks_status s) =
      Inr (source_handle L inst False s, kPayloadStatusOk)"
    using s0(1-4) by (simp add: resolve_ntt_operand_handle_def source_operand_def)
  let ?vs = "List.map (\<lambda>x. x mod q) (source_block L inst False s)"
  have vs: "List.map (\<lambda>c. ks_payload s ! (payload_handle_coeff_offset L (source_handle L inst False s) + c) mod q)
      [0..<pl_coeff_count L] = ?vs"
    using o0(4) by (intro nth_equalityI) (simp_all add: o0(3))
  have lv: "length ?vs = pl_coeff_count L" using o0(4) by simp
  note tr = transform_at_ok [OF q(2) al(3) lv]
  show "length (transform_block L inst s) = pl_coeff_count L" using tr(2) by (simp add: transform_block_def q(1))
  have "reduce_loop q (pl_coeff_count L) (payload_handle_coeff_offset L (source_handle L inst False s))
      (live (ks_control s) * pl_coeff_count L) (ks_payload s) =
      Inr (splice (ks_payload s) (live (ks_control s) * pl_coeff_count L) ?vs)"
    unfolding vs [symmetric] using al(3,4) o0(1,2) by (intro reduce_loop_ok) simp_all
  then show "ntt_step L extra inst s = Inr (produce L inst (goes_forward inst s) (transform_block L inst s) s, False)"
    using assms(3) res q0 modulus_ok [OF assms(1) q(1)] al(1,2) tr(1)
      set_register_produces [OF assms(1,2), where inst = inst and f = "goes_forward inst s" and vs = "transform_block L inst s"]
    by (auto simp: ntt_step_def transforms_def goes_forward_def transform_block_def q(1) Let_def)
qed

interpretation ntt: block_unit L "ntt_step L extra" "transforms L" goes_forward "transform_block L" for L extra
  by unfold_locales (use ntt_step_produces in blast)+

section \<open>Rotations\<close>

definition rotates :: "payload_layout \<Rightarrow> decoded_instruction \<Rightarrow> kernel_state \<Rightarrow> bool" where
  "rotates L inst s \<longleftrightarrow> di_opcode inst = 14 \<and> reads_register L inst False s \<and>
     (\<exists>M. 1 \<le> M \<and> M \<le> 30 \<and> pl_coeff_count L = 2 ^ M) \<and>
     (\<exists>g. galois_elt_from_step (pl_coeff_count L) (rotation_amount inst) = Inr g \<and> odd g)"

definition galois_of :: "payload_layout \<Rightarrow> decoded_instruction \<Rightarrow> nat" where
  "galois_of L inst =
     (case galois_elt_from_step (pl_coeff_count L) (rotation_amount inst) of Inl e \<Rightarrow> 0 | Inr g \<Rightarrow> g)"

definition rotated_block :: "payload_layout \<Rightarrow> decoded_instruction \<Rightarrow> kernel_state \<Rightarrow> nat list" where
  "rotated_block L inst s =
     List.map (\<lambda>k. source_block L inst False s ! galois_source (pl_coeff_count L) (galois_of L inst) k)
       [0..<pl_coeff_count L]"

lemma w32_less_num [simp]: "w32 n < 4294967296"
  using w32_less [of n] by simp

lemma galois_elt_less: "galois_elt_from_step n step = Inr g \<Longrightarrow> g < 2 ^ 32"
  by (auto simp: galois_elt_from_step_def Let_def res_simps split: if_splits)

lemma automorphism_step_produces:
  assumes "kernel_ok L s" "has_room L s" "rotates L inst s"
  shows "automorphism_step L inst s = Inr (produce L inst (keeps_form L inst s) (rotated_block L inst s) s, False)"
    and "length (rotated_block L inst s) = pl_coeff_count L"
proof -
  let ?n = "pl_coeff_count L"
  have rc: "0 < pl_register_count L" using assms(2) by (simp add: has_room_def)
  have r: "reads_register L inst False s" using assms(3) by (simp add: rotates_def)
  note s0 = source_ok [OF assms(1) rc r]
  obtain M g where M: "1 \<le> M" "M \<le> 30" "?n = 2 ^ M"
    and g: "galois_elt_from_step ?n (rotation_amount inst) = Inr g" "odd g"
    using assms(3) by (auto simp: rotates_def)
  have g32: "g < 2 ^ 32" using galois_elt_less [OF g(1)] .
  have go: "galois_of L inst = g" by (simp add: galois_of_def g(1))
  note al = allocation_ok [OF assms(1,2)] and o0 = source_offset [OF assms(1) s0(5,6)]
  have res: "resolve_automorphism_operand_handle (ks_control s) L (ks_handles s) inst (ks_status s) =
      Inr (source_handle L inst False s, kPayloadStatusOk)"
    using s0(1,2,4) by (simp add: resolve_automorphism_operand_handle_def source_operand_def)
  show "length (rotated_block L inst s) = ?n" by (simp add: rotated_block_def)
  let ?src = "payload_handle_coeff_offset L (source_handle L inst False s)"
  let ?out = "live (ks_control s) * ?n"
  have src: "galois_source ?n g k < ?n" if "k < ?n" for k
    unfolding M(3) galois_source_eq [OF M(1,2) that [unfolded M(3)] g32]
    using M(2) by (intro rev_index_less) simp
  have vs: "List.map (\<lambda>k. ks_payload s ! (?src + rev_index M (g * (2 * rev_index M k + 1) div 2 mod 2 ^ M))) [0..<2 ^ M] =
      rotated_block L inst s"
    unfolding rotated_block_def M(3) [symmetric]
  proof (rule map_cong [OF refl])
    fix k assume "k \<in> set [0..<?n]"
    then have k: "k < ?n" by simp
    have "rev_index M (g * (2 * rev_index M k + 1) div 2 mod 2 ^ M) = galois_source ?n g k"
      unfolding M(3) using galois_source_eq [OF M(1,2) k [unfolded M(3)] g32] by (rule sym)
    then show "ks_payload s ! (?src + rev_index M (g * (2 * rev_index M k + 1) div 2 mod ?n)) =
        source_block L inst False s ! galois_source ?n (galois_of L inst) k"
      using o0(3) [OF src [OF k]] by (simp only: go M(3))
  qed
  have lens: "?src + 2 ^ M \<le> length (ks_payload s)" "?out + 2 ^ M \<le> length (ks_payload s)"
    "?src + 2 ^ M \<le> ?out \<or> ?out + 2 ^ M \<le> ?src" using al(3) o0(1,2) by (simp_all add: M(3))
  have "apply_galois_ntt_permutation (ks_payload s) ?src ?out (2 ^ M) g =
      Inr (splice (ks_payload s) ?out (rotated_block L inst s))"
    unfolding apply_galois_ok [OF M(1,2) g(2) g32 lens] vs splice_def
    by (simp add: rotated_block_def M(3))
  then have perm: "permute_blocks ?src ?out ?n g (ks_payload s) =
      Inr (splice (ks_payload s) ?out (rotated_block L inst s))"
    using lens by (simp add: permute_blocks_def M(3))
  have "g \<noteq> 0" using g(2) by (metis even_zero)
  then show "automorphism_step L inst s = Inr (produce L inst (keeps_form L inst s) (rotated_block L inst s) s, False)"
    using assms(3) res al(1,2) g(1) perm kernel_flags(1) [OF assms(1)]
      set_register_produces [OF assms(1,2), where inst = inst and f = "keeps_form L inst s" and vs = "rotated_block L inst s"]
    by (simp add: automorphism_step_def rotates_def keeps_form_def)
qed

interpretation automorphism: block_unit L "automorphism_step L" "rotates L" "keeps_form L" "rotated_block L" for L
  by unfold_locales (use automorphism_step_produces in blast)+

section \<open>Additions, subtractions, negations\<close>

definition combines :: "payload_layout \<Rightarrow> decoded_instruction \<Rightarrow> kernel_state \<Rightarrow> bool" where
  "combines L inst s \<longleftrightarrow> di_opcode inst \<in> {4, 5, 9, 10, 15, 16} \<and> reads_register L inst False s \<and>
     (is_add inst \<or> is_sub inst \<longrightarrow> reads_register L inst True s) \<and>
     (\<exists>q. modulus_of L s (di_rns inst) = Some q \<and> q \<noteq> 0)"

definition combined_block :: "payload_layout \<Rightarrow> decoded_instruction \<Rightarrow> kernel_state \<Rightarrow> nat list" where
  "combined_block L inst s =
     (let q = target_modulus L inst s; a = source_block L inst False s; b = source_block L inst True s in
      if is_add inst then map2 (\<lambda>x y. mod_add x y q) a b
      else if is_sub inst then map2 (\<lambda>x y. mod_sub x y q) a b
      else if is_con inst then List.map (\<lambda>x. x mod q) a
      else List.map (\<lambda>x. mod_sub 0 x q) a)"

lemma arithmetic_loop_ok:
  assumes "out + n \<le> length xs" "length xs < 2 ^ 32" "s0 + n \<le> length xs" "s1 + n \<le> length xs"
    and "s0 + n \<le> out" "s1 + n \<le> out"
    and v: "\<And>c. c < n \<Longrightarrow> arithmetic_value inst q d (xs ! (s0 + c) mod q) (Inr (xs ! (s1 + c))) (rd sud c) = Inr (g c)"
  shows "arithmetic_loop inst q d sud n s0 s1 out xs = Inr (splice xs out (List.map g [0..<n]))"
proof -
  let ?F = "\<lambda>c p. bindr (rd p (w32 (s0 + c))) (\<lambda>a.
      arithmetic_value inst q d (a mod q) (rd p (w32 (s1 + c))) (rd sud c))"
  have "arithmetic_loop inst q d sud n s0 s1 out xs =
      foldr_res (\<lambda>c p. bindr (?F c p) (\<lambda>v. wr p (w32 (out + c)) v)) [0..<n] xs"
    by (simp add: arithmetic_loop_def bindr_assoc)
  also have "\<dots> = Inr (splice xs out (List.map g [0..<n]))"
  proof (rule block_loop [OF assms(1,2)])
    fix c p
    assume c: "c < n" and p: "length p = length xs" "\<forall>i. i < out \<or> out + c \<le> i \<longrightarrow> p ! i = xs ! i"
    have "w32 (s0 + c) = s0 + c" "w32 (s1 + c) = s1 + c" "s0 + c < length xs" "s1 + c < length xs"
      using assms(2-4) c by simp_all
    moreover have "p ! (s0 + c) = xs ! (s0 + c)" "p ! (s1 + c) = xs ! (s1 + c)"
      using p(2) assms(5,6) c by simp_all
    ultimately show "?F c p = Inr (g c)" using p(1) v [OF c] by simp
  qed
  finally show ?thesis .
qed

lemma mod_add_mod: "mod_add (a mod q) (b mod q) q = mod_add a b q"
  by (simp add: mod_add_def)

lemma mod_sub_mod: "mod_sub (a mod q) (b mod q) q = mod_sub a b q"
  by (simp add: mod_sub_def)

lemma negate_mod: "q \<noteq> 0 \<Longrightarrow> (if a mod q = 0 then 0 else sub64 q (a mod q)) = mod_sub 0 a q"
  by (simp add: mod_sub_def Let_def w64_def sub64_def)

lemma arithmetic_step_produces:
  assumes "kernel_ok L s" "has_room L s" "combines L inst s"
  shows "arithmetic_step L extra cnt inst s = Inr (produce L inst (keeps_form L inst s) (combined_block L inst s) s, False)"
    and "length (combined_block L inst s) = pl_coeff_count L"
proof -
  have rc: "0 < pl_register_count L" using assms(2) by (simp add: has_room_def)
  have r: "reads_register L inst False s" using assms(3) by (simp add: combines_def)
  note s0 = source_ok [OF assms(1) rc r]
  obtain q where q: "modulus_of L s (di_rns inst) = Some q" "q \<noteq> 0" using assms(3) by (auto simp: combines_def)
  note al = allocation_ok [OF assms(1,2)]
  define h1 where "h1 = (if is_add inst \<or> is_sub inst then source_handle L inst True s
    else source_handle L inst False s)"
  have h1: "1 \<le> h1" "h1 \<le> live (ks_control s)"
    using source_ok(5,6) [OF assms(1) rc, of inst True] s0(5,6) assms(3)
    by (auto simp: h1_def combines_def)
  note o0 = source_offset [OF assms(1) s0(5,6)] and o1 = source_offset [OF assms(1) h1]
  have st: "ks_status s = kPayloadStatusOk" using assms(1) by (simp add: kernel_ok_def)
  have res: "resolve_operand_handle (ks_control s) L extra (ks_handles s) inst False (ks_status s) =
      Inr (source_handle L inst False s, kPayloadStatusOk)"
    using s0(1-4) by (simp add: resolve_operand_handle_def)
  have nosud: "\<not> is_sud inst" using assms(3) by (auto simp: combines_def is_sud_def)
  have res1: "(if is_add inst \<or> is_sub inst \<or> is_sud inst
      then resolve_operand_handle (ks_control s) L extra (ks_handles s) inst True kPayloadStatusOk
      else Inr (source_handle L inst False s, kPayloadStatusOk)) = Inr (h1, kPayloadStatusOk)"
  proof (cases "is_add inst \<or> is_sub inst")
    case True
    then have "reads_register L inst True s" using assms(3) by (simp add: combines_def)
    note s1 = source_ok [OF assms(1) rc this]
    show ?thesis using True s1(1-4) st by (auto simp: resolve_operand_handle_def h1_def)
  qed (simp add: h1_def nosud)
  have B: "block L (ks_payload s) h1 = source_block L inst True s" if "is_add inst \<or> is_sub inst"
    using that by (simp add: h1_def)
  have kind: "is_arithmetic_opcode (di_opcode inst)" "is_add inst \<or> is_sub inst \<or> is_con inst \<or> is_neg inst"
    using assms(3) by (auto simp: combines_def is_arithmetic_opcode_def is_add_def is_sub_def is_con_def is_neg_def)
  have len: "length (combined_block L inst s) = pl_coeff_count L"
    using o0(4) o1(4) B by (auto simp: combined_block_def Let_def)
  then show "length (combined_block L inst s) = pl_coeff_count L" .
  have val: "arithmetic_value inst q 1
      (ks_payload s ! (payload_handle_coeff_offset L (source_handle L inst False s) + c) mod q)
      (Inr (ks_payload s ! (payload_handle_coeff_offset L h1 + c))) (rd [] c) =
      Inr (combined_block L inst s ! c)" if c: "c < pl_coeff_count L" for c
    unfolding o0(3) [OF c] o1(3) [OF c]
    using kind(2) nosud c o0(4) o1(4) B negate_mod [OF q(2), of "source_block L inst False s ! c"]
    by (auto simp: arithmetic_value_def combined_block_def q(1) mod_add_mod mod_sub_mod Let_def)
  have "List.map ((!) (combined_block L inst s)) [0..<pl_coeff_count L] = combined_block L inst s"
    using len by (metis map_nth)
  then have "arithmetic_loop inst q 1 [] (pl_coeff_count L)
      (payload_handle_coeff_offset L (source_handle L inst False s)) (payload_handle_coeff_offset L h1)
      (live (ks_control s) * pl_coeff_count L) (ks_payload s) =
      Inr (splice (ks_payload s) (live (ks_control s) * pl_coeff_count L) (combined_block L inst s))"
    using arithmetic_loop_ok [OF al(3,4) o0(1) o1(1) o0(2) o1(2) val] by simp
  then have "arithmetic_compute L extra cnt inst (source_handle L inst False s) h1 q s =
      Inr (produce L inst (keeps_form L inst s) (combined_block L inst s) s, False)"
    using kind(2) nosud al(1,2) kernel_flags(1) [OF assms(1)]
      set_register_produces [OF assms(1,2), where inst = inst and f = "keeps_form L inst s" and vs = "combined_block L inst s"]
    by (auto simp: arithmetic_compute_def sud_prepare_def keeps_form_def)
  then show "arithmetic_step L extra cnt inst s = Inr (produce L inst (keeps_form L inst s) (combined_block L inst s) s, False)"
    using kind(1) res res1 q(2) modulus_ok [OF assms(1) q(1)] by (simp add: arithmetic_step_def)
qed

interpretation arithmetic: block_unit L "arithmetic_step L extra cnt" "combines L" "keeps_form L" "combined_block L"
  for L extra cnt
  by unfold_locales (use arithmetic_step_produces in blast)+

end
