(* ===== verification/HlsRun.thy ===== *)
theory HlsRun
  imports HlsStore
begin

unbundle bit_operations_syntax

declare add_2_eq_Suc [simp del] add_2_eq_Suc' [simp del]

text \<open>
  Whole kernel calls: what a call reads of the control block and leaves in it, and a sequence of
  calls as the host makes it. \<open>control_ok\<close> is the invariant of the control block between calls and
  \<open>advances\<close> the contract of a call; on top of them, four instructions in three calls multiply two
  polynomials.
\<close>

section \<open>A kernel between two control blocks\<close>

text \<open>The registers of a control block, and the header that describes its tables.\<close>

definition registers :: "payload_layout \<Rightarrow> nat list \<Rightarrow> nat list" where
  "registers L c = List.map (\<lambda>i. w32 (c ! (pl_register_handles_offset L + i))) [0..<pl_register_count L]"

definition header_ok :: "payload_layout \<Rightarrow> nat list \<Rightarrow> bool" where
  "header_ok L c \<longleftrightarrow> c ! 0 = kPayloadControlMagic \<and> c ! 1 = 1 \<and>
     w32 (c ! 2) = pl_register_count L \<and> w32 (c ! 3) = pl_coeff_count L \<and>
     w32 (c ! 4) = pl_rns_table_count L \<and> w32 (c ! 6) = pl_handle_capacity L \<and>
     w32 (c ! 7) = pl_token_count L \<and> w32 (c ! 8) = pl_output_token_count L"

text \<open>A well-formed block without base conversion units.\<close>

definition control_ok :: "payload_layout \<Rightarrow> nat list \<Rightarrow> nat list \<Rightarrow> bool" where
  "control_ok L c p \<longleftrightarrow> layout_ok L c p \<and> header_ok L c \<and>
     length c = pl_output_directory_offset L + 2 * pl_output_token_count L \<and>
     (\<forall>h \<in> set (registers L c). h \<le> live c)"

lemma parse_ok:
  assumes "layout_ok L c p" "header_ok L c"
  shows "parse_payload_layout c (length c) = Inr (Some (L\<lparr>pl_handle_count := live c\<rparr>), kPayloadStatusOk)"
proof -
  have o: "pl_rns_table_offset L = 9" "pl_register_handles_offset L = 9 + 2 * pl_rns_table_count L"
    "pl_handle_meta_offset L = 9 + 2 * pl_rns_table_count L + pl_register_count L"
    "pl_token_directory_offset L = 9 + 2 * pl_rns_table_count L + pl_register_count L + 2 * pl_handle_capacity L"
    "pl_output_directory_offset L = 9 + 2 * pl_rns_table_count L + pl_register_count L + 2 * pl_handle_capacity L
      + 2 * pl_token_count L"
    "pl_output_directory_offset L + 2 * pl_output_token_count L \<le> length c" "length c < 2 ^ 32"
    using assms(1) by (simp_all add: layout_ok_def)
  then have len: "9 \<le> length c" by simp
  have "place_tables (pl_register_count L) (pl_coeff_count L) (pl_rns_table_count L) (live c)
      (pl_handle_capacity L) (pl_token_count L) (pl_output_token_count L) =
      (L\<lparr>pl_handle_count := live c\<rparr>, pl_output_directory_offset L + 2 * pl_output_token_count L)"
    using o by (simp add: place_tables_def Let_def mult.commute [of _ 2])
  moreover have "rd c 0 = Inr (c ! 0)" "rd c 1 = Inr (c ! 1)" "rd32 c 2 = Inr (w32 (c ! 2))"
    "rd32 c 3 = Inr (w32 (c ! 3))" "rd32 c 4 = Inr (w32 (c ! 4))" "rd32 c 5 = Inr (live c)"
    "rd32 c 6 = Inr (w32 (c ! 6))" "rd32 c 7 = Inr (w32 (c ! 7))" "rd32 c 8 = Inr (w32 (c ! 8))"
    unfolding live_def by (rule rd_in rd32_in, use len in linarith)+
  ultimately show ?thesis
    using len o(6) assms(2) by (simp add: parse_payload_layout_def header_ok_def)
qed

lemma parse_extra_none:
  assumes "control_ok L c p"
  shows "parse_payload_extra_layout c (length c) L = Inr (empty_extra (length c), kPayloadStatusOk)"
proof -
  have "w32 (pl_output_directory_offset L + pl_output_token_count L * 2) = length c"
    using assms by (simp add: control_ok_def layout_ok_def mult.commute)
  then show ?thesis by (simp add: parse_payload_extra_layout_def Let_def)
qed

lemma handle_count_irrelevant [simp]:
  "layout_ok (L\<lparr>pl_handle_count := k\<rparr>) = layout_ok L" "registers (L\<lparr>pl_handle_count := k\<rparr>) = registers L"
  "header_ok (L\<lparr>pl_handle_count := k\<rparr>) = header_ok L" "control_ok (L\<lparr>pl_handle_count := k\<rparr>) = control_ok L"
  "block (L\<lparr>pl_handle_count := k\<rparr>) = block L" "moduli (L\<lparr>pl_handle_count := k\<rparr>) = moduli L"
  "handle_flags (L\<lparr>pl_handle_count := k\<rparr>) = handle_flags L"
  by (simp_all add: fun_eq_iff layout_ok_def registers_def header_ok_def control_ok_def block_def moduli_def
      handle_flags_def)

lemma map_res_Inr: "(\<And>x. x \<in> set xs \<Longrightarrow> f x = Inr (g x)) \<Longrightarrow> map_res f xs = Inr (List.map g xs)"
  by (induction xs) simp_all

lemma load_handles_ok:
  assumes "layout_ok L c p"
  shows "load_handles c L = Inr (registers L c)"
proof -
  have "pl_register_handles_offset L + pl_register_count L \<le> length c" "length c < 2 ^ 32"
    "pl_register_count L \<le> kMaxRegisters"
    using assms by (simp_all add: layout_ok_def)
  then show ?thesis
    by (auto simp: load_handles_def registers_def bounded_register_count_def intro!: map_res_Inr)
qed

text \<open>The registers are stored over the old ones and nothing else changes.\<close>

lemma save_handles_ok:
  assumes "layout_ok L c p" "length hs = pl_register_count L"
  shows "save_handles hs L c = Inr (splice c (pl_register_handles_offset L) hs)"
proof -
  have b: "pl_register_handles_offset L + pl_register_count L \<le> length c" "length c < 2 ^ 32"
    and rc: "pl_register_count L \<le> kMaxRegisters"
    using assms(1) by (simp_all add: layout_ok_def)
  have hs: "List.map ((!) hs) [0..<pl_register_count L] = hs" using assms(2) by (metis map_nth)
  have "foldr_res (\<lambda>i c. bindr (rd hs i) (\<lambda>h. wr c (w32 (pl_register_handles_offset L + i)) h))
      [0..<pl_register_count L] c = Inr (splice c (pl_register_handles_offset L) (List.map ((!) hs) [0..<pl_register_count L]))"
    using assms(2) by (intro block_loop [OF b]) simp
  then show ?thesis using rc by (simp add: save_handles_def bounded_register_count_def hs)
qed

definition saved :: "payload_layout \<Rightarrow> kernel_state \<Rightarrow> nat list" where
  "saved L s = splice (ks_control s) (pl_register_handles_offset L) (ks_handles s)"

lemma length_saved: "kernel_ok L s \<Longrightarrow> length (saved L s) = length (ks_control s)"
  by (simp add: saved_def kernel_ok_def layout_ok_def)

lemma nth_saved:
  assumes "kernel_ok L s" "i < length (ks_control s)"
  shows "saved L s ! i = (if pl_register_handles_offset L \<le> i \<and> i < pl_handle_meta_offset L
     then ks_handles s ! (i - pl_register_handles_offset L) else ks_control s ! i)"
proof -
  have "pl_register_handles_offset L + length (ks_handles s) \<le> length (ks_control s)"
    "pl_handle_meta_offset L = pl_register_handles_offset L + length (ks_handles s)"
    using assms(1) by (simp_all add: kernel_ok_def layout_ok_def)
  then show "saved L s ! i = (if pl_register_handles_offset L \<le> i \<and> i < pl_handle_meta_offset L
     then ks_handles s ! (i - pl_register_handles_offset L) else ks_control s ! i)"
    using assms(2) by (simp add: saved_def nth_splice)
qed

lemma saved_facts:
  assumes "kernel_ok L s"
  shows "live (saved L s) = live (ks_control s)" "registers L (saved L s) = ks_handles s"
    "layout_ok L (saved L s) (ks_payload s)" "moduli L (saved L s) = moduli L (ks_control s)"
    "handle_flags L (saved L s) h = handle_flags L (ks_control s) h"
    "header_ok L (ks_control s) \<Longrightarrow> header_ok L (saved L s)"
proof -
  let ?c = "ks_control s"
  have lo: "layout_ok L ?c (ks_payload s)" using assms by (simp add: kernel_ok_def)
  have o: "pl_register_handles_offset L = 9 + 2 * pl_rns_table_count L"
    "pl_handle_meta_offset L = pl_register_handles_offset L + pl_register_count L"
    "pl_handle_meta_offset L + 2 * pl_handle_capacity L \<le> length ?c"
    "length ?c < 2 ^ 32"
    using lo by (simp_all add: layout_ok_def)
  note len = length_saved [OF assms]
  note n = nth_saved [OF assms]
  have low: "saved L s ! i = ?c ! i" if "i < pl_register_handles_offset L" for i
    using n [of i] that o by simp
  show lv: "live (saved L s) = live ?c" using low [of 5] o by (simp add: live_def)
  show "layout_ok L (saved L s) (ks_payload s)"
    using lo lv len by (simp add: layout_ok_def live_def)
  show "moduli L (saved L s) = moduli L ?c" by (auto simp: moduli_def low o)
  show "header_ok L ?c \<Longrightarrow> header_ok L (saved L s)"
    by (simp add: header_ok_def low o)
  have hl: "length (ks_handles s) = pl_register_count L" and hb: "\<forall>h \<in> set (ks_handles s). h \<le> live ?c"
    using assms by (simp_all add: kernel_ok_def)
  show "registers L (saved L s) = ks_handles s"
  proof (rule nth_equalityI)
    fix i assume "i < length (registers L (saved L s))"
    then have i: "i < pl_register_count L" by (simp add: registers_def)
    then have "ks_handles s ! i \<le> live ?c" using hb hl by simp
    then have "ks_handles s ! i < 2 ^ 32"
      using w32_less [of "?c ! 5"] unfolding live_def by linarith
    then have "w32 (ks_handles s ! i) = ks_handles s ! i" by (rule w32_id)
    then show "registers L (saved L s) ! i = ks_handles s ! i"
      using n [of "pl_register_handles_offset L + i"] i o by (simp add: registers_def)
  qed (simp add: registers_def hl)
  show "handle_flags L (saved L s) h = handle_flags L ?c h"
  proof (cases "h = 0 \<or> live ?c < h")
    case False
    have "live ?c \<le> pl_handle_capacity L" using lo by (simp add: layout_ok_def live_def)
    with False have "h - 1 < pl_handle_capacity L" by linarith
    then have "pl_handle_meta_offset L + 2 * (h - 1) + 1 < length ?c" using o by simp
    then show ?thesis using n [of "pl_handle_meta_offset L + 2 * (h - 1) + 1"] by (simp add: handle_flags_def lv)
  qed (auto simp: handle_flags_def lv)
qed


text \<open>
  A kernel on a well-formed block whose instructions keep the state well-formed: the new control
  block is well-formed again, and what the state promises is what the block promises.
\<close>

definition start :: "payload_layout \<Rightarrow> nat list \<Rightarrow> nat list \<Rightarrow> nat list \<Rightarrow> kernel_state" where
  "start L lines c p = \<lparr>ks_control = c, ks_payload = p, ks_handles = registers L c,
     ks_status = kPayloadStatusOk, ks_executed = 0, ks_lines = lines\<rparr>"

lemma start_ok: "control_ok L c p \<Longrightarrow> kernel_ok L (start L lines c p)"
  by (simp add: kernel_ok_def start_def control_ok_def registers_def)

lemma write_outputs_total:
  assumes "rc \<le> length hs" "6 \<le> length outputs"
  shows "\<exists>os. write_payload_module_outputs outputs (length outputs) st hs rc m pid e = Inr os \<and>
    length os = length outputs \<and> os ! 0 = st \<and> os ! 1 = e"
proof -
  obtain t where t: "compute_trace hs rc m e = Inr t"
    using trace_loop_total [of "[0..<rc]" hs] assms(1) unfolding compute_trace_def by fastforce
  have "length outputs \<noteq> 0" using assms(2) by linarith
  then have "write_payload_module_outputs outputs (length outputs) st hs rc m pid e =
      Inr (output_words (length outputs) [st, e, rc, m, pid, unat t] rc hs)"
    using write_output_tail_correct [OF assms t] by (simp add: write_payload_module_outputs_def)
  moreover have "0 < length outputs" "1 < length outputs" using assms(2) by linarith+
  ultimately show ?thesis using assms by (simp add: output_words_def)
qed

lemma kernel_body_ok:
  assumes "control_ok L c p"
    and "run_instructions step prog [0..<iwc div 4] (start L lines c p) = Inr s" "kernel_ok L s"
  shows "kernel_body step L kPayloadStatusOk lines prog iwc c p = Inr (s\<lparr>ks_control := saved L s\<rparr>)"
proof -
  have lo: "layout_ok L c p" using assms(1) by (simp add: control_ok_def)
  have "save_handles (ks_handles s) L (ks_control s) = Inr (saved L s)"
    using assms(3) unfolding saved_def
    by (intro save_handles_ok [where p = "ks_payload s"]) (simp_all add: kernel_ok_def)
  then show ?thesis using load_handles_ok [OF lo] assms(2) by (simp add: kernel_body_def start_def)
qed

lemma finish_ok:
  assumes "kernel_ok L s" "6 \<le> length outputs"
  shows "\<exists>os. finish_kernel m pid outputs (length outputs) L (s\<lparr>ks_control := c\<rparr>) = Inr (c, ks_payload s, os) \<and>
    length os = length outputs \<and> os ! 0 = ks_status s \<and> os ! 1 = ks_executed s"
proof -
  have "bounded_register_count L \<le> length (ks_handles s)"
    using assms(1) by (simp add: kernel_ok_def bounded_register_count_def)
  from write_outputs_total [OF this assms(2), of "ks_status s" m pid "ks_executed s"]
  show ?thesis by (fastforce simp: finish_kernel_def)
qed

text \<open>The header survives any change that leaves the first words alone.\<close>

lemma header_same: "same_tables L c c' \<Longrightarrow> layout_ok L c p \<Longrightarrow> header_ok L c \<Longrightarrow> header_ok L c'"
  by (simp add: header_ok_def same_tables_def layout_ok_def)

lemma saved_control_ok:
  assumes "control_ok L c p" "kernel_ok L s" "same_tables L c (ks_control s)"
  shows "control_ok L (saved L s) (ks_payload s)"
proof -
  have lo: "layout_ok L c p" using assms(1) by (simp add: control_ok_def)
  have "header_ok L (ks_control s)" using header_same [OF assms(3) lo] assms(1) by (simp add: control_ok_def)
  moreover have "length (ks_control s) = length c" using assms(3) by (simp add: same_tables_def)
  ultimately show ?thesis
    using assms(1,2) saved_facts(1-3,6) [OF assms(2)] length_saved [OF assms(2)]
    by (simp add: control_ok_def kernel_ok_def)
qed

section \<open>The field that is read again\<close>

text \<open>No kernel uses the number of handles that was parsed; they read the control word.\<close>

lemma modulus_loop_count [simp]: "modulus_loop c (L\<lparr>pl_handle_count := k\<rparr>) b is = modulus_loop c L b is"
  by (induction "is") (simp_all add: Let_def cong: if_cong)

lemma kernel_count [simp]:
  "payload_lookup_modulus c (L\<lparr>pl_handle_count := k\<rparr>) = payload_lookup_modulus c L"
  "payload_handle_flags c (L\<lparr>pl_handle_count := k\<rparr>) = payload_handle_flags c L"
  "payload_allocate_handle c (L\<lparr>pl_handle_count := k\<rparr>) = payload_allocate_handle c L"
  "payload_handle_coeff_offset (L\<lparr>pl_handle_count := k\<rparr>) = payload_handle_coeff_offset L"
  "resolve_token c (L\<lparr>pl_handle_count := k\<rparr>) = resolve_token c L"
  "resolve_register (L\<lparr>pl_handle_count := k\<rparr>) = resolve_register L"
  "bounded_register_count (L\<lparr>pl_handle_count := k\<rparr>) = bounded_register_count L"
  "finish_kernel m pid os n (L\<lparr>pl_handle_count := k\<rparr>) = finish_kernel m pid os n L"
  "parse_payload_extra_layout c n (L\<lparr>pl_handle_count := k\<rparr>) = parse_payload_extra_layout c n L"
  by (simp_all add: fun_eq_iff payload_lookup_modulus_def payload_handle_flags_def payload_allocate_handle_def
      meta_cursor_def payload_handle_coeff_offset_def resolve_token_def resolve_register_def
      bounded_register_count_def finish_kernel_def parse_payload_extra_layout_def Let_def cong: if_cong)

lemma step_count [simp]:
  "set_register (L\<lparr>pl_handle_count := k\<rparr>) = set_register L"
  "montgomery_step (L\<lparr>pl_handle_count := k\<rparr>) = montgomery_step L"
  "ntt_step (L\<lparr>pl_handle_count := k\<rparr>) = ntt_step L"
  "kernel_body step (L\<lparr>pl_handle_count := k\<rparr>) = kernel_body step L"
  by (simp_all add: fun_eq_iff set_register_def montgomery_step_def ntt_step_def kernel_body_def load_handles_def
      save_handles_def resolve_montgomery_operand_handle_def resolve_ntt_operand_handle_def Let_def cong: if_cong)

lemma execute_montgomery_ok:
  assumes "control_ok L c p" "6 \<le> length outputs"
    and "run_instructions (montgomery_step L) prog [0..<iwc div 4] (start L [] c p) = Inr s"
    and "kernel_ok L s" "same_tables L c (ks_control s)"
  shows "\<exists>os. execute_montgomery_module prog c p outputs iwc (length c) (length outputs) pid =
      Inr (saved L s, ks_payload s, os) \<and> os ! 0 = kPayloadStatusOk \<and> os ! 1 = ks_executed s"
proof -
  have lo: "layout_ok L c p" "header_ok L c" using assms(1) by (simp_all add: control_ok_def)
  obtain os where os: "finish_kernel 3 pid outputs (length outputs) L (s\<lparr>ks_control := saved L s\<rparr>) =
      Inr (saved L s, ks_payload s, os)" "os ! 0 = ks_status s" "os ! 1 = ks_executed s"
    using finish_ok [OF assms(4,2)] by blast
  have "length outputs \<noteq> 0" using assms(2) by linarith
  then show ?thesis
    using parse_ok [OF lo] kernel_body_ok [OF assms(1,3,4)] os assms(4)
    by (auto simp: execute_montgomery_module_def kernel_ok_def)
qed

lemma execute_ntt_ok:
  assumes "control_ok L c p" "6 \<le> length outputs"
    and "run_instructions (ntt_step L (empty_extra (length c))) prog [0..<iwc div 4] (start L [] c p) = Inr s"
    and "kernel_ok L s" "same_tables L c (ks_control s)"
  shows "\<exists>os. execute_ntt_module prog c p outputs iwc (length c) (length outputs) pid =
      Inr (saved L s, ks_payload s, os) \<and> os ! 0 = kPayloadStatusOk \<and> os ! 1 = ks_executed s"
proof -
  have lo: "layout_ok L c p" "header_ok L c" using assms(1) by (simp_all add: control_ok_def)
  obtain os where os: "finish_kernel 4 pid outputs (length outputs) L (s\<lparr>ks_control := saved L s\<rparr>) =
      Inr (saved L s, ks_payload s, os)" "os ! 0 = ks_status s" "os ! 1 = ks_executed s"
    using finish_ok [OF assms(4,2)] by blast
  have "length outputs \<noteq> 0" using assms(2) by linarith
  then show ?thesis
    using parse_ok [OF lo] parse_extra_none [OF assms(1)] kernel_body_ok [OF assms(1,3,4)] os assms(4)
    by (auto simp: execute_ntt_module_def kernel_ok_def)
qed

section \<open>A product of polynomials on the kernels\<close>

text \<open>An instruction with register operands.\<close>

definition register_instruction ::
  "payload_layout \<Rightarrow> decoded_instruction \<Rightarrow> nat \<Rightarrow> nat \<Rightarrow> nat \<Rightarrow> nat \<Rightarrow> nat \<Rightarrow> bool" where
  "register_instruction L inst oc d x y b \<longleftrightarrow> di_opcode inst = oc \<and> di_flags inst = 0 \<and> di_rns inst = b \<and>
     di_dst inst = d \<and> di_src0 inst = x \<and> di_src1 inst = y \<and>
     d < pl_register_count L \<and> x < pl_register_count L \<and> y < pl_register_count L \<and>
     x < 0x800 \<and> y < 0x800"

lemma register_reads:
  assumes "register_instruction L inst oc d x y b" "handle_of L s x \<noteq> 0" "handle_of L s y \<noteq> 0"
  shows "reads_register L inst u s"
  using assms by (cases u) (simp_all add: register_instruction_def reads_register_def source_operand_def)

text \<open>The effect of one transform and of one product on registers and blocks.\<close>

lemma ntt_instruction:
  assumes "kernel_ok L s" "has_room L s" "register_instruction L inst oc d x y b" "oc \<in> {12, 13}"
    and "handle_of L s x \<noteq> 0" "modulus_of L s b = Some q" "table_has q (pl_coeff_count L)"
  shows "\<exists>t. ntt_step L extra inst s = Inr (t, False) \<and> kernel_ok L t \<and>
    same_tables L (ks_control s) (ks_control t) \<and>
    live (ks_control t) = live (ks_control s) + 1 \<and> modulus_of L t = modulus_of L s \<and>
    (\<forall>r < pl_register_count L. handle_of L t r = (if r = d then live (ks_control s) + 1 else handle_of L s r)) \<and>
    (\<forall>h. 1 \<le> h \<and> h \<le> live (ks_control s) \<longrightarrow> block L (ks_payload t) h = block L (ks_payload s) h) \<and>
    block L (ks_payload t) (live (ks_control s) + 1) = transformed q b (oc = 13)
      (List.map (\<lambda>a. a mod q) (block L (ks_payload s) (handle_of L s x)))"
proof -
  have "reads_register L inst False s"
    using assms(3,5) by (simp add: register_instruction_def reads_register_def source_operand_def)
  then have r: "transforms L inst s"
    using assms(3,4,6,7) by (auto simp: transforms_def register_instruction_def)
  note st = ntt.step_produces [OF assms(1,2) r] and len = ntt.result_length [OF assms(1,2) r]
  note f = produce_facts [OF assms(1,2) len, where inst = inst and f = "goes_forward inst s"]
  have "transform_block L inst s = transformed q b (oc = 13)
      (List.map (\<lambda>a. a mod q) (block L (ks_payload s) (handle_of L s x)))"
    using assms(3,6) by (simp add: transform_block_def register_instruction_def source_operand_def)
  then show ?thesis
    using st f assms(3) by (intro exI conjI) (auto simp: register_instruction_def)
qed

lemma montgomery_instruction:
  assumes "kernel_ok L s" "has_room L s" "register_instruction L inst oc d x y b" "oc \<in> {6, 7, 8}"
    and "handle_of L s x \<noteq> 0" "handle_of L s y \<noteq> 0" "modulus_of L s b = Some q" "q \<noteq> 0"
  shows "\<exists>t. montgomery_step L inst s = Inr (t, False) \<and> kernel_ok L t \<and>
    same_tables L (ks_control s) (ks_control t) \<and>
    live (ks_control t) = live (ks_control s) + 1 \<and> modulus_of L t = modulus_of L s \<and>
    (\<forall>r < pl_register_count L. handle_of L t r = (if r = d then live (ks_control s) + 1 else handle_of L s r)) \<and>
    (\<forall>h. 1 \<le> h \<and> h \<le> live (ks_control s) \<longrightarrow> block L (ks_payload t) h = block L (ks_payload s) h) \<and>
    block L (ks_payload t) (live (ks_control s) + 1) = map2 (\<lambda>u v. mod_mul u v q)
      (block L (ks_payload s) (handle_of L s x)) (block L (ks_payload s) (handle_of L s y))"
proof -
  have r: "multiplies L inst s"
    using assms(3,4,7,8) register_reads [OF assms(3,5,6)]
    by (auto simp: multiplies_def register_instruction_def is_montgomery_opcode_def)
  note st = montgomery.step_produces [OF assms(1,2) r] and len = montgomery.result_length [OF assms(1,2) r]
  note f = produce_facts [OF assms(1,2) len, where inst = inst and f = "keeps_form L inst s"]
  have "product_block L inst s = map2 (\<lambda>u v. mod_mul u v q)
      (block L (ks_payload s) (handle_of L s x)) (block L (ks_payload s) (handle_of L s y))"
    using assms(3,7) by (simp add: product_block_def register_instruction_def source_operand_def)
  then show ?thesis
    using st f assms(3) by (intro exI conjI) (auto simp: register_instruction_def)
qed


lemma transformed_product:
  assumes "table_has q n" "length a = n" "length b = n"
  shows "transformed q pid True (List.map (\<lambda>x. x mod q)
      (map2 (\<lambda>u v. mod_mul u v q) (transformed q pid False a) (transformed q pid False b))) =
    List.map (negacyclic_product q n a b) [0..<n]"
proof -
  obtain M r where "n = 2 ^ M" and res: "\<And>pid. resolve_negacyclic_roots q n pid = Inr r"
    and r: "roots_ok q M r" using table_roots [OF assms(1)] by blast
  have q: "0 < q" using r by (simp add: roots_ok_def)
  have pid: "ntt_apply_negacyclic_four_step vs n q pid i = ntt_apply_negacyclic_four_step vs n q 0 i" for vs i
    by (simp add: ntt_apply_negacyclic_four_step_def res)
  obtain x where x: "ntt_apply_negacyclic_four_step a n q 0 False = Inr x" "length x = n"
    using transform_ok [OF assms(1), of a] assms(2) by fastforce
  obtain y where y: "ntt_apply_negacyclic_four_step b n q 0 False = Inr y" "length y = n"
    using transform_ok [OF assms(1), of b] assms(3) by fastforce
  have t: "transformed q pid False a = x" "transformed q pid False b = y"
    using x y assms(2,3) by (simp_all add: transformed_def pid)
  let ?z = "map2 (\<lambda>u v. mod_mul u v q) x y"
  have z: "List.map (\<lambda>x. x mod q) ?z = ?z" using q by (auto simp: case_prod_beta)
  show ?thesis
    using transform_product [OF assms] x y
    unfolding t z by (simp add: transformed_def pid ntt_apply_dit_def ntt_apply_dif_def)
qed

text \<open>The next kernel starts where the last one stopped.\<close>

lemma restart:
  assumes "kernel_ok L s"
  shows "ks_control (start L ls (saved L s) (ks_payload s)) = saved L s"
    "ks_payload (start L ls (saved L s) (ks_payload s)) = ks_payload s"
    "handle_of L (start L ls (saved L s) (ks_payload s)) = handle_of L s"
    "modulus_of L (start L ls (saved L s) (ks_payload s)) = modulus_of L s"
    "live (saved L s) = live (ks_control s)"
  using saved_facts [OF assms] by (simp_all add: start_def handle_of_def [abs_def] modulus_of_def [abs_def])


text \<open>
  What a kernel call promises of the control block: it is well-formed again, has \<open>k\<close> more handles
  and the same moduli, and no block that was live changed.
\<close>

definition advances ::
  "payload_layout \<Rightarrow> nat \<Rightarrow> nat list \<Rightarrow> nat list \<Rightarrow> nat list \<Rightarrow> nat list \<Rightarrow> bool" where
  "advances L k c p c' p' \<longleftrightarrow> control_ok L c' p' \<and> length c' = length c \<and> live c' = live c + k \<and>
     moduli L c' = moduli L c \<and> (\<forall>h. 1 \<le> h \<and> h \<le> live c \<longrightarrow> block L p' h = block L p h)"

lemma advances_trans:
  "advances L j a p b q \<Longrightarrow> advances L k b q c r \<Longrightarrow> advances L (j + k) a p c r"
  by (auto simp: advances_def)

lemma saved_advances:
  assumes "control_ok L c p" "kernel_ok L s" "same_tables L c (ks_control s)"
    and "live (ks_control s) = live c + k"
    and "\<And>h. 1 \<le> h \<Longrightarrow> h \<le> live c \<Longrightarrow> block L (ks_payload s) h = block L p h"
  shows "advances L k c p (saved L s) (ks_payload s)"
proof -
  have lo: "layout_ok L c p" using assms(1) by (simp add: control_ok_def)
  show ?thesis
    using saved_control_ok [OF assms(1-3)] saved_facts(1,4) [OF assms(2)] moduli_same [OF lo assms(3)]
      length_saved [OF assms(2)] assms(3-5)
    by (simp add: advances_def same_tables_def)
qed

text \<open>The state a kernel starts with.\<close>

lemma start_facts:
  assumes "control_ok L c p"
  shows "kernel_ok L (start L [] c p)" "ks_control (start L [] c p) = c" "ks_payload (start L [] c p) = p"
    "modulus_of L (start L [] c p) b = map_of (moduli L c) b"
    "\<And>r. r < pl_register_count L \<Longrightarrow> handle_of L (start L [] c p) r = registers L c ! r"
    "\<And>r. r < pl_register_count L \<Longrightarrow> registers L c ! r \<le> live c"
  using start_ok [OF assms] assms
  by (simp_all add: start_def modulus_of_def handle_of_def control_ok_def registers_def)

lemma registers_saved:
  "kernel_ok L s \<Longrightarrow> r < pl_register_count L \<Longrightarrow> registers L (saved L s) ! r = handle_of L s r"
  using saved_facts(2) [of L s] by (simp add: handle_of_def)

text \<open>Two transforms in one call, the second of a register the first does not write.\<close>

lemma forward_call:
  assumes ok: "control_ok L c p" and out: "6 \<le> length outs" and room: "live c + 2 \<le> pl_handle_capacity L"
    and i: "decode_instruction f 0 = Inr i1" "register_instruction L i1 12 u x x' b"
      "decode_instruction f 1 = Inr i2" "register_instruction L i2 12 v y y' b" "u \<noteq> v" "u \<noteq> y"
    and q: "map_of (moduli L c) b = Some q" "table_has q (pl_coeff_count L)"
    and xy: "registers L c ! x \<noteq> 0" "registers L c ! y \<noteq> 0"
  shows "\<exists>c' p' os. execute_ntt_module f c p outs 8 (length c) (length outs) pid = Inr (c', p', os) \<and>
    advances L 2 c p c' p' \<and> registers L c' ! u = live c + 1 \<and> registers L c' ! v = live c + 2 \<and>
    block L p' (live c + 1) = transformed q b False (List.map (\<lambda>a. a mod q) (block L p (registers L c ! x))) \<and>
    block L p' (live c + 2) = transformed q b False (List.map (\<lambda>a. a mod q) (block L p (registers L c ! y)))"
proof -
  let ?E = "empty_extra (length c)" and ?s = "start L [] c p"
  note s = start_facts [OF ok]
  have rr: "x < pl_register_count L" "y < pl_register_count L" "u < pl_register_count L" "v < pl_register_count L"
    using i(2,4) by (simp_all add: register_instruction_def)
  have r0: "has_room L ?s" using room rr s(2) by (simp add: has_room_def)
  obtain s1 where s1: "ntt_step L ?E i1 ?s = Inr (s1, False)" "kernel_ok L s1" "same_tables L c (ks_control s1)"
    "live (ks_control s1) = live c + 1" "modulus_of L s1 b = Some q"
    "\<And>r. r < pl_register_count L \<Longrightarrow> handle_of L s1 r = (if r = u then live c + 1 else handle_of L ?s r)"
    "\<And>h. 1 \<le> h \<Longrightarrow> h \<le> live c \<Longrightarrow> block L (ks_payload s1) h = block L p h"
    "block L (ks_payload s1) (live c + 1) =
       transformed q b False (List.map (\<lambda>a. a mod q) (block L p (registers L c ! x)))"
    using ntt_instruction [OF s(1) r0 i(2) _ _ _ q(2), of ?E, unfolded s(2-4) s(5) [OF rr(1)]] xy(1) q(1) by auto
  have r1: "has_room L s1" using room rr s1(4) by (simp add: has_room_def)
  have n2: "live (ks_control s1) + 1 = live c + 2" using s1(4) by simp
  have hy: "handle_of L s1 y = registers L c ! y" using s1(6) [OF rr(2)] s(5) [OF rr(2)] i(6) by simp
  obtain s2 where s2: "ntt_step L ?E i2 s1 = Inr (s2, False)" "kernel_ok L s2"
    "same_tables L (ks_control s1) (ks_control s2)" "live (ks_control s2) = live c + 2"
    "\<And>r. r < pl_register_count L \<Longrightarrow> handle_of L s2 r = (if r = v then live c + 2 else handle_of L s1 r)"
    "\<And>h. 1 \<le> h \<Longrightarrow> h \<le> live c + 1 \<Longrightarrow> block L (ks_payload s2) h = block L (ks_payload s1) h"
    "block L (ks_payload s2) (live c + 2) =
       transformed q b False (List.map (\<lambda>a. a mod q) (block L p (registers L c ! y)))"
    using ntt_instruction [OF s1(2) r1 i(4) _ _ s1(5) q(2), of ?E, unfolded n2 hy] s1(4)
      s1(7) [of "registers L c ! y"] s(6) [OF rr(2)] xy(2) by auto
  have run: "run_instructions (ntt_step L ?E) f [0..<8 div 4] ?s = Inr s2"
    using i(1,3) s1(1) s2(1) by (simp add: upt_rec flip: One_nat_def)
  have st: "same_tables L c (ks_control s2)" using s1(3) s2(3) by (rule same_tables_trans)
  have "advances L 2 c p (saved L s2) (ks_payload s2)"
    using s1(7) s2(6) by (intro saved_advances [OF ok s2(2) st s2(4)]) simp
  moreover obtain os where "execute_ntt_module f c p outs 8 (length c) (length outs) pid =
      Inr (saved L s2, ks_payload s2, os)"
    using execute_ntt_ok [OF ok out run s2(2) st] by blast
  moreover have "registers L (saved L s2) ! u = live c + 1" "registers L (saved L s2) ! v = live c + 2"
    using registers_saved [OF s2(2)] rr s1(6) s2(5) i(5) by simp_all
  moreover have "block L (ks_payload s2) (live c + 1) = block L (ks_payload s1) (live c + 1)"
    by (rule s2(6)) simp_all
  ultimately show ?thesis using s1(8) s2(7) by metis
qed

text \<open>One product in one call, and one inverse transform.\<close>

lemma product_call:
  assumes ok: "control_ok L c p" and out: "6 \<le> length outs" and room: "live c + 1 \<le> pl_handle_capacity L"
    and i: "decode_instruction f 0 = Inr i1" "register_instruction L i1 oc u x y b" "oc \<in> {6, 7, 8}"
    and q: "map_of (moduli L c) b = Some q" "q \<noteq> 0"
    and xy: "registers L c ! x \<noteq> 0" "registers L c ! y \<noteq> 0"
  shows "\<exists>c' p' os. execute_montgomery_module f c p outs 4 (length c) (length outs) pid = Inr (c', p', os) \<and>
    advances L 1 c p c' p' \<and> registers L c' ! u = live c + 1 \<and>
    block L p' (live c + 1) = map2 (\<lambda>a b. mod_mul a b q) (block L p (registers L c ! x)) (block L p (registers L c ! y))"
proof -
  let ?s = "start L [] c p"
  note s = start_facts [OF ok]
  have rr: "x < pl_register_count L" "y < pl_register_count L" "u < pl_register_count L"
    using i(2) by (simp_all add: register_instruction_def)
  have r0: "has_room L ?s" using room rr s(2) by (simp add: has_room_def)
  obtain s1 where s1: "montgomery_step L i1 ?s = Inr (s1, False)" "kernel_ok L s1" "same_tables L c (ks_control s1)"
    "live (ks_control s1) = live c + 1"
    "\<And>r. r < pl_register_count L \<Longrightarrow> handle_of L s1 r = (if r = u then live c + 1 else handle_of L ?s r)"
    "\<And>h. 1 \<le> h \<Longrightarrow> h \<le> live c \<Longrightarrow> block L (ks_payload s1) h = block L p h"
    "block L (ks_payload s1) (live c + 1) =
       map2 (\<lambda>a b. mod_mul a b q) (block L p (registers L c ! x)) (block L p (registers L c ! y))"
    using montgomery_instruction [OF s(1) r0 i(2,3) _ _ _ q(2), unfolded s(2-4) s(5) [OF rr(1)] s(5) [OF rr(2)]]
      xy q(1) by auto
  have run: "run_instructions (montgomery_step L) f [0..<4 div 4] ?s = Inr s1"
    using i(1) s1(1) by (simp add: upt_rec)
  obtain os where "execute_montgomery_module f c p outs 4 (length c) (length outs) pid =
      Inr (saved L s1, ks_payload s1, os)"
    using execute_montgomery_ok [OF ok out run s1(2,3)] by blast
  moreover have "registers L (saved L s1) ! u = live c + 1"
    using registers_saved [OF s1(2)] rr s1(5) by simp
  ultimately show ?thesis using saved_advances [OF ok s1(2,3,4,6)] s1(7) by blast
qed

lemma backward_call:
  assumes ok: "control_ok L c p" and out: "6 \<le> length outs" and room: "live c + 1 \<le> pl_handle_capacity L"
    and i: "decode_instruction f 0 = Inr i1" "register_instruction L i1 13 u x y b"
    and q: "map_of (moduli L c) b = Some q" "table_has q (pl_coeff_count L)"
    and x: "registers L c ! x \<noteq> 0"
  shows "\<exists>c' p' os. execute_ntt_module f c p outs 4 (length c) (length outs) pid = Inr (c', p', os) \<and>
    os ! 0 = kPayloadStatusOk \<and> advances L 1 c p c' p' \<and> registers L c' ! u = live c + 1 \<and>
    block L p' (live c + 1) = transformed q b True (List.map (\<lambda>a. a mod q) (block L p (registers L c ! x)))"
proof -
  let ?E = "empty_extra (length c)" and ?s = "start L [] c p"
  note s = start_facts [OF ok]
  have rr: "x < pl_register_count L" "u < pl_register_count L"
    using i(2) by (simp_all add: register_instruction_def)
  have r0: "has_room L ?s" using room rr s(2) by (simp add: has_room_def)
  obtain s1 where s1: "ntt_step L ?E i1 ?s = Inr (s1, False)" "kernel_ok L s1" "same_tables L c (ks_control s1)"
    "live (ks_control s1) = live c + 1"
    "\<And>r. r < pl_register_count L \<Longrightarrow> handle_of L s1 r = (if r = u then live c + 1 else handle_of L ?s r)"
    "\<And>h. 1 \<le> h \<Longrightarrow> h \<le> live c \<Longrightarrow> block L (ks_payload s1) h = block L p h"
    "block L (ks_payload s1) (live c + 1) =
       transformed q b True (List.map (\<lambda>a. a mod q) (block L p (registers L c ! x)))"
    using ntt_instruction [OF s(1) r0 i(2) _ _ _ q(2), of ?E, unfolded s(2-4) s(5) [OF rr(1)]] x q(1) by auto
  have run: "run_instructions (ntt_step L ?E) f [0..<4 div 4] ?s = Inr s1"
    using i(1) s1(1) by (simp add: upt_rec)
  obtain os where "execute_ntt_module f c p outs 4 (length c) (length outs) pid =
      Inr (saved L s1, ks_payload s1, os)" "os ! 0 = kPayloadStatusOk"
    using execute_ntt_ok [OF ok out run s1(2,3)] by blast
  moreover have "registers L (saved L s1) ! u = live c + 1"
    using registers_saved [OF s1(2)] rr s1(5) by simp
  ultimately show ?thesis using saved_advances [OF ok s1(2,3,4,6)] s1(7) by blast
qed

text \<open>Two transforms, a product and the inverse transform, in three kernel calls.\<close>

definition multiply_program ::
  "payload_layout \<Rightarrow> nat list \<Rightarrow> nat list \<Rightarrow> nat list \<Rightarrow> nat \<Rightarrow> nat \<Rightarrow> nat \<Rightarrow> nat \<Rightarrow> nat \<Rightarrow> nat \<Rightarrow> nat \<Rightarrow> bool" where
  "multiply_program L forward multiply backward b x y u v w z \<longleftrightarrow>
     (\<exists>i1 i2 i3 i4. decode_instruction forward 0 = Inr i1 \<and> register_instruction L i1 12 u x x b \<and>
        decode_instruction forward 1 = Inr i2 \<and> register_instruction L i2 12 v y y b \<and>
        decode_instruction multiply 0 = Inr i3 \<and> register_instruction L i3 7 w u v b \<and>
        decode_instruction backward 0 = Inr i4 \<and> register_instruction L i4 13 z w w b) \<and>
     u \<noteq> v \<and> u \<noteq> y"

lemma multiply_program_run:
  assumes ok: "control_ok L c p" and prog: "multiply_program L f m g b x y u v w z"
    and q: "map_of (moduli L c) b = Some q" "table_has q (pl_coeff_count L)"
    and room: "live c + 4 \<le> pl_handle_capacity L"
    and xy: "registers L c ! x \<noteq> 0" "registers L c ! y \<noteq> 0" and out: "6 \<le> length outs"
  shows "\<exists>c' p' os. bindr (execute_ntt_module f c p outs 8 (length c) (length outs) pid) (\<lambda>(c1, p1, _).
     bindr (execute_montgomery_module m c1 p1 outs 4 (length c1) (length outs) pid) (\<lambda>(c2, p2, _).
     execute_ntt_module g c2 p2 outs 4 (length c2) (length outs) pid)) = Inr (c', p', os) \<and>
     os ! 0 = kPayloadStatusOk \<and> advances L 4 c p c' p' \<and>
     block L p' (registers L c' ! z) = List.map (negacyclic_product q (pl_coeff_count L)
        (List.map (\<lambda>a. a mod q) (block L p (registers L c ! x)))
        (List.map (\<lambda>a. a mod q) (block L p (registers L c ! y)))) [0..<pl_coeff_count L]"
proof -
  let ?A = "List.map (\<lambda>a. a mod q) (block L p (registers L c ! x))"
  let ?B = "List.map (\<lambda>a. a mod q) (block L p (registers L c ! y))"
  obtain i1 i2 i3 i4 where i: "decode_instruction f 0 = Inr i1" "register_instruction L i1 12 u x x b"
    "decode_instruction f 1 = Inr i2" "register_instruction L i2 12 v y y b"
    "decode_instruction m 0 = Inr i3" "register_instruction L i3 7 w u v b"
    "decode_instruction g 0 = Inr i4" "register_instruction L i4 13 z w w b" and uv: "u \<noteq> v" "u \<noteq> y"
    using prog by (auto simp: multiply_program_def)
  have q0: "q \<noteq> 0" using table_roots [OF q(2)] by (metis not_less_zero roots_ok_def)
  have rm: "live c + 2 \<le> pl_handle_capacity L" "live c + 3 \<le> pl_handle_capacity L" using room by simp_all
  obtain c1 p1 o1 where c1: "execute_ntt_module f c p outs 8 (length c) (length outs) pid = Inr (c1, p1, o1)"
    "advances L 2 c p c1 p1" "registers L c1 ! u = live c + 1" "registers L c1 ! v = live c + 2"
    "block L p1 (live c + 1) = transformed q b False ?A" "block L p1 (live c + 2) = transformed q b False ?B"
    using forward_call [OF ok out rm(1) i(1-4) uv q xy, of pid] by blast
  have a1: "control_ok L c1 p1" "live c1 = live c + 2" "moduli L c1 = moduli L c"
    using c1(2) by (simp_all add: advances_def)
  have rm1: "live c1 + 1 \<le> pl_handle_capacity L" using rm(2) a1(2) by simp
  have q1: "map_of (moduli L c1) b = Some q" using q(1) a1(3) by simp
  have uv1: "registers L c1 ! u \<noteq> 0" "registers L c1 ! v \<noteq> 0" using c1(3,4) by simp_all
  have oc: "7 \<in> {6, 7, 8 :: nat}" by simp
  obtain c2 p2 o2 where c2: "execute_montgomery_module m c1 p1 outs 4 (length c1) (length outs) pid = Inr (c2, p2, o2)"
    "advances L 1 c1 p1 c2 p2" "registers L c2 ! w = live c1 + 1"
    "block L p2 (live c1 + 1) = map2 (\<lambda>a b. mod_mul a b q) (transformed q b False ?A) (transformed q b False ?B)"
    using product_call [OF a1(1) out rm1 i(5,6) oc q1 q0 uv1, of pid] unfolding c1(3-6) a1(2) by blast
  have a2: "control_ok L c2 p2" "live c2 = live c1 + 1" "moduli L c2 = moduli L c"
    using c2(2) a1(3) by (simp_all add: advances_def)
  have rm2: "live c2 + 1 \<le> pl_handle_capacity L" using room a1(2) a2(2) by simp
  have q2: "map_of (moduli L c2) b = Some q" using q(1) a2(3) by simp
  have w2: "registers L c2 ! w \<noteq> 0" using c2(3) by simp
  obtain c3 p3 o3 where c3: "execute_ntt_module g c2 p2 outs 4 (length c2) (length outs) pid = Inr (c3, p3, o3)"
    "o3 ! 0 = kPayloadStatusOk" "advances L 1 c2 p2 c3 p3" "registers L c3 ! z = live c2 + 1"
    "block L p3 (live c2 + 1) = transformed q b True (List.map (\<lambda>a. a mod q) (block L p2 (registers L c2 ! w)))"
    using backward_call [OF a2(1) out rm2 i(7,8) q2 q(2) w2, of pid] by blast
  have len: "length ?A = pl_coeff_count L" "length ?B = pl_coeff_count L"
    using source_offset(4) [OF start_ok [OF ok]] start_facts(6) [OF ok] i(2,4) xy
    by (simp_all add: start_def register_instruction_def)
  have "advances L (2 + 1 + 1) c p c3 p3" using advances_trans [OF advances_trans [OF c1(2) c2(2)] c3(3)] .
  then show ?thesis
    using c1(1) c2(1) c3(1,2,4,5) c2(3,4) transformed_product [OF q(2) len, of b] by (simp del: map_map)
qed

end
