(* ===== verification/HlsSafe.thy ===== *)
theory HlsSafe
  imports HlsRun
begin

text \<open>
  Memory safety of the payload kernels: on a control block whose tables lie inside it, whose tokens
  and registers name allocated handles and whose moduli are at least 2 and below $2^{63}$, no
  instruction reads or writes out of range, and the control block that an instruction leaves is
  again of this kind. The contract of one instruction is the locale \<open>safe_kernel\<close>.
\<close>

unbundle bit_operations_syntax

declare add_2_eq_Suc [simp del] add_2_eq_Suc' [simp del]

section \<open>The transform never fails\<close>

lemma power_of_two_exists:
  assumes "is_power_of_two n"
  shows "\<exists>L. n = 2 ^ L"
proof -
  have n: "n \<noteq> 0" "n AND (n - 1) = 0" using assms by (simp_all add: is_power_of_two_def)
  obtain L where L: "2 ^ L \<le> n" "n < 2 ^ Suc L"
  proof -
    have "\<exists>L. 2 ^ L \<le> n \<and> n < 2 ^ Suc L"
      using ex_power_ivl1 [of 2 n] n(1) by (simp only: Suc_eq_plus1)
    with that show ?thesis by blast
  qed
  have top: "bit m L" if "2 ^ L \<le> m" "m < 2 ^ Suc L" for m :: nat
  proof -
    have "m div 2 ^ L = 1"
    proof (rule antisym)
      have "m div 2 ^ L < 2" using that(2) by (simp add: div_less_iff_less_mult)
      then show "m div 2 ^ L \<le> 1" by simp
      show "1 \<le> m div 2 ^ L" using that(1) by (metis div_le_mono div_self power_not_zero zero_neq_numeral)
    qed
    then show ?thesis by (simp add: bit_iff_odd)
  qed
  have "n = 2 ^ L"
  proof (rule ccontr)
    assume "n \<noteq> 2 ^ L"
    then have "2 ^ L \<le> n - 1" "n - 1 < 2 ^ Suc L" using L by linarith+
    then have "bit (n AND (n - 1)) L" using top [OF L] top [of "n - 1"] by (simp add: bit_and_iff)
    with n(2) show False by simp
  qed
  then show ?thesis ..
qed

lemma span_exponent: "(2 :: nat) ^ M \<le> 128 \<Longrightarrow> M \<le> 7"
proof (rule ccontr)
  assume a: "(2 :: nat) ^ M \<le> 128" "\<not> M \<le> 7"
  then have "(2 :: nat) ^ 8 \<le> 2 ^ M" by (intro power_increasing) simp_all
  with a(1) show False by simp
qed

lemma four_step_total:
  assumes q: "1 < q" "q \<le> 2 ^ 63" and b: "R \<le> 16" "C \<le> 16" "R * C \<le> 128" "R * C \<le> length vals"
  shows "\<exists>v. four_step_stages vals R C w q = Inr v \<and> length v = length vals"
proof -
  have l: "R * C \<le> length (replicate kMaxSpan (0 :: nat))" using b(3) by (simp add: kMaxSpan_def)
  obtain s1 where s1: "foldr_res (stage1_row vals R C (mod_pow w R q) q) [0..<R] (replicate kMaxSpan 0) = Inr s1"
    "length s1 = length (replicate kMaxSpan (0 :: nat))"
    using stage1_ok [OF q b(2) l b(4)] by blast
  obtain s2 where s2: "foldr_res (stage2_row C w q) [0..<R] s1 = Inr s2" "length s2 = length s1"
    using stage2_ok [OF q(1), of R C s1 w] l s1(2) by metis
  obtain s3 where s3: "foldr_res (stage3_row s2 R C) [0..<R] (replicate kMaxSpan 0) = Inr s3"
    "length s3 = length (replicate kMaxSpan (0 :: nat))"
    using stage3_ok [of R C s2 "replicate kMaxSpan 0"] l s1(2) s2(2) by auto
  obtain v where "foldr_res (stage4_col s3 R C (mod_pow w C q) q) [0..<C] vals = Inr v" "length v = length vals"
    using stage4_ok [OF q b(1), of C s3 vals "mod_pow w C q"] l s3(2) b(4) by metis
  with s1(1) s2(1) s3(1) show ?thesis by (simp add: four_step_stages_def Let_def)
qed

lemma scale_total:
  assumes "1 < q" "q < 2 ^ 63" "n \<le> length vals"
  shows "\<exists>v. scale_by_inverse n q vals = Inr v \<and> length v = length vals"
proof -
  obtain x where x: "mod_inv n q = Inr x"
    using euclid_inverse_correct [OF assms(1,2), of n] by (auto simp: mod_inv_def)
  have "\<exists>v. foldr_res (\<lambda>i s. bindr (rd s i) (\<lambda>v. wr s i (mod_mul v x q))) [0..<n] vals = Inr v \<and>
      length v = length vals"
    by (rule foldr_res_range [where I = "\<lambda>_ v. length v = length vals"]) (use assms(3) in auto)
  with x show ?thesis by (simp add: scale_by_inverse_def)
qed

lemma cyclic_total:
  assumes "1 < q" "q < 2 ^ 63" "n = 2 ^ M" "n \<le> length vals"
  shows "\<exists>v. cyclic_ntt_four_step vals n w q i = Inr v \<and> length v = length vals"
proof (cases "n < 2 \<or> n > kMaxSpan")
  case True
  then show ?thesis by (auto simp: cyclic_ntt_four_step_def)
next
  case False
  then have "(2 :: nat) ^ M \<le> 128" using assms(3) by (simp add: kMaxSpan_def)
  then have M: "M \<le> 7" by (rule span_exponent)
  note sh = four_step_shape [OF M]
  obtain v where v: "four_step_stages vals (2 ^ (M div 2)) (2 ^ (M - M div 2)) w q = Inr v"
    "length v = length vals"
    using four_step_total [OF assms(1) _ sh(3,4), of vals w] assms(2-4) sh(2,5) by auto
  obtain u where "scale_by_inverse n q v = Inr u" "length u = length v"
    using scale_total [OF assms(1,2), of n v] assms(4) v(2) by auto
  then show ?thesis
    using v sh assms(1) False by (auto simp: cyclic_ntt_four_step_def kMaxFourStepSide_def assms(3))
qed

lemma bit_reverse_total:
  assumes "n = 2 ^ M" "n \<le> length vals"
  shows "\<exists>v. bit_reverse_permute vals n = Inr v \<and> length v = length vals"
proof (cases "n < 2 \<or> n > kMaxSpan")
  case True
  then show ?thesis by (auto simp: bit_reverse_permute_def)
next
  case False
  then have "(2 :: nat) ^ M \<le> 128" using assms(1) by (simp add: kMaxSpan_def)
  then have M: "M \<le> 7" by (rule span_exponent)
  have "1 \<le> M" using False assms(1) by (cases M) simp_all
  then show ?thesis using bit_reverse_permute_ok [OF _ M, of vals] assms by simp
qed

lemma lookup_twiddle_total: "\<exists>w. lookup_ntt_twiddle q pid i e span = Inr w"
proof -
  have v: "\<exists>v. select_twiddle t e = Inr v" if "t \<in> set kTables" for t
  proof -
    have "tw_size t \<in> {4, 8}" "length (tw_values t) = 8" using that by (auto simp: kTables_def)
    moreover have "e mod 4 < 8" using mod_less_divisor [of 4 e] by linarith
    ultimately show ?thesis by (auto simp: select_twiddle_def rd_def)
  qed
  have f: "t \<in> set kTables" if "List.find P kTables = Some t" for P t
    using that by (auto simp: find_Some_iff)
  show ?thesis
    using v by (fastforce simp: lookup_ntt_twiddle_def Let_def split: option.split dest: f)
qed

lemma resolve_roots_total:
  assumes "1 < q" "q < 2 ^ 63"
  shows "\<exists>r. resolve_negacyclic_roots q n pid = Inr r"
proof -
  obtain w where w: "lookup_ntt_twiddle q pid False 1 n = Inr w" using lookup_twiddle_total by blast
  obtain x where "mod_inv (w mod q) q = Inr x"
    using euclid_inverse_correct [OF assms, of "w mod q"] by (auto simp: mod_inv_def)
  with w assms(1) show ?thesis
    by (auto simp: resolve_negacyclic_roots_def fallback_roots_def Let_def split: option.split)
qed

lemma ntt_total:
  assumes "1 < q" "q < 2 ^ 63" "n \<le> length vals"
  shows "\<exists>v. ntt_apply_negacyclic_four_step vals n q pid i = Inr v \<and> length v = length vals"
proof (cases "n < 2 \<or> \<not> is_power_of_two n")
  case True
  then show ?thesis by (auto simp: ntt_apply_negacyclic_four_step_def)
next
  case False
  then obtain M where M: "n = 2 ^ M" using power_of_two_exists by blast
  obtain r where r: "resolve_negacyclic_roots q n pid = Inr r" using resolve_roots_total [OF assms(1,2)] by blast
  have tw: "\<exists>v. twist_loop root q n xs = Inr v \<and> length v = length xs" if "n \<le> length xs" for root xs
    using twist_loop_ok [OF assms(1) that] that by simp
  have cy: "\<exists>v. cyclic_ntt_four_step xs n w q i = Inr v \<and> length v = length xs" if "n \<le> length xs" for xs w i
    using cyclic_total [OF assms(1,2) M that] .
  have br: "\<exists>v. bit_reverse_permute xs n = Inr v \<and> length v = length xs" if "n \<le> length xs" for xs
    using bit_reverse_total [OF M that] .
  show ?thesis
  proof (cases i)
    case False
    obtain a where a: "twist_loop (nr_psi r) q n vals = Inr a" "length a = length vals" using tw [OF assms(3)] by blast
    obtain b where b: "cyclic_ntt_four_step a n (nr_omega r) q False = Inr b" "length b = length a"
      using cy a(2) assms(3) by metis
    obtain d where "bit_reverse_permute b n = Inr d" "length d = length b" using br a(2) b(2) assms(3) by metis
    with a b r False \<open>\<not> (n < 2 \<or> \<not> is_power_of_two n)\<close> assms(1) show ?thesis
      by (simp add: ntt_apply_negacyclic_four_step_def)
  next
    case True
    obtain a where a: "bit_reverse_permute vals n = Inr a" "length a = length vals" using br [OF assms(3)] by blast
    obtain b where b: "cyclic_ntt_four_step a n (nr_omega_inv r) q True = Inr b" "length b = length a"
      using cy a(2) assms(3) by metis
    obtain d where "twist_loop (nr_psi_inv r) q n b = Inr d" "length d = length b" using tw a(2) b(2) assms(3) by metis
    with a b r True \<open>\<not> (n < 2 \<or> \<not> is_power_of_two n)\<close> assms(1) show ?thesis
      by (simp add: ntt_apply_negacyclic_four_step_def)
  qed
qed


section \<open>Loops on blocks\<close>

lemma value_loop_total:
  assumes "out + n \<le> length xs" "length xs < 2 ^ 32"
    and "\<And>c p. c < n \<Longrightarrow> length (p :: 'a list) = length xs \<Longrightarrow> \<exists>v. F c p = Inr v"
  shows "\<exists>ys. foldr_res (\<lambda>c p. bindr (F c p) (\<lambda>v. wr p (w32 (out + c)) v)) [0..<n] xs = Inr ys \<and>
    length ys = length xs"
proof (rule foldr_res_range [where I = "\<lambda>_ p. length p = length xs"])
  fix c and p :: "'a list" assume c: "c < n" and p: "length p = length xs"
  obtain v where "F c p = Inr v" using assms(3) [OF c p] by blast
  moreover have "out + c < length p" "w32 (out + c) = out + c" using assms(1,2) c p by simp_all
  ultimately show "\<exists>p'. bindr (F c p) (\<lambda>v. wr p (w32 (out + c)) v) = Inr p' \<and> length p' = length xs"
    using p by simp
qed simp

section \<open>Sound states\<close>

definition tokens :: "payload_layout \<Rightarrow> nat list \<Rightarrow> nat list" where
  "tokens L c = List.map (\<lambda>i. w32 (c ! (pl_token_directory_offset L + 2 * i + 1))) [0..<pl_token_count L]"

definition tables_ok :: "payload_layout \<Rightarrow> nat list \<Rightarrow> bool" where
  "tables_ok L c \<longleftrightarrow> (\<forall>h \<in> set (tokens L c). h \<le> live c) \<and> (\<forall>(b, m) \<in> set (moduli L c). 1 < m \<and> m < 2 ^ 63)"

definition sound :: "payload_layout \<Rightarrow> kernel_state \<Rightarrow> bool" where
  "sound L s \<longleftrightarrow> layout_ok L (ks_control s) (ks_payload s) \<and> header_ok L (ks_control s) \<and>
     length (ks_control s) = pl_output_directory_offset L + 2 * pl_output_token_count L \<and>
     length (ks_handles s) = pl_register_count L \<and>
     (\<forall>h \<in> set (ks_handles s). h \<le> live (ks_control s)) \<and> tables_ok L (ks_control s)"

lemma tokens_same: "layout_ok L c p \<Longrightarrow> same_tables L c c' \<Longrightarrow> tokens L c' = tokens L c"
  by (auto simp: tokens_def same_tables_def layout_ok_def)

lemma tables_grow:
  assumes "layout_ok L c p" "same_tables L c c'" "live c \<le> live c'" "tables_ok L c"
  shows "tables_ok L c'"
  using assms(3,4) moduli_same [OF assms(1,2)] tokens_same [OF assms(1,2)]
  by (fastforce simp: tables_ok_def)

text \<open>A modulus found in the table is one the arithmetic is defined for.\<close>

lemma modulus_sound:
  assumes "sound L s"
  shows "\<exists>q. payload_lookup_modulus (ks_control s) L b = Inr q \<and> (q = 0 \<or> 1 < q \<and> q < 2 ^ 63)"
proof (cases "map_of (moduli L (ks_control s)) b")
  case None
  then show ?thesis using lookup_modulus_is_map [of L "ks_control s" "ks_payload s" b] assms
    by (simp add: sound_def)
next
  case (Some q)
  then have "(b, q) \<in> set (moduli L (ks_control s))" by (rule map_of_SomeD)
  with Some show ?thesis using lookup_modulus_is_map [of L "ks_control s" "ks_payload s" b] assms
    by (fastforce simp: sound_def tables_ok_def)
qed

section \<open>Operands\<close>

text \<open>The search stays in its directory.\<close>

lemma pair_search_total:
  assumes "base + 2 * n \<le> length c" "length c < 2 ^ 32" "hi \<le> n"
  shows "\<exists>r. pair_search c base k lo hi = Inr r \<and> (\<forall>x. r = Some x \<longrightarrow> (\<exists>i < n. x = base + 2 * i \<and> c ! x = k))"
  using assms
proof (induction c base k lo hi rule: pair_search.induct)
  case (1 c base k lo hi)
  show ?case
  proof (cases "lo < hi")
    case False
    then show ?thesis by (subst pair_search.simps) simp
  next
    case True
    define mid where "mid = lo + (hi - lo) div 2"
    have mid: "mid < n" "mid \<le> n" "mid < hi" using True 1(5) by (auto simp: mid_def)
    then have c: "w32 (base + mid * 2) = base + mid * 2" "base + mid * 2 < length c"
      using 1(3,4) by simp_all
    note IH = 1(1,2) [OF True refl refl, folded mid_def, unfolded c(1), OF rd_in [OF c(2)]]
    show ?thesis
      using True c IH 1(3-5) mid
      by (subst pair_search.simps) (auto simp: Let_def mid_def [symmetric] mult.commute)
  qed
qed

lemma token_total:
  assumes "sound L s"
  shows "\<exists>h st. resolve_token (ks_control s) L key st0 = Inr (h, st) \<and> h \<le> live (ks_control s) \<and>
    (h = 0 \<longrightarrow> st = kPayloadStatusMissingToken) \<and> (h \<noteq> 0 \<longrightarrow> st = st0)"
proof -
  let ?c = "ks_control s" and ?b = "pl_token_directory_offset L"
  have lo: "?b + 2 * pl_token_count L \<le> length ?c" "length ?c < 2 ^ 32"
    using assms by (simp_all add: sound_def layout_ok_def)
  obtain r where r: "pair_search ?c ?b key 0 (pl_token_count L) = Inr r"
    "\<And>x. r = Some x \<Longrightarrow> \<exists>i < pl_token_count L. x = ?b + 2 * i"
    using pair_search_total [OF lo order_refl, of key 0] by blast
  show ?thesis
  proof (cases r)
    case None
    with r(1) show ?thesis by (simp add: resolve_token_def payload_pair_lookup_def)
  next
    case (Some x)
    then obtain i where i: "i < pl_token_count L" "x = ?b + 2 * i" using r(2) by blast
    then have "x + 1 < length ?c" using lo(1) by simp
    moreover from this have "w32 (x + 1) = x + 1" using lo(2) by simp
    moreover have "w32 (?c ! (x + 1)) \<in> set (tokens L ?c)" using i by (auto simp: tokens_def)
    then have "w32 (?c ! (x + 1)) \<le> live ?c" using assms by (simp add: sound_def tables_ok_def)
    ultimately show ?thesis using r(1) Some by (simp add: resolve_token_def payload_pair_lookup_def)
  qed
qed

lemma register_total:
  assumes "sound L s"
  shows "\<exists>h st. resolve_register L (ks_handles s) src st0 = Inr (h, st) \<and> h \<le> live (ks_control s) \<and>
    (h = 0 \<longrightarrow> st = kPayloadStatusInvalidHandle) \<and> (h \<noteq> 0 \<longrightarrow> st = st0)"
proof (cases "pl_register_count L = 0")
  case False
  then have "src mod pl_register_count L < length (ks_handles s)" using assms by (simp add: sound_def)
  moreover from this have "ks_handles s ! (src mod pl_register_count L) \<le> live (ks_control s)"
    using assms by (simp add: sound_def)
  ultimately show ?thesis using False by (simp add: resolve_register_def)
qed (simp add: resolve_register_def)

text \<open>What an operand resolves to: a live handle, or a status that ends the loop.\<close>

definition resolves :: "kernel_state \<Rightarrow> (nat \<times> nat) res \<Rightarrow> bool" where
  "resolves s r \<longleftrightarrow> (\<exists>h st. r = Inr (h, st) \<and> (st = kPayloadStatusOk \<longrightarrow> 1 \<le> h \<and> h \<le> live (ks_control s)))"

lemma resolve_basic:
  assumes "sound L s"
  shows "resolves s (resolve_token (ks_control s) L key st)"
    "resolves s (resolve_register L (ks_handles s) src st)"
    "st' \<noteq> kPayloadStatusOk \<Longrightarrow> resolves s (Inr (h, st'))"
  using token_total [OF assms, of key st] register_total [OF assms, of src st]
  by (auto simp: resolves_def status_defs)

lemma bcu_absent: "\<not> pe_valid E \<Longrightarrow> resolves s (resolve_bcu_output c E src st)"
  by (simp add: resolves_def resolve_bcu_output_def status_defs)

lemmas operand_defs = resolve_montgomery_operand_handle_def resolve_ntt_operand_handle_def
  resolve_automorphism_operand_handle_def resolve_operand_handle_def

lemma resolve_operands:
  assumes "sound L s" "\<not> pe_valid E"
  shows "resolves s (resolve_montgomery_operand_handle (ks_control s) L (ks_handles s) inst u st)"
    "resolves s (resolve_automorphism_operand_handle (ks_control s) L (ks_handles s) inst st)"
    "resolves s (resolve_ntt_operand_handle (ks_control s) L E (ks_handles s) inst st)"
    "resolves s (resolve_operand_handle (ks_control s) L E (ks_handles s) inst u st)"
  using resolve_basic [OF assms(1)] bcu_absent [OF assms(2)]
  by (simp_all add: operand_defs Let_def status_defs)


section \<open>The contract of a safe kernel\<close>

text \<open>
  On a sound state every instruction ends without undefined behaviour in a sound state; the loop
  goes on exactly when the status is still zero. An instruction that may overflow (\<open>u\<close>) may
  instead be undefined; no other error is possible.
\<close>

definition keeps_sound :: "payload_layout \<Rightarrow> bool \<Rightarrow> (kernel_state \<times> bool) res \<Rightarrow> bool" where
  "keeps_sound L u r \<longleftrightarrow>
     (\<exists>s stop. r = Inr (s, stop) \<and> sound L s \<and> (stop \<longleftrightarrow> ks_status s \<noteq> kPayloadStatusOk)) \<or>
     u \<and> r = Inl Undefined"

lemma break_sound: "sound L s \<Longrightarrow> st \<noteq> kPayloadStatusOk \<Longrightarrow> keeps_sound L u (break_with st s)"
  by (simp add: keeps_sound_def break_with_def sound_def)

lemma continue_sound: "sound L s \<Longrightarrow> ks_status s = kPayloadStatusOk \<Longrightarrow> keeps_sound L u (continue_with s)"
  by (simp add: keeps_sound_def continue_with_def)

lemma sound_executed [simp]: "sound L (s\<lparr>ks_executed := k\<rparr>) = sound L s"
  by (simp add: sound_def)

lemma bind_resolved:
  assumes "resolves s r" "\<And>h st. 1 \<le> h \<Longrightarrow> h \<le> live (ks_control s) \<Longrightarrow> st = kPayloadStatusOk \<Longrightarrow> keeps_sound L u (k (h, st))"
    and "\<And>h st. st \<noteq> kPayloadStatusOk \<Longrightarrow> keeps_sound L u (k (h, st))"
  shows "keeps_sound L u (bindr r k)"
proof -
  obtain h st where r: "r = Inr (h, st)" "st = kPayloadStatusOk \<longrightarrow> 1 \<le> h \<and> h \<le> live (ks_control s)"
    using assms(1) by (auto simp: resolves_def)
  then show ?thesis using assms(2) [of h st] assms(3) [of st h] by (cases "st = kPayloadStatusOk") auto
qed

lemma bind_modulus:
  assumes "sound L s" "keeps_sound L u (k 0)" "\<And>q. 1 < q \<Longrightarrow> q < 2 ^ 63 \<Longrightarrow> keeps_sound L u (k q)"
  shows "keeps_sound L u (bindr (payload_lookup_modulus (ks_control s) L b) k)"
  using modulus_sound [OF assms(1), of b] assms(2,3) by auto

lemma set_register_sound:
  assumes "sound L s" "h \<le> live (ks_control s)" "ks_status s = kPayloadStatusOk"
  shows "keeps_sound L u (set_register L inst h s)"
proof (cases "bounded_register_count L = 0")
  case True
  then show ?thesis using assms by (simp add: set_register_def continue_with_def keeps_sound_def sound_def)
next
  case False
  have "bounded_register_count L = pl_register_count L"
    using assms(1) by (simp add: bounded_register_count_def sound_def layout_ok_def)
  then have "di_dst inst mod bounded_register_count L < length (ks_handles s)"
    using False assms(1) by (simp add: sound_def)
  moreover have "\<forall>x \<in> set ((ks_handles s)[i := h]). x \<le> live (ks_control s)" for i
    using assms(1,2) set_update_subset_insert [of "ks_handles s" i h] by (fastforce simp: sound_def)
  ultimately show ?thesis
    using False assms by (simp add: set_register_def continue_with_def keeps_sound_def sound_def)
qed

text \<open>
  An allocation followed by a computation on the payload: the computation has to succeed whenever
  the new block is one of the payload's.
\<close>

lemma sound_bounds:
  assumes "sound L s" "1 \<le> h" "h \<le> live (ks_control s)"
  shows "payload_handle_coeff_offset L h + pl_coeff_count L \<le> length (ks_payload s)"
    "payload_handle_coeff_offset L h = (h - 1) * pl_coeff_count L"
    "length (ks_payload s) < 2 ^ 32"
proof -
  have lo: "layout_ok L (ks_control s) (ks_payload s)" using assms(1) by (simp add: sound_def)
  then have "h \<le> pl_handle_capacity L" using assms(3) by (simp add: layout_ok_def live_def)
  from layout_bounds(6,7) [OF lo assms(2) this]
  show "payload_handle_coeff_offset L h + pl_coeff_count L \<le> length (ks_payload s)"
    "payload_handle_coeff_offset L h = (h - 1) * pl_coeff_count L" by simp_all
  show "length (ks_payload s) < 2 ^ 32" using lo by (simp add: layout_ok_def)
qed

lemma sound_with_handle:
  assumes "sound L s" "live (ks_control s) < pl_handle_capacity L"
  shows "sound L (s\<lparr>ks_control := with_handle L b f (ks_control s), ks_status := st\<rparr>)"
proof -
  have lo: "layout_ok L (ks_control s) (ks_payload s)" using assms(1) by (simp add: sound_def)
  note w = with_handle_facts [OF lo assms(2), where b = b and f = f]
  have "tables_ok L (with_handle L b f (ks_control s))"
    using tables_grow [OF lo w(1)] w(2) assms(1) by (simp add: sound_def)
  moreover have "header_ok L (with_handle L b f (ks_control s))"
    using header_same [OF w(1) lo] assms(1) by (simp add: sound_def)
  moreover have "length (with_handle L b f (ks_control s)) = length (ks_control s)"
    using w(1) by (simp add: same_tables_def)
  ultimately show ?thesis using assms(1) w(2,3) by (fastforce simp: sound_def)
qed

lemma bind_allocate:
  assumes s: "sound L s"
    and full: "\<And>st. st \<noteq> kPayloadStatusOk \<Longrightarrow> keeps_sound L u (k (ks_control s, 0, st))"
    and new: "\<And>c. sound L (s\<lparr>ks_control := c, ks_status := kPayloadStatusOk\<rparr>) \<Longrightarrow>
      live c = live (ks_control s) + 1 \<Longrightarrow>
      payload_handle_coeff_offset L (live c) + pl_coeff_count L \<le> length (ks_payload s) \<Longrightarrow>
      keeps_sound L u (k (c, live c, kPayloadStatusOk))"
  shows "keeps_sound L u (bindr (payload_allocate_handle (ks_control s) L b f) k)"
proof -
  have lo: "layout_ok L (ks_control s) (ks_payload s)" using s by (simp add: sound_def)
  show ?thesis
  proof (cases "live (ks_control s) < pl_handle_capacity L")
    case True
    note w = with_handle_facts(2) [OF lo True, where b = b and f = f]
    note sw = sound_with_handle [OF s True, where b = b and f = f and st = kPayloadStatusOk]
    have "payload_handle_coeff_offset L (live (with_handle L b f (ks_control s))) + pl_coeff_count L
        \<le> length (ks_payload s)"
      using sound_bounds(1) [OF sw, of "live (with_handle L b f (ks_control s))"] w by simp
    then have "keeps_sound L u (k (with_handle L b f (ks_control s), live (with_handle L b f (ks_control s)), kPayloadStatusOk))"
      using sw w by (intro new)
    then show ?thesis using True by (simp add: allocate_ok [OF lo] w)
  next
    case False
    then show ?thesis using full [of kPayloadStatusHandleOverflow] by (simp add: allocate_ok [OF lo] status_defs)
  qed
qed

locale safe_kernel =
  fixes L :: payload_layout and step :: kernel_step and overflows :: "decoded_instruction \<Rightarrow> bool"
  assumes step_sound: "sound L s \<Longrightarrow> ks_status s = kPayloadStatusOk \<Longrightarrow> keeps_sound L (overflows inst) (step inst s)"
begin

definition overflow_in :: "nat list \<Rightarrow> nat set \<Rightarrow> bool" where
  "overflow_in prog is \<longleftrightarrow> (\<exists>i \<in> is. \<exists>inst. decode_instruction prog i = Inr inst \<and> overflows inst)"

lemma run_sound:
  assumes "\<forall>i \<in> set is. \<exists>inst. decode_instruction prog i = Inr inst"
    and "sound L s" "ks_status s = kPayloadStatusOk"
  shows "(\<exists>s'. run_instructions step prog is s = Inr s' \<and> sound L s') \<or>
    run_instructions step prog is s = Inl Undefined \<and> overflow_in prog (set is)"
  using assms
proof (induction "is" arbitrary: s)
  case (Cons i "is")
  then obtain inst where i: "decode_instruction prog i = Inr inst" by auto
  from step_sound [OF Cons.prems(2,3), of inst] show ?case unfolding keeps_sound_def
  proof (elim disjE exE conjE)
    fix t stop
    assume t: "step inst s = Inr (t, stop)" "sound L t" "stop \<longleftrightarrow> ks_status t \<noteq> kPayloadStatusOk"
    show ?thesis
    proof (cases stop)
      case False
      with Cons.IH [of t] Cons.prems(1) t i show ?thesis by (auto simp: overflow_in_def)
    qed (use t i in simp)
  next
    assume "overflows inst" "step inst s = Inl Undefined"
    then show ?thesis using i by (auto simp: overflow_in_def)
  qed
qed simp

end


section \<open>The kernels are safe\<close>

lemma flags_sound:
  assumes "sound L s" "\<And>x. keeps_sound L u (k x)"
  shows "keeps_sound L u (bindr (payload_handle_flags (ks_control s) L h) k)"
  using flags_ok(1) [of L "ks_control s" "ks_payload s" h] assms by (simp add: sound_def)

lemma coefficient_loop_total:
  assumes "out + n \<le> length xs" "length xs < 2 ^ 32" "s0 + n \<le> length xs" "s1 + n \<le> length xs"
  shows "\<exists>ys. coefficient_loop f q n s0 s1 out xs = Inr ys \<and> length ys = length xs"
proof -
  have "coefficient_loop f q n s0 s1 out xs = foldr_res (\<lambda>c p. bindr (bindr (rd p (w32 (s0 + c)))
      (\<lambda>a. bindr (rd p (w32 (s1 + c))) (\<lambda>b. Inr (f (a mod q) (b mod q))))) (\<lambda>v. wr p (w32 (out + c)) v)) [0..<n] xs"
    by (simp add: coefficient_loop_def bindr_assoc)
  moreover have "\<exists>v. bindr (rd p (w32 (s0 + c))) (\<lambda>a. bindr (rd p (w32 (s1 + c))) (\<lambda>b. Inr (f (a mod q) (b mod q)))) = Inr v"
    if "c < n" "length p = length xs" for c p
    using assms that by simp
  ultimately show ?thesis using value_loop_total [OF assms(1,2)] by simp
qed

lemma reduce_loop_total:
  assumes "out + n \<le> length xs" "length xs < 2 ^ 32" "src + n \<le> length xs"
  shows "\<exists>ys. reduce_loop q n src out xs = Inr ys \<and> length ys = length xs"
proof -
  have "reduce_loop q n src out xs = foldr_res (\<lambda>c p. bindr (bindr (rd p (w32 (src + c))) (\<lambda>a. Inr (a mod q)))
      (\<lambda>v. wr p (w32 (out + c)) v)) [0..<n] xs"
    by (simp add: reduce_loop_def bindr_assoc)
  moreover have "\<exists>v. bindr (rd p (w32 (src + c))) (\<lambda>a. Inr (a mod q)) = Inr v"
    if "c < n" "length p = length xs" for c p
    using assms that by simp
  ultimately show ?thesis using value_loop_total [OF assms(1,2)] by simp
qed

lemma transform_at_total:
  assumes "1 < q" "q < 2 ^ 63" "off + n \<le> length xs"
  shows "\<exists>ys. transform_at off n q pid i xs = Inr ys \<and> length ys = length xs"
proof -
  obtain v where "ntt_apply_negacyclic_four_step (drop off xs) n q pid i = Inr v" "length v = length (drop off xs)"
    using ntt_total [OF assms(1,2), of n "drop off xs" pid i] assms(3) by (metis add_le_imp_le_diff add.commute length_drop)
  then show ?thesis using assms(3) by (simp add: transform_at_def)
qed

lemma keeps_if: "(b \<Longrightarrow> keeps_sound L u x) \<Longrightarrow> (\<not> b \<Longrightarrow> keeps_sound L u y) \<Longrightarrow> keeps_sound L u (if b then x else y)"
  by simp

lemma keeps_case: "keeps_sound L u (f a b) \<Longrightarrow> keeps_sound L u (case (a, b) of (x, y) \<Rightarrow> f x y)"
  by simp

lemma finish_block:
  assumes "sound L (s\<lparr>ks_control := c, ks_status := kPayloadStatusOk\<rparr>)"
    and "\<exists>p'. r = Inr p' \<and> length p' = length (ks_payload s)"
  shows "keeps_sound L u (bindr r (\<lambda>p'. set_register L inst (live c)
    (s\<lparr>ks_control := c, ks_payload := p', ks_status := kPayloadStatusOk\<rparr>)))"
proof -
  obtain p' where p': "r = Inr p'" "length p' = length (ks_payload s)" using assms(2) by blast
  have "sound L (s\<lparr>ks_control := c, ks_payload := p', ks_status := kPayloadStatusOk\<rparr>)"
    using assms(1) p'(2) by (simp add: sound_def layout_ok_def)
  then show ?thesis using p'(1) by (simp add: set_register_sound)
qed

lemmas sound_rules = keeps_if keeps_case bind_modulus flags_sound bind_allocate break_sound continue_sound

lemma payload_width: "sound L s \<Longrightarrow> length (ks_payload s) < 2 ^ 32"
  by (simp add: sound_def layout_ok_def)

lemma montgomery_step_sound:
  assumes s: "sound L s" "ks_status s = kPayloadStatusOk"
  shows "keeps_sound L u (montgomery_step L inst s)"
proof -
  have E: "\<not> pe_valid (empty_extra 0)" by (simp add: empty_extra_def)
  note r = resolve_operands(1) [OF s(1) E]
  show ?thesis
    unfolding montgomery_step_def
    by (intro sound_rules bind_resolved [OF r] finish_block coefficient_loop_total s)
      (use payload_width [OF s(1)] in \<open>simp_all add: sound_bounds(1) [OF s(1)] status_defs\<close>)
qed

lemma ntt_step_sound:
  assumes s: "sound L s" "ks_status s = kPayloadStatusOk" and E: "\<not> pe_valid E"
  shows "keeps_sound L u (ntt_step L E inst s)"
proof -
  note r = resolve_operands(3) [OF s(1) E]
  have loops: "\<exists>p'. bindr (reduce_loop q n src out xs) (transform_at out n q pid i) = Inr p' \<and> length p' = length xs"
    if a: "out + n \<le> length xs" "length xs < 2 ^ 32" "src + n \<le> length xs" "1 < q" "q < 2 ^ 63" for q n src out pid i xs
  proof -
    obtain ys where ys: "reduce_loop q n src out xs = Inr ys" "length ys = length xs"
      using reduce_loop_total [OF a(1-3)] by blast
    then show ?thesis using transform_at_total [OF a(4,5), of out n ys pid i] a(1) by auto
  qed
  show ?thesis
    unfolding ntt_step_def Let_def bindr_assoc [symmetric]
    by (intro sound_rules bind_resolved [OF r] finish_block loops s)
      (use payload_width [OF s(1)] in \<open>simp_all add: sound_bounds(1) [OF s(1)] status_defs\<close>)
qed

lemma load_memory_total:
  assumes "sound L s"
  shows "\<exists>h st. load_memory_handle (ks_control s) L (ks_handles s) inst st0 = Inr (h, st) \<and> h \<le> live (ks_control s)"
proof -
  obtain h st where t: "resolve_token (ks_control s) L (di_aux inst) st0 = Inr (h, st)" "h \<le> live (ks_control s)"
    using token_total [OF assms] by blast
  have len: "length (ks_handles s) = pl_register_count L" using assms by (simp add: sound_def)
  have "rd (ks_handles s) (di_src0 inst mod pl_register_count L) = Inr (ks_handles s ! (di_src0 inst mod pl_register_count L)) \<and>
      ks_handles s ! (di_src0 inst mod pl_register_count L) \<le> live (ks_control s)" if "pl_register_count L \<noteq> 0"
  proof -
    have "di_src0 inst mod pl_register_count L < length (ks_handles s)" using that len by simp
    then show ?thesis using assms by (simp add: sound_def)
  qed
  then show ?thesis using t by (auto simp: load_memory_handle_def)
qed

lemma memory_load_sound:
  assumes s: "sound L s" "ks_status s = kPayloadStatusOk"
  shows "keeps_sound L u (memory_load L inst s)"
proof -
  obtain h st where r: "load_memory_handle (ks_control s) L (ks_handles s) inst (ks_status s) = Inr (h, st)"
    "h \<le> live (ks_control s)"
    using load_memory_total [OF s(1)] by blast
  then show ?thesis
    using set_register_sound [OF s(1) r(2) s(2)] break_sound [OF s(1), of st] by (simp add: memory_load_def)
qed

text \<open>The directory of outputs lies behind everything a state is sound for.\<close>

lemma output_update_sound:
  assumes s: "sound L s" and j: "pl_output_directory_offset L \<le> j"
  shows "sound L (s\<lparr>ks_control := (ks_control s)[j := h]\<rparr>)"
proof -
  let ?c = "ks_control s"
  have lo: "layout_ok L ?c (ks_payload s)" using s by (simp add: sound_def)
  have low: "?c[j := h] ! i = ?c ! i" if "i < pl_output_directory_offset L" for i
    using that j by simp
  have "5 < pl_output_directory_offset L" using lo by (simp add: layout_ok_def)
  then have lv: "w32 (?c[j := h] ! 5) = w32 (?c ! 5)" by (simp add: low)
  have "tokens L (?c[j := h]) = tokens L ?c"
    using lo by (auto simp: tokens_def layout_ok_def low)
  moreover have "moduli L (?c[j := h]) = moduli L ?c"
    using lo by (auto simp: moduli_def layout_ok_def low)
  moreover have "header_ok L (?c[j := h])"
    using s by (simp add: sound_def header_ok_def layout_ok_def low)
  ultimately show ?thesis using s lv by (simp add: sound_def tables_ok_def layout_ok_def live_def)
qed

lemma memory_store_sound:
  assumes s: "sound L s" "ks_status s = kPayloadStatusOk"
  shows "keeps_sound L u (memory_store L inst s)"
proof -
  let ?c = "ks_control s" and ?o = "pl_output_directory_offset L"
  have o: "?o + 2 * pl_output_token_count L \<le> length ?c" "length ?c < 2 ^ 32"
    and rc: "bounded_register_count L = pl_register_count L" and len: "length (ks_handles s) = pl_register_count L"
    using s(1) by (simp_all add: sound_def layout_ok_def bounded_register_count_def)
  let ?h = "ks_handles s ! (di_src0 inst mod pl_register_count L)"
  have rd: "0 < pl_register_count L \<Longrightarrow> rd (ks_handles s) (di_src0 inst mod pl_register_count L) = Inr ?h"
    using len by simp
  obtain r where r: "pair_search ?c ?o (di_aux inst) 0 (pl_output_token_count L) = Inr r"
    "\<And>x. r = Some x \<Longrightarrow> \<exists>i < pl_output_token_count L. x = ?o + 2 * i"
    using pair_search_total [OF o order_refl] by blast
  show ?thesis
  proof (cases r)
    case None
    then show ?thesis using rd r(1) break_sound [OF s(1)]
      by (simp add: memory_store_def rc payload_pair_update_def status_defs)
  next
    case (Some x)
    then obtain i where i: "i < pl_output_token_count L" "x = ?o + 2 * i" using r(2) by blast
    then have x: "x + 1 < length ?c" "?o \<le> x + 1" using o(1) by simp_all
    moreover from this have "w32 (x + 1) = x + 1" using o(2) by simp
    ultimately show ?thesis
      using rd r(1) Some break_sound [OF s(1)] output_update_sound [OF s(1) x(2), of ?h] s(2)
        continue_sound [of L "s\<lparr>ks_control := ?c[x + 1 := ?h], ks_executed := w32 (ks_executed s + 1)\<rparr>"]
      by (simp add: memory_store_def rc payload_pair_update_def status_defs)
  qed
qed

lemma memory_step_sound:
  assumes "sound L s" "ks_status s = kPayloadStatusOk"
  shows "keeps_sound L u (memory_step L inst s)"
  using memory_load_sound [OF assms] memory_store_sound [OF assms] continue_sound [OF assms]
    break_sound [OF assms(1)]
  by (simp add: memory_step_def Let_def status_defs)

lemma reverse_bits_less:
  assumes "b \<le> 32"
  shows "reverse_bits_u32 v b < 2 ^ b"
proof -
  have "take_bit b (reverse_bits_u32 v b) = reverse_bits_u32 v b"
    by (rule bit_eqI) (auto simp: bit_take_bit_iff bit_reverse_bits [OF assms])
  then show ?thesis by (simp add: take_bit_nat_eq_self_iff)
qed

lemma permute_total:
  assumes "src + n \<le> length xs" "out + n \<le> length xs" "n < 2 ^ 31"
  shows "\<exists>p'. permute_blocks src out n g xs = Inr p' \<and> length p' = length xs"
proof (cases "n = 0 \<or> \<not> is_power_of_two n \<or> g AND 1 = 0")
  case True
  then show ?thesis using assms by (auto simp: permute_blocks_def apply_galois_ntt_permutation_def)
next
  case False
  then obtain M where M: "n = 2 ^ M" using power_of_two_exists by blast
  have "M < 31" using assms(3) M by (metis numeral_less_iff power_strict_increasing_iff one_less_numeral_iff semiring_norm(76))
  then have "galois_source n g k < n" for k
    unfolding galois_source_def M ilog2_pow2_def bit_count_power [OF le0] Let_def by (intro reverse_bits_less) simp
  then have "src + galois_source n g k < length xs" for k using assms(1) by (meson add_strict_left_mono less_le_trans)
  then have "\<exists>p'. foldr_res (\<lambda>k b. bindr (rd b (src + galois_source n g k)) (\<lambda>v. wr b (out + k) v)) [0..<n] xs = Inr p' \<and>
      length p' = length xs"
    using assms(2) by (intro foldr_res_range [where I = "\<lambda>_ p. length p = length xs"]) auto
  then show ?thesis using False assms by (simp add: permute_blocks_def apply_galois_ntt_permutation_def)
qed

lemma small_blocks:
  assumes "sound L s" "live c = live (ks_control s) + 1" "sound L (s\<lparr>ks_control := c, ks_status := kPayloadStatusOk\<rparr>)"
    and "1 \<le> h" "h \<le> live (ks_control s)"
  shows "pl_coeff_count L < 2147483648"
proof -
  have "live (ks_control s) * pl_coeff_count L + pl_coeff_count L \<le> length (ks_payload s)"
    using sound_bounds(1,2) [OF assms(3), of "live c"] assms(2) by simp
  moreover have "1 * pl_coeff_count L \<le> live (ks_control s) * pl_coeff_count L"
    using assms(4,5) by (intro mult_le_mono1) simp
  moreover have "(2 :: nat) ^ 32 = 4294967296" by simp
  ultimately show ?thesis using payload_width [OF assms(1)] by linarith
qed

text \<open>
  A rotation by the least 32-bit number: \<open>galois_elt_from_step\<close> negates the step, which overflows.
\<close>

definition least_rotation :: "decoded_instruction \<Rightarrow> bool" where
  "least_rotation inst \<longleftrightarrow> di_opcode inst = 14 \<and> di_imm0 inst \<le> - (2 ^ 31)"

lemma automorphism_step_sound:
  assumes s: "sound L s" "ks_status s = kPayloadStatusOk"
  shows "keeps_sound L (least_rotation inst) (automorphism_step L inst s)"
proof (cases "di_opcode inst = 14")
  case False
  then show ?thesis by (simp add: automorphism_step_def continue_sound s)
next
  case True
  have E: "\<not> pe_valid (empty_extra 0)" by (simp add: empty_extra_def)
  note r = resolve_operands(2) [OF s(1) E]
  have g: "(\<exists>g. galois_elt_from_step n (rotation_amount inst) = Inr g) \<or>
      least_rotation inst \<and> galois_elt_from_step n (rotation_amount inst) = Inl Undefined" for n
  proof (cases "- (2 ^ 31) < di_imm0 inst")
    case True
    then have "- rotation_amount inst < 2 ^ 31" by (simp add: rotation_amount_def)
    then show ?thesis by (simp add: galois_elt_from_step_def Let_def)
  next
    case False
    then have "least_rotation inst" using True by (simp add: least_rotation_def)
    moreover have "(\<exists>g. galois_elt_from_step n k = Inr g) \<or> galois_elt_from_step n k = Inl Undefined" for k
      by (simp add: galois_elt_from_step_def Let_def guardr_def)
    ultimately show ?thesis by blast
  qed
  have galois: "keeps_sound L (least_rotation inst) (bindr (galois_elt_from_step n (rotation_amount inst)) k)"
    if k: "\<And>g. keeps_sound L (least_rotation inst) (k g)" for n k
    using g [of n]
  proof
    assume "\<exists>g. galois_elt_from_step n (rotation_amount inst) = Inr g"
    then show ?thesis using k by auto
  qed (simp add: keeps_sound_def)
  have control: "sound L (s\<lparr>ks_control := c\<rparr>)" if "sound L (s\<lparr>ks_control := c, ks_status := st\<rparr>)" for c st
    using that by (simp add: sound_def)
  show ?thesis
    unfolding automorphism_step_def
    by (intro sound_rules bind_resolved [OF r] finish_block galois permute_total s)
      (auto simp: sound_bounds(1) [OF s(1)] status_defs intro: small_blocks [OF s(1)] control)
qed

lemma map_res_total:
  "(\<And>x. x \<in> set xs \<Longrightarrow> \<exists>y. f x = Inr y) \<Longrightarrow> \<exists>ys. map_res f xs = Inr ys \<and> length ys = length xs"
proof (induction xs)
  case (Cons x xs)
  obtain y ys where "f x = Inr y" "map_res f xs = Inr ys" "length ys = length xs"
    using Cons by (metis list.set_intros)
  then show ?case by simp
qed simp

lemma mod_inv_total: "1 < q \<Longrightarrow> q < 2 ^ 63 \<Longrightarrow> \<exists>x. mod_inv a q = Inr x"
  using euclid_inverse_correct [of q a] by (auto simp: mod_inv_def)

lemma sud_operand_total:
  assumes s: "sound L (s\<lparr>ks_control := c, ks_status := kPayloadStatusOk\<rparr>)" and q: "1 < q" "q < 2 ^ 63"
    and b: "payload_handle_coeff_offset L h + pl_coeff_count L \<le> length (ks_payload s)"
  shows "\<exists>vs. sud_operand L c h q b' (ks_payload s) = Inr vs \<and> pl_coeff_count L \<le> length vs"
proof -
  let ?n = "pl_coeff_count L" and ?o = "payload_handle_coeff_offset L h"
  have w: "length (ks_payload s) < 2 ^ 32" using payload_width [OF s] by simp
  obtain flags where f: "payload_handle_flags c L h = Inr flags"
    using flags_ok(1) [of L c "ks_payload s" h] s by (simp add: sound_def)
  have "\<exists>y. bindr (rd (ks_payload s) (w32 (?o + i))) (\<lambda>v. Inr (v mod q)) = Inr y" if "i \<in> set [0..<?n]" for i
    using that b w by simp
  then obtain vs where vs: "map_res (\<lambda>i. bindr (rd (ks_payload s) (w32 (?o + i))) (\<lambda>v. Inr (v mod q))) [0..<?n] = Inr vs"
    "length vs = ?n"
    using map_res_total [of "[0..<?n]" "\<lambda>i. bindr (rd (ks_payload s) (w32 (?o + i))) (\<lambda>v. Inr (v mod q))"] by auto
  then obtain us where "ntt_apply_negacyclic_four_step vs ?n q b' False = Inr us" "length us = ?n"
    using ntt_total [OF q, of ?n vs b' False] by auto
  then show ?thesis using f vs by (simp add: sud_operand_def)
qed

text \<open>Without the extra layout a divisor is the modulus of the instruction or a status.\<close>

lemma sud_divisor_total:
  assumes s: "sound L (s\<lparr>ks_control := c, ks_status := kPayloadStatusOk\<rparr>)" and E: "\<not> pe_valid E"
  shows "\<exists>r. sud_divisor c n L E lines inst q = Inr r \<and> (\<forall>st. r = Inl st \<longrightarrow> st \<noteq> kPayloadStatusOk)"
  using modulus_sound [OF s, of "di_rns inst"] E
  by (auto simp: sud_divisor_def sud_bcu_divisor_def status_defs)

definition prepared :: "payload_layout \<Rightarrow> decoded_instruction \<Rightarrow> (nat + nat \<times> nat list) res \<Rightarrow> bool" where
  "prepared L inst r \<longleftrightarrow> (\<exists>x. r = Inr x \<and> (\<forall>st. x = Inl st \<longrightarrow> st \<noteq> kPayloadStatusOk) \<and>
     (\<forall>i vs. x = Inr (i, vs) \<longrightarrow> is_sud inst \<longrightarrow> pl_coeff_count L \<le> length vs))"

lemma sud_prepare_total:
  assumes s: "sound L (s\<lparr>ks_control := c, ks_status := kPayloadStatusOk\<rparr>)" and E: "\<not> pe_valid E"
    and q: "1 < q" "q < 2 ^ 63"
    and b: "payload_handle_coeff_offset L h + pl_coeff_count L \<le> length (ks_payload s)"
  shows "prepared L inst (sud_prepare L E n inst h q c s)"
proof -
  obtain r where r: "sud_divisor c n L E (ks_lines s) inst q = Inr r" "\<forall>st. r = Inl st \<longrightarrow> st \<noteq> kPayloadStatusOk"
    using sud_divisor_total [OF s E] by blast
  obtain vs where vs: "sud_operand L c h q (di_rns inst) (ks_payload s) = Inr vs" "pl_coeff_count L \<le> length vs"
    using sud_operand_total [OF s q b] by blast
  have "\<exists>x. mod_inv d q = Inr x" for d using mod_inv_total [OF q] .
  then obtain x where x: "\<And>d. r = Inr d \<Longrightarrow> mod_inv d q = Inr x" by (cases r) auto
  show ?thesis
  proof (cases r)
    case (Inl st)
    with r show ?thesis by (simp add: prepared_def sud_prepare_def status_defs)
  next
    case (Inr d)
    with r vs x show ?thesis by (simp add: prepared_def sud_prepare_def status_defs)
  qed
qed

lemma bind_prepared:
  assumes "prepared L inst r" "\<And>st. st \<noteq> kPayloadStatusOk \<Longrightarrow> keeps_sound L u (f st)"
    and "\<And>i vs. is_sud inst \<longrightarrow> pl_coeff_count L \<le> length vs \<Longrightarrow> keeps_sound L u (g i vs)"
  shows "keeps_sound L u (bindr r (\<lambda>x. case x of Inl st \<Rightarrow> f st | Inr (i, vs) \<Rightarrow> g i vs))"
proof -
  obtain x where x: "r = Inr x" "\<forall>st. x = Inl st \<longrightarrow> st \<noteq> kPayloadStatusOk"
    "\<forall>i vs. x = Inr (i, vs) \<longrightarrow> is_sud inst \<longrightarrow> pl_coeff_count L \<le> length vs"
    using assms(1) by (auto simp: prepared_def)
  then show ?thesis using assms(2,3) by (cases x) auto
qed

lemma arithmetic_loop_total:
  assumes "out + n \<le> length xs" "length xs < 2 ^ 32" "s0 + n \<le> length xs" "s1 + n \<le> length xs"
    and "is_sud inst \<longrightarrow> n \<le> length sud"
  shows "\<exists>ys. arithmetic_loop inst q i sud n s0 s1 out xs = Inr ys \<and> length ys = length xs"
proof -
  have "arithmetic_loop inst q i sud n s0 s1 out xs = foldr_res (\<lambda>c p. bindr (bindr (rd p (w32 (s0 + c)))
      (\<lambda>a. arithmetic_value inst q i (a mod q) (rd p (w32 (s1 + c))) (rd sud c))) (\<lambda>v. wr p (w32 (out + c)) v)) [0..<n] xs"
    by (simp add: arithmetic_loop_def bindr_assoc)
  moreover have "\<exists>v. bindr (rd p (w32 (s0 + c)))
      (\<lambda>a. arithmetic_value inst q i (a mod q) (rd p (w32 (s1 + c))) (rd sud c)) = Inr v"
    if "c < n" "length p = length xs" for c p
    using assms that by (cases "is_sud inst") (simp_all add: arithmetic_value_def)
  ultimately show ?thesis using value_loop_total [OF assms(1,2)] by simp
qed

lemma arithmetic_compute_sound:
  assumes s: "sound L s" "ks_status s = kPayloadStatusOk" and E: "\<not> pe_valid E"
    and h: "1 \<le> h0" "h0 \<le> live (ks_control s)" "1 \<le> h1" "h1 \<le> live (ks_control s)" and q: "1 < q" "q < 2 ^ 63"
  shows "keeps_sound L u (arithmetic_compute L E n inst h0 h1 q s)"
proof -
  have control: "sound L (s\<lparr>ks_control := c\<rparr>)" if "sound L (s\<lparr>ks_control := c, ks_status := st\<rparr>)" for c st
    using that by (simp add: sound_def)
  show ?thesis
    unfolding arithmetic_compute_def
    by (intro sound_rules bind_prepared [where inst = inst] sud_prepare_total finish_block
        arithmetic_loop_total s E q)
      (use payload_width [OF s(1)] h q in \<open>simp_all add: sound_bounds(1) [OF s(1)] status_defs control\<close>)
qed

lemma arithmetic_step_sound:
  assumes s: "sound L s" "ks_status s = kPayloadStatusOk" and E: "\<not> pe_valid E"
  shows "keeps_sound L u (arithmetic_step L E n inst s)"
proof -
  note r = resolve_operands(4) [OF s(1) E]
  have second: "resolves s (if b then resolve_operand_handle (ks_control s) L E (ks_handles s) inst True st else Inr (h, st))"
    if "1 \<le> h" "h \<le> live (ks_control s)" for b h st
    using r that by (simp add: resolves_def)
  show ?thesis
    unfolding arithmetic_step_def
    by (intro sound_rules bind_resolved [OF r] bind_resolved [OF second] arithmetic_compute_sound s E)
      (simp_all add: status_defs)
qed

section \<open>Whole modules\<close>

definition control_sound :: "payload_layout \<Rightarrow> nat list \<Rightarrow> nat list \<Rightarrow> bool" where
  "control_sound L c p \<longleftrightarrow> control_ok L c p \<and> tables_ok L c"

lemma count_irrelevant [simp]:
  "tokens (L\<lparr>pl_handle_count := k\<rparr>) = tokens L" "tables_ok (L\<lparr>pl_handle_count := k\<rparr>) = tables_ok L"
  "control_sound (L\<lparr>pl_handle_count := k\<rparr>) = control_sound L"
  by (simp_all add: fun_eq_iff tokens_def tables_ok_def control_sound_def)

lemma start_sound: "control_sound L c p \<Longrightarrow> sound L (start L lines c p)"
  by (simp add: control_sound_def control_ok_def sound_def start_def registers_def)

lemma saved_sound:
  assumes "sound L s"
  shows "control_sound L (saved L s) (ks_payload s)"
proof -
  let ?s = "s\<lparr>ks_status := kPayloadStatusOk\<rparr>"
  have k: "kernel_ok L ?s" using assms by (simp add: sound_def kernel_ok_def)
  have e: "saved L s = saved L ?s" "ks_control ?s = ks_control s" "ks_payload ?s = ks_payload s"
    "ks_handles ?s = ks_handles s" by (simp_all add: saved_def)
  note f = saved_facts [OF k, folded e(1), unfolded e(2-4)]
  have lo: "layout_ok L (ks_control s) (ks_payload s)" using assms by (simp add: sound_def)
  have len: "length (saved L s) = length (ks_control s)" using length_saved [OF k] e by simp
  have "tokens L (saved L s) = tokens L (ks_control s)"
  proof -
    have "saved L s ! (pl_token_directory_offset L + 2 * i + 1) = ks_control s ! (pl_token_directory_offset L + 2 * i + 1)"
      if "i < pl_token_count L" for i
    proof -
      have "pl_token_directory_offset L + 2 * i + 1 < length (ks_control s)"
        "pl_handle_meta_offset L \<le> pl_token_directory_offset L + 2 * i + 1"
        using lo that by (simp_all add: layout_ok_def)
      then show ?thesis using nth_saved [OF k, folded e(1), unfolded e(2,4)] by simp
    qed
    then show ?thesis by (auto simp: tokens_def)
  qed
  then show ?thesis
    using assms f(1-4,6) len by (simp add: control_sound_def control_ok_def sound_def tables_ok_def)
qed

context safe_kernel
begin

lemma body_sound:
  assumes c: "control_sound L c p" and len: "4 * (n div 4) \<le> length prog" "length prog < 2 ^ 32"
  shows "(\<exists>s. kernel_body step L kPayloadStatusOk lines prog n c p = Inr s \<and>
      control_sound L (ks_control s) (ks_payload s) \<and> length (ks_handles s) = pl_register_count L) \<or>
    kernel_body step L kPayloadStatusOk lines prog n c p = Inl Undefined \<and> overflow_in prog {0..<n div 4}"
proof -
  have lo: "layout_ok L c p" using c by (simp add: control_sound_def control_ok_def)
  have "\<forall>i \<in> set [0..<n div 4]. \<exists>inst. decode_instruction prog i = Inr inst"
  proof
    fix i assume "i \<in> set [0..<n div 4]"
    then have i: "i < n div 4" by simp
    then have "4 * i + 3 < length prog" using len(1) by linarith
    then show "\<exists>inst. decode_instruction prog i = Inr inst"
      using decode_instruction_total len(2) by blast
  qed
  moreover have "ks_status (start L lines c p) = kPayloadStatusOk" by (simp add: start_def)
  ultimately consider s where "run_instructions step prog [0..<n div 4] (start L lines c p) = Inr s" "sound L s"
    | "run_instructions step prog [0..<n div 4] (start L lines c p) = Inl Undefined" "overflow_in prog {0..<n div 4}"
    using run_sound [OF _ start_sound [OF c]] by (metis set_upt)
  then show ?thesis
  proof cases
    case (1 s)
    have "save_handles (ks_handles s) L (ks_control s) = Inr (saved L s)"
      using 1(2) unfolding saved_def
      by (intro save_handles_ok [where p = "ks_payload s"]) (simp_all add: sound_def)
    then have "kernel_body step L kPayloadStatusOk lines prog n c p = Inr (s\<lparr>ks_control := saved L s\<rparr>)"
      using load_handles_ok [OF lo] 1(1) by (simp add: kernel_body_def start_def)
    then show ?thesis using saved_sound [OF 1(2)] 1(2) by (simp add: sound_def)
  next
    case 2
    then have "kernel_body step L kPayloadStatusOk lines prog n c p = Inl Undefined"
      using load_handles_ok [OF lo] by (simp add: kernel_body_def start_def)
    with 2(2) show ?thesis by blast
  qed
qed

end

lemma finish_sound:
  assumes "length (ks_handles s) = pl_register_count L" "6 \<le> length outputs"
  shows "\<exists>os. finish_kernel m pid outputs (length outputs) L s = Inr (ks_control s, ks_payload s, os)"
proof -
  have "bounded_register_count L \<le> length (ks_handles s)" using assms(1) by (simp add: bounded_register_count_def)
  from write_outputs_total [OF this assms(2), of "ks_status s" m pid "ks_executed s"]
  show ?thesis by (fastforce simp: finish_kernel_def)
qed

context safe_kernel
begin

lemma module_sound:
  assumes "control_sound L c p" "4 * (n div 4) \<le> length prog" "length prog < 2 ^ 32" "6 \<le> length outputs"
  shows "(\<exists>c' p' os. bindr (kernel_body step L kPayloadStatusOk lines prog n c p)
      (finish_kernel m pid outputs (length outputs) L) = Inr (c', p', os) \<and> control_sound L c' p') \<or>
    bindr (kernel_body step L kPayloadStatusOk lines prog n c p)
      (finish_kernel m pid outputs (length outputs) L) = Inl Undefined \<and> overflow_in prog {0..<n div 4}"
  using body_sound [OF assms(1-3), of lines] finish_sound [OF _ assms(4)] by fastforce

end

text \<open>Only a rotation can overflow.\<close>

abbreviation none_overflows :: "decoded_instruction \<Rightarrow> bool" where
  "none_overflows \<equiv> (\<lambda>_. False)"

interpretation safe_memory: safe_kernel L "memory_step L" none_overflows for L
  by unfold_locales (rule memory_step_sound)

interpretation safe_arithmetic: safe_kernel L "arithmetic_step L (empty_extra m) m" none_overflows for L m
  by unfold_locales (simp add: arithmetic_step_sound empty_extra_def)

interpretation safe_montgomery: safe_kernel L "montgomery_step L" none_overflows for L
  by unfold_locales (rule montgomery_step_sound)

interpretation safe_ntt: safe_kernel L "ntt_step L (empty_extra m)" none_overflows for L m
  by unfold_locales (simp add: ntt_step_sound empty_extra_def)

interpretation safe_automorphism: safe_kernel L "automorphism_step L" least_rotation for L
  by unfold_locales (rule automorphism_step_sound)

text \<open>What every module does first on such a block, and the rejection of the base conversion.\<close>

definition runs_safely :: "payload_layout \<Rightarrow> (nat list \<times> nat list \<times> nat list) res \<Rightarrow> bool" where
  "runs_safely L r \<longleftrightarrow> (\<exists>c' p' os. r = Inr (c', p', os) \<and> control_sound L c' p')"

lemma decoded_imm0:
  assumes "decode_instruction prog i = Inr inst"
  shows "- (2 ^ 31) \<le> di_imm0 inst"
  using assms by (auto simp: decode_instruction_def decode_words_def sign_extend_32_def Let_def bindr_Inr_iff)

lemma safe_modules:
  assumes c: "control_sound L c p" and n: "4 * (n div 4) \<le> length prog" "length prog < 2 ^ 32"
    and outs: "6 \<le> length outs"
  shows "runs_safely L (execute_memory_module prog c p outs n (length c) (length outs) pid)"
    "runs_safely L (execute_arithmetic_module prog c p outs n (length c) (length outs) pid)"
    "runs_safely L (execute_montgomery_module prog c p outs n (length c) (length outs) pid)"
    "runs_safely L (execute_ntt_module prog c p outs n (length c) (length outs) pid)"
    "runs_safely L (execute_base_conv_module prog c p outs n (length c) (length outs) pid)"
    "runs_safely L (execute_automorphism_module prog c p outs n (length c) (length outs) pid) \<or>
     execute_automorphism_module prog c p outs n (length c) (length outs) pid = Inl Undefined \<and>
     (\<exists>i < n div 4. \<exists>inst. decode_instruction prog i = Inr inst \<and> di_opcode inst = 14 \<and> di_imm0 inst = - (2 ^ 31))"
proof -
  let ?L = "L\<lparr>pl_handle_count := live c\<rparr>"
  have c': "control_sound ?L c p" using c by simp
  have ok: "control_ok L c p" "control_ok ?L c p" "layout_ok L c p" "header_ok L c"
    using c by (simp_all add: control_sound_def control_ok_def)
  have "outs \<noteq> []" using outs by auto
  note start = this parse_ok [OF ok(3,4)] parse_extra_none [OF ok(2)]
  have lines: "load_lines c (empty_extra (length c)) = Inr (replicate kMaxBcuUnits 0)"
    by (simp add: load_lines_def empty_extra_def map_res_Inr [where g = "\<lambda>_. 0"] map_replicate_const)
  show "runs_safely L (execute_memory_module prog c p outs n (length c) (length outs) pid)"
    using safe_memory.module_sound [OF c' n outs] safe_memory.overflow_in_def start by (simp add: runs_safely_def execute_memory_module_def)
  show "runs_safely L (execute_arithmetic_module prog c p outs n (length c) (length outs) pid)"
    using safe_arithmetic.module_sound [OF c' n outs] safe_arithmetic.overflow_in_def start lines
    by (simp add: runs_safely_def execute_arithmetic_module_def)
  show "runs_safely L (execute_montgomery_module prog c p outs n (length c) (length outs) pid)"
    using safe_montgomery.module_sound [OF c' n outs] safe_montgomery.overflow_in_def start
    by (simp add: runs_safely_def execute_montgomery_module_def)
  show "runs_safely L (execute_ntt_module prog c p outs n (length c) (length outs) pid)"
    using safe_ntt.module_sound [OF c' n outs] safe_ntt.overflow_in_def start by (simp add: runs_safely_def execute_ntt_module_def)
  show "runs_safely L (execute_base_conv_module prog c p outs n (length c) (length outs) pid)"
  proof -
    obtain os where "write_payload_module_outputs outs (length outs) kPayloadStatusBadExtraLayout [0] 0 5 pid 0 = Inr os"
      using write_outputs_total [OF _ outs, of 0 "[0]" kPayloadStatusBadExtraLayout 5 pid 0] by auto
    then show ?thesis using start c
      by (simp add: runs_safely_def execute_base_conv_module_def reject_kernel_def empty_extra_def)
  qed
  have least: "\<exists>i < n div 4. \<exists>inst. decode_instruction prog i = Inr inst \<and> di_opcode inst = 14 \<and> di_imm0 inst = - (2 ^ 31)"
    if o: "safe_automorphism.overflow_in prog {0..<n div 4}"
  proof -
    obtain i inst where i: "i < n div 4" "decode_instruction prog i = Inr inst" "least_rotation inst"
      using o by (auto simp: safe_automorphism.overflow_in_def)
    moreover have "- (2 ^ 31) \<le> di_imm0 inst" using decoded_imm0 [OF i(2)] .
    ultimately show ?thesis by (auto simp: least_rotation_def intro!: exI [of _ i])
  qed
  let ?r = "execute_automorphism_module prog c p outs n (length c) (length outs) pid"
  have eq: "?r = bindr (kernel_body (automorphism_step ?L) ?L kPayloadStatusOk [] prog n c p)
      (finish_kernel 6 pid outs (length outs) ?L)"
    using start by (simp add: execute_automorphism_module_def)
  from safe_automorphism.module_sound [OF c' n outs, of "[]" 6 pid, folded eq]
  show "runs_safely L ?r \<or> ?r = Inl Undefined \<and>
     (\<exists>i < n div 4. \<exists>inst. decode_instruction prog i = Inr inst \<and> di_opcode inst = 14 \<and> di_imm0 inst = - (2 ^ 31))"
    using least by (simp add: runs_safely_def) blast
qed

end
