(* ===== verification/HlsProperties.thy ===== *)
theory HlsProperties
  imports HlsNegacyclic
begin

unbundle bit_operations_syntax

text \<open>
  What the kernels' arithmetic, decoding, lookup, trace and transform promise, as closed statements
  over the definitions of the theories it imports, each with a concrete instance.
\<close>

section \<open>Arithmetic\<close>

text \<open>
  C16. For a modulus from 2 to below 2^63 the Euclidean loop never overflows and ends; it returns
  the inverse when there is one and 0 otherwise, in the kernels as in the library header.
\<close>

theorem mod_inv_correct:
  assumes "1 < m" "m < 2 ^ 63"
  shows "\<exists>x. mod_inv a m = Inr x \<and> mod_inv_u64 a m = Inr x \<and> x < m \<and>
    (if coprime a m then mod_mul a x m = 1 else x = 0)"
  using euclid_inverse_correct [OF assms, of a] assms(1)
  by (auto simp: mod_inv_def mod_inv_u64_def)

theorem mod_inv_correct_witness:
  "\<exists>x. mod_inv 268042240 268042241 = Inr x \<and> mod_inv_u64 268042240 268042241 = Inr x \<and>
    x < 268042241 \<and> mod_mul 268042240 x 268042241 = 1"
proof -
  have "coprime (268042240 :: nat) 268042241" using coprime_diff_one_left_nat [of 268042241] by simp
  then show ?thesis using mod_inv_correct [of 268042241 268042240] by simp
qed

text \<open>
  C17. For an odd modulus below 2^63 and a radix below 2^63, converting two values, multiplying in
  the Montgomery domain and converting back is multiplication modulo q.
\<close>

theorem montgomery_product:
  assumes "1 < q" "q < 2 ^ 63" "odd q" "w32 (w * n) < 63"
  shows "bindr (convert_to_montgomery x q w n) (\<lambda>a.
         bindr (convert_to_montgomery y q w n) (\<lambda>b.
         bindr (montgomery_multiply a b q w n) (\<lambda>c. convert_from_montgomery c q w n))) =
     Inr (x * y mod q)"
proof -
  have ok: "mont_ok q w n" using assms by (simp add: mont_ok_def)
  have "bindr (convert_to_montgomery x q w n) (\<lambda>a.
         bindr (convert_to_montgomery y q w n) (\<lambda>b.
         bindr (montgomery_multiply a b q w n) (\<lambda>c. convert_from_montgomery c q w n))) =
      bindr (bindr (convert_to_montgomery x q w n) (\<lambda>a.
         bindr (convert_to_montgomery y q w n) (\<lambda>b. montgomery_multiply a b q w n)))
       (\<lambda>c. convert_from_montgomery c q w n)"
    by (simp only: bindr_assoc)
  then show ?thesis
    by (simp only: montgomery_multiply_homomorphic [OF ok] montgomery_roundtrip [OF ok])
qed

theorem montgomery_product_witness:
  "bindr (convert_to_montgomery 5 786433 17 2) (\<lambda>a.
   bindr (convert_to_montgomery 7 786433 17 2) (\<lambda>b.
   bindr (montgomery_multiply a b 786433 17 2) (\<lambda>c. convert_from_montgomery c 786433 17 2))) =
   Inr 35"
  using montgomery_product [of 786433 17 2 5 7] by simp

text \<open>
  C36. Within their bounds the shift-and-add product and the Barrett reduction of the full product
  are the same residue.
\<close>

theorem shift_and_add_is_barrett:
  assumes "0 < m" "m \<le> 2 ^ 63" "w \<le> 64" "b < 2 ^ w" "k < 64" "mu = 2 ^ k div m"
    and "a * b < 2 ^ k" "a * b * mu < 2 ^ 64"
  shows "modular_mul a b m w = Inr (a * b mod m) \<and>
    barrett_reduce (a * b) m mu k = modular_mul a b m w"
  using modular_mul_correct [OF assms(1-4), of a] barrett_reduce_correct [OF assms(1,5-8)] by simp

theorem shift_and_add_is_barrett_witness:
  "modular_mul 100 77 97 7 = Inr 37 \<and> barrett_reduce 7700 97 84 13 = modular_mul 100 77 97 7"
  using shift_and_add_is_barrett [of 97 7 77 13 84 100] by simp

section \<open>Instructions, stream table, trace\<close>

text \<open>
  C35. Decoding an instruction loses nothing of its first word, which its six fields reassemble,
  and both immediates are signed 32-bit numbers.
\<close>

theorem decode_reassembles:
  assumes "w0 < 2 ^ 64" "rd is (w32 (w32 (4 * i))) = Inr w0"
    and "decode_instruction is i = Inr d"
  shows "w0 = di_opcode d + 2 ^ 8 * (di_dst d + 2 ^ 12 * (di_src0 d + 2 ^ 12 * (di_src1 d
       + 2 ^ 12 * (di_rns d + 2 ^ 12 * di_flags d)))) \<and>
    - (2 ^ 31) \<le> di_imm0 d \<and> di_imm0 d < 2 ^ 31 \<and> - (2 ^ 31) \<le> di_imm1 d \<and> di_imm1 d < 2 ^ 31"
proof -
  obtain w1 w2 w3 where d: "d = decode_words w0 w1 w2 w3"
    using assms(2,3) by (auto simp: decode_instruction_def Let_def bindr_Inr_iff mult.commute)
  show ?thesis
    using decode_lossless [OF assms(1), of w1 w2 w3] decode_imm_ok [of w0 w1 w2 w3]
    unfolding d imm_ok_def by blast
qed

theorem decode_reassembles_witness:
  "let d = decode_words 0x0100001002003004 0xFFFFFFFF 0 0 in
   0x0100001002003004 = di_opcode d + 2 ^ 8 * (di_dst d + 2 ^ 12 * (di_src0 d + 2 ^ 12 * (di_src1 d
       + 2 ^ 12 * (di_rns d + 2 ^ 12 * di_flags d)))) \<and> di_imm0 d < 2 ^ 31"
proof -
  have "decode_instruction [0x0100001002003004, 0xFFFFFFFF, 0, 0] 0 =
      Inr (decode_words 0x0100001002003004 0xFFFFFFFF 0 0)"
    by (simp add: decode_instruction_def w32_def rd_def)
  from decode_reassembles [OF _ _ this, of "0x0100001002003004"] show ?thesis
    by (simp add: Let_def w32_def rd_def)
qed

text \<open>
  C18. When the keys of the stream table increase, the binary search returns the value stored
  under the key, reduced, and 0 for a key that is not in the table.
\<close>

theorem lookup_is_table_search:
  assumes "base = sb + rc" "base < length inputs" "length inputs < 2 ^ 32"
    and "\<forall>i < table_length inputs base. \<forall>j < i. table_key inputs base j < table_key inputs base i"
  shows "lookup_stream_value inputs (length inputs) sb rc k m =
    Inr (case map_of (List.map (\<lambda>i. (table_key inputs base i, table_value inputs base i))
                        [0..<table_length inputs base]) k of
           None \<Rightarrow> 0 | Some v \<Rightarrow> if m = 0 then 0 else v mod m)"
proof -
  let ?n = "table_length inputs base"
  let ?es = "List.map (\<lambda>i. (table_key inputs base i, table_value inputs base i)) [0..<?n]"
  obtain r where r: "lookup_stream_value inputs (length inputs) sb rc k m = Inr r"
    and c: "(\<exists>i < ?n. table_key inputs base i = k \<and>
        r = (if m = 0 then 0 else table_value inputs base i mod m)) \<or>
     (\<forall>i < ?n. table_key inputs base i \<noteq> k) \<and> r = 0"
    using lookup_stream_value_correct [OF assms] by blast
  have "inj_on (table_key inputs base) {0..<?n}"
    using assms(4) by (auto simp: inj_on_def) (metis less_irrefl linorder_neqE_nat)
  then have d: "distinct (List.map fst ?es)" by (simp add: comp_def distinct_map)
  from c show ?thesis
  proof (elim disjE exE conjE)
    fix i
    assume i: "i < ?n" "table_key inputs base i = k"
      and v: "r = (if m = 0 then 0 else table_value inputs base i mod m)"
    then have "(k, table_value inputs base i) \<in> set ?es" by force
    with d have "map_of ?es k = Some (table_value inputs base i)" by simp
    with r v show ?thesis by simp
  next
    assume "\<forall>i < ?n. table_key inputs base i \<noteq> k" "r = 0"
    moreover from this have "map_of ?es k = None" by (auto simp: map_of_eq_None_iff)
    ultimately show ?thesis using r by simp
  qed
qed

theorem lookup_is_table_search_witness:
  "lookup_stream_value [kInputMagic, 0, 97, 2, 5, 100, 8, 200] 8 3 0 8 97 = Inr 6"
proof -
  let ?i = "[kInputMagic, 0, 97, 2, 5, 100, 8, 200]"
  have n: "table_length ?i 3 = 2" by (simp add: table_length_def w32_def)
  have k: "table_key ?i 3 0 = 5" "table_key ?i 3 1 = 8" "table_value ?i 3 0 = 100" "table_value ?i 3 1 = 200"
    by (simp_all add: table_key_def table_value_def numeral_eq_Suc)
  have u: "[0..<2] = [0, 1 :: nat]" by (simp add: upt_rec)
  have l: "length ?i = 8" by simp
  have "\<forall>i < table_length ?i 3. \<forall>j < i. table_key ?i 3 j < table_key ?i 3 i"
  proof (intro allI impI)
    fix i j :: nat
    assume "i < table_length ?i 3" "j < i"
    then have "i = 1" "j = 0" using n by auto
    then show "table_key ?i 3 j < table_key ?i 3 i" using k by simp
  qed
  from lookup_is_table_search [OF _ _ _ this, of 3 0 8 97, unfolded l] show ?thesis
    by (simp add: n u k)
qed

text \<open>
  C19. Two register states that differ in at most one of the traced registers have the same trace
  only when they are equal.
\<close>

theorem trace_sees_every_register:
  assumes "k < n" "n \<le> length state" "n < 2 ^ 32" "v < 2 ^ 64" "state ! k < 2 ^ 64"
  shows "\<exists>t t'. compute_trace state n m e = Inr t \<and> compute_trace (state[k := v]) n m e = Inr t' \<and>
    (t = t' \<longleftrightarrow> v = state ! k)"
proof (cases "v = state ! k")
  case True
  obtain t where "compute_trace state n m e = Inr t"
    using trace_loop_total [of "[0..<n]" state] assms(2) unfolding compute_trace_def by fastforce
  then show ?thesis using True by simp
next
  case False
  then show ?thesis using trace_detects_change [OF assms False, of m e] by blast
qed

theorem trace_sees_every_register_witness:
  "\<exists>t t'. compute_trace [1, 2, 3] 3 2 1 = Inr t \<and> compute_trace [1, 4, 3] 3 2 1 = Inr t' \<and> t \<noteq> t'"
proof -
  have u: "[1, 2, 3][1 := 4] = [1, 4, 3 :: nat]" by (simp add: One_nat_def)
  show ?thesis using trace_sees_every_register [of 1 3 "[1, 2, 3]" 4 2 1] unfolding u
    by (auto simp: One_nat_def)
qed

section \<open>The transform\<close>

text \<open>
  C15. For a root whose order divides the span, the two passes of short transforms with the
  twiddle multiplication and the transpose between them compute the discrete Fourier transform.
\<close>

theorem four_step_is_dft:
  assumes "1 < q" "q \<le> 2 ^ 63" "n \<in> {2, 4, 8, 16, 32, 64, 128}" "n \<le> length vals" "w ^ n mod q = 1"
  shows "cyclic_ntt_four_step vals n w q False =
    Inr (List.map (\<lambda>k. (\<Sum>j<n. vals ! j * w ^ (k * j)) mod q) [0..<n] @ drop n vals)"
proof -
  have "\<exists>L \<in> {1, 2, 3, 4, 5, 6, 7}. n = 2 ^ L" using assms(3) by auto
  then obtain L where "L \<in> {1, 2, 3, 4, 5, 6, 7}" and n: "n = 2 ^ L" by blast
  then have L: "1 \<le> L" "L \<le> 7" by auto
  obtain v where v: "cyclic_ntt_four_step vals n w q False = Inr v" "length v = length vals"
    "\<forall>k < n. v ! k = dft q w n ((!) vals) k" "\<forall>i \<ge> n. v ! i = vals ! i"
    using cyclic_ntt_is_dft [OF assms(1,2) L, folded n, OF assms(4,5)] by blast
  have "v = List.map (dft q w n ((!) vals)) [0..<n] @ drop n vals"
    using v(2-4) assms(4) by (intro nth_equalityI) (auto simp: nth_append)
  then show ?thesis using v(1) by (simp add: dft_def [abs_def])
qed

theorem four_step_is_dft_witness:
  "cyclic_ntt_four_step [1, 2, 3, 4] 4 2 5 False = Inr [0, 4, 3, 2]"
  using four_step_is_dft [of 5 4 "[1, 2, 3, 4]" 2]
  by (simp add: sum_four upt_rec [of _ 4])

text \<open>
  C34. Every row of the generated table holds an odd modulus below 2^28, mutually inverse roots,
  an omega that is the square of psi, and a psi whose span-th power is -1.
\<close>

theorem root_rows_valid:
  "list_all (\<lambda>(q, n, p, p_inv, w, w_inv).
     q < 2 ^ 28 \<and> odd q \<and> n \<in> {2, 4, 8, 16, 32, 64, 128} \<and>
     mod_mul p p q = w \<and> mod_mul p p_inv q = 1 \<and> mod_mul w w_inv q = 1 \<and> mod_pow p n q = q - 1)
   kNegacyclicRootTable"
  using root_table_ok
  by (rule list.pred_mono_strong) (auto simp: root_entry_ok_def mod_pow_eq)

section \<open>Where the kernels do not report a failure\<close>

theorem even_modulus_not_reduced:
  assumes "1 < q" "q < 2 ^ 63" "even q"
  shows "montgomery_reduce_ntt_friendly a q = Inr (a mod q)"
  using assms by (rule montgomery_kernel_even)

theorem even_modulus_not_reduced_witness: "montgomery_reduce_ntt_friendly 7 10 = Inr 7"
  using even_modulus_not_reduced [of 10 7] by simp

lemma find_in_set: "List.find P xs = Some x \<Longrightarrow> x \<in> set xs"
  by (auto simp: find_Some_iff)

lemma lookup_ntt_twiddle_total: "\<exists>w. lookup_ntt_twiddle q pid invert e span = Inr w"
proof -
  have "\<exists>v. select_twiddle t e = Inr v" if "t \<in> set kTables" for t
  proof -
    have "tw_size t \<in> {4, 8}" "length (tw_values t) = 8" using that by (auto simp: kTables_def)
    moreover have "e mod 4 < 8" using mod_less_divisor [of 4 e] by linarith
    ultimately show ?thesis by (auto simp: select_twiddle_def rd_def)
  qed
  then show ?thesis
    by (fastforce simp: lookup_ntt_twiddle_def Let_def split: option.split dest: find_in_set)
qed

text \<open>No row of the table is longer than 128, and the fallback twists by 1.\<close>

lemma fallback_twist:
  assumes "1 < q" "q < 2 ^ 63" "128 < n"
  shows "\<exists>r. resolve_negacyclic_roots q n pid = Inr r \<and> nr_psi r = 1"
proof -
  have "n \<noteq> s" if m: "(q', s, x) \<in> set kNegacyclicRootTable" for q' s x
  proof -
    have ok: "root_entry_ok (q', s, x)" using root_table_ok m unfolding list_all_iff by blast
    obtain a b c d where "x = (a, b, c, d)" by (cases x)
    with ok have "s \<in> {2, 4, 8, 16, 32, 64, 128}" by (simp only: root_entry_ok_def prod.case)
    then have "s \<le> 128" by auto
    with assms(3) show ?thesis by simp
  qed
  then have "\<not> (\<exists>x \<in> set kNegacyclicRootTable. case x of (m, s, _) \<Rightarrow> m = q \<and> s = n)" by blast
  then have f: "List.find (\<lambda>(m, s, _). m = q \<and> s = n) kNegacyclicRootTable = None"
    unfolding find_None_iff by blast
  obtain w where w: "lookup_ntt_twiddle q pid False 1 n = Inr w" using lookup_ntt_twiddle_total by blast
  obtain wi where "mod_inv (w mod q) q = Inr wi"
    using euclid_inverse_correct [OF assms(1,2), of "w mod q"] by (auto simp: mod_inv_def)
  with f w assms(1) show ?thesis by (simp add: resolve_negacyclic_roots_def fallback_roots_def Let_def)
qed

text \<open>
  C40. A transform of 256 or more values only reduces them modulo q: no row of the table matches,
  the cyclic transform and the bit reversal return at once, and no error is reported.
\<close>

theorem long_span_not_transformed:
  assumes "1 < q" "q < 2 ^ 63" "7 < L" "2 ^ L \<le> length vals"
  shows "ntt_apply_negacyclic_four_step vals (2 ^ L) q pid False =
      Inr (List.map (\<lambda>x. x mod q) (take (2 ^ L) vals) @ drop (2 ^ L) vals)"
proof -
  have "(2 :: nat) ^ 8 \<le> 2 ^ L" using assms(3) by (intro power_increasing) simp_all
  then have n: "128 < (2 :: nat) ^ L" by simp
  obtain r where r: "resolve_negacyclic_roots q (2 ^ L) pid = Inr r" "nr_psi r = 1"
    using fallback_twist [OF assms(1,2) n] by blast
  have "List.map (\<lambda>i. vals ! i mod q) [0..<2 ^ L] = List.map (\<lambda>x. x mod q) (take (2 ^ L) vals)"
    using assms(4) by (intro nth_equalityI) simp_all
  then show ?thesis
    using n assms(1,4) r by (simp add: ntt_apply_negacyclic_four_step_def power_of_two_ok twist_loop_ok
        cyclic_ntt_four_step_def bit_reverse_permute_def kMaxSpan_def)
qed

theorem long_span_not_transformed_witness:
  "ntt_apply_negacyclic_four_step (replicate 256 9) 256 5 0 False = Inr (replicate 256 4)"
  using long_span_not_transformed [of 5 8 "replicate 256 9" 0] by simp

end
