(* ===== verification/HlsKernelProperties.thy ===== *)
theory HlsKernelProperties
  imports HlsSafe HlsProperties
begin

unbundle bit_operations_syntax

text \<open>
  The properties of the payload kernels, with their witnesses: the product of two polynomials by
  four instructions, the safety of every module, and the permutation of a rotation.
\<close>

section \<open>A demonstration block\<close>

text \<open>A control block with six registers, two handles and one modulus, and three programs.\<close>

definition demo_layout :: payload_layout where
  "demo_layout = \<lparr>pl_register_count = 6, pl_coeff_count = 4, pl_rns_table_count = 1, pl_handle_count = 2,
     pl_handle_capacity = 6, pl_token_count = 0, pl_output_token_count = 0, pl_rns_table_offset = 9,
     pl_register_handles_offset = 11, pl_handle_meta_offset = 17, pl_token_directory_offset = 29,
     pl_output_directory_offset = 29\<rparr>"

definition demo_control :: "nat list" where
  "demo_control = [4848492572101925196, 1, 6, 4, 1, 2, 6, 0, 0, 0, 268042241, 1, 2, 0, 0, 0, 0, 0, 0, 0, 0, 0, 0, 0, 0, 0, 0, 0, 0]"

definition demo_payload :: "nat list" where
  "demo_payload = [1, 2, 0, 1, 3, 0, 0, 5, 0, 0, 0, 0, 0, 0, 0, 0, 0, 0, 0, 0, 0, 0, 0, 0]"

definition demo_forward :: "nat list" where "demo_forward = [524, 0, 0, 0, 4296016652, 0, 0, 0]"
definition demo_multiply :: "nat list" where "demo_multiply = [12887000071, 0, 0, 0]"
definition demo_backward :: "nat list" where "demo_backward = [17184064781, 0, 0, 0]"

lemma demo_ok: "control_ok demo_layout demo_control demo_payload"
proof -
  have "layout_ok demo_layout demo_control demo_payload"
    by (simp add: layout_ok_def demo_layout_def demo_control_def demo_payload_def kMaxRegisters_def)
  moreover have "header_ok demo_layout demo_control"
    by (simp add: header_ok_def demo_layout_def demo_control_def kPayloadControlMagic_def nth_Cons')
  moreover have "registers demo_layout demo_control = [1, 2, 0, 0, 0, 0]" "live demo_control = 2"
    by (simp_all add: registers_def live_def demo_layout_def demo_control_def upt_rec [of _ 6])
  moreover have "length demo_control = pl_output_directory_offset demo_layout + 2 * pl_output_token_count demo_layout"
    by (simp add: demo_layout_def demo_control_def)
  ultimately show ?thesis by (simp add: control_ok_def)
qed

lemma decode_demo:
  "4 * i + 3 < length prog \<Longrightarrow> length prog < 2 ^ 32 \<Longrightarrow>
   decode_instruction prog i = Inr (decode_words (prog ! (4 * i)) (prog ! (4 * i + 1)) (prog ! (4 * i + 2)) (prog ! (4 * i + 3)))"
  using decode_instruction_total [of i prog] by blast

lemma demo_program: "multiply_program demo_layout demo_forward demo_multiply demo_backward 0 0 1 2 3 4 5"
proof -
  have "\<exists>i. decode_instruction demo_forward 0 = Inr i \<and> register_instruction demo_layout i 12 2 0 0 0"
    by (simp add: decode_demo demo_forward_def demo_layout_def register_instruction_def decode_words_def
        and_masks drop_bit_eq_div)
  moreover have "\<exists>i. decode_instruction demo_forward 1 = Inr i \<and> register_instruction demo_layout i 12 3 1 1 0"
    by (simp add: decode_demo demo_forward_def demo_layout_def register_instruction_def decode_words_def
        and_masks drop_bit_eq_div)
  moreover have "\<exists>i. decode_instruction demo_multiply 0 = Inr i \<and> register_instruction demo_layout i 7 4 2 3 0"
    by (simp add: decode_demo demo_multiply_def demo_layout_def register_instruction_def decode_words_def
        and_masks drop_bit_eq_div)
  moreover have "\<exists>i. decode_instruction demo_backward 0 = Inr i \<and> register_instruction demo_layout i 13 5 4 4 0"
    by (simp add: decode_demo demo_backward_def demo_layout_def register_instruction_def decode_words_def
        and_masks drop_bit_eq_div)
  ultimately show ?thesis unfolding multiply_program_def by simp
qed

section \<open>Properties\<close>

text \<open>
  C5. On a well-formed control block, two forward transforms, a product and an inverse transform,
  run by three calls of the kernels, leave in a register the product of the polynomials of two
  registers modulo X^n + 1; older blocks stay as they are.
\<close>

theorem kernels_multiply_polynomials:
  assumes "control_ok L c p" "multiply_program L forward multiply backward b x y u v w z"
    and "map_of (moduli L c) b = Some q" "table_has q (pl_coeff_count L)"
    and "registers L c ! x \<noteq> 0" "registers L c ! y \<noteq> 0"
    and "live c + 4 \<le> pl_handle_capacity L" "6 \<le> length outs"
  shows "\<exists>c' p' os. bindr (execute_ntt_module forward c p outs 8 (length c) (length outs) pid) (\<lambda>(c1, p1, _).
     bindr (execute_montgomery_module multiply c1 p1 outs 4 (length c1) (length outs) pid) (\<lambda>(c2, p2, _).
     execute_ntt_module backward c2 p2 outs 4 (length c2) (length outs) pid)) = Inr (c', p', os) \<and>
     os ! 0 = kPayloadStatusOk \<and> advances L 4 c p c' p' \<and>
     block L p' (registers L c' ! z) = List.map (negacyclic_product q (pl_coeff_count L)
        (List.map (\<lambda>a. a mod q) (block L p (registers L c ! x)))
        (List.map (\<lambda>a. a mod q) (block L p (registers L c ! y)))) [0..<pl_coeff_count L]"
  using assms by (intro multiply_program_run)

theorem kernels_multiply_polynomials_witness:
  "\<exists>c' p' os. bindr (execute_ntt_module demo_forward demo_control demo_payload (replicate 12 0) 8 29 12 0) (\<lambda>(c1, p1, _).
     bindr (execute_montgomery_module demo_multiply c1 p1 (replicate 12 0) 4 (length c1) 12 0) (\<lambda>(c2, p2, _).
     execute_ntt_module demo_backward c2 p2 (replicate 12 0) 4 (length c2) 12 0)) = Inr (c', p', os) \<and>
     block demo_layout p' (registers demo_layout c' ! 5) = [268042234, 6, 268042236, 8]"
proof -
  have facts: "map_of (moduli demo_layout demo_control) 0 = Some 268042241" "pl_coeff_count demo_layout = 4"
    "registers demo_layout demo_control ! 0 = 1" "registers demo_layout demo_control ! 1 = 2"
    "live demo_control + 4 \<le> pl_handle_capacity demo_layout" "length demo_control = 29"
    "block demo_layout demo_payload 1 = [1, 2, 0, 1]" "block demo_layout demo_payload 2 = [3, 0, 0, 5]"
    by (simp_all add: moduli_def demo_layout_def demo_control_def registers_def live_def block_def demo_payload_def
        upt_rec [of _ 6] upt_rec [of _ 1])
  have t: "table_has 268042241 4" by (simp add: table_has_def kNegacyclicRootTable_def root_table_11_def)
  have n: "List.map (negacyclic_product 268042241 4 [1, 2, 0, 1] [3, 0, 0, 5]) [0..<4] =
      [268042234, 6, 268042236, 8]"
    by (simp add: negacyclic_product_def upt_rec [of _ 4] sum_four)
  show ?thesis
    using kernels_multiply_polynomials [OF demo_ok demo_program facts(1), unfolded facts(2-4,6,7,8), OF t,
        of "replicate 12 0" 0] facts(5) n by auto
qed

text \<open>
  C6. On a sound control block without base conversion units, every call of the six kernels
  returns a sound block, with no access out of range, division by zero or overflow, except that a
  program with a rotation by -2^31, whose negation overflows, may make the rotation kernel
  undefined.
\<close>

theorem kernels_memory_safe:
  assumes "control_sound L c p" "4 * (n div 4) \<le> length prog" "length prog < 2 ^ 32" "6 \<le> length outs"
    and "execute \<in> {execute_memory_module, execute_arithmetic_module, execute_montgomery_module,
      execute_ntt_module, execute_automorphism_module, execute_base_conv_module}"
  shows "(\<exists>c' p' os. execute prog c p outs n (length c) (length outs) pid = Inr (c', p', os) \<and>
      control_sound L c' p') \<or>
    execute = execute_automorphism_module \<and>
    execute prog c p outs n (length c) (length outs) pid = Inl Undefined \<and>
    (\<exists>i < n div 4. \<exists>inst. decode_instruction prog i = Inr inst \<and> di_opcode inst = 14 \<and> di_imm0 inst = - (2 ^ 31))"
  using safe_modules [OF assms(1-4)] assms(5) unfolding runs_safely_def by blast

text \<open>The step that overflows.\<close>

lemma least_step_undefined:
  "is_power_of_two n \<Longrightarrow> 2 \<le> n \<Longrightarrow> galois_elt_from_step n (- (2 ^ 31)) = Inl Undefined"
  by (simp add: galois_elt_from_step_def Let_def)

lemma demo_sound: "control_sound demo_layout demo_control demo_payload"
proof -
  have "tokens demo_layout demo_control = []" "moduli demo_layout demo_control = [(0, 268042241)]"
    by (simp_all add: tokens_def moduli_def demo_layout_def demo_control_def upt_rec [of _ 1])
  then show ?thesis using demo_ok by (simp add: control_sound_def tables_ok_def)
qed

lemma demo_length: "length demo_control = 29"
  by (simp add: demo_control_def)

theorem kernels_memory_safe_witness:
  "\<exists>c' p' os. execute_automorphism_module [1103806595086, 17, 4, 0] demo_control demo_payload (replicate 12 0) 4 29 12 0 =
     Inr (c', p', os) \<and> control_sound demo_layout c' p'"
proof -
  have "\<not> (\<exists>i < (4 :: nat) div 4. \<exists>inst. decode_instruction [1103806595086, 17, 4, 0] i = Inr inst \<and>
      di_opcode inst = 14 \<and> di_imm0 inst = - (2 ^ 31))"
    by (simp add: decode_demo decode_words_def sign_extend_32_def)
  then show ?thesis
    using kernels_memory_safe [OF demo_sound, of 4 "[1103806595086, 17, 4, 0]" "replicate 12 0" execute_automorphism_module 0,
        unfolded demo_length]
    by auto
qed

text \<open>
  C7. For every modulus and length of the root table, permuting the transform of a polynomial with
  an odd Galois element g gives the transform of a(X^g) modulo X^n + 1.
\<close>

theorem rotation_is_automorphism:
  assumes "table_has q n" "length a = n" "odd g" "g < 2 ^ 32"
  shows "bindr (ntt_apply_dit a n q pid False) (\<lambda>x.
      apply_galois_ntt_permutation (x @ replicate n 0) 0 n n g) =
    bindr (ntt_apply_dit a n q pid False) (\<lambda>x.
    bindr (ntt_apply_dit (List.map (galois_poly q n g a) [0..<n]) n q pid False) (\<lambda>y. Inr (x @ y)))"
  using assms by (rule permuted_transform)

theorem rotation_is_automorphism_witness:
  "bindr (ntt_apply_dit [1, 2, 0, 1] 4 268042241 0 False) (\<lambda>x.
      apply_galois_ntt_permutation (x @ [0, 0, 0, 0]) 0 4 4 5) =
   bindr (ntt_apply_dit [1, 2, 0, 1] 4 268042241 0 False) (\<lambda>x.
   bindr (ntt_apply_dit [1, 268042239, 0, 268042240] 4 268042241 0 False) (\<lambda>y. Inr (x @ y)))"
proof -
  have t: "table_has 268042241 4" by (simp add: table_has_def kNegacyclicRootTable_def root_table_11_def)
  have "List.map (galois_poly 268042241 4 5 [1, 2, 0, 1]) [0..<4] = [1, 268042239, 0, 268042240]"
    by (simp add: galois_poly_def upt_rec [of _ 4] sum_four)
  moreover have "replicate 4 0 = [0, 0, 0, 0 :: nat]" by (simp add: numeral_eq_Suc)
  ultimately show ?thesis using rotation_is_automorphism [OF t, of "[1, 2, 0, 1]" 5 0] by simp
qed

end
