(* ===== verification/KeySwitch.thy ===== *)
theory KeySwitch
  imports Prelude
begin

text \<open>
  The bases of a key switch, as the compiler chooses them: the number of digits for a level
  (\<open>backend/keyswitch_digits.h\<close>), the digits themselves (the \<open>SplitType split\<close> loops of
  \<open>backend/cinnamon_compiler.h\<close>) and the limbs a polynomial has on a chip
  (\<open>Polynomial::set_limbs_from_termshare\<close> of \<open>backend/terms.h\<close>). Limbs are numbered from 0; the limbs of
  the extension from 63 down. A \<open>std::set\<close> of limbs is a set, a vector of them a list.
\<close>

section \<open>The number of digits\<close>

text \<open>
  A chain of \<open>if (level <= bound) return (dnum_glo, dnum_loc)\<close> that ends in \<open>assert(0)\<close> is the list of
  its bounds and results.
\<close>

type_synonym ladder = "(nat \<times> nat \<times> nat) list"

fun climb :: "nat \<Rightarrow> ladder \<Rightarrow> (nat \<times> nat) res" where
  "climb level [] = Inl AssertFail"
| "climb level ((bound, dnums) # rest) = (if level \<le> bound then Inr dnums else climb level rest)"

definition aggregation_1 :: ladder where
  "aggregation_1 =
    [(32, 1, 1), (42, 1, 2), (48, 1, 3), (51, 1, 4), (53, 1, 5), (54, 1, 6), (56, 1, 7), (56,
     1, 8), (57, 1, 9), (58, 1, 10), (59, 1, 12), (60, 1, 19), (61, 1, 30), (62, 1, 61), (63,
     1, 63)]"

definition aggregation_4_1 :: ladder where
  "aggregation_4_1 =
    [(13, 1, 1), (26, 1, 2), (39, 1, 3), (51, 1, 4), (53, 1, 5), (54, 1, 6), (56, 1, 7), (57,
     1, 9), (58, 1, 10), (59, 1, 12), (60, 1, 19), (61, 1, 30), (62, 1, 61), (63, 1, 63)]"

definition aggregation_4_2 :: ladder where
  "aggregation_4_2 =
    [(26, 2, 1), (51, 2, 2), (54, 2, 3), (56, 2, 4), (58, 2, 5), (59, 2, 6), (60, 2, 10),
     (61, 2, 15), (62, 2, 31), (63, 2, 32)]"

definition aggregation_4_4 :: ladder where
  "aggregation_4_4 =
    [(51, 4, 1), (56, 4, 2), (59, 4, 3), (60, 4, 5), (61, 4, 8), (63, 4, 16)]"

definition aggregation_2_1 :: ladder where
  "aggregation_2_1 =
    [(21, 1, 1), (42, 1, 2), (51, 1, 4), (53, 1, 5), (54, 1, 6), (56, 1, 7), (57, 1, 9), (58,
     1, 10), (59, 1, 12), (60, 1, 19), (61, 1, 30), (62, 1, 61), (63, 1, 63)]"

definition aggregation_2_2 :: ladder where
  "aggregation_2_2 =
    [(42, 2, 1), (51, 2, 2), (54, 2, 3), (56, 2, 4), (58, 2, 5), (59, 2, 6), (60, 2, 10),
     (61, 2, 15), (62, 2, 31), (63, 2, 32)]"

definition aggregation_8_1 :: ladder where
  "aggregation_8_1 =
    [(13, 1, 1), (26, 1, 2), (39, 1, 3), (51, 1, 4), (53, 1, 5), (54, 1, 6), (56, 1, 7), (57,
     1, 9), (58, 1, 10), (59, 1, 12), (60, 1, 19), (61, 1, 30), (62, 1, 61), (63, 1, 63)]"

definition aggregation_8_2 :: ladder where
  "aggregation_8_2 =
    [(26, 2, 1), (51, 2, 2), (56, 2, 4), (58, 2, 5), (59, 2, 6), (60, 2, 10), (61, 2, 15),
     (62, 2, 31), (63, 2, 32)]"

definition aggregation_8_4 :: ladder where
  "aggregation_8_4 =
    [(51, 4, 1), (56, 4, 2), (59, 4, 3), (60, 4, 5), (61, 4, 8), (63, 4, 16)]"

definition aggregation_8_8 :: ladder where
  "aggregation_8_8 =
    [(56, 8, 1), (59, 8, 2), (60, 8, 3), (61, 8, 4), (63, 8, 8)]"

definition aggregation_16_1 :: ladder where
  "aggregation_16_1 =
    [(13, 1, 1), (26, 1, 2), (39, 1, 3), (51, 1, 4), (53, 1, 5), (54, 1, 6), (56, 1, 7), (57,
     1, 9), (58, 1, 10), (59, 1, 12), (60, 1, 19), (61, 1, 30), (62, 1, 61), (63, 1, 63)]"

definition aggregation_16_2 :: ladder where
  "aggregation_16_2 =
    [(26, 2, 1), (51, 2, 2), (56, 2, 4), (58, 2, 5), (59, 2, 6), (60, 2, 10), (61, 2, 15),
     (62, 2, 31), (63, 2, 32)]"

definition aggregation_16_4 :: ladder where
  "aggregation_16_4 =
    [(51, 4, 1), (56, 4, 2), (59, 4, 3), (60, 4, 5), (61, 4, 8), (63, 4, 16)]"

definition aggregation_16_8 :: ladder where
  "aggregation_16_8 =
    [(56, 8, 1), (59, 8, 2), (60, 8, 3), (61, 8, 4), (63, 8, 8)]"

definition aggregation_16_16 :: ladder where
  "aggregation_16_16 =
    [(59, 16, 1), (61, 16, 2), (63, 16, 4)]"

definition aggregation_12_1 :: ladder where
  "aggregation_12_1 =
    [(13, 1, 1), (26, 1, 2), (39, 1, 3), (51, 1, 4), (53, 1, 5), (54, 1, 6), (56, 1, 7), (57,
     1, 9), (58, 1, 10), (59, 1, 12), (60, 1, 19), (61, 1, 30), (62, 1, 61), (63, 1, 63)]"

definition aggregation_12_2 :: ladder where
  "aggregation_12_2 =
    [(26, 2, 1), (51, 2, 2), (56, 2, 4), (58, 2, 5), (59, 2, 6), (60, 2, 10), (61, 2, 15),
     (62, 2, 31), (63, 2, 32)]"

definition aggregation_12_4 :: ladder where
  "aggregation_12_4 =
    [(51, 4, 1), (56, 4, 2), (59, 4, 3), (60, 4, 5), (61, 4, 8), (63, 4, 16)]"

definition aggregation_12_8 :: ladder where
  "aggregation_12_8 =
    [(56, 8, 1), (59, 8, 2), (60, 8, 3), (61, 8, 4), (63, 8, 8)]"

definition aggregation_12_12 :: ladder where
  "aggregation_12_12 =
    [(59, 12, 1), (60, 12, 2), (61, 12, 3), (63, 12, 6)]"

definition broadcast_1 :: ladder where
  "broadcast_1 =
    [(32, 1, 1), (42, 1, 2), (48, 1, 3), (51, 1, 4), (53, 1, 5), (54, 1, 6), (56, 1, 7), (57,
     1, 9), (58, 1, 10), (59, 1, 12), (60, 1, 19), (61, 1, 30), (62, 1, 61), (63, 1, 63)]"

definition broadcast_2 :: ladder where
  "broadcast_2 =
    [(32, 1, 1), (42, 1, 2), (48, 1, 3), (51, 1, 4), (53, 1, 5), (54, 1, 6), (56, 1, 7), (57,
     1, 9), (58, 1, 10), (59, 1, 12), (60, 1, 19), (61, 1, 30), (62, 1, 61), (63, 1, 63)]"

definition broadcast_4 :: ladder where
  "broadcast_4 =
    [(13, 1, 1), (26, 1, 2), (39, 1, 3), (51, 1, 4), (53, 1, 5), (54, 1, 6), (56, 1, 7), (56,
     1, 8), (57, 1, 9), (58, 1, 10), (59, 1, 12), (60, 1, 19), (61, 1, 30), (62, 1, 61), (63,
     1, 63)]"

definition broadcast_8 :: ladder where
  "broadcast_8 =
    [(13, 1, 1), (26, 1, 2), (39, 1, 3), (51, 1, 4), (53, 1, 5), (54, 1, 6), (56, 1, 7), (56,
     1, 8), (57, 1, 9), (58, 1, 10), (59, 1, 12), (60, 1, 19), (61, 1, 30), (62, 1, 61), (63,
     1, 63)]"

definition broadcast_12 :: ladder where
  "broadcast_12 =
    [(13, 1, 1), (26, 1, 2), (39, 1, 3), (51, 1, 4), (53, 1, 5), (54, 1, 6), (56, 1, 7), (56,
     1, 8), (57, 1, 9), (58, 1, 10), (59, 1, 12), (60, 1, 19), (61, 1, 30), (62, 1, 61), (63,
     1, 63)]"

definition get_keyswitch_dnum_aggregation_28bit :: "nat \<Rightarrow> nat \<Rightarrow> nat \<Rightarrow> (nat \<times> nat) res" where
  "get_keyswitch_dnum_aggregation_28bit level num_partitions current_partition_size =
     (if num_partitions = 1 then climb level aggregation_1
      else if num_partitions = 4 then (if current_partition_size = 1 then climb level aggregation_4_1
        else if current_partition_size = 2 then climb level aggregation_4_2
        else if current_partition_size = 4 then climb level aggregation_4_4
        else Inl AssertFail)
      else if num_partitions = 2 then (if current_partition_size = 1 then climb level aggregation_2_1
        else if current_partition_size = 2 then climb level aggregation_2_2
        else Inl AssertFail)
      else if num_partitions = 8 then (if current_partition_size = 1 then climb level aggregation_8_1
        else if current_partition_size = 2 then climb level aggregation_8_2
        else if current_partition_size = 4 then climb level aggregation_8_4
        else if current_partition_size = 8 then climb level aggregation_8_8
        else Inl AssertFail)
      else if num_partitions = 16 then (if current_partition_size = 1 then climb level aggregation_16_1
        else if current_partition_size = 2 then climb level aggregation_16_2
        else if current_partition_size = 4 then climb level aggregation_16_4
        else if current_partition_size = 8 then climb level aggregation_16_8
        else if current_partition_size = 16 then climb level aggregation_16_16
        else Inl AssertFail)
      else if num_partitions = 12 then (if current_partition_size = 1 then climb level aggregation_12_1
        else if current_partition_size = 2 then climb level aggregation_12_2
        else if current_partition_size = 4 then climb level aggregation_12_4
        else if current_partition_size = 8 then climb level aggregation_12_8
        else if current_partition_size = 12 then climb level aggregation_12_12
        else Inl AssertFail)
      else Inl AssertFail)"

definition get_keyswitch_dnum_broadcast_28bit :: "nat \<Rightarrow> nat \<Rightarrow> nat \<Rightarrow> (nat \<times> nat) res" where
  "get_keyswitch_dnum_broadcast_28bit level num_partitions current_partition_size =
     (if num_partitions = 1 then climb level broadcast_1
      else if num_partitions = 2 then climb level broadcast_2
      else if num_partitions = 4 then climb level broadcast_4
      else if num_partitions = 8 then climb level broadcast_8
      else if num_partitions = 12 then climb level broadcast_12
      else Inl AssertFail)"

datatype KeySwitchType = Broadcast | Aggregation | BasicParallel

definition get_keyswitch_dnum :: "nat \<Rightarrow> KeySwitchType \<Rightarrow> nat \<Rightarrow> nat \<Rightarrow> (nat \<times> nat) res" where
  "get_keyswitch_dnum level key_switch_type num_partitions current_partition_size =
     (case key_switch_type of
        Aggregation \<Rightarrow> get_keyswitch_dnum_aggregation_28bit level num_partitions current_partition_size
      | Broadcast \<Rightarrow> get_keyswitch_dnum_broadcast_28bit level num_partitions current_partition_size
      | BasicParallel \<Rightarrow> get_keyswitch_dnum_broadcast_28bit level num_partitions current_partition_size)"

section \<open>The digits\<close>

definition extension_size :: "nat \<Rightarrow> nat \<Rightarrow> nat \<Rightarrow> nat" where
  "extension_size level dnum_glo dnum_loc =
     (let split_size = level div dnum_loc;
          e = (if level mod dnum_loc \<noteq> 0 then split_size + 1 else split_size)
      in if e mod dnum_glo = 0 then e div dnum_glo else e div dnum_glo + 1)"

text \<open>\<open>for (i = first; i < n; i += step)\<close>\<close>

function strides :: "nat \<Rightarrow> nat \<Rightarrow> nat \<Rightarrow> nat list" where
  "strides first step n = (if first < n \<and> 0 < step then first # strides (first + step) step n else [])"
  by pat_completeness auto
termination strides
  by (relation "measure (\<lambda>(first, step, n). n - first)") auto

declare strides.simps [simp del]

text \<open>Aggregation: digits of consecutive limbs. The state is \<open>count\<close> and \<open>split\<close>.\<close>

definition contiguous_split :: "nat \<Rightarrow> nat \<Rightarrow> nat set list" where
  "contiguous_split level dnum_loc =
     snd (fold (\<lambda>ii (cnt, split).
         let split_size = level div dnum_loc;
             bound = (if ii < level mod dnum_loc then split_size + 1 else split_size)
         in (cnt + bound, split @ [set (List.map (\<lambda>i. cnt + i) [0..<bound])]))
       [0..<dnum_loc] (0, []))"

text \<open>
  Broadcast and the parallel algorithm: digit \<open>ii\<close> takes every \<open>dnum_loc\<close>-th limb, cut after
  \<open>extension_size\<close> limbs. The state of the inner loop is \<open>s\<close>, \<open>count\<close> and \<open>split\<close>.
\<close>

definition strided_push :: "nat \<Rightarrow> nat \<Rightarrow> nat set \<times> nat \<times> nat set list \<Rightarrow> nat set \<times> nat \<times> nat set list" where
  "strided_push ext l = (\<lambda>(s, cnt, split).
     if cnt + 1 = ext then ({}, 0, split @ [insert l s]) else (insert l s, cnt + 1, split))"

definition strided_split :: "nat \<Rightarrow> nat \<Rightarrow> nat \<Rightarrow> nat set list" where
  "strided_split level dnum_loc ext =
     fold (\<lambda>ii split.
         case fold (strided_push ext) (strides ii dnum_loc level) ({}, 0, split) of
           (s, cnt, split') \<Rightarrow> if s = {} then split' else split' @ [s])
       [0..<dnum_loc] []"

section \<open>The limbs of a polynomial\<close>

datatype LimbType = Spl | Com | Ext | ExC | Par | PaE | Usp | Ext_Split | Ext_Split2 | PaE_Split

text \<open>Limb \<open>i\<close> of the extension: \<open>63 - i\<close>, as a member of a set of 16-bit numbers and as an operand of \<open>%\<close>.\<close>

definition ext_limb :: "nat \<Rightarrow> nat" where
  "ext_limb i = nat ((63 - int i) mod 2 ^ 16)"

definition ext_residue :: "nat \<Rightarrow> nat \<Rightarrow> nat" where
  "ext_residue i partition_size = nat ((63 - int i) mod 2 ^ 64) mod partition_size"

definition extension_limbs :: "nat \<Rightarrow> (nat \<Rightarrow> bool) \<Rightarrow> nat set" where
  "extension_limbs ext keep = set (List.map ext_limb (List.filter keep [0..<ext]))"

definition ext_split_limbs :: "nat set \<Rightarrow> nat \<Rightarrow> bool \<Rightarrow> nat \<Rightarrow> nat \<Rightarrow> nat set res" where
  "ext_split_limbs shares ext interpret_from_shares partition_id partition_size =
     (let pid = partition_id mod partition_size in
      guardr (ext \<noteq> 0) AssertFail (guardr (partition_size \<noteq> 0) Undefined
        (if interpret_from_shares then
           (let has_complement = (\<exists>s \<in> shares. s mod partition_size \<noteq> pid);
                has_normal = (\<exists>s \<in> shares. s mod partition_size = pid)
            in guardr (has_normal \<or> has_complement) AssertFail
                 (Inr (extension_limbs ext (\<lambda>i. has_normal \<and> ext_residue i partition_size = pid \<or>
                         has_complement \<and> ext_residue i partition_size \<noteq> pid))))
         else Inr (extension_limbs ext (\<lambda>i. ext_residue i partition_size = pid)))))"

definition set_limbs_from_termshare ::
  "LimbType \<Rightarrow> nat \<Rightarrow> nat set \<Rightarrow> nat \<Rightarrow> bool \<Rightarrow> nat \<Rightarrow> nat \<Rightarrow> nat set res" where
  "set_limbs_from_termshare limbtype level shares ext interpret_from_shares partition_id partition_size =
     (let all = set [0..<level];
          own = set (strides (partition_id mod partition_size) partition_size level)
      in if shares = {} then Inr {}
         else case limbtype of
           Spl \<Rightarrow> Inr shares
         | Usp \<Rightarrow> Inr all
         | ExC \<Rightarrow> guardr (card shares \<le> ext) AssertFail
                    (Inr (all \<union> extension_limbs ext (\<lambda>_. True) - shares))
         | Par \<Rightarrow> guardr (partition_size \<noteq> 0) Undefined (Inr own)
         | PaE \<Rightarrow> guardr (partition_size \<noteq> 0) Undefined (guardr (card shares \<le> ext) AssertFail
                    (Inr (own \<union> extension_limbs ext (\<lambda>_. True) - shares)))
         | Com \<Rightarrow> Inr (all - shares)
         | Ext \<Rightarrow> guardr (ext \<noteq> 0) AssertFail (Inr (extension_limbs ext (\<lambda>_. True)))
         | PaE_Split \<Rightarrow> guardr (partition_size \<noteq> 0) Undefined (guardr (card shares \<le> ext) AssertFail
                    (Inr (own \<union> extension_limbs ext (\<lambda>i. ext_residue i partition_size =
                            partition_id mod partition_size) - shares)))
         | Ext_Split \<Rightarrow> ext_split_limbs shares ext interpret_from_shares partition_id partition_size
         | Ext_Split2 \<Rightarrow> ext_split_limbs shares ext interpret_from_shares partition_id partition_size)"

end
