(* ===== verification/KeySwitchProperties.thy ===== *)
theory KeySwitchProperties
  imports KeySwitch
begin

text \<open>
  What the compiler's choice of key switching bases guarantees: every rung of the digit tables fits the
  64 limbs there are, the digits partition the limbs of the level, no chip's share of a digit exceeds the
  extension, and the bases a digit is raised to are divided among the chips without loss or overlap.
\<close>

section \<open>Rounding up\<close>

definition ceil_div :: "nat \<Rightarrow> nat \<Rightarrow> nat" where
  "ceil_div a b = (if a mod b = 0 then a div b else a div b + 1)"

lemma ceil_div_le: "0 < b \<Longrightarrow> ceil_div a b \<le> k \<longleftrightarrow> a \<le> k * b"
proof -
  assume b: "0 < b"
  have a: "a = a div b * b + a mod b" by simp
  have "a mod b < b" using b by simp
  show ?thesis
  proof (cases "a mod b = 0")
    case True
    then have "a = a div b * b" using a by simp
    then have "a \<le> k * b \<longleftrightarrow> a div b \<le> k" using b by (metis mult_le_cancel2)
    with True show ?thesis by (simp add: ceil_div_def)
  next
    case False
    have "a div b + 1 \<le> k \<longleftrightarrow> a \<le> k * b"
    proof
      assume "a div b + 1 \<le> k"
      then have "(a div b + 1) * b \<le> k * b" by (rule mult_le_mono1)
      then have "a div b * b + b \<le> k * b" by simp
      with a \<open>a mod b < b\<close> show "a \<le> k * b" by linarith
    next
      assume "a \<le> k * b"
      then have "a div b * b < k * b" using a False by linarith
      then show "a div b + 1 \<le> k" using b by simp
    qed
    with False show ?thesis by (simp add: ceil_div_def)
  qed
qed

lemma extension_size_ceil: "extension_size level g l = ceil_div (ceil_div level l) g"
  by (simp add: extension_size_def ceil_div_def Let_def)

lemma extension_size_le:
  "0 < g \<Longrightarrow> 0 < l \<Longrightarrow> extension_size level g l \<le> k \<longleftrightarrow> level \<le> k * g * l"
  by (simp add: extension_size_ceil ceil_div_le)

text \<open>So it bounds a digit: \<open>dnum_glo\<close> extensions are at least a digit.\<close>

lemma digit_le: "0 < g \<Longrightarrow> ceil_div level l \<le> extension_size level g l * g"
  using ceil_div_le [of g "ceil_div level l" "extension_size level g l"] by (simp add: extension_size_ceil)

section \<open>Every rung of the tables fits\<close>

definition rung_ok :: "nat \<times> nat \<times> nat \<Rightarrow> bool" where
  "rung_ok = (\<lambda>(bound, g, l). 0 < g \<and> 0 < l \<and> bound \<le> (64 - bound) * g * l \<and> bound \<le> 64)"

lemma climb_result:
  "climb level ladder = Inr (g, l) \<Longrightarrow> \<exists>bound. level \<le> bound \<and> (bound, g, l) \<in> set ladder"
  by (induction ladder) (auto split: if_splits)

lemma climb_total: "(b, d) \<in> set ladder \<Longrightarrow> level \<le> b \<Longrightarrow> \<exists>g l. climb level ladder = Inr (g, l)"
  by (induction ladder) auto

lemma rung_fits:
  assumes "climb level ladder = Inr (g, l)" "list_all rung_ok ladder"
  shows "0 < g" "0 < l" "level + extension_size level g l \<le> 64"
proof -
  obtain bound where b: "level \<le> bound" "(bound, g, l) \<in> set ladder" using climb_result [OF assms(1)] by blast
  then have r: "0 < g" "0 < l" "bound \<le> (64 - bound) * g * l" "bound \<le> 64"
    using assms(2) by (auto simp: list_all_iff rung_ok_def)
  then show "0 < g" "0 < l" by simp_all
  have "(64 - bound) * g * l \<le> (64 - level) * g * l" using b(1) by (intro mult_le_mono1) simp
  then have "level \<le> (64 - level) * g * l" using b(1) r(3) by linarith
  then have "extension_size level g l \<le> 64 - level" using r(1,2) by (simp add: extension_size_le)
  then show "level + extension_size level g l \<le> 64" using b(1) r(4) by linarith
qed

lemmas aggregation_ladders = aggregation_1_def aggregation_2_1_def aggregation_2_2_def aggregation_4_1_def
  aggregation_4_2_def aggregation_4_4_def aggregation_8_1_def aggregation_8_2_def aggregation_8_4_def
  aggregation_8_8_def aggregation_12_1_def aggregation_12_2_def aggregation_12_4_def aggregation_12_8_def
  aggregation_12_12_def aggregation_16_1_def aggregation_16_2_def aggregation_16_4_def
  aggregation_16_8_def aggregation_16_16_def

lemmas broadcast_ladders = broadcast_1_def broadcast_2_def broadcast_4_def broadcast_8_def broadcast_12_def

definition ladder_ok :: "nat \<Rightarrow> ladder \<Rightarrow> bool" where
  "ladder_ok glo ladder \<longleftrightarrow> list_all rung_ok ladder \<and> (\<forall>(b, g, l) \<in> set ladder. g = glo) \<and> (\<exists>d. (63, d) \<in> set ladder)"

lemma ladders_ok:
  "ladder_ok 1 aggregation_1" "ladder_ok 1 aggregation_2_1" "ladder_ok 2 aggregation_2_2"
  "ladder_ok 1 aggregation_4_1" "ladder_ok 2 aggregation_4_2" "ladder_ok 4 aggregation_4_4"
  "ladder_ok 1 aggregation_8_1" "ladder_ok 2 aggregation_8_2" "ladder_ok 4 aggregation_8_4"
  "ladder_ok 8 aggregation_8_8" "ladder_ok 1 aggregation_12_1" "ladder_ok 2 aggregation_12_2"
  "ladder_ok 4 aggregation_12_4" "ladder_ok 8 aggregation_12_8" "ladder_ok 12 aggregation_12_12"
  "ladder_ok 1 aggregation_16_1" "ladder_ok 2 aggregation_16_2" "ladder_ok 4 aggregation_16_4"
  "ladder_ok 8 aggregation_16_8" "ladder_ok 16 aggregation_16_16"
  "ladder_ok 1 broadcast_1" "ladder_ok 1 broadcast_2" "ladder_ok 1 broadcast_4" "ladder_ok 1 broadcast_8"
  "ladder_ok 1 broadcast_12"
  by (simp_all add: ladder_ok_def rung_ok_def aggregation_ladders broadcast_ladders)

definition fits :: "nat \<Rightarrow> nat \<Rightarrow> (nat \<times> nat) res \<Rightarrow> bool" where
  "fits level g r \<longleftrightarrow> (\<exists>l. r = Inr (g, l) \<and> 0 < g \<and> 0 < l \<and> level + extension_size level g l \<le> 64)"

lemma ladder_fits:
  assumes "ladder_ok glo ladder" "level \<le> 63"
  shows "fits level glo (climb level ladder)"
proof -
  obtain d where "(63, d) \<in> set ladder" using assms(1) by (auto simp: ladder_ok_def)
  then obtain g l where c: "climb level ladder = Inr (g, l)" using climb_total assms(2) by blast
  moreover have "g = glo" using climb_result [OF c] assms(1) by (auto simp: ladder_ok_def)
  ultimately show ?thesis using rung_fits [OF c] assms(1) by (auto simp: ladder_ok_def fits_def)
qed

text \<open>The numbers of chips the tables know.\<close>

definition configured :: "KeySwitchType \<Rightarrow> nat \<Rightarrow> nat \<Rightarrow> bool" where
  "configured kind n cps \<longleftrightarrow>
     (if kind = Aggregation
      then n = 1 \<and> cps = 1 \<or> n \<in> {2, 4, 8, 16} \<and> cps \<in> {1, 2, 4, 8, 16} \<and> cps \<le> n \<or>
           n = 12 \<and> cps \<in> {1, 2, 4, 8, 12}
      else n \<in> {1, 2, 4, 8, 12})"

lemma dnum_fits:
  assumes "level \<le> 63" "configured kind n cps"
  shows "fits level (if kind = Aggregation then cps else 1) (get_keyswitch_dnum level kind n cps)"
proof -
  note f = ladders_ok [THEN ladder_fits, OF assms(1)]
  show ?thesis
  proof (cases "kind = Aggregation")
    case True
    then have "n = 1 \<and> cps = 1 \<or> n = 2 \<and> cps \<in> {1, 2} \<or> n = 4 \<and> cps \<in> {1, 2, 4} \<or>
        n = 8 \<and> cps \<in> {1, 2, 4, 8} \<or> n = 16 \<and> cps \<in> {1, 2, 4, 8, 16} \<or> n = 12 \<and> cps \<in> {1, 2, 4, 8, 12}"
      using assms(2) by (auto simp: configured_def)
    then have "fits level cps (get_keyswitch_dnum_aggregation_28bit level n cps)"
      unfolding get_keyswitch_dnum_aggregation_28bit_def by (elim disjE conjE insertE emptyE) (simp_all add: f del: One_nat_def)
    with True show ?thesis by (simp add: get_keyswitch_dnum_def)
  next
    case False
    then have "n \<in> {1, 2, 4, 8, 12}" using assms(2) by (simp add: configured_def)
    then have "fits level 1 (get_keyswitch_dnum_broadcast_28bit level n cps)"
      unfolding get_keyswitch_dnum_broadcast_28bit_def by (elim insertE emptyE) (simp_all add: f del: One_nat_def)
    with False show ?thesis by (cases kind) (simp_all add: get_keyswitch_dnum_def)
  qed
qed

section \<open>The digits partition the limbs\<close>

lemma residues_of_interval:
  assumes "0 < g"
  shows "card {x \<in> {a..<a + m}. x mod g = c} \<le> ceil_div m g"
proof -
  let ?S = "{x \<in> {a..<a + m}. x mod g = c}" and ?f = "\<lambda>x. (x - a) div g"
  have "inj_on ?f ?S"
  proof (rule inj_onI)
    have main: False if "x < y" "x mod g = y mod g" "(x - a) div g = (y - a) div g" "a \<le> x" for x y
    proof -
      have "g dvd y - x" using that(1,2) by (metis mod_eq_dvd_iff_nat less_imp_le)
      then have "g \<le> y - x" using that(1) by (intro dvd_imp_le) simp_all
      then have "x - a + g \<le> y - a" using that(1,4) by linarith
      then have "(x - a + g) div g \<le> (y - a) div g" by (rule div_le_mono)
      moreover have "(x - a + g) div g = (x - a) div g + 1" using assms div_add_self2 [of g "x - a"] by (simp only: neq0_conv)
      ultimately show False using that(3) by linarith
    qed
    fix x y assume "x \<in> ?S" "y \<in> ?S" "?f x = ?f y"
    then show "x = y" using main [of x y] main [of y x] by (cases x y rule: linorder_cases) auto
  qed
  moreover have "?f ` ?S \<subseteq> {..<ceil_div m g}"
  proof
    fix k assume "k \<in> ?f ` ?S"
    then obtain x where x: "k = (x - a) div g" "a \<le> x" "x < a + m" by auto
    have "m \<le> ceil_div m g * g" using ceil_div_le [OF assms] by blast
    then have "x - a < ceil_div m g * g" using x by linarith
    then show "k \<in> {..<ceil_div m g}" using assms by (simp add: x(1) less_mult_imp_div_less)
  qed
  ultimately have "card ?S \<le> card {..<ceil_div m g}" by (intro card_inj_on_le) auto
  then show ?thesis by simp
qed

text \<open>The start of digit \<open>i\<close>.\<close>

definition digit_start :: "nat \<Rightarrow> nat \<Rightarrow> nat \<Rightarrow> nat" where
  "digit_start level l i = i * (level div l) + min i (level mod l)"

lemma contiguous_digits:
  "contiguous_split level l = List.map (\<lambda>i. {digit_start level l i..<digit_start level l (Suc i)}) [0..<l]"
proof -
  let ?step = "\<lambda>ii (cnt, split).
         let split_size = level div l;
             bound = (if ii < level mod l then split_size + 1 else split_size)
         in (cnt + bound, split @ [set (List.map (\<lambda>i. cnt + i) [0..<bound])])"
  have "fold ?step [0..<m] (0, []) =
      (digit_start level l m, List.map (\<lambda>i. {digit_start level l i..<digit_start level l (Suc i)}) [0..<m])" for m
  proof (induction m)
    case (Suc m)
    have s: "digit_start level l (Suc m) =
        digit_start level l m + (if m < level mod l then level div l + 1 else level div l)"
      by (auto simp: digit_start_def)
    have "set (List.map (\<lambda>i. c + i) [0..<b]) = {c..<c + b}" for c b :: nat
      by (auto simp: image_iff intro: le_Suc_ex)
    with Suc show ?case by (simp add: Let_def s)
  qed (simp add: digit_start_def)
  then show ?thesis by (simp add: contiguous_split_def)
qed

lemma digit_start_mono: "i \<le> j \<Longrightarrow> digit_start level l i \<le> digit_start level l j"
  unfolding digit_start_def by (intro add_mono mult_le_mono) auto

lemma digit_start_end: "0 < l \<Longrightarrow> digit_start level l l = level"
  using mod_less_divisor [of l level] by (simp add: digit_start_def min_absorb2 less_imp_le)

lemma digit_width: "digit_start level l (Suc i) - digit_start level l i \<le> ceil_div level l"
  by (auto simp: digit_start_def ceil_div_def)

lemma contiguous_partition:
  assumes "0 < g" "0 < l"
  shows "length (contiguous_split level l) = l" "\<Union> (set (contiguous_split level l)) = {..<level}"
    "\<And>i j. i < j \<Longrightarrow> j < l \<Longrightarrow> contiguous_split level l ! i \<inter> contiguous_split level l ! j = {}"
    "\<And>d. d \<in> set (contiguous_split level l) \<Longrightarrow> card {x \<in> d. x mod g = c} \<le> extension_size level g l"
proof -
  let ?b = "digit_start level l"
  show "length (contiguous_split level l) = l" by (simp add: contiguous_digits)
  have "(\<Union>i<m. {?b i..<?b (Suc i)}) = {..<?b m}" for m
  proof (induction m)
    case (Suc m)
    have "?b m \<le> ?b (Suc m)" by (rule digit_start_mono) simp
    with Suc show ?case by (auto simp: lessThan_Suc)
  qed (simp add: digit_start_def)
  then show "\<Union> (set (contiguous_split level l)) = {..<level}"
    by (simp add: contiguous_digits digit_start_end [OF assms(2)] atLeast_upt)
  show "contiguous_split level l ! i \<inter> contiguous_split level l ! j = {}" if "i < j" "j < l" for i j
    using that digit_start_mono [of "Suc i" j level l] by (simp add: contiguous_digits)
  show "card {x \<in> d. x mod g = c} \<le> extension_size level g l" if d: "d \<in> set (contiguous_split level l)" for d
  proof -
    obtain i where i: "d = {?b i..<?b (Suc i)}" using d by (auto simp: contiguous_digits)
    define m where "m = ?b (Suc i) - ?b i"
    have "?b i \<le> ?b (Suc i)" by (rule digit_start_mono) simp
    then have "d = {?b i..<?b i + m}" by (simp add: i m_def)
    then have "card {x \<in> d. x mod g = c} \<le> ceil_div m g" using residues_of_interval [OF assms(1)] by simp
    moreover have "m \<le> ceil_div level l" unfolding m_def by (rule digit_width)
    then have "m \<le> extension_size level g l * g" using digit_le [OF assms(1), of level l] by linarith
    then have "ceil_div m g \<le> extension_size level g l" using assms(1) by (simp add: ceil_div_le)
    ultimately show ?thesis by linarith
  qed
qed

lemma strides_set: "0 < step \<Longrightarrow> set (strides first step n) = {x. first \<le> x \<and> x < n \<and> x mod step = first mod step}"
proof (induction first step n rule: strides.induct)
  case (1 first step n)
  show ?case
  proof (cases "first < n")
    case True
    have "x = first \<or> first + step \<le> x" if "first \<le> x" "x mod step = first mod step" for x
    proof (cases "x = first")
      case False
      then have "step dvd x - first" using that by (metis mod_eq_dvd_iff_nat)
      then have "step \<le> x - first" using False that(1) by (intro dvd_imp_le) simp_all
      then show ?thesis using that(1) by linarith
    qed simp
    then show ?thesis using True 1 by (subst strides.simps) auto
  qed (subst strides.simps, auto)
qed

lemma strides_distinct: "distinct (strides first step n)"
proof (induction first step n rule: strides.induct)
  case (1 first step n)
  show ?case
  proof (cases "first < n \<and> 0 < step")
    case True
    then have "first \<notin> set (strides (first + step) step n)" by (simp add: strides_set)
    with 1 True show ?thesis by (subst strides.simps) simp
  qed (subst strides.simps, auto)
qed

lemma pushes:
  assumes "distinct (ys @ xs)" "length (ys @ xs) \<le> ext" "length ys < ext"
  shows "fold (strided_push ext) xs (set ys, length ys, sp) =
    (if length (ys @ xs) = ext then ({}, 0, sp @ [set (ys @ xs)]) else (set (ys @ xs), length (ys @ xs), sp))"
  using assms
proof (induction xs arbitrary: ys)
  case (Cons x xs)
  show ?case
  proof (cases "length ys + 1 = ext")
    case True
    then have "xs = []" using Cons.prems(2) by (cases xs) auto
    with True show ?thesis by (simp add: strided_push_def)
  next
    case False
    with Cons.IH [of "ys @ [x]"] Cons.prems show ?thesis
      by (simp add: strided_push_def insert_commute)
  qed
qed simp

lemma stride_length:
  assumes "0 < l" "ii < l"
  shows "length (strides ii l level) \<le> ceil_div level l"
proof -
  have "set (strides ii l level) = {x \<in> {0..<0 + level}. x mod l = ii}" using assms by (auto simp: strides_set)
  then have "card (set (strides ii l level)) \<le> ceil_div level l"
    using residues_of_interval [OF assms(1), of 0 level ii] by simp
  then show ?thesis by (simp add: distinct_card strides_distinct)
qed

lemma strided_step:
  assumes "0 < l" "ii < l" "e = ceil_div level l"
  shows "(case fold (strided_push e) (strides ii l level) ({}, 0, sp) of
      (s, cnt, split') \<Rightarrow> if s = {} then split' else split' @ [s]) =
      (if ii < level then sp @ [{x. x < level \<and> x mod l = ii}] else sp)"
proof (cases "ii < level")
  case True
  then have ne: "strides ii l level \<noteq> []" using assms by (subst strides.simps) simp
  have le: "length (strides ii l level) \<le> e" using stride_length [OF assms(1,2)] assms(3) by simp
  then have "0 < e" using ne by (cases "strides ii l level") simp_all
  moreover have s: "set (strides ii l level) = {x. x < level \<and> x mod l = ii}"
    using assms by (auto simp: strides_set)
  moreover have "{x. x < level \<and> x mod l = ii} \<noteq> {}" using ne unfolding s [symmetric] by simp
  ultimately show ?thesis
    using pushes [of "[]" "strides ii l level" e sp] strides_distinct [of ii l level] le ne True by auto
qed (subst strides.simps, simp)

lemma strided_digits:
  assumes "0 < l"
  shows "strided_split level l (extension_size level 1 l) =
    List.map (\<lambda>ii. {x. x < level \<and> x mod l = ii}) (List.filter (\<lambda>ii. ii < level) [0..<l])"
proof -
  define e where "e = extension_size level 1 l"
  have e: "e = ceil_div level l" unfolding e_def by (simp add: extension_size_ceil ceil_div_def)
  note step = strided_step [OF assms _ e]
  have "fold (\<lambda>ii split.
         case fold (strided_push e) (strides ii l level) ({}, 0, split) of
           (s, cnt, split') \<Rightarrow> if s = {} then split' else split' @ [s]) [0..<m] [] =
      List.map (\<lambda>ii. {x. x < level \<and> x mod l = ii}) (List.filter (\<lambda>ii. ii < level) [0..<m])" if "m \<le> l" for m
    using that by (induction m) (simp_all add: step)
  then show ?thesis unfolding strided_split_def e_def by simp
qed

lemma strided_partition:
  fixes level l :: nat
  assumes "0 < l"
  and sp_def: "sp = strided_split level l (extension_size level 1 l)"
  shows "length sp \<le> l" "\<Union> (set sp) = {..<level}"
    "\<And>i j. i < j \<Longrightarrow> j < length sp \<Longrightarrow> sp ! i \<inter> sp ! j = {}"
    "\<And>d. d \<in> set sp \<Longrightarrow> card d \<le> extension_size level 1 l"
proof -
  let ?f = "List.filter (\<lambda>ii. ii < level) [0..<l]"
  have sp: "sp = List.map (\<lambda>ii. {x. x < level \<and> x mod l = ii}) ?f"
    unfolding sp_def by (rule strided_digits [OF assms(1)])
  show "length sp \<le> l" unfolding sp using length_filter_le [of _ "[0..<l]"] by simp
  have "x mod l < level" if "x < level" for x using that mod_less_eq_dividend [of x l] by linarith
  then show "\<Union> (set sp) = {..<level}" unfolding sp using assms(1) by (auto simp: image_iff)
  show "sp ! i \<inter> sp ! j = {}" if "i < j" "j < length sp" for i j
  proof -
    have "?f ! i \<noteq> ?f ! j" using that distinct_filter [of "[0..<l]"] by (simp add: sp nth_eq_iff_index_eq)
    then show ?thesis using that by (auto simp: sp)
  qed
  show "card d \<le> extension_size level 1 l" if d: "d \<in> set sp" for d
  proof -
    obtain ii where ii: "ii < l" "d = {x. x < level \<and> x mod l = ii}" using d by (auto simp: sp)
    then have "d = {x \<in> {0..<0 + level}. x mod l = ii}" by auto
    then have "card d \<le> ceil_div level l" using residues_of_interval [OF assms(1), of 0 level ii] by simp
    then show ?thesis by (simp add: extension_size_ceil ceil_div_def)
  qed
qed


section \<open>The raised basis\<close>

lemma ext_limb_small: "i \<le> 63 \<Longrightarrow> ext_limb i = 63 - i"
  by (simp add: ext_limb_def nat_diff_distrib)

lemma ext_residue_small: "i \<le> 63 \<Longrightarrow> ext_residue i n = (63 - i) mod n"
  by (simp add: ext_residue_def nat_diff_distrib)

lemma extension_limbs_eq:
  assumes "ext \<le> 64"
  shows "extension_limbs ext keep = {x. 64 - ext \<le> x \<and> x < 64 \<and> keep (63 - x)}"
proof -
  have "extension_limbs ext keep = {63 - i | i. i < ext \<and> keep i}"
    using assms by (auto simp: extension_limbs_def ext_limb_small image_iff)
  also have "\<dots> = {x. 64 - ext \<le> x \<and> x < 64 \<and> keep (63 - x)}"
  proof (intro set_eqI iffI)
    fix x assume "x \<in> {63 - i | i. i < ext \<and> keep i}"
    then obtain i where i: "x = 63 - i" "i < ext" "keep i" by blast
    then have "63 - x = i" using assms by linarith
    with i assms show "x \<in> {x. 64 - ext \<le> x \<and> x < 64 \<and> keep (63 - x)}" by auto
  next
    fix x assume "x \<in> {x. 64 - ext \<le> x \<and> x < 64 \<and> keep (63 - x)}"
    then have x: "64 - ext \<le> x" "x < 64" "keep (63 - x)" by auto
    then have "63 - x < ext" using assms by linarith
    moreover have "x = 63 - (63 - x)" using x(2) by linarith
    ultimately show "x \<in> {63 - i | i. i < ext \<and> keep i}" using x(3) by blast
  qed
  finally show ?thesis .
qed

text \<open>The limbs a digit is raised to, and those of them that chip \<open>pid\<close> of \<open>n\<close> holds.\<close>

definition raised :: "nat \<Rightarrow> nat set \<Rightarrow> nat \<Rightarrow> nat set" where
  "raised level shares ext = ({..<level} - shares) \<union> {64 - ext..<64}"

lemma ExC_raised:
  assumes "shares \<noteq> {}" "shares \<subseteq> {..<level}" "card shares \<le> ext" "level + ext \<le> 64"
  shows "set_limbs_from_termshare ExC level shares ext interp pid n = Inr (raised level shares ext)"
proof -
  have "{64 - ext..<64} \<inter> shares = {}" using assms(2,4) by auto
  then have "{..<level} \<union> {64 - ext..<64} - shares = raised level shares ext" by (auto simp: raised_def)
  moreover have "extension_limbs ext (\<lambda>_. True) = {64 - ext..<64}" using assms(4) by (auto simp: extension_limbs_eq)
  ultimately show ?thesis using assms(1,3)
    by (simp add: set_limbs_from_termshare_def guardr_def atLeast_upt)
qed

lemma raised_card:
  assumes "shares \<subseteq> {..<level}" "level + ext \<le> 64"
  shows "card (raised level shares ext) + card shares = level + ext"
proof -
  have "({..<level} - shares) \<inter> {64 - ext..<64} = {}" using assms by auto
  moreover have "finite shares" using assms(1) finite_subset by blast
  moreover have "card shares \<le> level" using card_mono [OF _ assms(1)] by simp
  ultimately show ?thesis using assms
    by (simp add: raised_def card_Un_disjoint card_Diff_subset)
qed

lemma own_limbs:
  assumes "0 < n"
  shows "set (strides (pid mod n) n level) = {x. x < level \<and> x mod n = pid mod n}"
proof -
  have "pid mod n \<le> x" if "x mod n = pid mod n" for x using that mod_less_eq_dividend [of x n] by simp
  then show ?thesis using assms by (auto simp: strides_set)
qed

lemma PaE_Split_raised:
  assumes "shares \<noteq> {}" "shares \<subseteq> {..<level}" "card shares \<le> ext" "level + ext \<le> 64" "0 < n"
  shows "set_limbs_from_termshare PaE_Split level shares ext interp pid n =
    Inr {x \<in> raised level shares ext. x mod n = pid mod n}"
proof -
  have "extension_limbs ext (\<lambda>i. ext_residue i n = pid mod n) = {x \<in> {64 - ext..<64}. x mod n = pid mod n}"
    using assms(4) by (auto simp: extension_limbs_eq ext_residue_small)
  moreover have "{64 - ext..<64} \<inter> shares = {}" using assms(2,4) by auto
  ultimately show ?thesis using assms(1,3,5)
    by (auto simp: set_limbs_from_termshare_def guardr_def own_limbs raised_def)
qed

section \<open>The digits of a key switch\<close>

text \<open>What a table entry, its extension and its digits have to be; \<open>g\<close> chips share a digit.\<close>

definition key_digits :: "KeySwitchType \<Rightarrow> nat \<Rightarrow> nat \<Rightarrow> nat \<Rightarrow> nat set list" where
  "key_digits kind level g l =
     (if kind = Aggregation then contiguous_split level l else strided_split level l (extension_size level g l))"

definition partition_of :: "nat \<Rightarrow> nat set list \<Rightarrow> bool" where
  "partition_of level ds \<longleftrightarrow> \<Union> (set ds) = {..<level} \<and> (\<forall>i j. i < j \<and> j < length ds \<longrightarrow> ds ! i \<inter> ds ! j = {})"

definition share :: "nat \<Rightarrow> nat \<Rightarrow> nat set \<Rightarrow> nat set" where
  "share n pid d = {x \<in> d. x mod n = pid mod n}"

lemma digits_of_entry:
  assumes "0 < g" "0 < l" "kind \<noteq> Aggregation \<Longrightarrow> g = 1"
  shows "length (key_digits kind level g l) \<le> l" "partition_of level (key_digits kind level g l)"
    "d \<in> set (key_digits kind level g l) \<Longrightarrow> card (share g pid d) \<le> extension_size level g l"
proof -
  show "length (key_digits kind level g l) \<le> l" "partition_of level (key_digits kind level g l)"
    using contiguous_partition [OF assms(1,2), where level = level]
      strided_partition [OF assms(2) refl, where level = level] assms(3)
    by (auto simp: key_digits_def partition_of_def)
  show "card (share g pid d) \<le> extension_size level g l" if "d \<in> set (key_digits kind level g l)"
    using contiguous_partition(4) [OF assms(1,2), where d = d and level = level and c = "pid mod g"]
      strided_partition(4) [OF assms(2) refl, where d = d and level = level] assms(3) that
    by (auto simp: key_digits_def share_def split: if_splits)
qed

text \<open>
  C10. For every number of chips the tables know and every level up to 63, the number of digits is
  found, is positive, and leaves room: the level and its extension together are at most 64 limbs.
\<close>

theorem digits_fit:
  assumes "level \<le> 63" "configured kind n cps"
  shows "\<exists>dnum_glo dnum_loc. get_keyswitch_dnum level kind n cps = Inr (dnum_glo, dnum_loc) \<and>
    0 < dnum_glo \<and> 0 < dnum_loc \<and> level + extension_size level dnum_glo dnum_loc \<le> 64"
  using dnum_fits [OF assms] unfolding fits_def by blast

text \<open>
  C11. The digits of a key switch are at most as many as the table says, are disjoint and cover
  the limbs of the level, and the limbs of a digit that one chip of a group holds are never more
  than the extension.
\<close>

theorem digits_partition:
  assumes "level \<le> 63" "configured kind n cps"
    and "get_keyswitch_dnum level kind n cps = Inr (dnum_glo, dnum_loc)"
    and "digits = (if kind = Aggregation then contiguous_split level dnum_loc
                   else strided_split level dnum_loc (extension_size level dnum_glo dnum_loc))"
  shows "length digits \<le> dnum_loc \<and> \<Union> (set digits) = {..<level} \<and>
    (\<forall>i j. i < j \<and> j < length digits \<longrightarrow> digits ! i \<inter> digits ! j = {}) \<and>
    (\<forall>d \<in> set digits. \<forall>pid. card {x \<in> d. x mod dnum_glo = pid mod dnum_glo} \<le> extension_size level dnum_glo dnum_loc)"
proof -
  have g: "0 < dnum_glo" "0 < dnum_loc" "kind \<noteq> Aggregation \<Longrightarrow> dnum_glo = 1"
    using dnum_fits [OF assms(1,2)] assms(3) by (auto simp: fits_def)
  have "digits = key_digits kind level dnum_glo dnum_loc" using assms(4) by (simp add: key_digits_def)
  then show ?thesis using digits_of_entry [OF g, where level = level] by (simp add: partition_of_def share_def)
qed

text \<open>
  C12. A chip's part of a digit is raised to the other limbs of the level and the whole extension:
  no assertion fails, none is counted twice, and the split form gives each chip exactly the limbs
  of its residue.
\<close>

theorem raised_digit:
  assumes "level \<le> 63" "configured kind n cps"
    and "get_keyswitch_dnum level kind n cps = Inr (dnum_glo, dnum_loc)"
    and "ext = extension_size level dnum_glo dnum_loc"
    and "digit \<in> set (if kind = Aggregation then contiguous_split level dnum_loc
                     else strided_split level dnum_loc ext)"
    and "own = {x \<in> digit. x mod dnum_glo = pid mod dnum_glo}" "own \<noteq> {}" "0 < chips"
  shows "\<exists>basis. set_limbs_from_termshare ExC level own ext interp pid chips = Inr basis \<and>
    card basis + card own = level + ext \<and> basis \<inter> own = {} \<and> {..<level} - own \<subseteq> basis \<and>
    (\<forall>chip. set_limbs_from_termshare PaE_Split level own ext interp chip chips =
             Inr {x \<in> basis. x mod chips = chip mod chips})"
proof -
  have g: "0 < dnum_glo" "0 < dnum_loc" "kind \<noteq> Aggregation \<Longrightarrow> dnum_glo = 1" and e: "level + ext \<le> 64"
    using dnum_fits [OF assms(1,2)] assms(3,4) by (auto simp: fits_def)
  have d: "digit \<in> set (key_digits kind level dnum_glo dnum_loc)" using assms(5) by (simp add: key_digits_def assms(4) split: if_splits)
  then have "digit \<subseteq> {..<level}" using digits_of_entry(2) [OF g, where level = level and kind = kind] by (auto simp: partition_of_def)
  then have s: "own \<subseteq> {..<level}" using assms(6) by blast
  have c: "card own \<le> ext" using digits_of_entry(3) [OF g d, where pid = pid] assms(4,6) by (simp add: share_def)
  have "raised level own ext \<inter> own = {}" using s e by (auto simp: raised_def)
  then show ?thesis
    using ExC_raised [OF assms(7) s c e] PaE_Split_raised [OF assms(7) s c e assms(8)] raised_card [OF s e]
    by (auto simp: raised_def)
qed

text \<open>Level 20 on four chips, in groups of two: two digits of ten limbs and five limbs of extension.\<close>

lemma aggregation_20: "get_keyswitch_dnum 20 Aggregation 4 2 = Inr (2, 1)"
  by (simp add: get_keyswitch_dnum_def get_keyswitch_dnum_aggregation_28bit_def aggregation_4_2_def)

lemma configured_4_2: "configured Aggregation 4 2" by (simp add: configured_def)

theorem digits_fit_witness:
  "\<exists>dnum_glo dnum_loc. get_keyswitch_dnum 20 Aggregation 4 2 = Inr (dnum_glo, dnum_loc) \<and>
    0 < dnum_glo \<and> 0 < dnum_loc \<and> 20 + extension_size 20 dnum_glo dnum_loc \<le> 64"
  by (rule digits_fit [OF _ configured_4_2]) simp

theorem digits_partition_witness: "\<Union> (set (contiguous_split 20 1)) = {..<20}"
  using digits_partition [OF _ configured_4_2 aggregation_20 refl] by simp

theorem raised_digit_witness:
  "\<exists>basis. set_limbs_from_termshare ExC 20 {x \<in> {..<20}. x mod 2 = 1} 10 False 1 4 = Inr basis \<and>
    card basis + card {x \<in> {..<20 :: nat}. x mod 2 = 1} = 30"
proof -
  have d: "{..<20} \<in> set (if Aggregation = Aggregation then contiguous_split 20 1 else strided_split 20 1 10)"
    by (simp add: contiguous_split_def atLeast_upt lessThan_atLeast0)
  have e: "10 = extension_size 20 2 1" by (simp add: extension_size_def)
  have "1 \<in> {x \<in> {..<20 :: nat}. x mod 2 = 1 mod 2}" by simp
  then have "{x \<in> {..<20 :: nat}. x mod 2 = 1 mod 2} \<noteq> {}" by blast
  from raised_digit [OF _ configured_4_2 aggregation_20 e d refl this, of 4 False] show ?thesis by auto
qed

end
