(* ===== verification/LimbProgram.thy ===== *)
theory LimbProgram
  imports Prelude
begin

text \<open>
  The limb program of one chip, the compiler's last form before registers: the flags of a term
  (\<open>backend/terms.h\<close>), limbs (\<open>backend/limb.h\<close>), limb instructions (\<open>backend/limb_instruction.h\<close>) and the
  next use analysis of \<open>backend/cinnamon_compiler.h\<close>; then what a limb program computes.

  Limbs share their term through a pointer, so the flags belong to the term: they are looked up in
  an assignment of terms to term indices.
\<close>

section \<open>Terms, limbs and polynomials\<close>

record Term =
  t_input :: bool
  t_output :: bool
  t_bcor :: bool
  t_eval_key :: bool
  t_eval_key_poly_num :: bool
  t_bootstrap :: bool \<comment> \<open>\<open>eval_key_type_\<close> is \<open>Bootstrap\<close> or \<open>Bootstrap2\<close>\<close>
  t_scalar :: bool
  t_receive :: bool
  t_send :: bool

record TermShare =
  ts_level :: nat
  ts_shares :: "nat list"

record Limb =
  l_term :: nat
  l_limb :: nat
  l_share :: TermShare
  l_next_use :: nat
  l_last_use :: nat
  l_dead :: bool

type_synonym limb_name = "nat \<times> nat"

text \<open>\<open>LimbCompare\<close>.\<close>

definition limb_key :: "Limb \<Rightarrow> limb_name" where
  "limb_key l = (l_term l, l_limb l)"

record Poly =
  p_term :: nat
  p_limbs :: "nat list"
  p_next_use :: nat
  p_dead :: bool

type_synonym terms = "nat \<Rightarrow> Term"

abbreviation is_bcor :: "terms \<Rightarrow> Limb \<Rightarrow> bool" where "is_bcor T l \<equiv> t_bcor (T (l_term l))"
abbreviation is_scalar :: "terms \<Rightarrow> Limb \<Rightarrow> bool" where "is_scalar T l \<equiv> t_scalar (T (l_term l))"
abbreviation is_input :: "terms \<Rightarrow> Limb \<Rightarrow> bool" where "is_input T l \<equiv> t_input (T (l_term l))"
abbreviation is_output :: "terms \<Rightarrow> Limb \<Rightarrow> bool" where "is_output T l \<equiv> t_output (T (l_term l))"

text \<open>The second polynomial of an evaluation key: it is generated, not loaded.\<close>

definition is_generated :: "terms \<Rightarrow> Limb \<Rightarrow> bool" where
  "is_generated T l \<longleftrightarrow> t_eval_key (T (l_term l)) \<and> t_eval_key_poly_num (T (l_term l))"

section \<open>Limb instructions\<close>

datatype LimbOp =
    LNeg | LRot | LCon | LInt | LNtt | LMov          \<comment> \<open>unary\<close>
  | LAdd | LSub | LMuP | LMul | LSuD                 \<comment> \<open>binary\<close>

datatype LimbInstruction =
    InpLimb Limb nat
  | ReceiveInputLimb Limb nat
  | SendLimb Limb nat
  | UnOpLimb LimbOp Limb Limb int nat                \<comment> \<open>destination, source, rotation, limb\<close>
  | BinOpLimb LimbOp Limb Limb Limb nat
  | PlLimb1 Poly Limb nat bool                       \<comment> \<open>base conversion destination, source, limb, \<open>intt_required\<close>\<close>
  | JoinGlobalLimb "Limb option" "Limb option" nat nat nat  \<comment> \<open>limb, synchronisation, size\<close>
  | RecvLimb Limb nat nat nat
  | DistLimb Limb nat nat nat
  | ResolveLimb Poly Limb nat
  | ModLimb Limb Poly nat

text \<open>The operations the constructors accept; a rotation by 0 is a move.\<close>

definition mk_UnOpLimb :: "LimbOp \<Rightarrow> Limb \<Rightarrow> Limb \<Rightarrow> nat \<Rightarrow> LimbInstruction res" where
  "mk_UnOpLimb op dest src limb =
     guardr (op \<in> {LNeg, LInt, LNtt, LMov, LCon}) RuntimeError (Inr (UnOpLimb op dest src 0 limb))"

definition mk_RotLimb :: "LimbOp \<Rightarrow> Limb \<Rightarrow> Limb \<Rightarrow> int \<Rightarrow> nat \<Rightarrow> LimbInstruction res" where
  "mk_RotLimb op dest src rot_idx limb =
     guardr (op = LRot) RuntimeError (Inr (UnOpLimb (if rot_idx = 0 then LMov else LRot) dest src rot_idx limb))"

definition mk_BinOpLimb :: "LimbOp \<Rightarrow> Limb \<Rightarrow> Limb \<Rightarrow> Limb \<Rightarrow> nat \<Rightarrow> LimbInstruction res" where
  "mk_BinOpLimb op dest src1 src2 limb =
     guardr (op \<in> {LAdd, LSub, LMuP, LMul, LSuD}) RuntimeError (Inr (BinOpLimb op dest src1 src2 limb))"

definition sync_tag :: "nat \<Rightarrow> nat \<Rightarrow> nat" where
  "sync_tag sync_id limb = (sync_id * 2 ^ 16 + limb) mod 2 ^ 64"

fun limb_dests :: "LimbInstruction \<Rightarrow> Limb list" where
  "limb_dests (InpLimb d b) = [d]"
| "limb_dests (ReceiveInputLimb d b) = [d]"
| "limb_dests (SendLimb s b) = []"
| "limb_dests (UnOpLimb op d s rot b) = [d]"
| "limb_dests (BinOpLimb op d s1 s2 b) = [d]"
| "limb_dests (PlLimb1 p s b intt) = []"
| "limb_dests (JoinGlobalLimb d s b sync sz) = (case d of None \<Rightarrow> [] | Some l \<Rightarrow> [l])"
| "limb_dests (RecvLimb d b sync sz) = [d]"
| "limb_dests (DistLimb s b sync sz) = []"
| "limb_dests (ResolveLimb p s b) = []"
| "limb_dests (ModLimb d p b) = [d]"

fun limb_srcs :: "LimbInstruction \<Rightarrow> Limb list" where
  "limb_srcs (InpLimb d b) = []"
| "limb_srcs (ReceiveInputLimb d b) = []"
| "limb_srcs (SendLimb s b) = [s]"
| "limb_srcs (UnOpLimb op d s rot b) = [s]"
| "limb_srcs (BinOpLimb op d s1 s2 b) = [s1, s2]"
| "limb_srcs (PlLimb1 p s b intt) = [s]"
| "limb_srcs (JoinGlobalLimb d s b sync sz) = (case s of None \<Rightarrow> [] | Some l \<Rightarrow> [l])"
| "limb_srcs (RecvLimb d b sync sz) = []"
| "limb_srcs (DistLimb s b sync sz) = [s]"
| "limb_srcs (ResolveLimb p s b) = [s]"
| "limb_srcs (ModLimb d p b) = []"

fun polynomial_dests :: "LimbInstruction \<Rightarrow> Poly list" where
  "polynomial_dests (ResolveLimb p s b) = [p]"
| "polynomial_dests _ = []"

fun polynomial_srcs :: "LimbInstruction \<Rightarrow> Poly list" where
  "polynomial_srcs (ModLimb d p b) = [p]"
| "polynomial_srcs _ = []"

fun base_conversion_dest :: "LimbInstruction \<Rightarrow> Poly option" where
  "base_conversion_dest (PlLimb1 p s b intt) = Some p"
| "base_conversion_dest _ = None"

fun limb_idx :: "LimbInstruction \<Rightarrow> nat" where
  "limb_idx (InpLimb d b) = b"
| "limb_idx (ReceiveInputLimb d b) = b"
| "limb_idx (SendLimb s b) = b"
| "limb_idx (UnOpLimb op d s rot b) = b"
| "limb_idx (BinOpLimb op d s1 s2 b) = b"
| "limb_idx (PlLimb1 p s b intt) = b"
| "limb_idx (JoinGlobalLimb d s b sync sz) = b"
| "limb_idx (RecvLimb d b sync sz) = b"
| "limb_idx (DistLimb s b sync sz) = b"
| "limb_idx (ResolveLimb p s b) = b"
| "limb_idx (ModLimb d p b) = b"

section \<open>Next use analysis\<close>

text \<open>
  The pointers that \<open>dests()\<close>, \<open>srcs()\<close>, \<open>polynomial_dests()\<close> and \<open>polynomial_srcs()\<close> return, written
  through in order: the operands of the instruction after a change of each.
\<close>

fun with_operands :: "(Limb \<Rightarrow> Limb) \<Rightarrow> Limb list \<Rightarrow> (Poly \<Rightarrow> Poly) \<Rightarrow> LimbInstruction \<Rightarrow> LimbInstruction" where
  "with_operands f ss g (SendLimb s b) = SendLimb (ss ! 0) b"
| "with_operands f ss g (InpLimb d b) = InpLimb (f d) b"
| "with_operands f ss g (ReceiveInputLimb d b) = ReceiveInputLimb (f d) b"
| "with_operands f ss g (UnOpLimb op d s rot b) = UnOpLimb op (f d) (ss ! 0) rot b"
| "with_operands f ss g (BinOpLimb op d s1 s2 b) = BinOpLimb op (f d) (ss ! 0) (ss ! 1) b"
| "with_operands f ss g (PlLimb1 p s b intt) = PlLimb1 p (ss ! 0) b intt"
| "with_operands f ss g (JoinGlobalLimb d s b sync sz) =
     JoinGlobalLimb (map_option f d) (case s of None \<Rightarrow> None | Some l \<Rightarrow> Some (ss ! 0)) b sync sz"
| "with_operands f ss g (RecvLimb d b sync sz) = RecvLimb (f d) b sync sz"
| "with_operands f ss g (DistLimb s b sync sz) = DistLimb (ss ! 0) b sync sz"
| "with_operands f ss g (ResolveLimb p s b) = ResolveLimb (g p) (ss ! 0) b"
| "with_operands f ss g (ModLimb d p b) = ModLimb (f d) (g p) b"

text \<open>The forward pass: inputs are dropped, the others numbered.\<close>

definition is_Inp :: "LimbInstruction \<Rightarrow> bool" where
  "is_Inp i = (case i of InpLimb d b \<Rightarrow> True | _ \<Rightarrow> False)"

definition last_use_step :: "LimbInstruction \<Rightarrow> nat \<times> LimbInstruction list \<Rightarrow> nat \<times> LimbInstruction list" where
  "last_use_step i = (\<lambda>(n, done).
     if is_Inp i then (n, done)
     else (n + 1, done @ [with_operands (\<lambda>l. l\<lparr>l_last_use := n\<rparr>)
                            (List.map (\<lambda>l. l\<lparr>l_last_use := n\<rparr>) (limb_srcs i)) (\<lambda>p. p) i]))"

definition last_uses :: "LimbInstruction list \<Rightarrow> nat \<times> LimbInstruction list" where
  "last_uses P = fold last_use_step P (0, [])"

text \<open>
  The backward pass. Its state: the number of the instruction, and the next uses of limbs and
  polynomials. The operands are visited from the last to the first.
\<close>

record next_uses =
  nu_limb :: "limb_name \<Rightarrow> nat option"
  nu_poly :: "nat \<Rightarrow> nat option"

definition mark_src :: "nat \<Rightarrow> Limb \<Rightarrow> next_uses \<Rightarrow> Limb \<times> next_uses" where
  "mark_src n l nu =
     ((case nu_limb nu (limb_key l) of None \<Rightarrow> l\<lparr>l_dead := True\<rparr> | Some u \<Rightarrow> l\<lparr>l_next_use := u\<rparr>),
      nu\<lparr>nu_limb := (nu_limb nu)(limb_key l \<mapsto> n)\<rparr>)"

fun mark_srcs :: "nat \<Rightarrow> Limb list \<Rightarrow> next_uses \<Rightarrow> Limb list \<times> next_uses" where
  "mark_srcs n [] nu = ([], nu)"
| "mark_srcs n (l # ls) nu =
     (let (ls', nu') = mark_srcs n ls nu; (l', nu'') = mark_src n l nu' in (l' # ls', nu''))"

definition never :: nat where "never = 2 ^ 64 - 1"

definition mark_dest :: "terms \<Rightarrow> next_uses \<Rightarrow> Limb \<Rightarrow> Limb" where
  "mark_dest T nu l = (case nu_limb nu (limb_key l) of
       None \<Rightarrow> if is_output T l then l\<lparr>l_next_use := never\<rparr> else l\<lparr>l_dead := True\<rparr>
     | Some u \<Rightarrow> l\<lparr>l_next_use := u\<rparr>)"

definition drop_dest :: "Limb \<Rightarrow> next_uses \<Rightarrow> next_uses" where
  "drop_dest l nu = nu\<lparr>nu_limb := (nu_limb nu)(limb_key l := None)\<rparr>"

definition mark_poly_src :: "nat \<Rightarrow> Poly \<Rightarrow> next_uses \<Rightarrow> Poly \<times> next_uses" where
  "mark_poly_src n p nu =
     ((case nu_poly nu (p_term p) of None \<Rightarrow> p\<lparr>p_dead := True\<rparr> | Some u \<Rightarrow> p\<lparr>p_next_use := u\<rparr>),
      nu\<lparr>nu_poly := (nu_poly nu)(p_term p \<mapsto> n)\<rparr>)"

definition mark_poly_dest :: "terms \<Rightarrow> nat \<Rightarrow> Poly \<Rightarrow> next_uses \<Rightarrow> Poly \<times> next_uses" where
  "mark_poly_dest T n p nu = (case nu_poly nu (p_term p) of
       None \<Rightarrow> ((if t_output (T (p_term p)) then p\<lparr>p_next_use := never\<rparr> else p\<lparr>p_dead := True\<rparr>), nu)
     | Some u \<Rightarrow> (p\<lparr>p_next_use := u\<rparr>, nu\<lparr>nu_poly := (nu_poly nu)(p_term p \<mapsto> n)\<rparr>))"

definition mark_polys :: "terms \<Rightarrow> nat \<Rightarrow> LimbInstruction \<Rightarrow> next_uses \<Rightarrow> (Poly \<Rightarrow> Poly) \<times> next_uses" where
  "mark_polys T n i nu =
     (let (ps, nu1) = (case polynomial_srcs i of [] \<Rightarrow> (\<lambda>p. p, nu) | p # _ \<Rightarrow> (let (p', nu') = mark_poly_src n p nu in (\<lambda>_. p', nu')))
      in case polynomial_dests i of [] \<Rightarrow> (ps, nu1) | p # _ \<Rightarrow> (let (p', nu') = mark_poly_dest T n p nu1 in (\<lambda>_. p', nu')))"

definition next_use_step :: "terms \<Rightarrow> nat \<Rightarrow> LimbInstruction \<Rightarrow> next_uses \<Rightarrow> LimbInstruction \<times> next_uses" where
  "next_use_step T n i nu =
     (let (ss, nu1) = mark_srcs n (limb_srcs i) nu;
          (g, nu2) = mark_polys T n i (fold drop_dest (limb_dests i) nu1)
      in (with_operands (mark_dest T nu1) ss g i, nu2))"

text \<open>The analysis of instructions \<open>n, n + 1, \<dots>\<close> to the end.\<close>

fun next_use_pass :: "terms \<Rightarrow> nat \<Rightarrow> LimbInstruction list \<Rightarrow> LimbInstruction list \<times> next_uses" where
  "next_use_pass T n [] = ([], \<lparr>nu_limb = (\<lambda>_. None), nu_poly = (\<lambda>_. None)\<rparr>)"
| "next_use_pass T n (i # is) =
     (let (is', nu) = next_use_pass T (n + 1) is; (i', nu') = next_use_step T n i nu in (i' # is', nu'))"

definition do_next_use_analysis :: "terms \<Rightarrow> LimbInstruction list \<Rightarrow> LimbInstruction list" where
  "do_next_use_analysis T P = fst (next_use_pass T 0 (snd (last_uses P)))"

end
