(* ===== verification/RegisterAllocation.thy ===== *)
theory RegisterAllocation
  imports LimbProgram
begin

text \<open>
  The register allocator of the compiler (\<open>backend/register_allocation.h\<close>) and the instructions it emits
  (\<open>backend/isa_instruction.h\<close>): limbs get vector or scalar registers; when none is free, a limb is evicted and
  spilled. An emitted instruction carries a number, which stands for the iterators into the list of
  instructions: they stay valid when others are inserted. The iteration order of
  \<open>limb_map_table\<close>, an unordered map, is an argument \<open>order\<close> of the operations that iterate over it.
  The eviction by last use is switched off by constants of the class and left out.
\<close>

section \<open>Registers\<close>

datatype RegType = RegNone | RegVector | RegScalar | RegBcu

record Register =
  reg_id :: nat
  reg_bcu :: nat
  reg_type :: RegType
  reg_dead :: bool

definition vector_register :: "nat \<Rightarrow> Register" where
  "vector_register i = \<lparr>reg_id = i, reg_bcu = 2 ^ 32 - 1, reg_type = RegVector, reg_dead = False\<rparr>"

definition scalar_register :: "nat \<Rightarrow> Register" where
  "scalar_register i = \<lparr>reg_id = i, reg_bcu = 2 ^ 32 - 1, reg_type = RegScalar, reg_dead = False\<rparr>"

text \<open>\<open>Register()\<close>.\<close>

definition no_register :: Register where
  "no_register = \<lparr>reg_id = 2 ^ 32 - 1, reg_bcu = 2 ^ 32 - 1, reg_type = RegNone, reg_dead = False\<rparr>"

definition bcu_register :: "nat \<Rightarrow> nat \<Rightarrow> Register" where
  "bcu_register b i = \<lparr>reg_id = i, reg_bcu = b, reg_type = RegBcu, reg_dead = False\<rparr>"

definition mark_dead :: "Register \<Rightarrow> Register" where
  "mark_dead r = r\<lparr>reg_dead := True\<rparr>"

text \<open>\<open>RegisterCompare\<close>.\<close>

type_synonym reg_name = "RegType \<times> nat"

definition reg_key :: "Register \<Rightarrow> reg_name" where
  "reg_key r = (reg_type r, reg_id r)"

text \<open>
  A base conversion unit. Its copies share the map of converted bases and the set of source bases through
  pointers; a cleared unit has none. The set of source bases is also shared with the instruction
  that initialises the unit, so it is a cell named by that instruction's number.
\<close>

record BaseConversionUnit =
  bcu_id :: nat
  bcu_bases :: "(nat \<times> Register) list"
  bcu_writes :: nat
  bcu_sources :: nat

definition bcu_initialise :: "nat \<Rightarrow> nat list \<Rightarrow> nat \<Rightarrow> BaseConversionUnit" where
  "bcu_initialise b bases cell =
     \<lparr>bcu_id = b, bcu_bases = List.map (\<lambda>(i, base). (base, bcu_register b i)) (enumerate 0 bases),
      bcu_writes = 0, bcu_sources = cell\<rparr>"

definition bcu_read_register :: "BaseConversionUnit \<Rightarrow> Limb \<Rightarrow> Register res" where
  "bcu_read_register b l = the_res OutOfRange (map_of (bcu_bases b) (l_limb l))"

definition bcu_free_register :: "Limb \<Rightarrow> BaseConversionUnit \<Rightarrow> BaseConversionUnit" where
  "bcu_free_register l b = b\<lparr>bcu_bases := List.filter (\<lambda>(base, r). base \<noteq> l_limb l) (bcu_bases b)\<rparr>"

definition bcu_is_free :: "BaseConversionUnit \<Rightarrow> bool" where
  "bcu_is_free b \<longleftrightarrow> bcu_bases b = []"

section \<open>Register instructions\<close>

datatype IsaOp = IAdd | IAdS | ISub | ISuS | IMuP | IMuS | IMul | ISuD | INeg | IRot | ICon | INtt | IInt | IMov

datatype ISAInstruction =
    LoadISA bool Register Limb bool bool          \<comment> \<open>generated, destination, source, scalar, free the source\<close>
  | StoreISA Limb Register bool                   \<comment> \<open>destination, source, spill\<close>
  | ReceiveInputISA Register Limb nat
  | SendISA Register Limb nat
  | UnOpISA IsaOp Register Register int nat
  | BinOpISA IsaOp Register Register Register nat
  | PlISA1 nat Register nat bool                  \<comment> \<open>unit, source, limb, \<open>intt_required\<close>\<close>
  | JoinGlobalISA "Register option" "Register option" nat nat nat
  | RecvISA Register nat nat nat
  | DistISA Register nat nat nat
  | BcuInitISA nat "nat list" nat                 \<comment> \<open>unit, destination bases, cell of the source bases\<close>
  | ResolveInitISA "Register list"
  | ResolveISA "Register list" Register "nat list" nat
  | ModISA Register "Register list" nat

fun isa_dests :: "ISAInstruction \<Rightarrow> Register list" where
  "isa_dests (LoadISA g d l sc fr) = [d]"
| "isa_dests (StoreISA l s sp) = []"
| "isa_dests (ReceiveInputISA d l b) = [d]"
| "isa_dests (SendISA s l b) = []"
| "isa_dests (UnOpISA op d s rot b) = [d]"
| "isa_dests (BinOpISA op d s1 s2 b) = [d]"
| "isa_dests (PlISA1 u s b intt) = []"
| "isa_dests (JoinGlobalISA d s b sync sz) = (case d of None \<Rightarrow> [] | Some r \<Rightarrow> [r])"
| "isa_dests (RecvISA d b sync sz) = [d]"
| "isa_dests (DistISA s b sync sz) = []"
| "isa_dests (BcuInitISA u bases cell) = []"
| "isa_dests (ResolveInitISA rs) = []"
| "isa_dests (ResolveISA rs s bases b) = rs"
| "isa_dests (ModISA d rs b) = [d]"

fun isa_srcs :: "ISAInstruction \<Rightarrow> Register list" where
  "isa_srcs (LoadISA g d l sc fr) = []"
| "isa_srcs (StoreISA l s sp) = [s]"
| "isa_srcs (ReceiveInputISA d l b) = []"
| "isa_srcs (SendISA s l b) = [s]"
| "isa_srcs (UnOpISA op d s rot b) = [s]"
| "isa_srcs (BinOpISA op d s1 s2 b) = [s1, s2]"
| "isa_srcs (PlISA1 u s b intt) = [s]"
| "isa_srcs (JoinGlobalISA d s b sync sz) = (case s of None \<Rightarrow> [] | Some r \<Rightarrow> [r])"
| "isa_srcs (RecvISA d b sync sz) = []"
| "isa_srcs (DistISA s b sync sz) = [s]"
| "isa_srcs (BcuInitISA u bases cell) = []"
| "isa_srcs (ResolveInitISA rs) = []"
| "isa_srcs (ResolveISA rs s bases b) = [s]"
| "isa_srcs (ModISA d rs b) = rs"

text \<open>The sources written back through the pointers of \<open>srcs()\<close>.\<close>

fun with_srcs :: "Register list \<Rightarrow> ISAInstruction \<Rightarrow> ISAInstruction" where
  "with_srcs ss (StoreISA l s sp) = StoreISA l (ss ! 0) sp"
| "with_srcs ss (SendISA s l b) = SendISA (ss ! 0) l b"
| "with_srcs ss (UnOpISA op d s rot b) = UnOpISA op d (ss ! 0) rot b"
| "with_srcs ss (BinOpISA op d s1 s2 b) = BinOpISA op d (ss ! 0) (ss ! 1) b"
| "with_srcs ss (PlISA1 u s b intt) = PlISA1 u (ss ! 0) b intt"
| "with_srcs ss (JoinGlobalISA d s b sync sz) =
     JoinGlobalISA d (case s of None \<Rightarrow> None | Some r \<Rightarrow> Some (ss ! 0)) b sync sz"
| "with_srcs ss (DistISA s b sync sz) = DistISA (ss ! 0) b sync sz"
| "with_srcs ss (ResolveISA rs s bases b) = ResolveISA rs (ss ! 0) bases b"
| "with_srcs ss (ModISA d rs b) = ModISA d ss b"
| "with_srcs ss i = i"

section \<open>The allocator\<close>

type_synonym limb_map = "(Limb \<times> Register) list"

record RegisterAllocator =
  ra_code :: "(nat \<times> ISAInstruction) list"     \<comment> \<open>\<open>register_instructions\<close>\<close>
  ra_next :: nat                              \<comment> \<open>the number of the next instruction\<close>
  ra_map :: limb_map
  ra_last_write :: "reg_name \<Rightarrow> nat option"
  ra_last_read :: "reg_name \<Rightarrow> nat option"
  ra_last_use :: "reg_name \<Rightarrow> nat option"
  ra_vector_free :: "Register list"
  ra_scalar_free :: "Register list"
  ra_bcu_free :: "nat list"
  ra_bcu_map :: "nat \<Rightarrow> BaseConversionUnit option"
  ra_poly_map :: "nat \<Rightarrow> Register list option"
  ra_cells :: "nat \<Rightarrow> nat set"                 \<comment> \<open>\<open>source_base_indices_\<close>\<close>
  ra_instructions :: nat
  ra_io_limbs :: "nat \<Rightarrow> nat set option"       \<comment> \<open>\<open>io_limbs\<close>, shared by the allocators of all chips\<close>
  ra_io_local :: "nat \<Rightarrow> nat set option"
  ra_symbols :: "nat \<Rightarrow> string"                \<comment> \<open>\<open>Term::symbol_\<close>\<close>

definition mk_RegisterAllocator :: "nat \<Rightarrow> (nat \<Rightarrow> nat set option) \<Rightarrow> (nat \<Rightarrow> string) \<Rightarrow> RegisterAllocator" where
  "mk_RegisterAllocator num_regs io symbols =
     \<lparr>ra_code = [], ra_next = 0, ra_map = [], ra_last_write = (\<lambda>_. None), ra_last_read = (\<lambda>_. None),
      ra_last_use = (\<lambda>_. None), ra_vector_free = List.map vector_register [0..<num_regs],
      ra_scalar_free = List.map scalar_register [0..<32], ra_bcu_free = [0, 1], ra_bcu_map = (\<lambda>_. None),
      ra_poly_map = (\<lambda>_. None), ra_cells = (\<lambda>_. {}), ra_instructions = 0, ra_io_limbs = io,
      ra_io_local = (\<lambda>_. None), ra_symbols = symbols\<rparr>"

subsection \<open>The table of limbs\<close>

fun lm_find :: "limb_name \<Rightarrow> limb_map \<Rightarrow> Register option" where
  "lm_find k [] = None"
| "lm_find k ((l, r) # m) = (if limb_key l = k then Some r else lm_find k m)"

definition lm_at :: "Limb \<Rightarrow> limb_map \<Rightarrow> Register res" where
  "lm_at l m = the_res OutOfRange (lm_find (limb_key l) m)"

definition lm_erase :: "Limb \<Rightarrow> limb_map \<Rightarrow> limb_map" where
  "lm_erase l m = List.filter (\<lambda>(l', r). limb_key l' \<noteq> limb_key l) m"

text \<open>\<open>m[l] = r\<close> keeps the key that is there.\<close>

fun lm_assign :: "Limb \<Rightarrow> Register \<Rightarrow> limb_map \<Rightarrow> limb_map" where
  "lm_assign l r [] = [(l, r)]"
| "lm_assign l r ((l', r') # m) = (if limb_key l' = limb_key l then (l', r) # m else (l', r') # lm_assign l r m)"

subsection \<open>The list of instructions\<close>

definition push_code :: "ISAInstruction \<Rightarrow> RegisterAllocator \<Rightarrow> RegisterAllocator" where
  "push_code i A = A\<lparr>ra_code := ra_code A @ [(ra_next A, i)], ra_next := ra_next A + 1\<rparr>"

fun insert_after :: "nat \<Rightarrow> nat \<times> ISAInstruction \<Rightarrow> (nat \<times> ISAInstruction) list \<Rightarrow> (nat \<times> ISAInstruction) list" where
  "insert_after u x [] = []"
| "insert_after u x (y # ys) = (if fst y = u then y # x # ys else y # insert_after u x ys)"

definition note_write :: "nat \<Rightarrow> Register \<Rightarrow> RegisterAllocator \<Rightarrow> RegisterAllocator" where
  "note_write u r A = A\<lparr>ra_last_write := (ra_last_write A)(reg_key r \<mapsto> u), ra_last_use := (ra_last_use A)(reg_key r \<mapsto> u)\<rparr>"

definition note_read :: "nat \<Rightarrow> Register \<Rightarrow> RegisterAllocator \<Rightarrow> RegisterAllocator" where
  "note_read u r A = A\<lparr>ra_last_read := (ra_last_read A)(reg_key r \<mapsto> u), ra_last_use := (ra_last_use A)(reg_key r \<mapsto> u)\<rparr>"

definition free_register :: "Register \<Rightarrow> RegisterAllocator \<Rightarrow> RegisterAllocator res" where
  "free_register r A = (case reg_type r of
       RegVector \<Rightarrow> Inr (A\<lparr>ra_vector_free := ra_vector_free A @ [r]\<rparr>)
     | RegScalar \<Rightarrow> Inr (A\<lparr>ra_scalar_free := ra_scalar_free A @ [r]\<rparr>)
     | _ \<Rightarrow> Inl AssertFail)"

subsection \<open>Eviction\<close>

text \<open>The second half of both functions: forget the limb, store it if nothing in memory has it, free its register.\<close>

definition spill :: "Limb \<Rightarrow> Register \<Rightarrow> RegisterAllocator \<Rightarrow> RegisterAllocator res" where
  "spill l r A = (case ra_last_write A (reg_key r) of
       None \<Rightarrow> Inl Undefined
     | Some u \<Rightarrow> Inr (note_write (ra_next A) r
         (A\<lparr>ra_code := insert_after u (ra_next A, StoreISA (l\<lparr>l_dead := False\<rparr>) r True) (ra_code A),
            ra_next := ra_next A + 1\<rparr>)))"

definition evict_limb :: "terms \<Rightarrow> RegType \<Rightarrow> (Limb \<times> Register) option \<Rightarrow> RegisterAllocator \<Rightarrow> RegisterAllocator res" where
  "evict_limb T ty choice A = (case choice of
       None \<Rightarrow> Inl AssertFail
     | Some (l, r) \<Rightarrow>
         let A1 = A\<lparr>ra_map := lm_erase l (ra_map A)\<rparr> in
         bindr (if \<not> is_input T l \<and> \<not> is_output T l then spill l r A1 else Inr A1)
           (\<lambda>A2. guardr (reg_type r = ty) AssertFail (free_register r A2)))"

text \<open>A candidate: the largest next use so far and the entry that has it.\<close>

type_synonym candidate = "nat \<times> (Limb \<times> Register) option"

definition take_later :: "Limb \<times> Register \<Rightarrow> candidate \<Rightarrow> candidate" where
  "take_later e c = (if l_next_use (fst e) > fst c then (l_next_use (fst e), Some e) else c)"

definition scalar_candidate :: "Limb \<times> Register \<Rightarrow> candidate \<Rightarrow> candidate res" where
  "scalar_candidate e c =
     (if reg_type (snd e) \<noteq> RegScalar then Inr c else guardr (\<not> l_dead (fst e)) AssertFail (Inr (take_later e c)))"

definition iterate :: "(limb_map \<Rightarrow> limb_map) \<Rightarrow> limb_map \<Rightarrow> limb_map" where
  "iterate order m = (if mset (order m) = mset m then order m else m)"

definition evict_scalar :: "terms \<Rightarrow> (limb_map \<Rightarrow> limb_map) \<Rightarrow> RegisterAllocator \<Rightarrow> RegisterAllocator res" where
  "evict_scalar T order A =
     bindr (foldr_res scalar_candidate (iterate order (ra_map A)) (0, None)) (\<lambda>(mx, choice). evict_limb T RegScalar choice A)"

definition vector_candidates :: "terms \<Rightarrow> Limb \<times> Register \<Rightarrow> candidate \<times> candidate \<times> candidate \<Rightarrow> (candidate \<times> candidate \<times> candidate) res" where
  "vector_candidates T e = (\<lambda>(evg, inp, any).
     guardr (\<not> l_dead (fst e)) AssertFail
       (if reg_type (snd e) \<noteq> RegVector then Inr (evg, inp, any)
        else Inr (if is_generated T (fst e) then take_later e evg else evg,
                  if is_input T (fst e) then take_later e inp else inp,
                  take_later e any)))"

definition u64_sub :: "nat \<Rightarrow> nat \<Rightarrow> nat" where
  "u64_sub a b = nat ((int a - int b) mod 2 ^ 64)"

definition u64_mul :: "nat \<Rightarrow> nat \<Rightarrow> nat" where
  "u64_mul a b = a * b mod 2 ^ 64"

definition choose_vector :: "nat \<Rightarrow> candidate \<times> candidate \<times> candidate \<Rightarrow> (Limb \<times> Register) option" where
  "choose_vector now = (\<lambda>((evg_use, evg), (inp_use, inp), (any_use, any)).
     let evg_weight = u64_mul (if evg_use > 0 then u64_sub evg_use now else evg_use) 50;
         inp_weight = u64_mul (if inp_use > 0 then u64_sub inp_use now else inp_use) 3;
         any_weight = u64_mul (u64_sub any_use now) 1
     in if evg_weight > inp_weight \<and> evg_weight > any_weight then evg
        else if inp_weight > any_weight then inp else any)"

definition evict_vector :: "terms \<Rightarrow> (limb_map \<Rightarrow> limb_map) \<Rightarrow> RegisterAllocator \<Rightarrow> RegisterAllocator res" where
  "evict_vector T order A =
     bindr (foldr_res (vector_candidates T) (iterate order (ra_map A)) ((0, None), (0, None), (0, None)))
       (\<lambda>c. evict_limb T RegVector (choose_vector (ra_instructions A) c) A)"

text \<open>The front of the free list of a limb's kind, after an eviction when the list is empty.\<close>

definition take_scalar :: "terms \<Rightarrow> (limb_map \<Rightarrow> limb_map) \<Rightarrow> RegisterAllocator \<Rightarrow> (Register \<times> RegisterAllocator) res" where
  "take_scalar T order A =
     bindr (if ra_scalar_free A = [] then evict_scalar T order A else Inr A)
       (\<lambda>A1. case ra_scalar_free A1 of [] \<Rightarrow> Inl Undefined
           | r # rs \<Rightarrow> guardr (reg_id r \<noteq> 2 ^ 32 - 1) AssertFail (Inr (r, A1\<lparr>ra_scalar_free := rs\<rparr>)))"

definition take_vector :: "terms \<Rightarrow> (limb_map \<Rightarrow> limb_map) \<Rightarrow> RegisterAllocator \<Rightarrow> (Register \<times> RegisterAllocator) res" where
  "take_vector T order A =
     bindr (if ra_vector_free A = [] then evict_vector T order A else Inr A)
       (\<lambda>A1. case ra_vector_free A1 of [] \<Rightarrow> Inl Undefined
           | r # rs \<Rightarrow> guardr (reg_id r \<noteq> 2 ^ 32 - 1) AssertFail (Inr (r, A1\<lparr>ra_vector_free := rs\<rparr>)))"

definition take_register :: "terms \<Rightarrow> (limb_map \<Rightarrow> limb_map) \<Rightarrow> Limb \<Rightarrow> RegisterAllocator \<Rightarrow> (Register \<times> RegisterAllocator) res" where
  "take_register T order l A = (if is_scalar T l then take_scalar T order A else take_vector T order A)"

subsection \<open>Loading the sources\<close>

fun comma_separated :: "nat list \<Rightarrow> string" where
  "comma_separated [] = ''''"
| "comma_separated [n] = show_nat n"
| "comma_separated (n # ns) = show_nat n @ '','' @ comma_separated ns"

definition evalkey_term_symbol :: "terms \<Rightarrow> Limb \<Rightarrow> string \<Rightarrow> string" where
  "evalkey_term_symbol T l symbol =
     symbol @ '':['' @ comma_separated (if t_bootstrap (T (l_term l)) then [0..<ts_level (l_share l)] else ts_shares (l_share l)) @ '']''"

definition note_io :: "Limb \<Rightarrow> (nat \<Rightarrow> nat set option) \<Rightarrow> nat \<Rightarrow> nat set option" where
  "note_io l io = io(l_term l \<mapsto> insert (l_limb l) (case io (l_term l) of None \<Rightarrow> {} | Some s \<Rightarrow> s))"

definition note_io_limb :: "Limb \<Rightarrow> RegisterAllocator \<Rightarrow> RegisterAllocator" where
  "note_io_limb l A = A\<lparr>ra_io_limbs := note_io l (ra_io_limbs A), ra_io_local := note_io l (ra_io_local A)\<rparr>"

definition note_input :: "terms \<Rightarrow> Limb \<Rightarrow> RegisterAllocator \<Rightarrow> RegisterAllocator" where
  "note_input T l A =
     (if \<not> is_input T l then A
      else let A1 = (if t_eval_key (T (l_term l)) \<and> ra_io_limbs A (l_term l) = None
                     then A\<lparr>ra_symbols := (ra_symbols A)(l_term l := evalkey_term_symbol T l (ra_symbols A (l_term l)))\<rparr>
                     else A)
           in note_io_limb l A1)"

definition load_src :: "terms \<Rightarrow> (limb_map \<Rightarrow> limb_map) \<Rightarrow> Limb \<Rightarrow> RegisterAllocator \<Rightarrow> RegisterAllocator res" where
  "load_src T order src A =
     (if is_bcor T src \<or> lm_find (limb_key src) (ra_map A) \<noteq> None then Inr A
      else bindr (take_register T order src A) (\<lambda>(r, A1).
        let load_val = src\<lparr>l_dead := False, l_next_use := ra_instructions A1, l_last_use := ra_instructions A1\<rparr>;
            A2 = note_input T src A1;
            load = (if is_generated T src then LoadISA True r load_val False False
                    else LoadISA False r load_val (is_scalar T src) False);
            A3 = note_write (ra_next A2) r (push_code load A2)
        in Inr (A3\<lparr>ra_map := lm_assign load_val r (ra_map A3)\<rparr>)))"

subsection \<open>Registers for the destinations\<close>

definition place_dest :: "terms \<Rightarrow> (limb_map \<Rightarrow> limb_map) \<Rightarrow> Limb \<Rightarrow> RegisterAllocator \<Rightarrow> RegisterAllocator res" where
  "place_dest T order dst A =
     (if is_bcor T dst then Inr A
      else bindr (take_register T order dst A) (\<lambda>(r, A1). Inr (A1\<lparr>ra_map := lm_assign dst r (ra_map A1)\<rparr>)))"

definition place_conversion :: "Poly option \<Rightarrow> nat \<Rightarrow> RegisterAllocator \<Rightarrow> RegisterAllocator res" where
  "place_conversion p base A = (case p of None \<Rightarrow> Inr A
     | Some p \<Rightarrow>
         bindr (case ra_bcu_map A (p_term p) of
             Some b \<Rightarrow> Inr A
           | None \<Rightarrow> (case ra_bcu_free A of [] \<Rightarrow> Inl AssertFail
               | u # us \<Rightarrow>
                   let A1 = push_code (BcuInitISA u (p_limbs p) (ra_next A)) A
                   in Inr (A1\<lparr>ra_bcu_map := (ra_bcu_map A1)(p_term p \<mapsto> bcu_initialise u (p_limbs p) (ra_next A)),
                              ra_cells := (ra_cells A1)(ra_next A := {}), ra_bcu_free := us\<rparr>)))
           (\<lambda>A1. case ra_bcu_map A1 (p_term p) of None \<Rightarrow> Inl OutOfRange
              | Some b \<Rightarrow> Inr (A1\<lparr>ra_bcu_map := (ra_bcu_map A1)(p_term p \<mapsto> b\<lparr>bcu_writes := bcu_writes b + 1\<rparr>),
                                 ra_cells := (ra_cells A1)(bcu_sources b := insert base (ra_cells A1 (bcu_sources b)))\<rparr>)))"

text \<open>\<open>while (vector_free_list.size() < n) evict(Vector)\<close>: each eviction frees one register or fails.\<close>

fun evict_until :: "terms \<Rightarrow> (limb_map \<Rightarrow> limb_map) \<Rightarrow> nat \<Rightarrow> RegisterAllocator \<Rightarrow> RegisterAllocator res" where
  "evict_until T order 0 A = Inr A"
| "evict_until T order (Suc n) A = bindr (evict_vector T order A) (evict_until T order n)"

definition place_polynomial :: "terms \<Rightarrow> (limb_map \<Rightarrow> limb_map) \<Rightarrow> Poly \<Rightarrow> RegisterAllocator \<Rightarrow> RegisterAllocator res" where
  "place_polynomial T order p A = (case ra_poly_map A (p_term p) of
       Some rs \<Rightarrow> Inr A
     | None \<Rightarrow>
         let n = length (p_limbs p) in
         bindr (evict_until T order (n - length (ra_vector_free A)) A) (\<lambda>A1.
           let rs = take n (ra_vector_free A1) in
           guardr (n \<le> length (ra_vector_free A1)) Undefined
            (guardr (\<forall>r \<in> set rs. reg_id r \<noteq> 2 ^ 32 - 1) AssertFail
              (let A2 = push_code (ResolveInitISA rs) (A1\<lparr>ra_vector_free := drop n (ra_vector_free A1)\<rparr>)
               in Inr (A2\<lparr>ra_poly_map := (ra_poly_map A2)(p_term p \<mapsto> rs)\<rparr>)))))"

subsection \<open>The instruction over registers\<close>

definition unop_opcode :: "LimbOp \<Rightarrow> IsaOp res" where
  "unop_opcode op = (case op of
       LNeg \<Rightarrow> Inr INeg | LRot \<Rightarrow> Inr IRot | LCon \<Rightarrow> Inr ICon | LNtt \<Rightarrow> Inr INtt | LInt \<Rightarrow> Inr IInt | LMov \<Rightarrow> Inr IMov
     | _ \<Rightarrow> Inl AssertFail)"

definition binop_opcode :: "terms \<Rightarrow> LimbOp \<Rightarrow> Limb \<Rightarrow> Limb \<Rightarrow> IsaOp res" where
  "binop_opcode T op src1 src2 = (case op of
       LAdd \<Rightarrow> guardr (\<not> is_scalar T src1) AssertFail (Inr (if is_scalar T src2 then IAdS else IAdd))
     | LSub \<Rightarrow> guardr (\<not> is_scalar T src1) AssertFail (Inr (if is_scalar T src2 then ISuS else ISub))
     | LMuP \<Rightarrow> guardr (\<not> is_scalar T src1) AssertFail (Inr (if is_scalar T src2 then IMuS else IMuP))
     | LMul \<Rightarrow> Inr IMul
     | LSuD \<Rightarrow> Inr ISuD
     | _ \<Rightarrow> Inl AssertFail)"

definition limb_or_bcu :: "terms \<Rightarrow> Limb \<Rightarrow> RegisterAllocator \<Rightarrow> Register res" where
  "limb_or_bcu T l A =
     (if is_bcor T l then bindr (the_res OutOfRange (ra_bcu_map A (l_term l))) (\<lambda>b. bcu_read_register b l)
      else lm_at l (ra_map A))"

fun get_register_instruction :: "terms \<Rightarrow> RegisterAllocator \<Rightarrow> LimbInstruction \<Rightarrow> ISAInstruction res" where
  "get_register_instruction T A (InpLimb d b) = Inl NullDeref"
| "get_register_instruction T A (ReceiveInputLimb d b) =
     bindr (lm_at d (ra_map A)) (\<lambda>rd. Inr (ReceiveInputISA rd d b))"
| "get_register_instruction T A (SendLimb s b) = bindr (lm_at s (ra_map A)) (\<lambda>rs. Inr (SendISA rs s b))"
| "get_register_instruction T A (UnOpLimb op d s rot b) =
     bindr (unop_opcode op) (\<lambda>rop. bindr (lm_at d (ra_map A)) (\<lambda>rd. bindr (limb_or_bcu T s A) (\<lambda>rs.
       Inr (UnOpISA rop rd rs (if op = LRot then rot else 0) b))))"
| "get_register_instruction T A (BinOpLimb op d s1 s2 b) =
     bindr (binop_opcode T op s1 s2) (\<lambda>rop. bindr (lm_at d (ra_map A)) (\<lambda>rd. bindr (lm_at s1 (ra_map A)) (\<lambda>r1.
       bindr (limb_or_bcu T s2 A) (\<lambda>r2. Inr (BinOpISA rop rd r1 r2 b)))))"
| "get_register_instruction T A (PlLimb1 p s b intt) =
     bindr (the_res OutOfRange (ra_bcu_map A (p_term p))) (\<lambda>u. bindr (lm_at s (ra_map A)) (\<lambda>rs.
       Inr (PlISA1 (bcu_id u) rs b intt)))"
| "get_register_instruction T A (JoinGlobalLimb d s b sync sz) = (case (d, s) of
       (Some d, Some s) \<Rightarrow> bindr (lm_at s (ra_map A)) (\<lambda>rs. bindr (lm_at d (ra_map A)) (\<lambda>rd.
          Inr (JoinGlobalISA (Some rd) (Some rs) b sync sz)))
     | (Some d, None) \<Rightarrow> Inl NullDeref
     | (None, Some s) \<Rightarrow> bindr (lm_at s (ra_map A)) (\<lambda>rs. Inr (JoinGlobalISA None (Some rs) b sync sz))
     | (None, None) \<Rightarrow> Inr (JoinGlobalISA None None b sync sz))"
| "get_register_instruction T A (RecvLimb d b sync sz) =
     bindr (lm_at d (ra_map A)) (\<lambda>rd. Inr (RecvISA rd b sync sz))"
| "get_register_instruction T A (DistLimb s b sync sz) =
     bindr (lm_at s (ra_map A)) (\<lambda>rs. Inr (DistISA rs b sync sz))"
| "get_register_instruction T A (ResolveLimb p s b) =
     bindr (the_res OutOfRange (ra_poly_map A (p_term p))) (\<lambda>rs. bindr (lm_at s (ra_map A)) (\<lambda>r.
       Inr (ResolveISA rs r (p_limbs p) b)))"
| "get_register_instruction T A (ModLimb d p b) =
     bindr (the_res OutOfRange (ra_poly_map A (p_term p))) (\<lambda>rs. bindr (lm_at d (ra_map A)) (\<lambda>rd.
       Inr (ModISA rd rs b)))"

subsection \<open>After the instruction\<close>

definition release_limb :: "terms \<Rightarrow> nat \<Rightarrow> Limb \<Rightarrow> RegisterAllocator \<Rightarrow> RegisterAllocator res" where
  "release_limb T u src A =
     (if is_bcor T src
      then bindr (the_res OutOfRange (ra_bcu_map A (l_term src))) (\<lambda>b. guardr (l_dead src) AssertFail
        (let b' = bcu_free_register src b in
         if bcu_is_free b'
         then Inr (A\<lparr>ra_bcu_map := (ra_bcu_map A)(l_term src := None), ra_bcu_free := ra_bcu_free A @ [bcu_id b]\<rparr>)
         else Inr (A\<lparr>ra_bcu_map := (ra_bcu_map A)(l_term src \<mapsto> b')\<rparr>)))
      else bindr (lm_at src (ra_map A)) (\<lambda>r.
        let A1 = A\<lparr>ra_map := lm_erase src (ra_map A)\<rparr> in
        bindr (if l_dead src then guardr (reg_id r \<noteq> 2 ^ 32 - 1) AssertFail (free_register r A1)
               else Inr (A1\<lparr>ra_map := lm_assign src r (ra_map A1)\<rparr>))
          (\<lambda>A2. Inr (note_read u r A2))))"

definition finish_limb_dest :: "terms \<Rightarrow> nat \<Rightarrow> Limb \<Rightarrow> RegisterAllocator \<Rightarrow> RegisterAllocator res" where
  "finish_limb_dest T u dst A =
     (let r = (case lm_find (limb_key dst) (ra_map A) of None \<Rightarrow> no_register | Some r \<Rightarrow> r);
          A1 = A\<lparr>ra_map := lm_erase dst (ra_map A)\<rparr>
      in bindr (if l_dead dst then free_register r A1 else Inr (A1\<lparr>ra_map := lm_assign dst r (ra_map A1)\<rparr>)) (\<lambda>A2.
         let A3 = (if is_output T dst then push_code (StoreISA dst r False) (note_io_limb dst A2) else A2)
         in Inr (note_write u r A3)))"

definition finish_polynomial_dest :: "nat \<Rightarrow> Poly \<Rightarrow> RegisterAllocator \<Rightarrow> RegisterAllocator res" where
  "finish_polynomial_dest u p A =
     bindr (the_res OutOfRange (ra_poly_map A (p_term p))) (\<lambda>rs.
       let A1 = (if p_dead p then A\<lparr>ra_vector_free := ra_vector_free A @ rs, ra_poly_map := (ra_poly_map A)(p_term p := None)\<rparr> else A)
       in Inr (fold (note_write u) rs A1))"

definition finish_polynomial_src :: "nat \<Rightarrow> Poly \<Rightarrow> RegisterAllocator \<Rightarrow> RegisterAllocator res" where
  "finish_polynomial_src u p A =
     bindr (the_res OutOfRange (ra_poly_map A (p_term p))) (\<lambda>rs.
       let A1 = (if p_dead p then A\<lparr>ra_vector_free := ra_vector_free A @ rs, ra_poly_map := (ra_poly_map A)(p_term p := None)\<rparr> else A)
       in Inr (fold (note_read u) rs A1))"

definition process_instruction :: "terms \<Rightarrow> (limb_map \<Rightarrow> limb_map) \<Rightarrow> LimbInstruction \<Rightarrow> RegisterAllocator \<Rightarrow> RegisterAllocator res" where
  "process_instruction T order i A =
     bindr (foldr_res (load_src T order) (limb_srcs i) A) (\<lambda>A1.
     bindr (foldr_res (place_dest T order) (limb_dests i) A1) (\<lambda>A2.
     bindr (place_conversion (base_conversion_dest i) (limb_idx i) A2) (\<lambda>A3.
     bindr (foldr_res (place_polynomial T order) (polynomial_dests i) A3) (\<lambda>A4.
     bindr (get_register_instruction T A4 i) (\<lambda>ri.
     let u = ra_next A4 in
     bindr (foldr_res (release_limb T u) (limb_srcs i) (push_code ri A4)) (\<lambda>A5.
     bindr (foldr_res (finish_limb_dest T u) (limb_dests i) A5) (\<lambda>A6.
     bindr (foldr_res (finish_polynomial_dest u) (polynomial_dests i) A6) (\<lambda>A7.
     bindr (foldr_res (finish_polynomial_src u) (polynomial_srcs i) A7) (\<lambda>A8.
       Inr (A8\<lparr>ra_instructions := ra_instructions A8 + 1\<rparr>))))))))))"

subsection \<open>The end of a chip\<close>

text \<open>
  From the last instruction to the first: a source that is not live after the instruction is marked dead,
  the last load of a limb that is not an output frees it in memory. Operands are visited from
  the last to the first. The state: the live registers and the loaded limbs.
\<close>

fun mark_isa_srcs :: "Register list \<Rightarrow> reg_name set \<Rightarrow> Register list \<times> reg_name set" where
  "mark_isa_srcs [] live = ([], live)"
| "mark_isa_srcs (r # rs) live =
     (let (rs', live') = mark_isa_srcs rs live in
      if reg_type r = RegBcu \<or> reg_key r \<in> live' then (r # rs', live')
      else (mark_dead r # rs', insert (reg_key r) live'))"

definition finish_load :: "terms \<Rightarrow> ISAInstruction \<Rightarrow> limb_name set \<Rightarrow> ISAInstruction \<times> limb_name set" where
  "finish_load T i loaded = (case i of
       LoadISA g d l sc fr \<Rightarrow>
         if is_output T l then (i, loaded)
         else (if limb_key l \<in> loaded then i else LoadISA g d l sc True, insert (limb_key l) loaded)
     | _ \<Rightarrow> (i, loaded))"

fun finish_pass :: "terms \<Rightarrow> ISAInstruction list \<Rightarrow> ISAInstruction list \<times> reg_name set \<times> limb_name set" where
  "finish_pass T [] = ([], {}, {})"
| "finish_pass T (i # is) =
     (let (is', live, loaded) = finish_pass T is;
          live1 = live - reg_key ` {r \<in> set (isa_dests i). reg_type r \<noteq> RegBcu};
          (ss, live2) = mark_isa_srcs (isa_srcs i) live1;
          (i', loaded') = finish_load T (with_srcs ss i) loaded
      in (i' # is', live2, loaded'))"

definition finish :: "terms \<Rightarrow> RegisterAllocator \<Rightarrow> ISAInstruction list" where
  "finish T A = fst (finish_pass T (List.map snd (ra_code A)))"

text \<open>The analysis and the allocation of one chip.\<close>

definition allocate_registers ::
  "terms \<Rightarrow> (limb_map \<Rightarrow> limb_map) \<Rightarrow> nat \<Rightarrow> (nat \<Rightarrow> nat set option) \<Rightarrow> (nat \<Rightarrow> string) \<Rightarrow> LimbInstruction list \<Rightarrow>
   (ISAInstruction list \<times> RegisterAllocator) res" where
  "allocate_registers T order num_vregs io symbols P =
     bindr (foldr_res (process_instruction T order) (do_next_use_analysis T P) (mk_RegisterAllocator num_vregs io symbols))
       (\<lambda>A. Inr (finish T A, A))"

end
