(* ===== verification/RegisterSemantics.thy ===== *)
theory RegisterSemantics
  imports RegisterAllocation
begin

text \<open>
  What limb programs and register programs compute. What the operations do to values is an argument
  (\<open>machine\<close>), the same for both: the allocator must not depend on it. A limb program reads and
  writes named limbs; a register program reads and writes registers, base conversion units and
  the memory of the chip. A register marked dead loses its value when it is read, a load that frees its
  source removes it from memory. Both produce the same kind of trace: what leaves the chip, and
  what is stored as output.
\<close>

section \<open>Operations on values\<close>

record 'v machine =
  m_alu :: "LimbOp \<Rightarrow> int \<Rightarrow> nat \<Rightarrow> 'v list \<Rightarrow> 'v"     \<comment> \<open>operation, rotation, limb, operands\<close>
  m_convert :: "nat \<Rightarrow> (nat \<times> bool \<times> 'v) list \<Rightarrow> 'v"   \<comment> \<open>target limb, what was written to the unit\<close>
  m_resolve :: "nat list \<Rightarrow> nat \<Rightarrow> nat \<Rightarrow> 'v \<Rightarrow> 'v \<Rightarrow> 'v" \<comment> \<open>bases, limb, position, source, old value\<close>
  m_resolve_init :: 'v
  m_mod :: "nat \<Rightarrow> 'v list \<Rightarrow> 'v"
  m_arriving :: "limb_name \<Rightarrow> nat \<Rightarrow> 'v"                \<comment> \<open>received as an input\<close>
  m_received :: "nat \<Rightarrow> nat \<Rightarrow> 'v"                     \<comment> \<open>synchronisation, size\<close>
  m_joined :: "nat \<Rightarrow> nat \<Rightarrow> 'v \<Rightarrow> 'v"

datatype 'v event =
    Sent limb_name nat 'v
  | Joined nat nat "'v option"
  | Distributed nat nat 'v
  | Stored limb_name 'v

section \<open>Limb programs\<close>

record 'v limb_state =
  ls_env :: "limb_name \<Rightarrow> 'v option"
  ls_writes :: "nat \<Rightarrow> (nat \<times> bool \<times> 'v) list"   \<comment> \<open>to each base conversion\<close>
  ls_converted :: "nat set"                     \<comment> \<open>base conversions that have been read\<close>
  ls_poly :: "nat \<Rightarrow> 'v list option"            \<comment> \<open>resolved polynomials\<close>
  ls_reduced :: "nat set"                       \<comment> \<open>resolved polynomials that have been read\<close>
  ls_trace :: "'v event list"

definition limb_read :: "terms \<Rightarrow> 'v machine \<Rightarrow> 'v limb_state \<Rightarrow> Limb \<Rightarrow> 'v option" where
  "limb_read T M st l =
     (if is_bcor T l then Some (m_convert M (l_limb l) (ls_writes st (l_term l))) else ls_env st (limb_key l))"

definition limb_reads :: "terms \<Rightarrow> 'v machine \<Rightarrow> 'v limb_state \<Rightarrow> Limb list \<Rightarrow> 'v list option" where
  "limb_reads T M st ls =
     (if \<forall>l \<in> set ls. limb_read T M st l \<noteq> None then Some (List.map (\<lambda>l. the (limb_read T M st l)) ls) else None)"

text \<open>After its first result has been read, a base conversion takes no more writes.\<close>

definition note_converted :: "terms \<Rightarrow> Limb list \<Rightarrow> 'v limb_state \<Rightarrow> 'v limb_state" where
  "note_converted T ls st = st\<lparr>ls_converted := ls_converted st \<union> l_term ` {l \<in> set ls. is_bcor T l}\<rparr>"

text \<open>Every limb is written once, and not if it is an input.\<close>

definition limb_write :: "terms \<Rightarrow> Limb \<Rightarrow> 'v \<Rightarrow> 'v limb_state \<Rightarrow> 'v limb_state option" where
  "limb_write T l v st =
     (if is_input T l \<or> ls_env st (limb_key l) \<noteq> None then None
      else Some (st\<lparr>ls_env := (ls_env st)(limb_key l \<mapsto> v),
                    ls_trace := ls_trace st @ (if is_output T l then [Stored (limb_key l) v] else [])\<rparr>))"

definition limb_emit :: "'v event \<Rightarrow> 'v limb_state \<Rightarrow> 'v limb_state" where
  "limb_emit e st = st\<lparr>ls_trace := ls_trace st @ [e]\<rparr>"

text \<open>The effect of an instruction on the state after its sources \<open>vs\<close> have been read.\<close>

fun limb_effect :: "terms \<Rightarrow> 'v machine \<Rightarrow> LimbInstruction \<Rightarrow> 'v list \<Rightarrow> 'v limb_state \<Rightarrow> 'v limb_state option" where
  "limb_effect T M (InpLimb d b) vs st = None"
| "limb_effect T M (ReceiveInputLimb d b) vs st = limb_write T d (m_arriving M (limb_key d) b) st"
| "limb_effect T M (SendLimb s b) vs st = Some (limb_emit (Sent (limb_key s) b (vs ! 0)) st)"
| "limb_effect T M (UnOpLimb op d s rot b) vs st = limb_write T d (m_alu M op (if op = LRot then rot else 0) b vs) st"
| "limb_effect T M (BinOpLimb op d s1 s2 b) vs st = limb_write T d (m_alu M op 0 b vs) st"
| "limb_effect T M (PlLimb1 p s b intt) vs st =
     (if p_term p \<in> ls_converted st then None
      else Some (st\<lparr>ls_writes := (ls_writes st)(p_term p := ls_writes st (p_term p) @ [(b, intt, vs ! 0)])\<rparr>))"
| "limb_effect T M (JoinGlobalLimb d s b sync sz) vs st =
     (let st1 = limb_emit (Joined sync sz (case s of None \<Rightarrow> None | Some l \<Rightarrow> Some (vs ! 0))) st
      in case d of None \<Rightarrow> Some st1 | Some l \<Rightarrow> limb_write T l (m_joined M sync sz (vs ! 0)) st1)"
| "limb_effect T M (RecvLimb d b sync sz) vs st = limb_write T d (m_received M sync sz) st"
| "limb_effect T M (DistLimb s b sync sz) vs st = Some (limb_emit (Distributed sync sz (vs ! 0)) st)"
| "limb_effect T M (ResolveLimb p s b) vs st =
     (if p_term p \<in> ls_reduced st then None
      else let old = (case ls_poly st (p_term p) of None \<Rightarrow> replicate (length (p_limbs p)) (m_resolve_init M) | Some olds \<Rightarrow> olds)
           in Some (st\<lparr>ls_poly := (ls_poly st)(p_term p \<mapsto>
                List.map (\<lambda>(k, v). m_resolve M (p_limbs p) b k (vs ! 0) v) (enumerate 0 old))\<rparr>))"
| "limb_effect T M (ModLimb d p b) vs st = (case ls_poly st (p_term p) of
       None \<Rightarrow> None
     | Some olds \<Rightarrow> limb_write T d (m_mod M b olds) (st\<lparr>ls_reduced := insert (p_term p) (ls_reduced st)\<rparr>))"

definition limb_step :: "terms \<Rightarrow> 'v machine \<Rightarrow> LimbInstruction \<Rightarrow> 'v limb_state \<Rightarrow> 'v limb_state option" where
  "limb_step T M i st = (case limb_reads T M st (limb_srcs i) of
       None \<Rightarrow> None
     | Some vs \<Rightarrow> limb_effect T M i vs (note_converted T (limb_srcs i) st))"

fun limb_run :: "terms \<Rightarrow> 'v machine \<Rightarrow> LimbInstruction list \<Rightarrow> 'v limb_state \<Rightarrow> 'v limb_state option" where
  "limb_run T M [] st = Some st"
| "limb_run T M (i # is) st = (if is_Inp i then limb_run T M is st
     else case limb_step T M i st of None \<Rightarrow> None | Some st' \<Rightarrow> limb_run T M is st')"

definition limb_start :: "(limb_name \<Rightarrow> 'v option) \<Rightarrow> 'v limb_state" where
  "limb_start inputs = \<lparr>ls_env = inputs, ls_writes = (\<lambda>_. []), ls_converted = {}, ls_poly = (\<lambda>_. None),
     ls_reduced = {}, ls_trace = []\<rparr>"

definition limb_program_trace :: "terms \<Rightarrow> 'v machine \<Rightarrow> (limb_name \<Rightarrow> 'v option) \<Rightarrow> LimbInstruction list \<Rightarrow> 'v event list option" where
  "limb_program_trace T M inputs P = map_option ls_trace (limb_run T M P (limb_start inputs))"

section \<open>Register programs\<close>

record 'v isa_state =
  is_regs :: "reg_name \<Rightarrow> 'v option"
  is_units :: "nat \<Rightarrow> (nat list \<times> (nat \<times> bool \<times> 'v) list) option"  \<comment> \<open>target limbs, writes\<close>
  is_mem :: "limb_name \<Rightarrow> 'v option"
  is_trace :: "'v event list"

definition reg_read :: "'v machine \<Rightarrow> 'v isa_state \<Rightarrow> Register \<Rightarrow> 'v option" where
  "reg_read M s r =
     (if reg_type r = RegBcu
      then (case is_units s (reg_bcu r) of None \<Rightarrow> None
            | Some (bases, ws) \<Rightarrow> if reg_id r < length bases then Some (m_convert M (bases ! reg_id r) ws) else None)
      else is_regs s (reg_key r))"

definition reg_reads :: "'v machine \<Rightarrow> 'v isa_state \<Rightarrow> Register list \<Rightarrow> 'v list option" where
  "reg_reads M s rs =
     (if \<forall>r \<in> set rs. reg_read M s r \<noteq> None then Some (List.map (\<lambda>r. the (reg_read M s r)) rs) else None)"

definition kill_dead :: "Register list \<Rightarrow> 'v isa_state \<Rightarrow> 'v isa_state" where
  "kill_dead rs s = s\<lparr>is_regs := (\<lambda>k. if \<exists>r \<in> set rs. reg_dead r \<and> reg_key r = k then None else is_regs s k)\<rparr>"

definition reg_write :: "Register \<Rightarrow> 'v \<Rightarrow> 'v isa_state \<Rightarrow> 'v isa_state" where
  "reg_write r v s = s\<lparr>is_regs := (is_regs s)(reg_key r \<mapsto> v)\<rparr>"

definition regs_write :: "Register list \<Rightarrow> 'v list \<Rightarrow> 'v isa_state \<Rightarrow> 'v isa_state" where
  "regs_write rs vs s = s\<lparr>is_regs := (is_regs s)(List.map reg_key rs [\<mapsto>] vs)\<rparr>"

definition isa_emit :: "'v event \<Rightarrow> 'v isa_state \<Rightarrow> 'v isa_state" where
  "isa_emit e s = s\<lparr>is_trace := is_trace s @ [e]\<rparr>"

text \<open>The limb operation an opcode carries out; the scalar forms differ in the operand's register only.\<close>

fun isa_operation :: "IsaOp \<Rightarrow> LimbOp" where
  "isa_operation IAdd = LAdd" | "isa_operation IAdS = LAdd"
| "isa_operation ISub = LSub" | "isa_operation ISuS = LSub"
| "isa_operation IMuP = LMuP" | "isa_operation IMuS = LMuP"
| "isa_operation IMul = LMul" | "isa_operation ISuD = LSuD"
| "isa_operation INeg = LNeg" | "isa_operation IRot = LRot" | "isa_operation ICon = LCon"
| "isa_operation INtt = LNtt" | "isa_operation IInt = LInt" | "isa_operation IMov = LMov"

text \<open>\<open>keys\<close> are the values of the inputs, from which a key limb is generated.\<close>

fun isa_effect :: "'v machine \<Rightarrow> (limb_name \<Rightarrow> 'v option) \<Rightarrow> ISAInstruction \<Rightarrow> 'v list \<Rightarrow> 'v isa_state \<Rightarrow> 'v isa_state option" where
  "isa_effect M keys (LoadISA g d l sc fr) vs s =
     (case (if g then keys (limb_key l) else is_mem s (limb_key l)) of None \<Rightarrow> None
      | Some v \<Rightarrow> Some (reg_write d v (if fr \<and> \<not> g then s\<lparr>is_mem := (is_mem s)(limb_key l := None)\<rparr> else s)))"
| "isa_effect M keys (StoreISA l r sp) vs s =
     Some ((if sp then id else isa_emit (Stored (limb_key l) (vs ! 0))) (s\<lparr>is_mem := (is_mem s)(limb_key l \<mapsto> vs ! 0)\<rparr>))"
| "isa_effect M keys (ReceiveInputISA d l b) vs s = Some (reg_write d (m_arriving M (limb_key l) b) s)"
| "isa_effect M keys (SendISA r l b) vs s = Some (isa_emit (Sent (limb_key l) b (vs ! 0)) s)"
| "isa_effect M keys (UnOpISA op d r rot b) vs s = Some (reg_write d (m_alu M (isa_operation op) rot b vs) s)"
| "isa_effect M keys (BinOpISA op d r1 r2 b) vs s = Some (reg_write d (m_alu M (isa_operation op) 0 b vs) s)"
| "isa_effect M keys (PlISA1 u r b intt) vs s = (case is_units s u of None \<Rightarrow> None
     | Some (bases, ws) \<Rightarrow> Some (s\<lparr>is_units := (is_units s)(u \<mapsto> (bases, ws @ [(b, intt, vs ! 0)]))\<rparr>))"
| "isa_effect M keys (JoinGlobalISA d r b sync sz) vs s =
     (let s1 = isa_emit (Joined sync sz (case r of None \<Rightarrow> None | Some x \<Rightarrow> Some (vs ! 0))) s
      in Some (case d of None \<Rightarrow> s1 | Some x \<Rightarrow> reg_write x (m_joined M sync sz (vs ! 0)) s1))"
| "isa_effect M keys (RecvISA d b sync sz) vs s = Some (reg_write d (m_received M sync sz) s)"
| "isa_effect M keys (DistISA r b sync sz) vs s = Some (isa_emit (Distributed sync sz (vs ! 0)) s)"
| "isa_effect M keys (BcuInitISA u bases cell) vs s = Some (s\<lparr>is_units := (is_units s)(u \<mapsto> (bases, []))\<rparr>)"
| "isa_effect M keys (ResolveInitISA rs) vs s =
     Some (regs_write rs (replicate (length rs) (m_resolve_init M)) s)"
| "isa_effect M keys (ResolveISA rs r bases b) vs s = (case reg_reads M s rs of None \<Rightarrow> None
     | Some olds \<Rightarrow> Some (regs_write rs (List.map (\<lambda>(k, v). m_resolve M bases b k (vs ! 0) v) (enumerate 0 olds)) s))"
| "isa_effect M keys (ModISA d rs b) vs s = Some (reg_write d (m_mod M b vs) s)"

definition isa_step :: "'v machine \<Rightarrow> (limb_name \<Rightarrow> 'v option) \<Rightarrow> ISAInstruction \<Rightarrow> 'v isa_state \<Rightarrow> 'v isa_state option" where
  "isa_step M keys i s = (case reg_reads M s (isa_srcs i) of
       None \<Rightarrow> None
     | Some vs \<Rightarrow> isa_effect M keys i vs (kill_dead (isa_srcs i) s))"

fun isa_run :: "'v machine \<Rightarrow> (limb_name \<Rightarrow> 'v option) \<Rightarrow> ISAInstruction list \<Rightarrow> 'v isa_state \<Rightarrow> 'v isa_state option" where
  "isa_run M keys [] s = Some s"
| "isa_run M keys (i # is) s = (case isa_step M keys i s of None \<Rightarrow> None | Some s' \<Rightarrow> isa_run M keys is s')"

text \<open>At the start the memory holds the inputs, but not the key limbs that are generated.\<close>

definition isa_start :: "terms \<Rightarrow> (limb_name \<Rightarrow> 'v option) \<Rightarrow> 'v isa_state" where
  "isa_start T inputs = \<lparr>is_regs = (\<lambda>_. None), is_units = (\<lambda>_. None),
     is_mem = (\<lambda>(t, b). if t_eval_key (T t) \<and> t_eval_key_poly_num (T t) then None else inputs (t, b)), is_trace = []\<rparr>"

definition isa_program_trace :: "terms \<Rightarrow> 'v machine \<Rightarrow> (limb_name \<Rightarrow> 'v option) \<Rightarrow> ISAInstruction list \<Rightarrow> 'v event list option" where
  "isa_program_trace T M inputs code = map_option is_trace (isa_run M inputs code (isa_start T inputs))"

text \<open>\<open>set_as_eval_key\<close> makes an evaluation key an input; limb addresses start without marks.\<close>

definition terms_wf :: "terms \<Rightarrow> bool" where
  "terms_wf T \<longleftrightarrow> (\<forall>t. t_eval_key (T t) \<longrightarrow> t_input (T t))"

definition unmarked :: "LimbInstruction \<Rightarrow> bool" where
  "unmarked i \<longleftrightarrow> (\<forall>l \<in> set (limb_srcs i) \<union> set (limb_dests i). \<not> l_dead l) \<and>
     (\<forall>p \<in> set (polynomial_srcs i) \<union> set (polynomial_dests i). \<not> p_dead p)"

end
