(* ===== verification/RegisterInvariant.thy ===== *)
theory RegisterInvariant
  imports RegisterSemantics
begin

text \<open>
  The invariant of the register allocator: how its table, its free lists and the code so far
  agree with the state of the limb program, and what keeps it: inserting a spill after the last write of
  a register, evicting a limb, loading a source, and giving registers back. \<open>evictor\<close> is the locale of
  what an eviction promises; the eviction of scalars and the weighted eviction of vectors are its
  instances.
\<close>

declare split_paired_All [simp del] split_paired_Ex [simp del]

section \<open>Running register code\<close>

lemma isa_run_append:
  "isa_run M keys (xs @ ys) s = (case isa_run M keys xs s of None \<Rightarrow> None | Some t \<Rightarrow> isa_run M keys ys t)"
  by (induction xs arbitrary: s) (auto split: option.split)

lemma isa_run_snoc:
  "isa_run M keys xs s = Some t \<Longrightarrow> isa_run M keys (xs @ [i]) s = isa_step M keys i t"
  by (simp add: isa_run_append split: option.split)

text \<open>What an instruction writes, and the limb whose memory it reads or writes.\<close>

definition isa_writes :: "ISAInstruction \<Rightarrow> reg_name set" where
  "isa_writes i = reg_key ` (set (isa_dests i) \<union> (case i of ResolveInitISA rs \<Rightarrow> set rs | _ \<Rightarrow> {}))"

definition isa_touches :: "ISAInstruction \<Rightarrow> limb_name set" where
  "isa_touches i = (case i of LoadISA g d l sc fr \<Rightarrow> {limb_key l} | StoreISA l r sp \<Rightarrow> {limb_key l} | _ \<Rightarrow> {})"

text \<open>Code before the last pass: no register is marked dead and no load frees its source.\<close>

definition plain :: "ISAInstruction \<Rightarrow> bool" where
  "plain i \<longleftrightarrow> (\<forall>r \<in> set (isa_srcs i). \<not> reg_dead r) \<and> (case i of LoadISA g d l sc fr \<Rightarrow> \<not> fr | _ \<Rightarrow> True)"

lemma kill_dead_plain: "\<forall>r \<in> set rs. \<not> reg_dead r \<Longrightarrow> kill_dead rs s = s"
  by (cases s) (auto simp: kill_dead_def)

lemma plain_step:
  "plain i \<Longrightarrow> isa_step M keys i s = (case reg_reads M s (isa_srcs i) of None \<Rightarrow> None | Some vs \<Rightarrow> isa_effect M keys i vs s)"
  by (auto simp: isa_step_def plain_def kill_dead_plain split: option.split)

lemma regs_write_other: "k \<notin> reg_key ` set rs \<Longrightarrow> is_regs (regs_write rs vs s) k = is_regs s k"
  by (auto simp: regs_write_def map_upds_apply_nontin)

lemma plain_step_regs:
  assumes "isa_step M keys i s = Some s'" "plain i" "k \<notin> isa_writes i"
  shows "is_regs s' k = is_regs s k"
  using assms
  by (cases i) (auto simp: plain_step isa_writes_def reg_write_def isa_emit_def regs_write_other Let_def
      split: option.splits if_splits)

lemma plain_run_regs:
  assumes "isa_run M keys c s = Some s'" "\<forall>i \<in> set c. plain i \<and> k \<notin> isa_writes i"
  shows "is_regs s' k = is_regs s k"
  using assms
proof (induction c arbitrary: s)
  case (Cons i c)
  then obtain t where t: "isa_step M keys i s = Some t" "isa_run M keys c t = Some s'" by (auto split: option.splits)
  then show ?case using Cons.IH [OF t(2)] plain_step_regs [OF t(1)] Cons.prems(2) by simp
qed simp

definition put_mem :: "limb_name \<Rightarrow> 'v \<Rightarrow> 'v isa_state \<Rightarrow> 'v isa_state" where
  "put_mem k v s = s\<lparr>is_mem := (is_mem s)(k \<mapsto> v)\<rparr>"

lemma put_mem_fields [simp]:
  "is_regs (put_mem k v s) = is_regs s" "is_units (put_mem k v s) = is_units s"
  "is_mem (put_mem k v s) = (is_mem s)(k \<mapsto> v)" "is_trace (put_mem k v s) = is_trace s"
  by (simp_all add: put_mem_def)

lemma reg_read_cong: "is_regs s = is_regs t \<Longrightarrow> is_units s = is_units t \<Longrightarrow> reg_read M s r = reg_read M t r"
  by (simp add: reg_read_def)

lemma reg_reads_cong: "is_regs s = is_regs t \<Longrightarrow> is_units s = is_units t \<Longrightarrow> reg_reads M s rs = reg_reads M t rs"
  by (simp add: reg_reads_def reg_read_cong [of s t])

lemma reads_put_mem [simp]: "reg_reads M (put_mem k v s) rs = reg_reads M s rs"
  by (rule reg_reads_cong) simp_all

lemma kill_put_mem: "kill_dead rs (put_mem k v s) = put_mem k v (kill_dead rs s)"
  by (simp add: kill_dead_def put_mem_def cong: if_cong)

lemma write_put_mem: "reg_write r x (put_mem k v s) = put_mem k v (reg_write r x s)"
  "regs_write rs xs (put_mem k v s) = put_mem k v (regs_write rs xs s)"
  "isa_emit e (put_mem k v s) = put_mem k v (isa_emit e s)"
  by (simp_all add: reg_write_def regs_write_def isa_emit_def put_mem_def)

lemma effect_put_mem:
  assumes "k \<notin> isa_touches i"
  shows "isa_effect M keys i vs (put_mem k v s) = map_option (put_mem k v) (isa_effect M keys i vs s)"
proof (cases i)
  case (LoadISA g d l sc fr)
  have "(put_mem k v s)\<lparr>is_mem := (is_mem (put_mem k v s))(limb_key l := None)\<rparr> =
      put_mem k v (s\<lparr>is_mem := (is_mem s)(limb_key l := None)\<rparr>)"
    using assms LoadISA by (simp add: isa_touches_def put_mem_def fun_upd_twist)
  then show ?thesis using LoadISA assms by (auto simp: isa_touches_def write_put_mem split: option.split)
next
  case (StoreISA l r sp)
  have "(put_mem k v s)\<lparr>is_mem := (is_mem (put_mem k v s))(limb_key l \<mapsto> x)\<rparr> =
      put_mem k v (s\<lparr>is_mem := (is_mem s)(limb_key l \<mapsto> x)\<rparr>)" for x
    using assms StoreISA by (simp add: isa_touches_def put_mem_def fun_upd_twist)
  then show ?thesis using StoreISA by (simp add: write_put_mem)
next
  case (PlISA1 u r b intt)
  then show ?thesis by (cases "is_units s u") (auto simp: put_mem_def)
next
  case (BcuInitISA u bases cell)
  then show ?thesis by (simp add: put_mem_def)
qed (simp_all add: write_put_mem Let_def split: option.split)

lemma step_put_mem:
  assumes "k \<notin> isa_touches i"
  shows "isa_step M keys i (put_mem k v s) = map_option (put_mem k v) (isa_step M keys i s)"
  using assms by (simp add: isa_step_def kill_put_mem effect_put_mem split: option.split)

lemma run_put_mem:
  assumes "\<forall>i \<in> set c. k \<notin> isa_touches i"
  shows "isa_run M keys c (put_mem k v s) = map_option (put_mem k v) (isa_run M keys c s)"
  using assms
proof (induction c arbitrary: s)
  case (Cons i c)
  then show ?case by (cases "isa_step M keys i s") (simp_all add: step_put_mem)
qed simp

text \<open>
  A store inserted after the last write of its register: the rest of the code runs as before, and the
  memory has one more value.
\<close>

lemma insert_spill:
  assumes run: "isa_run M keys (pre @ post) s0 = Some s"
    and post: "\<forall>i \<in> set post. plain i \<and> reg_key r \<notin> isa_writes i \<and> limb_key l \<notin> isa_touches i"
    and r: "reg_type r \<noteq> RegBcu" "\<not> reg_dead r" "is_regs s (reg_key r) = Some v"
  shows "isa_run M keys (pre @ StoreISA l r True # post) s0 = Some (put_mem (limb_key l) v s)"
proof -
  obtain s1 where s1: "isa_run M keys pre s0 = Some s1" "isa_run M keys post s1 = Some s"
    using run by (auto simp: isa_run_append split: option.splits)
  have "is_regs s1 (reg_key r) = Some v" using plain_run_regs [OF s1(2), of "reg_key r"] post r(3) by simp
  then have "isa_step M keys (StoreISA l r True) s1 = Some (put_mem (limb_key l) v s1)"
    using r(1,2) by (simp add: isa_step_def reg_reads_def reg_read_def kill_dead_plain put_mem_def)
  then show ?thesis using s1 post by (simp add: isa_run_append run_put_mem)
qed

section \<open>The table of limbs\<close>

abbreviation entry_key :: "Limb \<times> Register \<Rightarrow> limb_name" where "entry_key e \<equiv> limb_key (fst e)"

lemma lm_find_Some: "lm_find k m = Some r \<Longrightarrow> \<exists>l. (l, r) \<in> set m \<and> limb_key l = k"
  by (induction k m rule: lm_find.induct) (auto split: if_splits)

lemma lm_find_in: "distinct (List.map entry_key m) \<Longrightarrow> (l, r) \<in> set m \<Longrightarrow> lm_find (limb_key l) m = Some r"
  by (induction m) force+

lemma lm_find_None: "lm_find k m = None \<longleftrightarrow> k \<notin> entry_key ` set m"
  by (induction k m rule: lm_find.induct) auto

lemma lm_assign_new: "limb_key l \<notin> entry_key ` set m \<Longrightarrow> lm_assign l r m = m @ [(l, r)]"
  by (induction l r m rule: lm_assign.induct) auto

lemma set_lm_erase: "set (lm_erase l m) = {e \<in> set m. entry_key e \<noteq> limb_key l}"
  by (auto simp: lm_erase_def)

lemma distinct_lm_erase: "distinct (List.map entry_key m) \<Longrightarrow> distinct (List.map entry_key (lm_erase l m))"
  by (simp add: lm_erase_def distinct_map_filter)

lemma lm_erase_mset:
  assumes "distinct (List.map entry_key m)" "(l, r) \<in> set m" "limb_key l = limb_key l'"
  shows "mset m = add_mset (l, r) (mset (lm_erase l' m))"
  using assms
proof (induction m)
  case (Cons e m)
  show ?case
  proof (cases "e = (l, r)")
    case True
    then have "\<forall>x \<in> set m. entry_key x \<noteq> limb_key l'" using Cons.prems by force
    then have "lm_erase l' m = m" by (auto simp: lm_erase_def filter_id_conv)
    with True Cons.prems(3) show ?thesis by (simp add: lm_erase_def)
  next
    case False
    then have "(l, r) \<in> set m" using Cons.prems(2) by simp
    moreover from this have "entry_key e \<noteq> limb_key l'" using Cons.prems(1,3) by force
    ultimately show ?thesis using Cons by (auto simp: lm_erase_def)
  qed
qed simp


section \<open>The invariant\<close>

definition pool :: "RegisterAllocator \<Rightarrow> Register list" where
  "pool A = List.map snd (ra_map A) @ ra_vector_free A @ ra_scalar_free A"

definition pool_keys :: "RegisterAllocator \<Rightarrow> reg_name set" where
  "pool_keys A = reg_key ` set (pool A)"

definition table_ok :: "terms \<Rightarrow> RegisterAllocator \<Rightarrow> bool" where
  "table_ok T A \<longleftrightarrow> distinct (List.map entry_key (ra_map A)) \<and> (\<forall>e \<in> set (ra_map A). \<not> is_bcor T (fst e))"

definition pool_ok :: "RegisterAllocator \<Rightarrow> bool" where
  "pool_ok A \<longleftrightarrow> distinct (List.map reg_key (pool A)) \<and>
     (\<forall>r \<in> set (pool A). reg_type r \<in> {RegVector, RegScalar} \<and> \<not> reg_dead r) \<and>
     (\<forall>r \<in> set (ra_vector_free A). reg_type r = RegVector)"

definition groups_ok :: "RegisterAllocator \<Rightarrow> bool" where
  "groups_ok A \<longleftrightarrow>
     (\<forall>t rs. ra_poly_map A t = Some rs \<longrightarrow> distinct (List.map reg_key rs) \<and>
        (\<forall>r \<in> set rs. reg_type r = RegVector \<and> \<not> reg_dead r) \<and> reg_key ` set rs \<inter> pool_keys A = {}) \<and>
     (\<forall>t t' rs rs'. ra_poly_map A t = Some rs \<longrightarrow> ra_poly_map A t' = Some rs' \<longrightarrow> t \<noteq> t' \<longrightarrow>
        reg_key ` set rs \<inter> reg_key ` set rs' = {})"

definition code_ok :: "RegisterAllocator \<Rightarrow> bool" where
  "code_ok A \<longleftrightarrow> distinct (List.map fst (ra_code A)) \<and> (\<forall>x \<in> set (ra_code A). fst x < ra_next A \<and> plain (snd x))"

text \<open>The register of a limb was last written by the instruction the allocator remembers, and nothing since concerns the limb's memory.\<close>

definition untouched :: "reg_name \<Rightarrow> limb_name \<Rightarrow> (nat \<times> ISAInstruction) list \<Rightarrow> bool" where
  "untouched r k post \<longleftrightarrow> (\<forall>x \<in> set post. r \<notin> isa_writes (snd x) \<and> k \<notin> isa_touches (snd x))"

definition written :: "RegisterAllocator \<Rightarrow> Limb \<times> Register \<Rightarrow> bool" where
  "written A e \<longleftrightarrow> (\<exists>u pre i post. ra_last_write A (reg_key (snd e)) = Some u \<and> ra_code A = pre @ (u, i) # post \<and>
     untouched (reg_key (snd e)) (entry_key e) post)"

definition written_ok :: "terms \<Rightarrow> limb_name set \<Rightarrow> RegisterAllocator \<Rightarrow> bool" where
  "written_ok T X A \<longleftrightarrow> (\<forall>e \<in> set (ra_map A). entry_key e \<notin> X \<and> \<not> is_input T (fst e) \<and> \<not> is_output T (fst e) \<longrightarrow> written A e)"

definition units_ok :: "RegisterAllocator \<Rightarrow> bool" where
  "units_ok A \<longleftrightarrow> distinct (ra_bcu_free A) \<and> (\<forall>t b. ra_bcu_map A t = Some b \<longrightarrow> bcu_id b \<notin> set (ra_bcu_free A)) \<and>
     (\<forall>t t' b b'. ra_bcu_map A t = Some b \<longrightarrow> ra_bcu_map A t' = Some b' \<longrightarrow> bcu_id b = bcu_id b' \<longrightarrow> t = t')"

definition book :: "terms \<Rightarrow> limb_name set \<Rightarrow> RegisterAllocator \<Rightarrow> bool" where
  "book T X A \<longleftrightarrow> table_ok T A \<and> pool_ok A \<and> groups_ok A \<and> code_ok A \<and> written_ok T X A \<and> units_ok A"

text \<open>
  How the state of the register program agrees with that of the limb program. \<open>N\<close> are the limbs and
  \<open>PN\<close> the polynomials still to be read, \<open>X\<close> a destination that has no value yet.
\<close>

abbreviation generated_key :: "terms \<Rightarrow> limb_name \<Rightarrow> bool" where
  "generated_key T k \<equiv> t_eval_key (T (fst k)) \<and> t_eval_key_poly_num (T (fst k))"

definition regs_agree :: "limb_name set \<Rightarrow> RegisterAllocator \<Rightarrow> 'v limb_state \<Rightarrow> 'v isa_state \<Rightarrow> bool" where
  "regs_agree X A L s \<longleftrightarrow> (\<forall>e \<in> set (ra_map A). entry_key e \<notin> X \<longrightarrow>
     is_regs s (reg_key (snd e)) = ls_env L (entry_key e) \<and> ls_env L (entry_key e) \<noteq> None)"

definition mem_agrees :: "terms \<Rightarrow> (limb_name \<Rightarrow> 'v option) \<Rightarrow> limb_name set \<Rightarrow> limb_name set \<Rightarrow> RegisterAllocator \<Rightarrow>
  'v limb_state \<Rightarrow> 'v isa_state \<Rightarrow> bool" where
  "mem_agrees T inputs X N A L s \<longleftrightarrow>
     (\<forall>k v. is_mem s k = Some v \<longrightarrow> ls_env L k = Some v) \<and>
     (\<forall>k \<in> N. ls_env L k \<noteq> None \<longrightarrow> k \<in> entry_key ` set (ra_map A) \<or> is_mem s k \<noteq> None \<or> generated_key T k) \<and>
     (\<forall>e \<in> set (ra_map A). entry_key e \<notin> X \<and> \<not> is_generated T (fst e) \<and> (is_input T (fst e) \<or> is_output T (fst e)) \<longrightarrow>
        is_mem s (entry_key e) \<noteq> None) \<and>
     (\<forall>k. t_input (T (fst k)) \<longrightarrow> ls_env L k = inputs k)"

definition units_agree :: "RegisterAllocator \<Rightarrow> 'v limb_state \<Rightarrow> 'v isa_state \<Rightarrow> bool" where
  "units_agree A L s \<longleftrightarrow>
     (\<forall>t b. ra_bcu_map A t = Some b \<longrightarrow> (\<exists>bases. is_units s (bcu_id b) = Some (bases, ls_writes L t) \<and>
        (\<forall>(base, r) \<in> set (bcu_bases b). \<exists>i < length bases. r = bcu_register (bcu_id b) i \<and> bases ! i = base))) \<and>
     (\<forall>t. ra_bcu_map A t = None \<longrightarrow> t \<notin> ls_converted L \<longrightarrow> ls_writes L t = [])"

definition polys_agree :: "nat set \<Rightarrow> RegisterAllocator \<Rightarrow> 'v limb_state \<Rightarrow> 'v isa_state \<Rightarrow> bool" where
  "polys_agree PN A L s \<longleftrightarrow>
     (\<forall>t rs. ra_poly_map A t = Some rs \<longrightarrow>
        (\<forall>r \<in> set rs. is_regs s (reg_key r) \<noteq> None) \<and>
        (t \<in> PN \<longrightarrow> ls_poly L t = Some (List.map (\<lambda>r. the (is_regs s (reg_key r))) rs))) \<and>
     (\<forall>t \<in> PN. ls_poly L t \<noteq> None \<longrightarrow> ra_poly_map A t \<noteq> None)"

definition agree where
  "agree T inputs X N PN A L s \<longleftrightarrow> regs_agree X A L s \<and> mem_agrees T inputs X N A L s \<and> units_agree A L s \<and>
     polys_agree PN A L s \<and> is_trace s = ls_trace L"

definition runs where
  "runs T M inputs A s \<longleftrightarrow> isa_run M inputs (List.map snd (ra_code A)) (isa_start T inputs) = Some s"

definition alloc_inv where
  "alloc_inv T M inputs X N PN A L \<longleftrightarrow> book T X A \<and> (\<exists>s. runs T M inputs A s \<and> agree T inputs X N PN A L s)"

section \<open>Eviction\<close>

lemma pool_map: "e \<in> set (ra_map A) \<Longrightarrow> snd e \<in> set (pool A)"
  by (simp add: pool_def)

lemma insert_after_split:
  "u \<notin> fst ` set pre \<Longrightarrow> insert_after u x (pre @ (u, i) # post) = pre @ (u, i) # x # post"
  by (induction pre) auto

lemma writtenI:
  "ra_last_write A (reg_key (snd e)) = Some u \<Longrightarrow> ra_code A = pre @ (u, i) # post \<Longrightarrow>
   untouched (reg_key (snd e)) (entry_key e) post \<Longrightarrow> written A e"
  unfolding written_def by blast

lemma written_cong:
  "ra_code A' = ra_code A \<Longrightarrow> ra_last_write A' = ra_last_write A \<Longrightarrow> written A' = written A"
  by (rule ext) (simp only: written_def)

lemma written_insert:
  assumes w: "written A e" and e: "reg_key (snd e) \<noteq> reg_key r" "entry_key e \<noteq> limb_key l"
    and split: "ra_code A = pre @ post"
    and A': "ra_code A' = pre @ (u, StoreISA l r True) # post" "ra_last_write A' (reg_key (snd e)) = ra_last_write A (reg_key (snd e))"
  shows "written A' e"
proof -
  obtain w1 p i q where w: "ra_last_write A (reg_key (snd e)) = Some w1" "ra_code A = p @ (w1, i) # q"
      "untouched (reg_key (snd e)) (entry_key e) q" using w by (auto simp: written_def)
  have st: "untouched (reg_key (snd e)) (entry_key e) [(u, StoreISA l r True)]"
    using e by (auto simp: untouched_def isa_writes_def isa_touches_def)
  consider us where "pre = p @ (w1, i) # us" "q = us @ post" | us where "p = pre @ us" "post = us @ (w1, i) # q"
  proof -
    from w(2) split have "pre @ post = p @ (w1, i) # q" by simp
    then obtain us where "pre = p @ us \<and> us @ post = (w1, i) # q \<or> pre @ us = p \<and> post = us @ (w1, i) # q"
      by (auto simp: append_eq_append_conv2)
    then show ?thesis using that by (cases us) auto
  qed
  then show ?thesis
  proof cases
    case 1
    then have "ra_code A' = p @ (w1, i) # (us @ (u, StoreISA l r True) # post)" using A'(1) by simp
    moreover have "untouched (reg_key (snd e)) (entry_key e) (us @ (u, StoreISA l r True) # post)"
      using w(3) st 1 by (auto simp: untouched_def)
    ultimately show ?thesis using A'(2) w(1) by (intro writtenI) simp_all
  next
    case 2
    then have "ra_code A' = (pre @ (u, StoreISA l r True) # us) @ (w1, i) # q" using A'(1) by simp
    then show ?thesis using A'(2) w(1,3) by (intro writtenI [OF _ _ w(3)]) simp_all
  qed
qed


lemma pool_ok_mset:
  assumes "pool_ok A" "mset (pool A') = mset (pool A)" "\<forall>r \<in> set (ra_vector_free A'). reg_type r = RegVector"
  shows "pool_ok A'" "pool_keys A' = pool_keys A"
proof -
  have "set (pool A') = set (pool A)" using assms(2) by (rule mset_eq_setD)
  moreover have "mset (List.map reg_key (pool A')) = mset (List.map reg_key (pool A))" using assms(2) by simp
  then have "distinct (List.map reg_key (pool A')) = distinct (List.map reg_key (pool A))" by (rule mset_eq_imp_distinct_iff)
  ultimately show "pool_ok A'" "pool_keys A' = pool_keys A" using assms(1,3) by (simp_all add: pool_ok_def pool_keys_def)
qed

lemma groups_okD:
  assumes "groups_ok A" "ra_poly_map A t = Some rs"
  shows "distinct (List.map reg_key rs)" "r \<in> set rs \<Longrightarrow> reg_type r = RegVector \<and> \<not> reg_dead r"
    "reg_key ` set rs \<inter> pool_keys A = {}"
    "ra_poly_map A t' = Some rs' \<Longrightarrow> t \<noteq> t' \<Longrightarrow> reg_key ` set rs \<inter> reg_key ` set rs' = {}"
  using assms unfolding groups_ok_def by blast+

lemma groups_okI:
  assumes "\<And>t rs. ra_poly_map A t = Some rs \<Longrightarrow> distinct (List.map reg_key rs) \<and> (\<forall>r \<in> set rs. reg_type r = RegVector \<and> \<not> reg_dead r)"
    "\<And>t rs. ra_poly_map A t = Some rs \<Longrightarrow> reg_key ` set rs \<inter> pool_keys A = {}"
    "\<And>t t' rs rs'. ra_poly_map A t = Some rs \<Longrightarrow> ra_poly_map A t' = Some rs' \<Longrightarrow> t \<noteq> t' \<Longrightarrow> reg_key ` set rs \<inter> reg_key ` set rs' = {}"
  shows "groups_ok A"
  using assms unfolding groups_ok_def by blast

lemma groups_ok_cong:
  "groups_ok A \<Longrightarrow> ra_poly_map A' = ra_poly_map A \<Longrightarrow> pool_keys A' \<subseteq> pool_keys A \<Longrightarrow> groups_ok A'"
  unfolding groups_ok_def by (simp, blast)

lemma entries_differ:
  assumes "pool_ok A" "e \<in> set (ra_map A)" "e' \<in> set (ra_map A)" "e \<noteq> e'"
  shows "reg_key (snd e) \<noteq> reg_key (snd e')"
proof -
  have "distinct (List.map (reg_key \<circ> snd) (ra_map A))" using assms(1) by (simp add: pool_ok_def pool_def)
  then have "inj_on (reg_key \<circ> snd) (set (ra_map A))" by (simp add: distinct_map)
  from inj_onD [OF this, of e e'] show ?thesis using assms(2-4) by auto
qed

lemma free_register_ok:
  assumes "free_register r A = Inr A'"
  shows "A' = A\<lparr>ra_vector_free := ra_vector_free A'\<rparr> \<and> reg_type r = RegVector \<and> ra_vector_free A' = ra_vector_free A @ [r] \<or>
    A' = A\<lparr>ra_scalar_free := ra_scalar_free A'\<rparr> \<and> reg_type r = RegScalar \<and> ra_scalar_free A' = ra_scalar_free A @ [r]"
  using assms by (auto simp: free_register_def split: RegType.splits)

lemma free_register_fields:
  assumes "free_register r A = Inr A'"
  shows "ra_map A' = ra_map A" "ra_code A' = ra_code A" "ra_next A' = ra_next A" "ra_last_write A' = ra_last_write A"
    "ra_bcu_map A' = ra_bcu_map A" "ra_bcu_free A' = ra_bcu_free A" "ra_poly_map A' = ra_poly_map A"
    "mset (pool A') = add_mset r (mset (pool A))"
    "(\<forall>x \<in> set (ra_vector_free A). reg_type x = RegVector) \<Longrightarrow> (\<forall>x \<in> set (ra_vector_free A'). reg_type x = RegVector)"
  using free_register_ok [OF assms] by (auto simp: pool_def)

text \<open>The entry leaves the table, its register becomes free, and code is at most inserted.\<close>

lemma evict_shape:
  assumes ev: "evict_limb T ty (Some (l, r)) A = Inr A'" and e: "(l, r) \<in> set (ra_map A)" and t: "table_ok T A"
    and v: "\<forall>x \<in> set (ra_vector_free A). reg_type x = RegVector"
  shows "ra_map A' = lm_erase l (ra_map A)" "mset (pool A') = mset (pool A)" "ra_poly_map A' = ra_poly_map A"
    "ra_bcu_map A' = ra_bcu_map A" "ra_bcu_free A' = ra_bcu_free A" "\<forall>x \<in> set (ra_vector_free A'). reg_type x = RegVector"
    "if is_input T l \<or> is_output T l then ra_code A' = ra_code A \<and> ra_next A' = ra_next A \<and> ra_last_write A' = ra_last_write A
     else \<exists>u. ra_last_write A (reg_key r) = Some u \<and> ra_next A' = ra_next A + 1 \<and>
       ra_code A' = insert_after u (ra_next A, StoreISA (l\<lparr>l_dead := False\<rparr>) r True) (ra_code A) \<and>
       ra_last_write A' = (ra_last_write A)(reg_key r \<mapsto> ra_next A)"
proof -
  obtain A2 where A2: "(if \<not> is_input T l \<and> \<not> is_output T l then spill l r (A\<lparr>ra_map := lm_erase l (ra_map A)\<rparr>)
      else Inr (A\<lparr>ra_map := lm_erase l (ra_map A)\<rparr>)) = Inr A2" "free_register r A2 = Inr A'"
    using ev by (auto simp: evict_limb_def Let_def bindr_Inr_iff guardr_Inr_iff)
  have f: "ra_map A2 = lm_erase l (ra_map A)" "ra_poly_map A2 = ra_poly_map A" "ra_bcu_map A2 = ra_bcu_map A"
      "ra_bcu_free A2 = ra_bcu_free A" "ra_vector_free A2 = ra_vector_free A" "ra_scalar_free A2 = ra_scalar_free A"
    using A2(1) by (auto simp: spill_def note_write_def split: if_splits option.splits)
  note g = free_register_fields [OF A2(2)]
  show "ra_map A' = lm_erase l (ra_map A)" "ra_poly_map A' = ra_poly_map A" "ra_bcu_map A' = ra_bcu_map A"
    "ra_bcu_free A' = ra_bcu_free A" using f g by simp_all
  show "\<forall>x \<in> set (ra_vector_free A'). reg_type x = RegVector" using g(9) f(5) v by simp
  have "mset (ra_map A) = add_mset (l, r) (mset (lm_erase l (ra_map A)))"
    using t e by (intro lm_erase_mset) (simp_all add: table_ok_def)
  then have "image_mset snd (mset (ra_map A)) = image_mset snd (add_mset (l, r) (mset (lm_erase l (ra_map A))))" by simp
  then show "mset (pool A') = mset (pool A)" using g(8) f by (simp add: pool_def)
  show "if is_input T l \<or> is_output T l then ra_code A' = ra_code A \<and> ra_next A' = ra_next A \<and> ra_last_write A' = ra_last_write A
     else \<exists>u. ra_last_write A (reg_key r) = Some u \<and> ra_next A' = ra_next A + 1 \<and>
       ra_code A' = insert_after u (ra_next A, StoreISA (l\<lparr>l_dead := False\<rparr>) r True) (ra_code A) \<and>
       ra_last_write A' = (ra_last_write A)(reg_key r \<mapsto> ra_next A)"
    using A2(1) g by (auto simp: spill_def note_write_def split: if_splits option.splits)
qed


lemma runs_code: "runs T M inputs A s \<Longrightarrow> List.map snd (ra_code A') = List.map snd (ra_code A) \<Longrightarrow> runs T M inputs A' s"
  by (simp add: runs_def)

lemma erase_entry:
  assumes "distinct (List.map entry_key m)" "(l, r) \<in> set m"
  shows "set (lm_erase l m) = set m - {(l, r)}"
proof -
  have "inj_on entry_key (set m)" using assms(1) by (simp add: distinct_map)
  then have "entry_key x = limb_key l \<longleftrightarrow> x = (l, r)" if "x \<in> set m" for x
    using inj_on_eq_iff [of entry_key "set m" x "(l, r)"] that assms(2) by simp
  then have "{e \<in> set m. entry_key e \<noteq> limb_key l} = {e \<in> set m. e \<noteq> (l, r)}" by blast
  then show ?thesis by (simp add: set_lm_erase set_diff_eq)
qed

lemma mem_agreesD:
  assumes "mem_agrees T inputs X N A L s"
  shows "is_mem s k = Some v \<Longrightarrow> ls_env L k = Some v"
    "k \<in> N \<Longrightarrow> ls_env L k \<noteq> None \<Longrightarrow> k \<in> entry_key ` set (ra_map A) \<or> is_mem s k \<noteq> None \<or> generated_key T k"
    "e \<in> set (ra_map A) \<Longrightarrow> entry_key e \<notin> X \<Longrightarrow> \<not> is_generated T (fst e) \<Longrightarrow> is_input T (fst e) \<or> is_output T (fst e) \<Longrightarrow>
      is_mem s (entry_key e) \<noteq> None"
    "t_input (T (fst k)) \<Longrightarrow> ls_env L k = inputs k"
  using assms unfolding mem_agrees_def by blast+

lemma mem_agreesI:
  assumes "\<And>k v. is_mem s k = Some v \<Longrightarrow> ls_env L k = Some v"
    "\<And>k. k \<in> N \<Longrightarrow> ls_env L k \<noteq> None \<Longrightarrow> k \<in> entry_key ` set (ra_map A) \<or> is_mem s k \<noteq> None \<or> generated_key T k"
    "\<And>e. e \<in> set (ra_map A) \<Longrightarrow> entry_key e \<notin> X \<Longrightarrow> \<not> is_generated T (fst e) \<Longrightarrow> is_input T (fst e) \<or> is_output T (fst e) \<Longrightarrow>
      is_mem s (entry_key e) \<noteq> None"
    "\<And>k. t_input (T (fst k)) \<Longrightarrow> ls_env L k = inputs k"
  shows "mem_agrees T inputs X N A L s"
  using assms unfolding mem_agrees_def by blast

lemma regs_agreeD:
  assumes "regs_agree X A L s" "e \<in> set (ra_map A)" "entry_key e \<notin> X"
  shows "is_regs s (reg_key (snd e)) = ls_env L (entry_key e)" "ls_env L (entry_key e) \<noteq> None"
  using assms unfolding regs_agree_def by blast+

lemma mem_agrees_evict:
  assumes m: "mem_agrees T inputs {} N A L s" and A': "set (ra_map A') = set (ra_map A) - {(l, r)}"
    and s': "is_mem s' = is_mem s \<or> (\<exists>v. is_mem s' = (is_mem s)(limb_key l \<mapsto> v) \<and> ls_env L (limb_key l) = Some v)"
    and l: "is_mem s' (limb_key l) \<noteq> None \<or> generated_key T (limb_key l)"
  shows "mem_agrees T inputs {} N A' L s'"
proof -
  have more: "is_mem s' k \<noteq> None" if "is_mem s k \<noteq> None" for k using s' that by auto
  have m1: "ls_env L k = Some v" if "is_mem s k = Some v" for k v using m that by (simp add: mem_agrees_def)
  have m2: "k \<in> entry_key ` set (ra_map A) \<or> is_mem s k \<noteq> None \<or> generated_key T k" if "k \<in> N" "ls_env L k \<noteq> None" for k
    using m that unfolding mem_agrees_def by blast
  have m3: "is_mem s (entry_key e) \<noteq> None"
    if "e \<in> set (ra_map A)" "\<not> is_generated T (fst e)" "is_input T (fst e) \<or> is_output T (fst e)" for e
    using m that unfolding mem_agrees_def by blast
  have "ls_env L k = Some v" if "is_mem s' k = Some v" for k v
    using that s' m1 [of k] by (auto split: if_splits)
  moreover have "k \<in> entry_key ` set (ra_map A') \<or> is_mem s' k \<noteq> None \<or> generated_key T k"
    if "k \<in> N" "ls_env L k \<noteq> None" for k
  proof (cases "k = limb_key l")
    case False
    then have "k \<in> entry_key ` set (ra_map A) \<Longrightarrow> k \<in> entry_key ` set (ra_map A')" by (auto simp: A')
    then show ?thesis using m2 [OF that] more [of k] by blast
  qed (use l in blast)
  moreover have "is_mem s' (entry_key e) \<noteq> None"
    if "e \<in> set (ra_map A')" "\<not> is_generated T (fst e)" "is_input T (fst e) \<or> is_output T (fst e)" for e
    using that m3 [of e] more [of "entry_key e"] by (simp add: A')
  moreover have "\<forall>k. t_input (T (fst k)) \<longrightarrow> ls_env L k = inputs k" using m by (simp add: mem_agrees_def)
  ultimately show ?thesis unfolding mem_agrees_def by simp
qed

lemma code_ok_insert:
  assumes "code_ok A" "ra_code A = pre @ post" "plain i" "ra_code A' = pre @ (ra_next A, i) # post" "ra_next A' = ra_next A + 1"
  shows "code_ok A'"
proof -
  have "\<forall>x \<in> set (ra_code A). fst x \<noteq> ra_next A" using assms(1) by (auto simp: code_ok_def)
  then have "ra_next A \<notin> fst ` set (pre @ post)" using assms(2) by force
  then have "distinct (List.map fst (ra_code A'))" using assms(1,2,4) by (auto simp: code_ok_def)
  moreover have "fst x < ra_next A' \<and> plain (snd x)" if "x \<in> set (ra_code A')" for x
    using that assms by (auto simp: code_ok_def less_Suc_eq)
  ultimately show ?thesis by (simp add: code_ok_def)
qed

lemma evict_limb_inv:
  assumes inv: "alloc_inv T M inputs {} N PN A L" and e: "(l, r) \<in> set (ra_map A)"
    and ev: "evict_limb T ty (Some (l, r)) A = Inr A'"
  shows "alloc_inv T M inputs {} N PN A' L"
proof -
  have b: "table_ok T A" "pool_ok A" "groups_ok A" "code_ok A" "written_ok T {} A" "units_ok A"
    using inv by (simp_all add: alloc_inv_def book_def)
  obtain s where s: "runs T M inputs A s" "agree T inputs {} N PN A L s" using inv by (auto simp: alloc_inv_def)
  have vf: "\<forall>x \<in> set (ra_vector_free A). reg_type x = RegVector" using b(2) by (simp add: pool_ok_def)
  note sh = evict_shape [OF ev e b(1) vf]
  have m: "set (ra_map A') = set (ra_map A) - {(l, r)}"
    using erase_entry [OF _ e] b(1) by (simp add: sh(1) table_ok_def)
  then have sub: "set (ra_map A') \<subseteq> set (ra_map A)" by blast
  have stay: "x \<in> set (ra_map A) \<and> entry_key x \<noteq> limb_key l \<and> reg_key (snd x) \<noteq> reg_key r" if "x \<in> set (ra_map A')" for x
  proof -
    have x: "x \<in> set (ra_map A)" "entry_key x \<noteq> limb_key l" using that by (simp_all add: sh(1) set_lm_erase)
    then have "x \<noteq> (l, r)" by auto
    then show ?thesis using entries_differ [OF b(2) x(1) e] x by simp
  qed
  have r: "reg_type r \<noteq> RegBcu" "\<not> reg_dead r" using b(2) pool_map [OF e] by (auto simp: pool_ok_def)
  have "table_ok T A'" using b(1) sub by (auto simp: table_ok_def sh(1) distinct_lm_erase)
  moreover have p: "pool_ok A'" "pool_keys A' = pool_keys A" using pool_ok_mset [OF b(2) sh(2) sh(6)] .
  moreover have "groups_ok A'" using groups_ok_cong [OF b(3) sh(3)] p(2) by simp
  moreover have "units_ok A'" using b(6) by (simp add: units_ok_def sh(4,5))
  moreover have ra: "regs_agree {} A' L s" using s(2) sub by (auto simp: agree_def regs_agree_def)
  moreover have ua: "units_agree A' L s" "polys_agree PN A' L s" using s(2) by (simp_all add: agree_def units_agree_def polys_agree_def sh(3,4))
  moreover have "code_ok A' \<and> written_ok T {} A' \<and> (\<exists>s'. runs T M inputs A' s' \<and> agree T inputs {} N PN A' L s')"
  proof (cases "is_input T l \<or> is_output T l")
    case True
    then have c: "ra_code A' = ra_code A" "ra_next A' = ra_next A" "ra_last_write A' = ra_last_write A" using sh(7) by auto
    have "written_ok T {} A'" unfolding written_ok_def
    proof (intro ballI impI)
      fix x assume x: "x \<in> set (ra_map A')" "entry_key x \<notin> {} \<and> \<not> is_input T (fst x) \<and> \<not> is_output T (fst x)"
      then have "written A x" using b(5) sub by (simp add: written_ok_def subset_iff)
      then show "written A' x" using c by (simp add: written_def)
    qed
    moreover have "is_mem s (limb_key l) \<noteq> None \<or> generated_key T (limb_key l)"
      using mem_agreesD(3) [OF _ e, of T inputs "{}" N L s] s(2) True by (auto simp: agree_def is_generated_def limb_key_def)
    then have "mem_agrees T inputs {} N A' L s"
      using mem_agrees_evict [OF _ m, of T inputs N L s s] s(2) by (simp add: agree_def)
    ultimately show ?thesis using b(4) c s ra ua by (auto simp: code_ok_def agree_def runs_def)
  next
    case False
    then obtain u where u: "ra_last_write A (reg_key r) = Some u" "ra_next A' = ra_next A + 1"
        "ra_code A' = insert_after u (ra_next A, StoreISA (l\<lparr>l_dead := False\<rparr>) r True) (ra_code A)"
        "ra_last_write A' = (ra_last_write A)(reg_key r \<mapsto> ra_next A)" using sh(7) by auto
    have "written A (l, r)" using bspec [OF b(5) [unfolded written_ok_def] e] False by simp
    then obtain pre i post where w: "ra_code A = pre @ (u, i) # post" "untouched (reg_key r) (limb_key l) post"
      using u(1) by (auto simp: written_def)
    let ?st = "(ra_next A, StoreISA (l\<lparr>l_dead := False\<rparr>) r True)"
    have "u \<notin> fst ` set pre" using b(4) w(1) by (auto simp: code_ok_def)
    then have code: "ra_code A' = pre @ (u, i) # ?st # post" using u(3) w(1) by (simp add: insert_after_split)
    have "code_ok A'"
      by (rule code_ok_insert [OF b(4), of "pre @ [(u, i)]" post]) (simp_all add: w(1) code u(2) plain_def r(2))
    moreover have "written_ok T {} A'" unfolding written_ok_def
    proof (intro ballI impI)
      fix x assume x: "x \<in> set (ra_map A')" "entry_key x \<notin> {} \<and> \<not> is_input T (fst x) \<and> \<not> is_output T (fst x)"
      then have "written A x" using b(5) stay [OF x(1)] by (auto simp: written_ok_def)
      then show "written A' x"
        by (rule written_insert [where r = r and l = "l\<lparr>l_dead := False\<rparr>" and pre = "pre @ [(u, i)]" and post = post and u = "ra_next A"])
          (use stay [OF x(1)] w(1) code u(4) in \<open>auto simp: limb_key_def\<close>)
    qed
    moreover have v: "is_regs s (reg_key r) = ls_env L (limb_key l)" "ls_env L (limb_key l) \<noteq> None"
      using regs_agreeD [OF _ e, of "{}" L s] s(2) by (simp_all add: agree_def)
    then obtain v where v: "is_regs s (reg_key r) = Some v" "ls_env L (limb_key l) = Some v" by auto
    let ?s = "put_mem (limb_key l) v s"
    have k: "limb_key (l\<lparr>l_dead := False\<rparr>) = limb_key l" by (simp add: limb_key_def)
    have "isa_run M inputs ((List.map snd pre @ [i]) @ List.map snd post) (isa_start T inputs) = Some s"
      using s(1) w(1) by (simp add: runs_def)
    then have "isa_run M inputs ((List.map snd pre @ [i]) @ StoreISA (l\<lparr>l_dead := False\<rparr>) r True # List.map snd post) (isa_start T inputs) =
        Some (put_mem (limb_key (l\<lparr>l_dead := False\<rparr>)) v s)"
    proof (rule insert_spill)
      show "\<forall>j \<in> set (List.map snd post). plain j \<and> reg_key r \<notin> isa_writes j \<and> limb_key (l\<lparr>l_dead := False\<rparr>) \<notin> isa_touches j"
        using b(4) w unfolding k by (auto simp: code_ok_def untouched_def)
    qed (use r v in auto)
    then have "runs T M inputs A' ?s" by (simp add: runs_def code k)
    moreover have "mem_agrees T inputs {} N A' L ?s"
      using mem_agrees_evict [OF _ m, of T inputs N L s ?s] s(2) v by (simp add: agree_def)
    moreover have "regs_agree {} A' L ?s" "units_agree A' L ?s" "polys_agree PN A' L ?s" "is_trace ?s = ls_trace L"
      using ra ua s(2) by (simp_all add: regs_agree_def units_agree_def polys_agree_def agree_def)
    ultimately show ?thesis by (auto simp: agree_def)
  qed
  ultimately show ?thesis by (auto simp: alloc_inv_def book_def)
qed


section \<open>Choosing a limb to evict\<close>

lemma set_iterate [simp]: "set (iterate order m) = set m"
  by (metis iterate_def mset_eq_setD)

text \<open>What an eviction promises: it evicts an entry of the table.\<close>

locale evictor =
  fixes T :: terms and ty :: RegType and evict :: "RegisterAllocator \<Rightarrow> RegisterAllocator res"
  assumes picks: "evict A = Inr A' \<Longrightarrow> \<exists>e \<in> set (ra_map A). evict_limb T ty (Some e) A = Inr A'"
begin

lemma keeps:
  assumes "alloc_inv T M inputs {} N PN A L" "evict A = Inr A'"
  shows "alloc_inv T M inputs {} N PN A' L" "ra_instructions A' = ra_instructions A" "ra_map A' \<noteq> ra_map A"
    "ra_poly_map A' = ra_poly_map A" "ra_bcu_map A' = ra_bcu_map A"
proof -
  obtain e where e: "e \<in> set (ra_map A)" "evict_limb T ty (Some e) A = Inr A'" using picks [OF assms(2)] by blast
  obtain l r where lr: "e = (l, r)" by (cases e)
  show "alloc_inv T M inputs {} N PN A' L" using evict_limb_inv [OF assms(1)] e lr by simp
  have b: "table_ok T A" "\<forall>x \<in> set (ra_vector_free A). reg_type x = RegVector"
    using assms(1) by (simp_all add: alloc_inv_def book_def pool_ok_def)
  note sh = evict_shape [OF e(2) [unfolded lr] e(1) [unfolded lr] b]
  show "ra_poly_map A' = ra_poly_map A" "ra_bcu_map A' = ra_bcu_map A" using sh by simp_all
  have "e \<notin> set (ra_map A')" using sh(1) lr by (simp add: set_lm_erase)
  then show "ra_map A' \<noteq> ra_map A" using e(1) by auto
  obtain A2 where A2: "free_register r A2 = Inr A'" "ra_instructions A2 = ra_instructions A"
    using e(2) lr by (auto simp: evict_limb_def Let_def bindr_Inr_iff guardr_Inr_iff spill_def note_write_def split: if_splits option.splits)
  then show "ra_instructions A' = ra_instructions A" by (auto simp: free_register_def split: RegType.splits)
qed


lemma shrinks: "evict A = Inr A' \<Longrightarrow> set (ra_map A') \<subseteq> set (ra_map A)"
proof -
  assume "evict A = Inr A'"
  then obtain e where e: "e \<in> set (ra_map A)" "evict_limb T ty (Some e) A = Inr A'" using picks by blast
  obtain l r where lr: "e = (l, r)" by (cases e)
  obtain A2 where A2: "free_register r A2 = Inr A'" "ra_map A2 = lm_erase l (ra_map A)"
    using e(2) lr by (auto simp: evict_limb_def Let_def bindr_Inr_iff guardr_Inr_iff spill_def note_write_def split: if_splits option.splits)
  then show ?thesis by (simp add: free_register_fields(1) [OF A2(1)] set_lm_erase)
qed

end

text \<open>A candidate comes from the entries visited.\<close>

definition from_entries :: "(Limb \<times> Register) set \<Rightarrow> candidate \<Rightarrow> bool" where
  "from_entries S c \<longleftrightarrow> (\<forall>e. snd c = Some e \<longrightarrow> e \<in> S)"

lemma from_entries_later: "e \<in> S \<Longrightarrow> from_entries S c \<Longrightarrow> from_entries S (take_later e c)"
  by (simp add: from_entries_def take_later_def)

lemma from_entries_None [simp]: "from_entries S (n, None)" by (simp add: from_entries_def)

lemma evict_picks: "from_entries S c \<Longrightarrow> evict_limb T ty (snd c) A = Inr A' \<Longrightarrow> \<exists>e \<in> S. evict_limb T ty (Some e) A = Inr A'"
  by (cases "snd c") (auto simp: from_entries_def evict_limb_def [of _ _ None])

interpretation scalar_evictor: evictor T RegScalar "evict_scalar T order" for T order
proof
  fix A A' assume "evict_scalar T order A = Inr A'"
  then obtain c where c: "foldr_res scalar_candidate (iterate order (ra_map A)) (0, None) = Inr c"
      "evict_limb T RegScalar (snd c) A = Inr A'"
    by (auto simp: evict_scalar_def bindr_Inr_iff)
  have "from_entries (set (ra_map A)) c"
    by (rule foldr_res_inv [OF c(1)]) (auto simp: scalar_candidate_def guardr_Inr_iff from_entries_later split: if_splits)
  then show "\<exists>e \<in> set (ra_map A). evict_limb T RegScalar (Some e) A = Inr A'" using c(2) by (rule evict_picks)
qed

lemma choose_vector_from:
  "choose_vector now (evg, inp, any) = snd evg \<or> choose_vector now (evg, inp, any) = snd inp \<or> choose_vector now (evg, inp, any) = snd any"
  by (auto simp: choose_vector_def Let_def split: prod.split)

definition all_from :: "(Limb \<times> Register) set \<Rightarrow> candidate \<times> candidate \<times> candidate \<Rightarrow> bool" where
  "all_from S c \<longleftrightarrow> from_entries S (fst c) \<and> from_entries S (fst (snd c)) \<and> from_entries S (snd (snd c))"

lemma vector_candidates_from:
  assumes "vector_candidates T e c = Inr c'" "e \<in> S" "all_from S c"
  shows "all_from S c'"
proof -
  obtain evg inp any where c: "c = (evg, inp, any)" by (cases c) auto
  then have "c' = c \<or> c' = (if is_generated T (fst e) then take_later e evg else evg,
      if is_input T (fst e) then take_later e inp else inp, take_later e any)"
    using assms(1) by (simp add: vector_candidates_def guardr_Inr_iff split: if_splits)
  then show ?thesis using assms(2,3) c by (elim disjE) (simp_all add: all_from_def from_entries_later)
qed

interpretation vector_evictor: evictor T RegVector "evict_vector T order" for T order
proof
  fix A A' assume "evict_vector T order A = Inr A'"
  then obtain evg inp any where
    c: "foldr_res (vector_candidates T) (iterate order (ra_map A)) ((0, None), (0, None), (0, None)) = Inr (evg, inp, any)"
      "evict_limb T RegVector (choose_vector (ra_instructions A) (evg, inp, any)) A = Inr A'"
    by (auto simp: evict_vector_def bindr_Inr_iff)
  have "all_from (set (ra_map A)) (evg, inp, any)"
    by (rule foldr_res_inv [OF c(1)]) (auto simp: all_from_def [of _ "((0, None), (0, None), (0, None))"] intro: vector_candidates_from)
  then have "from_entries (set (ra_map A)) (0, choose_vector (ra_instructions A) (evg, inp, any))"
    using choose_vector_from [of "ra_instructions A" evg inp any] by (auto simp: all_from_def from_entries_def)
  from evict_picks [OF this] show "\<exists>e \<in> set (ra_map A). evict_limb T RegVector (Some e) A = Inr A'" using c(2) by simp
qed

section \<open>Taking a register\<close>

text \<open>A register that nothing holds.\<close>

definition unheld :: "RegisterAllocator \<Rightarrow> Register \<Rightarrow> bool" where
  "unheld A r \<longleftrightarrow> reg_type r \<in> {RegVector, RegScalar} \<and> \<not> reg_dead r \<and> reg_key r \<notin> pool_keys A \<and>
     (\<forall>t rs. ra_poly_map A t = Some rs \<longrightarrow> reg_key r \<notin> reg_key ` set rs)"

lemma pop_register_inv:
  assumes inv: "alloc_inv T M inputs X N PN A L"
    and A': "A' = A\<lparr>ra_vector_free := rs\<rparr> \<and> ra_vector_free A = r # rs \<or> A' = A\<lparr>ra_scalar_free := rs\<rparr> \<and> ra_scalar_free A = r # rs"
  shows "alloc_inv T M inputs X N PN A' L" "unheld A' r"
proof -
  have m: "mset (pool A) = add_mset r (mset (pool A'))" using A' by (auto simp: pool_def)
  then have s: "set (pool A) = insert r (set (pool A'))" by (metis set_mset_add_mset_insert set_mset_mset)
  have "mset (List.map reg_key (pool A)) = mset (reg_key r # List.map reg_key (pool A'))" using m by simp
  then have d: "distinct (List.map reg_key (pool A)) = distinct (reg_key r # List.map reg_key (pool A'))" by (rule mset_eq_imp_distinct_iff)
  have p: "pool_ok A" "groups_ok A" using inv by (simp_all add: alloc_inv_def book_def)
  have vf: "set (ra_vector_free A') \<subseteq> set (ra_vector_free A)" using A' by auto
  have "pool_ok A'" using p(1) d s vf by (auto simp: pool_ok_def)
  moreover have "pool_keys A' \<subseteq> pool_keys A" using s by (auto simp: pool_keys_def)
  moreover have f: "ra_map A' = ra_map A" "ra_poly_map A' = ra_poly_map A" "ra_code A' = ra_code A" "ra_next A' = ra_next A"
    "ra_last_write A' = ra_last_write A" "ra_bcu_map A' = ra_bcu_map A" "ra_bcu_free A' = ra_bcu_free A" using A' by auto
  ultimately show "alloc_inv T M inputs X N PN A' L" using inv groups_ok_cong [OF p(2) f(2)]
    by (simp add: alloc_inv_def book_def table_ok_def code_ok_def written_ok_def written_def units_ok_def runs_def
        agree_def regs_agree_def mem_agrees_def units_agree_def polys_agree_def f)
  have "reg_key r \<notin> pool_keys A'" using p(1) d by (simp add: pool_ok_def pool_keys_def)
  moreover have "reg_key r \<in> pool_keys A" using s by (simp add: pool_keys_def)
  moreover have "reg_type r \<in> {RegVector, RegScalar} \<and> \<not> reg_dead r" using p(1) s by (auto simp: pool_ok_def)
  moreover have "reg_key r \<notin> reg_key ` set rs" if "ra_poly_map A t = Some rs" for t rs
    using p(2) that calculation(2) unfolding groups_ok_def by blast
  ultimately show "unheld A' r" by (auto simp: unheld_def f)
qed

lemma take_register_cases:
  assumes "take_register T order l A = Inr (r, A')"
  obtains A1 rs where "A1 = A \<or> evict_scalar T order A = Inr A1 \<or> evict_vector T order A = Inr A1"
      "A' = A1\<lparr>ra_vector_free := rs\<rparr> \<and> ra_vector_free A1 = r # rs \<or> A' = A1\<lparr>ra_scalar_free := rs\<rparr> \<and> ra_scalar_free A1 = r # rs"
proof (cases "is_scalar T l")
  case True
  then obtain A1 where "(if ra_scalar_free A = [] then evict_scalar T order A else Inr A) = Inr A1"
      "(case ra_scalar_free A1 of [] \<Rightarrow> Inl Undefined
         | r # rs \<Rightarrow> guardr (reg_id r \<noteq> 2 ^ 32 - 1) AssertFail (Inr (r, A1\<lparr>ra_scalar_free := rs\<rparr>))) = Inr (r, A')"
    using assms by (auto simp: take_register_def take_scalar_def bindr_Inr_iff)
  then show ?thesis by (cases "ra_scalar_free A1") (auto simp: guardr_Inr_iff split: if_splits intro!: that)
next
  case False
  then obtain A1 where "(if ra_vector_free A = [] then evict_vector T order A else Inr A) = Inr A1"
      "(case ra_vector_free A1 of [] \<Rightarrow> Inl Undefined
         | r # rs \<Rightarrow> guardr (reg_id r \<noteq> 2 ^ 32 - 1) AssertFail (Inr (r, A1\<lparr>ra_vector_free := rs\<rparr>))) = Inr (r, A')"
    using assms by (auto simp: take_register_def take_vector_def bindr_Inr_iff)
  then show ?thesis by (cases "ra_vector_free A1") (auto simp: guardr_Inr_iff split: if_splits intro!: that)
qed

lemma take_register_inv:
  assumes "alloc_inv T M inputs {} N PN A L" "take_register T order l A = Inr (r, A')"
  shows "alloc_inv T M inputs {} N PN A' L" "unheld A' r" "ra_poly_map A' = ra_poly_map A" "ra_bcu_map A' = ra_bcu_map A"
    "ra_instructions A' = ra_instructions A" "set (ra_map A') \<subseteq> set (ra_map A)"
proof -
  obtain A1 rs where A1: "A1 = A \<or> evict_scalar T order A = Inr A1 \<or> evict_vector T order A = Inr A1"
      "A' = A1\<lparr>ra_vector_free := rs\<rparr> \<and> ra_vector_free A1 = r # rs \<or> A' = A1\<lparr>ra_scalar_free := rs\<rparr> \<and> ra_scalar_free A1 = r # rs"
    using take_register_cases [OF assms(2)] .
  have "set (ra_map A1) \<subseteq> set (ra_map A)" using A1(1) scalar_evictor.shrinks [of T order A A1] vector_evictor.shrinks [of T order A A1] by blast
  then show "set (ra_map A') \<subseteq> set (ra_map A)" using A1(2) by auto
  have inv: "alloc_inv T M inputs {} N PN A1 L" "ra_poly_map A1 = ra_poly_map A" "ra_bcu_map A1 = ra_bcu_map A"
    "ra_instructions A1 = ra_instructions A"
    using A1(1) assms(1) scalar_evictor.keeps [OF assms(1)] vector_evictor.keeps [OF assms(1)] by blast+
  show "alloc_inv T M inputs {} N PN A' L" "unheld A' r" using pop_register_inv [OF inv(1) A1(2)] by simp_all
  show "ra_poly_map A' = ra_poly_map A" "ra_bcu_map A' = ra_bcu_map A" "ra_instructions A' = ra_instructions A"
    using A1(2) inv by auto
qed


section \<open>Emitting code\<close>

lemma alloc_inv_frame:
  assumes "alloc_inv T M inputs X N PN A L"
    and "ra_map A' = ra_map A" "ra_code A' = ra_code A" "ra_next A' = ra_next A" "ra_last_write A' = ra_last_write A"
      "ra_vector_free A' = ra_vector_free A" "ra_scalar_free A' = ra_scalar_free A" "ra_bcu_map A' = ra_bcu_map A"
      "ra_bcu_free A' = ra_bcu_free A" "ra_poly_map A' = ra_poly_map A"
  shows "alloc_inv T M inputs X N PN A' L"
  using assms
  by (simp add: alloc_inv_def book_def table_ok_def pool_ok_def pool_keys_def pool_def groups_ok_def code_ok_def written_ok_def
      written_def units_ok_def runs_def agree_def regs_agree_def mem_agrees_def units_agree_def polys_agree_def)

lemma push_code_fields [simp]:
  "ra_code (push_code i A) = ra_code A @ [(ra_next A, i)]" "ra_next (push_code i A) = ra_next A + 1"
  "ra_map (push_code i A) = ra_map A" "ra_last_write (push_code i A) = ra_last_write A"
  "ra_vector_free (push_code i A) = ra_vector_free A" "ra_scalar_free (push_code i A) = ra_scalar_free A"
  "ra_bcu_map (push_code i A) = ra_bcu_map A" "ra_bcu_free (push_code i A) = ra_bcu_free A"
  "ra_poly_map (push_code i A) = ra_poly_map A" "ra_instructions (push_code i A) = ra_instructions A"
  by (simp_all add: push_code_def)

lemma note_write_fields [simp]:
  "ra_code (note_write u r A) = ra_code A" "ra_next (note_write u r A) = ra_next A" "ra_map (note_write u r A) = ra_map A"
  "ra_last_write (note_write u r A) = (ra_last_write A)(reg_key r \<mapsto> u)"
  "ra_vector_free (note_write u r A) = ra_vector_free A" "ra_scalar_free (note_write u r A) = ra_scalar_free A"
  "ra_bcu_map (note_write u r A) = ra_bcu_map A" "ra_bcu_free (note_write u r A) = ra_bcu_free A"
  "ra_poly_map (note_write u r A) = ra_poly_map A" "ra_instructions (note_write u r A) = ra_instructions A"
  by (simp_all add: note_write_def)

lemma note_input_fields [simp]:
  "ra_code (note_input T l A) = ra_code A" "ra_next (note_input T l A) = ra_next A" "ra_map (note_input T l A) = ra_map A"
  "ra_last_write (note_input T l A) = ra_last_write A"
  "ra_vector_free (note_input T l A) = ra_vector_free A" "ra_scalar_free (note_input T l A) = ra_scalar_free A"
  "ra_bcu_map (note_input T l A) = ra_bcu_map A" "ra_bcu_free (note_input T l A) = ra_bcu_free A"
  "ra_poly_map (note_input T l A) = ra_poly_map A" "ra_instructions (note_input T l A) = ra_instructions A"
  by (simp_all add: note_input_def note_io_limb_def Let_def)

lemma pool_push [simp]: "pool (push_code i A) = pool A" "pool_keys (push_code i A) = pool_keys A"
  by (simp_all add: pool_def pool_keys_def)

lemma written_push:
  assumes "written A e" "reg_key (snd e) \<notin> isa_writes i" "entry_key e \<notin> isa_touches i"
    and "ra_code A' = ra_code A @ [(u, i)]" "ra_last_write A' (reg_key (snd e)) = ra_last_write A (reg_key (snd e))"
  shows "written A' e"
proof -
  obtain w pre j post where w: "ra_last_write A (reg_key (snd e)) = Some w" "ra_code A = pre @ (w, j) # post"
      "untouched (reg_key (snd e)) (entry_key e) post" using assms(1) by (auto simp: written_def)
  then have "untouched (reg_key (snd e)) (entry_key e) (post @ [(u, i)])" using assms(2,3) by (auto simp: untouched_def)
  with w assms(4,5) show ?thesis by (intro writtenI [where post = "post @ [(u, i)]"]) simp_all
qed

text \<open>An instruction that leaves the registers and the memory of the entries alone.\<close>

definition leaves_entries :: "RegisterAllocator \<Rightarrow> limb_name set \<Rightarrow> ISAInstruction \<Rightarrow> bool" where
  "leaves_entries A X i \<longleftrightarrow> (\<forall>e \<in> set (ra_map A). entry_key e \<notin> X \<longrightarrow> reg_key (snd e) \<notin> isa_writes i \<and> entry_key e \<notin> isa_touches i)"

lemma book_push:
  assumes "book T X A" "plain i" "leaves_entries A X i"
  shows "book T X (push_code i A)"
proof -
  have "code_ok (push_code i A)"
    by (rule code_ok_insert [of A "ra_code A" "[]" i]) (use assms(1,2) in \<open>simp_all add: book_def\<close>)
  moreover have "written_ok T X (push_code i A)" unfolding written_ok_def
  proof (intro ballI impI)
    fix e assume e: "e \<in> set (ra_map (push_code i A))" "entry_key e \<notin> X \<and> \<not> is_input T (fst e) \<and> \<not> is_output T (fst e)"
    then have "written A e" using assms(1) by (simp add: book_def written_ok_def)
    then show "written (push_code i A) e"
      by (rule written_push [where i = i and u = "ra_next A"]) (use assms(3) e in \<open>auto simp: leaves_entries_def\<close>)
  qed
  ultimately show ?thesis using assms(1)
    by (simp add: book_def table_ok_def pool_ok_def groups_ok_def units_ok_def)
qed

lemma runs_push: "runs T M inputs A s \<Longrightarrow> isa_step M inputs i s = Some s' \<Longrightarrow> runs T M inputs (push_code i A) s'"
  by (simp add: runs_def isa_run_snoc)

text \<open>A new entry with an unheld register.\<close>

lemma pool_add_entry:
  "ra_map A' = ra_map A @ [(l, r)] \<Longrightarrow> ra_vector_free A' = ra_vector_free A \<Longrightarrow> ra_scalar_free A' = ra_scalar_free A \<Longrightarrow>
   mset (pool A') = add_mset r (mset (pool A))"
  by (simp add: pool_def)

lemma book_add_entry:
  assumes "book T X A" "unheld A r" "limb_key l \<notin> entry_key ` set (ra_map A)" "\<not> is_bcor T l"
    and "ra_map A' = ra_map A @ [(l, r)]" "ra_code A' = ra_code A" "ra_next A' = ra_next A" "ra_last_write A' = ra_last_write A"
      "ra_vector_free A' = ra_vector_free A" "ra_scalar_free A' = ra_scalar_free A" "ra_bcu_map A' = ra_bcu_map A"
      "ra_bcu_free A' = ra_bcu_free A" "ra_poly_map A' = ra_poly_map A"
  shows "book T (insert (limb_key l) X) A'"
proof -
  have m: "mset (pool A') = add_mset r (mset (pool A))" using pool_add_entry assms by blast
  then have s: "set (pool A') = insert r (set (pool A))" by (metis set_mset_add_mset_insert set_mset_mset)
  have "mset (List.map reg_key (pool A')) = mset (reg_key r # List.map reg_key (pool A))" using m by simp
  then have d: "distinct (List.map reg_key (pool A')) = distinct (reg_key r # List.map reg_key (pool A))" by (rule mset_eq_imp_distinct_iff)
  have b: "table_ok T A" "pool_ok A" "groups_ok A" "code_ok A" "written_ok T X A" "units_ok A"
    using assms(1) by (simp_all add: book_def)
  have "reg_key r \<notin> reg_key ` set (pool A)" using assms(2) by (simp add: unheld_def pool_keys_def)
  then have "pool_ok A'" using b(2) assms(2) d s by (simp add: pool_ok_def unheld_def assms(9))
  moreover have "reg_key ` set rs \<inter> pool_keys A' = {}" if "ra_poly_map A' t = Some rs" for t rs
  proof -
    have "reg_key ` set rs \<inter> pool_keys A = {}" using groups_okD(3) [OF b(3)] that assms(13) by simp
    moreover have "reg_key r \<notin> reg_key ` set rs" using assms(2,13) that by (simp add: unheld_def)
    ultimately show ?thesis by (simp add: pool_keys_def s)
  qed
  then have "groups_ok A'" using groups_okD [OF b(3)] assms(13) by (intro groups_okI) simp_all
  moreover have "table_ok T A'" using b(1) assms(3,4) by (auto simp: table_ok_def assms(5))
  moreover have "code_ok A'" "units_ok A'" using b(4,6) by (simp_all add: code_ok_def units_ok_def assms(5-13))
  moreover have "written_ok T (insert (limb_key l) X) A'" 
    unfolding written_ok_def written_cong [OF assms(6,8)] using b(5) by (auto simp: assms(5) written_ok_def)
  ultimately show ?thesis by (simp add: book_def)
qed


lemma book_note_write:
  assumes "book T X A" "(l, r) \<in> set (ra_map A)" "ra_code A = pre @ (u, i) # post" "untouched (reg_key r) (limb_key l) post"
  shows "book T (X - {limb_key l}) (note_write u r A)"
proof -
  have b: "table_ok T A" "pool_ok A" "written_ok T X A" using assms(1) by (simp_all add: book_def)
  have "written_ok T (X - {limb_key l}) (note_write u r A)" unfolding written_ok_def
  proof (intro ballI impI)
    fix e assume e: "e \<in> set (ra_map (note_write u r A))"
      "entry_key e \<notin> X - {limb_key l} \<and> \<not> is_input T (fst e) \<and> \<not> is_output T (fst e)"
    show "written (note_write u r A) e"
    proof (cases "e = (l, r)")
      case True
      then show ?thesis using assms(3,4) by (intro writtenI [where u = u and i = i and pre = pre and post = post]) simp_all
    next
      case False
      have "inj_on entry_key (set (ra_map A))" using b(1) by (simp add: table_ok_def distinct_map)
      then have "entry_key e \<noteq> limb_key l" using inj_onD [of entry_key "set (ra_map A)" e "(l, r)"] e(1) assms(2) False by auto
      then have w: "written A e" using b(3) e by (simp add: written_ok_def)
      have "reg_key (snd e) \<noteq> reg_key r" using entries_differ [OF b(2) _ assms(2) False] e(1) by simp
      then show ?thesis using w by (simp add: written_def)
    qed
  qed
  then show ?thesis using assms(1)
    by (simp add: book_def table_ok_def pool_ok_def pool_keys_def pool_def groups_ok_def code_ok_def units_ok_def)
qed

lemma unheld_entry: "unheld A r \<Longrightarrow> e \<in> set (ra_map A) \<Longrightarrow> reg_key (snd e) \<noteq> reg_key r"
  unfolding unheld_def pool_keys_def using pool_map [of e A] by (metis imageI)

lemma unheld_group: "unheld A r \<Longrightarrow> ra_poly_map A t = Some rs \<Longrightarrow> reg_key r \<notin> reg_key ` set rs"
  by (simp add: unheld_def)

text \<open>Writing an unheld register changes nothing that matters.\<close>

lemma agree_write_unheld:
  assumes "agree T inputs X N PN A L s" "unheld A r"
  shows "agree T inputs X N PN A L (reg_write r v s)"
proof -
  have "regs_agree X A L (reg_write r v s)" "mem_agrees T inputs X N A L (reg_write r v s)" "units_agree A L (reg_write r v s)"
    using assms(1) unheld_entry [OF assms(2)]
    by (simp_all add: agree_def regs_agree_def mem_agrees_def units_agree_def reg_write_def)
  moreover have "is_regs (reg_write r v s) (reg_key x) = is_regs s (reg_key x)" if "ra_poly_map A t = Some rs" "x \<in> set rs" for t rs x
  proof -
    have "reg_key x \<noteq> reg_key r" using unheld_group [OF assms(2) that(1)] that(2) by (metis imageI)
    then show ?thesis by (simp add: reg_write_def)
  qed
  then have "polys_agree PN A L (reg_write r v s)" using assms(1)
    by (simp add: agree_def polys_agree_def cong: map_cong)
  ultimately show ?thesis using assms(1) by (simp add: agree_def reg_write_def)
qed

lemma load_src_inv:
  assumes wf: "terms_wf T" and inv: "alloc_inv T M inputs {} N PN A L" and src: "\<not> is_bcor T src \<Longrightarrow> limb_key src \<in> N \<and> ls_env L (limb_key src) \<noteq> None"
    and load: "load_src T order src A = Inr A'"
  shows "alloc_inv T M inputs {} N PN A' L \<and> ra_poly_map A' = ra_poly_map A \<and> ra_bcu_map A' = ra_bcu_map A"
proof (cases "is_bcor T src \<or> lm_find (limb_key src) (ra_map A) \<noteq> None")
  case True
  then show ?thesis using load inv by (simp add: load_src_def)
next
  case False
  let ?k = "limb_key src"
  obtain v where v: "ls_env L ?k = Some v" "?k \<in> N" using src False by auto
  obtain r A1 where A1: "take_register T order src A = Inr (r, A1)" using load False by (auto simp: load_src_def bindr_Inr_iff)
  note tk = take_register_inv [OF inv A1]
  define lv where "lv = src\<lparr>l_dead := False, l_next_use := ra_instructions A1, l_last_use := ra_instructions A1\<rparr>"
  define i where "i = (if is_generated T src then LoadISA True r lv False False else LoadISA False r lv (is_scalar T src) False)"
  have lk: "limb_key lv = ?k" "l_term lv = l_term src" by (simp_all add: lv_def limb_key_def)
  have notin: "?k \<notin> entry_key ` set (ra_map A1)"
  proof
    assume "?k \<in> entry_key ` set (ra_map A1)"
    moreover have "set (ra_map A1) \<subseteq> set (ra_map A)" by (rule tk(6))
    ultimately show False using False lm_find_None [of ?k "ra_map A"] by auto
  qed
  have new: "lm_assign lv r (ra_map A1) = ra_map A1 @ [(lv, r)]" using lm_assign_new [of lv "ra_map A1" r] notin by (simp add: lk)
  have A': "A' = note_write (ra_next A1) r (push_code i (note_input T src A1))\<lparr>ra_map := ra_map A1 @ [(lv, r)]\<rparr>"
    using load False A1 new unfolding i_def lv_def by (auto simp: load_src_def Let_def)
  obtain s where s: "runs T M inputs A1 s" "agree T inputs {} N PN A1 L s" using tk(1) by (auto simp: alloc_inv_def)
  have m: "mem_agrees T inputs {} N A1 L s" using s(2) by (simp add: agree_def)
  have step: "isa_step M inputs i s = Some (reg_write r v s)"
  proof (cases "is_generated T src")
    case True
    then have "t_input (T (fst ?k))" using wf by (simp add: is_generated_def terms_wf_def limb_key_def)
    then have "inputs ?k = Some v" using mem_agreesD(4) [OF m, of ?k] v(1) by simp
    with True show ?thesis by (simp add: i_def isa_step_def reg_reads_def kill_dead_plain lk)
  next
    case g: False
    then have "is_mem s ?k = Some v"
      using mem_agreesD(1,2) [OF m, of ?k] v notin by (auto simp: is_generated_def limb_key_def)
    with g show ?thesis by (simp add: i_def isa_step_def reg_reads_def kill_dead_plain lk)
  qed
  define B where "B = A1\<lparr>ra_map := ra_map A1 @ [(lv, r)]\<rparr>"
  have "book T {?k} B"
    using book_add_entry [of T "{}" A1 r lv B] tk(1,2) notin False by (simp add: B_def alloc_inv_def lk)
  moreover have "leaves_entries B {?k} i"
    using unheld_entry [OF tk(2)] by (auto simp: leaves_entries_def B_def lk i_def isa_writes_def isa_touches_def)
  ultimately have "book T {?k} (push_code i B)" by (intro book_push) (simp_all add: plain_def i_def)
  then have "book T ({?k} - {limb_key lv}) (note_write (ra_next B) r (push_code i B))"
    by (rule book_note_write [where post = "[]" and i = i]) (simp_all add: B_def untouched_def)
  then have "book T {} (note_write (ra_next B) r (push_code i B))" by (simp add: lk)
  moreover have "runs T M inputs (note_write (ra_next B) r (push_code i B)) (reg_write r v s)"
    using runs_push [OF s(1) step] by (simp add: runs_def B_def)
  moreover have "agree T inputs {} N PN (note_write (ra_next B) r (push_code i B)) L (reg_write r v s)"
  proof -
    have a: "agree T inputs {} N PN A1 L (reg_write r v s)" by (rule agree_write_unheld [OF s(2) tk(2)])
    have "regs_agree {} (note_write (ra_next B) r (push_code i B)) L (reg_write r v s)"
      using a v(1) by (auto simp: agree_def regs_agree_def B_def lk reg_write_def)
    moreover have "mem_agrees T inputs {} N (note_write (ra_next B) r (push_code i B)) L (reg_write r v s)"
    proof (rule mem_agreesI)
      fix e assume e: "e \<in> set (ra_map (note_write (ra_next B) r (push_code i B)))" "\<not> is_generated T (fst e)"
        "is_input T (fst e) \<or> is_output T (fst e)"
      show "is_mem (reg_write r v s) (entry_key e) \<noteq> None"
      proof (cases "e \<in> set (ra_map A1)")
        case True
        then show ?thesis using mem_agreesD(3) [OF m True] e by (simp add: reg_write_def)
      next
        case False
        then have "e = (lv, r)" using e(1) by (simp add: B_def)
        moreover from this have "\<not> generated_key T ?k" using e(2) by (simp add: is_generated_def limb_key_def lk(2))
        ultimately show ?thesis using mem_agreesD(2) [OF m v(2)] v(1) notin by (auto simp: lk reg_write_def)
      qed
    qed (use mem_agreesD [OF m] in \<open>auto simp: reg_write_def B_def\<close>)
    ultimately show ?thesis using a by (simp add: agree_def units_agree_def polys_agree_def B_def)
  qed
  ultimately have "alloc_inv T M inputs {} N PN (note_write (ra_next B) r (push_code i B)) L" by (auto simp: alloc_inv_def)
  then have "alloc_inv T M inputs {} N PN A' L" by (rule alloc_inv_frame) (simp_all add: A' B_def)
  then show ?thesis using tk(3,4) by (simp add: A')
qed


section \<open>Entries that leave or are replaced\<close>

definition inv_at where
  "inv_at T M inputs X N PN A L s \<longleftrightarrow> book T X A \<and> runs T M inputs A s \<and> agree T inputs X N PN A L s"

lemma alloc_inv_at: "alloc_inv T M inputs X N PN A L \<longleftrightarrow> (\<exists>s. inv_at T M inputs X N PN A L s)"
  by (auto simp: alloc_inv_def inv_at_def)

lemma inv_at_mono:
  assumes "inv_at T M inputs X N PN A L s" "N' \<subseteq> N" "PN' \<subseteq> PN"
  shows "inv_at T M inputs X N' PN' A L s"
proof -
  have "mem_agrees T inputs X N A L s" "polys_agree PN A L s" using assms(1) by (simp_all add: inv_at_def agree_def)
  then have "mem_agrees T inputs X N' A L s" "polys_agree PN' A L s"
    using assms(2,3) unfolding mem_agrees_def polys_agree_def by blast+
  then show ?thesis using assms(1) by (simp add: inv_at_def agree_def)
qed

lemma inv_at_frame:
  assumes "inv_at T M inputs X N PN A L s"
    and "ra_map A' = ra_map A" "ra_code A' = ra_code A" "ra_next A' = ra_next A" "ra_last_write A' = ra_last_write A"
      "ra_vector_free A' = ra_vector_free A" "ra_scalar_free A' = ra_scalar_free A" "ra_bcu_map A' = ra_bcu_map A"
      "ra_bcu_free A' = ra_bcu_free A" "ra_poly_map A' = ra_poly_map A"
  shows "inv_at T M inputs X N PN A' L s"
  using assms
  by (simp add: inv_at_def book_def table_ok_def pool_ok_def pool_keys_def pool_def groups_ok_def code_ok_def written_ok_def
      written_def units_ok_def runs_def agree_def regs_agree_def mem_agrees_def units_agree_def polys_agree_def)

text \<open>The table changes to entries that have the key and register of an entry before; the free lists take up the other registers.\<close>

lemma inv_at_entries:
  assumes inv: "inv_at T M inputs X N PN A L s"
    and sub: "\<And>e. e \<in> set (ra_map A') \<Longrightarrow> \<exists>e0 \<in> set (ra_map A). entry_key e = entry_key e0 \<and> snd e = snd e0"
    and keep: "\<And>k. k \<in> N \<Longrightarrow> k \<in> entry_key ` set (ra_map A) \<Longrightarrow> k \<in> entry_key ` set (ra_map A')"
    and m: "mset (pool A') = mset (pool A)" "distinct (List.map entry_key (ra_map A'))"
      "\<forall>r \<in> set (ra_vector_free A'). reg_type r = RegVector"
    and f: "ra_code A' = ra_code A" "ra_next A' = ra_next A" "ra_last_write A' = ra_last_write A" "ra_bcu_map A' = ra_bcu_map A"
      "ra_bcu_free A' = ra_bcu_free A" "ra_poly_map A' = ra_poly_map A"
  shows "inv_at T M inputs X N PN A' L s"
proof -
  have b: "table_ok T A" "pool_ok A" "groups_ok A" "code_ok A" "written_ok T X A" "units_ok A"
    and a: "regs_agree X A L s" "mem_agrees T inputs X N A L s" "units_agree A L s" "polys_agree PN A L s" "is_trace s = ls_trace L"
    and r: "runs T M inputs A s"
    using inv by (simp_all add: inv_at_def book_def agree_def)
  have e0: "\<exists>e0 \<in> set (ra_map A). entry_key e = entry_key e0 \<and> snd e = snd e0 \<and> l_term (fst e) = l_term (fst e0)"
    if "e \<in> set (ra_map A')" for e using sub [OF that] by (auto simp: limb_key_def)
  have "table_ok T A'" using b(1) m(2) e0 by (fastforce simp: table_ok_def)
  moreover note pool_ok_mset [OF b(2) m(1) m(3)]
  moreover from this have "groups_ok A'" using groups_ok_cong [OF b(3) f(6)] by simp
  moreover have "code_ok A'" "units_ok A'" using b(4,6) by (simp_all add: code_ok_def units_ok_def f)
  moreover have "written_ok T X A'" unfolding written_ok_def written_cong [OF f(1,3)]
  proof (intro ballI impI)
    fix e assume e: "e \<in> set (ra_map A')" "entry_key e \<notin> X \<and> \<not> is_input T (fst e) \<and> \<not> is_output T (fst e)"
    obtain e' where e': "e' \<in> set (ra_map A)" "entry_key e = entry_key e'" "snd e = snd e'" "l_term (fst e) = l_term (fst e')"
      using e0 [OF e(1)] by blast
    then have "written A e'" using b(5) e(2) by (simp add: written_ok_def)
    then show "written A e" using e' by (simp add: written_def)
  qed
  moreover have "regs_agree X A' L s" unfolding regs_agree_def
  proof (intro ballI impI)
    fix e assume "e \<in> set (ra_map A')" "entry_key e \<notin> X"
    then show "is_regs s (reg_key (snd e)) = ls_env L (entry_key e) \<and> ls_env L (entry_key e) \<noteq> None"
      using e0 [of e] regs_agreeD [OF a(1)] by force
  qed
  moreover have "mem_agrees T inputs X N A' L s"
  proof (rule mem_agreesI)
    fix e assume e: "e \<in> set (ra_map A')" "entry_key e \<notin> X" "\<not> is_generated T (fst e)" "is_input T (fst e) \<or> is_output T (fst e)"
    obtain e' where e': "e' \<in> set (ra_map A)" "entry_key e = entry_key e'" "l_term (fst e) = l_term (fst e')" using e0 [OF e(1)] by blast
    then show "is_mem s (entry_key e) \<noteq> None"
      using mem_agreesD(3) [OF a(2) e'(1)] e by (simp add: is_generated_def)
  qed (use mem_agreesD [OF a(2)] keep in blast)+
  moreover have "units_agree A' L s" "polys_agree PN A' L s" using a(3,4) by (simp_all add: units_agree_def polys_agree_def f)
  moreover have "runs T M inputs A' s" using r by (simp add: runs_def f)
  ultimately show ?thesis using a(5) by (simp add: inv_at_def book_def agree_def)
qed

lemma inv_at_forget:
  assumes inv: "inv_at T M inputs X N PN A L s" and k: "k \<notin> entry_key ` set (ra_map A)"
  shows "inv_at T M inputs (X - {k}) N PN A L s"
proof -
  have "entry_key e \<notin> X - {k} \<longleftrightarrow> entry_key e \<notin> X" if "e \<in> set (ra_map A)" for e using k that by auto
  then show ?thesis using inv
    by (simp add: inv_at_def book_def agree_def written_ok_def regs_agree_def mem_agrees_def cong: ball_cong)
qed

lemma table_lookup:
  assumes "table_ok T A" "lm_find k (ra_map A) = Some r"
  obtains l where "(l, r) \<in> set (ra_map A)" "limb_key l = k"
  using lm_find_Some [OF assms(2)] by blast

text \<open>A limb that is not read again gives its register back.\<close>

lemma drop_entry:
  assumes inv: "inv_at T M inputs X N PN A L s" and r: "lm_find (limb_key l) (ra_map A) = Some r" and n: "limb_key l \<notin> N"
    and free: "free_register r (A\<lparr>ra_map := lm_erase l (ra_map A)\<rparr>) = Inr A'"
  shows "inv_at T M inputs (X - {limb_key l}) N PN A' L s"
proof -
  have b: "table_ok T A" "pool_ok A" using inv by (simp_all add: inv_at_def book_def)
  obtain l0 where l0: "(l0, r) \<in> set (ra_map A)" "limb_key l0 = limb_key l" using table_lookup [OF b(1) r] .
  have d: "distinct (List.map entry_key (ra_map A))" using b(1) by (simp add: table_ok_def)
  note f = free_register_fields [OF free]
  have "image_mset snd (mset (ra_map A)) = image_mset snd (add_mset (l0, r) (mset (lm_erase l (ra_map A))))"
    by (subst lm_erase_mset [OF d l0]) simp
  then have m: "mset (pool A') = mset (pool A)" using f(8) by (simp add: pool_def)
  have "inv_at T M inputs X N PN A' L s"
  proof (rule inv_at_entries [OF inv _ _ m])
    show "\<forall>r \<in> set (ra_vector_free A'). reg_type r = RegVector" using f(9) b(2) by (simp add: pool_ok_def)
    show "k \<in> entry_key ` set (ra_map A')" if "k \<in> N" "k \<in> entry_key ` set (ra_map A)" for k
      using that n f(1) by (auto simp: set_lm_erase)
  qed (use f d in \<open>auto simp: set_lm_erase distinct_lm_erase\<close>)
  then show ?thesis by (rule inv_at_forget) (auto simp: f(1) set_lm_erase)
qed

lemma replace_entry:
  assumes inv: "inv_at T M inputs X N PN A L s" and r: "lm_find (limb_key l) (ra_map A) = Some r"
  shows "inv_at T M inputs X N PN (A\<lparr>ra_map := lm_assign l r (lm_erase l (ra_map A))\<rparr>) L s"
    "set (lm_assign l r (lm_erase l (ra_map A))) = insert (l, r) {e \<in> set (ra_map A). entry_key e \<noteq> limb_key l}"
proof -
  have b: "table_ok T A" "pool_ok A" using inv by (simp_all add: inv_at_def book_def)
  obtain l0 where l0: "(l0, r) \<in> set (ra_map A)" "limb_key l0 = limb_key l" using table_lookup [OF b(1) r] .
  have d: "distinct (List.map entry_key (ra_map A))" using b(1) by (simp add: table_ok_def)
  have new: "lm_assign l r (lm_erase l (ra_map A)) = lm_erase l (ra_map A) @ [(l, r)]"
    by (rule lm_assign_new) (auto simp: set_lm_erase)
  then show set: "set (lm_assign l r (lm_erase l (ra_map A))) = insert (l, r) {e \<in> set (ra_map A). entry_key e \<noteq> limb_key l}"
    by (simp add: set_lm_erase)
  have "image_mset snd (mset (ra_map A)) = image_mset snd (add_mset (l0, r) (mset (lm_erase l (ra_map A))))"
    by (subst lm_erase_mset [OF d l0]) simp
  then have m: "mset (pool (A\<lparr>ra_map := lm_erase l (ra_map A) @ [(l, r)]\<rparr>)) = mset (pool A)" by (simp add: pool_def)
  show "inv_at T M inputs X N PN (A\<lparr>ra_map := lm_assign l r (lm_erase l (ra_map A))\<rparr>) L s" unfolding new
  proof (rule inv_at_entries [OF inv _ _ m])
    fix e assume "e \<in> set (ra_map (A\<lparr>ra_map := lm_erase l (ra_map A) @ [(l, r)]\<rparr>))"
    then have "e = (l, r) \<or> e \<in> set (ra_map A)" by (auto simp: set_lm_erase)
    then show "\<exists>e0 \<in> set (ra_map A). entry_key e = entry_key e0 \<and> snd e = snd e0" using l0 by force
  next
    fix k assume "k \<in> entry_key ` set (ra_map A)"
    then show "k \<in> entry_key ` set (ra_map (A\<lparr>ra_map := lm_erase l (ra_map A) @ [(l, r)]\<rparr>))"
      by (auto simp: set_lm_erase image_iff)
  next
    show "distinct (List.map entry_key (ra_map (A\<lparr>ra_map := lm_erase l (ra_map A) @ [(l, r)]\<rparr>)))"
      using distinct_lm_erase [OF d] by (auto simp: set_lm_erase)
  qed (use b(2) in \<open>simp_all add: pool_ok_def\<close>)
qed

end
