(* ===== verification/RegisterSteps.thy ===== *)
theory RegisterSteps
  imports RegisterInvariant
begin

text \<open>
  One limb instruction: what releasing its sources and finishing its destination do to the invariant,
  what the emitted instruction computes, and that processing the instruction keeps the register
  program in agreement with the limb program.
\<close>

declare split_paired_All [simp del] split_paired_Ex [simp del]

section \<open>After an instruction\<close>

definition dead_ok :: "limb_name set \<Rightarrow> Limb \<Rightarrow> bool" where
  "dead_ok N l \<longleftrightarrow> (l_dead l \<longrightarrow> limb_key l \<notin> N)"

lemma units_agreeD:
  assumes "units_agree A L s"
  shows "ra_bcu_map A t = Some b \<Longrightarrow> \<exists>bases. is_units s (bcu_id b) = Some (bases, ls_writes L t) \<and>
        (\<forall>(base, r) \<in> set (bcu_bases b). \<exists>i < length bases. r = bcu_register (bcu_id b) i \<and> bases ! i = base)"
    "ra_bcu_map A t = None \<Longrightarrow> t \<notin> ls_converted L \<Longrightarrow> ls_writes L t = []"
  using assms unfolding units_agree_def by blast+

lemma units_agreeI:
  assumes "\<And>t b. ra_bcu_map A t = Some b \<Longrightarrow> \<exists>bases. is_units s (bcu_id b) = Some (bases, ls_writes L t) \<and>
        (\<forall>(base, r) \<in> set (bcu_bases b). \<exists>i < length bases. r = bcu_register (bcu_id b) i \<and> bases ! i = base)"
    "\<And>t. ra_bcu_map A t = None \<Longrightarrow> t \<notin> ls_converted L \<Longrightarrow> ls_writes L t = []"
  shows "units_agree A L s"
  using assms unfolding units_agree_def by blast

lemma units_okD:
  assumes "units_ok A" "ra_bcu_map A t = Some b"
  shows "bcu_id b \<notin> set (ra_bcu_free A)" "ra_bcu_map A t' = Some b' \<Longrightarrow> bcu_id b = bcu_id b' \<Longrightarrow> t = t'"
  using assms unfolding units_ok_def by blast+

lemma release_conversion:
  assumes inv: "inv_at T M inputs X N PN A L s" and src: "is_bcor T src" "l_term src \<in> ls_converted L"
    and rel: "release_limb T u src A = Inr A'"
  shows "inv_at T M inputs X N PN A' L s \<and> ra_map A' = ra_map A \<and> ra_code A' = ra_code A \<and> ra_poly_map A' = ra_poly_map A"
proof -
  obtain b where b: "ra_bcu_map A (l_term src) = Some b"
    and A': "A' = (if bcu_is_free (bcu_free_register src b)
       then A\<lparr>ra_bcu_map := (ra_bcu_map A)(l_term src := None), ra_bcu_free := ra_bcu_free A @ [bcu_id b]\<rparr>
       else A\<lparr>ra_bcu_map := (ra_bcu_map A)(l_term src \<mapsto> bcu_free_register src b)\<rparr>)"
  proof (cases "ra_bcu_map A (l_term src)")
    case (Some b)
    then have "guardr (l_dead src) AssertFail (Inr (if bcu_is_free (bcu_free_register src b)
       then A\<lparr>ra_bcu_map := (ra_bcu_map A)(l_term src := None), ra_bcu_free := ra_bcu_free A @ [bcu_id b]\<rparr>
       else A\<lparr>ra_bcu_map := (ra_bcu_map A)(l_term src \<mapsto> bcu_free_register src b)\<rparr>)) = Inr A'"
      using rel src(1) by (simp add: release_limb_def Let_def if_distrib [of Inr])
    then show ?thesis using that [OF Some] by (simp add: guardr_Inr_iff)
  qed (use rel src(1) in \<open>simp add: release_limb_def\<close>)
  have o: "units_ok A" and a: "units_agree A L s" using inv by (simp_all add: inv_at_def book_def agree_def)
  have sub: "bcu_id (bcu_free_register src b) = bcu_id b" "set (bcu_bases (bcu_free_register src b)) \<subseteq> set (bcu_bases b)"
    by (auto simp: bcu_free_register_def)
  have f: "ra_map A' = ra_map A" "ra_code A' = ra_code A" "ra_next A' = ra_next A" "ra_last_write A' = ra_last_write A"
    "ra_vector_free A' = ra_vector_free A" "ra_scalar_free A' = ra_scalar_free A" "ra_poly_map A' = ra_poly_map A"
    by (simp_all add: A')
  have mp: "ra_bcu_map A' = (ra_bcu_map A)(l_term src :=
      (if bcu_is_free (bcu_free_register src b) then None else Some (bcu_free_register src b)))" by (simp add: A')
  have "units_ok A'"
  proof (cases "bcu_is_free (bcu_free_register src b)")
    case True
    have "bcu_id b' \<noteq> bcu_id b" if "ra_bcu_map A t = Some b'" "t \<noteq> l_term src" for t b'
      using units_okD(2) [OF o b that(1)] that(2) by auto
    moreover have "distinct (ra_bcu_free A @ [bcu_id b])" using o units_okD(1) [OF o b] by (simp add: units_ok_def)
    moreover have "bcu_id b' \<notin> set (ra_bcu_free A)" if "ra_bcu_map A t = Some b'" for t b' using units_okD(1) [OF o that] .
    moreover have "t = t'" if "ra_bcu_map A t = Some b1" "ra_bcu_map A t' = Some b2" "bcu_id b1 = bcu_id b2" for t t' b1 b2
      using units_okD(2) [OF o that] .
    moreover have "A' = A\<lparr>ra_bcu_map := (ra_bcu_map A)(l_term src := None), ra_bcu_free := ra_bcu_free A @ [bcu_id b]\<rparr>"
      using A' True by simp
    ultimately show ?thesis by (auto simp: units_ok_def split: if_splits)
  next
    case False
    have old: "\<exists>b0. ra_bcu_map A t = Some b0 \<and> bcu_id b0 = bcu_id b'" if "ra_bcu_map A' t = Some b'" for t b'
    proof (cases "t = l_term src")
      case True
      then have "b' = bcu_free_register src b" using that by (simp add: mp split: if_splits)
      then show ?thesis using b sub(1) True by simp
    qed (use that in \<open>simp add: mp\<close>)
    have "bcu_id b' \<notin> set (ra_bcu_free A)" if "ra_bcu_map A' t = Some b'" for t b'
      using old [OF that] units_okD(1) [OF o] by metis
    moreover have "t = t'" if bs: "ra_bcu_map A' t = Some b1" "ra_bcu_map A' t' = Some b2" "bcu_id b1 = bcu_id b2" for t t' b1 b2
    proof -
      obtain c1 c2 where "ra_bcu_map A t = Some c1" "bcu_id c1 = bcu_id b1" "ra_bcu_map A t' = Some c2" "bcu_id c2 = bcu_id b2"
        using old [OF bs(1)] old [OF bs(2)] by blast
      then show ?thesis using units_okD(2) [OF o, of t c1 t' c2] bs(3) by simp
    qed
    moreover have "ra_bcu_free A' = ra_bcu_free A" using False by (simp add: A')
    ultimately show ?thesis using o unfolding units_ok_def by simp
  qed
  moreover have "units_agree A' L s"
  proof (rule units_agreeI)
    fix t b' assume t: "ra_bcu_map A' t = Some b'"
    show "\<exists>bases. is_units s (bcu_id b') = Some (bases, ls_writes L t) \<and>
        (\<forall>(base, r) \<in> set (bcu_bases b'). \<exists>i < length bases. r = bcu_register (bcu_id b') i \<and> bases ! i = base)"
    proof (cases "t = l_term src")
      case True
      then have "b' = bcu_free_register src b" using t by (simp add: mp split: if_splits)
      then show ?thesis using units_agreeD(1) [OF a b] sub True by (fastforce simp: subset_iff)
    next
      case False
      then show ?thesis using t units_agreeD(1) [OF a] by (simp add: mp)
    qed
  next
    fix t assume t: "ra_bcu_map A' t = None" "t \<notin> ls_converted L"
    then show "ls_writes L t = []" using units_agreeD(2) [OF a] src(2) by (auto simp: mp split: if_splits)
  qed
  moreover have "polys_agree PN A' L s" using inv by (simp add: inv_at_def agree_def polys_agree_def f)
  ultimately show ?thesis using inv f
    by (simp add: inv_at_def book_def table_ok_def pool_ok_def pool_keys_def pool_def groups_ok_def code_ok_def
        written_ok_def written_def runs_def agree_def regs_agree_def mem_agrees_def)
qed

lemma release_limb_inv:
  assumes inv: "inv_at T M inputs X N PN A L s" and src: "if is_bcor T src then l_term src \<in> ls_converted L else dead_ok N src"
    and X: "limb_key src \<notin> X" and rel: "release_limb T u src A = Inr A'"
  shows "inv_at T M inputs X N PN A' L s" "ra_code A' = ra_code A" "ra_poly_map A' = ra_poly_map A"
    "\<And>e. e \<in> set (ra_map A) \<Longrightarrow> entry_key e \<in> X \<Longrightarrow> e \<in> set (ra_map A')"
proof -
  have "inv_at T M inputs X N PN A' L s \<and> ra_code A' = ra_code A \<and> ra_poly_map A' = ra_poly_map A \<and>
    (\<forall>e \<in> set (ra_map A). entry_key e \<in> X \<longrightarrow> e \<in> set (ra_map A'))"
  proof (cases "is_bcor T src")
    case True
    then show ?thesis using release_conversion [OF inv True _ rel] src by simp
  next
    case False
    obtain r where r: "lm_find (limb_key src) (ra_map A) = Some r"
      using rel False by (auto simp: release_limb_def lm_at_def bindr_Inr_iff the_res_Inr_iff)
    show ?thesis
    proof (cases "l_dead src")
      case True
      then obtain A2 where A2: "free_register r (A\<lparr>ra_map := lm_erase src (ra_map A)\<rparr>) = Inr A2" "A' = note_read u r A2"
        using rel False r by (auto simp: release_limb_def lm_at_def bindr_Inr_iff guardr_Inr_iff Let_def)
      have "inv_at T M inputs (X - {limb_key src}) N PN A2 L s"
        by (rule drop_entry [OF inv r _ A2(1)]) (use src False True in \<open>simp add: dead_ok_def\<close>)
      then have "inv_at T M inputs X N PN A2 L s" using X by simp
      then have "inv_at T M inputs X N PN A' L s" by (rule inv_at_frame) (simp_all add: A2(2) note_read_def)
      then show ?thesis using free_register_fields [OF A2(1)] X by (auto simp: A2(2) note_read_def set_lm_erase)
    next
      case d: False
      then have A': "A' = note_read u r (A\<lparr>ra_map := lm_assign src r (lm_erase src (ra_map A))\<rparr>)"
        using rel False r by (simp add: release_limb_def lm_at_def Let_def)
      note rp = replace_entry [OF inv r]
      have "inv_at T M inputs X N PN A' L s" by (rule inv_at_frame [OF rp(1)]) (simp_all add: A' note_read_def)
      then show ?thesis using rp(2) X by (auto simp: A' note_read_def)
    qed
  qed
  then show "inv_at T M inputs X N PN A' L s" "ra_code A' = ra_code A" "ra_poly_map A' = ra_poly_map A"
    "\<And>e. e \<in> set (ra_map A) \<Longrightarrow> entry_key e \<in> X \<Longrightarrow> e \<in> set (ra_map A')" by blast+
qed

lemma release_limbs_inv:
  assumes "inv_at T M inputs X N PN A L s" "foldr_res (release_limb T u) srcs A = Inr A'"
    and "\<forall>l \<in> set srcs. (if is_bcor T l then l_term l \<in> ls_converted L else dead_ok N l) \<and> limb_key l \<notin> X"
  shows "inv_at T M inputs X N PN A' L s \<and> ra_code A' = ra_code A \<and> ra_poly_map A' = ra_poly_map A \<and>
    (\<forall>e \<in> set (ra_map A). entry_key e \<in> X \<longrightarrow> e \<in> set (ra_map A'))"
  using assms
proof (induction srcs arbitrary: A)
  case (Cons l srcs)
  then obtain B where B: "release_limb T u l A = Inr B" "foldr_res (release_limb T u) srcs B = Inr A'" by (auto simp: bindr_Inr_iff)
  have l: "if is_bcor T l then l_term l \<in> ls_converted L else dead_ok N l" "limb_key l \<notin> X"
    using Cons.prems(3) by simp_all
  note r = release_limb_inv [OF Cons.prems(1) l B(1)]
  have "inv_at T M inputs X N PN A' L s \<and> ra_code A' = ra_code B \<and> ra_poly_map A' = ra_poly_map B \<and>
    (\<forall>e \<in> set (ra_map B). entry_key e \<in> X \<longrightarrow> e \<in> set (ra_map A'))"
    by (rule Cons.IH [OF r(1) B(2)]) (use Cons.prems(3) in simp)
  then show ?case using r(2-4) by simp
qed simp


section \<open>The destination gets its entry\<close>

lemma inv_at_weaken:
  assumes "inv_at T M inputs X N PN A L s" "X \<subseteq> X'"
  shows "inv_at T M inputs X' N PN A L s"
proof -
  have "written_ok T X' A" "regs_agree X' A L s" "mem_agrees T inputs X' N A L s"
    using assms unfolding inv_at_def book_def agree_def written_ok_def regs_agree_def mem_agrees_def by blast+
  then show ?thesis using assms(1) by (simp add: inv_at_def book_def agree_def)
qed

lemma close_entry:
  assumes inv: "inv_at T M inputs {k} N PN A L s"
    and e: "\<And>e. e \<in> set (ra_map A) \<Longrightarrow> entry_key e = k \<Longrightarrow> is_regs s (reg_key (snd e)) = ls_env L k \<and> ls_env L k \<noteq> None \<and>
      (is_input T (fst e) \<or> is_output T (fst e) \<longrightarrow> is_mem s k \<noteq> None) \<and>
      (\<not> is_input T (fst e) \<and> \<not> is_output T (fst e) \<longrightarrow> written A e)"
  shows "inv_at T M inputs {} N PN A L s"
proof -
  have b: "written_ok T {k} A" "regs_agree {k} A L s" and m: "mem_agrees T inputs {k} N A L s"
    using inv by (simp_all add: inv_at_def book_def agree_def)
  have "written_ok T {} A" unfolding written_ok_def
  proof (intro ballI impI)
    fix x assume "x \<in> set (ra_map A)" "entry_key x \<notin> {} \<and> \<not> is_input T (fst x) \<and> \<not> is_output T (fst x)"
    then show "written A x" using b(1) e [of x] by (cases "entry_key x = k") (simp_all add: written_ok_def)
  qed
  moreover have "regs_agree {} A L s" unfolding regs_agree_def
  proof (intro ballI impI)
    fix x assume "x \<in> set (ra_map A)"
    then show "is_regs s (reg_key (snd x)) = ls_env L (entry_key x) \<and> ls_env L (entry_key x) \<noteq> None"
      using regs_agreeD [OF b(2)] e [of x] by (cases "entry_key x = k") simp_all
  qed
  moreover have "mem_agrees T inputs {} N A L s"
  proof (rule mem_agreesI)
    fix x assume "x \<in> set (ra_map A)" "\<not> is_generated T (fst x)" "is_input T (fst x) \<or> is_output T (fst x)"
    then show "is_mem s (entry_key x) \<noteq> None"
      using mem_agreesD(3) [OF m] e [of x] by (cases "entry_key x = k") simp_all
  qed (use mem_agreesD [OF m] in blast)+
  ultimately show ?thesis using inv by (simp add: inv_at_def book_def agree_def)
qed

lemma note_write_inv:
  assumes inv: "inv_at T M inputs X N PN A L s"
    and r: "\<And>e. e \<in> set (ra_map A) \<Longrightarrow> reg_key (snd e) = reg_key r \<Longrightarrow> entry_key e \<in> X"
  shows "inv_at T M inputs X N PN (note_write u r A) L s"
proof -
  have "written_ok T X (note_write u r A)" unfolding written_ok_def
  proof (intro ballI impI)
    fix e assume e: "e \<in> set (ra_map (note_write u r A))" "entry_key e \<notin> X \<and> \<not> is_input T (fst e) \<and> \<not> is_output T (fst e)"
    then have w: "written A e" using inv by (simp add: inv_at_def book_def written_ok_def)
    have "reg_key (snd e) \<noteq> reg_key r" using r [of e] e by auto
    then show "written (note_write u r A) e" using w by (simp add: written_def)
  qed
  then show ?thesis using inv
    by (simp add: inv_at_def book_def table_ok_def pool_ok_def pool_keys_def pool_def groups_ok_def code_ok_def units_ok_def runs_def
        agree_def regs_agree_def mem_agrees_def units_agree_def polys_agree_def)
qed

text \<open>The store of an output.\<close>

lemma store_inv:
  assumes inv: "inv_at T M inputs {limb_key d} N PN A L s" and v: "is_regs s (reg_key r) = Some v" "ls_env L (limb_key d) = Some v"
    and r: "reg_type r \<noteq> RegBcu" "\<not> reg_dead r"
  defines "s' \<equiv> isa_emit (Stored (limb_key d) v) (put_mem (limb_key d) v s)"
  shows "inv_at T M inputs {limb_key d} N PN (push_code (StoreISA d r False) A) (limb_emit (Stored (limb_key d) v) L) s'"
proof -
  have b: "book T {limb_key d} A" and rs: "runs T M inputs A s" and a: "agree T inputs {limb_key d} N PN A L s"
    using inv by (simp_all add: inv_at_def)
  have m: "mem_agrees T inputs {limb_key d} N A L s" using a by (simp add: agree_def)
  have "isa_step M inputs (StoreISA d r False) s = Some s'"
    using v r by (simp add: isa_step_def reg_reads_def reg_read_def kill_dead_plain s'_def put_mem_def)
  then have "runs T M inputs (push_code (StoreISA d r False) A) s'" by (rule runs_push [OF rs])
  moreover have "book T {limb_key d} (push_code (StoreISA d r False) A)"
    by (rule book_push [OF b]) (simp_all add: plain_def r leaves_entries_def isa_writes_def isa_touches_def)
  moreover have "mem_agrees T inputs {limb_key d} N A (limb_emit (Stored (limb_key d) v) L) s'"
  proof (rule mem_agreesI)
    fix k w assume "is_mem s' k = Some w"
    then show "ls_env (limb_emit (Stored (limb_key d) v) L) k = Some w"
      using mem_agreesD(1) [OF m, of k w] v(2) by (auto simp: s'_def isa_emit_def limb_emit_def split: if_splits)
  next
    fix k assume "k \<in> N" "ls_env (limb_emit (Stored (limb_key d) v) L) k \<noteq> None"
    then show "k \<in> entry_key ` set (ra_map A) \<or> is_mem s' k \<noteq> None \<or> generated_key T k"
      using mem_agreesD(2) [OF m, of k] by (auto simp: s'_def isa_emit_def limb_emit_def)
  next
    fix e assume "e \<in> set (ra_map A)" "entry_key e \<notin> {limb_key d}" "\<not> is_generated T (fst e)" "is_input T (fst e) \<or> is_output T (fst e)"
    then show "is_mem s' (entry_key e) \<noteq> None" using mem_agreesD(3) [OF m, of e] by (simp add: s'_def isa_emit_def)
  qed (use mem_agreesD(4) [OF m] in \<open>simp add: limb_emit_def\<close>)
  ultimately show ?thesis using a
    by (simp add: inv_at_def agree_def regs_agree_def mem_agrees_def units_agree_def polys_agree_def s'_def isa_emit_def limb_emit_def)
qed

lemma finish_limb_dest_inv:
  assumes inv: "inv_at T M inputs {limb_key d} N PN A L s" and e: "(d, r) \<in> set (ra_map A)"
    and v: "is_regs s (reg_key r) = Some v" "ls_env L (limb_key d) = Some v"
    and code: "ra_code A = pre @ [(u, ri)]" and d: "\<not> is_input T d" "dead_ok N d"
    and fin: "finish_limb_dest T u d A = Inr A'"
  shows "\<exists>s'. inv_at T M inputs {} N PN A' (if is_output T d then limb_emit (Stored (limb_key d) v) L else L) s' \<and> ra_poly_map A' = ra_poly_map A"
proof -
  let ?k = "limb_key d"
  have b: "table_ok T A" "pool_ok A" using inv by (simp_all add: inv_at_def book_def)
  have r: "reg_type r \<noteq> RegBcu" "\<not> reg_dead r" using b(2) pool_map [OF e] by (auto simp: pool_ok_def)
  have find: "lm_find ?k (ra_map A) = Some r" using lm_find_in [OF _ e] b(1) by (simp add: table_ok_def)
  let ?erased = "A\<lparr>ra_map := lm_erase d (ra_map A)\<rparr>"
  obtain A2 where A2: "(if l_dead d then free_register r ?erased else Inr (A\<lparr>ra_map := lm_assign d r (lm_erase d (ra_map A))\<rparr>)) = Inr A2"
      "A' = note_write u r (if is_output T d then push_code (StoreISA d r False) (note_io_limb d A2) else A2)"
    using fin find by (auto simp: finish_limb_dest_def Let_def bindr_Inr_iff cong: if_cong)
  have inv2: "inv_at T M inputs {?k} N PN A2 L s" and c2: "ra_code A2 = ra_code A" "ra_poly_map A2 = ra_poly_map A"
    and m2: "\<And>x. x \<in> set (ra_map A2) \<Longrightarrow> x = (d, r) \<or> x \<in> set (ra_map A) \<and> entry_key x \<noteq> ?k"
  proof -
    show "inv_at T M inputs {?k} N PN A2 L s"
    proof (cases "l_dead d")
      case True
      then have "inv_at T M inputs ({?k} - {?k}) N PN A2 L s"
        using A2(1) d(2) by (intro drop_entry [OF inv find]) (simp_all add: dead_ok_def)
      then show ?thesis by (rule inv_at_weaken) simp
    qed (use A2(1) replace_entry(1) [OF inv find] in simp)
    show "ra_code A2 = ra_code A" "ra_poly_map A2 = ra_poly_map A"
      using A2(1) free_register_fields [of r ?erased A2] by (auto split: if_splits)
    show "x = (d, r) \<or> x \<in> set (ra_map A) \<and> entry_key x \<noteq> ?k" if "x \<in> set (ra_map A2)" for x
    proof (cases "l_dead d")
      case True
      then have "ra_map A2 = lm_erase d (ra_map A)" using A2(1) free_register_fields(1) [of r ?erased A2] by simp
      then show ?thesis using that by (simp add: set_lm_erase)
    next
      case False
      then have "ra_map A2 = lm_assign d r (lm_erase d (ra_map A))" using A2(1) by auto
      then show ?thesis using that replace_entry(2) [OF inv find] by simp
    qed
  qed
  have own: "entry_key x = ?k" if "x \<in> set (ra_map A2)" "reg_key (snd x) = reg_key r" for x
  proof (rule ccontr)
    assume k: "entry_key x \<noteq> ?k"
    then have x: "x \<in> set (ra_map A)" "x \<noteq> (d, r)" using m2 [OF that(1)] by auto
    show False using entries_differ [OF b(2) x(1) e x(2)] that(2) by simp
  qed
  show ?thesis
  proof (cases "is_output T d")
    case True
    let ?s = "isa_emit (Stored ?k v) (put_mem ?k v s)" and ?L = "limb_emit (Stored ?k v) L"
    have "inv_at T M inputs {?k} N PN (note_io_limb d A2) L s" by (rule inv_at_frame [OF inv2]) (simp_all add: note_io_limb_def)
    from store_inv [OF this v r] have "inv_at T M inputs {?k} N PN (push_code (StoreISA d r False) (note_io_limb d A2)) ?L ?s" .
    then have "inv_at T M inputs {?k} N PN (note_write u r (push_code (StoreISA d r False) (note_io_limb d A2))) ?L ?s"
      by (rule note_write_inv) (simp add: note_io_limb_def own)
    then have "inv_at T M inputs {?k} N PN A' ?L ?s" using A2(2) True by simp
    then have "inv_at T M inputs {} N PN A' ?L ?s"
    proof (rule close_entry)
      fix x assume "x \<in> set (ra_map A')" "entry_key x = ?k"
      then have "x = (d, r)" using m2 [of x] A2(2) True by (auto simp: note_io_limb_def)
      then show "is_regs ?s (reg_key (snd x)) = ls_env ?L ?k \<and> ls_env ?L ?k \<noteq> None \<and>
        (is_input T (fst x) \<or> is_output T (fst x) \<longrightarrow> is_mem ?s ?k \<noteq> None) \<and>
        (\<not> is_input T (fst x) \<and> \<not> is_output T (fst x) \<longrightarrow> written A' x)"
        by (simp add: v limb_emit_def isa_emit_def True)
    qed
    then show ?thesis using True c2 A2(2) by (auto simp: note_io_limb_def)
  next
    case False
    then have A': "A' = note_write u r A2" using A2(2) by simp
    have "inv_at T M inputs {?k} N PN A' L s" unfolding A' by (rule note_write_inv [OF inv2]) (use own in simp)
    then have "inv_at T M inputs {} N PN A' L s"
    proof (rule close_entry)
      fix x assume "x \<in> set (ra_map A')" "entry_key x = ?k"
      then have x: "x = (d, r)" using m2 [of x] A' by auto
      have "written A' (d, r)"
        by (rule writtenI [where u = u and i = ri and pre = pre and post = "[]"]) (simp_all add: A' c2 code untouched_def)
      then show "is_regs s (reg_key (snd x)) = ls_env L ?k \<and> ls_env L ?k \<noteq> None \<and>
        (is_input T (fst x) \<or> is_output T (fst x) \<longrightarrow> is_mem s ?k \<noteq> None) \<and>
        (\<not> is_input T (fst x) \<and> \<not> is_output T (fst x) \<longrightarrow> written A' x)"
        using x d(1) False by (simp add: v)
    qed
    then show ?thesis using False c2 by (auto simp: A')
  qed
qed


section \<open>Reading the sources\<close>

lemma table_no_conversion: "table_ok T A \<Longrightarrow> lm_find (limb_key l) (ra_map A) = Some r \<Longrightarrow> \<not> is_bcor T l"
proof -
  assume t: "table_ok T A" and f: "lm_find (limb_key l) (ra_map A) = Some r"
  obtain l' where l': "(l', r) \<in> set (ra_map A)" "limb_key l' = limb_key l" using table_lookup [OF t f] .
  then have "\<not> is_bcor T l'" using t by (auto simp: table_ok_def)
  then show ?thesis using l'(2) by (simp add: limb_key_def)
qed

lemma lm_at_source:
  assumes "inv_at T M inputs X N PN A L s" "lm_at l (ra_map A) = Inr r"
  shows "limb_or_bcu T l A = Inr r"
  using assms table_no_conversion [of T A l r]
  by (simp add: lm_at_def limb_or_bcu_def inv_at_def book_def res_simps)

lemma read_source:
  assumes inv: "inv_at T M inputs X N PN A L s" and v: "limb_read T M L l = Some v"
    and X: "\<forall>k \<in> X. ls_env L k = None" and r: "limb_or_bcu T l A = Inr r"
  shows "reg_read M s r = Some v \<and> \<not> reg_dead r"
proof (cases "is_bcor T l")
  case True
  then obtain b where b: "ra_bcu_map A (l_term l) = Some b" "map_of (bcu_bases b) (l_limb l) = Some r"
    using r by (auto simp: limb_or_bcu_def bcu_read_register_def bindr_Inr_iff res_simps)
  have "units_agree A L s" using inv by (simp add: inv_at_def agree_def)
  then obtain bases where "is_units s (bcu_id b) = Some (bases, ls_writes L (l_term l))"
    "\<forall>(base, r) \<in> set (bcu_bases b). \<exists>i < length bases. r = bcu_register (bcu_id b) i \<and> bases ! i = base"
    using units_agreeD(1) b(1) by blast
  moreover have "(l_limb l, r) \<in> set (bcu_bases b)" using b(2) by (rule map_of_SomeD)
  ultimately show ?thesis using v True by (auto simp: reg_read_def limb_read_def bcu_register_def)
next
  case False
  then have f: "lm_find (limb_key l) (ra_map A) = Some r" using r by (simp add: limb_or_bcu_def lm_at_def res_simps)
  have b: "table_ok T A" "pool_ok A" and a: "regs_agree X A L s" using inv by (simp_all add: inv_at_def book_def agree_def)
  obtain l' where l': "(l', r) \<in> set (ra_map A)" "limb_key l' = limb_key l" using table_lookup [OF b(1) f] .
  have e: "ls_env L (limb_key l) = Some v" using v False by (simp add: limb_read_def)
  then have "limb_key l \<notin> X" using X by auto
  then have "is_regs s (reg_key r) = Some v" using regs_agreeD(1) [OF a l'(1)] l'(2) e by simp
  moreover have "reg_type r \<noteq> RegBcu" "\<not> reg_dead r" using b(2) pool_map [OF l'(1)] by (auto simp: pool_ok_def)
  ultimately show ?thesis by (simp add: reg_read_def)
qed

lemma limb_reads_single: "limb_reads T M L [a] = Some vs \<longleftrightarrow> (\<exists>v. limb_read T M L a = Some v \<and> vs = [v])"
  by (auto simp: limb_reads_def)

lemma limb_reads_pair: "limb_reads T M L [a, b] = Some vs \<longleftrightarrow>
    (\<exists>v w. limb_read T M L a = Some v \<and> limb_read T M L b = Some w \<and> vs = [v, w])"
  by (auto simp: limb_reads_def)

lemma reg_reads_eq: "list_all2 (\<lambda>r v. reg_read M s r = Some v) rs vs \<Longrightarrow> reg_reads M s rs = Some vs"
  by (induction rule: list_all2_induct) (auto simp: reg_reads_def split: if_splits)

section \<open>Emitting the instruction\<close>

lemma emit_inv:
  assumes inv: "inv_at T M inputs X N PN A L s"
    and step: "isa_step M inputs ri s = Some s'" "plain ri" "isa_touches ri = {}"
    and W: "isa_writes ri = W" "\<And>e. e \<in> set (ra_map A) \<Longrightarrow> entry_key e \<notin> X \<Longrightarrow> reg_key (snd e) \<notin> W"
      "\<And>t rs. ra_poly_map A t = Some rs \<Longrightarrow> reg_key ` set rs \<inter> W = {}"
    and s': "is_mem s' = is_mem s" "is_units s' = is_units s"
    and X: "\<And>k. k \<in> X \<Longrightarrow> ls_env L k = None \<and> k \<in> entry_key ` set (ra_map A) \<and> \<not> t_input (T (fst k))"
    and L': "\<And>k. k \<notin> X \<Longrightarrow> ls_env L' k = ls_env L k" "ls_writes L' = ls_writes L" "ls_converted L \<subseteq> ls_converted L'"
      "ls_poly L' = ls_poly L" "is_trace s' = ls_trace L'"
  shows "inv_at T M inputs X N PN (push_code ri A) L' s'"
proof -
  have b: "book T X A" and rs: "runs T M inputs A s" and a: "regs_agree X A L s" "mem_agrees T inputs X N A L s"
    "units_agree A L s" "polys_agree PN A L s"
    using inv by (simp_all add: inv_at_def agree_def)
  have regs: "is_regs s' k = is_regs s k" if "k \<notin> W" for k using plain_step_regs [OF step(1,2)] that W(1) by simp
  have "book T X (push_code ri A)"
    by (rule book_push [OF b step(2)]) (use W step(3) in \<open>auto simp: leaves_entries_def\<close>)
  moreover have "runs T M inputs (push_code ri A) s'" by (rule runs_push [OF rs step(1)])
  moreover have "regs_agree X (push_code ri A) L' s'" unfolding regs_agree_def
  proof (intro ballI impI)
    fix e assume e: "e \<in> set (ra_map (push_code ri A))" "entry_key e \<notin> X"
    then show "is_regs s' (reg_key (snd e)) = ls_env L' (entry_key e) \<and> ls_env L' (entry_key e) \<noteq> None"
      using regs_agreeD [OF a(1), of e] W(2) [of e] by (simp add: regs L'(1))
  qed
  moreover have "mem_agrees T inputs X N (push_code ri A) L' s'"
  proof (rule mem_agreesI)
    fix k v assume "is_mem s' k = Some v"
    then have "ls_env L k = Some v" using mem_agreesD(1) [OF a(2)] s'(1) by simp
    then show "ls_env L' k = Some v" using X [of k] L'(1) [of k] by auto
  next
    fix k assume "k \<in> N" "ls_env L' k \<noteq> None"
    then show "k \<in> entry_key ` set (ra_map (push_code ri A)) \<or> is_mem s' k \<noteq> None \<or> generated_key T k"
      using mem_agreesD(2) [OF a(2), of k] X [of k] L'(1) [of k] s'(1) by (cases "k \<in> X") auto
  next
    fix e assume "e \<in> set (ra_map (push_code ri A))" "entry_key e \<notin> X" "\<not> is_generated T (fst e)" "is_input T (fst e) \<or> is_output T (fst e)"
    then show "is_mem s' (entry_key e) \<noteq> None" using mem_agreesD(3) [OF a(2), of e] s'(1) by simp
  next
    fix k :: limb_name assume "t_input (T (fst k))"
    then show "ls_env L' k = inputs k" using mem_agreesD(4) [OF a(2), of k] X [of k] L'(1) [of k] by auto
  qed
  moreover have "units_agree (push_code ri A) L' s'"
    unfolding units_agree_def using units_agreeD [OF a(3)] L'(3) by (simp add: s'(2) L'(2)) blast
  moreover have "is_regs s' (reg_key r) = is_regs s (reg_key r)" if "ra_poly_map A t = Some rs" "r \<in> set rs" for t rs r
    using W(3) [OF that(1)] that(2) by (intro regs) blast
  then have "polys_agree PN (push_code ri A) L' s'" using a(4) by (simp add: polys_agree_def L'(4) cong: map_cong)
  ultimately show ?thesis using L'(5) by (simp add: inv_at_def agree_def)
qed


text \<open>Instructions with a destination: one register is written.\<close>

definition dest_effect where
  "dest_effect T s s' r L L' d v \<longleftrightarrow> is_regs s' = (is_regs s)(reg_key r \<mapsto> v) \<and> is_mem s' = is_mem s \<and> is_units s' = is_units s \<and>
     ls_env L' = (ls_env L)(limb_key d \<mapsto> v) \<and> ls_writes L' = ls_writes L \<and> ls_poly L' = ls_poly L \<and>
     ls_trace L' = is_trace s' @ (if is_output T d then [Stored (limb_key d) v] else []) \<and> \<not> is_input T d"

lemma limb_write_Some: "limb_write T d v st = Some st' \<longleftrightarrow> \<not> is_input T d \<and> ls_env st (limb_key d) = None \<and>
    st' = st\<lparr>ls_env := (ls_env st)(limb_key d \<mapsto> v), ls_trace := ls_trace st @ (if is_output T d then [Stored (limb_key d) v] else [])\<rparr>"
  by (auto simp: limb_write_def)

lemma isa_operation_unop: "unop_opcode op = Inr rop \<Longrightarrow> isa_operation rop = op"
  by (cases op) (auto simp: unop_opcode_def)

lemma isa_operation_binop: "binop_opcode T op s1 s2 = Inr rop \<Longrightarrow> isa_operation rop = op"
  by (cases op) (auto simp: binop_opcode_def guardr_Inr_iff split: if_splits)

lemma dest_step:
  assumes inv: "inv_at T M inputs {limb_key d} N PN A L s" and e: "(d, r) \<in> set (ra_map A)" "ls_env L (limb_key d) = None"
    and i: "limb_dests i = [d]" "p_term ` set (polynomial_srcs i) \<subseteq> PN"
    and vs: "limb_reads T M L (limb_srcs i) = Some vs" and ri: "get_register_instruction T A i = Inr ri"
    and L': "limb_effect T M i vs (note_converted T (limb_srcs i) L) = Some L'"
  obtains s' v where "isa_step M inputs ri s = Some s'" "plain ri" "isa_writes ri = {reg_key r}" "isa_touches ri = {}"
    "dest_effect T s s' r L L' d v" "ls_converted L' = ls_converted (note_converted T (limb_srcs i) L)"
proof -
  have find: "lm_at d (ra_map A) = Inr r"
    using inv lm_find_in [OF _ e(1)] by (simp add: lm_at_def inv_at_def book_def table_ok_def)
  have tr: "is_trace s = ls_trace L" using inv by (simp add: inv_at_def agree_def)
  have src: "reg_read M s x = Some v \<and> \<not> reg_dead x" if "limb_read T M L l = Some v" "limb_or_bcu T l A = Inr x" for l v x
    by (rule read_source [OF inv that(1) _ that(2)]) (simp add: e(2))
  have at: "limb_or_bcu T l A = Inr x" if "lm_at l (ra_map A) = Inr x" for l x by (rule lm_at_source [OF inv that])
  show thesis
  proof (cases i)
    case (ReceiveInputLimb d' b)
    then have d': "d' = d" using i(1) by simp
    have ri': "ri = ReceiveInputISA r d b" and L'': "limb_write T d (m_arriving M (limb_key d) b) (note_converted T [] L) = Some L'"
      using ri L' ReceiveInputLimb find d' by simp_all
    show thesis
      by (rule that [of "reg_write r (m_arriving M (limb_key d) b) s" "m_arriving M (limb_key d) b"])
        (use L'' in \<open>auto simp: ri' isa_step_def reg_reads_def kill_dead_plain plain_def isa_writes_def isa_touches_def dest_effect_def
          reg_write_def limb_write_Some note_converted_def tr ReceiveInputLimb\<close>)
  next
    case (UnOpLimb op d' l rot b)
    then have d': "d' = d" using i(1) by simp
    obtain v where v: "limb_read T M L l = Some v" "vs = [v]" using vs UnOpLimb by (auto simp: limb_reads_single)
    obtain rop x where x: "unop_opcode op = Inr rop" "limb_or_bcu T l A = Inr x" "ri = UnOpISA rop r x (if op = LRot then rot else 0) b"
      using ri UnOpLimb find d' by (auto simp: res_simps)
    have rd: "reg_read M s x = Some v" "\<not> reg_dead x" using src [OF v(1) x(2)] by simp_all
    have L'': "limb_write T d (m_alu M op (if op = LRot then rot else 0) b [v]) (note_converted T [l] L) = Some L'"
      using L' UnOpLimb d' v(2) by simp
    show thesis
      by (rule that [of "reg_write r (m_alu M op (if op = LRot then rot else 0) b [v]) s" "m_alu M op (if op = LRot then rot else 0) b [v]"])
        (use L'' rd isa_operation_unop [OF x(1)] in \<open>auto simp: x(3) isa_step_def reg_reads_def kill_dead_plain plain_def isa_writes_def isa_touches_def dest_effect_def
          reg_write_def limb_write_Some note_converted_def tr UnOpLimb\<close>)
  next
    case (BinOpLimb op d' l1 l2 b)
    then have d': "d' = d" using i(1) by simp
    obtain v w where v: "limb_read T M L l1 = Some v" "limb_read T M L l2 = Some w" "vs = [v, w]"
      using vs BinOpLimb by (auto simp: limb_reads_pair)
    obtain rop x y where x: "binop_opcode T op l1 l2 = Inr rop" "lm_at l1 (ra_map A) = Inr x" "limb_or_bcu T l2 A = Inr y" "ri = BinOpISA rop r x y b"
      using ri BinOpLimb find d' by (auto simp: res_simps)
    have rd: "reg_read M s x = Some v" "\<not> reg_dead x" "reg_read M s y = Some w" "\<not> reg_dead y"
      using src [OF v(1) at [OF x(2)]] src [OF v(2) x(3)] by simp_all
    have L'': "limb_write T d (m_alu M op 0 b [v, w]) (note_converted T [l1, l2] L) = Some L'"
      using L' BinOpLimb d' v(3) by simp
    show thesis
      by (rule that [of "reg_write r (m_alu M op 0 b [v, w]) s" "m_alu M op 0 b [v, w]"])
        (use L'' rd isa_operation_binop [OF x(1)] in \<open>auto simp: x(4) isa_step_def reg_reads_def kill_dead_plain plain_def isa_writes_def isa_touches_def dest_effect_def
          reg_write_def limb_write_Some note_converted_def tr BinOpLimb\<close>)
  next
    case (JoinGlobalLimb dd ss b sync sz)
    then have d': "dd = Some d" using i(1) by (cases dd) simp_all
    then obtain l where l: "ss = Some l" using ri JoinGlobalLimb by (cases ss) simp_all
    obtain v where v: "limb_read T M L l = Some v" "vs = [v]" using vs JoinGlobalLimb l by (auto simp: limb_reads_single)
    obtain x where x: "lm_at l (ra_map A) = Inr x" "ri = JoinGlobalISA (Some r) (Some x) b sync sz"
      using ri JoinGlobalLimb d' l find by (auto simp: res_simps)
    have rd: "reg_read M s x = Some v" "\<not> reg_dead x" using src [OF v(1) at [OF x(1)]] by simp_all
    have L'': "limb_write T d (m_joined M sync sz v) (limb_emit (Joined sync sz (Some v)) (note_converted T [l] L)) = Some L'"
      using L' JoinGlobalLimb d' l v(2) by simp
    show thesis
      by (rule that [of "reg_write r (m_joined M sync sz v) (isa_emit (Joined sync sz (Some v)) s)" "m_joined M sync sz v"])
        (use L'' rd in \<open>auto simp: x(2) isa_step_def reg_reads_def kill_dead_plain plain_def isa_writes_def isa_touches_def dest_effect_def
          reg_write_def isa_emit_def limb_emit_def limb_write_Some note_converted_def tr JoinGlobalLimb l\<close>)
  next
    case (RecvLimb d' b sync sz)
    then have d': "d' = d" using i(1) by simp
    have ri': "ri = RecvISA r b sync sz" and L'': "limb_write T d (m_received M sync sz) (note_converted T [] L) = Some L'"
      using ri L' RecvLimb find d' by simp_all
    show thesis
      by (rule that [of "reg_write r (m_received M sync sz) s" "m_received M sync sz"])
        (use L'' in \<open>auto simp: ri' isa_step_def reg_reads_def kill_dead_plain plain_def isa_writes_def isa_touches_def dest_effect_def
          reg_write_def limb_write_Some note_converted_def tr RecvLimb\<close>)
  next
    case (ModLimb d' p b)
    then have d': "d' = d" using i(1) by simp
    obtain rs where rs: "ra_poly_map A (p_term p) = Some rs" "ri = ModISA r rs b" using ri ModLimb find d' by (auto simp: res_simps)
    have g: "groups_ok A" and a: "polys_agree PN A L s" using inv by (simp_all add: inv_at_def book_def agree_def)
    let ?vs = "List.map (\<lambda>r. the (is_regs s (reg_key r))) rs"
    have p: "ls_poly L (p_term p) = Some ?vs" and some: "\<forall>r \<in> set rs. is_regs s (reg_key r) \<noteq> None"
      using a rs(1) i(2) ModLimb by (auto simp: polys_agree_def)
    have ty: "reg_type x \<noteq> RegBcu \<and> \<not> reg_dead x" if "x \<in> set rs" for x using groups_okD(2) [OF g rs(1) that] by simp
    have "list_all2 (\<lambda>r v. reg_read M s r = Some v) rs ?vs"
      using some ty by (auto simp: list_all2_conv_all_nth reg_read_def)
    then have rd: "reg_reads M s rs = Some ?vs" by (rule reg_reads_eq)
    have L'': "limb_write T d (m_mod M b ?vs) (note_converted T [] L\<lparr>ls_reduced := insert (p_term p) (ls_reduced L)\<rparr>) = Some L'"
      using L' ModLimb d' p by (simp add: note_converted_def)
    show thesis
      by (rule that [of "reg_write r (m_mod M b ?vs) s" "m_mod M b ?vs"])
        (use L'' rd ty in \<open>auto simp: rs(2) isa_step_def kill_dead_plain plain_def isa_writes_def isa_touches_def dest_effect_def
          reg_write_def limb_write_Some note_converted_def tr ModLimb\<close>)
  qed (use i(1) L' in simp_all)
qed

end
