(* ===== verification/RegisterGroups.thy ===== *)
theory RegisterGroups
  imports RegisterSteps
begin

text \<open>
  The registers of a resolved polynomial: a resolve reads its group although the instruction does not list
  the group among its sources. The allocator's code reads no register of a group between its
  initialisation and its last resolve; the last pass depends on that.
\<close>

declare split_paired_All [simp del] split_paired_Ex [simp del]

section \<open>Registers read since they were last written\<close>

definition group_of :: "ISAInstruction \<Rightarrow> reg_name set" where
  "group_of i = (case i of ResolveISA rs s bases b \<Rightarrow> reg_key ` set rs | _ \<Rightarrow> {})"

definition isa_reads :: "ISAInstruction \<Rightarrow> reg_name set" where
  "isa_reads i = reg_key ` set (isa_srcs i)"

definition next_read :: "ISAInstruction \<Rightarrow> reg_name set \<Rightarrow> reg_name set" where
  "next_read i U = (U \<union> isa_reads i) - isa_writes i"

fun read_since :: "ISAInstruction list \<Rightarrow> reg_name set \<Rightarrow> reg_name set" where
  "read_since [] U = U"
| "read_since (i # is) U = read_since is (next_read i U)"

text \<open>No register of a group has been read when the group is resolved.\<close>

fun resolves_ok :: "ISAInstruction list \<Rightarrow> reg_name set \<Rightarrow> bool" where
  "resolves_ok [] U \<longleftrightarrow> True"
| "resolves_ok (i # is) U \<longleftrightarrow> group_of i \<inter> (U \<union> isa_reads i) = {} \<and> resolves_ok is (next_read i U)"

lemma read_since_append: "read_since (xs @ ys) U = read_since ys (read_since xs U)"
  by (induction xs arbitrary: U) simp_all

lemma resolves_ok_append: "resolves_ok (xs @ ys) U \<longleftrightarrow> resolves_ok xs U \<and> resolves_ok ys (read_since xs U)"
  by (induction xs arbitrary: U) auto

lemma group_written: "group_of i \<subseteq> isa_writes i"
  by (cases i) (simp_all add: group_of_def isa_writes_def)

lemma read_since_insert:
  assumes "\<forall>i \<in> set c. k \<notin> isa_writes i"
  shows "read_since c (insert k U) = insert k (read_since c U)"
  using assms
proof (induction c arbitrary: U)
  case (Cons i c)
  then have "next_read i (insert k U) = insert k (next_read i U)" by (auto simp: next_read_def)
  then show ?case using Cons by simp
qed simp

lemma resolves_ok_insert:
  assumes "\<forall>i \<in> set c. k \<notin> isa_writes i" "resolves_ok c U"
  shows "resolves_ok c (insert k U)"
  using assms
proof (induction c arbitrary: U)
  case (Cons i c)
  then have "next_read i (insert k U) = insert k (next_read i U)" by (auto simp: next_read_def)
  moreover have "k \<notin> group_of i" using Cons.prems(1) group_written [of i] by auto
  ultimately show ?case using Cons by simp
qed simp

section \<open>Clean groups\<close>

definition isa_code :: "RegisterAllocator \<Rightarrow> ISAInstruction list" where
  "isa_code A = List.map snd (ra_code A)"

definition clean :: "RegisterAllocator \<Rightarrow> nat set \<Rightarrow> bool" where
  "clean A R \<longleftrightarrow> resolves_ok (isa_code A) {} \<and>
     (\<forall>t rs. ra_poly_map A t = Some rs \<longrightarrow> t \<notin> R \<longrightarrow> reg_key ` set rs \<inter> read_since (isa_code A) {} = {})"

lemma cleanD:
  assumes "clean A R"
  shows "resolves_ok (isa_code A) {}"
    "ra_poly_map A t = Some rs \<Longrightarrow> t \<notin> R \<Longrightarrow> reg_key ` set rs \<inter> read_since (isa_code A) {} = {}"
  using assms unfolding clean_def by blast+

lemma cleanI:
  assumes "resolves_ok (isa_code A) {}"
    "\<And>t rs. ra_poly_map A t = Some rs \<Longrightarrow> t \<notin> R \<Longrightarrow> reg_key ` set rs \<inter> read_since (isa_code A) {} = {}"
  shows "clean A R"
  using assms unfolding clean_def by blast

lemma clean_frame: "clean A R \<Longrightarrow> ra_code A' = ra_code A \<Longrightarrow> ra_poly_map A' = ra_poly_map A \<Longrightarrow> clean A' R"
  by (simp add: clean_def isa_code_def)

lemma clean_groups:
  assumes "clean A R" "ra_code A' = ra_code A" "\<And>t rs. ra_poly_map A' t = Some rs \<Longrightarrow> ra_poly_map A t = Some rs"
  shows "clean A' R"
proof (rule cleanI)
  have c: "isa_code A' = isa_code A" by (simp add: isa_code_def assms(2))
  show "resolves_ok (isa_code A') {}" unfolding c by (rule cleanD(1) [OF assms(1)])
  fix t rs assume "ra_poly_map A' t = Some rs" "t \<notin> R"
  then show "reg_key ` set rs \<inter> read_since (isa_code A') {} = {}" unfolding c using cleanD(2) [OF assms(1)] assms(3) by blast
qed

lemma clean_push:
  assumes c: "clean A R" and code: "ra_code A' = ra_code A @ [(u, i)]" "ra_poly_map A' = ra_poly_map A"
    and g: "group_of i \<inter> (read_since (isa_code A) {} \<union> isa_reads i) = {}"
    and r: "\<And>t rs. ra_poly_map A t = Some rs \<Longrightarrow> t \<notin> R' \<Longrightarrow> reg_key ` set rs \<inter> isa_reads i = {}" and R: "R \<subseteq> R'"
  shows "clean A' R'"
proof (rule cleanI)
  have co: "isa_code A' = isa_code A @ [i]" by (simp add: isa_code_def code(1))
  show "resolves_ok (isa_code A') {}" using cleanD(1) [OF c] g by (simp add: co resolves_ok_append)
  fix t rs assume t: "ra_poly_map A' t = Some rs" "t \<notin> R'"
  then have t': "ra_poly_map A t = Some rs" "t \<notin> R" using R by (auto simp: code(2))
  have "reg_key ` set rs \<inter> read_since (isa_code A) {} = {}" "reg_key ` set rs \<inter> isa_reads i = {}"
    using cleanD(2) [OF c t'] r [OF t'(1) t(2)] by simp_all
  then show "reg_key ` set rs \<inter> read_since (isa_code A') {} = {}"
    unfolding co read_since_append read_since.simps next_read_def by blast
qed

lemma clean_push_quiet:
  "clean A R \<Longrightarrow> ra_code A' = ra_code A @ [(u, i)] \<Longrightarrow> ra_poly_map A' = ra_poly_map A \<Longrightarrow>
   group_of i = {} \<Longrightarrow> isa_reads i = {} \<Longrightarrow> clean A' R"
  by (rule clean_push) auto

section \<open>Evictions\<close>

lemma evict_clean:
  assumes inv: "alloc_inv T M inputs {} N PN A L" and e: "(l, r) \<in> set (ra_map A)"
    and ev: "evict_limb T ty (Some (l, r)) A = Inr A'" and c: "clean A R"
  shows "clean A' R"
proof -
  have b: "table_ok T A" "pool_ok A" "groups_ok A" "code_ok A" "written_ok T {} A"
    using inv by (simp_all add: alloc_inv_def book_def)
  have vf: "\<forall>x \<in> set (ra_vector_free A). reg_type x = RegVector" using b(2) by (simp add: pool_ok_def)
  note sh = evict_shape [OF ev e b(1) vf]
  show ?thesis
  proof (cases "is_input T l \<or> is_output T l")
    case True
    then show ?thesis using sh(3,7) by (intro clean_frame [OF c]) simp_all
  next
    case False
    then obtain u where u: "ra_last_write A (reg_key r) = Some u"
        "ra_code A' = insert_after u (ra_next A, StoreISA (l\<lparr>l_dead := False\<rparr>) r True) (ra_code A)" using sh(7) by auto
    have "written A (l, r)" using bspec [OF b(5) [unfolded written_ok_def] e] False by simp
    then obtain pre i post where w: "ra_code A = pre @ (u, i) # post" "untouched (reg_key r) (limb_key l) post"
      using u(1) by (auto simp: written_def)
    let ?st = "StoreISA (l\<lparr>l_dead := False\<rparr>) r True"
    have "u \<notin> fst ` set pre" using b(4) w(1) by (auto simp: code_ok_def)
    then have code: "ra_code A' = pre @ (u, i) # (ra_next A, ?st) # post" using u(2) w(1) by (simp add: insert_after_split)
    define c1 where "c1 = List.map snd pre @ [i]"
    define c2 where "c2 = List.map snd post"
    define U where "U = read_since c1 {}"
    have co: "isa_code A = c1 @ c2" "isa_code A' = (c1 @ [?st]) @ c2" by (simp_all add: isa_code_def c1_def c2_def w(1) code)
    have nw: "\<forall>j \<in> set c2. reg_key r \<notin> isa_writes j" using w(2) by (auto simp: untouched_def c2_def)
    have ns: "next_read ?st U = insert (reg_key r) U" by (auto simp: next_read_def isa_reads_def isa_writes_def)
    have gs: "group_of ?st = {}" by (simp add: group_of_def)
    have ok: "resolves_ok c1 {}" "resolves_ok c2 U" using cleanD(1) [OF c] by (simp_all add: co(1) resolves_ok_append U_def)
    show ?thesis
    proof (rule cleanI)
      show "resolves_ok (isa_code A') {}"
        unfolding co(2) resolves_ok_append read_since_append U_def [symmetric] read_since.simps ns
        using ok resolves_ok_insert [OF nw ok(2)] gs by simp
      fix t rs assume t: "ra_poly_map A' t = Some rs" "t \<notin> R"
      then have "ra_poly_map A t = Some rs" using sh(3) by simp
      then have "reg_key ` set rs \<inter> read_since (isa_code A) {} = {}" "reg_key ` set rs \<inter> pool_keys A = {}"
        using cleanD(2) [OF c] groups_okD(3) [OF b(3)] t(2) by simp_all
      moreover have "reg_key r \<in> pool_keys A" using pool_map [OF e] by (simp add: pool_keys_def)
      moreover have "read_since (isa_code A') {} = insert (reg_key r) (read_since (isa_code A) {})"
        unfolding co read_since_append U_def [symmetric] read_since.simps ns by (rule read_since_insert [OF nw])
      ultimately show "reg_key ` set rs \<inter> read_since (isa_code A') {} = {}" by (simp add: disjoint_iff) blast
    qed
  qed
qed

context evictor
begin

lemma keeps_clean:
  assumes "alloc_inv T M inputs {} N PN A L" "evict A = Inr A'" "clean A R"
  shows "clean A' R"
proof -
  obtain e where e: "e \<in> set (ra_map A)" "evict_limb T ty (Some e) A = Inr A'" using picks [OF assms(2)] by blast
  obtain l r where "e = (l, r)" by (cases e)
  then show ?thesis using evict_clean [OF assms(1) _ _ assms(3)] e by simp
qed

end

lemma take_register_clean:
  assumes "alloc_inv T M inputs {} N PN A L" "take_register T order l A = Inr (r, A')" "clean A R"
  shows "clean A' R"
proof -
  obtain A1 rs where A1: "A1 = A \<or> evict_scalar T order A = Inr A1 \<or> evict_vector T order A = Inr A1"
      "A' = A1\<lparr>ra_vector_free := rs\<rparr> \<and> ra_vector_free A1 = r # rs \<or> A' = A1\<lparr>ra_scalar_free := rs\<rparr> \<and> ra_scalar_free A1 = r # rs"
    using take_register_cases [OF assms(2)] .
  have "clean A1 R"
    using A1(1) assms(3) scalar_evictor.keeps_clean [OF assms(1)] vector_evictor.keeps_clean [OF assms(1)] by blast
  then show ?thesis by (rule clean_frame) (use A1(2) in auto)
qed

lemma load_src_clean:
  assumes inv: "alloc_inv T M inputs {} N PN A L" and load: "load_src T order src A = Inr A'" and c: "clean A R"
  shows "clean A' R"
proof (cases "is_bcor T src \<or> lm_find (limb_key src) (ra_map A) \<noteq> None")
  case True
  then show ?thesis using load c by (simp add: load_src_def)
next
  case False
  obtain r A1 where A1: "take_register T order src A = Inr (r, A1)" using load False by (auto simp: load_src_def bindr_Inr_iff)
  have c1: "clean A1 R" by (rule take_register_clean [OF inv A1 c])
  obtain i where i: "ra_code A' = ra_code A1 @ [(ra_next A1, i)]" "ra_poly_map A' = ra_poly_map A1" "isa_srcs i = []" "group_of i = {}"
    using load False A1 by (auto simp: load_src_def Let_def group_of_def split: if_splits)
  show ?thesis by (rule clean_push_quiet [OF c1 i(1,2,4)]) (simp add: isa_reads_def i(3))
qed

lemma place_dest_clean:
  assumes inv: "alloc_inv T M inputs {} N PN A L" and place: "place_dest T order d A = Inr A'" and c: "clean A R"
  shows "clean A' R"
proof (cases "is_bcor T d")
  case True
  then show ?thesis using place c by (simp add: place_dest_def)
next
  case False
  then obtain r A1 where A1: "take_register T order d A = Inr (r, A1)" "A' = A1\<lparr>ra_map := lm_assign d r (ra_map A1)\<rparr>"
    using place by (auto simp: place_dest_def bindr_Inr_iff)
  show ?thesis by (rule clean_frame [OF take_register_clean [OF inv A1(1) c]]) (simp_all add: A1(2))
qed

lemma place_conversion_clean:
  assumes place: "place_conversion p b A = Inr A'" and c: "clean A R"
  shows "clean A' R"
proof (cases "ra_code A' = ra_code A \<and> ra_poly_map A' = ra_poly_map A")
  case True
  then show ?thesis using clean_frame [OF c] by simp
next
  case False
  then obtain u where "ra_code A' = ra_code A @ [(ra_next A, u)]" "ra_poly_map A' = ra_poly_map A" "isa_srcs u = []" "group_of u = {}"
    using place by (auto simp: place_conversion_def group_of_def Let_def bindr_Inr_iff split: option.splits list.splits)
  then show ?thesis using clean_push_quiet [OF c] by (simp add: isa_reads_def)
qed


section \<open>The instruction itself\<close>

definition poly_reads :: "LimbInstruction \<Rightarrow> nat set" where
  "poly_reads i = p_term ` set (polynomial_srcs i)"

text \<open>A register is no register of a group: it belongs to the table or to a base conversion unit.\<close>

definition apart :: "RegisterAllocator \<Rightarrow> reg_name \<Rightarrow> bool" where
  "apart A k \<longleftrightarrow> k \<in> pool_keys A \<or> fst k \<noteq> RegVector"

lemma apart_group:
  assumes "groups_ok A" "ra_poly_map A t = Some rs" "apart A k"
  shows "k \<notin> reg_key ` set rs"
proof
  assume k: "k \<in> reg_key ` set rs"
  then have "fst k = RegVector" using groups_okD(2) [OF assms(1,2)] by (auto simp: reg_key_def)
  moreover have "k \<notin> pool_keys A" using k groups_okD(3) [OF assms(1,2)] by (auto simp: disjoint_iff)
  ultimately show False using assms(3) by (simp add: apart_def)
qed

lemma apart_lm_at: "lm_at l (ra_map A) = Inr r \<Longrightarrow> apart A (reg_key r)"
  using lm_find_Some [of "limb_key l" "ra_map A" r] pool_map [of _ A]
  by (force simp: lm_at_def the_res_Inr_iff apart_def pool_keys_def)

lemma apart_source:
  assumes inv: "inv_at T M inputs X N PN A L s" and r: "limb_or_bcu T l A = Inr r"
  shows "apart A (reg_key r)"
proof (cases "is_bcor T l")
  case True
  then obtain b where b: "ra_bcu_map A (l_term l) = Some b" "map_of (bcu_bases b) (l_limb l) = Some r"
    using r by (auto simp: limb_or_bcu_def bcu_read_register_def bindr_Inr_iff res_simps)
  have a: "units_agree A L s" using inv by (simp add: inv_at_def agree_def)
  have "(l_limb l, r) \<in> set (bcu_bases b)" using b(2) by (rule map_of_SomeD)
  then obtain i where "r = bcu_register (bcu_id b) i" using units_agreeD(1) [OF a b(1)] by auto
  then show ?thesis by (simp add: apart_def reg_key_def bcu_register_def)
next
  case False
  then show ?thesis using r apart_lm_at by (simp add: limb_or_bcu_def)
qed

lemma instruction_reads:
  assumes inv: "inv_at T M inputs X N PN A L s" and ri: "get_register_instruction T A i = Inr ri"
    and k: "k \<in> isa_reads ri" "\<not> apart A k"
  obtains p rs where "p \<in> set (polynomial_srcs i)" "ra_poly_map A (p_term p) = Some rs" "k \<in> reg_key ` set rs"
proof -
  have src: "k \<noteq> reg_key r" if "limb_or_bcu T l A = Inr r" for l r using apart_source [OF inv that] k(2) by auto
  have at: "k \<noteq> reg_key r" if "lm_at l (ra_map A) = Inr r" for l r using apart_lm_at [OF that] k(2) by auto
  show thesis
  proof (cases i)
    case (ModLimb d p b)
    then show thesis using ri k(1) that by (auto simp: isa_reads_def bindr_Inr_iff the_res_Inr_iff)
  qed (use ri k(1) in \<open>auto simp: isa_reads_def bindr_Inr_iff dest: src at split: option.splits\<close>)
qed

lemma instruction_group:
  assumes "get_register_instruction T A i = Inr ri" "group_of ri \<noteq> {}"
  obtains p rs where "polynomial_dests i = [p]" "polynomial_srcs i = []" "ra_poly_map A (p_term p) = Some rs" "group_of ri = reg_key ` set rs"
proof (cases i)
  case (ResolveLimb p l b)
  then show thesis using assms(1) that by (auto simp: group_of_def bindr_Inr_iff the_res_Inr_iff)
qed (use assms in \<open>auto simp: group_of_def bindr_Inr_iff split: option.splits\<close>)

lemma clean_emit:
  assumes inv: "inv_at T M inputs X N PN A L s" and ri: "get_register_instruction T A i = Inr ri" and c: "clean A R"
    and d: "\<forall>p \<in> set (polynomial_dests i). p_term p \<notin> R"
  shows "clean (push_code ri A) (R \<union> poly_reads i)"
proof -
  have g: "groups_ok A" using inv by (simp add: inv_at_def book_def)
  show ?thesis
  proof (rule clean_push [OF c push_code_fields(1) push_code_fields(9)])
    fix t rs assume t: "ra_poly_map A t = Some rs" "t \<notin> R \<union> poly_reads i"
    have False if k: "k \<in> reg_key ` set rs" "k \<in> isa_reads ri" for k
    proof -
      have "\<not> apart A k" using apart_group [OF g t(1)] k(1) by blast
      then obtain p rs' where p: "p \<in> set (polynomial_srcs i)" "ra_poly_map A (p_term p) = Some rs'" "k \<in> reg_key ` set rs'"
        by (rule instruction_reads [OF inv ri k(2)])
      then have "p_term p \<noteq> t" using t(2) by (auto simp: poly_reads_def)
      then show False using groups_okD(4) [OF g p(2) t(1)] k(1) p(3) by (auto simp: disjoint_iff)
    qed
    then show "reg_key ` set rs \<inter> isa_reads ri = {}" by blast
  next
    show "group_of ri \<inter> (read_since (isa_code A) {} \<union> isa_reads ri) = {}"
    proof (cases "group_of ri = {}")
      case False
      obtain p rs where p: "polynomial_dests i = [p]" "polynomial_srcs i = []" "ra_poly_map A (p_term p) = Some rs" "group_of ri = reg_key ` set rs"
        by (rule instruction_group [OF ri False])
      have "group_of ri \<inter> read_since (isa_code A) {} = {}" using cleanD(2) [OF c p(3)] d p(1,4) by simp
      moreover have "k \<notin> group_of ri" if "k \<in> isa_reads ri" for k
      proof (cases "apart A k")
        case True
        then show ?thesis using apart_group [OF g p(3)] p(4) by simp
      next
        case False
        then show ?thesis using instruction_reads [OF inv ri that False] p(2) by auto
      qed
      ultimately show ?thesis by blast
    qed simp
  qed simp
qed

section \<open>After the instruction\<close>

lemma release_code:
  assumes "release_limb T u l A = Inr A'"
  shows "ra_code A' = ra_code A \<and> ra_poly_map A' = ra_poly_map A"
proof (cases "is_bcor T l")
  case True
  then obtain b where b: "ra_bcu_map A (l_term l) = Some b"
    using assms by (cases "ra_bcu_map A (l_term l)") (simp_all add: release_limb_def)
  show ?thesis using assms True b
    by (cases "bcu_is_free (bcu_free_register l b)"; cases "l_dead l") (auto simp: release_limb_def Let_def)
next
  case False
  then obtain r A2 where A2: "(if l_dead l then guardr (reg_id r \<noteq> 2 ^ 32 - 1) AssertFail (free_register r (A\<lparr>ra_map := lm_erase l (ra_map A)\<rparr>))
        else Inr (A\<lparr>ra_map := lm_assign l r (lm_erase l (ra_map A))\<rparr>)) = Inr A2" "A' = note_read u r A2"
    using assms by (auto simp: release_limb_def bindr_Inr_iff Let_def cong: if_cong)
  have "ra_code A2 = ra_code A \<and> ra_poly_map A2 = ra_poly_map A"
    using A2(1) free_register_fields [of r "A\<lparr>ra_map := lm_erase l (ra_map A)\<rparr>" A2] by (auto simp: guardr_Inr_iff split: if_splits)
  then show ?thesis by (simp add: A2(2) note_read_def)
qed

lemma releases_code:
  assumes "foldr_res (release_limb T u) ls A = Inr A'"
  shows "ra_code A' = ra_code A \<and> ra_poly_map A' = ra_poly_map A"
  using assms
proof (induction ls arbitrary: A)
  case (Cons l ls)
  then obtain B where "release_limb T u l A = Inr B" "foldr_res (release_limb T u) ls B = Inr A'" by (auto simp: bindr_Inr_iff)
  then show ?case using release_code Cons.IH by fastforce
qed simp

lemma finish_limb_dest_clean:
  assumes g: "groups_ok A" and fin: "finish_limb_dest T u d A = Inr A'" and c: "clean A R"
  shows "clean A' R"
proof -
  define r where "r = (case lm_find (limb_key d) (ra_map A) of None \<Rightarrow> no_register | Some r \<Rightarrow> r)"
  let ?erased = "A\<lparr>ra_map := lm_erase d (ra_map A)\<rparr>"
  obtain A2 where A2: "(if l_dead d then free_register r ?erased else Inr (A\<lparr>ra_map := lm_assign d r (lm_erase d (ra_map A))\<rparr>)) = Inr A2"
      "A' = note_write u r (if is_output T d then push_code (StoreISA d r False) (note_io_limb d A2) else A2)"
    using fin by (auto simp: finish_limb_dest_def r_def [symmetric] Let_def bindr_Inr_iff cong: if_cong)
  have f: "ra_code A2 = ra_code A" "ra_poly_map A2 = ra_poly_map A"
    using A2(1) free_register_fields(2,7) [of r ?erased A2] by (auto split: if_splits)
  have c2: "clean A2 R" by (rule clean_frame [OF c]) (simp_all add: f)
  have ap: "apart A (reg_key r)"
    using apart_lm_at [of d A r]
    by (cases "lm_find (limb_key d) (ra_map A)") (simp_all add: r_def lm_at_def apart_def reg_key_def no_register_def)
  show ?thesis
  proof (cases "is_output T d")
    case True
    show ?thesis
    proof (rule clean_push [OF c2])
      show "ra_code A' = ra_code A2 @ [(ra_next A2, StoreISA d r False)]" "ra_poly_map A' = ra_poly_map A2"
        using A2(2) True by (simp_all add: note_io_limb_def)
      show "reg_key ` set rs \<inter> isa_reads (StoreISA d r False) = {}" if "ra_poly_map A2 t = Some rs" for t rs
        using apart_group [OF g _ ap, of t rs] that f(2) by (simp add: isa_reads_def)
    qed (simp_all add: group_of_def)
  next
    case False
    then show ?thesis using A2(2) by (intro clean_frame [OF c2]) simp_all
  qed
qed

lemma fold_note_read_code: "ra_code (fold (note_read u) rs A) = ra_code A \<and> ra_poly_map (fold (note_read u) rs A) = ra_poly_map A"
  by (induction rs arbitrary: A) (simp_all add: note_read_def)

lemma fold_note_write_code: "ra_code (fold (note_write u) rs A) = ra_code A \<and> ra_poly_map (fold (note_write u) rs A) = ra_poly_map A"
  by (induction rs arbitrary: A) simp_all

lemma finish_polynomial_clean:
  assumes c: "clean A R" and fin: "finish_polynomial_src u p A = Inr A' \<or> finish_polynomial_dest u p A = Inr A'"
  shows "clean A' R"
proof -
  define B where "B rs = (if p_dead p then A\<lparr>ra_vector_free := ra_vector_free A @ rs, ra_poly_map := (ra_poly_map A)(p_term p := None)\<rparr> else A)" for rs
  obtain rs where "A' = fold (note_read u) rs (B rs) \<or> A' = fold (note_write u) rs (B rs)"
    using fin unfolding finish_polynomial_src_def finish_polynomial_dest_def bindr_Inr_iff the_res_Inr_iff Let_def B_def by blast
  then have f: "ra_code A' = ra_code (B rs)" "ra_poly_map A' = ra_poly_map (B rs)"
    using fold_note_read_code [of u rs "B rs"] fold_note_write_code [of u rs "B rs"] by auto
  have "ra_code (B rs) = ra_code A" "\<And>t rs'. ra_poly_map (B rs) t = Some rs' \<Longrightarrow> ra_poly_map A t = Some rs'"
    by (simp_all add: B_def split: if_splits)
  then show ?thesis by (intro clean_groups [OF c]) (simp_all add: f)
qed

text \<open>The polynomials a limb program has reduced.\<close>

lemma reduced_step:
  assumes "limb_effect T M i vs L = Some L'"
  shows "ls_reduced L' = ls_reduced L \<union> poly_reads i" "\<forall>p \<in> set (polynomial_dests i). p_term p \<notin> ls_reduced L"
proof -
  have "ls_reduced L' = ls_reduced L \<union> poly_reads i \<and> (\<forall>p \<in> set (polynomial_dests i). p_term p \<notin> ls_reduced L)"
  proof (cases i)
    case (JoinGlobalLimb d s b sync sz)
    then show ?thesis using assms by (cases d) (auto simp: poly_reads_def limb_write_Some limb_emit_def Let_def)
  qed (use assms in \<open>auto simp: poly_reads_def limb_write_Some limb_emit_def Let_def split: option.splits if_splits\<close>)
  then show "ls_reduced L' = ls_reduced L \<union> poly_reads i" "\<forall>p \<in> set (polynomial_dests i). p_term p \<notin> ls_reduced L" by simp_all
qed

end
