(* ===== verification/RegisterProcess.thy ===== *)
theory RegisterProcess
  imports RegisterGroups
begin

text \<open>
  Processing one limb instruction keeps the invariant: the agreement of the register program with the
  limb program after both have made the step, and the groups clean. One lemma per shape of instruction:
  with a destination limb, resolving a polynomial, writing to a base conversion unit, leaving the chip.
\<close>

declare split_paired_All [simp del] split_paired_Ex [simp del]

section \<open>Register groups\<close>

lemma free_group:
  assumes inv: "inv_at T M inputs X N PN A L s" and g: "ra_poly_map A t = Some rs" "t \<notin> PN"
    and A': "A' = A\<lparr>ra_vector_free := ra_vector_free A @ rs, ra_poly_map := (ra_poly_map A)(t := None)\<rparr>"
  shows "inv_at T M inputs X N PN A' L s"
proof -
  have b: "pool_ok A" "groups_ok A" and a: "polys_agree PN A L s" using inv by (simp_all add: inv_at_def book_def agree_def)
  note go = groups_okD [OF b(2)]
  have m: "mset (pool A') = mset (rs @ pool A)" by (simp add: A' pool_def)
  then have st: "set (pool A') = set rs \<union> set (pool A)" by (metis mset_eq_setD set_append)
  have "mset (List.map reg_key (pool A')) = mset (List.map reg_key (rs @ pool A))" using m by simp
  then have "distinct (List.map reg_key (pool A')) = distinct (List.map reg_key (rs @ pool A))" by (rule mset_eq_imp_distinct_iff)
  also have "\<dots>" using go(1,3) [OF g(1)] b(1) by (simp add: pool_ok_def pool_keys_def)
  finally have "pool_ok A'" using b(1) go(2) [OF g(1)] st by (auto simp: pool_ok_def A')
  moreover have "groups_ok A'"
  proof (rule groups_okI)
    fix t' rs' assume "ra_poly_map A' t' = Some rs'"
    then have t': "ra_poly_map A t' = Some rs'" "t' \<noteq> t" by (auto simp: A' split: if_splits)
    show "distinct (List.map reg_key rs') \<and> (\<forall>r \<in> set rs'. reg_type r = RegVector \<and> \<not> reg_dead r)"
      using go(1,2) [OF t'(1)] by simp
    show "reg_key ` set rs' \<inter> pool_keys A' = {}"
      using go(3) [OF t'(1)] go(4) [OF t'(1) g(1) t'(2)] by (simp add: pool_keys_def st image_Un Int_Un_distrib)
  next
    fix t1 t2 r1 r2 assume "ra_poly_map A' t1 = Some r1" "ra_poly_map A' t2 = Some r2" "t1 \<noteq> t2"
    then show "reg_key ` set r1 \<inter> reg_key ` set r2 = {}" using go(4) [of t1 r1 t2 r2] by (simp add: A' split: if_splits)
  qed
  moreover have "polys_agree PN A' L s" using a g(2) by (simp add: polys_agree_def A')
  moreover have f: "ra_map A' = ra_map A" "ra_code A' = ra_code A" "ra_next A' = ra_next A" "ra_last_write A' = ra_last_write A"
    "ra_bcu_map A' = ra_bcu_map A" "ra_bcu_free A' = ra_bcu_free A" by (simp_all add: A')
  ultimately show ?thesis using inv written_cong [OF f(2,4)]
    by (simp add: inv_at_def book_def table_ok_def code_ok_def written_ok_def units_ok_def runs_def agree_def regs_agree_def
        mem_agrees_def units_agree_def)
qed

lemma fold_note_read_inv: "inv_at T M inputs X N PN A L s \<Longrightarrow> inv_at T M inputs X N PN (fold (note_read u) rs A) L s"
proof (induction rs arbitrary: A)
  case (Cons r rs)
  have "inv_at T M inputs X N PN (note_read u r A) L s" by (rule inv_at_frame [OF Cons.prems]) (simp_all add: note_read_def)
  then show ?case using Cons.IH by simp
qed simp

lemma fold_note_write_inv:
  assumes "inv_at T M inputs X N PN A L s" "\<And>e. e \<in> set (ra_map A) \<Longrightarrow> reg_key (snd e) \<notin> reg_key ` set rs"
  shows "inv_at T M inputs X N PN (fold (note_write u) rs A) L s"
  using assms
proof (induction rs arbitrary: A)
  case (Cons r rs)
  have "inv_at T M inputs X N PN (note_write u r A) L s" by (rule note_write_inv [OF Cons.prems(1)]) (use Cons.prems(2) in force)
  moreover have "reg_key (snd e) \<notin> reg_key ` set rs" if "e \<in> set (ra_map (note_write u r A))" for e
    using Cons.prems(2) [of e] that by simp
  ultimately have "inv_at T M inputs X N PN (fold (note_write u) rs (note_write u r A)) L s" by (rule Cons.IH)
  then show ?case by simp
qed simp

lemma finish_polynomial_src_inv:
  assumes "inv_at T M inputs X N PN A L s" "p_dead p \<Longrightarrow> p_term p \<notin> PN" "finish_polynomial_src u p A = Inr A'"
  shows "inv_at T M inputs X N PN A' L s"
proof -
  obtain rs where rs: "ra_poly_map A (p_term p) = Some rs"
    and A': "A' = fold (note_read u) rs (if p_dead p then A\<lparr>ra_vector_free := ra_vector_free A @ rs, ra_poly_map := (ra_poly_map A)(p_term p := None)\<rparr> else A)"
    using assms(3) by (auto simp: finish_polynomial_src_def res_simps Let_def)
  have "inv_at T M inputs X N PN (if p_dead p then A\<lparr>ra_vector_free := ra_vector_free A @ rs, ra_poly_map := (ra_poly_map A)(p_term p := None)\<rparr> else A) L s"
    using free_group [OF assms(1) rs assms(2) refl] assms(1) by simp
  then show ?thesis unfolding A' by (rule fold_note_read_inv)
qed

lemma finish_polynomial_dest_inv:
  assumes "inv_at T M inputs X N PN A L s" "p_dead p \<Longrightarrow> p_term p \<notin> PN" "finish_polynomial_dest u p A = Inr A'"
  shows "inv_at T M inputs X N PN A' L s"
proof -
  obtain rs where rs: "ra_poly_map A (p_term p) = Some rs"
    and A': "A' = fold (note_write u) rs (if p_dead p then A\<lparr>ra_vector_free := ra_vector_free A @ rs, ra_poly_map := (ra_poly_map A)(p_term p := None)\<rparr> else A)"
    using assms(3) by (auto simp: finish_polynomial_dest_def res_simps Let_def)
  let ?A = "if p_dead p then A\<lparr>ra_vector_free := ra_vector_free A @ rs, ra_poly_map := (ra_poly_map A)(p_term p := None)\<rparr> else A"
  have "inv_at T M inputs X N PN ?A L s" using free_group [OF assms(1) rs assms(2) refl] assms(1) by simp
  then show ?thesis unfolding A'
  proof (rule fold_note_write_inv)
    fix e assume "e \<in> set (ra_map ?A)"
    then have "e \<in> set (ra_map A)" by (simp split: if_splits)
    then have "reg_key (snd e) \<in> pool_keys A" using pool_map [of e A] by (simp add: pool_keys_def)
    moreover have "groups_ok A" using assms(1) by (simp add: inv_at_def book_def)
    ultimately show "reg_key (snd e) \<notin> reg_key ` set rs" using groups_okD(3) [OF _ rs] by blast
  qed
qed

section \<open>Processing an instruction\<close>

definition src_keys :: "terms \<Rightarrow> LimbInstruction \<Rightarrow> limb_name set" where
  "src_keys T i = limb_key ` {l \<in> set (limb_srcs i). \<not> is_bcor T l}"

text \<open>The marks are right when nothing marked dead is read afterwards.\<close>

definition marks_ok :: "terms \<Rightarrow> limb_name set \<Rightarrow> nat set \<Rightarrow> LimbInstruction \<Rightarrow> bool" where
  "marks_ok T N PN i \<longleftrightarrow> (\<forall>l \<in> set (limb_srcs i) \<union> set (limb_dests i). \<not> is_bcor T l \<longrightarrow> dead_ok N l) \<and>
     (\<forall>p \<in> set (polynomial_srcs i) \<union> set (polynomial_dests i). p_dead p \<longrightarrow> p_term p \<notin> PN)"

lemma load_srcs_inv:
  assumes wf: "terms_wf T" and inv: "alloc_inv T M inputs {} N PN A L"
    and srcs: "\<forall>l \<in> set ls. \<not> is_bcor T l \<longrightarrow> limb_key l \<in> N \<and> ls_env L (limb_key l) \<noteq> None"
    and load: "foldr_res (load_src T order) ls A = Inr A'"
  shows "alloc_inv T M inputs {} N PN A' L \<and> (clean A R \<longrightarrow> clean A' R)"
  using load inv srcs
proof (induction ls arbitrary: A)
  case (Cons l ls)
  then obtain B where B: "load_src T order l A = Inr B" "foldr_res (load_src T order) ls B = Inr A'" by (auto simp: bindr_Inr_iff)
  have "alloc_inv T M inputs {} N PN B L" using load_src_inv [OF wf Cons.prems(2) _ B(1)] Cons.prems(3) by simp
  then show ?case using Cons.IH [OF B(2)] Cons.prems(3) load_src_clean [OF Cons.prems(2) B(1)] by simp
qed simp

lemma place_dest_inv:
  assumes inv: "alloc_inv T M inputs {} N PN A L" and d: "ls_env L (limb_key d) = None" "\<not> is_bcor T d"
    and place: "place_dest T order d A = Inr A'"
  shows "\<exists>s r. inv_at T M inputs {limb_key d} N PN A' L s \<and> (d, r) \<in> set (ra_map A')"
proof -
  obtain r A1 where A1: "take_register T order d A = Inr (r, A1)" "A' = A1\<lparr>ra_map := lm_assign d r (ra_map A1)\<rparr>"
    using place d(2) by (auto simp: place_dest_def bindr_Inr_iff)
  note tk = take_register_inv [OF inv A1(1)]
  obtain s where s: "inv_at T M inputs {} N PN A1 L s" using tk(1) by (auto simp: alloc_inv_at)
  have a: "regs_agree {} A1 L s" using s by (simp add: inv_at_def agree_def)
  have new: "limb_key d \<notin> entry_key ` set (ra_map A1)" using regs_agreeD(2) [OF a] d(1) by force
  then have A': "A' = A1\<lparr>ra_map := ra_map A1 @ [(d, r)]\<rparr>" using A1(2) by (simp add: lm_assign_new)
  have "book T {limb_key d} A'"
    using book_add_entry [of T "{}" A1 r d A'] s tk(2) new d(2) by (simp add: A' inv_at_def)
  moreover have "agree T inputs {limb_key d} N PN A' L s"
  proof -
    have m: "mem_agrees T inputs {} N A1 L s" using s by (simp add: inv_at_def agree_def)
    have "mem_agrees T inputs {limb_key d} N A' L s"
      by (rule mem_agreesI) (use mem_agreesD [OF m] in \<open>auto simp: A'\<close>)
    moreover have "regs_agree {limb_key d} A' L s" using a by (auto simp: regs_agree_def A')
    ultimately show ?thesis using s by (simp add: inv_at_def agree_def units_agree_def polys_agree_def A')
  qed
  ultimately have "inv_at T M inputs {limb_key d} N PN A' L s" using s by (simp add: inv_at_def runs_def A')
  then show ?thesis by (auto simp: A')
qed


lemma finish_polynomial_srcs_inv:
  assumes "inv_at T M inputs X N PN A L s" "\<forall>p \<in> set ps. p_dead p \<longrightarrow> p_term p \<notin> PN" "foldr_res (finish_polynomial_src u) ps A = Inr A'"
  shows "inv_at T M inputs X N PN A' L s"
  using assms
proof (induction ps arbitrary: A)
  case (Cons p ps)
  then obtain B where B: "finish_polynomial_src u p A = Inr B" "foldr_res (finish_polynomial_src u) ps B = Inr A'" by (auto simp: bindr_Inr_iff)
  have "inv_at T M inputs X N PN B L s" using finish_polynomial_src_inv [OF Cons.prems(1) _ B(1)] Cons.prems(2) by simp
  then show ?case using Cons.IH [OF _ _ B(2)] Cons.prems(2) by simp
qed simp

lemma finish_polynomials_clean:
  assumes "clean A R" "foldr_res (finish_polynomial_src u) ps A = Inr A'"
  shows "clean A' R"
  by (rule foldr_res_inv [OF assms(2), of "\<lambda>A. clean A R", OF assms(1)]) (rule finish_polynomial_clean, assumption, rule disjI1, assumption)

lemma limb_stepD:
  assumes "limb_step T M i L = Some L'"
  obtains vs where "limb_reads T M L (limb_srcs i) = Some vs" "limb_effect T M i vs (note_converted T (limb_srcs i) L) = Some L'"
    "\<And>l. l \<in> set (limb_srcs i) \<Longrightarrow> \<not> is_bcor T l \<Longrightarrow> ls_env L (limb_key l) \<noteq> None"
  using assms by (auto simp: limb_step_def limb_reads_def limb_read_def split: option.splits if_splits)

lemma processD:
  assumes "process_instruction T order i A = Inr A'"
  obtains A1 A2 A3 A4 ri A5 A6 A7 A8 where
    "foldr_res (load_src T order) (limb_srcs i) A = Inr A1" "foldr_res (place_dest T order) (limb_dests i) A1 = Inr A2"
    "place_conversion (base_conversion_dest i) (limb_idx i) A2 = Inr A3"
    "foldr_res (place_polynomial T order) (polynomial_dests i) A3 = Inr A4" "get_register_instruction T A4 i = Inr ri"
    "foldr_res (release_limb T (ra_next A4)) (limb_srcs i) (push_code ri A4) = Inr A5"
    "foldr_res (finish_limb_dest T (ra_next A4)) (limb_dests i) A5 = Inr A6"
    "foldr_res (finish_polynomial_dest (ra_next A4)) (polynomial_dests i) A6 = Inr A7"
    "foldr_res (finish_polynomial_src (ra_next A4)) (polynomial_srcs i) A7 = Inr A8"
    "A' = A8\<lparr>ra_instructions := ra_instructions A8 + 1\<rparr>"
  using assms unfolding process_instruction_def by (auto simp: bindr_Inr_iff Let_def)

text \<open>What has to be shown of the instruction: its sources are released and its code runs.\<close>

lemma inv_at_instructions: "inv_at T M inputs X N PN A L s \<Longrightarrow> inv_at T M inputs X N PN (A\<lparr>ra_instructions := n\<rparr>) L s"
  by (rule inv_at_frame) simp_all

lemma dest_unwritten:
  assumes "limb_dests i = [d]" "limb_effect T M i vs (note_converted T ls L) = Some L'"
  shows "ls_env L (limb_key d) = None \<and> \<not> is_input T d"
  using assms by (cases i) (auto simp: limb_write_Some note_converted_def limb_emit_def Let_def split: option.splits)

lemma dest_register:
  assumes "limb_dests i = [d]" "get_register_instruction T A i = Inr ri"
  shows "\<exists>r. lm_find (limb_key d) (ra_map A) = Some r"
  using assms by (cases i) (auto simp: lm_at_def res_simps split: option.splits)

lemma process_dest:
  assumes wf: "terms_wf T" and inv: "alloc_inv T M inputs {} (src_keys T i \<union> N) (poly_reads i \<union> PN) A L"
    and i: "limb_dests i = [d]" "base_conversion_dest i = None" "polynomial_dests i = []"
    and st: "limb_step T M i L = Some L'" and pr: "process_instruction T order i A = Inr A'" and mk: "marks_ok T N PN i"
  shows "alloc_inv T M inputs {} N PN A' L'" "clean A (ls_reduced L) \<Longrightarrow> clean A' (ls_reduced L')"
proof -
  let ?N = "src_keys T i \<union> N" and ?PN = "poly_reads i \<union> PN" and ?k = "limb_key d"
  obtain A1 A2 A3 A4 ri A5 A6 A7 A8 where p: "foldr_res (load_src T order) (limb_srcs i) A = Inr A1" "foldr_res (place_dest T order) (limb_dests i) A1 = Inr A2"
    "place_conversion (base_conversion_dest i) (limb_idx i) A2 = Inr A3"
    "foldr_res (place_polynomial T order) (polynomial_dests i) A3 = Inr A4" "get_register_instruction T A4 i = Inr ri"
    "foldr_res (release_limb T (ra_next A4)) (limb_srcs i) (push_code ri A4) = Inr A5"
    "foldr_res (finish_limb_dest T (ra_next A4)) (limb_dests i) A5 = Inr A6"
    "foldr_res (finish_polynomial_dest (ra_next A4)) (polynomial_dests i) A6 = Inr A7"
    "foldr_res (finish_polynomial_src (ra_next A4)) (polynomial_srcs i) A7 = Inr A8"
    "A' = A8\<lparr>ra_instructions := ra_instructions A8 + 1\<rparr>" using processD [OF pr] .
  have A4: "A4 = A2" "A7 = A6" "place_dest T order d A1 = Inr A2" "finish_limb_dest T (ra_next A2) d A5 = Inr A6"
    using p(2-4,7,8) i by (simp_all add: place_conversion_def bindr_Inr_iff)
  obtain vs where vs: "limb_reads T M L (limb_srcs i) = Some vs" "limb_effect T M i vs (note_converted T (limb_srcs i) L) = Some L'"
    and srcs: "\<And>l. l \<in> set (limb_srcs i) \<Longrightarrow> \<not> is_bcor T l \<Longrightarrow> ls_env L (limb_key l) \<noteq> None"
    using limb_stepD [OF st] by blast
  have "\<forall>l \<in> set (limb_srcs i). \<not> is_bcor T l \<longrightarrow> limb_key l \<in> ?N \<and> ls_env L (limb_key l) \<noteq> None"
    using srcs by (auto simp: src_keys_def)
  from load_srcs_inv [OF wf inv this p(1)]
  have inv1: "alloc_inv T M inputs {} ?N ?PN A1 L" and cl1: "clean A R \<Longrightarrow> clean A1 R" for R by blast+
  have d: "ls_env L ?k = None" "\<not> is_input T d" using dest_unwritten [OF i(1) vs(2)] by simp_all
  have nb: "\<not> is_bcor T d"
  proof
    assume bc: "is_bcor T d"
    then have "A2 = A1" using A4(3) by (simp add: place_dest_def)
    then have "table_ok T A2" using inv1 by (simp add: alloc_inv_def book_def)
    moreover obtain r where "lm_find ?k (ra_map A2) = Some r" using dest_register [OF i(1) p(5)] A4(1) by auto
    ultimately show False using table_no_conversion bc by blast
  qed
  obtain s r where s: "inv_at T M inputs {?k} ?N ?PN A2 L s" "(d, r) \<in> set (ra_map A2)" using place_dest_inv [OF inv1 d(1) nb A4(3)] by blast
  obtain s' v where s': "isa_step M inputs ri s = Some s'" "plain ri" "isa_writes ri = {reg_key r}" "isa_touches ri = {}"
    "dest_effect T s s' r L L' d v" "ls_converted L' = ls_converted (note_converted T (limb_srcs i) L)"
    by (rule dest_step [OF s d(1) i(1) _ vs(1) _ vs(2)]) (use p(5) A4(1) in \<open>auto simp: poly_reads_def\<close>)
  note de = s'(5) [unfolded dest_effect_def]
  have b: "pool_ok A2" "groups_ok A2" using s(1) by (simp_all add: inv_at_def book_def)
  let ?L = "L'\<lparr>ls_trace := is_trace s'\<rparr>"
  have "inv_at T M inputs {?k} ?N ?PN (push_code ri A2) ?L s'"
  proof (rule emit_inv [OF s(1) s'(1,2,4,3)])
    fix e assume e: "e \<in> set (ra_map A2)" "entry_key e \<notin> {?k}"
    then have "e \<noteq> (d, r)" by auto
    then show "reg_key (snd e) \<notin> {reg_key r}" using entries_differ [OF b(1) e(1) s(2)] by simp
  next
    fix t rs assume "ra_poly_map A2 t = Some rs"
    then have "reg_key ` set rs \<inter> pool_keys A2 = {}" by (rule groups_okD(3) [OF b(2)])
    moreover have "reg_key r \<in> pool_keys A2" using pool_map [OF s(2)] by (simp add: pool_keys_def)
    ultimately show "reg_key ` set rs \<inter> {reg_key r} = {}" by (simp add: disjoint_iff) blast
  next
    fix k assume "k \<in> {?k}"
    then show "ls_env L k = None \<and> k \<in> entry_key ` set (ra_map A2) \<and> \<not> t_input (T (fst k))"
      using d s(2) by (force simp: limb_key_def)
  qed (use de s'(6) in \<open>simp_all add: note_converted_def\<close>)
  then have e0: "inv_at T M inputs {?k} N PN (push_code ri A2) ?L s'" by (rule inv_at_mono) simp_all
  have "\<forall>l \<in> set (limb_srcs i). (if is_bcor T l then l_term l \<in> ls_converted ?L else dead_ok N l) \<and> limb_key l \<notin> {?k}"
  proof
    fix l assume l: "l \<in> set (limb_srcs i)"
    have "limb_key l \<noteq> ?k"
    proof (cases "is_bcor T l")
      case True
      then show ?thesis using nb by (auto simp: limb_key_def)
    next
      case False
      then show ?thesis using srcs [OF l] d(1) by auto
    qed
    then show "(if is_bcor T l then l_term l \<in> ls_converted ?L else dead_ok N l) \<and> limb_key l \<notin> {?k}"
      using mk l s'(6) by (simp add: marks_ok_def note_converted_def)
  qed
  from release_limbs_inv [OF e0 p(6) [unfolded A4(1)] this]
  have r5: "inv_at T M inputs {?k} N PN A5 ?L s'" "ra_code A5 = ra_code A2 @ [(ra_next A2, ri)]" "(d, r) \<in> set (ra_map A5)"
    using s(2) by auto
  have "dead_ok N d" using mk i(1) nb by (simp add: marks_ok_def)
  then obtain s6 where "inv_at T M inputs {} N PN A6 (if is_output T d then limb_emit (Stored ?k v) ?L else ?L) s6"
    using finish_limb_dest_inv [OF r5(1,3) _ _ r5(2) d(2) _ A4(4), of v] de by auto
  moreover have "(if is_output T d then limb_emit (Stored ?k v) ?L else ?L) = L'" using de by (simp add: limb_emit_def)
  ultimately have "inv_at T M inputs {} N PN A6 L' s6" by simp
  then have "inv_at T M inputs {} N PN A8 L' s6"
    by (rule finish_polynomial_srcs_inv) (use mk p(9) in \<open>simp_all add: marks_ok_def A4(1,2)\<close>)
  then have "inv_at T M inputs {} N PN A' L' s6" unfolding p(10) by (rule inv_at_instructions)
  then show "alloc_inv T M inputs {} N PN A' L'" by (auto simp: alloc_inv_at)
  have red: "ls_reduced L' = ls_reduced L \<union> poly_reads i" "\<forall>p \<in> set (polynomial_dests i). p_term p \<notin> ls_reduced L"
    using reduced_step [OF vs(2)] by (simp_all add: note_converted_def)
  show "clean A' (ls_reduced L')" if c: "clean A (ls_reduced L)"
  proof -
    have "clean A2 (ls_reduced L)" by (rule place_dest_clean [OF inv1 A4(3) cl1 [OF c]])
    then have "clean (push_code ri A2) (ls_reduced L')" unfolding red(1)
      by (rule clean_emit [OF s(1) p(5) [unfolded A4(1)] _ red(2)])
    then have "clean A5 (ls_reduced L')" by (rule clean_frame) (use releases_code [OF p(6) [unfolded A4(1)]] in simp_all)
    moreover have "groups_ok A5" using r5(1) by (simp add: inv_at_def book_def)
    ultimately have "clean A6 (ls_reduced L')" by (intro finish_limb_dest_clean [OF _ A4(4)])
    from finish_polynomials_clean [OF this p(9) [unfolded A4(1,2)]] have "clean A8 (ls_reduced L')" .
    then show ?thesis by (rule clean_frame) (simp_all add: p(10))
  qed
qed


section \<open>Instructions without a destination\<close>

lemma polys_agreeD:
  assumes "polys_agree PN A L s"
  shows "ra_poly_map A t = Some rs \<Longrightarrow> \<forall>r \<in> set rs. is_regs s (reg_key r) \<noteq> None"
    "ra_poly_map A t = Some rs \<Longrightarrow> t \<in> PN \<Longrightarrow> ls_poly L t = Some (List.map (\<lambda>r. the (is_regs s (reg_key r))) rs)"
    "t \<in> PN \<Longrightarrow> ls_poly L t \<noteq> None \<Longrightarrow> ra_poly_map A t \<noteq> None"
  using assms unfolding polys_agree_def by blast+

lemma polys_agreeI:
  assumes "\<And>t rs. ra_poly_map A t = Some rs \<Longrightarrow> \<forall>r \<in> set rs. is_regs s (reg_key r) \<noteq> None"
    "\<And>t rs. ra_poly_map A t = Some rs \<Longrightarrow> t \<in> PN \<Longrightarrow> ls_poly L t = Some (List.map (\<lambda>r. the (is_regs s (reg_key r))) rs)"
    "\<And>t. t \<in> PN \<Longrightarrow> ls_poly L t \<noteq> None \<Longrightarrow> ra_poly_map A t \<noteq> None"
  shows "polys_agree PN A L s"
  using assms unfolding polys_agree_def by blast

text \<open>What follows the emission when there is no destination limb: the sources are released.\<close>

lemma process_rest:
  assumes e: "inv_at T M inputs {} N PN (push_code ri A4) L' s'" and conv: "ls_converted (note_converted T (limb_srcs i) L) \<subseteq> ls_converted L'"
    and i: "limb_dests i = []" and mk: "marks_ok T N PN i"
    and p: "foldr_res (release_limb T (ra_next A4)) (limb_srcs i) (push_code ri A4) = Inr A5"
      "foldr_res (finish_limb_dest T (ra_next A4)) (limb_dests i) A5 = Inr A6"
  shows "inv_at T M inputs {} N PN A6 L' s'"
proof -
  have "\<forall>l \<in> set (limb_srcs i). (if is_bcor T l then l_term l \<in> ls_converted L' else dead_ok N l) \<and> limb_key l \<notin> {}"
    using mk conv by (auto simp: marks_ok_def note_converted_def)
  from release_limbs_inv [OF e p(1) this] p(2) i show ?thesis by simp
qed

lemma process_rest_clean:
  assumes "clean (push_code ri A4) R" "foldr_res (release_limb T u) ls (push_code ri A4) = Inr A5"
    "foldr_res (finish_limb_dest T u) ds A5 = Inr A6" "ds = []"
  shows "clean A6 R"
  using assms(3,4) releases_code [OF assms(2)] by (intro clean_frame [OF assms(1)]) simp_all

lemma group_write_inv:
  assumes inv: "inv_at T M inputs {} N PN A L s"
    and step: "isa_step M inputs ri s = Some (regs_write rs vs s)" "plain ri" "isa_touches ri = {}" "isa_writes ri = reg_key ` set rs"
    and disj: "reg_key ` set rs \<inter> pool_keys A = {}"
      "\<And>t' rs'. ra_poly_map A t' = Some rs' \<Longrightarrow> t' \<noteq> t \<Longrightarrow> reg_key ` set rs' \<inter> reg_key ` set rs = {}"
    and t: "ra_poly_map A t = None \<or> ra_poly_map A t = Some rs \<and> (\<forall>r \<in> set rs. is_regs (regs_write rs vs s) (reg_key r) \<noteq> None)"
  shows "inv_at T M inputs {} N (PN - {t}) (push_code ri A) L (regs_write rs vs s)"
proof -
  let ?s = "regs_write rs vs s"
  have b: "book T {} A" and rs: "runs T M inputs A s" and a: "regs_agree {} A L s" "mem_agrees T inputs {} N A L s"
    "units_agree A L s" "polys_agree PN A L s" "is_trace s = ls_trace L"
    using inv by (simp_all add: inv_at_def agree_def)
  have pool: "reg_key (snd e) \<notin> reg_key ` set rs" if "e \<in> set (ra_map A)" for e
  proof -
    have "reg_key (snd e) \<in> pool_keys A" using pool_map [OF that] by (simp add: pool_keys_def)
    then show ?thesis using disj(1) by (auto simp: disjoint_iff)
  qed
  have same: "is_regs ?s k = is_regs s k" if "k \<notin> reg_key ` set rs" for k by (rule regs_write_other [OF that])
  have f: "is_mem ?s = is_mem s" "is_units ?s = is_units s" "is_trace ?s = is_trace s" by (simp_all add: regs_write_def)
  have "book T {} (push_code ri A)"
    by (rule book_push [OF b step(2)]) (use pool step(3,4) in \<open>auto simp: leaves_entries_def\<close>)
  moreover have "runs T M inputs (push_code ri A) ?s" by (rule runs_push [OF rs step(1)])
  moreover have "regs_agree {} (push_code ri A) L ?s" using a(1) pool by (simp add: regs_agree_def same)
  moreover have "mem_agrees T inputs {} N (push_code ri A) L ?s" using a(2) by (simp add: mem_agrees_def f)
  moreover have "units_agree (push_code ri A) L ?s" using a(3) by (simp add: units_agree_def f)
  moreover have "polys_agree (PN - {t}) (push_code ri A) L ?s"
  proof (rule polys_agreeI)
    fix t' rs' assume t': "ra_poly_map (push_code ri A) t' = Some rs'"
    show "\<forall>r \<in> set rs'. is_regs ?s (reg_key r) \<noteq> None"
    proof (cases "t' = t")
      case True
      then show ?thesis using t t' by auto
    next
      case False
      have "is_regs ?s (reg_key r) = is_regs s (reg_key r)" if "r \<in> set rs'" for r
        using disj(2) [of t' rs'] t' False that by (intro same) (auto simp: disjoint_iff)
      then show ?thesis using polys_agreeD(1) [OF a(4)] t' by simp
    qed
    assume "t' \<in> PN - {t}"
    then have "is_regs ?s (reg_key r) = is_regs s (reg_key r)" if "r \<in> set rs'" for r
      using disj(2) [of t' rs'] t' that by (intro same) (auto simp: disjoint_iff)
    then show "ls_poly L t' = Some (List.map (\<lambda>r. the (is_regs ?s (reg_key r))) rs')"
      using polys_agreeD(2) [OF a(4)] t' \<open>t' \<in> PN - {t}\<close> by (simp cong: map_cong)
  qed (use polys_agreeD(3) [OF a(4)] in simp)
  ultimately show ?thesis using a(5) by (simp add: inv_at_def agree_def f)
qed

text \<open>The value of the group at hand joins the agreement.\<close>

lemma join_group:
  assumes inv: "inv_at T M inputs X N (PN - {t}) A L s" and g: "ra_poly_map A t = Some rs"
    and L': "L' = L\<lparr>ls_poly := (ls_poly L)(t \<mapsto> vs)\<rparr>" "t \<in> PN \<Longrightarrow> vs = List.map (\<lambda>r. the (is_regs s (reg_key r))) rs"
  shows "inv_at T M inputs X N PN A L' s"
proof -
  have a: "polys_agree (PN - {t}) A L s" using inv by (simp add: inv_at_def agree_def)
  have "polys_agree PN A L' s"
  proof (rule polys_agreeI)
    fix t' rs' assume t': "ra_poly_map A t' = Some rs'"
    then show "\<forall>r \<in> set rs'. is_regs s (reg_key r) \<noteq> None" by (rule polys_agreeD(1) [OF a])
    assume "t' \<in> PN"
    then show "ls_poly L' t' = Some (List.map (\<lambda>r. the (is_regs s (reg_key r))) rs')"
      using polys_agreeD(2) [OF a t'] g t' L' by (cases "t' = t") simp_all
  next
    fix t' assume "t' \<in> PN" "ls_poly L' t' \<noteq> None"
    then show "ra_poly_map A t' \<noteq> None" using polys_agreeD(3) [OF a, of t'] g by (cases "t' = t") (simp_all add: L')
  qed
  then show ?thesis using inv
    by (simp add: inv_at_def agree_def regs_agree_def mem_agrees_def units_agree_def L'(1))
qed

lemma regs_write_Cons: "regs_write (r # rs) (v # vs) s = regs_write rs vs (reg_write r v s)"
  by (simp add: regs_write_def reg_write_def)

lemma regs_write_values:
  "distinct (List.map reg_key rs) \<Longrightarrow> length vs = length rs \<Longrightarrow>
   List.map (\<lambda>r. is_regs (regs_write rs vs s) (reg_key r)) rs = List.map Some vs"
proof (induction rs arbitrary: vs s)
  case (Cons r rs)
  then obtain v vs' where vs: "vs = v # vs'" by (cases vs) simp_all
  have "is_regs (regs_write rs vs' (reg_write r v s)) (reg_key r) = Some v"
    using regs_write_other [of "reg_key r" rs vs' "reg_write r v s"] Cons.prems(1) by (simp add: reg_write_def)
  then show ?case using Cons vs by (simp add: regs_write_Cons)
qed simp

lemma regs_written:
  assumes "distinct (List.map reg_key rs)" "length vs = length rs"
  shows "\<forall>r \<in> set rs. is_regs (regs_write rs vs s) (reg_key r) \<noteq> None"
    "List.map (\<lambda>r. the (is_regs (regs_write rs vs s) (reg_key r))) rs = vs"
proof -
  note v = regs_write_values [OF assms, of s]
  show "\<forall>r \<in> set rs. is_regs (regs_write rs vs s) (reg_key r) \<noteq> None"
  proof
    fix r assume "r \<in> set rs"
    then have "is_regs (regs_write rs vs s) (reg_key r) \<in> set (List.map Some vs)" unfolding v [symmetric] by simp
    then show "is_regs (regs_write rs vs s) (reg_key r) \<noteq> None" by auto
  qed
  have "List.map the (List.map (\<lambda>r. is_regs (regs_write rs vs s) (reg_key r)) rs) = List.map the (List.map Some vs)" by (simp only: v)
  then show "List.map (\<lambda>r. the (is_regs (regs_write rs vs s) (reg_key r))) rs = vs" by (simp add: comp_def)
qed


section \<open>Resolving a polynomial\<close>

lemma evict_until_inv:
  assumes "alloc_inv T M inputs {} N PN A L" "evict_until T order n A = Inr A'"
  shows "alloc_inv T M inputs {} N PN A' L \<and> ra_poly_map A' = ra_poly_map A \<and> (clean A R \<longrightarrow> clean A' R)"
  using assms
proof (induction n arbitrary: A)
  case (Suc n)
  then obtain B where B: "evict_vector T order A = Inr B" "evict_until T order n B = Inr A'" by (auto simp: bindr_Inr_iff)
  note k = vector_evictor.keeps [OF Suc.prems(1) B(1)]
  show ?case using Suc.IH [OF k(1) B(2)] k(4) vector_evictor.keeps_clean [OF Suc.prems(1) B(1)] by simp
qed simp

text \<open>Registers leave the free list for a new group.\<close>

lemma take_group:
  assumes inv: "inv_at T M inputs {} N PN A L s" and vf: "ra_vector_free A = rs @ rest" and A': "A' = A\<lparr>ra_vector_free := rest\<rparr>"
  shows "inv_at T M inputs {} N PN A' L s" "distinct (List.map reg_key rs)" "\<forall>r \<in> set rs. reg_type r = RegVector \<and> \<not> reg_dead r"
    "reg_key ` set rs \<inter> pool_keys A' = {}" "ra_poly_map A' t = Some rs' \<Longrightarrow> reg_key ` set rs' \<inter> reg_key ` set rs = {}"
proof -
  have p: "pool_ok A" "groups_ok A" using inv by (simp_all add: inv_at_def book_def)
  have m: "mset (pool A) = mset (rs @ pool A')" by (simp add: pool_def vf A')
  then have st: "set (pool A) = set rs \<union> set (pool A')" by (metis mset_eq_setD set_append)
  have "mset (List.map reg_key (pool A)) = mset (List.map reg_key (rs @ pool A'))" using m by simp
  then have d: "distinct (List.map reg_key (rs @ pool A'))" using mset_eq_imp_distinct_iff p(1) by (metis pool_ok_def)
  have "pool_ok A'" using p(1) d st by (auto simp: pool_ok_def A' vf)
  moreover have sub: "pool_keys A' \<subseteq> pool_keys A" using st by (auto simp: pool_keys_def)
  moreover have f: "ra_map A' = ra_map A" "ra_poly_map A' = ra_poly_map A" "ra_code A' = ra_code A" "ra_next A' = ra_next A"
    "ra_last_write A' = ra_last_write A" "ra_bcu_map A' = ra_bcu_map A" "ra_bcu_free A' = ra_bcu_free A" by (simp_all add: A')
  ultimately show "inv_at T M inputs {} N PN A' L s" using inv groups_ok_cong [OF p(2) f(2)]
    by (simp add: inv_at_def book_def table_ok_def code_ok_def written_ok_def written_def units_ok_def runs_def
        agree_def regs_agree_def mem_agrees_def units_agree_def polys_agree_def f)
  show "distinct (List.map reg_key rs)" using d by simp
  show "\<forall>r \<in> set rs. reg_type r = RegVector \<and> \<not> reg_dead r" using p(1) st by (auto simp: pool_ok_def vf)
  show "reg_key ` set rs \<inter> pool_keys A' = {}" using d by (simp add: pool_keys_def)
  show "reg_key ` set rs' \<inter> reg_key ` set rs = {}" if "ra_poly_map A' t = Some rs'"
  proof -
    have "reg_key ` set rs' \<inter> pool_keys A = {}" using groups_okD(3) [OF p(2)] that f(2) by simp
    moreover have "reg_key ` set rs \<subseteq> pool_keys A" using st by (auto simp: pool_keys_def)
    ultimately show ?thesis by blast
  qed
qed

lemma add_group:
  assumes inv: "inv_at T M inputs {} N (PN - {t}) A L s" and g: "ra_poly_map A t = None"
    and rs: "distinct (List.map reg_key rs)" "\<forall>r \<in> set rs. reg_type r = RegVector \<and> \<not> reg_dead r" "reg_key ` set rs \<inter> pool_keys A = {}"
      "\<And>t rs'. ra_poly_map A t = Some rs' \<Longrightarrow> reg_key ` set rs' \<inter> reg_key ` set rs = {}"
    and s: "\<forall>r \<in> set rs. is_regs s (reg_key r) \<noteq> None" and A': "A' = A\<lparr>ra_poly_map := (ra_poly_map A)(t \<mapsto> rs)\<rparr>"
  shows "inv_at T M inputs {} N (PN - {t}) A' L s"
proof -
  have p: "groups_ok A" and a: "polys_agree (PN - {t}) A L s" using inv by (simp_all add: inv_at_def book_def agree_def)
  have f: "ra_map A' = ra_map A" "ra_vector_free A' = ra_vector_free A" "ra_scalar_free A' = ra_scalar_free A" "ra_code A' = ra_code A" "ra_next A' = ra_next A"
    "ra_last_write A' = ra_last_write A" "ra_bcu_map A' = ra_bcu_map A" "ra_bcu_free A' = ra_bcu_free A" by (simp_all add: A')
  have pk: "pool_keys A' = pool_keys A" by (simp add: pool_keys_def pool_def f)
  have "groups_ok A'"
  proof (rule groups_okI)
    fix t' rs' assume t': "ra_poly_map A' t' = Some rs'"
    show "distinct (List.map reg_key rs') \<and> (\<forall>r \<in> set rs'. reg_type r = RegVector \<and> \<not> reg_dead r)"
      using t' rs(1,2) groups_okD(1,2) [OF p, of t' rs'] by (cases "t' = t") (simp_all add: A')
    show "reg_key ` set rs' \<inter> pool_keys A' = {}"
      unfolding pk using t' rs(3) groups_okD(3) [OF p, of t' rs'] by (cases "t' = t") (simp_all add: A')
  next
    fix t1 t2 r1 r2 assume h: "ra_poly_map A' t1 = Some r1" "ra_poly_map A' t2 = Some r2" "t1 \<noteq> t2"
    consider "t1 = t" "t2 \<noteq> t" | "t2 = t" "t1 \<noteq> t" | "t1 \<noteq> t" "t2 \<noteq> t" using h(3) by auto
    then show "reg_key ` set r1 \<inter> reg_key ` set r2 = {}"
    proof cases
      case 1
      then show ?thesis using h rs(4) [of t2 r2] by (simp add: A' Int_commute)
    next
      case 2
      then show ?thesis using h rs(4) [of t1 r1] by (simp add: A')
    next
      case 3
      then show ?thesis using h groups_okD(4) [OF p, of t1 r1 t2 r2] by (simp add: A')
    qed
  qed
  moreover have "polys_agree (PN - {t}) A' L s"
  proof (rule polys_agreeI)
    fix t' rs' assume t': "ra_poly_map A' t' = Some rs'"
    then show "\<forall>r \<in> set rs'. is_regs s (reg_key r) \<noteq> None"
      using polys_agreeD(1) [OF a, of t' rs'] s by (cases "t' = t") (simp_all add: A')
    assume "t' \<in> PN - {t}"
    then show "ls_poly L t' = Some (List.map (\<lambda>r. the (is_regs s (reg_key r))) rs')"
      using polys_agreeD(2) [OF a, of t' rs'] t' by (simp add: A')
  next
    fix t' assume "t' \<in> PN - {t}" "ls_poly L t' \<noteq> None"
    then show "ra_poly_map A' t' \<noteq> None" using polys_agreeD(3) [OF a, of t'] by (simp add: A')
  qed
  ultimately show ?thesis using inv
    by (simp add: inv_at_def book_def table_ok_def pool_ok_def pool_def code_ok_def written_ok_def written_def units_ok_def runs_def
        agree_def regs_agree_def mem_agrees_def units_agree_def f)
qed

lemma clean_new_group:
  assumes c: "clean B R" and i: "group_of i = {} \<and> isa_reads i = {} \<and> isa_writes i = reg_key ` set rs"
    and t: "ra_poly_map B t = None" and A': "A' = (push_code i B)\<lparr>ra_poly_map := (ra_poly_map (push_code i B))(t \<mapsto> rs)\<rparr>"
  shows "clean A' R"
proof (rule cleanI)
  have co: "isa_code A' = isa_code B @ [i]" by (simp add: isa_code_def A')
  have nr: "read_since (isa_code A') {} = read_since (isa_code B) {} - reg_key ` set rs"
    using i by (simp add: co read_since_append next_read_def)
  show "resolves_ok (isa_code A') {}" using cleanD(1) [OF c] i by (simp add: co resolves_ok_append)
  fix t' rs' assume t': "ra_poly_map A' t' = Some rs'" "t' \<notin> R"
  show "reg_key ` set rs' \<inter> read_since (isa_code A') {} = {}"
  proof (cases "t' = t")
    case True
    then have "rs' = rs" using t' by (simp add: A')
    then show ?thesis unfolding nr by blast
  next
    case False
    then have "ra_poly_map B t' = Some rs'" using t' by (simp add: A')
    then show ?thesis using cleanD(2) [OF c _ t'(2)] unfolding nr by blast
  qed
qed

lemma place_polynomial_inv:
  assumes inv: "alloc_inv T M inputs {} N PN A L" and place: "place_polynomial T order p A = Inr A'"
  obtains s rs where "inv_at T M inputs {} N (PN - {p_term p}) A' L s" "ra_poly_map A' (p_term p) = Some rs"
    "p_term p \<in> PN \<Longrightarrow> List.map (\<lambda>r. the (is_regs s (reg_key r))) rs =
       (case ls_poly L (p_term p) of None \<Rightarrow> replicate (length (p_limbs p)) (m_resolve_init M) | Some olds \<Rightarrow> olds)"
    "clean A R \<longrightarrow> clean A' R"
proof (cases "ra_poly_map A (p_term p)")
  case (Some rs)
  then have A': "A' = A" using place by (simp add: place_polynomial_def)
  obtain s where s: "inv_at T M inputs {} N PN A L s" using inv by (auto simp: alloc_inv_at)
  have a: "polys_agree PN A L s" using s by (simp add: inv_at_def agree_def)
  show thesis
    by (rule that [of s rs]) (use inv_at_mono [OF s] Some polys_agreeD(2) [OF a Some] in \<open>simp_all add: A'\<close>)
next
  case None
  let ?n = "length (p_limbs p)" and ?t = "p_term p"
  obtain A1 where A1: "evict_until T order (?n - length (ra_vector_free A)) A = Inr A1" "?n \<le> length (ra_vector_free A1)"
      "A' = (push_code (ResolveInitISA (take ?n (ra_vector_free A1))) (A1\<lparr>ra_vector_free := drop ?n (ra_vector_free A1)\<rparr>))
         \<lparr>ra_poly_map := (ra_poly_map (push_code (ResolveInitISA (take ?n (ra_vector_free A1))) (A1\<lparr>ra_vector_free := drop ?n (ra_vector_free A1)\<rparr>)))
           (?t \<mapsto> take ?n (ra_vector_free A1))\<rparr>"
    using place None by (auto simp: place_polynomial_def bindr_Inr_iff guardr_Inr_iff Let_def)
  define rs where "rs = take ?n (ra_vector_free A1)"
  define B where "B = A1\<lparr>ra_vector_free := drop ?n (ra_vector_free A1)\<rparr>"
  have len: "length rs = ?n" using A1(2) by (simp add: rs_def)
  note ev = evict_until_inv [OF inv A1(1), of R]
  obtain s where s: "inv_at T M inputs {} N PN A1 L s" using ev by (auto simp: alloc_inv_at)
  have vf: "ra_vector_free A1 = rs @ drop ?n (ra_vector_free A1)" by (simp add: rs_def)
  note tg = take_group [OF s vf B_def]
  have BN: "ra_poly_map B ?t = None" using ev None by (simp add: B_def)
  let ?vs = "replicate ?n (m_resolve_init M)" and ?ri = "ResolveInitISA rs"
  let ?s = "regs_write rs ?vs s"
  have w: "\<forall>r \<in> set rs. is_regs ?s (reg_key r) \<noteq> None" "List.map (\<lambda>r. the (is_regs ?s (reg_key r))) rs = ?vs"
    by (rule regs_written [OF tg(2)]; simp add: len)+
  have A': "A' = (push_code ?ri B)\<lparr>ra_poly_map := (ra_poly_map (push_code ?ri B))(?t \<mapsto> rs)\<rparr>" by (simp add: A1(3) rs_def B_def)
  have "inv_at T M inputs {} N (PN - {?t}) (push_code ?ri B) L ?s"
    by (rule group_write_inv [OF tg(1)])
      (use tg BN in \<open>simp_all add: isa_step_def reg_reads_def kill_dead_plain len plain_def isa_touches_def isa_writes_def\<close>)
  then have e: "inv_at T M inputs {} N (PN - {?t}) A' L ?s"
    by (rule add_group [OF _ _ tg(2,3) _ _ w(1) A']) (use tg(4,5) BN in simp_all)
  have none: "ls_poly L ?t = None" if "?t \<in> PN"
  proof -
    have "polys_agree PN A1 L s" using s by (simp add: inv_at_def agree_def)
    then show ?thesis using polys_agreeD(3) that None ev by metis
  qed
  have cl: "clean A' R" if "clean A R"
  proof (rule clean_new_group [OF _ _ BN A'])
    have "clean A1 R" using ev that by blast
    then show "clean B R" by (rule clean_frame) (simp_all add: B_def)
  qed (simp_all add: isa_reads_def group_of_def isa_writes_def)
  show thesis
  proof (rule that [of ?s rs])
    show "ra_poly_map A' ?t = Some rs" by (simp add: A')
    show "List.map (\<lambda>r. the (is_regs ?s (reg_key r))) rs =
       (case ls_poly L ?t of None \<Rightarrow> replicate ?n (m_resolve_init M) | Some olds \<Rightarrow> olds)" if "?t \<in> PN"
      unfolding w(2) none [OF that] by simp
  qed (use e cl in blast)+
qed


lemma no_conversion: "\<forall>l \<in> set ls. \<not> is_bcor T l \<Longrightarrow> note_converted T ls L = L"
  by (cases L) (auto simp: note_converted_def)

lemma process_resolve:
  assumes wf: "terms_wf T" and inv: "alloc_inv T M inputs {} (src_keys T i \<union> N) (poly_reads i \<union> PN) A L"
    and i: "i = ResolveLimb p src b"
    and st: "limb_step T M i L = Some L'" and pr: "process_instruction T order i A = Inr A'" and mk: "marks_ok T N PN i"
  shows "alloc_inv T M inputs {} N PN A' L'" "clean A (ls_reduced L) \<Longrightarrow> clean A' (ls_reduced L')"
proof -
  let ?t = "p_term p" and ?N = "src_keys T i \<union> N"
  obtain A1 A2 A3 A4 ri A5 A6 A7 A8 where p: "foldr_res (load_src T order) (limb_srcs i) A = Inr A1" "foldr_res (place_dest T order) (limb_dests i) A1 = Inr A2"
    "place_conversion (base_conversion_dest i) (limb_idx i) A2 = Inr A3"
    "foldr_res (place_polynomial T order) (polynomial_dests i) A3 = Inr A4" "get_register_instruction T A4 i = Inr ri"
    "foldr_res (release_limb T (ra_next A4)) (limb_srcs i) (push_code ri A4) = Inr A5"
    "foldr_res (finish_limb_dest T (ra_next A4)) (limb_dests i) A5 = Inr A6"
    "foldr_res (finish_polynomial_dest (ra_next A4)) (polynomial_dests i) A6 = Inr A7"
    "foldr_res (finish_polynomial_src (ra_next A4)) (polynomial_srcs i) A7 = Inr A8"
    "A' = A8\<lparr>ra_instructions := ra_instructions A8 + 1\<rparr>" using processD [OF pr] .
  have q: "A2 = A1" "A3 = A1" "place_polynomial T order p A1 = Inr A4" "finish_polynomial_dest (ra_next A4) p A6 = Inr A7" "A8 = A7"
    using p i by (simp_all add: place_conversion_def bindr_Inr_iff)
  obtain vs where vs: "limb_reads T M L (limb_srcs i) = Some vs" "limb_effect T M i vs (note_converted T (limb_srcs i) L) = Some L'"
    and srcs: "\<And>l. l \<in> set (limb_srcs i) \<Longrightarrow> \<not> is_bcor T l \<Longrightarrow> ls_env L (limb_key l) \<noteq> None"
    using limb_stepD [OF st] by blast
  have inv0: "alloc_inv T M inputs {} ?N PN A L" using inv by (simp add: poly_reads_def i)
  have "\<forall>l \<in> set (limb_srcs i). \<not> is_bcor T l \<longrightarrow> limb_key l \<in> ?N \<and> ls_env L (limb_key l) \<noteq> None"
    using srcs by (auto simp: src_keys_def)
  from load_srcs_inv [OF wf inv0 this p(1)]
  have inv1: "alloc_inv T M inputs {} ?N PN A1 L" and cl1: "clean A R \<Longrightarrow> clean A1 R" for R by blast+
  obtain s rs where s: "inv_at T M inputs {} ?N (PN - {?t}) A4 L s" "ra_poly_map A4 ?t = Some rs"
    and olds: "?t \<in> PN \<Longrightarrow> List.map (\<lambda>r. the (is_regs s (reg_key r))) rs =
       (case ls_poly L ?t of None \<Rightarrow> replicate (length (p_limbs p)) (m_resolve_init M) | Some olds \<Rightarrow> olds)"
    and cl4: "clean A1 (ls_reduced L) \<longrightarrow> clean A4 (ls_reduced L)"
    by (rule place_polynomial_inv [OF inv1 q(3), of "ls_reduced L"]) blast
  obtain r where r: "lm_at src (ra_map A4) = Inr r" "ri = ResolveISA rs r (p_limbs p) b"
    using p(5) s(2) by (auto simp: i bindr_Inr_iff)
  obtain v where v: "limb_read T M L src = Some v" "vs = [v]" using vs(1) by (auto simp: i limb_reads_single)
  have rd: "reg_read M s r = Some v" "\<not> reg_dead r" using read_source [OF s(1) v(1) _ lm_at_source [OF s(1) r(1)]] by simp_all
  have tb: "table_ok T A4" and g: "groups_ok A4" and a: "polys_agree (PN - {?t}) A4 L s"
    using s(1) by (simp_all add: inv_at_def book_def agree_def)
  have nb: "\<not> is_bcor T src" using table_no_conversion [OF tb] r(1) by (simp add: lm_at_def res_simps)
  note go = groups_okD [OF g s(2)]
  let ?olds = "List.map (\<lambda>r. the (is_regs s (reg_key r))) rs"
  let ?news = "List.map (\<lambda>(k, x). m_resolve M (p_limbs p) b k v x) (enumerate 0 ?olds)"
  have "list_all2 (\<lambda>r v. reg_read M s r = Some v) rs ?olds"
    using polys_agreeD(1) [OF a s(2)] go(2) by (auto simp: list_all2_conv_all_nth reg_read_def)
  then have "reg_reads M s rs = Some ?olds" by (rule reg_reads_eq)
  then have step: "isa_step M inputs ri s = Some (regs_write rs ?news s)"
    using rd by (simp add: r(2) isa_step_def reg_reads_def [of M s "[r]"] kill_dead_plain)
  have w: "\<forall>r \<in> set rs. is_regs (regs_write rs ?news s) (reg_key r) \<noteq> None"
    "List.map (\<lambda>r. the (is_regs (regs_write rs ?news s) (reg_key r))) rs = ?news"
    by (rule regs_written [OF go(1)]; simp)+
  have "inv_at T M inputs {} ?N ((PN - {?t}) - {?t}) (push_code ri A4) L (regs_write rs ?news s)"
  proof (rule group_write_inv [OF s(1) step])
    show "reg_key ` set rs' \<inter> reg_key ` set rs = {}" if "ra_poly_map A4 t' = Some rs'" "t' \<noteq> ?t" for t' rs'
      using groups_okD(4) [OF g that(1) s(2) that(2)] .
  qed (use rd(2) go(3) s(2) w(1) in \<open>simp_all add: r(2) plain_def isa_touches_def isa_writes_def\<close>)
  then have e1: "inv_at T M inputs {} ?N (PN - {?t}) (push_code ri A4) L (regs_write rs ?news s)" by simp
  define old where "old = (case ls_poly L ?t of None \<Rightarrow> replicate (length (p_limbs p)) (m_resolve_init M) | Some olds \<Rightarrow> olds)"
  have L': "L' = L\<lparr>ls_poly := (ls_poly L)(?t \<mapsto> List.map (\<lambda>(k, x). m_resolve M (p_limbs p) b k v x) (enumerate 0 old))\<rparr>"
    using vs(2) v(2) no_conversion [of "[src]" T L] nb by (simp add: i old_def Let_def split: if_splits)
  have "inv_at T M inputs {} ?N PN (push_code ri A4) L' (regs_write rs ?news s)"
  proof (rule join_group [OF e1 _ L'])
    assume "?t \<in> PN"
    then have "old = ?olds" using olds by (simp add: old_def)
    then show "List.map (\<lambda>(k, x). m_resolve M (p_limbs p) b k v x) (enumerate 0 old) = List.map (\<lambda>r. the (is_regs (regs_write rs ?news s) (reg_key r))) rs"
      unfolding w(2) by (rule arg_cong)
  qed (simp add: s(2))
  then have e: "inv_at T M inputs {} N PN (push_code ri A4) L' (regs_write rs ?news s)" by (rule inv_at_mono) simp_all
  have conv: "ls_converted (note_converted T (limb_srcs i) L) \<subseteq> ls_converted L'"
    unfolding L' using no_conversion [of "[src]" T L] nb by (simp add: i)
  have "inv_at T M inputs {} N PN A6 L' (regs_write rs ?news s)" by (rule process_rest [OF e conv _ mk p(6,7)]) (simp add: i)
  then have "inv_at T M inputs {} N PN A7 L' (regs_write rs ?news s)"
    by (rule finish_polynomial_dest_inv [OF _ _ q(4)]) (use mk in \<open>simp add: marks_ok_def i\<close>)
  then have "inv_at T M inputs {} N PN A' L' (regs_write rs ?news s)" unfolding p(10) q(5) by (rule inv_at_instructions)
  then show "alloc_inv T M inputs {} N PN A' L'" by (auto simp: alloc_inv_at)
  have red: "ls_reduced L' = ls_reduced L \<union> poly_reads i" "\<forall>p \<in> set (polynomial_dests i). p_term p \<notin> ls_reduced L"
    using reduced_step [OF vs(2)] by (simp_all add: note_converted_def)
  show "clean A' (ls_reduced L')" if c: "clean A (ls_reduced L)"
  proof -
    have "clean A4 (ls_reduced L)" using cl4 cl1 [OF c] by blast
    then have "clean (push_code ri A4) (ls_reduced L')" unfolding red(1)
      by (rule clean_emit [OF s(1) p(5) _ red(2)])
    then have "clean A6 (ls_reduced L')" using process_rest_clean [OF _ p(6,7)] by (simp add: i)
    then have "clean A7 (ls_reduced L')" using finish_polynomial_clean q(4) by blast
    then show ?thesis by (rule clean_frame) (simp_all add: p(10) q(5))
  qed
qed

section \<open>Writing to a base conversion unit\<close>

lemma book_units:
  assumes "book T X A" "units_ok A'"
    and "ra_map A' = ra_map A" "ra_code A' = ra_code A" "ra_next A' = ra_next A" "ra_last_write A' = ra_last_write A"
      "ra_vector_free A' = ra_vector_free A" "ra_scalar_free A' = ra_scalar_free A" "ra_poly_map A' = ra_poly_map A"
  shows "book T X A'"
  using assms
  by (simp add: book_def table_ok_def pool_ok_def pool_keys_def pool_def groups_ok_def code_ok_def written_ok_def written_def)

lemma inv_at_units:
  assumes inv: "inv_at T M inputs X N PN A L s" and u: "units_ok A'" "units_agree A' L' s'"
    and run: "runs T M inputs A s \<Longrightarrow> runs T M inputs A' s'" and b: "book T X A'"
    and f: "ra_map A' = ra_map A" "ra_poly_map A' = ra_poly_map A"
    and s': "is_regs s' = is_regs s" "is_mem s' = is_mem s" "is_trace s' = is_trace s"
    and L': "ls_env L' = ls_env L" "ls_poly L' = ls_poly L" "ls_trace L' = ls_trace L"
  shows "inv_at T M inputs X N PN A' L' s'"
  using assms by (simp add: inv_at_def agree_def regs_agree_def mem_agrees_def polys_agree_def)


definition unit_ok :: "BaseConversionUnit \<Rightarrow> nat list \<Rightarrow> bool" where
  "unit_ok b bases \<longleftrightarrow> (\<forall>(base, r) \<in> set (bcu_bases b). \<exists>i < length bases. r = bcu_register (bcu_id b) i \<and> bases ! i = base)"

lemma unit_ok_initialise: "unit_ok (bcu_initialise u bases c) bases"
  by (auto simp: unit_ok_def bcu_initialise_def in_set_enumerate_eq)

lemma start_conversion:
  assumes inv: "alloc_inv T M inputs {} N PN A L" and t: "ra_bcu_map A t = None" "t \<notin> ls_converted L"
    and u: "ra_bcu_free A = u # us" and b: "bcu_id b = u" "unit_ok b bases"
    and A': "A' = push_code (BcuInitISA u bases c) A\<lparr>ra_bcu_map := (ra_bcu_map A)(t \<mapsto> b), ra_cells := cells, ra_bcu_free := us\<rparr>"
  shows "alloc_inv T M inputs {} N PN A' L"
proof -
  obtain s where s: "inv_at T M inputs {} N PN A L s" using inv by (auto simp: alloc_inv_at)
  have o: "units_ok A" and a: "units_agree A L s" and bk: "book T {} A" using s by (simp_all add: inv_at_def book_def agree_def)
  have other: "bcu_id b' \<noteq> u \<and> bcu_id b' \<notin> set us" if "ra_bcu_map A t' = Some b'" for t' b'
    using units_okD(1) [OF o that] u by simp
  have du: "u \<notin> set us" "distinct us" using o u by (simp_all add: units_ok_def)
  let ?s = "s\<lparr>is_units := (is_units s)(u \<mapsto> (bases, []))\<rparr>"
  have uo: "units_ok A'"
  proof -
    have "bcu_id b' \<notin> set us" if "ra_bcu_map A' t' = Some b'" for t' b'
      using that other [of t' b'] du(1) b(1) by (cases "t' = t") (auto simp: A')
    moreover have "t1 = t2" if h: "ra_bcu_map A' t1 = Some b1" "ra_bcu_map A' t2 = Some b2" "bcu_id b1 = bcu_id b2" for t1 t2 b1 b2
    proof -
      consider "t1 = t" "t2 = t" | "t1 = t" "t2 \<noteq> t" | "t1 \<noteq> t" "t2 = t" | "t1 \<noteq> t" "t2 \<noteq> t" by auto
      then show ?thesis
      proof cases
        case 2
        then show ?thesis using h b(1) other [of t2 b2] by (simp add: A')
      next
        case 3
        then show ?thesis using h b(1) other [of t1 b1] by (simp add: A')
      next
        case 4
        then show ?thesis using h units_okD(2) [OF o, of t1 b1 t2 b2] by (simp add: A')
      qed simp
    qed
    moreover have "ra_bcu_free A' = us" by (simp add: A')
    ultimately show ?thesis using du(2) unfolding units_ok_def by simp
  qed
  have step: "isa_step M inputs (BcuInitISA u bases c) s = Some ?s"
    by (simp add: isa_step_def reg_reads_def kill_dead_plain)
  have "inv_at T M inputs {} N PN A' L ?s"
  proof (rule inv_at_units [OF s uo])
    show "units_agree A' L ?s"
    proof (rule units_agreeI)
      fix t' b' assume t': "ra_bcu_map A' t' = Some b'"
      show "\<exists>bases. is_units ?s (bcu_id b') = Some (bases, ls_writes L t') \<and>
        (\<forall>(base, r) \<in> set (bcu_bases b'). \<exists>i < length bases. r = bcu_register (bcu_id b') i \<and> bases ! i = base)"
      proof (cases "t' = t")
        case True
        then show ?thesis using t' units_agreeD(2) [OF a t] b by (simp add: A' unit_ok_def)
      next
        case False
        then have "ra_bcu_map A t' = Some b'" using t' by (simp add: A')
        then show ?thesis using units_agreeD(1) [OF a, of t' b'] other [of t' b'] by simp
      qed
    next
      fix t' assume "ra_bcu_map A' t' = None" "t' \<notin> ls_converted L"
      then show "ls_writes L t' = []" using units_agreeD(2) [OF a, of t'] by (simp add: A' split: if_splits)
    qed
    show "runs T M inputs A' ?s" if "runs T M inputs A s"
      using runs_push [OF that step] by (simp add: runs_def A')
    have "book T {} (push_code (BcuInitISA u bases c) A)"
      by (rule book_push [OF bk]) (simp_all add: plain_def leaves_entries_def isa_writes_def isa_touches_def)
    then show "book T {} A'" by (rule book_units [OF _ uo]) (simp_all add: A')
  qed (simp_all add: A')
  then show ?thesis by (auto simp: alloc_inv_at)
qed

lemma unit_written:
  assumes inv: "alloc_inv T M inputs {} N PN A L" and b: "ra_bcu_map A t = Some b" "bcu_id b' = bcu_id b" "bcu_bases b' = bcu_bases b"
    and A': "A' = A\<lparr>ra_bcu_map := (ra_bcu_map A)(t \<mapsto> b'), ra_cells := cells\<rparr>"
  shows "alloc_inv T M inputs {} N PN A' L"
proof -
  obtain s where s: "inv_at T M inputs {} N PN A L s" using inv by (auto simp: alloc_inv_at)
  have o: "units_ok A" and a: "units_agree A L s" and bk: "book T {} A" using s by (simp_all add: inv_at_def book_def agree_def)
  have old: "\<exists>c. ra_bcu_map A x = Some c \<and> bcu_id c = bcu_id c' \<and> bcu_bases c = bcu_bases c'" if "ra_bcu_map A' x = Some c'" for x c'
    using that b by (cases "x = t") (simp_all add: A')
  have uo: "units_ok A'"
  proof -
    have "bcu_id c' \<notin> set (ra_bcu_free A)" if "ra_bcu_map A' x = Some c'" for x c'
      using old [OF that] units_okD(1) [OF o] by metis
    moreover have "x = y" if h: "ra_bcu_map A' x = Some c" "ra_bcu_map A' y = Some d" "bcu_id c = bcu_id d" for x y c d
    proof -
      obtain c1 d1 where "ra_bcu_map A x = Some c1" "bcu_id c1 = bcu_id c" "ra_bcu_map A y = Some d1" "bcu_id d1 = bcu_id d"
        using old [OF h(1)] old [OF h(2)] by blast
      then show ?thesis using units_okD(2) [OF o, of x c1 y d1] h(3) by simp
    qed
    moreover have "ra_bcu_free A' = ra_bcu_free A" by (simp add: A')
    ultimately show ?thesis using o unfolding units_ok_def by simp
  qed
  have "inv_at T M inputs {} N PN A' L s"
  proof (rule inv_at_units [OF s uo])
    show "units_agree A' L s"
    proof (rule units_agreeI)
      fix x c' assume c': "ra_bcu_map A' x = Some c'"
      obtain c where c: "ra_bcu_map A x = Some c" "bcu_id c = bcu_id c'" "bcu_bases c = bcu_bases c'" using old [OF c'] by blast
      show "\<exists>bases. is_units s (bcu_id c') = Some (bases, ls_writes L x) \<and>
        (\<forall>(base, r) \<in> set (bcu_bases c'). \<exists>i < length bases. r = bcu_register (bcu_id c') i \<and> bases ! i = base)"
        using units_agreeD(1) [OF a c(1)] c(2,3) by simp
    next
      fix x assume "ra_bcu_map A' x = None" "x \<notin> ls_converted L"
      then show "ls_writes L x = []" using units_agreeD(2) [OF a, of x] by (simp add: A' split: if_splits)
    qed
    show "runs T M inputs A' s" if "runs T M inputs A s" using that by (simp add: runs_def A')
    show "book T {} A'" by (rule book_units [OF bk uo]) (simp_all add: A')
  qed (simp_all add: A')
  then show ?thesis by (auto simp: alloc_inv_at)
qed

lemma place_conversion_inv:
  assumes inv: "alloc_inv T M inputs {} N PN A L" and t: "p_term p \<notin> ls_converted L" and pl: "place_conversion (Some p) base A = Inr A'"
  shows "alloc_inv T M inputs {} N PN A' L"
proof (cases "ra_bcu_map A (p_term p)")
  case (Some b)
  then show ?thesis using pl
    by (intro unit_written [OF inv Some, of "b\<lparr>bcu_writes := bcu_writes b + 1\<rparr>" A'
        "(ra_cells A)(bcu_sources b := insert base (ra_cells A (bcu_sources b)))"]) (auto simp: place_conversion_def)
next
  case None
  then obtain u us where u: "ra_bcu_free A = u # us" using pl by (cases "ra_bcu_free A") (simp_all add: place_conversion_def)
  let ?b = "bcu_initialise u (p_limbs p) (ra_next A)"
  define B where "B = push_code (BcuInitISA u (p_limbs p) (ra_next A)) A
      \<lparr>ra_bcu_map := (ra_bcu_map A)(p_term p \<mapsto> ?b), ra_cells := (ra_cells A)(ra_next A := {}), ra_bcu_free := us\<rparr>"
  have "alloc_inv T M inputs {} N PN B L"
    by (rule start_conversion [OF inv None t u _ unit_ok_initialise B_def]) (simp add: bcu_initialise_def)
  moreover have "ra_bcu_map B (p_term p) = Some ?b" by (simp add: B_def)
  ultimately show ?thesis
  proof (rule unit_written [where b' = "?b\<lparr>bcu_writes := bcu_writes ?b + 1\<rparr>"])
    show "A' = B\<lparr>ra_bcu_map := (ra_bcu_map B)(p_term p \<mapsto> ?b\<lparr>bcu_writes := bcu_writes ?b + 1\<rparr>),
        ra_cells := (ra_cells B)(bcu_sources ?b := insert base (ra_cells B (bcu_sources ?b)))\<rparr>"
      using pl None u by (simp add: place_conversion_def B_def push_code_def)
  qed simp_all
qed


lemma process_conversion:
  assumes wf: "terms_wf T" and inv: "alloc_inv T M inputs {} (src_keys T i \<union> N) (poly_reads i \<union> PN) A L"
    and i: "i = PlLimb1 p src b intt"
    and st: "limb_step T M i L = Some L'" and pr: "process_instruction T order i A = Inr A'" and mk: "marks_ok T N PN i"
  shows "alloc_inv T M inputs {} N PN A' L'" "clean A (ls_reduced L) \<Longrightarrow> clean A' (ls_reduced L')"
proof -
  let ?t = "p_term p" and ?N = "src_keys T i \<union> N"
  obtain A1 A2 A3 A4 ri A5 A6 A7 A8 where p: "foldr_res (load_src T order) (limb_srcs i) A = Inr A1" "foldr_res (place_dest T order) (limb_dests i) A1 = Inr A2"
    "place_conversion (base_conversion_dest i) (limb_idx i) A2 = Inr A3"
    "foldr_res (place_polynomial T order) (polynomial_dests i) A3 = Inr A4" "get_register_instruction T A4 i = Inr ri"
    "foldr_res (release_limb T (ra_next A4)) (limb_srcs i) (push_code ri A4) = Inr A5"
    "foldr_res (finish_limb_dest T (ra_next A4)) (limb_dests i) A5 = Inr A6"
    "foldr_res (finish_polynomial_dest (ra_next A4)) (polynomial_dests i) A6 = Inr A7"
    "foldr_res (finish_polynomial_src (ra_next A4)) (polynomial_srcs i) A7 = Inr A8"
    "A' = A8\<lparr>ra_instructions := ra_instructions A8 + 1\<rparr>" using processD [OF pr] .
  have q: "place_conversion (Some p) b A1 = Inr A4" "A7 = A6" "A8 = A6"
    using p i by simp_all
  obtain vs where vs: "limb_reads T M L (limb_srcs i) = Some vs" "limb_effect T M i vs (note_converted T (limb_srcs i) L) = Some L'"
    and srcs: "\<And>l. l \<in> set (limb_srcs i) \<Longrightarrow> \<not> is_bcor T l \<Longrightarrow> ls_env L (limb_key l) \<noteq> None"
    using limb_stepD [OF st] by blast
  have t: "?t \<notin> ls_converted (note_converted T [src] L)" using vs(2) i by (simp split: if_splits)
  then have t0: "?t \<notin> ls_converted L" by (simp add: note_converted_def)
  have inv0: "alloc_inv T M inputs {} ?N PN A L" using inv by (simp add: poly_reads_def i)
  have "\<forall>l \<in> set (limb_srcs i). \<not> is_bcor T l \<longrightarrow> limb_key l \<in> ?N \<and> ls_env L (limb_key l) \<noteq> None"
    using srcs by (auto simp: src_keys_def)
  from load_srcs_inv [OF wf inv0 this p(1)]
  have inv1: "alloc_inv T M inputs {} ?N PN A1 L" and cl1: "clean A R \<Longrightarrow> clean A1 R" for R by blast+
  from inv1 have "alloc_inv T M inputs {} ?N PN A4 L" by (rule place_conversion_inv [OF _ t0 q(1)])
  then obtain s where s: "inv_at T M inputs {} ?N PN A4 L s" by (auto simp: alloc_inv_at)
  obtain u r where r: "ra_bcu_map A4 ?t = Some u" "lm_at src (ra_map A4) = Inr r" "ri = PlISA1 (bcu_id u) r b intt"
    using p(5) by (auto simp: i bindr_Inr_iff the_res_Inr_iff)
  obtain v where v: "limb_read T M L src = Some v" "vs = [v]" using vs(1) by (auto simp: i limb_reads_single)
  have rd: "reg_read M s r = Some v" "\<not> reg_dead r" using read_source [OF s v(1) _ lm_at_source [OF s r(2)]] by simp_all
  have tb: "table_ok T A4" and a: "units_agree A4 L s" and o: "units_ok A4" and bk: "book T {} A4"
    using s by (simp_all add: inv_at_def book_def agree_def)
  have nb: "\<not> is_bcor T src" using table_no_conversion [OF tb] r(2) by (simp add: lm_at_def res_simps)
  obtain bases where bases: "is_units s (bcu_id u) = Some (bases, ls_writes L ?t)" "unit_ok u bases"
    using units_agreeD(1) [OF a r(1)] by (auto simp: unit_ok_def)
  let ?w = "ls_writes L ?t @ [(b, intt, v)]"
  have L': "L' = L\<lparr>ls_writes := (ls_writes L)(?t := ?w)\<rparr>"
    using vs(2) v(2) t0 no_conversion [of "[src]" T L] nb by (simp add: i)
  let ?s = "s\<lparr>is_units := (is_units s)(bcu_id u \<mapsto> (bases, ?w))\<rparr>"
  have step: "isa_step M inputs ri s = Some ?s"
    using rd bases(1) by (simp add: r(3) isa_step_def reg_reads_def kill_dead_plain)
  have uo: "units_ok (push_code ri A4)" using o by (simp add: units_ok_def)
  have "inv_at T M inputs {} ?N PN (push_code ri A4) L' ?s"
  proof (rule inv_at_units [OF s uo])
    show "units_agree (push_code ri A4) L' ?s"
    proof (rule units_agreeI)
      fix t' b' assume t': "ra_bcu_map (push_code ri A4) t' = Some b'"
      show "\<exists>bases. is_units ?s (bcu_id b') = Some (bases, ls_writes L' t') \<and>
        (\<forall>(base, r) \<in> set (bcu_bases b'). \<exists>i < length bases. r = bcu_register (bcu_id b') i \<and> bases ! i = base)"
      proof (cases "t' = ?t")
        case True
        then show ?thesis using t' r(1) bases(2) by (simp add: L' unit_ok_def)
      next
        case False
        then have "bcu_id b' \<noteq> bcu_id u" using t' units_okD(2) [OF o r(1), of t' b'] by auto
        then show ?thesis using units_agreeD(1) [OF a, of t' b'] t' False by (simp add: L')
      qed
    next
      fix t' assume "ra_bcu_map (push_code ri A4) t' = None" "t' \<notin> ls_converted L'"
      then show "ls_writes L' t' = []" using units_agreeD(2) [OF a, of t'] r(1) by (cases "t' = ?t") (simp_all add: L')
    qed
    show "runs T M inputs (push_code ri A4) ?s" if "runs T M inputs A4 s" using runs_push [OF that step] .
    show "book T {} (push_code ri A4)"
      by (rule book_push [OF bk]) (simp_all add: r(3) rd(2) plain_def leaves_entries_def isa_writes_def isa_touches_def)
  qed (simp_all add: L')
  then have e: "inv_at T M inputs {} N PN (push_code ri A4) L' ?s" by (rule inv_at_mono) simp_all
  have conv: "ls_converted (note_converted T (limb_srcs i) L) \<subseteq> ls_converted L'"
    unfolding L' using no_conversion [of "[src]" T L] nb by (simp add: i)
  have "inv_at T M inputs {} N PN A6 L' ?s" by (rule process_rest [OF e conv _ mk p(6,7)]) (simp add: i)
  then have "inv_at T M inputs {} N PN A' L' ?s" unfolding p(10) q(3) by (rule inv_at_instructions)
  then show "alloc_inv T M inputs {} N PN A' L'" by (auto simp: alloc_inv_at)
  have red: "ls_reduced L' = ls_reduced L \<union> poly_reads i" "\<forall>p \<in> set (polynomial_dests i). p_term p \<notin> ls_reduced L"
    using reduced_step [OF vs(2)] by (simp_all add: note_converted_def)
  show "clean A' (ls_reduced L')" if c: "clean A (ls_reduced L)"
  proof -
    have "clean A4 (ls_reduced L)" by (rule place_conversion_clean [OF q(1) cl1 [OF c]])
    then have "clean (push_code ri A4) (ls_reduced L')" unfolding red(1) by (rule clean_emit [OF s p(5) _ red(2)])
    then have "clean A6 (ls_reduced L')" using process_rest_clean [OF _ p(6,7)] by (simp add: i)
    then show ?thesis by (rule clean_frame) (simp_all add: p(10) q(3))
  qed
qed

section \<open>What leaves the chip\<close>

definition is_outward :: "LimbInstruction \<Rightarrow> bool" where
  "is_outward i \<longleftrightarrow> (case i of SendLimb s b \<Rightarrow> True | DistLimb s b sync sz \<Rightarrow> True | JoinGlobalLimb d s b sync sz \<Rightarrow> d = None | _ \<Rightarrow> False)"

lemma outward_shape:
  assumes "is_outward i"
  shows "limb_dests i = []" "base_conversion_dest i = None" "polynomial_dests i = []" "polynomial_srcs i = []"
  using assms by (cases i; simp add: is_outward_def)+

lemma outward_step:
  assumes inv: "inv_at T M inputs {} N PN A L s" and i: "is_outward i"
    and vs: "limb_reads T M L (limb_srcs i) = Some vs" and ri: "get_register_instruction T A i = Inr ri"
    and L': "limb_effect T M i vs (note_converted T (limb_srcs i) L) = Some L'"
  obtains e where "isa_step M inputs ri s = Some (isa_emit e s)" "plain ri" "isa_writes ri = {}" "isa_touches ri = {}"
    "L' = limb_emit e (note_converted T (limb_srcs i) L)"
proof -
  have src: "reg_read M s x = Some v \<and> \<not> reg_dead x" if "limb_read T M L l = Some v" "lm_at l (ra_map A) = Inr x" for l v x
    by (rule read_source [OF inv that(1) _ lm_at_source [OF inv that(2)]]) simp
  show thesis
  proof (cases i)
    case (SendLimb l b)
    obtain v where v: "limb_read T M L l = Some v" "vs = [v]" using vs SendLimb by (auto simp: limb_reads_single)
    obtain x where x: "lm_at l (ra_map A) = Inr x" "ri = SendISA x l b" using ri SendLimb by (auto simp: bindr_Inr_iff)
    show thesis
      by (rule that [of "Sent (limb_key l) b v"])
        (use src [OF v(1) x(1)] L' v(2) in \<open>simp_all add: x(2) SendLimb isa_step_def reg_reads_def kill_dead_plain plain_def isa_writes_def isa_touches_def\<close>)
  next
    case (DistLimb l b sync sz)
    obtain v where v: "limb_read T M L l = Some v" "vs = [v]" using vs DistLimb by (auto simp: limb_reads_single)
    obtain x where x: "lm_at l (ra_map A) = Inr x" "ri = DistISA x b sync sz" using ri DistLimb by (auto simp: bindr_Inr_iff)
    show thesis
      by (rule that [of "Distributed sync sz v"])
        (use src [OF v(1) x(1)] L' v(2) in \<open>simp_all add: x(2) DistLimb isa_step_def reg_reads_def kill_dead_plain plain_def isa_writes_def isa_touches_def\<close>)
  next
    case (JoinGlobalLimb d ss b sync sz)
    then have d: "d = None" using i by (simp add: is_outward_def)
    show thesis
    proof (cases ss)
      case None
      show thesis
        by (rule that [of "Joined sync sz None"])
          (use ri L' in \<open>auto simp: None d JoinGlobalLimb isa_step_def reg_reads_def kill_dead_plain plain_def isa_writes_def isa_touches_def Let_def\<close>)
    next
      case (Some l)
      obtain v where v: "limb_read T M L l = Some v" "vs = [v]" using vs JoinGlobalLimb Some by (auto simp: limb_reads_single)
      obtain x where x: "lm_at l (ra_map A) = Inr x" "ri = JoinGlobalISA None (Some x) b sync sz"
        using ri JoinGlobalLimb Some d by (auto simp: bindr_Inr_iff)
      show thesis
        by (rule that [of "Joined sync sz (Some v)"])
          (use src [OF v(1) x(1)] L' v(2) in \<open>auto simp: x(2) Some d JoinGlobalLimb isa_step_def reg_reads_def kill_dead_plain plain_def isa_writes_def isa_touches_def Let_def\<close>)
    qed
  qed (use i in \<open>simp_all add: is_outward_def\<close>)
qed

lemma process_outward:
  assumes wf: "terms_wf T" and inv: "alloc_inv T M inputs {} (src_keys T i \<union> N) (poly_reads i \<union> PN) A L"
    and i: "is_outward i"
    and st: "limb_step T M i L = Some L'" and pr: "process_instruction T order i A = Inr A'" and mk: "marks_ok T N PN i"
  shows "alloc_inv T M inputs {} N PN A' L'" "clean A (ls_reduced L) \<Longrightarrow> clean A' (ls_reduced L')"
proof -
  let ?N = "src_keys T i \<union> N"
  note sh = outward_shape [OF i]
  obtain A1 A2 A3 A4 ri A5 A6 A7 A8 where p: "foldr_res (load_src T order) (limb_srcs i) A = Inr A1" "foldr_res (place_dest T order) (limb_dests i) A1 = Inr A2"
    "place_conversion (base_conversion_dest i) (limb_idx i) A2 = Inr A3"
    "foldr_res (place_polynomial T order) (polynomial_dests i) A3 = Inr A4" "get_register_instruction T A4 i = Inr ri"
    "foldr_res (release_limb T (ra_next A4)) (limb_srcs i) (push_code ri A4) = Inr A5"
    "foldr_res (finish_limb_dest T (ra_next A4)) (limb_dests i) A5 = Inr A6"
    "foldr_res (finish_polynomial_dest (ra_next A4)) (polynomial_dests i) A6 = Inr A7"
    "foldr_res (finish_polynomial_src (ra_next A4)) (polynomial_srcs i) A7 = Inr A8"
    "A' = A8\<lparr>ra_instructions := ra_instructions A8 + 1\<rparr>" using processD [OF pr] .
  have q: "A4 = A1" "A7 = A6" "A8 = A6" using p sh by (simp_all add: place_conversion_def)
  obtain vs where vs: "limb_reads T M L (limb_srcs i) = Some vs" "limb_effect T M i vs (note_converted T (limb_srcs i) L) = Some L'"
    and srcs: "\<And>l. l \<in> set (limb_srcs i) \<Longrightarrow> \<not> is_bcor T l \<Longrightarrow> ls_env L (limb_key l) \<noteq> None"
    using limb_stepD [OF st] by blast
  have inv0: "alloc_inv T M inputs {} ?N PN A L" using inv by (simp add: poly_reads_def sh)
  have "\<forall>l \<in> set (limb_srcs i). \<not> is_bcor T l \<longrightarrow> limb_key l \<in> ?N \<and> ls_env L (limb_key l) \<noteq> None"
    using srcs by (auto simp: src_keys_def)
  from load_srcs_inv [OF wf inv0 this p(1)]
  have inv1: "alloc_inv T M inputs {} ?N PN A4 L" and cl1: "clean A R \<Longrightarrow> clean A4 R" for R unfolding q(1) by blast+
  then obtain s where s: "inv_at T M inputs {} ?N PN A4 L s" by (auto simp: alloc_inv_at)
  obtain e where e: "isa_step M inputs ri s = Some (isa_emit e s)" "plain ri" "isa_writes ri = {}" "isa_touches ri = {}"
    "L' = limb_emit e (note_converted T (limb_srcs i) L)" by (rule outward_step [OF s i vs(1) p(5) vs(2)])
  have tr: "is_trace s = ls_trace L" using s by (simp add: inv_at_def agree_def)
  have "inv_at T M inputs {} ?N PN (push_code ri A4) L' (isa_emit e s)"
    by (rule emit_inv [OF s e(1,2,4,3)]) (simp_all add: e(5) tr isa_emit_def limb_emit_def note_converted_def)
  then have e0: "inv_at T M inputs {} N PN (push_code ri A4) L' (isa_emit e s)" by (rule inv_at_mono) simp_all
  have conv: "ls_converted (note_converted T (limb_srcs i) L) \<subseteq> ls_converted L'" by (simp add: e(5) limb_emit_def)
  have "inv_at T M inputs {} N PN A6 L' (isa_emit e s)" by (rule process_rest [OF e0 conv sh(1) mk p(6,7)])
  then have "inv_at T M inputs {} N PN A' L' (isa_emit e s)" unfolding p(10) q(3) by (rule inv_at_instructions)
  then show "alloc_inv T M inputs {} N PN A' L'" by (auto simp: alloc_inv_at)
  have red: "ls_reduced L' = ls_reduced L \<union> poly_reads i" "\<forall>p \<in> set (polynomial_dests i). p_term p \<notin> ls_reduced L"
    using reduced_step [OF vs(2)] by (simp_all add: note_converted_def)
  show "clean A' (ls_reduced L')" if c: "clean A (ls_reduced L)"
  proof -
    have "clean (push_code ri A4) (ls_reduced L')" unfolding red(1) by (rule clean_emit [OF s p(5) cl1 [OF c] red(2)])
    then have "clean A6 (ls_reduced L')" using process_rest_clean [OF _ p(6,7) sh(1)] by simp
    then show ?thesis by (rule clean_frame) (simp_all add: p(10) q(3))
  qed
qed

text \<open>Every instruction.\<close>

lemma process_inv:
  assumes "terms_wf T" "alloc_inv T M inputs {} (src_keys T i \<union> N) (poly_reads i \<union> PN) A L"
    and "limb_step T M i L = Some L'" "process_instruction T order i A = Inr A'" "marks_ok T N PN i"
  shows "alloc_inv T M inputs {} N PN A' L'" "clean A (ls_reduced L) \<Longrightarrow> clean A' (ls_reduced L')"
proof -
  consider d where "limb_dests i = [d]" "base_conversion_dest i = None" "polynomial_dests i = []" | "is_outward i"
    | p src b where "i = ResolveLimb p src b" | p src b intt where "i = PlLimb1 p src b intt"
  proof (cases i)
    case (JoinGlobalLimb dd ss b sync sz)
    then show ?thesis using that(1,2) by (cases dd) (simp_all add: is_outward_def)
  qed (use that in \<open>simp_all add: is_outward_def\<close>)
  then have "alloc_inv T M inputs {} N PN A' L' \<and> (clean A (ls_reduced L) \<longrightarrow> clean A' (ls_reduced L'))"
  proof cases
    case 1
    then show ?thesis using process_dest [OF assms(1,2) 1 assms(3-5)] by simp
  next
    case 2
    then show ?thesis using process_outward [OF assms(1,2) 2 assms(3-5)] by simp
  next
    case 3
    then show ?thesis using process_resolve [OF assms(1,2) 3 assms(3-5)] by simp
  next
    case 4
    then show ?thesis using process_conversion [OF assms(1,2) 4 assms(3-5)] by simp
  qed
  then show "alloc_inv T M inputs {} N PN A' L'" "clean A (ls_reduced L) \<Longrightarrow> clean A' (ls_reduced L')" by simp_all
qed

end
