(* ===== verification/NextUse.thy ===== *)
theory NextUse
  imports RegisterProcess
begin

text \<open>
  The next use analysis only marks operands, and marks them right: a limb or polynomial marked dead is
  not read again before it is written. So the allocator run on the analysed program keeps its
  invariant.
\<close>

section \<open>Marking changes no name\<close>

definition same_operands :: "(Limb \<Rightarrow> Limb) \<Rightarrow> Limb list \<Rightarrow> (Poly \<Rightarrow> Poly) \<Rightarrow> LimbInstruction \<Rightarrow> bool" where
  "same_operands f ss g i \<longleftrightarrow> (\<forall>l. limb_key (f l) = limb_key l) \<and>
     List.map limb_key ss = List.map limb_key (limb_srcs i) \<and>
     (\<forall>p \<in> set (polynomial_srcs i) \<union> set (polynomial_dests i). p_term (g p) = p_term p \<and> p_limbs (g p) = p_limbs p)"

lemma same_key: "limb_key l' = limb_key l \<longleftrightarrow> l_term l' = l_term l \<and> l_limb l' = l_limb l"
  by (auto simp: limb_key_def)

lemma with_srcs_operands: "length ss = length (limb_srcs i) \<Longrightarrow> limb_srcs (with_operands f ss g i) = ss"
  by (cases i) (auto simp: length_Suc_conv split: option.splits)

lemma same_srcs: "same_operands f ss g i \<Longrightarrow> limb_srcs (with_operands f ss g i) = ss"
  by (rule with_srcs_operands) (metis length_map same_operands_def)

lemma same_dests: "limb_dests (with_operands f ss g i) = List.map f (limb_dests i)"
  by (cases i) (auto split: option.splits)

lemma same_polys:
  "polynomial_srcs (with_operands f ss g i) = List.map g (polynomial_srcs i)"
  "polynomial_dests (with_operands f ss g i) = List.map g (polynomial_dests i)"
  by (cases i; simp)+

definition read_name :: "terms \<Rightarrow> 'v machine \<Rightarrow> 'v limb_state \<Rightarrow> limb_name \<Rightarrow> 'v option" where
  "read_name T M st k = (if t_bcor (T (fst k)) then Some (m_convert M (snd k) (ls_writes st (fst k))) else ls_env st k)"

lemma limb_reads_names:
  "limb_reads T M L ls = (if \<forall>k \<in> set (List.map limb_key ls). read_name T M L k \<noteq> None
     then Some (List.map (\<lambda>k. the (read_name T M L k)) (List.map limb_key ls)) else None)"
  by (simp add: limb_reads_def limb_read_def read_name_def limb_key_def)

lemma note_converted_names:
  "note_converted T ls L = L\<lparr>ls_converted := ls_converted L \<union> fst ` {k \<in> set (List.map limb_key ls). t_bcor (T (fst k))}\<rparr>"
proof -
  have "l_term ` {l \<in> set ls. is_bcor T l} = fst ` {k \<in> set (List.map limb_key ls). t_bcor (T (fst k))}"
    by (force simp: limb_key_def)
  then show ?thesis by (simp add: note_converted_def)
qed

lemma same_reads:
  assumes "List.map limb_key ss = List.map limb_key ls"
  shows "limb_reads T M L ss = limb_reads T M L ls" "note_converted T ss L = note_converted T ls L"
  by (simp_all only: limb_reads_names note_converted_names assms)

lemma same_write:
  assumes "limb_key l' = limb_key l"
  shows "limb_write T l' v L = limb_write T l v L"
proof -
  have "l_term l' = l_term l" using assms by (simp add: limb_key_def)
  then show ?thesis by (simp only: limb_write_def assms)
qed

lemma same_effect:
  assumes "same_operands f ss g i"
  shows "limb_effect T M (with_operands f ss g i) vs L = limb_effect T M i vs L"
proof -
  have f1: "limb_key (f l) = limb_key l" for l using assms by (simp add: same_operands_def)
  note f = f1 same_write [OF f1]
  show ?thesis
  proof (cases i)
    case (SendLimb l b)
    then show ?thesis using assms by (auto simp: same_operands_def map_eq_Cons_conv)
  next
    case (JoinGlobalLimb d l b sync sz)
    then show ?thesis by (cases d; cases l) (simp_all add: f Let_def)
  next
    case (ResolveLimb p l b)
    then have "p_term (g p) = p_term p" "p_limbs (g p) = p_limbs p" using assms by (simp_all add: same_operands_def)
    then show ?thesis by (simp only: ResolveLimb with_operands.simps limb_effect.simps)
  next
    case (ModLimb d p b)
    then have "p_term (g p) = p_term p" using assms by (simp add: same_operands_def)
    then show ?thesis by (simp only: ModLimb with_operands.simps limb_effect.simps f)
  qed (simp_all add: f)
qed

lemma same_step:
  assumes "same_operands f ss g i"
  shows "limb_step T M (with_operands f ss g i) L = limb_step T M i L"
proof -
  have l: "List.map limb_key ss = List.map limb_key (limb_srcs i)" using assms by (simp add: same_operands_def)
  show ?thesis by (simp add: limb_step_def same_srcs [OF assms] same_reads [OF l] same_effect [OF assms] split: option.split)
qed

lemma same_Inp: "is_Inp (with_operands f ss g i) = is_Inp i"
  by (cases i) (simp_all add: is_Inp_def)

section \<open>The forward pass\<close>

definition last_use_mark :: "nat \<Rightarrow> LimbInstruction \<Rightarrow> LimbInstruction" where
  "last_use_mark n i = with_operands (\<lambda>l. l\<lparr>l_last_use := n\<rparr>) (List.map (\<lambda>l. l\<lparr>l_last_use := n\<rparr>) (limb_srcs i)) (\<lambda>p. p) i"

lemma last_use_same: "same_operands (\<lambda>l. l\<lparr>l_last_use := n\<rparr>) (List.map (\<lambda>l. l\<lparr>l_last_use := n\<rparr>) (limb_srcs i)) (\<lambda>p. p) i"
  by (simp add: same_operands_def limb_key_def list_all2_conv_all_nth)

lemma last_use_unmarked: "unmarked i \<Longrightarrow> unmarked (last_use_mark n i)"
  by (auto simp: unmarked_def last_use_mark_def same_srcs [OF last_use_same] same_dests same_polys)

lemma last_use_step_cases:
  "last_use_step i (n, acc) = (if is_Inp i then (n, acc) else (n + 1, acc @ [last_use_mark n i]))"
  by (simp add: last_use_step_def last_use_mark_def)

lemma last_uses_append:
  "snd (fold last_use_step P (n, acc)) = acc @ snd (fold last_use_step P (n, []))"
proof (induction P arbitrary: n acc)
  case (Cons i P)
  show ?case
    using Cons [of "n + 1" "acc @ [last_use_mark n i]"] Cons [of "n + 1" "[last_use_mark n i]"] Cons [of n acc]
    by (cases "is_Inp i") (simp_all add: last_use_step_cases)
qed simp

lemma last_uses_Cons:
  "snd (fold last_use_step (i # P) (n, [])) =
     (if is_Inp i then snd (fold last_use_step P (n, [])) else last_use_mark n i # snd (fold last_use_step P (n + 1, [])))"
  using last_uses_append [of P "n + 1" "[last_use_mark n i]"] by (simp add: last_use_step_cases)

lemma last_uses_run: "limb_run T M (snd (fold last_use_step P (n, []))) L = limb_run T M P L"
proof (induction P arbitrary: n L)
  case (Cons i P)
  have "limb_step T M (last_use_mark n i) L = limb_step T M i L" "is_Inp (last_use_mark n i) = is_Inp i"
    unfolding last_use_mark_def by (rule same_step [OF last_use_same], rule same_Inp)
  then show ?case unfolding last_uses_Cons using Cons by (simp split: option.split)
qed simp

lemma last_uses_unmarked:
  "\<forall>i \<in> set P. unmarked i \<Longrightarrow> \<forall>i \<in> set (snd (fold last_use_step P (n, []))). unmarked i"
proof (induction P arbitrary: n)
  case (Cons i P)
  then show ?case unfolding last_uses_Cons using last_use_unmarked by simp
qed simp


section \<open>The backward pass\<close>

lemma mark_srcs_spec:
  assumes "mark_srcs n ls nu = (ss, nu')" "\<forall>l \<in> set ls. \<not> l_dead l"
  shows "List.map limb_key ss = List.map limb_key ls \<and> nu_poly nu' = nu_poly nu \<and>
    dom (nu_limb nu') = dom (nu_limb nu) \<union> limb_key ` set ls \<and> (\<forall>l \<in> set ss. dead_ok (dom (nu_limb nu)) l)"
  using assms
proof (induction ls arbitrary: ss nu')
  case (Cons l ls)
  obtain ss1 nu1 where 1: "mark_srcs n ls nu = (ss1, nu1)" by (cases "mark_srcs n ls nu") auto
  obtain l' where l: "ss = l' # ss1" "nu' = nu1\<lparr>nu_limb := (nu_limb nu1)(limb_key l \<mapsto> n)\<rparr>"
    "l' = (case nu_limb nu1 (limb_key l) of None \<Rightarrow> l\<lparr>l_dead := True\<rparr> | Some u \<Rightarrow> l\<lparr>l_next_use := u\<rparr>)"
    using Cons.prems(1) 1 by (auto simp: mark_src_def)
  have ih: "List.map limb_key ss1 = List.map limb_key ls" "nu_poly nu1 = nu_poly nu"
    "dom (nu_limb nu1) = dom (nu_limb nu) \<union> limb_key ` set ls" "\<forall>l \<in> set ss1. dead_ok (dom (nu_limb nu)) l"
    using Cons.IH [OF 1] Cons.prems(2) by simp_all
  have k: "limb_key l' = limb_key l" by (simp add: l(3) limb_key_def split: option.split)
  have "dead_ok (dom (nu_limb nu)) l'"
  proof (cases "nu_limb nu1 (limb_key l)")
    case None
    then have "limb_key l \<notin> dom (nu_limb nu1)" by auto
    then show ?thesis using ih(3) k by (simp add: dead_ok_def)
  next
    case (Some u)
    then show ?thesis using l(3) Cons.prems(2) by (simp add: dead_ok_def)
  qed
  moreover have "dom (nu_limb nu') = insert (limb_key l) (dom (nu_limb nu1))" by (simp add: l(2))
  moreover have "nu_poly nu' = nu_poly nu1" by (simp add: l(2))
  ultimately show ?case using ih k by (simp add: l(1))
qed simp

lemma mark_polys_spec:
  assumes "mark_polys T n i nu = (g, nu')" "\<forall>p \<in> set (polynomial_srcs i) \<union> set (polynomial_dests i). \<not> p_dead p"
  shows "nu_limb nu' = nu_limb nu" "dom (nu_poly nu') = poly_reads i \<union> dom (nu_poly nu)"
    "\<forall>p \<in> set (polynomial_srcs i) \<union> set (polynomial_dests i).
       p_term (g p) = p_term p \<and> p_limbs (g p) = p_limbs p \<and> (p_dead (g p) \<longrightarrow> p_term p \<notin> dom (nu_poly nu))"
proof -
  have "nu_limb nu' = nu_limb nu \<and> dom (nu_poly nu') = poly_reads i \<union> dom (nu_poly nu) \<and>
    (\<forall>p \<in> set (polynomial_srcs i) \<union> set (polynomial_dests i).
       p_term (g p) = p_term p \<and> p_limbs (g p) = p_limbs p \<and> (p_dead (g p) \<longrightarrow> p_term p \<notin> dom (nu_poly nu)))"
  proof (cases i)
    case (ResolveLimb p s b)
    then show ?thesis using assms
      by (cases "nu_poly nu (p_term p)") (auto simp: mark_polys_def mark_poly_dest_def poly_reads_def split: if_splits)
  next
    case (ModLimb d p b)
    then show ?thesis using assms
      by (cases "nu_poly nu (p_term p)") (auto simp: mark_polys_def mark_poly_src_def poly_reads_def)
  qed (use assms(1) in \<open>simp_all add: mark_polys_def poly_reads_def\<close>)
  then show "nu_limb nu' = nu_limb nu" "dom (nu_poly nu') = poly_reads i \<union> dom (nu_poly nu)"
    "\<forall>p \<in> set (polynomial_srcs i) \<union> set (polynomial_dests i).
       p_term (g p) = p_term p \<and> p_limbs (g p) = p_limbs p \<and> (p_dead (g p) \<longrightarrow> p_term p \<notin> dom (nu_poly nu))"
    by blast+
qed

lemma drop_dests_spec:
  "nu_poly (fold drop_dest ds nu) = nu_poly nu \<and> dom (nu_limb (fold drop_dest ds nu)) = dom (nu_limb nu) - limb_key ` set ds"
  by (induction ds arbitrary: nu) (auto simp: drop_dest_def)

lemma mark_dest_key: "limb_key (mark_dest T nu l) = limb_key l"
  by (simp add: mark_dest_def limb_key_def split: option.split)

lemma mark_dest_dead: "l_dead (mark_dest T nu l) \<Longrightarrow> \<not> l_dead l \<Longrightarrow> limb_key l \<notin> dom (nu_limb nu)"
  by (cases "nu_limb nu (limb_key l)") (auto simp: mark_dest_def split: if_splits)

lemma next_use_step_spec:
  assumes st: "next_use_step T n i nu = (i', nu')" and u: "unmarked i"
  shows "limb_step T M i' L = limb_step T M i L" "is_Inp i' = is_Inp i"
    "marks_ok T (dom (nu_limb nu)) (dom (nu_poly nu)) i'"
    "src_keys T i' \<union> dom (nu_limb nu) \<subseteq> dom (nu_limb nu') \<union> limb_key ` set (limb_dests i')"
    "poly_reads i' \<union> dom (nu_poly nu) = dom (nu_poly nu')"
proof -
  obtain ss nu1 where 1: "mark_srcs n (limb_srcs i) nu = (ss, nu1)" by (metis surj_pair)
  let ?nud = "fold drop_dest (limb_dests i) nu1"
  obtain g nu2 where 2: "mark_polys T n i ?nud = (g, nu2)" by (metis surj_pair)
  have i': "i' = with_operands (mark_dest T nu1) ss g i" "nu' = nu2" using st 1 2 by (simp_all add: next_use_step_def)
  have un: "\<forall>l \<in> set (limb_srcs i). \<not> l_dead l" "\<forall>l \<in> set (limb_dests i). \<not> l_dead l"
    "\<forall>p \<in> set (polynomial_srcs i) \<union> set (polynomial_dests i). \<not> p_dead p"
    using u by (simp_all add: unmarked_def)
  note m1 = mark_srcs_spec [OF 1 un(1)]
  note m2 = mark_polys_spec [OF 2 un(3)]
  note md = drop_dests_spec [of "limb_dests i" nu1]
  have sm: "same_operands (mark_dest T nu1) ss g i" using m1 m2(3) by (simp add: same_operands_def mark_dest_key)
  show "limb_step T M i' L = limb_step T M i L" unfolding i' by (rule same_step [OF sm])
  show "is_Inp i' = is_Inp i" unfolding i' by (rule same_Inp)
  have sr: "limb_srcs i' = ss" and ds: "limb_dests i' = List.map (mark_dest T nu1) (limb_dests i)"
    and ps: "polynomial_srcs i' = List.map g (polynomial_srcs i)" "polynomial_dests i' = List.map g (polynomial_dests i)"
    unfolding i' using same_srcs [OF sm] same_dests same_polys by simp_all
  have "dead_ok (dom (nu_limb nu)) (mark_dest T nu1 l)" if "l \<in> set (limb_dests i)" for l
    using mark_dest_dead [of T nu1 l] un(2) that m1 by (auto simp: dead_ok_def mark_dest_key)
  then have "dead_ok (dom (nu_limb nu)) l" if "l \<in> set (limb_srcs i') \<union> set (limb_dests i')" for l
    using that m1 sr ds by auto
  moreover have "p_term p \<notin> dom (nu_poly nu)" if p: "p \<in> set (polynomial_srcs i') \<union> set (polynomial_dests i')" "p_dead p" for p
  proof -
    obtain q where q: "q \<in> set (polynomial_srcs i) \<union> set (polynomial_dests i)" "p = g q" using p(1) ps by auto
    then have "p_term p = p_term q" "p_term q \<notin> dom (nu_poly ?nud)" using m2(3) p(2) by blast+
    then show ?thesis using md m1 by simp
  qed
  ultimately show "marks_ok T (dom (nu_limb nu)) (dom (nu_poly nu)) i'" by (simp add: marks_ok_def)
  have "limb_key ` set ss = limb_key ` set (limb_srcs i)" using m1 by (metis list.set_map)
  then have "src_keys T i' \<subseteq> limb_key ` set (limb_srcs i)" by (auto simp: src_keys_def sr)
  moreover have "limb_key ` set (limb_dests i') = limb_key ` set (limb_dests i)"
    by (simp add: ds image_image mark_dest_key)
  ultimately show "src_keys T i' \<union> dom (nu_limb nu) \<subseteq> dom (nu_limb nu') \<union> limb_key ` set (limb_dests i')"
    using m1 m2(1) md i'(2) by auto
  have "(\<lambda>p. p_term (g p)) ` set (polynomial_srcs i) = p_term ` set (polynomial_srcs i)"
    by (rule image_cong) (use m2(3) in simp_all)
  then have "poly_reads i' = poly_reads i" by (simp add: poly_reads_def ps image_image)
  then show "poly_reads i' \<union> dom (nu_poly nu) = dom (nu_poly nu')" using m1 m2(2) md i'(2) by simp
qed

section \<open>The allocation of an analysed program\<close>

lemma alloc_inv_unwritten:
  assumes inv: "alloc_inv T M inputs X N PN A L" and k: "\<And>k. k \<in> N' \<Longrightarrow> k \<in> N \<or> ls_env L k = None"
  shows "alloc_inv T M inputs X N' PN A L"
proof -
  obtain s where s: "inv_at T M inputs X N PN A L s" using inv by (auto simp: alloc_inv_at)
  have m: "mem_agrees T inputs X N A L s" using s by (simp add: inv_at_def agree_def)
  have "mem_agrees T inputs X N' A L s"
  proof (rule mem_agreesI)
    fix x assume x: "x \<in> N'" "ls_env L x \<noteq> None"
    then have "x \<in> N" using k [OF x(1)] by auto
    then show "x \<in> entry_key ` set (ra_map A) \<or> is_mem s x \<noteq> None \<or> generated_key T x" using x(2) by (rule mem_agreesD(2) [OF m])
  qed (use mem_agreesD [OF m] in blast)+
  then have "inv_at T M inputs X N' PN A L s" using s by (simp add: inv_at_def agree_def)
  then show ?thesis by (auto simp: alloc_inv_at)
qed

lemma step_dests_unwritten:
  assumes "limb_step T M i L = Some L'" "d \<in> set (limb_dests i)"
  shows "ls_env L (limb_key d) = None"
proof -
  obtain vs where vs: "limb_effect T M i vs (note_converted T (limb_srcs i) L) = Some L'" using limb_stepD [OF assms(1)] by blast
  have "limb_dests i = [d]" using assms(2) by (cases i) (auto split: option.splits)
  from dest_unwritten [OF this vs] show ?thesis by simp
qed

lemma process_no_Inp: "process_instruction T order i A = Inr A' \<Longrightarrow> \<not> is_Inp i"
  by (erule processD) (auto simp: is_Inp_def split: LimbInstruction.splits)

lemma pass_inv:
  assumes "next_use_pass T n P = (Q, nu)" "\<forall>i \<in> set P. unmarked i" "terms_wf T"
    and "alloc_inv T M inputs {} (dom (nu_limb nu)) (dom (nu_poly nu)) A L"
    and "limb_run T M P L = Some L'" "foldr_res (process_instruction T order) Q A = Inr A'" "clean A (ls_reduced L)"
  shows "alloc_inv T M inputs {} {} {} A' L' \<and> clean A' (ls_reduced L')"
  using assms
proof (induction P arbitrary: n Q nu A L)
  case Nil
  have "nu = \<lparr>nu_limb = (\<lambda>_. None), nu_poly = (\<lambda>_. None)\<rparr>" "Q = []" using Nil.prems(1) by auto
  then have "alloc_inv T M inputs {} {} {} A L" "A' = A" "L' = L" using Nil.prems(4-6) by simp_all
  then show ?case using Nil.prems(7) by simp
next
  case (Cons i P)
  obtain Q1 nu1 where 1: "next_use_pass T (n + 1) P = (Q1, nu1)" by (metis surj_pair)
  obtain i' nu2 where 2: "next_use_step T n i nu1 = (i', nu2)" by (metis surj_pair)
  have Q: "Q = i' # Q1" "nu = nu2" using Cons.prems(1) 1 2 by simp_all
  have u: "unmarked i" "\<forall>i \<in> set P. unmarked i" using Cons.prems(2) by simp_all
  note sp = next_use_step_spec [OF 2 u(1)]
  obtain B where B: "process_instruction T order i' A = Inr B" "foldr_res (process_instruction T order) Q1 B = Inr A'"
    using Cons.prems(6) Q by (auto simp: bindr_Inr_iff)
  have "\<not> is_Inp i" using process_no_Inp [OF B(1)] sp(2) by simp
  then obtain L1 where L1: "limb_step T M i' L = Some L1" "limb_run T M P L1 = Some L'"
    using Cons.prems(5) sp(1) [of M L] by (cases "limb_step T M i L") simp_all
  have "alloc_inv T M inputs {} (src_keys T i' \<union> dom (nu_limb nu1)) (poly_reads i' \<union> dom (nu_poly nu1)) A L"
    unfolding sp(5)
  proof (rule alloc_inv_unwritten [OF Cons.prems(4) [unfolded Q(2)]])
    fix k assume "k \<in> src_keys T i' \<union> dom (nu_limb nu1)"
    then have "k \<in> dom (nu_limb nu2) \<union> limb_key ` set (limb_dests i')" using sp(4) by blast
    then consider "k \<in> dom (nu_limb nu2)" | d where "d \<in> set (limb_dests i')" "k = limb_key d" by auto
    then show "k \<in> dom (nu_limb nu2) \<or> ls_env L k = None"
      by cases (use step_dests_unwritten [OF L1(1)] in simp_all)
  qed
  note pi = process_inv [OF Cons.prems(3) this L1(1) B(1) sp(3)]
  show ?case by (rule Cons.IH [OF 1 u(2) Cons.prems(3) pi(1) L1(2) B(2) pi(2) [OF Cons.prems(7)]])
qed

lemma start_inv: "alloc_inv T M inputs {} N PN (mk_RegisterAllocator n io symbols) (limb_start inputs)"
proof -
  let ?A = "mk_RegisterAllocator n io symbols" and ?s = "isa_start T inputs"
  have k: "reg_key \<circ> vector_register = Pair RegVector" "reg_key \<circ> scalar_register = Pair RegScalar"
    by (auto simp: reg_key_def vector_register_def scalar_register_def)
  have "distinct (List.map reg_key (pool ?A))"
    by (auto simp: pool_def mk_RegisterAllocator_def k distinct_map inj_on_def)
  then have "pool_ok ?A"
    by (auto simp: pool_ok_def pool_def mk_RegisterAllocator_def vector_register_def scalar_register_def)
  then have "book T {} ?A"
    by (simp add: book_def table_ok_def groups_ok_def code_ok_def written_ok_def units_ok_def mk_RegisterAllocator_def)
  moreover have "runs T M inputs ?A ?s" by (simp add: runs_def mk_RegisterAllocator_def)
  moreover have "agree T inputs {} N PN ?A (limb_start inputs) ?s"
    by (auto simp: agree_def regs_agree_def mem_agrees_def units_agree_def polys_agree_def mk_RegisterAllocator_def
        limb_start_def isa_start_def split: prod.splits if_splits)
  ultimately show ?thesis by (auto simp: alloc_inv_def)
qed

text \<open>The code before the last pass computes what the limb program computes.\<close>

lemma allocated_code:
  assumes wf: "terms_wf T" and u: "\<forall>i \<in> set P. unmarked i" and tr: "limb_program_trace T M inputs P = Some tr"
    and al: "foldr_res (process_instruction T order) (do_next_use_analysis T P) (mk_RegisterAllocator n io symbols) = Inr A"
  shows "isa_program_trace T M inputs (isa_code A) = Some tr" "\<forall>i \<in> set (isa_code A). plain i" "resolves_ok (isa_code A) {}"
proof -
  obtain L where L: "limb_run T M P (limb_start inputs) = Some L" "ls_trace L = tr" using tr by (auto simp: limb_program_trace_def)
  let ?P = "snd (last_uses P)"
  obtain Q nu where Q: "next_use_pass T 0 ?P = (Q, nu)" by (metis surj_pair)
  have r: "limb_run T M ?P (limb_start inputs) = Some L" using L(1) last_uses_run [of T M P 0] by (simp add: last_uses_def)
  have un: "\<forall>i \<in> set ?P. unmarked i" using last_uses_unmarked [OF u, of 0] by (simp add: last_uses_def)
  have cl: "clean (mk_RegisterAllocator n io symbols) (ls_reduced (limb_start inputs))"
    by (simp add: clean_def isa_code_def mk_RegisterAllocator_def)
  have al': "foldr_res (process_instruction T order) Q (mk_RegisterAllocator n io symbols) = Inr A"
    using al Q by (simp add: do_next_use_analysis_def)
  from pass_inv [OF Q un wf start_inv r al' cl] have "alloc_inv T M inputs {} {} {} A L" "clean A (ls_reduced L)" by simp_all
  then show "isa_program_trace T M inputs (isa_code A) = Some tr" "\<forall>i \<in> set (isa_code A). plain i" "resolves_ok (isa_code A) {}"
    using L(2) by (auto simp: alloc_inv_def runs_def agree_def isa_program_trace_def book_def code_ok_def isa_code_def clean_def)
qed

section \<open>The marks are exact\<close>

text \<open>
  The number of the next instruction that reads a limb, when the instructions are numbered from \<open>n\<close>; a
  write ends the search.
\<close>

fun next_reader :: "nat \<Rightarrow> LimbInstruction list \<Rightarrow> limb_name \<Rightarrow> nat option" where
  "next_reader n [] k = None"
| "next_reader n (i # is) k =
     (if k \<in> limb_key ` set (limb_dests i) then None
      else if k \<in> limb_key ` set (limb_srcs i) then Some n else next_reader (n + 1) is k)"

text \<open>What the analysis notes at a source whose next reader is \<open>u\<close>, and at a destination.\<close>

definition source_mark :: "nat option \<Rightarrow> Limb \<Rightarrow> bool" where
  "source_mark u l \<longleftrightarrow> (case u of None \<Rightarrow> l_dead l | Some n \<Rightarrow> \<not> l_dead l \<and> l_next_use l = n)"

definition dest_mark :: "terms \<Rightarrow> nat option \<Rightarrow> Limb \<Rightarrow> bool" where
  "dest_mark T u l \<longleftrightarrow> (case u of None \<Rightarrow> if is_output T l then \<not> l_dead l \<and> l_next_use l = never else l_dead l
     | Some n \<Rightarrow> \<not> l_dead l \<and> l_next_use l = n)"

text \<open>
  The same for polynomials, which are named by their term: a \<open>ModLimb\<close> reads one; a \<open>ResolveLimb\<close>
  adds a limb to one, and counts as a use of it when the polynomial is used later.
\<close>

fun next_poly :: "nat \<Rightarrow> LimbInstruction list \<Rightarrow> nat \<Rightarrow> nat option" where
  "next_poly n [] t = None"
| "next_poly n (i # is) t =
     (if t \<in> p_term ` set (polynomial_srcs i) then Some n
      else if t \<in> p_term ` set (polynomial_dests i) \<and> next_poly (n + 1) is t \<noteq> None then Some n
      else next_poly (n + 1) is t)"

definition poly_source_mark :: "nat option \<Rightarrow> Poly \<Rightarrow> bool" where
  "poly_source_mark u p \<longleftrightarrow> (case u of None \<Rightarrow> p_dead p | Some n \<Rightarrow> \<not> p_dead p \<and> p_next_use p = n)"

definition poly_dest_mark :: "terms \<Rightarrow> nat option \<Rightarrow> Poly \<Rightarrow> bool" where
  "poly_dest_mark T u p \<longleftrightarrow> (case u of
       None \<Rightarrow> if t_output (T (p_term p)) then \<not> p_dead p \<and> p_next_use p = never else p_dead p
     | Some n \<Rightarrow> \<not> p_dead p \<and> p_next_use p = n)"

lemma mark_polys_exact:
  assumes "mark_polys T n i nu = (g, nu')"
    and "\<forall>p \<in> set (polynomial_srcs i) \<union> set (polynomial_dests i). \<not> p_dead p"
  shows "\<forall>t. nu_poly nu' t = (if t \<in> p_term ` set (polynomial_srcs i) then Some n
      else if t \<in> p_term ` set (polynomial_dests i) \<and> nu_poly nu t \<noteq> None then Some n else nu_poly nu t)"
    and "\<forall>p \<in> set (polynomial_srcs i). p_term (g p) = p_term p \<and> poly_source_mark (nu_poly nu (p_term p)) (g p)"
    and "\<forall>p \<in> set (polynomial_dests i). p_term (g p) = p_term p \<and> poly_dest_mark T (nu_poly nu (p_term p)) (g p)"
proof -
  let ?P = "(\<forall>t. nu_poly nu' t = (if t \<in> p_term ` set (polynomial_srcs i) then Some n
      else if t \<in> p_term ` set (polynomial_dests i) \<and> nu_poly nu t \<noteq> None then Some n else nu_poly nu t)) \<and>
    (\<forall>p \<in> set (polynomial_srcs i). p_term (g p) = p_term p \<and> poly_source_mark (nu_poly nu (p_term p)) (g p)) \<and>
    (\<forall>p \<in> set (polynomial_dests i). p_term (g p) = p_term p \<and> poly_dest_mark T (nu_poly nu (p_term p)) (g p))"
  have ?P
  proof (cases i)
    case (ResolveLimb p s b)
    then show ?thesis using assms
      by (cases "nu_poly nu (p_term p)")
        (auto simp: mark_polys_def mark_poly_dest_def poly_dest_mark_def split: if_splits)
  next
    case (ModLimb d p b)
    then show ?thesis using assms
      by (cases "nu_poly nu (p_term p)") (auto simp: mark_polys_def mark_poly_src_def poly_source_mark_def)
  qed (use assms(1) in \<open>simp_all add: mark_polys_def\<close>)
  then show "\<forall>t. nu_poly nu' t = (if t \<in> p_term ` set (polynomial_srcs i) then Some n
      else if t \<in> p_term ` set (polynomial_dests i) \<and> nu_poly nu t \<noteq> None then Some n else nu_poly nu t)"
    "\<forall>p \<in> set (polynomial_srcs i). p_term (g p) = p_term p \<and> poly_source_mark (nu_poly nu (p_term p)) (g p)"
    "\<forall>p \<in> set (polynomial_dests i). p_term (g p) = p_term p \<and> poly_dest_mark T (nu_poly nu (p_term p)) (g p)"
    by blast+
qed

lemma mark_srcs_exact:
  assumes "mark_srcs n ls nu = (ss, nu')" "\<forall>l \<in> set ls. \<not> l_dead l" "distinct (List.map limb_key ls)"
  shows "(\<forall>k. nu_limb nu' k = (if k \<in> limb_key ` set ls then Some n else nu_limb nu k)) \<and>
    (\<forall>l \<in> set ss. source_mark (nu_limb nu (limb_key l)) l)"
  using assms
proof (induction ls arbitrary: ss nu')
  case (Cons l ls)
  obtain ss1 nu1 where 1: "mark_srcs n ls nu = (ss1, nu1)" by (cases "mark_srcs n ls nu") auto
  obtain l' where l: "ss = l' # ss1" "nu' = nu1\<lparr>nu_limb := (nu_limb nu1)(limb_key l \<mapsto> n)\<rparr>"
    "l' = (case nu_limb nu1 (limb_key l) of None \<Rightarrow> l\<lparr>l_dead := True\<rparr> | Some u \<Rightarrow> l\<lparr>l_next_use := u\<rparr>)"
    using Cons.prems(1) 1 by (auto simp: mark_src_def)
  have ih: "\<And>k. nu_limb nu1 k = (if k \<in> limb_key ` set ls then Some n else nu_limb nu k)"
    "\<forall>l \<in> set ss1. source_mark (nu_limb nu (limb_key l)) l"
    using Cons.IH [OF 1] Cons.prems(2,3) by simp_all
  have k: "limb_key l' = limb_key l" by (simp add: l(3) limb_key_def split: option.split)
  have "nu_limb nu1 (limb_key l) = nu_limb nu (limb_key l)" using ih(1) Cons.prems(3) by simp
  then have "source_mark (nu_limb nu (limb_key l')) l'"
    unfolding k using Cons.prems(2) by (simp add: l(3) source_mark_def split: option.split)
  moreover have "nu_limb nu' x = (if x \<in> limb_key ` set (l # ls) then Some n else nu_limb nu x)" for x
    using ih(1) [of x] by (simp add: l(2))
  ultimately show ?case using ih(2) by (simp add: l(1))
qed simp

definition reads_once :: "LimbInstruction \<Rightarrow> bool" where
  "reads_once i \<longleftrightarrow> distinct (List.map limb_key (limb_srcs i @ limb_dests i))"

lemma drop_dests_limb: "nu_limb (fold drop_dest ds nu) k = (if k \<in> limb_key ` set ds then None else nu_limb nu k)"
  by (induction ds arbitrary: nu) (auto simp: drop_dest_def)

lemma next_use_step_exact:
  assumes st: "next_use_step T n i nu = (i', nu')" and u: "unmarked i" and d: "reads_once i"
  shows "List.map limb_key (limb_srcs i') = List.map limb_key (limb_srcs i)" "List.map limb_key (limb_dests i') = List.map limb_key (limb_dests i)"
    "\<forall>k. nu_limb nu' k = (if k \<in> limb_key ` set (limb_dests i) then None else if k \<in> limb_key ` set (limb_srcs i) then Some n else nu_limb nu k)"
    "\<forall>l \<in> set (limb_srcs i'). source_mark (nu_limb nu (limb_key l)) l"
    "\<forall>l \<in> set (limb_dests i'). dest_mark T (nu_limb nu (limb_key l)) l"
    "p_term ` set (polynomial_srcs i') = p_term ` set (polynomial_srcs i)"
    "p_term ` set (polynomial_dests i') = p_term ` set (polynomial_dests i)"
    "\<forall>t. nu_poly nu' t = (if t \<in> p_term ` set (polynomial_srcs i) then Some n
      else if t \<in> p_term ` set (polynomial_dests i) \<and> nu_poly nu t \<noteq> None then Some n else nu_poly nu t)"
    "\<forall>p \<in> set (polynomial_srcs i'). poly_source_mark (nu_poly nu (p_term p)) p"
    "\<forall>p \<in> set (polynomial_dests i'). poly_dest_mark T (nu_poly nu (p_term p)) p"
proof -
  obtain ss nu1 where 1: "mark_srcs n (limb_srcs i) nu = (ss, nu1)" by (metis surj_pair)
  let ?nud = "fold drop_dest (limb_dests i) nu1"
  obtain g nu2 where 2: "mark_polys T n i ?nud = (g, nu2)" by (metis surj_pair)
  have i': "i' = with_operands (mark_dest T nu1) ss g i" "nu' = nu2" using st 1 2 by (simp_all add: next_use_step_def)
  have un: "\<forall>l \<in> set (limb_srcs i). \<not> l_dead l" "\<forall>l \<in> set (limb_dests i). \<not> l_dead l"
    "\<forall>p \<in> set (polynomial_srcs i) \<union> set (polynomial_dests i). \<not> p_dead p"
    using u by (simp_all add: unmarked_def)
  have ds: "distinct (List.map limb_key (limb_srcs i))" "limb_key ` set (limb_srcs i) \<inter> limb_key ` set (limb_dests i) = {}"
    using d by (simp_all add: reads_once_def)
  note m1 = mark_srcs_exact [OF 1 un(1) ds(1)]
  have key: "List.map limb_key ss = List.map limb_key (limb_srcs i)" using mark_srcs_spec [OF 1 un(1)] by simp
  then have "length ss = length (limb_srcs i)" by (metis length_map)
  then have sr: "limb_srcs i' = ss" unfolding i'(1) by (rule with_srcs_operands)
  have dt: "limb_dests i' = List.map (mark_dest T nu1) (limb_dests i)" unfolding i'(1) by (rule same_dests)
  note mp = mark_polys_exact [OF 2 un(3)]
  have np: "nu_poly ?nud = nu_poly nu" using drop_dests_spec mark_srcs_spec [OF 1 un(1)] by simp
  note pol = same_polys [of "mark_dest T nu1" ss g i, folded i'(1)]
  show "p_term ` set (polynomial_srcs i') = p_term ` set (polynomial_srcs i)"
    "p_term ` set (polynomial_dests i') = p_term ` set (polynomial_dests i)"
    using mp(2,3) by (simp_all add: pol image_image)
  show "\<forall>t. nu_poly nu' t = (if t \<in> p_term ` set (polynomial_srcs i) then Some n
      else if t \<in> p_term ` set (polynomial_dests i) \<and> nu_poly nu t \<noteq> None then Some n else nu_poly nu t)"
    using mp(1) unfolding i'(2) np .
  show "\<forall>p \<in> set (polynomial_srcs i'). poly_source_mark (nu_poly nu (p_term p)) p"
    "\<forall>p \<in> set (polynomial_dests i'). poly_dest_mark T (nu_poly nu (p_term p)) p"
    using mp(2,3) by (simp_all add: pol np)
  show "List.map limb_key (limb_srcs i') = List.map limb_key (limb_srcs i)" by (simp add: sr key)
  show "List.map limb_key (limb_dests i') = List.map limb_key (limb_dests i)" by (simp add: dt mark_dest_key)
  show "\<forall>k. nu_limb nu' k = (if k \<in> limb_key ` set (limb_dests i) then None else if k \<in> limb_key ` set (limb_srcs i) then Some n else nu_limb nu k)"
    using m1 by (simp add: i'(2) mark_polys_spec(1) [OF 2 un(3)] drop_dests_limb)
  show "\<forall>l \<in> set (limb_srcs i'). source_mark (nu_limb nu (limb_key l)) l" using m1 by (simp add: sr)
  show "\<forall>l \<in> set (limb_dests i'). dest_mark T (nu_limb nu (limb_key l)) l"
  proof
    fix l assume "l \<in> set (limb_dests i')"
    then obtain l0 where l0: "l0 \<in> set (limb_dests i)" "l = mark_dest T nu1 l0" by (auto simp: dt)
    then have "limb_key l0 \<notin> limb_key ` set (limb_srcs i)" using ds(2) by (auto simp: disjoint_iff)
    then have "nu_limb nu1 (limb_key l0) = nu_limb nu (limb_key l0)" using m1 by simp
    moreover have "is_output T l = is_output T l0" using l0(2) mark_dest_key [of T nu1 l0] by (simp add: limb_key_def)
    ultimately show "dest_mark T (nu_limb nu (limb_key l)) l"
      using l0 un(2) by (simp add: dest_mark_def mark_dest_key) (simp add: mark_dest_def split: option.split)
  qed
qed

definition marks_exact :: "terms \<Rightarrow> nat \<Rightarrow> LimbInstruction list \<Rightarrow> bool" where
  "marks_exact T n Q \<longleftrightarrow> (\<forall>j < length Q.
     (\<forall>l \<in> set (limb_srcs (Q ! j)). source_mark (next_reader (n + j + 1) (drop (j + 1) Q) (limb_key l)) l) \<and>
     (\<forall>l \<in> set (limb_dests (Q ! j)). dest_mark T (next_reader (n + j + 1) (drop (j + 1) Q) (limb_key l)) l) \<and>
     (\<forall>p \<in> set (polynomial_srcs (Q ! j)). poly_source_mark (next_poly (n + j + 1) (drop (j + 1) Q) (p_term p)) p) \<and>
     (\<forall>p \<in> set (polynomial_dests (Q ! j)). poly_dest_mark T (next_poly (n + j + 1) (drop (j + 1) Q) (p_term p)) p))"

lemma next_use_pass_exact:
  assumes "next_use_pass T n P = (Q, nu)" "\<forall>i \<in> set P. unmarked i \<and> reads_once i"
  shows "marks_exact T n Q \<and> nu_limb nu = next_reader n Q \<and> nu_poly nu = next_poly n Q"
  using assms
proof (induction P arbitrary: n Q nu)
  case Nil
  then show ?case by (auto simp: marks_exact_def)
next
  case (Cons i P)
  obtain Q1 nu1 where 1: "next_use_pass T (n + 1) P = (Q1, nu1)" by (metis surj_pair)
  obtain i' nu2 where 2: "next_use_step T n i nu1 = (i', nu2)" by (metis surj_pair)
  have Q: "Q = i' # Q1" "nu = nu2" using Cons.prems(1) 1 2 by simp_all
  have u: "unmarked i" "reads_once i" "\<forall>i \<in> set P. unmarked i \<and> reads_once i" using Cons.prems(2) by simp_all
  note ih = Cons.IH [OF 1 u(3)]
  note st = next_use_step_exact [OF 2 u(1,2)]
  have keys: "limb_key ` set (limb_srcs i') = limb_key ` set (limb_srcs i)" "limb_key ` set (limb_dests i') = limb_key ` set (limb_dests i)"
    using st(1,2) by (metis list.set_map)+
  have "marks_exact T n Q" unfolding marks_exact_def
  proof (intro allI impI)
    fix j assume j: "j < length Q"
    show "(\<forall>l \<in> set (limb_srcs (Q ! j)). source_mark (next_reader (n + j + 1) (drop (j + 1) Q) (limb_key l)) l) \<and>
     (\<forall>l \<in> set (limb_dests (Q ! j)). dest_mark T (next_reader (n + j + 1) (drop (j + 1) Q) (limb_key l)) l) \<and>
     (\<forall>p \<in> set (polynomial_srcs (Q ! j)). poly_source_mark (next_poly (n + j + 1) (drop (j + 1) Q) (p_term p)) p) \<and>
     (\<forall>p \<in> set (polynomial_dests (Q ! j)). poly_dest_mark T (next_poly (n + j + 1) (drop (j + 1) Q) (p_term p)) p)"
    proof (cases j)
      case 0
      then show ?thesis using st(4,5,9,10) ih by (simp add: Q(1))
    next
      case (Suc m)
      then have "m < length Q1" using j Q(1) by simp
      then show ?thesis using ih Suc by (simp add: Q(1) marks_exact_def)
    qed
  qed
  moreover have "nu_limb nu = next_reader n Q"
  proof
    fix k show "nu_limb nu k = next_reader n Q k" using st(3) ih by (simp add: Q keys)
  qed
  moreover have "nu_poly nu = next_poly n Q"
  proof
    fix t
    have eq: "next_poly (n + 1) Q1 = nu_poly nu1" using ih by simp
    show "nu_poly nu t = next_poly n Q t"
      unfolding Q next_poly.simps st(6) st(7) eq by (rule st(8) [rule_format])
  qed
  ultimately show ?case by simp
qed

lemma last_use_key: "limb_key (l\<lparr>l_last_use := n\<rparr>) = limb_key l"
  by (simp add: limb_key_def)

lemma last_uses_reads_once:
  "\<forall>i \<in> set P. reads_once i \<Longrightarrow> \<forall>i \<in> set (snd (fold last_use_step P (n, []))). reads_once i"
proof (induction P arbitrary: n)
  case (Cons i P)
  have "reads_once (last_use_mark n i) = reads_once i"
    by (simp add: reads_once_def last_use_mark_def same_srcs [OF last_use_same] same_dests last_use_key comp_def image_image)
  then show ?case unfolding last_uses_Cons using Cons by simp
qed simp


lemma analysis_exact:
  assumes "\<forall>i \<in> set P. unmarked i \<and> reads_once i"
  shows "marks_exact T 0 (do_next_use_analysis T P)"
proof -
  obtain Q nu where Q: "next_use_pass T 0 (snd (last_uses P)) = (Q, nu)" by (metis surj_pair)
  have "\<forall>i \<in> set (snd (last_uses P)). unmarked i \<and> reads_once i"
    using last_uses_unmarked [of P 0] last_uses_reads_once [of P 0] assms by (simp add: last_uses_def)
  then show ?thesis using next_use_pass_exact [OF Q] Q by (simp add: do_next_use_analysis_def)
qed

lemma pass_run:
  "next_use_pass T n P = (Q, nu) \<Longrightarrow> \<forall>i \<in> set P. unmarked i \<Longrightarrow> limb_run T M Q L = limb_run T M P L"
proof (induction P arbitrary: n Q nu L)
  case (Cons i P)
  obtain Q1 nu1 where 1: "next_use_pass T (n + 1) P = (Q1, nu1)" by (metis surj_pair)
  obtain i' nu2 where 2: "next_use_step T n i nu1 = (i', nu2)" by (metis surj_pair)
  have Q: "Q = i' # Q1" using Cons.prems(1) 1 2 by simp
  have u: "unmarked i" "\<forall>i \<in> set P. unmarked i" using Cons.prems(2) by simp_all
  note sp = next_use_step_spec(1,2) [OF 2 u(1)]
  have s: "limb_step T M i' L = limb_step T M i L" by (rule sp(1))
  have t: "limb_run T M Q1 K = limb_run T M P K" for K by (rule Cons.IH [OF 1 u(2)])
  show ?case by (simp add: Q s sp(2) t split: option.split)
qed simp

lemma analysis_run:
  assumes "\<forall>i \<in> set P. unmarked i"
  shows "limb_program_trace T M inputs (do_next_use_analysis T P) = limb_program_trace T M inputs P"
proof -
  obtain Q nu where Q: "next_use_pass T 0 (snd (last_uses P)) = (Q, nu)" by (metis surj_pair)
  have un: "\<forall>i \<in> set (snd (last_uses P)). unmarked i" using last_uses_unmarked [OF assms, of 0] by (simp add: last_uses_def)
  have "limb_run T M Q L = limb_run T M (snd (last_uses P)) L" for L by (rule pass_run [OF Q un])
  moreover have "limb_run T M (snd (last_uses P)) L = limb_run T M P L" for L
    unfolding last_uses_def by (rule last_uses_run)
  ultimately have "limb_run T M Q (limb_start inputs) = limb_run T M P (limb_start inputs)" by metis
  then show ?thesis by (simp add: limb_program_trace_def do_next_use_analysis_def Q)
qed

end
