(* ===== verification/RegisterFinish.thy ===== *)
theory RegisterFinish
  imports RegisterProcess
begin

text \<open>
  The last pass of the allocator: registers that are not used again are marked dead, and the last load of
  a limb frees it. What the code computes does not change, if no register of a group is
  read between its initialisation and its last resolve, which \<open>resolves_ok\<close> states.
\<close>

section \<open>Marked sources\<close>

definition marked :: "reg_name set \<Rightarrow> Register \<Rightarrow> Register \<Rightarrow> bool" where
  "marked live r r' \<longleftrightarrow> r' = r \<or> r' = mark_dead r \<and> reg_key r \<notin> live"

lemma mark_isa_srcs_marked:
  "mark_isa_srcs rs live = (ss, live') \<Longrightarrow>
   list_all2 (marked live) rs ss \<and> live \<subseteq> live' \<and> reg_key ` {r \<in> set rs. reg_type r \<noteq> RegBcu} \<subseteq> live'"
proof (induction rs arbitrary: ss live')
  case (Cons r rs)
  obtain ss1 live1 where 1: "mark_isa_srcs rs live = (ss1, live1)" by (cases "mark_isa_srcs rs live") auto
  note ih = Cons.IH [OF 1]
  show ?case
  proof (cases "reg_type r = RegBcu \<or> reg_key r \<in> live1")
    case True
    then show ?thesis using Cons.prems 1 ih by (auto simp: marked_def)
  next
    case False
    then show ?thesis using Cons.prems 1 ih by (auto simp: marked_def)
  qed
qed simp

lemma isa_srcs_with: "length ss = length (isa_srcs i) \<Longrightarrow> isa_srcs (with_srcs ss i) = ss"
  by (cases i) (auto simp: length_Suc_conv split: option.splits)

lemma effect_with_srcs: "isa_effect M keys (with_srcs ss i) vs s = isa_effect M keys i vs s"
  by (cases i) (auto split: option.splits)

lemma reg_reads_list: "reg_reads M s rs = Some vs \<Longrightarrow> list_all2 (\<lambda>r v. reg_read M s r = Some v) rs vs"
  by (auto simp: reg_reads_def list_all2_conv_all_nth split: if_splits)

lemma list_reg_reads: "list_all2 (\<lambda>r v. reg_read M s r = Some v) rs vs \<Longrightarrow> reg_reads M s rs = Some vs"
  by (induction rule: list_all2_induct) (auto simp: reg_reads_def split: if_splits)

section \<open>States that agree\<close>

definition agree_on :: "reg_name set \<Rightarrow> limb_name set \<Rightarrow> 'v isa_state \<Rightarrow> 'v isa_state \<Rightarrow> bool" where
  "agree_on K Mem s t \<longleftrightarrow> (\<forall>k \<in> K. is_regs t k = is_regs s k) \<and> is_units t = is_units s \<and>
     (\<forall>k \<in> Mem. is_mem t k = is_mem s k) \<and> is_trace t = is_trace s"

lemma marked_read:
  assumes "agree_on K Mem s t" "marked live r r'" "reg_type r \<noteq> RegBcu \<Longrightarrow> reg_key r \<in> K"
  shows "reg_read M t r' = reg_read M s r"
  using assms by (auto simp: agree_on_def marked_def reg_read_def mark_dead_def reg_key_def split: option.split)

lemma marked_reads:
  assumes a: "agree_on K Mem s t" and m: "list_all2 (marked live) rs ss"
    and K: "reg_key ` {r \<in> set rs. reg_type r \<noteq> RegBcu} \<subseteq> K" and vs: "reg_reads M s rs = Some vs"
  shows "reg_reads M t ss = Some vs"
proof (rule list_reg_reads)
  have v: "list_all2 (\<lambda>r v. reg_read M s r = Some v) rs vs" by (rule reg_reads_list [OF vs])
  show "list_all2 (\<lambda>r v. reg_read M t r = Some v) ss vs"
  proof (rule list_all2_all_nthI)
    show "length ss = length vs" using m v by (simp add: list_all2_lengthD [symmetric])
    fix j assume j: "j < length ss"
    then have r: "j < length rs" "marked live (rs ! j) (ss ! j)" "reg_read M s (rs ! j) = Some (vs ! j)"
      using m v by (simp_all add: list_all2_conv_all_nth)
    moreover have "reg_type (rs ! j) \<noteq> RegBcu \<Longrightarrow> reg_key (rs ! j) \<in> K" using K r(1) by (auto simp: subset_iff)
    ultimately show "reg_read M t (ss ! j) = Some (vs ! j)" using marked_read [OF a r(2)] by simp
  qed
qed

lemma marked_kill:
  assumes a: "agree_on K Mem s t" and m: "list_all2 (marked live) rs ss" and p: "\<forall>r \<in> set rs. \<not> reg_dead r"
  shows "agree_on (K - (reg_key ` set rs - live)) Mem s (kill_dead ss t)"
proof -
  have "reg_key r \<in> reg_key ` set rs - live" if r: "r \<in> set ss" "reg_dead r" for r
  proof -
    obtain j where j: "j < length rs" "r = ss ! j" "marked live (rs ! j) r"
      using r(1) m by (auto simp: in_set_conv_nth list_all2_conv_all_nth)
    then have "r = mark_dead (rs ! j)" "reg_key (rs ! j) \<notin> live" using p r(2) by (auto simp: marked_def)
    then show ?thesis using j(1) by (auto simp: mark_dead_def reg_key_def)
  qed
  then have "is_regs (kill_dead ss t) k = is_regs t k" if "k \<notin> reg_key ` set rs - live" for k
    using that by (auto simp: kill_dead_def)
  then show ?thesis using a by (auto simp: agree_on_def kill_dead_def)
qed

lemma agree_on_mono: "agree_on K Mem s t \<Longrightarrow> K' \<subseteq> K \<Longrightarrow> Mem' \<subseteq> Mem \<Longrightarrow> agree_on K' Mem' s t"
  unfolding agree_on_def by blast

lemma agree_on_write: "agree_on K Mem s t \<Longrightarrow> agree_on (insert (reg_key r) K) Mem (reg_write r v s) (reg_write r v t)"
  by (simp add: agree_on_def reg_write_def)

lemma agree_on_writes:
  "agree_on K Mem s t \<Longrightarrow> length vs = length rs \<Longrightarrow>
   agree_on (K \<union> reg_key ` set rs) Mem (regs_write rs vs s) (regs_write rs vs t)"
proof (induction rs arbitrary: vs s t K)
  case Nil
  then show ?case by (simp add: regs_write_def agree_on_def)
next
  case (Cons r rs)
  then obtain v vs' where vs: "vs = v # vs'" by (cases vs) simp_all
  have "agree_on (insert (reg_key r) K \<union> reg_key ` set rs) Mem (regs_write rs vs' (reg_write r v s)) (regs_write rs vs' (reg_write r v t))"
    by (rule Cons.IH [OF agree_on_write [OF Cons.prems(1)]]) (use Cons.prems(2) vs in simp)
  then show ?case by (simp add: vs regs_write_Cons)
qed

lemma agree_on_emit: "agree_on K Mem s t \<Longrightarrow> agree_on K Mem (isa_emit e s) (isa_emit e t)"
  by (simp add: agree_on_def isa_emit_def)

text \<open>A load that may free its source.\<close>

definition freed :: "ISAInstruction \<Rightarrow> ISAInstruction \<Rightarrow> limb_name set \<Rightarrow> bool" where
  "freed i i' F \<longleftrightarrow> i' = i \<and> F = {} \<or> (\<exists>g d l sc. i = LoadISA g d l sc False \<and> i' = LoadISA g d l sc True \<and> F = {limb_key l})"

definition loads_from :: "ISAInstruction \<Rightarrow> limb_name set" where
  "loads_from i = (case i of LoadISA g d l sc fr \<Rightarrow> {limb_key l} | _ \<Rightarrow> {})"

lemma effect_agrees:
  assumes a: "agree_on K Mem s t" and eff: "isa_effect M keys i vs s = Some s'" and p: "plain i"
    and l: "loads_from i \<subseteq> Mem" and g: "group_of i \<subseteq> K" and i': "freed i i' F"
  shows "\<exists>t'. isa_effect M keys i' vs t = Some t' \<and> agree_on (K \<union> isa_writes i) (Mem - F) s' t'"
proof (cases i)
  case (LoadISA gen d l sc fr)
  then have fr: "\<not> fr" using p by (simp add: plain_def)
  obtain v where v: "(if gen then keys (limb_key l) else is_mem s (limb_key l)) = Some v" "s' = reg_write d v s"
    using eff LoadISA fr by (auto split: option.splits if_splits)
  have "is_mem t (limb_key l) = is_mem s (limb_key l)" using a l LoadISA by (simp add: agree_on_def loads_from_def)
  then have v': "(if gen then keys (limb_key l) else is_mem t (limb_key l)) = Some v" using v(1) by (simp split: if_splits)
  have "agree_on (K \<union> isa_writes i) (Mem - F) s' (reg_write d v (if fr' \<and> \<not> gen then t\<lparr>is_mem := (is_mem t)(limb_key l := None)\<rparr> else t))"
    if "fr' \<Longrightarrow> limb_key l \<in> F" for fr'
  proof -
    have "agree_on K (Mem - F) s (if fr' \<and> \<not> gen then t\<lparr>is_mem := (is_mem t)(limb_key l := None)\<rparr> else t)"
      using a that by (auto simp: agree_on_def)
    from agree_on_write [OF this, of d v] show ?thesis by (simp add: v(2) LoadISA isa_writes_def)
  qed
  note m = this [of False] this [of True]
  show ?thesis using i' v' LoadISA fr m by (cases gen) (auto simp: freed_def)
next
  case (StoreISA l r sp)
  then have "i' = i" "F = {}" using i' by (auto simp: freed_def)
  moreover have "agree_on K Mem (s\<lparr>is_mem := (is_mem s)(limb_key l \<mapsto> vs ! 0)\<rparr>) (t\<lparr>is_mem := (is_mem t)(limb_key l \<mapsto> vs ! 0)\<rparr>)"
    using a by (simp add: agree_on_def)
  ultimately show ?thesis using eff StoreISA agree_on_emit by (auto simp: isa_writes_def)
next
  case (PlISA1 u r b intt)
  then have "i' = i" "F = {}" using i' by (auto simp: freed_def)
  then show ?thesis using eff PlISA1 a by (auto simp: agree_on_def isa_writes_def split: option.splits)
next
  case (BcuInitISA u bases cell)
  then have "i' = i" "F = {}" using i' by (auto simp: freed_def)
  then show ?thesis using eff BcuInitISA a by (auto simp: agree_on_def isa_writes_def)
next
  case (ResolveInitISA rs)
  then have "i' = i" "F = {}" using i' by (auto simp: freed_def)
  then show ?thesis using eff ResolveInitISA agree_on_writes [OF a, of _ rs] by (auto simp: isa_writes_def)
next
  case (ResolveISA rs r bases b)
  then have i: "i' = i" "F = {}" using i' by (auto simp: freed_def)
  obtain olds where o: "reg_reads M s rs = Some olds"
    "s' = regs_write rs (List.map (\<lambda>(k, v). m_resolve M bases b k (vs ! 0) v) (enumerate 0 olds)) s"
    using eff ResolveISA by (auto split: option.splits)
  have "list_all2 (marked {}) rs rs" by (simp add: list_all2_conv_all_nth marked_def)
  then have "reg_reads M t rs = Some olds"
    by (rule marked_reads [OF a _ _ o(1)]) (use g ResolveISA in \<open>auto simp: group_of_def\<close>)
  moreover have "length olds = length rs" using reg_reads_list [OF o(1)] by (simp add: list_all2_lengthD)
  ultimately show ?thesis using i o(2) ResolveISA agree_on_writes [OF a, of _ rs] by (auto simp: isa_writes_def)
next
  case (JoinGlobalISA d r b sync sz)
  then have "i' = i" "F = {}" using i' by (auto simp: freed_def)
  then show ?thesis using eff JoinGlobalISA agree_on_emit [OF a] agree_on_write [OF agree_on_emit [OF a]]
    by (auto simp: isa_writes_def Let_def split: option.splits)
qed (use i' eff agree_on_write [OF a] agree_on_emit [OF a] in \<open>auto simp: freed_def isa_writes_def\<close>)


section \<open>The pass\<close>

definition outputs_of :: "terms \<Rightarrow> limb_name set" where
  "outputs_of T = {k. t_output (T (fst k))}"

lemma dests_written: "reg_key ` set (isa_dests i) \<subseteq> isa_writes i"
  by (auto simp: isa_writes_def)

lemma finish_load_freed:
  assumes "plain i" "finish_load T i loaded = (i', loaded')"
  obtains F where "freed i i' F" "F \<inter> (loaded \<union> outputs_of T) = {}" "loads_from i \<subseteq> loaded' \<union> outputs_of T" "loaded \<subseteq> loaded'"
proof (cases i)
  case (LoadISA g d l sc fr)
  then have fr: "\<not> fr" using assms(1) by (simp add: plain_def)
  consider "is_output T l" | "\<not> is_output T l" "limb_key l \<in> loaded" | "\<not> is_output T l" "limb_key l \<notin> loaded" by auto
  then show thesis
  proof cases
    case 1
    then show thesis using assms(2) LoadISA
      by (intro that [of "{}"]) (auto simp: finish_load_def freed_def loads_from_def outputs_of_def limb_key_def)
  next
    case 2
    then show thesis using assms(2) LoadISA
      by (intro that [of "{}"]) (auto simp: finish_load_def freed_def loads_from_def)
  next
    case 3
    then show thesis using assms(2) LoadISA fr
      by (intro that [of "{limb_key l}"]) (auto simp: finish_load_def freed_def loads_from_def outputs_of_def limb_key_def)
  qed
qed (use assms(2) in \<open>auto simp: finish_load_def freed_def loads_from_def intro!: that\<close>)

lemma finish_load_cases:
  "(\<exists>g d l sc fr. i = LoadISA g d l sc fr) \<or>
   finish_load T i loaded = (i, loaded) \<and> finish_load T (with_srcs ss i) loaded = (with_srcs ss i, loaded)"
  by (cases i) (simp_all add: finish_load_def)

lemma finish_load_with:
  assumes "finish_load T (with_srcs ss i) loaded = (i', loaded')"
  shows "\<exists>i0. finish_load T i loaded = (i0, loaded') \<and> i' = with_srcs ss i0"
  using finish_load_cases [of i T loaded ss]
proof
  assume "\<exists>g d l sc fr. i = LoadISA g d l sc fr"
  then obtain g d l sc fr where i: "i = LoadISA g d l sc fr" by blast
  have "finish_load T i loaded = (i', loaded')" using assms i by simp
  moreover from this have "with_srcs ss i' = i'" by (auto simp: i finish_load_def split: if_splits)
  ultimately show ?thesis by metis
next
  assume "finish_load T i loaded = (i, loaded) \<and> finish_load T (with_srcs ss i) loaded = (with_srcs ss i, loaded)"
  then show ?thesis using assms by simp
qed

lemma finish_step:
  assumes p: "plain i" and step: "isa_step M keys i s = Some s'"
    and live: "live1 = live - reg_key ` {r \<in> set (isa_dests i). reg_type r \<noteq> RegBcu}"
    and m: "mark_isa_srcs (isa_srcs i) live1 = (ss, live2)" and f: "finish_load T (with_srcs ss i) loaded = (i', loaded')"
    and a: "agree_on (live2 \<union> - U) (loaded' \<union> outputs_of T) s t" and g: "group_of i \<inter> (U \<union> isa_reads i) = {}"
  shows "\<exists>t'. isa_step M keys i' t = Some t' \<and> agree_on (live \<union> - next_read i U) (loaded \<union> outputs_of T) s' t'"
proof -
  obtain vs where vs: "reg_reads M s (isa_srcs i) = Some vs" "isa_effect M keys i vs s = Some s'"
    using step by (auto simp: plain_step [OF p] split: option.splits)
  have dead: "\<forall>r \<in> set (isa_srcs i). \<not> reg_dead r" using p by (simp add: plain_def)
  note mk = mark_isa_srcs_marked [OF m]
  have lm: "list_all2 (marked live1) (isa_srcs i) ss" and sub: "live1 \<subseteq> live2" using mk by simp_all
  have len: "length ss = length (isa_srcs i)" using lm by (simp add: list_all2_lengthD)
  obtain i0 where i0: "finish_load T i loaded = (i0, loaded')" "i' = with_srcs ss i0"
    using finish_load_with [OF f] by blast
  obtain F where F: "freed i i0 F" "F \<inter> (loaded \<union> outputs_of T) = {}" "loads_from i \<subseteq> loaded' \<union> outputs_of T"
      "loaded \<subseteq> loaded'"
    by (rule finish_load_freed [OF p i0(1)])
  have srcs: "isa_srcs i0 = isa_srcs i" using F(1) by (auto simp: freed_def)
  have rd: "reg_reads M t ss = Some vs" by (rule marked_reads [OF a lm _ vs(1)]) (use mk in blast)
  let ?K = "(live2 \<union> - U) - (isa_reads i - live1)"
  have ak: "agree_on ?K (loaded' \<union> outputs_of T) s (kill_dead ss t)"
    unfolding isa_reads_def by (rule marked_kill [OF a lm dead])
  have "group_of i \<subseteq> ?K" using g by blast
  from effect_agrees [OF ak vs(2) p F(3) this F(1)]
  obtain t' where t': "isa_effect M keys i0 vs (kill_dead ss t) = Some t'"
      "agree_on (?K \<union> isa_writes i) ((loaded' \<union> outputs_of T) - F) s' t'" by blast
  have "isa_step M keys i' t = Some t'"
    using rd t'(1) by (simp add: isa_step_def i0(2) isa_srcs_with len srcs effect_with_srcs)
  moreover have "agree_on (live \<union> - next_read i U) (loaded \<union> outputs_of T) s' t'"
  proof (rule agree_on_mono [OF t'(2)])
    have "live \<subseteq> live1 \<union> isa_writes i" using dests_written [of i] by (auto simp: live)
    moreover have "live1 \<subseteq> ?K" using sub by blast
    moreover have "- next_read i U \<subseteq> ?K \<union> isa_writes i" by (auto simp: next_read_def)
    ultimately show "live \<union> - next_read i U \<subseteq> ?K \<union> isa_writes i" by blast
    show "loaded \<union> outputs_of T \<subseteq> (loaded' \<union> outputs_of T) - F" using F(2,4) by blast
  qed
  ultimately show ?thesis by blast
qed

lemma finish_run:
  assumes "finish_pass T c = (c', live, loaded)" "\<forall>i \<in> set c. plain i" "resolves_ok c U"
    and "isa_run M keys c s = Some s'" "agree_on (live \<union> - U) (loaded \<union> outputs_of T) s t"
  shows "\<exists>t'. isa_run M keys c' t = Some t' \<and> agree_on {} (outputs_of T) s' t'"
  using assms
proof (induction c arbitrary: c' live loaded U s t)
  case Nil
  then show ?case by (auto intro: agree_on_mono)
next
  case (Cons i c)
  obtain d live1 loaded1 where tail: "finish_pass T c = (d, live1, loaded1)" by (metis prod_cases3)
  obtain ss live2 where m: "mark_isa_srcs (isa_srcs i) (live1 - reg_key ` {r \<in> set (isa_dests i). reg_type r \<noteq> RegBcu}) = (ss, live2)"
    by (metis surj_pair)
  obtain i' loaded2 where f: "finish_load T (with_srcs ss i) loaded1 = (i', loaded2)" by (metis surj_pair)
  have c': "c' = i' # d" "live = live2" "loaded = loaded2" using Cons.prems(1) tail m f by (simp_all add: Let_def)
  obtain s1 where s1: "isa_step M keys i s = Some s1" "isa_run M keys c s1 = Some s'"
    using Cons.prems(4) by (auto split: option.splits)
  have p: "plain i" "\<forall>i \<in> set c. plain i" and r: "group_of i \<inter> (U \<union> isa_reads i) = {}" "resolves_ok c (next_read i U)"
    using Cons.prems(2,3) by simp_all
  obtain t1 where t1: "isa_step M keys i' t = Some t1" "agree_on (live1 \<union> - next_read i U) (loaded1 \<union> outputs_of T) s1 t1"
    using finish_step [OF p(1) s1(1) refl m f _ r(1), of t] Cons.prems(5) c' by auto
  from Cons.IH [OF tail p(2) r(2) s1(2) t1(2)] t1(1) show ?case by (simp add: c'(1))
qed

text \<open>The finished code leaves the same trace and the same outputs in memory.\<close>

lemma finish_correct:
  assumes "\<forall>i \<in> set c. plain i" "resolves_ok c {}" "isa_run M keys c s = Some s'"
  shows "\<exists>t'. isa_run M keys (fst (finish_pass T c)) s = Some t' \<and> is_trace t' = is_trace s' \<and>
    (\<forall>k. t_output (T (fst k)) \<longrightarrow> is_mem t' k = is_mem s' k)"
proof -
  obtain c' live loaded where f: "finish_pass T c = (c', live, loaded)" by (metis prod_cases3)
  have "agree_on (live \<union> - {}) (loaded \<union> outputs_of T) s s" by (simp add: agree_on_def)
  from finish_run [OF f assms(1,2,3) this] f show ?thesis by (auto simp: agree_on_def outputs_of_def)
qed

end
