(* ===== verification/RegisterBounds.thy ===== *)
theory RegisterBounds
  imports NextUse RegisterFinish
begin

text \<open>
  The code names registers of the machine only: vector registers below the number given, the 32 scalar
  registers, and the output registers of the two base conversion units.
\<close>

definition in_machine :: "nat \<Rightarrow> Register \<Rightarrow> bool" where
  "in_machine n r \<longleftrightarrow> (case reg_type r of RegVector \<Rightarrow> reg_id r < n | RegScalar \<Rightarrow> reg_id r < 32 | RegBcu \<Rightarrow> reg_bcu r < 2 | RegNone \<Rightarrow> False)"

definition isa_registers :: "ISAInstruction \<Rightarrow> Register set" where
  "isa_registers i = set (isa_srcs i) \<union> set (isa_dests i) \<union> (case i of ResolveInitISA rs \<Rightarrow> set rs | _ \<Rightarrow> {})"

definition isa_units :: "ISAInstruction \<Rightarrow> nat set" where
  "isa_units i = (case i of PlISA1 u r b intt \<Rightarrow> {u} | BcuInitISA u bases cell \<Rightarrow> {u} | _ \<Rightarrow> {})"

definition isa_fits :: "nat \<Rightarrow> ISAInstruction \<Rightarrow> bool" where
  "isa_fits n i \<longleftrightarrow> (\<forall>r \<in> isa_registers i. in_machine n r) \<and> (\<forall>u \<in> isa_units i. u < 2)"

definition within :: "nat \<Rightarrow> RegisterAllocator \<Rightarrow> bool" where
  "within n A \<longleftrightarrow> (\<forall>r \<in> set (pool A). in_machine n r) \<and> (\<forall>t rs. ra_poly_map A t = Some rs \<longrightarrow> (\<forall>r \<in> set rs. in_machine n r)) \<and>
     (\<forall>u \<in> set (ra_bcu_free A). u < 2) \<and>
     (\<forall>t b. ra_bcu_map A t = Some b \<longrightarrow> bcu_id b < 2 \<and> (\<forall>r \<in> snd ` set (bcu_bases b). in_machine n r)) \<and>
     (\<forall>i \<in> set (isa_code A). isa_fits n i)"

lemma withinD:
  assumes "within n A"
  shows "e \<in> set (ra_map A) \<Longrightarrow> in_machine n (snd e)" "r \<in> set (ra_vector_free A) \<Longrightarrow> in_machine n r" "r \<in> set (ra_scalar_free A) \<Longrightarrow> in_machine n r"
    "ra_poly_map A t = Some rs \<Longrightarrow> r \<in> set rs \<Longrightarrow> in_machine n r" "u \<in> set (ra_bcu_free A) \<Longrightarrow> u < 2"
    "ra_bcu_map A t = Some b \<Longrightarrow> bcu_id b < 2" "ra_bcu_map A t = Some b \<Longrightarrow> (x, r) \<in> set (bcu_bases b) \<Longrightarrow> in_machine n r"
    "i \<in> set (isa_code A) \<Longrightarrow> isa_fits n i"
  using assms by (force simp: within_def pool_def)+

lemma withinI:
  assumes "\<And>e. e \<in> set (ra_map A) \<Longrightarrow> in_machine n (snd e)" "\<And>r. r \<in> set (ra_vector_free A) \<Longrightarrow> in_machine n r"
    "\<And>r. r \<in> set (ra_scalar_free A) \<Longrightarrow> in_machine n r"
    "\<And>t rs r. ra_poly_map A t = Some rs \<Longrightarrow> r \<in> set rs \<Longrightarrow> in_machine n r" "\<And>u. u \<in> set (ra_bcu_free A) \<Longrightarrow> u < 2"
    "\<And>t b. ra_bcu_map A t = Some b \<Longrightarrow> bcu_id b < 2" "\<And>t b x r. ra_bcu_map A t = Some b \<Longrightarrow> (x, r) \<in> set (bcu_bases b) \<Longrightarrow> in_machine n r"
    "\<And>i. i \<in> set (isa_code A) \<Longrightarrow> isa_fits n i"
  shows "within n A"
  using assms by (auto simp: within_def pool_def)

text \<open>Everything the new state holds, the old one held, or within.\<close>

lemma fits_step:
  assumes "within n A"
    and "\<And>e. e \<in> set (ra_map A') \<Longrightarrow> e \<in> set (ra_map A) \<or> in_machine n (snd e)"
    and "\<And>r. r \<in> set (ra_vector_free A') \<Longrightarrow> r \<in> set (ra_vector_free A) \<or> in_machine n r"
    and "\<And>r. r \<in> set (ra_scalar_free A') \<Longrightarrow> r \<in> set (ra_scalar_free A) \<or> in_machine n r"
    and "ra_poly_map A' = ra_poly_map A" "ra_bcu_free A' = ra_bcu_free A" "ra_bcu_map A' = ra_bcu_map A"
    and "\<And>x. x \<in> set (ra_code A') \<Longrightarrow> x \<in> set (ra_code A) \<or> isa_fits n (snd x)"
  shows "within n A'"
proof (rule withinI)
  fix i assume "i \<in> set (isa_code A')"
  then obtain x where "x \<in> set (ra_code A')" "i = snd x" by (auto simp: isa_code_def)
  then show "isa_fits n i" using assms(8) [of x] withinD(8) [OF assms(1), of i] by (auto simp: isa_code_def)
next
  fix e assume "e \<in> set (ra_map A')"
  then show "in_machine n (snd e)" using assms(2) withinD(1) [OF assms(1)] by blast
next
  fix r assume "r \<in> set (ra_vector_free A')"
  then show "in_machine n r" using assms(3) withinD(2) [OF assms(1)] by blast
next
  fix r assume "r \<in> set (ra_scalar_free A')"
  then show "in_machine n r" using assms(4) withinD(3) [OF assms(1)] by blast
qed (use withinD(4-7) [OF assms(1)] in \<open>simp_all only: assms(5-7)\<close>)

lemma free_register_fits:
  assumes f: "within n A" and r: "in_machine n r" and fr: "free_register r A = Inr A'"
  shows "within n A'"
proof (rule fits_step [OF f])
  note g = free_register_fields [OF fr]
  show "e \<in> set (ra_map A) \<or> in_machine n (snd e)" if "e \<in> set (ra_map A')" for e using that g(1) by simp
  show "x \<in> set (ra_vector_free A) \<or> in_machine n x" if "x \<in> set (ra_vector_free A')" for x
    using that r fr by (auto simp: free_register_def split: RegType.splits)
  show "x \<in> set (ra_scalar_free A) \<or> in_machine n x" if "x \<in> set (ra_scalar_free A')" for x
    using that r fr by (auto simp: free_register_def split: RegType.splits)
  show "x \<in> set (ra_code A) \<or> isa_fits n (snd x)" if "x \<in> set (ra_code A')" for x using that g(2) by simp
qed (use free_register_fields [OF fr] in simp_all)

lemma set_insert_after: "set (insert_after u x c) \<subseteq> insert x (set c)"
  by (induction u x c rule: insert_after.induct) auto

lemma store_fits: "in_machine n r \<Longrightarrow> isa_fits n (StoreISA l r sp)"
  by (simp add: isa_fits_def isa_registers_def isa_units_def)

lemma evict_limb_fits:
  assumes f: "within n A" and e: "(l, r) \<in> set (ra_map A)" and ev: "evict_limb T ty (Some (l, r)) A = Inr A'"
  shows "within n A'"
proof -
  have r: "in_machine n r" using withinD(1) [OF f e] by simp
  let ?A1 = "A\<lparr>ra_map := lm_erase l (ra_map A)\<rparr>"
  have f1: "within n ?A1" by (rule fits_step [OF f]) (auto simp: set_lm_erase)
  obtain A2 where A2: "(if \<not> is_input T l \<and> \<not> is_output T l then spill l r ?A1 else Inr ?A1) = Inr A2" "free_register r A2 = Inr A'"
    using ev by (auto simp: evict_limb_def Let_def bindr_Inr_iff guardr_Inr_iff)
  have "within n A2"
  proof (cases "\<not> is_input T l \<and> \<not> is_output T l")
    case True
    then obtain u where u: "A2 = note_write (ra_next A) r (?A1\<lparr>ra_code := insert_after u (ra_next A, StoreISA (l\<lparr>l_dead := False\<rparr>) r True) (ra_code A),
            ra_next := ra_next A + 1\<rparr>)"
      using A2(1) by (auto simp: spill_def split: option.splits)
    show ?thesis
    proof (rule fits_step [OF f1])
      fix x assume "x \<in> set (ra_code A2)"
      then show "x \<in> set (ra_code ?A1) \<or> isa_fits n (snd x)"
        using set_insert_after [of u "(ra_next A, StoreISA (l\<lparr>l_dead := False\<rparr>) r True)" "ra_code A"] store_fits [OF r] by (auto simp: u)
    qed (simp_all add: u)
  qed (use A2(1) f1 in \<open>auto split: if_splits\<close>)
  then show ?thesis using free_register_fits r A2(2) by blast
qed

context evictor
begin

lemma keeps_fits: "evict A = Inr A' \<Longrightarrow> within n A \<Longrightarrow> within n A'"
proof -
  assume "evict A = Inr A'" and f: "within n A"
  then obtain e where e: "e \<in> set (ra_map A)" "evict_limb T ty (Some e) A = Inr A'" using picks by blast
  obtain l r where "e = (l, r)" by (cases e)
  then show ?thesis using evict_limb_fits [OF f] e by simp
qed

end

lemma take_register_fits:
  assumes f: "within n A" and tk: "take_register T order l A = Inr (r, A')"
  shows "within n A'" "in_machine n r"
proof -
  obtain A1 rs where A1: "A1 = A \<or> evict_scalar T order A = Inr A1 \<or> evict_vector T order A = Inr A1"
      "A' = A1\<lparr>ra_vector_free := rs\<rparr> \<and> ra_vector_free A1 = r # rs \<or> A' = A1\<lparr>ra_scalar_free := rs\<rparr> \<and> ra_scalar_free A1 = r # rs"
    using take_register_cases [OF tk] .
  have f1: "within n A1" using A1(1) f scalar_evictor.keeps_fits vector_evictor.keeps_fits by blast
  show "in_machine n r" using A1(2) withinD(2,3) [OF f1, of r] by auto
  show "within n A'" by (rule fits_step [OF f1]) (use A1(2) in auto)
qed

lemma set_lm_assign: "set (lm_assign l r m) \<subseteq> set m \<union> {(l', r) | l'. True}"
  by (induction l r m rule: lm_assign.induct) auto

lemma assign_fits: "within n A \<Longrightarrow> in_machine n r \<Longrightarrow> A' = A\<lparr>ra_map := lm_assign l r m\<rparr> \<Longrightarrow> set m \<subseteq> set (ra_map A) \<Longrightarrow> within n A'"
  by (rule fits_step) (use set_lm_assign [of l r m] in auto)

lemma load_src_fits:
  assumes f: "within n A" and load: "load_src T order src A = Inr A'"
  shows "within n A'"
proof (cases "is_bcor T src \<or> lm_find (limb_key src) (ra_map A) \<noteq> None")
  case True
  then show ?thesis using load f by (simp add: load_src_def)
next
  case False
  obtain r A1 where A1: "take_register T order src A = Inr (r, A1)" using load False by (auto simp: load_src_def bindr_Inr_iff)
  note tk = take_register_fits [OF f A1]
  obtain l i where A': "ra_map A' = lm_assign l r (ra_map A1)" "ra_code A' = ra_code A1 @ [(ra_next A1, i)]" "isa_registers i = {r}" "isa_units i = {}"
      "ra_vector_free A' = ra_vector_free A1" "ra_scalar_free A' = ra_scalar_free A1" "ra_poly_map A' = ra_poly_map A1"
      "ra_bcu_free A' = ra_bcu_free A1" "ra_bcu_map A' = ra_bcu_map A1"
    using load False A1 by (auto simp: load_src_def Let_def isa_registers_def isa_units_def split: if_splits)
  have "isa_fits n i" using tk(2) A'(3,4) by (simp add: isa_fits_def)
  then show ?thesis by (intro fits_step [OF tk(1)]) (use A' tk(2) set_lm_assign [of l r "ra_map A1"] in auto)
qed

lemma place_dest_fits:
  assumes f: "within n A" and place: "place_dest T order d A = Inr A'"
  shows "within n A'"
proof (cases "is_bcor T d")
  case True
  then show ?thesis using place f by (simp add: place_dest_def)
next
  case False
  then obtain r A1 where A1: "take_register T order d A = Inr (r, A1)" "A' = A1\<lparr>ra_map := lm_assign d r (ra_map A1)\<rparr>"
    using place by (auto simp: place_dest_def bindr_Inr_iff)
  show ?thesis using assign_fits take_register_fits [OF f A1(1)] A1(2) by blast
qed

lemma evict_until_fits: "within n A \<Longrightarrow> evict_until T order k A = Inr A' \<Longrightarrow> within n A'"
proof (induction k arbitrary: A)
  case (Suc k)
  then obtain B where "evict_vector T order A = Inr B" "evict_until T order k B = Inr A'" by (auto simp: bindr_Inr_iff)
  then show ?case using Suc vector_evictor.keeps_fits by blast
qed simp


lemma unit_registers_fit: "u < 2 \<Longrightarrow> (x, r) \<in> set (bcu_bases (bcu_initialise u bases c)) \<Longrightarrow> in_machine n r"
  by (auto simp: bcu_initialise_def in_machine_def bcu_register_def)

lemma unit_fits:
  assumes f: "within n A" and b: "bcu_id b < 2" "\<And>x r. (x, r) \<in> set (bcu_bases b) \<Longrightarrow> in_machine n r"
    and A': "ra_map A' = ra_map A" "ra_code A' = ra_code A" "ra_vector_free A' = ra_vector_free A" "ra_scalar_free A' = ra_scalar_free A"
      "ra_poly_map A' = ra_poly_map A" "set (ra_bcu_free A') \<subseteq> set (ra_bcu_free A)" "ra_bcu_map A' = (ra_bcu_map A)(t \<mapsto> b)"
  shows "within n A'"
proof (rule withinI)
  show "in_machine n (snd e)" if "e \<in> set (ra_map A')" for e using withinD(1) [OF f] that by (simp add: A')
  show "in_machine n r" if "r \<in> set (ra_vector_free A')" for r using withinD(2) [OF f] that by (simp add: A')
  show "in_machine n r" if "r \<in> set (ra_scalar_free A')" for r using withinD(3) [OF f] that by (simp add: A')
  show "in_machine n r" if "ra_poly_map A' t = Some rs" "r \<in> set rs" for t rs r using withinD(4) [OF f] that by (simp add: A')
  show "u < 2" if "u \<in> set (ra_bcu_free A')" for u using withinD(5) [OF f] that A'(6) by blast
  show "bcu_id c < 2" if "ra_bcu_map A' x = Some c" for x c
    using that withinD(6) [OF f, of x c] b(1) by (cases "x = t") (simp_all add: A'(7))
  show "in_machine n r" if "ra_bcu_map A' x = Some c" "(y, r) \<in> set (bcu_bases c)" for x c y r
    using that withinD(7) [OF f, of x c y r] b(2) [of y r] by (cases "x = t") (simp_all add: A'(7))
  show "isa_fits n i" if "i \<in> set (isa_code A')" for i using withinD(8) [OF f] that by (simp add: isa_code_def A'(2))
qed

lemma push_fits: "within n A \<Longrightarrow> isa_fits n i \<Longrightarrow> within n (push_code i A)"
  by (rule fits_step) auto

lemma place_conversion_fits:
  assumes f: "within n A" and place: "place_conversion p base A = Inr A'"
  shows "within n A'"
proof (cases p)
  case None
  then show ?thesis using place f by (simp add: place_conversion_def)
next
  case (Some p)
  show ?thesis
  proof (cases "ra_bcu_map A (p_term p)")
    case b: (Some b)
    have b2: "bcu_id (b\<lparr>bcu_writes := bcu_writes b + 1\<rparr>) < 2"
      "\<And>x r. (x, r) \<in> set (bcu_bases (b\<lparr>bcu_writes := bcu_writes b + 1\<rparr>)) \<Longrightarrow> in_machine n r"
      using withinD(6,7) [OF f b] by simp_all
    show ?thesis by (rule unit_fits [OF f b2, where t = "p_term p"]) (use place b Some in \<open>auto simp: place_conversion_def\<close>)
  next
    case None
    then obtain u us where u: "ra_bcu_free A = u # us" using place Some by (cases "ra_bcu_free A") (simp_all add: place_conversion_def)
    then have u2: "u < 2" using withinD(5) [OF f] by simp
    let ?i = "BcuInitISA u (p_limbs p) (ra_next A)"
    let ?b = "bcu_initialise u (p_limbs p) (ra_next A)"
    have "isa_fits n ?i" using u2 by (simp add: isa_fits_def isa_registers_def isa_units_def)
    then have f1: "within n (push_code ?i A)" by (rule push_fits [OF f])
    have b2: "bcu_id (?b\<lparr>bcu_writes := bcu_writes ?b + 1\<rparr>) < 2"
      "\<And>x r. (x, r) \<in> set (bcu_bases (?b\<lparr>bcu_writes := bcu_writes ?b + 1\<rparr>)) \<Longrightarrow> in_machine n r"
      using u2 unit_registers_fit [OF u2] by (simp_all add: bcu_initialise_def)
    show ?thesis
      by (rule unit_fits [OF f1 b2, where t = "p_term p"]) (use place None u Some in \<open>auto simp: place_conversion_def Let_def\<close>)
  qed
qed

lemma group_fits:
  assumes f: "within n A" and rs: "\<forall>r \<in> set rs. in_machine n r"
    and A': "ra_map A' = ra_map A" "ra_code A' = ra_code A" "ra_scalar_free A' = ra_scalar_free A"
      "ra_bcu_free A' = ra_bcu_free A" "ra_bcu_map A' = ra_bcu_map A"
      "\<And>r. r \<in> set (ra_vector_free A') \<Longrightarrow> r \<in> set (ra_vector_free A) \<or> r \<in> set rs"
      "\<And>t rs'. ra_poly_map A' t = Some rs' \<Longrightarrow> ra_poly_map A t = Some rs' \<or> rs' = rs"
  shows "within n A'"
proof (rule withinI)
  show "in_machine n (snd e)" if "e \<in> set (ra_map A')" for e using withinD(1) [OF f] that by (simp add: A')
  show "in_machine n r" if "r \<in> set (ra_vector_free A')" for r using withinD(2) [OF f] A'(6) [OF that] rs by blast
  show "in_machine n r" if "r \<in> set (ra_scalar_free A')" for r using withinD(3) [OF f] that by (simp add: A')
  show "in_machine n r" if "ra_poly_map A' t = Some rs'" "r \<in> set rs'" for t rs' r
    using withinD(4) [OF f, of t rs' r] A'(7) [OF that(1)] that(2) rs by blast
  show "u < 2" if "u \<in> set (ra_bcu_free A')" for u using withinD(5) [OF f] that by (simp add: A')
  show "bcu_id c < 2" if "ra_bcu_map A' x = Some c" for x c using withinD(6) [OF f, of x c] that by (simp add: A')
  show "in_machine n r" if "ra_bcu_map A' x = Some c" "(y, r) \<in> set (bcu_bases c)" for x c y r
    using withinD(7) [OF f, of x c y r] that by (simp add: A')
  show "isa_fits n i" if "i \<in> set (isa_code A')" for i using withinD(8) [OF f] that by (simp add: isa_code_def A'(2))
qed

lemma place_polynomial_fits:
  assumes f: "within n A" and place: "place_polynomial T order p A = Inr A'"
  shows "within n A'"
proof (cases "ra_poly_map A (p_term p)")
  case (Some rs)
  then show ?thesis using place f by (simp add: place_polynomial_def)
next
  case None
  let ?n = "length (p_limbs p)"
  obtain A1 where A1: "evict_until T order (?n - length (ra_vector_free A)) A = Inr A1"
      "A' = (push_code (ResolveInitISA (take ?n (ra_vector_free A1))) (A1\<lparr>ra_vector_free := drop ?n (ra_vector_free A1)\<rparr>))
         \<lparr>ra_poly_map := (ra_poly_map (push_code (ResolveInitISA (take ?n (ra_vector_free A1))) (A1\<lparr>ra_vector_free := drop ?n (ra_vector_free A1)\<rparr>)))
           (p_term p \<mapsto> take ?n (ra_vector_free A1))\<rparr>"
    using place None by (auto simp: place_polynomial_def bindr_Inr_iff guardr_Inr_iff Let_def)
  have f1: "within n A1" by (rule evict_until_fits [OF f A1(1)])
  have rs: "\<forall>r \<in> set (take ?n (ra_vector_free A1)). in_machine n r" using withinD(2) [OF f1] by (auto dest: in_set_takeD)
  let ?B = "push_code (ResolveInitISA (take ?n (ra_vector_free A1))) (A1\<lparr>ra_vector_free := drop ?n (ra_vector_free A1)\<rparr>)"
  have "within n (A1\<lparr>ra_vector_free := drop ?n (ra_vector_free A1)\<rparr>)"
    by (rule fits_step [OF f1]) (auto dest: in_set_dropD)
  moreover have "isa_fits n (ResolveInitISA (take ?n (ra_vector_free A1)))" using rs by (simp add: isa_fits_def isa_registers_def isa_units_def)
  ultimately have "within n ?B" by (rule push_fits)
  then show ?thesis by (rule group_fits [OF _ rs]) (simp_all add: A1(2) split: if_splits)
qed

lemma lm_at_fits: "within n A \<Longrightarrow> lm_at l (ra_map A) = Inr r \<Longrightarrow> in_machine n r"
  using lm_find_Some [of "limb_key l" "ra_map A" r] withinD(1) [of n A] by (force simp: lm_at_def the_res_Inr_iff)

lemma limb_or_bcu_fits:
  assumes f: "within n A" and r: "limb_or_bcu T l A = Inr r"
  shows "in_machine n r"
proof (cases "is_bcor T l")
  case True
  then obtain b where b: "ra_bcu_map A (l_term l) = Some b" "map_of (bcu_bases b) (l_limb l) = Some r"
    using r by (auto simp: limb_or_bcu_def bcu_read_register_def bindr_Inr_iff res_simps)
  show ?thesis by (rule withinD(7) [OF f b(1) map_of_SomeD [OF b(2)]])
next
  case False
  then show ?thesis using r lm_at_fits [OF f] by (simp add: limb_or_bcu_def)
qed

lemma instruction_fits:
  assumes f: "within n A" and ri: "get_register_instruction T A i = Inr ri"
  shows "isa_fits n ri"
  using ri lm_at_fits [OF f] limb_or_bcu_fits [OF f] withinD(4,6) [OF f]
  by (cases i) (auto simp: isa_fits_def isa_registers_def isa_units_def bindr_Inr_iff the_res_Inr_iff split: option.splits)


section \<open>After the instruction\<close>

lemma lm_find_erase: "k \<noteq> limb_key l \<Longrightarrow> lm_find k (lm_erase l m) = lm_find k m"
  by (induction k m rule: lm_find.induct) (auto simp: lm_erase_def)

lemma lm_find_assign: "lm_find k (lm_assign l r m) = (if k = limb_key l then Some r else lm_find k m)"
  by (induction l r m rule: lm_assign.induct) auto

lemma unit_freed_fits:
  assumes f: "within n A" and b: "ra_bcu_map A t = Some b"
  shows "within n (A\<lparr>ra_bcu_map := (ra_bcu_map A)(t := None), ra_bcu_free := ra_bcu_free A @ [bcu_id b]\<rparr>)"
proof (rule withinI)
  let ?A = "A\<lparr>ra_bcu_map := (ra_bcu_map A)(t := None), ra_bcu_free := ra_bcu_free A @ [bcu_id b]\<rparr>"
  show "u < 2" if "u \<in> set (ra_bcu_free ?A)" for u using that withinD(5) [OF f] withinD(6) [OF f b] by auto
  show "bcu_id c < 2" if "ra_bcu_map ?A x = Some c" for x c using that withinD(6) [OF f, of x c] by (simp split: if_splits)
  show "in_machine n r" if "ra_bcu_map ?A x = Some c" "(y, r) \<in> set (bcu_bases c)" for x c y r
    using that withinD(7) [OF f, of x c y r] by (simp split: if_splits)
qed (use withinD [OF f] in \<open>simp_all add: isa_code_def\<close>)

lemma release_limb_fits:
  assumes f: "within n A" and rel: "release_limb T u l A = Inr A'"
  shows "within n A'" "k \<noteq> limb_key l \<Longrightarrow> lm_find k (ra_map A') = lm_find k (ra_map A)"
proof -
  have "within n A' \<and> (k \<noteq> limb_key l \<longrightarrow> lm_find k (ra_map A') = lm_find k (ra_map A))"
  proof (cases "is_bcor T l")
    case True
    then obtain b where b: "ra_bcu_map A (l_term l) = Some b"
      using rel by (cases "ra_bcu_map A (l_term l)") (simp_all add: release_limb_def)
    show ?thesis
    proof (cases "bcu_is_free (bcu_free_register l b)")
      case free: True
      then have "A' = A\<lparr>ra_bcu_map := (ra_bcu_map A)(l_term l := None), ra_bcu_free := ra_bcu_free A @ [bcu_id b]\<rparr>"
        using rel True b by (cases "l_dead l") (simp_all add: release_limb_def Let_def)
      then show ?thesis using unit_freed_fits [OF f b] by simp
    next
      case False
      then have A': "A' = A\<lparr>ra_bcu_map := (ra_bcu_map A)(l_term l \<mapsto> bcu_free_register l b)\<rparr>"
        using rel True b by (cases "l_dead l") (simp_all add: release_limb_def Let_def)
      have "bcu_id (bcu_free_register l b) < 2" "\<And>x r. (x, r) \<in> set (bcu_bases (bcu_free_register l b)) \<Longrightarrow> in_machine n r"
        using withinD(6,7) [OF f b] by (auto simp: bcu_free_register_def)
      then have "within n A'" by (rule unit_fits [OF f, where t = "l_term l"]) (simp_all add: A')
      then show ?thesis by (simp add: A')
    qed
  next
    case False
    then obtain r A2 where r: "lm_at l (ra_map A) = Inr r"
      and A2: "(if l_dead l then guardr (reg_id r \<noteq> 2 ^ 32 - 1) AssertFail (free_register r (A\<lparr>ra_map := lm_erase l (ra_map A)\<rparr>))
        else Inr (A\<lparr>ra_map := lm_assign l r (lm_erase l (ra_map A))\<rparr>)) = Inr A2" "A' = note_read u r A2"
      using rel by (auto simp: release_limb_def bindr_Inr_iff Let_def cong: if_cong)
    have rm: "in_machine n r" by (rule lm_at_fits [OF f r])
    have f1: "within n (A\<lparr>ra_map := lm_erase l (ra_map A)\<rparr>)" by (rule fits_step [OF f]) (auto simp: set_lm_erase)
    have "within n A2 \<and> (k \<noteq> limb_key l \<longrightarrow> lm_find k (ra_map A2) = lm_find k (ra_map A))"
    proof (cases "l_dead l")
      case True
      then have fr: "free_register r (A\<lparr>ra_map := lm_erase l (ra_map A)\<rparr>) = Inr A2" using A2(1) by (simp add: guardr_Inr_iff)
      then show ?thesis using free_register_fits [OF f1 rm fr] free_register_fields(1) [OF fr] lm_find_erase by simp
    next
      case False
      then have A2': "A2 = A\<lparr>ra_map := lm_assign l r (lm_erase l (ra_map A))\<rparr>" using A2(1) by simp
      have "within n A2" by (rule assign_fits [OF f rm A2']) (auto simp: set_lm_erase)
      then show ?thesis by (simp add: A2' lm_find_assign lm_find_erase)
    qed
    moreover have "within n A'" if "within n A2" by (rule fits_step [OF that]) (simp_all add: A2(2) note_read_def)
    ultimately show ?thesis by (simp add: A2(2) note_read_def)
  qed
  then show "within n A'" "k \<noteq> limb_key l \<Longrightarrow> lm_find k (ra_map A') = lm_find k (ra_map A)" by simp_all
qed

lemma release_limbs_fits:
  assumes "within n A" "foldr_res (release_limb T u) ls A = Inr A'"
  shows "within n A' \<and> (k \<notin> limb_key ` set ls \<longrightarrow> lm_find k (ra_map A') = lm_find k (ra_map A))"
  using assms
proof (induction ls arbitrary: A)
  case (Cons l ls)
  then obtain B where B: "release_limb T u l A = Inr B" "foldr_res (release_limb T u) ls B = Inr A'" by (auto simp: bindr_Inr_iff)
  note r = release_limb_fits [OF Cons.prems(1) B(1)]
  show ?case using Cons.IH [OF r(1) B(2)] r(2) [of k] by simp
qed simp

lemma finish_limb_dest_fits:
  assumes f: "within n A" and r: "lm_find (limb_key d) (ra_map A) = Some r" and fin: "finish_limb_dest T u d A = Inr A'"
  shows "within n A'"
proof -
  have rm: "in_machine n r" by (rule lm_at_fits [OF f, of d]) (simp add: lm_at_def r)
  let ?erased = "A\<lparr>ra_map := lm_erase d (ra_map A)\<rparr>"
  obtain A2 where A2: "(if l_dead d then free_register r ?erased else Inr (A\<lparr>ra_map := lm_assign d r (lm_erase d (ra_map A))\<rparr>)) = Inr A2"
      "A' = note_write u r (if is_output T d then push_code (StoreISA d r False) (note_io_limb d A2) else A2)"
    using fin r by (auto simp: finish_limb_dest_def Let_def bindr_Inr_iff cong: if_cong)
  have f1: "within n ?erased" by (rule fits_step [OF f]) (auto simp: set_lm_erase)
  have f2: "within n A2"
  proof (cases "l_dead d")
    case True
    then show ?thesis using A2(1) free_register_fits [OF f1 rm] by simp
  next
    case False
    then have A2': "A2 = A\<lparr>ra_map := lm_assign d r (lm_erase d (ra_map A))\<rparr>" using A2(1) by simp
    show ?thesis by (rule assign_fits [OF f rm A2']) (auto simp: set_lm_erase)
  qed
  show ?thesis
  proof (rule fits_step [OF f2])
    show "x \<in> set (ra_code A2) \<or> isa_fits n (snd x)" if "x \<in> set (ra_code A')" for x
      using that store_fits [OF rm] by (auto simp: A2(2) note_io_limb_def split: if_splits)
  qed (simp_all add: A2(2) note_io_limb_def split: if_splits)
qed

lemma finish_polynomial_fits:
  assumes f: "within n A" and fin: "finish_polynomial_src u p A = Inr A' \<or> finish_polynomial_dest u p A = Inr A'"
  shows "within n A'"
proof -
  define B where "B rs = (if p_dead p then A\<lparr>ra_vector_free := ra_vector_free A @ rs, ra_poly_map := (ra_poly_map A)(p_term p := None)\<rparr> else A)" for rs
  obtain rs where rs: "ra_poly_map A (p_term p) = Some rs" "A' = fold (note_read u) rs (B rs) \<or> A' = fold (note_write u) rs (B rs)"
    using fin unfolding finish_polynomial_src_def finish_polynomial_dest_def bindr_Inr_iff the_res_Inr_iff Let_def B_def by blast
  have fb: "within n (B rs)"
    by (rule group_fits [OF f, of rs]) (use withinD(4) [OF f rs(1)] in \<open>auto simp: B_def split: if_splits\<close>)
  have r: "within n (fold (note_read u) xs C)" if "within n C" for xs C using that
  proof (induction xs arbitrary: C)
    case (Cons x xs)
    have "within n (note_read u x C)" by (rule fits_step [OF Cons.prems]) (simp_all add: note_read_def)
    then show ?case using Cons.IH by simp
  qed simp
  have w: "within n (fold (note_write u) xs C)" if "within n C" for xs C using that
  proof (induction xs arbitrary: C)
    case (Cons x xs)
    have "within n (note_write u x C)" by (rule fits_step [OF Cons.prems]) simp_all
    then show ?case using Cons.IH by simp
  qed simp
  show ?thesis using rs(2) r [OF fb] w [OF fb] by blast
qed

section \<open>The whole allocation\<close>

lemma dests_at_most_one: "limb_dests i = [] \<or> (\<exists>d. limb_dests i = [d])"
  by (cases i) (auto split: option.split)

lemma process_fits:
  assumes f: "within n A" and pr: "process_instruction T order i A = Inr A'" and o: "reads_once i"
  shows "within n A'"
proof -
  obtain A1 A2 A3 A4 ri A5 A6 A7 A8 where p: "foldr_res (load_src T order) (limb_srcs i) A = Inr A1" "foldr_res (place_dest T order) (limb_dests i) A1 = Inr A2"
    "place_conversion (base_conversion_dest i) (limb_idx i) A2 = Inr A3"
    "foldr_res (place_polynomial T order) (polynomial_dests i) A3 = Inr A4" "get_register_instruction T A4 i = Inr ri"
    "foldr_res (release_limb T (ra_next A4)) (limb_srcs i) (push_code ri A4) = Inr A5"
    "foldr_res (finish_limb_dest T (ra_next A4)) (limb_dests i) A5 = Inr A6"
    "foldr_res (finish_polynomial_dest (ra_next A4)) (polynomial_dests i) A6 = Inr A7"
    "foldr_res (finish_polynomial_src (ra_next A4)) (polynomial_srcs i) A7 = Inr A8"
    "A' = A8\<lparr>ra_instructions := ra_instructions A8 + 1\<rparr>" using processD [OF pr] .
  have f1: "within n A1" by (rule foldr_res_inv [OF p(1), of "within n", OF f]) (rule load_src_fits)
  have f2: "within n A2" by (rule foldr_res_inv [OF p(2), of "within n", OF f1]) (rule place_dest_fits)
  have f3: "within n A3" by (rule place_conversion_fits [OF f2 p(3)])
  have f4: "within n A4" by (rule foldr_res_inv [OF p(4), of "within n", OF f3]) (rule place_polynomial_fits)
  have "within n (push_code ri A4)" by (rule push_fits [OF f4 instruction_fits [OF f4 p(5)]])
  note f5 = release_limbs_fits [OF this p(6)]
  have f6: "within n A6"
  proof (cases "limb_dests i = []")
    case True
    then show ?thesis using p(7) f5 by simp
  next
    case False
    then obtain d where d: "limb_dests i = [d]" using dests_at_most_one [of i] by blast
    then have "limb_key d \<notin> limb_key ` set (limb_srcs i)" using o by (auto simp: reads_once_def)
    moreover obtain r where "lm_find (limb_key d) (ra_map A4) = Some r" using dest_register [OF d p(5)] by blast
    ultimately have r: "lm_find (limb_key d) (ra_map A5) = Some r" using f5 [of "limb_key d"] by simp
    have e: "finish_limb_dest T (ra_next A4) d A5 = Inr A6" using p(7) d by (auto simp: bindr_Inr_iff)
    have "within n A5" using f5 by blast
    then show ?thesis using r e by (rule finish_limb_dest_fits)
  qed
  have f7: "within n A7" by (rule foldr_res_inv [OF p(8), of "within n", OF f6]) (rule finish_polynomial_fits, assumption, rule disjI2, assumption)
  have "within n A8" by (rule foldr_res_inv [OF p(9), of "within n", OF f7]) (rule finish_polynomial_fits, assumption, rule disjI1, assumption)
  then show ?thesis by (rule fits_step) (simp_all add: p(10))
qed

lemma pass_reads_once:
  "next_use_pass T n P = (Q, nu) \<Longrightarrow> \<forall>i \<in> set P. unmarked i \<and> reads_once i \<Longrightarrow> \<forall>i \<in> set Q. reads_once i"
proof (induction P arbitrary: n Q nu)
  case (Cons i P)
  obtain Q1 nu1 where 1: "next_use_pass T (n + 1) P = (Q1, nu1)" by (metis surj_pair)
  obtain i' nu2 where 2: "next_use_step T n i nu1 = (i', nu2)" by (metis surj_pair)
  have Q: "Q = i' # Q1" using Cons.prems(1) 1 2 by simp
  have u: "unmarked i" "reads_once i" "\<forall>i \<in> set P. unmarked i \<and> reads_once i" using Cons.prems(2) by simp_all
  have "reads_once i'" using u(2) next_use_step_exact(1,2) [OF 2 u(1,2)] by (simp add: reads_once_def flip: set_map)
  then show ?case using Cons.IH [OF 1 u(3)] by (simp add: Q)
qed simp

lemma start_fits: "within n (mk_RegisterAllocator n io symbols)"
  by (rule withinI) (auto simp: mk_RegisterAllocator_def in_machine_def vector_register_def scalar_register_def isa_code_def)

lemma allocated_fits:
  assumes "\<forall>i \<in> set P. unmarked i \<and> reads_once i"
    and "foldr_res (process_instruction T order) (do_next_use_analysis T P) (mk_RegisterAllocator n io symbols) = Inr A"
  shows "within n A"
proof -
  obtain Q nu where Q: "next_use_pass T 0 (snd (last_uses P)) = (Q, nu)" by (metis surj_pair)
  have "\<forall>i \<in> set (snd (last_uses P)). unmarked i \<and> reads_once i"
    using last_uses_unmarked [of P 0] last_uses_reads_once [of P 0] assms(1) by (simp add: last_uses_def)
  then have o: "\<forall>i \<in> set Q. reads_once i" by (rule pass_reads_once [OF Q])
  have al: "foldr_res (process_instruction T order) Q (mk_RegisterAllocator n io symbols) = Inr A"
    using assms(2) Q by (simp add: do_next_use_analysis_def)
  show ?thesis by (rule foldr_res_inv [OF al, of "within n", OF start_fits]) (rule process_fits, use o in auto)
qed

section \<open>The last pass\<close>

lemma marked_in_machine: "marked live r r' \<Longrightarrow> in_machine n r \<Longrightarrow> in_machine n r'"
  by (cases "reg_type r") (auto simp: marked_def mark_dead_def in_machine_def)

lemma isa_with_srcs: "isa_dests (with_srcs ss i) = isa_dests i \<and> isa_units (with_srcs ss i) = isa_units i \<and>
    (case with_srcs ss i of ResolveInitISA rs \<Rightarrow> set rs | _ \<Rightarrow> {}) = (case i of ResolveInitISA rs \<Rightarrow> set rs | _ \<Rightarrow> {})"
  by (cases i) (simp_all add: isa_units_def)

lemma with_srcs_fits:
  assumes "isa_fits n i" "list_all2 (marked live) (isa_srcs i) ss"
  shows "isa_fits n (with_srcs ss i)"
proof -
  have len: "length ss = length (isa_srcs i)" using assms(2) by (simp add: list_all2_lengthD)
  have "in_machine n r" if "r \<in> set ss" for r
  proof -
    obtain j where j: "j < length ss" "r = ss ! j" using \<open>r \<in> set ss\<close> by (auto simp: in_set_conv_nth)
    then have "marked live (isa_srcs i ! j) r" "j < length (isa_srcs i)" using list_all2_nthD2 [OF assms(2), of j] len by simp_all
    then show ?thesis using marked_in_machine assms(1) by (auto simp: isa_fits_def isa_registers_def)
  qed
  then show ?thesis using assms(1) isa_with_srcs [of ss i] by (auto simp: isa_fits_def isa_registers_def isa_srcs_with [OF len])
qed

lemma finish_load_fits: "finish_load T i loaded = (i', loaded') \<Longrightarrow> isa_fits n i \<Longrightarrow> isa_fits n i'"
  by (cases i) (auto simp: finish_load_def isa_fits_def isa_registers_def isa_units_def split: if_splits)

lemma finish_pass_fits: "finish_pass T c = (c', live, loaded) \<Longrightarrow> \<forall>i \<in> set c. isa_fits n i \<Longrightarrow> \<forall>i \<in> set c'. isa_fits n i"
proof (induction c arbitrary: c' live loaded)
  case (Cons i c)
  obtain d live1 loaded1 where tail: "finish_pass T c = (d, live1, loaded1)" by (metis prod_cases3)
  obtain ss live2 where m: "mark_isa_srcs (isa_srcs i) (live1 - reg_key ` {r \<in> set (isa_dests i). reg_type r \<noteq> RegBcu}) = (ss, live2)"
    by (metis surj_pair)
  obtain i' loaded2 where f: "finish_load T (with_srcs ss i) loaded1 = (i', loaded2)" by (metis surj_pair)
  have c': "c' = i' # d" using Cons.prems(1) tail m f by (simp add: Let_def)
  have "isa_fits n (with_srcs ss i)"
    by (rule with_srcs_fits) (use Cons.prems(2) mark_isa_srcs_marked [OF m] in auto)
  then have "isa_fits n i'" by (rule finish_load_fits [OF f])
  then show ?case using Cons.IH [OF tail] Cons.prems(2) by (simp add: c')
qed simp

end
