(* ===== verification/RegisterProperties.thy ===== *)
theory RegisterProperties
  imports RegisterBounds
begin

text \<open>
  The properties of the compiler's register allocation: next use analysis, allocation and the last pass
  together keep what a limb program computes.
\<close>

section \<open>A program with a spill\<close>

text \<open>
  Three vector registers. The input limb is transformed three ways; the third result finds all
  registers taken, and the limb used last, the first result, is stored and loaded again.
\<close>

definition demo_term :: Term where
  "demo_term = \<lparr>t_input = False, t_output = False, t_bcor = False, t_eval_key = False, t_eval_key_poly_num = False,
     t_bootstrap = False, t_scalar = False, t_receive = False, t_send = False\<rparr>"

definition demo_terms :: terms where
  "demo_terms t = (if t = 0 then demo_term\<lparr>t_input := True\<rparr> else if t = 5 then demo_term\<lparr>t_output := True\<rparr> else demo_term)"

definition demo_limb :: "nat \<Rightarrow> Limb" where
  "demo_limb t = \<lparr>l_term = t, l_limb = 0, l_share = \<lparr>ts_level = 1, ts_shares = [0]\<rparr>, l_next_use = 0, l_last_use = 0, l_dead = False\<rparr>"

definition demo_program :: "LimbInstruction list" where
  "demo_program =
     [InpLimb (demo_limb 0) 0,
      UnOpLimb LNeg (demo_limb 1) (demo_limb 0) 0 0,
      UnOpLimb LNtt (demo_limb 2) (demo_limb 0) 0 0,
      UnOpLimb LRot (demo_limb 3) (demo_limb 0) 4 0,
      BinOpLimb LAdd (demo_limb 4) (demo_limb 2) (demo_limb 3) 0,
      BinOpLimb LMul (demo_limb 5) (demo_limb 4) (demo_limb 1) 0]"

definition demo_machine :: "int machine" where
  "demo_machine = \<lparr>m_alu = (\<lambda>op rot b vs. case op of LNeg \<Rightarrow> - (vs ! 0) | LNtt \<Rightarrow> 3 * vs ! 0 | LRot \<Rightarrow> vs ! 0 + rot
       | LAdd \<Rightarrow> vs ! 0 + vs ! 1 | LMul \<Rightarrow> vs ! 0 * vs ! 1 | _ \<Rightarrow> vs ! 0),
     m_convert = (\<lambda>b ws. sum_list (List.map (\<lambda>(i, intt, v). v) ws)), m_resolve = (\<lambda>bases b k v old. old + v),
     m_resolve_init = 0, m_mod = (\<lambda>b vs. sum_list vs), m_arriving = (\<lambda>k b. 0), m_received = (\<lambda>sync sz. 0), m_joined = (\<lambda>sync sz v. v)\<rparr>"

definition demo_inputs :: "limb_name \<Rightarrow> int option" where
  "demo_inputs k = (if k = (0, 0) then Some 7 else None)"

text \<open>The finished code, with the spill in fourth place.\<close>

definition demo_mark :: "nat \<Rightarrow> nat \<Rightarrow> nat \<Rightarrow> bool \<Rightarrow> Limb" where
  "demo_mark t u n d = demo_limb t\<lparr>l_next_use := u, l_last_use := n, l_dead := d\<rparr>"

abbreviation vr :: "nat \<Rightarrow> Register" where "vr \<equiv> vector_register"
abbreviation vd :: "nat \<Rightarrow> Register" where "vd i \<equiv> mark_dead (vector_register i)"

definition demo_plain :: "ISAInstruction list" where
  "demo_plain =
     [LoadISA False (vr 0) (demo_mark 0 0 0 False) False False,
      UnOpISA INeg (vr 1) (vr 0) 0 0,
      StoreISA (demo_mark 1 4 0 False) (vr 1) True,
      UnOpISA INtt (vr 2) (vr 0) 0 0,
      UnOpISA IRot (vr 1) (vr 0) 4 0,
      BinOpISA IAdd (vr 0) (vr 2) (vr 1) 0,
      LoadISA False (vr 2) (demo_mark 1 4 4 False) False False,
      BinOpISA IMul (vr 1) (vr 0) (vr 2) 0,
      StoreISA (demo_mark 5 never 4 False) (vr 1) False]"

definition demo_code :: "ISAInstruction list" where
  "demo_code =
     [LoadISA False (vr 0) (demo_mark 0 0 0 False) False True,
      UnOpISA INeg (vr 1) (vr 0) 0 0,
      StoreISA (demo_mark 1 4 0 False) (vd 1) True,
      UnOpISA INtt (vr 2) (vr 0) 0 0,
      UnOpISA IRot (vr 1) (vd 0) 4 0,
      BinOpISA IAdd (vr 0) (vd 2) (vd 1) 0,
      LoadISA False (vr 2) (demo_mark 1 4 4 False) False True,
      BinOpISA IMul (vr 1) (vd 0) (vd 2) 0,
      StoreISA (demo_mark 5 never 4 False) (vd 1) False]"

lemmas demo_defs = demo_program_def demo_limb_def demo_terms_def demo_term_def



lemma demo_analysis:
  "do_next_use_analysis demo_terms demo_program =
     [UnOpLimb LNeg (demo_mark 1 4 0 False) (demo_mark 0 1 0 False) 0 0,
      UnOpLimb LNtt (demo_mark 2 3 1 False) (demo_mark 0 2 1 False) 0 0,
      UnOpLimb LRot (demo_mark 3 3 2 False) (demo_mark 0 0 2 True) 4 0,
      BinOpLimb LAdd (demo_mark 4 4 3 False) (demo_mark 2 0 3 True) (demo_mark 3 0 3 True) 0,
      BinOpLimb LMul (demo_mark 5 never 4 False) (demo_mark 4 0 4 True) (demo_mark 1 0 4 True) 0]"
  by (simp add: demo_defs do_next_use_analysis_def last_uses_def last_use_step_def is_Inp_def next_use_step_def mark_src_def
      mark_polys_def mark_dest_def drop_dest_def limb_key_def never_def demo_mark_def)

lemmas allocation_defs = process_instruction_def load_src_def take_register_def take_vector_def note_input_def note_io_limb_def
  note_io_def note_write_def note_read_def push_code_def place_dest_def place_conversion_def limb_or_bcu_def lm_at_def unop_opcode_def
  binop_opcode_def release_limb_def lm_erase_def finish_limb_dest_def free_register_def spill_def evict_vector_def evict_limb_def
  vector_candidates_def take_later_def choose_vector_def u64_sub_def u64_mul_def iterate_def is_generated_def reg_key_def
  vector_register_def scalar_register_def limb_key_def


lemma demo_start: "mk_RegisterAllocator 3 io sy =
    \<lparr>ra_code = [], ra_next = 0, ra_map = [], ra_last_write = (\<lambda>_. None), ra_last_read = (\<lambda>_. None),
      ra_last_use = (\<lambda>_. None), ra_vector_free = [vector_register 0, vector_register 1, vector_register 2],
      ra_scalar_free = List.map scalar_register [0..<32], ra_bcu_free = [0, 1], ra_bcu_map = (\<lambda>_. None),
      ra_poly_map = (\<lambda>_. None), ra_cells = (\<lambda>_. {}), ra_instructions = 0, ra_io_limbs = io,
      ra_io_local = (\<lambda>_. None), ra_symbols = sy\<rparr>"
  by (simp add: mk_RegisterAllocator_def upt_rec [of _ 3] numeral_2_eq_2)

lemma demo_allocation:
  "\<exists>A. foldr_res (process_instruction demo_terms (\<lambda>m. m)) (do_next_use_analysis demo_terms demo_program)
      (mk_RegisterAllocator 3 io sy) = Inr A \<and> List.map snd (ra_code A) = demo_plain"
  unfolding demo_analysis demo_start
  by (simp add: allocation_defs demo_defs demo_mark_def demo_plain_def Let_def never_def)

lemma demo_finish: "fst (finish_pass demo_terms demo_plain) = demo_code"
  by (simp add: demo_plain_def demo_code_def finish_load_def demo_defs demo_mark_def limb_key_def reg_key_def vector_register_def
      mark_dead_def Collect_conv_if insert_Diff_if)

lemma demo_result: "\<exists>A. allocate_registers demo_terms (\<lambda>m. m) 3 io sy demo_program = Inr (demo_code, A)"
proof -
  obtain A where A: "foldr_res (process_instruction demo_terms (\<lambda>m. m)) (do_next_use_analysis demo_terms demo_program)
      (mk_RegisterAllocator 3 io sy) = Inr A" "List.map snd (ra_code A) = demo_plain" using demo_allocation by blast
  then show ?thesis by (simp add: allocate_registers_def finish_def demo_finish)
qed

section \<open>The allocator\<close>

text \<open>
  C1. For every limb program that runs, the code that the next use analysis, the allocator and its
  last pass give leaves the same events and stored outputs in the same order, whatever the
  operations compute, however many registers there are and in whatever order the table is visited.
\<close>

theorem allocation_preserves_program:
  assumes "terms_wf T" "\<forall>i \<in> set P. unmarked i" "allocate_registers T order num_vregs io symbols P = Inr (code, A)"
    and "limb_program_trace T M inputs P = Some trace"
  shows "isa_program_trace T M inputs code = Some trace"
proof -
  have A: "foldr_res (process_instruction T order) (do_next_use_analysis T P) (mk_RegisterAllocator num_vregs io symbols) = Inr A"
    and code: "code = fst (finish_pass T (isa_code A))"
    using assms(3) by (auto simp: allocate_registers_def finish_def isa_code_def bindr_Inr_iff)
  note al = allocated_code [OF assms(1,2,4) A]
  obtain s where s: "isa_run M inputs (isa_code A) (isa_start T inputs) = Some s" "is_trace s = trace"
    using al(1) by (auto simp: isa_program_trace_def)
  obtain t where "isa_run M inputs code (isa_start T inputs) = Some t" "is_trace t = is_trace s"
    using finish_correct [OF al(2,3) s(1), of T] code by blast
  then show ?thesis using s(2) by (simp add: isa_program_trace_def)
qed

theorem allocation_preserves_program_witness:
  "isa_program_trace demo_terms demo_machine demo_inputs demo_code = Some [Stored (5, 0) (- 224)]"
proof -
  obtain A where A: "allocate_registers demo_terms (\<lambda>m. m) 3 (\<lambda>_. None) (\<lambda>_. []) demo_program = Inr (demo_code, A)"
    using demo_result by blast
  have "limb_program_trace demo_terms demo_machine demo_inputs demo_program = Some [Stored (5, 0) (- 224)]"
    by (simp add: limb_program_trace_def limb_start_def demo_defs demo_machine_def demo_inputs_def limb_step_def limb_reads_def limb_read_def
        limb_write_def note_converted_def limb_key_def is_Inp_def)
  with A show ?thesis
    by (rule allocation_preserves_program [rotated 2]) (auto simp: terms_wf_def unmarked_def demo_defs)
qed

text \<open>
  C8. When no instruction names a limb twice, the code names registers of the machine only: vector
  registers below the number given, the 32 scalar registers, the two base conversion units.
\<close>

theorem code_fits_machine:
  assumes "\<forall>i \<in> set P. unmarked i \<and> reads_once i" "allocate_registers T order num_vregs io symbols P = Inr (code, A)"
  shows "list_all (isa_fits num_vregs) code"
proof -
  have A: "foldr_res (process_instruction T order) (do_next_use_analysis T P) (mk_RegisterAllocator num_vregs io symbols) = Inr A"
    and code: "code = fst (finish_pass T (isa_code A))"
    using assms(2) by (auto simp: allocate_registers_def finish_def isa_code_def bindr_Inr_iff)
  obtain c live loaded where f: "finish_pass T (isa_code A) = (c, live, loaded)" by (metis prod_cases3)
  have "\<forall>i \<in> set (isa_code A). isa_fits num_vregs i" using withinD(8) [OF allocated_fits [OF assms(1) A]] by blast
  from finish_pass_fits [OF f this] show ?thesis by (simp add: code f list_all_iff)
qed

theorem code_fits_machine_witness: "list_all (isa_fits 3) demo_code"
proof -
  obtain A where "allocate_registers demo_terms (\<lambda>m. m) 3 (\<lambda>_. None) (\<lambda>_. []) demo_program = Inr (demo_code, A)"
    using demo_result by blast
  then show ?thesis by (rule code_fits_machine [rotated]) (simp add: demo_defs unmarked_def reads_once_def limb_key_def)
qed

section \<open>The next use analysis\<close>

text \<open>
  C9. When no instruction names a limb twice, each limb operand has as next use its next reader
  before a write, each polynomial operand its next user, or is marked dead when there is none, but
  an output destination then has no next use and is not dead; the marks change nothing the program
  computes.
\<close>

theorem next_use_marks_exact:
  assumes "\<forall>i \<in> set P. unmarked i \<and> reads_once i"
  shows "marks_exact T 0 (do_next_use_analysis T P) \<and>
    limb_program_trace T M inputs (do_next_use_analysis T P) = limb_program_trace T M inputs P"
  using assms analysis_exact analysis_run by blast

theorem next_use_marks_exact_witness:
  "marks_exact demo_terms 0 (do_next_use_analysis demo_terms demo_program) \<and>
   limb_program_trace demo_terms demo_machine demo_inputs (do_next_use_analysis demo_terms demo_program) =
     limb_program_trace demo_terms demo_machine demo_inputs demo_program"
  by (rule next_use_marks_exact) (simp add: demo_defs unmarked_def reads_once_def limb_key_def)

end
