(* ===== verification/Spec2Isabelle.thy ===== *)
theory Spec2Isabelle
  imports Machine Dispatch HlsKernelProperties KeySwitchProperties RegisterProperties
begin

text \<open>
  Verification library of the Cinnamon scale-out framework for encrypted computing.

  \<^bold>\<open>The program.\<close> Cinnamon compiles programs over CKKS ciphertexts to one instruction trace per
  chip (\<open>src/CinnamonCompiler\<close>), checks them with an emulator (\<open>src/CinnamonEmulator\<close>), and runs the
  traces on a cycle-level simulator of a multi-chip accelerator, written as elements of the SST
  framework (\<open>src/CinnamonSimulator/custom-elements/cinnamon/src\<close>, below \<open>S\<close>). A second back end executes the
  instructions on FPGA kernels written for high-level synthesis (\<open>src/CinnamonHLS\<close>, below \<open>H\<close>).
  The library models the simulator, the kernels, and of the compiler (\<open>src/CinnamonCompiler/cinnamon/backend\<close>,
  below \<open>B\<close>) the choice of key switching bases and everything after the limb program of a chip: next use
  analysis and register allocation. Each cycle, \<open>CinnamonAccelerator::tick\<close> ticks every chip and then the network. A chip
  fetches parsed instructions from its trace reader, renames their registers, puts the dispatched
  instructions on issue queues, and the queues reserve intervals of cycles on functional units. A
  unit starts an instruction when its interval starts and completes it some cycles later, which
  releases its registers. Loads and stores go through the memory unit, values of other chips through
  the distribute queue and the network.

  \<^bold>\<open>Theories, in the order of the imports.\<close>
  \<^item> \<open>Prelude\<close>: results (\<open>sim_error + 'a\<close>: every assert, throw and fatal of the code is an \<open>Inl\<close>),
    monadic folds, lists as queues.
  \<^item> \<open>Opcode\<close> (\<open>S/opcode.h\<close>, \<open>S/opcode.cc\<close>, \<open>S/readers/reader.h\<close>): opcodes, their names, parsed
    instructions.
  \<^item> \<open>Intervals\<close> (\<open>S/utils/utils.h\<close>): the calendar of a unit, a \<open>std::set\<close> of intervals ordered by
    \<open>operator<\<close>, with the locale \<open>calendar_spec\<close> of what a calendar promises.
  \<^item> \<open>Registers\<close> (\<open>S/physicalRegister.h\<close>, \<open>S/baseConversionRegister.h\<close>): registers are entries of a
    register file, pointers are their indices; reference counts, ready flags, free lists.
  \<^item> \<open>Instruction\<close> (\<open>S/instruction.h\<close>): a constructor per class; readiness, completion, splitting.
    Its lemmas say which references an instruction holds, on physical and on base conversion
    registers, that completing it releases them, and that a split hands them to the parts: all but
    the second destination of an \<open>Ntt\<close>, which the code drops (\<open>dropped_regs\<close>).
  \<^item> \<open>FunctionalUnit\<close>, \<open>Queues\<close>, \<open>DisQueue\<close> (\<open>S/functionalUnit.h\<close>, \<open>S/functionalUnit.cc\<close>): units, the
    eleven issue queues, the distribute queue. \<open>issue_queue\<close> is the locale of what a queue's attempt
    to issue promises (it keeps the units in order, moves one instruction from the queue to a unit,
    leaves the rest), interpreted on the attempt of every queue.
  \<^item> \<open>MemoryUnit\<close> (\<open>S/memoryUnit.cc\<close>): queues, two request slots, packets, responses, aliases.
  \<^item> \<open>Network\<close> (\<open>S/network.cc\<close>): synchronisation operations and output buffers.
  \<^item> \<open>Regex\<close>, \<open>TextReader\<close> (\<open>S/readers/textreader.cc\<close>): what the reader uses of \<open>std::string\<close> and
    \<open>std::regex\<close>, and the reader.
  \<^item> \<open>Rename\<close>, \<open>Chip\<close>, \<open>Dispatch\<close> (\<open>S/chip.cc\<close>): rename maps, construction, dispatch, the cycle.
  \<^item> \<open>ChipInvariant\<close>, \<open>ChipProgress\<close>: the invariant of a chip across a cycle (locale \<open>safe_queue\<close>,
    interpreted on all queues), and totality of the queues' cycle: \<open>units_total\<close> is the state of the
    units, \<open>queues_valid\<close> what the queues hold, of the kind each accepts.
  \<^item> \<open>Accelerator\<close>, \<open>Machine\<close> (\<open>S/accelerator.cc\<close>): the machine and its reachable states, an inductive
    relation over cycles, memory responses, network deliveries and timers in any order.

  \<^item> \<open>HlsArith\<close> (\<open>H/include/cinnamon_hls\<close>, \<open>H/kernels/kernel_common.hpp\<close>): modular arithmetic,
    inverses, Montgomery form; instruction decoding, the stream table, operands, registers, the trace.
  \<^item> \<open>HlsRoots\<close>, \<open>HlsNtt\<close>, \<open>HlsDft\<close>, \<open>HlsNegacyclic\<close> (\<open>H/kernels/generated_ntt_tables.hpp\<close>,
    \<open>H/kernels/kernel_common.hpp\<close>): the root table with a checked certificate per row; the four-step
    transform; the proof that it is the discrete Fourier transform; bit reversal, twisting, and the
    proof that the negacyclic transform multiplies polynomials. \<open>HlsProperties\<close> states the results.
  \<^item> \<open>HlsPerm\<close> (\<open>H/kernels/kernel_common.hpp\<close>): Galois permutations, Benes network, transposes; the
    permutation of transformed values is the Galois automorphism of the polynomial.
  \<^item> \<open>HlsPayload\<close>, \<open>HlsKernels\<close> (\<open>H/kernels/kernel_payload_common.hpp\<close>, \<open>H/kernels/kernel_*_module.hpp\<close>):
    the control block that the kernels share, and the six kernels: a step per instruction, the loop,
    the entry point. \<open>HlsStore\<close>: blocks and handles, and the locale \<open>block_unit\<close> (an instruction puts
    its values under a new handle and leaves the others alone), interpreted on four kernels.
    \<open>HlsRun\<close>: whole calls and their composition. \<open>HlsSafe\<close>: memory safety, with the locale
    \<open>safe_kernel\<close> interpreted on five kernels; the one overflow left is the negation of the least
    rotation step. \<open>HlsKernelProperties\<close> states the results.

  \<^item> \<open>KeySwitch\<close>, \<open>KeySwitchProperties\<close> (\<open>B/keyswitch_digits.h\<close>, \<open>B/terms.h\<close>, \<open>B/cinnamon_compiler.h\<close>):
    the digits of a key switch and its extension.
  \<^item> \<open>LimbProgram\<close> (\<open>B/limb.h\<close>, \<open>B/limb_instruction.h\<close>, \<open>B/cinnamon_compiler.h\<close>): limbs, limb
    instructions, next use analysis. \<open>RegisterAllocation\<close> (\<open>B/register_allocation.h\<close>,
    \<open>B/isa_instruction.h\<close>): the allocator, from the evictions to the last pass.
    \<open>RegisterSemantics\<close> says what limb programs and register programs compute, the specification of the
    allocator: a simulation from the one to the other.
  \<^item> \<open>RegisterInvariant\<close>, \<open>RegisterSteps\<close>, \<open>RegisterGroups\<close>, \<open>RegisterProcess\<close>: the invariant between
    the state of the allocator, the code so far and the state of the limb program; what each operation
    does to it, with the locale \<open>evictor\<close> (an eviction evicts an entry of the table) interpreted on both
    evictions; the registers of resolved polynomials; one limb instruction. \<open>NextUse\<close>: the analysis
    marks what it should, and the run over a whole program. \<open>RegisterFinish\<close>: the last pass.
    \<open>RegisterBounds\<close>: the code keeps to the registers of the machine.
    \<open>RegisterProperties\<close> states the results.

  \<^bold>\<open>Representation.\<close> Cycles and addresses are natural numbers: a run does not reach \<open>2 ^ 64\<close>
  cycles. Narrow counters are kept at their width where the code relies on it: 16-bit reference
  counts of registers (signed) and of base conversion registers (unsigned), 8 and 16-bit identifiers
  of the reader, the unsigned comparison of \<open>incrementReadyCount\<close>. A queue is a list with its front
  first. Log output is not modelled. Vector depth \<open>V\<close> and latencies are arguments. An error ends the
  run, so a later state exists only after an \<open>Inr\<close>. The flags of a limb belong to its term, which limbs
  share through a pointer, so they are looked up in an assignment of terms. Iterators into the list of
  emitted instructions are numbers of instructions. The order in which the allocator visits its
  unordered table is an argument, and what the operations do to values is another (\<open>machine\<close>).

  \<^bold>\<open>Bounds and fuel.\<close> The repetition of a regular expression is bounded by the length of the rest of
  the string, which suffices as each round of the loop must consume a character. The loops over a
  comma-separated list are bounded by the length of the string for the same reason. No other
  definition has fuel.

  \<^bold>\<open>Properties.\<close> Every property is marked with its identifier C1, C2, ... in the text before it. The
  first say that the register allocator keeps what a program computes, and are about every reachable
  state of the machine or every cycle of a chip's queues; the next say what each component and each kernel does; the last state, as theorems, behaviour that looks
  unintended, each of which is also a finding of the manifest.

  \<^bold>\<open>Not modelled.\<close> The front end of the compiler and its expansion of ciphertext operations to limb
  instructions (the limb program is the input of the model), the eviction by last use, which constants of the
  class switch off, and the printing of the traces; the emulator; the dispatch and
  transpose modules and the stream units of the kernels; the RTL; SST itself, whose events and links appear as the lists of what was sent; statistics that are only
  printed; \<open>eraseIntervalsEndingBefore\<close>, which does not compile and is never instantiated;
  \<open>S/utils/allocator.h\<close>; the dead code after line 1013 of \<open>S/instruction.h\<close>.
\<close>
section \<open>The accelerator\<close>

definition small_params :: chip_params where
  "small_params = \<lparr>cp_vectorRegs = 4, cp_add = 1, cp_mul = 1, cp_ntt = 1, cp_rot = 1, cp_tra = 1,
     cp_bcu = 1, cp_bcuBuffs = 1, cp_evg = 1, cp_usePRNG = True, cp_requestWidth = 1024\<rparr>"

text \<open>
  C2. In every state the accelerator can reach, each functional unit's calendar is strictly
  ordered and disjoint, and a unit's begin of cycle fails for no reason other than an instruction
  whose operands are not ready when its reserved slot starts.
\<close>

theorem accel_no_double_booking:
  assumes "accel_reach V p traces now a" "c \<in> set (ac_chips a)" "u \<in> set (sc_fus (ch_sched c))"
  shows "(\<forall>i j. i < j \<longrightarrow> j < length (fu_res u) \<longrightarrow> iend (fu_res u ! i) < istart (fu_res u ! j)) \<and>
    (\<forall>rf e. fu_begin V now rf u = Inl e \<longrightarrow>
       (\<exists>i. starts now u i \<and> allOperandsReady rf i \<noteq> Inr True))"
proof -
  have inv: "fu_inv now u" by (rule reach_unit_inv [OF assms])
  then have "ivs_ok (fu_res u)" by (simp add: fu_inv_def)
  then show ?thesis using ivs_ok_disjoint fu_begin_fails [OF inv] by blast
qed

definition small_latencies :: latencies where
  "small_latencies = projr (accel_latencies 2)"

definition small_chip :: chip where
  "small_chip = mk_chip 2 small_latencies small_params 0 []"

lemma small_latencies: "accel_latencies 2 = Inr small_latencies"
  by (simp add: small_latencies_def accel_latencies_def Let_def)

lemma small_accel: "mk_accel 2 small_params [[]] =
   Inr \<lparr>ac_V = 2, ac_lat = small_latencies, ac_chips = [small_chip], ac_net = mk_network 1\<rparr>"
  by (simp add: mk_accel_def small_latencies small_chip_def)

definition small_unit :: fu where
  "small_unit = mk_fu (lat_Add small_latencies) 2"

lemma small_unit: "small_unit \<in> set (sc_fus (ch_sched small_chip))"
  by (simp add: small_unit_def small_chip_def mk_chip_def mk_units_def small_params_def)

theorem accel_no_double_booking_witness:
  "small_unit \<in> set (sc_fus (ch_sched small_chip)) \<and> \<not> (\<exists>rf e. fu_begin 2 1 rf small_unit = Inl e)"
proof -
  have "\<not> starts 1 small_unit i" for i by (simp add: starts_def small_unit_def mk_fu_def)
  then show ?thesis
    using accel_no_double_booking [OF power_on [OF small_accel, of 1], of small_chip small_unit]
      small_unit by auto
qed

text \<open>
  C4. In every reachable state the memory unit's begin of cycle succeeds and keeps the
  instructions it holds, and a response to an outstanding packet removes exactly that packet and
  completes its request when it was the last.
\<close>

theorem accel_memory_sound:
  assumes "accel_reach V p traces now a" "0 < cp_requestWidth p" "c \<in> set (ac_chips a)"
  shows "(\<exists>m. mem_begin now rf (ch_mem c) = Inr m \<and> mem_held m = mem_held (ch_mem c)) \<and>
    (\<forall>rid slot t. mu_out (ch_mem c) rid = Some slot \<longrightarrow>
       (\<exists>m. handleResponse t rid (ch_mem c) = Inr m \<and>
          outstanding m slot = outstanding (ch_mem c) slot - {rid} \<and>
          (mq_resp (mu_reqs m ! slot) \<longleftrightarrow> outstanding (ch_mem c) slot = {rid})))"
proof -
  have inv: "mem_inv (ch_mem c)" by (rule reach_mem_inv [OF assms])
  show ?thesis using mem_begin_ok [OF inv, of now rf] handleResponse_ok [OF inv] by blast
qed

theorem accel_memory_sound_witness:
  "\<exists>m. mem_begin 1 (ch_rf small_chip) (ch_mem small_chip) = Inr m \<and>
     mem_held m = mem_held (ch_mem small_chip)"
  using accel_memory_sound [OF power_on [OF small_accel, of 1], of small_chip "ch_rf small_chip"]
  by (simp add: small_params_def)

text \<open>
  C3. With ready units, two or more cycles per vector and queued instructions of their queue's
  kind on existing registers (a readable conversion register has its unit), all eleven queues tick
  in order without error; each register reference stays queued or booked, but a fused NTT's second
  destination.
\<close>

theorem queues_tick_total:
  assumes "units_total V lat now u s" "queues_valid (sc_rf s) q"
  shows "\<exists>q' s'. tick_queues V lat now u q s = Inr (q', s') \<and> units_total V lat now u s' \<and>
    rf_kept (sc_rf s) (sc_rf s') \<and> subseq (queued q') (queued q) \<and>
    (\<forall>r. valid_reg (sc_rf s) r \<longrightarrow>
       held_booked s' r + kept_all (queued q') r = held_booked s r + kept_all (queued q) r) \<and>
    (\<forall>b. bc_held_booked s' b + bc_held_all (queued q') b =
       bc_held_booked s b + bc_held_all (queued q) b)"
  by (rule tick_queues_total [OF assms])

definition small_queues :: queues where
  "small_queues = \<lparr>q_add = [BinOp Add (RV 0) (RV 1) (RV 2) 7], q_mul = [], q_rot = [], q_evg = [EvgI EvkGen (RV 3) 0],
     q_ntt = [], q_sud = [], q_bci = [], q_bcw = [], q_pl1 = [], q_rsv = [], q_mod = []\<rparr>"

lemma small_rf: "ch_rf small_chip = mk_regfile small_params" "ch_units small_chip = mk_unit_table small_params"
  by (simp_all add: small_chip_def mk_chip_def)

theorem queues_tick_total_witness:
  "\<exists>q' s'. tick_queues 2 small_latencies 1 (ch_units small_chip) small_queues (ch_sched small_chip) =
     Inr (q', s') \<and> subseq (queued q') (queued small_queues)"
proof -
  have "units_total 2 small_latencies 1 (ch_units small_chip) (ch_sched small_chip)"
    using mk_chip_total [OF small_latencies, of 1 small_params 0 "[]"]
    by (simp add: small_rf) (simp add: small_chip_def)
  moreover have "queues_valid (ch_rf small_chip) small_queues"
    by (simp add: queues_valid_def queued_def small_queues_def ops_valid_def small_rf valid_reg_def
        mk_regfile_def small_params_def)
  ultimately show ?thesis
    using queues_tick_total [of 2 small_latencies 1 "ch_units small_chip" "ch_sched small_chip" small_queues]
    by blast
qed

theorem fresh_chip_ready:
  assumes "accel_latencies V = Inr lat" "2 \<le> V"
  shows "units_total V lat now (ch_units (mk_chip V lat p k tr)) (ch_sched (mk_chip V lat p k tr))"
  using mk_chip_total [OF assms, of now p k tr] by (simp add: mk_chip_def)

theorem fresh_chip_ready_witness:
  "units_total 2 small_latencies 1 (ch_units small_chip) (ch_sched small_chip)"
  using fresh_chip_ready [OF small_latencies] by (simp add: small_chip_def)

theorem depth_one_throws:
  assumes "allOperandsReady (sc_rf s) i = Inr True"
  shows "AddQueue_tick 1 now us (i # q) s = Inl InvalidArgument"
  using assms by (simp add: AddQueue_tick_def issue_single_def mk_interval_def)

theorem depth_one_throws_witness:
  "AddQueue_tick 1 3 [0] [EvgI EvkGen (RV 0) 0] (ch_sched small_chip) = Inl InvalidArgument"
  by (rule depth_one_throws) simp

section \<open>Calendars\<close>

definition cycles :: "'a calendar \<Rightarrow> nat set" where
  "cycles xs = (\<Union>iv \<in> set xs. {istart iv..iend iv})"

lemma cycles_overlap: "ivl_ok iv \<Longrightarrow> ivs_ok xs \<Longrightarrow>
    (\<exists>x \<in> set xs. clash x iv) \<longleftrightarrow> cycles xs \<inter> {istart iv..iend iv} \<noteq> {}"
proof
  assume ok: "ivl_ok iv" "ivs_ok xs"
  assume "\<exists>x \<in> set xs. clash x iv"
  then obtain x where x: "x \<in> set xs" "istart x \<le> iend iv" "istart iv \<le> iend x"
    by (auto simp: clash_def)
  with ok have "max (istart x) (istart iv) \<in> {istart x..iend x} \<inter> {istart iv..iend iv}"
    by (auto simp: ivs_ok_def ivl_ok_def)
  moreover from this x(1) have "max (istart x) (istart iv) \<in> cycles xs" by (auto simp: cycles_def intro!: bexI [OF _ x(1)])
  ultimately show "cycles xs \<inter> {istart iv..iend iv} \<noteq> {}" by blast
qed (auto simp: cycles_def clash_def, meson order_trans)

text \<open>
  C20. A calendar implements a set of busy cycles: hasOverlap is a test of intersection, and an
  insertion without overlap adds exactly the cycles of the interval and keeps the calendar well
  formed.
\<close>

theorem calendar_refines_cycles:
  assumes "ivs_ok xs" "ivl_ok iv"
  shows "(hasOverlap xs iv \<longleftrightarrow> cycles xs \<inter> {istart iv..iend iv} \<noteq> {}) \<and>
    (\<not> hasOverlap xs iv \<longrightarrow> ivs_ok (ivs_insert iv xs) \<and>
       cycles (ivs_insert iv xs) = cycles xs \<union> {istart iv..iend iv} \<and>
       mset (ivs_insert iv xs) = add_mset iv (mset xs)) \<and>
    (hasOverlap xs iv \<longrightarrow> ivs_insert iv xs = xs)"
proof -
  have "hasOverlap xs iv \<longleftrightarrow> cycles xs \<inter> {istart iv..iend iv} \<noteq> {}"
    using assms by (simp add: hasOverlap_iff cycles_overlap)
  moreover have "cycles (ivs_insert iv xs) = cycles xs \<union> {istart iv..iend iv}" if "\<not> hasOverlap xs iv"
    using set_ivs_insert [OF that] by (auto simp: cycles_def)
  ultimately show ?thesis
    using ivs_insert_ok [OF assms] mset_ivs_insert [of xs iv]
    by (auto simp: ivs_insert_def hasOverlap_def)
qed

theorem calendar_refines_cycles_witness:
  "\<not> hasOverlap [Interval 1 2 (Some CHR ''a''), Interval 8 9 None] (Interval 4 7 None) \<and>
   ivs_insert (Interval 4 7 None) [Interval 1 2 (Some CHR ''a''), Interval 8 9 None] =
     [Interval 1 2 (Some CHR ''a''), Interval 4 7 None, Interval 8 9 None] \<and>
   cycles (ivs_insert (Interval 4 7 None) [Interval 1 2 (Some CHR ''a''), Interval 8 9 None]) =
     cycles [Interval 1 2 (Some CHR ''a''), Interval 8 9 None] \<union> {4..7}"
proof -
  let ?xs = "[Interval 1 2 (Some CHR ''a''), Interval 8 9 None]" and ?iv = "Interval 4 7 None"
  have ok: "ivs_ok ?xs" "ivl_ok ?iv" by (simp_all add: ivs_ok_def ivl_ok_def)
  show ?thesis using calendar_refines_cycles [OF ok]
    by (auto simp: hasOverlap_def ivs_find_def ivs_insert_def)
qed

section \<open>Units, instructions and registers\<close>

text \<open>
  C21. Every state of a functional unit reached by its own operations keeps its invariant, so that
  the check at the begin of a cycle fails only for an instruction that is not ready.
\<close>

theorem unit_never_overbooked:
  assumes "fu_reach V now u"
  shows "fu_inv now u \<and> (\<forall>rf e. fu_begin V now rf u = Inl e \<longrightarrow>
    (\<exists>i. starts now u i \<and> allOperandsReady rf i \<noteq> Inr True))"
  using fu_reach_inv [OF assms] fu_begin_fails by blast

theorem unit_never_overbooked_witness:
  "\<exists>u. fu_reach 2 1 u \<and> fu_res u = [Interval 1 2 (Some NoOp)] \<and> fu_inv 1 u \<and>
     (\<forall>rf e. fu_begin 2 1 rf u = Inl e \<longrightarrow> (\<exists>i. starts 1 u i \<and> allOperandsReady rf i \<noteq> Inr True))"
proof -
  let ?iv = "Interval 1 2 (Some NoOp)" and ?u = "mk_fu 1 2"
  let ?v = "?u\<lparr>fu_res := [?iv]\<rparr>"
  have "addReservation ?iv ?u = Inr ?v" "isIntervalReservable ?u ?iv"
    by (simp_all add: addReservation_def hasOverlap_def ivs_insert_def mk_fu_def isIntervalReservable_def)
  then have "fu_reach 2 1 ?v"
    by - (rule fu_reach.reserve [OF fu_reach.fresh [of 2 1 1 2], of ?iv],
        simp_all add: ivl_ok_def mk_fu_def)
  from this unit_never_overbooked [OF this] show ?thesis by (intro exI [of _ ?v]) simp
qed

theorem countdown_exact:
  assumes "\<forall>(i, c) \<in> set xs. 1 \<le> c"
  shows "tick_busy xs rf =
     bindr (foldr_res setExecutionComplete (map fst (filter (\<lambda>(i, c). c = 1) xs)) rf) (\<lambda>rf'.
       Inr (map (\<lambda>(i, c). (i, c - 1)) (filter (\<lambda>(i, c). c \<noteq> 1) xs), rf'))"
  by (rule tick_busy_spec [OF assms])

theorem countdown_exact_witness:
  "tick_busy [(NoOp, 3), (NoOp, 1)] (mk_regfile small_params) =
     Inr ([(NoOp, 2)], mk_regfile small_params)"
  using countdown_exact [of "[(NoOp, 3), (NoOp, 1)]" "mk_regfile small_params"] by simp


definition busy_regs :: regfile where
  "busy_regs = (mk_regfile small_params)\<lparr>rf_v := [(new_phys_reg Vector 0)\<lparr>pr_refs := 2\<rparr>,
     (new_phys_reg Vector 1)\<lparr>pr_refs := 1\<rparr>, (new_phys_reg Vector 2)\<lparr>pr_refs := 1\<rparr>], rf_freeV := []\<rparr>"



text \<open>
  C22. splitInstruction of an NTT, INTT, SUD or PL1 gives parts that hold the references of the
  whole on physical and base conversion registers, but for the second destination of an NTT, which
  no part holds; each forwarding register it makes is counted once per part that uses it.
\<close>

theorem split_keeps_references:
  assumes "compound i" "\<forall>r \<in> set (held_regs i). valid_reg rf r"
  shows "\<exists>parts rf'. splitInstruction i rf = Inr (parts, rf') \<and>
    (\<forall>r. valid_reg rf r \<longrightarrow> get_reg rf' r = get_reg rf r \<and>
       held_all parts r = held i r - int (count_list (dropped_regs i) r)) \<and>
    (\<forall>r. valid_reg rf' r \<longrightarrow> \<not> valid_reg rf r \<longrightarrow> refs rf' r = held_all parts r) \<and>
    rf_b rf' = rf_b rf \<and> (\<forall>b. bc_held_all parts b = bc_held i b)"
proof -
  from split_conserves [OF assms] obtain parts rf' where "splitInstruction i rf = Inr (parts, rf')"
    "conserves (dropped_regs i) i rf parts rf'" by blast
  then show ?thesis
    by (intro exI [of _ parts] exI [of _ rf']) (auto simp: conserves_def)
qed

theorem split_keeps_references_witness:
  "(\<exists>parts rf'. splitInstruction (SuDI SuD (RV 0) (RV 1) (VB 0) 3) busy_regs = Inr (parts, rf') \<and>
     (\<forall>r. valid_reg rf' r \<longrightarrow> \<not> valid_reg busy_regs r \<longrightarrow> refs rf' r = held_all parts r)) \<and>
   (\<exists>parts rf'. splitInstruction (NttI Ntt (RV 0) (Some (RV 1)) (VB 0) 3) busy_regs = Inr (parts, rf') \<and>
     held_all parts (RV 0) = 1 \<and> held_all parts (RV 1) = 0)"
proof
  show "\<exists>parts rf'. splitInstruction (SuDI SuD (RV 0) (RV 1) (VB 0) 3) busy_regs = Inr (parts, rf') \<and>
     (\<forall>r. valid_reg rf' r \<longrightarrow> \<not> valid_reg busy_regs r \<longrightarrow> refs rf' r = held_all parts r)"
    using split_keeps_references [of "SuDI SuD (RV 0) (RV 1) (VB 0) 3" busy_regs]
    by (fastforce simp: busy_regs_def valid_reg_def)
  have "valid_reg busy_regs (RV 0)" "valid_reg busy_regs (RV 1)"
    by (simp_all add: busy_regs_def valid_reg_def)
  then show "\<exists>parts rf'. splitInstruction (NttI Ntt (RV 0) (Some (RV 1)) (VB 0) 3) busy_regs = Inr (parts, rf') \<and>
     held_all parts (RV 0) = 1 \<and> held_all parts (RV 1) = 0"
    using split_keeps_references [of "NttI Ntt (RV 0) (Some (RV 1)) (VB 0) 3" busy_regs]
    by (fastforce simp: held_def)
qed

theorem store_is_always_ready:
  "allOperandsReady rf (MemI op r a n q) = Inr True"
  by (rule mem_always_ready)

theorem bc_count_wraps:
  assumes "get_bc rf b = Inr x" "br_refs x = 0"
  shows "\<exists>rf'. bc_decReference b rf = Inr rf' \<and> brefs rf' b = 65535"
  using assms by (auto simp: bc_decReference_def u16_dec_def put_bc_def brefs_def get_bc_def split: if_splits)

theorem bc_count_wraps_witness: "\<exists>rf'. bc_decReference 0 busy_regs = Inr rf' \<and> brefs rf' 0 = 65535"
  by (rule bc_count_wraps [of _ _ "new_bc_reg 0"])
    (simp_all add: get_bc_def busy_regs_def mk_regfile_def numBcuVRegs_def new_bc_reg_def)

theorem vector_count_checked:
  assumes "get_reg rf r = Inr p" "pr_refs p = 0"
  shows "decReference r rf = Inl AssertFail"
  by (rule decReference_assert [OF assms])

theorem vector_count_checked_witness: "decReference (RS 0) busy_regs = Inl AssertFail"
  by (rule vector_count_checked [of _ _ "new_phys_reg Scalar 0"])
    (simp_all add: busy_regs_def mk_regfile_def numScalarRegs_def new_phys_reg_def)

section \<open>Renaming\<close>

lemma fresh_acct: "acct (\<lambda>_. 0) (mk_regfile p)"
  by (auto simp: acct_def cnt_ok_def mk_regfile_def names_def new_phys_reg_def)

text \<open>
  C24. Reading a mapped vector register that is not dead returns its physical register with one
  more reference and keeps the accounting of counts, free list and rename map.
\<close>

theorem rename_source:
  assumes "acct h rf" "rf_vmap rf v = Some i" "names rf i + h i < 32767"
  shows "\<exists>rf'. take_src (ParsedVec v False) rf = Inr (RV i, rf') \<and> acct (bump i 1 h) rf' \<and>
    rf_vmap rf' = rf_vmap rf"
  by (rule take_src_acct [OF assms])

lemma named_once: "\<exists>f rf. take_dest (ParsedVec 5 False) (mk_regfile small_params) = Inr (RV f, rf) \<and>
  acct (bump f 1 (\<lambda>_. 0)) rf \<and> rf_vmap rf = [5 \<mapsto> f] \<and> names rf f = 1 \<and> f < length (rf_v rf) \<and>
  bump f 1 (\<lambda>_. 0) f = 1"
proof -
  have "canMapToPhysicalRegister (mk_regfile small_params) (ParsedVec 5 False)"
    by (simp add: mk_regfile_def small_params_def)
  from take_dest_acct [OF fresh_acct this] obtain f rf where f:
    "take_dest (ParsedVec 5 False) (mk_regfile small_params) = Inr (RV f, rf)"
    "acct (bump f 1 (\<lambda>_. 0)) rf" "rf_vmap rf = (rf_vmap (mk_regfile small_params))(5 \<mapsto> f)" by blast
  have m: "rf_vmap rf = [5 \<mapsto> f]" using f(3) by (simp add: mk_regfile_def)
  then have "{v. rf_vmap rf v = Some f} = {5}" by auto
  then have "names rf f = 1" by (simp add: names_def)
  moreover have "f < length (rf_v rf)" using f(2) m by (auto simp: acct_def)
  ultimately show ?thesis using f m by (auto simp: bump_def)
qed

theorem rename_source_witness:
  "\<exists>rf i rf'. rf_vmap rf = [5 \<mapsto> i] \<and> take_src (ParsedVec 5 False) rf = Inr (RV i, rf') \<and>
     acct (bump i 1 (bump i 1 (\<lambda>_. 0))) rf'"
proof -
  obtain f rf where f: "acct (bump f 1 (\<lambda>_. 0)) rf" "rf_vmap rf = [5 \<mapsto> f]" "names rf f = 1"
    "bump f 1 (\<lambda>_. 0) f = 1" using named_once by blast
  show ?thesis using rename_source [OF f(1), of 5 f] f by auto
qed





text \<open>
  C37. When the only reference to a register is its name, a dead source operand puts the register
  on the free list while the instruction still holds it: the accounting is broken.
\<close>

theorem last_dead_use_is_free:
  assumes "acct h rf" "rf_vmap rf v = Some i" "names rf i + h i = 1"
  shows "\<exists>rf'. take_src (ParsedVec v True) rf = Inr (RV i, rf') \<and> refs rf' (RV i) = 1 \<and>
    i \<in> set (rf_freeV rf') \<and> (\<forall>h'. \<not> acct h' rf')"
  by (rule take_last_dead [OF assms])

theorem last_dead_use_is_free_witness:
  "\<exists>rf i rf'. rf_vmap rf = [5 \<mapsto> i] \<and> take_src (ParsedVec 5 True) rf = Inr (RV i, rf') \<and>
     refs rf' (RV i) = 1 \<and> i \<in> set (rf_freeV rf')"
proof -
  obtain f rf where f: "acct (bump f 1 (\<lambda>_. 0)) rf" "rf_vmap rf = [5 \<mapsto> f]" "names rf f = 1"
    "f < length (rf_v rf)" "bump f 1 (\<lambda>_. 0) f = 1" using named_once by blast
  obtain rf' where rf': "acct (bump f (- 1) (bump f 1 (\<lambda>_. 0))) rf'" "rf_vmap rf' = rf_vmap rf"
    using release_acct [OF f(1,4)] f(5) by auto
  have "names rf' f = 1" using f(2,3) rf'(2) by (simp add: names_def)
  then show ?thesis using last_dead_use_is_free [OF rf'(1), of 5 f] rf'(2) f(2,5)
    by (auto simp: bump_def)
qed

text \<open>
  C39. A register taken from the free list keeps the ready flag of its last use, so a new
  destination may be ready before it is written.
\<close>

theorem recycled_register_ready:
  assumes "acct h rf" "rf_vmap rf v = None" "rf_freeV rf = f # fs" "pr_ready (rf_v rf ! f)"
  shows "\<exists>rf'. take_dest (ParsedVec v dead) rf = Inr (RV f, rf') \<and> getValueReady rf' (RV f) = Inr True"
proof -
  have f: "f < length (rf_v rf)" using assms(1,3) by (auto simp: acct_def cnt_ok_def)
  show ?thesis using assms(2-4) f
    by (simp add: take_dest_def dropV_def inc_ptr_def Let_def incReference_def getValueReady_def)
qed

theorem recycled_register_ready_witness:
  "\<exists>rf'. take_dest (ParsedVec 5 False) ((mk_regfile small_params)\<lparr>rf_v :=
       map (\<lambda>i. (new_phys_reg Vector i)\<lparr>pr_ready := True\<rparr>) [0..<4]\<rparr>) = Inr (RV 0, rf') \<and>
     getValueReady rf' (RV 0) = Inr True"
proof -
  let ?rf = "(mk_regfile small_params)\<lparr>rf_v := map (\<lambda>i. (new_phys_reg Vector i)\<lparr>pr_ready := True\<rparr>) [0..<4]\<rparr>"
  have "acct (\<lambda>_. 0) ?rf"
    by (auto simp: acct_def cnt_ok_def mk_regfile_def names_def new_phys_reg_def small_params_def)
  moreover have "rf_vmap ?rf 5 = None" "pr_ready (rf_v ?rf ! 0)" "rf_freeV ?rf = 0 # [1..<4]"
    by (simp_all add: mk_regfile_def small_params_def new_phys_reg_def upt_conv_Cons)
  ultimately show ?thesis by (intro recycled_register_ready)
qed

theorem move_to_itself_fails:
  assumes "acct h rf" "rf_vmap rf v = Some i"
  shows "mapSrcToDest v v rf = Inl OutOfRange"
proof -
  have i: "i < length (rf_v rf)" "1 \<le> names rf i" using named_pos [OF assms] by auto
  have "pr_refs (rf_v rf ! i) = names rf i + h i" "0 \<le> h i" "names rf i + h i < 32768"
    using assms(1) i(1) by (auto simp: acct_def cnt_ok_def)
  with i have "get_reg rf (RV i) = Inr (rf_v rf ! i)" "1 \<le> pr_refs (rf_v rf ! i)"
    "pr_refs (rf_v rf ! i) < 32768" by simp_all
  then obtain rf' where "decReference (RV i) rf = Inr rf'"
    using decReference_ok [of rf "RV i"] by (auto simp: valid_reg_def refs_def)
  then show ?thesis using assms(2) i by (simp add: mapSrcToDest_def)
qed

theorem move_to_itself_fails_witness:
  "\<exists>rf i. rf_vmap rf = [5 \<mapsto> i] \<and> mapSrcToDest 5 5 rf = Inl OutOfRange"
proof -
  obtain f rf where f: "acct (bump f 1 (\<lambda>_. 0)) rf" "rf_vmap rf = [5 \<mapsto> f]" using named_once by blast
  show ?thesis using move_to_itself_fails [OF f(1), of 5 f] f(2) by auto
qed

section \<open>Memory and dispatch\<close>

text \<open>
  C28. The packets of a vector load cover every byte of the limb, start inside it, and are the
  least number of packets of the request width.
\<close>

theorem load_covers_bytes:
  assumes "0 < mu_width u" "slot < length (mu_reqs u)"
  shows "\<exists>u'. handleVectorLoad slot a sz u = Inr u' \<and>
    mu_sent u' = mu_sent u @ packets False (mu_next u) a (mu_width u) (chunks sz (mu_width u)) \<and>
    (\<forall>x. a \<le> x \<longrightarrow> x < a + sz \<longrightarrow> (\<exists>m \<in> set (drop (length (mu_sent u)) (mu_sent u')).
       mp_addr m \<le> x \<and> x < mp_addr m + mp_width m)) \<and>
    (\<forall>m \<in> set (drop (length (mu_sent u)) (mu_sent u')). a \<le> mp_addr m \<and> mp_addr m < a + sz)"
proof -
  let ?w = "mu_width u" and ?n = "chunks sz (mu_width u)"
  let ?ps = "packets False (mu_next u) a ?w ?n"
  obtain v where v: "send_loop False a sz slot 0 u = Inr v" "sent False a slot ?n u v"
    using send_loop_spec [OF assms(1), of False a sz slot 0] by auto
  have cover: "\<exists>m \<in> set ?ps. mp_addr m \<le> x \<and> x < mp_addr m + mp_width m" if "a \<le> x" "x < a + sz" for x
  proof -
    let ?k = "(x - a) div ?w"
    have "?k * ?w \<le> x - a" "x - a < ?k * ?w + ?w"
      using div_mult_mod_eq [of "x - a" ?w] mod_less_divisor [OF assms(1), of "x - a"] by linarith+
    then have kw: "a + ?k * ?w \<le> x" "x < a + ?k * ?w + ?w" using that by linarith+
    have "?k < ?n"
    proof (rule ccontr)
      assume "\<not> ?k < ?n"
      then have "?n * ?w \<le> ?k * ?w" by simp
      with chunks_enough [OF assms(1), of sz] kw(1) that show False by linarith
    qed
    with kw show ?thesis
      by (intro bexI [of _ "\<lparr>mp_id = mu_next u + ?k, mp_write = False, mp_addr = a + ?k * ?w,
        mp_width = ?w\<rparr>"]) (auto simp: packets_def)
  qed
  have inside: "\<forall>m \<in> set ?ps. a \<le> mp_addr m \<and> mp_addr m < a + sz"
    using chunks_needed [OF assms(1)] by (auto simp: packets_def)
  show ?thesis using v cover inside
    by (simp add: handleVectorLoad_def Let_def upd_request_def sent_def)
qed

theorem load_covers_bytes_witness:
  "\<exists>u'. handleVectorLoad 0 100 1025 (mk_mem_unit 1024) = Inr u' \<and>
     mu_sent u' = [\<lparr>mp_id = 0, mp_write = False, mp_addr = 100, mp_width = 1024\<rparr>,
                   \<lparr>mp_id = 1, mp_write = False, mp_addr = 1124, mp_width = 1024\<rparr>]"
  using load_covers_bytes [of "mk_mem_unit 1024" 0 100 1025]
  by (auto simp: mk_mem_unit_def packets_def chunks_def upt_rec)

definition waiting_unit :: mem_unit where
  "waiting_unit = addToLoadQueue (MemI LoadV (RV 0) 0 2000 False) (mk_mem_unit 1024)"

lemma waiting_unit: "mem_inv waiting_unit"
  using mem_inv_init [of 1024] slots_inv_fields [of waiting_unit "mk_mem_unit 1024"]
  by (simp add: mem_inv_def waiting_unit_def addToLoadQueue_def) (simp add: mk_mem_unit_def mem_instr_def)

lemma loaded_unit:
  "\<exists>u. mem_begin 1 (mk_regfile small_params) waiting_unit = Inr u \<and> mem_inv u \<and> mu_out u 0 = Some 0 \<and>
     outstanding u 0 = {0, 1}"
proof -
  have "\<exists>u. mem_begin 1 (mk_regfile small_params) waiting_unit = Inr u \<and> mu_out u 0 = Some 0 \<and>
      mu_out u 1 = Some 0 \<and> mu_next u = 2"
    by (simp add: mem_begin_def waiting_unit_def addToLoadQueue_def mk_mem_unit_def new_request_def
        issue_request_def handleVectorLoad_def send_loop.simps send_packet_def upd_request_def
        mem_stats_def Let_def del: allOperandsReady.simps add: mem_always_ready)
  then obtain u where u: "mem_begin 1 (mk_regfile small_params) waiting_unit = Inr u" "mu_out u 0 = Some 0"
      "mu_out u 1 = Some 0" "mu_next u = 2" by blast
  moreover have "outstanding u 0 = {0, 1}" using u(2-4) by (auto simp: outstanding_def lt_2)
  ultimately show ?thesis using mem_begin_ok [OF waiting_unit, of 1 "mk_regfile small_params"] by auto
qed

theorem unit_begins:
  assumes "mem_inv u"
  shows "\<exists>u'. mem_begin now rf u = Inr u' \<and> mem_inv u' \<and> mem_held u' = mem_held u \<and>
    suffix (mu_load u') (mu_load u) \<and> suffix (mu_store u') (mu_store u)"
  by (rule mem_begin_ok [OF assms])

theorem unit_begins_witness:
  "\<exists>u'. mem_begin 5 (mk_regfile small_params) (mk_mem_unit 64) = Inr u' \<and> mem_held u' = {#}"
  using unit_begins [of "mk_mem_unit 64" 5 "mk_regfile small_params"] mem_inv_init [of 64]
  by (auto simp: mem_held_def mk_mem_unit_def in_flight_def new_request_def)

text \<open>
  C27. A response removes its packet from the outstanding set, and the request is complete exactly
  when it was the last outstanding packet of its slot.
\<close>

theorem last_response_completes:
  assumes "mem_inv u" "mu_out u rid = Some slot"
  shows "\<exists>u'. handleResponse t rid u = Inr u' \<and> mem_inv u' \<and> mem_held u' = mem_held u \<and>
    outstanding u' slot = outstanding u slot - {rid} \<and>
    (mq_resp (mu_reqs u' ! slot) \<longleftrightarrow> outstanding u slot = {rid})"
  by (rule handleResponse_ok [OF assms])

theorem last_response_completes_witness:
  "\<exists>u u'. outstanding u 0 = {0, 1} \<and> handleResponse 9 0 u = Inr u' \<and> outstanding u' 0 = {1} \<and>
     \<not> mq_resp (mu_reqs u' ! 0)"
proof -
  obtain u where u: "mem_inv u" "mu_out u 0 = Some 0" "outstanding u 0 = {0, 1}"
    using loaded_unit by blast
  from last_response_completes [OF u(1,2), of 9] obtain u' where r:
    "handleResponse 9 0 u = Inr u'" "outstanding u' 0 = outstanding u 0 - {0}"
    "mq_resp (mu_reqs u' ! 0) \<longleftrightarrow> outstanding u 0 = {0}" by blast
  have "outstanding u' 0 = {1}" "\<not> mq_resp (mu_reqs u' ! 0)" unfolding r(2,3) u(3) by auto
  with r(1) u(3) show ?thesis by blast
qed

theorem finished_slot_leaves:
  assumes "mem_inv u" "slot < 2" "finish_slot slot (u, rf) = Inr (u', rf')"
  shows "mem_inv u' \<and>
    mem_held u = mem_held u' + (if mq_resp (mu_reqs u ! slot) then {# the (mq_busy (mu_reqs u ! slot)) #} else {#}) \<and>
    \<not> mq_resp (mu_reqs u' ! slot) \<and> (\<forall>t. t \<noteq> slot \<longrightarrow> mu_reqs u' ! t = mu_reqs u ! t)"
  by (rule finish_slot_ok(2) [OF assms])

theorem finished_slot_leaves_witness:
  "mem_inv (mk_mem_unit 64) \<and> finish_slot 1 (mk_mem_unit 64, mk_regfile small_params) = Inr (mk_mem_unit 64, mk_regfile small_params)"
  using finished_slot_leaves [of "mk_mem_unit 64" 1 "mk_regfile small_params" "mk_mem_unit 64" "mk_regfile small_params"] mem_inv_init [of 64]
  by (simp add: finish_slot_def mk_mem_unit_def new_request_def Let_def)

theorem youngest_load_aliases:
  assumes "\<forall>i \<in> set (mu_load u). \<exists>op r a n x. i = MemI op r a n x"
  shows "findLoadAlias addr u =
     Inr (map_option (\<lambda>i. case i of MemI op r a n x \<Rightarrow> r)
       (List.find (\<lambda>i. case i of MemI op r a n x \<Rightarrow> a = addr) (rev (mu_load u))))"
  using load_alias_youngest [of "rev (mu_load u)" addr] assms by (simp add: findLoadAlias_def)

theorem youngest_load_aliases_witness:
  "findLoadAlias 8 ((mk_mem_unit 64)\<lparr>mu_load := [MemI LoadV (RV 1) 8 4 False, MemI LoadV (RV 2) 8 4 False,
     MemI LoadV (RV 3) 16 4 False]\<rparr>) = Inr (Some (RV 2))"
  by (subst youngest_load_aliases) (auto simp: mk_mem_unit_def)

text \<open>
  C32. Each term gets an address once, keeps it, and the limbs of two terms never overlap in
  memory.
\<close>

theorem terms_do_not_overlap:
  assumes "terms_ok c" "term_address t c = (a, d)"
  shows "terms_ok d \<and> ch_terms d t = Some a \<and> (\<forall>s b. ch_terms c s = Some b \<longrightarrow> ch_terms d s = Some b) \<and>
    (\<forall>s b. s \<noteq> t \<longrightarrow> ch_terms d s = Some b \<longrightarrow> a + limbSize \<le> b \<or> b + limbSize \<le> a)"
  using term_address_ok [OF assms] terms_apart [of d t a] by blast

theorem terms_do_not_overlap_witness:
  "\<exists>d. term_address ''x'' small_chip = (0, d) \<and> terms_ok d \<and> ch_terms d ''x'' = Some 0"
proof -
  obtain a d where d: "term_address ''x'' small_chip = (a, d)" by force
  then have "a = 0" by (simp add: term_address_def small_chip_def mk_chip_def Let_def)
  with d terms_do_not_overlap [OF _ d] terms_ok_fresh show ?thesis by (auto simp: small_chip_def)
qed

text \<open>
  C31. A dispatch that stalls leaves the chip as it was but for the table of term addresses, so
  that the same instruction is tried again in the next cycle.
\<close>

theorem stall_changes_nothing:
  assumes "dispatch_one p c = Inr (False, p', c')"
  shows "c' = c\<lparr>ch_terms := ch_terms c', ch_numTerms := ch_numTerms c'\<rparr> \<and> (pi_op p \<noteq> EvkGen \<longrightarrow> p' = p)"
  using dispatch_one_stall [OF assms] by (simp add: but_terms_def)

theorem stall_changes_nothing_witness:
  "dispatch_one (parsed_plain Add 0 [ParsedVec 1 False] []) (set_rf ((mk_regfile small_params)\<lparr>rf_freeV := []\<rparr>) small_chip) =
     Inr (False, parsed_plain Add 0 [ParsedVec 1 False] [], set_rf ((mk_regfile small_params)\<lparr>rf_freeV := []\<rparr>) small_chip)"
proof -
  let ?p = "parsed_plain Add 0 [ParsedVec 1 False] []"
  let ?c = "set_rf ((mk_regfile small_params)\<lparr>rf_freeV := []\<rparr>) small_chip"
  have e: "dispatch_one ?p ?c = Inr (False, ?p, ?c)"
    by (simp add: dispatch_one_def parsed_plain_def dispatchBinOp_def set_rf_def)
  show ?thesis using stall_changes_nothing [OF e] e by simp
qed

section \<open>Network\<close>

theorem barrier_opens:
  assumes "ops_find sid nw = None" "rs \<noteq> []" "\<forall>r \<in> set rs. reg_chip r < 2 ^ 64"
    and "length rs = n \<Longrightarrow> length (filter reg_sends rs) = 1"
  shows "\<exists>nw'. register_all sid n Brc rs nw = Inr nw' \<and> networkReady sid nw' = Inr (length rs = n)"
proof -
  obtain nw' s where "register_all sid n Brc rs nw = Inr nw'" "ops_find sid nw' = Some s"
    "summary Brc rs s" "so_size s = n"
    using register_all_spec [OF assms(1-3), of Brc n] by blast
  then show ?thesis using assms(4)
    by (auto simp: networkReady_def summary_def sync_ready_def)
qed

theorem barrier_opens_witness:
  "\<exists>nw. register_all 7 2 Brc [(0, False, True), (1, True, False)] (mk_network 2) = Inr nw \<and>
     networkReady 7 nw = Inr True"
  using barrier_opens [of 7 "mk_network 2" "[(0, False, True), (1, True, False)]" 2]
  by (simp add: ops_find_def mk_network_def reg_defs)

theorem aggregation_opens:
  assumes "ops_find sid nw = None" "rs \<noteq> []" "\<forall>r \<in> set rs. reg_chip r < 2 ^ 64"
    and "length (filter reg_reply rs) = 1"
  shows "\<exists>nw'. register_all sid n Agg rs nw = Inr nw' \<and> networkReady sid nw' = Inr (length rs = n) \<and>
    (\<exists>s. ops_find sid nw' = Some s \<and> so_agg s = int (reg_chip (hd (filter reg_reply rs))) \<and>
       so_in s = int (length (filter reg_sends rs)))"
proof -
  obtain nw' s where "register_all sid n Agg rs nw = Inr nw'" "ops_find sid nw' = Some s"
    "summary Agg rs s" "so_size s = n"
    using register_all_spec [OF assms(1-3), of Agg n] assms(4) by auto
  then show ?thesis using assms(4)
    by (cases "filter reg_reply rs") (auto simp: networkReady_def summary_def sync_ready_def)
qed

theorem aggregation_opens_witness:
  "\<exists>nw. register_all 7 2 Agg [(0, False, True), (1, True, True)] (mk_network 2) = Inr nw \<and>
     networkReady 7 nw = Inr True"
  using aggregation_opens [of 7 "mk_network 2" "[(0, False, True), (1, True, True)]" 2]
  by (auto simp: ops_find_def mk_network_def reg_defs)

lemma count_distinct: "distinct xs \<Longrightarrow> count_list xs x = (if x \<in> set xs then 1 else 0)"
  by (induction xs) auto

text \<open>
  C29. When the one sender of a broadcast delivers its value, one transfer is queued for every
  registered receiver other than the sender's port, and none elsewhere.
\<close>

theorem broadcast_reaches_receivers:
  assumes "ops_find sid nw = None" "rs \<noteq> []" "\<forall>r \<in> set rs. reg_chip r < length (nw_buf nw)"
    and "length (nw_buf nw) < 2 ^ 64" "length (filter reg_sends rs) = 1"
    and "distinct (map reg_chip (filter reg_reply rs))"
  shows "\<exists>nw' nw''. register_all sid n Brc rs nw = Inr nw' \<and> handleInput sid port nw' = Inr nw'' \<and>
    (\<forall>k < length (nw_buf nw). nw_buf nw'' ! k = nw_buf nw ! k @
       (if int k \<noteq> port \<and> k \<in> reg_chip ` set (filter reg_reply rs)
        then [new_entry sid (224 * 1024)] else []))"
proof -
  have small: "\<forall>r \<in> set rs. reg_chip r < 2 ^ 64" using assms(3,4) by auto
  obtain nw' s where r: "register_all sid n Brc rs nw = Inr nw'" "ops_find sid nw' = Some s"
    "summary Brc rs s" "nw_buf nw' = nw_buf nw"
    using register_all_spec [OF assms(1,2) small, of Brc n] by blast
  let ?ds = "map (int \<circ> reg_chip) (filter reg_reply rs)"
  let ?nw = "ops_put sid (decrementInputsPending s) nw'"
  have s: "so_brc s = ?ds" "so_in s = 1" "so_op s = Brc" using r(3) assms(5) by (auto simp: summary_def)
  have "\<forall>i \<in> set ?ds. 0 \<le> i \<and> nat i < length (nw_buf ?nw)" using assms(3) r(4) by auto
  from push_entries [OF this, of port sid] obtain nw'' where
    p: "foldr_res (\<lambda>i nw. if i = port then Inr nw else push_entry sid i nw) ?ds ?nw = Inr nw''"
    "\<forall>k < length (nw_buf ?nw). nw_buf nw'' ! k = nw_buf ?nw ! k @
       replicate (count_list (filter (\<lambda>i. i \<noteq> port) ?ds) (int k)) (new_entry sid (224 * 1024))" by blast
  have "distinct ?ds" using assms(6) by (simp add: distinct_map comp_def inj_on_def)
  then have "distinct (filter (\<lambda>i. i \<noteq> port) ?ds)" by simp
  then have "count_list (filter (\<lambda>i. i \<noteq> port) ?ds) (int k) =
      (if int k \<noteq> port \<and> k \<in> reg_chip ` set (filter reg_reply rs) then 1 else 0)" for k
    by (subst count_distinct) auto
  moreover have "handleInput sid port nw' = Inr nw''"
    using r(2) s p(1) by (simp add: handleInput_def Let_def decrementInputsPending_def)
  ultimately show ?thesis using r(1,4) p(2) by auto
qed

lemma register_min:
  assumes "register sid n op r nw = Inr nw'" "\<forall>s. ops_find sid nw = Some s \<longrightarrow> 0 \<le> so_min s"
  shows "\<forall>s. ops_find sid nw' = Some s \<longrightarrow> 0 \<le> so_min s"
proof -
  have keep: "register_pending c op a b s = Inr s' \<Longrightarrow> 0 \<le> so_min s \<Longrightarrow> 0 \<le> so_min s'" for c a b s s'
    by (auto simp: register_pending_def Let_def incrementReadyCount_def incrementInputsPending_def
        incrementOutputsPending_def setAggregationDestination_def addBroadcastDestination_def
        guardr_Inr_iff split: op_type.splits if_splits)
  show ?thesis
  proof (cases "ops_find sid nw")
    case None
    then show ?thesis using assms(1) keep [of _ _ _ "new_sync sid n op"]
      by (auto simp: register_def tryRegisterSync_def bindr_Inr_iff new_sync_def)
  next
    case (Some s)
    then show ?thesis using assms keep [of _ _ _ s]
      by (auto simp: register_def tryRegisterSync_def bindr_Inr_iff split: if_splits)
  qed
qed

text \<open>
  C38. Whatever chips register, the network's delivery of a value computes the logarithm of a
  negative number, because the largest destination is never recorded.
\<close>

theorem hops_undefined:
  assumes "ops_find sid nw = None" "rs \<noteq> []" "\<forall>r \<in> set rs. reg_chip r < 2 ^ 64"
    and "op = Agg \<longrightarrow> length (filter reg_reply rs) \<le> 1"
  shows "\<exists>nw'. register_all sid n op rs nw = Inr nw' \<and> handleOutput sid port nw' = Inl Undefined"
proof -
  obtain nw' s where r: "register_all sid n op rs nw = Inr nw'" "ops_find sid nw' = Some s"
    "summary op rs s" using register_all_spec [OF assms, of n] by blast
  let ?I = "\<lambda>nw. \<forall>s. ops_find sid nw = Some s \<longrightarrow> 0 \<le> so_min s"
  have i: "?I nw" using assms(1) by simp
  have st: "?I b" if "a \<in> set rs" "?I nw0" "register sid n op a nw0 = Inr b" for a nw0 b
    by (rule register_min [OF that(3,2)])
  have "?I nw'"
    by (rule foldr_res_inv [OF r(1) [unfolded register_all_def], where I = ?I, OF i st])
  then have "computeHops s = Inl Undefined"
    using r(2,3) by (simp add: computeHops_def summary_def)
  then show ?thesis using r(1,2) by (simp add: handleOutput_def)
qed

theorem hops_undefined_witness:
  "\<exists>nw. register_all 7 2 Brc [(0, False, True), (3, True, False)] (mk_network 4) = Inr nw \<and>
     handleOutput 7 3 nw = Inl Undefined"
  using hops_undefined [of 7 "mk_network 4" "[(0, False, True), (3, True, False)]" Brc 2 3]
  by (simp add: ops_find_def mk_network_def reg_defs)

lemma three_ports: "ops_find 7 (mk_network 3) = None" "length (nw_buf (mk_network 3)) = 3"
  "nw_buf (mk_network 3) ! 2 = []"
  by (simp_all add: ops_find_def mk_network_def numeral_2_eq_2)

theorem broadcast_reaches_receivers_witness:
  "\<exists>nw' nw''. register_all 7 3 Brc [(0, False, True), (1, True, False), (2, True, False)] (mk_network 3) = Inr nw' \<and>
     handleInput 7 0 nw' = Inr nw'' \<and> nw_buf nw'' ! 2 = [new_entry 7 (224 * 1024)]"
proof -
  let ?rs = "[(0, False, True), (1, True, False), (2, True, False)]"
  have r: "?rs \<noteq> []" by simp
  have c: "\<forall>r \<in> set ?rs. reg_chip r < length (nw_buf (mk_network 3))"
    by (simp add: three_ports(2) reg_defs)
  have l: "length (nw_buf (mk_network 3)) < 2 ^ 64" by (simp only: three_ports(2))  simp
  have s: "length (filter reg_sends ?rs) = 1" by (simp add: reg_defs)
  have d: "distinct (map reg_chip (filter reg_reply ?rs))" by (simp add: reg_defs)
  have m: "2 \<in> reg_chip ` set (filter reg_reply ?rs)" by (simp add: reg_defs)
  from broadcast_reaches_receivers [OF three_ports(1) r c l s d, of 3 0] obtain nw' nw'' where
    n: "register_all 7 3 Brc ?rs (mk_network 3) = Inr nw'" "handleInput 7 0 nw' = Inr nw''"
    and b: "\<forall>k < length (nw_buf (mk_network 3)). nw_buf nw'' ! k = nw_buf (mk_network 3) ! k @
       (if int k \<noteq> 0 \<and> k \<in> reg_chip ` set (filter reg_reply ?rs)
        then [new_entry 7 (224 * 1024)] else [])" by (elim exE conjE) blast
  have "nw_buf nw'' ! 2 = [new_entry 7 (224 * 1024)]"
    using b [rule_format, of 2] m unfolding three_ports(2,3) by simp
  with n show ?thesis by blast
qed

definition waiting_queue :: dis_queue where
  "waiting_queue = mk_dis_queue\<lparr>dq_queue := [DisI Rcv (Some (RV 0)) None 7 2 None]\<rparr>"

text \<open>
  C30. While the network is not ready for the head of the distribute queue, whose operands are,
  nothing leaves the queue and no register changes; the first such cycle registers the head, which
  adds one to the count of its barrier and of no other, and later ones leave the network as it is.
\<close>

theorem head_waits:
  assumes "DisQueue_tick chip d rf nw = Inr (d', rf', nw')" "dq_busy d = None" "dq_queue d = i # rest"
    and "allOperandsReady rf i = Inr True" "syncID i = Inr sid" "networkReady sid nw' = Inr False"
  shows "dq_queue d' = dq_queue d \<and> dq_busy d' = None \<and> dq_sent d' = dq_sent d \<and> rf' = rf \<and>
    dq_registered d' \<and>
    (if dq_registered d then nw' = nw
     else head_registration chip i nw = Inr (True, nw') \<and>
       ready_count sid nw' = Suc (ready_count sid nw) \<and>
       (\<forall>k. k \<noteq> sid \<longrightarrow> ready_count k nw' = ready_count k nw))"
  by (rule tick_waits [OF assms])

theorem head_waits_witness:
  "\<exists>d rf nw. DisQueue_tick 1 waiting_queue (mk_regfile small_params) (mk_network 2) = Inr (d, rf, nw) \<and>
     networkReady 7 nw = Inr False \<and> dq_queue d = dq_queue waiting_queue \<and> dq_registered d \<and>
     ready_count 7 nw = 1"
proof -
  have "\<exists>d rf nw. DisQueue_tick 1 waiting_queue (mk_regfile small_params) (mk_network 2) = Inr (d, rf, nw) \<and>
      networkReady 7 nw = Inr False"
    by (simp add: DisQueue_tick_def waiting_queue_def mk_dis_queue_def try_register_def net_op_def
        tryRegisterSync_def ops_find_def mk_network_def register_pending_def new_sync_def Let_def
        incrementReadyCount_def incrementOutputsPending_def addBroadcastDestination_def
        networkReady_def ops_put_def sync_ready_def)
  moreover have "\<not> dq_registered waiting_queue" "ready_count 7 (mk_network 2) = 0"
    by (simp_all add: waiting_queue_def mk_dis_queue_def ready_count_def ops_find_def mk_network_def)
  ultimately show ?thesis
    using head_waits [of 1 waiting_queue "mk_regfile small_params" "mk_network 2" _ _ _ _ "[]" 7]
    by (fastforce simp: waiting_queue_def mk_dis_queue_def)
qed

theorem response_ends_wait:
  assumes "dq_busy d = Some i" "syncID i = Inr sid" "setExecutionComplete i rf = Inr rf'"
  shows "handle_incoming sid d rf = Inr (d\<lparr>dq_busy := None, dq_registered := False\<rparr>, rf') \<and>
    (\<forall>other. other \<noteq> sid \<longrightarrow> handle_incoming other d rf = Inl FatalExit)"
  using incoming_completes [OF assms] by blast

theorem response_ends_wait_witness:
  "\<exists>rf. handle_incoming 7 (mk_dis_queue\<lparr>dq_busy := Some (DisI Rcv None None 7 2 None)\<rparr>) rf =
     Inr (mk_dis_queue, rf) \<and>
   handle_incoming 8 (mk_dis_queue\<lparr>dq_busy := Some (DisI Rcv None None 7 2 None)\<rparr>) rf = Inl FatalExit"
  using response_ends_wait [of "mk_dis_queue\<lparr>dq_busy := Some (DisI Rcv None None 7 2 None)\<rparr>"
      "DisI Rcv None None 7 2 None" 7 "mk_regfile small_params" "mk_regfile small_params"]
  by (auto simp: mk_dis_queue_def dec_opt_def)

theorem may_finish_while_receiving:
  assumes "chip_okayToFinish c"
  shows "chip_okayToFinish (c\<lparr>ch_dis := (ch_dis c)\<lparr>dq_busy := Some i\<rparr>\<rparr>)"
  using assms by (simp add: chip_okayToFinish_def dis_okayToFinish_def Let_def)

theorem may_finish_while_receiving_witness:
  "chip_okayToFinish (small_chip\<lparr>ch_dis := (ch_dis small_chip)\<lparr>dq_busy := Some NoOp\<rparr>\<rparr>)"
  by (rule may_finish_while_receiving)
    (simp add: chip_okayToFinish_def small_chip_def mk_chip_def mem_okayToFinish_def mk_mem_unit_def
      new_request_def mk_units_def mk_fu_def fu_okayToFinish_def queue_okayToFinish_def list_all_iff
      dis_okayToFinish_def mk_dis_queue_def small_params_def)

section \<open>Traces and latencies\<close>

text \<open>
  C33. A trace line of a two or three operand instruction or a rotation, printed from vector,
  scalar and base conversion operands whose numbers fit their fields, is read back as that
  instruction.
\<close>

theorem alu_line_roundtrip:
  assumes "alu_opcode op = Some opc" "rot_ok op rot" "ds \<noteq> []" "list_all printable ds"
    and "ss \<noteq> []" "list_all printable ss" "base < 2 ^ 16"
    and "length (show_alu op rot ds ss base) < npos"
  shows "parse_line (show_alu op rot ds ss base) = Inr (parsed_rot opc rot base ds ss)"
  by (rule parse_line_alu [OF assms])

theorem alu_line_roundtrip_witness:
  "parse_line ''sud r1: r12[X], b0{7} | 4'' =
     Inr (parsed_rot SuD None 4 [ParsedVec 1 False] [ParsedVec 12 True, ParsedBcu 0 (Some 7)]) \<and>
   parse_line ''mus r1: r12, s3[X] | 4'' =
     Inr (parsed_rot Mul None 4 [ParsedVec 1 False] [ParsedVec 12 False, ParsedScal 3 True]) \<and>
   parse_line ''rot -16 r1: r2 | 0'' =
     Inr (parsed_rot Rot (Some (- 16)) 0 [ParsedVec 1 False] [ParsedVec 2 False])"
proof -
  have n: "show_nat 0 = ''0''" "show_nat 1 = ''1''" "show_nat (Suc 0) = ''1''" "show_nat 2 = ''2''"
    "show_nat 3 = ''3''" "show_nat 4 = ''4''" "show_nat 7 = ''7''" "show_nat 12 = ''12''" "show_nat 16 = ''16''"
    by code_simp+
  note eqs = show_alu_def show_rot_def show_int_def n
  have a: "show_alu ''sud'' None [ParsedVec 1 False] [ParsedVec 12 True, ParsedBcu 0 (Some 7)] 4 =
      ''sud r1: r12[X], b0{7} | 4''" by (simp add: eqs)
  have b: "show_alu ''mus'' None [ParsedVec 1 False] [ParsedVec 12 False, ParsedScal 3 True] 4 =
      ''mus r1: r12, s3[X] | 4''" by (simp add: eqs)
  have c: "show_alu ''rot'' (Some (- 16)) [ParsedVec 1 False] [ParsedVec 2 False] 0 =
      ''rot -16 r1: r2 | 0''" by (simp add: eqs)
  show ?thesis
    using alu_line_roundtrip [of "''sud''" SuD None "[ParsedVec 1 False]" "[ParsedVec 12 True, ParsedBcu 0 (Some 7)]" 4]
      alu_line_roundtrip [of "''mus''" Mul None "[ParsedVec 1 False]" "[ParsedVec 12 False, ParsedScal 3 True]" 4]
      alu_line_roundtrip [of "''rot''" Rot "Some (- 16)" "[ParsedVec 1 False]" "[ParsedVec 2 False]" 0]
    unfolding a b c by (simp add: alu_opcode_def rot_ok_def npos_def)
qed

theorem register_roundtrip:
  assumes "xs \<noteq> []" "list_all printable xs"
  shows "parse_values (show_values xs) = Inr xs"
  by (rule parse_values_show [OF assms])

theorem register_roundtrip_witness:
  "parse_values (show_values [ParsedVec 65535 True, ParsedScal 0 False]) =
     Inr [ParsedVec 65535 True, ParsedScal 0 False]"
  using register_roundtrip [of "[ParsedVec 65535 True, ParsedScal 0 False]"] by simp

lemma vreg_step:
  "rmatch vreg_re (CHR ''r'' # d # s, m) = (if is_digit d then rmatch (Star DigitC) (s, m) else [])"
  by (simp add: vreg_re_def)

lemma rsi_search:
  "regex_search rsi_regex ''{r1, r2, r3}: x | 0'' = Some [1 \<mapsto> ''r2, '', 2 \<mapsto> ''r3'']"
  "regex_search rsi_regex ''{r3}: x | 0'' = Some [2 \<mapsto> ''r3'']"
  by (simp_all add: rsi_regex_def vreg_re_def is_digit_def lit.simps)

lemma rsi_values:
  "parseValue ''r2, '' = Inr (ParsedVec 2 False)" "parseValue ''r3'' = Inr (ParsedVec 3 False)"
  "parseValue [] = Inl OutOfRange"
  by (simp_all add: parseValue_def char_at_def atr_def parse_reg_def find_sub_def find_char_def npos_def stoi_def
      parse_signed_def is_space_def is_digit_def digits_value_def erase_def substr_def set_first_def u16_def)

theorem rsi_loses_destinations:
  "handle_rsi ''{r1, r2, r3}: x | 0'' =
     Inr (parsed_plain Rsi 65535 [ParsedVec 2 False, ParsedVec 3 False] []) \<and>
   handle_rsi ''{r3}: x | 0'' = Inl OutOfRange"
  by (simp add: handle_rsi_def rsi_search rsi_values cap_def u16_def del: regex_search.simps)

theorem opcode_names_injective:
  assumes "getOpCodeString a = Inr s" "getOpCodeString b = Inr s"
  shows "a = b \<and> a \<noteq> NUM_OPCODES"
  using getOpCodeString_inj [OF assms] assms(1) by auto

theorem opcode_names_injective_witness: "getOpCodeString IntOp = Inr ''Int'' \<and> IntOp \<noteq> NUM_OPCODES"
  using opcode_names_injective [of IntOp "''Int''" IntOp] by simp

lemma log2_floor_bounds: "1 \<le> n \<Longrightarrow> 2 ^ log2_floor n \<le> n \<and> n < 2 ^ (log2_floor n + 1)"
proof (induction n rule: log2_floor.induct)
  case (1 n)
  show ?case
  proof (cases "n \<le> 1")
    case False
    then have IH: "2 ^ log2_floor (n div 2) \<le> n div 2" "n div 2 < 2 ^ (log2_floor (n div 2) + 1)"
      using 1(1) by auto
    have "log2_floor n = Suc (log2_floor (n div 2))" using False by (subst log2_floor.simps) simp
    with IH show ?thesis by (auto simp: algebra_simps)
  qed (use 1(2) in \<open>simp add: log2_floor.simps\<close>)
qed

theorem transpose_latency:
  assumes "accel_latencies V = Inr lat"
  shows "1 \<le> V \<and> V \<le> lat_Transpose lat \<and> 2 ^ (lat_Transpose lat - V) \<le> V \<and>
    V < 2 ^ (lat_Transpose lat - V + 1) \<and>
    lat_Rot lat = 2 * (lat_Rot_one_stage lat + lat_Transpose lat) \<and>
    lat_NTT lat = 2 * lat_NTT_one_stage lat + lat_Mul lat + lat_Transpose lat"
proof -
  have V: "1 \<le> V" "lat_Transpose lat = V + log2_floor V" "lat_Rot lat = 2 * (lat_Rot_one_stage lat + lat_Transpose lat)"
    "lat_NTT lat = 2 * lat_NTT_one_stage lat + lat_Mul lat + lat_Transpose lat"
    using assms by (auto simp: accel_latencies_def Let_def split: if_splits)
  then show ?thesis using log2_floor_bounds [of V] by simp
qed

theorem transpose_latency_witness: "2 \<le> lat_Transpose small_latencies"
  using transpose_latency [OF small_latencies] by simp

end
